(* ===== verification/Rust_Std.thy ===== *)
theory Rust_Std
  imports Main "HOL-Library.Word" "HOL-Library.Multiset" "HOL-Library.Char_ord"
    "HOL-Library.List_Lexorder" "HOL-Library.Product_Lexorder"
begin

text \<open>
  The prelude: what the modelled crates use of the Rust language and its standard library.
  Fixed-width integers are words (\<open>u64\<close>, \<open>u128\<close>, and \<open>i64\<close>, \<open>i128\<close> read through
  \<open>sint\<close>), a fallible call returns a sum whose left summand is the error, \<open>String\<close> is a list
  of bytes ordered lexicographically, \<open>Ordering\<close> and the stable \<open>sort_by\<close> are spelled out.
  The locale \<open>key_order\<close> is the contract every comparator of the program keeps, and
  \<open>BTreeMap\<close> is a list of pairs sorted by key.
\<close>

section \<open>Integers\<close>

type_synonym u8 = "8 word"
type_synonym u16 = "16 word"
type_synonym u32 = "32 word"
type_synonym u64 = "64 word"
type_synonym u128 = "128 word"
type_synonym i64 = "64 word"
type_synonym i128 = "128 word"

named_theorems checked_simps
named_theorems result_simps

definition checked_add :: "'a::len word \<Rightarrow> 'a word \<Rightarrow> 'a word option" where
  "checked_add a b = (if unat a + unat b < 2 ^ LENGTH('a) then Some (a + b) else None)"

definition checked_sub :: "'a::len word \<Rightarrow> 'a word \<Rightarrow> 'a word option" where
  "checked_sub a b = (if b \<le> a then Some (a - b) else None)"

definition checked_mul :: "'a::len word \<Rightarrow> 'a word \<Rightarrow> 'a word option" where
  "checked_mul a b = (if unat a * unat b < 2 ^ LENGTH('a) then Some (a * b) else None)"

definition saturating_add :: "'a::len word \<Rightarrow> 'a word \<Rightarrow> 'a word" where
  "saturating_add a b = (if unat a + unat b < 2 ^ LENGTH('a) then a + b else - 1)"

lemma checked_add_Some [checked_simps]:
  "checked_add a b = Some c \<longleftrightarrow>
     unat a + unat b < 2 ^ LENGTH('a) \<and> unat c = unat a + unat (b :: 'a::len word)"
  by (auto simp: checked_add_def unat_word_ariths word_unat_eq_iff)

lemma checked_add_None [checked_simps]:
  "checked_add a b = None \<longleftrightarrow> 2 ^ LENGTH('a) \<le> unat a + unat (b :: 'a::len word)"
  by (auto simp: checked_add_def)

lemma checked_sub_Some [checked_simps]:
  "checked_sub a b = Some c \<longleftrightarrow> unat b \<le> unat a \<and> unat c = unat a - unat b"
  by (auto simp: checked_sub_def word_le_nat_alt word_unat_eq_iff unat_sub)

lemma checked_sub_None [checked_simps]:
  "checked_sub a b = None \<longleftrightarrow> unat a < unat b"
  by (auto simp: checked_sub_def word_le_nat_alt)

lemma checked_mul_Some [checked_simps]:
  "checked_mul a b = Some c \<longleftrightarrow>
     unat a * unat b < 2 ^ LENGTH('a) \<and> unat c = unat a * unat (b :: 'a::len word)"
  by (auto simp: checked_mul_def unat_word_ariths word_unat_eq_iff)

lemma checked_mul_None [checked_simps]:
  "checked_mul a b = None \<longleftrightarrow> 2 ^ LENGTH('a) \<le> unat a * unat (b :: 'a::len word)"
  by (auto simp: checked_mul_def)

lemma ex_unat: "n < 2 ^ LENGTH('a) \<Longrightarrow> \<exists>w :: 'a::len word. unat w = n"
  by (rule exI [of _ "of_nat n"]) (simp add: unat_of_nat take_bit_nat_eq_self)

lemma unat_saturating_add:
  "unat (saturating_add a b) = min (2 ^ LENGTH('a) - 1) (unat a + unat (b :: 'a::len word))"
  by (auto simp: saturating_add_def unat_word_ariths unsigned_minus_1_eq_mask mask_eq_exp_minus_1)

text \<open>\<open>i128\<close> arithmetic: the word holds the two's complement, \<open>sint\<close> reads it.\<close>

definition i128_checked_add :: "i128 \<Rightarrow> i128 \<Rightarrow> i128 option" where
  "i128_checked_add a b =
     (let s = sint a + sint b in if - (2 ^ 127) \<le> s \<and> s < 2 ^ 127 then Some (word_of_int s) else None)"

definition i128_checked_sub :: "i128 \<Rightarrow> i128 \<Rightarrow> i128 option" where
  "i128_checked_sub a b =
     (let s = sint a - sint b in if - (2 ^ 127) \<le> s \<and> s < 2 ^ 127 then Some (word_of_int s) else None)"

lemma sint_word_of_int_i128:
  assumes "- (2 ^ 127) \<le> s" and "s < 2 ^ 127"
  shows "sint (word_of_int s :: i128) = s"
  using assms by (simp add: sint_sbintrunc' signed_take_bit_int_eq_self)

lemma i128_eq_iff: "a = b \<longleftrightarrow> sint a = sint (b :: i128)"
  by (metis signed_word_eqI)

lemma i128_checked_add_Some [checked_simps]:
  "i128_checked_add a b = Some c \<longleftrightarrow>
     - (2 ^ 127) \<le> sint a + sint b \<and> sint a + sint b < 2 ^ 127 \<and> sint c = sint a + sint b"
  unfolding i128_checked_add_def Let_def i128_eq_iff
  by (metis option.distinct(1) option.inject sint_word_of_int_i128 i128_eq_iff)

lemma i128_checked_sub_Some [checked_simps]:
  "i128_checked_sub a b = Some c \<longleftrightarrow>
     - (2 ^ 127) \<le> sint a - sint b \<and> sint a - sint b < 2 ^ 127 \<and> sint c = sint a - sint b"
  unfolding i128_checked_sub_def Let_def i128_eq_iff
  by (metis option.distinct(1) option.inject sint_word_of_int_i128 i128_eq_iff)

lemma i128_checked_add_None [checked_simps]:
  "i128_checked_add a b = None \<longleftrightarrow> \<not> (- (2 ^ 127) \<le> sint a + sint b \<and> sint a + sint b < 2 ^ 127)"
  by (auto simp: i128_checked_add_def Let_def)

lemma i128_checked_sub_None [checked_simps]:
  "i128_checked_sub a b = None \<longleftrightarrow> \<not> (- (2 ^ 127) \<le> sint a - sint b \<and> sint a - sint b < 2 ^ 127)"
  by (auto simp: i128_checked_sub_def Let_def)

text \<open>Conversions: \<open>from\<close> and \<open>as\<close> are \<open>ucast\<close>, \<open>try_from\<close> checks the target's range.\<close>

definition u128_from_u64 :: "u64 \<Rightarrow> u128" where
  "u128_from_u64 x = ucast x"

definition i128_from_u64 :: "u64 \<Rightarrow> i128" where
  "i128_from_u64 x = ucast x"

definition u64_try_from_u128 :: "u128 \<Rightarrow> u64 option" where
  "u64_try_from_u128 x = (if unat x < 2 ^ 64 then Some (ucast x) else None)"

definition u64_try_from_i128 :: "i128 \<Rightarrow> u64 option" where
  "u64_try_from_i128 x = (if 0 \<le> sint x \<and> sint x < 2 ^ 64 then Some (ucast x) else None)"

definition u128_try_from_i128 :: "i128 \<Rightarrow> u128 option" where
  "u128_try_from_i128 x = (if 0 \<le> sint x then Some x else None)"

lemma u64_lt: "unat (x :: u64) < 18446744073709551616"
  using unsigned_less [of x, where ?'a = nat] by simp

lemma u128_lt: "unat (x :: u128) < 340282366920938463463374607431768211456"
  using unsigned_less [of x, where ?'a = nat] by simp

lemma u64_uint_lt: "uint (x :: u64) < 18446744073709551616"
  using unsigned_less [of x, where ?'a = int] by simp

lemma u128_uint_lt: "uint (x :: u128) < 340282366920938463463374607431768211456"
  using unsigned_less [of x, where ?'a = int] by simp

lemma unat_ucast_u64_u128: "unat (ucast (x :: u64) :: u128) = unat x"
  using u64_lt [of x] by (simp add: unsigned_ucast_eq take_bit_nat_eq_self)

lemma unat_ucast_u128_u64: "unat x < 2 ^ 64 \<Longrightarrow> unat (ucast (x :: u128) :: u64) = unat x"
  by (simp add: unsigned_ucast_eq take_bit_nat_eq_self)

lemma unat_u128_from_u64 [simp]: "unat (u128_from_u64 x) = unat x"
  by (simp add: u128_from_u64_def unat_ucast_u64_u128)

lemma sint_i128:
  "sint (x :: i128) = (if uint x < 2 ^ 127 then uint x else uint x - 2 ^ 128)"
proof (cases "uint x < 2 ^ 127")
  case True
  moreover have "- (2 ^ 127) \<le> uint x"
    using order_trans [of "- (2 ^ 127)" 0 "uint x"] by simp
  ultimately show ?thesis
    using sint_word_of_int_i128 [of "uint x"] by simp
next
  case False
  have "sint (word_of_int (uint x - 2 ^ 128) :: i128) = uint x - 2 ^ 128"
    using False u128_uint_lt [of x] by (intro sint_word_of_int_i128) simp_all
  moreover have "word_of_int (uint x - 2 ^ 128) = x"
    by simp
  ultimately have "sint x = uint x - 2 ^ 128"
    by (simp only:)
  then show ?thesis
    using False by simp
qed

lemma sint_nonneg_uint: "0 \<le> sint (x :: i128) \<Longrightarrow> sint x = uint x"
  using u128_uint_lt [of x] by (simp add: sint_i128 split: if_splits)

lemma sint_i128_from_u64 [simp]: "sint (i128_from_u64 x) = uint x"
proof -
  have "uint (ucast x :: i128) = uint x"
    using unat_ucast_u64_u128 [of x] by (metis uint_nat)
  then show ?thesis
    using u64_uint_lt [of x] by (simp add: i128_from_u64_def sint_i128)
qed

lemma u64_try_from_u128_Some [checked_simps]:
  "u64_try_from_u128 x = Some y \<longleftrightarrow> unat y = unat x"
  using u64_lt [of y] unat_ucast_u128_u64 [of x]
  by (auto simp: u64_try_from_u128_def word_unat_eq_iff)

lemma u64_try_from_u128_None [checked_simps]:
  "u64_try_from_u128 x = None \<longleftrightarrow> 2 ^ 64 \<le> unat x"
  by (auto simp: u64_try_from_u128_def)

lemma u64_try_from_i128_Some [checked_simps]:
  "u64_try_from_i128 x = Some y \<longleftrightarrow> sint x = uint y"
proof (cases "0 \<le> sint x \<and> sint x < 2 ^ 64")
  case True
  then have "sint x = uint x"
    by (simp add: sint_nonneg_uint)
  moreover from this True have "uint (ucast x :: u64) = uint x"
    by (simp add: unsigned_ucast_eq take_bit_int_eq_self)
  ultimately show ?thesis
    using True by (simp add: u64_try_from_i128_def word_uint_eq_iff eq_commute)
next
  case False
  then show ?thesis
    using u64_uint_lt [of y] by (auto simp: u64_try_from_i128_def)
qed

lemma u64_try_from_i128_None [checked_simps]:
  "u64_try_from_i128 x = None \<longleftrightarrow> sint x < 0 \<or> 2 ^ 64 \<le> sint x"
  by (auto simp: u64_try_from_i128_def)

lemma u128_try_from_i128_Some [checked_simps]:
  "u128_try_from_i128 x = Some y \<longleftrightarrow> sint x = uint y \<and> y = x"
  by (auto simp: u128_try_from_i128_def sint_nonneg_uint)

lemma u128_try_from_i128_None [checked_simps]:
  "u128_try_from_i128 x = None \<longleftrightarrow> sint x < 0"
  by (auto simp: u128_try_from_i128_def)

section \<open>Results\<close>

text \<open>The \<open>?\<close> operator and the adaptors of \<open>Result\<close>, \<open>Option\<close> and \<open>Iterator\<close>.\<close>

fun and_then :: "'e + 'a \<Rightarrow> ('a \<Rightarrow> 'e + 'b) \<Rightarrow> 'e + 'b" where
  "and_then (Inl e) f = Inl e"
| "and_then (Inr x) f = f x"

fun map_err :: "('e \<Rightarrow> 'f) \<Rightarrow> 'e + 'a \<Rightarrow> 'f + 'a" where
  "map_err g (Inl e) = Inl (g e)"
| "map_err g (Inr x) = Inr x"

fun ok_or :: "'e \<Rightarrow> 'a option \<Rightarrow> 'e + 'a" where
  "ok_or e None = Inl e"
| "ok_or e (Some x) = Inr x"

definition ensure :: "bool \<Rightarrow> 'e \<Rightarrow> 'e + unit" where
  "ensure b e = (if b then Inr () else Inl e)"

fun try_fold :: "('b \<Rightarrow> 'a \<Rightarrow> 'e + 'b) \<Rightarrow> 'b \<Rightarrow> 'a list \<Rightarrow> 'e + 'b" where
  "try_fold f acc [] = Inr acc"
| "try_fold f acc (x # xs) = and_then (f acc x) (\<lambda>acc'. try_fold f acc' xs)"

text \<open>\<open>iter().map(f).collect::<Result<Vec<_>, _>>()\<close>: the first error in order wins.\<close>

fun try_map :: "('a \<Rightarrow> 'e + 'b) \<Rightarrow> 'a list \<Rightarrow> 'e + 'b list" where
  "try_map f [] = Inr []"
| "try_map f (x # xs) = and_then (f x) (\<lambda>y. and_then (try_map f xs) (\<lambda>ys. Inr (y # ys)))"

text \<open>\<open>for index in order { items[index] = f(items[index])? }\<close>\<close>

fun try_update_each :: "('a \<Rightarrow> 'e + 'a) \<Rightarrow> nat list \<Rightarrow> 'a list \<Rightarrow> 'e + 'a list" where
  "try_update_each f [] xs = Inr xs"
| "try_update_each f (i # is) xs =
     and_then (f (xs ! i)) (\<lambda>x. try_update_each f is (xs[i := x]))"

lemma and_then_Inr [result_simps]:
  "and_then m f = Inr y \<longleftrightarrow> (\<exists>x. m = Inr x \<and> f x = Inr y)"
  by (cases m) auto

lemma and_then_Inl [result_simps]:
  "and_then m f = Inl e \<longleftrightarrow> m = Inl e \<or> (\<exists>x. m = Inr x \<and> f x = Inl e)"
  by (cases m) auto

lemma map_err_Inr [result_simps]: "map_err g m = Inr x \<longleftrightarrow> m = Inr x"
  by (cases m) auto

lemma map_err_Inl [result_simps]: "map_err g m = Inl e \<longleftrightarrow> (\<exists>d. m = Inl d \<and> e = g d)"
  by (cases m) auto

lemma ok_or_Inr [result_simps]: "ok_or e m = Inr x \<longleftrightarrow> m = Some x"
  by (cases m) auto

lemma ok_or_Inl [result_simps]: "ok_or e m = Inl d \<longleftrightarrow> m = None \<and> d = e"
  by (cases m) auto

lemma ensure_Inr [result_simps]: "ensure b e = Inr u \<longleftrightarrow> b"
  by (simp add: ensure_def)

lemma ensure_Inl [result_simps]: "ensure b e = Inl d \<longleftrightarrow> \<not> b \<and> d = e"
  by (auto simp: ensure_def)

lemma and_then_cong [fundef_cong]:
  "m = m' \<Longrightarrow> (\<And>x. m' = Inr x \<Longrightarrow> f x = f' x) \<Longrightarrow> and_then m f = and_then m' f'"
  by (cases m') auto

lemma try_map_Inr [result_simps]:
  "try_map f xs = Inr ys \<longleftrightarrow> list_all2 (\<lambda>x y. f x = Inr y) xs ys"
  by (induction xs arbitrary: ys) (auto simp: result_simps list_all2_Cons1)

lemma try_map_Inl_D: "try_map f xs = Inl e \<Longrightarrow> \<exists>x \<in> set xs. f x = Inl e"
  by (induction xs) (auto simp: result_simps)

lemma try_map_total:
  assumes "\<And>x. x \<in> set xs \<Longrightarrow> f x = Inr (g x)"
  shows "try_map f xs = Inr (map g xs)"
  using assms by (induction xs) auto

lemma try_map_append:
  "try_map f (xs @ ys) =
     and_then (try_map f xs) (\<lambda>us. and_then (try_map f ys) (\<lambda>vs. Inr (us @ vs)))"
proof (induction xs)
  case Nil
  then show ?case by (cases "try_map f ys") simp_all
next
  case (Cons x xs)
  then show ?case
    by (cases "f x"; cases "try_map f xs"; cases "try_map f ys") simp_all
qed

lemma try_fold_append:
  "try_fold f acc (xs @ ys) = and_then (try_fold f acc xs) (\<lambda>acc'. try_fold f acc' ys)"
proof (induction xs arbitrary: acc)
  case (Cons x xs)
  then show ?case by (cases "f acc x") simp_all
qed simp

text \<open>Updating distinct positions one after the other maps them all.\<close>

lemma try_update_each_total:
  assumes "distinct is" and "\<And>i. i \<in> set is \<Longrightarrow> i < length xs \<and> f (xs ! i) = Inr (g (xs ! i))"
  shows "try_update_each f is xs =
    Inr (map (\<lambda>i. if i \<in> set is then g (xs ! i) else xs ! i) [0..<length xs])"
  using assms
proof (induction "is" arbitrary: xs)
  case Nil
  then show ?case by (simp add: map_nth)
next
  case (Cons i "is")
  let ?ys = "xs[i := g (xs ! i)]"
  have "f (xs ! i) = Inr (g (xs ! i))" and i: "i < length xs"
    using Cons.prems by auto
  moreover have "try_update_each f is ?ys =
      Inr (map (\<lambda>j. if j \<in> set is then g (?ys ! j) else ?ys ! j) [0..<length ?ys])"
  proof (rule Cons.IH)
    show "distinct is" using Cons.prems(1) by simp
    fix j assume "j \<in> set is"
    then show "j < length ?ys \<and> f (?ys ! j) = Inr (g (?ys ! j))"
      using Cons.prems by (cases "i = j") auto
  qed
  moreover have "map (\<lambda>j. if j \<in> set is then g (?ys ! j) else ?ys ! j) [0..<length ?ys] =
      map (\<lambda>j. if j \<in> set (i # is) then g (xs ! j) else xs ! j) [0..<length xs]"
    using Cons.prems(1) i by (auto simp: nth_list_update)
  ultimately show ?case by simp
qed

text \<open>A checked sum fails exactly when the exact sum leaves the word's range.\<close>

definition checked_sum :: "'e \<Rightarrow> 'a::len word list \<Rightarrow> 'e + 'a word" where
  "checked_sum e = try_fold (\<lambda>sum x. ok_or e (checked_add sum x)) 0"

lemma try_fold_checked_add_Inr:
  "try_fold (\<lambda>sum x. ok_or e (checked_add sum (h x))) s xs = Inr t \<longleftrightarrow>
     unat s + sum_list (map (unat \<circ> h) xs) < 2 ^ LENGTH('a) \<and>
     unat (t :: 'a::len word) = unat s + sum_list (map (unat \<circ> h) xs)"
proof (induction xs arbitrary: s)
  case Nil
  then show ?case by (auto simp: word_unat_eq_iff)
next
  case (Cons x xs)
  show ?case
  proof (cases "checked_add s (h x)")
    case None
    then have "2 ^ LENGTH('a) \<le> unat s + unat (h x)"
      by (simp add: checked_simps)
    with None show ?thesis by auto
  next
    case (Some c)
    then have "unat c = unat s + unat (h x)" by (simp add: checked_simps)
    with Some show ?thesis by (simp add: Cons.IH add.assoc)
  qed
qed

lemma try_fold_checked_add_Inl:
  "try_fold (\<lambda>sum x. ok_or e (checked_add sum (h x))) (s :: 'a::len word) xs = Inl d \<longleftrightarrow>
     2 ^ LENGTH('a) \<le> unat s + sum_list (map (unat \<circ> h) xs) \<and> d = e"
proof (induction xs arbitrary: s)
  case Nil
  have "\<not> 2 ^ LENGTH('a) \<le> unat s" by (simp add: not_le)
  then show ?case by simp
next
  case (Cons x xs)
  show ?case
  proof (cases "checked_add s (h x)")
    case None
    then have "2 ^ LENGTH('a) \<le> unat s + unat (h x)"
      by (simp add: checked_simps)
    with None show ?thesis by auto
  next
    case (Some c)
    then have "unat c = unat s + unat (h x)" by (simp add: checked_simps)
    with Some show ?thesis by (simp add: Cons.IH add.assoc)
  qed
qed

lemma checked_sum_Inr [result_simps]:
  "checked_sum e xs = Inr (t :: 'a::len word) \<longleftrightarrow>
     sum_list (map unat xs) < 2 ^ LENGTH('a) \<and> unat t = sum_list (map unat xs)"
  using try_fold_checked_add_Inr [of e "\<lambda>x. x" "0 :: 'a word" xs t]
  by (simp add: checked_sum_def comp_def)

lemma checked_sum_Inl [result_simps]:
  "checked_sum e (xs :: 'a::len word list) = Inl d \<longleftrightarrow>
     2 ^ LENGTH('a) \<le> sum_list (map unat xs) \<and> d = e"
  using try_fold_checked_add_Inl [of e "\<lambda>x. x" "0 :: 'a word" xs d]
  by (simp add: checked_sum_def comp_def)

section \<open>Orderings and sorting\<close>

datatype ordering = Less | Equal | Greater

definition cmp :: "'a::linorder \<Rightarrow> 'a \<Rightarrow> ordering" where
  "cmp x y = (if x < y then Less else if x = y then Equal else Greater)"

fun then_with :: "ordering \<Rightarrow> ordering \<Rightarrow> ordering" where
  "then_with Equal d = d"
| "then_with Less d = Less"
| "then_with Greater d = Greater"

text \<open>\<open>slice::sort_by\<close> is stable: equal elements keep their order.\<close>

fun insert_by :: "('a \<Rightarrow> 'a \<Rightarrow> ordering) \<Rightarrow> 'a \<Rightarrow> 'a list \<Rightarrow> 'a list" where
  "insert_by c x [] = [x]"
| "insert_by c x (y # ys) = (if c x y = Greater then y # insert_by c x ys else x # y # ys)"

fun sort_by :: "('a \<Rightarrow> 'a \<Rightarrow> ordering) \<Rightarrow> 'a list \<Rightarrow> 'a list" where
  "sort_by c [] = []"
| "sort_by c (x # xs) = insert_by c x (sort_by c xs)"

lemma cmp_simps [simp]:
  "cmp x y = Less \<longleftrightarrow> x < y"
  "cmp x y = Equal \<longleftrightarrow> x = y"
  "cmp x y = Greater \<longleftrightarrow> y < x"
  by (auto simp: cmp_def)

lemma then_with_cmp: "then_with (cmp a b) (cmp c d) = cmp (a, c) (b, d)"
  by (auto simp: cmp_def less_prod_def)

lemma then_with_assoc: "then_with (then_with a b) c = then_with a (then_with b c)"
  by (cases a) auto

lemma cmp_flip: "cmp b a = cmp (- uint a) (- uint b)"
  by (simp add: cmp_def word_less_def word_uint_eq_iff)

lemma mset_insert_by [simp]: "mset (insert_by c x xs) = add_mset x (mset xs)"
  by (induction xs) auto

lemma mset_sort_by [simp]: "mset (sort_by c xs) = mset xs"
  by (induction xs) auto

lemma set_sort_by [simp]: "set (sort_by c xs) = set xs"
  by (metis mset_sort_by set_mset_mset)

lemma length_sort_by [simp]: "length (sort_by c xs) = length xs"
  by (metis mset_sort_by size_mset)

lemma distinct_sort_by [simp]: "distinct (sort_by c xs) = distinct xs"
  by (metis mset_sort_by mset_eq_imp_distinct_iff)

lemma sum_list_sort_by [simp]: "sum_list (map f (sort_by c xs)) = (sum_list (map f xs) :: nat)"
  by (metis mset_map mset_sort_by sum_mset_sum_list)

text \<open>
  Every comparator of the program is the comparison of a sort key. Under that contract
  \<open>sort_by\<close> is the library's stable sort, its result is ordered by the key, and it does not
  depend on the order of the input when the keys of the elements are distinct.
\<close>

locale key_order =
  fixes c :: "'a \<Rightarrow> 'a \<Rightarrow> ordering" and key :: "'a \<Rightarrow> 'k::linorder"
  assumes compares: "c x y = cmp (key x) (key y)"
begin

lemma insert_by_eq: "insert_by c x xs = insort_key key x xs"
  by (induction xs) (auto simp: compares not_less)

lemma sort_by_eq: "sort_by c xs = sort_key key xs"
  by (induction xs) (auto simp: insert_by_eq)

lemma sorted_keys: "sorted (map key (sort_by c xs))"
  by (simp add: sort_by_eq)

lemma sorted_nth:
  assumes "i \<le> j" and "j < length xs"
  shows "key (sort_by c xs ! i) \<le> key (sort_by c xs ! j)"
  using sorted_nth_mono [OF sorted_keys assms(1), of xs] assms by simp

lemma take_drop_key:
  assumes "x \<in> set (take k (sort_by c xs))" and "y \<in> set (drop k (sort_by c xs))"
  shows "key x \<le> key y"
proof -
  have "sorted (map key (take k (sort_by c xs) @ drop k (sort_by c xs)))"
    by (simp add: sorted_keys)
  then show ?thesis
    unfolding map_append sorted_append using assms by auto
qed

lemma sort_by_sorted: "sorted (map key xs) \<Longrightarrow> sort_by c xs = xs"
  by (simp add: sort_by_eq sorted_sort_id sort_key_id_if_sorted)

lemma sort_by_idem: "sort_by c (sort_by c xs) = sort_by c xs"
  by (rule sort_by_sorted) (rule sorted_keys)

lemma sort_by_perm:
  assumes "mset xs = mset ys" and inj: "inj_on key (set xs)"
  shows "sort_by c xs = sort_by c ys"
proof -
  have "sort (map key xs) = map key (sort_by c zs)" if "mset zs = mset xs" for zs
    using that by (intro properties_for_sort sorted_keys) simp
  then have "map key (sort_by c xs) = map key (sort_by c ys)"
    using assms(1) by metis
  then show ?thesis
    using assms by (metis inj_on_map_eq_map mset_eq_setD set_sort_by sup.idem)
qed

lemma distinct_key_strict:
  assumes "distinct (map key xs)"
  shows "sorted_wrt (<) (map key (sort_by c xs))"
proof -
  have "distinct (map key (sort_by c xs))"
    using assms by (metis mset_eq_imp_distinct_iff mset_map mset_sort_by)
  then show ?thesis
    by (simp add: strict_sorted_iff sorted_keys)
qed

end

end
