(* ===== verification/Rust_Data.thy ===== *)
theory Rust_Data
  imports Rust_Std
begin

text \<open>
  Data of the Rust standard library: \<open>BTreeMap\<close> as a list of pairs in key order, behind the
  interface locale \<open>ordered_map\<close> with the grouping fold its clients run; little- and
  big-endian byte encodings of integers; ASCII case folding and the \<open>Display\<close> of integers.
\<close>

section \<open>Ordered maps\<close>

type_synonym ('k, 'v) btree = "('k \<times> 'v) list"

fun bt_put :: "'k::linorder \<Rightarrow> 'v \<Rightarrow> ('k, 'v) btree \<Rightarrow> ('k, 'v) btree" where
  "bt_put k v [] = [(k, v)]"
| "bt_put k v (kv # m) =
     (if k < fst kv then (k, v) # kv # m
      else if k = fst kv then (k, v) # m else kv # bt_put k v m)"

fun bt_get :: "('k::linorder, 'v) btree \<Rightarrow> 'k \<Rightarrow> 'v option" where
  "bt_get [] k = None"
| "bt_get (kv # m) k = (if k = fst kv then Some (snd kv) else bt_get m k)"

definition bt_ok :: "('k::linorder, 'v) btree \<Rightarrow> bool" where
  "bt_ok m \<longleftrightarrow> sorted_wrt (<) (map fst m)"

definition bt_entries :: "('k::linorder, 'v) btree \<Rightarrow> ('k \<times> 'v) list" where
  "bt_entries m = m"

definition bt_values :: "('k::linorder, 'v) btree \<Rightarrow> 'v list" where
  "bt_values m = map snd (bt_entries m)"

text \<open>The fold of one key's items: \<open>entry(key)\<close> absent at first, then the value so far.\<close>

fun try_fold_opt :: "('x \<Rightarrow> 'v option \<Rightarrow> 'e + 'v) \<Rightarrow> 'v option \<Rightarrow> 'x list \<Rightarrow> 'e + 'v option" where
  "try_fold_opt step v [] = Inr v"
| "try_fold_opt step v (x # xs) = and_then (step x v) (\<lambda>w. try_fold_opt step (Some w) xs)"

lemma try_fold_opt_Some: "try_fold_opt step v xs = Inr None \<Longrightarrow> v = None \<and> xs = []"
  by (induction xs arbitrary: v) (auto simp: result_simps)

locale ordered_map =
  fixes get :: "'m \<Rightarrow> 'k::linorder \<Rightarrow> 'v option"
    and put :: "'k \<Rightarrow> 'v \<Rightarrow> 'm \<Rightarrow> 'm"
    and entries :: "'m \<Rightarrow> ('k \<times> 'v) list"
    and ok :: "'m \<Rightarrow> bool"
  assumes get_put: "ok m \<Longrightarrow> get (put k v m) j = (if j = k then Some v else get m j)"
    and ok_put: "ok m \<Longrightarrow> ok (put k v m)"
    and entries_get: "ok m \<Longrightarrow> map_of (entries m) = get m"
    and entries_sorted: "ok m \<Longrightarrow> sorted_wrt (<) (map fst (entries m))"
begin

lemma entries_distinct: "ok m \<Longrightarrow> distinct (map fst (entries m))"
  using entries_sorted strict_sorted_iff by blast

lemma in_entries: "ok m \<Longrightarrow> (k, v) \<in> set (entries m) \<longleftrightarrow> get m k = Some v"
  using entries_distinct entries_get by (metis map_of_eq_Some_iff)

lemma keys_entries: "ok m \<Longrightarrow> fst ` set (entries m) = {k. get m k \<noteq> None}"
  by (simp add: entries_get [symmetric] dom_map_of_conv_image_fst [symmetric] dom_def)

text \<open>\<open>for x in xs { *map.entry(kf(x)).or_insert(..) = step(..)? }\<close>\<close>

lemma group_fold:
  assumes "ok m0"
    and "try_fold (\<lambda>m x. and_then (step x (get m (kf x))) (\<lambda>v. Inr (put (kf x) v m))) m0 xs = Inr m"
  shows "ok m \<and> (\<forall>k. try_fold_opt step (get m0 k) (filter (\<lambda>x. kf x = k) xs) = Inr (get m k))"
  using assms
proof (induction xs arbitrary: m0)
  case (Cons x xs)
  from Cons.prems(2) obtain v where v: "step x (get m0 (kf x)) = Inr v"
    and rest: "try_fold (\<lambda>m x. and_then (step x (get m (kf x))) (\<lambda>v. Inr (put (kf x) v m)))
      (put (kf x) v m0) xs = Inr m"
    by (auto simp: result_simps)
  have "ok (put (kf x) v m0)"
    using Cons.prems(1) by (rule ok_put)
  note IH = Cons.IH [OF this rest]
  show ?case
  proof (intro conjI allI)
    show "ok m" using IH by simp
    fix k
    have "try_fold_opt step (get (put (kf x) v m0) k) (filter (\<lambda>x. kf x = k) xs) = Inr (get m k)"
      using IH by simp
    then show "try_fold_opt step (get m0 k) (filter (\<lambda>x. kf x = k) (x # xs)) = Inr (get m k)"
      using v Cons.prems(1) by (cases "kf x = k") (auto simp: get_put)
  qed
qed simp

lemma group_fold_total:
  assumes "ok m0"
    and "\<And>k. \<exists>v. try_fold_opt step (get m0 k) (filter (\<lambda>x. kf x = k) xs) = Inr v"
  shows "\<exists>m. try_fold (\<lambda>m x. and_then (step x (get m (kf x))) (\<lambda>v. Inr (put (kf x) v m))) m0 xs = Inr m"
  using assms
proof (induction xs arbitrary: m0)
  case (Cons x xs)
  from Cons.prems(2) [of "kf x"] obtain v where v: "step x (get m0 (kf x)) = Inr v"
    by (auto simp: result_simps)
  have "\<exists>m. try_fold (\<lambda>m x. and_then (step x (get m (kf x))) (\<lambda>v. Inr (put (kf x) v m)))
      (put (kf x) v m0) xs = Inr m"
  proof (rule Cons.IH)
    show "ok (put (kf x) v m0)" using Cons.prems(1) by (rule ok_put)
    fix k
    show "\<exists>w. try_fold_opt step (get (put (kf x) v m0) k) (filter (\<lambda>x. kf x = k) xs) = Inr w"
      using Cons.prems(2) [of k] v Cons.prems(1) by (auto simp: get_put split: if_splits)
  qed
  with v show ?case by simp
qed simp

end

lemma bt_get_map_of: "bt_get m = map_of m"
proof
  fix k show "bt_get m k = map_of m k"
    by (induction m) (auto simp: fun_upd_def)
qed

lemma fst_set_bt_put: "fst ` set (bt_put k v m) = insert k (fst ` set m)"
  by (induction m) auto

lemma bt_ok_put: "bt_ok m \<Longrightarrow> bt_ok (bt_put k v m)"
proof (induction m)
  case (Cons kv m)
  then have IH: "bt_ok (bt_put k v m)" and lt: "\<forall>j \<in> fst ` set m. fst kv < j"
    by (auto simp: bt_ok_def)
  show ?case
    using IH lt Cons.prems fst_set_bt_put [of k v m]
    by (auto simp: bt_ok_def dest: less_trans)
qed (simp add: bt_ok_def)

lemma bt_get_put: "bt_ok m \<Longrightarrow> bt_get (bt_put k v m) j = (if j = k then Some v else bt_get m j)"
  by (induction m) (auto simp: bt_ok_def)

interpretation bt: ordered_map bt_get bt_put bt_entries bt_ok
proof (unfold_locales, goal_cases)
  case (1 m k v j)
  then show ?case by (rule bt_get_put)
next
  case (2 m k v)
  then show ?case by (rule bt_ok_put)
next
  case (3 m)
  show ?case by (simp add: bt_entries_def bt_get_map_of)
next
  case (4 m)
  then show ?case by (simp add: bt_entries_def bt_ok_def)
qed

lemma bt_ok_Nil [simp]: "bt_ok []"
  by (simp add: bt_ok_def)

lemma bt_ext:
  assumes "bt_ok m" and "bt_ok n" and "bt_get m = bt_get n"
  shows "m = n"
proof -
  have "set m = set n"
    using bt.in_entries [OF assms(1)] bt.in_entries [OF assms(2)] assms(3)
    by (auto simp: bt_entries_def)
  moreover have "distinct (map fst m)" "distinct (map fst n)"
    using bt.entries_distinct assms(1,2) by (auto simp: bt_entries_def)
  moreover have "sorted (map fst m)" "sorted (map fst n)"
    using assms(1,2) by (auto simp: bt_ok_def strict_sorted_iff)
  ultimately show ?thesis
    by (metis map_sorted_distinct_set_unique distinct_map inj_on_Un set_append sup.idem)
qed

text \<open>
  \<open>*map.entry(key).or_insert(0) += w\<close>, checked: the grouping every account table of the
  program runs.
\<close>

definition opt_unat :: "'w::len word option \<Rightarrow> nat" where
  "opt_unat v = (case v of None \<Rightarrow> 0 | Some w \<Rightarrow> unat w)"

definition sum_step :: "'e \<Rightarrow> 'k \<times> 'w::len word \<Rightarrow> 'w word option \<Rightarrow> 'e + 'w word" where
  "sum_step e kw v = ok_or e (checked_add (case v of None \<Rightarrow> 0 | Some x \<Rightarrow> x) (snd kw))"

definition add_weight ::
    "'e \<Rightarrow> ('k::linorder, 'w::len word) btree \<Rightarrow> 'k \<times> 'w word \<Rightarrow> 'e + ('k, 'w word) btree" where
  "add_weight e m kw =
     and_then (sum_step e kw (bt_get m (fst kw))) (\<lambda>v. Inr (bt_put (fst kw) v m))"

abbreviation weight_of :: "'k \<Rightarrow> ('k \<times> 'w::len word) list \<Rightarrow> nat" where
  "weight_of k kws \<equiv> sum_list (map (unat \<circ> snd) (filter (\<lambda>kw. fst kw = k) kws))"

lemma opt_unat_simps [simp]: "opt_unat None = 0" "opt_unat (Some w) = unat w"
  by (simp_all add: opt_unat_def)

lemma sum_step_Inr [result_simps]:
  "sum_step e kw v = Inr (w :: 'w::len word) \<longleftrightarrow>
     opt_unat v + unat (snd kw) < 2 ^ LENGTH('w) \<and> unat w = opt_unat v + unat (snd kw)"
  by (cases v) (auto simp: sum_step_def result_simps checked_simps word_unat_eq_iff)

lemma try_fold_opt_sum:
  "try_fold_opt (sum_step e) v kws = Inr r \<longleftrightarrow>
     (if kws = [] then r = v
      else opt_unat v + sum_list (map (unat \<circ> snd) kws) < 2 ^ LENGTH('w) \<and>
        (\<exists>w :: 'w::len word. r = Some w \<and> unat w = opt_unat v + sum_list (map (unat \<circ> snd) kws)))"
proof (induction kws arbitrary: v)
  case (Cons kw kws)
  show ?case
  proof (cases "opt_unat v + unat (snd kw) < 2 ^ LENGTH('w)")
    case True
    then obtain w :: "'w word" where w: "unat w = opt_unat v + unat (snd kw)"
      using ex_unat by blast
    then have "sum_step e kw v = Inr w"
      using True by (simp add: result_simps)
    then show ?thesis
      using w True by (auto simp: Cons.IH comp_def add.assoc word_unat_eq_iff)
  next
    case False
    then have "\<nexists>w. sum_step e kw v = Inr w"
      by (simp add: result_simps)
    with False show ?thesis
      by (cases "sum_step e kw v") auto
  qed
qed auto

lemma add_weights_fold:
  assumes "bt_ok m0" and "try_fold (add_weight e) m0 kws = Inr m"
  shows "bt_ok m" and "opt_unat (bt_get m k) = opt_unat (bt_get m0 k) + weight_of k kws"
    and "bt_get m k = None \<longleftrightarrow> bt_get m0 k = None \<and> k \<notin> fst ` set kws"
proof -
  have "try_fold (\<lambda>m kw. and_then (sum_step e kw (bt_get m (fst kw))) (\<lambda>v. Inr (bt_put (fst kw) v m)))
      m0 kws = Inr m"
    using assms(2) by (simp add: add_weight_def [abs_def])
  note folded = bt.group_fold [OF assms(1) this]
  then show "bt_ok m" by simp
  from folded have "try_fold_opt (sum_step e) (bt_get m0 k) (filter (\<lambda>kw. fst kw = k) kws) =
      Inr (bt_get m k)"
    by simp
  then show "opt_unat (bt_get m k) = opt_unat (bt_get m0 k) + weight_of k kws"
    and "bt_get m k = None \<longleftrightarrow> bt_get m0 k = None \<and> k \<notin> fst ` set kws"
    by (auto simp: try_fold_opt_sum filter_empty_conv image_iff split: if_splits)
qed

lemma add_weights_total:
  assumes "bt_ok m0"
    and "\<And>k. opt_unat (bt_get m0 k) + weight_of k kws < 2 ^ LENGTH('w)"
  shows "\<exists>m. try_fold (add_weight e) (m0 :: ('k::linorder, 'w::len word) btree) kws = Inr m"
proof -
  have "\<exists>v. try_fold_opt (sum_step e) (bt_get m0 k) (filter (\<lambda>kw. fst kw = k) kws) = Inr v" for k
    using assms(2) [of k] ex_unat [OF assms(2) [of k]]
    by (auto simp: try_fold_opt_sum)
  from bt.group_fold_total [OF assms(1) this] show ?thesis
    by (simp add: add_weight_def [abs_def])
qed

lemma weights_eqI:
  assumes "bt_ok m" and "bt_ok n" and "\<And>k. opt_unat (bt_get m k) = opt_unat (bt_get n k)"
    and "\<And>k. bt_get m k = None \<longleftrightarrow> bt_get n k = None"
  shows "m = n"
proof (rule bt_ext [OF assms(1,2)])
  show "bt_get m = bt_get n"
  proof
    fix k show "bt_get m k = bt_get n k"
      using assms(3,4) [of k]
      by (cases "bt_get m k"; cases "bt_get n k") (auto simp: word_unat_eq_iff)
  qed
qed

lemma weight_of_entries:
  assumes "bt_ok m"
  shows "weight_of k (bt_entries m) = opt_unat (bt_get m k)"
  using assms
proof (induction m)
  case (Cons kv m)
  have ok: "bt_ok m" and lt: "\<forall>j \<in> fst ` set m. fst kv < j"
    using Cons.prems by (auto simp: bt_ok_def)
  have "filter (\<lambda>kw. fst kw = fst kv) m = []"
    using lt by (auto simp: filter_empty_conv)
  then show ?case
    using Cons.IH [OF ok] by (auto simp: bt_entries_def)
qed (simp add: bt_entries_def)

lemma weight_of_le: "weight_of k kws \<le> sum_list (map (unat \<circ> snd) kws)"
  by (induction kws) auto

lemma weight_of_append: "weight_of k (xs @ ys) = weight_of k xs + weight_of k ys"
  by simp

section \<open>Bytes\<close>

definition to_le_bytes :: "'a::len word \<Rightarrow> u8 list" where
  "to_le_bytes w = map (\<lambda>i. ucast (drop_bit (8 * i) w)) [0..<LENGTH('a) div 8]"

definition to_be_bytes :: "'a::len word \<Rightarrow> u8 list" where
  "to_be_bytes w = rev (to_le_bytes w)"

text \<open>The number a little-endian byte string denotes.\<close>

fun le_value :: "u8 list \<Rightarrow> nat" where
  "le_value [] = 0"
| "le_value (b # bs) = unat b + 256 * le_value bs"

lemma length_to_le_bytes [simp]: "length (to_le_bytes (w :: 'a::len word)) = LENGTH('a) div 8"
  by (simp add: to_le_bytes_def)

lemma length_to_be_bytes [simp]: "length (to_be_bytes (w :: 'a::len word)) = LENGTH('a) div 8"
  by (simp add: to_be_bytes_def)

lemma le_value_append: "le_value (xs @ ys) = le_value xs + 256 ^ length xs * le_value ys"
  by (induction xs) (simp_all add: algebra_simps)

lemma le_value_bound: "le_value bs < 256 ^ length bs"
proof (induction bs)
  case (Cons b bs)
  have "unat b < 256"
    using unsigned_less [of b, where ?'a = nat] by simp
  with Cons show ?case by simp
qed simp

lemma unat_byte: "unat (ucast (drop_bit (8 * i) w) :: u8) = unat (w :: 'a::len word) div 256 ^ i mod 256"
proof -
  have "unat (drop_bit (8 * i) w) = unat w div 2 ^ (8 * i)"
    by (simp only: unsigned_drop_bit_eq take_bit_nat_eq_self [OF unsigned_less]
        drop_bit_eq_div [of _ "unat w"])
  also have "\<dots> = unat w div 256 ^ i"
    by (simp add: power_mult)
  finally show ?thesis
    by (simp only: unsigned_ucast_eq take_bit_eq_mod) simp
qed

lemma le_value_bytes:
  "le_value (map (\<lambda>i. ucast (drop_bit (8 * i) (w :: 'a::len word))) [0..<n]) = unat w mod 256 ^ n"
proof (induction n)
  case (Suc n)
  have "unat w mod 256 ^ Suc n = 256 ^ n * (unat w div 256 ^ n mod 256) + unat w mod 256 ^ n"
    using mod_mult2_eq [of "unat w" "256 ^ n" 256] by (simp add: mult.commute)
  then show ?case
    by (simp add: le_value_append Suc.IH unat_byte)
qed simp

lemma le_value_to_le_bytes:
  assumes "8 dvd LENGTH('a::len)"
  shows "le_value (to_le_bytes (w :: 'a word)) = unat w"
proof -
  obtain n where n: "LENGTH('a) = 8 * n"
    using assms by (rule dvdE)
  then have "(256 :: nat) ^ (LENGTH('a) div 8) = 2 ^ LENGTH('a)"
    by (simp add: power_mult)
  then show ?thesis
    by (simp add: to_le_bytes_def le_value_bytes)
qed

section \<open>Strings\<close>

definition ascii_lower :: "char \<Rightarrow> char" where
  "ascii_lower c =
     (let n = of_char c :: nat in if 65 \<le> n \<and> n \<le> 90 then char_of (n + 32) else c)"

definition to_ascii_lowercase :: "string \<Rightarrow> string" where
  "to_ascii_lowercase s = map ascii_lower s"

definition eq_ignore_ascii_case :: "string \<Rightarrow> string \<Rightarrow> bool" where
  "eq_ignore_ascii_case a b \<longleftrightarrow> to_ascii_lowercase a = to_ascii_lowercase b"

fun show_nat :: "nat \<Rightarrow> string" where
  "show_nat n = (if n < 10 then [char_of (48 + n)] else show_nat (n div 10) @ [char_of (48 + n mod 10)])"

declare show_nat.simps [simp del]

definition as_bytes :: "string \<Rightarrow> u8 list" where
  "as_bytes s = map (\<lambda>c. of_nat (of_char c)) s"

text \<open>The \<open>{byte:02x}\<close> format.\<close>

definition hex_digit :: "nat \<Rightarrow> char" where
  "hex_digit n = char_of (if n < 10 then 48 + n else 87 + n)"

definition hex_02x :: "u8 \<Rightarrow> string" where
  "hex_02x b = [hex_digit (unat b div 16), hex_digit (unat b mod 16)]"

lemma ascii_lower_idem [simp]: "ascii_lower (ascii_lower c) = ascii_lower c"
  by (auto simp: ascii_lower_def Let_def)

lemma to_ascii_lowercase_idem [simp]:
  "to_ascii_lowercase (to_ascii_lowercase s) = to_ascii_lowercase s"
  by (simp add: to_ascii_lowercase_def)

lemma length_to_ascii_lowercase [simp]: "length (to_ascii_lowercase s) = length s"
  by (simp add: to_ascii_lowercase_def)

lemma eq_ignore_ascii_case_refl [simp]: "eq_ignore_ascii_case s s"
  by (simp add: eq_ignore_ascii_case_def)

end
