(* ===== verification/Crates.thy ===== *)
theory Crates
  imports Rust_Data
begin

text \<open>
  The third-party crates the program calls, as one record of functions that every definition
  using them takes as an argument: \<open>hex\<close>, \<open>sha2\<close> and \<open>ed25519_dalek\<close>. What the program
  relies on is stated by the predicates \<open>hex_spec\<close>, \<open>sha256_spec\<close> and \<open>ed25519_spec\<close>
  (documented behaviour of those crates); the properties that need them take them as
  hypotheses. \<open>sample_crates\<close> is an instance on which the witnesses run; it stands for no
  code of the repository.
\<close>

record crates =
  hex_encode :: "u8 list \<Rightarrow> string"
  hex_decode :: "string \<Rightarrow> string + u8 list"
  sha256_digest :: "u8 list \<Rightarrow> u8 list"
  ed_public_key :: "u8 list \<Rightarrow> u8 list"
  ed_sign :: "u8 list \<Rightarrow> u8 list \<Rightarrow> u8 list"
  ed_key_ok :: "u8 list \<Rightarrow> bool"
  ed_verify :: "u8 list \<Rightarrow> u8 list \<Rightarrow> u8 list \<Rightarrow> bool"

text \<open>
  \<open>hex\<close>: encoding is lower case, two digits a byte; decoding accepts either case, inverts
  encoding, and is undone by it up to case.
\<close>

definition hex_spec :: "'x crates_scheme \<Rightarrow> bool" where
  "hex_spec X \<longleftrightarrow>
     (\<forall>bs. hex_decode X (hex_encode X bs) = Inr bs) \<and>
     (\<forall>bs. length (hex_encode X bs) = 2 * length bs) \<and>
     (\<forall>s bs. hex_decode X s = Inr bs \<longrightarrow> hex_encode X bs = to_ascii_lowercase s)"

definition sha256_spec :: "'x crates_scheme \<Rightarrow> bool" where
  "sha256_spec X \<longleftrightarrow> (\<forall>bs. length (sha256_digest X bs) = 32)"

definition ed25519_spec :: "'x crates_scheme \<Rightarrow> bool" where
  "ed25519_spec X \<longleftrightarrow>
     (\<forall>seed. length seed = 32 \<longrightarrow>
        length (ed_public_key X seed) = 32 \<and> ed_key_ok X (ed_public_key X seed) \<and>
        (\<forall>msg. length (ed_sign X seed msg) = 64 \<and>
           ed_verify X (ed_public_key X seed) msg (ed_sign X seed msg)))"

lemma hex_decode_encode: "hex_spec X \<Longrightarrow> hex_decode X (hex_encode X bs) = Inr bs"
  by (simp add: hex_spec_def)

lemma length_hex_encode: "hex_spec X \<Longrightarrow> length (hex_encode X bs) = 2 * length bs"
  by (simp add: hex_spec_def)

lemma hex_encode_decode:
  "hex_spec X \<Longrightarrow> hex_decode X s = Inr bs \<Longrightarrow> hex_encode X bs = to_ascii_lowercase s"
  by (simp add: hex_spec_def)

lemma hex_encode_inj: "hex_spec X \<Longrightarrow> hex_encode X a = hex_encode X b \<longleftrightarrow> a = b"
  by (metis hex_decode_encode sum.inject(2))

section \<open>An instance for the witnesses\<close>

fun sample_nibble :: "char \<Rightarrow> nat option" where
  "sample_nibble c =
     (let n = of_char c :: nat in
      if 48 \<le> n \<and> n \<le> 57 then Some (n - 48)
      else if 97 \<le> n \<and> n \<le> 102 then Some (n - 87)
      else if 65 \<le> n \<and> n \<le> 70 then Some (n - 55) else None)"

fun sample_hex_decode :: "string \<Rightarrow> string + u8 list" where
  "sample_hex_decode [] = Inr []"
| "sample_hex_decode [c] = Inl ''Odd number of digits''"
| "sample_hex_decode (c # d # s) =
     (case (sample_nibble c, sample_nibble d) of
        (Some hi, Some lo) \<Rightarrow>
          and_then (sample_hex_decode s) (\<lambda>bs. Inr (of_nat (16 * hi + lo) # bs))
      | _ \<Rightarrow> Inl ''Invalid character'')"

definition sample_hex_encode :: "u8 list \<Rightarrow> string" where
  "sample_hex_encode bs = concat (map hex_02x bs)"

definition sample_digest :: "u8 list \<Rightarrow> u8 list" where
  "sample_digest bs = take 32 (bs @ replicate 32 0)"

definition sample_crates :: crates where
  "sample_crates = \<lparr>
     hex_encode = sample_hex_encode,
     hex_decode = sample_hex_decode,
     sha256_digest = sample_digest,
     ed_public_key = sample_digest,
     ed_sign = (\<lambda>seed msg. sample_digest seed @ sample_digest msg),
     ed_key_ok = (\<lambda>key. True),
     ed_verify = (\<lambda>key msg sig. sig = key @ sample_digest msg)\<rparr>"

lemma sample_nibble_digit: "n < 16 \<Longrightarrow> sample_nibble (hex_digit n) = Some n"
  by (auto simp: hex_digit_def Let_def)

lemma sample_nibble_lower:
  "sample_nibble c = Some n \<Longrightarrow> n < 16 \<and> hex_digit n = ascii_lower c"
  by (auto simp: hex_digit_def ascii_lower_def Let_def split: if_splits)

lemma byte_lt: "unat (b :: u8) < 256"
  using unsigned_less [of b, where ?'a = nat] by simp

lemma sample_decode_byte:
  "sample_hex_decode (hex_02x b @ s) = and_then (sample_hex_decode s) (\<lambda>bs. Inr (b # bs))"
proof -
  have "unat b div 16 < 16"
    using byte_lt [of b] by simp
  then have "sample_nibble (hex_digit (unat b div 16)) = Some (unat b div 16)"
    "sample_nibble (hex_digit (unat b mod 16)) = Some (unat b mod 16)"
    by (simp_all only: sample_nibble_digit mod_less_divisor zero_less_numeral)
  moreover have "(word_of_nat (16 * (unat b div 16) + unat b mod 16) :: u8) = b"
    by simp
  ultimately show ?thesis
    by (simp add: hex_02x_def del: sample_nibble.simps)
qed

lemma sample_decode_encode: "sample_hex_decode (sample_hex_encode bs) = Inr bs"
  by (induction bs) (simp_all add: sample_hex_encode_def sample_decode_byte)

lemma length_sample_hex_encode: "length (sample_hex_encode bs) = 2 * length bs"
  by (induction bs) (simp_all add: sample_hex_encode_def hex_02x_def)

lemma sample_encode_decode:
  "sample_hex_decode s = Inr bs \<Longrightarrow> sample_hex_encode bs = to_ascii_lowercase s"
proof (induction s arbitrary: bs rule: sample_hex_decode.induct)
  case (3 c d s)
  then obtain hi lo cs where n: "sample_nibble c = Some hi" "sample_nibble d = Some lo"
    and cs: "sample_hex_decode s = Inr cs" and bs: "bs = of_nat (16 * hi + lo) # cs"
    by (auto simp: result_simps simp del: sample_nibble.simps split: option.splits)
  have lt: "hi < 16" "lo < 16" and dig: "hex_digit hi = ascii_lower c" "hex_digit lo = ascii_lower d"
    using sample_nibble_lower n by blast+
  have "unat (of_nat (16 * hi + lo) :: u8) = 16 * hi + lo"
    using lt by (simp only: unat_of_nat) (simp add: take_bit_nat_eq_self)
  then have "hex_02x (of_nat (16 * hi + lo)) = [ascii_lower c, ascii_lower d]"
    using lt dig by (simp add: hex_02x_def)
  moreover have "sample_hex_encode cs = to_ascii_lowercase s"
    using 3 n cs by blast
  ultimately show ?case
    by (simp add: bs sample_hex_encode_def to_ascii_lowercase_def)
qed (simp_all add: sample_hex_encode_def to_ascii_lowercase_def)

lemma length_sample_digest [simp]: "length (sample_digest bs) = 32"
  by (simp add: sample_digest_def min_def)

lemma sample_hex_spec: "hex_spec sample_crates"
  by (simp add: hex_spec_def sample_crates_def sample_decode_encode length_sample_hex_encode
      sample_encode_decode)

lemma sample_sha256_spec: "sha256_spec sample_crates"
  by (simp add: sha256_spec_def sample_crates_def)

lemma sample_ed25519_spec: "ed25519_spec sample_crates"
  by (simp add: ed25519_spec_def sample_crates_def)

end
