(* ===== verification/Apportion.thy ===== *)
theory Apportion
  imports Rust_Std
begin

text \<open>
  The abstract specification of every satoshi split in the program: the largest-remainder
  (Hamilton) method. Each weight gets the floor of its exact share, the units left over go
  one each to the largest remainders. The locale \<open>apportioner\<close> is the contract of a routine
  that computes such a split; its clients get conservation, the quota rule and monotonicity.
\<close>

definition share_floor :: "nat \<Rightarrow> nat list \<Rightarrow> nat \<Rightarrow> nat" where
  "share_floor T ws i = T * ws ! i div sum_list ws"

definition share_rem :: "nat \<Rightarrow> nat list \<Rightarrow> nat \<Rightarrow> nat" where
  "share_rem T ws i = T * ws ! i mod sum_list ws"

definition floor_sum :: "nat \<Rightarrow> nat list \<Rightarrow> nat" where
  "floor_sum T ws = (\<Sum>i<length ws. share_floor T ws i)"

definition hamilton :: "nat \<Rightarrow> nat list \<Rightarrow> nat list \<Rightarrow> bool" where
  "hamilton T ws as \<longleftrightarrow> 0 < sum_list ws \<and> length as = length ws \<and>
     (\<exists>S \<subseteq> {..<length ws}. card S = T - floor_sum T ws \<and>
       (\<forall>i<length ws. as ! i = share_floor T ws i + of_bool (i \<in> S)) \<and>
       (\<forall>i\<in>S. \<forall>j<length ws. j \<notin> S \<longrightarrow> share_rem T ws j \<le> share_rem T ws i))"

lemma share_split: "sum_list ws * share_floor T ws i + share_rem T ws i = T * ws ! i"
  by (simp add: share_floor_def share_rem_def)

lemma total_split:
  "sum_list ws * floor_sum T ws + (\<Sum>i<length ws. share_rem T ws i) = T * sum_list ws"
proof -
  have "T * sum_list ws = (\<Sum>i<length ws. T * ws ! i)"
    by (simp add: sum_list_sum_nth sum_distrib_left atLeast0LessThan)
  also have "\<dots> = (\<Sum>i<length ws. sum_list ws * share_floor T ws i + share_rem T ws i)"
    by (simp only: share_split)
  finally show ?thesis
    by (simp add: floor_sum_def sum.distrib sum_distrib_left)
qed

lemma floor_sum_le:
  assumes "0 < sum_list ws"
  shows "floor_sum T ws \<le> T"
proof -
  have "sum_list ws * floor_sum T ws \<le> sum_list ws * T"
    using total_split [of ws T] by (metis le_add1 mult.commute)
  then show ?thesis
    using assms by simp
qed

lemma leftover_less:
  assumes "0 < sum_list ws"
  shows "T - floor_sum T ws < length ws"
proof -
  let ?W = "sum_list ws"
  have ne: "ws \<noteq> []"
    using assms by auto
  have "(\<Sum>i<length ws. share_rem T ws i) < (\<Sum>i<length ws. ?W)"
    using assms ne by (intro sum_strict_mono) (auto simp: share_rem_def)
  moreover have "?W * (T - floor_sum T ws) = (\<Sum>i<length ws. share_rem T ws i)"
    using total_split [of ws T] by (simp add: right_diff_distrib' mult.commute)
  ultimately have "?W * (T - floor_sum T ws) < ?W * length ws"
    by (simp add: mult.commute)
  then show ?thesis
    by simp
qed

lemma share_floor_le:
  assumes "i < length ws"
  shows "share_floor T ws i \<le> T"
proof -
  have "T * ws ! i \<le> T * sum_list ws"
    using assms by (simp add: elem_le_sum_list)
  then show ?thesis
    unfolding share_floor_def by (metis div_le_mono div_mult_self_is_m div_by_0 gr0I le0)
qed

lemma share_mono: "ws ! i \<le> ws ! j \<Longrightarrow> share_floor T ws i \<le> share_floor T ws j"
  by (simp add: share_floor_def div_le_mono)

lemma hamilton_sum:
  assumes "hamilton T ws as"
  shows "sum_list as = T"
proof -
  from assms obtain S where S: "S \<subseteq> {..<length ws}" and card: "card S = T - floor_sum T ws"
    and as: "\<forall>i<length ws. as ! i = share_floor T ws i + of_bool (i \<in> S)"
    and len: "length as = length ws" and pos: "0 < sum_list ws"
    by (auto simp: hamilton_def)
  have "sum_list as = (\<Sum>i<length ws. as ! i)"
    using len by (simp add: sum_list_sum_nth atLeast0LessThan)
  also have "\<dots> = (\<Sum>i<length ws. share_floor T ws i + of_bool (i \<in> S))"
    using as by (intro sum.cong) simp_all
  also have "\<dots> = floor_sum T ws + (\<Sum>i<length ws. of_bool (i \<in> S))"
    by (simp add: floor_sum_def sum.distrib)
  also have "(\<Sum>i<length ws. of_bool (i \<in> S)) = card S"
    using S by (simp add: Int_absorb1 sum.If_cases of_bool_def)
  finally show ?thesis
    using card floor_sum_le [OF pos, of T] by simp
qed

lemma hamilton_quota:
  assumes "hamilton T ws as" and "i < length ws"
  shows "as ! i = T * ws ! i div sum_list ws \<or> as ! i = T * ws ! i div sum_list ws + 1"
  using assms by (auto simp: hamilton_def share_floor_def)

text \<open>A zero remainder is never rounded up: an exact share is paid exactly.\<close>

lemma hamilton_exact:
  assumes h: "hamilton T ws as" and i: "i < length ws"
    and "sum_list ws dvd T * ws ! i"
  shows "as ! i = T * ws ! i div sum_list ws"
proof (rule ccontr)
  assume neq: "as ! i \<noteq> T * ws ! i div sum_list ws"
  from h obtain S where S: "S \<subseteq> {..<length ws}" and card: "card S = T - floor_sum T ws"
    and as: "\<forall>i<length ws. as ! i = share_floor T ws i + of_bool (i \<in> S)"
    and top: "\<forall>i\<in>S. \<forall>j<length ws. j \<notin> S \<longrightarrow> share_rem T ws j \<le> share_rem T ws i"
    and pos: "0 < sum_list ws"
    by (auto simp: hamilton_def)
  have iS: "i \<in> S"
    using neq as i by (auto simp: share_floor_def of_bool_def split: if_splits)
  have r0: "share_rem T ws i = 0"
    using assms(3) by (simp add: share_rem_def)
  have "(\<Sum>j<length ws. share_rem T ws j) = (\<Sum>j\<in>S. share_rem T ws j)"
    using top iS r0 S by (intro sum.mono_neutral_right) auto
  also have "\<dots> = (\<Sum>j\<in>S - {i}. share_rem T ws j)"
    using r0 iS S by (metis finite_lessThan finite_subset sum.remove add_0)
  also have "\<dots> \<le> (\<Sum>j\<in>S - {i}. sum_list ws)"
    using pos by (intro sum_mono) (simp add: share_rem_def less_imp_le)
  also have "\<dots> < sum_list ws * card S"
  proof -
    have "0 < card S"
      using iS S by (auto simp: card_gt_0_iff intro: finite_subset)
    then show ?thesis
      using pos iS by (simp add: mult.commute)
  qed
  finally have "(\<Sum>j<length ws. share_rem T ws j) < sum_list ws * (T - floor_sum T ws)"
    using card by simp
  moreover have "sum_list ws * (T - floor_sum T ws) = (\<Sum>i<length ws. share_rem T ws i)"
    using total_split [of ws T] by (simp add: right_diff_distrib' mult.commute)
  ultimately show False
    by simp
qed

lemma hamilton_mono:
  assumes h: "hamilton T ws as" and ij: "i < length ws" "j < length ws"
    and less: "ws ! i < ws ! j"
  shows "as ! i \<le> as ! j"
proof -
  from h obtain S where
    as: "\<forall>i<length ws. as ! i = share_floor T ws i + of_bool (i \<in> S)"
    and top: "\<forall>i\<in>S. \<forall>j<length ws. j \<notin> S \<longrightarrow> share_rem T ws j \<le> share_rem T ws i"
    by (auto simp: hamilton_def)
  have le: "share_floor T ws i \<le> share_floor T ws j"
    using less by (simp add: share_mono)
  show ?thesis
  proof (cases "share_floor T ws i = share_floor T ws j \<and> i \<in> S \<and> j \<notin> S")
    case True
    then have "share_rem T ws j \<le> share_rem T ws i"
      using top ij by simp
    with True have "T * ws ! j \<le> T * ws ! i"
      by (metis add_le_cancel_left share_split)
    then have "T = 0"
      using less by simp
    moreover have "card S = T - floor_sum T ws \<Longrightarrow> T = 0 \<Longrightarrow> finite S \<Longrightarrow> S = {}"
      by simp
    ultimately show ?thesis
      using h hamilton_sum [OF h] ij
      by (metis elem_le_sum_list hamilton_def le_zero_eq zero_le)
  next
    case False
    then show ?thesis
      using as ij le by (cases "i \<in> S"; cases "j \<in> S") auto
  qed
qed

text \<open>
  How the program picks who gets the leftover units: it sorts the indices by falling
  remainder and takes the first ones.
\<close>

lemma leftover_indices:
  assumes "0 < sum_list ws" and "S = set (take (T - floor_sum T ws) (sort_by c [0..<length ws]))"
  shows "S \<subseteq> {..<length ws}" and "card S = T - floor_sum T ws"
proof -
  show "S \<subseteq> {..<length ws}"
    using set_take_subset [of "T - floor_sum T ws" "sort_by c [0..<length ws]"] assms(2) by auto
  have "distinct (take (T - floor_sum T ws) (sort_by c [0..<length ws]))"
    by (simp add: distinct_take)
  then show "card S = T - floor_sum T ws"
    using leftover_less [OF assms(1), of T] assms(2) by (simp add: distinct_card)
qed

lemma leftover_room:
  assumes "0 < sum_list ws" and "i < length ws" and "0 < T - floor_sum T ws"
  shows "share_floor T ws i < T"
proof -
  have "share_floor T ws i \<le> floor_sum T ws"
    unfolding floor_sum_def using assms(2) by (intro member_le_sum) auto
  with assms(3) show ?thesis by simp
qed

lemma hamilton_by_sorting:
  assumes order: "key_order c key" and pos: "0 < sum_list ws"
    and rems: "\<And>i j. i < length ws \<Longrightarrow> j < length ws \<Longrightarrow> key i \<le> key j \<Longrightarrow>
      share_rem T ws j \<le> share_rem T ws i"
    and S: "S = set (take (T - floor_sum T ws) (sort_by c [0..<length ws]))"
  shows "hamilton T ws (map (\<lambda>i. share_floor T ws i + of_bool (i \<in> S)) [0..<length ws])"
proof -
  let ?s = "sort_by c [0..<length ws]" and ?k = "T - floor_sum T ws"
  have "share_rem T ws j \<le> share_rem T ws i" if "i \<in> S" "j < length ws" "j \<notin> S" for i j
  proof (rule rems)
    show "i < length ws"
      using that(1) leftover_indices(1) [OF pos S] by auto
    show "j < length ws" by (rule that(2))
    have "j \<in> set ?s" using that(2) by simp
    then have "j \<in> set (drop ?k ?s)"
      using that(3) S by (metis append_take_drop_id set_append Un_iff)
    with that(1) S show "key i \<le> key j"
      by (intro key_order.take_drop_key [OF order, of i ?k _ j]) auto
  qed
  then show ?thesis
    using leftover_indices [OF pos S] pos by (auto simp: hamilton_def intro!: exI [of _ S])
qed

section \<open>Handing out the remainder by index\<close>

text \<open>
  The loop shared by the routines: sort the indices by a comparator that puts larger
  remainders first and bump the first ones. \<open>bump\<close> is the fallible increment, \<open>inc\<close> what it
  returns when there is room.
\<close>

locale remainder_split =
  fixes amount :: "'p \<Rightarrow> u64" and remainder :: "'p \<Rightarrow> u128"
    and bump :: "'p \<Rightarrow> 'e + 'p" and inc :: "'p \<Rightarrow> 'p"
    and c :: "'p list \<Rightarrow> nat \<Rightarrow> nat \<Rightarrow> ordering" and key :: "'p list \<Rightarrow> nat \<Rightarrow> 'k::linorder"
  assumes order: "key_order (c prov) (key prov)"
    and largest_first: "key prov i \<le> key prov j \<Longrightarrow>
      unat (remainder (prov ! j)) \<le> unat (remainder (prov ! i))"
    and bump_room: "unat (amount p) + 1 < 2 ^ 64 \<Longrightarrow> bump p = Inr (inc p)"
    and inc_amount: "unat (amount p) + 1 < 2 ^ 64 \<Longrightarrow> unat (amount (inc p)) = unat (amount p) + 1"
begin

lemma floors_sum:
  assumes "length prov = length ws"
    and "\<And>i. i < length ws \<Longrightarrow> unat (amount (prov ! i)) = share_floor T ws i"
  shows "sum_list (map (unat \<circ> amount) prov) = floor_sum T ws"
proof -
  have "map (unat \<circ> amount) prov = map (share_floor T ws) [0..<length ws]"
    using assms by (intro nth_equalityI) simp_all
  then show ?thesis
    by (simp add: floor_sum_def interv_sum_list_conv_sum_set_nat atLeast0LessThan)
qed

lemma split:
  assumes len: "length prov = length ws" and pos: "0 < sum_list ws" and T: "T < 2 ^ 64"
    and floors: "\<And>i. i < length ws \<Longrightarrow> unat (amount (prov ! i)) = share_floor T ws i"
    and rems: "\<And>i. i < length ws \<Longrightarrow> unat (remainder (prov ! i)) = share_rem T ws i"
  shows "\<exists>out. try_update_each bump
      (take (T - floor_sum T ws) (sort_by (c prov) [0..<length prov])) prov = Inr out \<and>
    length out = length prov \<and> (\<forall>i<length prov. out ! i = prov ! i \<or> out ! i = inc (prov ! i)) \<and>
    hamilton T ws (map (unat \<circ> amount) out)"
proof -
  let ?idx = "take (T - floor_sum T ws) (sort_by (c prov) [0..<length prov])"
  let ?S = "set ?idx"
  let ?out = "map (\<lambda>i. if i \<in> ?S then inc (prov ! i) else prov ! i) [0..<length prov]"
  have S: "?S = set (take (T - floor_sum T ws) (sort_by (c prov) [0..<length ws]))"
    by (simp add: len)
  have less: "i < length ws" if "i \<in> ?S" for i
    using that leftover_indices(1) [OF pos S] by auto
  have room: "unat (amount (prov ! i)) + 1 < 2 ^ 64" if "i \<in> ?S" for i
  proof -
    have "0 < T - floor_sum T ws"
      using that by (cases "T - floor_sum T ws") auto
    then show ?thesis
      using leftover_room [OF pos less [OF that], of T] floors [OF less [OF that]] T by simp
  qed
  have upd: "try_update_each bump ?idx prov = Inr ?out"
    using room less len
    by (intro try_update_each_total [where g = inc]) (auto simp: distinct_take bump_room)
  have bumped: "unat (amount (inc (prov ! i))) = Suc (share_floor T ws i)" if "i \<in> ?S" for i
    using inc_amount [OF room [OF that]] floors [OF less [OF that]] by simp
  have amounts: "map (unat \<circ> amount) ?out =
      map (\<lambda>i. share_floor T ws i + of_bool (i \<in> ?S)) [0..<length ws]"
    using len bumped by (intro nth_equalityI) (simp_all add: floors)
  have "hamilton T ws (map (unat \<circ> amount) ?out)"
    unfolding amounts
  proof (rule hamilton_by_sorting [OF order pos _ S])
    fix i j
    assume "i < length ws" "j < length ws" "key prov i \<le> key prov j"
    then show "share_rem T ws j \<le> share_rem T ws i"
      using largest_first [of prov i j] by (simp add: rems)
  qed
  with upd show ?thesis
    by (intro exI [of _ ?out]) simp
qed

end

section \<open>The contract of an apportionment routine\<close>

locale apportioner =
  fixes total :: "'r \<Rightarrow> nat"
    and weights :: "'o \<Rightarrow> nat list"
    and amounts :: "'o \<Rightarrow> nat list"
    and run :: "'r \<Rightarrow> 'e + 'o"
  assumes run_hamilton: "run r = Inr out \<Longrightarrow> hamilton (total r) (weights out) (amounts out)"
begin

lemma conserves: "run r = Inr out \<Longrightarrow> sum_list (amounts out) = total r"
  by (rule hamilton_sum) (rule run_hamilton)

lemma quota:
  assumes "run r = Inr out" and "i < length (weights out)"
  shows "amounts out ! i \<in> {total r * weights out ! i div sum_list (weights out),
      total r * weights out ! i div sum_list (weights out) + 1}"
  using hamilton_quota [OF run_hamilton [OF assms(1)] assms(2)] by simp

lemma exact:
  assumes "run r = Inr out" and "i < length (weights out)"
    and "sum_list (weights out) dvd total r * weights out ! i"
  shows "amounts out ! i = total r * weights out ! i div sum_list (weights out)"
  by (rule hamilton_exact [OF run_hamilton [OF assms(1)] assms(2,3)])

lemma monotone:
  assumes "run r = Inr out" and "i < length (weights out)" and "j < length (weights out)"
    and "weights out ! i < weights out ! j"
  shows "amounts out ! i \<le> amounts out ! j"
  by (rule hamilton_mono [OF run_hamilton [OF assms(1)] assms(2,3,4)])

lemma within_total:
  assumes "run r = Inr out" and "i < length (amounts out)"
  shows "amounts out ! i \<le> total r"
  using elem_le_sum_list [OF assms(2)] conserves [OF assms(1)] by simp

end

end
