(* ===== verification/Pool_Builder.thy ===== *)
theory Pool_Builder
  imports Crates Apportion
begin

text \<open>
  The crate \<open>qbit-pool-builder\<close> (\<open>src/lib.rs\<close>): the coinbase request, the allocation of the
  coinbase value over weighted entitlements, the serialized coinbase transaction and the
  signed payout manifest.
\<close>

unbundle bit_operations_syntax

section \<open>Constants and data\<close>

definition P2MR_SCRIPT_LEN :: nat where "P2MR_SCRIPT_LEN = 34"
definition P2MR_PROGRAM_LEN :: nat where "P2MR_PROGRAM_LEN = 32"
definition P2MR_WITNESS_VERSION_OPCODE :: u8 where "P2MR_WITNESS_VERSION_OPCODE = 0x52"
definition OP_RETURN :: u8 where "OP_RETURN = 0x6a"
definition WITNESS_COMMITMENT_HEADER :: "u8 list" where
  "WITNESS_COMMITMENT_HEADER = [0xaa, 0x21, 0xa9, 0xed]"
definition WITNESS_COMMITMENT_SCRIPT_PREFIX :: "u8 list" where
  "WITNESS_COMMITMENT_SCRIPT_PREFIX = [OP_RETURN, 36]"
definition DEFAULT_WITNESS_NONCE :: "u8 list" where "DEFAULT_WITNESS_NONCE = replicate 32 0"
definition MAX_SEQUENCE_NONFINAL :: u32 where "MAX_SEQUENCE_NONFINAL = 0xfffffffe"
definition MAX_COINBASE_SCRIPT_SIG_LEN :: nat where "MAX_COINBASE_SCRIPT_SIG_LEN = 100"
definition MAX_BLOCK_WEIGHT :: nat where "MAX_BLOCK_WEIGHT = 2000000"

datatype builder_error =
    EmptyCoinbaseValue
  | EmptyEntitlements
  | ZeroWeight string
  | WeightOverflow
  | AllocationOverflow
  | AllocationTotalMismatch u64 u64
  | InvalidP2mrProgram string string
  | PinnedFirstOutputMissing string
  | PinnedFirstOutputAmbiguous string
  | HeightOverflow
  | CoinbaseScriptSigTooLong nat
  | CoinbaseWeightTooHigh nat nat
  | Hex string
  | Json string
  | InvalidSigningSeedLength nat
  | InvalidPublicKeyLength nat
  | InvalidSignatureLength nat
  | SignatureVerificationFailed

record weighted_entitlement =
  ent_recipient_id :: string
  ent_order_key :: string
  ent_p2mr_program_hex :: string
  ent_weight :: u128

record pinned_first_output =
  pin_recipient_id :: string
  pin_order_key :: string
  pin_p2mr_program_hex :: string

record coinbase_build_request =
  req_block_height :: u64
  req_coinbase_value_sats :: u64
  req_entitlements :: "weighted_entitlement list"
  req_witness_nonce_hex :: "string option"
  req_witness_merkle_leaves_hex :: "string list"
  req_coinbase_script_sig_suffix_hex :: "string option"
  req_pinned_first_output :: "pinned_first_output option"

record allocated_output =
  out_recipient_id :: string
  out_order_key :: string
  out_p2mr_program :: "u8 list"
  out_script_pubkey :: "u8 list"
  out_weight :: u128
  out_amount_sats :: u64

record built_coinbase =
  bc_tx_with_witness :: "u8 list"
  bc_tx_without_witness :: "u8 list"
  bc_txid :: "u8 list"
  bc_wtxid :: "u8 list"
  bc_witness_commitment_script :: "u8 list"
  bc_outputs :: "allocated_output list"
  bc_total_weight :: u128
  bc_coinbase_weight_bytes :: nat

record payout_output =
  po_vout :: nat
  po_recipient_id :: string
  po_order_key :: string
  po_p2mr_program_hex :: string
  po_script_pubkey_hex :: string
  po_weight :: u128
  po_amount_sats :: u64

record payout_manifest =
  pm_schema :: string
  pm_block_height :: u64
  pm_coinbase_value_sats :: u64
  pm_total_weight :: u128
  pm_coinbase_weight_bytes :: nat
  pm_payout_count :: nat
  pm_coinbase_tx_hex :: string
  pm_coinbase_txid :: string
  pm_coinbase_wtxid :: string
  pm_coinbase_script_sig_hex :: string
  pm_coinbase_script_sig_suffix_hex :: string
  pm_witness_nonce_hex :: string
  pm_witness_commitment_script_hex :: string
  pm_outputs :: "payout_output list"

record manifest_signature =
  sig_algorithm :: string
  sig_public_key_hex :: string
  sig_signature_hex :: string

record signed_payout_manifest =
  spm_manifest :: payout_manifest
  spm_signature :: manifest_signature

text \<open>\<open>serde_json::to_vec\<close> of a manifest: the generated serializer is a parameter as well.\<close>

record builder_crates = crates +
  manifest_json :: "payout_manifest \<Rightarrow> string + u8 list"

section \<open>Script and transaction encoding\<close>

definition p2mr_script_pubkey :: "u8 list \<Rightarrow> u8 list" where
  "p2mr_script_pubkey program =
     [P2MR_WITNESS_VERSION_OPCODE, of_nat P2MR_PROGRAM_LEN] @ program"

definition is_p2mr_script_pubkey :: "u8 list \<Rightarrow> bool" where
  "is_p2mr_script_pubkey script \<longleftrightarrow>
     length script = P2MR_SCRIPT_LEN \<and> script ! 0 = P2MR_WITNESS_VERSION_OPCODE \<and>
     script ! 1 = of_nat P2MR_PROGRAM_LEN"

definition compact_size :: "u64 \<Rightarrow> u8 list" where
  "compact_size v =
     (if v < 253 then [ucast v]
      else if v \<le> 0xffff then 253 # to_le_bytes (ucast v :: u16)
      else if v \<le> 0xffffffff then 254 # to_le_bytes (ucast v :: u32)
      else 255 # to_le_bytes v)"

definition compact_push :: "nat \<Rightarrow> u8 list" where
  "compact_push len =
     (if len \<le> 75 then [of_nat len]
      else if len \<le> 0xff then [76, of_nat len]
      else if len \<le> 0xffff then 77 # to_le_bytes (of_nat len :: u16)
      else 78 # to_le_bytes (of_nat len :: u32))"

text \<open>The loop of \<open>minimal_script_num\<close>: low byte first until nothing is left.\<close>

function script_num_magnitude :: "u64 \<Rightarrow> u8 list" where
  "script_num_magnitude a =
     (if a = 0 then [] else ucast (a AND 0xff) # script_num_magnitude (drop_bit 8 a))"
  by pat_completeness auto
termination
proof (relation "measure unat")
  fix a :: u64
  assume "a \<noteq> 0"
  then have "unat a div 256 < unat a"
    by (simp add: unat_gt_0)
  moreover have "unat (drop_bit 8 a) = unat a div 256"
    by (simp only: unsigned_drop_bit_eq take_bit_nat_eq_self [OF unsigned_less]
        drop_bit_eq_div [of _ "unat a"]) simp
  ultimately show "(drop_bit 8 a, a) \<in> measure unat"
    by (simp only: in_measure)
qed simp

declare script_num_magnitude.simps [simp del]

definition minimal_script_num :: "i64 \<Rightarrow> u8 list" where
  "minimal_script_num value =
     (if value = 0 then []
      else let negative = sint value < 0;
               result = script_num_magnitude (if negative then - value else value)
           in if result \<noteq> [] \<and> last result AND 0x80 \<noteq> 0
              then result @ [if negative then 0x80 else 0]
              else if negative then butlast result @ [last result OR 0x80]
              else result)"

definition coinbase_height_script :: "u64 \<Rightarrow> builder_error + u8 list" where
  "coinbase_height_script height =
     (if 0xffffffff < height then Inl HeightOverflow
      else if height \<le> 16 then Inr [0x50 + ucast height, 0]
      else let encoded = minimal_script_num height
           in Inr (compact_push (length encoded) @ encoded))"

definition coinbase_script_sig_suffix ::
    "'x crates_scheme \<Rightarrow> coinbase_build_request \<Rightarrow> builder_error + u8 list" where
  "coinbase_script_sig_suffix X request =
     (case req_coinbase_script_sig_suffix_hex request of
        Some raw \<Rightarrow> map_err Hex (hex_decode X raw)
      | None \<Rightarrow> Inr [])"

definition coinbase_script_sig ::
    "'x crates_scheme \<Rightarrow> coinbase_build_request \<Rightarrow> builder_error + u8 list" where
  "coinbase_script_sig X request =
     and_then (coinbase_height_script (req_block_height request)) (\<lambda>height_script.
     and_then (coinbase_script_sig_suffix X request) (\<lambda>suffix.
     let script = height_script @ suffix in
     if MAX_COINBASE_SCRIPT_SIG_LEN < length script
     then Inl (CoinbaseScriptSigTooLong (length script))
     else Inr script))"

definition coinbase_lock_time :: "u64 \<Rightarrow> builder_error + u32" where
  "coinbase_lock_time height =
     (if height = 0 \<or> 0xffffffff < height then Inl HeightOverflow else Inr (ucast (height - 1)))"

definition serialize_coinbase_input ::
    "'x crates_scheme \<Rightarrow> u8 list \<Rightarrow> coinbase_build_request \<Rightarrow> builder_error + u8 list" where
  "serialize_coinbase_input X out request =
     (let out = out @ compact_size 1 @ replicate 32 0 @ to_le_bytes (0xffffffff :: u32)
      in and_then (coinbase_script_sig X request) (\<lambda>script_sig.
         Inr (out @ compact_size (of_nat (length script_sig)) @ script_sig @
              to_le_bytes MAX_SEQUENCE_NONFINAL)))"

definition serialize_coinbase_prefix ::
    "'x crates_scheme \<Rightarrow> u8 list \<Rightarrow> coinbase_build_request \<Rightarrow> builder_error + u8 list" where
  "serialize_coinbase_prefix X out request =
     serialize_coinbase_input X (out @ to_le_bytes (2 :: u32)) request"

definition serialize_output :: "allocated_output \<Rightarrow> u8 list" where
  "serialize_output output =
     to_le_bytes (out_amount_sats output) @
     compact_size (of_nat (length (out_script_pubkey output))) @ out_script_pubkey output"

definition serialize_outputs :: "u8 list \<Rightarrow> allocated_output list \<Rightarrow> u8 list \<Rightarrow> u8 list" where
  "serialize_outputs out outputs witness_commitment_script =
     out @ compact_size (of_nat (length outputs + 1)) @ concat (map serialize_output outputs) @
     to_le_bytes (0 :: i64) @ compact_size (of_nat (length witness_commitment_script)) @
     witness_commitment_script"

definition serialize_witness :: "u8 list \<Rightarrow> u8 list \<Rightarrow> u8 list" where
  "serialize_witness out witness_nonce =
     out @ compact_size 1 @ compact_size (of_nat (length witness_nonce)) @ witness_nonce"

section \<open>Hashes and the witness commitment\<close>

definition hash256 :: "'x crates_scheme \<Rightarrow> u8 list \<Rightarrow> u8 list" where
  "hash256 X data = sha256_digest X (sha256_digest X data)"

definition hash256_pair :: "'x crates_scheme \<Rightarrow> u8 list \<Rightarrow> u8 list \<Rightarrow> u8 list" where
  "hash256_pair X left right = hash256 X (left @ right)"

text \<open>One pass of the loop: \<open>chunks(2)\<close>, an odd last hash is paired with itself.\<close>

fun merkle_level :: "'x crates_scheme \<Rightarrow> u8 list list \<Rightarrow> u8 list list" where
  "merkle_level X [] = []"
| "merkle_level X [h] = [hash256_pair X h h]"
| "merkle_level X (l # r # hs) = hash256_pair X l r # merkle_level X hs"

lemma length_merkle_level: "length (merkle_level X hs) = (length hs + 1) div 2"
  by (induction X hs rule: merkle_level.induct) simp_all

text \<open>\<open>hashes[0]\<close> panics on an empty list; the callers never pass one.\<close>

function merkle_root :: "'x crates_scheme \<Rightarrow> u8 list list \<Rightarrow> u8 list" where
  "merkle_root X hashes =
     (if 1 < length hashes then merkle_root X (merkle_level X hashes) else hashes ! 0)"
  by pat_completeness auto
termination
  by (relation "measure (\<lambda>(X, hs). length hs)") (auto simp: length_merkle_level)

declare merkle_root.simps [simp del]

definition witness_merkle_root :: "'x crates_scheme \<Rightarrow> u8 list list \<Rightarrow> u8 list" where
  "witness_merkle_root X extra_witness_leaves =
     merkle_root X (replicate 32 0 # extra_witness_leaves)"

definition witness_commitment_script ::
    "'x crates_scheme \<Rightarrow> u8 list list \<Rightarrow> u8 list \<Rightarrow> u8 list" where
  "witness_commitment_script X extra_witness_leaves witness_nonce =
     (let witness_root = witness_merkle_root X extra_witness_leaves;
          commitment = hash256_pair X witness_root witness_nonce
      in WITNESS_COMMITMENT_SCRIPT_PREFIX @ WITNESS_COMMITMENT_HEADER @ commitment)"

definition display_hash_hex :: "u8 list \<Rightarrow> string" where
  "display_hash_hex internal_le_hash = concat (map hex_02x (rev internal_le_hash))"

definition expected_32_bytes :: "nat \<Rightarrow> string" where
  "expected_32_bytes n = ''expected 32 bytes, got '' @ show_nat n"

definition witness_nonce ::
    "'x crates_scheme \<Rightarrow> coinbase_build_request \<Rightarrow> builder_error + u8 list" where
  "witness_nonce X request =
     (case req_witness_nonce_hex request of
        Some raw \<Rightarrow>
          and_then (map_err Hex (hex_decode X raw)) (\<lambda>decoded.
          if length decoded \<noteq> 32
          then Inl (InvalidP2mrProgram ''witness_nonce'' (expected_32_bytes (length decoded)))
          else Inr decoded)
      | None \<Rightarrow> Inr DEFAULT_WITNESS_NONCE)"

definition witness_leaves ::
    "'x crates_scheme \<Rightarrow> coinbase_build_request \<Rightarrow> builder_error + u8 list list" where
  "witness_leaves X request =
     try_map (\<lambda>(index, raw).
       and_then (map_err Hex (hex_decode X raw)) (\<lambda>decoded.
       if length decoded \<noteq> 32
       then Inl (InvalidP2mrProgram (''witness_merkle_leaf['' @ show_nat index @ '']'')
              (expected_32_bytes (length decoded)))
       else Inr decoded))
       (List.enumerate 0 (req_witness_merkle_leaves_hex request))"

end
