(* ===== verification/Allocation.thy ===== *)
theory Allocation
  imports Pool_Builder
begin

text \<open>
  \<open>allocate_outputs\<close> of \<open>qbit-pool-builder\<close>: canonical order, the pinned first output, the
  largest-remainder split of the coinbase value. Its comparators are instances of
  \<open>key_order\<close> and the routine itself of \<open>apportioner\<close>; the only errors left are the ones
  the input explains.
\<close>

section \<open>Definitions\<close>

definition compare_entitlements :: "weighted_entitlement \<Rightarrow> weighted_entitlement \<Rightarrow> ordering" where
  "compare_entitlements left right =
     then_with (then_with
       (cmp (ent_order_key left) (ent_order_key right))
       (cmp (ent_recipient_id left) (ent_recipient_id right)))
       (cmp (ent_p2mr_program_hex left) (ent_p2mr_program_hex right))"

definition pin_matches :: "pinned_first_output \<Rightarrow> weighted_entitlement \<Rightarrow> bool" where
  "pin_matches pinned e \<longleftrightarrow>
     ent_recipient_id e = pin_recipient_id pinned \<and> ent_order_key e = pin_order_key pinned \<and>
     eq_ignore_ascii_case (ent_p2mr_program_hex e) (pin_p2mr_program_hex pinned)"

definition pinned_entitlement_index ::
    "weighted_entitlement list \<Rightarrow> pinned_first_output \<Rightarrow> builder_error + nat" where
  "pinned_entitlement_index entitlements pinned =
     (case filter (\<lambda>i. pin_matches pinned (entitlements ! i)) [0..<length entitlements] of
        [] \<Rightarrow> Inl (PinnedFirstOutputMissing (pin_recipient_id pinned))
      | [i] \<Rightarrow> Inr i
      | i # j # _ \<Rightarrow> Inl (PinnedFirstOutputAmbiguous (pin_recipient_id pinned)))"

text \<open>\<open>entitlements[..=index].rotate_right(1)\<close>\<close>

definition rotate_prefix_right :: "nat \<Rightarrow> 'a list \<Rightarrow> 'a list" where
  "rotate_prefix_right i xs =
     last (take (Suc i) xs) # butlast (take (Suc i) xs) @ drop (Suc i) xs"

definition parse_p2mr_program ::
    "'x crates_scheme \<Rightarrow> weighted_entitlement \<Rightarrow> builder_error + u8 list" where
  "parse_p2mr_program X e =
     and_then (map_err (InvalidP2mrProgram (ent_recipient_id e))
                (hex_decode X (ent_p2mr_program_hex e))) (\<lambda>program.
     if length program \<noteq> P2MR_PROGRAM_LEN
     then Inl (InvalidP2mrProgram (ent_recipient_id e) (expected_32_bytes (length program)))
     else Inr program)"

definition ordered_entitlements ::
    "coinbase_build_request \<Rightarrow> builder_error + weighted_entitlement list" where
  "ordered_entitlements request =
     (let entitlements = sort_by compare_entitlements (req_entitlements request) in
      case req_pinned_first_output request of
        None \<Rightarrow> Inr entitlements
      | Some pinned \<Rightarrow>
          and_then (pinned_entitlement_index entitlements pinned) (\<lambda>i.
          Inr (rotate_prefix_right i entitlements)))"

definition total_entitlement_weight :: "weighted_entitlement list \<Rightarrow> builder_error + u128" where
  "total_entitlement_weight =
     try_fold (\<lambda>sum e. if ent_weight e = 0 then Inl (ZeroWeight (ent_recipient_id e))
                       else ok_or WeightOverflow (checked_add sum (ent_weight e))) 0"

definition provisional_output ::
    "'x crates_scheme \<Rightarrow> u64 \<Rightarrow> u128 \<Rightarrow> weighted_entitlement \<Rightarrow>
     builder_error + (allocated_output \<times> u128)" where
  "provisional_output X coinbase_value_sats total_weight e =
     and_then (parse_p2mr_program X e) (\<lambda>program.
     and_then (ok_or AllocationOverflow
                (checked_mul (u128_from_u64 coinbase_value_sats) (ent_weight e))) (\<lambda>product.
     let base = product div total_weight; remainder = product mod total_weight in
     and_then (ok_or AllocationOverflow (u64_try_from_u128 base)) (\<lambda>amount_sats.
     Inr (\<lparr>out_recipient_id = ent_recipient_id e, out_order_key = ent_order_key e,
            out_p2mr_program = program, out_script_pubkey = p2mr_script_pubkey program,
            out_weight = ent_weight e, out_amount_sats = amount_sats\<rparr>, remainder))))"

definition compare_remainders ::
    "(allocated_output \<times> u128) list \<Rightarrow> nat \<Rightarrow> nat \<Rightarrow> ordering" where
  "compare_remainders provisional left right =
     then_with (then_with (then_with
       (cmp (snd (provisional ! right)) (snd (provisional ! left)))
       (cmp (out_order_key (fst (provisional ! left))) (out_order_key (fst (provisional ! right)))))
       (cmp (out_recipient_id (fst (provisional ! left)))
            (out_recipient_id (fst (provisional ! right)))))
       (cmp (out_p2mr_program (fst (provisional ! left)))
            (out_p2mr_program (fst (provisional ! right))))"

definition add_one_sat :: "allocated_output \<times> u128 \<Rightarrow> builder_error + (allocated_output \<times> u128)" where
  "add_one_sat p =
     and_then (ok_or AllocationOverflow (checked_add (out_amount_sats (fst p)) 1)) (\<lambda>amount.
     Inr ((fst p)\<lparr>out_amount_sats := amount\<rparr>, snd p))"

definition distribute_remainder ::
    "u64 \<Rightarrow> (allocated_output \<times> u128) list \<Rightarrow> builder_error + allocated_output list" where
  "distribute_remainder coinbase_value_sats provisional =
     and_then (checked_sum AllocationOverflow
                (map (\<lambda>p. out_amount_sats (fst p)) provisional)) (\<lambda>allocated.
     and_then (ok_or AllocationOverflow (checked_sub coinbase_value_sats allocated)) (\<lambda>remainder_sats.
     let remainder_order = sort_by (compare_remainders provisional) [0..<length provisional] in
     and_then (try_update_each add_one_sat (take (unat remainder_sats) remainder_order)
                provisional) (\<lambda>provisional.
     let outputs = map fst provisional in
     and_then (checked_sum AllocationOverflow (map out_amount_sats outputs)) (\<lambda>final_total.
     if final_total \<noteq> coinbase_value_sats
     then Inl (AllocationTotalMismatch final_total coinbase_value_sats)
     else Inr outputs))))"

definition allocate_outputs ::
    "'x crates_scheme \<Rightarrow> coinbase_build_request \<Rightarrow> builder_error + allocated_output list" where
  "allocate_outputs X request =
     (if req_coinbase_value_sats request = 0 then Inl EmptyCoinbaseValue
      else if req_entitlements request = [] then Inl EmptyEntitlements
      else
        and_then (ordered_entitlements request) (\<lambda>entitlements.
        and_then (total_entitlement_weight entitlements) (\<lambda>total_weight.
        and_then (try_map (provisional_output X (req_coinbase_value_sats request) total_weight)
                    entitlements) (\<lambda>provisional.
        distribute_remainder (req_coinbase_value_sats request) provisional))))"

section \<open>The canonical order\<close>

definition ent_key :: "weighted_entitlement \<Rightarrow> string \<times> string \<times> string" where
  "ent_key e = (ent_order_key e, ent_recipient_id e, ent_p2mr_program_hex e)"

interpretation ents: key_order compare_entitlements ent_key
  by unfold_locales
    (simp only: compare_entitlements_def ent_key_def then_with_assoc, simp only: then_with_cmp)

definition remainder_key ::
    "(allocated_output \<times> u128) list \<Rightarrow> nat \<Rightarrow> int \<times> string \<times> string \<times> u8 list" where
  "remainder_key prov i =
     (- uint (snd (prov ! i)), out_order_key (fst (prov ! i)), out_recipient_id (fst (prov ! i)),
      out_p2mr_program (fst (prov ! i)))"

interpretation rems: key_order "compare_remainders prov" "remainder_key prov" for prov
  by unfold_locales
    (simp only: compare_remainders_def remainder_key_def then_with_assoc, subst cmp_flip,
      simp only: then_with_cmp)

lemma mset_rotate_prefix_right:
  "i < length xs \<Longrightarrow> mset (rotate_prefix_right i xs) = mset xs"
proof -
  assume "i < length xs"
  then have "take (Suc i) xs \<noteq> []" by auto
  then have "mset (take (Suc i) xs) =
      add_mset (last (take (Suc i) xs)) (mset (butlast (take (Suc i) xs)))"
    by (metis append_butlast_last_id mset_append mset.simps union_mset_add_mset_right add_0_right)
  moreover have "mset xs = mset (take (Suc i) xs) + mset (drop (Suc i) xs)"
    by (metis append_take_drop_id mset_append)
  ultimately show ?thesis
    by (simp add: rotate_prefix_right_def)
qed

lemma pinned_index_Inr:
  "pinned_entitlement_index es p = Inr i \<longleftrightarrow>
     filter (\<lambda>j. pin_matches p (es ! j)) [0..<length es] = [i]"
  by (auto simp: pinned_entitlement_index_def split: list.splits)

lemma pinned_indexD:
  assumes "pinned_entitlement_index es p = Inr i"
  shows "i < length es" and "pin_matches p (es ! i)"
    and "\<And>j. j < length es \<Longrightarrow> pin_matches p (es ! j) \<Longrightarrow> j = i"
proof -
  have "set (filter (\<lambda>j. pin_matches p (es ! j)) [0..<length es]) = {i}"
    using assms by (simp add: pinned_index_Inr)
  then have *: "{j. j < length es \<and> pin_matches p (es ! j)} = {i}"
    by auto
  then show "i < length es" and "pin_matches p (es ! i)" by auto
  fix j assume "j < length es" and "pin_matches p (es ! j)"
  with * show "j = i" by auto
qed

lemma mset_ordered_entitlements:
  assumes "ordered_entitlements r = Inr es"
  shows "mset es = mset (req_entitlements r)"
proof (cases "req_pinned_first_output r")
  case None
  with assms show ?thesis by (auto simp: ordered_entitlements_def Let_def)
next
  case (Some p)
  let ?s = "sort_by compare_entitlements (req_entitlements r)"
  from assms Some obtain i where "pinned_entitlement_index ?s p = Inr i"
    and "es = rotate_prefix_right i ?s"
    by (auto simp: ordered_entitlements_def Let_def result_simps)
  then show ?thesis
    using pinned_indexD(1) [of ?s p i] by (simp add: mset_rotate_prefix_right)
qed

section \<open>The split\<close>

abbreviation ent_weights :: "weighted_entitlement list \<Rightarrow> nat list" where
  "ent_weights es \<equiv> map (unat \<circ> ent_weight) es"

abbreviation out_weights :: "allocated_output list \<Rightarrow> nat list" where
  "out_weights outs \<equiv> map (unat \<circ> out_weight) outs"

abbreviation out_amounts :: "allocated_output list \<Rightarrow> nat list" where
  "out_amounts outs \<equiv> map (unat \<circ> out_amount_sats) outs"

lemma total_entitlement_weight_fold:
  "try_fold (\<lambda>sum e. if ent_weight e = 0 then Inl (ZeroWeight (ent_recipient_id e))
      else ok_or WeightOverflow (checked_add sum (ent_weight e))) s es = Inr t \<longleftrightarrow>
   (\<forall>e \<in> set es. ent_weight e \<noteq> 0) \<and>
   try_fold (\<lambda>sum e. ok_or WeightOverflow (checked_add sum (ent_weight e))) s es = Inr t"
  by (induction es arbitrary: s) (auto simp: result_simps)

lemma total_entitlement_weight_Inr:
  "total_entitlement_weight es = Inr t \<longleftrightarrow>
     (\<forall>e \<in> set es. ent_weight e \<noteq> 0) \<and> sum_list (ent_weights es) < 2 ^ 128 \<and>
     unat t = sum_list (ent_weights es)"
  unfolding total_entitlement_weight_def total_entitlement_weight_fold try_fold_checked_add_Inr
  by simp

lemma provisional_output_Inr:
  "provisional_output X v t e = Inr p \<longleftrightarrow>
     (\<exists>program amount. parse_p2mr_program X e = Inr program \<and>
       unat v * unat (ent_weight e) < 2 ^ 128 \<and>
       fst p = \<lparr>out_recipient_id = ent_recipient_id e, out_order_key = ent_order_key e,
         out_p2mr_program = program, out_script_pubkey = p2mr_script_pubkey program,
         out_weight = ent_weight e, out_amount_sats = amount\<rparr> \<and>
       unat amount = unat v * unat (ent_weight e) div unat t \<and>
       unat (snd p) = unat v * unat (ent_weight e) mod unat t)"
proof (cases "checked_mul (u128_from_u64 v) (ent_weight e)")
  case None
  then have "\<not> unat v * unat (ent_weight e) < 2 ^ 128"
    by (simp add: checked_simps)
  with None show ?thesis
    by (auto simp: provisional_output_def result_simps)
next
  case (Some q)
  then have "unat q = unat v * unat (ent_weight e)" and "unat v * unat (ent_weight e) < 2 ^ 128"
    by (simp_all add: checked_simps)
  then have q: "unat (q div t) = unat v * unat (ent_weight e) div unat t"
    "unat (q mod t) = unat v * unat (ent_weight e) mod unat t"
    "unat v * unat (ent_weight e) < 2 ^ 128"
    by (simp_all add: unat_div unat_mod)
  show ?thesis
  proof (cases "u64_try_from_u128 (q div t)")
    case None
    then have "unat amount \<noteq> unat v * unat (ent_weight e) div unat t" for amount :: u64
      using u64_lt [of amount] by (simp add: checked_simps q)
    with None Some show ?thesis
      by (auto simp: provisional_output_def Let_def result_simps)
  next
    case (Some amt)
    then have amt: "unat a = unat v * unat (ent_weight e) div unat t \<longleftrightarrow> a = amt" for a
      by (auto simp: checked_simps q word_unat_eq_iff)
    have rem: "unat b = unat v * unat (ent_weight e) mod unat t \<longleftrightarrow> b = q mod t" for b
      by (auto simp: q(2) word_unat_eq_iff)
    show ?thesis
      unfolding amt rem
      using Some \<open>checked_mul _ _ = Some q\<close> q(3)
      by (cases p) (auto simp: provisional_output_def Let_def result_simps)
  qed
qed

text \<open>The state between the floors and the hand-out of the remainder.\<close>

definition is_provisional ::
    "'x crates_scheme \<Rightarrow> u64 \<Rightarrow> weighted_entitlement list \<Rightarrow> (allocated_output \<times> u128) list \<Rightarrow> bool" where
  "is_provisional X v es prov \<longleftrightarrow> length prov = length es \<and> 0 < sum_list (ent_weights es) \<and>
     (\<forall>i<length es.
        parse_p2mr_program X (es ! i) = Inr (out_p2mr_program (fst (prov ! i))) \<and>
        out_recipient_id (fst (prov ! i)) = ent_recipient_id (es ! i) \<and>
        out_order_key (fst (prov ! i)) = ent_order_key (es ! i) \<and>
        out_script_pubkey (fst (prov ! i)) =
          p2mr_script_pubkey (out_p2mr_program (fst (prov ! i))) \<and>
        out_weight (fst (prov ! i)) = ent_weight (es ! i) \<and>
        unat (out_amount_sats (fst (prov ! i))) = share_floor (unat v) (ent_weights es) i \<and>
        unat (snd (prov ! i)) = share_rem (unat v) (ent_weights es) i)"

lemma is_provisionalI:
  assumes "total_entitlement_weight es = Inr t" and "es \<noteq> []"
    and "try_map (provisional_output X v t) es = Inr prov"
  shows "is_provisional X v es prov"
proof -
  have t: "unat t = sum_list (ent_weights es)" and nz: "\<forall>e \<in> set es. ent_weight e \<noteq> 0"
    using assms(1) by (simp_all add: total_entitlement_weight_Inr)
  obtain e es' where "es = e # es'"
    using assms(2) by (cases es) auto
  with nz have pos: "0 < sum_list (ent_weights es)"
    by (simp add: unat_gt_0)
  have all: "list_all2 (\<lambda>e p. provisional_output X v t e = Inr p) es prov"
    using assms(3) by (simp add: result_simps)
  show ?thesis
    unfolding is_provisional_def
  proof (intro conjI allI impI pos)
    show len: "length prov = length es"
      using all by (simp add: list_all2_lengthD)
  qed (use list_all2_nthD [OF all] t in \<open>fastforce simp: provisional_output_Inr share_floor_def
      share_rem_def\<close>)+
qed

text \<open>Who gets one of the left-over satoshis.\<close>

definition lucky :: "u64 \<Rightarrow> weighted_entitlement list \<Rightarrow> (allocated_output \<times> u128) list \<Rightarrow> nat set" where
  "lucky v es prov =
     set (take (unat v - floor_sum (unat v) (ent_weights es))
           (sort_by (compare_remainders prov) [0..<length (ent_weights es)]))"

definition settled ::
    "u64 \<Rightarrow> weighted_entitlement list \<Rightarrow> (allocated_output \<times> u128) list \<Rightarrow> allocated_output list" where
  "settled v es prov = map (\<lambda>i.
     if i \<in> lucky v es prov
     then (fst (prov ! i))\<lparr>out_amount_sats := out_amount_sats (fst (prov ! i)) + 1\<rparr>
     else fst (prov ! i)) [0..<length prov]"

lemma provD:
  assumes "is_provisional X v es prov"
  shows prov_pos: "0 < sum_list (ent_weights es)"
    and prov_length: "length prov = length es"
    and prov_amount: "i < length es \<Longrightarrow>
      unat (out_amount_sats (fst (prov ! i))) = share_floor (unat v) (ent_weights es) i"
    and prov_rem: "i < length es \<Longrightarrow> unat (snd (prov ! i)) = share_rem (unat v) (ent_weights es) i"
  using assms by (simp_all add: is_provisional_def)

lemma lucky_less:
  assumes "is_provisional X v es prov" and "i \<in> lucky v es prov"
  shows "i < length es"
  using leftover_indices(1) [OF prov_pos [OF assms(1)] lucky_def] assms(2) by auto

lemma lucky_room:
  assumes prov: "is_provisional X v es prov" and i: "i \<in> lucky v es prov"
  shows "unat (out_amount_sats (fst (prov ! i))) + 1 \<le> unat v"
proof -
  have "lucky v es prov \<noteq> {}"
    using i by auto
  then have "0 < unat v - floor_sum (unat v) (ent_weights es)"
    by (auto simp: lucky_def)
  then show ?thesis
    using leftover_room [OF prov_pos [OF prov], of i "unat v"] lucky_less [OF prov i]
    by (simp add: prov_amount [OF prov])
qed

lemma unat_lucky_amount:
  assumes "is_provisional X v es prov" and "i \<in> lucky v es prov"
  shows "unat (out_amount_sats (fst (prov ! i)) + 1) = unat (out_amount_sats (fst (prov ! i))) + 1"
  using lucky_room [OF assms] u64_lt [of v] by (simp add: unat_word_ariths)

lemma add_one_sat_lucky:
  assumes "is_provisional X v es prov" and "i \<in> lucky v es prov"
  shows "add_one_sat (prov ! i) =
    Inr ((fst (prov ! i))\<lparr>out_amount_sats := out_amount_sats (fst (prov ! i)) + 1\<rparr>, snd (prov ! i))"
  using lucky_room [OF assms] u64_lt [of v]
  by (simp add: add_one_sat_def checked_add_def)

lemma settled_amounts:
  assumes "is_provisional X v es prov"
  shows "out_amounts (settled v es prov) =
     map (\<lambda>i. share_floor (unat v) (ent_weights es) i + of_bool (i \<in> lucky v es prov))
       [0..<length (ent_weights es)]"
  by (rule nth_equalityI)
    (simp_all add: settled_def prov_length [OF assms] prov_amount [OF assms]
      unat_lucky_amount [OF assms])

lemma settled_hamilton:
  assumes prov: "is_provisional X v es prov"
  shows "hamilton (unat v) (ent_weights es) (out_amounts (settled v es prov))"
  unfolding settled_amounts [OF prov]
proof (rule hamilton_by_sorting [OF rems.key_order_axioms prov_pos [OF prov] _ lucky_def])
  fix i j
  assume i: "i < length (ent_weights es)" and j: "j < length (ent_weights es)"
    and key: "remainder_key prov i \<le> remainder_key prov j"
  from key have "unat (snd (prov ! j)) \<le> unat (snd (prov ! i))"
    by (auto simp: remainder_key_def less_eq_prod_def word_le_nat_alt [symmetric] word_less_def
        word_le_def)
  then show "share_rem (unat v) (ent_weights es) j \<le> share_rem (unat v) (ent_weights es) i"
    using i j by (simp add: prov_rem [OF prov])
qed

lemma distribute_remainder_eq:
  assumes prov: "is_provisional X v es prov"
  shows "distribute_remainder v prov = Inr (settled v es prov)"
proof -
  note length = prov_length [OF prov]
  let ?ws = "ent_weights es" and ?floors = "map (\<lambda>p. out_amount_sats (fst p)) prov"
  have "map unat ?floors = map (share_floor (unat v) ?ws) [0..<length ?ws]"
    by (rule nth_equalityI) (simp_all add: length prov_amount [OF prov])
  then have floors: "sum_list (map unat ?floors) = floor_sum (unat v) ?ws"
    by (simp add: floor_sum_def interv_sum_list_conv_sum_set_nat atLeast0LessThan)
  have le: "floor_sum (unat v) ?ws \<le> unat v"
    by (rule floor_sum_le) (rule prov_pos [OF prov])
  then obtain allocated where allocated: "checked_sum AllocationOverflow ?floors = Inr allocated"
    using floors u64_lt [of v]
    by (cases "checked_sum AllocationOverflow ?floors") (auto simp: result_simps)
  then have ua: "unat allocated = floor_sum (unat v) ?ws"
    using floors by (simp add: result_simps)
  then obtain k where k: "checked_sub v allocated = Some k"
    and uk: "unat k = unat v - floor_sum (unat v) ?ws"
    using le by (cases "checked_sub v allocated") (auto simp: checked_simps)
  let ?idx = "take (unat k) (sort_by (compare_remainders prov) [0..<length prov])"
  have set_idx: "set ?idx = lucky v es prov"
    by (simp add: lucky_def uk length)
  have upd: "try_update_each add_one_sat ?idx prov = Inr (map (\<lambda>i. if i \<in> set ?idx
      then ((fst (prov ! i))\<lparr>out_amount_sats := out_amount_sats (fst (prov ! i)) + 1\<rparr>, snd (prov ! i))
      else prov ! i) [0..<length prov])"
  proof (rule try_update_each_total [where g = "\<lambda>p. ((fst p)\<lparr>out_amount_sats :=
        out_amount_sats (fst p) + 1\<rparr>, snd p)"])
    show "distinct ?idx" by (simp add: distinct_take)
    fix i assume "i \<in> set ?idx"
    then have "i \<in> lucky v es prov" by (simp only: set_idx)
    then show "i < length prov \<and> add_one_sat (prov ! i) = Inr ((fst (prov ! i))
        \<lparr>out_amount_sats := out_amount_sats (fst (prov ! i)) + 1\<rparr>, snd (prov ! i))"
      using lucky_less [OF prov] add_one_sat_lucky [OF prov] length by simp
  qed
  have outs: "map fst (map (\<lambda>i. if i \<in> set ?idx
      then ((fst (prov ! i))\<lparr>out_amount_sats := out_amount_sats (fst (prov ! i)) + 1\<rparr>, snd (prov ! i))
      else prov ! i) [0..<length prov]) = settled v es prov"
    unfolding settled_def set_idx by (simp add: if_distrib comp_def cong: if_cong)
  have "sum_list (map unat (map out_amount_sats (settled v es prov))) = unat v"
    using hamilton_sum [OF settled_hamilton [OF prov]] by simp
  then have "checked_sum AllocationOverflow (map out_amount_sats (settled v es prov)) = Inr v"
    using u64_lt [of v] by (simp add: result_simps)
  then show ?thesis
    unfolding distribute_remainder_def Let_def
    by (simp only: allocated k and_then.simps ok_or.simps upd outs simp_thms if_False)
qed

section \<open>The routine as a whole\<close>

lemma allocate_outputs_Inr:
  "allocate_outputs X r = Inr outs \<longleftrightarrow>
     req_coinbase_value_sats r \<noteq> 0 \<and> req_entitlements r \<noteq> [] \<and>
     (\<exists>es t prov. ordered_entitlements r = Inr es \<and> total_entitlement_weight es = Inr t \<and>
       try_map (provisional_output X (req_coinbase_value_sats r) t) es = Inr prov \<and>
       is_provisional X (req_coinbase_value_sats r) es prov \<and>
       outs = settled (req_coinbase_value_sats r) es prov)"
proof -
  have "distribute_remainder (req_coinbase_value_sats r) prov = Inr outs \<longleftrightarrow>
      is_provisional X (req_coinbase_value_sats r) es prov \<and>
      outs = settled (req_coinbase_value_sats r) es prov"
    if "req_entitlements r \<noteq> []" "ordered_entitlements r = Inr es"
      "total_entitlement_weight es = Inr t"
      "try_map (provisional_output X (req_coinbase_value_sats r) t) es = Inr prov" for es t prov
  proof -
    have "es \<noteq> []"
      using mset_ordered_entitlements [OF that(2)] that(1) by auto
    from is_provisionalI [OF that(3) this that(4)] show ?thesis
      by (auto simp: distribute_remainder_eq)
  qed
  note split = this
  show ?thesis
    unfolding allocate_outputs_def using split by (simp add: and_then_Inr) metis
qed

lemma allocate_outputsD:
  assumes "allocate_outputs X r = Inr outs"
  obtains es prov where "ordered_entitlements r = Inr es"
    and "is_provisional X (req_coinbase_value_sats r) es prov"
    and "outs = settled (req_coinbase_value_sats r) es prov"
  using assms by (auto simp: allocate_outputs_Inr)

lemma settled_fields:
  assumes "is_provisional X v es prov"
  shows "length (settled v es prov) = length es"
    and "map out_recipient_id (settled v es prov) = map ent_recipient_id es"
    and "map out_order_key (settled v es prov) = map ent_order_key es"
    and "map out_weight (settled v es prov) = map ent_weight es"
    and "out_weights (settled v es prov) = ent_weights es"
    and "map (Inr \<circ> out_p2mr_program) (settled v es prov) = map (parse_p2mr_program X) es"
    and "map out_script_pubkey (settled v es prov) =
      map (p2mr_script_pubkey \<circ> out_p2mr_program) (settled v es prov)"
  using assms by (auto simp: settled_def is_provisional_def intro!: nth_equalityI)

interpretation alloc: apportioner "\<lambda>r. unat (req_coinbase_value_sats r)" out_weights out_amounts
  "allocate_outputs X" for X :: "'x crates_scheme"
  by unfold_locales
    (auto elim!: allocate_outputsD simp: settled_fields(5) intro: settled_hamilton)

lemma ordered_entitlements_perm:
  assumes "mset (req_entitlements r) = mset (req_entitlements r')"
    and "inj_on ent_key (set (req_entitlements r))"
    and "req_pinned_first_output r = req_pinned_first_output r'"
  shows "ordered_entitlements r = ordered_entitlements r'"
  using ents.sort_by_perm [OF assms(1,2)] assms(3) by (simp add: ordered_entitlements_def)

lemma ordered_entitlements_pinned:
  assumes "ordered_entitlements r = Inr es" and "req_pinned_first_output r = Some p"
  obtains e rest where "es = e # rest" and "pin_matches p e" and "sorted (map ent_key rest)"
proof -
  let ?s = "sort_by compare_entitlements (req_entitlements r)"
  from assms obtain i where i: "pinned_entitlement_index ?s p = Inr i"
    and es: "es = rotate_prefix_right i ?s"
    by (auto simp: ordered_entitlements_def Let_def result_simps)
  note less = pinned_indexD(1) [OF i]
  have rest: "rotate_prefix_right i ?s = ?s ! i # (take i ?s @ drop (Suc i) ?s)"
    using less by (simp add: rotate_prefix_right_def take_Suc_conv_app_nth)
  have "sorted (map ent_key (take i ?s) @ map ent_key (drop i ?s))"
    using ents.sorted_keys [of "req_entitlements r"] by (simp flip: map_append)
  then have "sorted (map ent_key (take i ?s @ drop (Suc i) ?s))"
    using less by (simp add: Cons_nth_drop_Suc [symmetric] sorted_append)
  then show ?thesis
    using that [of "?s ! i"] es rest pinned_indexD(2) [OF i] by simp
qed

section \<open>Properties\<close>

text \<open>
  C6. The coinbase value is split without loss: the amounts of the outputs add up to the
  coinbase value, each is the floor of the exact proportional share or one satoshi more, and
  an exact share is paid exactly.
\<close>

theorem allocation_conserves_and_quota:
  assumes "allocate_outputs X r = Inr outs"
  shows "sum_list (out_amounts outs) = unat (req_coinbase_value_sats r) \<and>
    (\<forall>i<length outs.
      let exact = unat (req_coinbase_value_sats r) * out_weights outs ! i;
          total = sum_list (out_weights outs)
      in out_amounts outs ! i \<in> {exact div total, exact div total + 1} \<and>
         (total dvd exact \<longrightarrow> out_amounts outs ! i = exact div total))"
  using alloc.conserves [OF assms] alloc.quota [OF assms] alloc.exact [OF assms]
  by (simp add: Let_def)

text \<open>
  The split is fair: an output of a larger weight is never paid less than one of a
  smaller weight.
\<close>

theorem allocation_monotone:
  assumes "allocate_outputs X r = Inr outs" and "i < length outs" and "j < length outs"
    and "out_weight (outs ! i) < out_weight (outs ! j)"
  shows "out_amount_sats (outs ! i) \<le> out_amount_sats (outs ! j)"
  using alloc.monotone [OF assms(1), of i j] assms(2-4)
  by (simp add: word_less_nat_alt word_le_nat_alt)

lemma no_total_mismatch: "allocate_outputs X r \<noteq> Inl (AllocationTotalMismatch a b)"
proof
  assume err: "allocate_outputs X r = Inl (AllocationTotalMismatch a b)"
  have ord: "ordered_entitlements r \<noteq> Inl (AllocationTotalMismatch a b)"
    by (auto simp: ordered_entitlements_def pinned_entitlement_index_def Let_def and_then_Inl
        split: option.splits list.splits)
  have "try_fold (\<lambda>sum e. if ent_weight e = 0 then Inl (ZeroWeight (ent_recipient_id e))
      else ok_or WeightOverflow (checked_add sum (ent_weight e))) s es \<noteq>
      Inl (AllocationTotalMismatch a b)" for s es
    by (induction es arbitrary: s) (auto simp: and_then_Inl ok_or_Inl)
  then have tot: "total_entitlement_weight es \<noteq> Inl (AllocationTotalMismatch a b)" for es
    by (simp add: total_entitlement_weight_def)
  have prov: "provisional_output X v t e \<noteq> Inl (AllocationTotalMismatch a b)" for v t e
    by (auto simp: provisional_output_def parse_p2mr_program_def Let_def and_then_Inl ok_or_Inl
        map_err_Inl split: if_splits)
  from err obtain es t prov where nz: "req_entitlements r \<noteq> []"
    and stages: "ordered_entitlements r = Inr es" "total_entitlement_weight es = Inr t"
      "try_map (provisional_output X (req_coinbase_value_sats r) t) es = Inr prov"
    and bad: "distribute_remainder (req_coinbase_value_sats r) prov = Inl (AllocationTotalMismatch a b)"
    using ord tot prov
    by (auto simp: allocate_outputs_def and_then_Inl dest!: try_map_Inl_D split: if_splits)
  have "es \<noteq> []"
    using mset_ordered_entitlements [OF stages(1)] nz by auto
  from is_provisionalI [OF stages(2) this stages(3)] bad show False
    by (simp add: distribute_remainder_eq)
qed

lemma allocate_outputs_ok_iff:
  "(\<exists>outs. allocate_outputs X r = Inr outs) \<longleftrightarrow>
     req_coinbase_value_sats r \<noteq> 0 \<and> req_entitlements r \<noteq> [] \<and>
     (\<exists>es. ordered_entitlements r = Inr es) \<and>
     sum_list (ent_weights (req_entitlements r)) < 2 ^ 128 \<and>
     (\<forall>e \<in> set (req_entitlements r). ent_weight e \<noteq> 0 \<and>
        (\<exists>program. parse_p2mr_program X e = Inr program) \<and>
        unat (req_coinbase_value_sats r) * unat (ent_weight e) < 2 ^ 128)"
  (is "?succeeds \<longleftrightarrow> ?explained")
proof (rule iffI)
  assume ?succeeds
  then obtain es t prov where nz: "req_coinbase_value_sats r \<noteq> 0" "req_entitlements r \<noteq> []"
    and es: "ordered_entitlements r = Inr es" and t: "total_entitlement_weight es = Inr t"
    and prov: "try_map (provisional_output X (req_coinbase_value_sats r) t) es = Inr prov"
    by (auto simp: allocate_outputs_Inr)
  have perm: "mset es = mset (req_entitlements r)"
    by (rule mset_ordered_entitlements) (rule es)
  have "sum_list (ent_weights es) = sum_list (ent_weights (req_entitlements r))"
    using perm by (metis mset_map sum_mset_sum_list)
  moreover have "\<exists>p. provisional_output X (req_coinbase_value_sats r) t e = Inr p"
    if "e \<in> set es" for e
    using prov that by (auto simp: result_simps list_all2_conv_all_nth in_set_conv_nth)
  moreover have "set es = set (req_entitlements r)"
    using perm by (rule mset_eq_setD)
  ultimately show ?explained
    using nz es t by (fastforce simp: total_entitlement_weight_Inr provisional_output_Inr)
next
  assume ok: ?explained
  then obtain es where es: "ordered_entitlements r = Inr es"
    by blast
  have perm: "mset es = mset (req_entitlements r)"
    by (rule mset_ordered_entitlements) (rule es)
  have sum: "sum_list (ent_weights es) = sum_list (ent_weights (req_entitlements r))"
    using perm by (metis mset_map sum_mset_sum_list)
  have set: "set es = set (req_entitlements r)"
    using perm by (rule mset_eq_setD)
  let ?t = "of_nat (sum_list (ent_weights es)) :: u128"
  have t: "total_entitlement_weight es = Inr ?t"
    using ok sum set by (simp add: total_entitlement_weight_Inr unat_of_nat take_bit_nat_eq_self)
  then have ut: "unat ?t = sum_list (ent_weights es)"
    by (simp add: total_entitlement_weight_Inr)
  have "\<exists>p. provisional_output X (req_coinbase_value_sats r) ?t e = Inr p" if e: "e \<in> set es" for e
  proof -
    let ?v = "unat (req_coinbase_value_sats r)" and ?w = "unat (ent_weight e)"
    obtain i where "i < length es" and "es ! i = e"
      using e by (auto simp: in_set_conv_nth)
    then have "?v * ?w div unat ?t \<le> ?v"
      using share_floor_le [of i "ent_weights es" ?v] ut by (simp add: share_floor_def)
    then have "?v * ?w div unat ?t < 2 ^ 64"
      using u64_lt [of "req_coinbase_value_sats r"] by simp
    then obtain amount :: u64 where amount: "unat amount = ?v * ?w div unat ?t"
      using ex_unat [where 'a = 64] by auto
    have fits: "?v * ?w < 2 ^ 128"
      using ok e set by blast
    then have "?v * ?w mod unat ?t < 2 ^ 128"
      by (rule le_less_trans [OF mod_less_eq_dividend])
    then obtain rem :: u128 where rem: "unat rem = ?v * ?w mod unat ?t"
      using ex_unat [where 'a = 128] by auto
    obtain program where program: "parse_p2mr_program X e = Inr program"
      using ok e set by blast
    show ?thesis
      unfolding provisional_output_Inr using amount rem program fits
      by (intro exI [of _ "(\<lparr>out_recipient_id = ent_recipient_id e,
          out_order_key = ent_order_key e, out_p2mr_program = program,
          out_script_pubkey = p2mr_script_pubkey program, out_weight = ent_weight e,
          out_amount_sats = amount\<rparr>, rem)"] exI [of _ program] exI [of _ amount]) simp
  qed
  then have "\<exists>prov. try_map (provisional_output X (req_coinbase_value_sats r) ?t) es = Inr prov"
    using try_map_total by meson
  moreover have "es \<noteq> []"
    using ok perm by auto
  ultimately show ?succeeds
    using ok es t is_provisionalI by (metis (lifting) allocate_outputs_Inr)
qed

text \<open>
  The pin is resolved exactly when one entitlement of the request matches it: the positions
  the code collects are those of the matching entitlements, and sorting only permutes them.
\<close>

lemma length_filter_positions:
  "length (filter (\<lambda>i. P (xs ! i)) [0..<length xs]) = length (filter P xs)"
proof -
  have "filter P xs = filter P (map ((!) xs) [0..<length xs])"
    by (simp add: map_nth)
  also have "\<dots> = map ((!) xs) (filter (\<lambda>i. P (xs ! i)) [0..<length xs])"
    by (simp add: filter_map comp_def)
  finally show ?thesis
    by simp
qed

lemma length_filter_ordered:
  "length (filter P (sort_by compare_entitlements es)) = length (filter P es)"
  by (metis mset_sort_by mset_filter size_mset)

lemma pinned_index_ok_iff:
  "(\<exists>i. pinned_entitlement_index es p = Inr i) \<longleftrightarrow> length (filter (pin_matches p) es) = 1"
  unfolding pinned_index_Inr length_filter_positions [of "pin_matches p" es, symmetric]
  by (simp add: length_Suc_conv)

lemma pinned_index_ambiguous:
  "1 < length (filter (pin_matches p) es) \<Longrightarrow>
   pinned_entitlement_index es p = Inl (PinnedFirstOutputAmbiguous (pin_recipient_id p))"
  unfolding length_filter_positions [of "pin_matches p" es, symmetric]
  by (auto simp: pinned_entitlement_index_def split: list.splits)

lemma pinned_index_missing:
  "filter (pin_matches p) es = [] \<Longrightarrow>
   pinned_entitlement_index es p = Inl (PinnedFirstOutputMissing (pin_recipient_id p))"
  using length_filter_positions [of "pin_matches p" es]
  by (simp add: pinned_entitlement_index_def)

lemma ordered_entitlements_ok_iff:
  "(\<exists>es. ordered_entitlements r = Inr es) \<longleftrightarrow>
     (\<forall>p. req_pinned_first_output r = Some p \<longrightarrow>
        length (filter (pin_matches p) (req_entitlements r)) = 1)"
proof (cases "req_pinned_first_output r")
  case None
  then show ?thesis
    by (simp add: ordered_entitlements_def Let_def)
next
  case (Some p)
  let ?s = "sort_by compare_entitlements (req_entitlements r)"
  have "(\<exists>es. ordered_entitlements r = Inr es) \<longleftrightarrow> (\<exists>i. pinned_entitlement_index ?s p = Inr i)"
    using Some by (auto simp: ordered_entitlements_def Let_def result_simps)
  then show ?thesis
    using Some by (simp add: pinned_index_ok_iff length_filter_ordered)
qed

lemma allocate_outputs_pin_error:
  assumes "req_coinbase_value_sats r \<noteq> 0" and "req_entitlements r \<noteq> []"
    and "req_pinned_first_output r = Some p"
  shows "filter (pin_matches p) (req_entitlements r) = [] \<Longrightarrow>
      allocate_outputs X r = Inl (PinnedFirstOutputMissing (pin_recipient_id p))"
    and "1 < length (filter (pin_matches p) (req_entitlements r)) \<Longrightarrow>
      allocate_outputs X r = Inl (PinnedFirstOutputAmbiguous (pin_recipient_id p))"
proof -
  let ?s = "sort_by compare_entitlements (req_entitlements r)"
  show "allocate_outputs X r = Inl (PinnedFirstOutputMissing (pin_recipient_id p))"
    if "filter (pin_matches p) (req_entitlements r) = []"
  proof -
    have "filter (pin_matches p) ?s = []"
      using length_filter_ordered [of "pin_matches p" "req_entitlements r"] that by simp
    from pinned_index_missing [OF this] show ?thesis
      using assms by (simp add: allocate_outputs_def ordered_entitlements_def Let_def)
  qed
  show "allocate_outputs X r = Inl (PinnedFirstOutputAmbiguous (pin_recipient_id p))"
    if "1 < length (filter (pin_matches p) (req_entitlements r))"
  proof -
    have "1 < length (filter (pin_matches p) ?s)"
      using that by (simp add: length_filter_ordered)
    from pinned_index_ambiguous [OF this] show ?thesis
      using assms by (simp add: allocate_outputs_def ordered_entitlements_def Let_def)
  qed
qed

lemma parse_p2mr_program_ok_iff:
  "(\<exists>program. parse_p2mr_program X e = Inr program) \<longleftrightarrow>
     (\<exists>program. hex_decode X (ent_p2mr_program_hex e) = Inr program \<and> length program = 32)"
  by (auto simp: parse_p2mr_program_def P2MR_PROGRAM_LEN_def result_simps)

text \<open>
  C7. Exactly which requests are allocated: a positive value, entitlements of positive weight
  whose sum fits \<open>u128\<close>, a pin (if there is one) with the recipient, the order key and, up to
  ASCII case, the program of exactly one of the entitlements, program strings that decode to
  32 bytes each, and products of value and weight that fit \<open>u128\<close>. A pin that nothing matches,
  or that two entitlements match, is refused with the error that says so, whatever the rest
  of the request is. The final total never mismatches: that error of the routine is
  unreachable.
\<close>

theorem allocation_succeeds_iff:
  "allocate_outputs X r \<noteq> Inl (AllocationTotalMismatch a b) \<and>
   ((\<exists>outs. allocate_outputs X r = Inr outs) \<longleftrightarrow>
     req_coinbase_value_sats r \<noteq> 0 \<and> req_entitlements r \<noteq> [] \<and>
     (\<forall>p. req_pinned_first_output r = Some p \<longrightarrow>
        length (filter (\<lambda>e. ent_recipient_id e = pin_recipient_id p \<and>
            ent_order_key e = pin_order_key p \<and>
            eq_ignore_ascii_case (ent_p2mr_program_hex e) (pin_p2mr_program_hex p))
          (req_entitlements r)) = 1) \<and>
     sum_list (ent_weights (req_entitlements r)) < 2 ^ 128 \<and>
     (\<forall>e \<in> set (req_entitlements r). ent_weight e \<noteq> 0 \<and>
        (\<exists>program. hex_decode X (ent_p2mr_program_hex e) = Inr program \<and> length program = 32) \<and>
        unat (req_coinbase_value_sats r) * unat (ent_weight e) < 2 ^ 128)) \<and>
   (\<forall>p. req_coinbase_value_sats r \<noteq> 0 \<and> req_entitlements r \<noteq> [] \<and>
      req_pinned_first_output r = Some p \<longrightarrow>
      (\<not> (\<exists>e \<in> set (req_entitlements r). pin_matches p e) \<longrightarrow>
         allocate_outputs X r = Inl (PinnedFirstOutputMissing (pin_recipient_id p))) \<and>
      (1 < length (filter (pin_matches p) (req_entitlements r)) \<longrightarrow>
         allocate_outputs X r = Inl (PinnedFirstOutputAmbiguous (pin_recipient_id p))))"
proof -
  have "(\<lambda>e. ent_recipient_id e = pin_recipient_id p \<and> ent_order_key e = pin_order_key p \<and>
      eq_ignore_ascii_case (ent_p2mr_program_hex e) (pin_p2mr_program_hex p)) = pin_matches p" for p
    by (simp add: fun_eq_iff pin_matches_def)
  then show ?thesis
    using no_total_mismatch allocate_outputs_ok_iff [of X r]
      allocate_outputs_pin_error [of r _ X]
    unfolding ordered_entitlements_ok_iff parse_p2mr_program_ok_iff
    by (simp add: filter_empty_conv)
qed

text \<open>
  The result does not depend on the order in which the caller lists the entitlements,
  when their canonical keys are distinct.
\<close>

theorem allocation_order_independent:
  assumes "mset (req_entitlements r) = mset (req_entitlements r')"
    and "distinct (map ent_key (req_entitlements r))"
    and "req_pinned_first_output r = req_pinned_first_output r'"
    and "req_coinbase_value_sats r = req_coinbase_value_sats r'"
  shows "allocate_outputs X r = allocate_outputs X r'"
proof -
  have "req_entitlements r = [] \<longleftrightarrow> req_entitlements r' = []"
    using assms(1) by (metis mset_zero_iff)
  moreover have "ordered_entitlements r = ordered_entitlements r'"
    using assms(1-3) by (intro ordered_entitlements_perm) (simp_all add: distinct_map)
  ultimately show ?thesis
    using assms(4) by (simp add: allocate_outputs_def)
qed

text \<open>
  A pinned entitlement is emitted at output 0 and every other output follows in canonical
  order: the outputs list one entitlement that matches the pin, then the rest sorted by
  (order key, recipient, program), and together they are the requested entitlements.
\<close>

theorem pinned_output_is_first:
  assumes "allocate_outputs X r = Inr outs" and "req_pinned_first_output r = Some p"
  shows "\<exists>e rest. pin_matches p e \<and> sorted (map ent_key rest) \<and>
    mset (e # rest) = mset (req_entitlements r) \<and>
    map out_recipient_id outs = map ent_recipient_id (e # rest) \<and>
    map out_order_key outs = map ent_order_key (e # rest) \<and>
    map out_weight outs = map ent_weight (e # rest) \<and>
    map (Inr \<circ> out_p2mr_program) outs = map (parse_p2mr_program X) (e # rest)"
proof -
  from assms(1) obtain es prov where es: "ordered_entitlements r = Inr es"
    and prov: "is_provisional X (req_coinbase_value_sats r) es prov"
    and outs: "outs = settled (req_coinbase_value_sats r) es prov"
    by (rule allocate_outputsD)
  from es assms(2) obtain e rest where "es = e # rest" "pin_matches p e" "sorted (map ent_key rest)"
    by (rule ordered_entitlements_pinned)
  then show ?thesis
    using settled_fields(2-4,6) [OF prov] mset_ordered_entitlements [OF es] outs by metis
qed

section \<open>A concrete request\<close>

definition sample_entitlement :: "string \<Rightarrow> string \<Rightarrow> u8 \<Rightarrow> u128 \<Rightarrow> weighted_entitlement" where
  "sample_entitlement recipient key b w =
     \<lparr>ent_recipient_id = recipient, ent_order_key = key,
      ent_p2mr_program_hex = sample_hex_encode (replicate 32 b), ent_weight = w\<rparr>"

definition sample_pin :: pinned_first_output where
  "sample_pin =
     \<lparr>pin_recipient_id = ''b'', pin_order_key = ''2'',
      pin_p2mr_program_hex = sample_hex_encode (replicate 32 2)\<rparr>"

definition sample_request :: coinbase_build_request where
  "sample_request =
     \<lparr>req_block_height = 42, req_coinbase_value_sats = 100,
      req_entitlements = [sample_entitlement ''b'' ''2'' 2 2, sample_entitlement ''a'' ''1'' 1 1],
      req_witness_nonce_hex = None, req_witness_merkle_leaves_hex = [],
      req_coinbase_script_sig_suffix_hex = None,
      req_pinned_first_output = Some sample_pin\<rparr>"

definition sample_outputs :: "allocated_output list" where
  "sample_outputs =
     [\<lparr>out_recipient_id = ''b'', out_order_key = ''2'', out_p2mr_program = replicate 32 2,
       out_script_pubkey = p2mr_script_pubkey (replicate 32 2), out_weight = 2,
       out_amount_sats = 67\<rparr>,
      \<lparr>out_recipient_id = ''a'', out_order_key = ''1'', out_p2mr_program = replicate 32 1,
       out_script_pubkey = p2mr_script_pubkey (replicate 32 1), out_weight = 1,
       out_amount_sats = 33\<rparr>]"

lemma sample_ordered:
  "ordered_entitlements sample_request =
     Inr [sample_entitlement ''b'' ''2'' 2 2, sample_entitlement ''a'' ''1'' 1 1]"
  by (simp add: ordered_entitlements_def sample_request_def sample_entitlement_def
      compare_entitlements_def cmp_def pinned_entitlement_index_def pin_matches_def
      rotate_prefix_right_def sample_pin_def Let_def)

lemma sample_total:
  "total_entitlement_weight
     [sample_entitlement ''b'' ''2'' 2 2, sample_entitlement ''a'' ''1'' 1 1] = Inr 3"
  by (simp add: total_entitlement_weight_def sample_entitlement_def checked_add_def)

lemma sample_allocation_hex:
  assumes "hex_decode X = sample_hex_decode"
  shows "allocate_outputs X sample_request = Inr sample_outputs"
proof -
  have "try_map (provisional_output X 100 3)
      [sample_entitlement ''b'' ''2'' 2 2, sample_entitlement ''a'' ''1'' 1 1] =
    Inr (zip (map (\<lambda>p. p\<lparr>out_amount_sats := out_amount_sats p - 1 + of_bool (p = sample_outputs ! 1)\<rparr>)
      sample_outputs) [2, 1])"
    by (simp add: assms sample_decode_encode provisional_output_def parse_p2mr_program_def
        P2MR_PROGRAM_LEN_def sample_entitlement_def sample_outputs_def checked_mul_def u128_from_u64_def
        u64_try_from_u128_def Let_def)
  moreover have "distribute_remainder 100 (zip (map (\<lambda>p. p\<lparr>out_amount_sats :=
      out_amount_sats p - 1 + of_bool (p = sample_outputs ! 1)\<rparr>) sample_outputs) [2, 1]) =
      Inr sample_outputs"
    by (simp add: distribute_remainder_def sample_outputs_def checked_sum_def checked_add_def
        checked_sub_def compare_remainders_def cmp_def add_one_sat_def Let_def)
  moreover have "req_coinbase_value_sats sample_request = 100" "req_entitlements sample_request \<noteq> []"
    by (simp_all add: sample_request_def)
  ultimately show ?thesis
    by (simp add: allocate_outputs_def sample_ordered sample_total)
qed

lemma sample_allocation: "allocate_outputs sample_crates sample_request = Inr sample_outputs"
  by (rule sample_allocation_hex) (simp add: sample_crates_def)

theorem allocation_conserves_and_quota_witness:
  "sum_list (out_amounts sample_outputs) = 100 \<and>
   out_amounts sample_outputs ! 0 \<in> {66, 67}"
  using allocation_conserves_and_quota [OF sample_allocation]
  by (simp add: sample_request_def sample_outputs_def Let_def)

theorem allocation_monotone_witness:
  "out_amount_sats (sample_outputs ! 1) \<le> out_amount_sats (sample_outputs ! 0)"
  by (rule allocation_monotone [OF sample_allocation]) (simp_all add: sample_outputs_def)

theorem allocation_succeeds_iff_witness:
  "(\<exists>outs. allocate_outputs sample_crates sample_request = Inr outs) \<and>
   length (filter (pin_matches sample_pin) (req_entitlements sample_request)) = 1 \<and>
   (\<exists>program. hex_decode sample_crates (ent_p2mr_program_hex (hd (req_entitlements sample_request))) = Inr program \<and>
      length program = 32) \<and>
   allocate_outputs sample_crates (sample_request\<lparr>req_entitlements :=
       req_entitlements sample_request @ req_entitlements sample_request\<rparr>) =
     Inl (PinnedFirstOutputAmbiguous ''b'')"
proof (intro conjI)
  let ?r = "sample_request" and ?r2 = "sample_request\<lparr>req_entitlements :=
       req_entitlements sample_request @ req_entitlements sample_request\<rparr>"
  show ok: "\<exists>outs. allocate_outputs sample_crates ?r = Inr outs"
    using sample_allocation by blast
  show one: "length (filter (pin_matches sample_pin) (req_entitlements ?r)) = 1"
    by (simp add: sample_request_def sample_pin_def pin_matches_def sample_entitlement_def)
  have "hd (req_entitlements ?r) \<in> set (req_entitlements ?r)"
    by (simp add: sample_request_def)
  then show "\<exists>program. hex_decode sample_crates (ent_p2mr_program_hex (hd (req_entitlements ?r))) = Inr program \<and>
      length program = 32"
    using allocation_succeeds_iff [of sample_crates ?r] ok by blast
  have "1 < length (filter (pin_matches sample_pin) (req_entitlements ?r2))"
    using one by simp
  moreover have "req_coinbase_value_sats ?r2 \<noteq> 0" "req_entitlements ?r2 \<noteq> []"
    "req_pinned_first_output ?r2 = Some sample_pin" "pin_recipient_id sample_pin = ''b''"
    by (simp_all add: sample_request_def sample_pin_def)
  ultimately show "allocate_outputs sample_crates ?r2 = Inl (PinnedFirstOutputAmbiguous ''b'')"
    using allocation_succeeds_iff [of sample_crates ?r2] by metis
qed

theorem allocation_order_independent_witness:
  "allocate_outputs sample_crates
     (sample_request\<lparr>req_entitlements := rev (req_entitlements sample_request)\<rparr>) =
   Inr sample_outputs"
  using allocation_order_independent [of "sample_request\<lparr>req_entitlements :=
      rev (req_entitlements sample_request)\<rparr>" sample_request sample_crates] sample_allocation
  by (simp add: sample_request_def ent_key_def sample_entitlement_def)

lemma sample_pinned: "req_pinned_first_output sample_request = Some sample_pin"
  by (simp add: sample_request_def)

theorem pinned_output_is_first_witness:
  "out_order_key (sample_outputs ! 0) = ''2'' \<and> out_recipient_id (sample_outputs ! 0) = ''b''"
proof -
  obtain e rest where "pin_matches sample_pin e"
    and "map out_recipient_id sample_outputs = map ent_recipient_id (e # rest)"
    and "map out_order_key sample_outputs = map ent_order_key (e # rest)"
    using pinned_output_is_first [OF sample_allocation sample_pinned] by blast
  then show ?thesis
    by (simp add: pin_matches_def sample_pin_def sample_outputs_def)
qed

end
