(* ===== verification/Coinbase.thy ===== *)
theory Coinbase
  imports Allocation
begin

text \<open>
  The serialized coinbase transaction and the signed payout manifest of
  \<open>qbit-pool-builder\<close>. A reader of the consensus wire format is the specification: what
  \<open>build_coinbase\<close> writes reads back as the allocated outputs followed by the witness
  commitment, its script starts with the BIP34 height, and a signed manifest verifies.
\<close>

unbundle bit_operations_syntax

section \<open>Definitions\<close>

definition total_output_amount :: "allocated_output list \<Rightarrow> builder_error + u64" where
  "total_output_amount outputs = checked_sum AllocationOverflow (map out_amount_sats outputs)"

definition total_output_weight :: "allocated_output list \<Rightarrow> builder_error + u128" where
  "total_output_weight outputs = checked_sum WeightOverflow (map out_weight outputs)"

definition build_coinbase ::
    "'x crates_scheme \<Rightarrow> coinbase_build_request \<Rightarrow> builder_error + built_coinbase" where
  "build_coinbase X request =
     and_then (allocate_outputs X request) (\<lambda>outputs.
     and_then (witness_nonce X request) (\<lambda>nonce.
     and_then (witness_leaves X request) (\<lambda>leaves.
     let script = witness_commitment_script X leaves nonce in
     and_then (serialize_coinbase_prefix X [] request) (\<lambda>prefix.
     and_then (coinbase_lock_time (req_block_height request)) (\<lambda>lock_time.
     let tx_without_witness = serialize_outputs prefix outputs script @ to_le_bytes lock_time in
     and_then (serialize_coinbase_input X (to_le_bytes (2 :: u32) @ [0, 1]) request) (\<lambda>input.
     and_then (coinbase_lock_time (req_block_height request)) (\<lambda>lock_time.
     let tx_with_witness =
           serialize_witness (serialize_outputs input outputs script) nonce @ to_le_bytes lock_time;
         coinbase_weight_bytes = length tx_with_witness in
     if MAX_BLOCK_WEIGHT < coinbase_weight_bytes
     then Inl (CoinbaseWeightTooHigh coinbase_weight_bytes MAX_BLOCK_WEIGHT)
     else and_then (total_output_amount outputs) (\<lambda>allocated.
     if allocated \<noteq> req_coinbase_value_sats request
     then Inl (AllocationTotalMismatch allocated (req_coinbase_value_sats request))
     else and_then (total_output_weight outputs) (\<lambda>total_weight.
     Inr \<lparr>bc_tx_with_witness = tx_with_witness, bc_tx_without_witness = tx_without_witness,
          bc_txid = hash256 X tx_without_witness, bc_wtxid = hash256 X tx_with_witness,
          bc_witness_commitment_script = script, bc_outputs = outputs,
          bc_total_weight = total_weight, bc_coinbase_weight_bytes = coinbase_weight_bytes\<rparr>)))))))))"

definition payout_output_of :: "'x crates_scheme \<Rightarrow> nat \<times> allocated_output \<Rightarrow> payout_output" where
  "payout_output_of X = (\<lambda>(index, output).
     \<lparr>po_vout = index, po_recipient_id = out_recipient_id output,
      po_order_key = out_order_key output,
      po_p2mr_program_hex = hex_encode X (out_p2mr_program output),
      po_script_pubkey_hex = hex_encode X (out_script_pubkey output),
      po_weight = out_weight output, po_amount_sats = out_amount_sats output\<rparr>)"

definition build_manifest ::
    "'x crates_scheme \<Rightarrow> coinbase_build_request \<Rightarrow> builder_error + payout_manifest" where
  "build_manifest X request =
     and_then (build_coinbase X request) (\<lambda>built.
     and_then (coinbase_script_sig X request) (\<lambda>script_sig.
     and_then (coinbase_script_sig_suffix X request) (\<lambda>suffix.
     let outputs = map (payout_output_of X) (List.enumerate 0 (bc_outputs built)) in
     and_then (witness_nonce X request) (\<lambda>nonce.
     Inr \<lparr>pm_schema = ''qbit.prism.coinbase-manifest.v1'',
          pm_block_height = req_block_height request,
          pm_coinbase_value_sats = req_coinbase_value_sats request,
          pm_total_weight = bc_total_weight built,
          pm_coinbase_weight_bytes = bc_coinbase_weight_bytes built,
          pm_payout_count = length outputs,
          pm_coinbase_tx_hex = hex_encode X (bc_tx_with_witness built),
          pm_coinbase_txid = display_hash_hex (bc_txid built),
          pm_coinbase_wtxid = display_hash_hex (bc_wtxid built),
          pm_coinbase_script_sig_hex = hex_encode X script_sig,
          pm_coinbase_script_sig_suffix_hex = hex_encode X suffix,
          pm_witness_nonce_hex = hex_encode X nonce,
          pm_witness_commitment_script_hex = hex_encode X (bc_witness_commitment_script built),
          pm_outputs = outputs\<rparr>))))"

text \<open>A signing key is its 32-byte seed.\<close>

definition from_seed_hex :: "'x crates_scheme \<Rightarrow> string \<Rightarrow> builder_error + u8 list" where
  "from_seed_hex X seed_hex =
     and_then (map_err Hex (hex_decode X seed_hex)) (\<lambda>seed.
     if length seed \<noteq> 32 then Inl (InvalidSigningSeedLength (length seed)) else Inr seed)"

definition public_key_hex :: "'x crates_scheme \<Rightarrow> u8 list \<Rightarrow> string" where
  "public_key_hex X key = hex_encode X (ed_public_key X key)"

definition sign_message_hex :: "'x crates_scheme \<Rightarrow> u8 list \<Rightarrow> u8 list \<Rightarrow> string" where
  "sign_message_hex X key message = hex_encode X (ed_sign X key message)"

definition canonical_manifest_bytes ::
    "'x builder_crates_scheme \<Rightarrow> payout_manifest \<Rightarrow> builder_error + u8 list" where
  "canonical_manifest_bytes X manifest = map_err Json (manifest_json X manifest)"

definition build_signed_manifest ::
    "'x builder_crates_scheme \<Rightarrow> coinbase_build_request \<Rightarrow> u8 list \<Rightarrow>
     builder_error + signed_payout_manifest" where
  "build_signed_manifest X request signing_key =
     and_then (build_manifest X request) (\<lambda>manifest.
     and_then (canonical_manifest_bytes X manifest) (\<lambda>canonical_manifest.
     Inr \<lparr>spm_manifest = manifest,
          spm_signature = \<lparr>sig_algorithm = ''ed25519'',
            sig_public_key_hex = public_key_hex X signing_key,
            sig_signature_hex = hex_encode X (ed_sign X signing_key canonical_manifest)\<rparr>\<rparr>))"

definition verify_ed25519_message ::
    "'x crates_scheme \<Rightarrow> string \<Rightarrow> u8 list \<Rightarrow> string \<Rightarrow> builder_error + unit" where
  "verify_ed25519_message X key_hex message signature_hex =
     and_then (map_err Hex (hex_decode X key_hex)) (\<lambda>public_key.
     if length public_key \<noteq> 32 then Inl (InvalidPublicKeyLength (length public_key))
     else if \<not> ed_key_ok X public_key then Inl SignatureVerificationFailed
     else
       and_then (map_err Hex (hex_decode X signature_hex)) (\<lambda>signature.
       if length signature \<noteq> 64 then Inl (InvalidSignatureLength (length signature))
       else if ed_verify X public_key message signature then Inr ()
       else Inl SignatureVerificationFailed))"

definition verify_signed_manifest ::
    "'x builder_crates_scheme \<Rightarrow> signed_payout_manifest \<Rightarrow> builder_error + unit" where
  "verify_signed_manifest X spm =
     (if sig_algorithm (spm_signature spm) \<noteq> ''ed25519'' then Inl SignatureVerificationFailed
      else
        and_then (canonical_manifest_bytes X (spm_manifest spm)) (\<lambda>message.
        verify_ed25519_message X (sig_public_key_hex (spm_signature spm)) message
          (sig_signature_hex (spm_signature spm))))"

section \<open>The wire format\<close>

definition read_le :: "nat \<Rightarrow> u8 list \<Rightarrow> (nat \<times> u8 list) option" where
  "read_le n bs = (if n \<le> length bs then Some (le_value (take n bs), drop n bs) else None)"

definition read_bytes :: "nat \<Rightarrow> u8 list \<Rightarrow> (u8 list \<times> u8 list) option" where
  "read_bytes n bs = (if n \<le> length bs then Some (take n bs, drop n bs) else None)"

fun read_compact_size :: "u8 list \<Rightarrow> (nat \<times> u8 list) option" where
  "read_compact_size [] = None"
| "read_compact_size (b # bs) =
     (if b < 253 then Some (unat b, bs)
      else if b = 253 then read_le 2 bs
      else if b = 254 then read_le 4 bs else read_le 8 bs)"

definition read_script :: "u8 list \<Rightarrow> (u8 list \<times> u8 list) option" where
  "read_script bs = Option.bind (read_compact_size bs) (\<lambda>(n, bs). read_bytes n bs)"

fun read_list :: "(u8 list \<Rightarrow> ('a \<times> u8 list) option) \<Rightarrow> nat \<Rightarrow> u8 list \<Rightarrow> ('a list \<times> u8 list) option" where
  "read_list rd 0 bs = Some ([], bs)"
| "read_list rd (Suc n) bs =
     Option.bind (rd bs) (\<lambda>(x, bs).
     Option.bind (read_list rd n bs) (\<lambda>(xs, bs). Some (x # xs, bs)))"

definition read_vector :: "(u8 list \<Rightarrow> ('a \<times> u8 list) option) \<Rightarrow> u8 list \<Rightarrow> ('a list \<times> u8 list) option" where
  "read_vector rd bs = Option.bind (read_compact_size bs) (\<lambda>(n, bs). read_list rd n bs)"

text \<open>An input is (previous txid, index, script, sequence), an output (amount, script).\<close>

definition read_input :: "u8 list \<Rightarrow> ((u8 list \<times> nat \<times> u8 list \<times> nat) \<times> u8 list) option" where
  "read_input bs =
     Option.bind (read_bytes 32 bs) (\<lambda>(txid, bs).
     Option.bind (read_le 4 bs) (\<lambda>(index, bs).
     Option.bind (read_script bs) (\<lambda>(script, bs).
     Option.bind (read_le 4 bs) (\<lambda>(sequence, bs).
     Some ((txid, index, script, sequence), bs)))))"

definition read_output :: "u8 list \<Rightarrow> ((nat \<times> u8 list) \<times> u8 list) option" where
  "read_output bs =
     Option.bind (read_le 8 bs) (\<lambda>(amount, bs).
     Option.bind (read_script bs) (\<lambda>(script, bs). Some ((amount, script), bs)))"

record wire_tx =
  tx_version :: nat
  tx_inputs :: "(u8 list \<times> nat \<times> u8 list \<times> nat) list"
  tx_outputs :: "(nat \<times> u8 list) list"
  tx_witness :: "u8 list list"
  tx_lock_time :: nat

definition read_tx :: "u8 list \<Rightarrow> wire_tx option" where
  "read_tx bs =
     Option.bind (read_le 4 bs) (\<lambda>(version, bs).
     Option.bind (read_vector read_input bs) (\<lambda>(inputs, bs).
     Option.bind (read_vector read_output bs) (\<lambda>(outputs, bs).
     Option.bind (read_le 4 bs) (\<lambda>(lock_time, bs).
     if bs = [] then Some \<lparr>tx_version = version, tx_inputs = inputs, tx_outputs = outputs,
       tx_witness = [], tx_lock_time = lock_time\<rparr> else None))))"

text \<open>The segwit form: marker 0, flag 1, and the witness stack of the single input.\<close>

definition read_segwit_tx :: "u8 list \<Rightarrow> wire_tx option" where
  "read_segwit_tx bs =
     Option.bind (read_le 4 bs) (\<lambda>(version, bs).
     Option.bind (read_bytes 2 bs) (\<lambda>(marker, bs).
     if marker \<noteq> [0, 1] then None
     else
       Option.bind (read_vector read_input bs) (\<lambda>(inputs, bs).
       Option.bind (read_vector read_output bs) (\<lambda>(outputs, bs).
       Option.bind (read_vector read_script bs) (\<lambda>(witness, bs).
       Option.bind (read_le 4 bs) (\<lambda>(lock_time, bs).
       if bs = [] then Some \<lparr>tx_version = version, tx_inputs = inputs, tx_outputs = outputs,
         tx_witness = witness, tx_lock_time = lock_time\<rparr> else None))))))"

named_theorems wire_simps

lemma read_le_u16 [wire_simps]: "read_le 2 (to_le_bytes (w :: u16) @ bs) = Some (unat w, bs)"
  by (simp add: read_le_def le_value_to_le_bytes)

lemma read_le_u32 [wire_simps]: "read_le 4 (to_le_bytes (w :: u32) @ bs) = Some (unat w, bs)"
  by (simp add: read_le_def le_value_to_le_bytes)

lemma read_le_u64 [wire_simps]: "read_le 8 (to_le_bytes (w :: u64) @ bs) = Some (unat w, bs)"
  by (simp add: read_le_def le_value_to_le_bytes)

lemma read_bytes_append [wire_simps]: "length xs = n \<Longrightarrow> read_bytes n (xs @ bs) = Some (xs, bs)"
  by (simp add: read_bytes_def)

lemma ucast_small:
  "unat v < 2 ^ LENGTH('b) \<Longrightarrow> unat (ucast (v :: 'a::len word) :: 'b::len word) = unat v"
  by (simp add: unsigned_ucast_eq take_bit_nat_eq_self)

lemma read_compact_size_append [wire_simps]:
  "read_compact_size (compact_size v @ bs) = Some (unat v, bs)"
proof -
  consider "v < 253" | "\<not> v < 253" "v \<le> 0xffff" | "\<not> v \<le> 0xffff" "v \<le> 0xffffffff"
    | "\<not> v \<le> 0xffffffff"
    by linarith
  then show ?thesis
  proof cases
    case 1
    then have "unat v < 253"
      by (simp add: word_less_nat_alt)
    then have "unat (ucast v :: u8) = unat v" "ucast v < (253 :: u8)"
      using ucast_small [of v, where 'b = 8] by (simp_all add: word_less_nat_alt)
    with 1 show ?thesis
      by (simp add: compact_size_def)
  next
    case 2
    then have "unat (ucast v :: u16) = unat v"
      by (intro ucast_small) (simp add: word_le_nat_alt)
    with 2 show ?thesis
      by (simp add: compact_size_def read_le_u16)
  next
    case 3
    moreover have "\<not> v < 253"
      using 3 by (simp add: word_le_nat_alt word_less_nat_alt)
    moreover have "unat (ucast v :: u32) = unat v"
      using 3 by (intro ucast_small) (simp add: word_le_nat_alt)
    ultimately show ?thesis
      by (simp add: compact_size_def read_le_u32)
  next
    case 4
    moreover have "\<not> v < 253" "\<not> v \<le> 0xffff"
      using 4 by (simp_all add: word_le_nat_alt word_less_nat_alt)
    ultimately show ?thesis
      by (simp add: compact_size_def read_le_u64)
  qed
qed

lemma unat_of_nat_u64: "n < 2 ^ 64 \<Longrightarrow> unat (of_nat n :: u64) = n"
  by (simp add: unat_of_nat take_bit_nat_eq_self)

lemma read_script_append [wire_simps]:
  "length script < 2 ^ 64 \<Longrightarrow>
   read_script (compact_size (of_nat (length script)) @ script @ bs) = Some (script, bs)"
  by (simp add: read_script_def read_compact_size_append unat_of_nat_u64 read_bytes_append)

lemma read_list_append [wire_simps]:
  assumes "\<And>x bs. x \<in> set xs \<Longrightarrow> rd (wr x @ bs) = Some (f x, bs)"
  shows "read_list rd (length xs) (concat (map wr xs) @ bs) = Some (map f xs, bs)"
  using assms by (induction xs) simp_all

lemma read_vector_append [wire_simps]:
  assumes "\<And>x bs. x \<in> set xs \<Longrightarrow> rd (wr x @ bs) = Some (f x, bs)" and "length xs < 2 ^ 64"
  shows "read_vector rd (compact_size (of_nat (length xs)) @ concat (map wr xs) @ bs) =
    Some (map f xs, bs)"
  using read_list_append [OF assms(1)] assms(2)
  by (simp add: read_vector_def read_compact_size_append unat_of_nat_u64)

section \<open>What is written reads back\<close>

definition write_input :: "u8 list \<Rightarrow> u8 list" where
  "write_input sig = replicate 32 0 @ to_le_bytes (0xffffffff :: u32) @
     compact_size (of_nat (length sig)) @ sig @ to_le_bytes MAX_SEQUENCE_NONFINAL"

definition write_output :: "u64 \<times> u8 list \<Rightarrow> u8 list" where
  "write_output = (\<lambda>(amount, script).
     to_le_bytes amount @ compact_size (of_nat (length script)) @ script)"

definition output_pairs :: "allocated_output list \<Rightarrow> u8 list \<Rightarrow> (u64 \<times> u8 list) list" where
  "output_pairs outs script =
     map (\<lambda>output. (out_amount_sats output, out_script_pubkey output)) outs @ [(0, script)]"

lemma serialize_input_Inr [result_simps]:
  "serialize_coinbase_input X out r = Inr tx \<longleftrightarrow>
     (\<exists>sig. coinbase_script_sig X r = Inr sig \<and> tx = out @ compact_size 1 @ write_input sig)"
  by (auto simp: serialize_coinbase_input_def write_input_def Let_def result_simps)

lemma serialize_outputs_eq:
  "serialize_outputs out outs script =
     out @ compact_size (of_nat (length (output_pairs outs script))) @
     concat (map write_output (output_pairs outs script))"
proof -
  have "serialize_output = write_output \<circ> (\<lambda>output. (out_amount_sats output, out_script_pubkey output))"
    by (simp add: fun_eq_iff serialize_output_def write_output_def)
  then show ?thesis
    by (simp add: serialize_outputs_def output_pairs_def write_output_def)
qed

lemma read_input_append [wire_simps]:
  "length sig < 2 ^ 64 \<Longrightarrow> read_input (write_input sig @ bs) =
     Some ((replicate 32 0, 0xffffffff, sig, 0xfffffffe), bs)"
  by (simp add: read_input_def write_input_def wire_simps MAX_SEQUENCE_NONFINAL_def
      del: replicate.simps)

lemma read_output_append [wire_simps]:
  "length (snd p) < 2 ^ 64 \<Longrightarrow> read_output (write_output p @ bs) = Some ((unat (fst p), snd p), bs)"
  by (cases p) (simp add: read_output_def write_output_def wire_simps)

lemma read_one_input [wire_simps]:
  assumes "length sig < 2 ^ 64"
  shows "read_vector read_input (compact_size 1 @ write_input sig @ bs) =
    Some ([(replicate 32 0, 0xffffffff, sig, 0xfffffffe)], bs)"
  using read_vector_append [of "[sig]" read_input write_input] read_input_append assms
  by simp

lemma read_one_item [wire_simps]:
  assumes "length item < 2 ^ 64"
  shows "read_vector read_script (compact_size 1 @ compact_size (of_nat (length item)) @ item @ bs) =
    Some ([item], bs)"
  using read_vector_append [of "[item]" read_script
      "\<lambda>script. compact_size (of_nat (length script)) @ script" "\<lambda>s. s" bs]
    read_script_append assms by simp

text \<open>The sizes that keep every length prefix in range.\<close>

lemma script_sig_length: "coinbase_script_sig X r = Inr sig \<Longrightarrow> length sig \<le> 100"
  by (auto simp: coinbase_script_sig_def MAX_COINBASE_SCRIPT_SIG_LEN_def Let_def result_simps
      split: if_splits)

lemma witness_nonce_length: "witness_nonce X r = Inr nonce \<Longrightarrow> length nonce = 32"
  by (auto simp: witness_nonce_def DEFAULT_WITNESS_NONCE_def result_simps
      split: option.splits if_splits)

lemma witness_leaves_length:
  assumes "witness_leaves X r = Inr leaves"
  shows "length leaves = length (req_witness_merkle_leaves_hex r) \<and>
    (\<forall>leaf \<in> set leaves. length leaf = 32)"
proof
  have all: "list_all2 (\<lambda>p leaf. (case p of (index, raw) \<Rightarrow>
      and_then (map_err Hex (hex_decode X raw)) (\<lambda>decoded.
       if length decoded \<noteq> 32
       then Inl (InvalidP2mrProgram (''witness_merkle_leaf['' @ show_nat index @ '']'')
              (expected_32_bytes (length decoded)))
       else Inr decoded)) = Inr leaf) (List.enumerate 0 (req_witness_merkle_leaves_hex r)) leaves"
    using assms by (simp add: witness_leaves_def result_simps)
  then show "length leaves = length (req_witness_merkle_leaves_hex r)"
    by (auto dest: list_all2_lengthD)
  show "\<forall>leaf \<in> set leaves. length leaf = 32"
    using all by (auto simp: list_all2_conv_all_nth in_set_conv_nth nth_enumerate_eq result_simps
        split: if_splits)
qed

lemma commitment_script_length:
  "sha256_spec X \<Longrightarrow> length (witness_commitment_script X leaves nonce) = 38"
  by (simp add: witness_commitment_script_def WITNESS_COMMITMENT_SCRIPT_PREFIX_def
      WITNESS_COMMITMENT_HEADER_def hash256_pair_def hash256_def sha256_spec_def)

lemma p2mr_script_shape:
  "length program = 32 \<Longrightarrow> length (p2mr_script_pubkey program) = 34 \<and>
     is_p2mr_script_pubkey (p2mr_script_pubkey program)"
  by (simp add: p2mr_script_pubkey_def is_p2mr_script_pubkey_def P2MR_SCRIPT_LEN_def)

lemma parse_program_length: "parse_p2mr_program X e = Inr program \<Longrightarrow> length program = 32"
  by (auto simp: parse_p2mr_program_def P2MR_PROGRAM_LEN_def result_simps split: if_splits)

lemma allocated_script:
  assumes "allocate_outputs X r = Inr outs" and "output \<in> set outs"
  shows "length (out_script_pubkey output) = 34 \<and> is_p2mr_script_pubkey (out_script_pubkey output)"
proof -
  from assms(1) obtain es prov where prov: "is_provisional X (req_coinbase_value_sats r) es prov"
    and outs: "outs = settled (req_coinbase_value_sats r) es prov"
    by (rule allocate_outputsD)
  obtain i where i: "i < length outs" "output = outs ! i"
    using assms(2) by (auto simp: in_set_conv_nth)
  note fields = settled_fields [OF prov, folded outs]
  have "parse_p2mr_program X (es ! i) = Inr (out_p2mr_program output)"
    using arg_cong [OF fields(6), of "\<lambda>xs. xs ! i"] i fields(1) by simp
  moreover have "out_script_pubkey output = p2mr_script_pubkey (out_p2mr_program output)"
    using arg_cong [OF fields(7), of "\<lambda>xs. xs ! i"] i by simp
  ultimately show ?thesis
    using p2mr_script_shape parse_program_length by metis
qed

text \<open>The parts of a built coinbase.\<close>

definition tx_body :: "u8 list \<Rightarrow> allocated_output list \<Rightarrow> u8 list \<Rightarrow> u8 list" where
  "tx_body sig outs script = compact_size 1 @ write_input sig @
     compact_size (of_nat (length (output_pairs outs script))) @
     concat (map write_output (output_pairs outs script))"

definition tx_witness_bytes :: "u8 list \<Rightarrow> u8 list" where
  "tx_witness_bytes nonce = compact_size 1 @ compact_size (of_nat (length nonce)) @ nonce"

definition segwit_bytes :: "u8 list \<Rightarrow> allocated_output list \<Rightarrow> u8 list \<Rightarrow> u8 list \<Rightarrow> u32 \<Rightarrow> u8 list" where
  "segwit_bytes sig outs script nonce lock = to_le_bytes (2 :: u32) @ [0, 1] @ tx_body sig outs script @
     tx_witness_bytes nonce @ to_le_bytes lock"

definition legacy_bytes :: "u8 list \<Rightarrow> allocated_output list \<Rightarrow> u8 list \<Rightarrow> u32 \<Rightarrow> u8 list" where
  "legacy_bytes sig outs script lock =
     to_le_bytes (2 :: u32) @ tx_body sig outs script @ to_le_bytes lock"

lemma lock_time_Inr [result_simps]:
  "coinbase_lock_time h = Inr lock \<longleftrightarrow>
     0 < unat h \<and> unat h < 2 ^ 32 \<and> unat lock = unat h - 1"
proof -
  have "unat (ucast (h - 1) :: u32) = unat h - 1" if "0 < unat h" "unat h < 2 ^ 32"
  proof -
    have "unat (h - 1) = unat h - 1"
      using that(1) by (simp add: unat_sub word_le_nat_alt)
    then show ?thesis
      using that(2) by (subst ucast_small) simp_all
  qed
  moreover have "0xffffffff < h \<longleftrightarrow> \<not> unat h < 2 ^ 32" "h = 0 \<longleftrightarrow> \<not> 0 < unat h"
    by (auto simp: word_less_nat_alt unat_gt_0)
  ultimately show ?thesis
    by (auto simp: coinbase_lock_time_def word_unat_eq_iff)
qed

lemma total_amount_allocated:
  assumes "allocate_outputs X r = Inr outs"
  shows "total_output_amount outs = Inr (req_coinbase_value_sats r)"
  using alloc.conserves [OF assms] u64_lt [of "req_coinbase_value_sats r"]
  by (simp add: total_output_amount_def result_simps)

lemma total_weight_allocated:
  assumes "allocate_outputs X r = Inr outs"
  shows "\<exists>w. total_output_weight outs = Inr w \<and>
    unat w = sum_list (ent_weights (req_entitlements r))"
proof -
  from assms obtain es t prov where es: "ordered_entitlements r = Inr es"
    and t: "total_entitlement_weight es = Inr t"
    and prov: "is_provisional X (req_coinbase_value_sats r) es prov"
    and outs: "outs = settled (req_coinbase_value_sats r) es prov"
    by (auto simp: allocate_outputs_Inr)
  have "sum_list (ent_weights es) = sum_list (ent_weights (req_entitlements r))"
    using mset_ordered_entitlements [OF es] by (metis mset_map sum_mset_sum_list)
  then have "total_output_weight outs = Inr t"
    using t settled_fields(5) [OF prov]
    by (simp add: total_output_weight_def total_entitlement_weight_Inr result_simps outs)
  then show ?thesis
    using t \<open>sum_list (ent_weights es) = _\<close> by (simp add: total_entitlement_weight_Inr)
qed

lemma build_coinbase_Inr:
  "build_coinbase X r = Inr b \<longleftrightarrow>
     (\<exists>outs nonce leaves sig lock w. allocate_outputs X r = Inr outs \<and> witness_nonce X r = Inr nonce \<and>
        witness_leaves X r = Inr leaves \<and> coinbase_script_sig X r = Inr sig \<and>
        coinbase_lock_time (req_block_height r) = Inr lock \<and> total_output_weight outs = Inr w \<and>
        (let script = witness_commitment_script X leaves nonce;
             legacy = legacy_bytes sig outs script lock;
             segwit = segwit_bytes sig outs script nonce lock in
         length segwit \<le> MAX_BLOCK_WEIGHT \<and>
         b = \<lparr>bc_tx_with_witness = segwit, bc_tx_without_witness = legacy,
              bc_txid = hash256 X legacy, bc_wtxid = hash256 X segwit,
              bc_witness_commitment_script = script, bc_outputs = outs,
              bc_total_weight = w, bc_coinbase_weight_bytes = length segwit\<rparr>))"
proof (cases "allocate_outputs X r")
  case (Inr outs)
  show ?thesis
    using total_amount_allocated [OF Inr] Inr
    by (cases "witness_nonce X r"; cases "witness_leaves X r"; cases "coinbase_script_sig X r";
        cases "coinbase_lock_time (req_block_height r)"; cases "total_output_weight outs")
      (auto simp: build_coinbase_def serialize_coinbase_prefix_def serialize_coinbase_input_def
        serialize_outputs_eq serialize_witness_def segwit_bytes_def legacy_bytes_def tx_body_def
        tx_witness_bytes_def write_input_def Let_def)
qed (simp add: build_coinbase_def)

lemma length_write_output: "length (write_output p) = 8 + length (compact_size (of_nat (length (snd p)))) + length (snd p)"
  by (cases p) (simp add: write_output_def)

lemma compact_size_small [simp]: "n < 253 \<Longrightarrow> length (compact_size (of_nat n)) = 1"
  by (simp add: compact_size_def word_less_nat_alt unat_of_nat_u64)

lemma length_concat_ge: "(\<And>x. x \<in> set xs \<Longrightarrow> k \<le> length (f x)) \<Longrightarrow> k * length xs \<le> length (concat (map f xs))"
  by (induction xs) (fastforce simp: algebra_simps)+

lemma segwit_bounds:
  assumes "length (segwit_bytes sig outs script nonce lock) \<le> MAX_BLOCK_WEIGHT"
  shows "length (output_pairs outs script) < 2 ^ 64"
proof -
  have "1 * length (output_pairs outs script) \<le>
      length (concat (map write_output (output_pairs outs script)))"
    by (rule length_concat_ge) (simp add: length_write_output)
  then show ?thesis
    using assms by (simp add: segwit_bytes_def tx_body_def MAX_BLOCK_WEIGHT_def)
qed

text \<open>The view of the transaction that consensus has.\<close>

definition coinbase_view :: "coinbase_build_request \<Rightarrow> u8 list \<Rightarrow> built_coinbase \<Rightarrow> u8 list list \<Rightarrow> wire_tx" where
  "coinbase_view r sig b witness =
     \<lparr>tx_version = 2, tx_inputs = [(replicate 32 0, 0xffffffff, sig, 0xfffffffe)],
      tx_outputs = map (\<lambda>output. (unat (out_amount_sats output), out_script_pubkey output))
        (bc_outputs b) @ [(0, bc_witness_commitment_script b)],
      tx_witness = witness, tx_lock_time = unat (req_block_height r) - 1\<rparr>"

lemma read_outputs_part:
  assumes "length (output_pairs outs script) < 2 ^ 64" and "length script < 2 ^ 64"
    and "\<And>output. output \<in> set outs \<Longrightarrow> length (out_script_pubkey output) = 34"
  shows "read_vector read_output (compact_size (of_nat (length (output_pairs outs script))) @
      concat (map write_output (output_pairs outs script)) @ bs) =
    Some (map (\<lambda>output. (unat (out_amount_sats output), out_script_pubkey output)) outs @ [(0, script)], bs)"
proof -
  have "read_vector read_output (compact_size (of_nat (length (output_pairs outs script))) @
      concat (map write_output (output_pairs outs script)) @ bs) =
    Some (map (\<lambda>p. (unat (fst p), snd p)) (output_pairs outs script), bs)"
  proof (rule read_vector_append [OF read_output_append assms(1)])
    fix p assume "p \<in> set (output_pairs outs script)"
    then have "length (snd p) = 34 \<or> snd p = script"
      using assms(3) by (auto simp: output_pairs_def)
    then show "length (snd p) < 2 ^ 64"
      using assms(2) by auto
  qed
  then show ?thesis
    by (simp add: output_pairs_def comp_def)
qed

lemma coinbase_reads_back_aux:
  assumes "sha256_spec X" and "build_coinbase X r = Inr b"
  obtains sig nonce where "coinbase_script_sig X r = Inr sig" and "witness_nonce X r = Inr nonce"
    and "allocate_outputs X r = Inr (bc_outputs b)"
    and "read_tx (bc_tx_without_witness b) = Some (coinbase_view r sig b [])"
    and "read_segwit_tx (bc_tx_with_witness b) = Some (coinbase_view r sig b [nonce])"
proof -
  from assms(2) obtain outs nonce leaves sig lock w where outs: "allocate_outputs X r = Inr outs"
    and nonce: "witness_nonce X r = Inr nonce" and sig: "coinbase_script_sig X r = Inr sig"
    and lock: "coinbase_lock_time (req_block_height r) = Inr lock"
    and len: "length (segwit_bytes sig outs (witness_commitment_script X leaves nonce) nonce lock)
      \<le> MAX_BLOCK_WEIGHT"
    and b: "b = \<lparr>bc_tx_with_witness =
          segwit_bytes sig outs (witness_commitment_script X leaves nonce) nonce lock,
        bc_tx_without_witness = legacy_bytes sig outs (witness_commitment_script X leaves nonce) lock,
        bc_txid = hash256 X (legacy_bytes sig outs (witness_commitment_script X leaves nonce) lock),
        bc_wtxid = hash256 X (segwit_bytes sig outs (witness_commitment_script X leaves nonce) nonce lock),
        bc_witness_commitment_script = witness_commitment_script X leaves nonce, bc_outputs = outs,
        bc_total_weight = w, bc_coinbase_weight_bytes =
          length (segwit_bytes sig outs (witness_commitment_script X leaves nonce) nonce lock)\<rparr>"
    by (auto simp: build_coinbase_Inr Let_def)
  let ?script = "witness_commitment_script X leaves nonce"
  note outs_read = read_outputs_part [OF segwit_bounds [OF len] _ conjunct1 [OF allocated_script [OF outs]]]
  have sizes: "length sig < 2 ^ 64" "length ?script < 2 ^ 64" "length nonce < 2 ^ 64"
    using script_sig_length [OF sig] commitment_script_length [OF assms(1)]
      witness_nonce_length [OF nonce] by simp_all
  have lock: "unat lock = unat (req_block_height r) - 1"
    using lock by (simp add: result_simps)
  have four: "read_le 4 (to_le_bytes (w :: u32)) = Some (unat w, [])" for w
    using read_le_u32 [of w "[]"] by simp
  have "read_tx (bc_tx_without_witness b) = Some (coinbase_view r sig b [])"
    unfolding b using sizes lock
    by (simp add: read_tx_def legacy_bytes_def tx_body_def read_le_u32 read_one_input outs_read
        coinbase_view_def four)
  moreover have "read_segwit_tx (bc_tx_with_witness b) = Some (coinbase_view r sig b [nonce])"
    unfolding b using sizes lock read_bytes_append [of "[0, 1]" 2]
    by (simp add: read_segwit_tx_def segwit_bytes_def tx_body_def tx_witness_bytes_def read_le_u32
        read_one_input outs_read read_one_item coinbase_view_def four)
  ultimately show ?thesis
    using that sig nonce outs by (simp add: b)
qed

text \<open>
  C8. The transactions \<open>build_coinbase\<close> writes parse under the consensus wire format, with
  and without witness, into one null input with the requested script, the allocated outputs
  in order, the witness commitment last with amount zero, and lock time height minus one.
\<close>

theorem coinbase_reads_back:
  assumes "sha256_spec X" and "build_coinbase X r = Inr b"
  shows "\<exists>sig nonce. coinbase_script_sig X r = Inr sig \<and> witness_nonce X r = Inr nonce \<and>
    allocate_outputs X r = Inr (bc_outputs b) \<and>
    read_tx (bc_tx_without_witness b) = Some (coinbase_view r sig b []) \<and>
    read_segwit_tx (bc_tx_with_witness b) = Some (coinbase_view r sig b [nonce])"
  using coinbase_reads_back_aux [OF assms] by metis

text \<open>The size of the segwit form: 43 bytes an output, 133 fixed, the script and one count.\<close>

definition coinbase_size :: "nat \<Rightarrow> nat \<Rightarrow> nat" where
  "coinbase_size sig_len outputs =
     133 + sig_len + length (compact_size (of_nat (outputs + 1))) + 43 * outputs"

lemma length_segwit_bytes:
  assumes "length sig \<le> 100" and "length script = 38" and "length nonce = 32"
    and "\<And>output. output \<in> set outs \<Longrightarrow> length (out_script_pubkey output) = 34"
  shows "length (segwit_bytes sig outs script nonce lock) = coinbase_size (length sig) (length outs)"
proof -
  have "length (concat (map write_output (output_pairs outs script))) = 43 * length outs + 47"
    using assms(4) assms(2) compact_size_small [of 34] compact_size_small [of 38]
    by (simp add: output_pairs_def length_concat comp_def length_write_output sum_list_triv
        cong: map_cong)
  moreover have "length (output_pairs outs script) = length outs + 1"
    by (simp add: output_pairs_def)
  moreover have "length (compact_size 1) = 1" "length (compact_size (32 :: u64)) = 1"
    using compact_size_small [of 1] compact_size_small [of 32] by simp_all
  moreover have "length (compact_size (of_nat (length sig))) = 1"
    using assms(1) by simp
  ultimately show ?thesis
    using assms(3) by (simp add: segwit_bytes_def tx_body_def tx_witness_bytes_def write_input_def
        coinbase_size_def)
qed

lemma allocated_length:
  assumes "allocate_outputs X r = Inr outs"
  shows "length outs = length (req_entitlements r)"
proof -
  from assms obtain es prov where "ordered_entitlements r = Inr es"
    and "is_provisional X (req_coinbase_value_sats r) es prov"
    and "outs = settled (req_coinbase_value_sats r) es prov"
    by (rule allocate_outputsD)
  then show ?thesis
    using settled_fields(1) mset_ordered_entitlements by (metis mset_eq_length)
qed

lemma build_coinbase_weight:
  assumes "sha256_spec X" and "allocate_outputs X r = Inr outs" and "witness_nonce X r = Inr nonce"
    and "coinbase_script_sig X r = Inr sig"
  shows "length (segwit_bytes sig outs (witness_commitment_script X leaves nonce) nonce lock) =
    coinbase_size (length sig) (length (req_entitlements r))"
  using length_segwit_bytes [OF script_sig_length [OF assms(4)] commitment_script_length [OF assms(1)]
      witness_nonce_length [OF assms(3)] conjunct1 [OF allocated_script [OF assms(2)]]]
    allocated_length [OF assms(2)] by simp

lemma build_coinbase_InrI:
  assumes "sha256_spec X" and "allocate_outputs X r = Inr outs" and "witness_nonce X r = Inr nonce"
    and "witness_leaves X r = Inr leaves" and "coinbase_script_sig X r = Inr sig"
    and "0 < unat (req_block_height r)" and "unat (req_block_height r) < 2 ^ 32"
    and "coinbase_size (length sig) (length (req_entitlements r)) \<le> MAX_BLOCK_WEIGHT"
  shows "\<exists>b. build_coinbase X r = Inr b"
proof -
  have "unat (req_block_height r) - 1 < 2 ^ LENGTH(32)"
    using assms(7) by simp
  then obtain lock :: u32 where "unat lock = unat (req_block_height r) - 1"
    using ex_unat by blast
  then have "coinbase_lock_time (req_block_height r) = Inr lock"
    using assms(6,7) by (simp add: lock_time_Inr)
  moreover obtain w where "total_output_weight outs = Inr w"
    using total_weight_allocated [OF assms(2)] by blast
  ultimately show ?thesis
    using assms(2-5,8) build_coinbase_weight [OF assms(1,2,3,5)]
    unfolding build_coinbase_Inr Let_def by metis
qed

text \<open>
  C9. Exactly which requests build: the allocation, the witness inputs and the script are
  valid, the height is positive and fits 32 bits, and the size, which depends only on the
  number of entitlements and the script length, is within the block weight.
\<close>

theorem build_coinbase_succeeds_iff:
  assumes "sha256_spec X"
  shows "(\<exists>b. build_coinbase X r = Inr b) \<longleftrightarrow>
    (\<exists>outs. allocate_outputs X r = Inr outs) \<and> (\<exists>nonce. witness_nonce X r = Inr nonce) \<and>
    (\<exists>leaves. witness_leaves X r = Inr leaves) \<and>
    0 < unat (req_block_height r) \<and> unat (req_block_height r) < 2 ^ 32 \<and>
    (\<exists>sig. coinbase_script_sig X r = Inr sig \<and>
       coinbase_size (length sig) (length (req_entitlements r)) \<le> MAX_BLOCK_WEIGHT)"
    (is "?l \<longleftrightarrow> ?r")
proof
  assume ?l
  then obtain outs nonce leaves sig lock where *: "allocate_outputs X r = Inr outs"
    "witness_nonce X r = Inr nonce" "witness_leaves X r = Inr leaves"
    "coinbase_script_sig X r = Inr sig" "coinbase_lock_time (req_block_height r) = Inr lock"
    "length (segwit_bytes sig outs (witness_commitment_script X leaves nonce) nonce lock)
      \<le> MAX_BLOCK_WEIGHT"
    by (auto simp: build_coinbase_Inr Let_def)
  then show ?r
    using build_coinbase_weight [OF assms *(1,2,4)] lock_time_Inr by metis
next
  assume ?r
  then show ?l
    using build_coinbase_InrI [OF assms] by blast
qed

section \<open>The height in the script\<close>

text \<open>The script number of BIP34: little endian, the top bit of the last byte is the sign.\<close>

definition script_num_value :: "u8 list \<Rightarrow> int" where
  "script_num_value bs =
     (if bs = [] then 0
      else let m = int (le_value (butlast bs @ [last bs AND 0x7f]))
           in if last bs AND 0x80 \<noteq> 0 then - m else m)"

definition script_height :: "u8 list \<Rightarrow> int option" where
  "script_height script =
     (case script of [] \<Rightarrow> None
      | op # rest \<Rightarrow>
          if 0x51 \<le> op \<and> op \<le> 0x60 then Some (uint op - 0x50)
          else if op = 0 then Some 0
          else if op \<le> 75 \<and> unat op \<le> length rest
          then Some (script_num_value (take (unat op) rest)) else None)"

lemma unat_drop_8: "unat (drop_bit 8 (a :: u64)) = unat a div 256"
  by (simp only: unsigned_drop_bit_eq take_bit_nat_eq_self [OF unsigned_less]
      drop_bit_eq_div [of _ "unat a"]) simp

lemma unat_and_ff: "unat (ucast (a AND 0xff) :: u8) = unat (a :: u64) mod 256"
proof -
  have "a AND 0xff = take_bit 8 a"
    by (simp add: take_bit_eq_mask mask_eq_exp_minus_1)
  then show ?thesis
    by (simp only: unsigned_ucast_eq unsigned_take_bit_eq take_bit_take_bit) (simp add: take_bit_eq_mod)
qed

lemma le_value_magnitude: "le_value (script_num_magnitude a) = unat a"
proof (induction a rule: script_num_magnitude.induct)
  case (1 a)
  then show ?case
    by (subst script_num_magnitude.simps)
      (simp add: unat_drop_8 unat_and_ff)
qed

lemma magnitude_Nil [simp]: "script_num_magnitude a = [] \<longleftrightarrow> a = 0"
  by (subst script_num_magnitude.simps) simp

lemma last_magnitude: "a \<noteq> 0 \<Longrightarrow> last (script_num_magnitude a) \<noteq> 0"
proof (induction a rule: script_num_magnitude.induct)
  case (1 a)
  show ?case
  proof (cases "drop_bit 8 a = 0")
    case True
    then have "unat a div 256 = 0"
      using unat_drop_8 [of a] by simp
    then have "unat a mod 256 = unat a"
      by (simp add: div_eq_0_iff)
    with True 1(2) show ?thesis
      using unat_and_ff [of a] unat_gt_0 [of a]
      by (subst script_num_magnitude.simps) auto
  next
    case False
    with 1 show ?thesis
      by (subst script_num_magnitude.simps) simp
  qed
qed

lemma sign_bit: "(b :: u8) AND 0x80 \<noteq> 0 \<longleftrightarrow> bit b 7"
  using and_exp_eq_0_iff_not_bit [of b 7] by simp

lemma low_bits: "\<not> bit (b :: u8) 7 \<Longrightarrow> b AND 0x7f = b"
proof (rule bit_word_eqI)
  fix n assume "\<not> bit b 7" and n: "n < LENGTH(8)"
  have "b AND 0x7f = take_bit 7 b"
    by (simp add: take_bit_eq_mask mask_eq_exp_minus_1)
  moreover have "n = 7 \<or> n < 7"
    using n by auto
  ultimately show "bit (b AND 0x7f) n = bit b n"
    using \<open>\<not> bit b 7\<close> by (auto simp: bit_take_bit_iff)
qed

lemma low_bits_less: "unat ((b :: u8) AND 0x7f) < 128"
proof -
  have "b AND 0x7f = take_bit 7 b"
    by (simp add: take_bit_eq_mask mask_eq_exp_minus_1)
  then show ?thesis
    by (simp only: unsigned_take_bit_eq) (simp add: take_bit_eq_mod)
qed

lemma sign_byte: "bit ((b :: u8) OR 0x80) 7" "\<not> bit b 7 \<Longrightarrow> (b OR 0x80) AND 0x7f = b"
proof -
  have "bit (0x80 :: u8) 7"
    using sign_bit [of "0x80"] by simp
  then show "bit (b OR 0x80) 7"
    by (simp add: bit_or_iff)
  have "(b OR 0x80) AND 0x7f = b AND 0x7f"
    by (simp add: bit.conj_disj_distrib2)
  then show "\<not> bit b 7 \<Longrightarrow> (b OR 0x80) AND 0x7f = b"
    using low_bits by simp
qed

abbreviation magnitude_of :: "i64 \<Rightarrow> u64" where
  "magnitude_of v \<equiv> if sint v < 0 then - v else v"

lemma uint_magnitude: "int (unat (magnitude_of v)) = \<bar>sint v\<bar>"
proof -
  have "uint (- v) = - sint v" if "sint v < 0"
  proof -
    have "- (2 ^ 63) \<le> sint v"
      using sint_ge [of v] by simp
    then have "uint (word_of_int (- sint v) :: i64) = - sint v"
      using that by (simp only: uint_word_of_int) simp
    moreover have "(word_of_int (- sint v) :: i64) = - v"
      by simp
    ultimately show ?thesis by (simp only:)
  qed
  moreover have "uint v = sint v" if "0 \<le> sint v"
  proof -
    have "sint v < 2 ^ 63"
      using sint_less [of v] by simp
    then have "uint (word_of_int (sint v) :: i64) = sint v"
      using that by (simp only: uint_word_of_int) simp
    moreover have "(word_of_int (sint v) :: i64) = v"
      by simp
    ultimately show ?thesis by (simp only:)
  qed
  ultimately show ?thesis
    by (auto simp: uint_nat [symmetric])
qed

lemma minimal_script_num_cases:
  assumes "v \<noteq> 0"
  obtains (extended) "bit (last (script_num_magnitude (magnitude_of v))) 7"
      and "minimal_script_num v =
        script_num_magnitude (magnitude_of v) @ [if sint v < 0 then 0x80 else 0]"
    | (signed) "\<not> bit (last (script_num_magnitude (magnitude_of v))) 7" and "sint v < 0"
      and "minimal_script_num v = butlast (script_num_magnitude (magnitude_of v)) @
        [last (script_num_magnitude (magnitude_of v)) OR 0x80]"
    | (plain) "\<not> bit (last (script_num_magnitude (magnitude_of v))) 7" and "\<not> sint v < 0"
      and "minimal_script_num v = script_num_magnitude (magnitude_of v)"
  using assms by (force simp: minimal_script_num_def Let_def simp flip: sign_bit split: if_splits)

lemma script_num_value_minimal: "script_num_value (minimal_script_num v) = sint v"
proof (cases "v = 0")
  case False
  let ?r = "script_num_magnitude (magnitude_of v)"
  have ne: "?r \<noteq> []"
    using False by simp
  have val: "int (le_value ?r) = \<bar>sint v\<bar>"
    using uint_magnitude le_value_magnitude by metis
  from False show ?thesis
  proof (cases rule: minimal_script_num_cases)
    case extended
    then show ?thesis
      using val sign_bit [of 0] by (auto simp: script_num_value_def Let_def le_value_append)
  next
    case signed
    then show ?thesis
      using val ne sign_byte [of "last ?r"] sign_bit [of "last ?r OR 0x80"]
      by (simp add: script_num_value_def Let_def)
  next
    case plain
    then show ?thesis
      using val ne low_bits [of "last ?r"] sign_bit [of "last ?r"]
      by (simp add: script_num_value_def Let_def)
  qed
qed (simp add: minimal_script_num_def script_num_value_def)

lemma magnitude_lower:
  assumes "bs \<noteq> []" and "k \<le> unat (last bs)"
  shows "k * 256 ^ (length bs - 1) \<le> le_value bs"
proof -
  have "le_value bs = le_value (butlast bs) + 256 ^ (length bs - 1) * unat (last bs)"
    using assms(1) le_value_append [of "butlast bs" "[last bs]"] by simp
  moreover have "k * 256 ^ (length bs - 1) \<le> 256 ^ (length bs - 1) * unat (last bs)"
    using assms(2) by (simp add: mult.commute)
  ultimately show ?thesis by linarith
qed

lemma script_num_value_bound:
  assumes "bs \<noteq> []"
  shows "\<bar>script_num_value bs\<bar> < 128 * 256 ^ (length bs - 1)"
proof -
  let ?l = "last bs AND 0x7f"
  have "le_value (butlast bs @ [?l]) = le_value (butlast bs) + 256 ^ (length bs - 1) * unat ?l"
    by (simp add: le_value_append)
  also have "\<dots> < 256 ^ (length bs - 1) + 256 ^ (length bs - 1) * unat ?l"
    using le_value_bound [of "butlast bs"] by simp
  also have "\<dots> = 256 ^ (length bs - 1) * (unat ?l + 1)"
    by simp
  also have "\<dots> \<le> 256 ^ (length bs - 1) * 128"
    using low_bits_less [of "last bs"] by (intro mult_le_mono) simp_all
  finally have "int (le_value (butlast bs @ [?l])) < int (128 * 256 ^ (length bs - 1))"
    by (simp add: mult.commute del: of_nat_mult)
  then show ?thesis
    using assms by (simp add: script_num_value_def Let_def)
qed

lemma bit_7_ge: "bit (b :: u8) 7 \<Longrightarrow> 128 \<le> unat b"
proof (rule ccontr)
  assume "bit b 7" and "\<not> 128 \<le> unat b"
  then have "take_bit 7 (unat b) = unat b"
    by (simp add: take_bit_nat_eq_self)
  then have "take_bit 7 b = b"
    by (simp add: word_unat_eq_iff unsigned_take_bit_eq)
  then show False
    using \<open>bit b 7\<close> by (metis bit_take_bit_iff less_irrefl)
qed

lemma minimal_script_num_lower:
  assumes "v \<noteq> 0" and "2 \<le> length (minimal_script_num v)"
  shows "128 * 256 ^ (length (minimal_script_num v) - 2) \<le> \<bar>sint v\<bar>"
proof -
  let ?r = "script_num_magnitude (magnitude_of v)"
  have ne: "?r \<noteq> []" and val: "int (le_value ?r) = \<bar>sint v\<bar>"
    using assms(1) uint_magnitude le_value_magnitude by simp_all
  have one: "1 \<le> unat (last ?r)"
    using last_magnitude [of "magnitude_of v"] assms(1) by (simp add: unat_gt_0 Suc_le_eq)
  from assms(1) have "128 * 256 ^ (length (minimal_script_num v) - 2) \<le> le_value ?r"
  proof (cases rule: minimal_script_num_cases)
    case extended
    then show ?thesis
      using magnitude_lower [OF ne bit_7_ge] by simp
  next
    case signed
    then have len: "length (minimal_script_num v) = length ?r"
      using ne by simp
    then have "length ?r - 1 = Suc (length ?r - 2)"
      using assms(2) by simp
    then show ?thesis
      using magnitude_lower [OF ne one] len by simp
  next
    case plain
    then have "length ?r - 1 = Suc (length ?r - 2)"
      using assms(2) by simp
    then show ?thesis
      using magnitude_lower [OF ne one] plain by simp
  qed
  then have "int (128 * 256 ^ (length (minimal_script_num v) - 2)) \<le> int (le_value ?r)"
    by (simp only: of_nat_le_iff)
  then show ?thesis
    using val by simp
qed

lemma minimal_script_num_shortest:
  assumes "script_num_value bs = sint v"
  shows "length (minimal_script_num v) \<le> length bs"
proof (rule ccontr)
  assume less: "\<not> length (minimal_script_num v) \<le> length bs"
  then have v: "v \<noteq> 0"
    by (auto simp: minimal_script_num_def)
  then have "sint v \<noteq> 0"
    by (metis signed_0 signed_word_eqI)
  then have ne: "bs \<noteq> []"
    using assms by (auto simp: script_num_value_def)
  then have two: "2 \<le> length (minimal_script_num v)"
    using less by (cases bs) auto
  have "length bs - 1 \<le> length (minimal_script_num v) - 2"
    using less ne by (cases bs) auto
  then have "(128 :: int) * 256 ^ (length bs - 1) \<le> 128 * 256 ^ (length (minimal_script_num v) - 2)"
    by (simp add: power_increasing)
  then show False
    using minimal_script_num_lower [OF v two] script_num_value_bound [OF ne] assms by linarith
qed

lemma sint_word_of_int_i64: "- (2 ^ 63) \<le> s \<Longrightarrow> s < 2 ^ 63 \<Longrightarrow> sint (word_of_int s :: i64) = s"
  by (simp add: sint_sbintrunc' signed_take_bit_int_eq_self)

lemma height_script_number:
  assumes "16 < unat h" and "unat h < 2 ^ 32"
  shows "length (minimal_script_num h) \<le> 5" and "1 \<le> length (minimal_script_num h)"
    and "sint h = uint h"
proof -
  have "int (unat h) < int (2 ^ 32)"
    using assms(2) by (simp only: of_nat_less_iff)
  then have "uint h < 2 ^ 32"
    by simp
  moreover have "0 \<le> uint h"
    by simp
  ultimately have "sint (word_of_int (uint h) :: i64) = uint h"
    by (intro sint_word_of_int_i64) (simp_all add: order_trans [of _ 0])
  moreover have "(word_of_int (uint h) :: i64) = h"
    by simp
  ultimately show sint: "sint h = uint h"
    by (simp only:)
  have h: "h \<noteq> 0"
    using assms(1) by auto
  show "length (minimal_script_num h) \<le> 5"
  proof (rule ccontr)
    assume "\<not> length (minimal_script_num h) \<le> 5"
    then have "(128 :: int) * 256 ^ 4 \<le> 128 * 256 ^ (length (minimal_script_num h) - 2)"
      by (simp add: power_increasing del: power_numeral)
    then show False
      using minimal_script_num_lower [OF h] \<open>uint h < 2 ^ 32\<close> sint
        \<open>\<not> length (minimal_script_num h) \<le> 5\<close> by simp
  qed
  have "minimal_script_num h \<noteq> []"
    using script_num_value_minimal [of h] sint h unsigned_eq_0_iff [of h]
    by (auto simp: script_num_value_def)
  then show "1 \<le> length (minimal_script_num h)"
    by (cases "minimal_script_num h") auto
qed

lemma script_height_coinbase:
  assumes "coinbase_height_script h = Inr script" and "0 < unat h"
  shows "script_height (script @ suffix) = Some (uint h)"
proof (cases "h \<le> 16")
  case True
  then have "unat h \<le> 16" by (simp add: word_le_nat_alt)
  then have u: "unat (ucast h :: u8) = unat h"
    by (intro ucast_small) simp
  have "unat (0x50 :: u8) + unat (ucast h :: u8) < 2 ^ LENGTH(8)"
    using \<open>unat h \<le> 16\<close> by (simp add: u)
  then have "unat (0x50 + ucast h :: u8) = unat (0x50 :: u8) + unat (ucast h :: u8)"
    by (rule unat_add_lem [THEN iffD1])
  also have "\<dots> = 0x50 + unat h"
    by (simp add: u)
  finally have "unat (0x50 + ucast h :: u8) = 0x50 + unat h" .
  moreover from this have "int (unat (0x50 + ucast h :: u8)) = int (0x50 + unat h)"
    by (simp only:)
  then have "uint (0x50 + ucast h :: u8) = 0x50 + uint h"
    by simp
  moreover have "script = [0x50 + ucast h, 0]"
    using assms(1) True by (simp add: coinbase_height_script_def split: if_splits)
  ultimately show ?thesis
    using assms(2) \<open>unat h \<le> 16\<close> by (simp add: script_height_def word_le_nat_alt)
next
  case False
  let ?e = "minimal_script_num h"
  have h: "16 < unat h" "unat h < 2 ^ 32" and script: "script = compact_push (length ?e) @ ?e"
    using assms(1) False
    by (auto simp: coinbase_height_script_def Let_def word_le_nat_alt word_less_nat_alt split: if_splits)
  note len = height_script_number [OF h]
  have op: "unat (of_nat (length ?e) :: u8) = length ?e"
    using len(1) by (simp add: unat_of_nat take_bit_nat_eq_self)
  have "of_nat (length ?e) \<noteq> (0 :: u8)" "\<not> 0x51 \<le> (of_nat (length ?e) :: u8)"
    "(of_nat (length ?e) :: u8) \<le> 75"
    using len(1,2) op by (auto simp: word_le_nat_alt dest: arg_cong [of _ _ unat])
  moreover have "script @ suffix = of_nat (length ?e) # ?e @ suffix"
    using len(1) script by (simp add: compact_push_def)
  ultimately show ?thesis
    using op len(3) by (simp add: script_height_def script_num_value_minimal)
qed

text \<open>
  The coinbase script starts with the height of the block as BIP34 asks: an \<open>OP_N\<close> up
  to 16, else a push of the height as a script number in the fewest bytes. (Height 0, which
  \<open>coinbase_lock_time\<close> refuses, is the one height the script would misstate.)
\<close>

theorem coinbase_script_states_height:
  assumes "build_coinbase X r = Inr b"
  shows "\<exists>sig. coinbase_script_sig X r = Inr sig \<and>
    script_height sig = Some (uint (req_block_height r)) \<and>
    (\<forall>bs. script_num_value bs = sint (req_block_height r) \<longrightarrow>
       length (minimal_script_num (req_block_height r)) \<le> length bs)"
proof -
  obtain sig lock where sig: "coinbase_script_sig X r = Inr sig"
    and "coinbase_lock_time (req_block_height r) = Inr lock"
    using assms by (auto simp: build_coinbase_Inr)
  then have "0 < unat (req_block_height r)"
    by (simp add: result_simps)
  moreover from sig obtain script suffix where "coinbase_height_script (req_block_height r) = Inr script"
    and "sig = script @ suffix"
    by (auto simp: coinbase_script_sig_def Let_def result_simps split: if_splits)
  ultimately show ?thesis
    using script_height_coinbase sig minimal_script_num_shortest by metis
qed

section \<open>The signed manifest\<close>

lemma verify_own_signature:
  assumes "hex_spec X" and "ed25519_spec X" and "length key = 32"
  shows "verify_ed25519_message X (public_key_hex X key) message (sign_message_hex X key message) = Inr ()"
  using assms by (simp add: verify_ed25519_message_def public_key_hex_def sign_message_hex_def
      hex_decode_encode ed25519_spec_def)

lemma from_seed_hex_length: "from_seed_hex X seed = Inr key \<Longrightarrow> length key = 32"
  by (auto simp: from_seed_hex_def result_simps split: if_splits)

text \<open>
  A manifest signed with a key read from a seed verifies, whatever the serializer
  produces, and its header repeats the request.
\<close>

theorem signed_manifest_verifies:
  assumes "hex_spec X" and "ed25519_spec X" and "from_seed_hex X seed = Inr key"
    and "build_signed_manifest X r key = Inr signed_manifest"
  shows "verify_signed_manifest X signed_manifest = Inr () \<and>
    build_manifest X r = Inr (spm_manifest signed_manifest)"
  using assms(4) verify_own_signature [OF assms(1,2) from_seed_hex_length [OF assms(3)]]
  by (auto simp: build_signed_manifest_def verify_signed_manifest_def sign_message_hex_def result_simps)

text \<open>
  The manifest describes the transaction it carries: the transaction bytes decode, parse
  under the wire format, and pay the listed outputs, numbered from 0, in the listed amounts
  and scripts, then the listed commitment; the listed amounts add up to the coinbase value.
\<close>

theorem manifest_describes_transaction:
  assumes "hex_spec X" and "sha256_spec X" and "build_manifest X r = Inr m"
  shows "\<exists>tx view. hex_decode X (pm_coinbase_tx_hex m) = Inr tx \<and> read_segwit_tx tx = Some view \<and>
    map po_vout (pm_outputs m) = [0..<length (pm_outputs m)] \<and>
    map (\<lambda>(amount, script). (amount, hex_encode X script)) (tx_outputs view) =
      map (\<lambda>output. (unat (po_amount_sats output), po_script_pubkey_hex output)) (pm_outputs m) @
      [(0, pm_witness_commitment_script_hex m)] \<and>
    sum_list (map (unat \<circ> po_amount_sats) (pm_outputs m)) = unat (pm_coinbase_value_sats m) \<and>
    length tx = pm_coinbase_weight_bytes m \<and> length tx \<le> MAX_BLOCK_WEIGHT"
proof -
  obtain b where b: "build_coinbase X r = Inr b"
    and m: "pm_coinbase_tx_hex m = hex_encode X (bc_tx_with_witness b)"
      "pm_outputs m = map (payout_output_of X) (List.enumerate 0 (bc_outputs b))"
      "pm_witness_commitment_script_hex m = hex_encode X (bc_witness_commitment_script b)"
      "pm_coinbase_value_sats m = req_coinbase_value_sats r"
      "pm_coinbase_weight_bytes m = bc_coinbase_weight_bytes b"
    using assms(3) by (auto simp: build_manifest_def Let_def result_simps)
  obtain sig nonce where view: "read_segwit_tx (bc_tx_with_witness b) = Some (coinbase_view r sig b [nonce])"
    and outs: "allocate_outputs X r = Inr (bc_outputs b)"
    by (rule coinbase_reads_back_aux [OF assms(2) b])
  have "map po_vout (pm_outputs m) = [0..<length (pm_outputs m)]"
    by (rule nth_equalityI) (simp_all add: m payout_output_of_def nth_enumerate_eq)
  moreover have "map (\<lambda>(amount, script). (amount, hex_encode X script))
        (tx_outputs (coinbase_view r sig b [nonce])) =
      map (\<lambda>output. (unat (po_amount_sats output), po_script_pubkey_hex output)) (pm_outputs m) @
      [(0, pm_witness_commitment_script_hex m)]"
    by (rule nth_equalityI)
      (auto simp: m coinbase_view_def payout_output_of_def nth_enumerate_eq nth_append)
  moreover have "map (unat \<circ> po_amount_sats) (pm_outputs m) = out_amounts (bc_outputs b)"
    by (rule nth_equalityI) (simp_all add: m payout_output_of_def nth_enumerate_eq)
  moreover have "length (bc_tx_with_witness b) = bc_coinbase_weight_bytes b \<and>
      length (bc_tx_with_witness b) \<le> MAX_BLOCK_WEIGHT"
    using b by (auto simp: build_coinbase_Inr Let_def)
  ultimately show ?thesis
    using view alloc.conserves [OF outs] hex_decode_encode [OF assms(1)]
    by (intro exI [of _ "bc_tx_with_witness b"] exI [of _ "coinbase_view r sig b [nonce]"])
      (simp add: m(1,4,5))
qed

section \<open>A concrete coinbase\<close>

definition sample_builder :: builder_crates where
  "sample_builder = \<lparr>
     hex_encode = sample_hex_encode,
     hex_decode = sample_hex_decode,
     sha256_digest = sample_digest,
     ed_public_key = sample_digest,
     ed_sign = (\<lambda>seed msg. sample_digest seed @ sample_digest msg),
     ed_key_ok = (\<lambda>key. True),
     ed_verify = (\<lambda>key msg sig. sig = key @ sample_digest msg),
     manifest_json = (\<lambda>m. Inr (as_bytes (pm_coinbase_tx_hex m)))\<rparr>"

lemma sample_builder_specs:
  "hex_spec sample_builder" "sha256_spec sample_builder" "ed25519_spec sample_builder"
proof -
  show "hex_spec sample_builder"
    using sample_hex_spec by (simp add: hex_spec_def sample_crates_def sample_builder_def)
  show "sha256_spec sample_builder"
    using sample_sha256_spec by (simp add: sha256_spec_def sample_crates_def sample_builder_def)
  show "ed25519_spec sample_builder"
    using sample_ed25519_spec by (simp add: ed25519_spec_def sample_crates_def sample_builder_def)
qed

lemma sample_script_sig: "coinbase_script_sig X sample_request = Inr [1, 42]"
  by (simp add: coinbase_script_sig_def coinbase_height_script_def coinbase_script_sig_suffix_def
      minimal_script_num_def script_num_magnitude.simps compact_push_def sample_request_def
      MAX_COINBASE_SCRIPT_SIG_LEN_def Let_def)

lemma sample_nonce: "witness_nonce X sample_request = Inr (replicate 32 0)"
  by (simp add: witness_nonce_def sample_request_def DEFAULT_WITNESS_NONCE_def)

lemma sample_built:
  assumes "hex_decode X = sample_hex_decode" and "sha256_spec X"
  obtains b where "build_coinbase X sample_request = Inr b"
proof -
  have "\<exists>b. build_coinbase X sample_request = Inr b"
  proof (rule build_coinbase_InrI [OF assms(2) sample_allocation_hex [OF assms(1)] sample_nonce _
        sample_script_sig])
    show "witness_leaves X sample_request = Inr []"
      by (simp add: witness_leaves_def sample_request_def)
  qed (simp_all add: sample_request_def coinbase_size_def MAX_BLOCK_WEIGHT_def compact_size_def)
  with that show ?thesis by blast
qed

lemma sample_builder_built:
  obtains b where "build_coinbase sample_builder sample_request = Inr b"
  by (rule sample_built [OF _ sample_builder_specs(2)]) (simp add: sample_builder_def)

lemma sample_builder_manifest:
  obtains m where "build_manifest sample_builder sample_request = Inr m"
proof -
  obtain b where "build_coinbase sample_builder sample_request = Inr b"
    by (rule sample_builder_built)
  then show ?thesis
    using that by (simp add: build_manifest_def sample_script_sig sample_nonce Let_def
        coinbase_script_sig_suffix_def) (simp add: sample_request_def)
qed

theorem coinbase_reads_back_witness:
  "\<exists>b view. build_coinbase sample_builder sample_request = Inr b \<and>
    read_tx (bc_tx_without_witness b) = Some view \<and> length (tx_outputs view) = 3 \<and>
    tx_lock_time view = 41"
proof -
  obtain b where b: "build_coinbase sample_builder sample_request = Inr b"
    by (rule sample_builder_built)
  from coinbase_reads_back [OF sample_builder_specs(2) b] obtain sig
    where read: "read_tx (bc_tx_without_witness b) = Some (coinbase_view sample_request sig b [])"
      and outs: "allocate_outputs sample_builder sample_request = Inr (bc_outputs b)"
    by blast
  have "bc_outputs b = sample_outputs"
    using outs sample_allocation_hex [of sample_builder] by (simp add: sample_builder_def)
  then show ?thesis
    using b read by (simp add: coinbase_view_def sample_outputs_def sample_request_def)
qed

theorem build_coinbase_succeeds_iff_witness:
  "\<exists>b. build_coinbase sample_builder sample_request = Inr b"
proof -
  have "witness_leaves sample_builder sample_request = Inr []"
    by (simp add: witness_leaves_def sample_request_def)
  moreover have "allocate_outputs sample_builder sample_request = Inr sample_outputs"
    by (rule sample_allocation_hex) (simp add: sample_builder_def)
  ultimately show ?thesis
    unfolding build_coinbase_succeeds_iff [OF sample_builder_specs(2)]
    by (simp add: sample_script_sig sample_nonce)
      (simp add: sample_request_def coinbase_size_def MAX_BLOCK_WEIGHT_def compact_size_def)
qed

theorem coinbase_script_states_height_witness:
  "script_height [1, 42] = Some 42"
proof -
  obtain b where b: "build_coinbase sample_builder sample_request = Inr b"
    by (rule sample_builder_built)
  show ?thesis
    using coinbase_script_states_height [OF b] by (simp add: sample_script_sig) (simp add: sample_request_def)
qed

theorem signed_manifest_verifies_witness:
  "\<exists>m. build_signed_manifest sample_builder sample_request (replicate 32 7) = Inr m \<and>
     verify_signed_manifest sample_builder m = Inr ()"
proof -
  obtain m where "build_manifest sample_builder sample_request = Inr m"
    by (rule sample_builder_manifest)
  then obtain s where s: "build_signed_manifest sample_builder sample_request (replicate 32 7) = Inr s"
    by (simp add: build_signed_manifest_def canonical_manifest_bytes_def sample_builder_def)
  have "from_seed_hex sample_builder (sample_hex_encode (replicate 32 7)) = Inr (replicate 32 7)"
    by (simp add: from_seed_hex_def sample_builder_def sample_decode_encode)
  from signed_manifest_verifies [OF sample_builder_specs(1,3) this s] s show ?thesis
    by blast
qed

theorem manifest_describes_transaction_witness:
  "\<exists>m tx. build_manifest sample_builder sample_request = Inr m \<and>
     hex_decode sample_builder (pm_coinbase_tx_hex m) = Inr tx \<and> length tx \<le> 2000000"
proof -
  obtain m where m: "build_manifest sample_builder sample_request = Inr m"
    by (rule sample_builder_manifest)
  from manifest_describes_transaction [OF sample_builder_specs(1,2) m] m show ?thesis
    by (auto simp: MAX_BLOCK_WEIGHT_def)
qed

end
