(* ===== verification/Window_Cut.thy ===== *)
theory Window_Cut
  imports Rust_Data "HOL-Library.Option_ord"
begin

text \<open>
  \<open>qbit-prism/src/window_cut.rs\<close>: the per-node wc of a dual-writer window. \<open>Option<u64>\<close> is
  ordered with \<open>None\<close> first, as in Rust.
\<close>

section \<open>Definitions\<close>

record window_cut =
  cut_node_0 :: "u64 option"
  cut_node_1 :: "u64 option"

datatype window_cut_error = ZeroEntry | UnknownNode u8

datatype cut_decode_error =
    UnknownField string
  | DuplicateField string
  | MissingField string
  | Custom window_cut_error

definition cut_new :: "u64 option \<Rightarrow> u64 option \<Rightarrow> window_cut_error + window_cut" where
  "cut_new node_0 node_1 =
     (if node_0 = Some 0 \<or> node_1 = Some 0 then Inl ZeroEntry
      else Inr \<lparr>cut_node_0 = node_0, cut_node_1 = node_1\<rparr>)"

definition cut_get :: "window_cut \<Rightarrow> u8 \<Rightarrow> window_cut_error + u64 option" where
  "cut_get wc node =
     (if node = 0 then Inr (cut_node_0 wc)
      else if node = 1 then Inr (cut_node_1 wc) else Inl (UnknownNode node))"

definition cut_with :: "window_cut \<Rightarrow> u8 \<Rightarrow> u64 option \<Rightarrow> window_cut_error + window_cut" where
  "cut_with wc node entry =
     (if node = 0 then cut_new entry (cut_node_1 wc)
      else if node = 1 then cut_new (cut_node_0 wc) entry else Inl (UnknownNode node))"

definition cut_top :: "window_cut \<Rightarrow> u64 option" where
  "cut_top wc = max (cut_node_0 wc) (cut_node_1 wc)"

definition cut_admits :: "window_cut \<Rightarrow> u8 \<Rightarrow> u64 \<Rightarrow> bool" where
  "cut_admits wc origin_node share_seq =
     (case cut_get wc origin_node of Inr (Some entry) \<Rightarrow> share_seq \<le> entry | _ \<Rightarrow> False)"

definition cut_covers :: "window_cut \<Rightarrow> window_cut \<Rightarrow> bool" where
  "cut_covers wc earlier \<longleftrightarrow>
     cut_node_0 earlier \<le> cut_node_0 wc \<and> cut_node_1 earlier \<le> cut_node_1 wc"

text \<open>
  \<open>visit_map\<close>: the members of the JSON object in order, each already decoded to its
  \<open>Option<u64>\<close>; the slots start unset.
\<close>

fun cut_visit ::
    "u64 option option \<Rightarrow> u64 option option \<Rightarrow> (string \<times> u64 option) list \<Rightarrow>
     cut_decode_error + window_cut" where
  "cut_visit node_0 node_1 [] =
     (case node_0 of None \<Rightarrow> Inl (MissingField ''0'')
      | Some entry_0 \<Rightarrow>
          (case node_1 of None \<Rightarrow> Inl (MissingField ''1'')
           | Some entry_1 \<Rightarrow> Inr \<lparr>cut_node_0 = entry_0, cut_node_1 = entry_1\<rparr>))"
| "cut_visit node_0 node_1 ((key, entry) # members) =
     (if key = ''0'' then
        if node_0 \<noteq> None then Inl (DuplicateField ''0'')
        else if entry = Some 0 then Inl (Custom ZeroEntry)
        else cut_visit (Some entry) node_1 members
      else if key = ''1'' then
        if node_1 \<noteq> None then Inl (DuplicateField ''1'')
        else if entry = Some 0 then Inl (Custom ZeroEntry)
        else cut_visit node_0 (Some entry) members
      else Inl (UnknownField key))"

definition cut_visit_map :: "(string \<times> u64 option) list \<Rightarrow> cut_decode_error + window_cut" where
  "cut_visit_map = cut_visit None None"

text \<open>The derived \<open>Serialize\<close>: the two renamed fields in declaration order.\<close>

definition cut_members :: "window_cut \<Rightarrow> (string \<times> u64 option) list" where
  "cut_members wc = [(''0'', cut_node_0 wc), (''1'', cut_node_1 wc)]"

section \<open>Lemmas\<close>

definition cut_ok :: "window_cut \<Rightarrow> bool" where
  "cut_ok wc \<longleftrightarrow> cut_node_0 wc \<noteq> Some 0 \<and> cut_node_1 wc \<noteq> Some 0"

lemma cut_new_Inr [result_simps]:
  "cut_new a b = Inr wc \<longleftrightarrow> wc = \<lparr>cut_node_0 = a, cut_node_1 = b\<rparr> \<and> cut_ok wc"
  by (auto simp: cut_new_def cut_ok_def)

lemma cut_with_ok: "cut_with wc node entry = Inr wc' \<Longrightarrow> cut_ok wc'"
  by (auto simp: cut_with_def result_simps split: if_splits)

lemma cut_with_get:
  "cut_with wc node entry = Inr wc' \<Longrightarrow>
   cut_get wc' j = (if j = node then Inr entry else cut_get wc j)"
  by (auto simp: cut_with_def cut_get_def result_simps split: if_splits)

lemma cut_visit_Inr:
  "cut_visit a b members = Inr wc \<Longrightarrow>
     (case a of None \<Rightarrow> cut_node_0 wc \<noteq> Some 0 | Some e \<Rightarrow> cut_node_0 wc = e) \<and>
     (case b of None \<Rightarrow> cut_node_1 wc \<noteq> Some 0 | Some e \<Rightarrow> cut_node_1 wc = e) \<and>
     mset members = (if a = None then {#(''0'', cut_node_0 wc)#} else {#}) +
       (if b = None then {#(''1'', cut_node_1 wc)#} else {#})"
proof (induction a b members rule: cut_visit.induct)
  case (2 a b key entry members)
  then show ?case
    by (cases "key = ''0''"; cases "key = ''1''") (auto split: if_splits)
qed (auto split: option.splits)

lemma cut_admits_iff:
  "cut_admits wc node seq \<longleftrightarrow>
     (node = 0 \<and> Some seq \<le> cut_node_0 wc) \<or> (node = 1 \<and> Some seq \<le> cut_node_1 wc)"
  by (cases "cut_node_0 wc"; cases "cut_node_1 wc") (auto simp: cut_admits_def cut_get_def)

lemma cut_top_iff: "Some seq \<le> cut_top wc \<longleftrightarrow> (\<exists>node. cut_admits wc node seq)"
  unfolding cut_admits_iff cut_top_def le_max_iff_disj by auto

lemma option_le_iff: "a \<le> b \<longleftrightarrow> (\<forall>x. Some x \<le> a \<longrightarrow> Some x \<le> (b :: 'a::linorder option))"
  by (cases a; cases b) auto

section \<open>Properties\<close>

text \<open>
  A later cut that covers an earlier one admits every row the earlier one admits, and
  that is the only way: covering is inclusion of the admitted rows. The highest entry is the
  exact bound of the admitted rows.
\<close>

theorem cut_covers_iff_admits_more:
  "(cut_covers wc earlier \<longleftrightarrow>
      (\<forall>node seq. cut_admits earlier node seq \<longrightarrow> cut_admits wc node seq)) \<and>
    (\<forall>seq. (\<exists>node. cut_admits wc node seq) \<longleftrightarrow> Some seq \<le> cut_top wc)"
proof (intro conjI allI)
  show "cut_covers wc earlier \<longleftrightarrow>
      (\<forall>node seq. cut_admits earlier node seq \<longrightarrow> cut_admits wc node seq)"
    unfolding cut_covers_def cut_admits_iff
    using option_le_iff [of "cut_node_0 earlier" "cut_node_0 wc"]
      option_le_iff [of "cut_node_1 earlier" "cut_node_1 wc"] by auto
qed (simp only: cut_top_iff)

text \<open>
  The JSON form of a cut is exact: every well-formed cut reads back from the members it
  is written as, in either order, and the reader accepts nothing else, no missing, repeated or
  unknown key and no zero entry.
\<close>

theorem cut_json_roundtrip:
  "((\<exists>members. cut_visit_map members = Inr wc) \<longleftrightarrow> cut_ok wc) \<and>
   (cut_visit_map members = Inr wc \<longleftrightarrow> cut_ok wc \<and> mset members = mset (cut_members wc))"
proof -
  have iff: "cut_visit_map members = Inr wc \<longleftrightarrow> cut_ok wc \<and> mset members = mset (cut_members wc)"
    for members
  proof
    assume "cut_visit_map members = Inr wc"
    then show "cut_ok wc \<and> mset members = mset (cut_members wc)"
      using cut_visit_Inr [of None None members wc]
      by (auto simp: cut_visit_map_def cut_ok_def cut_members_def)
  next
    assume ok: "cut_ok wc \<and> mset members = mset (cut_members wc)"
    then have "length members = 2"
      by (metis cut_members_def length_Cons list.size(3) mset_eq_length numeral_2_eq_2)
    then obtain m n where mn: "members = [m, n]"
      by (auto simp: length_Suc_conv numeral_2_eq_2)
    then have "members = cut_members wc \<or> members = rev (cut_members wc)"
      using ok by (auto simp: cut_members_def add_eq_conv_ex)
    then show "cut_visit_map members = Inr wc"
      using ok by (auto simp: cut_visit_map_def cut_members_def cut_ok_def)
  qed
  then show ?thesis
    by blast
qed

theorem cut_covers_iff_admits_more_witness:
  "cut_covers \<lparr>cut_node_0 = Some 5, cut_node_1 = Some 2\<rparr> \<lparr>cut_node_0 = Some 3, cut_node_1 = None\<rparr>
   \<and> cut_admits \<lparr>cut_node_0 = Some 5, cut_node_1 = Some 2\<rparr> 0 3"
proof -
  let ?new = "\<lparr>cut_node_0 = Some 5, cut_node_1 = Some 2\<rparr>"
    and ?old = "\<lparr>cut_node_0 = Some 3, cut_node_1 = None\<rparr> :: window_cut"
  have covers: "cut_covers ?new ?old"
    by (simp add: cut_covers_def)
  from cut_covers_iff_admits_more [of ?new ?old] covers
  have "cut_admits ?old 0 3 \<longrightarrow> cut_admits ?new 0 3"
    by blast
  with covers show ?thesis
    by (simp add: cut_admits_iff)
qed

end
