(* ===== verification/Prism_Data.thy ===== *)
theory Prism_Data
  imports Window_Cut Coinbase
begin

text \<open>
  The data of \<open>qbit-prism/src/lib.rs\<close>: constants, the error type, shares, windows,
  manifests, payout policy records. Every record field carries a short prefix; the fields
  are the ones of the Rust struct in its order.
\<close>

section \<open>Constants\<close>

definition PRISM_WINDOW_MULTIPLIER :: u128 where "PRISM_WINDOW_MULTIPLIER = 8"
definition DEFAULT_P2MR_SPEND_INPUT_BYTES :: u64 where "DEFAULT_P2MR_SPEND_INPUT_BYTES = 3680"
definition DEFAULT_MIN_OUTPUT_FEERATE_SATS_PER_BYTE :: u64 where
  "DEFAULT_MIN_OUTPUT_FEERATE_SATS_PER_BYTE = 1"
definition DEFAULT_MIN_OUTPUT_SAFETY_MULTIPLIER :: u64 where
  "DEFAULT_MIN_OUTPUT_SAFETY_MULTIPLIER = 4"
definition QBIT_COINBASE_MATURITY_BLOCKS :: u64 where "QBIT_COINBASE_MATURITY_BLOCKS = 1000"
definition PRISM_AUDIT_COMMITMENT_LEAF_TAG :: string where
  "PRISM_AUDIT_COMMITMENT_LEAF_TAG = ''qbit.prism.audit.commitment.v1''"
definition AUDIT_BUNDLE_SCHEMA_V1 :: string where
  "AUDIT_BUNDLE_SCHEMA_V1 = ''qbit.prism.audit-bundle.v1''"
definition AUDIT_BUNDLE_SCHEMA_V1_1 :: string where
  "AUDIT_BUNDLE_SCHEMA_V1_1 = ''qbit.prism.audit-bundle.v1.1''"

section \<open>Errors\<close>

datatype prism_error =
    ZeroNetworkDifficulty
  | ZeroShareDifficulty u64
  | DuplicateShareId string
  | ShareOutsideWindowCut u64
  | WindowOverflow
  | PayoutPolicyOverflow
  | InvalidMinOutputFloor
  | PoolFeeBpsTooHigh u16
  | DuplicatePoolFeeAccount
  | PoolFeeFirstRequiresPoolFee
  | EmptyWindow i64
  | DuplicateCarryForward string
  | CoinbaseBelowFloor u64 u64
  | NoOnchainRecipients
  | PayoutExceedsCandidateBalance u64 u128
  | PayoutBelowFloor string u64 u64
  | MaturePayoutDisconnect string
  | Builder builder_error
  | PrismJson string
  | AuditMismatch string
  | AuditCoinbaseTxMismatch
  | ExpectedCoinbaseValueMismatch u64 u64
  | LedgerAttestationKeyReuse
  | InvalidCtvFanoutManifest string
  | InvalidAuditCommitment string
  | SettlementModeSelection string
  | Panic string

text \<open>\<open>Panic\<close> is not a variant of \<open>PrismError\<close>: it stands for the code's \<open>expect\<close> calls.\<close>

section \<open>Shares, windows and manifests\<close>

record accepted_share =
  sh_share_seq :: u64
  sh_share_id :: string
  sh_miner_id :: string
  sh_order_key :: string
  sh_p2mr_program_hex :: string
  sh_share_difficulty :: u128
  sh_network_difficulty :: u128
  sh_template_height :: u64
  sh_job_id :: string
  sh_job_issued_at_ms :: i64
  sh_accepted_at_ms :: i64
  sh_ntime :: u32
  sh_credit_policy :: "string option"

record found_block =
  fb_block_height :: u64
  fb_coinbase_value_sats :: u64
  fb_network_difficulty :: u128
  fb_anchor_job_issued_at_ms :: i64

record counted_share =
  cs_share_seq :: u64
  cs_share_id :: string
  cs_miner_id :: string
  cs_order_key :: string
  cs_p2mr_program_hex :: string
  cs_share_difficulty :: u128
  cs_counted_difficulty :: u128
  cs_job_issued_at_ms :: i64
  cs_accepted_at_ms :: i64
  cs_credit_policy :: "string option"

text \<open>\<open>MinerKey\<close> derives \<open>Ord\<close>: miner id, order key, program, compared in this order.\<close>

type_synonym miner_key = "string \<times> string \<times> string"

record prism_window =
  pw_anchor_job_issued_at_ms :: i64
  pw_anchor_share_seq :: u64
  pw_requested_window_weight :: u128
  pw_counted_window_weight :: u128
  pw_shares :: "counted_share list"
  pw_entitlements :: "weighted_entitlement list"

record prism_reward_manifest =
  rm_schema :: string
  rm_block_height :: u64
  rm_coinbase_value_sats :: u64
  rm_network_difficulty :: u128
  rm_window_multiplier :: u128
  rm_requested_window_weight :: u128
  rm_counted_window_weight :: u128
  rm_anchor_job_issued_at_ms :: i64
  rm_anchor_share_seq :: u64
  rm_newest_share_seq :: u64
  rm_oldest_share_seq :: u64
  rm_cut :: "window_cut option"
  rm_included_share_count :: nat
  rm_share_slice_digest_hex :: string
  rm_shares :: "counted_share list"
  rm_entitlements :: "weighted_entitlement list"

section \<open>Payout policy\<close>

datatype coinbase_output_policy = Canonical | PoolFeeFirst

record pool_fee_policy =
  pf_fee_bps :: u16
  pf_recipient_id :: string
  pf_order_key :: string
  pf_p2mr_program_hex :: string

record payout_policy =
  pp_p2mr_spend_input_bytes :: u64
  pp_target_feerate_sats_per_byte :: u64
  pp_safety_multiplier :: u64
  pp_min_output_sats :: "u64 option"
  pp_pool_fee_policy :: "pool_fee_policy option"
  pp_coinbase_output_policy :: coinbase_output_policy

record carry_forward_balance =
  cb_recipient_id :: string
  cb_order_key :: string
  cb_p2mr_program_hex :: string
  cb_balance_sats :: i128

datatype account_type = Miner | PoolFee
datatype payout_action = Onchain | Accrued
datatype maturity_state = Immature | Mature | Reversed

record payout_policy_account =
  acc_account_type :: account_type
  acc_recipient_id :: string
  acc_order_key :: string
  acc_p2mr_program_hex :: string
  acc_gross_amount_sats :: u64
  acc_prior_balance_sats :: i128
  acc_candidate_balance_sats :: i128
  acc_onchain_amount_sats :: u64
  acc_settlement_fee_sats :: u64
  acc_carry_forward_balance_sats :: i128
  acc_action :: payout_action

record pool_fee_manifest =
  pfm_fee_bps :: u16
  pfm_earned_pool_fee_sats :: u64
  pfm_swept_dust_liability_sats :: u64
  pfm_amount_sats :: u64
  pfm_recipient_id :: string
  pfm_order_key :: string
  pfm_p2mr_program_hex :: string

record payout_policy_manifest =
  ppm_schema :: string
  ppm_block_height :: u64
  ppm_coinbase_value_sats :: u64
  ppm_min_output_sats :: u64
  ppm_floor_formula :: string
  ppm_coinbase_output_policy :: coinbase_output_policy
  ppm_pool_fee :: "pool_fee_manifest option"
  ppm_accounts :: "payout_policy_account list"
  ppm_onchain_entitlements :: "weighted_entitlement list"

record payout_maturity_entry =
  mat_block_hash :: string
  mat_block_height :: u64
  mat_account_type :: account_type
  mat_recipient_id :: string
  mat_order_key :: string
  mat_p2mr_program_hex :: string
  mat_gross_amount_sats :: u64
  mat_prior_balance_sats :: i128
  mat_candidate_balance_sats :: i128
  mat_onchain_amount_sats :: u64
  mat_settlement_fee_sats :: u64
  mat_carry_forward_balance_sats :: i128
  mat_action :: payout_action
  mat_state :: maturity_state

record policy_account_seed =
  seed_recipient_id :: string
  seed_order_key :: string
  seed_p2mr_program_hex :: string
  seed_gross_amount_sats :: u64
  seed_prior_balance_sats :: i128

end
