(* ===== verification/Reward_Window.thy ===== *)
theory Reward_Window
  imports Prism_Data
begin

text \<open>
  The reward window of \<open>qbit-prism/src/lib.rs\<close>: which accepted shares count, newest first up
  to eight times the network difficulty, their aggregation into entitlements, the digest of
  the counted slice, the chunked fold of the builder, and the reward manifest.
\<close>

section \<open>Definitions\<close>

definition eligible_step ::
    "found_block \<Rightarrow> u64 option option \<Rightarrow> string set \<times> accepted_share list \<Rightarrow> accepted_share \<Rightarrow>
     prism_error + (string set \<times> accepted_share list)" where
  "eligible_step found_block limit = (\<lambda>(seen, eligible) share.
     if sh_share_difficulty share = 0 then Inl (ZeroShareDifficulty (sh_share_seq share))
     else if (case limit of None \<Rightarrow> False
              | Some None \<Rightarrow> True | Some (Some bound) \<Rightarrow> bound < sh_share_seq share)
     then Inl (ShareOutsideWindowCut (sh_share_seq share))
     else if sh_share_id share \<in> seen then Inl (DuplicateShareId (sh_share_id share))
     else Inr (insert (sh_share_id share) seen,
       if sint (sh_job_issued_at_ms share) \<le> sint (fb_anchor_job_issued_at_ms found_block) \<and>
          sint (sh_accepted_at_ms share) \<le> sint (fb_anchor_job_issued_at_ms found_block)
       then eligible @ [share] else eligible))"

fun adjacent :: "('a \<Rightarrow> 'a \<Rightarrow> bool) \<Rightarrow> 'a list \<Rightarrow> bool" where
  "adjacent P (x # y # xs) = (P x y \<and> adjacent P (y # xs))"
| "adjacent P xs = True"

definition compare_newest :: "accepted_share \<Rightarrow> accepted_share \<Rightarrow> ordering" where
  "compare_newest left right = cmp (sh_share_seq right) (sh_share_seq left)"

definition newest_first :: "accepted_share list \<Rightarrow> accepted_share list" where
  "newest_first eligible =
     (if adjacent (\<lambda>a b. sh_share_seq a < sh_share_seq b) eligible then rev eligible
      else if \<not> adjacent (\<lambda>a b. sh_share_seq b < sh_share_seq a) eligible
      then sort_by compare_newest eligible
      else eligible)"

definition eligible_window ::
    "accepted_share list \<Rightarrow> found_block \<Rightarrow> window_cut option \<Rightarrow>
     prism_error + (accepted_share list \<times> u128)" where
  "eligible_window shares found_block wcut =
     (if fb_network_difficulty found_block = 0 then Inl ZeroNetworkDifficulty
      else
        and_then (try_fold (eligible_step found_block (map_option cut_top wcut)) ({}, []) shares)
          (\<lambda>(seen, eligible).
        and_then (ok_or WindowOverflow
            (checked_mul (fb_network_difficulty found_block) PRISM_WINDOW_MULTIPLIER))
          (\<lambda>requested_window_weight.
        Inr (newest_first eligible, requested_window_weight))))"

definition count_share :: "accepted_share \<Rightarrow> u128 \<Rightarrow> counted_share" where
  "count_share share counted =
     \<lparr>cs_share_seq = sh_share_seq share, cs_share_id = sh_share_id share,
      cs_miner_id = sh_miner_id share, cs_order_key = sh_order_key share,
      cs_p2mr_program_hex = sh_p2mr_program_hex share,
      cs_share_difficulty = sh_share_difficulty share, cs_counted_difficulty = counted,
      cs_job_issued_at_ms = sh_job_issued_at_ms share,
      cs_accepted_at_ms = sh_accepted_at_ms share,
      cs_credit_policy = sh_credit_policy share\<rparr>"

fun count_window :: "u128 \<Rightarrow> accepted_share list \<Rightarrow> counted_share list" where
  "count_window remaining [] = []"
| "count_window remaining (share # shares) =
     (if remaining = 0 then []
      else let counted = min (sh_share_difficulty share) remaining
           in count_share share counted # count_window (remaining - counted) shares)"

definition cs_key :: "counted_share \<Rightarrow> miner_key" where
  "cs_key share = (cs_miner_id share, cs_order_key share, cs_p2mr_program_hex share)"

definition entitlement_of :: "miner_key \<times> u128 \<Rightarrow> weighted_entitlement" where
  "entitlement_of = (\<lambda>((miner_id, order_key, p2mr_program_hex), weight).
     \<lparr>ent_recipient_id = miner_id, ent_order_key = order_key,
      ent_p2mr_program_hex = p2mr_program_hex, ent_weight = weight\<rparr>)"

definition aggregate_entitlements ::
    "counted_share list \<Rightarrow> prism_error + weighted_entitlement list" where
  "aggregate_entitlements counted_shares =
     and_then (try_fold (add_weight WindowOverflow) []
        (map (\<lambda>share. (cs_key share, cs_counted_difficulty share)) counted_shares)) (\<lambda>weights.
     Inr (map entitlement_of (bt_entries weights)))"

definition compute_prism_window_in_cut ::
    "accepted_share list \<Rightarrow> found_block \<Rightarrow> window_cut option \<Rightarrow> prism_error + prism_window" where
  "compute_prism_window_in_cut shares found_block wcut =
     and_then (eligible_window shares found_block wcut) (\<lambda>(eligible, requested_window_weight).
     let counted_shares = count_window requested_window_weight eligible in
     if counted_shares = [] then Inl (EmptyWindow (fb_anchor_job_issued_at_ms found_block))
     else
       and_then (checked_sum WindowOverflow (map cs_counted_difficulty counted_shares))
         (\<lambda>counted_window_weight.
       and_then (aggregate_entitlements counted_shares) (\<lambda>entitlements.
       Inr \<lparr>pw_anchor_job_issued_at_ms = fb_anchor_job_issued_at_ms found_block,
            pw_anchor_share_seq = cs_share_seq (counted_shares ! 0),
            pw_requested_window_weight = requested_window_weight,
            pw_counted_window_weight = counted_window_weight,
            pw_shares = counted_shares, pw_entitlements = entitlements\<rparr>)))"

definition compute_prism_window ::
    "accepted_share list \<Rightarrow> found_block \<Rightarrow> prism_error + prism_window" where
  "compute_prism_window shares found_block = compute_prism_window_in_cut shares found_block None"

text \<open>The hand-rolled digests: what is absorbed, as bytes.\<close>

definition update_string :: "string \<Rightarrow> u8 list" where
  "update_string value = to_be_bytes (of_nat (length value) :: u64) @ as_bytes value"

definition update_slice_digest :: "counted_share \<Rightarrow> u8 list" where
  "update_slice_digest share =
     to_be_bytes (cs_share_seq share) @ update_string (cs_share_id share) @
     update_string (cs_miner_id share) @ update_string (cs_order_key share) @
     update_string (cs_p2mr_program_hex share) @ to_be_bytes (cs_share_difficulty share) @
     to_be_bytes (cs_counted_difficulty share) @ to_be_bytes (cs_job_issued_at_ms share) @
     to_be_bytes (cs_accepted_at_ms share) @
     (case cs_credit_policy share of None \<Rightarrow> []
      | Some credit_policy \<Rightarrow> update_string ''credit_policy'' @ update_string credit_policy)"

definition share_slice_digest_hex :: "'x crates_scheme \<Rightarrow> counted_share list \<Rightarrow> string" where
  "share_slice_digest_hex X shares =
     hex_encode X (sha256_digest X (concat (map update_slice_digest shares)))"

section \<open>The chunked fold\<close>

fun count_difficulties :: "u128 \<Rightarrow> accepted_share list \<Rightarrow> u128 list" where
  "count_difficulties remaining [] = []"
| "count_difficulties remaining (share # shares) =
     (if remaining = 0 then []
      else let taken = min (sh_share_difficulty share) remaining
           in taken # count_difficulties (remaining - taken) shares)"

text \<open>What a worker produces for one chunk of (share, credited) pairs.\<close>

definition fold_chunk ::
    "(accepted_share \<times> u128) list \<Rightarrow>
     prism_error + (counted_share list \<times> u8 list \<times> (miner_key, u128) btree)" where
  "fold_chunk pairs =
     (let chunk = map (\<lambda>(share, credited). count_share share credited) pairs in
      and_then (try_fold (add_weight WindowOverflow) []
         (map (\<lambda>share. (cs_key share, cs_counted_difficulty share)) chunk)) (\<lambda>chunk_weights.
      Inr (chunk, concat (map update_slice_digest chunk), chunk_weights)))"

text \<open>What the consumer does with it, in chunk order.\<close>

definition merge_chunk ::
    "counted_share list \<times> u8 list \<times> (miner_key, u128) btree \<Rightarrow>
     counted_share list \<times> u8 list \<times> (miner_key, u128) btree \<Rightarrow>
     prism_error + (counted_share list \<times> u8 list \<times> (miner_key, u128) btree)" where
  "merge_chunk = (\<lambda>(counted_shares, digest, weights) (chunk, digest_bytes, chunk_weights).
     and_then (try_fold (add_weight WindowOverflow) weights (bt_entries chunk_weights)) (\<lambda>weights.
     Inr (counted_shares @ chunk, digest @ digest_bytes, weights)))"

definition chunk_range :: "nat \<Rightarrow> 'a list \<Rightarrow> nat \<Rightarrow> 'a list" where
  "chunk_range chunk_len items index = take chunk_len (drop (index * chunk_len) items)"

definition div_ceil :: "nat \<Rightarrow> nat \<Rightarrow> nat" where
  "div_ceil a b = (a + b - 1) div b"

text \<open>
  \<open>ordered_chunks\<close> as its callers see it: chunk \<open>index\<close> is produced and consumed in index
  order. The thread pool behind it is not modelled.
\<close>

definition ordered_chunks ::
    "nat \<Rightarrow> (nat \<Rightarrow> 'e + 'c) \<Rightarrow> ('s \<Rightarrow> 'c \<Rightarrow> 'e + 's) \<Rightarrow> 's \<Rightarrow> 'e + 's" where
  "ordered_chunks chunks produce consume state =
     try_fold (\<lambda>state index. and_then (produce index) (consume state)) state [0..<chunks]"

definition compute_prism_window_parallel ::
    "'x crates_scheme \<Rightarrow> nat \<Rightarrow> accepted_share list \<Rightarrow> found_block \<Rightarrow> window_cut option \<Rightarrow>
     prism_error + (prism_window \<times> string)" where
  "compute_prism_window_parallel X chunk_len shares found_block wcut =
     and_then (eligible_window shares found_block wcut) (\<lambda>(eligible, requested_window_weight).
     let counted = count_difficulties requested_window_weight eligible in
     if counted = [] then Inl (EmptyWindow (fb_anchor_job_issued_at_ms found_block))
     else
       and_then (checked_sum WindowOverflow counted) (\<lambda>counted_window_weight.
       let taken = take (length counted) eligible;
           chunk_len = min chunk_len (length taken);
           pairs = zip taken counted in
       and_then (ordered_chunks (div_ceil (length taken) chunk_len)
           (\<lambda>index. fold_chunk (chunk_range chunk_len pairs index)) merge_chunk ([], [], []))
         (\<lambda>(counted_shares, digest, weights).
       Inr (\<lparr>pw_anchor_job_issued_at_ms = fb_anchor_job_issued_at_ms found_block,
             pw_anchor_share_seq = sh_share_seq (taken ! 0),
             pw_requested_window_weight = requested_window_weight,
             pw_counted_window_weight = counted_window_weight,
             pw_shares = counted_shares,
             pw_entitlements = map entitlement_of (bt_entries weights)\<rparr>,
            hex_encode X (sha256_digest X digest)))))"

section \<open>The reward manifest\<close>

definition manifest_of_window ::
    "found_block \<Rightarrow> window_cut option \<Rightarrow> prism_window \<Rightarrow> string \<Rightarrow> prism_reward_manifest" where
  "manifest_of_window found_block wcut window digest_hex =
     \<lparr>rm_schema = ''qbit.prism.reward-manifest.v1'',
      rm_block_height = fb_block_height found_block,
      rm_coinbase_value_sats = fb_coinbase_value_sats found_block,
      rm_network_difficulty = fb_network_difficulty found_block,
      rm_window_multiplier = PRISM_WINDOW_MULTIPLIER,
      rm_requested_window_weight = pw_requested_window_weight window,
      rm_counted_window_weight = pw_counted_window_weight window,
      rm_anchor_job_issued_at_ms = pw_anchor_job_issued_at_ms window,
      rm_anchor_share_seq = pw_anchor_share_seq window,
      rm_newest_share_seq = cs_share_seq (pw_shares window ! 0),
      rm_oldest_share_seq = cs_share_seq (last (pw_shares window)),
      rm_cut = wcut,
      rm_included_share_count = length (pw_shares window),
      rm_share_slice_digest_hex = digest_hex,
      rm_shares = pw_shares window, rm_entitlements = pw_entitlements window\<rparr>"

definition build_prism_reward_manifest_with_cut ::
    "'x crates_scheme \<Rightarrow> accepted_share list \<Rightarrow> found_block \<Rightarrow> window_cut option \<Rightarrow>
     prism_error + prism_reward_manifest" where
  "build_prism_reward_manifest_with_cut X shares found_block wcut =
     and_then (compute_prism_window_in_cut shares found_block wcut) (\<lambda>window.
     Inr (manifest_of_window found_block wcut window (share_slice_digest_hex X (pw_shares window))))"

definition build_prism_reward_manifest ::
    "'x crates_scheme \<Rightarrow> accepted_share list \<Rightarrow> found_block \<Rightarrow> prism_error + prism_reward_manifest" where
  "build_prism_reward_manifest X shares found_block =
     build_prism_reward_manifest_with_cut X shares found_block None"

text \<open>\<open>Parallelism\<close>: one worker is the serial builder.\<close>

record parallelism =
  par_workers :: nat
  par_chunk_len :: nat

definition parallelism_new :: "nat \<Rightarrow> nat \<Rightarrow> parallelism" where
  "parallelism_new workers chunk_len =
     \<lparr>par_workers = max workers 1, par_chunk_len = max chunk_len 1\<rparr>"

definition is_serial :: "parallelism \<Rightarrow> bool" where
  "is_serial p \<longleftrightarrow> par_workers p \<le> 1"

definition build_prism_reward_manifest_parallel ::
    "'x crates_scheme \<Rightarrow> parallelism \<Rightarrow> accepted_share list \<Rightarrow> found_block \<Rightarrow> window_cut option \<Rightarrow>
     prism_error + prism_reward_manifest" where
  "build_prism_reward_manifest_parallel X p shares found_block wcut =
     (if is_serial p then build_prism_reward_manifest_with_cut X shares found_block wcut
      else
        and_then (compute_prism_window_parallel X (par_chunk_len p) shares found_block wcut)
          (\<lambda>(window, digest_hex). Inr (manifest_of_window found_block wcut window digest_hex)))"

section \<open>Eligibility and order\<close>

interpretation newest: key_order compare_newest "\<lambda>share. - uint (sh_share_seq share)"
  by unfold_locales (simp only: compare_newest_def, rule cmp_flip)

lemma adjacent_sorted: "transp P \<Longrightarrow> adjacent P xs \<longleftrightarrow> sorted_wrt P xs"
proof (induction P xs rule: adjacent.induct)
  case (1 P x y xs)
  then show ?case by (auto dest: transpD)
qed simp_all

lemma newest_first_eq: "newest_first el = sort_by compare_newest el"
proof -
  have asc: "adjacent (\<lambda>a b. sh_share_seq a < sh_share_seq b) el \<longleftrightarrow>
      sorted_wrt (\<lambda>a b. sh_share_seq a < sh_share_seq b) el"
    by (rule adjacent_sorted) (auto simp: transp_def)
  have desc: "adjacent (\<lambda>a b. sh_share_seq b < sh_share_seq a) el \<longleftrightarrow>
      sorted_wrt (\<lambda>a b. sh_share_seq b < sh_share_seq a) el"
    by (rule adjacent_sorted) (auto simp: transp_def)
  consider "sorted_wrt (\<lambda>a b. sh_share_seq a < sh_share_seq b) el"
    | "sorted_wrt (\<lambda>a b. sh_share_seq b < sh_share_seq a) el"
      "\<not> sorted_wrt (\<lambda>a b. sh_share_seq a < sh_share_seq b) el"
    | "\<not> sorted_wrt (\<lambda>a b. sh_share_seq a < sh_share_seq b) el"
      "\<not> sorted_wrt (\<lambda>a b. sh_share_seq b < sh_share_seq a) el"
    by blast
  then show ?thesis
  proof cases
    case 1
    then have "sorted_wrt (<) (map sh_share_seq el)"
      by (simp add: sorted_wrt_map)
    then have "distinct (map sh_share_seq el)"
      by (simp add: strict_sorted_iff)
    then have "inj_on (\<lambda>share. - uint (sh_share_seq share)) (set el)"
      by (auto simp: distinct_map inj_on_def word_uint_eq_iff)
    then have "sort_by compare_newest el = sort_by compare_newest (rev el)"
      by (intro newest.sort_by_perm) simp_all
    also have "\<dots> = rev el"
      using 1 by (intro newest.sort_by_sorted)
        (auto simp: sorted_wrt_map sorted_wrt_rev word_less_def intro: sorted_wrt_mono_rel [rotated])
    finally show ?thesis
      using 1 by (simp add: newest_first_def asc)
  next
    case 2
    then have "sort_by compare_newest el = el"
      by (intro newest.sort_by_sorted)
        (auto simp: sorted_wrt_map word_less_def intro: sorted_wrt_mono_rel [rotated])
    then show ?thesis
      using 2 by (simp add: newest_first_def asc desc)
  next
    case 3
    then show ?thesis
      by (simp add: newest_first_def asc desc)
  qed
qed

definition on_time :: "found_block \<Rightarrow> accepted_share \<Rightarrow> bool" where
  "on_time fb share \<longleftrightarrow>
     sint (sh_job_issued_at_ms share) \<le> sint (fb_anchor_job_issued_at_ms fb) \<and>
     sint (sh_accepted_at_ms share) \<le> sint (fb_anchor_job_issued_at_ms fb)"

definition in_limit :: "u64 option option \<Rightarrow> accepted_share \<Rightarrow> bool" where
  "in_limit limit share \<longleftrightarrow>
     (case limit of None \<Rightarrow> True | Some bound \<Rightarrow> Some (sh_share_seq share) \<le> bound)"

definition eligible :: "accepted_share list \<Rightarrow> found_block \<Rightarrow> accepted_share list" where
  "eligible shares fb = sort_by compare_newest (filter (on_time fb) shares)"

lemma eligible_step_Inr:
  "eligible_step fb limit (seen, el) share = Inr r \<longleftrightarrow>
     sh_share_difficulty share \<noteq> 0 \<and> in_limit limit share \<and> sh_share_id share \<notin> seen \<and>
     r = (insert (sh_share_id share) seen, el @ filter (on_time fb) [share])"
  by (auto simp: eligible_step_def in_limit_def on_time_def not_le
      split: option.splits if_splits)

lemma eligible_fold:
  "try_fold (eligible_step fb limit) (seen, el) shares = Inr r \<longleftrightarrow>
     (\<forall>share \<in> set shares. sh_share_difficulty share \<noteq> 0 \<and> in_limit limit share \<and>
        sh_share_id share \<notin> seen) \<and>
     distinct (map sh_share_id shares) \<and>
     r = (seen \<union> sh_share_id ` set shares, el @ filter (on_time fb) shares)"
proof (induction shares arbitrary: seen el)
  case (Cons share shares)
  show ?case
    by (auto simp: and_then_Inr eligible_step_Inr Cons.IH intro: rev_image_eqI)
qed auto

lemma eligible_window_Inr:
  "eligible_window shares fb wc = Inr (el, requested) \<longleftrightarrow>
     fb_network_difficulty fb \<noteq> 0 \<and>
     (\<forall>share \<in> set shares. sh_share_difficulty share \<noteq> 0 \<and>
        in_limit (map_option cut_top wc) share) \<and>
     distinct (map sh_share_id shares) \<and>
     unat (fb_network_difficulty fb) * 8 < 2 ^ 128 \<and>
     unat requested = unat (fb_network_difficulty fb) * 8 \<and>
     el = eligible shares fb"
  by (auto simp: eligible_window_def result_simps eligible_fold checked_simps newest_first_eq
      eligible_def PRISM_WINDOW_MULTIPLIER_def)

section \<open>What is counted\<close>

lemma unat_min: "unat (min a b) = min (unat a) (unat (b :: 'a::len word))"
  by (simp add: min_def word_le_nat_alt)

lemma unat_minus_min: "unat (rem - min d rem) = unat rem - unat (min d (rem :: 'a::len word))"
  by (rule unat_sub) simp

abbreviation difficulties :: "accepted_share list \<Rightarrow> nat list" where
  "difficulties shares \<equiv> map (unat \<circ> sh_share_difficulty) shares"

lemma sum_count_difficulties:
  "sum_list (map unat (count_difficulties rem el)) = min (unat rem) (sum_list (difficulties el))"
  by (induction rem el rule: count_difficulties.induct)
    (auto simp: Let_def unat_min unat_minus_min)

lemma length_count_difficulties: "length (count_difficulties rem el) \<le> length el"
  by (induction rem el rule: count_difficulties.induct) (auto simp: Let_def)

lemma count_window_eq:
  "count_window rem el = map (\<lambda>(share, credited). count_share share credited)
     (zip el (count_difficulties rem el))"
  by (induction rem el rule: count_window.induct) (auto simp: Let_def)

lemma counted_difficulties:
  "map cs_counted_difficulty (count_window rem el) = count_difficulties rem el"
  by (induction rem el rule: count_window.induct) (auto simp: Let_def count_share_def)

lemma count_share_simps [simp]:
  "cs_counted_difficulty (count_share share c) = c" "cs_share_seq (count_share share c) = sh_share_seq share"
  by (simp_all add: count_share_def)

lemma count_difficulties_bounds:
  assumes "\<forall>share \<in> set el. sh_share_difficulty share \<noteq> 0" and "i < length (count_difficulties rem el)"
  shows "0 < count_difficulties rem el ! i \<and> count_difficulties rem el ! i \<le> sh_share_difficulty (el ! i)
    \<and> (Suc i < length (count_difficulties rem el) \<longrightarrow>
         count_difficulties rem el ! i = sh_share_difficulty (el ! i))"
  using assms
proof (induction rem el arbitrary: i rule: count_difficulties.induct)
  case (2 rem share shares)
  let ?c = "min (sh_share_difficulty share) rem"
  from 2(3) have rem: "rem \<noteq> 0"
    by (auto split: if_splits)
  show ?case
  proof (cases i)
    case 0
    have "?c = sh_share_difficulty share" if "count_difficulties (rem - ?c) shares \<noteq> []"
    proof (rule ccontr)
      assume "?c \<noteq> sh_share_difficulty share"
      then have "?c = rem" by (simp add: min_def split: if_splits)
      with that show False by (cases shares) simp_all
    qed
    then show ?thesis
      using 0 rem 2(2) by (auto simp: Let_def word_gt_0 min_def)
  next
    case (Suc j)
    then show ?thesis
      using 2(1) [OF rem refl, of j] 2(2,3) rem by (simp add: Let_def)
  qed
qed simp

lemma count_difficulties_Nil:
  assumes "rem \<noteq> 0"
  shows "count_difficulties rem el = [] \<longleftrightarrow> el = []"
  using assms by (cases el) (auto simp: Let_def)

lemma requested_pos: "unat requested = unat (n :: u128) * 8 \<Longrightarrow> n \<noteq> 0 \<Longrightarrow> requested \<noteq> (0 :: u128)"
  by (auto simp: unat_eq_0)

section \<open>Entitlements\<close>

definition share_weight :: "miner_key \<Rightarrow> counted_share list \<Rightarrow> nat" where
  "share_weight k shares =
     sum_list (map (unat \<circ> cs_counted_difficulty) (filter (\<lambda>share. cs_key share = k) shares))"

abbreviation keyed_shares :: "counted_share list \<Rightarrow> (miner_key \<times> u128) list" where
  "keyed_shares shares \<equiv> map (\<lambda>share. (cs_key share, cs_counted_difficulty share)) shares"

lemma weight_of_keyed: "weight_of k (keyed_shares shares) = share_weight k shares"
  by (induction shares) (auto simp: share_weight_def)

lemma sum_keyed: "sum_list (map (unat \<circ> snd) (keyed_shares shares)) =
    sum_list (map (unat \<circ> cs_counted_difficulty) shares)"
  by (simp add: comp_def)

definition ent_miner :: "weighted_entitlement \<Rightarrow> miner_key" where
  "ent_miner e = (ent_recipient_id e, ent_order_key e, ent_p2mr_program_hex e)"

lemma entitlement_of_simps [simp]:
  "ent_miner (entitlement_of kw) = fst kw" "ent_weight (entitlement_of kw) = snd kw"
  by (cases kw; simp add: entitlement_of_def ent_miner_def split: prod.splits)+

lemma aggregate_total:
  assumes "sum_list (map (unat \<circ> cs_counted_difficulty) shares) < 2 ^ 128"
  obtains m where "try_fold (add_weight WindowOverflow) [] (keyed_shares shares) = Inr m"
proof -
  have "weight_of k (keyed_shares shares) < 2 ^ LENGTH(128)" for k
    using weight_of_le [of k "keyed_shares shares"] sum_keyed [of shares] assms by simp
  then have "\<exists>m. try_fold (add_weight WindowOverflow) [] (keyed_shares shares) = Inr m"
    by (intro add_weights_total) simp_all
  then show ?thesis using that by blast
qed

lemma aggregate_map:
  assumes "try_fold (add_weight WindowOverflow) [] (keyed_shares shares) = Inr m"
  shows "bt_ok m" and "opt_unat (bt_get m k) = share_weight k shares"
    and "bt_get m k = None \<longleftrightarrow> k \<notin> cs_key ` set shares"
proof -
  show "bt_ok m"
    by (rule add_weights_fold(1) [OF _ assms]) simp
  show "opt_unat (bt_get m k) = share_weight k shares"
    using add_weights_fold(2) [OF _ assms, of k] weight_of_keyed [of k shares] by simp
  show "bt_get m k = None \<longleftrightarrow> k \<notin> cs_key ` set shares"
    using add_weights_fold(3) [OF _ assms, of k] by (simp add: image_image)
qed

lemma aggregate_entitlementsD:
  assumes "aggregate_entitlements shares = Inr es"
  shows "sorted_wrt (<) (map ent_miner es)"
    and "ent_miner ` set es = cs_key ` set shares"
    and "e \<in> set es \<Longrightarrow> unat (ent_weight e) = share_weight (ent_miner e) shares"
proof -
  from assms obtain m where m: "try_fold (add_weight WindowOverflow) [] (keyed_shares shares) = Inr m"
    and es: "es = map entitlement_of (bt_entries m)"
    by (auto simp: aggregate_entitlements_def result_simps)
  note am = aggregate_map [OF m]
  have "map ent_miner es = map fst (bt_entries m)"
    by (simp add: es)
  then show "sorted_wrt (<) (map ent_miner es)"
    using bt.entries_sorted [OF am(1)] by simp
  have "ent_miner ` set es = fst ` set (bt_entries m)"
    by (simp add: es image_image)
  also have "\<dots> = cs_key ` set shares"
    unfolding bt.keys_entries [OF am(1)] using am(3) by auto
  finally show "ent_miner ` set es = cs_key ` set shares" .
  assume "e \<in> set es"
  then obtain kw where kw: "kw \<in> set (bt_entries m)" "e = entitlement_of kw"
    by (auto simp: es)
  then have "bt_get m (fst kw) = Some (snd kw)"
    using bt.in_entries [OF am(1), of "fst kw" "snd kw"] by simp
  then show "unat (ent_weight e) = share_weight (ent_miner e) shares"
    using am(2) [of "fst kw"] kw(2) by simp
qed

section \<open>The window in one equation\<close>

definition grouped_weights :: "counted_share list \<Rightarrow> (miner_key, u128) btree" where
  "grouped_weights shares = projr (try_fold (add_weight WindowOverflow) [] (keyed_shares shares))"

definition window_of :: "found_block \<Rightarrow> u128 \<Rightarrow> accepted_share list \<Rightarrow> prism_window" where
  "window_of fb requested el =
     (let counted = count_window requested el in
      \<lparr>pw_anchor_job_issued_at_ms = fb_anchor_job_issued_at_ms fb,
       pw_anchor_share_seq = cs_share_seq (counted ! 0),
       pw_requested_window_weight = requested,
       pw_counted_window_weight = of_nat (min (unat requested) (sum_list (difficulties el))),
       pw_shares = counted,
       pw_entitlements = map entitlement_of (bt_entries (grouped_weights counted))\<rparr>)"

lemma sum_counted:
  "sum_list (map (unat \<circ> cs_counted_difficulty) (count_window requested el)) =
     min (unat requested) (sum_list (difficulties el))"
  using sum_count_difficulties [of requested el] counted_difficulties [of requested el]
  by (metis list.map_comp)

lemma sum_counted_less:
  "sum_list (map (unat \<circ> cs_counted_difficulty) (count_window requested el)) < 2 ^ 128"
  using u128_lt [of requested] by (simp add: sum_counted)

lemma grouped_weights:
  "try_fold (add_weight WindowOverflow) [] (keyed_shares (count_window requested el)) =
     Inr (grouped_weights (count_window requested el))"
proof (rule aggregate_total [OF sum_counted_less [of requested el]])
  fix m
  assume m: "try_fold (add_weight WindowOverflow) [] (keyed_shares (count_window requested el)) = Inr m"
  show ?thesis
    unfolding grouped_weights_def m by simp
qed

lemma checked_sum_counted:
  "checked_sum WindowOverflow (count_difficulties requested el) =
     Inr (of_nat (min (unat requested) (sum_list (difficulties el))))"
  using u128_lt [of requested]
  by (simp add: checked_sum_Inr sum_count_difficulties unat_of_nat take_bit_nat_eq_self)

lemma compute_window_eq:
  "compute_prism_window_in_cut shares fb wc =
     and_then (eligible_window shares fb wc) (\<lambda>(el, requested).
       if el = [] then Inl (EmptyWindow (fb_anchor_job_issued_at_ms fb))
       else Inr (window_of fb requested el))"
proof (cases "eligible_window shares fb wc")
  case (Inr r)
  obtain el requested where r: "r = (el, requested)"
    by (cases r)
  have "requested \<noteq> 0"
    using Inr requested_pos [of requested "fb_network_difficulty fb"]
    by (auto simp: r eligible_window_Inr)
  then have "count_window requested el = [] \<longleftrightarrow> el = []"
    using count_difficulties_Nil [of requested el] counted_difficulties [of requested el]
    by (metis map_is_Nil_conv)
  then show ?thesis
    using Inr r by (simp add: compute_prism_window_in_cut_def Let_def counted_difficulties
        checked_sum_counted aggregate_entitlements_def grouped_weights window_of_def)
qed (simp add: compute_prism_window_in_cut_def)

lemma compute_window_Inr:
  "compute_prism_window_in_cut shares fb wc = Inr w \<longleftrightarrow>
     (\<exists>requested. eligible_window shares fb wc = Inr (eligible shares fb, requested) \<and>
        eligible shares fb \<noteq> [] \<and> w = window_of fb requested (eligible shares fb))"
  by (auto simp: compute_window_eq and_then_Inr eligible_window_Inr split: if_splits)

section \<open>The chunked fold agrees\<close>

lemma concat_chunks_take:
  "concat (map (chunk_range n xs) [0..<k]) = take (k * n) xs"
proof (induction k)
  case (Suc k)
  have "take (Suc k * n) xs = take (k * n + n) xs"
    by (simp add: add.commute)
  then show ?case
    using Suc by (simp add: chunk_range_def take_add)
qed simp

lemma concat_chunks:
  assumes "0 < n"
  shows "concat (map (chunk_range n xs) [0..<div_ceil (length xs) n]) = xs"
proof -
  have "length xs + n - 1 < (length xs + n - 1) div n * n + n"
    using assms by (metis add.commute div_mult_mod_eq mod_less_divisor nat_add_left_cancel_less)
  then have "length xs \<le> div_ceil (length xs) n * n"
    using assms by (simp add: div_ceil_def)
  then show ?thesis
    by (simp add: concat_chunks_take)
qed

abbreviation count_pairs :: "(accepted_share \<times> u128) list \<Rightarrow> counted_share list" where
  "count_pairs pairs \<equiv> map (\<lambda>(share, credited). count_share share credited) pairs"

lemma share_weight_append: "share_weight k (xs @ ys) = share_weight k xs + share_weight k ys"
  by (simp add: share_weight_def)

lemma share_weight_le: "share_weight k xs \<le> sum_list (map (unat \<circ> cs_counted_difficulty) xs)"
  using weight_of_le [of k "keyed_shares xs"] by (simp only: weight_of_keyed sum_keyed)

lemma chunked_fold:
  assumes "bt_ok weights"
    and "\<And>k. opt_unat (bt_get weights k) + share_weight k (count_pairs (concat (map f is))) < 2 ^ 128"
    and "\<And>i. i \<in> set is \<Longrightarrow>
      sum_list (map (unat \<circ> cs_counted_difficulty) (count_pairs (f i))) < 2 ^ 128"
  shows "\<exists>weights'. try_fold (\<lambda>state index. and_then (fold_chunk (f index)) (merge_chunk state))
      (counted, digest, weights) is =
    Inr (counted @ count_pairs (concat (map f is)),
      digest @ concat (map update_slice_digest (count_pairs (concat (map f is)))), weights') \<and>
    bt_ok weights' \<and>
    (\<forall>k. opt_unat (bt_get weights' k) =
       opt_unat (bt_get weights k) + share_weight k (count_pairs (concat (map f is)))) \<and>
    (\<forall>k. bt_get weights' k = None \<longleftrightarrow>
       bt_get weights k = None \<and> k \<notin> cs_key ` set (count_pairs (concat (map f is))))"
  using assms
proof (induction "is" arbitrary: counted digest weights)
  case Nil
  then show ?case by (simp add: share_weight_def)
next
  case (Cons i "is")
  let ?chunk = "count_pairs (f i)"
  have "sum_list (map (unat \<circ> cs_counted_difficulty) ?chunk) < 2 ^ 128"
    by (rule Cons.prems(3)) simp
  then obtain cw where cw: "try_fold (add_weight WindowOverflow) [] (keyed_shares ?chunk) = Inr cw"
    by (rule aggregate_total)
  note cwm = aggregate_map [OF cw]
  have chunk: "fold_chunk (f i) = Inr (?chunk, concat (map update_slice_digest ?chunk), cw)"
    using cw by (simp add: fold_chunk_def)
  have weight: "weight_of k (bt_entries cw) = share_weight k ?chunk" for k
    by (simp only: weight_of_entries [OF cwm(1)] cwm(2))
  have "opt_unat (bt_get weights k) + weight_of k (bt_entries cw) < 2 ^ LENGTH(128)" for k
    unfolding weight using Cons.prems(2) [of k] by (simp add: share_weight_append)
  then have "\<exists>w1. try_fold (add_weight WindowOverflow) weights (bt_entries cw) = Inr w1"
    by (rule add_weights_total [OF Cons.prems(1)])
  then obtain w1 where w1: "try_fold (add_weight WindowOverflow) weights (bt_entries cw) = Inr w1"
    by (rule exE)
  note w1m = add_weights_fold [OF Cons.prems(1) w1]
  have keys: "fst ` set (bt_entries cw) = cs_key ` set ?chunk"
    unfolding bt.keys_entries [OF cwm(1)] using cwm(3) by auto
  have merged: "and_then (fold_chunk (f i)) (merge_chunk (counted, digest, weights)) =
      Inr (counted @ ?chunk, digest @ concat (map update_slice_digest ?chunk), w1)"
    by (simp add: chunk merge_chunk_def w1)
  have bound: "opt_unat (bt_get w1 k) + share_weight k (count_pairs (concat (map f is))) < 2 ^ 128" for k
    unfolding w1m(2) weight using Cons.prems(2) [of k] by (simp add: share_weight_append)
  from Cons.IH [OF w1m(1) bound Cons.prems(3), of "counted @ ?chunk"
      "digest @ concat (map update_slice_digest ?chunk)"]
  show ?case
    unfolding try_fold.simps merged and_then.simps
    by (simp add: w1m(2,3) weight keys share_weight_append image_Un add.assoc)
qed

lemma pairs_of_counted:
  "zip (take (length (count_difficulties requested el)) el) (count_difficulties requested el) =
     zip el (count_difficulties requested el)"
  using take_zip [of "length (count_difficulties requested el)" el "count_difficulties requested el"]
  by simp

lemma chunked_window:
  assumes "0 < n"
  shows "\<exists>weights. ordered_chunks (div_ceil (length (count_difficulties requested el)) n)
      (\<lambda>index. fold_chunk (chunk_range n (zip el (count_difficulties requested el)) index))
      merge_chunk ([], [], []) =
    Inr (count_window requested el,
      concat (map update_slice_digest (count_window requested el)), weights) \<and>
    weights = grouped_weights (count_window requested el)"
proof -
  let ?cds = "count_difficulties requested el" and ?cw = "count_window requested el"
  let ?pairs = "zip el ?cds"
  let ?is = "[0..<div_ceil (length ?cds) n]"
  have len: "length ?pairs = length ?cds"
    using length_count_difficulties [of requested el] by simp
  have all: "concat (map (chunk_range n ?pairs) ?is) = ?pairs"
    using concat_chunks [OF assms, of ?pairs] by (simp only: len)
  have cw: "count_pairs (concat (map (chunk_range n ?pairs) ?is)) = ?cw"
    by (simp only: all count_window_eq)
  have le: "opt_unat (bt_get [] k) + share_weight k (count_pairs (concat (map (chunk_range n ?pairs) ?is)))
      < 2 ^ 128" for k
    unfolding cw using le_less_trans [OF share_weight_le sum_counted_less] by simp
  have part: "sum_list (map (unat \<circ> cs_counted_difficulty) (count_pairs (chunk_range n ?pairs i))) < 2 ^ 128"
    if "i \<in> set ?is" for i
  proof -
    have "chunk_range n ?pairs i = take n (drop (i * n) ?pairs)"
      by (simp add: chunk_range_def)
    moreover have "?pairs = take (i * n) ?pairs @ take n (drop (i * n) ?pairs) @ drop n (drop (i * n) ?pairs)"
      by (metis append_take_drop_id)
    then have "?cw = count_pairs (take (i * n) ?pairs) @ count_pairs (take n (drop (i * n) ?pairs)) @
        count_pairs (drop n (drop (i * n) ?pairs))"
      unfolding count_window_eq by (metis map_append)
    then have "sum_list (map (unat \<circ> cs_counted_difficulty) (count_pairs (take n (drop (i * n) ?pairs)))) \<le>
        sum_list (map (unat \<circ> cs_counted_difficulty) ?cw)"
      by (simp only: map_append sum_list_append)
    ultimately show ?thesis
      using sum_counted_less [of requested el] by simp
  qed
  from chunked_fold [OF bt_ok_Nil le part, of "[]" "[]"] obtain w where
    fold: "ordered_chunks (div_ceil (length ?cds) n)
        (\<lambda>index. fold_chunk (chunk_range n ?pairs index)) merge_chunk ([], [], []) =
      Inr (?cw, concat (map update_slice_digest ?cw), w)"
    and ok: "bt_ok w" and sums: "\<And>k. opt_unat (bt_get w k) = share_weight k ?cw"
    and keys: "\<And>k. bt_get w k = None \<longleftrightarrow> k \<notin> cs_key ` set ?cw"
    unfolding cw by (auto simp: ordered_chunks_def)
  have "w = grouped_weights ?cw"
    using aggregate_map [OF grouped_weights, of requested el] ok
    by (intro weights_eqI) (simp_all only: sums keys)
  with fold show ?thesis by simp
qed

section \<open>The slice digest's preimage is a code\<close>

lemma to_be_bytes_inj:
  assumes "8 dvd LENGTH('a::len)"
  shows "to_be_bytes (a :: 'a word) = to_be_bytes b \<longleftrightarrow> a = b"
proof
  assume "to_be_bytes a = to_be_bytes b"
  then have "le_value (to_le_bytes a) = le_value (to_le_bytes b)"
    by (simp add: to_be_bytes_def)
  then show "a = b"
    by (simp only: le_value_to_le_bytes [OF assms] word_unat_eq_iff)
qed simp

lemma to_be_bytes_append_eq [simp]:
  "to_be_bytes (a :: u64) @ xs = to_be_bytes b @ ys \<longleftrightarrow> a = b \<and> xs = ys"
  "to_be_bytes (c :: u128) @ xs = to_be_bytes d @ ys \<longleftrightarrow> c = d \<and> xs = ys"
  by (simp_all add: append_eq_append_conv to_be_bytes_inj)

lemma as_bytes_eq [simp]: "as_bytes s = as_bytes t \<longleftrightarrow> s = t"
proof -
  have "of_char c = (of_char d :: nat)" if "(of_nat (of_char c) :: u8) = of_nat (of_char d)" for c d
  proof -
    have "unat (of_nat (of_char c) :: u8) = unat (of_nat (of_char d) :: u8)"
      using that by simp
    moreover have "of_char c < (256 :: nat)" "of_char d < (256 :: nat)"
      by simp_all
    ultimately show ?thesis
      by (simp add: unat_of_nat take_bit_nat_eq_self)
  qed
  then have "inj (\<lambda>c. of_nat (of_char c) :: u8)"
    by (auto simp: inj_def)
  then show ?thesis
    by (simp add: as_bytes_def inj_map_eq_map)
qed

lemma length_as_bytes [simp]: "length (as_bytes s) = length s"
  by (simp add: as_bytes_def)

lemma update_string_append_eq:
  assumes "length s < 2 ^ 64" and "length t < 2 ^ 64"
  shows "update_string s @ xs = update_string t @ ys \<longleftrightarrow> s = t \<and> xs = ys"
proof
  assume eq: "update_string s @ xs = update_string t @ ys"
  then have len: "(of_nat (length s) :: u64) = of_nat (length t)"
    and rest: "as_bytes s @ xs = as_bytes t @ ys"
    by (simp_all add: update_string_def)
  have "length s = length t"
    using arg_cong [OF len, of unat] unat_of_nat_u64 assms by simp
  with rest show "s = t \<and> xs = ys"
    by (simp add: append_eq_append_conv)
qed simp

text \<open>The strings of a share are short of \<open>2^56\<close> bytes, as any string in memory is.\<close>

definition short_strings :: "counted_share \<Rightarrow> bool" where
  "short_strings share \<longleftrightarrow>
     length (cs_share_id share) < 2 ^ 56 \<and> length (cs_miner_id share) < 2 ^ 56 \<and>
     length (cs_order_key share) < 2 ^ 56 \<and> length (cs_p2mr_program_hex share) < 2 ^ 56 \<and>
     (\<forall>policy. cs_credit_policy share = Some policy \<longrightarrow> length policy < 2 ^ 56)"

definition policy_bytes :: "string option \<Rightarrow> u8 list" where
  "policy_bytes p = (case p of None \<Rightarrow> []
     | Some policy \<Rightarrow> update_string ''credit_policy'' @ update_string policy)"

lemma hd_to_be_bytes:
  assumes "n < 2 ^ 56"
  shows "hd (to_be_bytes (of_nat n :: u64)) = 0"
proof -
  have "drop_bit 56 n = 0"
    using assms by (simp add: drop_bit_eq_div)
  moreover have "n < 2 ^ 64"
    using assms by simp
  ultimately have "unat (drop_bit 56 (of_nat n :: u64)) = 0"
    by (simp only: unsigned_drop_bit_eq unat_of_nat_u64) (simp add: take_bit_nat_eq_self)
  then have "drop_bit 56 (of_nat n :: u64) = 0"
    by (simp only: unat_eq_0)
  then show ?thesis
    by (simp add: to_be_bytes_def to_le_bytes_def upt_rec)
qed

lemma to_be_bytes_Nil: "to_be_bytes (w :: u64) \<noteq> []"
proof
  assume Nil: "to_be_bytes w = []"
  have "length (to_be_bytes w) = 8" by simp
  then show False unfolding Nil by simp
qed

lemma policy_not_share:
  assumes "length (cs_share_id share) < 2 ^ 56"
  shows "policy_bytes (Some policy) @ xs \<noteq> update_slice_digest share @ ys"
proof
  assume "policy_bytes (Some policy) @ xs = update_slice_digest share @ ys"
  then have "as_bytes ''credit_policy'' @ update_string policy @ xs =
      to_be_bytes (of_nat (length (cs_share_id share)) :: u64) @ as_bytes (cs_share_id share) @
      drop (8 + length (cs_share_id share)) (drop 8 (update_slice_digest share)) @ ys"
    by (simp add: policy_bytes_def update_slice_digest_def update_string_def)
  then have "hd (as_bytes ''credit_policy'' @ update_string policy @ xs) =
      hd (to_be_bytes (of_nat (length (cs_share_id share)) :: u64))"
    by (simp only: hd_append2 [OF to_be_bytes_Nil])
  then show False
    using hd_to_be_bytes [OF assms] by (simp add: as_bytes_def)
qed

lemma share_bytes_append_eq:
  assumes "short_strings s" and "short_strings t"
    and "update_slice_digest s @ xs = update_slice_digest t @ ys"
  shows "s\<lparr>cs_credit_policy := None\<rparr> = t\<lparr>cs_credit_policy := None\<rparr> \<and>
    policy_bytes (cs_credit_policy s) @ xs = policy_bytes (cs_credit_policy t) @ ys"
  using assms by (simp add: update_slice_digest_def short_strings_def update_string_append_eq
      policy_bytes_def [symmetric])

lemma policy_bytes_eq:
  assumes "\<And>policy. p = Some policy \<Longrightarrow> length policy < 2 ^ 56"
    and "\<And>policy. q = Some policy \<Longrightarrow> length policy < 2 ^ 56"
    and "\<forall>s \<in> set xs. short_strings s" and "\<forall>s \<in> set ys. short_strings s"
    and "policy_bytes p @ concat (map update_slice_digest xs) =
      policy_bytes q @ concat (map update_slice_digest ys)"
  shows "p = q \<and> concat (map update_slice_digest xs) = concat (map update_slice_digest ys)"
proof -
  have no: "policy_bytes (Some policy) @ us \<noteq> concat (map update_slice_digest zs)"
    if "\<forall>s \<in> set zs. short_strings s" for policy us zs
  proof (cases zs)
    case (Cons z zs')
    then show ?thesis
      using policy_not_share [of z policy us] that by (simp add: short_strings_def)
  qed (simp add: policy_bytes_def update_string_def to_be_bytes_Nil)
  show ?thesis
  proof (cases p)
    case None
    have "q = None"
    proof (rule ccontr)
      assume "q \<noteq> None"
      then obtain b where "q = Some b" by auto
      then show False
        using no [OF assms(3), of b "concat (map update_slice_digest ys)"] assms(5) None by (simp add: policy_bytes_def [of None])
    qed
    then show ?thesis
      using None assms(5) by simp
  next
    case (Some a)
    show ?thesis
    proof (cases q)
      case None
      then show ?thesis
        using no [OF assms(4), of a "concat (map update_slice_digest xs)"] assms(5) Some by (simp add: policy_bytes_def [of None])
    next
      case (Some b)
      then show ?thesis
        using assms(1,2,5) \<open>p = Some a\<close> by (simp add: policy_bytes_def update_string_append_eq)
    qed
  qed
qed

lemma slice_bytes_inj:
  assumes "\<forall>s \<in> set xs. short_strings s" and "\<forall>s \<in> set ys. short_strings s"
    and "concat (map update_slice_digest xs) = concat (map update_slice_digest ys)"
  shows "xs = ys"
  using assms
proof (induction xs arbitrary: ys)
  case Nil
  then show ?case
    by (cases ys) (auto simp: update_slice_digest_def dest: to_be_bytes_Nil [THEN notE])
next
  case (Cons x xs)
  from Cons.prems(3) obtain y ys' where ys: "ys = y # ys'"
    by (cases ys) (auto simp: update_slice_digest_def dest: to_be_bytes_Nil [THEN notE])
  have short: "short_strings x" "short_strings y" "\<forall>s \<in> set xs. short_strings s"
    "\<forall>s \<in> set ys'. short_strings s"
    using Cons.prems(1,2) ys by simp_all
  from Cons.prems(3) have eq: "update_slice_digest x @ concat (map update_slice_digest xs) =
      update_slice_digest y @ concat (map update_slice_digest ys')"
    by (simp add: ys)
  note parts = share_bytes_append_eq [OF short(1,2) eq]
  have "cs_credit_policy x = cs_credit_policy y \<and>
      concat (map update_slice_digest xs) = concat (map update_slice_digest ys')"
    by (rule policy_bytes_eq [OF _ _ short(3,4)])
      (use short(1,2) parts in \<open>auto simp: short_strings_def\<close>)
  moreover from this parts have "x = y"
    by (cases x; cases y) simp
  ultimately show ?case
    using Cons.IH [OF short(3,4)] ys by simp
qed


section \<open>Properties\<close>

text \<open>
  C10. Which work a block rewards: the counted shares are the newest eligible shares, each
  counted in full except that the last may be cut, and together they count exactly eight
  times the network difficulty, or every eligible share when there is less.
\<close>

theorem window_counts_newest_work:
  assumes "compute_prism_window_in_cut shares fb wc = Inr w"
  shows "let el = eligible shares fb; n = length (pw_shares w) in
    0 < n \<and> n \<le> length el \<and>
    (\<forall>i<n. pw_shares w ! i = count_share (el ! i) (cs_counted_difficulty (pw_shares w ! i)) \<and>
       0 < cs_counted_difficulty (pw_shares w ! i) \<and>
       cs_counted_difficulty (pw_shares w ! i) \<le> sh_share_difficulty (el ! i) \<and>
       (Suc i < n \<longrightarrow> cs_counted_difficulty (pw_shares w ! i) = sh_share_difficulty (el ! i))) \<and>
    unat (pw_counted_window_weight w) =
      sum_list (map (unat \<circ> cs_counted_difficulty) (pw_shares w)) \<and>
    unat (pw_counted_window_weight w) =
      min (8 * unat (fb_network_difficulty fb)) (sum_list (difficulties el))"
proof -
  from assms obtain requested where req: "eligible_window shares fb wc = Inr (eligible shares fb, requested)"
    and ne: "eligible shares fb \<noteq> []" and w: "w = window_of fb requested (eligible shares fb)"
    by (auto simp: compute_window_Inr)
  let ?el = "eligible shares fb" and ?cds = "count_difficulties requested (eligible shares fb)"
  have ur: "unat requested = 8 * unat (fb_network_difficulty fb)"
    and pos: "\<forall>share \<in> set ?el. sh_share_difficulty share \<noteq> 0"
    using req by (auto simp: eligible_window_Inr eligible_def)
  have "requested \<noteq> 0"
    using req requested_pos by (auto simp: eligible_window_Inr)
  then have "?cds \<noteq> []"
    using ne by (simp add: count_difficulties_Nil)
  have shares: "pw_shares w = map (\<lambda>(share, credited). count_share share credited) (zip ?el ?cds)"
    by (simp add: w window_of_def Let_def count_window_eq)
  have len: "length (pw_shares w) = length ?cds"
    using length_count_difficulties [of requested ?el] by (simp add: shares)
  have nth: "pw_shares w ! i = count_share (?el ! i) (?cds ! i)" if "i < length ?cds" for i
    using that length_count_difficulties [of requested ?el] by (simp add: shares)
  have counted: "cs_counted_difficulty (pw_shares w ! i) = ?cds ! i" if "i < length ?cds" for i
    using nth [OF that] by (simp add: count_share_def)
  have sum: "sum_list (map (unat \<circ> cs_counted_difficulty) (pw_shares w)) =
      min (unat requested) (sum_list (difficulties ?el))"
    using sum_counted [of requested ?el] by (simp add: w window_of_def Let_def)
  moreover have "unat (pw_counted_window_weight w) = min (unat requested) (sum_list (difficulties ?el))"
    using u128_lt [of requested]
    by (simp add: w window_of_def Let_def unat_of_nat take_bit_nat_eq_self)
  ultimately show ?thesis
    unfolding Let_def len
    using \<open>?cds \<noteq> []\<close> length_count_difficulties [of requested ?el] nth counted ur
      count_difficulties_bounds [OF pos] by auto
qed

text \<open>
  The counted weight of a window is the sum of the counted difficulties, and the weights of
  the miners partition it.
\<close>

lemma sum_share_weight_notin:
  "k \<notin> set ks \<Longrightarrow> sum_list (map (\<lambda>k'. if k' = k then w else f k') ks) = sum_list (map f ks)"
  by (induction ks) auto

lemma sum_share_weight_in:
  "distinct ks \<Longrightarrow> k \<in> set ks \<Longrightarrow>
   sum_list (map (\<lambda>k'. (if k' = k then w else 0) + f k') ks) = w + sum_list (map f ks)" for w :: nat
  by (induction ks) (auto simp: sum_list_addf intro!: arg_cong [where f = sum_list])

lemma sum_share_weight:
  assumes "distinct ks" and "cs_key ` set shares \<subseteq> set ks"
  shows "sum_list (map (\<lambda>k. share_weight k shares) ks) =
    sum_list (map (unat \<circ> cs_counted_difficulty) shares)"
  using assms(2)
proof (induction shares)
  case Nil
  then show ?case by (simp add: share_weight_def)
next
  case (Cons share shares)
  have "share_weight k (share # shares) =
      (if k = cs_key share then unat (cs_counted_difficulty share) else 0) + share_weight k shares" for k
    by (auto simp: share_weight_def)
  then show ?case
    using Cons sum_share_weight_in [OF assms(1), of "cs_key share"] by simp
qed

lemma counted_window_weight_sum:
  assumes "compute_prism_window_in_cut shares fb wc = Inr w"
  shows "unat (pw_counted_window_weight w) = sum_list (map (unat \<circ> cs_counted_difficulty) (pw_shares w))"
proof -
  from assms obtain requested where w: "w = window_of fb requested (eligible shares fb)"
    by (auto simp: compute_window_Inr)
  have "sum_list (map (unat \<circ> cs_counted_difficulty) (pw_shares w)) =
      min (unat requested) (sum_list (difficulties (eligible shares fb)))"
    using sum_counted [of requested "eligible shares fb"] by (simp add: w window_of_def Let_def)
  then show ?thesis
    using u128_lt [of requested]
    by (simp add: w window_of_def Let_def unat_of_nat take_bit_nat_eq_self)
qed

text \<open>
  C11. The entitlements of a window are its counted work per miner identity: one entry per
  (miner, order key, program), in that order, weighted with the exact sum of the miner's
  counted difficulty; together the weights are the counted weight of the window, so nothing
  is lost or credited twice.
\<close>

theorem window_entitlements_are_work:
  assumes "compute_prism_window_in_cut shares fb wc = Inr w"
  shows "sorted_wrt (<) (map ent_miner (pw_entitlements w)) \<and>
    ent_miner ` set (pw_entitlements w) = cs_key ` set (pw_shares w) \<and>
    (\<forall>e \<in> set (pw_entitlements w). unat (ent_weight e) = share_weight (ent_miner e) (pw_shares w) \<and>
       0 < ent_weight e) \<and>
    sum_list (map (unat \<circ> ent_weight) (pw_entitlements w)) = unat (pw_counted_window_weight w)"
proof -
  from assms obtain requested where req: "eligible_window shares fb wc = Inr (eligible shares fb, requested)"
    and w: "w = window_of fb requested (eligible shares fb)"
    by (auto simp: compute_window_Inr)
  have "aggregate_entitlements (pw_shares w) = Inr (pw_entitlements w)"
    by (simp add: w window_of_def Let_def aggregate_entitlements_def grouped_weights)
  note agg = aggregate_entitlementsD [OF this]
  have pos: "0 < cs_counted_difficulty share" if "share \<in> set (pw_shares w)" for share
  proof -
    from that obtain i where "i < length (count_difficulties requested (eligible shares fb))"
      and "share = count_share (eligible shares fb ! i) (count_difficulties requested (eligible shares fb) ! i)"
      by (auto simp: w window_of_def Let_def count_window_eq in_set_conv_nth)
    moreover have "\<forall>share \<in> set (eligible shares fb). sh_share_difficulty share \<noteq> 0"
      using req by (auto simp: eligible_window_Inr eligible_def)
    ultimately show ?thesis
      using count_difficulties_bounds by (auto simp: count_share_def)
  qed
  have "0 < ent_weight e" if e: "e \<in> set (pw_entitlements w)" for e
  proof -
    from e have "ent_miner e \<in> cs_key ` set (pw_shares w)"
      using agg(2) by auto
    then obtain share where "share \<in> set (pw_shares w)" and "cs_key share = ent_miner e"
      by auto
    then have "unat (cs_counted_difficulty share) \<le> share_weight (ent_miner e) (pw_shares w)"
      unfolding share_weight_def by (intro member_le_sum_list) auto
    then have "0 < unat (ent_weight e)"
      using agg(3) [OF e] pos [OF \<open>share \<in> _\<close>] by (simp add: word_less_nat_alt)
    then show ?thesis
      by (simp add: word_less_nat_alt)
  qed
  moreover have "sum_list (map (unat \<circ> ent_weight) (pw_entitlements w)) = unat (pw_counted_window_weight w)"
  proof -
    have "map (unat \<circ> ent_weight) (pw_entitlements w) =
        map (\<lambda>k. share_weight k (pw_shares w)) (map ent_miner (pw_entitlements w))"
      using agg(3) by simp
    moreover have "distinct (map ent_miner (pw_entitlements w))"
      using agg(1) strict_sorted_iff by blast
    moreover have "cs_key ` set (pw_shares w) \<subseteq> set (map ent_miner (pw_entitlements w))"
      using agg(2) by auto
    ultimately show ?thesis
      unfolding counted_window_weight_sum [OF assms] using sum_share_weight by metis
  qed
  ultimately show ?thesis
    using agg by blast
qed

text \<open>
  Exactly which windows fold: a positive network difficulty whose eightfold fits
  \<open>u128\<close>, positive distinct shares at or below the cut, and at least one of them at or before
  the anchor. No other overflow is reachable.
\<close>

theorem window_succeeds_iff:
  "(\<exists>w. compute_prism_window_in_cut shares fb wc = Inr w) \<longleftrightarrow>
     fb_network_difficulty fb \<noteq> 0 \<and> unat (fb_network_difficulty fb) * 8 < 2 ^ 128 \<and>
     (\<forall>share \<in> set shares. sh_share_difficulty share \<noteq> 0 \<and>
        (\<forall>cut'. wc = Some cut' \<longrightarrow> Some (sh_share_seq share) \<le> cut_top cut')) \<and>
     distinct (map sh_share_id shares) \<and> (\<exists>share \<in> set shares. on_time fb share)"
proof -
  have limit: "in_limit (map_option cut_top wc) share \<longleftrightarrow>
      (\<forall>cut'. wc = Some cut' \<longrightarrow> Some (sh_share_seq share) \<le> cut_top cut')" for share
    by (cases wc) (auto simp: in_limit_def)
  have ne: "eligible shares fb \<noteq> [] \<longleftrightarrow> (\<exists>share \<in> set shares. on_time fb share)"
    by (metis (no_types, lifting) eligible_def filter_empty_conv length_0_conv length_sort_by)
  have "unat (fb_network_difficulty fb) * 8 < 2 ^ LENGTH(128) \<Longrightarrow>
      \<exists>requested :: u128. unat requested = unat (fb_network_difficulty fb) * 8"
    by (rule ex_unat)
  then show ?thesis
    unfolding compute_window_Inr eligible_window_Inr ne limit by auto
qed

text \<open>
  The window does not depend on the order in which the shares are presented: with
  distinct sequence numbers, any permutation of the input folds to the same window.
\<close>

theorem window_order_independent:
  assumes "mset shares = mset shares'" and "distinct (map sh_share_seq shares)"
  shows "compute_prism_window_in_cut shares fb wc = Inr w \<longleftrightarrow>
    compute_prism_window_in_cut shares' fb wc = Inr w"
proof -
  have "eligible shares fb = eligible shares' fb"
    unfolding eligible_def
  proof (rule newest.sort_by_perm)
    show "mset (filter (on_time fb) shares) = mset (filter (on_time fb) shares')"
      using assms(1) by simp
    show "inj_on (\<lambda>share. - uint (sh_share_seq share)) (set (filter (on_time fb) shares))"
      using assms(2) by (auto simp: distinct_map inj_on_def word_uint_eq_iff)
  qed
  moreover have "set shares = set shares'"
    using assms(1) by (rule mset_eq_setD)
  moreover have "distinct (map sh_share_id shares) \<longleftrightarrow> distinct (map sh_share_id shares')"
    using assms(1) by (metis mset_eq_imp_distinct_iff mset_map)
  ultimately show ?thesis
    by (simp add: compute_window_Inr eligible_window_Inr)
qed

lemma parallel_window_eq:
  assumes n: "0 < n"
  shows "compute_prism_window_parallel X n shares fb wc =
      and_then (compute_prism_window_in_cut shares fb wc) (\<lambda>w.
        Inr (w, share_slice_digest_hex X (pw_shares w)))"
proof (cases "eligible_window shares fb wc")
  case (Inr r)
  obtain el requested where r: "r = (el, requested)"
    by (cases r)
  let ?cds = "count_difficulties requested el"
  have "requested \<noteq> 0"
    using Inr requested_pos [of requested "fb_network_difficulty fb"]
    by (auto simp: r eligible_window_Inr)
  then have Nil: "?cds = [] \<longleftrightarrow> el = []"
    by (rule count_difficulties_Nil)
  show ?thesis
  proof (cases "el = []")
    case False
    have len: "length (take (length ?cds) el) = length ?cds"
      using length_count_difficulties [of requested el] by simp
    have chunk: "0 < min n (length ?cds)"
      using n False Nil by simp
    obtain share el' d cds where "el = share # el'" "?cds = d # cds"
      using False Nil by (meson neq_Nil_conv)
    then have anchor: "cs_share_seq (count_window requested el ! 0) = sh_share_seq (take (length ?cds) el ! 0)"
      by (simp add: count_window_eq count_share_def)
    from False Inr r chunked_window [OF chunk, of requested el] show ?thesis
      unfolding compute_window_eq compute_prism_window_parallel_def
      by (simp only: Inr r and_then.simps prod.case Let_def Nil if_False checked_sum_counted
          pairs_of_counted len) (auto simp: window_of_def Let_def anchor share_slice_digest_hex_def)
  qed (use Inr r Nil in \<open>simp add: compute_window_eq compute_prism_window_parallel_def Let_def\<close>)
qed (simp add: compute_window_eq compute_prism_window_parallel_def)

lemma parallel_manifest_eq:
  "build_prism_reward_manifest_parallel X (parallelism_new workers chunk_len) shares fb wc =
    build_prism_reward_manifest_with_cut X shares fb wc"
proof -
  have "0 < par_chunk_len (parallelism_new workers chunk_len)"
    by (simp add: parallelism_new_def)
  from parallel_window_eq [OF this, of X shares fb wc] show ?thesis
    by (cases "compute_prism_window_in_cut shares fb wc")
      (simp_all add: build_prism_reward_manifest_parallel_def build_prism_reward_manifest_with_cut_def)
qed

text \<open>
  C12. The builder's chunked fold is the serial fold: for every positive chunk length it
  returns the same window or the same error, and with it the digest the serial manifest
  computes over the counted shares; so the manifest does not depend on the parallelism.
\<close>

theorem parallel_fold_is_serial:
  assumes "0 < n"
  shows "compute_prism_window_parallel X n shares fb wc =
      and_then (compute_prism_window_in_cut shares fb wc) (\<lambda>w.
        Inr (w, share_slice_digest_hex X (pw_shares w))) \<and>
    build_prism_reward_manifest_parallel X (parallelism_new workers chunk_len) shares fb wc =
      build_prism_reward_manifest_with_cut X shares fb wc"
  using parallel_window_eq [OF assms] parallel_manifest_eq by blast

text \<open>
  The slice digest determines the counted shares, although an absent credit policy is not
  marked in its input: for shares with strings below \<open>2^56\<close> bytes two slices have the same
  digest exactly when they are equal, unless their two inputs collide under \<open>SHA-256\<close>.
\<close>

theorem slice_digest_determines_shares:
  assumes "hex_spec X" and "\<forall>s \<in> set xs. short_strings s" and "\<forall>s \<in> set ys. short_strings s"
    and "inj_on (sha256_digest X)
      {concat (map update_slice_digest xs), concat (map update_slice_digest ys)}"
  shows "share_slice_digest_hex X xs = share_slice_digest_hex X ys \<longleftrightarrow> xs = ys"
  using assms(4) slice_bytes_inj [OF assms(2,3)]
  by (auto simp: share_slice_digest_hex_def hex_encode_inj [OF assms(1)] inj_on_def)

section \<open>A concrete window\<close>

definition sample_share :: "u64 \<Rightarrow> string \<Rightarrow> u128 \<Rightarrow> accepted_share" where
  "sample_share seq miner difficulty =
     \<lparr>sh_share_seq = seq, sh_share_id = CHR ''s'' # show_nat (unat seq), sh_miner_id = miner,
      sh_order_key = miner, sh_p2mr_program_hex = miner, sh_share_difficulty = difficulty,
      sh_network_difficulty = 1, sh_template_height = 7, sh_job_id = ''j'',
      sh_job_issued_at_ms = 10, sh_accepted_at_ms = 20, sh_ntime = 0, sh_credit_policy = None\<rparr>"

definition sample_block :: found_block where
  "sample_block = \<lparr>fb_block_height = 7, fb_coinbase_value_sats = 100, fb_network_difficulty = 1,
     fb_anchor_job_issued_at_ms = 30\<rparr>"

definition sample_shares :: "accepted_share list" where
  "sample_shares = [sample_share 1 ''a'' 5, sample_share 2 ''b'' 7]"

lemma sample_eligible: "eligible sample_shares sample_block = rev sample_shares"
  by (simp add: eligible_def sample_shares_def sample_share_def sample_block_def on_time_def
      compare_newest_def cmp_def)

lemma sample_eligible_window:
  "eligible_window sample_shares sample_block None = Inr (rev sample_shares, 8)"
  unfolding eligible_window_Inr sample_eligible
  by (simp add: sample_shares_def sample_share_def sample_block_def in_limit_def show_nat.simps)

lemma sample_window:
  "compute_prism_window_in_cut sample_shares sample_block None =
     Inr (window_of sample_block 8 (rev sample_shares))"
  unfolding compute_window_Inr sample_eligible using sample_eligible_window
  by (auto simp: sample_shares_def)

lemma sample_window_shares: "pw_shares (window_of sample_block 8 (rev sample_shares)) =
    [count_share (sample_share 2 ''b'' 7) 7, count_share (sample_share 1 ''a'' 5) 1]"
  by (simp add: window_of_def Let_def sample_shares_def sample_share_def)

theorem window_counts_newest_work_witness:
  "unat (pw_counted_window_weight (window_of sample_block 8 (rev sample_shares))) = 8"
  using window_counts_newest_work [OF sample_window]
  by (simp add: Let_def sample_window_shares)

theorem window_entitlements_are_work_witness:
  "ent_miner ` set (pw_entitlements (window_of sample_block 8 (rev sample_shares))) =
     {(''b'', ''b'', ''b''), (''a'', ''a'', ''a'')} \<and>
   sum_list (map (unat \<circ> ent_weight) (pw_entitlements (window_of sample_block 8 (rev sample_shares)))) = 8"
proof -
  have "unat (pw_counted_window_weight (window_of sample_block 8 (rev sample_shares))) = 8"
    using counted_window_weight_sum [OF sample_window] by (simp add: sample_window_shares)
  then show ?thesis
    using window_entitlements_are_work [OF sample_window]
    by (simp add: sample_window_shares cs_key_def count_share_def sample_share_def)
qed

theorem window_succeeds_iff_witness:
  "\<exists>w. compute_prism_window_in_cut sample_shares sample_block None = Inr w"
  unfolding window_succeeds_iff
  by (simp add: sample_shares_def sample_share_def sample_block_def on_time_def show_nat.simps)

theorem window_order_independent_witness:
  "compute_prism_window_in_cut (rev sample_shares) sample_block None =
     Inr (window_of sample_block 8 (rev sample_shares))"
proof -
  have "distinct (map sh_share_seq sample_shares)"
    by (simp add: sample_shares_def sample_share_def)
  from window_order_independent [OF _ this, of "rev sample_shares"] sample_window
  show ?thesis by simp
qed

theorem parallel_fold_is_serial_witness:
  "compute_prism_window_parallel sample_crates 1 sample_shares sample_block None =
     Inr (window_of sample_block 8 (rev sample_shares), share_slice_digest_hex sample_crates
       [count_share (sample_share 2 ''b'' 7) 7, count_share (sample_share 1 ''a'' 5) 1])"
  using parallel_fold_is_serial [of 1 sample_crates sample_shares sample_block None] sample_window
  by (simp add: sample_window_shares)

lemma sample_slice_differs:
  assumes "cs_share_seq s \<noteq> cs_share_seq t"
  shows "sample_digest (update_slice_digest s) \<noteq> sample_digest (update_slice_digest t)"
proof
  have "take 8 (sample_digest (update_slice_digest u)) = to_be_bytes (cs_share_seq u)" for u
    by (simp add: sample_digest_def update_slice_digest_def)
  moreover assume "sample_digest (update_slice_digest s) = sample_digest (update_slice_digest t)"
  ultimately have "to_be_bytes (cs_share_seq s) = to_be_bytes (cs_share_seq t)"
    by metis
  then show False
    using assms by (simp add: to_be_bytes_inj)
qed

theorem slice_digest_determines_shares_witness:
  "share_slice_digest_hex sample_crates [count_share (sample_share 2 ''b'' 7) 7] \<noteq>
   share_slice_digest_hex sample_crates [count_share (sample_share 1 ''a'' 5) 1]"
proof -
  let ?s = "count_share (sample_share 2 ''b'' 7) 7" and ?t = "count_share (sample_share 1 ''a'' 5) 1"
  have seq: "cs_share_seq ?s \<noteq> cs_share_seq ?t"
    by (simp add: sample_share_def)
  have "short_strings ?s" "short_strings ?t"
    by (simp_all add: short_strings_def count_share_def sample_share_def show_nat.simps)
  moreover have "inj_on (sha256_digest sample_crates) {update_slice_digest ?s, update_slice_digest ?t}"
    using sample_slice_differs [OF seq] by (auto simp: inj_on_def sample_crates_def)
  ultimately have "share_slice_digest_hex sample_crates [?s] = share_slice_digest_hex sample_crates [?t]
      \<longleftrightarrow> [?s] = [?t]"
    by (intro slice_digest_determines_shares [OF sample_hex_spec]) simp_all
  then show ?thesis
    using seq by (metis list.inject)
qed

end
