(* ===== verification/Payout_Policy.thy ===== *)
theory Payout_Policy
  imports Reward_Window
begin

text \<open>
  The payout policy of \<open>qbit-prism/src/lib.rs\<close>: the proportional split of the miners' reward,
  the grouping by payout program, the pool fee and its swept dust, the selection of the
  accounts paid on chain, and \<open>apply_payout_policy\<close>, which settles a block's reward and the
  carried balances into accounts.
\<close>

section \<open>The proportional split\<close>

definition weighted_share ::
    "u64 \<Rightarrow> u128 \<Rightarrow> weighted_entitlement \<Rightarrow> prism_error + (weighted_entitlement \<times> u64 \<times> u128)" where
  "weighted_share total_sats total_weight e =
     and_then (ok_or PayoutPolicyOverflow
                (checked_mul (u128_from_u64 total_sats) (ent_weight e))) (\<lambda>product.
     let base = product div total_weight; remainder = product mod total_weight in
     and_then (ok_or PayoutPolicyOverflow (u64_try_from_u128 base)) (\<lambda>amount.
     Inr (e, amount, remainder)))"

definition compare_weighted ::
    "(weighted_entitlement \<times> u64 \<times> u128) list \<Rightarrow> nat \<Rightarrow> nat \<Rightarrow> ordering" where
  "compare_weighted provisional left right =
     then_with (then_with (then_with
       (cmp (snd (snd (provisional ! right))) (snd (snd (provisional ! left))))
       (cmp (ent_order_key (fst (provisional ! left))) (ent_order_key (fst (provisional ! right)))))
       (cmp (ent_recipient_id (fst (provisional ! left)))
            (ent_recipient_id (fst (provisional ! right)))))
       (cmp (ent_p2mr_program_hex (fst (provisional ! left)))
            (ent_p2mr_program_hex (fst (provisional ! right))))"

definition bump_weighted ::
    "weighted_entitlement \<times> u64 \<times> u128 \<Rightarrow> prism_error + (weighted_entitlement \<times> u64 \<times> u128)" where
  "bump_weighted = (\<lambda>(e, amount, remainder).
     and_then (ok_or PayoutPolicyOverflow (checked_add amount 1)) (\<lambda>amount.
     Inr (e, amount, remainder)))"

definition allocate_weighted_amounts ::
    "u64 \<Rightarrow> weighted_entitlement list \<Rightarrow> prism_error + (weighted_entitlement \<times> u64) list" where
  "allocate_weighted_amounts total_sats entitlements =
     (let ordered = sort_by compare_entitlements entitlements in
      and_then (checked_sum PayoutPolicyOverflow (map ent_weight ordered)) (\<lambda>total_weight.
      if total_weight = 0 then Inl PayoutPolicyOverflow
      else
        and_then (try_map (weighted_share total_sats total_weight) ordered) (\<lambda>provisional.
        and_then (checked_sum PayoutPolicyOverflow (map (\<lambda>p. fst (snd p)) provisional)) (\<lambda>allocated.
        and_then (ok_or PayoutPolicyOverflow (checked_sub total_sats allocated)) (\<lambda>remainder_sats.
        let remainder_order = sort_by (compare_weighted provisional) [0..<length provisional] in
        and_then (try_update_each bump_weighted (take (unat remainder_sats) remainder_order)
                    provisional) (\<lambda>provisional.
        Inr (map (\<lambda>(e, amount, remainder). (e, amount)) provisional)))))))"

section \<open>Grouping by payout program\<close>

definition payout_program_key :: "string \<Rightarrow> string" where
  "payout_program_key p2mr_program_hex = to_ascii_lowercase p2mr_program_hex"

text \<open>\<open>entry(key).or_insert_with(..)\<close>, the smaller (order key, recipient) name, the checked sum.\<close>

definition merge_entitlement ::
    "weighted_entitlement \<Rightarrow> weighted_entitlement option \<Rightarrow> prism_error + weighted_entitlement" where
  "merge_entitlement e slot =
     (let entry = (case slot of None \<Rightarrow> e\<lparr>ent_weight := 0\<rparr> | Some entry \<Rightarrow> entry);
          entry = (if (ent_order_key e, ent_recipient_id e) <
                      (ent_order_key entry, ent_recipient_id entry)
                   then entry\<lparr>ent_recipient_id := ent_recipient_id e,
                              ent_order_key := ent_order_key e\<rparr>
                   else entry)
      in and_then (ok_or PayoutPolicyOverflow (checked_add (ent_weight entry) (ent_weight e)))
           (\<lambda>weight. Inr (entry\<lparr>ent_weight := weight\<rparr>)))"

definition entitlements_by_program ::
    "weighted_entitlement list \<Rightarrow> prism_error + (string, weighted_entitlement) btree" where
  "entitlements_by_program =
     try_fold (\<lambda>by_program e.
       and_then (merge_entitlement e (bt_get by_program (payout_program_key (ent_p2mr_program_hex e))))
         (\<lambda>entry. Inr (bt_put (payout_program_key (ent_p2mr_program_hex e)) entry by_program))) []"

definition aggregate_entitlements_by_payout_program ::
    "weighted_entitlement list \<Rightarrow> prism_error + weighted_entitlement list" where
  "aggregate_entitlements_by_payout_program entitlements =
     and_then (entitlements_by_program entitlements) (\<lambda>by_program. Inr (bt_values by_program))"

definition merge_balance ::
    "carry_forward_balance \<Rightarrow> carry_forward_balance option \<Rightarrow> prism_error + carry_forward_balance" where
  "merge_balance balance slot =
     (let entry = (case slot of None \<Rightarrow> balance\<lparr>cb_balance_sats := 0\<rparr> | Some entry \<Rightarrow> entry);
          entry = (if (cb_order_key balance, cb_recipient_id balance) <
                      (cb_order_key entry, cb_recipient_id entry)
                   then entry\<lparr>cb_recipient_id := cb_recipient_id balance,
                              cb_order_key := cb_order_key balance\<rparr>
                   else entry)
      in and_then (ok_or PayoutPolicyOverflow
             (i128_checked_add (cb_balance_sats entry) (cb_balance_sats balance)))
           (\<lambda>balance_sats. Inr (entry\<lparr>cb_balance_sats := balance_sats\<rparr>)))"

definition carry_forward_by_payout_program ::
    "carry_forward_balance list \<Rightarrow> prism_error + (string, carry_forward_balance) btree" where
  "carry_forward_by_payout_program =
     try_fold (\<lambda>by_key balance.
       and_then (merge_balance balance (bt_get by_key (payout_program_key (cb_p2mr_program_hex balance))))
         (\<lambda>entry. Inr (bt_put (payout_program_key (cb_p2mr_program_hex balance)) entry by_key))) []"

section \<open>Policy and pool fee\<close>

definition day_one_default :: payout_policy where
  "day_one_default =
     \<lparr>pp_p2mr_spend_input_bytes = DEFAULT_P2MR_SPEND_INPUT_BYTES,
      pp_target_feerate_sats_per_byte = DEFAULT_MIN_OUTPUT_FEERATE_SATS_PER_BYTE,
      pp_safety_multiplier = DEFAULT_MIN_OUTPUT_SAFETY_MULTIPLIER,
      pp_min_output_sats = None, pp_pool_fee_policy = None,
      pp_coinbase_output_policy = Canonical\<rparr>"

definition policy_min_output_sats :: "payout_policy \<Rightarrow> prism_error + u64" where
  "policy_min_output_sats policy =
     (case pp_min_output_sats policy of
        Some min_output_sats \<Rightarrow>
          if min_output_sats = 0 then Inl InvalidMinOutputFloor else Inr min_output_sats
      | None \<Rightarrow>
          ok_or PayoutPolicyOverflow
            (Option.bind (checked_mul (pp_p2mr_spend_input_bytes policy)
                (pp_target_feerate_sats_per_byte policy))
              (\<lambda>value. checked_mul value (pp_safety_multiplier policy))))"

definition floor_formula :: "payout_policy \<Rightarrow> string" where
  "floor_formula policy =
     (case pp_min_output_sats policy of
        Some min_output_sats \<Rightarrow>
          ''configured fixed floor: '' @ show_nat (unat min_output_sats) @ '' sats''
      | None \<Rightarrow>
          show_nat (unat (pp_p2mr_spend_input_bytes policy)) @ '' bytes/input * '' @
          show_nat (unat (pp_target_feerate_sats_per_byte policy)) @ '' sat/byte * '' @
          show_nat (unat (pp_safety_multiplier policy)) @ ''x safety'')"

definition pool_fee_manifest_of ::
    "u64 \<Rightarrow> payout_policy \<Rightarrow> prism_error + pool_fee_manifest option" where
  "pool_fee_manifest_of coinbase_value_sats policy =
     (case pp_pool_fee_policy policy of
        None \<Rightarrow> Inr None
      | Some fee_policy \<Rightarrow>
          if 10000 < pf_fee_bps fee_policy then Inl (PoolFeeBpsTooHigh (pf_fee_bps fee_policy))
          else
            and_then (ok_or PayoutPolicyOverflow
                (checked_mul (u128_from_u64 coinbase_value_sats) (ucast (pf_fee_bps fee_policy))))
              (\<lambda>product.
            and_then (ok_or PayoutPolicyOverflow (u64_try_from_u128 (product div 10000))) (\<lambda>fee_sats.
            Inr (Some \<lparr>pfm_fee_bps = pf_fee_bps fee_policy, pfm_earned_pool_fee_sats = fee_sats,
              pfm_swept_dust_liability_sats = 0, pfm_amount_sats = fee_sats,
              pfm_recipient_id = pf_recipient_id fee_policy, pfm_order_key = pf_order_key fee_policy,
              pfm_p2mr_program_hex = pf_p2mr_program_hex fee_policy\<rparr>))))"

definition add_swept_dust_to_pool_fee ::
    "pool_fee_manifest option \<Rightarrow> u64 \<Rightarrow> prism_error + pool_fee_manifest option" where
  "add_swept_dust_to_pool_fee pool_fee swept_dust_sats =
     (if swept_dust_sats = 0 then Inr pool_fee
      else
        and_then (ok_or PayoutPolicyOverflow pool_fee) (\<lambda>fee.
        and_then (ok_or PayoutPolicyOverflow
            (checked_add (pfm_swept_dust_liability_sats fee) swept_dust_sats)) (\<lambda>swept.
        and_then (ok_or PayoutPolicyOverflow (checked_add (pfm_earned_pool_fee_sats fee) swept))
          (\<lambda>amount.
        Inr (Some (fee\<lparr>pfm_swept_dust_liability_sats := swept, pfm_amount_sats := amount\<rparr>))))))"

section \<open>Which accounts are paid on chain\<close>

definition eligible_onchain_accounts :: "payout_policy_account list \<Rightarrow> u64 \<Rightarrow> nat list" where
  "eligible_onchain_accounts accounts min_output_sats =
     filter (\<lambda>index. sint (i128_from_u64 min_output_sats) \<le>
         sint (acc_candidate_balance_sats (accounts ! index))) [0..<length accounts]"

definition selected_candidate_balance_sum ::
    "payout_policy_account list \<Rightarrow> nat list \<Rightarrow> prism_error + u128" where
  "selected_candidate_balance_sum accounts =
     try_fold (\<lambda>sum index.
       and_then (ok_or PayoutPolicyOverflow
           (u128_try_from_i128 (acc_candidate_balance_sats (accounts ! index)))) (\<lambda>candidate_balance.
       ok_or PayoutPolicyOverflow (checked_add sum candidate_balance))) 0"

definition account_key :: "string \<Rightarrow> string \<Rightarrow> string \<Rightarrow> string" where
  "account_key recipient_id order_key p2mr_program_hex =
     recipient_id @ [CHR 0x00] @ order_key @ [CHR 0x00] @ p2mr_program_hex"

definition candidate_weight :: "payout_policy_account \<Rightarrow> weighted_entitlement" where
  "candidate_weight account =
     \<lparr>ent_recipient_id = acc_recipient_id account, ent_order_key = acc_order_key account,
      ent_p2mr_program_hex = acc_p2mr_program_hex account,
      ent_weight = acc_candidate_balance_sats account\<rparr>"

definition entitlement_account_key :: "weighted_entitlement \<Rightarrow> string" where
  "entitlement_account_key e =
     account_key (ent_recipient_id e) (ent_order_key e) (ent_p2mr_program_hex e)"

definition under_floor_keys :: "(weighted_entitlement \<times> u64) list \<Rightarrow> u64 \<Rightarrow> string list" where
  "under_floor_keys allocations min_output_sats =
     map (\<lambda>(e, amount_sats). entitlement_account_key e)
       (filter (\<lambda>(e, amount_sats). amount_sats < min_output_sats) allocations)"

lemma try_update_each_length: "try_update_each f is xs = Inr ys \<Longrightarrow> length ys = length xs"
  by (induction "is" arbitrary: xs) (auto simp: result_simps)

lemma try_update_each_keeps:
  assumes "\<And>x y. f x = Inr y \<Longrightarrow> g y = g x" and "try_update_each f is xs = Inr ys"
    and "\<forall>i \<in> set is. i < length xs"
  shows "map g ys = map g xs"
  using assms(2,3)
proof (induction "is" arbitrary: xs)
  case (Cons i "is")
  then obtain x where x: "f (xs ! i) = Inr x" and rest: "try_update_each f is (xs[i := x]) = Inr ys"
    by (auto simp: result_simps)
  have "map g ys = map g (xs[i := x])"
    using Cons.IH [OF rest] Cons.prems(2) by simp
  also have "\<dots> = map g xs"
    using assms(1) [OF x] Cons.prems(2) by (simp add: map_update list_update_same_conv)
  finally show ?case .
qed simp

lemma weighted_share_fst: "weighted_share v t e = Inr p \<Longrightarrow> fst p = e"
  by (auto simp: weighted_share_def Let_def result_simps)

lemma allocate_weighted_entitlements:
  assumes "allocate_weighted_amounts v es = Inr out"
  shows "map fst out = sort_by compare_entitlements es"
proof -
  from assms obtain t prov k prov' where
    prov: "try_map (weighted_share v t) (sort_by compare_entitlements es) = Inr prov"
    and upd: "try_update_each bump_weighted
      (take k (sort_by (compare_weighted prov) [0..<length prov])) prov = Inr prov'"
    and out: "out = map (\<lambda>(e, amount, remainder). (e, amount)) prov'"
    by (auto simp: allocate_weighted_amounts_def Let_def result_simps split: if_splits)
  have "list_all2 (\<lambda>e p. fst p = e) (sort_by compare_entitlements es) prov"
    using prov weighted_share_fst unfolding try_map_Inr by (rule list_all2_mono)
  then have "map fst prov = sort_by compare_entitlements es"
    by (intro nth_equalityI) (auto simp: list_all2_conv_all_nth)
  moreover have "map fst prov' = map fst prov"
  proof (rule try_update_each_keeps [OF _ upd])
    show "fst y = fst x" if "bump_weighted x = Inr y" for x y
      using that by (auto simp: bump_weighted_def result_simps split: prod.splits)
  qed (auto dest!: in_set_takeD)
  moreover have "map fst out = map fst prov'"
    by (simp add: out comp_def case_prod_beta)
  ultimately show ?thesis by simp
qed

text \<open>
  The loop of \<open>select_onchain_accounts\<close>: drop the accounts whose share of the reward would be
  under the floor and split again. Every pass that does not return drops one.
\<close>

function select_onchain_loop ::
    "payout_policy_account list \<Rightarrow> u64 \<Rightarrow> u64 \<Rightarrow> nat list \<Rightarrow> prism_error + nat list" where
  "select_onchain_loop accounts coinbase_value_sats min_output_sats selected =
     (if selected = [] then Inl NoOnchainRecipients
      else
        and_then (selected_candidate_balance_sum accounts selected) (\<lambda>balance.
        if balance < u128_from_u64 coinbase_value_sats
        then Inl (PayoutExceedsCandidateBalance coinbase_value_sats balance)
        else
          and_then (allocate_weighted_amounts coinbase_value_sats
              (map (\<lambda>index. candidate_weight (accounts ! index)) selected)) (\<lambda>allocations.
          let under_floor = under_floor_keys allocations min_output_sats in
          if under_floor = [] then Inr selected
          else select_onchain_loop accounts coinbase_value_sats min_output_sats
            (filter (\<lambda>index. entitlement_account_key (candidate_weight (accounts ! index))
                       \<notin> set under_floor) selected))))"
  by pat_completeness auto

lemma under_floor_shrinks:
  assumes "allocate_weighted_amounts v (map w xs) = Inr allocations"
    and "under_floor_keys allocations m \<noteq> []"
  shows "length (filter (\<lambda>x. entitlement_account_key (w x) \<notin> set (under_floor_keys allocations m)) xs)
    < length xs"
proof -
  obtain e a where ea: "(e, a) \<in> set allocations" "a < m"
    using assms(2) by (auto simp: under_floor_keys_def filter_empty_conv)
  then have k: "entitlement_account_key e \<in> set (under_floor_keys allocations m)"
    by (force simp: under_floor_keys_def)
  from ea have "e \<in> set (map fst allocations)"
    by (auto intro: rev_image_eqI)
  then obtain x where "x \<in> set xs" and "e = w x"
    unfolding allocate_weighted_entitlements [OF assms(1)] by auto
  then show ?thesis
    using k by (intro length_filter_less) auto
qed

termination select_onchain_loop
proof (relation "measure (\<lambda>(accounts, v, m, selected). length selected)", goal_cases)
  case (2 accounts v m selected balance allocations under_floor)
  then show ?case
    using under_floor_shrinks by simp
qed simp

declare select_onchain_loop.simps [simp del]

definition select_onchain_accounts ::
    "payout_policy_account list \<Rightarrow> u64 \<Rightarrow> u64 \<Rightarrow> prism_error + nat list" where
  "select_onchain_accounts accounts coinbase_value_sats min_output_sats =
     select_onchain_loop accounts coinbase_value_sats min_output_sats
       (eligible_onchain_accounts accounts min_output_sats)"

section \<open>Settling a block\<close>

text \<open>
  The seeds: the miners of the window with their prior balance, then the balances of programs
  that are not in the window; the set of program keys seen.
\<close>

definition seed_of_gross ::
    "(string, carry_forward_balance) btree \<Rightarrow> weighted_entitlement \<times> u64 \<Rightarrow> policy_account_seed" where
  "seed_of_gross prior_by_program = (\<lambda>(e, gross_amount_sats).
     \<lparr>seed_recipient_id = ent_recipient_id e, seed_order_key = ent_order_key e,
      seed_p2mr_program_hex = ent_p2mr_program_hex e,
      seed_gross_amount_sats = gross_amount_sats,
      seed_prior_balance_sats =
        (case bt_get prior_by_program (payout_program_key (ent_p2mr_program_hex e)) of
           Some balance \<Rightarrow> cb_balance_sats balance | None \<Rightarrow> 0)\<rparr>)"

fun carried_seeds ::
    "string set \<Rightarrow> carry_forward_balance list \<Rightarrow> policy_account_seed list \<times> string set" where
  "carried_seeds seen [] = ([], seen)"
| "carried_seeds seen (balance # balances) =
     (let key = payout_program_key (cb_p2mr_program_hex balance) in
      if key \<in> seen then carried_seeds seen balances
      else
        let (seeds, seen') = carried_seeds (insert key seen) balances in
        (\<lparr>seed_recipient_id = cb_recipient_id balance, seed_order_key = cb_order_key balance,
          seed_p2mr_program_hex = cb_p2mr_program_hex balance, seed_gross_amount_sats = 0,
          seed_prior_balance_sats = cb_balance_sats balance\<rparr> # seeds, seen'))"

definition account_of_seed :: "policy_account_seed \<Rightarrow> prism_error + payout_policy_account" where
  "account_of_seed seed =
     and_then (ok_or PayoutPolicyOverflow
         (i128_checked_add (seed_prior_balance_sats seed)
           (i128_from_u64 (seed_gross_amount_sats seed)))) (\<lambda>candidate_balance_sats.
     Inr \<lparr>acc_account_type = Miner, acc_recipient_id = seed_recipient_id seed,
          acc_order_key = seed_order_key seed, acc_p2mr_program_hex = seed_p2mr_program_hex seed,
          acc_gross_amount_sats = seed_gross_amount_sats seed,
          acc_prior_balance_sats = seed_prior_balance_sats seed,
          acc_candidate_balance_sats = candidate_balance_sats, acc_onchain_amount_sats = 0,
          acc_settlement_fee_sats = 0, acc_carry_forward_balance_sats = candidate_balance_sats,
          acc_action = Accrued\<rparr>)"

text \<open>Who is paid what, and the pool fee with the dust swept into it.\<close>

definition full_candidate ::
    "payout_policy_account list \<Rightarrow> nat \<Rightarrow> prism_error + (weighted_entitlement \<times> u64)" where
  "full_candidate accounts index =
     and_then (ok_or PayoutPolicyOverflow
         (u64_try_from_i128 (acc_candidate_balance_sats (accounts ! index)))) (\<lambda>amount_sats.
     Inr ((candidate_weight (accounts ! index))\<lparr>ent_weight := u128_from_u64 amount_sats\<rparr>, amount_sats))"

definition onchain_plan ::
    "payout_policy_account list \<Rightarrow> u64 \<Rightarrow> u64 \<Rightarrow> pool_fee_manifest option \<Rightarrow>
     prism_error + ((weighted_entitlement \<times> u64) list \<times> pool_fee_manifest option)" where
  "onchain_plan accounts miner_reward min_output_sats pool_fee =
     (let eligible_indices = eligible_onchain_accounts accounts min_output_sats in
      if eligible_indices = [] then
        if pool_fee = None then Inl NoOnchainRecipients
        else
          and_then (add_swept_dust_to_pool_fee pool_fee miner_reward) (\<lambda>pool_fee. Inr ([], pool_fee))
      else
        and_then (selected_candidate_balance_sum accounts eligible_indices) (\<lambda>eligible_sum.
        if eligible_sum < u128_from_u64 miner_reward then
          if pool_fee = None then Inl (PayoutExceedsCandidateBalance miner_reward eligible_sum)
          else
            and_then (ok_or PayoutPolicyOverflow (u64_try_from_u128 eligible_sum)) (\<lambda>paid.
            and_then (ok_or PayoutPolicyOverflow (checked_sub miner_reward paid)) (\<lambda>swept_dust_sats.
            and_then (add_swept_dust_to_pool_fee pool_fee swept_dust_sats) (\<lambda>pool_fee.
            and_then (try_map (full_candidate accounts) eligible_indices) (\<lambda>amounts.
            Inr (amounts, pool_fee)))))
        else
          and_then (select_onchain_accounts accounts miner_reward min_output_sats) (\<lambda>emitted.
          and_then (allocate_weighted_amounts miner_reward
              (map (\<lambda>index. candidate_weight (accounts ! index)) emitted)) (\<lambda>amounts.
          Inr (amounts, pool_fee)))))"

definition account_matches :: "weighted_entitlement \<Rightarrow> payout_policy_account \<Rightarrow> bool" where
  "account_matches e account \<longleftrightarrow>
     acc_recipient_id account = ent_recipient_id e \<and> acc_order_key account = ent_order_key e \<and>
     acc_p2mr_program_hex account = ent_p2mr_program_hex e"

definition pay_account ::
    "u64 \<Rightarrow> u64 \<Rightarrow> payout_policy_account list \<Rightarrow> weighted_entitlement \<times> u64 \<Rightarrow>
     prism_error + payout_policy_account list" where
  "pay_account min_output_sats coinbase_value_sats accounts = (\<lambda>(e, amount_sats).
     if amount_sats < min_output_sats
     then Inl (PayoutBelowFloor (ent_recipient_id e) amount_sats min_output_sats)
     else
       case filter (\<lambda>i. account_matches e (accounts ! i)) [0..<length accounts] of
         [] \<Rightarrow> Inl (Panic ''selected on-chain account must exist'')
       | i # _ \<Rightarrow>
           let account = accounts ! i; candidate = acc_candidate_balance_sats account in
           if sint candidate < sint (i128_from_u64 amount_sats)
           then
             and_then (ok_or PayoutPolicyOverflow (u128_try_from_i128 candidate)) (\<lambda>balance.
             Inl (PayoutExceedsCandidateBalance coinbase_value_sats balance))
           else
             and_then (ok_or PayoutPolicyOverflow
                 (i128_checked_sub candidate (i128_from_u64 amount_sats))) (\<lambda>carry.
             Inr (accounts[i := account\<lparr>acc_onchain_amount_sats := amount_sats,
               acc_carry_forward_balance_sats := carry, acc_action := Onchain\<rparr>])))"

definition pool_fee_account :: "pool_fee_manifest \<Rightarrow> payout_policy_account" where
  "pool_fee_account fee =
     \<lparr>acc_account_type = PoolFee, acc_recipient_id = pfm_recipient_id fee,
      acc_order_key = pfm_order_key fee, acc_p2mr_program_hex = pfm_p2mr_program_hex fee,
      acc_gross_amount_sats = pfm_amount_sats fee, acc_prior_balance_sats = 0,
      acc_candidate_balance_sats = i128_from_u64 (pfm_amount_sats fee),
      acc_onchain_amount_sats = pfm_amount_sats fee, acc_settlement_fee_sats = 0,
      acc_carry_forward_balance_sats = 0, acc_action = Onchain\<rparr>"

definition push_pool_fee ::
    "pool_fee_manifest option \<Rightarrow> string set \<Rightarrow> payout_policy_account list \<Rightarrow>
     prism_error + payout_policy_account list" where
  "push_pool_fee pool_fee seen accounts =
     (case pool_fee of None \<Rightarrow> Inr accounts
      | Some fee \<Rightarrow>
          if payout_program_key (pfm_p2mr_program_hex fee) \<in> seen then Inl DuplicatePoolFeeAccount
          else Inr (accounts @ [pool_fee_account fee]))"

definition onchain_entitlements_of :: "payout_policy_account list \<Rightarrow> weighted_entitlement list" where
  "onchain_entitlements_of accounts =
     map (\<lambda>account. (candidate_weight account)\<lparr>ent_weight :=
            u128_from_u64 (acc_onchain_amount_sats account)\<rparr>)
       (filter (\<lambda>account. 0 < acc_onchain_amount_sats account) accounts)"

definition onchain_sum :: "weighted_entitlement list \<Rightarrow> prism_error + u64" where
  "onchain_sum =
     try_fold (\<lambda>sum e.
       and_then (ok_or PayoutPolicyOverflow (u64_try_from_u128 (ent_weight e))) (\<lambda>amount.
       ok_or PayoutPolicyOverflow (checked_add sum amount))) 0"

definition compare_accounts :: "payout_policy_account \<Rightarrow> payout_policy_account \<Rightarrow> ordering" where
  "compare_accounts left right =
     then_with (then_with
       (cmp (acc_order_key left) (acc_order_key right))
       (cmp (acc_recipient_id left) (acc_recipient_id right)))
       (cmp (acc_p2mr_program_hex left) (acc_p2mr_program_hex right))"

definition apply_payout_policy ::
    "prism_reward_manifest \<Rightarrow> carry_forward_balance list \<Rightarrow> payout_policy \<Rightarrow>
     prism_error + payout_policy_manifest" where
  "apply_payout_policy reward_manifest prior_balances policy =
     and_then (policy_min_output_sats policy) (\<lambda>min_output_sats.
     and_then (pool_fee_manifest_of (rm_coinbase_value_sats reward_manifest) policy) (\<lambda>pool_fee.
     if pp_coinbase_output_policy policy = PoolFeeFirst \<and> pool_fee = None
     then Inl PoolFeeFirstRequiresPoolFee
     else
       let fee_amount_sats = (case pool_fee of None \<Rightarrow> 0 | Some fee \<Rightarrow> pfm_amount_sats fee) in
       and_then (ok_or PayoutPolicyOverflow
           (checked_sub (rm_coinbase_value_sats reward_manifest) fee_amount_sats)) (\<lambda>miner_reward.
       if miner_reward < min_output_sats then Inl (CoinbaseBelowFloor miner_reward min_output_sats)
       else
         and_then (aggregate_entitlements_by_payout_program (rm_entitlements reward_manifest))
           (\<lambda>settlement_entitlements.
         and_then (allocate_weighted_amounts miner_reward settlement_entitlements) (\<lambda>gross_amounts.
         and_then (carry_forward_by_payout_program prior_balances) (\<lambda>prior_by_program.
         let seeds = map (seed_of_gross prior_by_program) gross_amounts;
             seen = set (map (\<lambda>(e, amount). payout_program_key (ent_p2mr_program_hex e)) gross_amounts);
             (carried, seen) = carried_seeds seen (bt_values prior_by_program) in
         and_then (try_map account_of_seed (seeds @ carried)) (\<lambda>accounts.
         and_then (onchain_plan accounts miner_reward min_output_sats pool_fee)
           (\<lambda>(onchain_amounts, pool_fee).
         and_then (try_fold (pay_account min_output_sats (rm_coinbase_value_sats reward_manifest))
             accounts onchain_amounts) (\<lambda>accounts.
         and_then (push_pool_fee pool_fee seen accounts) (\<lambda>accounts.
         let onchain_entitlements = onchain_entitlements_of accounts in
         and_then (onchain_sum onchain_entitlements) (\<lambda>onchain_total.
         if onchain_total \<noteq> rm_coinbase_value_sats reward_manifest then Inl PayoutPolicyOverflow
         else Inr \<lparr>ppm_schema = ''qbit.prism.payout-policy.v1'',
           ppm_block_height = rm_block_height reward_manifest,
           ppm_coinbase_value_sats = rm_coinbase_value_sats reward_manifest,
           ppm_min_output_sats = min_output_sats, ppm_floor_formula = floor_formula policy,
           ppm_coinbase_output_policy = pp_coinbase_output_policy policy,
           ppm_pool_fee = pool_fee, ppm_accounts = sort_by compare_accounts accounts,
           ppm_onchain_entitlements = onchain_entitlements\<rparr>)))))))))))"

definition pool_fee_first_output :: "payout_policy_manifest \<Rightarrow> pool_fee_manifest option" where
  "pool_fee_first_output manifest =
     (if ppm_coinbase_output_policy manifest \<noteq> PoolFeeFirst then None
      else case ppm_pool_fee manifest of
        None \<Rightarrow> None
      | Some fee \<Rightarrow> if 0 < pfm_amount_sats fee then Some fee else None)"

definition pinned_first_output_for_policy :: "payout_policy_manifest \<Rightarrow> pinned_first_output option" where
  "pinned_first_output_for_policy manifest =
     map_option (\<lambda>fee. \<lparr>pin_recipient_id = pfm_recipient_id fee, pin_order_key = pfm_order_key fee,
       pin_p2mr_program_hex = pfm_p2mr_program_hex fee\<rparr>) (pool_fee_first_output manifest)"

definition build_policy_coinbase_request_with_coinbase_options ::
    "prism_reward_manifest \<Rightarrow> carry_forward_balance list \<Rightarrow> payout_policy \<Rightarrow> string option \<Rightarrow>
     string list \<Rightarrow> prism_error + (coinbase_build_request \<times> payout_policy_manifest)" where
  "build_policy_coinbase_request_with_coinbase_options reward_manifest prior_balances policy
       suffix_hex leaves_hex =
     and_then (apply_payout_policy reward_manifest prior_balances policy) (\<lambda>manifest.
     Inr (\<lparr>req_block_height = rm_block_height reward_manifest,
           req_coinbase_value_sats = rm_coinbase_value_sats reward_manifest,
           req_entitlements = ppm_onchain_entitlements manifest,
           req_witness_nonce_hex = None, req_witness_merkle_leaves_hex = leaves_hex,
           req_coinbase_script_sig_suffix_hex = suffix_hex,
           req_pinned_first_output = pinned_first_output_for_policy manifest\<rparr>, manifest))"

definition build_policy_coinbase_request_with_coinbase_script_sig_suffix ::
    "prism_reward_manifest \<Rightarrow> carry_forward_balance list \<Rightarrow> payout_policy \<Rightarrow> string option \<Rightarrow>
     prism_error + (coinbase_build_request \<times> payout_policy_manifest)" where
  "build_policy_coinbase_request_with_coinbase_script_sig_suffix reward_manifest prior_balances policy
       suffix_hex =
     build_policy_coinbase_request_with_coinbase_options reward_manifest prior_balances policy
       suffix_hex []"

definition build_policy_coinbase_request ::
    "prism_reward_manifest \<Rightarrow> carry_forward_balance list \<Rightarrow> payout_policy \<Rightarrow>
     prism_error + (coinbase_build_request \<times> payout_policy_manifest)" where
  "build_policy_coinbase_request reward_manifest prior_balances policy =
     build_policy_coinbase_request_with_coinbase_script_sig_suffix reward_manifest prior_balances
       policy None"

definition build_prism_coinbase_request ::
    "accepted_share list \<Rightarrow> found_block \<Rightarrow> prism_error + (coinbase_build_request \<times> prism_window)" where
  "build_prism_coinbase_request shares found_block =
     and_then (compute_prism_window shares found_block) (\<lambda>window.
     Inr (\<lparr>req_block_height = fb_block_height found_block,
           req_coinbase_value_sats = fb_coinbase_value_sats found_block,
           req_entitlements = pw_entitlements window, req_witness_nonce_hex = None,
           req_witness_merkle_leaves_hex = [], req_coinbase_script_sig_suffix_hex = None,
           req_pinned_first_output = None\<rparr>, window))"

section \<open>The split is an apportionment\<close>

definition weighted_key ::
    "(weighted_entitlement \<times> u64 \<times> u128) list \<Rightarrow> nat \<Rightarrow> int \<times> string \<times> string \<times> string" where
  "weighted_key prov i =
     (- uint (snd (snd (prov ! i))), ent_order_key (fst (prov ! i)), ent_recipient_id (fst (prov ! i)),
      ent_p2mr_program_hex (fst (prov ! i)))"

interpretation wkey: key_order "compare_weighted prov" "weighted_key prov" for prov
  by unfold_locales
    (simp only: compare_weighted_def weighted_key_def then_with_assoc, subst cmp_flip,
      simp only: then_with_cmp)

interpretation wsplit: remainder_split "\<lambda>p. fst (snd p)" "\<lambda>p. snd (snd p)" bump_weighted
  "\<lambda>(e, amount, remainder). (e, amount + 1, remainder)" compare_weighted weighted_key
proof (unfold_locales, goal_cases)
  case (1 prov i j)
  then show ?case
    by (auto simp: weighted_key_def less_eq_prod_def word_le_nat_alt [symmetric] word_less_def
        word_le_def)
next
  case (2 p)
  then show ?case
    by (cases p) (simp add: bump_weighted_def checked_add_def)
next
  case (3 p)
  then show ?case
    by (cases p) (simp add: unat_word_ariths)
qed

definition is_shares ::
    "u64 \<Rightarrow> weighted_entitlement list \<Rightarrow> (weighted_entitlement \<times> u64 \<times> u128) list \<Rightarrow> bool" where
  "is_shares v es prov \<longleftrightarrow> length prov = length es \<and>
     (\<forall>i<length es. fst (prov ! i) = es ! i \<and>
        unat (fst (snd (prov ! i))) = share_floor (unat v) (ent_weights es) i \<and>
        unat (snd (snd (prov ! i))) = share_rem (unat v) (ent_weights es) i)"

lemma weighted_share_Inr:
  "weighted_share v t e = Inr p \<longleftrightarrow> unat v * unat (ent_weight e) < 2 ^ 128 \<and> fst p = e \<and>
     unat (fst (snd p)) = unat v * unat (ent_weight e) div unat t \<and>
     unat (snd (snd p)) = unat v * unat (ent_weight e) mod unat t"
proof (cases "checked_mul (u128_from_u64 v) (ent_weight e)")
  case None
  then show ?thesis
    by (auto simp: weighted_share_def result_simps checked_simps)
next
  case (Some q)
  then have "unat q = unat v * unat (ent_weight e)" and "unat v * unat (ent_weight e) < 2 ^ 128"
    by (simp_all add: checked_simps)
  moreover from this have "unat (q div t) = unat v * unat (ent_weight e) div unat t"
    "unat (q mod t) = unat v * unat (ent_weight e) mod unat t"
    by (simp_all add: unat_div unat_mod)
  ultimately show ?thesis
    using Some
    by (cases p) (auto simp: weighted_share_def Let_def result_simps u64_try_from_u128_Some
        word_unat_eq_iff)
qed

lemma is_sharesI:
  assumes "checked_sum PayoutPolicyOverflow (map ent_weight es) = Inr t"
    and "try_map (weighted_share v t) es = Inr prov"
  shows "is_shares v es prov"
proof -
  have "unat t = sum_list (ent_weights es)"
    using assms(1) by (simp add: result_simps)
  moreover have "list_all2 (\<lambda>e p. weighted_share v t e = Inr p) es prov"
    using assms(2) by (simp add: result_simps)
  ultimately show ?thesis
    by (auto simp: is_shares_def list_all2_conv_all_nth weighted_share_Inr share_floor_def share_rem_def)
qed

lemma hand_out:
  assumes shares: "is_shares v es prov" and pos: "0 < sum_list (ent_weights es)"
  shows "\<exists>s k out. checked_sum PayoutPolicyOverflow (map (\<lambda>p. fst (snd p)) prov) = Inr s \<and>
    checked_sub v s = Some k \<and>
    try_update_each bump_weighted (take (unat k) (sort_by (compare_weighted prov) [0..<length prov]))
      prov = Inr out \<and> length out = length es \<and> (\<forall>i<length es. fst (out ! i) = es ! i) \<and>
    hamilton (unat v) (ent_weights es) (map (unat \<circ> (\<lambda>p. fst (snd p))) out)"
proof -
  let ?F = "floor_sum (unat v) (ent_weights es)"
  have len: "length prov = length (ent_weights es)"
    using shares by (simp add: is_shares_def)
  have floors: "unat (fst (snd (prov ! i))) = share_floor (unat v) (ent_weights es) i"
    and rems: "unat (snd (snd (prov ! i))) = share_rem (unat v) (ent_weights es) i"
    if "i < length (ent_weights es)" for i
    using shares that by (simp_all add: is_shares_def)
  have "?F \<le> unat v"
    by (rule floor_sum_le) (rule pos)
  then have "?F < 2 ^ 64"
    using u64_lt [of v] by simp
  moreover from this obtain s :: u64 where s: "unat s = ?F"
    using ex_unat [where 'a = 64] by auto
  moreover have "sum_list (map unat (map (\<lambda>p. fst (snd p)) prov)) = ?F"
    using wsplit.floors_sum [OF len floors] by (simp add: comp_def)
  ultimately have sum: "checked_sum PayoutPolicyOverflow (map (\<lambda>p. fst (snd p)) prov) = Inr s"
    by (simp add: result_simps)
  obtain k where k: "checked_sub v s = Some k" and uk: "unat k = unat v - ?F"
    using \<open>?F \<le> unat v\<close> s by (cases "checked_sub v s") (auto simp: checked_simps)
  obtain out where out: "try_update_each bump_weighted
      (take (unat k) (sort_by (compare_weighted prov) [0..<length prov])) prov = Inr out"
    and "length out = length prov"
    and each: "\<forall>i<length prov. out ! i = prov ! i \<or>
      out ! i = (case prov ! i of (e, amount, remainder) \<Rightarrow> (e, amount + 1, remainder))"
    and ham: "hamilton (unat v) (ent_weights es) (map (unat \<circ> (\<lambda>p. fst (snd p))) out)"
    using wsplit.split [OF len pos _ floors rems] u64_lt [of v] by (auto simp: uk)
  have "fst (out ! i) = es ! i" if "i < length es" for i
    using each len that shares by (auto simp: is_shares_def case_prod_beta)
  then show ?thesis
    using sum k out ham \<open>length out = length prov\<close> len by auto
qed

lemma allocate_weighted_hamilton:
  assumes "allocate_weighted_amounts v es = Inr out"
  shows "hamilton (unat v) (ent_weights (map fst out)) (map (unat \<circ> snd) out)"
proof -
  let ?es = "sort_by compare_entitlements es"
  from assms obtain t prov s k prov' where t: "checked_sum PayoutPolicyOverflow (map ent_weight ?es) = Inr t"
    and "t \<noteq> 0" and prov: "try_map (weighted_share v t) ?es = Inr prov"
    and s: "checked_sum PayoutPolicyOverflow (map (\<lambda>p. fst (snd p)) prov) = Inr s"
    and k: "checked_sub v s = Some k"
    and upd: "try_update_each bump_weighted
      (take (unat k) (sort_by (compare_weighted prov) [0..<length prov])) prov = Inr prov'"
    and out: "out = map (\<lambda>(e, amount, remainder). (e, amount)) prov'"
    unfolding allocate_weighted_amounts_def Let_def
    by (auto simp: result_simps split: if_splits)
  have "0 < sum_list (ent_weights ?es)"
    using t \<open>t \<noteq> 0\<close> by (metis checked_sum_Inr list.map_comp neq0_conv unat_eq_0)
  from hand_out [OF is_sharesI [OF t prov] this] s k upd
  have "hamilton (unat v) (ent_weights ?es) (map (unat \<circ> (\<lambda>p. fst (snd p))) prov')"
    by auto
  moreover have "map (unat \<circ> snd) out = map (unat \<circ> (\<lambda>p. fst (snd p))) prov'"
    by (simp add: out case_prod_beta comp_def)
  ultimately show ?thesis
    by (simp add: allocate_weighted_entitlements [OF assms] del: map_map)
qed

interpretation weighted: apportioner "\<lambda>r. unat (fst r)" "\<lambda>out. ent_weights (map fst out)"
  "\<lambda>out. map (unat \<circ> snd) out" "\<lambda>r. allocate_weighted_amounts (fst r) (snd r)"
  by unfold_locales (rule allocate_weighted_hamilton)

lemma weighted_conserves:
  "allocate_weighted_amounts v es = Inr out \<Longrightarrow> sum_list (map (unat \<circ> snd) out) = unat v"
  using weighted.conserves [of "(v, es)" out] by simp

lemma mset_allocate_weighted:
  "allocate_weighted_amounts v es = Inr out \<Longrightarrow> mset (map fst out) = mset es"
  by (simp only: allocate_weighted_entitlements mset_sort_by)

section \<open>Grouping loses nothing\<close>

abbreviation slot_value :: "('v \<Rightarrow> int) \<Rightarrow> 'v option \<Rightarrow> int" where
  "slot_value f slot \<equiv> (case slot of None \<Rightarrow> 0 | Some v \<Rightarrow> f v)"

lemma sum_bt_put:
  "bt_ok m \<Longrightarrow> sum_list (map f (bt_values (bt_put k v m))) =
     sum_list (map f (bt_values m)) + f v - slot_value f (bt_get m k)"
proof (induction m)
  case (Cons kv m)
  have ok: "bt_ok m" and lt: "\<forall>j \<in> fst ` set m. fst kv < j"
    using Cons.prems by (auto simp: bt_ok_def)
  have "bt_get m k = None" if "k < fst kv"
    using that lt less_trans by (fastforce simp: bt_get_map_of map_of_eq_None_iff)
  then show ?case
    using Cons.IH [OF ok] by (auto simp: bt_values_def bt_entries_def)
qed (simp add: bt_values_def bt_entries_def)

lemma group_fold_sum:
  assumes "bt_ok m0"
    and "try_fold (\<lambda>m x. and_then (step x (bt_get m (kf x))) (\<lambda>v. Inr (bt_put (kf x) v m))) m0 xs = Inr m"
    and "\<And>x slot v. step x slot = Inr v \<Longrightarrow> f v = slot_value f slot + g x"
  shows "sum_list (map f (bt_values m)) = sum_list (map f (bt_values m0)) + sum_list (map g xs)"
  using assms(1,2)
proof (induction xs arbitrary: m0)
  case (Cons x xs)
  from Cons.prems(2) obtain v where v: "step x (bt_get m0 (kf x)) = Inr v"
    and rest: "try_fold (\<lambda>m x. and_then (step x (bt_get m (kf x))) (\<lambda>v. Inr (bt_put (kf x) v m)))
      (bt_put (kf x) v m0) xs = Inr m"
    by (auto simp: result_simps)
  show ?case
    using Cons.IH [OF bt_ok_put [OF Cons.prems(1)] rest] sum_bt_put [OF Cons.prems(1), of f "kf x" v]
      assms(3) [OF v] by simp
qed simp

lemma group_fold_all:
  assumes "bt_ok m0"
    and "try_fold (\<lambda>m x. and_then (step x (bt_get m (kf x))) (\<lambda>v. Inr (bt_put (kf x) v m))) m0 xs = Inr m"
    and "\<And>x slot v. step x slot = Inr v \<Longrightarrow> (\<And>w. slot = Some w \<Longrightarrow> P (kf x) w) \<Longrightarrow> P (kf x) v"
    and "\<And>k v. (k, v) \<in> set (bt_entries m0) \<Longrightarrow> P k v"
  shows "(k, v) \<in> set (bt_entries m) \<Longrightarrow> P k v"
proof -
  have "bt_ok m \<and> (\<forall>k v. bt_get m k = Some v \<longrightarrow> P k v)"
    using assms(1,2,4)
  proof (induction xs arbitrary: m0)
    case Nil
    then show ?case by (auto simp: bt.in_entries)
  next
    case (Cons x xs)
    from Cons.prems(2) obtain v where v: "step x (bt_get m0 (kf x)) = Inr v"
      and rest: "try_fold (\<lambda>m x. and_then (step x (bt_get m (kf x))) (\<lambda>v. Inr (bt_put (kf x) v m)))
        (bt_put (kf x) v m0) xs = Inr m"
      by (auto simp: result_simps)
    note ok = bt_ok_put [OF Cons.prems(1), of "kf x" v]
    show ?case
    proof (rule Cons.IH [OF ok rest])
      fix k w assume "(k, w) \<in> set (bt_entries (bt_put (kf x) v m0))"
      then have get: "bt_get (bt_put (kf x) v m0) k = Some w"
        by (simp add: bt.in_entries [OF ok])
      show "P k w"
      proof (cases "k = kf x")
        case True
        then have "w = v"
          using get bt_get_put [OF Cons.prems(1)] by simp
        moreover have "P (kf x) v"
          using v by (rule assms(3)) (use Cons.prems(3) bt.in_entries [OF Cons.prems(1)] in blast)
        ultimately show ?thesis using True by simp
      next
        case False
        then show ?thesis
          using get bt_get_put [OF Cons.prems(1)] Cons.prems(3) bt.in_entries [OF Cons.prems(1)] by simp
      qed
    qed
  qed
  then show "(k, v) \<in> set (bt_entries m) \<Longrightarrow> P k v"
    by (simp add: bt.in_entries)
qed

lemma bt_values_keys:
  assumes "bt_ok m" and "\<And>k v. (k, v) \<in> set (bt_entries m) \<Longrightarrow> kf v = k"
  shows "map kf (bt_values m) = map fst (bt_entries m)" and "distinct (map kf (bt_values m))"
proof -
  show eq: "map kf (bt_values m) = map fst (bt_entries m)"
    using assms(2) by (auto simp: bt_values_def)
  show "distinct (map kf (bt_values m))"
    unfolding eq by (rule bt.entries_distinct) (rule assms(1))
qed

abbreviation ent_program :: "weighted_entitlement \<Rightarrow> string" where
  "ent_program e \<equiv> payout_program_key (ent_p2mr_program_hex e)"

abbreviation cb_program :: "carry_forward_balance \<Rightarrow> string" where
  "cb_program b \<equiv> payout_program_key (cb_p2mr_program_hex b)"

lemma uint_add: "unat x = unat a + unat b \<Longrightarrow> uint x = uint a + uint b"
  by (metis of_nat_add uint_nat)

lemma sum_uint: "sum_list (map (\<lambda>x. uint (f x)) xs) = int (sum_list (map (unat \<circ> f) xs))"
  by (induction xs) auto

lemma merge_entitlement_Inr:
  assumes "merge_entitlement e slot = Inr v"
  shows "uint (ent_weight v) = slot_value (\<lambda>v. uint (ent_weight v)) slot + uint (ent_weight e)"
    and "(\<And>w. slot = Some w \<Longrightarrow> ent_program w = ent_program e) \<Longrightarrow> ent_program v = ent_program e"
  using assms uint_add [of _ 0 "ent_weight e"]
  by (auto simp: merge_entitlement_def Let_def result_simps checked_simps
      dest: uint_add split: option.splits if_splits)

lemma merge_balance_Inr:
  assumes "merge_balance b slot = Inr v"
  shows "sint (cb_balance_sats v) = slot_value (\<lambda>v. sint (cb_balance_sats v)) slot + sint (cb_balance_sats b)"
    and "(\<And>w. slot = Some w \<Longrightarrow> cb_program w = cb_program b) \<Longrightarrow> cb_program v = cb_program b"
  using assms by (auto simp: merge_balance_def Let_def result_simps checked_simps
      split: option.splits if_splits)

lemma entitlements_by_program:
  assumes "entitlements_by_program es = Inr m"
  shows "bt_ok m" and "(k, e) \<in> set (bt_entries m) \<Longrightarrow> ent_program e = k"
    and "sum_list (ent_weights (bt_values m)) = sum_list (ent_weights es)"
proof -
  note fold = assms [unfolded entitlements_by_program_def]
  show "bt_ok m"
    using bt.group_fold [OF bt_ok_Nil fold] by simp
  show "(k, e) \<in> set (bt_entries m) \<Longrightarrow> ent_program e = k"
    by (rule group_fold_all [OF bt_ok_Nil fold, where P = "\<lambda>k e. ent_program e = k"])
      (use merge_entitlement_Inr(2) in \<open>auto simp: bt_entries_def\<close>)
  have "sum_list (map (\<lambda>v. uint (ent_weight v)) (bt_values m)) =
      sum_list (map (\<lambda>v. uint (ent_weight v)) es)"
    using group_fold_sum [OF bt_ok_Nil fold merge_entitlement_Inr(1)]
    by (simp add: bt_values_def bt_entries_def)
  then have "int (sum_list (ent_weights (bt_values m))) = int (sum_list (ent_weights es))"
    by (simp only: sum_uint)
  then show "sum_list (ent_weights (bt_values m)) = sum_list (ent_weights es)"
    by (simp only: of_nat_eq_iff)
qed

lemma carry_forward_by_program:
  assumes "carry_forward_by_payout_program bs = Inr m"
  shows "bt_ok m" and "(k, b) \<in> set (bt_entries m) \<Longrightarrow> cb_program b = k"
    and "sum_list (map (sint \<circ> cb_balance_sats) (bt_values m)) =
      sum_list (map (sint \<circ> cb_balance_sats) bs)"
proof -
  note fold = assms [unfolded carry_forward_by_payout_program_def]
  show "bt_ok m"
    using bt.group_fold [OF bt_ok_Nil fold] by simp
  show "(k, b) \<in> set (bt_entries m) \<Longrightarrow> cb_program b = k"
    by (rule group_fold_all [OF bt_ok_Nil fold, where P = "\<lambda>k b. cb_program b = k"])
      (use merge_balance_Inr(2) in \<open>auto simp: bt_entries_def\<close>)
  show "sum_list (map (sint \<circ> cb_balance_sats) (bt_values m)) =
      sum_list (map (sint \<circ> cb_balance_sats) bs)"
    using group_fold_sum [OF bt_ok_Nil fold merge_balance_Inr(1)]
    by (simp add: bt_values_def bt_entries_def comp_def)
qed

section \<open>The accounts before payment\<close>

abbreviation acc_program :: "payout_policy_account \<Rightarrow> string" where
  "acc_program a \<equiv> payout_program_key (acc_p2mr_program_hex a)"

abbreviation seed_program :: "policy_account_seed \<Rightarrow> string" where
  "seed_program s \<equiv> payout_program_key (seed_p2mr_program_hex s)"

definition acc_triple :: "payout_policy_account \<Rightarrow> string \<times> string \<times> string" where
  "acc_triple a = (acc_order_key a, acc_recipient_id a, acc_p2mr_program_hex a)"

interpretation accs: key_order compare_accounts acc_triple
  by unfold_locales
    (simp only: compare_accounts_def acc_triple_def then_with_assoc, simp only: then_with_cmp)

lemma carried_seeds_keys:
  "carried_seeds seen bs = (seeds, seen') \<Longrightarrow>
     seen' = seen \<union> cb_program ` set bs \<and> distinct (map seed_program seeds) \<and>
     seed_program ` set seeds = cb_program ` set bs - seen \<and>
     (\<forall>seed \<in> set seeds. seed_gross_amount_sats seed = 0)"
proof (induction seen bs arbitrary: seeds seen' rule: carried_seeds.induct)
  case (2 seen b bs)
  show ?case
  proof (cases "cb_program b \<in> seen")
    case True
    then show ?thesis
      using 2(1) [OF refl True, of seeds seen'] 2(3) by auto
  next
    case False
    obtain rest seen'' where rest: "carried_seeds (insert (cb_program b) seen) bs = (rest, seen'')"
      by fastforce
    note IH = 2(2) [OF refl False rest]
    from IH have "\<forall>s \<in> set rest. seed_program s \<in> cb_program ` set bs - insert (cb_program b) seen"
      by blast
    with IH 2(3) False rest show ?thesis
      by auto
  qed
qed simp

lemma carried_seeds_sum:
  assumes "carried_seeds seen bs = (seeds, seen')" and "distinct (map cb_program bs)"
  shows "sum_list (map (sint \<circ> seed_prior_balance_sats) seeds) =
    sum_list (map (sint \<circ> cb_balance_sats) (filter (\<lambda>b. cb_program b \<notin> seen) bs))"
  using assms
proof (induction seen bs arbitrary: seeds seen' rule: carried_seeds.induct)
  case (2 seen b bs)
  show ?case
  proof (cases "cb_program b \<in> seen")
    case True
    then show ?thesis
      using 2(1) [OF refl True, of seeds seen'] 2(3,4) by simp
  next
    case False
    obtain rest seen'' where rest: "carried_seeds (insert (cb_program b) seen) bs = (rest, seen'')"
      by fastforce
    have "filter (\<lambda>b'. cb_program b' \<notin> insert (cb_program b) seen) bs =
        filter (\<lambda>b'. cb_program b' \<notin> seen) bs"
      using 2(4) by (intro filter_cong) (auto simp: image_iff)
    then show ?thesis
      using 2(2) [OF refl False rest] 2(3,4) False rest by auto
  qed
qed simp

lemma sum_indicator: "distinct ks \<Longrightarrow>
    sum_list (map (\<lambda>k. if k = j then c else 0 :: int) ks) = (if j \<in> set ks then c else 0)"
  by (induction ks) auto

lemma lookup_sum:
  assumes "bt_ok m" and "distinct ks" and "\<And>k v. (k, v) \<in> set (bt_entries m) \<Longrightarrow> kf v = k"
  shows "sum_list (map (\<lambda>k. slot_value f (bt_get m k)) ks) =
    sum_list (map f (filter (\<lambda>v. kf v \<in> set ks) (bt_values m)))"
  using assms(1,3)
proof (induction m)
  case (Cons kv m)
  have ok: "bt_ok m" and lt: "\<forall>j \<in> fst ` set m. fst kv < j"
    using Cons.prems(1) by (auto simp: bt_ok_def)
  have none: "bt_get m (fst kv) = None"
    using lt by (auto simp: bt_get_map_of map_of_eq_None_iff)
  have "(\<lambda>k. slot_value f (bt_get (kv # m) k)) =
      (\<lambda>k. (if k = fst kv then f (snd kv) else 0) + slot_value f (bt_get m k))"
    using none by (auto simp: fun_eq_iff)
  then have "sum_list (map (\<lambda>k. slot_value f (bt_get (kv # m) k)) ks) =
      (if fst kv \<in> set ks then f (snd kv) else 0) + sum_list (map (\<lambda>k. slot_value f (bt_get m k)) ks)"
    by (simp only: sum_list_addf sum_indicator [OF assms(2)])
  moreover have "kf (snd kv) = fst kv"
    using Cons.prems(2) [of "fst kv" "snd kv"] by (simp add: bt_entries_def)
  moreover have "sum_list (map (\<lambda>k. slot_value f (bt_get m k)) ks) =
      sum_list (map f (filter (\<lambda>v. kf v \<in> set ks) (bt_values m)))"
    using Cons.IH [OF ok] Cons.prems(2) by (simp add: bt_entries_def)
  ultimately show ?case
    by (simp add: bt_values_def bt_entries_def)
qed (simp add: bt_values_def bt_entries_def)

lemma filter_split_sum:
  "sum_list (map f (filter P xs)) + sum_list (map f (filter (\<lambda>x. \<not> P x) xs)) = (sum_list (map f xs) :: int)"
  by (induction xs) auto

text \<open>What is known of the accounts a block starts with.\<close>

definition fresh_account :: "payout_policy_account \<Rightarrow> bool" where
  "fresh_account a \<longleftrightarrow> acc_account_type a = Miner \<and> acc_onchain_amount_sats a = 0 \<and>
     acc_settlement_fee_sats a = 0 \<and> acc_action a = Accrued \<and>
     sint (acc_candidate_balance_sats a) = sint (acc_prior_balance_sats a) + uint (acc_gross_amount_sats a) \<and>
     acc_carry_forward_balance_sats a = acc_candidate_balance_sats a"

lemma account_of_seed_Inr:
  assumes "account_of_seed seed = Inr a"
  shows "fresh_account a" and "acc_p2mr_program_hex a = seed_p2mr_program_hex seed"
    and "acc_gross_amount_sats a = seed_gross_amount_sats seed"
    and "acc_prior_balance_sats a = seed_prior_balance_sats seed"
    and "acc_triple a = (seed_order_key seed, seed_recipient_id seed, seed_p2mr_program_hex seed)"
  using assms by (auto simp: account_of_seed_def fresh_account_def acc_triple_def result_simps checked_simps)

lemma list_all2_map_eq:
  "list_all2 R xs ys \<Longrightarrow> (\<And>x y. R x y \<Longrightarrow> f x = g y) \<Longrightarrow> map f xs = map g ys"
  by (induction rule: list_all2_induct) auto

lemma accounts_of_seeds:
  assumes "try_map account_of_seed seeds = Inr accounts"
  shows "\<forall>a \<in> set accounts. fresh_account a"
    and "map acc_program accounts = map seed_program seeds"
    and "map acc_gross_amount_sats accounts = map seed_gross_amount_sats seeds"
    and "map acc_prior_balance_sats accounts = map seed_prior_balance_sats seeds"
proof -
  have all: "list_all2 (\<lambda>seed a. account_of_seed seed = Inr a) seeds accounts"
    using assms by (simp add: result_simps)
  then show "\<forall>a \<in> set accounts. fresh_account a"
    unfolding list_all2_conv_all_nth all_set_conv_all_nth using account_of_seed_Inr(1) by metis
  show "map acc_program accounts = map seed_program seeds"
    "map acc_gross_amount_sats accounts = map seed_gross_amount_sats seeds"
    "map acc_prior_balance_sats accounts = map seed_prior_balance_sats seeds"
    by (rule sym, rule list_all2_map_eq [OF all], simp add: account_of_seed_Inr)+
qed

definition start_accounts ::
    "prism_reward_manifest \<Rightarrow> carry_forward_balance list \<Rightarrow> u64 \<Rightarrow>
     prism_error + (payout_policy_account list \<times> string set)" where
  "start_accounts reward_manifest prior_balances miner_reward =
     and_then (aggregate_entitlements_by_payout_program (rm_entitlements reward_manifest)) (\<lambda>es.
     and_then (allocate_weighted_amounts miner_reward es) (\<lambda>gross_amounts.
     and_then (carry_forward_by_payout_program prior_balances) (\<lambda>prior_by_program.
     let seeds = map (seed_of_gross prior_by_program) gross_amounts;
         seen = set (map (\<lambda>(e, amount). ent_program e) gross_amounts);
         (carried, seen) = carried_seeds seen (bt_values prior_by_program) in
     and_then (try_map account_of_seed (seeds @ carried)) (\<lambda>accounts. Inr (accounts, seen)))))"

lemma start_accounts:
  assumes "start_accounts rm bs reward = Inr (accounts, seen)"
  shows "\<forall>a \<in> set accounts. fresh_account a" and "distinct (map acc_program accounts)"
    and "acc_program ` set accounts = seen"
    and "sum_list (map (unat \<circ> acc_gross_amount_sats) accounts) = unat reward"
    and "sum_list (map (sint \<circ> acc_prior_balance_sats) accounts) = sum_list (map (sint \<circ> cb_balance_sats) bs)"
proof -
  from assms obtain m gross prior where m: "entitlements_by_program (rm_entitlements rm) = Inr m"
    and gross: "allocate_weighted_amounts reward (bt_values m) = Inr gross"
    and prior: "carry_forward_by_payout_program bs = Inr prior"
    and rest: "(case carried_seeds (set (map (\<lambda>(e, amount). ent_program e) gross)) (bt_values prior) of
        (carried, seen) \<Rightarrow> and_then (try_map account_of_seed (map (seed_of_gross prior) gross @ carried))
          (\<lambda>accounts. Inr (accounts, seen))) = Inr (accounts, seen)"
    by (auto simp: start_accounts_def aggregate_entitlements_by_payout_program_def Let_def and_then_Inr)
  from rest obtain carried where
    carried: "carried_seeds (set (map (\<lambda>(e, amount). ent_program e) gross)) (bt_values prior) = (carried, seen)"
    and accs: "try_map account_of_seed (map (seed_of_gross prior) gross @ carried) = Inr accounts"
    by (cases "carried_seeds (set (map (\<lambda>(e, amount). ent_program e) gross)) (bt_values prior)")
      (auto simp: and_then_Inr)
  note em = entitlements_by_program [OF m] and cm = carry_forward_by_program [OF prior]
  note acc = accounts_of_seeds [OF accs]
  let ?progs = "map (\<lambda>(e, amount). ent_program e) gross"
  have progs: "?progs = map ent_program (map fst gross)"
    by (simp add: case_prod_beta comp_def)
  have "distinct (map ent_program (bt_values m))"
    by (rule bt_values_keys(2) [OF em(1,2)])
  then have dist: "distinct ?progs"
    unfolding progs using mset_allocate_weighted [OF gross]
    by (metis mset_eq_imp_distinct_iff mset_map)
  have seeds: "map seed_program (map (seed_of_gross prior) gross) = ?progs"
    by (simp add: seed_of_gross_def case_prod_beta comp_def)
  note ck = carried_seeds_keys [OF carried]
  have progs_acc: "map acc_program accounts = ?progs @ map seed_program carried"
    using acc(2) seeds by (simp only: map_append)
  show "\<forall>a \<in> set accounts. fresh_account a" by (rule acc(1))
  show "distinct (map acc_program accounts)"
    using dist ck by (auto simp: progs_acc simp flip: set_map)
  have "acc_program ` set accounts = set ?progs \<union> seed_program ` set carried"
    using arg_cong [OF progs_acc, of set] by simp
  then show "acc_program ` set accounts = seen"
    using ck by auto
  have zero: "map (unat \<circ> seed_gross_amount_sats) carried = map (\<lambda>_. 0) carried"
    using ck by simp
  have "sum_list (map (unat \<circ> acc_gross_amount_sats) accounts) =
      sum_list (map unat (map seed_gross_amount_sats (map (seed_of_gross prior) gross @ carried)))"
    by (simp only: acc(3) [symmetric] list.map_comp)
  also have "\<dots> = sum_list (map (unat \<circ> snd) gross) + sum_list (map (unat \<circ> seed_gross_amount_sats) carried)"
    by (simp add: seed_of_gross_def case_prod_beta comp_def)
  also have "\<dots> = unat reward"
    by (simp only: zero weighted_conserves [OF gross]) simp
  finally show "sum_list (map (unat \<circ> acc_gross_amount_sats) accounts) = unat reward" .
  have "sum_list (map (sint \<circ> acc_prior_balance_sats) accounts) =
      sum_list (map sint (map seed_prior_balance_sats (map (seed_of_gross prior) gross @ carried)))"
    by (simp only: acc(4) [symmetric] list.map_comp)
  also have "\<dots> = sum_list (map (\<lambda>k. slot_value (sint \<circ> cb_balance_sats) (bt_get prior k)) ?progs) +
      sum_list (map (sint \<circ> seed_prior_balance_sats) carried)"
    by (simp add: seed_of_gross_def case_prod_beta comp_def)
      (auto intro!: arg_cong [of _ _ sum_list] split: option.splits)
  also have "\<dots> = sum_list (map (sint \<circ> cb_balance_sats) (bt_values prior))"
    using lookup_sum [OF cm(1) dist cm(2), where f = "sint \<circ> cb_balance_sats"]
      carried_seeds_sum [OF carried bt_values_keys(2) [OF cm(1,2)]]
      filter_split_sum [of "sint \<circ> cb_balance_sats" "\<lambda>b. cb_program b \<in> set ?progs" "bt_values prior"]
    by simp
  finally show "sum_list (map (sint \<circ> acc_prior_balance_sats) accounts) =
      sum_list (map (sint \<circ> cb_balance_sats) bs)"
    by (simp only: cm(3))
qed

section \<open>Paying the plan\<close>

definition paid :: "payout_policy_account \<Rightarrow> u64 \<Rightarrow> payout_policy_account" where
  "paid account amount_sats = account\<lparr>acc_onchain_amount_sats := amount_sats,
     acc_carry_forward_balance_sats :=
       word_of_int (sint (acc_candidate_balance_sats account) - uint amount_sats),
     acc_action := Onchain\<rparr>"

abbreviation plan_map :: "(weighted_entitlement \<times> u64) list \<Rightarrow> (string \<times> string \<times> string) \<Rightarrow> u64 option" where
  "plan_map plan \<equiv> map_of (map (\<lambda>(e, amount). (ent_key e, amount)) plan)"

definition pay_by :: "(weighted_entitlement \<times> u64) list \<Rightarrow> payout_policy_account \<Rightarrow> payout_policy_account" where
  "pay_by plan account =
     (case plan_map plan (acc_triple account) of None \<Rightarrow> account | Some amount \<Rightarrow> paid account amount)"

lemma paid_simps [simp]:
  "acc_triple (paid a n) = acc_triple a" "acc_candidate_balance_sats (paid a n) = acc_candidate_balance_sats a"
  "acc_onchain_amount_sats (paid a n) = n" "acc_p2mr_program_hex (paid a n) = acc_p2mr_program_hex a"
  "acc_account_type (paid a n) = acc_account_type a" "acc_prior_balance_sats (paid a n) = acc_prior_balance_sats a"
  "acc_gross_amount_sats (paid a n) = acc_gross_amount_sats a"
  by (simp_all add: paid_def acc_triple_def)

lemma account_matches_iff: "account_matches e a \<longleftrightarrow> acc_triple a = ent_key e"
  by (auto simp: account_matches_def acc_triple_def ent_key_def)

lemma unique_match:
  assumes "distinct (map acc_triple accounts)" and "i < length accounts" and "acc_triple (accounts ! i) = t"
  shows "filter (\<lambda>j. acc_triple (accounts ! j) = t) [0..<length accounts] = [i]"
proof -
  have "filter (\<lambda>j. acc_triple (accounts ! j) = t) [0..<length accounts] =
      filter (\<lambda>j. j = i) [0..<length accounts]"
    using assms by (intro filter_cong) (auto simp: distinct_conv_nth)
  also have "\<dots> = [i]"
  proof -
    have "distinct (filter (\<lambda>j. j = i) [0..<length accounts])"
      "set (filter (\<lambda>j. j = i) [0..<length accounts]) = {i}"
      using assms(2) by auto
    then show ?thesis
      by (metis distinct.simps(2) distinct_length_2_or_more empty_set insert_not_empty list.exhaust
          list.set_intros(1) list.set_intros(2) singletonD)
  qed
  finally show ?thesis .
qed

lemma pay_account_Inr:
  assumes dist: "distinct (map acc_triple accounts)"
    and pay: "pay_account mn cv accounts (e, amount) = Inr accounts'"
  shows "mn \<le> amount" and "\<exists>a \<in> set accounts. acc_triple a = ent_key e \<and>
      uint amount \<le> sint (acc_candidate_balance_sats a)"
    and "accounts' = map (\<lambda>a. if acc_triple a = ent_key e then paid a amount else a) accounts"
proof -
  from pay show "mn \<le> amount"
    by (auto simp: pay_account_def split: if_splits)
  let ?hits = "filter (\<lambda>i. account_matches e (accounts ! i)) [0..<length accounts]"
  from pay obtain i rest where hits: "?hits = i # rest"
    by (auto simp: pay_account_def split: if_splits list.splits)
  then have "i \<in> set ?hits" by simp
  then have i: "i < length accounts" "acc_triple (accounts ! i) = ent_key e"
    by (auto simp: account_matches_iff)
  from pay hits have le: "uint amount \<le> sint (acc_candidate_balance_sats (accounts ! i))"
    and carry: "\<exists>c. i128_checked_sub (acc_candidate_balance_sats (accounts ! i)) (i128_from_u64 amount) = Some c \<and>
      accounts' = accounts[i := (accounts ! i)\<lparr>acc_onchain_amount_sats := amount,
        acc_carry_forward_balance_sats := c, acc_action := Onchain\<rparr>]"
    by (auto simp: pay_account_def Let_def result_simps not_less split: if_splits)
  show "\<exists>a \<in> set accounts. acc_triple a = ent_key e \<and> uint amount \<le> sint (acc_candidate_balance_sats a)"
    using i le by auto
  from carry have "accounts' = accounts[i := paid (accounts ! i) amount]"
    by (auto simp: i128_checked_sub_def paid_def Let_def split: if_splits)
  also have "\<dots> = map (\<lambda>a. if acc_triple a = ent_key e then paid a amount else a) accounts"
  proof (rule nth_equalityI)
    fix j assume "j < length (accounts[i := paid (accounts ! i) amount])"
    moreover from this have "acc_triple (accounts ! j) = ent_key e \<longleftrightarrow> j = i"
      using i nth_eq_iff_index_eq [OF dist, of i j] by auto
    ultimately show "accounts[i := paid (accounts ! i) amount] ! j =
        map (\<lambda>a. if acc_triple a = ent_key e then paid a amount else a) accounts ! j"
      by (auto simp: nth_list_update)
  qed simp
  finally show "accounts' = map (\<lambda>a. if acc_triple a = ent_key e then paid a amount else a) accounts" .
qed

lemma pay_plan:
  assumes "distinct (map acc_triple accounts)" and "distinct (map (ent_key \<circ> fst) plan)"
    and "try_fold (pay_account mn cv) accounts plan = Inr accounts'"
  shows "accounts' = map (pay_by plan) accounts \<and>
    (\<forall>(e, amount) \<in> set plan. mn \<le> amount \<and>
      (\<exists>a \<in> set accounts. acc_triple a = ent_key e \<and> uint amount \<le> sint (acc_candidate_balance_sats a)))"
  using assms
proof (induction plan arbitrary: accounts)
  case Nil
  then show ?case by (simp add: pay_by_def)
next
  case (Cons p plan)
  obtain e amount where p: "p = (e, amount)" by (cases p)
  from Cons.prems(3) obtain mid where mid: "pay_account mn cv accounts (e, amount) = Inr mid"
    and rest: "try_fold (pay_account mn cv) mid plan = Inr accounts'"
    by (auto simp: p result_simps)
  note one = pay_account_Inr [OF Cons.prems(1) mid]
  have triples: "map acc_triple mid = map acc_triple accounts"
    by (simp add: one(3))
  have cand: "acc_candidate_balance_sats a' = acc_candidate_balance_sats a" if
    "a' = (if acc_triple a = ent_key e then paid a amount else a)" for a a'
    using that by simp
  have IH: "accounts' = map (pay_by plan) mid \<and>
    (\<forall>(e, amount) \<in> set plan. mn \<le> amount \<and>
      (\<exists>a \<in> set mid. acc_triple a = ent_key e \<and> uint amount \<le> sint (acc_candidate_balance_sats a)))"
    using Cons.IH [OF _ _ rest] Cons.prems(1,2) triples by simp
  have "plan_map plan (ent_key e) = None"
    using Cons.prems(2) by (force simp: p map_of_eq_None_iff)
  then have "pay_by plan (if acc_triple a = ent_key e then paid a amount else a) = pay_by (p # plan) a" for a
    by (simp add: pay_by_def p)
  then have "map (pay_by plan) mid = map (pay_by (p # plan)) accounts"
    by (simp add: one(3))
  moreover have "\<forall>(e, amount) \<in> set plan. mn \<le> amount \<and> (\<exists>a \<in> set accounts. acc_triple a = ent_key e \<and>
      uint amount \<le> sint (acc_candidate_balance_sats a))"
  proof (rule ballI, clarify)
    fix e' n assume "(e', n) \<in> set plan"
    with IH obtain a where "mn \<le> n" "a \<in> set mid" "acc_triple a = ent_key e'"
      "uint n \<le> sint (acc_candidate_balance_sats a)"
      by fast
    then show "mn \<le> n \<and> (\<exists>a \<in> set accounts. acc_triple a = ent_key e' \<and>
        uint n \<le> sint (acc_candidate_balance_sats a))"
      by (auto simp: one(3) split: if_splits)
  qed
  ultimately show ?case
    using IH one(1,2) by (simp add: p)
qed

lemma sum_by_key:
  assumes "distinct (map k xs)" and "distinct (map fst ps)" and "fst ` set ps \<subseteq> k ` set xs"
  shows "sum_list (map (\<lambda>x. case map_of ps (k x) of None \<Rightarrow> 0 | Some v \<Rightarrow> f v) xs) =
    (sum_list (map (f \<circ> snd) ps) :: int)"
  using assms(2,3)
proof (induction ps)
  case (Cons p ps)
  have none: "map_of ps (fst p) = None"
    using Cons.prems(1) by (simp add: map_of_eq_None_iff)
  have "(\<lambda>x. case map_of (p # ps) (k x) of None \<Rightarrow> 0 | Some v \<Rightarrow> f v) =
      (\<lambda>x. (if k x = fst p then f (snd p) else 0) + (case map_of ps (k x) of None \<Rightarrow> 0 | Some v \<Rightarrow> f v))"
    using none by (auto simp: fun_eq_iff)
  moreover have "sum_list (map (\<lambda>x. if k x = fst p then f (snd p) else 0) xs) = f (snd p)"
    using sum_indicator [OF assms(1), of "fst p" "f (snd p)"] Cons.prems(2) by (simp add: comp_def)
  ultimately show ?case
    using Cons.IH Cons.prems by (simp add: sum_list_addf)
qed simp

section \<open>What the plan pays\<close>

abbreviation plan_total :: "(weighted_entitlement \<times> u64) list \<Rightarrow> int" where
  "plan_total plan \<equiv> sum_list (map (uint \<circ> snd) plan)"

definition swept_of :: "pool_fee_manifest option \<Rightarrow> int" where
  "swept_of fee = (case fee of None \<Rightarrow> 0 | Some f \<Rightarrow> uint (pfm_swept_dust_liability_sats f))"

definition earned_of :: "pool_fee_manifest option \<Rightarrow> int" where
  "earned_of fee = (case fee of None \<Rightarrow> 0 | Some f \<Rightarrow> uint (pfm_earned_pool_fee_sats f))"

definition fee_of :: "pool_fee_manifest option \<Rightarrow> int" where
  "fee_of fee = (case fee of None \<Rightarrow> 0 | Some f \<Rightarrow> uint (pfm_amount_sats f))"

lemma add_swept_Inr:
  assumes "add_swept_dust_to_pool_fee fee n = Inr fee'" and "fee_of fee = earned_of fee + swept_of fee"
  shows "swept_of fee' = swept_of fee + uint n" and "earned_of fee' = earned_of fee"
    and "fee_of fee' = earned_of fee' + swept_of fee'"
proof -
  have "swept_of fee' = swept_of fee + uint n \<and> earned_of fee' = earned_of fee \<and>
    fee_of fee' = earned_of fee' + swept_of fee'"
  proof (cases "n = 0")
    case True
    then show ?thesis
      using assms by (simp add: add_swept_dust_to_pool_fee_def)
  next
    case False
    with assms(1) obtain f sw am where fee: "fee = Some f"
      and sw: "checked_add (pfm_swept_dust_liability_sats f) n = Some sw"
      and am: "checked_add (pfm_earned_pool_fee_sats f) sw = Some am"
      and fee': "fee' = Some (f\<lparr>pfm_swept_dust_liability_sats := sw, pfm_amount_sats := am\<rparr>)"
      by (auto simp: add_swept_dust_to_pool_fee_def result_simps)
    have "uint sw = uint (pfm_swept_dust_liability_sats f) + uint n"
      "uint am = uint (pfm_earned_pool_fee_sats f) + uint sw"
      using sw am by (auto intro!: uint_add simp: checked_add_Some)
    then show ?thesis
      by (simp add: fee fee' swept_of_def earned_of_def fee_of_def)
  qed
  then show "swept_of fee' = swept_of fee + uint n" and "earned_of fee' = earned_of fee"
    and "fee_of fee' = earned_of fee' + swept_of fee'"
    by simp_all
qed

lemma ent_key_candidate [simp]: "ent_key (candidate_weight a) = acc_triple a"
  "ent_key (e\<lparr>ent_weight := w\<rparr>) = ent_key e"
  by (simp_all add: ent_key_def candidate_weight_def acc_triple_def)

lemma distinct_triples:
  assumes "distinct (map acc_program accounts)"
  shows "distinct (map acc_triple accounts)"
proof -
  have "map acc_program accounts = map (\<lambda>t. payout_program_key (snd (snd t))) (map acc_triple accounts)"
    by (simp add: acc_triple_def comp_def)
  then show ?thesis
    using assms by (metis distinct_map)
qed

lemma distinct_by_index:
  assumes "distinct (map k accounts)" and "distinct is" and "\<forall>i \<in> set is. i < length accounts"
  shows "distinct (map (\<lambda>i. k (accounts ! i)) is)"
proof -
  have "inj_on (\<lambda>i. k (accounts ! i)) (set is)"
    using assms(1,3) nth_eq_iff_index_eq [OF assms(1)] by (auto simp: inj_on_def)
  then show ?thesis
    using assms(2) by (simp add: distinct_map)
qed

lemma selected_sum_fold:
  "try_fold (\<lambda>sum index. and_then (ok_or PayoutPolicyOverflow
       (u128_try_from_i128 (acc_candidate_balance_sats (accounts ! index)))) (\<lambda>candidate_balance.
     ok_or PayoutPolicyOverflow (checked_add sum candidate_balance))) s0 is = Inr s \<Longrightarrow>
   uint s = uint s0 + sum_list (map (\<lambda>i. sint (acc_candidate_balance_sats (accounts ! i))) is)"
proof (induction "is" arbitrary: s0)
  case (Cons i "is")
  let ?c = "acc_candidate_balance_sats (accounts ! i)"
  from Cons.prems obtain s1 where c: "sint ?c = uint ?c" and s1: "unat s1 = unat s0 + unat ?c"
    and rest: "try_fold (\<lambda>sum index. and_then (ok_or PayoutPolicyOverflow
       (u128_try_from_i128 (acc_candidate_balance_sats (accounts ! index)))) (\<lambda>candidate_balance.
     ok_or PayoutPolicyOverflow (checked_add sum candidate_balance))) s1 is = Inr s"
    by (auto simp: result_simps checked_simps)
  show ?case
    using Cons.IH [OF rest] uint_add [OF s1] c by simp
qed simp

lemma selected_sum:
  "selected_candidate_balance_sum accounts is = Inr s \<Longrightarrow>
   uint s = sum_list (map (\<lambda>i. sint (acc_candidate_balance_sats (accounts ! i))) is)"
  unfolding selected_candidate_balance_sum_def by (drule selected_sum_fold) simp

lemma select_loop_Inr:
  assumes "select_onchain_loop accounts v mn selected = Inr sel"
  shows "set sel \<subseteq> set selected" and "distinct selected \<Longrightarrow> distinct sel" and "sel \<noteq> []"
    and "\<exists>alloc. allocate_weighted_amounts v (map (\<lambda>i. candidate_weight (accounts ! i)) sel) = Inr alloc \<and>
      (\<forall>(e, amount) \<in> set alloc. mn \<le> amount)"
    and "uint v \<le> sum_list (map (\<lambda>i. sint (acc_candidate_balance_sats (accounts ! i))) sel)"
proof -
  have "set sel \<subseteq> set selected \<and> (distinct selected \<longrightarrow> distinct sel) \<and> sel \<noteq> [] \<and>
    (\<exists>alloc. allocate_weighted_amounts v (map (\<lambda>i. candidate_weight (accounts ! i)) sel) = Inr alloc \<and>
      (\<forall>(e, amount) \<in> set alloc. mn \<le> amount)) \<and>
    uint v \<le> sum_list (map (\<lambda>i. sint (acc_candidate_balance_sats (accounts ! i))) sel)"
    using assms
  proof (induction accounts v mn selected rule: select_onchain_loop.induct)
    case (1 accounts v mn selected)
    from "1.prems" obtain balance alloc where ne: "selected \<noteq> []"
      and balance: "selected_candidate_balance_sum accounts selected = Inr balance"
      and enough: "\<not> balance < u128_from_u64 v"
      and alloc: "allocate_weighted_amounts v (map (\<lambda>i. candidate_weight (accounts ! i)) selected) = Inr alloc"
      by (auto simp: select_onchain_loop.simps [of accounts v mn selected] result_simps split: if_splits)
    show ?case
    proof (cases "under_floor_keys alloc mn = []")
      case True
      then have "sel = selected"
        using "1.prems" ne balance enough alloc by (simp add: select_onchain_loop.simps [of _ _ _ selected])
      moreover have "\<forall>(e, amount) \<in> set alloc. mn \<le> amount"
        using True by (auto simp: under_floor_keys_def filter_empty_conv not_less)
      moreover have "uint v \<le> uint balance"
        using enough by (simp add: not_less word_le_nat_alt) (metis of_nat_le_iff uint_nat)
      ultimately show ?thesis
        using ne alloc selected_sum [OF balance] by auto
    next
      case False
      let ?kept = "filter (\<lambda>index. entitlement_account_key (candidate_weight (accounts ! index))
                       \<notin> set (under_floor_keys alloc mn)) selected"
      have "select_onchain_loop accounts v mn ?kept = Inr sel"
        using "1.prems" ne balance enough alloc False
        by (simp add: select_onchain_loop.simps [of _ _ _ selected])
      then show ?thesis
        using "1.IH" [OF ne balance enough alloc refl False] by auto
    qed
  qed
  then show "set sel \<subseteq> set selected" and "distinct selected \<Longrightarrow> distinct sel" and "sel \<noteq> []"
    and "\<exists>alloc. allocate_weighted_amounts v (map (\<lambda>i. candidate_weight (accounts ! i)) sel) = Inr alloc \<and>
      (\<forall>(e, amount) \<in> set alloc. mn \<le> amount)"
    and "uint v \<le> sum_list (map (\<lambda>i. sint (acc_candidate_balance_sats (accounts ! i))) sel)"
    by simp_all
qed

lemma full_candidates:
  assumes "try_map (full_candidate accounts) is = Inr plan"
  shows "map (ent_key \<circ> fst) plan = map (\<lambda>i. acc_triple (accounts ! i)) is"
    and "plan_total plan = sum_list (map (\<lambda>i. sint (acc_candidate_balance_sats (accounts ! i))) is)"
proof -
  have all: "list_all2 (\<lambda>i p. full_candidate accounts i = Inr p) is plan"
    using assms by (simp add: result_simps)
  show "map (ent_key \<circ> fst) plan = map (\<lambda>i. acc_triple (accounts ! i)) is"
    by (rule sym, rule list_all2_map_eq [OF all]) (auto simp: full_candidate_def result_simps)
  have "map (uint \<circ> snd) plan = map (\<lambda>i. sint (acc_candidate_balance_sats (accounts ! i))) is"
    by (rule sym, rule list_all2_map_eq [OF all]) (auto simp: full_candidate_def result_simps checked_simps)
  then show "plan_total plan = sum_list (map (\<lambda>i. sint (acc_candidate_balance_sats (accounts ! i))) is)"
    by (rule arg_cong)
qed

lemma allocated_total: "allocate_weighted_amounts v es = Inr plan \<Longrightarrow> plan_total plan = uint v"
  using weighted_conserves [of v es plan] sum_uint [of snd plan] by (simp add: comp_def)

lemma eligible_indices:
  "distinct (eligible_onchain_accounts accounts mn)"
  "\<forall>i \<in> set (eligible_onchain_accounts accounts mn). i < length accounts"
  by (simp_all add: eligible_onchain_accounts_def)

lemma onchain_plan_Inr:
  assumes "onchain_plan accounts reward mn fee = Inr (plan, fee')"
    and dist: "distinct (map acc_triple accounts)"
    and fee: "fee_of fee = earned_of fee + swept_of fee"
  shows "distinct (map (ent_key \<circ> fst) plan)" and "(ent_key \<circ> fst) ` set plan \<subseteq> acc_triple ` set accounts"
    and "plan_total plan + swept_of fee' = uint reward + swept_of fee"
    and "earned_of fee' = earned_of fee" and "fee_of fee' = earned_of fee' + swept_of fee'"
proof -
  let ?el = "eligible_onchain_accounts accounts mn"
  note ei = eligible_indices [of accounts mn]
  consider (none) "?el = []" "plan = []" "add_swept_dust_to_pool_fee fee reward = Inr fee'"
    | (sweep) s paid_sats dust where "selected_candidate_balance_sum accounts ?el = Inr s"
        "u64_try_from_u128 s = Some paid_sats" "checked_sub reward paid_sats = Some dust"
        "add_swept_dust_to_pool_fee fee dust = Inr fee'" "try_map (full_candidate accounts) ?el = Inr plan"
    | (split) sel where "select_onchain_accounts accounts reward mn = Inr sel"
        "allocate_weighted_amounts reward (map (\<lambda>i. candidate_weight (accounts ! i)) sel) = Inr plan"
        "fee' = fee"
    using assms(1) unfolding onchain_plan_def Let_def
    by (auto simp: and_then_Inr ok_or_Inr split: if_splits)
  then have "distinct (map (ent_key \<circ> fst) plan) \<and> (ent_key \<circ> fst) ` set plan \<subseteq> acc_triple ` set accounts \<and>
    plan_total plan + swept_of fee' = uint reward + swept_of fee \<and>
    earned_of fee' = earned_of fee \<and> fee_of fee' = earned_of fee' + swept_of fee'"
  proof cases
    case none
    then show ?thesis
      using add_swept_Inr [OF none(3) fee] by simp
  next
    case sweep
    note full = full_candidates [OF sweep(5)]
    have paid: "uint paid_sats = uint s"
      using sweep(2) by (metis u64_try_from_u128_Some uint_nat)
    have dust: "uint reward = uint dust + uint paid_sats"
      using sweep(3) by (intro uint_add) (simp add: checked_simps)
    have "plan_total plan = uint paid_sats"
      using full(2) selected_sum [OF sweep(1)] paid by simp
    moreover have "distinct (map (ent_key \<circ> fst) plan)"
      unfolding full(1) by (rule distinct_by_index [OF dist ei])
    moreover have "(ent_key \<circ> fst) ` set plan \<subseteq> acc_triple ` set accounts"
    proof -
      have "(ent_key \<circ> fst) ` set plan = (\<lambda>i. acc_triple (accounts ! i)) ` set ?el"
        using arg_cong [OF full(1), of set] by simp
      then show ?thesis
        using ei(2) by auto
    qed
    ultimately show ?thesis
      using add_swept_Inr [OF sweep(4) fee] dust by simp
  next
    case split
    note sel = select_loop_Inr [OF split(1) [unfolded select_onchain_accounts_def]]
    have idx: "\<forall>i \<in> set sel. i < length accounts"
      using sel(1) ei(2) by blast
    have perm: "mset (map ent_key (map fst plan)) = mset (map (\<lambda>i. acc_triple (accounts ! i)) sel)"
      using arg_cong [OF mset_allocate_weighted [OF split(2)], of "image_mset ent_key"]
      by (simp add: image_mset.compositionality comp_def)
    then have "distinct (map ent_key (map fst plan))"
      using distinct_by_index [OF dist sel(2) [OF ei(1)] idx] by (metis mset_eq_imp_distinct_iff)
    moreover have "set (map ent_key (map fst plan)) \<subseteq> acc_triple ` set accounts"
      unfolding mset_eq_setD [OF perm] using idx by auto
    ultimately show ?thesis
      using allocated_total [OF split(2)] fee split(3) by (simp add: image_comp)
  qed
  then show "distinct (map (ent_key \<circ> fst) plan)" and "(ent_key \<circ> fst) ` set plan \<subseteq> acc_triple ` set accounts"
    and "plan_total plan + swept_of fee' = uint reward + swept_of fee"
    and "earned_of fee' = earned_of fee" and "fee_of fee' = earned_of fee' + swept_of fee'"
    by simp_all
qed

section \<open>A settled block\<close>

lemma and_then_assoc: "and_then (and_then m f) g = and_then m (\<lambda>x. and_then (f x) g)"
  by (cases m) simp_all

text \<open>\<open>apply_payout_policy\<close> up to its last comparison.\<close>

definition miner_reward_of ::
    "prism_reward_manifest \<Rightarrow> payout_policy \<Rightarrow> prism_error + (u64 \<times> pool_fee_manifest option \<times> u64)" where
  "miner_reward_of rm policy =
     and_then (policy_min_output_sats policy) (\<lambda>mn.
     and_then (pool_fee_manifest_of (rm_coinbase_value_sats rm) policy) (\<lambda>fee.
     if pp_coinbase_output_policy policy = PoolFeeFirst \<and> fee = None
     then Inl PoolFeeFirstRequiresPoolFee
     else
       let fee_amount_sats = (case fee of None \<Rightarrow> 0 | Some fee \<Rightarrow> pfm_amount_sats fee) in
       and_then (ok_or PayoutPolicyOverflow
           (checked_sub (rm_coinbase_value_sats rm) fee_amount_sats)) (\<lambda>reward.
       if reward < mn then Inl (CoinbaseBelowFloor reward mn) else Inr (mn, fee, reward))))"

definition settle_block ::
    "prism_reward_manifest \<Rightarrow> carry_forward_balance list \<Rightarrow> payout_policy \<Rightarrow>
     prism_error + (u64 \<times> pool_fee_manifest option \<times> payout_policy_account list)" where
  "settle_block rm bs policy =
     and_then (miner_reward_of rm policy) (\<lambda>(mn, fee, reward).
     and_then (start_accounts rm bs reward) (\<lambda>(accounts, seen).
     and_then (onchain_plan accounts reward mn fee) (\<lambda>(plan, fee).
     and_then (try_fold (pay_account mn (rm_coinbase_value_sats rm)) accounts plan) (\<lambda>accounts.
     and_then (push_pool_fee fee seen accounts) (\<lambda>accounts. Inr (mn, fee, accounts))))))"

definition manifest_of_block ::
    "prism_reward_manifest \<Rightarrow> payout_policy \<Rightarrow> u64 \<times> pool_fee_manifest option \<times> payout_policy_account list \<Rightarrow>
     payout_policy_manifest" where
  "manifest_of_block rm policy = (\<lambda>(mn, fee, accounts).
     \<lparr>ppm_schema = ''qbit.prism.payout-policy.v1'', ppm_block_height = rm_block_height rm,
      ppm_coinbase_value_sats = rm_coinbase_value_sats rm, ppm_min_output_sats = mn,
      ppm_floor_formula = floor_formula policy,
      ppm_coinbase_output_policy = pp_coinbase_output_policy policy, ppm_pool_fee = fee,
      ppm_accounts = sort_by compare_accounts accounts,
      ppm_onchain_entitlements = onchain_entitlements_of accounts\<rparr>)"

lemma apply_policy_split:
  "apply_payout_policy rm bs policy =
     and_then (settle_block rm bs policy) (\<lambda>(mn, fee, accounts).
     and_then (onchain_sum (onchain_entitlements_of accounts)) (\<lambda>total.
     if total \<noteq> rm_coinbase_value_sats rm then Inl PayoutPolicyOverflow
     else Inr (manifest_of_block rm policy (mn, fee, accounts))))"
  unfolding apply_payout_policy_def settle_block_def miner_reward_of_def start_accounts_def
    manifest_of_block_def Let_def and_then_assoc
  by (auto intro!: and_then_cong [OF refl] simp: and_then_assoc split: prod.splits)

lemma u64_of_u128 [simp]: "u64_try_from_u128 (u128_from_u64 x) = Some x"
  by (simp add: u64_try_from_u128_Some)

lemma onchain_sum_Inr:
  "onchain_sum (onchain_entitlements_of accounts) = Inr t \<longleftrightarrow>
     sum_list (map (unat \<circ> acc_onchain_amount_sats) accounts) < 2 ^ 64 \<and>
     unat t = sum_list (map (unat \<circ> acc_onchain_amount_sats) accounts)"
proof -
  have fold: "try_fold (\<lambda>sum e. and_then (ok_or PayoutPolicyOverflow (u64_try_from_u128 (ent_weight e)))
        (\<lambda>amount. ok_or PayoutPolicyOverflow (checked_add sum amount))) s (onchain_entitlements_of accounts) =
      try_fold (\<lambda>sum a. ok_or PayoutPolicyOverflow (checked_add sum (acc_onchain_amount_sats a))) s
        (filter (\<lambda>a. 0 < acc_onchain_amount_sats a) accounts)" for s
    unfolding onchain_entitlements_of_def
    by (induction accounts arbitrary: s) (auto intro!: and_then_cong)
  have "sum_list (map (unat \<circ> acc_onchain_amount_sats) (filter (\<lambda>a. 0 < acc_onchain_amount_sats a) accounts)) =
      sum_list (map (unat \<circ> acc_onchain_amount_sats) accounts)"
    by (induction accounts) (auto simp: word_gt_0 unat_eq_0)
  then show ?thesis
    unfolding onchain_sum_def fold try_fold_checked_add_Inr by simp
qed

text \<open>What a miner's account satisfies after settlement.\<close>

definition settled_account :: "u64 \<Rightarrow> payout_policy_account \<Rightarrow> bool" where
  "settled_account mn a \<longleftrightarrow> acc_account_type a = Miner \<and>
     sint (acc_candidate_balance_sats a) = sint (acc_prior_balance_sats a) + uint (acc_gross_amount_sats a) \<and>
     sint (acc_carry_forward_balance_sats a) =
       sint (acc_candidate_balance_sats a) - uint (acc_onchain_amount_sats a) \<and>
     (acc_action a = Onchain \<longrightarrow> mn \<le> acc_onchain_amount_sats a \<and>
        uint (acc_onchain_amount_sats a) \<le> sint (acc_candidate_balance_sats a)) \<and>
     (acc_action a = Accrued \<longrightarrow> acc_onchain_amount_sats a = 0)"

lemma carry_paid:
  assumes "uint n \<le> sint (acc_candidate_balance_sats a)"
  shows "sint (acc_carry_forward_balance_sats (paid a n)) = sint (acc_candidate_balance_sats a) - uint n"
proof -
  have "sint (acc_candidate_balance_sats a) < 2 ^ 127"
    using sint_less [of "acc_candidate_balance_sats a"] by simp
  moreover have "0 \<le> uint n" by simp
  ultimately have "sint (acc_candidate_balance_sats a) - uint n < 2 ^ 127"
    by linarith
  moreover have "- (2 ^ 127) \<le> sint (acc_candidate_balance_sats a) - uint n"
    using assms by simp
  ultimately have "sint (word_of_int (sint (acc_candidate_balance_sats a) - uint n) :: i128) =
      sint (acc_candidate_balance_sats a) - uint n"
    by (intro sint_word_of_int_i128)
  moreover have "acc_carry_forward_balance_sats (paid a n) =
      word_of_int (sint (acc_candidate_balance_sats a) - uint n)"
    by (simp add: paid_def)
  ultimately show ?thesis
    by (simp only:)
qed

lemma fresh_settled: "fresh_account a \<Longrightarrow> settled_account mn a"
  by (simp add: fresh_account_def settled_account_def)

lemma paid_settled:
  assumes "fresh_account a" and "mn \<le> n" and "uint n \<le> sint (acc_candidate_balance_sats a)"
  shows "settled_account mn (paid a n)"
  using assms carry_paid [OF assms(3)]
  by (simp add: fresh_account_def settled_account_def) (simp add: paid_def)

definition push_fee_account :: "pool_fee_manifest option \<Rightarrow> payout_policy_account list" where
  "push_fee_account fee = (case fee of None \<Rightarrow> [] | Some f \<Rightarrow> [pool_fee_account f])"

lemma pool_fee_manifest_of_Inr:
  assumes "pool_fee_manifest_of v policy = Inr fee"
  shows "fee_of fee = earned_of fee + swept_of fee" and "swept_of fee = 0"
    and "fee_of fee = uint (case fee of None \<Rightarrow> 0 | Some f \<Rightarrow> pfm_amount_sats f)"
  using assms by (auto simp: pool_fee_manifest_of_def fee_of_def earned_of_def swept_of_def result_simps
      split: option.splits if_splits)

lemma settle_block_Inr:
  assumes "settle_block rm bs policy = Inr (mn, fee, accounts)"
  obtains miners where "accounts = miners @ push_fee_account fee"
    and "\<forall>a \<in> set miners. settled_account mn a"
    and "distinct (map acc_program accounts)"
    and "sum_list (map (uint \<circ> acc_onchain_amount_sats) accounts) = uint (rm_coinbase_value_sats rm)"
    and "sum_list (map (sint \<circ> acc_prior_balance_sats) miners) = sum_list (map (sint \<circ> cb_balance_sats) bs)"
    and "sum_list (map (uint \<circ> acc_gross_amount_sats) miners) = uint (rm_coinbase_value_sats rm) - earned_of fee"
    and "policy_min_output_sats policy = Inr mn"
    and "fee_of fee = earned_of fee + swept_of fee"
proof -
  from assms obtain fee0 reward accounts0 seen plan where
    reward: "miner_reward_of rm policy = Inr (mn, fee0, reward)"
    and start: "start_accounts rm bs reward = Inr (accounts0, seen)"
    and plan: "onchain_plan accounts0 reward mn fee0 = Inr (plan, fee)"
    and rest: "and_then (try_fold (pay_account mn (rm_coinbase_value_sats rm)) accounts0 plan)
      (\<lambda>accounts. and_then (push_pool_fee fee seen accounts) (\<lambda>accounts. Inr (mn, fee, accounts))) =
      Inr (mn, fee, accounts)"
    by (auto simp: settle_block_def and_then_Inr)
  from reward have mn: "policy_min_output_sats policy = Inr mn"
    and fee0: "pool_fee_manifest_of (rm_coinbase_value_sats rm) policy = Inr fee0"
    and sub: "checked_sub (rm_coinbase_value_sats rm)
      (case fee0 of None \<Rightarrow> 0 | Some f \<Rightarrow> pfm_amount_sats f) = Some reward"
    by (auto simp: miner_reward_of_def Let_def result_simps split: if_splits)
  from rest obtain miners where pays: "try_fold (pay_account mn (rm_coinbase_value_sats rm)) accounts0 plan = Inr miners"
    and push: "push_pool_fee fee seen miners = Inr accounts"
    by (auto simp: and_then_Inr)
  note st = start_accounts [OF start] and f0 = pool_fee_manifest_of_Inr [OF fee0]
  note dist = distinct_triples [OF st(2)]
  note pl = onchain_plan_Inr [OF plan dist f0(1)]
  note pay = pay_plan [OF dist pl(1) pays]
  have accounts: "accounts = miners @ push_fee_account fee"
    using push by (auto simp: push_pool_fee_def push_fee_account_def split: option.splits if_splits)
  have progs: "map acc_program miners = map acc_program accounts0"
    using pay by (auto simp: pay_by_def split: option.splits)
  have prior: "map acc_prior_balance_sats miners = map acc_prior_balance_sats accounts0"
    and gross: "map acc_gross_amount_sats miners = map acc_gross_amount_sats accounts0"
    using pay by (auto simp: pay_by_def split: option.splits)
  have reward_eq: "uint (rm_coinbase_value_sats rm) = uint reward + fee_of fee0"
    unfolding f0(3) using sub by (intro uint_add) (auto simp: checked_simps)
  have "\<forall>a \<in> set miners. settled_account mn a"
  proof
    fix a assume "a \<in> set miners"
    then obtain b where b: "b \<in> set accounts0" and a: "a = pay_by plan b"
      using pay by auto
    have fresh: "fresh_account b"
      using st(1) b by blast
    show "settled_account mn a"
    proof (cases "plan_map plan (acc_triple b)")
      case None
      then show ?thesis
        using fresh by (simp add: a pay_by_def fresh_settled)
    next
      case (Some n)
      then obtain e where "(e, n) \<in> set plan" and key: "ent_key e = acc_triple b"
        by (auto dest!: map_of_SomeD)
      with pay obtain c where "mn \<le> n" and c: "c \<in> set accounts0" "acc_triple c = acc_triple b"
        and "uint n \<le> sint (acc_candidate_balance_sats c)"
        by fastforce
      moreover have "c = b"
        using c b dist by (metis distinct_map inj_onD)
      ultimately show ?thesis
        using Some paid_settled [OF fresh] by (simp add: a pay_by_def)
    qed
  qed
  moreover have "distinct (map acc_program accounts)"
    using st(2,3) progs push
    by (auto simp: push_pool_fee_def pool_fee_account_def simp flip: set_map split: option.splits if_splits)
  moreover have "sum_list (map (uint \<circ> acc_onchain_amount_sats) miners) = plan_total plan"
  proof -
    have "map (uint \<circ> acc_onchain_amount_sats) miners =
        map (\<lambda>a. case plan_map plan (acc_triple a) of None \<Rightarrow> 0 | Some n \<Rightarrow> uint n) accounts0"
      using pay st(1) by (auto simp: pay_by_def fresh_account_def split: option.splits)
    moreover have "sum_list (map (\<lambda>a. case plan_map plan (acc_triple a) of None \<Rightarrow> 0 | Some n \<Rightarrow> uint n) accounts0) =
        sum_list (map (uint \<circ> snd) (map (\<lambda>(e, amount). (ent_key e, amount)) plan))"
      using pl(1,2) by (intro sum_by_key [OF dist]) (auto simp: comp_def case_prod_beta)
    ultimately show ?thesis
      by (simp add: comp_def case_prod_beta)
  qed
  then have "sum_list (map (uint \<circ> acc_onchain_amount_sats) accounts) = plan_total plan + fee_of fee"
    by (simp add: accounts push_fee_account_def fee_of_def pool_fee_account_def comp_def split: option.splits)
  then have "sum_list (map (uint \<circ> acc_onchain_amount_sats) accounts) = uint (rm_coinbase_value_sats rm)"
    using pl(3-5) f0(1,2) reward_eq by simp
  moreover have "sum_list (map (sint \<circ> acc_prior_balance_sats) miners) = sum_list (map (sint \<circ> cb_balance_sats) bs)"
    using st(5) arg_cong [OF prior, of "\<lambda>xs. sum_list (map sint xs)"] by simp
  moreover have "sum_list (map (uint \<circ> acc_gross_amount_sats) miners) = uint reward"
  proof -
    have "map (uint \<circ> acc_gross_amount_sats) miners = map (\<lambda>a. uint (acc_gross_amount_sats a)) accounts0"
      using arg_cong [OF gross, of "map uint"] by (simp add: comp_def)
    then show ?thesis
      using st(4) sum_uint [of acc_gross_amount_sats accounts0] by simp
  qed
  then have "sum_list (map (uint \<circ> acc_gross_amount_sats) miners) = uint (rm_coinbase_value_sats rm) - earned_of fee"
    using reward_eq f0(1,2) pl(4) by simp
  ultimately show ?thesis
    using that [OF accounts] mn pl(5) by blast
qed

section \<open>The routine without its last check\<close>

lemma sum_list_balance:
  "(\<And>x. x \<in> set xs \<Longrightarrow> f x = g x + h x - k x) \<Longrightarrow>
   sum_list (map f xs) = sum_list (map g xs) + sum_list (map h xs) - (sum_list (map k xs) :: int)"
  by (induction xs) simp_all

lemma sum_list_mset: "mset xs = mset ys \<Longrightarrow> sum_list (map f xs) = (sum_list (map f ys) :: int)"
  by (metis mset_map sum_mset_sum_list)

lemma settled_total:
  assumes "settle_block rm bs policy = Inr (mn, fee, accounts)"
  shows "onchain_sum (onchain_entitlements_of accounts) = Inr (rm_coinbase_value_sats rm)"
proof -
  have "sum_list (map (uint \<circ> acc_onchain_amount_sats) accounts) = uint (rm_coinbase_value_sats rm)"
    by (rule settle_block_Inr [OF assms])
  then have "int (sum_list (map (unat \<circ> acc_onchain_amount_sats) accounts)) =
      int (unat (rm_coinbase_value_sats rm))"
    using sum_uint [of acc_onchain_amount_sats accounts] by (simp add: comp_def)
  then show ?thesis
    unfolding onchain_sum_Inr of_nat_eq_iff using u64_lt [of "rm_coinbase_value_sats rm"] by simp
qed

lemma apply_policy_eq:
  "apply_payout_policy rm bs policy =
     and_then (settle_block rm bs policy) (\<lambda>block. Inr (manifest_of_block rm policy block))"
proof (cases "settle_block rm bs policy")
  case (Inr r)
  obtain mn fee accounts where "r = (mn, fee, accounts)" by (cases r)
  then show ?thesis
    using Inr settled_total [of rm bs policy mn fee accounts] by (simp add: apply_policy_split)
qed (simp add: apply_policy_split)

lemma apply_policy_Inr:
  assumes "apply_payout_policy rm bs policy = Inr m"
  obtains mn fee accounts where "settle_block rm bs policy = Inr (mn, fee, accounts)"
    and "m = manifest_of_block rm policy (mn, fee, accounts)"
  using assms by (auto simp: apply_policy_eq and_then_Inr)

end
