(* ===== verification/Policy_Properties.thy ===== *)
theory Policy_Properties
  imports Payout_Policy
begin

text \<open>
  What \<open>apply_payout_policy\<close> promises: no satoshi is lost or created, every account balances,
  the ledger balances across the block. The samples at the start are a block of 100 sats with
  a pool fee of five percent, two miners above the floor and a carried balance below it.
\<close>

section \<open>A sample block\<close>


definition sample_program :: "u8 \<Rightarrow> string" where
  "sample_program b = sample_hex_encode (replicate 32 b)"

lemma sample_program_cons: "sample_program b = hex_02x b @ concat (replicate 31 (hex_02x b))"
  using replicate_Suc [of 31 "hex_02x b"] by (simp add: sample_program_def sample_hex_encode_def)

lemma sample_program_key [simp]:
  "b \<in> {1, 2, 3, 4} \<Longrightarrow> payout_program_key (sample_program b) = sample_program b"
proof -
  assume "b \<in> {1, 2, 3, 4}"
  then have "to_ascii_lowercase (hex_02x b) = hex_02x b"
    by (auto simp: hex_02x_def hex_digit_def to_ascii_lowercase_def ascii_lower_def)
  then show ?thesis
    by (simp add: sample_program_def sample_hex_encode_def payout_program_key_def to_ascii_lowercase_def map_concat)
qed

lemma sample_program_inj [simp]: "sample_program a = sample_program b \<longleftrightarrow> a = b"
proof
  assume "sample_program a = sample_program b"
  then have "sample_hex_decode (sample_program a) = sample_hex_decode (sample_program b)"
    by simp
  then have "replicate 32 a = replicate 32 b"
    by (simp add: sample_program_def sample_decode_encode)
  then show "a = b"
    by (metis replicate_eq_replicate zero_neq_numeral)
qed simp

lemma sample_program_less [simp]: "sample_program 1 < sample_program 2" "sample_program 2 < sample_program 4"
   "sample_program 1 < sample_program 4"  "\<not> sample_program 2 < sample_program 1" "\<not> sample_program 4 < sample_program 2"
   "\<not> sample_program 4 < sample_program 1"
  by (simp_all add: sample_program_cons hex_02x_def hex_digit_def less_char_def)

definition sample_weighted :: "string \<Rightarrow> string \<Rightarrow> u8 \<Rightarrow> u128 \<Rightarrow> weighted_entitlement" where
  "sample_weighted recipient key b w =
     \<lparr>ent_recipient_id = recipient, ent_order_key = key,
      ent_p2mr_program_hex = sample_program b, ent_weight = w\<rparr>"

definition sample_reward :: prism_reward_manifest where
  "sample_reward = (manifest_of_window sample_block None (window_of sample_block 8 (rev sample_shares)) '''')
     \<lparr>rm_coinbase_value_sats := 100,
      rm_entitlements := [sample_weighted ''b'' ''2'' 2 2, sample_weighted ''a'' ''1'' 1 1]\<rparr>"

definition sample_policy :: payout_policy where
  "sample_policy = day_one_default\<lparr>pp_min_output_sats := Some 10,
     pp_pool_fee_policy := Some \<lparr>pf_fee_bps = 500, pf_recipient_id = ''pool'', pf_order_key = ''0'',
       pf_p2mr_program_hex = sample_program 3\<rparr>,
     pp_coinbase_output_policy := PoolFeeFirst\<rparr>"

definition sample_balances :: "carry_forward_balance list" where
  "sample_balances = [\<lparr>cb_recipient_id = ''c'', cb_order_key = ''3'',
     cb_p2mr_program_hex = sample_program 4, cb_balance_sats = 7\<rparr>]"

definition sample_fee :: pool_fee_manifest where
  "sample_fee = \<lparr>pfm_fee_bps = 500, pfm_earned_pool_fee_sats = 5, pfm_swept_dust_liability_sats = 0,
     pfm_amount_sats = 5, pfm_recipient_id = ''pool'', pfm_order_key = ''0'',
     pfm_p2mr_program_hex = sample_program 3\<rparr>"

definition sample_account :: "string \<Rightarrow> string \<Rightarrow> u8 \<Rightarrow> u64 \<Rightarrow> i128 \<Rightarrow> payout_policy_account" where
  "sample_account recipient key b gross prior =
     \<lparr>acc_account_type = Miner, acc_recipient_id = recipient, acc_order_key = key,
      acc_p2mr_program_hex = sample_program b, acc_gross_amount_sats = gross,
      acc_prior_balance_sats = prior, acc_candidate_balance_sats = prior + ucast gross,
      acc_onchain_amount_sats = 0, acc_settlement_fee_sats = 0,
      acc_carry_forward_balance_sats = prior + ucast gross, acc_action = Accrued\<rparr>"

lemma sample_miner_reward: "miner_reward_of sample_reward sample_policy = Inr (10, Some sample_fee, 95)"
  by (simp add: miner_reward_of_def sample_policy_def policy_min_output_sats_def pool_fee_manifest_of_def
    sample_reward_def sample_fee_def Let_def checked_mul_def u128_from_u64_def u64_try_from_u128_def checked_sub_def)

lemma sample_aggregated: "aggregate_entitlements_by_payout_program (rm_entitlements sample_reward) =
   Inr [sample_weighted ''a'' ''1'' 1 1, sample_weighted ''b'' ''2'' 2 2]"
  by (simp add: aggregate_entitlements_by_payout_program_def entitlements_by_program_def sample_reward_def
     sample_weighted_def merge_entitlement_def checked_add_def bt_values_def bt_entries_def)

lemma sample_gross: "allocate_weighted_amounts 95 [sample_weighted ''a'' ''1'' 1 1, sample_weighted ''b'' ''2'' 2 2] =
   Inr [(sample_weighted ''a'' ''1'' 1 1, 32), (sample_weighted ''b'' ''2'' 2 2, 63)]"
  by (simp add: allocate_weighted_amounts_def compare_entitlements_def cmp_def sample_weighted_def weighted_share_def
   checked_sum_def checked_add_def checked_mul_def checked_sub_def u128_from_u64_def u64_try_from_u128_def Let_def
   bump_weighted_def compare_weighted_def)

definition sample_accounts :: "payout_policy_account list" where
  "sample_accounts =
    [sample_account ''a'' ''1'' 1 32 0, sample_account ''b'' ''2'' 2 63 0, sample_account ''c'' ''3'' 4 0 7]"

lemma sample_started: "start_accounts sample_reward sample_balances 95 =
   Inr (sample_accounts,
     {sample_program 1, sample_program 2, sample_program 4})"
  unfolding start_accounts_def sample_aggregated and_then.simps sample_gross
  by (simp add: carry_forward_by_payout_program_def sample_balances_def merge_balance_def
   i128_checked_add_def bt_values_def bt_entries_def seed_of_gross_def sample_weighted_def account_of_seed_def Let_def
   i128_from_u64_def sample_account_def sample_accounts_def insert_commute)

lemma sample_payable: "eligible_onchain_accounts sample_accounts 10
  = [0, 1]"
  by (simp add: eligible_onchain_accounts_def sample_accounts_def sample_account_def numeral_3_eq_3 upt_rec sint_i128 i128_from_u64_def)

lemma sample_weight: "candidate_weight (sample_account r k p g 0) = sample_weighted r k p (ucast g)"
  by (simp add: candidate_weight_def sample_account_def sample_weighted_def)

lemma sample_candidate: "acc_candidate_balance_sats (sample_account r k p g pr) = pr + ucast g"
  by (simp add: sample_account_def)

lemma sample_split: "allocate_weighted_amounts 95 [sample_weighted ''a'' ''1'' 1 32, sample_weighted ''b'' ''2'' 2 63] =
   Inr [(sample_weighted ''a'' ''1'' 1 32, 32), (sample_weighted ''b'' ''2'' 2 63, 63)]"
  by (simp add: allocate_weighted_amounts_def compare_entitlements_def cmp_def sample_weighted_def weighted_share_def
   checked_sum_def checked_add_def checked_mul_def checked_sub_def u128_from_u64_def u64_try_from_u128_def Let_def)

lemma sample_selected: "select_onchain_accounts sample_accounts 95 10
  = Inr [0, 1]"
  unfolding select_onchain_accounts_def sample_payable
  by (subst select_onchain_loop.simps)
   (simp add: sample_accounts_def selected_candidate_balance_sum_def sample_weight sample_candidate sample_split u128_try_from_i128_def sint_i128 checked_add_def
     u128_from_u64_def under_floor_keys_def)

lemma sample_plan: "onchain_plan sample_accounts 95 10 (Some sample_fee)
  = Inr ([(sample_weighted ''a'' ''1'' 1 32, 32), (sample_weighted ''b'' ''2'' 2 63, 63)], Some sample_fee)"
  unfolding onchain_plan_def Let_def sample_payable sample_selected
   by (simp add: sample_accounts_def selected_candidate_balance_sum_def sample_weight sample_candidate sample_split u128_try_from_i128_def sint_i128 checked_add_def
     u128_from_u64_def)

definition sample_paid :: "payout_policy_account list" where
  "sample_paid =
    [(sample_account ''a'' ''1'' 1 32 0)\<lparr>acc_onchain_amount_sats := 32, acc_carry_forward_balance_sats := 0, acc_action := Onchain\<rparr>,
     (sample_account ''b'' ''2'' 2 63 0)\<lparr>acc_onchain_amount_sats := 63, acc_carry_forward_balance_sats := 0, acc_action := Onchain\<rparr>,
     sample_account ''c'' ''3'' 4 0 7, pool_fee_account sample_fee]"

lemma upt_three: "[0..<3::nat] = [0, 1, 2]"
  by (simp add: upt_rec)

lemma sample_pays:
  "try_fold (pay_account 10 100)
     sample_accounts
     [(sample_weighted ''a'' ''1'' 1 32, 32), (sample_weighted ''b'' ''2'' 2 63, 63)] =
   Inr (take 3 sample_paid)"
  by (simp add: sample_accounts_def pay_account_def account_matches_def sample_weighted_def sample_account_def upt_three
    i128_checked_sub_def sample_paid_def i128_from_u64_def sint_i128)

lemma sample_settled: "settle_block sample_reward sample_balances sample_policy = Inr (10, Some sample_fee, sample_paid)"
proof -
  have cv: "rm_coinbase_value_sats sample_reward = 100" and fee: "pfm_p2mr_program_hex sample_fee = sample_program 3"
    by (simp_all add: sample_reward_def sample_fee_def)
  show ?thesis
    unfolding settle_block_def sample_miner_reward and_then.simps prod.case sample_started sample_plan cv sample_pays
    by (simp add: push_pool_fee_def fee) (simp add: sample_paid_def)
qed

definition sample_policy_manifest :: payout_policy_manifest where
  "sample_policy_manifest = manifest_of_block sample_reward sample_policy (10, Some sample_fee, sample_paid)"

lemma sample_applied:
  "apply_payout_policy sample_reward sample_balances sample_policy = Inr sample_policy_manifest"
  by (simp add: apply_policy_eq sample_settled sample_policy_manifest_def)


section \<open>Properties\<close>

text \<open>
  The weights of the entitlements sent to the coinbase builder are the on-chain amounts of the
  accounts they come from.
\<close>

lemma onchain_entitlement_weights:
  "sum_list (ent_weights (onchain_entitlements_of accounts)) =
   sum_list (map (unat \<circ> acc_onchain_amount_sats) accounts)"
  unfolding onchain_entitlements_of_def
  by (induction accounts) (auto simp: word_gt_0 unat_eq_0)

lemma settled_block_amounts:
  assumes "settle_block rm bs policy = Inr (mn, fee, accounts)"
  shows "sum_list (map (unat \<circ> acc_onchain_amount_sats) accounts) = unat (rm_coinbase_value_sats rm)"
  using settled_total [OF assms] by (simp add: onchain_sum_Inr)

text \<open>
  C16. No satoshi of the block is lost or created, and it is the plan that sees to it, not the
  comparison at the end of the routine. Whenever the settlement proper (\<open>settle_block\<close>: the
  fee, the opening accounts, the on-chain plan, its payments and the account of the fee, with
  no sum and no comparison) is done, the amounts it pays add up to the coinbase value, and so
  does the code's own checked sum of the entitlements. Hence, for every input, the routine
  returns what the settlement returns: the same error, or the manifest of the settled block;
  the error of the final comparison is unreachable. The manifest's accounts and the weights
  sent to the coinbase builder add up to the coinbase value.
\<close>

theorem policy_conserves_value:
  "(\<forall>mn fee accounts. settle_block rm bs policy = Inr (mn, fee, accounts) \<longrightarrow>
      sum_list (map (unat \<circ> acc_onchain_amount_sats) accounts) = unat (rm_coinbase_value_sats rm) \<and>
      sum_list (ent_weights (onchain_entitlements_of accounts)) = unat (rm_coinbase_value_sats rm) \<and>
      onchain_sum (onchain_entitlements_of accounts) = Inr (rm_coinbase_value_sats rm)) \<and>
   (\<forall>e. apply_payout_policy rm bs policy = Inl e \<longleftrightarrow> settle_block rm bs policy = Inl e) \<and>
   (\<forall>m. apply_payout_policy rm bs policy = Inr m \<longrightarrow>
      (\<exists>block. settle_block rm bs policy = Inr block \<and> m = manifest_of_block rm policy block) \<and>
      sum_list (map (unat \<circ> acc_onchain_amount_sats) (ppm_accounts m)) = unat (ppm_coinbase_value_sats m) \<and>
      sum_list (ent_weights (ppm_onchain_entitlements m)) = unat (ppm_coinbase_value_sats m) \<and>
      ppm_coinbase_value_sats m = rm_coinbase_value_sats rm)"
proof (intro conjI allI impI)
  fix mn fee accounts assume block: "settle_block rm bs policy = Inr (mn, fee, accounts)"
  note total = settled_block_amounts [OF block]
  show "sum_list (map (unat \<circ> acc_onchain_amount_sats) accounts) = unat (rm_coinbase_value_sats rm)"
    by (rule total)
  show "sum_list (ent_weights (onchain_entitlements_of accounts)) = unat (rm_coinbase_value_sats rm)"
    unfolding onchain_entitlement_weights by (rule total)
  show "onchain_sum (onchain_entitlements_of accounts) = Inr (rm_coinbase_value_sats rm)"
    by (rule settled_total [OF block])
next
  fix e show "apply_payout_policy rm bs policy = Inl e \<longleftrightarrow> settle_block rm bs policy = Inl e"
    by (simp add: apply_policy_eq and_then_Inl)
next
  fix m assume "apply_payout_policy rm bs policy = Inr m"
  then obtain mn fee accounts where block: "settle_block rm bs policy = Inr (mn, fee, accounts)"
    and m: "m = manifest_of_block rm policy (mn, fee, accounts)"
    by (rule apply_policy_Inr)
  show "\<exists>block. settle_block rm bs policy = Inr block \<and> m = manifest_of_block rm policy block"
    using block m by blast
  show "sum_list (map (unat \<circ> acc_onchain_amount_sats) (ppm_accounts m)) = unat (ppm_coinbase_value_sats m)"
    using settled_block_amounts [OF block] by (simp add: m manifest_of_block_def)
  show "sum_list (ent_weights (ppm_onchain_entitlements m)) = unat (ppm_coinbase_value_sats m)"
    using settled_block_amounts [OF block] by (simp add: m manifest_of_block_def onchain_entitlement_weights)
  show "ppm_coinbase_value_sats m = rm_coinbase_value_sats rm"
    by (simp add: m manifest_of_block_def)
qed

theorem policy_conserves_value_witness:
  "sum_list (map (unat \<circ> acc_onchain_amount_sats) sample_paid) = 100 \<and>
   (\<exists>m. apply_payout_policy sample_reward sample_balances sample_policy = Inr m \<and>
      sum_list (map (unat \<circ> acc_onchain_amount_sats) (ppm_accounts m)) = unat (ppm_coinbase_value_sats m))"
proof -
  have "rm_coinbase_value_sats sample_reward = 100"
    by (simp add: sample_reward_def)
  then show ?thesis
    using policy_conserves_value [of sample_reward sample_balances sample_policy] sample_settled
      sample_applied by fastforce
qed

text \<open>
  C17. Every miner account balances: candidate is prior plus gross, what is carried forward is
  the candidate less what is paid on chain, a payment is at least the floor and at most the
  candidate, and an accrued account is paid nothing. No program appears twice, the accounts are
  in canonical order, and the account of the pool fee carries nothing.
\<close>

theorem policy_accounts_balance:
  assumes "apply_payout_policy rm bs policy = Inr m"
  shows "(\<forall>a \<in> set (ppm_accounts m).
      (acc_account_type a = Miner \<longrightarrow> settled_account (ppm_min_output_sats m) a) \<and>
      (acc_account_type a = PoolFee \<longrightarrow> (\<exists>fee. ppm_pool_fee m = Some fee \<and> a = pool_fee_account fee))) \<and>
    distinct (map acc_program (ppm_accounts m)) \<and> sorted (map acc_triple (ppm_accounts m)) \<and>
    policy_min_output_sats policy = Inr (ppm_min_output_sats m)"
proof -
  from assms obtain mn fee accounts where block: "settle_block rm bs policy = Inr (mn, fee, accounts)"
    and m: "m = manifest_of_block rm policy (mn, fee, accounts)"
    by (rule apply_policy_Inr)
  from block obtain miners where accounts: "accounts = miners @ push_fee_account fee"
    and settled: "\<forall>a \<in> set miners. settled_account mn a" and dist: "distinct (map acc_program accounts)"
    and mn: "policy_min_output_sats policy = Inr mn"
    by (rule settle_block_Inr)
  have "distinct (map acc_program (sort_by compare_accounts accounts))"
    using dist by (metis mset_eq_imp_distinct_iff mset_map mset_sort_by)
  moreover have "acc_account_type a = Miner \<Longrightarrow> settled_account mn a"
    and "acc_account_type a = PoolFee \<Longrightarrow> \<exists>f. fee = Some f \<and> a = pool_fee_account f"
    if "a \<in> set accounts" for a
    using that settled by (auto simp: accounts push_fee_account_def pool_fee_account_def settled_account_def
        split: option.splits)
  ultimately show ?thesis
    using mn accs.sorted_keys by (auto simp: m manifest_of_block_def)
qed

theorem policy_accounts_balance_witness:
  "\<exists>m. apply_payout_policy sample_reward sample_balances sample_policy = Inr m \<and> 
    distinct (map acc_program (ppm_accounts m)) \<and> sorted (map acc_triple (ppm_accounts m))"
  using policy_accounts_balance [OF sample_applied] sample_applied by blast

text \<open>
  C18. The ledger balances across a block: what all miners are owed afterwards is what they were
  owed before plus the dust that was swept to the pool fee, and what they earned is the coinbase
  value less the fee the pool earned. The pool is paid the earned fee and the dust.
\<close>

theorem policy_balances_ledger:
  assumes "apply_payout_policy rm bs policy = Inr m"
  shows "let miners = filter (\<lambda>a. acc_account_type a = Miner) (ppm_accounts m); fee = ppm_pool_fee m in
    sum_list (map (sint \<circ> acc_carry_forward_balance_sats) miners) =
      sum_list (map (sint \<circ> cb_balance_sats) bs) + swept_of fee \<and>
    sum_list (map (uint \<circ> acc_gross_amount_sats) miners) = uint (ppm_coinbase_value_sats m) - earned_of fee \<and>
    fee_of fee = earned_of fee + swept_of fee"
proof -
  from assms obtain mn fee accounts where block: "settle_block rm bs policy = Inr (mn, fee, accounts)"
    and m: "m = manifest_of_block rm policy (mn, fee, accounts)"
    by (rule apply_policy_Inr)
  from block obtain miners where accounts: "accounts = miners @ push_fee_account fee"
    and settled: "\<forall>a \<in> set miners. settled_account mn a"
    and onchain: "sum_list (map (uint \<circ> acc_onchain_amount_sats) accounts) = uint (rm_coinbase_value_sats rm)"
    and prior: "sum_list (map (sint \<circ> acc_prior_balance_sats) miners) = sum_list (map (sint \<circ> cb_balance_sats) bs)"
    and gross: "sum_list (map (uint \<circ> acc_gross_amount_sats) miners) = uint (rm_coinbase_value_sats rm) - earned_of fee"
    and fee: "fee_of fee = earned_of fee + swept_of fee"
    by (rule settle_block_Inr)
  have miners: "mset (filter (\<lambda>a. acc_account_type a = Miner) (ppm_accounts m)) = mset miners"
  proof -
    have "filter (\<lambda>a. acc_account_type a = Miner) accounts = miners"
      using settled by (auto simp: accounts push_fee_account_def pool_fee_account_def settled_account_def
          split: option.splits)
    then have "mset (filter (\<lambda>a. acc_account_type a = Miner) accounts) = mset miners"
      by (simp only:)
    then show ?thesis
      by (simp add: m manifest_of_block_def)
  qed
  then have sums: "sum_list (map f (filter (\<lambda>a. acc_account_type a = Miner) (ppm_accounts m))) =
      (sum_list (map f miners) :: int)" for f
    by (rule sum_list_mset)
  have "sum_list (map (sint \<circ> acc_carry_forward_balance_sats) miners) =
      sum_list (map (sint \<circ> acc_prior_balance_sats) miners) + sum_list (map (uint \<circ> acc_gross_amount_sats) miners) -
      sum_list (map (uint \<circ> acc_onchain_amount_sats) miners)"
    by (rule sum_list_balance) (use settled in \<open>simp add: settled_account_def\<close>)
  moreover have "sum_list (map (uint \<circ> acc_onchain_amount_sats) miners) = uint (rm_coinbase_value_sats rm) - fee_of fee"
    using onchain by (simp add: accounts push_fee_account_def fee_of_def pool_fee_account_def split: option.splits)
  moreover have "ppm_pool_fee m = fee" "ppm_coinbase_value_sats m = rm_coinbase_value_sats rm"
    by (simp_all add: m manifest_of_block_def)
  ultimately show ?thesis
    unfolding Let_def sums using prior gross fee by simp
qed

theorem policy_balances_ledger_witness:
  "\<exists>m. apply_payout_policy sample_reward sample_balances sample_policy = Inr m \<and> 
    fee_of (ppm_pool_fee m) = earned_of (ppm_pool_fee m) + swept_of (ppm_pool_fee m)"
  using policy_balances_ledger [OF sample_applied] sample_applied unfolding Let_def by blast

end
