(* ===== verification/Policy_Coinbase.thy ===== *)
theory Policy_Coinbase
  imports Policy_Properties
begin

text \<open>
  The payout policy and the coinbase builder together: the request that
  \<open>build_policy_coinbase_request\<close> hands to \<open>qbit-pool-builder\<close> is always accepted, the
  transaction pays each settled account exactly its on-chain amount, and the pool fee is
  output zero when the policy says so.
\<close>

section \<open>Exact weights are paid exactly\<close>

lemma allocated_exactly:
  assumes "allocate_outputs X r = Inr outs"
    and "sum_list (ent_weights (req_entitlements r)) = unat (req_coinbase_value_sats r)"
  shows "\<exists>es. ordered_entitlements r = Inr es \<and> length outs = length es \<and>
    map out_recipient_id outs = map ent_recipient_id es \<and> map out_order_key outs = map ent_order_key es \<and>
    map (Inr \<circ> out_p2mr_program) outs = map (parse_p2mr_program X) es \<and>
    out_amounts outs = ent_weights es"
proof -
  from assms(1) obtain es prov where es: "ordered_entitlements r = Inr es"
    and prov: "is_provisional X (req_coinbase_value_sats r) es prov"
    and outs: "outs = settled (req_coinbase_value_sats r) es prov"
    by (rule allocate_outputsD)
  note fields = settled_fields [OF prov]
  have weights: "out_weights outs = ent_weights es"
    by (simp only: outs fields)
  have "sum_list (ent_weights es) = unat (req_coinbase_value_sats r)"
    using mset_ordered_entitlements [OF es] assms(2) by (metis mset_map sum_mset_sum_list)
  then have total: "sum_list (out_weights outs) = unat (req_coinbase_value_sats r)"
    by (simp only: weights)
  have "out_amounts outs ! i = out_weights outs ! i" if i: "i < length outs" for i
  proof -
    have "0 < unat (req_coinbase_value_sats r)"
      using assms(1) by (simp add: allocate_outputs_Inr word_gt_0 unat_gt_0)
    then show ?thesis
      using alloc.exact [OF assms(1), of i] i total by simp
  qed
  then have "out_amounts outs = out_weights outs"
    by (intro nth_equalityI) simp_all
  then show ?thesis
    using es fields weights outs by auto
qed

lemma single_hit:
  assumes "i < length xs" and "\<And>j. j < length xs \<Longrightarrow> P (xs ! j) \<longleftrightarrow> j = i"
  shows "filter (\<lambda>j. P (xs ! j)) [0..<length xs] = [i]"
proof -
  have split: "[0..<length xs] = [0..<i] @ i # [Suc i..<length xs]"
    using upt_add_eq_append [of 0 i "length xs - i"] assms(1) by (simp add: upt_conv_Cons)
  have "filter (\<lambda>j. P (xs ! j)) [0..<length xs] = filter (\<lambda>j. j = i) [0..<length xs]"
    using assms by (intro filter_cong) auto
  also have "\<dots> = [i]"
    unfolding split by (simp add: filter_empty_conv)
  finally show ?thesis .
qed

abbreviation ent_program_key :: "weighted_entitlement \<Rightarrow> string" where
  "ent_program_key e \<equiv> payout_program_key (ent_p2mr_program_hex e)"

lemma pin_program: "pin_matches p e \<Longrightarrow> ent_program_key e = payout_program_key (pin_p2mr_program_hex p)"
  by (simp add: pin_matches_def eq_ignore_ascii_case_def payout_program_key_def)

lemma pinned_index_unique:
  assumes "e \<in> set es" and "pin_matches p e" and "distinct (map ent_program_key es)"
  shows "\<exists>i. pinned_entitlement_index es p = Inr i"
proof -
  from assms(1) obtain i where i: "i < length es" "es ! i = e"
    by (auto simp: in_set_conv_nth)
  have "filter (\<lambda>j. pin_matches p (es ! j)) [0..<length es] = [i]"
  proof (rule single_hit [OF i(1)])
    fix j assume j: "j < length es"
    show "pin_matches p (es ! j) \<longleftrightarrow> j = i"
    proof
      assume "pin_matches p (es ! j)"
      then have "map ent_program_key es ! j = map ent_program_key es ! i"
        using assms(2) i j pin_program by simp
      then show "j = i"
        using nth_eq_iff_index_eq [OF assms(3)] i(1) j by simp
    qed (use assms(2) i in simp)
  qed
  then show ?thesis
    by (auto simp: pinned_index_Inr)
qed

lemma ordered_when_pinned:
  assumes "\<And>p. req_pinned_first_output r = Some p \<Longrightarrow> \<exists>e \<in> set (req_entitlements r). pin_matches p e"
    and "distinct (map ent_program_key (req_entitlements r))"
  shows "\<exists>es. ordered_entitlements r = Inr es"
proof (cases "req_pinned_first_output r")
  case None
  then show ?thesis by (simp add: ordered_entitlements_def)
next
  case (Some p)
  let ?es = "sort_by compare_entitlements (req_entitlements r)"
  have "distinct (map ent_program_key ?es)"
    using assms(2) by (metis mset_eq_imp_distinct_iff mset_map mset_sort_by)
  then obtain i where "pinned_entitlement_index ?es p = Inr i"
    using assms(1) [OF Some] pinned_index_unique [of _ ?es p] by auto
  then show ?thesis
    using Some by (simp add: ordered_entitlements_def)
qed

section \<open>The request of the policy\<close>

lemma onchain_entitlements_keys:
  "map ent_program_key (onchain_entitlements_of accounts) =
   map acc_program (filter (\<lambda>a. 0 < acc_onchain_amount_sats a) accounts)"
  by (simp add: onchain_entitlements_of_def comp_def candidate_weight_def)

lemma onchain_weights: "ent_weights (onchain_entitlements_of accounts) =
    map (unat \<circ> acc_onchain_amount_sats) (filter (\<lambda>a. 0 < acc_onchain_amount_sats a) accounts)"
  by (simp add: onchain_entitlements_of_def comp_def)

lemma sum_positive: "sum_list (map (unat \<circ> f) (filter (\<lambda>a. 0 < f a) xs)) = sum_list (map (unat \<circ> f) xs)"
  by (induction xs) (auto simp: word_gt_0 unat_eq_0)

lemma parse_program_weight: "parse_p2mr_program X (e\<lparr>ent_weight := w\<rparr>) = parse_p2mr_program X e"
  by (simp add: parse_p2mr_program_def cong: if_cong)

lemma pinned_for_policy:
  "pinned_first_output_for_policy m = Some p \<Longrightarrow> \<exists>fee. pool_fee_first_output m = Some fee \<and>
     ppm_pool_fee m = Some fee \<and> 0 < pfm_amount_sats fee \<and>
     p = \<lparr>pin_recipient_id = pfm_recipient_id fee, pin_order_key = pfm_order_key fee,
       pin_p2mr_program_hex = pfm_p2mr_program_hex fee\<rparr>"
  by (auto simp: pinned_first_output_for_policy_def pool_fee_first_output_def split: if_splits option.splits)

text \<open>What the coinbase pays one account: who, under which key, to which program, how much.\<close>

definition paid_output :: "allocated_output \<Rightarrow> string \<times> string \<times> (builder_error + u8 list) \<times> nat" where
  "paid_output out =
     (out_recipient_id out, out_order_key out, Inr (out_p2mr_program out), unat (out_amount_sats out))"

definition owed_output ::
    "'x crates_scheme \<Rightarrow> payout_policy_account \<Rightarrow> string \<times> string \<times> (builder_error + u8 list) \<times> nat" where
  "owed_output X a = (acc_recipient_id a, acc_order_key a, parse_p2mr_program X (candidate_weight a),
     unat (acc_onchain_amount_sats a))"

definition owed_weight ::
    "'x crates_scheme \<Rightarrow> weighted_entitlement \<Rightarrow> string \<times> string \<times> (builder_error + u8 list) \<times> nat" where
  "owed_weight X e = (ent_recipient_id e, ent_order_key e, parse_p2mr_program X e, unat (ent_weight e))"

lemma owed_weights: "map (owed_weight X) (onchain_entitlements_of accounts) =
    map (owed_output X) (filter (\<lambda>a. 0 < acc_onchain_amount_sats a) accounts)"
  by (simp add: onchain_entitlements_of_def comp_def owed_weight_def owed_output_def parse_program_weight)
    (simp add: candidate_weight_def)

lemma map_eq_iff_zip:
  assumes "length xs = length ys" and "\<And>i. i < length xs \<Longrightarrow> f (xs ! i) = g (ys ! i)"
  shows "map f xs = map g ys"
  using assms by (intro nth_equalityI) simp_all

lemma paid_as_ordered:
  assumes "allocate_outputs X r = Inr outs" and "ordered_entitlements r = Inr es"
    and "sum_list (ent_weights (req_entitlements r)) = unat (req_coinbase_value_sats r)"
  shows "map paid_output outs = map (owed_weight X) es"
proof -
  from allocated_exactly [OF assms(1,3)] assms(2)
  have len: "length outs = length es" and "map out_recipient_id outs = map ent_recipient_id es"
    "map out_order_key outs = map ent_order_key es"
    "map (Inr \<circ> out_p2mr_program) outs = map (parse_p2mr_program X) es"
    "out_amounts outs = ent_weights es"
    by auto
  then have "out_recipient_id (outs ! i) = ent_recipient_id (es ! i)"
    "out_order_key (outs ! i) = ent_order_key (es ! i)"
    "Inr (out_p2mr_program (outs ! i)) = parse_p2mr_program X (es ! i)"
    "unat (out_amount_sats (outs ! i)) = unat (ent_weight (es ! i))" if "i < length outs" for i
    using that by (metis comp_apply nth_map)+
  with len show ?thesis
    by (intro map_eq_iff_zip) (simp_all add: paid_output_def owed_weight_def)
qed

lemma fee_account_in:
  assumes "accounts = miners @ push_fee_account fee" and "fee = Some f" and "0 < pfm_amount_sats f"
    and "distinct (map acc_program accounts)" and "a \<in> set accounts"
    and "acc_program a = payout_program_key (pfm_p2mr_program_hex f)"
  shows "a = pool_fee_account f"
proof -
  have "pool_fee_account f \<in> set accounts"
    using assms(1,2) by (simp add: push_fee_account_def)
  moreover have "acc_program (pool_fee_account f) = payout_program_key (pfm_p2mr_program_hex f)"
    by (simp add: pool_fee_account_def)
  ultimately show ?thesis
    using assms(4-6) by (metis distinct_map inj_onD)
qed

lemma policy_request_Inr:
  assumes "build_policy_coinbase_request_with_coinbase_options rm bs policy suffix leaves = Inr (r, m)"
  obtains mn fee accounts miners where "settle_block rm bs policy = Inr (mn, fee, accounts)"
    and "m = manifest_of_block rm policy (mn, fee, accounts)"
    and "accounts = miners @ push_fee_account fee" and "distinct (map acc_program accounts)"
    and "req_entitlements r = onchain_entitlements_of accounts"
    and "req_coinbase_value_sats r = rm_coinbase_value_sats rm"
    and "req_pinned_first_output r = pinned_first_output_for_policy m"
    and "sum_list (ent_weights (req_entitlements r)) = unat (req_coinbase_value_sats r)"
    and "ppm_accounts m = sort_by compare_accounts accounts" and "ppm_pool_fee m = fee"
proof -
  from assms have m: "apply_payout_policy rm bs policy = Inr m"
    and r: "req_entitlements r = ppm_onchain_entitlements m"
      "req_coinbase_value_sats r = rm_coinbase_value_sats rm"
      "req_pinned_first_output r = pinned_first_output_for_policy m"
    by (auto simp: build_policy_coinbase_request_with_coinbase_options_def result_simps)
  from m obtain mn fee accounts where block: "settle_block rm bs policy = Inr (mn, fee, accounts)"
    and man: "m = manifest_of_block rm policy (mn, fee, accounts)"
    by (rule apply_policy_Inr)
  from block obtain miners where accounts: "accounts = miners @ push_fee_account fee"
    and dist: "distinct (map acc_program accounts)"
    by (rule settle_block_Inr)
  have "req_entitlements r = onchain_entitlements_of accounts"
    by (simp add: r man manifest_of_block_def)
  moreover from this have "sum_list (ent_weights (req_entitlements r)) = unat (req_coinbase_value_sats r)"
    using settled_total [OF block] by (simp only: r(2) onchain_weights sum_positive onchain_sum_Inr)
  moreover have "ppm_accounts m = sort_by compare_accounts accounts" "ppm_pool_fee m = fee"
    by (simp_all add: man manifest_of_block_def)
  ultimately show ?thesis
    using that [OF block man accounts dist] r(2,3) by blast
qed

lemma policy_request_accepted:
  assumes req: "build_policy_coinbase_request_with_coinbase_options rm bs policy suffix leaves = Inr (r, m)"
    and pos: "rm_coinbase_value_sats rm \<noteq> 0"
    and parse: "\<And>a. a \<in> set (ppm_accounts m) \<Longrightarrow> 0 < acc_onchain_amount_sats a \<Longrightarrow>
      \<exists>program. parse_p2mr_program X (candidate_weight a) = Inr program"
  shows "\<exists>outs. allocate_outputs X r = Inr outs"
proof -
  from req obtain mn fee accounts miners where accounts: "accounts = miners @ push_fee_account fee"
    and dist: "distinct (map acc_program accounts)"
    and ents: "req_entitlements r = onchain_entitlements_of accounts"
    and cv: "req_coinbase_value_sats r = rm_coinbase_value_sats rm"
    and pin: "req_pinned_first_output r = pinned_first_output_for_policy m"
    and total: "sum_list (ent_weights (req_entitlements r)) = unat (req_coinbase_value_sats r)"
    and ppm: "ppm_accounts m = sort_by compare_accounts accounts" "ppm_pool_fee m = fee"
    by (rule policy_request_Inr)
  let ?v = "unat (rm_coinbase_value_sats rm)"
  have nonempty: "req_entitlements r \<noteq> []"
    using total pos cv by (auto simp: unat_eq_0)
  have "\<exists>es. ordered_entitlements r = Inr es"
  proof (rule ordered_when_pinned)
    show "distinct (map ent_program_key (req_entitlements r))"
      unfolding ents onchain_entitlements_keys using dist by (rule distinct_map_filter)
    fix p assume "req_pinned_first_output r = Some p"
    then obtain f where f: "fee = Some f" "0 < pfm_amount_sats f"
      and p: "p = \<lparr>pin_recipient_id = pfm_recipient_id f, pin_order_key = pfm_order_key f,
       pin_p2mr_program_hex = pfm_p2mr_program_hex f\<rparr>"
      using pinned_for_policy pin ppm(2) by force
    let ?e = "(candidate_weight (pool_fee_account f))\<lparr>ent_weight :=
        u128_from_u64 (acc_onchain_amount_sats (pool_fee_account f))\<rparr>"
    have "?e \<in> set (req_entitlements r)"
      using f by (auto simp: ents onchain_entitlements_of_def accounts push_fee_account_def
          pool_fee_account_def)
    moreover have "pin_matches p ?e"
      by (simp add: pin_matches_def p candidate_weight_def pool_fee_account_def)
    ultimately show "\<exists>e \<in> set (req_entitlements r). pin_matches p e" by blast
  qed
  moreover have "ent_weight e \<noteq> 0 \<and> (\<exists>program. parse_p2mr_program X e = Inr program) \<and>
      ?v * unat (ent_weight e) < 2 ^ 128" if e: "e \<in> set (req_entitlements r)" for e
  proof -
    from e obtain a where a: "a \<in> set accounts" "0 < acc_onchain_amount_sats a"
      and ea: "e = (candidate_weight a)\<lparr>ent_weight := u128_from_u64 (acc_onchain_amount_sats a)\<rparr>"
      by (auto simp: ents onchain_entitlements_of_def)
    have w: "unat (ent_weight e) = unat (acc_onchain_amount_sats a)"
      by (simp add: ea)
    have "?v * unat (acc_onchain_amount_sats a) < 2 ^ 64 * 2 ^ 64"
      using u64_lt [of "rm_coinbase_value_sats rm"] u64_lt [of "acc_onchain_amount_sats a"]
      by (intro mult_strict_mono) simp_all
    moreover have "ent_weight e \<noteq> 0"
      using w a(2) by (metis unat_0 word_gt_0 word_unat_eq_iff)
    ultimately show ?thesis
      using parse [of a] a w by (auto simp: ppm ea parse_program_weight)
  qed
  moreover have "sum_list (ent_weights (req_entitlements r)) < 2 ^ 128"
    using total cv u64_lt [of "rm_coinbase_value_sats rm"] by simp
  ultimately show ?thesis
    unfolding allocate_outputs_ok_iff using nonempty pos cv by simp
qed

lemma pool_fee_paid_first:
  assumes req: "build_policy_coinbase_request_with_coinbase_options rm bs policy suffix leaves = Inr (r, m)"
    and outs: "allocate_outputs X r = Inr outs" and f: "pool_fee_first_output m = Some f"
  shows "paid_output (hd outs) = owed_output X (pool_fee_account f)"
proof -
  from req obtain mn fee accounts miners where accounts: "accounts = miners @ push_fee_account fee"
    and dist: "distinct (map acc_program accounts)"
    and ents: "req_entitlements r = onchain_entitlements_of accounts"
    and pin: "req_pinned_first_output r = pinned_first_output_for_policy m"
    and total: "sum_list (ent_weights (req_entitlements r)) = unat (req_coinbase_value_sats r)"
    and ppm: "ppm_accounts m = sort_by compare_accounts accounts" "ppm_pool_fee m = fee"
    by (rule policy_request_Inr)
  obtain es where es: "ordered_entitlements r = Inr es"
    using allocated_exactly [OF outs total] by blast
  have paid: "map paid_output outs = map (owed_weight X) es"
    by (rule paid_as_ordered [OF outs es total])
  have some: "fee = Some f" "0 < pfm_amount_sats f"
    using f ppm(2) by (auto simp: pool_fee_first_output_def split: if_splits option.splits)
  let ?p = "\<lparr>pin_recipient_id = pfm_recipient_id f, pin_order_key = pfm_order_key f,
     pin_p2mr_program_hex = pfm_p2mr_program_hex f\<rparr>"
  have "req_pinned_first_output r = Some ?p"
    using f by (simp add: pin pinned_first_output_for_policy_def)
  with es obtain e rest where e: "es = e # rest" "pin_matches ?p e"
    by (rule ordered_entitlements_pinned)
  have "e \<in> set (onchain_entitlements_of accounts)"
    using mset_ordered_entitlements [OF es] ents e(1) by (metis list.set_intros(1) mset_eq_setD)
  then obtain a where a: "a \<in> set accounts"
    and ea: "e = (candidate_weight a)\<lparr>ent_weight := u128_from_u64 (acc_onchain_amount_sats a)\<rparr>"
    by (auto simp: onchain_entitlements_of_def)
  have "acc_program a = payout_program_key (pfm_p2mr_program_hex f)"
    using pin_program [OF e(2)] by (simp add: ea candidate_weight_def)
  then have "a = pool_fee_account f"
    by (rule fee_account_in [OF accounts some dist a])
  moreover have "owed_weight X e = owed_output X a"
    by (simp add: ea owed_weight_def owed_output_def parse_program_weight) (simp add: candidate_weight_def)
  moreover have "paid_output (hd outs) = owed_weight X e"
    using paid e(1) by (cases outs) simp_all
  ultimately show ?thesis by simp
qed

section \<open>Properties\<close>

text \<open>
  C19. The coinbase pays what the policy settled. For a block of positive value whose paid
  programs are valid, the builder accepts the policy's request, its outputs are, up to order,
  exactly the paid accounts with their on-chain amounts, to the satoshi, and under
  \<open>PoolFeeFirst\<close> a positive pool fee is output zero with the fee's amount.
\<close>

theorem policy_coinbase_exact:
  assumes req: "build_policy_coinbase_request_with_coinbase_options rm bs policy suffix leaves = Inr (r, m)"
    and pos: "rm_coinbase_value_sats rm \<noteq> 0"
    and parse: "\<forall>a \<in> set (ppm_accounts m). 0 < acc_onchain_amount_sats a \<longrightarrow>
      (\<exists>program. parse_p2mr_program X (candidate_weight a) = Inr program)"
  shows "\<exists>outs. allocate_outputs X r = Inr outs \<and>
    mset (map paid_output outs) =
      mset (map (owed_output X) (filter (\<lambda>a. 0 < acc_onchain_amount_sats a) (ppm_accounts m))) \<and>
    (\<forall>fee. pool_fee_first_output m = Some fee \<longrightarrow>
      paid_output (hd outs) = owed_output X (pool_fee_account fee))"
proof -
  from req obtain mn fee accounts miners where accounts: "accounts = miners @ push_fee_account fee"
    and dist: "distinct (map acc_program accounts)"
    and ents: "req_entitlements r = onchain_entitlements_of accounts"
    and pin: "req_pinned_first_output r = pinned_first_output_for_policy m"
    and total: "sum_list (ent_weights (req_entitlements r)) = unat (req_coinbase_value_sats r)"
    and ppm: "ppm_accounts m = sort_by compare_accounts accounts" "ppm_pool_fee m = fee"
    by (rule policy_request_Inr)
  obtain outs where outs: "allocate_outputs X r = Inr outs"
    using policy_request_accepted [OF req pos] parse by blast
  then obtain es where es: "ordered_entitlements r = Inr es"
    using allocated_exactly [OF outs total] by blast
  have paid: "map paid_output outs = map (owed_weight X) es"
    by (rule paid_as_ordered [OF outs es total])
  have "mset (map paid_output outs) = mset (map (owed_weight X) (onchain_entitlements_of accounts))"
    using mset_ordered_entitlements [OF es] by (simp add: paid ents)
  also have "\<dots> = mset (map (owed_output X) (filter (\<lambda>a. 0 < acc_onchain_amount_sats a) (ppm_accounts m)))"
    unfolding owed_weights by (simp add: ppm)
  finally have "mset (map paid_output outs) =
    mset (map (owed_output X) (filter (\<lambda>a. 0 < acc_onchain_amount_sats a) (ppm_accounts m)))" .
  moreover have "\<forall>fee. pool_fee_first_output m = Some fee \<longrightarrow> paid_output (hd outs) = owed_output X (pool_fee_account fee)"
    using pool_fee_paid_first [OF req outs] by blast
  ultimately show ?thesis
    using outs by blast
qed

definition sample_policy_request :: coinbase_build_request where
  "sample_policy_request =
     \<lparr>req_block_height = rm_block_height sample_reward, req_coinbase_value_sats = 100,
      req_entitlements = ppm_onchain_entitlements sample_policy_manifest, req_witness_nonce_hex = None,
      req_witness_merkle_leaves_hex = [], req_coinbase_script_sig_suffix_hex = None,
      req_pinned_first_output = pinned_first_output_for_policy sample_policy_manifest\<rparr>"

lemma sample_policy_request:
  "build_policy_coinbase_request_with_coinbase_options sample_reward sample_balances sample_policy None [] =
   Inr (sample_policy_request, sample_policy_manifest)"
proof -
  have "rm_coinbase_value_sats sample_reward = 100" by (simp add: sample_reward_def)
  then show ?thesis
    by (simp add: build_policy_coinbase_request_with_coinbase_options_def sample_applied
        sample_policy_request_def)
qed

lemma sample_programs:
  assumes "a \<in> set (ppm_accounts sample_policy_manifest)"
  shows "\<exists>b. acc_p2mr_program_hex a = sample_program b"
proof -
  have "ppm_accounts sample_policy_manifest = sort_by compare_accounts sample_paid"
    by (simp only: sample_policy_manifest_def manifest_of_block_def prod.case payout_policy_manifest.simps)
  then have "a \<in> set sample_paid"
    using assms by (simp only: set_sort_by)
  moreover have "map acc_p2mr_program_hex sample_paid = map sample_program [1, 2, 4, 3]"
    by (simp add: sample_paid_def sample_account_def pool_fee_account_def sample_fee_def)
  ultimately have "acc_p2mr_program_hex a \<in> set (map sample_program [1, 2, 4, 3])"
    by (metis image_eqI list.set_map)
  then show ?thesis
    by (simp only: set_map) blast
qed

lemma sample_fee_first: "pool_fee_first_output sample_policy_manifest = Some sample_fee"
  by (simp add: pool_fee_first_output_def sample_policy_manifest_def manifest_of_block_def sample_policy_def
      sample_fee_def)

theorem policy_coinbase_exact_witness:
  "\<exists>outs. allocate_outputs sample_crates sample_policy_request = Inr outs \<and>
     out_recipient_id (hd outs) = ''pool'' \<and> unat (out_amount_sats (hd outs)) = 5"
proof -
  have "\<exists>program. parse_p2mr_program sample_crates (candidate_weight a) = Inr program"
    if a: "a \<in> set (ppm_accounts sample_policy_manifest)" for a
  proof -
    obtain b where "acc_p2mr_program_hex a = sample_program b"
      using sample_programs [OF a] by blast
    then have "hex_decode sample_crates (ent_p2mr_program_hex (candidate_weight a)) = Inr (replicate 32 b)"
      by (simp add: candidate_weight_def sample_crates_def sample_program_def sample_decode_encode)
    then show ?thesis
      by (simp add: parse_p2mr_program_def P2MR_PROGRAM_LEN_def)
  qed
  moreover have "rm_coinbase_value_sats sample_reward \<noteq> 0"
    by (simp add: sample_reward_def)
  ultimately obtain outs where "allocate_outputs sample_crates sample_policy_request = Inr outs"
    and "paid_output (hd outs) = owed_output sample_crates (pool_fee_account sample_fee)"
    using policy_coinbase_exact [OF sample_policy_request, of sample_crates] sample_fee_first by blast
  then show ?thesis
    by (simp add: paid_output_def owed_output_def pool_fee_account_def sample_fee_def)
qed

end
