(* ===== verification/Maturity.thy ===== *)
theory Maturity
  imports Policy_Properties
begin

text \<open>
  The life of a block's payouts in \<open>qbit-prism/src/lib.rs\<close>: the entries a connected block adds,
  their maturity, the reversal of disconnected blocks, and the replay of the entries into the
  balances the next block starts from. The end of the theory puts them together as a step
  relation on ledgers and proves what every reachable ledger satisfies.
\<close>

section \<open>Definitions\<close>

definition maturity_entry_of :: "string \<Rightarrow> u64 \<Rightarrow> payout_policy_account \<Rightarrow> payout_maturity_entry" where
  "maturity_entry_of block_hash block_height account =
     \<lparr>mat_block_hash = block_hash, mat_block_height = block_height,
      mat_account_type = acc_account_type account, mat_recipient_id = acc_recipient_id account,
      mat_order_key = acc_order_key account, mat_p2mr_program_hex = acc_p2mr_program_hex account,
      mat_gross_amount_sats = acc_gross_amount_sats account,
      mat_prior_balance_sats = acc_prior_balance_sats account,
      mat_candidate_balance_sats = acc_candidate_balance_sats account,
      mat_onchain_amount_sats = acc_onchain_amount_sats account,
      mat_settlement_fee_sats = acc_settlement_fee_sats account,
      mat_carry_forward_balance_sats = acc_carry_forward_balance_sats account,
      mat_action = acc_action account, mat_state = Immature\<rparr>"

definition build_maturity_entries ::
    "string \<Rightarrow> u64 \<Rightarrow> payout_policy_manifest \<Rightarrow> payout_maturity_entry list" where
  "build_maturity_entries block_hash block_height policy_manifest =
     map (maturity_entry_of block_hash block_height) (ppm_accounts policy_manifest)"

definition matures_at :: "payout_maturity_entry \<Rightarrow> u64" where
  "matures_at entry = saturating_add (mat_block_height entry) QBIT_COINBASE_MATURITY_BLOCKS"

definition updated_entry :: "u64 \<Rightarrow> payout_maturity_entry \<Rightarrow> payout_maturity_entry" where
  "updated_entry active_tip_height entry =
     (if mat_state entry = Immature \<and> matures_at entry \<le> active_tip_height
      then entry\<lparr>mat_state := Mature\<rparr> else entry)"

definition update_maturity_states ::
    "payout_maturity_entry list \<Rightarrow> u64 \<Rightarrow> payout_maturity_entry list" where
  "update_maturity_states entries active_tip_height = map (updated_entry active_tip_height) entries"

definition reversed_entry ::
    "string list \<Rightarrow> u64 \<Rightarrow> payout_maturity_entry \<Rightarrow> prism_error + payout_maturity_entry" where
  "reversed_entry disconnected_block_hashes active_tip_height entry =
     (if mat_block_hash entry \<in> set disconnected_block_hashes then
        if matures_at entry \<le> active_tip_height
        then Inl (MaturePayoutDisconnect (mat_block_hash entry))
        else
          case mat_state entry of
            Immature \<Rightarrow> Inr (entry\<lparr>mat_state := Reversed\<rparr>)
          | Mature \<Rightarrow> Inl (MaturePayoutDisconnect (mat_block_hash entry))
          | Reversed \<Rightarrow> Inr entry
      else Inr entry)"

definition reverse_disconnected_blocks ::
    "payout_maturity_entry list \<Rightarrow> string list \<Rightarrow> u64 \<Rightarrow> prism_error + payout_maturity_entry list" where
  "reverse_disconnected_blocks entries disconnected_block_hashes active_tip_height =
     try_map (reversed_entry disconnected_block_hashes active_tip_height) entries"

definition entry_skipped :: "payout_maturity_entry \<Rightarrow> bool" where
  "entry_skipped entry \<longleftrightarrow> mat_state entry = Reversed \<or> mat_account_type entry = PoolFee"

definition replay_entry ::
    "payout_maturity_entry \<Rightarrow> carry_forward_balance option \<Rightarrow> prism_error + carry_forward_balance" where
  "replay_entry entry slot =
     and_then (ok_or (Panic ''u64 on-chain amount always fits i128'')
         (i128_checked_sub (i128_from_u64 (mat_gross_amount_sats entry))
            (i128_from_u64 (mat_onchain_amount_sats entry)))) (\<lambda>delta_sats.
     let balance = (case slot of
           None \<Rightarrow> \<lparr>cb_recipient_id = mat_recipient_id entry, cb_order_key = mat_order_key entry,
             cb_p2mr_program_hex = mat_p2mr_program_hex entry, cb_balance_sats = 0\<rparr>
         | Some balance \<Rightarrow> balance);
         balance = (if (mat_order_key entry, mat_recipient_id entry) <
               (cb_order_key balance, cb_recipient_id balance)
           then balance\<lparr>cb_recipient_id := mat_recipient_id entry, cb_order_key := mat_order_key entry\<rparr>
           else balance) in
     and_then (ok_or (Panic ''carry-forward delta replay should not overflow i128'')
         (i128_checked_add (cb_balance_sats balance) delta_sats)) (\<lambda>balance_sats.
     Inr (balance\<lparr>cb_balance_sats := balance_sats\<rparr>)))"

definition replayed_balances ::
    "payout_maturity_entry list \<Rightarrow> prism_error + (string, carry_forward_balance) btree" where
  "replayed_balances =
     try_fold (\<lambda>balances entry.
       if entry_skipped entry then Inr balances
       else
         and_then (replay_entry entry (bt_get balances (payout_program_key (mat_p2mr_program_hex entry))))
           (\<lambda>balance.
         Inr (bt_put (payout_program_key (mat_p2mr_program_hex entry)) balance balances))) []"

definition current_carry_forward_balances ::
    "payout_maturity_entry list \<Rightarrow> prism_error + carry_forward_balance list" where
  "current_carry_forward_balances entries =
     and_then (replayed_balances entries) (\<lambda>balances.
     Inr (filter (\<lambda>balance. cb_balance_sats balance \<noteq> 0) (bt_values balances)))"

definition owed_balances_for_display ::
    "payout_maturity_entry list \<Rightarrow> prism_error + carry_forward_balance list" where
  "owed_balances_for_display entries =
     and_then (current_carry_forward_balances entries) (\<lambda>balances.
     Inr (map (\<lambda>balance. balance\<lparr>cb_balance_sats :=
       (if sint (cb_balance_sats balance) < 0 then 0 else cb_balance_sats balance)\<rparr>) balances))"

section \<open>The replay computes what is owed\<close>

abbreviation mat_program :: "payout_maturity_entry \<Rightarrow> string" where
  "mat_program e \<equiv> payout_program_key (mat_p2mr_program_hex e)"

definition entry_delta :: "payout_maturity_entry \<Rightarrow> int" where
  "entry_delta e = uint (mat_gross_amount_sats e) - uint (mat_onchain_amount_sats e)"

text \<open>What the entries owe a program: the deltas of its active miner entries.\<close>

definition owed :: "payout_maturity_entry list \<Rightarrow> string \<Rightarrow> int" where
  "owed entries k = sum_list (map entry_delta (filter (\<lambda>e. \<not> entry_skipped e \<and> mat_program e = k) entries))"

lemma try_fold_skip:
  "try_fold (\<lambda>m x. if P x then Inr m else f m x) m0 xs = try_fold f m0 (filter (\<lambda>x. \<not> P x) xs)"
  by (induction xs arbitrary: m0) simp_all

lemma replayed_fold:
  "replayed_balances entries =
     try_fold (\<lambda>m e. and_then (replay_entry e (bt_get m (mat_program e))) (\<lambda>b. Inr (bt_put (mat_program e) b m)))
       [] (filter (\<lambda>e. \<not> entry_skipped e) entries)"
  by (simp only: replayed_balances_def try_fold_skip)

lemma u64_diff_range:
  assumes "0 \<le> a" and "a < 18446744073709551616" and "0 \<le> b" and "b < 18446744073709551616"
  shows "- (2 ^ 127) \<le> a - b \<and> a - b < (2 ^ 127 :: int)"
  using assms by simp

lemma entry_delta_range: "- (2 ^ 127) \<le> entry_delta e" "entry_delta e < 2 ^ 127"
  using u64_diff_range [OF uint_ge_0 u64_uint_lt uint_ge_0 u64_uint_lt] by (simp_all only: entry_delta_def)

lemma replay_entry_Inr:
  "(\<exists>b. replay_entry e slot = Inr b) \<longleftrightarrow>
     - (2 ^ 127) \<le> slot_value (sint \<circ> cb_balance_sats) slot + entry_delta e \<and>
     slot_value (sint \<circ> cb_balance_sats) slot + entry_delta e < 2 ^ 127"
  "replay_entry e slot = Inr b \<Longrightarrow>
     (sint \<circ> cb_balance_sats) b = slot_value (sint \<circ> cb_balance_sats) slot + entry_delta e"
  "replay_entry e slot = Inr b \<Longrightarrow> (\<And>w. slot = Some w \<Longrightarrow> cb_program w = mat_program e) \<Longrightarrow>
     cb_program b = mat_program e"
proof -
  obtain d where d: "i128_checked_sub (i128_from_u64 (mat_gross_amount_sats e))
      (i128_from_u64 (mat_onchain_amount_sats e)) = Some d" "sint d = entry_delta e"
    using entry_delta_range [of e]
    by (cases "i128_checked_sub (i128_from_u64 (mat_gross_amount_sats e))
      (i128_from_u64 (mat_onchain_amount_sats e))") (auto simp: checked_simps entry_delta_def)
  show "(\<exists>b. replay_entry e slot = Inr b) \<longleftrightarrow>
     - (2 ^ 127) \<le> slot_value (sint \<circ> cb_balance_sats) slot + entry_delta e \<and>
     slot_value (sint \<circ> cb_balance_sats) slot + entry_delta e < 2 ^ 127"
    by (cases slot) (auto simp: replay_entry_def Let_def d result_simps i128_checked_add_def)
  show "replay_entry e slot = Inr b \<Longrightarrow>
     (sint \<circ> cb_balance_sats) b = slot_value (sint \<circ> cb_balance_sats) slot + entry_delta e"
    and "replay_entry e slot = Inr b \<Longrightarrow> (\<And>w. slot = Some w \<Longrightarrow> cb_program w = mat_program e) \<Longrightarrow>
     cb_program b = mat_program e"
    by (auto simp: replay_entry_def Let_def d result_simps checked_simps split: option.splits if_splits)
qed

lemma fold_opt_value:
  assumes "try_fold_opt step slot xs = Inr slot'"
    and "\<And>x slot v. step x slot = Inr v \<Longrightarrow> f v = slot_value f slot + g x"
  shows "slot_value f slot' = slot_value f slot + sum_list (map g xs)"
  using assms(1)
proof (induction xs arbitrary: slot)
  case (Cons x xs)
  then obtain v where v: "step x slot = Inr v" and rest: "try_fold_opt step (Some v) xs = Inr slot'"
    by (auto simp: result_simps)
  show ?case
    using Cons.IH [OF rest] assms(2) [OF v] by simp
qed simp

lemma replayed_balances:
  assumes "replayed_balances entries = Inr m"
  shows "bt_ok m" and "(k, b) \<in> set (bt_entries m) \<Longrightarrow> cb_program b = k"
    and "slot_value (sint \<circ> cb_balance_sats) (bt_get m k) = owed entries k"
proof -
  note fold = assms [unfolded replayed_fold]
  show "bt_ok m"
    using bt.group_fold [OF bt_ok_Nil fold] by simp
  show "(k, b) \<in> set (bt_entries m) \<Longrightarrow> cb_program b = k"
    by (rule group_fold_all [OF bt_ok_Nil fold, where P = "\<lambda>k b. cb_program b = k"])
      (use replay_entry_Inr(3) in \<open>auto simp: bt_entries_def\<close>)
  have "try_fold_opt replay_entry None
      (filter (\<lambda>e. mat_program e = k) (filter (\<lambda>e. \<not> entry_skipped e) entries)) = Inr (bt_get m k)"
    using bt.group_fold [OF bt_ok_Nil fold] by simp
  from fold_opt_value [OF this replay_entry_Inr(2)]
  show "slot_value (sint \<circ> cb_balance_sats) (bt_get m k) = owed entries k"
    by (simp add: owed_def conj_commute)
qed

definition balance_of :: "carry_forward_balance list \<Rightarrow> string \<Rightarrow> int" where
  "balance_of bs k = sum_list (map (sint \<circ> cb_balance_sats) (filter (\<lambda>b. cb_program b = k) bs))"

lemma balance_of_absent: "k \<notin> cb_program ` set bs \<Longrightarrow> balance_of bs k = 0"
proof -
  assume "k \<notin> cb_program ` set bs"
  then have "filter (\<lambda>b. cb_program b = k) bs = []"
    by (auto simp: filter_empty_conv)
  then show ?thesis
    by (simp add: balance_of_def)
qed

lemma balance_of_distinct:
  "distinct (map cb_program bs) \<Longrightarrow> b \<in> set bs \<Longrightarrow> balance_of bs (cb_program b) = sint (cb_balance_sats b)"
proof (induction bs)
  case (Cons c bs)
  have "balance_of (c # bs) k = (if cb_program c = k then sint (cb_balance_sats c) else 0) + balance_of bs k" for k
    by (simp add: balance_of_def)
  then show ?case
    using Cons balance_of_absent [of "cb_program c" bs] by (auto simp: rev_image_eqI)
qed simp

lemma sint_zero_iff: "sint (x :: i128) = 0 \<longleftrightarrow> x = 0"
  by (metis i128_eq_iff signed_0)

lemma current_balances:
  assumes "current_carry_forward_balances entries = Inr bs"
  shows "sorted_wrt (<) (map cb_program bs)" and "balance_of bs k = owed entries k"
    and "b \<in> set bs \<Longrightarrow> cb_balance_sats b \<noteq> 0"
proof -
  from assms obtain m where m: "replayed_balances entries = Inr m"
    and bs: "bs = filter (\<lambda>b. cb_balance_sats b \<noteq> 0) (bt_values m)"
    by (auto simp: current_carry_forward_balances_def result_simps)
  note rb = replayed_balances [OF m]
  have keys: "map cb_program (bt_values m) = map fst (bt_entries m)"
    by (rule bt_values_keys(1) [OF rb(1,2)])
  then have "sorted_wrt (<) (map cb_program (bt_values m))"
    using bt.entries_sorted [OF rb(1)] by simp
  then show sorted: "sorted_wrt (<) (map cb_program bs)"
    by (simp add: bs sorted_wrt_map sorted_wrt_filter)
  then have dist: "distinct (map cb_program bs)"
    by (simp add: strict_sorted_iff)
  show "b \<in> set bs \<Longrightarrow> cb_balance_sats b \<noteq> 0"
    by (simp add: bs)
  show "balance_of bs k = owed entries k"
  proof (cases "k \<in> cb_program ` set bs")
    case True
    then obtain b where b: "b \<in> set bs" "cb_program b = k"
      by auto
    then obtain j where j: "(j, b) \<in> set (bt_entries m)"
      by (auto simp: bs bt_values_def)
    then have "bt_get m k = Some b"
      using rb(2) [OF j] b(2) bt.in_entries [OF rb(1)] by simp
    then show ?thesis
      using balance_of_distinct [OF dist b(1)] b(2) rb(3) [of k] by simp
  next
    case False
    have "slot_value (sint \<circ> cb_balance_sats) (bt_get m k) = 0"
    proof (cases "bt_get m k")
      case (Some b)
      then have "(k, b) \<in> set (bt_entries m)"
        using bt.in_entries [OF rb(1)] by simp
      then have "b \<in> set (bt_values m)" and "cb_program b = k"
        using rb(2) by (force simp: bt_values_def)+
      with False have "cb_balance_sats b = 0"
        by (auto simp: bs)
      with Some show ?thesis by simp
    qed simp
    then show ?thesis
      using rb(3) [of k] balance_of_absent [OF False] by simp
  qed
qed

section \<open>The prior balances of a block\<close>

lemma prior_lookup:
  assumes "carry_forward_by_payout_program bs = Inr m"
  shows "slot_value (sint \<circ> cb_balance_sats) (bt_get m k) = balance_of bs k"
    and "bt_get m k = None \<Longrightarrow> k \<notin> cb_program ` set bs"
proof -
  have fold: "try_fold_opt merge_balance None (filter (\<lambda>b. cb_program b = k) bs) = Inr (bt_get m k)"
    using bt.group_fold [OF bt_ok_Nil assms [unfolded carry_forward_by_payout_program_def]] by simp
  have "(sint \<circ> cb_balance_sats) v = slot_value (sint \<circ> cb_balance_sats) slot + (sint \<circ> cb_balance_sats) b"
    if "merge_balance b slot = Inr v" for b slot v
    using merge_balance_Inr(1) [OF that] by (cases slot) simp_all
  from fold_opt_value [where f = "sint \<circ> cb_balance_sats" and g = "sint \<circ> cb_balance_sats", OF fold this]
  show "slot_value (sint \<circ> cb_balance_sats) (bt_get m k) = balance_of bs k"
    by (simp add: balance_of_def)
  show "bt_get m k = None \<Longrightarrow> k \<notin> cb_program ` set bs"
    using fold try_fold_opt_Some [of merge_balance None "filter (\<lambda>b. cb_program b = k) bs"]
    by (auto simp: filter_empty_conv)
qed

lemma carried_seed_of:
  "carried_seeds seen bs = (seeds, seen') \<Longrightarrow> seed \<in> set seeds \<Longrightarrow>
     \<exists>b \<in> set bs. seed_program seed = cb_program b \<and> seed_prior_balance_sats seed = cb_balance_sats b"
proof (induction seen bs arbitrary: seeds seen' rule: carried_seeds.induct)
  case (2 seen b bs)
  show ?case
  proof (cases "cb_program b \<in> seen")
    case True
    then show ?thesis
      using 2(1) [OF refl True, of seeds seen'] 2(3,4) by auto
  next
    case False
    obtain rest seen'' where rest: "carried_seeds (insert (cb_program b) seen) bs = (rest, seen'')"
      by fastforce
    then show ?thesis
      using 2(2) [OF refl False rest] 2(3,4) False by auto
  qed
qed simp

lemma start_priors:
  assumes "start_accounts rm bs reward = Inr (accounts, seen)"
  shows "a \<in> set accounts \<Longrightarrow> sint (acc_prior_balance_sats a) = balance_of bs (acc_program a)"
    and "cb_program ` set bs \<subseteq> acc_program ` set accounts"
proof -
  from assms obtain gross prior where prior: "carry_forward_by_payout_program bs = Inr prior"
    and rest: "(case carried_seeds (set (map (\<lambda>(e, amount). ent_program e) gross)) (bt_values prior) of
        (carried, seen) \<Rightarrow> and_then (try_map account_of_seed (map (seed_of_gross prior) gross @ carried))
          (\<lambda>accounts. Inr (accounts, seen))) = Inr (accounts, seen)"
    by (auto simp: start_accounts_def Let_def and_then_Inr)
  from rest obtain carried where
    carried: "carried_seeds (set (map (\<lambda>(e, amount). ent_program e) gross)) (bt_values prior) = (carried, seen)"
    and accs: "try_map account_of_seed (map (seed_of_gross prior) gross @ carried) = Inr accounts"
    by (cases "carried_seeds (set (map (\<lambda>(e, amount). ent_program e) gross)) (bt_values prior)")
      (auto simp: and_then_Inr)
  note look = prior_lookup [OF prior] and cm = carry_forward_by_program [OF prior]
  have vals: "b \<in> set (bt_values prior) \<longleftrightarrow> bt_get prior (cb_program b) = Some b" for b
    using cm(2) bt.in_entries [OF cm(1)] by (force simp: bt_values_def)
  have seed: "sint (seed_prior_balance_sats seed) = balance_of bs (seed_program seed)"
    if "seed \<in> set (map (seed_of_gross prior) gross @ carried)" for seed
  proof -
    from that have "seed \<in> seed_of_gross prior ` set gross \<or> seed \<in> set carried"
      by (simp only: set_append set_map Un_iff)
    then consider p where "seed = seed_of_gross prior p" | "seed \<in> set carried"
      by blast
    then show ?thesis
    proof cases
      case 1
      then show ?thesis
        using look(1) [of "ent_program (fst p)"] by (cases p) (auto simp: seed_of_gross_def split: option.splits)
    next
      case 2
      then obtain b where "b \<in> set (bt_values prior)" "seed_program seed = cb_program b"
        "seed_prior_balance_sats seed = cb_balance_sats b"
        using carried_seed_of [OF carried] by blast
      then show ?thesis
        using look(1) [of "cb_program b"] vals by simp
    qed
  qed
  have all: "list_all2 (\<lambda>seed a. account_of_seed seed = Inr a) (map (seed_of_gross prior) gross @ carried) accounts"
    using accs by (simp add: result_simps)
  show "sint (acc_prior_balance_sats a) = balance_of bs (acc_program a)" if "a \<in> set accounts"
  proof -
    obtain i where i: "i < length accounts" "a = accounts ! i"
      using \<open>a \<in> set accounts\<close> by (auto simp: in_set_conv_nth)
    let ?seed = "(map (seed_of_gross prior) gross @ carried) ! i"
    have "account_of_seed ?seed = Inr a" and "?seed \<in> set (map (seed_of_gross prior) gross @ carried)"
      using list_all2_nthD2 [OF all i(1)] list_all2_lengthD [OF all] i by (simp_all only: nth_mem)
    then show ?thesis
      using seed account_of_seed_Inr by metis
  qed
  have "cb_program b \<in> acc_program ` set accounts" if b: "b \<in> set bs" for b
  proof -
    obtain c where c: "bt_get prior (cb_program b) = Some c"
      using look(2) [of "cb_program b"] b by (cases "bt_get prior (cb_program b)") auto
    then have "(cb_program b, c) \<in> set (bt_entries prior)"
      using bt.in_entries [OF cm(1)] by simp
    then have "cb_program c = cb_program b" and "c \<in> set (bt_values prior)"
      using cm(2) by (force simp: bt_values_def)+
    then have "cb_program b \<in> cb_program ` set (bt_values prior)"
      by (metis image_eqI)
    then have "cb_program b \<in> seen"
      using carried_seeds_keys [OF carried] by blast
    then show ?thesis
      by (simp only: start_accounts(3) [OF assms])
  qed
  then show "cb_program ` set bs \<subseteq> acc_program ` set accounts" by blast
qed

lemma settle_priors:
  assumes "settle_block rm bs policy = Inr (mn, fee, accounts)"
  shows "\<exists>miners. accounts = miners @ push_fee_account fee \<and> distinct (map acc_program miners) \<and>
    (\<forall>a \<in> set miners. sint (acc_prior_balance_sats a) = balance_of bs (acc_program a)) \<and>
    cb_program ` set bs \<subseteq> acc_program ` set miners"
proof -
  from assms obtain fee0 reward accounts0 seen plan miners where
    start: "start_accounts rm bs reward = Inr (accounts0, seen)"
    and plan: "onchain_plan accounts0 reward mn fee0 = Inr (plan, fee)"
    and pays: "try_fold (pay_account mn (rm_coinbase_value_sats rm)) accounts0 plan = Inr miners"
    and push: "push_pool_fee fee seen miners = Inr accounts"
    and fee0: "pool_fee_manifest_of (rm_coinbase_value_sats rm) policy = Inr fee0"
    by (auto simp: settle_block_def miner_reward_of_def Let_def and_then_Inr split: if_splits)
  note st = start_accounts [OF start] and f0 = pool_fee_manifest_of_Inr [OF fee0]
  note dist = distinct_triples [OF st(2)]
  note pay = pay_plan [OF dist onchain_plan_Inr(1) [OF plan dist f0(1)] pays]
  have "accounts = miners @ push_fee_account fee"
    using push by (auto simp: push_pool_fee_def push_fee_account_def split: option.splits if_splits)
  moreover have progs: "map acc_program miners = map acc_program accounts0"
    using pay by (auto simp: pay_by_def split: option.splits)
  moreover have "sint (acc_prior_balance_sats a) = balance_of bs (acc_program a)" if a: "a \<in> set miners" for a
  proof -
    obtain b where b: "b \<in> set accounts0" and ab: "a = pay_by plan b"
      using a pay by auto
    have "acc_prior_balance_sats a = acc_prior_balance_sats b" "acc_program a = acc_program b"
      by (simp_all add: ab pay_by_def split: option.splits)
    then show ?thesis
      using start_priors(1) [OF start b] by simp
  qed
  moreover have "acc_program ` set miners = acc_program ` set accounts0"
    using arg_cong [OF progs, of set] by simp
  ultimately show ?thesis
    using st(2) start_priors(2) [OF start] by (intro exI [of _ miners]) simp
qed

section \<open>The entries of a block\<close>

abbreviation is_miner :: "payout_policy_account \<Rightarrow> bool" where
  "is_miner a \<equiv> acc_account_type a = Miner"

lemma filter_unique_key:
  "distinct (map key xs) \<Longrightarrow> x \<in> set xs \<Longrightarrow> filter (\<lambda>y. key y = key x) xs = [x]"
proof (induction xs)
  case (Cons y xs)
  then have "\<forall>z \<in> set xs. key z \<noteq> key y" and "distinct (map key xs)"
    by (auto simp: image_iff)
  then show ?case
    using Cons by (cases "y = x") (auto simp: filter_empty_conv)
qed simp

lemma maturity_entry_simps [simp]:
  "mat_program (maturity_entry_of h ht a) = acc_program a"
  "entry_skipped (maturity_entry_of h ht a) \<longleftrightarrow> acc_account_type a = PoolFee"
  "mat_block_hash (maturity_entry_of h ht a) = h"
  "mat_state (maturity_entry_of h ht a) = Immature"
  "mat_block_height (maturity_entry_of h ht a) = ht"
  "entry_delta (maturity_entry_of h ht a) = uint (acc_gross_amount_sats a) - uint (acc_onchain_amount_sats a)"
  by (simp_all add: maturity_entry_of_def entry_skipped_def entry_delta_def)

lemma miner_iff: "acc_account_type a \<noteq> PoolFee \<longleftrightarrow> is_miner a"
  by (cases "acc_account_type a") simp_all

lemma active_block_entries:
  "filter (\<lambda>e. \<not> entry_skipped e) (build_maturity_entries h ht m) =
     map (maturity_entry_of h ht) (filter is_miner (ppm_accounts m))"
  by (simp add: build_maturity_entries_def filter_map comp_def miner_iff)

lemma owed_append: "owed (es @ es') k = owed es k + owed es' k"
  by (simp add: owed_def)

lemma owed_block:
  "owed (build_maturity_entries h ht m) k =
     sum_list (map (\<lambda>a. uint (acc_gross_amount_sats a) - uint (acc_onchain_amount_sats a))
       (filter (\<lambda>a. acc_program a = k) (filter is_miner (ppm_accounts m))))"
proof -
  have "filter (\<lambda>e. \<not> entry_skipped e \<and> mat_program e = k) (build_maturity_entries h ht m) =
      filter (\<lambda>e. mat_program e = k) (map (maturity_entry_of h ht) (filter is_miner (ppm_accounts m)))"
    unfolding active_block_entries [symmetric] by (simp add: conj_commute)
  then show ?thesis
    by (simp add: owed_def filter_map comp_def)
qed

lemma policy_miners:
  assumes "apply_payout_policy rm bs policy = Inr m"
  shows "distinct (map acc_program (filter is_miner (ppm_accounts m)))"
    and "a \<in> set (ppm_accounts m) \<Longrightarrow> is_miner a \<Longrightarrow>
      sint (acc_carry_forward_balance_sats a) = balance_of bs (acc_program a) +
        uint (acc_gross_amount_sats a) - uint (acc_onchain_amount_sats a)"
    and "b \<in> set bs \<Longrightarrow> \<exists>a \<in> set (ppm_accounts m). is_miner a \<and> acc_program a = cb_program b"
proof -
  from assms obtain mn fee accounts where block: "settle_block rm bs policy = Inr (mn, fee, accounts)"
    and m: "m = manifest_of_block rm policy (mn, fee, accounts)"
    by (rule apply_policy_Inr)
  from block obtain miners where accounts: "accounts = miners @ push_fee_account fee"
    and settled: "\<forall>a \<in> set miners. settled_account mn a" and dist: "distinct (map acc_program accounts)"
    by (rule settle_block_Inr)
  from settle_priors [OF block] obtain miners' where accounts': "accounts = miners' @ push_fee_account fee"
    and prior: "\<forall>a \<in> set miners'. sint (acc_prior_balance_sats a) = balance_of bs (acc_program a)"
    and covers: "cb_program ` set bs \<subseteq> acc_program ` set miners'"
    by blast
  have same: "miners' = miners"
    using accounts accounts' by simp
  have ppm: "ppm_accounts m = sort_by compare_accounts accounts"
    by (simp add: m manifest_of_block_def)
  have "distinct (map acc_program (ppm_accounts m))"
    unfolding ppm using dist by (metis mset_eq_imp_distinct_iff mset_map mset_sort_by)
  then show "distinct (map acc_program (filter is_miner (ppm_accounts m)))"
    by (rule distinct_map_filter)
  have miner: "a \<in> set miners \<longleftrightarrow> a \<in> set (ppm_accounts m) \<and> is_miner a" for a
    using settled by (auto simp: ppm accounts push_fee_account_def pool_fee_account_def settled_account_def
        split: option.splits)
  show "sint (acc_carry_forward_balance_sats a) = balance_of bs (acc_program a) +
      uint (acc_gross_amount_sats a) - uint (acc_onchain_amount_sats a)"
    if "a \<in> set (ppm_accounts m)" "is_miner a"
    using that miner settled prior same by (auto simp: settled_account_def)
  show "\<exists>a \<in> set (ppm_accounts m). is_miner a \<and> acc_program a = cb_program b" if "b \<in> set bs"
    using that covers miner same by force
qed

lemma block_owed:
  assumes "apply_payout_policy rm bs policy = Inr m"
  shows "a \<in> set (ppm_accounts m) \<Longrightarrow> is_miner a \<Longrightarrow>
      balance_of bs (acc_program a) + owed (build_maturity_entries h ht m) (acc_program a) =
        sint (acc_carry_forward_balance_sats a)"
    and "k \<notin> acc_program ` set (filter is_miner (ppm_accounts m)) \<Longrightarrow>
      balance_of bs k = 0 \<and> owed (build_maturity_entries h ht m) k = 0"
proof -
  note pm = policy_miners [OF assms]
  show "balance_of bs (acc_program a) + owed (build_maturity_entries h ht m) (acc_program a) =
      sint (acc_carry_forward_balance_sats a)"
    if a: "a \<in> set (ppm_accounts m)" "is_miner a"
    using filter_unique_key [OF pm(1), of a] a pm(2) [OF a] by (simp add: owed_block del: filter_filter)
  show "balance_of bs k = 0 \<and> owed (build_maturity_entries h ht m) k = 0"
    if k: "k \<notin> acc_program ` set (filter is_miner (ppm_accounts m))"
  proof
    show "balance_of bs k = 0"
      using k pm(3) by (intro balance_of_absent) force
    have "filter (\<lambda>a. acc_program a = k) (filter is_miner (ppm_accounts m)) = []"
      using k by (auto simp: filter_empty_conv)
    then show "owed (build_maturity_entries h ht m) k = 0"
      by (simp add: owed_block del: filter_filter)
  qed
qed

section \<open>Replay, update and reversal\<close>

lemma replay_one:
  assumes "replayed_balances entries = Inr m" and "\<not> entry_skipped e"
    and "- (2 ^ 127) \<le> owed entries (mat_program e) + entry_delta e"
    and "owed entries (mat_program e) + entry_delta e < 2 ^ 127"
  shows "\<exists>b. replay_entry e (bt_get m (mat_program e)) = Inr b"
  using assms(3,4) replayed_balances(3) [OF assms(1), of "mat_program e"] by (simp add: replay_entry_Inr(1))

lemma replay_block:
  assumes "replayed_balances entries = Inr m"
    and "distinct (map mat_program (filter (\<lambda>e. \<not> entry_skipped e) block))"
    and "\<And>e. e \<in> set block \<Longrightarrow> \<not> entry_skipped e \<Longrightarrow>
      - (2 ^ 127) \<le> owed entries (mat_program e) + entry_delta e \<and>
      owed entries (mat_program e) + entry_delta e < 2 ^ 127"
  shows "\<exists>bs. current_carry_forward_balances (entries @ block) = Inr bs"
proof -
  let ?active = "filter (\<lambda>e. \<not> entry_skipped e) block"
  have "\<exists>v. try_fold_opt replay_entry (bt_get m k) (filter (\<lambda>e. mat_program e = k) ?active) = Inr v" for k
  proof (cases "k \<in> mat_program ` set ?active")
    case True
    then obtain e where e: "e \<in> set ?active" "mat_program e = k"
      by auto
    then have "filter (\<lambda>e. mat_program e = k) ?active = [e]"
      using filter_unique_key [OF assms(2) e(1)] by simp
    moreover obtain b where "replay_entry e (bt_get m k) = Inr b"
      using replay_one [OF assms(1), of e] assms(3) [of e] e by auto
    ultimately show ?thesis by simp
  next
    case False
    then have "filter (\<lambda>e. mat_program e = k) ?active = []"
      by (auto simp: filter_empty_conv)
    then show ?thesis by simp
  qed
  from bt.group_fold_total [OF replayed_balances(1) [OF assms(1)] this]
  obtain m' where "try_fold (\<lambda>m e. and_then (replay_entry e (bt_get m (mat_program e)))
      (\<lambda>b. Inr (bt_put (mat_program e) b m))) m ?active = Inr m'"
    by blast
  then have "replayed_balances (entries @ block) = Inr m'"
    using assms(1) by (simp add: replayed_fold try_fold_append)
  then show ?thesis
    by (simp add: current_carry_forward_balances_def)
qed

lemma connect_replays:
  assumes "current_carry_forward_balances entries = Inr bs"
    and "apply_payout_policy rm bs policy = Inr m"
  shows "\<exists>bs'. current_carry_forward_balances (entries @ build_maturity_entries h ht m) = Inr bs'"
proof -
  from assms(1) obtain t where t: "replayed_balances entries = Inr t"
    by (auto simp: current_carry_forward_balances_def result_simps)
  note owed = current_balances(2) [OF assms(1)]
  show ?thesis
  proof (rule replay_block [OF t])
    show "distinct (map mat_program (filter (\<lambda>e. \<not> entry_skipped e) (build_maturity_entries h ht m)))"
      using policy_miners(1) [OF assms(2)] by (simp add: active_block_entries comp_def)
    fix e assume "e \<in> set (build_maturity_entries h ht m)" and "\<not> entry_skipped e"
    then obtain a where a: "a \<in> set (ppm_accounts m)" "is_miner a" and e: "e = maturity_entry_of h ht a"
      by (auto simp: build_maturity_entries_def miner_iff)
    have "owed entries (mat_program e) + entry_delta e = sint (acc_carry_forward_balance_sats a)"
      using policy_miners(2) [OF assms(2) a] by (simp add: e owed [symmetric])
    then show "- (2 ^ 127) \<le> owed entries (mat_program e) + entry_delta e \<and>
        owed entries (mat_program e) + entry_delta e < 2 ^ 127"
      using sint_greater_eq [of "acc_carry_forward_balance_sats a"]
        sint_less [of "acc_carry_forward_balance_sats a"] by simp
  qed
qed

text \<open>What a reversal does when it is not refused.\<close>

definition unmatured :: "u64 \<Rightarrow> payout_maturity_entry \<Rightarrow> bool" where
  "unmatured tip e \<longleftrightarrow> tip < matures_at e \<and> mat_state e \<noteq> Mature"

lemma reversed_entry_eq:
  "reversed_entry H tip e =
     (if mat_block_hash e \<notin> set H then Inr e
      else if unmatured tip e then Inr (e\<lparr>mat_state := Reversed\<rparr>)
      else Inl (MaturePayoutDisconnect (mat_block_hash e)))"
  by (auto simp: reversed_entry_def unmatured_def not_le split: maturity_state.splits
      intro: payout_maturity_entry.equality)

lemma reverse_Inr:
  "reverse_disconnected_blocks es H tip = Inr es' \<longleftrightarrow>
     (\<forall>e \<in> set es. mat_block_hash e \<in> set H \<longrightarrow> unmatured tip e) \<and>
     es' = map (\<lambda>e. if mat_block_hash e \<in> set H then e\<lparr>mat_state := Reversed\<rparr> else e) es"
  unfolding reverse_disconnected_blocks_def
proof (induction es arbitrary: es')
  case (Cons e es)
  then show ?case
    by (auto simp: reversed_entry_eq and_then_Inr)
qed auto

lemma active_after_reverse:
  assumes "reverse_disconnected_blocks es H tip = Inr es'"
  shows "filter (\<lambda>e. \<not> entry_skipped e) es' =
    filter (\<lambda>e. \<not> entry_skipped e) (filter (\<lambda>e. mat_block_hash e \<notin> set H) es)"
  using assms unfolding reverse_Inr
  by (induction es arbitrary: es') (auto simp: entry_skipped_def)

lemma current_active:
  "filter (\<lambda>e. \<not> entry_skipped e) es = filter (\<lambda>e. \<not> entry_skipped e) es' \<Longrightarrow>
     current_carry_forward_balances es = current_carry_forward_balances es'"
  by (simp add: current_carry_forward_balances_def replayed_fold)

lemma updated_entry_simps [simp]:
  "mat_block_hash (updated_entry tip e) = mat_block_hash e"
  "entry_skipped (updated_entry tip e) = entry_skipped e"
  "entry_delta (updated_entry tip e) = entry_delta e"
  by (simp_all add: updated_entry_def entry_skipped_def entry_delta_def)

text \<open>How an entry may change: an immature one matures or is reversed, the others are final.\<close>

definition entry_evolves :: "payout_maturity_entry \<Rightarrow> payout_maturity_entry \<Rightarrow> bool" where
  "entry_evolves e e' \<longleftrightarrow> e' = e \<or>
     (mat_state e = Immature \<and> (\<exists>s. s \<noteq> Immature \<and> e' = e\<lparr>mat_state := s\<rparr>))"

lemma update_evolves: "entry_evolves e (updated_entry tip e)"
  by (auto simp: entry_evolves_def updated_entry_def)

lemma reverse_evolves: "unmatured tip e \<Longrightarrow> entry_evolves e (e\<lparr>mat_state := Reversed\<rparr>)"
proof (cases "mat_state e")
  case Reversed
  then have "e\<lparr>mat_state := Reversed\<rparr> = e"
    by (intro payout_maturity_entry.equality) simp_all
  then show ?thesis by (simp add: entry_evolves_def)
qed (auto simp: entry_evolves_def unmatured_def)

lemma evolves_trans: "entry_evolves a b \<Longrightarrow> entry_evolves b c \<Longrightarrow> entry_evolves a c"
  by (auto simp: entry_evolves_def)

section \<open>Ledgers\<close>

text \<open>
  A ledger is its entries, with the blocks that are connected and the dust each swept to the
  pool fee. Connecting a block settles it against the replayed balances.
\<close>

record ledger =
  led_entries :: "payout_maturity_entry list"
  led_active :: "(string \<times> int) list"

inductive ledger_step :: "ledger \<Rightarrow> ledger \<Rightarrow> bool" where
  connect: "current_carry_forward_balances (led_entries l) = Inr bs \<Longrightarrow>
    apply_payout_policy rm bs policy = Inr m \<Longrightarrow>
    ledger_step l \<lparr>led_entries = led_entries l @ build_maturity_entries h ht m,
      led_active = led_active l @ [(h, swept_of (ppm_pool_fee m))]\<rparr>"
| advance: "ledger_step l (l\<lparr>led_entries := update_maturity_states (led_entries l) tip\<rparr>)"
| disconnect: "reverse_disconnected_blocks (led_entries l) H tip = Inr es \<Longrightarrow>
    ledger_step l \<lparr>led_entries = es, led_active = filter (\<lambda>(h, dust). h \<notin> set H) (led_active l)\<rparr>"

inductive_cases ledger_stepE: "ledger_step l l'"

definition empty_ledger :: ledger where
  "empty_ledger = \<lparr>led_entries = [], led_active = []\<rparr>"

abbreviation reachable_ledger :: "ledger \<Rightarrow> bool" where
  "reachable_ledger \<equiv> ledger_step\<^sup>*\<^sup>* empty_ledger"

abbreviation owed_under :: "(string \<Rightarrow> bool) \<Rightarrow> payout_maturity_entry list \<Rightarrow> int" where
  "owed_under P es \<equiv> sum_list (map entry_delta (filter (\<lambda>e. \<not> entry_skipped e \<and> P (mat_block_hash e)) es))"

abbreviation dust_under :: "(string \<Rightarrow> bool) \<Rightarrow> (string \<times> int) list \<Rightarrow> int" where
  "dust_under P blocks \<equiv> sum_list (map snd (filter (\<lambda>(h, dust). P h) blocks))"

lemma block_dust:
  assumes "apply_payout_policy rm bs policy = Inr m"
  shows "owed_under P (build_maturity_entries h ht m) = (if P h then swept_of (ppm_pool_fee m) else 0)"
proof -
  from assms obtain mn fee accounts where block: "settle_block rm bs policy = Inr (mn, fee, accounts)"
    and m: "m = manifest_of_block rm policy (mn, fee, accounts)"
    by (rule apply_policy_Inr)
  from block obtain miners where accounts: "accounts = miners @ push_fee_account fee"
    and settled: "\<forall>a \<in> set miners. settled_account mn a"
    and onchain: "sum_list (map (uint \<circ> acc_onchain_amount_sats) accounts) = uint (rm_coinbase_value_sats rm)"
    and gross: "sum_list (map (uint \<circ> acc_gross_amount_sats) miners) = uint (rm_coinbase_value_sats rm) - earned_of fee"
    and fee: "fee_of fee = earned_of fee + swept_of fee"
    by (rule settle_block_Inr)
  let ?delta = "\<lambda>a. uint (acc_gross_amount_sats a) - uint (acc_onchain_amount_sats a)"
  have "filter is_miner accounts = miners"
    using settled by (auto simp: accounts push_fee_account_def pool_fee_account_def settled_account_def
        split: option.splits)
  then have "mset (filter is_miner (ppm_accounts m)) = mset miners"
    by (metis (no_types, lifting) accounts m manifest_of_block_def mset_filter mset_sort_by
        payout_policy_manifest.select_convs(8) prod.case)
  then have "sum_list (map ?delta (filter is_miner (ppm_accounts m))) = sum_list (map ?delta miners)"
    by (rule sum_list_mset)
  also have "\<dots> = sum_list (map (uint \<circ> acc_gross_amount_sats) miners) -
      sum_list (map (uint \<circ> acc_onchain_amount_sats) miners)"
    by (induction miners) simp_all
  also have "\<dots> = swept_of fee"
    using onchain gross fee
    by (simp add: accounts push_fee_account_def fee_of_def pool_fee_account_def split: option.splits)
  finally have total: "sum_list (map ?delta (filter is_miner (ppm_accounts m))) = swept_of (ppm_pool_fee m)"
    by (simp add: m manifest_of_block_def)
  have "filter (\<lambda>e. \<not> entry_skipped e \<and> P (mat_block_hash e)) (build_maturity_entries h ht m) =
      (if P h then map (maturity_entry_of h ht) (filter is_miner (ppm_accounts m)) else [])"
    by (simp add: build_maturity_entries_def filter_map comp_def miner_iff)
  then show ?thesis
    using total by (simp add: comp_def)
qed

lemma replay_total:
  assumes "current_carry_forward_balances es = Inr bs"
  shows "sum_list (map (sint \<circ> cb_balance_sats) bs) = owed_under (\<lambda>h. True) es"
proof -
  from assms obtain m where m: "replayed_balances es = Inr m"
    and bs: "bs = filter (\<lambda>b. cb_balance_sats b \<noteq> 0) (bt_values m)"
    by (auto simp: current_carry_forward_balances_def result_simps)
  have "sum_list (map (sint \<circ> cb_balance_sats) (bt_values m)) =
      sum_list (map entry_delta (filter (\<lambda>e. \<not> entry_skipped e) es))"
    using group_fold_sum [where f = "sint \<circ> cb_balance_sats" and g = entry_delta, OF bt_ok_Nil
        m [unfolded replayed_fold] replay_entry_Inr(2)]
    by (simp add: bt_values_def bt_entries_def)
  moreover have "sum_list (map (sint \<circ> cb_balance_sats) (filter (\<lambda>b. cb_balance_sats b \<noteq> 0) xs)) =
      sum_list (map (sint \<circ> cb_balance_sats) xs)" for xs :: "carry_forward_balance list"
    by (induction xs) auto
  ultimately show ?thesis
    by (simp add: bs)
qed

lemma abs_delta: "\<bar>entry_delta e\<bar> \<le> 18446744073709551615"
proof -
  have bound: "\<bar>a - b\<bar> \<le> 18446744073709551615"
    if "0 \<le> a" "a < 18446744073709551616" "0 \<le> b" "b < 18446744073709551616" for a b :: int
    using that by linarith
  show ?thesis
    unfolding entry_delta_def by (rule bound [OF uint_ge_0 u64_uint_lt uint_ge_0 u64_uint_lt])
qed

lemma replay_fold_total:
  "\<bar>slot_value (sint \<circ> cb_balance_sats) slot\<bar> + 18446744073709551615 * int (length xs) < 2 ^ 127 \<Longrightarrow>
     \<exists>v. try_fold_opt replay_entry slot xs = Inr v"
proof (induction xs arbitrary: slot)
  case (Cons e xs)
  let ?v = "slot_value (sint \<circ> cb_balance_sats) slot"
  have "\<bar>?v + entry_delta e\<bar> \<le> \<bar>?v\<bar> + 18446744073709551615"
    using abs_delta [of e] by linarith
  then have room: "\<bar>?v + entry_delta e\<bar> + 18446744073709551615 * int (length xs) < 2 ^ 127"
    using Cons.prems by simp
  then have "- (2 ^ 127) \<le> ?v + entry_delta e \<and> ?v + entry_delta e < 2 ^ 127"
    by linarith
  then obtain b where b: "replay_entry e slot = Inr b"
    using replay_entry_Inr(1) by blast
  then have "slot_value (sint \<circ> cb_balance_sats) (Some b) = ?v + entry_delta e"
    using replay_entry_Inr(2) by simp
  then show ?case
    using Cons.IH [of "Some b"] room b by simp
qed simp

lemma ledger_invariant:
  "ledger_step\<^sup>*\<^sup>* empty_ledger l \<Longrightarrow> owed_under P (led_entries l) = dust_under P (led_active l)"
proof (induction arbitrary: P rule: rtranclp_induct)
  case base
  show ?case by (simp add: empty_ledger_def)
next
  case (step l l')
  from step.hyps(2) show ?case
  proof (cases rule: ledger_step.cases)
    case (connect bs rm policy m h ht)
    then show ?thesis
      using step.IH [of P] block_dust [OF connect(3), of P] by simp
  next
    case (advance tip)
    have "owed_under P (map (updated_entry tip) es) = owed_under P es" for es
      by (simp add: filter_map comp_def)
    then show ?thesis
      using step.IH [of P] by (simp add: advance update_maturity_states_def)
  next
    case (disconnect H tip es)
    have "filter (\<lambda>e. \<not> entry_skipped e \<and> P (mat_block_hash e)) es =
        filter (\<lambda>e. P (mat_block_hash e)) (filter (\<lambda>e. \<not> entry_skipped e) es)"
      by (simp add: conj_commute)
    also have "\<dots> = filter (\<lambda>e. \<not> entry_skipped e \<and> P (mat_block_hash e) \<and> mat_block_hash e \<notin> set H)
        (led_entries l)"
      unfolding active_after_reverse [OF disconnect(2)] by (simp add: conj_ac)
    finally have "owed_under P es = owed_under (\<lambda>h. P h \<and> h \<notin> set H) (led_entries l)"
      by (rule arg_cong)
    moreover have "dust_under P (led_active l') = dust_under (\<lambda>h. P h \<and> h \<notin> set H) (led_active l)"
      by (simp add: disconnect(1)) (metis (mono_tags, lifting) case_prod_beta)
    ultimately show ?thesis
      using step.IH [of "\<lambda>h. P h \<and> h \<notin> set H"] by (simp add: disconnect(1))
  qed
qed

lemma step_evolves:
  "ledger_step l l' \<Longrightarrow> list_all2 entry_evolves (led_entries l) (take (length (led_entries l)) (led_entries l'))"
proof (induction rule: ledger_step.induct)
  case (disconnect l H tip es)
  then show ?case
    by (auto simp: reverse_Inr list_all2_conv_all_nth intro!: reverse_evolves) (simp add: entry_evolves_def)
qed (auto simp: list_all2_conv_all_nth update_maturity_states_def update_evolves, auto simp: entry_evolves_def)

lemma step_length: "ledger_step l l' \<Longrightarrow> length (led_entries l) \<le> length (led_entries l')"
  by (induction rule: ledger_step.induct) (auto simp: update_maturity_states_def reverse_Inr)

lemma steps_evolve:
  "ledger_step\<^sup>*\<^sup>* l l' \<Longrightarrow> length (led_entries l) \<le> length (led_entries l') \<and>
     (\<forall>i < length (led_entries l). entry_evolves (led_entries l ! i) (led_entries l' ! i))"
proof (induction rule: rtranclp_induct)
  case base
  show ?case by (simp add: entry_evolves_def)
next
  case (step l' l'')
  have "entry_evolves (led_entries l' ! i) (led_entries l'' ! i)" if "i < length (led_entries l')" for i
    using step_evolves [OF step.hyps(2)] that by (auto simp: list_all2_conv_all_nth)
  then show ?case
    using step.IH step_length [OF step.hyps(2)] by (auto intro: evolves_trans order_trans)
qed

section \<open>Properties\<close>

text \<open>
  C20. The replay carries forward what the policy says. When a block is settled against the
  balances replayed from the entries so far, replaying the entries with the block's appended
  succeeds and gives every miner account exactly its carry-forward amount, and nobody else
  anything.
\<close>

theorem replay_follows_policy:
  assumes "current_carry_forward_balances entries = Inr bs"
    and "apply_payout_policy rm bs policy = Inr m"
  shows "\<exists>bs'. current_carry_forward_balances (entries @ build_maturity_entries h ht m) = Inr bs' \<and>
    (\<forall>a \<in> set (ppm_accounts m). is_miner a \<longrightarrow>
      balance_of bs' (acc_program a) = sint (acc_carry_forward_balance_sats a)) \<and>
    (\<forall>b \<in> set bs'. \<exists>a \<in> set (ppm_accounts m). is_miner a \<and> acc_program a = cb_program b)"
proof -
  obtain bs' where bs': "current_carry_forward_balances (entries @ build_maturity_entries h ht m) = Inr bs'"
    using connect_replays [OF assms] by blast
  note cur = current_balances [OF bs'] and bo = block_owed [OF assms(2), where h = h and ht = ht]
  have total: "balance_of bs' k = balance_of bs k + owed (build_maturity_entries h ht m) k" for k
    by (simp add: cur(2) owed_append current_balances(2) [OF assms(1)])
  have "\<exists>a \<in> set (ppm_accounts m). is_miner a \<and> acc_program a = cb_program b" if b: "b \<in> set bs'" for b
  proof (rule ccontr)
    assume "\<not> ?thesis"
    then have "balance_of bs' (cb_program b) = 0"
      using bo(2) [of "cb_program b"] by (force simp: total)
    moreover have "distinct (map cb_program bs')"
      using cur(1) by (simp add: strict_sorted_iff)
    ultimately have "sint (cb_balance_sats b) = 0"
      using balance_of_distinct b by metis
    then show False
      using cur(3) [OF b] by (simp add: sint_zero_iff)
  qed
  then show ?thesis
    using bs' bo(1) total by auto
qed

text \<open>
  C21. Disconnecting blocks undoes them: after a reversal the replayed balances are those of the
  entries of the blocks that stay. In particular connecting a block and disconnecting it again
  restores the balances.
\<close>

theorem disconnect_restores_balances:
  assumes "reverse_disconnected_blocks entries hashes tip = Inr entries'"
  shows "current_carry_forward_balances entries' =
      current_carry_forward_balances (filter (\<lambda>e. mat_block_hash e \<notin> set hashes) entries) \<and>
    (\<forall>before h ht m. entries = before @ build_maturity_entries h ht m \<and> hashes = [h] \<and>
       h \<notin> mat_block_hash ` set before \<longrightarrow>
       current_carry_forward_balances entries' = current_carry_forward_balances before)"
proof -
  have undone: "current_carry_forward_balances entries' =
      current_carry_forward_balances (filter (\<lambda>e. mat_block_hash e \<notin> set hashes) entries)"
    by (rule current_active) (rule active_after_reverse [OF assms])
  moreover have "filter (\<lambda>e. mat_block_hash e \<notin> set [h]) (before @ build_maturity_entries h ht m) = before"
    if "h \<notin> mat_block_hash ` set before" for before h ht m
    using that by (force simp: build_maturity_entries_def filter_id_conv filter_empty_conv)
  ultimately show ?thesis
    by metis
qed

text \<open>
  Exactly when a disconnect is refused: when some entry of a named block has matured, by
  its state or by its height, and the error names such a block. A disconnect that is not
  refused is idempotent.
\<close>

theorem disconnect_refused_iff:
  "((\<exists>e. reverse_disconnected_blocks entries hashes tip = Inl e) \<longleftrightarrow>
     (\<exists>e \<in> set entries. mat_block_hash e \<in> set hashes \<and> (matures_at e \<le> tip \<or> mat_state e = Mature))) \<and>
   (reverse_disconnected_blocks entries hashes tip = Inl err \<longrightarrow>
     (\<exists>e \<in> set entries. mat_block_hash e \<in> set hashes \<and> err = MaturePayoutDisconnect (mat_block_hash e))) \<and>
   (reverse_disconnected_blocks entries hashes tip = Inr entries' \<longrightarrow>
     reverse_disconnected_blocks entries' hashes tip = Inr entries')"
proof (intro conjI impI)
  have "(\<exists>e. reverse_disconnected_blocks entries hashes tip = Inl e) \<longleftrightarrow>
      \<not> (\<exists>es. reverse_disconnected_blocks entries hashes tip = Inr es)"
    by (cases "reverse_disconnected_blocks entries hashes tip") simp_all
  then show "(\<exists>e. reverse_disconnected_blocks entries hashes tip = Inl e) \<longleftrightarrow>
     (\<exists>e \<in> set entries. mat_block_hash e \<in> set hashes \<and> (matures_at e \<le> tip \<or> mat_state e = Mature))"
    by (auto simp: reverse_Inr unmatured_def not_less)
  show "\<exists>e \<in> set entries. mat_block_hash e \<in> set hashes \<and> err = MaturePayoutDisconnect (mat_block_hash e)"
    if "reverse_disconnected_blocks entries hashes tip = Inl err"
    using try_map_Inl_D [OF that [unfolded reverse_disconnected_blocks_def]]
    by (auto simp: reversed_entry_eq split: if_splits)
  show "reverse_disconnected_blocks entries' hashes tip = Inr entries'"
    if "reverse_disconnected_blocks entries hashes tip = Inr entries'"
    using that by (auto simp: reverse_Inr unmatured_def matures_at_def)
qed

text \<open>
  C22. Every reachable ledger is solvent. What the pool owes its miners in total is exactly the
  dust the connected blocks swept to the pool fee, whatever was connected, matured and
  disconnected before.
\<close>

theorem ledger_solvent:
  assumes "reachable_ledger l" and "current_carry_forward_balances (led_entries l) = Inr bs"
  shows "sum_list (map (sint \<circ> cb_balance_sats) bs) = sum_list (map snd (led_active l))"
  using replay_total [OF assms(2)] ledger_invariant [OF assms(1), of "\<lambda>h. True"] by simp

text \<open>
  Entries of a ledger are never removed, only their state changes, and a mature or reversed
  entry is final.
\<close>

theorem ledger_entries_final:
  assumes "ledger_step\<^sup>*\<^sup>* l l'" and "i < length (led_entries l)"
  shows "length (led_entries l) \<le> length (led_entries l') \<and>
    led_entries l' ! i = (led_entries l ! i)\<lparr>mat_state := mat_state (led_entries l' ! i)\<rparr> \<and>
    (mat_state (led_entries l ! i) \<noteq> Immature \<longrightarrow> led_entries l' ! i = led_entries l ! i)"
proof -
  have "entry_evolves (led_entries l ! i) (led_entries l' ! i)"
    using steps_evolve [OF assms(1)] assms(2) by blast
  moreover have "e\<lparr>mat_state := mat_state e\<rparr> = e" for e :: payout_maturity_entry
    by (intro payout_maturity_entry.equality) simp_all
  ultimately show ?thesis
    using steps_evolve [OF assms(1)] by (auto simp: entry_evolves_def)
qed

text \<open>
  The \<open>expect\<close> calls of the replay cannot fail: below \<open>2 ^ 63\<close> entries no sum leaves \<open>i128\<close>,
  whatever the amounts. The displayed balances are then the positive parts.
\<close>

theorem replay_never_panics:
  assumes "length entries \<le> 2 ^ 63"
  shows "\<exists>bs. current_carry_forward_balances entries = Inr bs \<and>
    owed_balances_for_display entries =
      Inr (map (\<lambda>b. b\<lparr>cb_balance_sats := word_of_int (max 0 (sint (cb_balance_sats b)))\<rparr>) bs)"
proof -
  let ?xs = "\<lambda>k. filter (\<lambda>e. mat_program e = k) (filter (\<lambda>e. \<not> entry_skipped e) entries)"
  have "\<exists>v. try_fold_opt replay_entry (bt_get [] k) (?xs k) = Inr v" for k
  proof (rule replay_fold_total)
    have "length (?xs k) \<le> 2 ^ 63"
      using assms by (metis length_filter_le order_trans)
    then show "\<bar>slot_value (sint \<circ> cb_balance_sats) (bt_get [] k)\<bar> +
        18446744073709551615 * int (length (?xs k)) < 2 ^ 127"
      by simp
  qed
  from bt.group_fold_total [OF bt_ok_Nil this] obtain m where "replayed_balances entries = Inr m"
    unfolding replayed_fold by blast
  then obtain bs where bs: "current_carry_forward_balances entries = Inr bs"
    by (simp add: current_carry_forward_balances_def)
  have "(if sint w < 0 then 0 else w) = word_of_int (max 0 (sint w))" for w :: i128
    by (simp add: max_def)
  then show ?thesis
    by (simp add: bs owed_balances_for_display_def)
qed

section \<open>A sample ledger\<close>

text \<open>The sample block under a floor of 40 sats: the smaller miner's 32 sats are swept.\<close>

definition sample_dust_policy :: payout_policy where
  "sample_dust_policy = sample_policy\<lparr>pp_min_output_sats := Some 40\<rparr>"

definition sample_dust_fee :: pool_fee_manifest where
  "sample_dust_fee = sample_fee\<lparr>pfm_swept_dust_liability_sats := 32, pfm_amount_sats := 37\<rparr>"

definition sample_dust_accounts :: "payout_policy_account list" where
  "sample_dust_accounts = [sample_account ''a'' ''1'' 1 32 0, sample_account ''b'' ''2'' 2 63 0]"

lemma sample_dust_reward: "miner_reward_of sample_reward sample_dust_policy = Inr (40, Some sample_fee, 95)"
  by (simp add: miner_reward_of_def sample_dust_policy_def sample_policy_def policy_min_output_sats_def
      pool_fee_manifest_of_def sample_reward_def sample_fee_def Let_def checked_mul_def u128_from_u64_def
      u64_try_from_u128_def checked_sub_def)

lemma sample_dust_started: "start_accounts sample_reward [] 95 =
   Inr (sample_dust_accounts, {sample_program 1, sample_program 2})"
  unfolding start_accounts_def sample_aggregated and_then.simps sample_gross
  by (simp add: carry_forward_by_payout_program_def i128_checked_add_def bt_values_def bt_entries_def
      seed_of_gross_def sample_weighted_def account_of_seed_def Let_def i128_from_u64_def sample_account_def
      sample_dust_accounts_def insert_commute)

lemma sample_dust_payable: "eligible_onchain_accounts sample_dust_accounts 40 = [1]"
  by (simp add: eligible_onchain_accounts_def sample_dust_accounts_def sample_account_def upt_rec sint_i128
      i128_from_u64_def)

definition sample_dust_paid :: "payout_policy_account list" where
  "sample_dust_paid =
    [sample_account ''a'' ''1'' 1 32 0,
     (sample_account ''b'' ''2'' 2 63 0)\<lparr>acc_onchain_amount_sats := 63, acc_carry_forward_balance_sats := 0,
       acc_action := Onchain\<rparr>]"

lemma sample_dust_plan: "onchain_plan sample_dust_accounts 95 40 (Some sample_fee) =
   Inr ([(sample_weighted ''b'' ''2'' 2 63, 63)], Some sample_dust_fee)"
  unfolding onchain_plan_def Let_def sample_dust_payable
  by (simp add: selected_candidate_balance_sum_def full_candidate_def sample_weight sample_candidate
      sample_dust_accounts_def u128_try_from_i128_def sint_i128 checked_add_def u128_from_u64_def
      u64_try_from_u128_def u64_try_from_i128_def checked_sub_def add_swept_dust_to_pool_fee_def
      sample_fee_def sample_dust_fee_def sample_weighted_def)

lemma sample_dust_pays: "try_fold (pay_account 40 100) sample_dust_accounts
     [(sample_weighted ''b'' ''2'' 2 63, 63)] = Inr sample_dust_paid"
  by (simp add: sample_dust_accounts_def pay_account_def account_matches_def sample_weighted_def
      sample_account_def upt_rec i128_checked_sub_def sample_dust_paid_def i128_from_u64_def sint_i128)

lemma sample_dust_settled: "settle_block sample_reward [] sample_dust_policy =
   Inr (40, Some sample_dust_fee, sample_dust_paid @ [pool_fee_account sample_dust_fee])"
proof -
  have cv: "rm_coinbase_value_sats sample_reward = 100"
    and fee: "pfm_p2mr_program_hex sample_dust_fee = sample_program 3"
    by (simp_all add: sample_reward_def sample_fee_def sample_dust_fee_def)
  show ?thesis
    unfolding settle_block_def sample_dust_reward and_then.simps prod.case sample_dust_started
      sample_dust_plan cv sample_dust_pays
    by (simp add: push_pool_fee_def fee)
qed

definition sample_dust_manifest :: payout_policy_manifest where
  "sample_dust_manifest = manifest_of_block sample_reward sample_dust_policy
     (40, Some sample_dust_fee, sample_dust_paid @ [pool_fee_account sample_dust_fee])"

lemma sample_dust_applied:
  "apply_payout_policy sample_reward [] sample_dust_policy = Inr sample_dust_manifest"
  by (simp add: apply_policy_eq sample_dust_settled sample_dust_manifest_def)

lemma replay_nothing: "current_carry_forward_balances [] = Inr []"
  by (simp add: current_carry_forward_balances_def replayed_balances_def bt_values_def bt_entries_def)

definition sample_ledger :: ledger where
  "sample_ledger = \<lparr>led_entries = build_maturity_entries ''h1'' 6 sample_dust_manifest,
     led_active = [(''h1'', 32)]\<rparr>"

lemma sample_ledger_reachable: "reachable_ledger sample_ledger"
proof -
  have dust: "swept_of (ppm_pool_fee sample_dust_manifest) = 32"
    by (simp add: sample_dust_manifest_def manifest_of_block_def swept_of_def sample_dust_fee_def)
  have "current_carry_forward_balances (led_entries empty_ledger) = Inr []"
    by (simp add: empty_ledger_def replay_nothing)
  from ledger_step.connect [OF this sample_dust_applied, where h = "''h1''" and ht = 6]
  have "ledger_step empty_ledger sample_ledger"
    unfolding dust by (simp add: empty_ledger_def sample_ledger_def)
  then show ?thesis by (rule r_into_rtranclp)
qed

section \<open>Witnesses\<close>

theorem replay_follows_policy_witness:
  "\<exists>bs'. current_carry_forward_balances (build_maturity_entries ''h1'' 6 sample_dust_manifest) = Inr bs' \<and>
    (\<forall>a \<in> set (ppm_accounts sample_dust_manifest). is_miner a \<longrightarrow>
      balance_of bs' (acc_program a) = sint (acc_carry_forward_balance_sats a))"
  using replay_follows_policy [OF replay_nothing sample_dust_applied, of "''h1''" 6] by auto

lemma sample_reversed:
  "\<exists>es. reverse_disconnected_blocks (led_entries sample_ledger) [''h1''] 7 = Inr es"
proof -
  have "unmatured 7 e" if "e \<in> set (build_maturity_entries ''h1'' 6 m)" for e m
    using that by (auto simp: build_maturity_entries_def unmatured_def matures_at_def saturating_add_def
        QBIT_COINBASE_MATURITY_BLOCKS_def)
  then show ?thesis
    by (simp add: reverse_Inr sample_ledger_def)
qed

theorem disconnect_restores_balances_witness:
  "\<exists>es. reverse_disconnected_blocks (led_entries sample_ledger) [''h1''] 7 = Inr es \<and>
     current_carry_forward_balances es = Inr []"
proof -
  obtain es where es: "reverse_disconnected_blocks (led_entries sample_ledger) [''h1''] 7 = Inr es"
    using sample_reversed by blast
  have "led_entries sample_ledger = [] @ build_maturity_entries ''h1'' 6 sample_dust_manifest"
    by (simp add: sample_ledger_def)
  then have "current_carry_forward_balances es = current_carry_forward_balances []"
    using disconnect_restores_balances [OF es] by (metis empty_iff image_empty list.set(1))
  then show ?thesis
    using es replay_nothing by simp
qed

theorem disconnect_refused_iff_witness:
  "(\<exists>e. reverse_disconnected_blocks
      [maturity_entry_of ''h1'' 6 (pool_fee_account sample_fee)] [''h1''] 1006 = Inl e) \<and>
   \<not> (\<exists>e. reverse_disconnected_blocks
      [maturity_entry_of ''h1'' 6 (pool_fee_account sample_fee)] [''h1''] 1005 = Inl e)"
proof -
  let ?es = "[maturity_entry_of ''h1'' 6 (pool_fee_account sample_fee)]"
  have "matures_at (hd ?es) = 1006" "mat_block_hash (hd ?es) = ''h1''" "mat_state (hd ?es) \<noteq> Mature"
    by (simp_all add: matures_at_def saturating_add_def QBIT_COINBASE_MATURITY_BLOCKS_def)
  then show ?thesis
    using disconnect_refused_iff [of ?es "[''h1'']" 1006 "Panic []" "[]"]
      disconnect_refused_iff [of ?es "[''h1'']" 1005 "Panic []" "[]"] by simp
qed

theorem ledger_solvent_witness:
  "\<exists>bs. current_carry_forward_balances (led_entries sample_ledger) = Inr bs \<and>
     sum_list (map (sint \<circ> cb_balance_sats) bs) = 32"
proof -
  obtain bs where "current_carry_forward_balances (led_entries sample_ledger) = Inr bs"
    using connect_replays [OF replay_nothing sample_dust_applied, of "''h1''" 6]
    by (auto simp: sample_ledger_def)
  moreover from ledger_solvent [OF sample_ledger_reachable this]
  have "sum_list (map (sint \<circ> cb_balance_sats) bs) = 32"
    by (simp add: sample_ledger_def)
  ultimately show ?thesis by blast
qed

theorem ledger_entries_final_witness:
  "mat_state (update_maturity_states (led_entries sample_ledger) 2000 ! 0) = Mature \<and>
   update_maturity_states (update_maturity_states (led_entries sample_ledger) 2000) 3000 ! 0 =
     update_maturity_states (led_entries sample_ledger) 2000 ! 0"
proof -
  let ?es = "update_maturity_states (led_entries sample_ledger) 2000"
  have "length (ppm_accounts sample_dust_manifest) = 3"
    by (simp add: sample_dust_manifest_def manifest_of_block_def sample_dust_paid_def del: sort_by.simps)
  then have len: "0 < length (led_entries sample_ledger)"
    by (simp add: sample_ledger_def build_maturity_entries_def)
  then have "mat_state (led_entries sample_ledger ! 0) = Immature"
    and "mat_block_height (led_entries sample_ledger ! 0) = 6"
    by (simp_all add: sample_ledger_def build_maturity_entries_def)
  then have mature: "mat_state (?es ! 0) = Mature"
    using len by (simp add: update_maturity_states_def updated_entry_def matures_at_def saturating_add_def
        QBIT_COINBASE_MATURITY_BLOCKS_def)
  have "ledger_step\<^sup>*\<^sup>* (sample_ledger\<lparr>led_entries := ?es\<rparr>)
      (sample_ledger\<lparr>led_entries := update_maturity_states ?es 3000\<rparr>)"
    using ledger_step.advance [of "sample_ledger\<lparr>led_entries := ?es\<rparr>" 3000] by (simp add: r_into_rtranclp)
  from ledger_entries_final [OF this, of 0] show ?thesis
    using len mature by (simp add: update_maturity_states_def)
qed

theorem replay_never_panics_witness:
  "\<exists>bs. current_carry_forward_balances (led_entries sample_ledger) = Inr bs"
proof -
  have "length (led_entries sample_ledger) = 3"
    by (simp add: sample_ledger_def build_maturity_entries_def sample_dust_manifest_def manifest_of_block_def
        sample_dust_paid_def del: sort_by.simps)
  then show ?thesis
    using replay_never_panics [of "led_entries sample_ledger"] by auto
qed

end
