(* ===== verification/Settlement.thy ===== *)
theory Settlement
  imports Policy_Properties
begin

text \<open>
  \<open>qbit-prism/src/settlement.rs\<close>: which recipients of a block are paid by the coinbase itself
  and which by CTV fanout transactions, and how a fanout's fee is charged to its recipients.
  \<open>usize\<close> values are naturals; where the code checks their overflow the check is written out.
\<close>

section \<open>Data\<close>

definition MAX_COINBASE_SETTLEMENT_OUTPUTS :: nat where "MAX_COINBASE_SETTLEMENT_OUTPUTS = 500"
definition DEFAULT_MAX_COINBASE_SETTLEMENT_OUTPUTS :: nat where
  "DEFAULT_MAX_COINBASE_SETTLEMENT_OUTPUTS = 16"
definition MAX_DIRECT_COINBASE_OUTPUTS :: nat where
  "MAX_DIRECT_COINBASE_OUTPUTS = MAX_COINBASE_SETTLEMENT_OUTPUTS"
definition DEFAULT_MAX_DIRECT_COINBASE_OUTPUTS :: nat where "DEFAULT_MAX_DIRECT_COINBASE_OUTPUTS = 12"
definition OCEAN_ONCHAIN_PAYOUT_THRESHOLD_SATS :: u64 where "OCEAN_ONCHAIN_PAYOUT_THRESHOLD_SATS = 1048576"
definition DEFAULT_DIRECT_COINBASE_PAYOUT_FLOOR_SATS :: u64 where
  "DEFAULT_DIRECT_COINBASE_PAYOUT_FLOOR_SATS = OCEAN_ONCHAIN_PAYOUT_THRESHOLD_SATS * 10"
definition DEFAULT_CTV_FANOUT_FEE_PREMIUM_BPS :: u64 where "DEFAULT_CTV_FANOUT_FEE_PREMIUM_BPS = 12000"
definition QBIT_TRUC_MAX_TX_WEIGHT_BYTES :: nat where "QBIT_TRUC_MAX_TX_WEIGHT_BYTES = 50000"
definition CTV_FANOUT_P2MR_OUTPUT_BYTES :: nat where "CTV_FANOUT_P2MR_OUTPUT_BYTES = 43"
definition CTV_FANOUT_FIXED_WEIGHT_BYTES :: nat where "CTV_FANOUT_FIXED_WEIGHT_BYTES = 90"
definition MAX_CTV_FANOUT_RECIPIENTS_PER_TRANSACTION :: nat where
  "MAX_CTV_FANOUT_RECIPIENTS_PER_TRANSACTION = 1160"
definition DEFAULT_MAX_CTV_FANOUT_RECIPIENTS_PER_TRANSACTION :: nat where
  "DEFAULT_MAX_CTV_FANOUT_RECIPIENTS_PER_TRANSACTION = 1000"

datatype settlement_mode = DirectCoinbase | HybridCoinbaseCtvFanout | CtvFanout

record fanout_fee_rate_policy =
  fr_market_fee_rate_sats_per_1000_weight :: u64
  fr_premium_bps :: u64

definition fanout_fee_rate_policy_new :: "u64 \<Rightarrow> u64 \<Rightarrow> fanout_fee_rate_policy" where
  "fanout_fee_rate_policy_new market_fee_rate premium =
     \<lparr>fr_market_fee_rate_sats_per_1000_weight = market_fee_rate, fr_premium_bps = premium\<rparr>"

record settlement_mode_config =
  smc_max_coinbase_settlement_outputs :: nat
  smc_max_direct_coinbase_outputs :: nat
  smc_max_fanout_recipients_per_transaction :: nat
  smc_reserved_coinbase_outputs :: nat

definition settlement_mode_config_default :: settlement_mode_config where
  "settlement_mode_config_default =
     \<lparr>smc_max_coinbase_settlement_outputs = DEFAULT_MAX_COINBASE_SETTLEMENT_OUTPUTS,
      smc_max_direct_coinbase_outputs = DEFAULT_MAX_DIRECT_COINBASE_OUTPUTS,
      smc_max_fanout_recipients_per_transaction = DEFAULT_MAX_CTV_FANOUT_RECIPIENTS_PER_TRANSACTION,
      smc_reserved_coinbase_outputs = 0\<rparr>"

record settlement_recipient =
  sr_recipient_id :: string
  sr_order_key :: string
  sr_p2mr_program_hex :: string
  sr_amount_sats :: u64

record settlement_fanout_chunk =
  fc_chunk_index :: nat
  fc_recipient_count :: nat
  fc_amount_sats :: u64
  fc_recipients :: "settlement_recipient list"

record fanout_fee_recipient =
  ff_recipient_id :: string
  ff_order_key :: string
  ff_p2mr_program_hex :: string
  ff_gross_amount_sats :: u64
  ff_fee_sats :: u64
  ff_net_amount_sats :: u64

record fanout_fee_decision =
  fd_total_gross_sats :: u64
  fd_requested_fee_sats :: u64
  fd_applied_fee_sats :: u64
  fd_payable_recipients :: "fanout_fee_recipient list"
  fd_carry_forward_recipients :: "fanout_fee_recipient list"

record settlement_mode_decision =
  sd_mode :: settlement_mode
  sd_direct_recipients :: "settlement_recipient list"
  sd_fanout_chunks :: "settlement_fanout_chunk list"
  sd_direct_recipient_count :: nat
  sd_fanout_recipient_count :: nat
  sd_fanout_chunk_count :: nat
  sd_direct_amount_sats :: u64
  sd_fanout_amount_sats :: u64
  sd_total_amount_sats :: u64
  sd_coinbase_settlement_output_count :: nat
  sd_reserved_coinbase_output_count :: nat
  sd_reason :: string

text \<open>\<open>SettlementAccountKey\<close> derives \<open>Ord\<close>: order key, recipient id, program.\<close>

type_synonym settlement_account_key = "string \<times> string \<times> string"

definition settlement_key :: "settlement_recipient \<Rightarrow> settlement_account_key" where
  "settlement_key recipient =
     (sr_order_key recipient, sr_recipient_id recipient, sr_p2mr_program_hex recipient)"

abbreviation settlement_error :: "string \<Rightarrow> prism_error" where
  "settlement_error \<equiv> SettlementModeSelection"

section \<open>Checked \<open>usize\<close> arithmetic\<close>

definition usize_checked_add :: "nat \<Rightarrow> nat \<Rightarrow> nat option" where
  "usize_checked_add a b = (if a + b < 2 ^ 64 then Some (a + b) else None)"

definition usize_checked_mul :: "nat \<Rightarrow> nat \<Rightarrow> nat option" where
  "usize_checked_mul a b = (if a * b < 2 ^ 64 then Some (a * b) else None)"

definition usize_checked_sub :: "nat \<Rightarrow> nat \<Rightarrow> nat option" where
  "usize_checked_sub a b = (if b \<le> a then Some (a - b) else None)"

section \<open>Weights and limits\<close>

definition compact_size_len :: "nat \<Rightarrow> nat" where
  "compact_size_len n =
     (if n < 253 then 1 else if n \<le> 65535 then 3 else if n \<le> 4294967295 then 5 else 9)"

definition estimated_ctv_fanout_weight_bytes :: "nat \<Rightarrow> prism_error + nat" where
  "estimated_ctv_fanout_weight_bytes recipient_count =
     ok_or (settlement_error ''fanout weight estimate overflowed'')
       (Option.bind (usize_checked_add CTV_FANOUT_FIXED_WEIGHT_BYTES (compact_size_len recipient_count))
         (\<lambda>base. Option.bind (usize_checked_mul recipient_count CTV_FANOUT_P2MR_OUTPUT_BYTES)
           (\<lambda>outputs. usize_checked_add base outputs)))"

definition validate_config :: "settlement_mode_config \<Rightarrow> prism_error + unit" where
  "validate_config config =
     (if smc_max_coinbase_settlement_outputs config = 0
      then Inl (settlement_error ''max_coinbase_settlement_outputs must be positive'')
      else if MAX_COINBASE_SETTLEMENT_OUTPUTS < smc_max_coinbase_settlement_outputs config
      then Inl (settlement_error (''max_coinbase_settlement_outputs must be <= '' @
        show_nat MAX_COINBASE_SETTLEMENT_OUTPUTS))
      else if MAX_DIRECT_COINBASE_OUTPUTS < smc_max_direct_coinbase_outputs config
      then Inl (settlement_error (''max_direct_coinbase_outputs must be <= '' @
        show_nat MAX_DIRECT_COINBASE_OUTPUTS))
      else if smc_max_fanout_recipients_per_transaction config = 0
      then Inl (settlement_error ''max_fanout_recipients_per_transaction must be positive'')
      else if MAX_CTV_FANOUT_RECIPIENTS_PER_TRANSACTION < smc_max_fanout_recipients_per_transaction config
      then Inl (settlement_error (''max_fanout_recipients_per_transaction must be <= '' @
        show_nat MAX_CTV_FANOUT_RECIPIENTS_PER_TRANSACTION))
      else
        and_then (estimated_ctv_fanout_weight_bytes (smc_max_fanout_recipients_per_transaction config))
          (\<lambda>weight.
        if QBIT_TRUC_MAX_TX_WEIGHT_BYTES < weight
        then Inl (settlement_error (''max_fanout_recipients_per_transaction exceeds qbit TRUC weight limit '' @
          show_nat QBIT_TRUC_MAX_TX_WEIGHT_BYTES))
        else if smc_max_coinbase_settlement_outputs config < smc_reserved_coinbase_outputs config
        then Inl (settlement_error ''reserved_coinbase_outputs exceeds max_coinbase_settlement_outputs'')
        else Inr ()))"

section \<open>Recipients\<close>

definition normalize_recipient ::
    "'x crates_scheme \<Rightarrow> settlement_recipient \<Rightarrow> prism_error + settlement_recipient" where
  "normalize_recipient X recipient =
     and_then (map_err (\<lambda>err. settlement_error (''recipient '' @ sr_recipient_id recipient @
           '' p2mr_program_hex must be hex: '' @ err)) (hex_decode X (sr_p2mr_program_hex recipient)))
       (\<lambda>bytes.
     if length bytes \<noteq> P2MR_PROGRAM_LEN
     then Inl (settlement_error (''recipient '' @ sr_recipient_id recipient @
       '' p2mr_program_hex must be '' @ show_nat P2MR_PROGRAM_LEN @ '' bytes, got '' @ show_nat (length bytes)))
     else Inr (recipient\<lparr>sr_p2mr_program_hex := hex_encode X bytes\<rparr>))"

definition normalize_recipient_p2mr_programs ::
    "'x crates_scheme \<Rightarrow> settlement_recipient list \<Rightarrow> prism_error + settlement_recipient list" where
  "normalize_recipient_p2mr_programs X = try_map (normalize_recipient X)"

definition canonical_recipient_cmp :: "settlement_recipient \<Rightarrow> settlement_recipient \<Rightarrow> ordering" where
  "canonical_recipient_cmp left right =
     then_with (then_with
       (cmp (sr_order_key left) (sr_order_key right))
       (cmp (sr_recipient_id left) (sr_recipient_id right)))
       (cmp (sr_p2mr_program_hex left) (sr_p2mr_program_hex right))"

definition direct_priority_cmp :: "settlement_recipient \<Rightarrow> settlement_recipient \<Rightarrow> ordering" where
  "direct_priority_cmp left right =
     then_with (cmp (sr_amount_sats right) (sr_amount_sats left)) (canonical_recipient_cmp left right)"

definition validate_recipients :: "settlement_recipient list \<Rightarrow> prism_error + unit" where
  "validate_recipients recipients =
     and_then (try_fold (\<lambda>seen recipient.
         if sr_amount_sats recipient = 0
         then Inl (settlement_error (''recipient '' @ sr_recipient_id recipient @ '' amount must be positive''))
         else if settlement_key recipient \<in> seen
         then Inl (settlement_error (''duplicate settlement recipient '' @ sr_recipient_id recipient))
         else Inr (insert (settlement_key recipient) seen)) {} recipients) (\<lambda>_. Inr ())"

definition sum_amounts :: "settlement_recipient list \<Rightarrow> prism_error + u64" where
  "sum_amounts recipients =
     checked_sum (settlement_error ''settlement amount overflowed'') (map sr_amount_sats recipients)"

section \<open>The partition\<close>

definition resolve_pinned_direct_key ::
    "'x crates_scheme \<Rightarrow> settlement_recipient list \<Rightarrow> settlement_recipient \<Rightarrow> settlement_mode_config \<Rightarrow>
     prism_error + settlement_account_key" where
  "resolve_pinned_direct_key X canonical pinned config =
     (if smc_max_direct_coinbase_outputs config = 0
      then Inl (settlement_error ''pinned direct recipient requires max_direct_coinbase_outputs >= 1'')
      else
        and_then (normalize_recipient X pinned) (\<lambda>normalized.
        let key = settlement_key normalized in
        if \<not> list_ex (\<lambda>recipient. settlement_key recipient = key) canonical
        then Inl (settlement_error (''pinned direct recipient '' @ sr_recipient_id pinned @
          '' is not among the settlement recipients''))
        else Inr key))"

definition fanout_chunk_count :: "nat \<Rightarrow> nat \<Rightarrow> prism_error + nat" where
  "fanout_chunk_count recipient_count max_recipients_per_chunk =
     (if recipient_count = 0 then Inr 0
      else ok_or (settlement_error ''fanout chunk count overflowed'')
        (map_option (\<lambda>adjusted. adjusted div max_recipients_per_chunk)
          (usize_checked_add recipient_count (max_recipients_per_chunk - 1))))"

text \<open>The coinbase outputs of a partition with \<open>direct_count\<close> direct recipients.\<close>

definition coinbase_outputs_with ::
    "nat \<Rightarrow> settlement_mode_config \<Rightarrow> nat \<Rightarrow> nat \<Rightarrow> prism_error + nat" where
  "coinbase_outputs_with total_recipient_count config pinned_direct_count direct_count =
     and_then (ok_or (settlement_error ''direct recipient count exceeded total recipients'')
         (Option.bind (usize_checked_sub total_recipient_count pinned_direct_count)
           (\<lambda>count. usize_checked_sub count direct_count))) (\<lambda>fanout_recipient_count.
     and_then (fanout_chunk_count fanout_recipient_count (smc_max_fanout_recipients_per_transaction config))
       (\<lambda>chunk_count.
     ok_or (settlement_error ''coinbase settlement output count overflowed'')
       (Option.bind (usize_checked_add (smc_reserved_coinbase_outputs config) pinned_direct_count)
         (\<lambda>count. Option.bind (usize_checked_add count direct_count)
           (\<lambda>count. usize_checked_add count chunk_count)))))"

text \<open>\<open>for direct_count in (0..=max_direct).rev()\<close>\<close>

fun direct_count_from :: "nat \<Rightarrow> settlement_mode_config \<Rightarrow> nat \<Rightarrow> nat \<Rightarrow> prism_error + nat" where
  "direct_count_from n_all config pinned 0 =
     and_then (coinbase_outputs_with n_all config pinned 0) (\<lambda>outputs.
     if outputs \<le> smc_max_coinbase_settlement_outputs config then Inr 0
     else Inl (settlement_error (''recipient partition requires more than '' @
       show_nat (smc_max_coinbase_settlement_outputs config) @ '' coinbase settlement outputs'')))"
| "direct_count_from n_all config pinned (Suc n) =
     and_then (coinbase_outputs_with n_all config pinned (Suc n)) (\<lambda>outputs.
     if outputs \<le> smc_max_coinbase_settlement_outputs config then Inr (Suc n)
     else direct_count_from n_all config pinned n)"

definition select_direct_count ::
    "nat \<Rightarrow> nat \<Rightarrow> settlement_mode_config \<Rightarrow> nat \<Rightarrow> prism_error + nat" where
  "select_direct_count total_recipient_count direct_candidate_count config pinned_direct_count =
     direct_count_from total_recipient_count config pinned_direct_count
       (min direct_candidate_count (smc_max_direct_coinbase_outputs config - pinned_direct_count))"

definition chunks_of :: "nat \<Rightarrow> 'a list \<Rightarrow> 'a list list" where
  "chunks_of n xs = map (chunk_range n xs) [0..<div_ceil (length xs) n]"

definition fanout_chunk_of ::
    "nat \<times> settlement_recipient list \<Rightarrow> prism_error + settlement_fanout_chunk" where
  "fanout_chunk_of = (\<lambda>(chunk_index, chunk).
     and_then (sum_amounts chunk) (\<lambda>amount_sats.
     Inr \<lparr>fc_chunk_index = chunk_index, fc_recipient_count = length chunk,
          fc_amount_sats = amount_sats, fc_recipients = chunk\<rparr>))"

definition decision_mode ::
    "settlement_recipient list \<Rightarrow> settlement_fanout_chunk list \<Rightarrow> prism_error + settlement_mode" where
  "decision_mode direct chunks =
     (case (direct = [], chunks = []) of
        (False, True) \<Rightarrow> Inr DirectCoinbase
      | (True, False) \<Rightarrow> Inr CtvFanout
      | (False, False) \<Rightarrow> Inr HybridCoinbaseCtvFanout
      | (True, True) \<Rightarrow> Inl (settlement_error ''settlement partition is empty''))"

definition decision_reason ::
    "nat \<Rightarrow> nat \<Rightarrow> nat \<Rightarrow> u64 \<Rightarrow> nat \<Rightarrow> settlement_mode_config \<Rightarrow> nat \<Rightarrow> string" where
  "decision_reason direct_count fanout_count fanout_chunks direct_floor_sats outputs config pinned_count =
     (let reason =
        (if fanout_count = 0 then
           show_nat direct_count @ '' recipients meet the '' @ show_nat (unat direct_floor_sats) @
           ''-sat direct floor and fit within the '' @ show_nat (smc_max_coinbase_settlement_outputs config) @
           ''-output coinbase settlement cap''
         else if direct_count = 0 then
           show_nat fanout_count @ '' recipients routed to '' @ show_nat fanout_chunks @
           '' CTV fanout chunk(s) capped at '' @ show_nat (smc_max_fanout_recipients_per_transaction config) @
           '' recipients each; '' @ show_nat outputs @ '' coinbase settlement outputs used''
         else
           show_nat direct_count @ '' recipients paid directly by largest-liability priority; '' @
           show_nat fanout_count @ '' recipients routed to '' @ show_nat fanout_chunks @
           '' CTV fanout chunk(s); '' @ show_nat outputs @ '' of '' @
           show_nat (smc_max_coinbase_settlement_outputs config) @ '' coinbase settlement outputs used'')
      in if pinned_count = 0 then reason
         else reason @ ''; '' @ show_nat pinned_count @
           '' direct settlement slot(s) pinned by the coinbase output policy'')"

definition direct_candidates ::
    "settlement_recipient list \<Rightarrow> u64 \<Rightarrow> settlement_account_key option \<Rightarrow> settlement_recipient list" where
  "direct_candidates canonical direct_floor_sats pinned_key =
     sort_by direct_priority_cmp
       (filter (\<lambda>recipient. direct_floor_sats \<le> sr_amount_sats recipient \<and>
          pinned_key \<noteq> Some (settlement_key recipient)) canonical)"

definition canonical_recipients ::
    "'x crates_scheme \<Rightarrow> settlement_recipient list \<Rightarrow> prism_error + settlement_recipient list" where
  "canonical_recipients X recipients =
     and_then (normalize_recipient_p2mr_programs X recipients) (\<lambda>normalized.
     let canonical = sort_by canonical_recipient_cmp normalized in
     and_then (validate_recipients canonical) (\<lambda>_. Inr canonical))"

definition goes_direct ::
    "settlement_account_key option \<Rightarrow> settlement_account_key set \<Rightarrow> settlement_recipient \<Rightarrow> bool" where
  "goes_direct pinned_key selected_direct_keys recipient \<longleftrightarrow>
     pinned_key = Some (settlement_key recipient) \<or> settlement_key recipient \<in> selected_direct_keys"

definition select_settlement_mode_with_pinned_direct ::
    "'x crates_scheme \<Rightarrow> settlement_recipient list \<Rightarrow> u64 \<Rightarrow> settlement_mode_config \<Rightarrow>
     settlement_recipient option \<Rightarrow> prism_error + settlement_mode_decision" where
  "select_settlement_mode_with_pinned_direct X recipients direct_floor_sats config pinned_direct =
     and_then (validate_config config) (\<lambda>_.
     if recipients = [] then Inl (settlement_error ''no recipients to settle'')
     else
       and_then (canonical_recipients X recipients) (\<lambda>canonical.
       and_then (case pinned_direct of None \<Rightarrow> Inr None
           | Some pinned \<Rightarrow> and_then (resolve_pinned_direct_key X canonical pinned config) (\<lambda>key. Inr (Some key)))
         (\<lambda>pinned_key.
       let pinned_direct_count = (if pinned_key = None then 0 else 1) in
       and_then (sum_amounts canonical) (\<lambda>total_amount_sats.
       let candidates = direct_candidates canonical direct_floor_sats pinned_key in
       and_then (select_direct_count (length recipients) (length candidates) config pinned_direct_count)
         (\<lambda>direct_count.
       let selected_direct_keys = set (map settlement_key (take direct_count candidates));
           direct_recipients = filter (goes_direct pinned_key selected_direct_keys) canonical;
           fanout_recipients = filter (\<lambda>r. \<not> goes_direct pinned_key selected_direct_keys r) canonical in
       and_then (sum_amounts direct_recipients) (\<lambda>direct_amount_sats.
       and_then (sum_amounts fanout_recipients) (\<lambda>fanout_amount_sats.
       and_then (ok_or (settlement_error ''settlement amount overflowed'')
           (checked_add direct_amount_sats fanout_amount_sats)) (\<lambda>parts.
       if parts \<noteq> total_amount_sats then Inl (settlement_error ''settlement partition lost value'')
       else
         and_then (try_map fanout_chunk_of (enumerate 0
             (chunks_of (smc_max_fanout_recipients_per_transaction config) fanout_recipients)))
           (\<lambda>fanout_chunks.
         and_then (decision_mode direct_recipients fanout_chunks) (\<lambda>mode.
         let fanout_recipient_count = sum_list (map fc_recipient_count fanout_chunks) in
         and_then (ok_or (settlement_error ''coinbase settlement output count overflowed'')
             (Option.bind (usize_checked_add (smc_reserved_coinbase_outputs config) (length direct_recipients))
               (\<lambda>count. usize_checked_add count (length fanout_chunks)))) (\<lambda>output_count.
         Inr \<lparr>sd_mode = mode, sd_direct_recipients = direct_recipients, sd_fanout_chunks = fanout_chunks,
              sd_direct_recipient_count = length direct_recipients,
              sd_fanout_recipient_count = fanout_recipient_count,
              sd_fanout_chunk_count = length fanout_chunks,
              sd_direct_amount_sats = direct_amount_sats, sd_fanout_amount_sats = fanout_amount_sats,
              sd_total_amount_sats = total_amount_sats,
              sd_coinbase_settlement_output_count = output_count,
              sd_reserved_coinbase_output_count = smc_reserved_coinbase_outputs config,
              sd_reason = decision_reason (length direct_recipients) fanout_recipient_count
                (length fanout_chunks) direct_floor_sats output_count config pinned_direct_count\<rparr>)))))))))))"

definition select_settlement_mode ::
    "'x crates_scheme \<Rightarrow> settlement_recipient list \<Rightarrow> u64 \<Rightarrow> settlement_mode_config \<Rightarrow>
     prism_error + settlement_mode_decision" where
  "select_settlement_mode X recipients direct_floor_sats config =
     select_settlement_mode_with_pinned_direct X recipients direct_floor_sats config None"

section \<open>The fee of a fanout\<close>

definition fee_recipient_key :: "fanout_fee_recipient \<Rightarrow> settlement_account_key" where
  "fee_recipient_key recipient =
     (ff_order_key recipient, ff_recipient_id recipient, ff_p2mr_program_hex recipient)"

definition fanout_fee_recipient_cmp :: "fanout_fee_recipient \<Rightarrow> fanout_fee_recipient \<Rightarrow> ordering" where
  "fanout_fee_recipient_cmp left right =
     then_with (then_with
       (cmp (ff_order_key left) (ff_order_key right))
       (cmp (ff_recipient_id left) (ff_recipient_id right)))
       (cmp (ff_p2mr_program_hex left) (ff_p2mr_program_hex right))"

definition fee_share ::
    "u64 \<Rightarrow> u64 \<Rightarrow> settlement_recipient \<Rightarrow> prism_error + (fanout_fee_recipient \<times> u128)" where
  "fee_share fee_sats total_gross_sats recipient =
     and_then (ok_or (settlement_error ''fanout fee allocation overflowed'')
         (checked_mul (u128_from_u64 fee_sats) (u128_from_u64 (sr_amount_sats recipient)))) (\<lambda>fee_product.
     let fee_floor = fee_product div u128_from_u64 total_gross_sats;
         remainder = fee_product mod u128_from_u64 total_gross_sats in
     and_then (ok_or (settlement_error ''fanout fee share exceeds uint64'') (u64_try_from_u128 fee_floor))
       (\<lambda>fee_sats.
     and_then (ok_or (settlement_error ''fanout fee exceeds recipient amount'')
         (checked_sub (sr_amount_sats recipient) fee_sats)) (\<lambda>net_amount_sats.
     Inr (\<lparr>ff_recipient_id = sr_recipient_id recipient, ff_order_key = sr_order_key recipient,
           ff_p2mr_program_hex = sr_p2mr_program_hex recipient,
           ff_gross_amount_sats = sr_amount_sats recipient, ff_fee_sats = fee_sats,
           ff_net_amount_sats = net_amount_sats\<rparr>, remainder))))"

definition compare_fee_shares ::
    "fanout_fee_recipient \<times> u128 \<Rightarrow> fanout_fee_recipient \<times> u128 \<Rightarrow> ordering" where
  "compare_fee_shares left right =
     then_with (cmp (snd right) (snd left)) (fanout_fee_recipient_cmp (fst left) (fst right))"

definition bump_fee ::
    "fanout_fee_recipient \<times> u128 \<Rightarrow> prism_error + (fanout_fee_recipient \<times> u128)" where
  "bump_fee = (\<lambda>(recipient, remainder).
     and_then (ok_or (settlement_error ''fanout fee share overflowed'')
         (checked_add (ff_fee_sats recipient) 1)) (\<lambda>fee_sats.
     and_then (ok_or (settlement_error ''fanout fee exceeds recipient amount'')
         (checked_sub (ff_gross_amount_sats recipient) fee_sats)) (\<lambda>net_amount_sats.
     Inr (recipient\<lparr>ff_fee_sats := fee_sats, ff_net_amount_sats := net_amount_sats\<rparr>, remainder))))"

text \<open>\<open>sum::<u64>()\<close> wraps in a release build.\<close>

definition allocate_proportional_fee ::
    "settlement_recipient list \<Rightarrow> u64 \<Rightarrow> u64 \<Rightarrow> prism_error + fanout_fee_recipient list" where
  "allocate_proportional_fee recipients fee_sats total_gross_sats =
     and_then (try_map (fee_share fee_sats total_gross_sats) recipients) (\<lambda>allocated.
     let floor_fee_sum = sum_list (map (\<lambda>p. ff_fee_sats (fst p)) allocated) in
     and_then (ok_or (settlement_error ''fanout fee floor allocation exceeded total fee'')
         (checked_sub fee_sats floor_fee_sum)) (\<lambda>remainder_fee_sats.
     let allocated = sort_by compare_fee_shares allocated; bumped = unat remainder_fee_sats in
     and_then (try_map bump_fee (take bumped allocated)) (\<lambda>first.
     Inr (map fst (first @ drop bumped allocated)))))"

definition carried_fanout_fee_recipient :: "settlement_recipient \<Rightarrow> fanout_fee_recipient" where
  "carried_fanout_fee_recipient recipient =
     \<lparr>ff_recipient_id = sr_recipient_id recipient, ff_order_key = sr_order_key recipient,
      ff_p2mr_program_hex = sr_p2mr_program_hex recipient,
      ff_gross_amount_sats = sr_amount_sats recipient, ff_fee_sats = 0,
      ff_net_amount_sats = sr_amount_sats recipient\<rparr>"

definition unpaid_decision ::
    "u64 \<Rightarrow> u64 \<Rightarrow> fanout_fee_recipient list \<Rightarrow> fanout_fee_decision" where
  "unpaid_decision total_gross_sats fee_sats carried =
     \<lparr>fd_total_gross_sats = total_gross_sats, fd_requested_fee_sats = fee_sats, fd_applied_fee_sats = 0,
      fd_payable_recipients = [], fd_carry_forward_recipients = sort_by fanout_fee_recipient_cmp carried\<rparr>"

definition below_floor_recipients :: "u64 \<Rightarrow> fanout_fee_recipient list \<Rightarrow> fanout_fee_recipient list" where
  "below_floor_recipients min_output_sats = filter (\<lambda>r. \<not> min_output_sats \<le> ff_net_amount_sats r)"

definition uncharged :: "fanout_fee_recipient \<Rightarrow> fanout_fee_recipient" where
  "uncharged r = r\<lparr>ff_fee_sats := 0, ff_net_amount_sats := ff_gross_amount_sats r\<rparr>"

lemma fee_share_key: "fee_share v t r = Inr p \<Longrightarrow> fee_recipient_key (fst p) = settlement_key r"
  by (auto simp: fee_share_def Let_def result_simps fee_recipient_key_def settlement_key_def)

lemma bump_fee_key: "bump_fee p = Inr q \<Longrightarrow> fee_recipient_key (fst q) = fee_recipient_key (fst p)"
  by (auto simp: bump_fee_def result_simps fee_recipient_key_def split: prod.splits)

lemma try_map_keys:
  assumes "try_map f xs = Inr ys" and "\<And>x y. f x = Inr y \<Longrightarrow> g y = h x"
  shows "map g ys = map h xs"
  using assms(1) by (induction xs arbitrary: ys) (auto simp: result_simps list_all2_Cons1 assms(2))

lemma allocate_fee_keys:
  assumes "allocate_proportional_fee recipients fee t = Inr out"
  shows "mset (map fee_recipient_key out) = mset (map settlement_key recipients)"
proof -
  from assms obtain shares k first where shares: "try_map (fee_share fee t) recipients = Inr shares"
    and first: "try_map bump_fee (take k (sort_by compare_fee_shares shares)) = Inr first"
    and out: "out = map fst (first @ drop k (sort_by compare_fee_shares shares))"
    by (auto simp: allocate_proportional_fee_def Let_def result_simps)
  have "map (fee_recipient_key \<circ> fst) first = map (fee_recipient_key \<circ> fst) (take k (sort_by compare_fee_shares shares))"
    by (rule try_map_keys [OF first]) (simp add: bump_fee_key)
  then have "map fee_recipient_key out = map (fee_recipient_key \<circ> fst)
      (take k (sort_by compare_fee_shares shares) @ drop k (sort_by compare_fee_shares shares))"
    by (simp only: out map_append list.map_comp)
  then have "mset (map fee_recipient_key out) = mset (map (fee_recipient_key \<circ> fst) shares)"
    by (simp only: append_take_drop_id mset_map mset_sort_by)
  also have "map (fee_recipient_key \<circ> fst) shares = map settlement_key recipients"
    by (rule try_map_keys [OF shares]) (simp add: fee_share_key)
  finally show ?thesis .
qed

text \<open>
  The loop of \<open>apply_proportional_fanout_fee\<close>: charge the fee, move those who fall under the
  floor to the carried ones and charge the rest again. Every pass that does not return
  moves at least one.
\<close>

function fanout_fee_loop ::
    "u64 \<Rightarrow> u64 \<Rightarrow> u64 \<Rightarrow> settlement_recipient list \<Rightarrow> fanout_fee_recipient list \<Rightarrow>
     prism_error + fanout_fee_decision" where
  "fanout_fee_loop total_gross_sats fee_sats min_output_sats candidates carried =
     (if candidates = [] then Inr (unpaid_decision total_gross_sats fee_sats carried)
      else
        and_then (sum_amounts candidates) (\<lambda>candidate_sum.
        if candidate_sum \<le> fee_sats
        then Inr (unpaid_decision total_gross_sats fee_sats
               (carried @ map carried_fanout_fee_recipient candidates))
        else
          and_then (allocate_proportional_fee candidates fee_sats candidate_sum) (\<lambda>allocated.
          let below_floor = below_floor_recipients min_output_sats allocated in
          if below_floor = [] then
            Inr \<lparr>fd_total_gross_sats = total_gross_sats, fd_requested_fee_sats = fee_sats,
                 fd_applied_fee_sats = fee_sats,
                 fd_payable_recipients = sort_by fanout_fee_recipient_cmp allocated,
                 fd_carry_forward_recipients = sort_by fanout_fee_recipient_cmp carried\<rparr>
          else
            fanout_fee_loop total_gross_sats fee_sats min_output_sats
              (filter (\<lambda>r. settlement_key r \<notin> set (map fee_recipient_key below_floor)) candidates)
              (carried @ map uncharged below_floor))))"
  by pat_completeness auto

lemma below_floor_shrinks:
  assumes "allocate_proportional_fee candidates fee t = Inr allocated"
    and "below_floor_recipients mn allocated \<noteq> []"
  shows "length (filter (\<lambda>r. settlement_key r \<notin> fee_recipient_key ` set (below_floor_recipients mn allocated))
    candidates) < length candidates"
proof -
  obtain r where r: "r \<in> set (below_floor_recipients mn allocated)"
    using assms(2) by (cases "below_floor_recipients mn allocated") auto
  then have "r \<in> set allocated"
    by (simp add: below_floor_recipients_def)
  then have "fee_recipient_key r \<in> set (map settlement_key candidates)"
    using mset_eq_setD [OF allocate_fee_keys [OF assms(1)]] by (metis image_eqI list.set_map)
  then obtain c where "c \<in> set candidates" "settlement_key c = fee_recipient_key r"
    by auto
  then show ?thesis
    using r by (intro length_filter_less) auto
qed

termination fanout_fee_loop
proof (relation "measure (\<lambda>(t, fee, mn, candidates, carried). length candidates)", goal_cases)
  case (2 t fee mn candidates carried candidate_sum allocated below_floor)
  then show ?case
    using below_floor_shrinks by simp
qed simp

declare fanout_fee_loop.simps [simp del]

definition apply_proportional_fanout_fee ::
    "'x crates_scheme \<Rightarrow> settlement_recipient list \<Rightarrow> u64 \<Rightarrow> u64 \<Rightarrow> prism_error + fanout_fee_decision" where
  "apply_proportional_fanout_fee X recipients fee_sats min_output_sats =
     (if min_output_sats = 0 then Inl (settlement_error ''min_output_sats must be positive'')
      else if recipients = [] then Inl (settlement_error ''no fanout recipients to charge'')
      else
        and_then (canonical_recipients X recipients) (\<lambda>candidates.
        and_then (sum_amounts candidates) (\<lambda>total_gross_sats.
        fanout_fee_loop total_gross_sats fee_sats min_output_sats candidates [])))"

definition estimate_ctv_fanout_fee_sats :: "nat \<Rightarrow> fanout_fee_rate_policy \<Rightarrow> prism_error + u64" where
  "estimate_ctv_fanout_fee_sats recipient_count policy =
     (if recipient_count = 0 then Inl (settlement_error ''fanout recipient count must be positive'')
      else if fr_market_fee_rate_sats_per_1000_weight policy = 0
      then Inl (settlement_error ''market_fee_rate_sats_per_1000_weight must be positive'')
      else if fr_premium_bps policy = 0 then Inl (settlement_error ''premium_bps must be positive'')
      else
        and_then (estimated_ctv_fanout_weight_bytes recipient_count) (\<lambda>fanout_weight.
        and_then (ok_or (settlement_error ''fanout fee estimate overflowed'')
            (Option.bind (checked_mul (of_nat fanout_weight :: u128)
                (u128_from_u64 (fr_market_fee_rate_sats_per_1000_weight policy)))
              (\<lambda>value. checked_mul value (u128_from_u64 (fr_premium_bps policy))))) (\<lambda>numerator.
        let denominator = 1000 * 10000 in
        and_then (ok_or (settlement_error ''fanout fee estimate overflowed'')
            (checked_add numerator (denominator - 1))) (\<lambda>rounded.
        ok_or (settlement_error ''fanout fee estimate exceeds uint64'')
          (u64_try_from_u128 (rounded div denominator))))))"

definition apply_estimated_proportional_fanout_fee ::
    "'x crates_scheme \<Rightarrow> settlement_recipient list \<Rightarrow> u64 \<Rightarrow> fanout_fee_rate_policy \<Rightarrow>
     prism_error + fanout_fee_decision" where
  "apply_estimated_proportional_fanout_fee X recipients min_output_sats policy =
     and_then (estimate_ctv_fanout_fee_sats (length recipients) policy) (\<lambda>fee_sats.
     apply_proportional_fanout_fee X recipients fee_sats min_output_sats)"

end
