(* ===== verification/Settlement_Properties.thy ===== *)
theory Settlement_Properties
  imports Settlement
begin

text \<open>
  What the settlement partition and the fanout fee promise: every recipient is settled exactly
  once, the output budget is kept, the largest liabilities go direct, nothing depends on the
  order of the input, and the fee is split without loss.
\<close>

section \<open>Comparators\<close>

interpretation canon: key_order canonical_recipient_cmp settlement_key
  by unfold_locales
    (simp only: canonical_recipient_cmp_def settlement_key_def then_with_assoc, simp only: then_with_cmp)

definition priority_key :: "settlement_recipient \<Rightarrow> int \<times> settlement_account_key" where
  "priority_key r = (- uint (sr_amount_sats r), settlement_key r)"

interpretation priority: key_order direct_priority_cmp priority_key
  by unfold_locales
    (simp only: direct_priority_cmp_def priority_key_def canon.compares, subst cmp_flip, simp only: then_with_cmp)

interpretation feer: key_order fanout_fee_recipient_cmp fee_recipient_key
  by unfold_locales
    (simp only: fanout_fee_recipient_cmp_def fee_recipient_key_def then_with_assoc, simp only: then_with_cmp)

definition fee_share_key_of :: "fanout_fee_recipient \<times> u128 \<Rightarrow> int \<times> settlement_account_key" where
  "fee_share_key_of p = (- uint (snd p), fee_recipient_key (fst p))"

interpretation shares: key_order compare_fee_shares fee_share_key_of
  by unfold_locales
    (simp only: compare_fee_shares_def fee_share_key_of_def feer.compares, subst cmp_flip, simp only: then_with_cmp)

section \<open>Recipients\<close>

abbreviation sr_amounts :: "settlement_recipient list \<Rightarrow> nat list" where
  "sr_amounts rs \<equiv> map (unat \<circ> sr_amount_sats) rs"

lemma sum_amounts_Inr [result_simps]:
  "sum_amounts rs = Inr t \<longleftrightarrow> sum_list (sr_amounts rs) < 2 ^ 64 \<and> unat t = sum_list (sr_amounts rs)"
  by (simp add: sum_amounts_def result_simps)

lemma sum_amounts_total: "sum_list (sr_amounts rs) < 2 ^ 64 \<Longrightarrow> \<exists>t. sum_amounts rs = Inr t"
  using ex_unat [where 'a = 64, of "sum_list (sr_amounts rs)"] by (simp add: sum_amounts_Inr)

lemma validate_fold:
  "(\<exists>seen'. try_fold (\<lambda>seen r.
       if sr_amount_sats r = 0 then Inl (settlement_error (''recipient '' @ sr_recipient_id r @ '' amount must be positive''))
       else if settlement_key r \<in> seen
       then Inl (settlement_error (''duplicate settlement recipient '' @ sr_recipient_id r))
       else Inr (insert (settlement_key r) seen)) seen rs = Inr seen') \<longleftrightarrow>
   (\<forall>r \<in> set rs. sr_amount_sats r \<noteq> 0 \<and> settlement_key r \<notin> seen) \<and> distinct (map settlement_key rs)"
proof (induction rs arbitrary: seen)
  case (Cons r rs)
  have "distinct (map settlement_key (r # rs)) \<longleftrightarrow>
      (\<forall>s \<in> set rs. settlement_key s \<noteq> settlement_key r) \<and> distinct (map settlement_key rs)"
    by (auto simp: image_iff)
  then show ?case
    using Cons by auto
qed simp

lemma validate_recipients_Inr [result_simps]:
  "validate_recipients rs = Inr u \<longleftrightarrow>
     (\<forall>r \<in> set rs. sr_amount_sats r \<noteq> 0) \<and> distinct (map settlement_key rs)"
  using validate_fold [of "{}" rs] by (simp add: validate_recipients_def and_then_Inr)

lemma canonical_recipients_Inr:
  "canonical_recipients X rs = Inr canonical \<longleftrightarrow>
     (\<exists>ns. normalize_recipient_p2mr_programs X rs = Inr ns \<and> canonical = sort_by canonical_recipient_cmp ns \<and>
       (\<forall>r \<in> set ns. sr_amount_sats r \<noteq> 0) \<and> distinct (map settlement_key ns))"
proof -
  have "distinct (map settlement_key (sort_by canonical_recipient_cmp ns)) \<longleftrightarrow> distinct (map settlement_key ns)" for ns
    by (metis mset_eq_imp_distinct_iff mset_map mset_sort_by)
  then show ?thesis
    by (auto simp: canonical_recipients_def Let_def and_then_Inr validate_recipients_Inr)
qed

lemma canonical_facts:
  assumes "canonical_recipients X rs = Inr canonical"
  shows "sorted (map settlement_key canonical)" and "distinct (map settlement_key canonical)"
    and "distinct canonical" and "inj_on settlement_key (set canonical)"
    and "\<And>r. r \<in> set canonical \<Longrightarrow> sr_amount_sats r \<noteq> 0" and "length canonical = length rs"
proof -
  from assms obtain ns where ns: "normalize_recipient_p2mr_programs X rs = Inr ns"
    and c: "canonical = sort_by canonical_recipient_cmp ns"
    and pos: "\<forall>r \<in> set ns. sr_amount_sats r \<noteq> 0" and dist: "distinct (map settlement_key ns)"
    by (auto simp: canonical_recipients_Inr)
  show "sorted (map settlement_key canonical)"
    unfolding c by (rule canon.sorted_keys)
  show dc: "distinct (map settlement_key canonical)"
    unfolding c using dist by (metis mset_eq_imp_distinct_iff mset_map mset_sort_by)
  then show "distinct canonical" and "inj_on settlement_key (set canonical)"
    by (simp_all add: distinct_map)
  show "\<And>r. r \<in> set canonical \<Longrightarrow> sr_amount_sats r \<noteq> 0"
    using pos by (simp add: c)
  show "length canonical = length rs"
    using ns by (auto simp: c normalize_recipient_p2mr_programs_def result_simps dest: list_all2_lengthD)
qed

lemma try_map_perm:
  assumes "mset xs = mset xs'" and "try_map f xs = Inr ys"
  shows "\<exists>ys'. try_map f xs' = Inr ys' \<and> mset ys' = mset ys"
proof -
  define g where "g x = (case f x of Inr y \<Rightarrow> y)" for x
  have "\<exists>y. f x = Inr y" if "x \<in> set xs" for x
    using assms(2) that by (auto simp: try_map_Inr list_all2_conv_all_nth in_set_conv_nth)
  then have g: "f x = Inr (g x)" if "x \<in> set xs" for x
    using that by (force simp: g_def)
  then have "ys = map g xs"
    using assms(2) try_map_total [of xs f g] by simp
  moreover have "try_map f xs' = Inr (map g xs')"
    using g mset_eq_setD [OF assms(1)] by (intro try_map_total) simp
  ultimately show ?thesis
    using assms(1) by (simp flip: mset_map) (metis mset_map)
qed

section \<open>Chunks\<close>

lemma chunks_of_facts:
  assumes "0 < n"
  shows "concat (chunks_of n xs) = xs" and "length (chunks_of n xs) = div_ceil (length xs) n"
    and "c \<in> set (chunks_of n xs) \<Longrightarrow> c \<noteq> [] \<and> length c \<le> n"
proof -
  show "concat (chunks_of n xs) = xs"
    unfolding chunks_of_def by (rule concat_chunks) (rule assms)
  show "length (chunks_of n xs) = div_ceil (length xs) n"
    by (simp add: chunks_of_def)
  show "c \<noteq> [] \<and> length c \<le> n" if c: "c \<in> set (chunks_of n xs)"
  proof -
    from c obtain i where i: "i < div_ceil (length xs) n" and ci: "c = chunk_range n xs i"
      by (auto simp: chunks_of_def)
    from i have "(Suc i) * n \<le> length xs + n - 1"
      unfolding div_ceil_def using assms by (metis Suc_leI div_times_less_eq_dividend le_trans mult_le_mono1)
    then have "i * n < length xs"
      using assms by simp
    then show ?thesis
      using assms by (auto simp: ci chunk_range_def)
  qed
qed

lemma fanout_chunk_count_eq:
  assumes "0 < n" and "r + n < 2 ^ 64"
  shows "fanout_chunk_count r n = Inr (div_ceil r n)"
  using assms by (auto simp: fanout_chunk_count_def usize_checked_add_def div_ceil_def)

lemma fanout_chunk_count_Inr: "0 < n \<Longrightarrow> fanout_chunk_count r n = Inr k \<Longrightarrow> k = div_ceil r n"
  by (auto simp: fanout_chunk_count_def usize_checked_add_def div_ceil_def result_simps split: if_splits)

section \<open>The number of direct recipients\<close>

definition outputs_of :: "nat \<Rightarrow> settlement_mode_config \<Rightarrow> nat \<Rightarrow> nat \<Rightarrow> nat" where
  "outputs_of n config pinned d = smc_reserved_coinbase_outputs config + pinned + d +
     div_ceil (n - pinned - d) (smc_max_fanout_recipients_per_transaction config)"

lemma coinbase_outputs_Inr:
  assumes "0 < smc_max_fanout_recipients_per_transaction config"
    and "coinbase_outputs_with n config pinned d = Inr k"
  shows "k = outputs_of n config pinned d" and "pinned + d \<le> n"
  using assms fanout_chunk_count_Inr [OF assms(1)]
  by (auto simp: coinbase_outputs_with_def outputs_of_def result_simps bind_eq_Some_conv
      usize_checked_sub_def usize_checked_add_def split: if_splits)

lemma direct_count_from_Inr:
  assumes "0 < smc_max_fanout_recipients_per_transaction config"
    and "direct_count_from n config pinned m = Inr d"
  shows "d \<le> m \<and> pinned + d \<le> n \<and>
    outputs_of n config pinned d \<le> smc_max_coinbase_settlement_outputs config \<and>
    (\<forall>d'. d < d' \<and> d' \<le> m \<longrightarrow> smc_max_coinbase_settlement_outputs config < outputs_of n config pinned d')"
  using assms(2)
proof (induction m)
  case 0
  then show ?case
    using coinbase_outputs_Inr [OF assms(1), of n pinned 0] by (auto simp: and_then_Inr split: if_splits)
next
  case (Suc m)
  then obtain k where k: "coinbase_outputs_with n config pinned (Suc m) = Inr k"
    and rest: "(if k \<le> smc_max_coinbase_settlement_outputs config then Inr (Suc m)
       else direct_count_from n config pinned m) = Inr d"
    by (auto simp: and_then_Inr)
  note ko = coinbase_outputs_Inr [OF assms(1) k]
  show ?case
  proof (cases "k \<le> smc_max_coinbase_settlement_outputs config")
    case True
    then show ?thesis using rest ko by auto
  next
    case False
    then have "direct_count_from n config pinned m = Inr d"
      using rest by simp
    from Suc.IH [OF this] show ?thesis
      using False ko by (auto simp: le_Suc_eq)
  qed
qed

lemma coinbase_outputs_total:
  assumes "0 < smc_max_fanout_recipients_per_transaction config" and "pinned + k \<le> n"
    and "n + smc_max_fanout_recipients_per_transaction config + smc_reserved_coinbase_outputs config < 2 ^ 63"
  shows "coinbase_outputs_with n config pinned k = Inr (outputs_of n config pinned k)"
proof -
  let ?f = "smc_max_fanout_recipients_per_transaction config" and ?q = "n - pinned - k"
  have q: "div_ceil ?q ?f \<le> ?q + ?f"
    unfolding div_ceil_def by (rule order_trans [OF div_le_dividend]) simp
  have "fanout_chunk_count ?q ?f = Inr (div_ceil ?q ?f)"
    using assms by (intro fanout_chunk_count_eq) simp_all
  moreover have "smc_reserved_coinbase_outputs config + pinned + k + div_ceil ?q ?f < 2 ^ 64"
    using q assms(2,3) by simp
  moreover from this have "smc_reserved_coinbase_outputs config + pinned < 2 ^ 64"
    "smc_reserved_coinbase_outputs config + pinned + k < 2 ^ 64"
    by simp_all
  ultimately show ?thesis
    using assms(2) by (simp add: coinbase_outputs_with_def outputs_of_def usize_checked_sub_def
        usize_checked_add_def del: power_numeral)
qed

lemma direct_count_from_total:
  assumes "0 < smc_max_fanout_recipients_per_transaction config" and "pinned + m \<le> n"
    and "n + smc_max_fanout_recipients_per_transaction config + smc_reserved_coinbase_outputs config < 2 ^ 63"
    and "d \<le> m" and "outputs_of n config pinned d \<le> smc_max_coinbase_settlement_outputs config"
  shows "\<exists>d'. direct_count_from n config pinned m = Inr d'"
  using assms(2,4)
proof (induction m)
  case 0
  then show ?case
    using assms(5) coinbase_outputs_total [OF assms(1) _ assms(3), of pinned 0] by simp
next
  case (Suc m)
  then show ?case
    using assms(5) coinbase_outputs_total [OF assms(1) _ assms(3), of pinned "Suc m"]
    by (cases "d = Suc m") auto
qed

section \<open>The partition\<close>

abbreviation pinned_count :: "settlement_account_key option \<Rightarrow> nat" where
  "pinned_count key \<equiv> (if key = None then 0 else 1)"

definition selected_keys ::
    "settlement_recipient list \<Rightarrow> u64 \<Rightarrow> settlement_account_key option \<Rightarrow> nat \<Rightarrow> settlement_account_key set" where
  "selected_keys canonical floor key k = set (map settlement_key (take k (direct_candidates canonical floor key)))"

text \<open>What a successful selection went through.\<close>

definition selected_by ::
    "'x crates_scheme \<Rightarrow> settlement_recipient list \<Rightarrow> u64 \<Rightarrow> settlement_mode_config \<Rightarrow>
     settlement_recipient option \<Rightarrow> settlement_mode_decision \<Rightarrow>
     settlement_recipient list \<Rightarrow> settlement_account_key option \<Rightarrow> nat \<Rightarrow> bool" where
  "selected_by X rs floor config pinned d canonical key k \<longleftrightarrow>
     validate_config config = Inr () \<and> rs \<noteq> [] \<and> canonical_recipients X rs = Inr canonical \<and>
     (case pinned of None \<Rightarrow> key = None
      | Some p \<Rightarrow> \<exists>j. key = Some j \<and> resolve_pinned_direct_key X canonical p config = Inr j) \<and>
     direct_count_from (length rs) config (pinned_count key)
       (min (length (direct_candidates canonical floor key))
          (smc_max_direct_coinbase_outputs config - pinned_count key)) = Inr k \<and>
     sd_direct_recipients d = filter (goes_direct key (selected_keys canonical floor key k)) canonical \<and>
     try_map fanout_chunk_of (enumerate 0 (chunks_of (smc_max_fanout_recipients_per_transaction config)
       (filter (\<lambda>r. \<not> goes_direct key (selected_keys canonical floor key k) r) canonical))) =
       Inr (sd_fanout_chunks d) \<and>
     sum_amounts canonical = Inr (sd_total_amount_sats d) \<and>
     sum_amounts (sd_direct_recipients d) = Inr (sd_direct_amount_sats d) \<and>
     sum_amounts (filter (\<lambda>r. \<not> goes_direct key (selected_keys canonical floor key k) r) canonical) =
       Inr (sd_fanout_amount_sats d) \<and>
     decision_mode (sd_direct_recipients d) (sd_fanout_chunks d) = Inr (sd_mode d) \<and>
     sd_direct_recipient_count d = length (sd_direct_recipients d) \<and>
     sd_fanout_recipient_count d = sum_list (map fc_recipient_count (sd_fanout_chunks d)) \<and>
     sd_fanout_chunk_count d = length (sd_fanout_chunks d) \<and>
     sd_coinbase_settlement_output_count d = smc_reserved_coinbase_outputs config +
       length (sd_direct_recipients d) + length (sd_fanout_chunks d) \<and>
     sd_reserved_coinbase_output_count d = smc_reserved_coinbase_outputs config"

lemma usize_add_Some: "usize_checked_add a b = Some c \<longleftrightarrow> a + b < 2 ^ 64 \<and> c = a + b"
  by (auto simp: usize_checked_add_def)

lemma select_mode_Inr:
  assumes "select_settlement_mode_with_pinned_direct X rs floor config pinned = Inr d"
  shows "\<exists>canonical key k. selected_by X rs floor config pinned d canonical key k"
proof -
  from assms obtain canonical where valid: "validate_config config = Inr ()" "rs \<noteq> []"
    and canonical: "canonical_recipients X rs = Inr canonical"
    by (auto simp: select_settlement_mode_with_pinned_direct_def and_then_Inr split: if_splits)
  note after1 = assms [unfolded select_settlement_mode_with_pinned_direct_def valid(1) canonical and_then.simps,
      unfolded if_not_P [OF valid(2)] and_then.simps]
  from after1 obtain key where key: "(case pinned of None \<Rightarrow> Inr None
      | Some p \<Rightarrow> and_then (resolve_pinned_direct_key X canonical p config) (\<lambda>key. Inr (Some key))) = Inr key"
    by (auto simp only: and_then_Inr)
  note after2 = after1 [unfolded key and_then.simps Let_def]
  from after2 obtain t where t: "sum_amounts canonical = Inr t"
    by (auto simp only: and_then_Inr)
  note after3 = after2 [unfolded t and_then.simps]
  from after3 obtain k where k: "select_direct_count (length rs) (length (direct_candidates canonical floor key))
      config (pinned_count key) = Inr k"
    by (auto simp only: and_then_Inr)
  note after4 = after3 [unfolded k and_then.simps, folded selected_keys_def]
  have pin: "case pinned of None \<Rightarrow> key = None
      | Some p \<Rightarrow> \<exists>j. key = Some j \<and> resolve_pinned_direct_key X canonical p config = Inr j"
    using key by (auto simp: and_then_Inr split: option.splits)
  have "selected_by X rs floor config pinned d canonical key k"
    unfolding selected_by_def
    using after4 valid canonical pin t k
    by (auto simp only: and_then_Inr ok_or_Inr usize_add_Some bind_eq_Some_conv select_direct_count_def
        sum.inject settlement_mode_decision.simps split: if_splits)
  then show ?thesis by blast
qed

lemma fanout_chunks_of:
  assumes "try_map fanout_chunk_of (enumerate n xss) = Inr cs"
  shows "map fc_recipients cs = xss \<and> map fc_chunk_index cs = [n..<n + length xss] \<and>
    (\<forall>c \<in> set cs. fc_recipient_count c = length (fc_recipients c) \<and>
       unat (fc_amount_sats c) = sum_list (sr_amounts (fc_recipients c)))"
  using assms
proof (induction xss arbitrary: n cs)
  case (Cons xs xss)
  then obtain c cs' where c: "fanout_chunk_of (n, xs) = Inr c" and cs: "cs = c # cs'"
    and rest: "try_map fanout_chunk_of (enumerate (Suc n) xss) = Inr cs'"
    by (auto simp: and_then_Inr simp del: try_map_Inr)
  have "fc_recipients c = xs \<and> fc_chunk_index c = n \<and> fc_recipient_count c = length xs \<and>
      unat (fc_amount_sats c) = sum_list (sr_amounts xs)"
    using c by (auto simp: fanout_chunk_of_def and_then_Inr sum_amounts_Inr)
  then show ?case
    using Cons.IH [OF rest] by (auto simp: cs upt_rec comp_def)
qed simp

lemma partition_sums:
  "sum_list (map f (filter P xs)) + sum_list (map f (filter (\<lambda>x. \<not> P x) xs)) = (sum_list (map f xs) :: nat)"
  by (induction xs) auto

lemma partition_mset: "mset (filter P xs @ filter (\<lambda>x. \<not> P x) xs) = mset xs"
  by (simp add: multiset_partition [symmetric])

lemma set_drop_distinct:
  assumes "distinct xs"
  shows "set (drop k xs) = set xs - set (take k xs)"
proof -
  have "set xs = set (take k xs) \<union> set (drop k xs)"
    by (metis append_take_drop_id set_append)
  moreover have "set (take k xs) \<inter> set (drop k xs) = {}"
    using assms by (simp add: set_take_disj_set_drop_if_distinct)
  ultimately show ?thesis by blast
qed

lemma sorted_key_filter: "sorted (map f xs) \<Longrightarrow> sorted (map f (filter P xs))"
  by (rule sorted_filter)

lemma validate_config_Inr:
  assumes "validate_config config = Inr ()"
  shows "0 < smc_max_coinbase_settlement_outputs config" and "smc_max_coinbase_settlement_outputs config \<le> 500"
    and "smc_max_direct_coinbase_outputs config \<le> 500" and "0 < smc_max_fanout_recipients_per_transaction config"
    and "smc_max_fanout_recipients_per_transaction config \<le> 1160"
    and "smc_reserved_coinbase_outputs config \<le> smc_max_coinbase_settlement_outputs config"
  using assms by (auto simp: validate_config_def MAX_COINBASE_SETTLEMENT_OUTPUTS_def
      MAX_DIRECT_COINBASE_OUTPUTS_def MAX_CTV_FANOUT_RECIPIENTS_PER_TRANSACTION_def and_then_Inr split: if_splits)

lemma decision_mode_Inr:
  "decision_mode direct chunks = Inr mode \<longleftrightarrow> (direct \<noteq> [] \<or> chunks \<noteq> []) \<and>
     mode = (if chunks = [] then DirectCoinbase else if direct = [] then CtvFanout else HybridCoinbaseCtvFanout)"
  by (cases direct; cases chunks) (auto simp: decision_mode_def)

abbreviation fanout_recipients_of :: "settlement_mode_decision \<Rightarrow> settlement_recipient list" where
  "fanout_recipients_of d \<equiv> concat (map fc_recipients (sd_fanout_chunks d))"

lemma selected_fanout:
  assumes "selected_by X rs floor config pinned d canonical key k"
  shows "fanout_recipients_of d = filter (\<lambda>r. \<not> goes_direct key (selected_keys canonical floor key k) r) canonical"
    and "map fc_recipients (sd_fanout_chunks d) = chunks_of (smc_max_fanout_recipients_per_transaction config)
      (fanout_recipients_of d)"
    and "map fc_chunk_index (sd_fanout_chunks d) = [0..<length (sd_fanout_chunks d)]"
    and "c \<in> set (sd_fanout_chunks d) \<Longrightarrow> fc_recipient_count c = length (fc_recipients c) \<and>
       unat (fc_amount_sats c) = sum_list (sr_amounts (fc_recipients c)) \<and> fc_recipients c \<noteq> [] \<and>
       fc_recipient_count c \<le> smc_max_fanout_recipients_per_transaction config"
    and "length (sd_fanout_chunks d) = div_ceil (length (fanout_recipients_of d))
      (smc_max_fanout_recipients_per_transaction config)"
proof -
  let ?n = "smc_max_fanout_recipients_per_transaction config"
  let ?f = "filter (\<lambda>r. \<not> goes_direct key (selected_keys canonical floor key k) r) canonical"
  from assms have n: "0 < ?n"
    and t: "try_map fanout_chunk_of (enumerate 0 (chunks_of ?n ?f)) = Inr (sd_fanout_chunks d)"
    by (auto simp: selected_by_def dest: validate_config_Inr(4))
  note chunk = chunks_of_facts [OF n] and f = fanout_chunks_of [OF t]
  from f have map: "map fc_recipients (sd_fanout_chunks d) = chunks_of ?n ?f" by blast
  then have len: "length (sd_fanout_chunks d) = length (chunks_of ?n ?f)"
    by (metis length_map)
  show fan: "fanout_recipients_of d = ?f"
    by (simp only: map chunk(1))
  then show "map fc_recipients (sd_fanout_chunks d) = chunks_of ?n (fanout_recipients_of d)"
    by (simp only: map)
  show "map fc_chunk_index (sd_fanout_chunks d) = [0..<length (sd_fanout_chunks d)]"
    using f len by simp
  show "length (sd_fanout_chunks d) = div_ceil (length (fanout_recipients_of d)) ?n"
    using len chunk(2) fan by simp
  show "fc_recipient_count c = length (fc_recipients c) \<and>
       unat (fc_amount_sats c) = sum_list (sr_amounts (fc_recipients c)) \<and> fc_recipients c \<noteq> [] \<and>
       fc_recipient_count c \<le> ?n" if c: "c \<in> set (sd_fanout_chunks d)"
  proof -
    from c have "fc_recipients c \<in> set (chunks_of ?n ?f)"
      by (metis map image_eqI list.set_map)
    then show ?thesis
      using chunk(3) f c by auto
  qed
qed

lemma selected_direct:
  assumes "selected_by X rs floor config pinned d canonical key k"
  shows "length (sd_direct_recipients d) = pinned_count key + k"
    and "length (sd_direct_recipients d) + length (fanout_recipients_of d) = length rs"
    and "key = Some j \<Longrightarrow> \<exists>r \<in> set (sd_direct_recipients d). settlement_key r = j"
    and "r \<in> set (sd_direct_recipients d) \<longleftrightarrow>
      r \<in> set canonical \<and> key = Some (settlement_key r) \<or> r \<in> set (take k (direct_candidates canonical floor key))"
proof -
  let ?cand = "direct_candidates canonical floor key"
  let ?P = "{r \<in> set canonical. key = Some (settlement_key r)}" and ?T = "set (take k ?cand)"
  from assms have canonical: "canonical_recipients X rs = Inr canonical"
    and dir: "sd_direct_recipients d = filter (goes_direct key (selected_keys canonical floor key k)) canonical"
    and count: "direct_count_from (length rs) config (pinned_count key)
       (min (length ?cand) (smc_max_direct_coinbase_outputs config - pinned_count key)) = Inr k"
    and conf: "validate_config config = Inr ()"
    and pin: "case pinned of None \<Rightarrow> key = None
      | Some p \<Rightarrow> \<exists>j. key = Some j \<and> resolve_pinned_direct_key X canonical p config = Inr j"
    by (auto simp: selected_by_def)
  note facts = canonical_facts [OF canonical]
  have k: "k \<le> length ?cand"
    using direct_count_from_Inr [OF validate_config_Inr(4) [OF conf] count] by simp
  have cand: "set ?cand = {r \<in> set canonical. floor \<le> sr_amount_sats r \<and> key \<noteq> Some (settlement_key r)}"
    by (simp add: direct_candidates_def)
  then have T: "?T \<subseteq> set canonical" "?T \<inter> ?P = {}"
    using set_take_subset [of k ?cand] by auto
  have mem: "settlement_key r \<in> selected_keys canonical floor key k \<longleftrightarrow> r \<in> ?T" if "r \<in> set canonical" for r
    using inj_on_image_mem_iff [OF facts(4) that T(1)] by (simp add: selected_keys_def)
  then have set_dir: "set (sd_direct_recipients d) = ?P \<union> ?T"
    using T(1) by (auto simp: dir goes_direct_def)
  then show "r \<in> set (sd_direct_recipients d) \<longleftrightarrow>
      r \<in> set canonical \<and> key = Some (settlement_key r) \<or> r \<in> set (take k ?cand)"
    by auto
  have pinned_in: "\<exists>r \<in> set canonical. settlement_key r = j" if "key = Some j" for j
    using pin that by (auto simp: resolve_pinned_direct_key_def Let_def list_ex_iff result_simps split: option.splits if_splits)
  then show "key = Some j \<Longrightarrow> \<exists>r \<in> set (sd_direct_recipients d). settlement_key r = j"
    using set_dir by auto
  have "card ?P = pinned_count key"
  proof (cases key)
    case (Some j)
    then obtain r where "r \<in> set canonical" "settlement_key r = j"
      using pinned_in by blast
    then have "?P = {r}"
      using Some facts(4) by (auto dest: inj_onD)
    then show ?thesis using Some by simp
  qed simp
  moreover have "card ?T = k"
    using k facts(3) by (simp add: distinct_card direct_candidates_def distinct_take)
  moreover have "length (sd_direct_recipients d) = card (set (sd_direct_recipients d))"
    unfolding dir by (rule distinct_card [symmetric]) (simp add: facts(3))
  ultimately show "length (sd_direct_recipients d) = pinned_count key + k"
    using set_dir T(2) by (simp add: card_Un_disjoint Int_commute)
  show "length (sd_direct_recipients d) + length (fanout_recipients_of d) = length rs"
    using sum_length_filter_compl [of "goes_direct key (selected_keys canonical floor key k)" canonical] facts(6)
    by (simp only: dir selected_fanout(1) [OF assms])
qed

lemma selected_parts:
  assumes sel: "selected_by X rs floor config pinned d canonical key k"
  shows "\<exists>ns. normalize_recipient_p2mr_programs X rs = Inr ns \<and>
    mset (sd_direct_recipients d) + mset (fanout_recipients_of d) = mset ns \<and>
    unat (sd_total_amount_sats d) = sum_list (sr_amounts ns)"
    and "sorted (map settlement_key (sd_direct_recipients d))"
    and "sorted (map settlement_key (fanout_recipients_of d))"
    and "unat (sd_direct_amount_sats d) = sum_list (sr_amounts (sd_direct_recipients d))"
    and "unat (sd_fanout_amount_sats d) = sum_list (sr_amounts (fanout_recipients_of d))"
    and "unat (sd_total_amount_sats d) = unat (sd_direct_amount_sats d) + unat (sd_fanout_amount_sats d)"
proof -
  note fan = selected_fanout(1) [OF sel]
  let ?P = "goes_direct key (selected_keys canonical floor key k)"
  have c: "canonical_recipients X rs = Inr canonical"
    using sel by (simp add: selected_by_def)
  then obtain ns where ns: "normalize_recipient_p2mr_programs X rs = Inr ns" "canonical = sort_by canonical_recipient_cmp ns"
    unfolding canonical_recipients_Inr by blast
  from sel have dir: "sd_direct_recipients d = filter ?P canonical"
    and amounts: "sum_amounts canonical = Inr (sd_total_amount_sats d)"
      "sum_amounts (sd_direct_recipients d) = Inr (sd_direct_amount_sats d)"
      "sum_amounts (fanout_recipients_of d) = Inr (sd_fanout_amount_sats d)"
    unfolding fan by (auto simp: selected_by_def)
  have "mset (sd_direct_recipients d) + mset (fanout_recipients_of d) = mset ns"
    unfolding fan dir using partition_mset [of ?P canonical] by (simp add: ns(2))
  moreover have "unat (sd_total_amount_sats d) = sum_list (sr_amounts ns)"
    using amounts(1) unfolding sum_amounts_Inr ns(2) sum_list_sort_by by blast
  ultimately show "\<exists>ns. normalize_recipient_p2mr_programs X rs = Inr ns \<and>
    mset (sd_direct_recipients d) + mset (fanout_recipients_of d) = mset ns \<and>
    unat (sd_total_amount_sats d) = sum_list (sr_amounts ns)"
    using ns(1) by blast
  show "sorted (map settlement_key (sd_direct_recipients d))" "sorted (map settlement_key (fanout_recipients_of d))"
    unfolding fan dir by (rule sorted_key_filter [OF canonical_facts(1) [OF c]])+
  show direct: "unat (sd_direct_amount_sats d) = sum_list (sr_amounts (sd_direct_recipients d))"
    and fanout: "unat (sd_fanout_amount_sats d) = sum_list (sr_amounts (fanout_recipients_of d))"
    using amounts(2,3) by (simp_all only: sum_amounts_Inr)
  show "unat (sd_total_amount_sats d) = unat (sd_direct_amount_sats d) + unat (sd_fanout_amount_sats d)"
    using amounts(1) partition_sums [of "unat \<circ> sr_amount_sats" ?P canonical]
    unfolding direct fanout fan dir sum_amounts_Inr by simp
qed

lemma selected_counts:
  assumes sel: "selected_by X rs floor config pinned d canonical key k"
  shows "sd_direct_recipient_count d = length (sd_direct_recipients d)"
    and "sd_fanout_recipient_count d = length (fanout_recipients_of d)"
    and "sd_fanout_chunk_count d = length (sd_fanout_chunks d)"
    and "sd_mode d = DirectCoinbase \<longleftrightarrow> fanout_recipients_of d = []"
    and "sd_mode d = CtvFanout \<longleftrightarrow> sd_direct_recipients d = []"
proof -
  note fan = selected_fanout [OF sel]
  show "sd_direct_recipient_count d = length (sd_direct_recipients d)" "sd_fanout_chunk_count d = length (sd_fanout_chunks d)"
    using sel by (simp_all add: selected_by_def)
  have "map fc_recipient_count (sd_fanout_chunks d) = map (length \<circ> fc_recipients) (sd_fanout_chunks d)"
    using fan(4) by simp
  moreover have "sd_fanout_recipient_count d = sum_list (map fc_recipient_count (sd_fanout_chunks d))"
    using sel by (simp add: selected_by_def)
  ultimately show "sd_fanout_recipient_count d = length (fanout_recipients_of d)"
    by (simp only: length_concat map_map)
  have empty: "sd_fanout_chunks d = [] \<longleftrightarrow> fanout_recipients_of d = []"
    using fan(4) by (cases "sd_fanout_chunks d") auto
  have "decision_mode (sd_direct_recipients d) (sd_fanout_chunks d) = Inr (sd_mode d)"
    using sel unfolding selected_by_def by (elim conjE)
  then show "sd_mode d = DirectCoinbase \<longleftrightarrow> fanout_recipients_of d = []"
    "sd_mode d = CtvFanout \<longleftrightarrow> sd_direct_recipients d = []"
    unfolding empty [symmetric] decision_mode_Inr by (auto split: if_splits)
qed

section \<open>What a selection promises\<close>

text \<open>
  C23. The settlement is a partition: every recipient is settled exactly once, either by the
  coinbase or in one fanout chunk, both parts in canonical order; the direct and the fanout
  amounts are the sums of their recipients and add up to the total; the chunks are numbered
  consecutively, state their own counts and sums, are not empty and stay within the
  configured size; the counts and the mode of the decision describe the partition.
\<close>

theorem settlement_partitions:
  assumes "select_settlement_mode_with_pinned_direct X rs floor config pinned = Inr d"
  shows "\<exists>ns. normalize_recipient_p2mr_programs X rs = Inr ns \<and>
    mset (sd_direct_recipients d) + mset (fanout_recipients_of d) = mset ns \<and>
    sorted (map settlement_key (sd_direct_recipients d)) \<and> sorted (map settlement_key (fanout_recipients_of d)) \<and>
    unat (sd_direct_amount_sats d) = sum_list (sr_amounts (sd_direct_recipients d)) \<and>
    unat (sd_fanout_amount_sats d) = sum_list (sr_amounts (fanout_recipients_of d)) \<and>
    unat (sd_total_amount_sats d) = unat (sd_direct_amount_sats d) + unat (sd_fanout_amount_sats d) \<and>
    unat (sd_total_amount_sats d) = sum_list (sr_amounts ns) \<and>
    map fc_chunk_index (sd_fanout_chunks d) = [0..<length (sd_fanout_chunks d)] \<and>
    (\<forall>c \<in> set (sd_fanout_chunks d). fc_recipient_count c = length (fc_recipients c) \<and>
       unat (fc_amount_sats c) = sum_list (sr_amounts (fc_recipients c)) \<and> fc_recipients c \<noteq> [] \<and>
       fc_recipient_count c \<le> smc_max_fanout_recipients_per_transaction config) \<and>
    sd_direct_recipient_count d = length (sd_direct_recipients d) \<and>
    sd_fanout_recipient_count d = length (fanout_recipients_of d) \<and>
    sd_fanout_chunk_count d = length (sd_fanout_chunks d) \<and>
    (sd_mode d = DirectCoinbase \<longleftrightarrow> fanout_recipients_of d = []) \<and>
    (sd_mode d = CtvFanout \<longleftrightarrow> sd_direct_recipients d = [])"
proof -
  obtain canonical key k where sel: "selected_by X rs floor config pinned d canonical key k"
    using select_mode_Inr [OF assms] by blast
  note parts = selected_parts [OF sel] and counts = selected_counts [OF sel] and fan = selected_fanout [OF sel]
  have "\<forall>c \<in> set (sd_fanout_chunks d). fc_recipient_count c = length (fc_recipients c) \<and>
       unat (fc_amount_sats c) = sum_list (sr_amounts (fc_recipients c)) \<and> fc_recipients c \<noteq> [] \<and>
       fc_recipient_count c \<le> smc_max_fanout_recipients_per_transaction config"
    using fan(4) by blast
  with parts(1) show ?thesis
    by (elim exE conjE, intro exI conjI) (assumption | rule parts(2-) counts fan(3))+
qed

text \<open>The eligible recipients that did not make it are those of the fanout at or above the floor.\<close>

lemma selected_eligible:
  assumes sel: "selected_by X rs floor config pinned d canonical key k"
  shows "length (direct_candidates canonical floor key) =
    k + length (filter (\<lambda>r. floor \<le> sr_amount_sats r) (fanout_recipients_of d))"
proof -
  let ?cand = "direct_candidates canonical floor key" and ?rest = "filter (\<lambda>r. floor \<le> sr_amount_sats r) (fanout_recipients_of d)"
  from sel have c: "canonical_recipients X rs = Inr canonical" and conf: "validate_config config = Inr ()"
    and count: "direct_count_from (length rs) config (pinned_count key)
       (min (length ?cand) (smc_max_direct_coinbase_outputs config - pinned_count key)) = Inr k"
    and dir: "sd_direct_recipients d = filter (goes_direct key (selected_keys canonical floor key k)) canonical"
    by (auto simp: selected_by_def)
  have dist: "distinct ?cand" "distinct (fanout_recipients_of d)"
    using canonical_facts(3) [OF c] by (simp_all add: direct_candidates_def selected_fanout(1) [OF sel])
  have "r \<in> set (fanout_recipients_of d) \<longleftrightarrow> r \<in> set canonical \<and> r \<notin> set (sd_direct_recipients d)" for r
    by (auto simp: selected_fanout(1) [OF sel] dir)
  then have "set (drop k ?cand) = set ?rest"
    unfolding set_drop_distinct [OF dist(1)] using selected_direct(4) [OF sel] by (auto simp: direct_candidates_def)
  then have "length (drop k ?cand) = length ?rest"
    using dist by (metis distinct_card distinct_drop distinct_filter)
  moreover have "k \<le> length ?cand"
    using direct_count_from_Inr [OF validate_config_Inr(4) [OF conf] count] by simp
  ultimately show ?thesis
    by simp
qed

lemma selected_budget:
  assumes sel: "selected_by X rs floor config pinned d canonical key k"
  shows "sd_coinbase_settlement_output_count d = smc_reserved_coinbase_outputs config +
      length (sd_direct_recipients d) + length (sd_fanout_chunks d)"
    and "sd_coinbase_settlement_output_count d \<le> smc_max_coinbase_settlement_outputs config"
    and "smc_max_coinbase_settlement_outputs config \<le> 500"
    and "length (sd_direct_recipients d) \<le> smc_max_direct_coinbase_outputs config"
    and "k < k' \<Longrightarrow> k' \<le> length (direct_candidates canonical floor key) \<Longrightarrow>
      k' \<le> smc_max_direct_coinbase_outputs config - pinned_count key \<Longrightarrow>
      smc_max_coinbase_settlement_outputs config < outputs_of (length rs) config (pinned_count key) k'"
proof -
  note dir = selected_direct [OF sel]
  from sel have conf: "validate_config config = Inr ()"
    and count: "direct_count_from (length rs) config (pinned_count key)
       (min (length (direct_candidates canonical floor key)) (smc_max_direct_coinbase_outputs config - pinned_count key)) = Inr k"
    and pin: "case pinned of None \<Rightarrow> key = None
      | Some p \<Rightarrow> \<exists>j. key = Some j \<and> resolve_pinned_direct_key X canonical p config = Inr j"
    by (auto simp: selected_by_def)
  note n = direct_count_from_Inr [OF validate_config_Inr(4) [OF conf] count]
  show outs: "sd_coinbase_settlement_output_count d = smc_reserved_coinbase_outputs config +
      length (sd_direct_recipients d) + length (sd_fanout_chunks d)"
    using sel by (simp add: selected_by_def)
  have "length (fanout_recipients_of d) = length rs - pinned_count key - k"
    using dir(1,2) by simp
  then have "sd_coinbase_settlement_output_count d = outputs_of (length rs) config (pinned_count key) k"
    using outs dir(1) selected_fanout(5) [OF sel] by (simp add: outputs_of_def)
  then show "sd_coinbase_settlement_output_count d \<le> smc_max_coinbase_settlement_outputs config"
    using n by simp
  show "smc_max_coinbase_settlement_outputs config \<le> 500"
    by (rule validate_config_Inr(2) [OF conf])
  have "pinned_count key \<le> smc_max_direct_coinbase_outputs config"
    using pin by (auto simp: resolve_pinned_direct_key_def split: option.splits if_splits)
  then show "length (sd_direct_recipients d) \<le> smc_max_direct_coinbase_outputs config"
    using n dir(1) by linarith
  show "k < k' \<Longrightarrow> k' \<le> length (direct_candidates canonical floor key) \<Longrightarrow>
      k' \<le> smc_max_direct_coinbase_outputs config - pinned_count key \<Longrightarrow>
      smc_max_coinbase_settlement_outputs config < outputs_of (length rs) config (pinned_count key) k'"
    using n by simp
qed

text \<open>
  C24. The output budget is kept. The coinbase outputs of a decision are the reserved ones, one
  a direct recipient and one a fanout chunk, at most the configured number, itself at most 500;
  direct recipients stay within their own limit; the chunks are as few as their size allows;
  and the number of direct recipients is the largest that fits: taking more of the
  eligible ones, up to the limit, would exceed the budget.
\<close>

theorem settlement_respects_budget:
  assumes "select_settlement_mode_with_pinned_direct X rs floor config pinned = Inr d"
  shows "sd_coinbase_settlement_output_count d = smc_reserved_coinbase_outputs config +
      length (sd_direct_recipients d) + length (sd_fanout_chunks d) \<and>
    sd_coinbase_settlement_output_count d \<le> smc_max_coinbase_settlement_outputs config \<and>
    smc_max_coinbase_settlement_outputs config \<le> 500 \<and>
    length (sd_direct_recipients d) \<le> smc_max_direct_coinbase_outputs config \<and>
    length (sd_direct_recipients d) + length (fanout_recipients_of d) = length rs \<and>
    length (sd_fanout_chunks d) =
      div_ceil (length (fanout_recipients_of d)) (smc_max_fanout_recipients_per_transaction config) \<and>
    (\<forall>m. length (sd_direct_recipients d) < m \<and> m \<le> smc_max_direct_coinbase_outputs config \<and>
       m - length (sd_direct_recipients d) \<le>
         length (filter (\<lambda>r. floor \<le> sr_amount_sats r) (fanout_recipients_of d)) \<longrightarrow>
       smc_max_coinbase_settlement_outputs config < smc_reserved_coinbase_outputs config + m +
         div_ceil (length rs - m) (smc_max_fanout_recipients_per_transaction config))"
proof -
  obtain canonical key k where sel: "selected_by X rs floor config pinned d canonical key k"
    using select_mode_Inr [OF assms] by blast
  note dir = selected_direct [OF sel] and budget = selected_budget [OF sel] and fan = selected_fanout [OF sel]
  have "smc_max_coinbase_settlement_outputs config < smc_reserved_coinbase_outputs config + m +
         div_ceil (length rs - m) (smc_max_fanout_recipients_per_transaction config)"
    if "length (sd_direct_recipients d) < m" "m \<le> smc_max_direct_coinbase_outputs config"
      "m - length (sd_direct_recipients d) \<le>
         length (filter (\<lambda>r. floor \<le> sr_amount_sats r) (fanout_recipients_of d))" for m
  proof -
    have k: "k < m - pinned_count key"
      using that(1) dir(1) by simp
    have "m - pinned_count key \<le> length (direct_candidates canonical floor key)"
      using that(3) dir(1) unfolding selected_eligible [OF sel] by linarith
    from budget(5) [OF k this diff_le_mono [OF that(2)]] show ?thesis
      using k by (simp add: outputs_of_def split: if_splits)
  qed
  then show ?thesis
    using budget(1-4) dir(2) fan(5) by blast
qed

definition is_pinned ::
    "'x crates_scheme \<Rightarrow> settlement_recipient option \<Rightarrow> settlement_recipient \<Rightarrow> bool" where
  "is_pinned X pinned r \<longleftrightarrow> (case pinned of None \<Rightarrow> False
     | Some p \<Rightarrow> (case normalize_recipient X p of Inl e \<Rightarrow> False | Inr n \<Rightarrow> settlement_key r = settlement_key n))"

lemma selected_pinned:
  assumes "selected_by X rs floor config pinned d canonical key k"
  shows "key = Some (settlement_key r) \<longleftrightarrow> is_pinned X pinned r"
  using assms by (auto simp: selected_by_def is_pinned_def resolve_pinned_direct_key_def Let_def result_simps
      split: option.splits sum.splits if_splits)

text \<open>
  C25. Who is paid by the coinbase itself: the pinned recipient, always, and else only
  recipients at or above the direct floor, the largest amounts first with ties broken by
  the canonical key: a recipient at or above the floor that goes to a fanout is owed
  less than every direct one that is not pinned, or the same with a larger key.
\<close>

theorem settlement_priority:
  assumes "select_settlement_mode_with_pinned_direct X rs floor config pinned = Inr d"
  shows "(\<forall>r \<in> set (sd_direct_recipients d). is_pinned X pinned r \<or> floor \<le> sr_amount_sats r) \<and>
    (\<forall>r \<in> set (sd_direct_recipients d). \<forall>s \<in> set (fanout_recipients_of d).
       is_pinned X pinned r \<or> sr_amount_sats s < floor \<or> sr_amount_sats s < sr_amount_sats r \<or>
       sr_amount_sats s = sr_amount_sats r \<and> settlement_key r < settlement_key s) \<and>
    (\<forall>s \<in> set (fanout_recipients_of d). \<not> is_pinned X pinned s) \<and>
    (pinned \<noteq> None \<longrightarrow> (\<exists>r \<in> set (sd_direct_recipients d). is_pinned X pinned r))"
proof -
  obtain canonical key k where sel: "selected_by X rs floor config pinned d canonical key k"
    using select_mode_Inr [OF assms] by blast
  note fan = selected_fanout [OF sel] and dir = selected_direct [OF sel] and pin = selected_pinned [OF sel]
  let ?cand = "direct_candidates canonical floor key"
  have cand: "r \<in> set ?cand \<longleftrightarrow> r \<in> set canonical \<and> floor \<le> sr_amount_sats r \<and> \<not> is_pinned X pinned r" for r
    by (auto simp: direct_candidates_def pin [symmetric])
  have took: "r \<in> set (take k ?cand)" if "r \<in> set (sd_direct_recipients d)" "\<not> is_pinned X pinned r" for r
    using that dir(4) [of r] pin [of r] by blast
  have fanout: "s \<in> set canonical \<and> \<not> is_pinned X pinned s \<and> s \<notin> set (take k ?cand)"
    if "s \<in> set (fanout_recipients_of d)" for s
    using that pin [of s] by (auto simp: fan(1) goes_direct_def selected_keys_def)
  have floor: "\<forall>r \<in> set (sd_direct_recipients d). is_pinned X pinned r \<or> floor \<le> sr_amount_sats r"
    using took cand by (meson in_set_takeD)
  have first: "sr_amount_sats s < sr_amount_sats r \<or>
       sr_amount_sats s = sr_amount_sats r \<and> settlement_key r < settlement_key s"
    if r: "r \<in> set (sd_direct_recipients d)" "\<not> is_pinned X pinned r"
      and s: "s \<in> set (fanout_recipients_of d)" "floor \<le> sr_amount_sats s" for r s
  proof -
    have rt: "r \<in> set (take k ?cand)"
      using took r by blast
    have "s \<in> set ?cand" "s \<notin> set (take k ?cand)"
      using fanout [OF s(1)] s(2) cand by blast+
    then have sd: "s \<in> set (drop k ?cand)"
      by (metis Un_iff append_take_drop_id set_append)
    have canonical: "canonical_recipients X rs = Inr canonical"
      using sel by (simp add: selected_by_def)
    have "settlement_key r \<noteq> settlement_key s"
      using canonical_facts(4) [OF canonical] rt fanout [OF s(1)] cand [of r] by (metis in_set_takeD inj_onD)
    then show ?thesis
      using priority.take_drop_key [OF rt [unfolded direct_candidates_def] sd [unfolded direct_candidates_def]]
      by (auto simp: priority_key_def less_eq_prod_def word_less_def word_uint_eq_iff order_less_le)
  qed
  have "\<exists>r \<in> set (sd_direct_recipients d). is_pinned X pinned r" if some: "pinned \<noteq> None"
  proof -
    obtain j where j: "key = Some j"
      using sel some by (auto simp: selected_by_def)
    show ?thesis
      using dir(3) [OF j] pin j by metis
  qed
  with floor first fanout show ?thesis
    by (meson not_le)
qed

section \<open>When a selection succeeds\<close>

lemma length_filter_sort_by: "length (filter P (sort_by c xs)) = length (filter P xs)"
  by (metis mset_filter mset_sort_by size_mset)

definition settlement_fits ::
    "'x crates_scheme \<Rightarrow> settlement_recipient list \<Rightarrow> u64 \<Rightarrow> settlement_mode_config \<Rightarrow>
     settlement_recipient option \<Rightarrow> bool" where
  "settlement_fits X ns floor config pinned \<longleftrightarrow>
     (\<exists>m. (if pinned = None then 0 else 1) \<le> m \<and> m \<le> smc_max_direct_coinbase_outputs config \<and>
       m \<le> (if pinned = None then 0 else 1) +
         length (filter (\<lambda>r. floor \<le> sr_amount_sats r \<and> \<not> is_pinned X pinned r) ns) \<and>
       smc_reserved_coinbase_outputs config + m +
         div_ceil (length ns - m) (smc_max_fanout_recipients_per_transaction config) \<le>
         smc_max_coinbase_settlement_outputs config)"

text \<open>The key of the pinned recipient, as the selection resolves it.\<close>

definition pinned_key_of ::
    "'x crates_scheme \<Rightarrow> settlement_recipient list \<Rightarrow> settlement_mode_config \<Rightarrow>
     settlement_recipient option \<Rightarrow> prism_error + settlement_account_key option" where
  "pinned_key_of X canonical config pinned = (case pinned of None \<Rightarrow> Inr None
     | Some p \<Rightarrow> and_then (resolve_pinned_direct_key X canonical p config) (\<lambda>key. Inr (Some key)))"

lemma pinned_key_Inr:
  "(\<exists>key. pinned_key_of X canonical config pinned = Inr key) \<longleftrightarrow>
     pinned = None \<or> smc_max_direct_coinbase_outputs config \<noteq> 0 \<and> (\<exists>r \<in> set canonical. is_pinned X pinned r)"
  by (cases pinned; cases "normalize_recipient X (the pinned)")
    (auto simp: pinned_key_of_def resolve_pinned_direct_key_def is_pinned_def Let_def list_ex_iff result_simps
      simp del: split_paired_Ex)

lemma pinned_key_facts:
  assumes "pinned_key_of X canonical config pinned = Inr key"
  shows "pinned_count key = (if pinned = None then 0 else 1)" and "key = Some (settlement_key r) \<longleftrightarrow> is_pinned X pinned r"
  using assms by (auto simp: pinned_key_of_def resolve_pinned_direct_key_def is_pinned_def Let_def result_simps
      split: option.splits sum.splits if_splits)

lemma candidate_count:
  assumes "pinned_key_of X canonical config pinned = Inr key"
  shows "length (direct_candidates canonical floor key) =
    length (filter (\<lambda>r. floor \<le> sr_amount_sats r \<and> \<not> is_pinned X pinned r) canonical)"
  by (simp add: direct_candidates_def pinned_key_facts(2) [OF assms])

lemma select_direct_count_Inr:
  assumes conf: "validate_config config = Inr ()" and key: "pinned_key_of X canonical config pinned = Inr key"
    and "length canonical < 2 ^ 62"
  shows "(\<exists>k. select_direct_count (length canonical) (length (direct_candidates canonical floor key)) config
      (pinned_count key) = Inr k) \<longleftrightarrow> settlement_fits X canonical floor config pinned"
proof -
  let ?p = "if pinned = None then 0 else 1 :: nat" and ?c = "length (direct_candidates canonical floor key)"
  let ?m = "min ?c (smc_max_direct_coinbase_outputs config - ?p)"
  note cf = validate_config_Inr [OF conf] and kf = pinned_key_facts [OF key]
  have bound: "length canonical + smc_max_fanout_recipients_per_transaction config +
      smc_reserved_coinbase_outputs config < 2 ^ 63"
    using cf(2,5,6) assms(3) by simp
  have room: "?p \<le> smc_max_direct_coinbase_outputs config"
    using key by (auto simp: pinned_key_of_def resolve_pinned_direct_key_def and_then_Inr split: option.splits if_splits)
  have "length (filter (\<lambda>r. floor \<le> sr_amount_sats r \<and> \<not> is_pinned X pinned r) canonical) + ?p \<le> length canonical"
  proof (cases "pinned = None")
    case True
    then show ?thesis by simp
  next
    case False
    then obtain r where "r \<in> set canonical" "is_pinned X pinned r"
      using pinned_key_Inr key by blast
    then have "length (filter (\<lambda>r. floor \<le> sr_amount_sats r \<and> \<not> is_pinned X pinned r) canonical) < length canonical"
      by (intro length_filter_less) auto
    then show ?thesis using False by simp
  qed
  then have fit: "?p + ?m \<le> length canonical"
    by (simp add: candidate_count [OF key])
  have "(\<exists>k. direct_count_from (length canonical) config ?p ?m = Inr k) \<longleftrightarrow>
      (\<exists>k \<le> ?m. outputs_of (length canonical) config ?p k \<le> smc_max_coinbase_settlement_outputs config)"
    using direct_count_from_Inr [OF cf(4)] direct_count_from_total [OF cf(4) fit bound] by blast
  also have "\<dots> \<longleftrightarrow> settlement_fits X canonical floor config pinned"
  proof
    assume "\<exists>k \<le> ?m. outputs_of (length canonical) config ?p k \<le> smc_max_coinbase_settlement_outputs config"
    then obtain k where "k \<le> ?m" "outputs_of (length canonical) config ?p k \<le> smc_max_coinbase_settlement_outputs config"
      by blast
    then show "settlement_fits X canonical floor config pinned"
      unfolding settlement_fits_def candidate_count [OF key, symmetric] using room
      by (intro exI [of _ "?p + k"]) (auto simp: outputs_of_def)
  next
    assume "settlement_fits X canonical floor config pinned"
    then obtain m where "?p \<le> m" "m \<le> smc_max_direct_coinbase_outputs config" "m \<le> ?p + ?c"
      "smc_reserved_coinbase_outputs config + m +
         div_ceil (length canonical - m) (smc_max_fanout_recipients_per_transaction config) \<le>
         smc_max_coinbase_settlement_outputs config"
      unfolding settlement_fits_def candidate_count [OF key, symmetric] by blast
    then show "\<exists>k \<le> ?m. outputs_of (length canonical) config ?p k \<le> smc_max_coinbase_settlement_outputs config"
      by (intro exI [of _ "m - ?p"]) (auto simp: outputs_of_def)
  qed
  finally show ?thesis
    by (simp only: select_direct_count_def kf(1))
qed

lemma fanout_chunks_total:
  assumes "sum_list (sr_amounts (concat xss)) < 2 ^ 64"
  shows "\<exists>cs. try_map fanout_chunk_of (enumerate n xss) = Inr cs"
  using assms
proof (induction xss arbitrary: n)
  case (Cons xs xss)
  then obtain t where "sum_amounts xs = Inr t"
    using sum_amounts_total [of xs] by (auto simp: comp_def)
  moreover obtain cs where "try_map fanout_chunk_of (enumerate (Suc n) xss) = Inr cs"
    using Cons.IH [of "Suc n"] Cons.prems by (auto simp: comp_def)
  ultimately show ?case
    by (simp add: fanout_chunk_of_def)
qed simp

text \<open>Once the number of direct recipients is found, nothing after it fails.\<close>

lemma selection_completes:
  assumes conf: "validate_config config = Inr ()" and "rs \<noteq> []"
    and canonical: "canonical_recipients X rs = Inr canonical"
    and key: "pinned_key_of X canonical config pinned = Inr key"
    and total: "sum_list (sr_amounts canonical) < 2 ^ 64"
    and k: "select_direct_count (length rs) (length (direct_candidates canonical floor key)) config
      (pinned_count key) = Inr k"
    and len: "length rs < 2 ^ 62"
  shows "\<exists>d. select_settlement_mode_with_pinned_direct X rs floor config pinned = Inr d"
proof -
  let ?P = "goes_direct key (selected_keys canonical floor key k)"
  let ?direct = "filter ?P canonical" and ?fan = "filter (\<lambda>r. \<not> ?P r) canonical"
  let ?n = "smc_max_fanout_recipients_per_transaction config"
  note cf = validate_config_Inr [OF conf]
  have parts: "sum_list (sr_amounts ?direct) + sum_list (sr_amounts ?fan) = sum_list (sr_amounts canonical)"
    by (rule partition_sums)
  have lens: "length ?direct + length ?fan = length rs"
    using canonical_facts(6) [OF canonical] sum_length_filter_compl [of ?P canonical] by simp
  obtain t where t: "sum_amounts canonical = Inr t"
    using sum_amounts_total [OF total] by blast
  have less: "sum_list (sr_amounts ?direct) < 2 ^ 64" "sum_list (sr_amounts ?fan) < 2 ^ 64"
    using parts total by linarith+
  obtain td tf where td: "sum_amounts ?direct = Inr td" and tf: "sum_amounts ?fan = Inr tf"
    using sum_amounts_total [OF less(1)] sum_amounts_total [OF less(2)] by blast
  have add: "checked_add td tf = Some t"
    using t td tf parts by (simp add: sum_amounts_Inr checked_simps)
  obtain cs where cs: "try_map fanout_chunk_of (enumerate 0 (chunks_of ?n ?fan)) = Inr cs"
  proof -
    have "sum_list (sr_amounts (concat (chunks_of ?n ?fan))) < 2 ^ 64"
      unfolding chunks_of_facts(1) [OF cf(4)] using parts total by linarith
    from fanout_chunks_total [OF this, of 0] show ?thesis
      using that by blast
  qed
  have cl: "length cs \<le> length rs + 1160"
  proof -
    have "length cs = div_ceil (length ?fan) ?n"
      using fanout_chunks_of [OF cs] chunks_of_facts(2) [OF cf(4), of ?fan] by (metis length_map)
    also have "\<dots> \<le> length ?fan + ?n"
      unfolding div_ceil_def by (rule order_trans [OF div_le_dividend]) simp
    finally show ?thesis
      using lens cf(5) by linarith
  qed
  have "?direct \<noteq> [] \<or> cs \<noteq> []"
  proof (rule ccontr)
    assume "\<not> ?thesis"
    then have "?direct = []" "?fan = []"
      using fanout_chunks_of [OF cs] chunks_of_facts(1) [OF cf(4), of ?fan] by auto
    then show False
      using lens \<open>rs \<noteq> []\<close> by simp
  qed
  then obtain mode where mode: "decision_mode ?direct cs = Inr mode"
    by (simp add: decision_mode_Inr)
  have c1: "usize_checked_add (smc_reserved_coinbase_outputs config) (length ?direct) =
      Some (smc_reserved_coinbase_outputs config + length ?direct)"
    and c2: "usize_checked_add (smc_reserved_coinbase_outputs config + length ?direct) (length cs) =
      Some (smc_reserved_coinbase_outputs config + length ?direct + length cs)"
    unfolding usize_add_Some using lens cl len cf(2,6) by simp_all
  have rs: "(rs = []) = False"
    using \<open>rs \<noteq> []\<close> by simp
  show ?thesis
    unfolding select_settlement_mode_with_pinned_direct_def conf rs canonical Let_def
      key [unfolded pinned_key_of_def] and_then.simps if_False t k selected_keys_def [symmetric] td tf ok_or.simps
      add cs mode bind.simps c1 c2
    by simp
qed

definition settlement_input_ok ::
    "'x crates_scheme \<Rightarrow> settlement_recipient list \<Rightarrow> u64 \<Rightarrow> settlement_mode_config \<Rightarrow>
     settlement_recipient option \<Rightarrow> settlement_recipient list \<Rightarrow> bool" where
  "settlement_input_ok X rs floor config pinned ns \<longleftrightarrow>
     normalize_recipient_p2mr_programs X rs = Inr ns \<and>
     (\<forall>r \<in> set ns. sr_amount_sats r \<noteq> 0) \<and> distinct (map settlement_key ns) \<and>
     sum_list (sr_amounts ns) < 2 ^ 64 \<and>
     (pinned = None \<or> smc_max_direct_coinbase_outputs config \<noteq> 0 \<and> (\<exists>r \<in> set ns. is_pinned X pinned r)) \<and>
     settlement_fits X ns floor config pinned"

lemma settlement_fits_sort_by: "settlement_fits X (sort_by c ns) floor config pinned = settlement_fits X ns floor config pinned"
  by (simp only: settlement_fits_def length_filter_sort_by length_sort_by)

lemma selected_input_ok:
  assumes sel: "selected_by X rs floor config pinned d canonical key k" and len: "length rs < 2 ^ 62"
  shows "\<exists>ns. settlement_input_ok X rs floor config pinned ns"
proof -
  from sel have facts: "validate_config config = Inr ()" "rs \<noteq> []" "canonical_recipients X rs = Inr canonical"
    "sum_amounts canonical = Inr (sd_total_amount_sats d)"
    and key: "pinned_key_of X canonical config pinned = Inr key"
    and k: "select_direct_count (length rs) (length (direct_candidates canonical floor key)) config
      (pinned_count key) = Inr k"
    by (auto simp: selected_by_def pinned_key_of_def select_direct_count_def split: option.splits)
  from facts(3) obtain ns where ns: "normalize_recipient_p2mr_programs X rs = Inr ns"
    "canonical = sort_by canonical_recipient_cmp ns" "\<forall>r \<in> set ns. sr_amount_sats r \<noteq> 0"
    "distinct (map settlement_key ns)"
    unfolding canonical_recipients_Inr by blast
  have "settlement_fits X canonical floor config pinned"
    using select_direct_count_Inr [OF facts(1) key, of floor] k len canonical_facts(6) [OF facts(3)] by auto
  moreover have "pinned = None \<or> smc_max_direct_coinbase_outputs config \<noteq> 0 \<and> (\<exists>r \<in> set ns. is_pinned X pinned r)"
    using pinned_key_Inr [of X canonical config pinned] key by (auto simp: ns(2))
  moreover have "sum_list (sr_amounts ns) < 2 ^ 64"
    using facts(4) unfolding sum_amounts_Inr ns(2) sum_list_sort_by by blast
  ultimately have "settlement_input_ok X rs floor config pinned ns"
    unfolding settlement_input_ok_def using ns settlement_fits_sort_by by blast
  then show ?thesis ..
qed

lemma input_ok_selects:
  assumes conf: "validate_config config = Inr ()" and ne: "rs \<noteq> []" and len: "length rs < 2 ^ 62"
    and input: "settlement_input_ok X rs floor config pinned ns"
  shows "\<exists>d. select_settlement_mode_with_pinned_direct X rs floor config pinned = Inr d"
proof -
  let ?c = "sort_by canonical_recipient_cmp ns"
  have canonical: "canonical_recipients X rs = Inr ?c"
    unfolding canonical_recipients_Inr using input unfolding settlement_input_ok_def by blast
  obtain key where key: "pinned_key_of X ?c config pinned = Inr key"
    using pinned_key_Inr [of X ?c config pinned] input unfolding settlement_input_ok_def set_sort_by by blast
  have lc: "length ?c = length rs"
    by (rule canonical_facts(6) [OF canonical])
  have "settlement_fits X ?c floor config pinned"
    using input unfolding settlement_input_ok_def settlement_fits_sort_by by blast
  moreover have "length ?c < 2 ^ 62"
    using len by (simp only: lc)
  ultimately obtain k where "select_direct_count (length ?c) (length (direct_candidates ?c floor key)) config (pinned_count key) = Inr k"
    using select_direct_count_Inr [OF conf key, of floor] by blast
  moreover have "sum_list (sr_amounts ?c) < 2 ^ 64"
    using input unfolding settlement_input_ok_def sum_list_sort_by by blast
  ultimately show ?thesis
    using selection_completes [OF conf ne canonical key _ _ len] unfolding lc by blast
qed

text \<open>
  C26. Exactly when a selection succeeds: the configuration is valid, there are recipients, their
  programs decode, no amount is zero and no two recipients agree on order key, id and
  program, the amounts add up below \<open>2 ^ 64\<close>, the pinned recipient, if any, is one of them
  and direct outputs are allowed, and some number of direct recipients within the limit fits
  the output budget. In particular the "lost value" and overflow errors never occur then.
\<close>

theorem settlement_succeeds_iff:
  assumes "length rs < 2 ^ 62"
  shows "(\<exists>d. select_settlement_mode_with_pinned_direct X rs floor config pinned = Inr d) \<longleftrightarrow>
    validate_config config = Inr () \<and> rs \<noteq> [] \<and>
    (\<exists>ns. normalize_recipient_p2mr_programs X rs = Inr ns \<and>
       (\<forall>r \<in> set ns. sr_amount_sats r \<noteq> 0) \<and> distinct (map settlement_key ns) \<and>
       sum_list (sr_amounts ns) < 2 ^ 64 \<and>
       (pinned = None \<or> smc_max_direct_coinbase_outputs config \<noteq> 0 \<and> (\<exists>r \<in> set ns. is_pinned X pinned r)) \<and>
       settlement_fits X ns floor config pinned)"
  unfolding settlement_input_ok_def [symmetric]
proof
  assume "\<exists>d. select_settlement_mode_with_pinned_direct X rs floor config pinned = Inr d"
  then obtain d canonical key k where sel: "selected_by X rs floor config pinned d canonical key k"
    using select_mode_Inr by blast
  then show "validate_config config = Inr () \<and> rs \<noteq> [] \<and> (\<exists>ns. settlement_input_ok X rs floor config pinned ns)"
    using selected_input_ok [OF sel assms] by (simp add: selected_by_def)
qed (use input_ok_selects [OF _ _ assms] in blast)

text \<open>
  The settlement does not depend on the order in which the recipients are given, and
  neither does it fail for one order only.
\<close>

theorem settlement_order_independent:
  assumes "mset rs = mset rs'" and "select_settlement_mode_with_pinned_direct X rs floor config pinned = Inr d"
  shows "select_settlement_mode_with_pinned_direct X rs' floor config pinned = Inr d"
proof -
  obtain canonical where canonical: "canonical_recipients X rs = Inr canonical"
    using select_mode_Inr [OF assms(2)] by (auto simp: selected_by_def)
  then obtain ns where ns: "normalize_recipient_p2mr_programs X rs = Inr ns" "canonical = sort_by canonical_recipient_cmp ns"
    "\<forall>r \<in> set ns. sr_amount_sats r \<noteq> 0" "distinct (map settlement_key ns)"
    unfolding canonical_recipients_Inr by blast
  obtain ns' where ns': "normalize_recipient_p2mr_programs X rs' = Inr ns'" "mset ns' = mset ns"
    using try_map_perm [OF assms(1)] ns(1) unfolding normalize_recipient_p2mr_programs_def by blast
  have "sort_by canonical_recipient_cmp ns' = canonical"
    unfolding ns(2) using ns(4) ns'(2) mset_eq_setD [OF ns'(2)]
    by (intro canon.sort_by_perm) (simp_all add: distinct_map)
  moreover have "distinct (map settlement_key ns')"
    using ns(4) ns'(2) by (metis mset_eq_imp_distinct_iff mset_map)
  moreover have "\<forall>r \<in> set ns'. sr_amount_sats r \<noteq> 0"
    using ns(3) mset_eq_setD [OF ns'(2)] by simp
  ultimately have "canonical_recipients X rs' = Inr canonical"
    unfolding canonical_recipients_Inr using ns'(1) by blast
  moreover have "length rs' = length rs" "(rs' = []) = (rs = [])"
    using mset_eq_length [OF assms(1)] by auto
  ultimately have "select_settlement_mode_with_pinned_direct X rs' floor config pinned =
      select_settlement_mode_with_pinned_direct X rs floor config pinned"
    unfolding select_settlement_mode_with_pinned_direct_def canonical by (simp only:)
  then show ?thesis
    using assms(2) by simp
qed

section \<open>Witnesses\<close>

lemma sample_normalize [simp]:
  "normalize_recipient sample_crates
     \<lparr>sr_recipient_id = i, sr_order_key = k, sr_p2mr_program_hex = sample_program b, sr_amount_sats = a\<rparr> =
   Inr \<lparr>sr_recipient_id = i, sr_order_key = k, sr_p2mr_program_hex = sample_program b, sr_amount_sats = a\<rparr>"
  by (simp add: normalize_recipient_def sample_crates_def sample_program_def sample_decode_encode P2MR_PROGRAM_LEN_def)

definition sample_recipient :: "string \<Rightarrow> u8 \<Rightarrow> u64 \<Rightarrow> settlement_recipient" where
  "sample_recipient k b a = \<lparr>sr_recipient_id = k, sr_order_key = k, sr_p2mr_program_hex = sample_program b, sr_amount_sats = a\<rparr>"

definition sample_recipients :: "settlement_recipient list" where
  "sample_recipients = [sample_recipient ''b'' 2 30, sample_recipient ''a'' 1 20, sample_recipient ''c'' 4 5]"

definition sample_settlement_config :: settlement_mode_config where
  "sample_settlement_config = \<lparr>smc_max_coinbase_settlement_outputs = 4, smc_max_direct_coinbase_outputs = 2,
     smc_max_fanout_recipients_per_transaction = 2, smc_reserved_coinbase_outputs = 1\<rparr>"

lemma sample_config_ok: "validate_config sample_settlement_config = Inr ()"
  by (simp add: validate_config_def sample_settlement_config_def MAX_COINBASE_SETTLEMENT_OUTPUTS_def
    MAX_DIRECT_COINBASE_OUTPUTS_def MAX_CTV_FANOUT_RECIPIENTS_PER_TRANSACTION_def estimated_ctv_fanout_weight_bytes_def
    CTV_FANOUT_FIXED_WEIGHT_BYTES_def CTV_FANOUT_P2MR_OUTPUT_BYTES_def usize_checked_add_def usize_checked_mul_def compact_size_len_def
    QBIT_TRUC_MAX_TX_WEIGHT_BYTES_def)

lemma sample_canonical: "canonical_recipients sample_crates sample_recipients =
   Inr [sample_recipient ''a'' 1 20, sample_recipient ''b'' 2 30, sample_recipient ''c'' 4 5]"
  by (simp add: canonical_recipients_def normalize_recipient_p2mr_programs_def sample_recipients_def sample_recipient_def
   canonical_recipient_cmp_def cmp_def validate_recipients_def settlement_key_def)

lemma sample_key: "resolve_pinned_direct_key sample_crates [sample_recipient ''a'' 1 20, sample_recipient ''b'' 2 30, sample_recipient ''c'' 4 5]
   (sample_recipient ''c'' 4 5) sample_settlement_config = Inr (''c'', ''c'', sample_program 4)"
  by (simp add: resolve_pinned_direct_key_def sample_settlement_config_def sample_recipient_def settlement_key_def)

lemma sample_candidates: "direct_candidates [sample_recipient ''a'' 1 20, sample_recipient ''b'' 2 30, sample_recipient ''c'' 4 5] 10
   (Some (''c'', ''c'', sample_program 4)) = [sample_recipient ''b'' 2 30, sample_recipient ''a'' 1 20]"
  by (simp add: direct_candidates_def sample_recipient_def settlement_key_def direct_priority_cmp_def cmp_def)

lemma sample_count: "select_direct_count 3 2 sample_settlement_config 1 = Inr 1"
  by (simp add: select_direct_count_def sample_settlement_config_def coinbase_outputs_with_def usize_checked_add_def
    usize_checked_sub_def fanout_chunk_count_def)

lemma sample_select: "\<exists>d. select_settlement_mode_with_pinned_direct sample_crates sample_recipients 10 sample_settlement_config
    (Some (sample_recipient ''c'' 4 5)) = Inr d \<and> sd_direct_recipients d = [sample_recipient ''b'' 2 30, sample_recipient ''c'' 4 5]
   \<and> map fc_recipients (sd_fanout_chunks d) = [[sample_recipient ''a'' 1 20]] \<and> sd_coinbase_settlement_output_count d = 4"
proof -
  have n: "length sample_recipients = 3" "sample_recipients \<noteq> []" "length sample_recipients < 2 ^ 62"
    by (simp_all add: sample_recipients_def)
  have total: "sum_list (sr_amounts [sample_recipient ''a'' 1 20, sample_recipient ''b'' 2 30, sample_recipient ''c'' 4 5]) < 2 ^ 64"
    by (simp add: sample_recipient_def)
  have key: "pinned_key_of sample_crates [sample_recipient ''a'' 1 20, sample_recipient ''b'' 2 30, sample_recipient ''c'' 4 5]
     sample_settlement_config (Some (sample_recipient ''c'' 4 5)) = Inr (Some (''c'', ''c'', sample_program 4))"
    by (simp add: pinned_key_of_def sample_key)
  obtain d where d: "select_settlement_mode_with_pinned_direct sample_crates sample_recipients 10 sample_settlement_config
    (Some (sample_recipient ''c'' 4 5)) = Inr d"
    using selection_completes [OF sample_config_ok n(2) sample_canonical key total _ n(3), of 10 1] sample_count
    by (auto simp: n(1,2) sample_candidates numeral_2_eq_2)
  obtain canonical key k where sel: "selected_by sample_crates sample_recipients 10 sample_settlement_config
    (Some (sample_recipient ''c'' 4 5)) d canonical key k"
    using select_mode_Inr [OF d] by blast
  have c: "canonical = [sample_recipient ''a'' 1 20, sample_recipient ''b'' 2 30, sample_recipient ''c'' 4 5]"
    using sel by (simp add: selected_by_def sample_canonical)
  have k: "key = Some (''c'', ''c'', sample_program 4)"
    using sel by (simp add: selected_by_def c sample_key)
  have "select_direct_count (length sample_recipients) (length (direct_candidates canonical 10 key)) sample_settlement_config (pinned_count key) = Inr k"
    using sel by (simp add: selected_by_def select_direct_count_def)
  then have k1: "k = 1"
    using sample_count by (simp add: n(1) c k sample_candidates numeral_2_eq_2)
  have dir: "sd_direct_recipients d = [sample_recipient ''b'' 2 30, sample_recipient ''c'' 4 5]"
    using sel unfolding selected_by_def selected_keys_def c k k1 sample_candidates
    by (simp add: goes_direct_def) (simp add: sample_recipient_def settlement_key_def)
  have fan: "fanout_recipients_of d = [sample_recipient ''a'' 1 20]"
    using selected_fanout(1) [OF sel] unfolding selected_keys_def c k k1 sample_candidates
    by (simp add: goes_direct_def) (simp add: sample_recipient_def settlement_key_def)
  have chunks: "map fc_recipients (sd_fanout_chunks d) = [[sample_recipient ''a'' 1 20]]"
    using selected_fanout(2) [OF sel, unfolded fan]
    by (simp add: chunks_of_def div_ceil_def chunk_range_def sample_settlement_config_def)
  then have "length (sd_fanout_chunks d) = 1"
    by (metis length_map list.size(3,4) One_nat_def add.right_neutral add_Suc_right)
  then have outs: "sd_coinbase_settlement_output_count d = 4"
    using sel by (simp add: selected_by_def dir) (simp add: sample_settlement_config_def)
  show ?thesis
    by (intro exI [of _ d] conjI d dir chunks outs)
qed

theorem settlement_partitions_witness:
  "\<exists>d. select_settlement_mode_with_pinned_direct sample_crates sample_recipients 10 sample_settlement_config
      (Some (sample_recipient ''c'' 4 5)) = Inr d \<and> sd_mode d = HybridCoinbaseCtvFanout \<and>
    unat (sd_total_amount_sats d) = 55 \<and> unat (sd_fanout_amount_sats d) = 20 \<and> sd_fanout_recipient_count d = 1"
proof -
  obtain d where d: "select_settlement_mode_with_pinned_direct sample_crates sample_recipients 10
      sample_settlement_config (Some (sample_recipient ''c'' 4 5)) = Inr d"
    and dir: "sd_direct_recipients d = [sample_recipient ''b'' 2 30, sample_recipient ''c'' 4 5]"
    and fan: "map fc_recipients (sd_fanout_chunks d) = [[sample_recipient ''a'' 1 20]]"
    using sample_select by (elim exE conjE) (rule that)
  note s = settlement_partitions [OF d, unfolded dir fan]
  from s have "sd_mode d \<noteq> DirectCoinbase" "sd_mode d \<noteq> CtvFanout"
    by auto
  then have "sd_mode d = HybridCoinbaseCtvFanout"
    by (cases "sd_mode d") auto
  with s d show ?thesis
    by (intro exI [of _ d]) (auto simp: sample_recipient_def)
qed

theorem settlement_respects_budget_witness:
  "\<exists>d. select_settlement_mode_with_pinned_direct sample_crates sample_recipients 10 sample_settlement_config
      (Some (sample_recipient ''c'' 4 5)) = Inr d \<and> sd_coinbase_settlement_output_count d = 4 \<and>
    sd_coinbase_settlement_output_count d \<le> smc_max_coinbase_settlement_outputs sample_settlement_config"
proof -
  obtain d where d: "select_settlement_mode_with_pinned_direct sample_crates sample_recipients 10
      sample_settlement_config (Some (sample_recipient ''c'' 4 5)) = Inr d"
    and n: "sd_coinbase_settlement_output_count d = 4"
    using sample_select by (elim exE conjE) (rule that)
  show ?thesis
    using settlement_respects_budget [OF d] n by (intro exI [of _ d] conjI d n) simp
qed

theorem settlement_priority_witness:
  "\<exists>d. select_settlement_mode_with_pinned_direct sample_crates sample_recipients 10 sample_settlement_config
      (Some (sample_recipient ''c'' 4 5)) = Inr d \<and>
    (\<exists>r \<in> set (sd_direct_recipients d). is_pinned sample_crates (Some (sample_recipient ''c'' 4 5)) r)"
proof -
  obtain d where d: "select_settlement_mode_with_pinned_direct sample_crates sample_recipients 10
      sample_settlement_config (Some (sample_recipient ''c'' 4 5)) = Inr d"
    using sample_select by (elim exE conjE) (rule that)
  have "(Some (sample_recipient ''c'' 4 5)) \<noteq> None"
    by simp
  then show ?thesis
    using settlement_priority [OF d] by (intro exI [of _ d] conjI d) (elim conjE mp)
qed

theorem settlement_succeeds_iff_witness:
  "length sample_recipients < 2 ^ 62 \<and> validate_config sample_settlement_config = Inr () \<and>
   (\<exists>ns. normalize_recipient_p2mr_programs sample_crates sample_recipients = Inr ns \<and>
      settlement_fits sample_crates ns 10 sample_settlement_config (Some (sample_recipient ''c'' 4 5)))"
proof -
  have len: "length sample_recipients < 2 ^ 62"
    by (simp add: sample_recipients_def)
  have "\<exists>d. select_settlement_mode_with_pinned_direct sample_crates sample_recipients 10 sample_settlement_config
      (Some (sample_recipient ''c'' 4 5)) = Inr d"
    using sample_select by (elim exE conjE) (rule exI)
  note this [unfolded settlement_succeeds_iff [OF len]]
  then show ?thesis
    by (elim conjE exE) (intro conjI len exI, assumption+)
qed

theorem settlement_order_independent_witness:
  "\<exists>d. select_settlement_mode_with_pinned_direct sample_crates sample_recipients 10 sample_settlement_config
      (Some (sample_recipient ''c'' 4 5)) = Inr d \<and>
    select_settlement_mode_with_pinned_direct sample_crates (rev sample_recipients) 10 sample_settlement_config
      (Some (sample_recipient ''c'' 4 5)) = Inr d"
proof -
  obtain d where d: "select_settlement_mode_with_pinned_direct sample_crates sample_recipients 10
      sample_settlement_config (Some (sample_recipient ''c'' 4 5)) = Inr d"
    using sample_select by (elim exE conjE) (rule that)
  have "mset sample_recipients = mset (rev sample_recipients)"
    by simp
  from settlement_order_independent [OF this d] show ?thesis
    by (intro exI [of _ d] conjI d)
qed

end
