(* ===== verification/Fanout_Fee.thy ===== *)
theory Fanout_Fee
  imports Settlement_Properties
begin

text \<open>
  What the fee of a fanout promises (\<open>allocate_proportional_fee\<close> and
  \<open>apply_proportional_fanout_fee\<close> of \<open>qbit-prism/src/settlement.rs\<close>): the fee is split in
  proportion without loss, nobody is charged below the floor, and nothing in the loop can fail.
\<close>

section \<open>One allocation\<close>

definition fee_core :: "fanout_fee_recipient \<Rightarrow> settlement_account_key \<times> u64" where
  "fee_core r = (fee_recipient_key r, ff_gross_amount_sats r)"

definition recipient_core :: "settlement_recipient \<Rightarrow> settlement_account_key \<times> u64" where
  "recipient_core r = (settlement_key r, sr_amount_sats r)"

abbreviation ff_gross :: "fanout_fee_recipient list \<Rightarrow> nat list" where
  "ff_gross rs \<equiv> map (unat \<circ> ff_gross_amount_sats) rs"

abbreviation ff_fees :: "fanout_fee_recipient list \<Rightarrow> nat list" where
  "ff_fees rs \<equiv> map (unat \<circ> ff_fee_sats) rs"

definition fee_balanced :: "fanout_fee_recipient \<Rightarrow> bool" where
  "fee_balanced r \<longleftrightarrow> unat (ff_net_amount_sats r) + unat (ff_fee_sats r) = unat (ff_gross_amount_sats r)"

text \<open>The exact share of one recipient; a charge below the whole sum leaves room for one more.\<close>

lemma fee_room: "fee < t \<Longrightarrow> 0 < w \<Longrightarrow> fee * w div t < (w :: nat)"
  by (simp add: div_less_iff_less_mult mult.commute)

lemma fee_share_total:
  assumes "unat fee < unat t" and "sr_amount_sats r \<noteq> 0" and "unat (sr_amount_sats r) \<le> unat t"
  shows "\<exists>p. fee_share fee t r = Inr p \<and> fee_core (fst p) = recipient_core r \<and> fee_balanced (fst p) \<and>
    unat (ff_fee_sats (fst p)) = unat fee * unat (sr_amount_sats r) div unat t \<and>
    unat (snd p) = unat fee * unat (sr_amount_sats r) mod unat t"
proof -
  let ?w = "unat (sr_amount_sats r)"
  have "unat fee * ?w \<le> 18446744073709551615 * 18446744073709551615"
    using u64_lt [of fee] u64_lt [of "sr_amount_sats r"] by (intro mult_mono) simp_all
  then have "unat fee * ?w < 2 ^ 128"
    by simp
  then have "\<exists>prod :: u128. checked_mul (u128_from_u64 fee) (u128_from_u64 (sr_amount_sats r)) = Some prod \<and>
      unat prod = unat fee * ?w"
    using ex_unat [where 'a = 128, of "unat fee * ?w"] by (auto simp: checked_simps)
  then obtain prod :: u128 where prod: "checked_mul (u128_from_u64 fee) (u128_from_u64 (sr_amount_sats r)) = Some prod"
    "unat prod = unat fee * ?w"
    by blast
  have "0 < ?w"
    using assms(2) by (simp add: unat_gt_0)
  then have less: "unat fee * ?w div unat t < ?w"
    by (rule fee_room [OF assms(1)])
  obtain f where f: "u64_try_from_u128 (prod div u128_from_u64 t) = Some f" "unat f = unat fee * ?w div unat t"
    using ex_unat [where 'a = 64, of "unat fee * ?w div unat t"] less u64_lt [of "sr_amount_sats r"]
    by (auto simp: checked_simps unat_div prod(2))
  have "f \<le> sr_amount_sats r"
    using less f(2) by (simp add: word_le_nat_alt)
  then obtain n where n: "checked_sub (sr_amount_sats r) f = Some n" "unat n = ?w - unat f"
    by (simp add: checked_sub_def unat_sub word_le_nat_alt)
  show ?thesis
    using prod f n less
    by (simp add: fee_share_def fee_core_def recipient_core_def fee_recipient_key_def settlement_key_def
        fee_balanced_def unat_mod)
qed

definition bumped_fee :: "fanout_fee_recipient \<times> u128 \<Rightarrow> fanout_fee_recipient \<times> u128" where
  "bumped_fee = (\<lambda>(r, remainder).
     (r\<lparr>ff_fee_sats := ff_fee_sats r + 1, ff_net_amount_sats := ff_gross_amount_sats r - (ff_fee_sats r + 1)\<rparr>, remainder))"

lemma bump_fee_total:
  assumes "unat (ff_fee_sats (fst p)) < unat (ff_gross_amount_sats (fst p))"
  shows "bump_fee p = Inr (bumped_fee p)" and "fee_core (fst (bumped_fee p)) = fee_core (fst p)"
    and "fee_balanced (fst (bumped_fee p))"
    and "unat (ff_fee_sats (fst (bumped_fee p))) = unat (ff_fee_sats (fst p)) + 1"
proof -
  obtain r m where p: "p = (r, m)" by (cases p)
  have "unat (ff_fee_sats r) + 1 < 2 ^ 64"
    using assms u64_lt [of "ff_gross_amount_sats r"] by (simp add: p)
  then have a: "checked_add (ff_fee_sats r) 1 = Some (ff_fee_sats r + 1)" and u: "unat (ff_fee_sats r + 1) = unat (ff_fee_sats r) + 1"
    by (simp_all add: checked_add_def unat_word_ariths)
  have le: "ff_fee_sats r + 1 \<le> ff_gross_amount_sats r"
    using assms u by (simp add: word_le_nat_alt p)
  then show "bump_fee p = Inr (bumped_fee p)"
    by (simp add: bump_fee_def bumped_fee_def p a checked_sub_def)
  show "fee_core (fst (bumped_fee p)) = fee_core (fst p)"
    by (simp add: bumped_fee_def p fee_core_def fee_recipient_key_def)
  show "fee_balanced (fst (bumped_fee p))"
    using le u by (simp add: bumped_fee_def p fee_balanced_def unat_sub word_le_nat_alt)
  show "unat (ff_fee_sats (fst (bumped_fee p))) = unat (ff_fee_sats (fst p)) + 1"
    using u by (simp add: bumped_fee_def p)
qed

lemma unat_sum_list_word:
  "sum_list (map unat ws) < 2 ^ LENGTH('a) \<Longrightarrow> unat (sum_list (ws :: 'a::len word list)) = sum_list (map unat ws)"
  by (induction ws) (simp_all add: unat_word_ariths)

lemma allocate_fee_spec:
  assumes pos: "\<And>r. r \<in> set rs \<Longrightarrow> sr_amount_sats r \<noteq> 0" and t: "sum_list (sr_amounts rs) = unat t"
    and less: "unat fee < unat t"
  shows "\<exists>out. allocate_proportional_fee rs fee t = Inr out \<and>
    mset (map fee_core out) = mset (map recipient_core rs) \<and> (\<forall>r \<in> set out. fee_balanced r) \<and>
    hamilton (unat fee) (ff_gross out) (ff_fees out)"
proof -
  let ?T = "unat fee"
  have "\<exists>p. fee_share fee t r = Inr p \<and> fee_core (fst p) = recipient_core r \<and> fee_balanced (fst p) \<and>
    unat (ff_fee_sats (fst p)) = ?T * unat (sr_amount_sats r) div unat t \<and>
    unat (snd p) = ?T * unat (sr_amount_sats r) mod unat t" if "r \<in> set rs" for r
  proof -
    have "unat (sr_amount_sats r) \<le> unat t"
      unfolding t [symmetric] using that by (intro member_le_sum_list) auto
    then show ?thesis
      using fee_share_total [OF less pos [OF that]] by blast
  qed
  then obtain g where g: "\<And>r. r \<in> set rs \<Longrightarrow> fee_share fee t r = Inr (g r) \<and> fee_core (fst (g r)) = recipient_core r \<and>
    fee_balanced (fst (g r)) \<and> unat (ff_fee_sats (fst (g r))) = ?T * unat (sr_amount_sats r) div unat t \<and>
    unat (snd (g r)) = ?T * unat (sr_amount_sats r) mod unat t"
    by metis
  define ss where "ss = sort_by compare_fee_shares (map g rs)"
  let ?gross = "unat \<circ> ff_gross_amount_sats \<circ> fst" and ?fee = "unat \<circ> ff_fee_sats \<circ> fst"
  let ?ws = "map ?gross ss"
  define k where "k = ?T - floor_sum ?T ?ws"
  have ev: "\<exists>r \<in> set rs. p = g r" if "p \<in> set ss" for p
    using that by (auto simp: ss_def)
  have gross: "?gross (g r) = unat (sr_amount_sats r)" if "r \<in> set rs" for r
    using g [OF that] by (simp add: fee_core_def recipient_core_def)
  have sum: "sum_list ?ws = unat t"
  proof -
    have "sum_list ?ws = sum_list (map ?gross (map g rs))"
      unfolding ss_def by (rule sum_list_sort_by)
    also have "map ?gross (map g rs) = sr_amounts rs"
      using gross by (auto simp: comp_def)
    finally show ?thesis using t by (simp add: comp_def)
  qed
  have facts: "?fee p = ?T * ?gross p div unat t \<and> unat (snd p) = ?T * ?gross p mod unat t \<and>
      fee_balanced (fst p) \<and> ?fee p < ?gross p" if p: "p \<in> set ss" for p
  proof -
    obtain r where r: "r \<in> set rs" "p = g r"
      using ev [OF p] by blast
    have "0 < unat (sr_amount_sats r)"
      using pos [OF r(1)] by (simp add: unat_gt_0)
    from fee_room [OF less this] show ?thesis
      using g [OF r(1)] gross [OF r(1)] by (simp add: r(2))
  qed
  have floors: "map ?fee ss = map (share_floor ?T ?ws) [0..<length ss]"
    using facts by (intro nth_equalityI) (simp_all add: share_floor_def sum)
  then have floor_sum: "sum_list (map ?fee ss) = floor_sum ?T ?ws"
    by (simp add: floor_sum_def interv_sum_list_conv_sum_set_nat atLeast0LessThan)
  have wpos: "0 < sum_list ?ws"
    using less sum by simp
  have "sum_list (map ?fee (map g rs)) = floor_sum ?T ?ws"
    using floor_sum unfolding ss_def by (simp only: sum_list_sort_by)
  moreover have "floor_sum ?T ?ws \<le> ?T"
    by (rule floor_sum_le [OF wpos])
  ultimately have fsum: "unat (sum_list (map (\<lambda>p. ff_fee_sats (fst p)) (map g rs))) = floor_sum ?T ?ws"
    using u64_lt [of fee] unat_sum_list_word [of "map (\<lambda>p. ff_fee_sats (fst p)) (map g rs)"] by (simp add: comp_def)
  then obtain rem where rem: "checked_sub fee (sum_list (map (\<lambda>p. ff_fee_sats (fst p)) (map g rs))) = Some rem" "unat rem = k"
    using floor_sum_le [OF wpos, of ?T] by (simp add: checked_sub_def word_le_nat_alt unat_sub k_def)
  have bump: "try_map bump_fee (take k ss) = Inr (map bumped_fee (take k ss))"
    using facts by (intro try_map_total bump_fee_total(1)) (auto dest: in_set_takeD)
  let ?out = "map fst (map bumped_fee (take k ss) @ drop k ss)"
  have run: "allocate_proportional_fee rs fee t = Inr ?out"
    using g by (simp add: allocate_proportional_fee_def Let_def try_map_total [of rs _ g] rem [unfolded map_map comp_def]
        bump comp_def flip: ss_def)
  have less_k: "k < length ss"
    using leftover_less [OF wpos, of ?T] by (simp add: k_def)
  have bumped: "fee_core (fst (bumped_fee p)) = fee_core (fst p) \<and> fee_balanced (fst (bumped_fee p)) \<and>
      unat (ff_fee_sats (fst (bumped_fee p))) = unat (ff_fee_sats (fst p)) + 1" if "p \<in> set ss" for p
    using bump_fee_total(2,3,4) [of p] facts [OF that] by simp
  have cores: "map fee_core ?out = map (fee_core \<circ> fst) ss"
  proof -
    have "map fee_core ?out = map (fee_core \<circ> fst) (take k ss) @ map (fee_core \<circ> fst) (drop k ss)"
      using bumped by (auto dest: in_set_takeD)
    then show ?thesis by (simp only: map_append [symmetric] append_take_drop_id)
  qed
  have perm: "mset (map fee_core ?out) = mset (map recipient_core rs)"
  proof -
    have "mset (map fee_core ?out) = mset (map (fee_core \<circ> fst) (map g rs))"
      unfolding cores unfolding ss_def by (simp only: mset_map mset_sort_by)
    also have "map (fee_core \<circ> fst) (map g rs) = map recipient_core rs"
      using g by simp
    finally show ?thesis .
  qed
  have balanced: "\<forall>r \<in> set ?out. fee_balanced r"
    using bumped facts by (auto dest: in_set_takeD in_set_dropD)
  have grosses: "ff_gross ?out = ?ws"
  proof -
    have "ff_gross ?out = map (unat \<circ> snd) (map fee_core ?out)"
      by (simp add: fee_core_def)
    also have "\<dots> = ?ws"
      unfolding cores by (simp add: fee_core_def)
    finally show ?thesis .
  qed
  have fees: "ff_fees ?out ! i = share_floor ?T ?ws i + of_bool (i < k)" if "i < length ss" for i
  proof -
    have "ff_fees ?out ! i = ?fee (ss ! i) + of_bool (i < k)"
      using that less_k bumped [of "ss ! i"] by (simp add: nth_append)
    also have "?fee (ss ! i) = map ?fee ss ! i"
      using that by simp
    also have "\<dots> = share_floor ?T ?ws i"
      unfolding floors using that by simp
    finally show ?thesis .
  qed
  have rems: "share_rem ?T ?ws j \<le> share_rem ?T ?ws i" if "i < k" "k \<le> j" "j < length ss" for i j
  proof -
    have "fee_share_key_of (ss ! i) \<le> fee_share_key_of (ss ! j)"
      unfolding ss_def using that by (intro shares.sorted_nth) (simp_all add: ss_def)
    then have "unat (snd (ss ! j)) \<le> unat (snd (ss ! i))"
      by (auto simp: fee_share_key_of_def less_eq_prod_def word_le_nat_alt [symmetric] word_le_def word_uint_eq_iff)
    then show ?thesis
      using that facts by (simp add: share_rem_def sum)
  qed
  have "hamilton ?T (ff_gross ?out) (ff_fees ?out)"
    unfolding hamilton_def grosses using wpos less_k fees rems
    by (intro conjI exI [of _ "{..<k}"]) (auto simp: k_def not_less)
  with run perm balanced show ?thesis
    by blast
qed

section \<open>The loop\<close>

definition fee_untouched :: "fanout_fee_recipient \<Rightarrow> bool" where
  "fee_untouched r \<longleftrightarrow> ff_fee_sats r = 0 \<and> ff_net_amount_sats r = ff_gross_amount_sats r"

text \<open>What a decision promises about the amounts.\<close>

definition fee_settled :: "u64 \<Rightarrow> u64 \<Rightarrow> u64 \<Rightarrow> fanout_fee_decision \<Rightarrow> bool" where
  "fee_settled total_gross fee min_output d \<longleftrightarrow>
     (let payable = fd_payable_recipients d; carried = fd_carry_forward_recipients d in
      fd_total_gross_sats d = total_gross \<and> fd_requested_fee_sats d = fee \<and>
      sorted (map fee_recipient_key payable) \<and> sorted (map fee_recipient_key carried) \<and>
      (\<forall>r \<in> set carried. fee_untouched r) \<and>
      (\<forall>r \<in> set payable. fee_balanced r \<and> min_output \<le> ff_net_amount_sats r) \<and>
      sum_list (ff_fees payable) = unat (fd_applied_fee_sats d) \<and>
      fd_applied_fee_sats d = (if payable = [] then 0 else fee) \<and>
      (\<forall>r \<in> set payable. unat (ff_fee_sats r) \<in>
         {unat fee * unat (ff_gross_amount_sats r) div sum_list (ff_gross payable),
          unat fee * unat (ff_gross_amount_sats r) div sum_list (ff_gross payable) + 1}) \<and>
      (\<forall>r \<in> set payable. \<forall>s \<in> set payable.
         ff_gross_amount_sats r < ff_gross_amount_sats s \<longrightarrow> ff_fee_sats r \<le> ff_fee_sats s))"

lemma unpaid_settled:
  "(\<forall>r \<in> set carried. fee_untouched r) \<Longrightarrow> fee_settled t fee mn (unpaid_decision t fee carried)"
  by (simp add: fee_settled_def unpaid_decision_def feer.sorted_keys)

lemma charged_settled:
  assumes ham: "hamilton (unat fee) (ff_gross out) (ff_fees out)" and bal: "\<forall>r \<in> set out. fee_balanced r"
    and "below_floor_recipients mn out = []" and "\<forall>r \<in> set carried. fee_untouched r" and "out \<noteq> []"
  shows "fee_settled t fee mn \<lparr>fd_total_gross_sats = t, fd_requested_fee_sats = fee, fd_applied_fee_sats = fee,
    fd_payable_recipients = sort_by fanout_fee_recipient_cmp out,
    fd_carry_forward_recipients = sort_by fanout_fee_recipient_cmp carried\<rparr>"
proof -
  have nth: "\<exists>i < length out. r = out ! i" if "r \<in> set out" for r
    using that by (auto simp: in_set_conv_nth)
  have quota: "unat (ff_fee_sats r) \<in> {unat fee * unat (ff_gross_amount_sats r) div sum_list (ff_gross out),
      unat fee * unat (ff_gross_amount_sats r) div sum_list (ff_gross out) + 1}" if r: "r \<in> set out" for r
    using nth [OF r] hamilton_quota [OF ham] by fastforce
  have mono: "ff_fee_sats r \<le> ff_fee_sats s"
    if r: "r \<in> set out" and s: "s \<in> set out" and less: "ff_gross_amount_sats r < ff_gross_amount_sats s" for r s
  proof -
    obtain i j where "i < length out" "r = out ! i" "j < length out" "s = out ! j"
      using nth r s by blast
    then show ?thesis
      using hamilton_mono [OF ham, of i j] less by (simp add: word_less_nat_alt word_le_nat_alt)
  qed
  have "\<forall>r \<in> set out. mn \<le> ff_net_amount_sats r"
    using assms(3) by (simp add: below_floor_recipients_def filter_empty_conv)
  moreover have "sort_by fanout_fee_recipient_cmp out \<noteq> []"
    using \<open>out \<noteq> []\<close> by (metis length_0_conv length_sort_by)
  ultimately show ?thesis
    unfolding fee_settled_def Let_def
    using assms(4) bal quota mono hamilton_sum [OF ham] by (simp add: feer.sorted_keys)
qed

lemma core_fst: "fst (fee_core r) = fee_recipient_key r" "fst (recipient_core c) = settlement_key c"
  by (simp_all add: fee_core_def recipient_core_def)

lemma carry_below_floor:
  assumes cores: "mset (map fee_core allocated) = mset (map recipient_core candidates)"
    and dist: "distinct (map settlement_key candidates)"
  shows "mset (map recipient_core (filter (\<lambda>r. settlement_key r \<notin>
      fee_recipient_key ` set (below_floor_recipients mn allocated)) candidates)) +
    mset (map fee_core (map uncharged (below_floor_recipients mn allocated))) = mset (map recipient_core candidates)"
proof -
  let ?below = "below_floor_recipients mn allocated"
  let ?K = "fee_recipient_key ` set ?below"
  have "mset (map fst (map fee_core allocated)) = mset (map fst (map recipient_core candidates))"
    using cores by (metis mset_map)
  then have "mset (map fee_recipient_key allocated) = mset (map settlement_key candidates)"
    by (simp only: map_map comp_def core_fst)
  then have inj: "inj_on fee_recipient_key (set allocated)"
    using dist by (metis distinct_map mset_eq_imp_distinct_iff)
  have below: "fee_recipient_key r \<notin> ?K \<longleftrightarrow> mn \<le> ff_net_amount_sats r" if r: "r \<in> set allocated" for r
    using inj_on_image_mem_iff [OF inj r, of "set ?below"] r by (auto simp: below_floor_recipients_def)
  have "mset (map recipient_core (filter (\<lambda>r. settlement_key r \<notin> ?K) candidates)) =
      filter_mset (\<lambda>c. fst c \<notin> ?K) (mset (map recipient_core candidates))"
    by (simp add: filter_mset_image_mset core_fst)
  also have "\<dots> = filter_mset (\<lambda>c. fst c \<notin> ?K) (mset (map fee_core allocated))"
    by (simp only: cores)
  also have "\<dots> = mset (map fee_core (filter (\<lambda>r. fee_recipient_key r \<notin> ?K) allocated))"
    by (simp add: filter_mset_image_mset core_fst)
  also have "filter (\<lambda>r. fee_recipient_key r \<notin> ?K) allocated = filter (\<lambda>r. mn \<le> ff_net_amount_sats r) allocated"
    using below by (intro filter_cong) simp_all
  finally have "mset (map recipient_core (filter (\<lambda>r. settlement_key r \<notin> ?K) candidates)) =
      mset (map fee_core (filter (\<lambda>r. mn \<le> ff_net_amount_sats r) allocated))" .
  moreover have "map fee_core (map uncharged ?below) = map fee_core ?below"
    by (simp add: uncharged_def fee_core_def fee_recipient_key_def)
  moreover have "mset (map fee_core (filter (\<lambda>r. mn \<le> ff_net_amount_sats r) allocated)) + mset (map fee_core ?below) =
      mset (map fee_core allocated)"
    unfolding below_floor_recipients_def mset_map mset_filter
    by (simp only: image_mset_union [symmetric] multiset_partition [symmetric])
  ultimately show ?thesis
    using cores by (simp only:)
qed

lemma fee_loop:
  assumes "\<forall>c \<in> set candidates. sr_amount_sats c \<noteq> 0" and "distinct (map settlement_key candidates)"
    and "sum_list (sr_amounts candidates) < 2 ^ 64" and "\<forall>r \<in> set carried. fee_untouched r"
  shows "\<exists>d. fanout_fee_loop t fee mn candidates carried = Inr d \<and> fee_settled t fee mn d \<and>
    mset (map fee_core (fd_payable_recipients d)) + mset (map fee_core (fd_carry_forward_recipients d)) =
    mset (map recipient_core candidates) + mset (map fee_core carried)"
  using assms
proof (induction t fee mn candidates carried rule: fanout_fee_loop.induct)
  case (1 t fee mn candidates carried)
  note step = fanout_fee_loop.simps [of t fee mn candidates carried]
  show ?case
  proof (cases "candidates = []")
    case True
    then show ?thesis
      using unpaid_settled [OF 1(5), of t fee mn]
      by (simp add: fanout_fee_loop.simps [of t fee mn "[]"]) (simp add: unpaid_decision_def)
  next
    case False
    obtain s where s: "sum_amounts candidates = Inr s"
      using sum_amounts_total [OF 1(4)] by blast
    then have us: "sum_list (sr_amounts candidates) = unat s"
      by (simp add: sum_amounts_Inr)
    show ?thesis
    proof (cases "s \<le> fee")
      case True
      let ?carried = "carried @ map carried_fanout_fee_recipient candidates"
      have "\<forall>r \<in> set ?carried. fee_untouched r"
        using 1(5) by (auto simp: fee_untouched_def carried_fanout_fee_recipient_def)
      moreover have "map fee_core (map carried_fanout_fee_recipient candidates) = map recipient_core candidates"
        by (simp add: fee_core_def recipient_core_def carried_fanout_fee_recipient_def
            fee_recipient_key_def settlement_key_def)
      then have "image_mset fee_core (image_mset carried_fanout_fee_recipient (mset candidates)) =
          image_mset recipient_core (mset candidates)"
        by (metis mset_map)
      ultimately show ?thesis
        using unpaid_settled [of ?carried t fee mn] False True
        by (simp add: step s) (simp add: unpaid_decision_def union_commute)
    next
      case less: False
      then have "unat fee < unat s"
        by (simp add: word_less_nat_alt [symmetric] not_le)
      then obtain allocated where a: "allocate_proportional_fee candidates fee s = Inr allocated"
        and cores: "mset (map fee_core allocated) = mset (map recipient_core candidates)"
        and bal: "\<forall>r \<in> set allocated. fee_balanced r"
        and ham: "hamilton (unat fee) (ff_gross allocated) (ff_fees allocated)"
        using allocate_fee_spec [of candidates s fee] 1(2) us by blast
      have ne: "allocated \<noteq> []"
        using cores False by auto
      show ?thesis
      proof (cases "below_floor_recipients mn allocated = []")
        case True
        then show ?thesis
          using charged_settled [OF ham bal True 1(5) ne, of t] False less s a cores by (simp add: step)
      next
        case below: False
        let ?rest = "filter (\<lambda>r. settlement_key r \<notin> fee_recipient_key ` set (below_floor_recipients mn allocated)) candidates"
        let ?carried = "carried @ map uncharged (below_floor_recipients mn allocated)"
        have eq: "fanout_fee_loop t fee mn candidates carried = fanout_fee_loop t fee mn ?rest ?carried"
          using False s less a below by (simp add: step Let_def)
        have "\<forall>c \<in> set ?rest. sr_amount_sats c \<noteq> 0" "distinct (map settlement_key ?rest)"
          "\<forall>r \<in> set ?carried. fee_untouched r"
          using 1(2,3,5) by (auto simp: distinct_map_filter fee_untouched_def uncharged_def)
        moreover have "sum_list (sr_amounts ?rest) < 2 ^ 64"
          using 1(4) partition_sums [of "unat \<circ> sr_amount_sats" "\<lambda>r. settlement_key r \<notin>
            fee_recipient_key ` set (below_floor_recipients mn allocated)" candidates] by linarith
        ultimately obtain d where d: "fanout_fee_loop t fee mn ?rest ?carried = Inr d" "fee_settled t fee mn d"
          and m: "mset (map fee_core (fd_payable_recipients d)) + mset (map fee_core (fd_carry_forward_recipients d)) =
            mset (map recipient_core ?rest) + mset (map fee_core ?carried)"
          using 1(1) [OF False s less a refl below, unfolded list.set_map] by blast
        have "mset (map recipient_core ?rest) + mset (map fee_core ?carried) =
            mset (map recipient_core candidates) + mset (map fee_core carried)"
          using carry_below_floor [OF cores 1(3), of mn] by (simp add: ac_simps)
        then show ?thesis
          unfolding eq d(1) using d(2) m by (intro exI [of _ d] conjI) simp_all
      qed
    qed
  qed
qed

section \<open>What the fee promises\<close>

lemma apply_fee_Inr:
  "apply_proportional_fanout_fee X rs fee mn = Inr d \<longleftrightarrow> mn \<noteq> 0 \<and> rs \<noteq> [] \<and>
     (\<exists>candidates t. canonical_recipients X rs = Inr candidates \<and> sum_amounts candidates = Inr t \<and>
       fanout_fee_loop t fee mn candidates [] = Inr d)"
  by (auto simp: apply_proportional_fanout_fee_def and_then_Inr)

lemma sum_gross_core: "ff_gross rs = map (unat \<circ> snd) (map fee_core rs)"
  "sr_amounts cs = map (unat \<circ> snd) (map recipient_core cs)"
  by (simp_all add: fee_core_def recipient_core_def)

lemma applied_fee_settles:
  assumes "apply_proportional_fanout_fee X rs fee mn = Inr d"
  shows "\<exists>ns. normalize_recipient_p2mr_programs X rs = Inr ns \<and>
    mset (map fee_core (fd_payable_recipients d)) + mset (map fee_core (fd_carry_forward_recipients d)) =
      mset (map recipient_core ns) \<and>
    unat (fd_total_gross_sats d) = sum_list (sr_amounts ns) \<and>
    unat (fd_total_gross_sats d) = sum_list (ff_gross (fd_payable_recipients d)) +
      sum_list (ff_gross (fd_carry_forward_recipients d)) \<and>
    fee_settled (fd_total_gross_sats d) fee mn d"
proof -
  from assms obtain candidates t where c: "canonical_recipients X rs = Inr candidates"
    and t: "sum_amounts candidates = Inr t" and loop: "fanout_fee_loop t fee mn candidates [] = Inr d"
    by (auto simp: apply_fee_Inr)
  from c obtain ns where ns: "normalize_recipient_p2mr_programs X rs = Inr ns"
    "candidates = sort_by canonical_recipient_cmp ns"
    unfolding canonical_recipients_Inr by blast
  have sum: "sum_list (sr_amounts candidates) < 2 ^ 64" "unat t = sum_list (sr_amounts candidates)"
    using t by (simp_all add: sum_amounts_Inr)
  have "fee_settled t fee mn d \<and>
      mset (map fee_core (fd_payable_recipients d)) + mset (map fee_core (fd_carry_forward_recipients d)) =
      mset (map recipient_core candidates)"
    using fee_loop [of candidates "[]" t fee mn] canonical_facts(2,5) [OF c] sum(1) loop by auto
  then have settled: "fee_settled t fee mn d" and
    cores: "mset (map fee_core (fd_payable_recipients d)) + mset (map fee_core (fd_carry_forward_recipients d)) =
      mset (map recipient_core ns)"
    by (simp_all add: ns(2))
  have total: "fd_total_gross_sats d = t"
    using settled by (simp add: fee_settled_def Let_def)
  have ns_sum: "unat t = sum_list (sr_amounts ns)"
    using sum(2) unfolding ns(2) sum_list_sort_by .
  have "mset (ff_gross (fd_payable_recipients d @ fd_carry_forward_recipients d)) = mset (sr_amounts ns)"
    unfolding sum_gross_core mset_map [of "unat \<circ> snd"] using cores by (simp only: map_append mset_append)
  then have "sum_list (ff_gross (fd_payable_recipients d @ fd_carry_forward_recipients d)) = sum_list (sr_amounts ns)"
    by (metis sum_mset_sum_list)
  then show ?thesis
    using ns(1) cores ns_sum settled total by simp
qed

text \<open>
  C27. The fee of a fanout is charged without loss. Every recipient is either charged or
  carried, once, with its own amount. A charged recipient receives its amount less its fee,
  at least the minimum output; a carried one is charged nothing. The fees add up to the
  applied fee, which is the requested one as soon as somebody is charged, and zero otherwise.
  Each fee is the recipient's proportional share rounded down or up to the next unit, and a
  larger recipient never pays less.
\<close>

theorem fanout_fee_settles:
  assumes "apply_proportional_fanout_fee X rs fee mn = Inr d"
  shows "\<exists>ns. normalize_recipient_p2mr_programs X rs = Inr ns \<and>
    mset (map fee_core (fd_payable_recipients d)) + mset (map fee_core (fd_carry_forward_recipients d)) =
      mset (map recipient_core ns) \<and>
    unat (fd_total_gross_sats d) = sum_list (sr_amounts ns) \<and>
    unat (fd_total_gross_sats d) = sum_list (ff_gross (fd_payable_recipients d)) +
      sum_list (ff_gross (fd_carry_forward_recipients d)) \<and>
    fee_settled (fd_total_gross_sats d) fee mn d"
  using applied_fee_settles [OF assms] .

text \<open>
  C28. The fee is charged whenever there is something to charge: exactly when the minimum
  output is positive, there are recipients, their programs decode, no amount is zero, no two
  agree on order key, id and program, and the amounts add up below \<open>2 ^ 64\<close>. So the errors
  of the allocation (fee above an amount, floor sum above the fee, overflow) never occur.
\<close>

theorem fanout_fee_succeeds_iff:
  "(\<exists>d. apply_proportional_fanout_fee X rs fee mn = Inr d) \<longleftrightarrow> mn \<noteq> 0 \<and> rs \<noteq> [] \<and>
     (\<exists>ns. normalize_recipient_p2mr_programs X rs = Inr ns \<and> (\<forall>r \<in> set ns. sr_amount_sats r \<noteq> 0) \<and>
       distinct (map settlement_key ns) \<and> sum_list (sr_amounts ns) < 2 ^ 64)" (is "?L \<longleftrightarrow> ?R")
proof
  assume ?L
  then obtain d candidates t where *: "mn \<noteq> 0" "rs \<noteq> []" "canonical_recipients X rs = Inr candidates"
    "sum_amounts candidates = Inr t"
    by (auto simp: apply_fee_Inr)
  from *(3) obtain ns where ns: "normalize_recipient_p2mr_programs X rs = Inr ns"
    "candidates = sort_by canonical_recipient_cmp ns" "\<forall>r \<in> set ns. sr_amount_sats r \<noteq> 0" "distinct (map settlement_key ns)"
    unfolding canonical_recipients_Inr by blast
  moreover have "sum_list (sr_amounts ns) < 2 ^ 64"
    using *(4) unfolding sum_amounts_Inr ns(2) sum_list_sort_by by blast
  ultimately show ?R
    using * by blast
next
  assume ?R
  then obtain ns where *: "mn \<noteq> 0" "rs \<noteq> []" "normalize_recipient_p2mr_programs X rs = Inr ns"
    "\<forall>r \<in> set ns. sr_amount_sats r \<noteq> 0" "distinct (map settlement_key ns)" "sum_list (sr_amounts ns) < 2 ^ 64"
    by blast
  let ?c = "sort_by canonical_recipient_cmp ns"
  have c: "canonical_recipients X rs = Inr ?c"
    unfolding canonical_recipients_Inr using *(3-5) by blast
  have sum: "sum_list (sr_amounts ?c) < 2 ^ 64"
    using *(6) by (simp only: sum_list_sort_by)
  obtain t where "sum_amounts ?c = Inr t"
    using sum_amounts_total [OF sum] by blast
  moreover obtain d where "fanout_fee_loop t fee mn ?c [] = Inr d"
    using fee_loop [of ?c "[]" t fee mn] canonical_facts(2,5) [OF c] sum by auto
  ultimately show ?L
    unfolding apply_fee_Inr using *(1,2) c by blast
qed

lemma compact_size_len_le: "compact_size_len n \<le> 9"
  by (simp add: compact_size_len_def)

lemma fanout_weight_Inr:
  "estimated_ctv_fanout_weight_bytes n = Inr w \<longleftrightarrow>
     90 + compact_size_len n + 43 * n < 2 ^ 64 \<and> w = 90 + compact_size_len n + 43 * n"
  unfolding estimated_ctv_fanout_weight_bytes_def CTV_FANOUT_FIXED_WEIGHT_BYTES_def CTV_FANOUT_P2MR_OUTPUT_BYTES_def
  by (auto simp: ok_or_Inr bind_eq_Some_conv usize_checked_add_def usize_checked_mul_def ac_simps split: if_splits)

lemma fanout_weight_limit:
  assumes "estimated_ctv_fanout_weight_bytes n = Inr w"
  shows "w \<le> QBIT_TRUC_MAX_TX_WEIGHT_BYTES \<longleftrightarrow> n \<le> MAX_CTV_FANOUT_RECIPIENTS_PER_TRANSACTION"
proof -
  have "w = 90 + compact_size_len n + 43 * n"
    using assms by (simp add: fanout_weight_Inr)
  then show ?thesis
    by (auto simp: QBIT_TRUC_MAX_TX_WEIGHT_BYTES_def MAX_CTV_FANOUT_RECIPIENTS_PER_TRANSACTION_def compact_size_len_def)
qed

lemma fanout_fee_ceiling:
  assumes "estimate_ctv_fanout_fee_sats n policy = Inr fee"
  shows "\<exists>weight. estimated_ctv_fanout_weight_bytes n = Inr weight \<and>
    unat fee = div_ceil (weight * unat (fr_market_fee_rate_sats_per_1000_weight policy) *
      unat (fr_premium_bps policy)) (1000 * 10000)"
proof -
  let ?rate = "fr_market_fee_rate_sats_per_1000_weight policy"
  from assms obtain weight where w: "estimated_ctv_fanout_weight_bytes n = Inr weight"
    and rest: "and_then (ok_or (settlement_error ''fanout fee estimate overflowed'')
          (Option.bind (checked_mul (of_nat weight :: u128) (u128_from_u64 ?rate))
            (\<lambda>v. checked_mul v (u128_from_u64 (fr_premium_bps policy))))) (\<lambda>numerator.
      and_then (ok_or (settlement_error ''fanout fee estimate overflowed'')
          (checked_add numerator (1000 * 10000 - 1))) (\<lambda>rounded.
      ok_or (settlement_error ''fanout fee estimate exceeds uint64'')
        (u64_try_from_u128 (rounded div (1000 * 10000))))) = Inr fee"
    by (auto simp: estimate_ctv_fanout_fee_sats_def and_then_Inr Let_def split: if_splits)
  have "weight < 2 ^ 64"
    using w by (simp add: fanout_weight_Inr)
  then have u: "unat (of_nat weight :: u128) = weight"
    by (simp add: unat_of_nat take_bit_nat_eq_self)
  from rest obtain v m r where v: "checked_mul (of_nat weight :: u128) (u128_from_u64 ?rate) = Some v"
    and m: "checked_mul v (u128_from_u64 (fr_premium_bps policy)) = Some m"
    and r: "checked_add m (1000 * 10000 - 1) = Some r" and fee: "u64_try_from_u128 (r div (1000 * 10000)) = Some fee"
    by (auto simp only: and_then_Inr ok_or_Inr bind_eq_Some_conv)
  have "unat m = weight * unat ?rate * unat (fr_premium_bps policy)"
    using v m u by (simp add: checked_simps)
  moreover have "unat r = unat m + 9999999"
    using r by (simp add: checked_simps)
  moreover have "unat fee = unat r div 10000000"
    using fee by (simp add: checked_simps unat_div)
  ultimately show ?thesis
    using w by (simp add: div_ceil_def)
qed

text \<open>
  The bound on recipients a fanout is exactly the one the relay limit gives: the estimated
  weight of a fanout stays within 50000 if and only if it has at most 1160 recipients, so the
  weight check of \<open>validate_config\<close> never fires after the check of the count. The estimated
  fee is the weight at the premium rate, rounded up.
\<close>

theorem fanout_weight_and_fee:
  "(estimated_ctv_fanout_weight_bytes n = Inr w \<longrightarrow>
      (w \<le> QBIT_TRUC_MAX_TX_WEIGHT_BYTES \<longleftrightarrow> n \<le> MAX_CTV_FANOUT_RECIPIENTS_PER_TRANSACTION)) \<and>
   (estimate_ctv_fanout_fee_sats n policy = Inr fee \<longrightarrow>
      (\<exists>weight. estimated_ctv_fanout_weight_bytes n = Inr weight \<and>
        unat fee = div_ceil (weight * unat (fr_market_fee_rate_sats_per_1000_weight policy) *
          unat (fr_premium_bps policy)) (1000 * 10000)))"
  using fanout_weight_limit fanout_fee_ceiling by blast

section \<open>Witnesses\<close>

lemma sample_fee_run: "\<exists>d. apply_proportional_fanout_fee sample_crates sample_recipients 5 5 = Inr d"
proof -
  let ?c = "[sample_recipient ''a'' 1 20, sample_recipient ''b'' 2 30, sample_recipient ''c'' 4 5]"
  have sum: "sum_list (sr_amounts ?c) < 2 ^ 64"
    by (simp add: sample_recipient_def)
  then obtain t where "sum_amounts ?c = Inr t"
    using sum_amounts_total by blast
  moreover obtain d where "fanout_fee_loop t 5 5 ?c [] = Inr d"
    using fee_loop [of ?c "[]" t 5 5] canonical_facts(2,5) [OF sample_canonical] sum by auto
  ultimately show ?thesis
    using sample_canonical by (auto simp: apply_fee_Inr sample_recipients_def)
qed

theorem fanout_fee_settles_witness:
  "\<exists>d. apply_proportional_fanout_fee sample_crates sample_recipients 5 5 = Inr d \<and>
    fee_settled (fd_total_gross_sats d) 5 5 d"
  using sample_fee_run fanout_fee_settles by blast

theorem fanout_fee_succeeds_iff_witness:
  "(5 :: u64) \<noteq> 0 \<and> sample_recipients \<noteq> [] \<and>
   (\<exists>ns. normalize_recipient_p2mr_programs sample_crates sample_recipients = Inr ns \<and>
      (\<forall>r \<in> set ns. sr_amount_sats r \<noteq> 0) \<and> distinct (map settlement_key ns) \<and> sum_list (sr_amounts ns) < 2 ^ 64)"
  by (rule iffD1 [OF fanout_fee_succeeds_iff sample_fee_run])

theorem fanout_weight_and_fee_witness:
  "estimate_ctv_fanout_fee_sats 2 \<lparr>fr_market_fee_rate_sats_per_1000_weight = 1000, fr_premium_bps = 12000\<rparr> =
     Inr (213 :: u64) \<and> unat (213 :: u64) = div_ceil (177 * 1000 * 12000) (1000 * 10000)"
proof -
  have w: "estimated_ctv_fanout_weight_bytes 2 = Inr 177"
    by (simp add: fanout_weight_Inr compact_size_len_def)
  then have e: "estimate_ctv_fanout_fee_sats 2 \<lparr>fr_market_fee_rate_sats_per_1000_weight = 1000, fr_premium_bps = 12000\<rparr> =
      Inr (213 :: u64)"
    by (simp add: estimate_ctv_fanout_fee_sats_def checked_mul_def checked_add_def u128_from_u64_def u64_try_from_u128_def)
  show ?thesis
    using fanout_weight_and_fee [of 2 177 "\<lparr>fr_market_fee_rate_sats_per_1000_weight = 1000, fr_premium_bps = 12000\<rparr>" 213]
      e w by simp
qed

end
