(* ===== verification/Ctv_Tx.thy ===== *)
theory Ctv_Tx
  imports Settlement_Properties
begin

text \<open>
  The transaction layer of \<open>qbit-prism/src/ctv.rs\<close>: constants, hex checks, hashes, the
  transaction writer, the reader with its offset into the bytes, and the two fanout
  transactions. The reader passes its state explicitly. \<open>expect\<close> is the error \<open>Panic\<close>.
\<close>

section \<open>Constants\<close>

definition CTV_FANOUT_MANIFEST_SCHEMA :: string where
  "CTV_FANOUT_MANIFEST_SCHEMA = ''qbit.prism.ctv-fanout-manifest.v1''"
definition CTV_FANOUT_MANIFEST_SET_SCHEMA :: string where
  "CTV_FANOUT_MANIFEST_SET_SCHEMA = ''qbit.prism.ctv-fanout-manifest-set.v1''"
definition CTV_FANOUT_PRECOMMITMENT_SCHEMA :: string where
  "CTV_FANOUT_PRECOMMITMENT_SCHEMA = ''qbit.prism.ctv-fanout-precommitment.v1''"
definition CTV_FANOUT_COMMITMENT_LEAF_TAG :: string where
  "CTV_FANOUT_COMMITMENT_LEAF_TAG = ''qbit.prism.ctv-fanout.commitment.v1''"
definition QBIT_P2MR_LEAF_VERSION :: u8 where "QBIT_P2MR_LEAF_VERSION = 0xc0"
definition QBIT_P2MR_CONTROL_BLOCK :: u8 where "QBIT_P2MR_CONTROL_BLOCK = QBIT_P2MR_LEAF_VERSION OR 1"
definition QBIT_OP_CHECKTEMPLATEVERIFY :: u8 where "QBIT_OP_CHECKTEMPLATEVERIFY = 0xbb"
definition QBIT_CTV_INPUT_INDEX :: u32 where "QBIT_CTV_INPUT_INDEX = 0"
definition COINBASE_PREVOUT_VOUT :: u32 where "COINBASE_PREVOUT_VOUT = 0xffffffff"
definition QBIT_MAX_MONEY_SATS :: u64 where "QBIT_MAX_MONEY_SATS = 210000000 * 100000000"
definition P2A_ANCHOR_SCRIPT_PUBKEY_HEX :: string where "P2A_ANCHOR_SCRIPT_PUBKEY_HEX = ''51024e73''"
definition CTV_FANOUT_ANCHOR_VALUE_SATS :: u64 where "CTV_FANOUT_ANCHOR_VALUE_SATS = 0"
definition CTV_FANOUT_TX_VERSION :: u32 where "CTV_FANOUT_TX_VERSION = 3"
definition SEQUENCE_LOCKTIME_DISABLE_FLAG :: u32 where "SEQUENCE_LOCKTIME_DISABLE_FLAG = push_bit 31 1"
definition CTV_FANOUT_SEQUENCE_BASE :: u32 where "CTV_FANOUT_SEQUENCE_BASE = SEQUENCE_LOCKTIME_DISABLE_FLAG"

abbreviation invalid_ctv_manifest :: "string \<Rightarrow> prism_error" where
  "invalid_ctv_manifest \<equiv> InvalidCtvFanoutManifest"

section \<open>Hex and hashes\<close>

definition decode_hash_hex :: "'x crates_scheme \<Rightarrow> string \<Rightarrow> string \<Rightarrow> prism_error + u8 list" where
  "decode_hash_hex X v field_name =
     and_then (map_err (\<lambda>err. invalid_ctv_manifest (field_name @ '' must be hex: '' @ err)) (hex_decode X v))
       (\<lambda>bytes.
     if length bytes \<noteq> 32
     then Inl (invalid_ctv_manifest (field_name @ '' must be 32 bytes, got '' @ show_nat (length bytes)))
     else Inr bytes)"

definition decode_program_hex :: "'x crates_scheme \<Rightarrow> string \<Rightarrow> string \<Rightarrow> prism_error + u8 list" where
  "decode_program_hex X v field_name =
     and_then (map_err (\<lambda>err. invalid_ctv_manifest (field_name @ '' must be hex: '' @ err)) (hex_decode X v))
       (\<lambda>bytes.
     if length bytes \<noteq> P2MR_PROGRAM_LEN
     then Inl (invalid_ctv_manifest (field_name @ '' must be '' @ show_nat P2MR_PROGRAM_LEN @ '' bytes, got '' @
       show_nat (length bytes)))
     else Inr bytes)"

definition canonical_p2mr_program_hex :: "'x crates_scheme \<Rightarrow> string \<Rightarrow> string \<Rightarrow> prism_error + string" where
  "canonical_p2mr_program_hex X v field_name =
     and_then (decode_program_hex X v field_name) (\<lambda>bytes. Inr (hex_encode X bytes))"

definition validate_canonical_hex :: "'x crates_scheme \<Rightarrow> string \<Rightarrow> string \<Rightarrow> prism_error + unit" where
  "validate_canonical_hex X v field_name =
     and_then (map_err (\<lambda>err. invalid_ctv_manifest (field_name @ '' must be hex: '' @ err)) (hex_decode X v))
       (\<lambda>bytes. ensure (v = hex_encode X bytes)
         (invalid_ctv_manifest (field_name @ '' must be lowercase canonical hex'')))"

definition validate_sha256_hex :: "'x crates_scheme \<Rightarrow> string \<Rightarrow> string \<Rightarrow> prism_error + unit" where
  "validate_sha256_hex X v field_name = and_then (decode_hash_hex X v field_name) (\<lambda>_. Inr ())"

definition validate_canonical_sha256_hex :: "'x crates_scheme \<Rightarrow> string \<Rightarrow> string \<Rightarrow> prism_error + unit" where
  "validate_canonical_sha256_hex X v field_name =
     and_then (decode_hash_hex X v field_name) (\<lambda>hash.
     ensure (v = hex_encode X hash) (invalid_ctv_manifest (field_name @ '' must be lowercase canonical hex'')))"

definition normalize_hex :: "'x crates_scheme \<Rightarrow> string \<Rightarrow> prism_error + string" where
  "normalize_hex X v =
     and_then (map_err (\<lambda>err. invalid_ctv_manifest (''invalid transaction hex: '' @ err)) (hex_decode X v))
       (\<lambda>bytes. Inr (hex_encode X bytes))"

definition normalize_txid_hex :: "'x crates_scheme \<Rightarrow> string \<Rightarrow> string \<Rightarrow> prism_error + string" where
  "normalize_txid_hex X v field_name =
     and_then (map_err (\<lambda>err. invalid_ctv_manifest (field_name @ '' must be hex: '' @ err)) (hex_decode X v))
       (\<lambda>bytes.
     if length bytes \<noteq> 32
     then Inl (invalid_ctv_manifest (field_name @ '' must be 32 bytes, got '' @ show_nat (length bytes)))
     else Inr (hex_encode X bytes))"

definition sha256_array :: "'x crates_scheme \<Rightarrow> u8 list \<Rightarrow> u8 list" where
  "sha256_array X data = sha256_digest X data"

definition hash256_array :: "'x crates_scheme \<Rightarrow> u8 list \<Rightarrow> u8 list" where
  "hash256_array X data = sha256_array X (sha256_array X data)"

definition ctv_sha256_hex :: "'x crates_scheme \<Rightarrow> u8 list \<Rightarrow> string" where
  "ctv_sha256_hex X bytes = hex_encode X (sha256_array X bytes)"

definition ctv_compact_size :: "u64 \<Rightarrow> u8 list" where
  "ctv_compact_size v =
     (if v < 253 then [ucast v]
      else if v \<le> 65535 then 0xfd # to_le_bytes (ucast v :: u16)
      else if v \<le> 4294967295 then 0xfe # to_le_bytes (ucast v :: u32)
      else 0xff # to_le_bytes v)"

abbreviation len_prefix :: "'a list \<Rightarrow> u8 list" where
  "len_prefix xs \<equiv> ctv_compact_size (of_nat (length xs))"

definition tagged_hash :: "'x crates_scheme \<Rightarrow> string \<Rightarrow> u8 list \<Rightarrow> u8 list" where
  "tagged_hash X tag payload =
     (let tag_hash = sha256_array X (as_bytes tag) in sha256_digest X (tag_hash @ tag_hash @ payload))"

definition ctv_leaf_script :: "u8 list \<Rightarrow> u8 list" where
  "ctv_leaf_script ctv_hash = [32] @ ctv_hash @ [QBIT_OP_CHECKTEMPLATEVERIFY]"

definition p2mr_tapleaf_hash :: "'x crates_scheme \<Rightarrow> u8 list \<Rightarrow> u8 list" where
  "p2mr_tapleaf_hash X leaf_script =
     tagged_hash X ''P2MRLeaf'' ([QBIT_P2MR_LEAF_VERSION] @ len_prefix leaf_script @ leaf_script)"

section \<open>Transactions\<close>

record parsed_tx_in =
  pi_prev_txid_hex :: string
  pi_prev_vout :: u32
  pi_script_sig :: "u8 list"
  pi_sequence :: u32

record parsed_tx_out =
  pto_amount_sats :: u64
  pto_script_pubkey :: "u8 list"

record parsed_transaction =
  pt_version :: u32
  pt_inputs :: "parsed_tx_in list"
  pt_outputs :: "parsed_tx_out list"
  pt_lock_time :: u32
  pt_witness_stacks :: "u8 list list list option"
  pt_tx_without_witness :: "u8 list"

record tx_input_spec =
  ti_prev_txid_hex :: string
  ti_prev_vout :: u32
  ti_script_sig :: "u8 list"
  ti_sequence :: u32
  ti_witness_stack :: "u8 list list"

record tx_output_spec =
  tos_amount_sats :: u64
  tos_script_pubkey :: "u8 list"

definition txid_hex :: "'x crates_scheme \<Rightarrow> parsed_transaction \<Rightarrow> string" where
  "txid_hex X tx = hex_encode X (rev (hash256_array X (pt_tx_without_witness tx)))"

definition serialize_tx_out :: "parsed_tx_out \<Rightarrow> u8 list" where
  "serialize_tx_out output =
     to_le_bytes (pto_amount_sats output) @ len_prefix (pto_script_pubkey output) @ pto_script_pubkey output"

section \<open>Writing\<close>

definition serialize_input_spec :: "'x crates_scheme \<Rightarrow> tx_input_spec \<Rightarrow> prism_error + u8 list" where
  "serialize_input_spec X input =
     and_then (map_err (\<lambda>err. invalid_ctv_manifest (''prev txid must be hex: '' @ err))
         (hex_decode X (ti_prev_txid_hex input))) (\<lambda>prev_txid.
     if length prev_txid \<noteq> 32 then Inl (invalid_ctv_manifest ''prev txid must be 32 bytes'')
     else Inr (rev prev_txid @ to_le_bytes (ti_prev_vout input) @ len_prefix (ti_script_sig input) @
       ti_script_sig input @ to_le_bytes (ti_sequence input)))"

definition serialize_output_spec :: "tx_output_spec \<Rightarrow> u8 list" where
  "serialize_output_spec output =
     to_le_bytes (tos_amount_sats output) @ len_prefix (tos_script_pubkey output) @ tos_script_pubkey output"

definition serialize_stack :: "u8 list list \<Rightarrow> u8 list" where
  "serialize_stack items = len_prefix items @ concat (map (\<lambda>item. len_prefix item @ item) items)"

definition serialize_tx_hex ::
    "'x crates_scheme \<Rightarrow> u32 \<Rightarrow> tx_input_spec list \<Rightarrow> tx_output_spec list \<Rightarrow> u32 \<Rightarrow> bool \<Rightarrow>
     prism_error + string" where
  "serialize_tx_hex X version inputs outputs lock_time with_witness =
     and_then (try_map (serialize_input_spec X) inputs) (\<lambda>input_bytes.
     Inr (hex_encode X (to_le_bytes version @ (if with_witness then [0, 1] else []) @
       len_prefix inputs @ concat input_bytes @
       len_prefix outputs @ concat (map serialize_output_spec outputs) @
       (if with_witness then concat (map (serialize_stack \<circ> ti_witness_stack) inputs) else []) @
       to_le_bytes lock_time)))"

section \<open>Reading\<close>

record tx_reader =
  rd_bytes :: "u8 list"
  rd_offset :: nat
  rd_field_name :: string

definition tx_reader_new :: "u8 list \<Rightarrow> string \<Rightarrow> tx_reader" where
  "tx_reader_new bytes field_name = \<lparr>rd_bytes = bytes, rd_offset = 0, rd_field_name = field_name\<rparr>"

definition tx_truncated :: "tx_reader \<Rightarrow> prism_error" where
  "tx_truncated reader = invalid_ctv_manifest (rd_field_name reader @ '' transaction is truncated'')"

definition tx_remaining :: "tx_reader \<Rightarrow> nat" where
  "tx_remaining reader = length (rd_bytes reader) - rd_offset reader"

definition tx_peek_u8 :: "tx_reader \<Rightarrow> prism_error + u8" where
  "tx_peek_u8 reader =
     (if rd_offset reader < length (rd_bytes reader) then Inr (rd_bytes reader ! rd_offset reader)
      else Inl (tx_truncated reader))"

definition tx_read_u8 :: "tx_reader \<Rightarrow> prism_error + (u8 \<times> tx_reader)" where
  "tx_read_u8 reader =
     and_then (tx_peek_u8 reader) (\<lambda>byte. Inr (byte, reader\<lparr>rd_offset := rd_offset reader + 1\<rparr>))"

definition tx_read_bytes :: "nat \<Rightarrow> tx_reader \<Rightarrow> prism_error + (u8 list \<times> tx_reader)" where
  "tx_read_bytes len reader =
     and_then (ok_or (tx_truncated reader) (usize_checked_add (rd_offset reader) len)) (\<lambda>stop.
     if length (rd_bytes reader) < stop then Inl (tx_truncated reader)
     else Inr (take len (drop (rd_offset reader) (rd_bytes reader)), reader\<lparr>rd_offset := stop\<rparr>))"

text \<open>\<open>from_le_bytes\<close>\<close>

definition word_from_le :: "u8 list \<Rightarrow> 'a::len word" where
  "word_from_le bytes = of_nat (le_value bytes)"

definition tx_read_u32 :: "tx_reader \<Rightarrow> prism_error + (u32 \<times> tx_reader)" where
  "tx_read_u32 reader =
     and_then (tx_read_bytes 4 reader) (\<lambda>(bytes, reader). Inr (word_from_le bytes, reader))"

definition tx_read_i64_nonnegative :: "tx_reader \<Rightarrow> prism_error + (i64 \<times> tx_reader)" where
  "tx_read_i64_nonnegative reader =
     and_then (tx_read_bytes 8 reader) (\<lambda>(bytes, reader).
     let v = word_from_le bytes :: i64 in
     if sint v < 0
     then Inl (invalid_ctv_manifest (rd_field_name reader @ '' has negative transaction output value''))
     else if QBIT_MAX_MONEY_SATS < v
     then Inl (invalid_ctv_manifest (rd_field_name reader @ '' has transaction output value above MAX_MONEY''))
     else Inr (v, reader))"

definition non_canonical :: "tx_reader \<Rightarrow> prism_error" where
  "non_canonical reader = invalid_ctv_manifest (rd_field_name reader @ '' has non-canonical compact size'')"

definition tx_read_compact_size :: "tx_reader \<Rightarrow> prism_error + (u64 \<times> tx_reader)" where
  "tx_read_compact_size reader =
     and_then (tx_read_u8 reader) (\<lambda>(first, reader).
     if first \<le> 0xfc then Inr (ucast first, reader)
     else if first = 0xfd then
       and_then (tx_read_bytes 2 reader) (\<lambda>(raw, reader).
       let v = word_from_le raw :: u16 in
       if v < 0xfd then Inl (non_canonical reader) else Inr (ucast v, reader))
     else if first = 0xfe then
       and_then (tx_read_bytes 4 reader) (\<lambda>(raw, reader).
       let v = word_from_le raw :: u32 in
       if v \<le> 65535 then Inl (non_canonical reader) else Inr (ucast v, reader))
     else
       and_then (tx_read_bytes 8 reader) (\<lambda>(raw, reader).
       let v = word_from_le raw :: u64 in
       if v \<le> 4294967295 then Inl (non_canonical reader) else Inr (v, reader)))"

text \<open>\<open>usize\<close> has 64 bits, so \<open>usize::try_from\<close> succeeds.\<close>

definition tx_read_compact_size_as_usize :: "tx_reader \<Rightarrow> prism_error + (nat \<times> tx_reader)" where
  "tx_read_compact_size_as_usize reader =
     and_then (tx_read_compact_size reader) (\<lambda>(v, reader).
     if tx_remaining reader < unat v then Inl (tx_truncated reader) else Inr (unat v, reader))"

definition tx_read_var_bytes :: "tx_reader \<Rightarrow> prism_error + (u8 list \<times> tx_reader)" where
  "tx_read_var_bytes reader =
     and_then (tx_read_compact_size_as_usize reader) (\<lambda>(len, reader). tx_read_bytes len reader)"

definition tx_expect_finished :: "tx_reader \<Rightarrow> prism_error + unit" where
  "tx_expect_finished reader =
     ensure (rd_offset reader = length (rd_bytes reader))
       (invalid_ctv_manifest (rd_field_name reader @ '' has trailing transaction bytes''))"

text \<open>\<open>for _ in 0..n\<close>\<close>

fun tx_read_n ::
    "(tx_reader \<Rightarrow> prism_error + ('a \<times> tx_reader)) \<Rightarrow> nat \<Rightarrow> tx_reader \<Rightarrow> prism_error + ('a list \<times> tx_reader)" where
  "tx_read_n f 0 reader = Inr ([], reader)"
| "tx_read_n f (Suc n) reader =
     and_then (f reader) (\<lambda>(x, reader).
     and_then (tx_read_n f n reader) (\<lambda>(xs, reader). Inr (x # xs, reader)))"

definition read_tx_in :: "'x crates_scheme \<Rightarrow> tx_reader \<Rightarrow> prism_error + (parsed_tx_in \<times> tx_reader)" where
  "read_tx_in X reader =
     and_then (tx_read_bytes 32 reader) (\<lambda>(prev_txid_raw, reader).
     and_then (tx_read_u32 reader) (\<lambda>(prev_vout, reader).
     and_then (tx_read_var_bytes reader) (\<lambda>(script_sig, reader).
     and_then (tx_read_u32 reader) (\<lambda>(sequence, reader).
     Inr (\<lparr>pi_prev_txid_hex = hex_encode X (rev prev_txid_raw), pi_prev_vout = prev_vout,
           pi_script_sig = script_sig, pi_sequence = sequence\<rparr>, reader)))))"

definition read_tx_out :: "tx_reader \<Rightarrow> prism_error + (parsed_tx_out \<times> tx_reader)" where
  "read_tx_out reader =
     and_then (tx_read_i64_nonnegative reader) (\<lambda>(amount_sats, reader).
     and_then (tx_read_var_bytes reader) (\<lambda>(script_pubkey, reader).
     Inr (\<lparr>pto_amount_sats = amount_sats, pto_script_pubkey = script_pubkey\<rparr>, reader)))"

definition read_stack :: "tx_reader \<Rightarrow> prism_error + (u8 list list \<times> tx_reader)" where
  "read_stack reader =
     and_then (tx_read_compact_size_as_usize reader) (\<lambda>(item_count, reader).
     tx_read_n tx_read_var_bytes item_count reader)"

definition read_witness_marker :: "tx_reader \<Rightarrow> prism_error + (bool \<times> tx_reader)" where
  "read_witness_marker reader =
     and_then (tx_peek_u8 reader) (\<lambda>marker.
     if marker = 0 then
       and_then (tx_read_u8 reader) (\<lambda>(_, reader).
       and_then (tx_read_u8 reader) (\<lambda>(flag, reader).
       if flag = 0 then Inl (invalid_ctv_manifest (rd_field_name reader @ '' has invalid witness flag 0''))
       else Inr (True, reader)))
     else Inr (False, reader))"

definition tx_in_without_witness :: "'x crates_scheme \<Rightarrow> parsed_tx_in \<Rightarrow> prism_error + u8 list" where
  "tx_in_without_witness X input =
     and_then (map_err (\<lambda>err. Panic ''display txid hex'') (hex_decode X (pi_prev_txid_hex input)))
       (\<lambda>prev_txid.
     Inr (rev prev_txid @ to_le_bytes (pi_prev_vout input) @ len_prefix (pi_script_sig input) @
       pi_script_sig input @ to_le_bytes (pi_sequence input)))"

definition tx_without_witness_bytes ::
    "'x crates_scheme \<Rightarrow> u32 \<Rightarrow> parsed_tx_in list \<Rightarrow> parsed_tx_out list \<Rightarrow> u32 \<Rightarrow> prism_error + u8 list" where
  "tx_without_witness_bytes X version inputs outputs lock_time =
     and_then (try_map (tx_in_without_witness X) inputs) (\<lambda>input_bytes.
     Inr (to_le_bytes version @ len_prefix inputs @ concat input_bytes @
       len_prefix outputs @ concat (map serialize_tx_out outputs) @ to_le_bytes lock_time))"

definition parse_transaction ::
    "'x crates_scheme \<Rightarrow> u8 list \<Rightarrow> string \<Rightarrow> prism_error + parsed_transaction" where
  "parse_transaction X bytes field_name =
     and_then (tx_read_u32 (tx_reader_new bytes field_name)) (\<lambda>(version, reader).
     and_then (read_witness_marker reader) (\<lambda>(has_witness, reader).
     and_then (tx_read_compact_size_as_usize reader) (\<lambda>(input_count, reader).
     if input_count = 0 then Inl (invalid_ctv_manifest (field_name @ '' has no inputs''))
     else
       and_then (tx_read_n (read_tx_in X) input_count reader) (\<lambda>(inputs, reader).
       and_then (tx_read_compact_size_as_usize reader) (\<lambda>(output_count, reader).
       and_then (tx_read_n read_tx_out output_count reader) (\<lambda>(outputs, reader).
       and_then (if has_witness
           then and_then (tx_read_n read_stack input_count reader) (\<lambda>(stacks, reader). Inr (Some stacks, reader))
           else Inr (None, reader)) (\<lambda>(witness_stacks, reader).
       and_then (tx_read_u32 reader) (\<lambda>(lock_time, reader).
       and_then (tx_expect_finished reader) (\<lambda>_.
       and_then (tx_without_witness_bytes X version inputs outputs lock_time) (\<lambda>tx_without_witness.
       Inr \<lparr>pt_version = version, pt_inputs = inputs, pt_outputs = outputs, pt_lock_time = lock_time,
            pt_witness_stacks = witness_stacks, pt_tx_without_witness = tx_without_witness\<rparr>))))))))))"

definition parse_transaction_hex ::
    "'x crates_scheme \<Rightarrow> string \<Rightarrow> string \<Rightarrow> prism_error + parsed_transaction" where
  "parse_transaction_hex X tx_hex field_name =
     and_then (map_err (\<lambda>err. invalid_ctv_manifest (field_name @ '' is not valid hex: '' @ err))
         (hex_decode X tx_hex)) (\<lambda>tx_bytes.
     parse_transaction X tx_bytes field_name)"

end
