(* ===== verification/Ctv_Wire.thy ===== *)
theory Ctv_Wire
  imports Ctv_Tx
begin

text \<open>
  The reader of \<open>ctv.rs\<close> inverts its writer. \<open>decodes f bs x\<close>: wherever the reader stands
  before \<open>bs\<close>, the step \<open>f\<close> returns \<open>x\<close> and leaves it right after; the lemmas compose along
  the code's steps.
\<close>

named_theorems decode_rules

lemma word_from_le_bytes: "8 dvd LENGTH('a::len) \<Longrightarrow> word_from_le (to_le_bytes (w :: 'a word)) = w"
  by (simp add: word_from_le_def le_value_to_le_bytes)

definition at_rest :: "tx_reader \<Rightarrow> u8 list \<Rightarrow> bool" where
  "at_rest r bs \<longleftrightarrow> rd_offset r \<le> length (rd_bytes r) \<and> length (rd_bytes r) < 2 ^ 64 \<and>
     drop (rd_offset r) (rd_bytes r) = bs"

definition decodes :: "(tx_reader \<Rightarrow> prism_error + ('a \<times> tx_reader)) \<Rightarrow> u8 list \<Rightarrow> 'a \<Rightarrow> bool" where
  "decodes f bs x \<longleftrightarrow> (\<forall>r ys. at_rest r (bs @ ys) \<longrightarrow> (\<exists>r'. f r = Inr (x, r') \<and> at_rest r' ys))"

lemma decodesD: "decodes f bs x \<Longrightarrow> at_rest r (bs @ ys) \<Longrightarrow> \<exists>r'. f r = Inr (x, r') \<and> at_rest r' ys"
  by (simp add: decodes_def)

lemma decodes_return: "decodes (\<lambda>r. Inr (x, r)) [] x"
  by (simp add: decodes_def)

lemma decodes_bind:
  assumes "decodes f bs x" and "decodes (g x) cs y"
  shows "decodes (\<lambda>r. and_then (f r) (\<lambda>(x, r). g x r)) (bs @ cs) y"
  using assms unfolding decodes_def by (metis (no_types, lifting) and_then.simps(2) append.assoc case_prod_conv)

lemma decodes_bindI:
  assumes "decodes f bs x" and "decodes (g x) cs y" and "zs = bs @ cs"
  shows "decodes (\<lambda>r. and_then (f r) (\<lambda>(x, r). g x r)) zs y"
  using decodes_bind [where g = g, OF assms(1,2)] assms(3) by simp

lemma decodes_map:
  assumes "decodes f bs x"
  shows "decodes (\<lambda>r. and_then (f r) (\<lambda>(x, r). Inr (h x, r))) bs (h x)"
  by (rule decodes_bindI [OF assms decodes_return]) simp

lemma decodes_bytes:
  assumes "length xs = n"
  shows "decodes (tx_read_bytes n) xs xs"
  unfolding decodes_def
proof (intro allI impI)
  fix r ys
  assume r: "at_rest r (xs @ ys)"
  then have len: "rd_offset r + n \<le> length (rd_bytes r)"
    using assms by (auto simp: at_rest_def dest: arg_cong [of _ _ length])
  then have "usize_checked_add (rd_offset r) n = Some (rd_offset r + n)"
    using r by (simp add: at_rest_def usize_checked_add_def)
  moreover have "take n (drop (rd_offset r) (rd_bytes r)) = xs"
    using r assms by (simp add: at_rest_def)
  moreover have "drop (rd_offset r + n) (rd_bytes r) = ys"
    using r assms by (metis add.commute append_eq_conv_conj at_rest_def drop_drop)
  ultimately show "\<exists>r'. tx_read_bytes n r = Inr (xs, r') \<and> at_rest r' ys"
    using len r by (simp add: tx_read_bytes_def at_rest_def)
qed

lemma at_rest_Cons:
  assumes "at_rest r (b # ys)"
  shows "tx_peek_u8 r = Inr b" and "at_rest (r\<lparr>rd_offset := rd_offset r + 1\<rparr>) ys"
proof -
  have d: "drop (rd_offset r) (rd_bytes r) = b # ys"
    using assms by (simp add: at_rest_def)
  then have less: "rd_offset r < length (rd_bytes r)"
    by (metis drop_eq_Nil list.distinct(1) not_le)
  from Cons_nth_drop_Suc [OF less] d show "tx_peek_u8 r = Inr b"
    using less by (simp add: tx_peek_u8_def)
  from Cons_nth_drop_Suc [OF less] d show "at_rest (r\<lparr>rd_offset := rd_offset r + 1\<rparr>) ys"
    using less assms by (simp add: at_rest_def)
qed

lemma decodes_u8: "decodes tx_read_u8 [b] b"
  using at_rest_Cons by (fastforce simp: decodes_def tx_read_u8_def)

lemma decodes_u32: "decodes tx_read_u32 (to_le_bytes (w :: u32)) w"
  using decodes_map [OF decodes_bytes, of "to_le_bytes w" 4 "word_from_le :: u8 list \<Rightarrow> u32"]
  by (simp add: tx_read_u32_def [abs_def] word_from_le_bytes)

lemma decodes_amount:
  assumes "w \<le> QBIT_MAX_MONEY_SATS"
  shows "decodes tx_read_i64_nonnegative (to_le_bytes w) w"
proof -
  have "uint w \<le> 21000000000000000"
    using assms by (simp add: QBIT_MAX_MONEY_SATS_def word_le_def)
  then have "0 \<le> sint w"
    using sint_word_of_int_i64 [of "uint w"] order_trans [of "- (2 ^ 63)" 0 "uint w"] by simp
  then have "decodes (\<lambda>r. let v = word_from_le (to_le_bytes w) in if sint v < 0
     then Inl (invalid_ctv_manifest (rd_field_name r @ '' has negative transaction output value''))
     else if QBIT_MAX_MONEY_SATS < v
     then Inl (invalid_ctv_manifest (rd_field_name r @ '' has transaction output value above MAX_MONEY''))
     else Inr (v, r)) [] w"
    using assms word_from_le_bytes [of w] by (simp add: Let_def not_less [symmetric] decodes_return)
  note tail = this
  show ?thesis
    unfolding tx_read_i64_nonnegative_def [abs_def]
    by (rule decodes_bindI, rule decodes_bytes [where xs = "to_le_bytes w"], simp, rule tail, simp)
qed

lemma ucast_again:
  assumes "unat (v :: u64) < 2 ^ LENGTH('b::len)" and "LENGTH('b) \<le> 64"
  shows "ucast (ucast v :: 'b word) = v"
proof -
  have "unat (ucast v :: 'b word) = unat v"
    by (rule ucast_small) (rule assms(1))
  then have "unat (ucast (ucast v :: 'b word) :: u64) = unat v"
    using ucast_small [of "ucast v :: 'b word", where 'b = 64] u64_lt [of v] by simp
  then show ?thesis
    by (simp only: word_unat_eq_iff)
qed

lemma decodes_compact_size: "decodes tx_read_compact_size (ctv_compact_size v) v"
proof -
  let ?K = "\<lambda>(first :: u8) reader. if first \<le> 0xfc then Inr (ucast first, reader)
     else if first = 0xfd then
       and_then (tx_read_bytes 2 reader) (\<lambda>(raw, reader).
       let v = word_from_le raw :: u16 in
       if v < 0xfd then Inl (non_canonical reader) else Inr (ucast v, reader))
     else if first = 0xfe then
       and_then (tx_read_bytes 4 reader) (\<lambda>(raw, reader).
       let v = word_from_le raw :: u32 in
       if v \<le> 65535 then Inl (non_canonical reader) else Inr (ucast v, reader))
     else
       and_then (tx_read_bytes 8 reader) (\<lambda>(raw, reader).
       let v = word_from_le raw :: u64 in
       if v \<le> 4294967295 then Inl (non_canonical reader) else Inr (v, reader))"
  have read: "decodes tx_read_compact_size (b # cs) v" if "decodes (?K b) cs v" for b cs
    unfolding tx_read_compact_size_def [abs_def]
    by (rule decodes_bindI, rule decodes_u8 [where b = b], rule that, simp)
  consider "v < 253" | "\<not> v < 253" "v \<le> 65535" | "\<not> v < 253" "\<not> v \<le> 65535" "v \<le> 4294967295"
    | "\<not> v < 253" "\<not> v \<le> 65535" "\<not> v \<le> 4294967295"
    by blast
  then show ?thesis
  proof cases
    case 1
    then have "unat v < 253"
      by (simp add: word_less_nat_alt)
    then have "decodes (?K (ucast v)) [] v"
      using ucast_small [of v, where 'b = 8] ucast_again [of v, where 'b = 8] by (simp add: word_le_nat_alt decodes_return)
    then show ?thesis
      using 1 read by (simp add: ctv_compact_size_def)
  next
    case 2
    then have "253 \<le> unat v" "unat v < 65536"
      by (simp_all add: word_le_nat_alt word_less_nat_alt)
    then have "decodes (\<lambda>reader. let v = word_from_le (to_le_bytes (ucast v :: u16)) :: u16 in
       if v < 0xfd then Inl (non_canonical reader) else Inr (ucast v, reader)) [] v"
      using ucast_small [of v, where 'b = 16] ucast_again [of v, where 'b = 16] word_from_le_bytes [of "ucast v :: u16"]
      by (simp add: word_less_nat_alt decodes_return)
    note tail = this
    have "decodes (?K 0xfd) (to_le_bytes (ucast v :: u16)) v"
      by (simp, rule decodes_bindI, rule decodes_bytes [where xs = "to_le_bytes (ucast v :: u16)"], simp, rule tail, simp)
    then show ?thesis
      using 2 read by (simp add: ctv_compact_size_def)
  next
    case 3
    then have "65536 \<le> unat v" "unat v < 4294967296"
      by (simp_all add: word_le_nat_alt)
    then have "decodes (\<lambda>reader. let v = word_from_le (to_le_bytes (ucast v :: u32)) :: u32 in
       if v \<le> 65535 then Inl (non_canonical reader) else Inr (ucast v, reader)) [] v"
      using ucast_small [of v, where 'b = 32] ucast_again [of v, where 'b = 32] word_from_le_bytes [of "ucast v :: u32"]
      by (simp add: word_le_nat_alt decodes_return)
    note tail = this
    have "decodes (?K 0xfe) (to_le_bytes (ucast v :: u32)) v"
      by (simp, rule decodes_bindI, rule decodes_bytes [where xs = "to_le_bytes (ucast v :: u32)"], simp, rule tail, simp)
    then show ?thesis
      using 3 read by (simp add: ctv_compact_size_def)
  next
    case 4
    then have "decodes (\<lambda>reader. let v = word_from_le (to_le_bytes v) :: u64 in
       if v \<le> 4294967295 then Inl (non_canonical reader) else Inr (v, reader)) [] v"
      using word_from_le_bytes [of v] by (simp add: decodes_return)
    note tail = this
    have "decodes (?K 0xff) (to_le_bytes v) v"
      by (simp, rule decodes_bindI, rule decodes_bytes [where xs = "to_le_bytes v"], simp, rule tail, simp)
    then show ?thesis
      using 4 read by (simp add: ctv_compact_size_def)
  qed
qed

text \<open>A count is accepted when at least that many bytes follow it.\<close>

lemma count_at_rest:
  assumes r: "at_rest r (ctv_compact_size (of_nat n) @ cs)" and "n \<le> length cs" and "n < 2 ^ 64"
  shows "\<exists>r'. tx_read_compact_size_as_usize r = Inr (n, r') \<and> at_rest r' cs"
proof -
  obtain r1 where r1: "tx_read_compact_size r = Inr (of_nat n, r1)" "at_rest r1 cs"
    using decodesD [OF decodes_compact_size r] by auto
  have "n \<le> tx_remaining r1"
    using r1(2) assms(2) by (auto simp: at_rest_def tx_remaining_def dest: arg_cong [of _ _ length])
  then show ?thesis
    using r1 assms(3) by (simp add: tx_read_compact_size_as_usize_def unat_of_nat_u64 not_less)
qed

lemma decodes_count:
  assumes "decodes (K n) cs y" and "n \<le> length cs" and "n < 2 ^ 64"
  shows "decodes (\<lambda>r. and_then (tx_read_compact_size_as_usize r) (\<lambda>(n, r). K n r))
    (ctv_compact_size (of_nat n) @ cs) y"
  unfolding decodes_def
proof (intro allI impI)
  fix r ys
  assume "at_rest r ((ctv_compact_size (of_nat n) @ cs) @ ys)"
  then obtain r1 where "tx_read_compact_size_as_usize r = Inr (n, r1)" and r1: "at_rest r1 (cs @ ys)"
    using count_at_rest [of r n "cs @ ys"] assms(2,3) by auto
  then show "\<exists>r'. and_then (tx_read_compact_size_as_usize r) (\<lambda>(n, r). K n r) = Inr (y, r') \<and> at_rest r' ys"
    using decodesD [OF assms(1) r1] by simp
qed

lemma decodes_var_bytes: "length xs < 2 ^ 64 \<Longrightarrow> decodes tx_read_var_bytes (len_prefix xs @ xs) xs"
  unfolding tx_read_var_bytes_def [abs_def] by (rule decodes_count) (simp_all add: decodes_bytes)

lemma decodes_n:
  assumes "\<And>x. x \<in> set xs \<Longrightarrow> decodes f (enc x) (g x)"
  shows "decodes (tx_read_n f (length xs)) (concat (map enc xs)) (map g xs)"
  using assms
proof (induction xs)
  case Nil
  then show ?case by (simp add: decodes_def)
next
  case (Cons x xs)
  have "decodes (\<lambda>r. and_then (tx_read_n f (length xs) r) (\<lambda>(ys, r). Inr (g x # ys, r)))
      (concat (map enc xs)) (g x # map g xs)"
    by (rule decodes_map) (rule Cons.IH, simp add: Cons.prems)
  note tail = this
  have "decodes (\<lambda>r. and_then (f r) (\<lambda>(z, r). and_then (tx_read_n f (length xs) r) (\<lambda>(ys, r). Inr (z # ys, r))))
      (enc x @ concat (map enc xs)) (g x # map g xs)"
    by (rule decodes_bindI, rule Cons.prems [of x], simp, rule tail, simp)
  moreover have "tx_read_n f (length (x # xs)) = (\<lambda>r. and_then (f r) (\<lambda>(z, r).
      and_then (tx_read_n f (length xs) r) (\<lambda>(ys, r). Inr (z # ys, r))))"
    by (rule ext) simp
  ultimately show ?case by simp
qed

lemma length_concat_nonempty: "(\<And>x. x \<in> set xs \<Longrightarrow> f x \<noteq> []) \<Longrightarrow> length xs \<le> length (concat (map f xs))"
  using length_concat_ge [of xs 1 f] by (simp add: Suc_le_eq)

lemma compact_size_nonempty [simp]: "ctv_compact_size v \<noteq> []"
  by (simp add: ctv_compact_size_def)

text \<open>What the reader makes of a written input and output.\<close>

definition read_input_spec :: "tx_input_spec \<Rightarrow> parsed_tx_in" where
  "read_input_spec input = \<lparr>pi_prev_txid_hex = to_ascii_lowercase (ti_prev_txid_hex input),
     pi_prev_vout = ti_prev_vout input, pi_script_sig = ti_script_sig input, pi_sequence = ti_sequence input\<rparr>"

definition read_output_spec :: "tx_output_spec \<Rightarrow> parsed_tx_out" where
  "read_output_spec output =
     \<lparr>pto_amount_sats = tos_amount_sats output, pto_script_pubkey = tos_script_pubkey output\<rparr>"

lemma decodes_tx_in:
  assumes "hex_spec X" and "serialize_input_spec X input = Inr bs" and "length (ti_script_sig input) < 2 ^ 64"
  shows "decodes (read_tx_in X) bs (read_input_spec input)"
proof -
  from assms(2) obtain prev where prev: "hex_decode X (ti_prev_txid_hex input) = Inr prev" "length prev = 32"
    and bs: "bs = rev prev @ to_le_bytes (ti_prev_vout input) @ (len_prefix (ti_script_sig input) @ ti_script_sig input) @
      to_le_bytes (ti_sequence input)"
    by (auto simp: serialize_input_spec_def result_simps split: if_splits)
  have "hex_encode X prev = to_ascii_lowercase (ti_prev_txid_hex input)"
    by (rule hex_encode_decode [OF assms(1) prev(1)])
  then have val: "\<lparr>pi_prev_txid_hex = hex_encode X (rev (rev prev)), pi_prev_vout = ti_prev_vout input,
      pi_script_sig = ti_script_sig input, pi_sequence = ti_sequence input\<rparr> = read_input_spec input"
    by (simp add: read_input_spec_def)
  show ?thesis
    unfolding read_tx_in_def [abs_def] bs val [symmetric]
    by (rule decodes_bindI, rule decodes_bytes [where xs = "rev prev"], simp add: prev(2),
        rule decodes_bindI, rule decodes_u32,
        rule decodes_bindI, rule decodes_var_bytes, rule assms(3),
        rule decodes_bindI, rule decodes_u32, rule decodes_return, simp_all)
qed

lemma decodes_tx_out:
  assumes "tos_amount_sats output \<le> QBIT_MAX_MONEY_SATS" and "length (tos_script_pubkey output) < 2 ^ 64"
  shows "decodes read_tx_out (serialize_output_spec output) (read_output_spec output)"
  unfolding read_tx_out_def [abs_def] serialize_output_spec_def read_output_spec_def
  by (rule decodes_bindI, rule decodes_amount, rule assms(1),
      rule decodes_bindI, rule decodes_var_bytes, rule assms(2), rule decodes_return, simp_all)

lemma decodes_stack:
  assumes "\<And>item. item \<in> set items \<Longrightarrow> length item < 2 ^ 64" and "length items < 2 ^ 64"
  shows "decodes read_stack (serialize_stack items) items"
proof -
  have "decodes (tx_read_n tx_read_var_bytes (length items)) (concat (map (\<lambda>item. len_prefix item @ item) items)) (map id items)"
    by (rule decodes_n, unfold id_apply, rule decodes_var_bytes, rule assms(1))
  then show ?thesis
    unfolding read_stack_def [abs_def] serialize_stack_def
    using length_concat_nonempty [of items "\<lambda>item. len_prefix item @ item"] assms(2)
    by (intro decodes_count) simp_all
qed

lemma decodes_marker_witness: "decodes read_witness_marker [0, 1] True"
proof -
  have "at_rest r ([0, 1] @ ys) \<Longrightarrow> \<exists>r'. read_witness_marker r = Inr (True, r') \<and> at_rest r' ys" for r ys
    using at_rest_Cons [of r 0 "1 # ys"] at_rest_Cons [of "r\<lparr>rd_offset := rd_offset r + 1\<rparr>" 1 ys]
    by (simp add: read_witness_marker_def tx_read_u8_def)
  then show ?thesis
    by (simp add: decodes_def)
qed

lemma marker_none: "at_rest r (b # cs) \<Longrightarrow> b \<noteq> 0 \<Longrightarrow> read_witness_marker r = Inr (False, r)"
  using at_rest_Cons(1) by (simp add: read_witness_marker_def)

section \<open>The round trip\<close>

text \<open>The transaction a reader gets from what \<open>serialize_tx_hex\<close> wrote.\<close>

definition spec_transaction ::
    "'x crates_scheme \<Rightarrow> u32 \<Rightarrow> tx_input_spec list \<Rightarrow> tx_output_spec list \<Rightarrow> u32 \<Rightarrow> bool \<Rightarrow>
     u8 list \<Rightarrow> parsed_transaction" where
  "spec_transaction X version inputs outputs lock_time with_witness bytes =
     \<lparr>pt_version = version, pt_inputs = map read_input_spec inputs, pt_outputs = map read_output_spec outputs,
      pt_lock_time = lock_time,
      pt_witness_stacks = (if with_witness then Some (map ti_witness_stack inputs) else None),
      pt_tx_without_witness = bytes\<rparr>"

definition tx_specs_ok :: "tx_input_spec list \<Rightarrow> tx_output_spec list \<Rightarrow> bool" where
  "tx_specs_ok inputs outputs \<longleftrightarrow> inputs \<noteq> [] \<and> length inputs < 2 ^ 64 \<and> length outputs < 2 ^ 64 \<and>
     (\<forall>i \<in> set inputs. length (ti_script_sig i) < 2 ^ 64 \<and> length (ti_witness_stack i) < 2 ^ 64 \<and>
       (\<forall>item \<in> set (ti_witness_stack i). length item < 2 ^ 64)) \<and>
     (\<forall>out \<in> set outputs. tos_amount_sats out \<le> QBIT_MAX_MONEY_SATS \<and> length (tos_script_pubkey out) < 2 ^ 64)"

lemma serialize_input_nonempty: "serialize_input_spec X input = Inr bs \<Longrightarrow> bs \<noteq> []"
  by (auto simp: serialize_input_spec_def result_simps split: if_splits)

lemma decodes_inputs:
  assumes "hex_spec X" and "try_map (serialize_input_spec X) inputs = Inr bss"
    and "\<And>i. i \<in> set inputs \<Longrightarrow> length (ti_script_sig i) < 2 ^ 64"
  shows "decodes (tx_read_n (read_tx_in X) (length inputs)) (concat bss) (map read_input_spec inputs)"
    and "length inputs \<le> length (concat bss)"
proof -
  define enc where "enc i = (case serialize_input_spec X i of Inr bs \<Rightarrow> bs)" for i
  have each: "serialize_input_spec X i = Inr (enc i)" if "i \<in> set inputs" for i
    using assms(2) that by (auto simp: try_map_Inr list_all2_conv_all_nth in_set_conv_nth enc_def)
  then have bss: "bss = map enc inputs"
    using assms(2) try_map_total [of inputs "serialize_input_spec X" enc] by simp
  show "decodes (tx_read_n (read_tx_in X) (length inputs)) (concat bss) (map read_input_spec inputs)"
    unfolding bss by (rule decodes_n, rule decodes_tx_in, rule assms(1), erule each, erule assms(3))
  show "length inputs \<le> length (concat bss)"
    unfolding bss using each serialize_input_nonempty by (intro length_concat_nonempty) blast
qed

lemma decodes_outputs:
  assumes "\<And>out. out \<in> set outputs \<Longrightarrow> tos_amount_sats out \<le> QBIT_MAX_MONEY_SATS \<and> length (tos_script_pubkey out) < 2 ^ 64"
  shows "decodes (tx_read_n read_tx_out (length outputs)) (concat (map serialize_output_spec outputs)) (map read_output_spec outputs)"
    and "length outputs \<le> length (concat (map serialize_output_spec outputs))"
proof -
  show "decodes (tx_read_n read_tx_out (length outputs)) (concat (map serialize_output_spec outputs)) (map read_output_spec outputs)"
    using assms by (intro decodes_n decodes_tx_out) simp_all
  show "length outputs \<le> length (concat (map serialize_output_spec outputs))"
    by (rule length_concat_nonempty) (simp add: serialize_output_spec_def)
qed

lemma decodes_stacks:
  assumes "\<And>i. i \<in> set inputs \<Longrightarrow> length (ti_witness_stack i) < 2 ^ 64 \<and> (\<forall>item \<in> set (ti_witness_stack i). length item < 2 ^ 64)"
  shows "decodes (tx_read_n read_stack (length inputs)) (concat (map (serialize_stack \<circ> ti_witness_stack) inputs))
    (map ti_witness_stack inputs)"
  using assms by (intro decodes_n) (simp add: decodes_stack)

lemma first_count_byte: "0 < n \<Longrightarrow> n < 2 ^ 64 \<Longrightarrow> \<exists>b cs. ctv_compact_size (of_nat n) = b # cs \<and> b \<noteq> 0"
proof -
  assume n: "0 < n" "n < 2 ^ 64"
  then have v: "unat (of_nat n :: u64) = n"
    by (simp add: unat_of_nat_u64)
  show ?thesis
  proof (cases "n < 253")
    case True
    then have "unat (ucast (of_nat n :: u64) :: u8) = n"
      using ucast_small [of "of_nat n :: u64", where 'b = 8] v by simp
    then show ?thesis
      using True n v by (auto simp: ctv_compact_size_def word_less_nat_alt)
  next
    case False
    then have "\<not> (of_nat n :: u64) < 253"
      using v by (simp add: word_less_nat_alt)
    then show ?thesis
      by (simp add: ctv_compact_size_def)
  qed
qed

lemma without_witness_spec:
  assumes "hex_spec X" and "try_map (serialize_input_spec X) inputs = Inr bss"
  shows "tx_without_witness_bytes X version (map read_input_spec inputs) (map read_output_spec outputs) lock_time =
    Inr (to_le_bytes version @ len_prefix inputs @ concat bss @ len_prefix outputs @
      concat (map serialize_output_spec outputs) @ to_le_bytes lock_time)"
proof -
  have one: "tx_in_without_witness X (read_input_spec i) = Inr bs" if sb: "serialize_input_spec X i = Inr bs" for i bs
  proof -
    from sb obtain prev where prev: "hex_decode X (ti_prev_txid_hex i) = Inr prev"
      and bs: "bs = rev prev @ to_le_bytes (ti_prev_vout i) @ len_prefix (ti_script_sig i) @ ti_script_sig i @
        to_le_bytes (ti_sequence i)"
      by (auto simp: serialize_input_spec_def result_simps split: if_splits)
    have "hex_decode X (to_ascii_lowercase (ti_prev_txid_hex i)) = Inr prev"
      using hex_decode_encode [OF assms(1), of prev] hex_encode_decode [OF assms(1) prev] by simp
    then show ?thesis
      by (simp add: tx_in_without_witness_def read_input_spec_def bs)
  qed
  have "try_map (tx_in_without_witness X) (map read_input_spec inputs) = Inr bss"
    using assms(2) one by (auto simp: try_map_Inr list.rel_map elim!: list_all2_mono)
  moreover have "map serialize_tx_out (map read_output_spec outputs) = map serialize_output_spec outputs"
    by (simp add: serialize_tx_out_def serialize_output_spec_def read_output_spec_def)
  ultimately show ?thesis
    by (simp only: tx_without_witness_bytes_def and_then.simps length_map)
qed

lemma marker_at_rest:
  assumes "at_rest r ((if w then [0, 1] else []) @ ctv_compact_size (of_nat n) @ ys)" and "0 < n" and "n < 2 ^ 64"
  shows "\<exists>r'. read_witness_marker r = Inr (w, r') \<and> at_rest r' (ctv_compact_size (of_nat n) @ ys)"
proof (cases w)
  case True
  then show ?thesis
    using decodesD [OF decodes_marker_witness, of r "ctv_compact_size (of_nat n) @ ys"] assms(1) by simp
next
  case False
  obtain b cs where "ctv_compact_size (of_nat n) = b # cs" "b \<noteq> 0"
    using first_count_byte [OF assms(2,3)] by blast
  then show ?thesis
    using marker_none [of r b "cs @ ys"] assms(1) False by auto
qed

lemma parse_serialized:
  assumes hex: "hex_spec X" and ser: "serialize_tx_hex X version inputs outputs lock_time w = Inr tx_hex"
    and ok: "tx_specs_ok inputs outputs" and len: "length tx_hex < 2 ^ 64"
  shows "\<exists>bytes. parse_transaction_hex X tx_hex field = Inr (spec_transaction X version inputs outputs lock_time w bytes) \<and>
    serialize_tx_hex X version inputs outputs lock_time False = Inr (hex_encode X bytes)"
proof -
  from ser obtain bss where bss: "try_map (serialize_input_spec X) inputs = Inr bss"
    and tx: "tx_hex = hex_encode X (to_le_bytes version @ (if w then [0, 1] else []) @
       len_prefix inputs @ concat bss @ len_prefix outputs @ concat (map serialize_output_spec outputs) @
       (if w then concat (map (serialize_stack \<circ> ti_witness_stack) inputs) else []) @ to_le_bytes lock_time)"
    (is "tx_hex = hex_encode X ?tx")
    by (auto simp: serialize_tx_hex_def and_then_Inr simp del: try_map_Inr)
  let ?stacks = "if w then concat (map (serialize_stack \<circ> ti_witness_stack) inputs) else []"
  let ?bytes = "to_le_bytes version @ len_prefix inputs @ concat bss @ len_prefix outputs @
      concat (map serialize_output_spec outputs) @ to_le_bytes lock_time"
  note ok = ok [unfolded tx_specs_ok_def]
  have dec: "hex_decode X tx_hex = Inr ?tx"
    unfolding tx by (rule hex_decode_encode [OF hex])
  have "length ?tx < 2 ^ 64"
    using len unfolding tx length_hex_encode [OF hex] by linarith
  then have "at_rest (tx_reader_new ?tx field) ?tx"
    by (simp add: at_rest_def tx_reader_new_def)
  from decodesD [OF decodes_u32 this] obtain r1 where r1: "tx_read_u32 (tx_reader_new ?tx field) = Inr (version, r1)"
    and a1: "at_rest r1 ((if w then [0, 1] else []) @ len_prefix inputs @ concat bss @ len_prefix outputs @
      concat (map serialize_output_spec outputs) @ ?stacks @ to_le_bytes lock_time)"
    by blast
  from marker_at_rest [OF a1] ok obtain r2 where r2: "read_witness_marker r1 = Inr (w, r2)"
    and a2: "at_rest r2 (len_prefix inputs @ concat bss @ len_prefix outputs @
      concat (map serialize_output_spec outputs) @ ?stacks @ to_le_bytes lock_time)"
    by blast
  note ins = decodes_inputs [OF hex bss] and outs = decodes_outputs [of outputs]
  have "length inputs \<le> length (concat bss @ len_prefix outputs @
      concat (map serialize_output_spec outputs) @ ?stacks @ to_le_bytes lock_time)"
    using ins(2) ok by simp
  from count_at_rest [OF a2 this] ok obtain r3 where r3: "tx_read_compact_size_as_usize r2 = Inr (length inputs, r3)"
    and a3: "at_rest r3 (concat bss @ len_prefix outputs @
      concat (map serialize_output_spec outputs) @ ?stacks @ to_le_bytes lock_time)"
    by blast
  from decodesD [OF ins(1) a3] ok obtain r4 where
    r4: "tx_read_n (read_tx_in X) (length inputs) r3 = Inr (map read_input_spec inputs, r4)"
    and a4: "at_rest r4 (len_prefix outputs @
      concat (map serialize_output_spec outputs) @ ?stacks @ to_le_bytes lock_time)"
    by blast
  have "length outputs \<le> length (concat (map serialize_output_spec outputs) @ ?stacks @ to_le_bytes lock_time)"
    using outs(2) ok by simp
  from count_at_rest [OF a4 this] ok obtain r5 where r5: "tx_read_compact_size_as_usize r4 = Inr (length outputs, r5)"
    and a5: "at_rest r5 (concat (map serialize_output_spec outputs) @ ?stacks @ to_le_bytes lock_time)"
    by blast
  from decodesD [OF outs(1) a5] ok obtain r6 where
    r6: "tx_read_n read_tx_out (length outputs) r5 = Inr (map read_output_spec outputs, r6)"
    and a6: "at_rest r6 (?stacks @ to_le_bytes lock_time)"
    by blast
  have "\<exists>r7. (if w then and_then (tx_read_n read_stack (length inputs) r6) (\<lambda>(stacks, reader). Inr (Some stacks, reader))
      else Inr (None, r6)) = Inr (if w then Some (map ti_witness_stack inputs) else None, r7) \<and>
      at_rest r7 (to_le_bytes lock_time)"
    using a6 decodesD [OF decodes_stacks [of inputs], of r6 "to_le_bytes lock_time"] ok by (cases w) auto
  then obtain r7 where r7: "(if w then and_then (tx_read_n read_stack (length inputs) r6) (\<lambda>(stacks, reader). Inr (Some stacks, reader))
      else Inr (None, r6)) = Inr (if w then Some (map ti_witness_stack inputs) else None, r7)"
    and a7: "at_rest r7 (to_le_bytes lock_time @ [])"
    by auto
  from decodesD [OF decodes_u32 a7] obtain r8 where r8: "tx_read_u32 r7 = Inr (lock_time, r8)" and a8: "at_rest r8 []"
    by blast
  have r9: "tx_expect_finished r8 = Inr ()"
    using a8 by (simp add: tx_expect_finished_def at_rest_def ensure_def)
  have n: "(length inputs = 0) = False"
    using ok by simp
  have "parse_transaction_hex X tx_hex field = Inr (spec_transaction X version inputs outputs lock_time w ?bytes)"
    unfolding parse_transaction_hex_def dec map_err.simps and_then.simps parse_transaction_def r1 r2 r3 n r4 r5 r6 r7 r8 r9
      prod.case if_False without_witness_spec [OF hex bss] spec_transaction_def ..
  moreover have "serialize_tx_hex X version inputs outputs lock_time False = Inr (hex_encode X ?bytes)"
    by (simp add: serialize_tx_hex_def bss)
  ultimately show ?thesis
    by blast
qed

end
