(* ===== verification/Ctv.thy ===== *)
theory Ctv
  imports Ctv_Wire
begin

text \<open>
  \<open>qbit-prism/src/ctv.rs\<close>: the fanout manifests. A precommitment fixes the fanout
  transaction template before the coinbase is mined, its covenant program goes into the
  coinbase, and the manifest names the mined outpoint and the finished transaction.
  \<open>serde_json\<close> of the two published records is a parameter.
\<close>

section \<open>Data\<close>

record ctv_fanout_payout =
  cp_recipient_id :: string
  cp_order_key :: string
  cp_p2mr_program_hex :: string
  cp_gross_amount_sats :: u64
  cp_fee_sats :: u64
  cp_amount_sats :: u64

record ctv_fanout_manifest_input =
  mi_block_height :: u64
  mi_chunk_index :: u32
  mi_chunk_count :: u32
  mi_coinbase_value_sats :: u64
  mi_settlement_mode :: settlement_mode
  mi_fanout_tx_template_hex :: string
  mi_parent_coinbase_tx_hex :: string
  mi_parent_coinbase_vout :: u32
  mi_fanout_tx_hex :: string
  mi_reward_manifest_sha256_hex :: string
  mi_payout_policy_manifest_sha256_hex :: string
  mi_payouts :: "ctv_fanout_payout list"

record ctv_fanout_precommitment_input =
  pci_block_height :: u64
  pci_chunk_index :: u32
  pci_chunk_count :: u32
  pci_coinbase_value_sats :: u64
  pci_settlement_mode :: settlement_mode
  pci_reward_manifest_sha256_hex :: string
  pci_payout_policy_manifest_sha256_hex :: string
  pci_payouts :: "ctv_fanout_payout list"

record ctv_fanout_output =
  co_vout :: u32
  co_recipient_id :: string
  co_order_key :: string
  co_p2mr_program_hex :: string
  co_script_pubkey_hex :: string
  co_gross_amount_sats :: u64
  co_fee_sats :: u64
  co_amount_sats :: u64

record ctv_fanout_precommitment =
  pc_schema :: string
  pc_block_height :: u64
  pc_chunk_index :: u32
  pc_chunk_count :: u32
  pc_coinbase_value_sats :: u64
  pc_settlement_mode :: settlement_mode
  pc_covenant_output_value_sats :: u64
  pc_covenant_script_pubkey_hex :: string
  pc_fanout_tx_template_hex :: string
  pc_fanout_input_index :: u32
  pc_fanout_sequence :: u32
  pc_fanout_lock_time :: u32
  pc_fanout_output_sum_sats :: u64
  pc_fanout_fee_sats :: u64
  pc_anchor_vout :: "u32 option"
  pc_ctv_hash_hex :: string
  pc_ctv_leaf_script_hex :: string
  pc_p2mr_program_hex :: string
  pc_p2mr_control_block_hex :: string
  pc_reward_manifest_sha256_hex :: string
  pc_payout_policy_manifest_sha256_hex :: string
  pc_outputs :: "ctv_fanout_output list"

record prepared_ctv_fanout =
  pf_precommitment :: ctv_fanout_precommitment
  pf_precommitment_sha256_hex :: string
  pf_commitment_witness_leaf_hex :: string
  pf_covenant_recipient_id :: string
  pf_covenant_order_key :: string
  pf_covenant_p2mr_program_hex :: string
  pf_covenant_output_value_sats :: u64

record ctv_fanout_manifest =
  cm_schema :: string
  cm_precommitment :: ctv_fanout_precommitment
  cm_precommitment_sha256_hex :: string
  cm_commitment_witness_leaf_hex :: string
  cm_parent_coinbase_txid :: string
  cm_parent_coinbase_tx_hex :: string
  cm_parent_coinbase_vout :: u32
  cm_covenant_output_value_sats :: u64
  cm_covenant_script_pubkey_hex :: string
  cm_fanout_tx_hex :: string
  cm_fanout_txid :: string

record ctv_fanout_manifest_set =
  cms_schema :: string
  cms_block_height :: u64
  cms_coinbase_value_sats :: u64
  cms_settlement_mode :: settlement_mode
  cms_reward_manifest_sha256_hex :: string
  cms_payout_policy_manifest_sha256_hex :: string
  cms_parent_coinbase_txid :: string
  cms_fanout_count :: u32
  cms_fanout_output_sum_sats :: u64
  cms_fanout_fee_sats :: u64
  cms_covenant_output_value_sats :: u64
  cms_manifests :: "ctv_fanout_manifest list"

record ctv_crates = builder_crates +
  precommitment_json :: "ctv_fanout_precommitment \<Rightarrow> string + u8 list"
  manifest_set_json :: "ctv_fanout_manifest_set \<Rightarrow> string + u8 list"

definition slice_get :: "'a list \<Rightarrow> nat \<Rightarrow> 'a option" where
  "slice_get xs i = (if i < length xs then Some (xs ! i) else None)"

abbreviation require :: "bool \<Rightarrow> string \<Rightarrow> prism_error + 'b \<Rightarrow> prism_error + 'b" where
  "require c reason rest \<equiv> (if c then rest else Inl (invalid_ctv_manifest reason))"

text \<open>\<open>{:08}\<close>\<close>

definition show_08 :: "nat \<Rightarrow> string" where
  "show_08 n = replicate (8 - length (show_nat n)) (CHR ''0'') @ show_nat n"

section \<open>Small checks\<close>

definition ensure_coinbase_shape :: "parsed_transaction \<Rightarrow> prism_error + unit" where
  "ensure_coinbase_shape tx =
     (require (length (pt_inputs tx) = 1) ''parent coinbase must have exactly one input''
      (let input = pt_inputs tx ! 0 in
       require (pi_prev_txid_hex input = concat (replicate 32 ''00'') \<and> pi_prev_vout input = COINBASE_PREVOUT_VOUT)
         ''parent coinbase input must spend the null outpoint'' (Inr ())))"

definition validate_fanout_template :: "parsed_transaction \<Rightarrow> prism_error + unit" where
  "validate_fanout_template tx =
     (require (pt_version tx = CTV_FANOUT_TX_VERSION) ''fanout template must be a version 3 (TRUC) transaction''
     (require (length (pt_inputs tx) = 1) ''fanout template transaction must have exactly one input''
     (require (pt_witness_stacks tx = None) ''fanout template transaction must not include witness data''
     (require (pi_script_sig (pt_inputs tx ! unat QBIT_CTV_INPUT_INDEX) = [])
        ''fanout template input scriptSig must be empty'' (Inr ())))))"

definition canonical_precommitment_bytes ::
    "'x ctv_crates_scheme \<Rightarrow> ctv_fanout_precommitment \<Rightarrow> prism_error + u8 list" where
  "canonical_precommitment_bytes X precommitment = map_err PrismJson (precommitment_json X precommitment)"

definition canonical_ctv_fanout_precommitment_bytes ::
    "'x ctv_crates_scheme \<Rightarrow> ctv_fanout_precommitment \<Rightarrow> prism_error + u8 list" where
  "canonical_ctv_fanout_precommitment_bytes X precommitment = canonical_precommitment_bytes X precommitment"

definition validate_chunk_identity :: "u32 \<Rightarrow> u32 \<Rightarrow> prism_error + unit" where
  "validate_chunk_identity chunk_index chunk_count =
     (require (chunk_count \<noteq> 0) ''fanout chunk_count must be positive''
     (require (chunk_index < chunk_count) ''fanout chunk_index must be less than chunk_count'' (Inr ())))"

definition expected_fanout_sequence :: "u32 \<Rightarrow> prism_error + u32" where
  "expected_fanout_sequence chunk_index =
     ok_or (invalid_ctv_manifest ''fanout sequence overflowed'') (checked_add CTV_FANOUT_SEQUENCE_BASE chunk_index)"

text \<open>\<open>hex::decode\<close> of the static \<open>"51024e73"\<close>.\<close>

definition p2a_anchor_script_pubkey :: "'x crates_scheme \<Rightarrow> prism_error + u8 list" where
  "p2a_anchor_script_pubkey X =
     map_err (\<lambda>err. Panic ''static P2A script hex'') (hex_decode X P2A_ANCHOR_SCRIPT_PUBKEY_HEX)"

definition fanout_has_cpfp_anchor :: "u64 \<Rightarrow> bool" where
  "fanout_has_cpfp_anchor fanout_fee_sats \<longleftrightarrow> fanout_fee_sats = 0"

definition u32_try_from_usize :: "nat \<Rightarrow> u32 option" where
  "u32_try_from_usize n = (if n < 2 ^ 32 then Some (of_nat n) else None)"

definition anchor_vout_for_fee :: "nat \<Rightarrow> u64 \<Rightarrow> prism_error + u32 option" where
  "anchor_vout_for_fee output_count fanout_fee_sats =
     (if \<not> fanout_has_cpfp_anchor fanout_fee_sats then Inr None
      else and_then (ok_or (invalid_ctv_manifest ''fanout anchor vout exceeds uint32'') (u32_try_from_usize output_count))
        (\<lambda>vout. Inr (Some vout)))"

definition ensure_fee_anchor_output ::
    "'x crates_scheme \<Rightarrow> parsed_tx_out \<Rightarrow> u32 \<Rightarrow> nat \<Rightarrow> prism_error + unit" where
  "ensure_fee_anchor_output X output declared_vout expected_index =
     (require (unat declared_vout = expected_index) ''fee anchor vout mismatch''
     (require (pto_amount_sats output = CTV_FANOUT_ANCHOR_VALUE_SATS) ''fee anchor value must be zero''
     (and_then (p2a_anchor_script_pubkey X) (\<lambda>script.
      require (pto_script_pubkey output = script) ''fee anchor must use the P2A scriptPubKey'' (Inr ())))))"

definition commitment_witness_leaf_hex :: "'x crates_scheme \<Rightarrow> string \<Rightarrow> prism_error + string" where
  "commitment_witness_leaf_hex X precommitment_sha256_hex =
     and_then (decode_hash_hex X precommitment_sha256_hex ''precommitment_sha256_hex'') (\<lambda>precommitment_hash.
     Inr (hex_encode X (sha256_array X (as_bytes CTV_FANOUT_COMMITMENT_LEAF_TAG @ precommitment_hash))))"

definition default_ctv_hash_for_parsed_tx ::
    "'x crates_scheme \<Rightarrow> parsed_transaction \<Rightarrow> nat \<Rightarrow> prism_error + u8 list" where
  "default_ctv_hash_for_parsed_tx X tx input_index =
     (require (input_index < length (pt_inputs tx)) ''CTV input index out of range''
      (let scripts = (if list_ex (\<lambda>input. pi_script_sig input \<noteq> []) (pt_inputs tx)
             then sha256_array X (concat (map (\<lambda>input. len_prefix (pi_script_sig input) @ pi_script_sig input) (pt_inputs tx)))
             else []) in
       and_then (ok_or (invalid_ctv_manifest ''CTV input count exceeds uint32'') (u32_try_from_usize (length (pt_inputs tx))))
         (\<lambda>input_count.
       let sequences = concat (map (\<lambda>input. to_le_bytes (pi_sequence input)) (pt_inputs tx)) in
       and_then (ok_or (invalid_ctv_manifest ''CTV output count exceeds uint32'') (u32_try_from_usize (length (pt_outputs tx))))
         (\<lambda>output_count.
       let outputs = concat (map serialize_tx_out (pt_outputs tx)) in
       and_then (ok_or (invalid_ctv_manifest ''CTV input index exceeds uint32'') (u32_try_from_usize input_index))
         (\<lambda>index.
       Inr (sha256_array X (to_le_bytes (pt_version tx) @ to_le_bytes (pt_lock_time tx) @ scripts @
         to_le_bytes input_count @ sha256_array X sequences @ to_le_bytes output_count @
         sha256_array X outputs @ to_le_bytes index)))))))"

definition verify_fanout_witness :: "parsed_transaction \<Rightarrow> u8 list \<Rightarrow> prism_error + unit" where
  "verify_fanout_witness tx leaf_script =
     and_then (ok_or (invalid_ctv_manifest ''fanout transaction must include P2MR witness'') (pt_witness_stacks tx))
       (\<lambda>witness.
     and_then (ok_or (invalid_ctv_manifest ''fanout witness input 0 is missing'')
         (slice_get witness (unat QBIT_CTV_INPUT_INDEX))) (\<lambda>input_witness.
     require (length input_witness = 2) ''fanout P2MR witness must contain leaf script and control block''
     (require (input_witness ! 0 = leaf_script) ''fanout witness leaf script mismatch''
     (require (input_witness ! 1 = [QBIT_P2MR_CONTROL_BLOCK]) ''fanout witness control block mismatch'' (Inr ())))))"

definition default_ctv_hash_hex :: "'x crates_scheme \<Rightarrow> string \<Rightarrow> nat \<Rightarrow> prism_error + string" where
  "default_ctv_hash_hex X tx_hex input_index =
     and_then (parse_transaction_hex X tx_hex ''tx_hex'') (\<lambda>tx.
     and_then (default_ctv_hash_for_parsed_tx X tx input_index) (\<lambda>hash. Inr (hex_encode X hash)))"

definition ctv_leaf_script_hex :: "'x crates_scheme \<Rightarrow> string \<Rightarrow> prism_error + string" where
  "ctv_leaf_script_hex X ctv_hash_hex =
     and_then (decode_hash_hex X ctv_hash_hex ''ctv_hash_hex'') (\<lambda>ctv_hash. Inr (hex_encode X (ctv_leaf_script ctv_hash)))"

definition p2mr_program_for_ctv_leaf_hex :: "'x crates_scheme \<Rightarrow> string \<Rightarrow> prism_error + string" where
  "p2mr_program_for_ctv_leaf_hex X leaf_script_hex =
     and_then (map_err (\<lambda>err. invalid_ctv_manifest (''invalid ctv_leaf_script_hex: '' @ err)) (hex_decode X leaf_script_hex))
       (\<lambda>leaf_script. Inr (hex_encode X (p2mr_tapleaf_hash X leaf_script)))"

section \<open>The fanout transaction\<close>

definition output_spec_from_fanout_output :: "'x crates_scheme \<Rightarrow> ctv_fanout_output \<Rightarrow> prism_error + tx_output_spec" where
  "output_spec_from_fanout_output X output =
     and_then (map_err (\<lambda>err. invalid_ctv_manifest (''fanout output scriptPubKey must be canonical hex: '' @ err))
         (hex_decode X (co_script_pubkey_hex output))) (\<lambda>script_pubkey.
     Inr \<lparr>tos_amount_sats = co_amount_sats output, tos_script_pubkey = script_pubkey\<rparr>)"

definition p2a_anchor_output_spec :: "'x crates_scheme \<Rightarrow> prism_error + tx_output_spec" where
  "p2a_anchor_output_spec X =
     and_then (p2a_anchor_script_pubkey X) (\<lambda>script_pubkey.
     Inr \<lparr>tos_amount_sats = CTV_FANOUT_ANCHOR_VALUE_SATS, tos_script_pubkey = script_pubkey\<rparr>)"

definition output_specs_with_anchor :: "'x crates_scheme \<Rightarrow> ctv_fanout_output list \<Rightarrow> prism_error + tx_output_spec list" where
  "output_specs_with_anchor X outputs =
     and_then (try_map (output_spec_from_fanout_output X) outputs) (\<lambda>all_specs.
     and_then (p2a_anchor_output_spec X) (\<lambda>anchor. Inr (all_specs @ [anchor])))"

definition fanout_output_specs ::
    "'x crates_scheme \<Rightarrow> ctv_fanout_output list \<Rightarrow> bool \<Rightarrow> prism_error + tx_output_spec list" where
  "fanout_output_specs X outputs include_anchor =
     (if include_anchor then output_specs_with_anchor X outputs
      else try_map (output_spec_from_fanout_output X) outputs)"

definition fanout_tx_hex ::
    "'x crates_scheme \<Rightarrow> string \<Rightarrow> u32 \<Rightarrow> ctv_fanout_output list \<Rightarrow> bool \<Rightarrow> u32 \<Rightarrow> u32 \<Rightarrow>
     u8 list list \<Rightarrow> bool \<Rightarrow> prism_error + string" where
  "fanout_tx_hex X parent_txid_hex parent_vout outputs include_anchor lock_time sequence witness_stack with_witness =
     and_then (normalize_txid_hex X parent_txid_hex ''fanout parent txid'') (\<lambda>prev_txid_hex.
     and_then (fanout_output_specs X outputs include_anchor) (\<lambda>specs.
     serialize_tx_hex X CTV_FANOUT_TX_VERSION
       [\<lparr>ti_prev_txid_hex = prev_txid_hex, ti_prev_vout = parent_vout, ti_script_sig = [],
         ti_sequence = sequence, ti_witness_stack = witness_stack\<rparr>]
       specs lock_time with_witness))"

definition unsigned_fanout_tx_hex ::
    "'x crates_scheme \<Rightarrow> string \<Rightarrow> u32 \<Rightarrow> ctv_fanout_output list \<Rightarrow> bool \<Rightarrow> u32 \<Rightarrow> u32 \<Rightarrow> prism_error + string" where
  "unsigned_fanout_tx_hex X parent_txid_hex parent_vout outputs include_anchor lock_time sequence =
     fanout_tx_hex X parent_txid_hex parent_vout outputs include_anchor lock_time sequence [] False"

definition witnessed_fanout_tx_hex ::
    "'x crates_scheme \<Rightarrow> string \<Rightarrow> u32 \<Rightarrow> ctv_fanout_output list \<Rightarrow> bool \<Rightarrow> u32 \<Rightarrow> u32 \<Rightarrow> u8 list \<Rightarrow>
     prism_error + string" where
  "witnessed_fanout_tx_hex X parent_txid_hex parent_vout outputs include_anchor lock_time sequence leaf_script =
     fanout_tx_hex X parent_txid_hex parent_vout outputs include_anchor lock_time sequence
       [leaf_script, [QBIT_P2MR_CONTROL_BLOCK]] True"

section \<open>Canonical outputs\<close>

type_synonym fanout_key = "string \<times> string \<times> string"

definition compare_payouts :: "ctv_fanout_payout \<Rightarrow> ctv_fanout_payout \<Rightarrow> ordering" where
  "compare_payouts left right =
     cmp (cp_order_key left, cp_recipient_id left, cp_p2mr_program_hex left, unat (cp_amount_sats left))
         (cp_order_key right, cp_recipient_id right, cp_p2mr_program_hex right, unat (cp_amount_sats right))"

definition fanout_output_step ::
    "'x crates_scheme \<Rightarrow> fanout_key set \<times> ctv_fanout_output list \<Rightarrow> nat \<times> ctv_fanout_payout \<Rightarrow>
     prism_error + fanout_key set \<times> ctv_fanout_output list" where
  "fanout_output_step X = (\<lambda>(seen, outputs) (index, payout).
     require (cp_amount_sats payout \<noteq> 0) ''fanout payout amount must be positive''
     (let gross_amount_sats =
        (if cp_gross_amount_sats payout = 0 then cp_amount_sats payout else cp_gross_amount_sats payout) in
      and_then (ok_or (invalid_ctv_manifest ''fanout payout gross amount overflowed'')
          (checked_add (cp_amount_sats payout) (cp_fee_sats payout))) (\<lambda>funded.
      require (funded = gross_amount_sats) ''fanout payout gross amount must equal amount plus fee''
      (and_then (decode_program_hex X (cp_p2mr_program_hex payout) ''payout p2mr_program_hex'') (\<lambda>p2mr_program.
       let key = (cp_order_key payout, cp_recipient_id payout, cp_p2mr_program_hex payout) in
       require (key \<notin> seen) ''duplicate fanout payout recipient''
       (Inr (insert key seen, outputs @
         [\<lparr>co_vout = of_nat index, co_recipient_id = cp_recipient_id payout, co_order_key = cp_order_key payout,
           co_p2mr_program_hex = cp_p2mr_program_hex payout,
           co_script_pubkey_hex = hex_encode X (p2mr_script_pubkey p2mr_program),
           co_gross_amount_sats = gross_amount_sats, co_fee_sats = cp_fee_sats payout,
           co_amount_sats = cp_amount_sats payout\<rparr>])))))))"

definition canonical_fanout_outputs ::
    "'x crates_scheme \<Rightarrow> ctv_fanout_payout list \<Rightarrow> prism_error + ctv_fanout_output list" where
  "canonical_fanout_outputs X payouts =
     require (payouts \<noteq> []) ''fanout must have at least one payout''
     (and_then (try_map (\<lambda>payout.
          and_then (canonical_p2mr_program_hex X (cp_p2mr_program_hex payout) ''payout p2mr_program_hex'') (\<lambda>program.
          Inr (payout\<lparr>cp_p2mr_program_hex := program\<rparr>))) payouts) (\<lambda>payouts.
      and_then (try_fold (fanout_output_step X) ({}, []) (enumerate 0 (sort_by compare_payouts payouts)))
        (\<lambda>(seen, outputs). Inr outputs)))"

definition output_sum :: "ctv_fanout_output list \<Rightarrow> prism_error + u64" where
  "output_sum outputs =
     checked_sum (invalid_ctv_manifest ''fanout output sum overflowed'') (map co_amount_sats outputs)"

definition output_fee_sum :: "ctv_fanout_output list \<Rightarrow> prism_error + u64" where
  "output_fee_sum outputs =
     checked_sum (invalid_ctv_manifest ''fanout fee sum overflowed'') (map co_fee_sats outputs)"

section \<open>Precommitments\<close>

definition precommitment_output_step ::
    "'x crates_scheme \<Rightarrow> (u64 \<times> u64) \<times> fanout_key set \<Rightarrow> nat \<times> ctv_fanout_output \<Rightarrow>
     prism_error + (u64 \<times> u64) \<times> fanout_key set" where
  "precommitment_output_step X = (\<lambda>((expected_sum, expected_fee_sats), seen) (index, output).
     require (co_vout output = of_nat index) (''fanout output '' @ show_nat index @ '' vout mismatch'')
     (require (co_amount_sats output \<noteq> 0) (''fanout output '' @ show_nat index @ '' amount must be positive'')
     (and_then (canonical_p2mr_program_hex X (co_p2mr_program_hex output) ''precommitment p2mr_program_hex'') (\<lambda>program.
      let key = (co_order_key output, co_recipient_id output, program) in
      require (key \<notin> seen) ''duplicate fanout payout recipient''
      (and_then (decode_program_hex X (co_p2mr_program_hex output) ''precommitment p2mr_program_hex'') (\<lambda>expected_program.
       require (co_p2mr_program_hex output = hex_encode X expected_program)
         ''precommitment p2mr_program_hex must be lowercase canonical hex''
       (require (hex_encode X (p2mr_script_pubkey expected_program) = co_script_pubkey_hex output)
         (''fanout output '' @ show_nat index @ '' scriptPubKey mismatch'')
       (and_then (ok_or (invalid_ctv_manifest ''fanout output sum overflowed'')
           (checked_add expected_sum (co_amount_sats output))) (\<lambda>expected_sum.
        and_then (ok_or (invalid_ctv_manifest ''fanout fee sum overflowed'')
           (checked_add expected_fee_sats (co_fee_sats output))) (\<lambda>expected_fee_sats.
        Inr ((expected_sum, expected_fee_sats), insert key seen)))))))))))"

definition verify_anchor_choice :: "ctv_fanout_precommitment \<Rightarrow> prism_error + unit" where
  "verify_anchor_choice precommitment =
     (case pc_anchor_vout precommitment of
        Some anchor_vout \<Rightarrow>
          (if pc_fanout_fee_sats precommitment = 0
           then require (unat anchor_vout = length (pc_outputs precommitment)) ''fee anchor vout must follow the payouts'' (Inr ())
           else Inl (invalid_ctv_manifest ''built-in-fee fanout must not include a CPFP anchor''))
      | None \<Rightarrow>
          require (pc_fanout_fee_sats precommitment \<noteq> 0) ''zero-fee fanout must include a CPFP anchor'' (Inr ()))"

text \<open>The hex fields of a precommitment, in the code's order.\<close>

definition verify_precommitment_hex :: "'x crates_scheme \<Rightarrow> ctv_fanout_precommitment \<Rightarrow> prism_error + unit" where
  "verify_precommitment_hex X precommitment =
     and_then (validate_canonical_hex X (pc_covenant_script_pubkey_hex precommitment) ''precommitment covenant_script_pubkey_hex'') (\<lambda>_.
     and_then (validate_canonical_hex X (pc_fanout_tx_template_hex precommitment) ''precommitment fanout_tx_template_hex'') (\<lambda>_.
     and_then (validate_canonical_sha256_hex X (pc_ctv_hash_hex precommitment) ''precommitment ctv_hash_hex'') (\<lambda>_.
     and_then (validate_canonical_hex X (pc_ctv_leaf_script_hex precommitment) ''precommitment ctv_leaf_script_hex'') (\<lambda>_.
     and_then (canonical_p2mr_program_hex X (pc_p2mr_program_hex precommitment) ''precommitment p2mr_program_hex'') (\<lambda>program.
     require (pc_p2mr_program_hex precommitment = program) ''precommitment p2mr_program_hex must be lowercase canonical hex''
     (and_then (validate_canonical_hex X (pc_p2mr_control_block_hex precommitment) ''precommitment p2mr_control_block_hex'') (\<lambda>_.
     and_then (validate_canonical_sha256_hex X (pc_reward_manifest_sha256_hex precommitment) ''precommitment reward_manifest_sha256_hex'') (\<lambda>_.
     validate_canonical_sha256_hex X (pc_payout_policy_manifest_sha256_hex precommitment) ''precommitment payout_policy_manifest_sha256_hex''))))))))"

definition verify_precommitment :: "'x crates_scheme \<Rightarrow> ctv_fanout_precommitment \<Rightarrow> prism_error + unit" where
  "verify_precommitment X precommitment =
     require (pc_schema precommitment = CTV_FANOUT_PRECOMMITMENT_SCHEMA) ''unexpected fanout precommitment schema''
     (and_then (verify_precommitment_hex X precommitment) (\<lambda>_.
      and_then (validate_chunk_identity (pc_chunk_index precommitment) (pc_chunk_count precommitment)) (\<lambda>_.
      and_then (expected_fanout_sequence (pc_chunk_index precommitment)) (\<lambda>sequence.
      require (pc_fanout_sequence precommitment = sequence) ''fanout sequence must equal the chunk index''
      (require (pc_fanout_lock_time precommitment = ucast (pc_block_height precommitment))
        ''fanout lock_time must equal block height for unique CTV context''
      (require (pc_outputs precommitment \<noteq> []) ''fanout precommitment has no outputs''
      (and_then (try_fold (precommitment_output_step X) ((0, 0), {}) (enumerate 0 (pc_outputs precommitment)))
        (\<lambda>((expected_sum, expected_fee_sats), seen).
       require (expected_sum = pc_fanout_output_sum_sats precommitment) ''fanout output sum mismatch''
       (require (expected_fee_sats = pc_fanout_fee_sats precommitment) ''fanout fee sum mismatch''
       (and_then (ok_or (invalid_ctv_manifest ''fanout funded value overflowed'') (checked_add expected_sum expected_fee_sats))
         (\<lambda>funded_value_sats.
        require (funded_value_sats = pc_covenant_output_value_sats precommitment)
          ''fanout payouts plus fee do not equal covenant output value''
        (verify_anchor_choice precommitment))))))))))))"

definition prepare_ctv_fanout_precommitment ::
    "'x ctv_crates_scheme \<Rightarrow> ctv_fanout_precommitment_input \<Rightarrow> prism_error + prepared_ctv_fanout" where
  "prepare_ctv_fanout_precommitment X input =
     require (pci_block_height input \<le> 4294967295) ''block height must fit fanout lock_time''
     (require (pci_settlement_mode input \<noteq> DirectCoinbase)
        ''direct_coinbase mode cannot include a CTV fanout precommitment''
     (and_then (validate_chunk_identity (pci_chunk_index input) (pci_chunk_count input)) (\<lambda>_.
      and_then (validate_sha256_hex X (pci_reward_manifest_sha256_hex input) ''reward_manifest_sha256_hex'') (\<lambda>_.
      and_then (validate_sha256_hex X (pci_payout_policy_manifest_sha256_hex input) ''payout_policy_manifest_sha256_hex'') (\<lambda>_.
      and_then (canonical_fanout_outputs X (pci_payouts input)) (\<lambda>outputs.
      and_then (output_sum outputs) (\<lambda>fanout_output_sum_sats.
      and_then (output_fee_sum outputs) (\<lambda>fanout_fee_sats.
      and_then (ok_or (invalid_ctv_manifest ''fanout covenant value overflowed'')
          (checked_add fanout_output_sum_sats fanout_fee_sats)) (\<lambda>covenant_output_value_sats.
      and_then (expected_fanout_sequence (pci_chunk_index input)) (\<lambda>sequence.
      and_then (unsigned_fanout_tx_hex X (concat (replicate 32 ''00'')) 0 outputs (fanout_has_cpfp_anchor fanout_fee_sats)
          (ucast (pci_block_height input)) sequence) (\<lambda>fanout_tx_template_hex.
      and_then (default_ctv_hash_hex X fanout_tx_template_hex (unat QBIT_CTV_INPUT_INDEX)) (\<lambda>ctv_hash_hex.
      and_then (ctv_leaf_script_hex X ctv_hash_hex) (\<lambda>leaf_script_hex.
      and_then (p2mr_program_for_ctv_leaf_hex X leaf_script_hex) (\<lambda>p2mr_program_hex.
      and_then (decode_program_hex X p2mr_program_hex ''p2mr_program_hex'') (\<lambda>program.
      and_then (anchor_vout_for_fee (length outputs) fanout_fee_sats) (\<lambda>anchor_vout.
      let precommitment = \<lparr>pc_schema = CTV_FANOUT_PRECOMMITMENT_SCHEMA, pc_block_height = pci_block_height input,
            pc_chunk_index = pci_chunk_index input, pc_chunk_count = pci_chunk_count input,
            pc_coinbase_value_sats = pci_coinbase_value_sats input, pc_settlement_mode = pci_settlement_mode input,
            pc_covenant_output_value_sats = covenant_output_value_sats,
            pc_covenant_script_pubkey_hex = hex_encode X (p2mr_script_pubkey program),
            pc_fanout_tx_template_hex = fanout_tx_template_hex, pc_fanout_input_index = QBIT_CTV_INPUT_INDEX,
            pc_fanout_sequence = sequence, pc_fanout_lock_time = ucast (pci_block_height input),
            pc_fanout_output_sum_sats = fanout_output_sum_sats, pc_fanout_fee_sats = fanout_fee_sats,
            pc_anchor_vout = anchor_vout, pc_ctv_hash_hex = ctv_hash_hex, pc_ctv_leaf_script_hex = leaf_script_hex,
            pc_p2mr_program_hex = p2mr_program_hex, pc_p2mr_control_block_hex = hex_encode X [QBIT_P2MR_CONTROL_BLOCK],
            pc_reward_manifest_sha256_hex = to_ascii_lowercase (pci_reward_manifest_sha256_hex input),
            pc_payout_policy_manifest_sha256_hex = to_ascii_lowercase (pci_payout_policy_manifest_sha256_hex input),
            pc_outputs = outputs\<rparr> in
      and_then (verify_precommitment X precommitment) (\<lambda>_.
      and_then (canonical_precommitment_bytes X precommitment) (\<lambda>bytes.
      let precommitment_sha256_hex = ctv_sha256_hex X bytes in
      and_then (commitment_witness_leaf_hex X precommitment_sha256_hex) (\<lambda>leaf.
      Inr \<lparr>pf_precommitment = precommitment, pf_precommitment_sha256_hex = precommitment_sha256_hex,
           pf_commitment_witness_leaf_hex = leaf,
           pf_covenant_recipient_id = ''ctv-fanout-'' @ show_nat (unat (pc_chunk_index precommitment)),
           pf_covenant_order_key = ''ctv-fanout-'' @ show_08 (unat (pc_chunk_index precommitment)),
           pf_covenant_p2mr_program_hex = p2mr_program_hex,
           pf_covenant_output_value_sats = pc_covenant_output_value_sats precommitment\<rparr>)))))))))))))))))))"

section \<open>Manifests\<close>

text \<open>
  \<open>verify_ctv_fanout_manifest_structure\<close> in the four parts its checks fall into: the
  manifest's own fields, the parent coinbase, the fanout transaction and its covenant, the
  outputs. Each part returns what the next one needs.
\<close>

definition verify_manifest_fields :: "'x ctv_crates_scheme \<Rightarrow> ctv_fanout_manifest \<Rightarrow> prism_error + unit" where
  "verify_manifest_fields X manifest =
     require (cm_schema manifest = CTV_FANOUT_MANIFEST_SCHEMA) ''unexpected fanout manifest schema''
     (let precommitment = cm_precommitment manifest in
      and_then (verify_precommitment X precommitment) (\<lambda>_.
      and_then (validate_canonical_sha256_hex X (cm_precommitment_sha256_hex manifest) ''manifest precommitment_sha256_hex'') (\<lambda>_.
      and_then (validate_canonical_sha256_hex X (cm_commitment_witness_leaf_hex manifest) ''manifest commitment_witness_leaf_hex'') (\<lambda>_.
      and_then (validate_canonical_sha256_hex X (cm_parent_coinbase_txid manifest) ''manifest parent_coinbase_txid'') (\<lambda>_.
      and_then (validate_canonical_hex X (cm_parent_coinbase_tx_hex manifest) ''manifest parent_coinbase_tx_hex'') (\<lambda>_.
      and_then (validate_canonical_hex X (cm_covenant_script_pubkey_hex manifest) ''manifest covenant_script_pubkey_hex'') (\<lambda>_.
      and_then (validate_canonical_hex X (cm_fanout_tx_hex manifest) ''manifest fanout_tx_hex'') (\<lambda>_.
      and_then (validate_canonical_sha256_hex X (cm_fanout_txid manifest) ''manifest fanout_txid'') (\<lambda>_.
      require (pc_settlement_mode precommitment \<noteq> DirectCoinbase)
        ''direct_coinbase mode cannot include a CTV fanout manifest''
      (and_then (validate_chunk_identity (pc_chunk_index precommitment) (pc_chunk_count precommitment)) (\<lambda>_.
       and_then (canonical_precommitment_bytes X precommitment) (\<lambda>bytes.
       require (cm_precommitment_sha256_hex manifest = ctv_sha256_hex X bytes) ''fanout precommitment hash mismatch''
       (and_then (commitment_witness_leaf_hex X (cm_precommitment_sha256_hex manifest)) (\<lambda>leaf.
        require (cm_commitment_witness_leaf_hex manifest = leaf) ''fanout commitment witness leaf mismatch''
        (require (pc_fanout_input_index precommitment = QBIT_CTV_INPUT_INDEX) ''only fanout input index 0 is supported''
        (require (pc_block_height precommitment \<le> 4294967295) ''block height must fit fanout lock_time''
        (and_then (validate_sha256_hex X (pc_reward_manifest_sha256_hex precommitment) ''reward_manifest_sha256_hex'') (\<lambda>_.
         and_then (validate_sha256_hex X (pc_payout_policy_manifest_sha256_hex precommitment) ''payout_policy_manifest_sha256_hex'') (\<lambda>_.
         require (pc_p2mr_control_block_hex precommitment = hex_encode X [QBIT_P2MR_CONTROL_BLOCK])
           ''P2MR control block mismatch'' (Inr ()))))))))))))))))))))"

definition verify_manifest_parent :: "'x crates_scheme \<Rightarrow> ctv_fanout_manifest \<Rightarrow> prism_error + unit" where
  "verify_manifest_parent X manifest =
     (let precommitment = cm_precommitment manifest in
      and_then (parse_transaction_hex X (cm_parent_coinbase_tx_hex manifest) ''manifest parent_coinbase_tx_hex'') (\<lambda>parent.
      and_then (ensure_coinbase_shape parent) (\<lambda>_.
      require (txid_hex X parent = cm_parent_coinbase_txid manifest) ''parent coinbase txid mismatch''
      (and_then (ok_or (invalid_ctv_manifest ''parent coinbase vout is out of range'')
          (slice_get (pt_outputs parent) (unat (cm_parent_coinbase_vout manifest)))) (\<lambda>covenant_output.
       require (pto_amount_sats covenant_output = cm_covenant_output_value_sats manifest) ''covenant output value mismatch''
       (require (pto_amount_sats covenant_output = pc_covenant_output_value_sats precommitment)
         ''parent covenant value does not match precommitment''
       (require (hex_encode X (pto_script_pubkey covenant_output) = cm_covenant_script_pubkey_hex manifest)
         ''covenant scriptPubKey mismatch''
       (require (cm_covenant_script_pubkey_hex manifest = pc_covenant_script_pubkey_hex precommitment)
         ''parent covenant scriptPubKey does not match precommitment'' (Inr ())))))))))"

definition verify_manifest_fanout_input ::
    "'x crates_scheme \<Rightarrow> ctv_fanout_manifest \<Rightarrow> prism_error + (parsed_transaction \<times> parsed_transaction)" where
  "verify_manifest_fanout_input X manifest =
     (let precommitment = cm_precommitment manifest in
      and_then (parse_transaction_hex X (pc_fanout_tx_template_hex precommitment) ''manifest fanout_tx_template_hex'') (\<lambda>fanout_template.
      and_then (validate_fanout_template fanout_template) (\<lambda>_.
      and_then (parse_transaction_hex X (cm_fanout_tx_hex manifest) ''manifest fanout_tx_hex'') (\<lambda>fanout.
      require (txid_hex X fanout = cm_fanout_txid manifest) ''fanout txid mismatch''
      (require (length (pt_inputs fanout) = 1) ''CTV fanout transaction must spend exactly one input''
      (let fanout_input = pt_inputs fanout ! unat QBIT_CTV_INPUT_INDEX in
       require (pi_script_sig fanout_input = []) ''fanout input scriptSig must be empty''
       (require (pi_prev_txid_hex fanout_input = cm_parent_coinbase_txid manifest) ''fanout prevout txid mismatch''
       (require (pi_prev_vout fanout_input = cm_parent_coinbase_vout manifest) ''fanout prevout vout mismatch''
       (require (pi_sequence fanout_input = pc_fanout_sequence precommitment) ''fanout sequence mismatch''
       (and_then (expected_fanout_sequence (pc_chunk_index precommitment)) (\<lambda>sequence.
        require (pi_sequence fanout_input = sequence) ''fanout sequence must equal the chunk index''
        (require (pt_lock_time fanout = pc_fanout_lock_time precommitment) ''fanout lock_time mismatch''
        (require (pc_fanout_lock_time precommitment = ucast (pc_block_height precommitment))
          ''fanout lock_time must equal block height for unique CTV context''
        (Inr (fanout_template, fanout)))))))))))))))"

definition verify_manifest_covenant ::
    "'x crates_scheme \<Rightarrow> ctv_fanout_manifest \<Rightarrow> parsed_transaction \<Rightarrow> parsed_transaction \<Rightarrow> prism_error + unit" where
  "verify_manifest_covenant X manifest fanout_template fanout =
     (let precommitment = cm_precommitment manifest; index = unat (pc_fanout_input_index precommitment) in
      and_then (default_ctv_hash_for_parsed_tx X fanout_template index) (\<lambda>template_ctv_hash.
      require (hex_encode X template_ctv_hash = pc_ctv_hash_hex precommitment) ''precommitment CTV hash mismatch''
      (and_then (default_ctv_hash_for_parsed_tx X fanout index) (\<lambda>ctv_hash.
       require (ctv_hash = template_ctv_hash) ''CTV hash mismatch''
       (let leaf_script = ctv_leaf_script ctv_hash in
        require (hex_encode X leaf_script = pc_ctv_leaf_script_hex precommitment) ''CTV leaf script mismatch''
        (let p2mr_program = p2mr_tapleaf_hash X leaf_script in
         require (hex_encode X p2mr_program = pc_p2mr_program_hex precommitment) ''P2MR program mismatch''
         (require (hex_encode X (p2mr_script_pubkey p2mr_program) = cm_covenant_script_pubkey_hex manifest)
           ''covenant scriptPubKey does not match CTV leaf''
         (verify_fanout_witness fanout leaf_script))))))))"

definition manifest_output_step ::
    "'x crates_scheme \<Rightarrow> u64 \<times> u64 \<Rightarrow> nat \<times> parsed_tx_out \<times> ctv_fanout_output \<Rightarrow> prism_error + u64 \<times> u64" where
  "manifest_output_step X = (\<lambda>(fanout_output_sum_sats, fanout_fee_sats) (index, output, payout).
     and_then (ok_or (invalid_ctv_manifest ''fanout output sum overflowed'')
         (checked_add fanout_output_sum_sats (pto_amount_sats output))) (\<lambda>fanout_output_sum_sats.
     and_then (ok_or (invalid_ctv_manifest ''fanout fee sum overflowed'')
         (checked_add fanout_fee_sats (co_fee_sats payout))) (\<lambda>fanout_fee_sats.
     require (co_vout payout = of_nat index) (''fanout output '' @ show_nat index @ '' vout mismatch'')
     (require (pto_amount_sats output = co_amount_sats payout) (''fanout output '' @ show_nat index @ '' amount mismatch'')
     (and_then (decode_program_hex X (co_p2mr_program_hex payout) ''payout p2mr_program_hex'') (\<lambda>expected_program.
      let expected_script = p2mr_script_pubkey expected_program in
      require (pto_script_pubkey output = expected_script) (''fanout output '' @ show_nat index @ '' scriptPubKey mismatch'')
      (require (hex_encode X expected_script = co_script_pubkey_hex payout)
        (''fanout output '' @ show_nat index @ '' manifest scriptPubKey mismatch'')
      (Inr (fanout_output_sum_sats, fanout_fee_sats)))))))))"

definition verify_manifest_outputs ::
    "'x crates_scheme \<Rightarrow> ctv_fanout_manifest \<Rightarrow> parsed_transaction \<Rightarrow> prism_error + unit" where
  "verify_manifest_outputs X manifest fanout =
     (let precommitment = cm_precommitment manifest; payouts = pc_outputs precommitment;
          has_cpfp_anchor = pc_anchor_vout precommitment \<noteq> None in
      require (length (pt_outputs fanout) = (if has_cpfp_anchor then length payouts + 1 else length payouts))
        (if has_cpfp_anchor then ''fanout must have exactly the payouts plus one fee anchor output''
         else ''built-in-fee fanout must have exactly the payout outputs'')
      (and_then (try_fold (manifest_output_step X) (0, 0) (enumerate 0 (zip (pt_outputs fanout) payouts)))
        (\<lambda>(fanout_output_sum_sats, fanout_fee_sats).
       require (fanout_output_sum_sats = pc_fanout_output_sum_sats precommitment) ''fanout output sum mismatch''
       (require (fanout_fee_sats = pc_fanout_fee_sats precommitment) ''fanout fee sum mismatch''
       (and_then (case pc_anchor_vout precommitment of
            Some anchor_vout \<Rightarrow> ensure_fee_anchor_output X (pt_outputs fanout ! length payouts) anchor_vout (length payouts)
          | None \<Rightarrow> Inr ()) (\<lambda>_.
        and_then (ok_or (invalid_ctv_manifest ''fanout funded value overflowed'')
            (checked_add fanout_output_sum_sats fanout_fee_sats)) (\<lambda>funded_value_sats.
        require (funded_value_sats = cm_covenant_output_value_sats manifest)
          ''fanout payouts plus fee do not equal covenant output value'' (Inr ()))))))))"

definition verify_ctv_fanout_manifest_structure ::
    "'x ctv_crates_scheme \<Rightarrow> ctv_fanout_manifest \<Rightarrow> prism_error + unit" where
  "verify_ctv_fanout_manifest_structure X manifest =
     and_then (verify_manifest_fields X manifest) (\<lambda>_.
     and_then (verify_manifest_parent X manifest) (\<lambda>_.
     and_then (verify_manifest_fanout_input X manifest) (\<lambda>(fanout_template, fanout).
     and_then (verify_manifest_covenant X manifest fanout_template fanout) (\<lambda>_.
     verify_manifest_outputs X manifest fanout))))"

definition build_ctv_fanout_manifest ::
    "'x ctv_crates_scheme \<Rightarrow> ctv_fanout_manifest_input \<Rightarrow> prism_error + ctv_fanout_manifest" where
  "build_ctv_fanout_manifest X input =
     require (mi_block_height input \<le> 4294967295) ''block height must fit fanout lock_time''
     (require (mi_settlement_mode input \<noteq> DirectCoinbase) ''direct_coinbase mode cannot include a CTV fanout manifest''
     (and_then (validate_chunk_identity (mi_chunk_index input) (mi_chunk_count input)) (\<lambda>_.
      and_then (validate_sha256_hex X (mi_reward_manifest_sha256_hex input) ''reward_manifest_sha256_hex'') (\<lambda>_.
      and_then (validate_sha256_hex X (mi_payout_policy_manifest_sha256_hex input) ''payout_policy_manifest_sha256_hex'') (\<lambda>_.
      and_then (parse_transaction_hex X (mi_parent_coinbase_tx_hex input) ''parent_coinbase_tx_hex'') (\<lambda>parent.
      and_then (ensure_coinbase_shape parent) (\<lambda>_.
      and_then (parse_transaction_hex X (mi_fanout_tx_template_hex input) ''fanout_tx_template_hex'') (\<lambda>fanout_template.
      and_then (parse_transaction_hex X (mi_fanout_tx_hex input) ''fanout_tx_hex'') (\<lambda>fanout.
      and_then (validate_fanout_template fanout_template) (\<lambda>_.
      and_then (ok_or (invalid_ctv_manifest ''parent coinbase vout is out of range'')
          (slice_get (pt_outputs parent) (unat (mi_parent_coinbase_vout input)))) (\<lambda>covenant_output.
      and_then (default_ctv_hash_for_parsed_tx X fanout_template (unat QBIT_CTV_INPUT_INDEX)) (\<lambda>ctv_hash.
      and_then (default_ctv_hash_for_parsed_tx X fanout (unat QBIT_CTV_INPUT_INDEX)) (\<lambda>final_ctv_hash.
      require (final_ctv_hash = ctv_hash) ''fanout transaction does not match committed CTV template''
      (let leaf_script = ctv_leaf_script ctv_hash; p2mr_program = p2mr_tapleaf_hash X leaf_script;
           covenant_script_pubkey = p2mr_script_pubkey p2mr_program in
       and_then (ok_or (invalid_ctv_manifest ''fanout transaction must have input 0'')
           (slice_get (pt_inputs fanout) (unat QBIT_CTV_INPUT_INDEX))) (\<lambda>fanout_input.
       and_then (expected_fanout_sequence (mi_chunk_index input)) (\<lambda>expected_sequence.
       require (pi_sequence fanout_input = expected_sequence) ''fanout sequence must equal the chunk index''
       (and_then (canonical_fanout_outputs X (mi_payouts input)) (\<lambda>outputs.
        and_then (output_sum outputs) (\<lambda>fanout_output_sum_sats.
        and_then (output_fee_sum outputs) (\<lambda>fanout_fee_sats.
        and_then (anchor_vout_for_fee (length outputs) fanout_fee_sats) (\<lambda>anchor_vout.
        and_then (normalize_hex X (mi_fanout_tx_template_hex input)) (\<lambda>fanout_tx_template_hex.
        let precommitment = \<lparr>pc_schema = CTV_FANOUT_PRECOMMITMENT_SCHEMA, pc_block_height = mi_block_height input,
              pc_chunk_index = mi_chunk_index input, pc_chunk_count = mi_chunk_count input,
              pc_coinbase_value_sats = mi_coinbase_value_sats input, pc_settlement_mode = mi_settlement_mode input,
              pc_covenant_output_value_sats = pto_amount_sats covenant_output,
              pc_covenant_script_pubkey_hex = hex_encode X covenant_script_pubkey,
              pc_fanout_tx_template_hex = fanout_tx_template_hex, pc_fanout_input_index = QBIT_CTV_INPUT_INDEX,
              pc_fanout_sequence = pi_sequence fanout_input, pc_fanout_lock_time = pt_lock_time fanout,
              pc_fanout_output_sum_sats = fanout_output_sum_sats, pc_fanout_fee_sats = fanout_fee_sats,
              pc_anchor_vout = anchor_vout, pc_ctv_hash_hex = hex_encode X ctv_hash,
              pc_ctv_leaf_script_hex = hex_encode X leaf_script, pc_p2mr_program_hex = hex_encode X p2mr_program,
              pc_p2mr_control_block_hex = hex_encode X [QBIT_P2MR_CONTROL_BLOCK],
              pc_reward_manifest_sha256_hex = to_ascii_lowercase (mi_reward_manifest_sha256_hex input),
              pc_payout_policy_manifest_sha256_hex = to_ascii_lowercase (mi_payout_policy_manifest_sha256_hex input),
              pc_outputs = outputs\<rparr> in
        and_then (canonical_precommitment_bytes X precommitment) (\<lambda>bytes.
        let precommitment_sha256_hex = ctv_sha256_hex X bytes in
        and_then (commitment_witness_leaf_hex X precommitment_sha256_hex) (\<lambda>leaf.
        and_then (normalize_hex X (mi_parent_coinbase_tx_hex input)) (\<lambda>parent_coinbase_tx_hex.
        and_then (normalize_hex X (mi_fanout_tx_hex input)) (\<lambda>fanout_tx_hex.
        let manifest = \<lparr>cm_schema = CTV_FANOUT_MANIFEST_SCHEMA, cm_precommitment = precommitment,
              cm_precommitment_sha256_hex = precommitment_sha256_hex, cm_commitment_witness_leaf_hex = leaf,
              cm_parent_coinbase_txid = txid_hex X parent, cm_parent_coinbase_tx_hex = parent_coinbase_tx_hex,
              cm_parent_coinbase_vout = mi_parent_coinbase_vout input,
              cm_covenant_output_value_sats = pto_amount_sats covenant_output,
              cm_covenant_script_pubkey_hex = hex_encode X covenant_script_pubkey,
              cm_fanout_tx_hex = fanout_tx_hex, cm_fanout_txid = txid_hex X fanout\<rparr> in
        and_then (verify_ctv_fanout_manifest_structure X manifest) (\<lambda>_. Inr manifest)))))))))))))))))))))))))))"

definition payout_of_output :: "ctv_fanout_output \<Rightarrow> ctv_fanout_payout" where
  "payout_of_output output =
     \<lparr>cp_recipient_id = co_recipient_id output, cp_order_key = co_order_key output,
      cp_p2mr_program_hex = co_p2mr_program_hex output, cp_gross_amount_sats = co_gross_amount_sats output,
      cp_fee_sats = co_fee_sats output, cp_amount_sats = co_amount_sats output\<rparr>"

definition build_ctv_fanout_manifest_from_precommitment ::
    "'x ctv_crates_scheme \<Rightarrow> ctv_fanout_precommitment \<Rightarrow> string \<Rightarrow> u32 \<Rightarrow> prism_error + ctv_fanout_manifest" where
  "build_ctv_fanout_manifest_from_precommitment X precommitment parent_coinbase_tx_hex parent_coinbase_vout =
     and_then (verify_precommitment X precommitment) (\<lambda>_.
     and_then (parse_transaction_hex X parent_coinbase_tx_hex ''parent_coinbase_tx_hex'') (\<lambda>parent.
     and_then (ensure_coinbase_shape parent) (\<lambda>_.
     and_then (map_err (\<lambda>err. invalid_ctv_manifest (''ctv_leaf_script_hex must be hex: '' @ err))
         (hex_decode X (pc_ctv_leaf_script_hex precommitment))) (\<lambda>leaf_script.
     and_then (witnessed_fanout_tx_hex X (txid_hex X parent) parent_coinbase_vout (pc_outputs precommitment)
         (pc_anchor_vout precommitment \<noteq> None) (pc_fanout_lock_time precommitment) (pc_fanout_sequence precommitment)
         leaf_script) (\<lambda>tx_hex.
     build_ctv_fanout_manifest X
       \<lparr>mi_block_height = pc_block_height precommitment, mi_chunk_index = pc_chunk_index precommitment,
        mi_chunk_count = pc_chunk_count precommitment, mi_coinbase_value_sats = pc_coinbase_value_sats precommitment,
        mi_settlement_mode = pc_settlement_mode precommitment,
        mi_fanout_tx_template_hex = pc_fanout_tx_template_hex precommitment,
        mi_parent_coinbase_tx_hex = parent_coinbase_tx_hex, mi_parent_coinbase_vout = parent_coinbase_vout,
        mi_fanout_tx_hex = tx_hex,
        mi_reward_manifest_sha256_hex = pc_reward_manifest_sha256_hex precommitment,
        mi_payout_policy_manifest_sha256_hex = pc_payout_policy_manifest_sha256_hex precommitment,
        mi_payouts = map payout_of_output (pc_outputs precommitment)\<rparr>)))))"

definition verify_ctv_fanout_manifest_commitment_leaf ::
    "'x ctv_crates_scheme \<Rightarrow> ctv_fanout_manifest \<Rightarrow> string list \<Rightarrow> prism_error + unit" where
  "verify_ctv_fanout_manifest_commitment_leaf X manifest audit_commitment_leaves_hex =
     and_then (verify_ctv_fanout_manifest_structure X manifest) (\<lambda>_.
     let expected = to_ascii_lowercase (cm_commitment_witness_leaf_hex manifest) in
     require (list_ex (\<lambda>leaf. to_ascii_lowercase leaf = expected) audit_commitment_leaves_hex)
       ''fanout precommitment witness leaf is missing'' (Inr ()))"

section \<open>Manifest sets\<close>

record set_scan =
  ss_parent_vouts :: "u32 set"
  ss_ctv_hashes :: "string set"
  ss_fanout_txids :: "string set"
  ss_commitment_leaves :: "string set"
  ss_output_sum :: u64
  ss_fee_sum :: u64
  ss_covenant_sum :: u64

definition set_scan_start :: set_scan where
  "set_scan_start = \<lparr>ss_parent_vouts = {}, ss_ctv_hashes = {}, ss_fanout_txids = {}, ss_commitment_leaves = {},
     ss_output_sum = 0, ss_fee_sum = 0, ss_covenant_sum = 0\<rparr>"

text \<open>One manifest of the loop: its context, its identity, the running sums.\<close>

definition manifest_set_context ::
    "ctv_fanout_manifest_set \<Rightarrow> nat \<Rightarrow> ctv_fanout_manifest \<Rightarrow> prism_error + unit" where
  "manifest_set_context ms expected_index manifest =
     (let precommitment = cm_precommitment manifest in
      require (pc_chunk_index precommitment = of_nat expected_index)
        ''fanout manifest set chunks must be contiguous and canonical''
      (require (pc_chunk_count precommitment = cms_fanout_count ms) ''fanout chunk count mismatch''
      (require (pc_block_height precommitment = cms_block_height ms) ''fanout set block height mismatch''
      (require (pc_coinbase_value_sats precommitment = cms_coinbase_value_sats ms) ''fanout set coinbase value mismatch''
      (require (pc_settlement_mode precommitment = cms_settlement_mode ms) ''fanout set settlement mode mismatch''
      (require (pc_reward_manifest_sha256_hex precommitment = cms_reward_manifest_sha256_hex ms)
        ''fanout set reward manifest mismatch''
      (require (pc_payout_policy_manifest_sha256_hex precommitment = cms_payout_policy_manifest_sha256_hex ms)
        ''fanout set payout policy manifest mismatch''
      (require (cm_parent_coinbase_txid manifest = cms_parent_coinbase_txid ms) ''fanout set parent coinbase mismatch''
      (Inr ())))))))))"

definition manifest_set_step ::
    "'x ctv_crates_scheme \<Rightarrow> ctv_fanout_manifest_set \<Rightarrow> set_scan \<Rightarrow> nat \<times> ctv_fanout_manifest \<Rightarrow> prism_error + set_scan" where
  "manifest_set_step X ms scan = (\<lambda>(expected_index, manifest).
     and_then (verify_ctv_fanout_manifest_structure X manifest) (\<lambda>_.
     and_then (manifest_set_context ms expected_index manifest) (\<lambda>_.
     let precommitment = cm_precommitment manifest in
     require (cm_parent_coinbase_vout manifest \<notin> ss_parent_vouts scan) ''duplicate fanout parent coinbase vout''
     (require (pc_ctv_hash_hex precommitment \<notin> ss_ctv_hashes scan) ''duplicate fanout CTV hash''
     (require (cm_fanout_txid manifest \<notin> ss_fanout_txids scan) ''duplicate fanout txid''
     (require (cm_commitment_witness_leaf_hex manifest \<notin> ss_commitment_leaves scan)
       ''duplicate fanout commitment witness leaf''
     (and_then (ok_or (invalid_ctv_manifest ''fanout set output sum overflowed'')
         (checked_add (ss_output_sum scan) (pc_fanout_output_sum_sats precommitment))) (\<lambda>output_total.
      and_then (ok_or (invalid_ctv_manifest ''fanout set fee sum overflowed'')
         (checked_add (ss_fee_sum scan) (pc_fanout_fee_sats precommitment))) (\<lambda>fee_total.
      and_then (ok_or (invalid_ctv_manifest ''fanout set covenant value overflowed'')
         (checked_add (ss_covenant_sum scan) (cm_covenant_output_value_sats manifest))) (\<lambda>covenant_total.
      Inr \<lparr>ss_parent_vouts = insert (cm_parent_coinbase_vout manifest) (ss_parent_vouts scan),
           ss_ctv_hashes = insert (pc_ctv_hash_hex precommitment) (ss_ctv_hashes scan),
           ss_fanout_txids = insert (cm_fanout_txid manifest) (ss_fanout_txids scan),
           ss_commitment_leaves = insert (cm_commitment_witness_leaf_hex manifest) (ss_commitment_leaves scan),
           ss_output_sum = output_total, ss_fee_sum = fee_total, ss_covenant_sum = covenant_total\<rparr>))))))))))"

definition verify_ctv_fanout_manifest_set ::
    "'x ctv_crates_scheme \<Rightarrow> ctv_fanout_manifest_set \<Rightarrow> prism_error + unit" where
  "verify_ctv_fanout_manifest_set X ms =
     require (cms_schema ms = CTV_FANOUT_MANIFEST_SET_SCHEMA) ''unexpected fanout manifest set schema''
     (require (cms_manifests ms \<noteq> []) ''fanout manifest set is empty''
     (require (unat (cms_fanout_count ms) = length (cms_manifests ms)) ''fanout manifest set count mismatch''
     (require (cms_settlement_mode ms \<noteq> DirectCoinbase) ''direct_coinbase mode cannot include a CTV fanout manifest set''
     (and_then (validate_canonical_sha256_hex X (cms_reward_manifest_sha256_hex ms) ''fanout set reward_manifest_sha256_hex'') (\<lambda>_.
      and_then (validate_canonical_sha256_hex X (cms_payout_policy_manifest_sha256_hex ms)
          ''fanout set payout_policy_manifest_sha256_hex'') (\<lambda>_.
      and_then (validate_canonical_sha256_hex X (cms_parent_coinbase_txid ms) ''fanout set parent_coinbase_txid'') (\<lambda>_.
      and_then (try_fold (manifest_set_step X ms) set_scan_start (enumerate 0 (cms_manifests ms))) (\<lambda>scan.
      require (ss_output_sum scan = cms_fanout_output_sum_sats ms) ''fanout set output sum mismatch''
      (require (ss_fee_sum scan = cms_fanout_fee_sats ms) ''fanout set fee sum mismatch''
      (require (ss_covenant_sum scan = cms_covenant_output_value_sats ms) ''fanout set covenant value mismatch''
      (and_then (ok_or (invalid_ctv_manifest ''fanout set funded value overflowed'')
          (checked_add (ss_output_sum scan) (ss_fee_sum scan))) (\<lambda>funded_value_sats.
       require (funded_value_sats = ss_covenant_sum scan) ''fanout set payouts plus fee do not equal covenant value''
       (Inr ())))))))))))))"

definition compare_chunk_index :: "ctv_fanout_manifest \<Rightarrow> ctv_fanout_manifest \<Rightarrow> ordering" where
  "compare_chunk_index left right =
     cmp (pc_chunk_index (cm_precommitment left)) (pc_chunk_index (cm_precommitment right))"

definition build_ctv_fanout_manifest_set ::
    "'x ctv_crates_scheme \<Rightarrow> ctv_fanout_manifest list \<Rightarrow> prism_error + ctv_fanout_manifest_set" where
  "build_ctv_fanout_manifest_set X manifests =
     require (manifests \<noteq> []) ''fanout manifest set is empty''
     (let manifests = sort_by compare_chunk_index manifests; first = cm_precommitment (manifests ! 0) in
      and_then (checked_sum (invalid_ctv_manifest ''fanout set output sum overflowed'')
          (map (pc_fanout_output_sum_sats \<circ> cm_precommitment) manifests)) (\<lambda>fanout_output_sum_sats.
      and_then (checked_sum (invalid_ctv_manifest ''fanout set fee sum overflowed'')
          (map (pc_fanout_fee_sats \<circ> cm_precommitment) manifests)) (\<lambda>fanout_fee_sats.
      and_then (checked_sum (invalid_ctv_manifest ''fanout set covenant value overflowed'')
          (map cm_covenant_output_value_sats manifests)) (\<lambda>covenant_output_value_sats.
      and_then (ok_or (invalid_ctv_manifest ''fanout manifest count exceeds uint32'') (u32_try_from_usize (length manifests)))
        (\<lambda>fanout_count.
      let ms = \<lparr>cms_schema = CTV_FANOUT_MANIFEST_SET_SCHEMA, cms_block_height = pc_block_height first,
            cms_coinbase_value_sats = pc_coinbase_value_sats first, cms_settlement_mode = pc_settlement_mode first,
            cms_reward_manifest_sha256_hex = pc_reward_manifest_sha256_hex first,
            cms_payout_policy_manifest_sha256_hex = pc_payout_policy_manifest_sha256_hex first,
            cms_parent_coinbase_txid = cm_parent_coinbase_txid (manifests ! 0), cms_fanout_count = fanout_count,
            cms_fanout_output_sum_sats = fanout_output_sum_sats, cms_fanout_fee_sats = fanout_fee_sats,
            cms_covenant_output_value_sats = covenant_output_value_sats, cms_manifests = manifests\<rparr> in
      and_then (verify_ctv_fanout_manifest_set X ms) (\<lambda>_. Inr ms))))))"

definition canonical_ctv_fanout_manifest_set_bytes ::
    "'x ctv_crates_scheme \<Rightarrow> ctv_fanout_manifest_set \<Rightarrow> prism_error + u8 list" where
  "canonical_ctv_fanout_manifest_set_bytes X ms =
     and_then (verify_ctv_fanout_manifest_set X ms) (\<lambda>_. map_err PrismJson (manifest_set_json X ms))"

definition ctv_fanout_manifest_set_sha256_hex ::
    "'x ctv_crates_scheme \<Rightarrow> ctv_fanout_manifest_set \<Rightarrow> prism_error + string" where
  "ctv_fanout_manifest_set_sha256_hex X ms =
     and_then (canonical_ctv_fanout_manifest_set_bytes X ms) (\<lambda>bytes. Inr (ctv_sha256_hex X bytes))"

end
