(* ===== verification/Ctv_Soundness.thy ===== *)
theory Ctv_Soundness
  imports Ctv
begin

text \<open>
  What a verified fanout manifest guarantees: it is read off the checks of
  \<open>verify_precommitment\<close> and \<open>verify_ctv_fanout_manifest_structure\<close>, whose loops become sums
  and pointwise facts here.
\<close>

named_theorems ctv_checks

lemma require_Inr [ctv_checks]: "require c reason rest = Inr x \<longleftrightarrow> c \<and> rest = Inr x"
  by simp

lemma decode_program_Inr [ctv_checks]:
  "decode_program_hex X v field = Inr bytes \<longleftrightarrow> hex_decode X v = Inr bytes \<and> length bytes = P2MR_PROGRAM_LEN"
  by (auto simp: decode_program_hex_def result_simps split: if_splits)

lemma decode_hash_Inr [ctv_checks]:
  "decode_hash_hex X v field = Inr bytes \<longleftrightarrow> hex_decode X v = Inr bytes \<and> length bytes = 32"
  by (auto simp: decode_hash_hex_def result_simps split: if_splits)

lemma canonical_program_Inr [ctv_checks]:
  "canonical_p2mr_program_hex X v field = Inr s \<longleftrightarrow>
     (\<exists>bytes. hex_decode X v = Inr bytes \<and> length bytes = P2MR_PROGRAM_LEN \<and> s = hex_encode X bytes)"
  by (auto simp: canonical_p2mr_program_hex_def result_simps ctv_checks)

lemma canonical_hex_Inr [ctv_checks]:
  "validate_canonical_hex X v field = Inr u \<longleftrightarrow> (\<exists>bytes. hex_decode X v = Inr bytes \<and> v = hex_encode X bytes)"
  by (auto simp: validate_canonical_hex_def result_simps)

lemma canonical_sha256_Inr [ctv_checks]:
  "validate_canonical_sha256_hex X v field = Inr u \<longleftrightarrow>
     (\<exists>bytes. hex_decode X v = Inr bytes \<and> length bytes = 32 \<and> v = hex_encode X bytes)"
  by (auto simp: validate_canonical_sha256_hex_def result_simps ctv_checks)

lemma sha256_hex_Inr [ctv_checks]:
  "validate_sha256_hex X v field = Inr u \<longleftrightarrow> (\<exists>bytes. hex_decode X v = Inr bytes \<and> length bytes = 32)"
  by (auto simp: validate_sha256_hex_def result_simps ctv_checks)

lemma chunk_identity_Inr [ctv_checks]:
  "validate_chunk_identity index chunk_count = Inr u \<longleftrightarrow> chunk_count \<noteq> 0 \<and> index < chunk_count"
  by (simp add: validate_chunk_identity_def)

lemma expected_sequence_Inr [ctv_checks]:
  "expected_fanout_sequence index = Inr sequence \<longleftrightarrow> checked_add CTV_FANOUT_SEQUENCE_BASE index = Some sequence"
  by (simp add: expected_fanout_sequence_def result_simps)

section \<open>Outputs\<close>

definition fanout_key_of :: "ctv_fanout_output \<Rightarrow> fanout_key" where
  "fanout_key_of out = (co_order_key out, co_recipient_id out, co_p2mr_program_hex out)"

text \<open>An output of a precommitment pays the P2MR program its hex field names.\<close>

definition pays_program :: "'x crates_scheme \<Rightarrow> ctv_fanout_output \<Rightarrow> u8 list \<Rightarrow> bool" where
  "pays_program X out script \<longleftrightarrow>
     (\<exists>program. hex_decode X (co_p2mr_program_hex out) = Inr program \<and> length program = P2MR_PROGRAM_LEN \<and>
        co_p2mr_program_hex out = hex_encode X program \<and> script = p2mr_script_pubkey program \<and>
        co_script_pubkey_hex out = hex_encode X script)"

definition outputs_sum :: "ctv_fanout_output list \<Rightarrow> nat" where
  "outputs_sum outs = sum_list (map (unat \<circ> co_amount_sats) outs)"

definition fees_sum :: "ctv_fanout_output list \<Rightarrow> nat" where
  "fees_sum outs = sum_list (map (unat \<circ> co_fee_sats) outs)"

lemma sums_simps [simp]:
  "outputs_sum [] = 0" "fees_sum [] = 0"
  "outputs_sum (out # outs) = unat (co_amount_sats out) + outputs_sum outs"
  "fees_sum (out # outs) = unat (co_fee_sats out) + fees_sum outs"
  by (simp_all add: outputs_sum_def fees_sum_def)

lemma precommitment_stepD:
  assumes "precommitment_output_step X ((s, f), seen) (k, out) = Inr st"
  shows "co_vout out = of_nat k \<and> co_amount_sats out \<noteq> 0 \<and> (\<exists>script. pays_program X out script) \<and>
    fanout_key_of out \<notin> seen \<and>
    (\<exists>s' f'. st = ((s', f'), insert (fanout_key_of out) seen) \<and>
      unat s' = unat s + unat (co_amount_sats out) \<and> unat f' = unat f + unat (co_fee_sats out))"
  using assms
  by (auto simp: precommitment_output_step_def Let_def result_simps ctv_checks checked_simps fanout_key_of_def
      pays_program_def split: if_splits)

lemma precommitment_foldD:
  assumes "try_fold (precommitment_output_step X) ((s, f), seen) (enumerate k outs) = Inr ((s', f'), seen')"
  shows "unat s' = unat s + outputs_sum outs \<and> unat f' = unat f + fees_sum outs \<and>
    distinct (map fanout_key_of outs) \<and> set (map fanout_key_of outs) \<inter> seen = {} \<and>
    (\<forall>i < length outs. co_vout (outs ! i) = of_nat (k + i) \<and> co_amount_sats (outs ! i) \<noteq> 0 \<and>
      (\<exists>script. pays_program X (outs ! i) script))"
  using assms
proof (induction outs arbitrary: s f seen k)
  case Nil
  then show ?case by simp
next
  case (Cons out outs)
  from Cons.prems obtain st where step: "precommitment_output_step X ((s, f), seen) (k, out) = Inr st"
    and rest: "try_fold (precommitment_output_step X) st (enumerate (Suc k) outs) = Inr ((s', f'), seen')"
    by (auto simp: result_simps)
  from precommitment_stepD [OF step] obtain s1 f1 where st: "st = ((s1, f1), insert (fanout_key_of out) seen)"
    and sums: "unat s1 = unat s + unat (co_amount_sats out)" "unat f1 = unat f + unat (co_fee_sats out)"
    and this_out: "co_vout out = of_nat k" "co_amount_sats out \<noteq> 0" "\<exists>script. pays_program X out script"
      "fanout_key_of out \<notin> seen"
    by blast
  note ih = Cons.IH [OF rest [unfolded st]]
  show ?case
    using ih sums this_out by (auto simp: nth_Cons' All_less_Suc2)
qed


lemma manifest_stepD:
  assumes "manifest_output_step X (s, f) (k, out, payout) = Inr st"
  shows "pto_amount_sats out = co_amount_sats payout \<and>
    (\<exists>program. hex_decode X (co_p2mr_program_hex payout) = Inr program \<and>
      pto_script_pubkey out = p2mr_script_pubkey program) \<and>
    (\<exists>s' f'. st = (s', f') \<and> unat s' = unat s + unat (pto_amount_sats out) \<and> unat f' = unat f + unat (co_fee_sats payout))"
  using assms
  by (auto simp: manifest_output_step_def Let_def result_simps ctv_checks checked_simps split: if_splits)

lemma manifest_foldD:
  assumes "try_fold (manifest_output_step X) (s, f) (enumerate k (zip outs payouts)) = Inr (s', f')"
    and "length payouts \<le> length outs"
  shows "unat s' = unat s + outputs_sum payouts \<and> unat f' = unat f + fees_sum payouts \<and>
    (\<forall>i < length payouts. pto_amount_sats (outs ! i) = co_amount_sats (payouts ! i) \<and>
      (\<exists>program. hex_decode X (co_p2mr_program_hex (payouts ! i)) = Inr program \<and>
        pto_script_pubkey (outs ! i) = p2mr_script_pubkey program))"
  using assms
proof (induction payouts arbitrary: outs s f k)
  case Nil
  then show ?case by simp
next
  case (Cons payout payouts)
  then obtain out outs' where outs: "outs = out # outs'" and len: "length payouts \<le> length outs'"
    by (cases outs) auto
  from Cons.prems(1) obtain st where step: "manifest_output_step X (s, f) (k, out, payout) = Inr st"
    and rest: "try_fold (manifest_output_step X) st (enumerate (Suc k) (zip outs' payouts)) = Inr (s', f')"
    by (auto simp: result_simps outs)
  from manifest_stepD [OF step] obtain s1 f1 where st: "st = (s1, f1)"
    and sums: "unat s1 = unat s + unat (co_amount_sats payout)" "unat f1 = unat f + unat (co_fee_sats payout)"
    and this_out: "pto_amount_sats out = co_amount_sats payout"
      "\<exists>program. hex_decode X (co_p2mr_program_hex payout) = Inr program \<and> pto_script_pubkey out = p2mr_script_pubkey program"
    by auto
  note ih = Cons.IH [OF rest [unfolded st] len]
  show ?case
    using ih sums this_out by (auto simp: outs All_less_Suc2)
qed

lemma anchor_choice_Inr:
  "verify_anchor_choice pc = Inr u \<longleftrightarrow>
     (if pc_fanout_fee_sats pc = 0 then \<exists>vout. pc_anchor_vout pc = Some vout \<and> unat vout = length (pc_outputs pc)
      else pc_anchor_vout pc = None)"
  by (auto simp: verify_anchor_choice_def split: option.splits if_splits)

section \<open>What the checks establish\<close>

definition spends_outpoint :: "'x crates_scheme \<Rightarrow> parsed_transaction \<Rightarrow> u32 \<Rightarrow> parsed_transaction \<Rightarrow> bool" where
  "spends_outpoint X parent vout tx \<longleftrightarrow>
     (\<exists>input. pt_inputs tx = [input] \<and> pi_prev_txid_hex input = txid_hex X parent \<and>
        pi_prev_vout input = vout \<and> pi_script_sig input = [])"

definition covenant_binds :: "'x crates_scheme \<Rightarrow> parsed_tx_out \<Rightarrow> parsed_transaction \<Rightarrow> bool" where
  "covenant_binds X covenant tx \<longleftrightarrow>
     (\<exists>hash stacks. default_ctv_hash_for_parsed_tx X tx 0 = Inr hash \<and>
        pto_script_pubkey covenant = p2mr_script_pubkey (p2mr_tapleaf_hash X (ctv_leaf_script hash)) \<and>
        pt_witness_stacks tx = Some stacks \<and> stacks \<noteq> [] \<and>
        stacks ! 0 = [ctv_leaf_script hash, [QBIT_P2MR_CONTROL_BLOCK]])"

definition pays_outputs :: "'x crates_scheme \<Rightarrow> ctv_fanout_precommitment \<Rightarrow> parsed_transaction \<Rightarrow> bool" where
  "pays_outputs X pc tx \<longleftrightarrow>
     distinct (map fanout_key_of (pc_outputs pc)) \<and>
     (\<exists>outs anchor. pt_outputs tx = outs @ anchor \<and> length outs = length (pc_outputs pc) \<and>
        (\<forall>i < length outs. pto_amount_sats (outs ! i) = co_amount_sats (pc_outputs pc ! i) \<and>
           co_amount_sats (pc_outputs pc ! i) \<noteq> 0 \<and>
           pays_program X (pc_outputs pc ! i) (pto_script_pubkey (outs ! i))) \<and>
        (if pc_fanout_fee_sats pc = 0
         then \<exists>script. hex_decode X P2A_ANCHOR_SCRIPT_PUBKEY_HEX = Inr script \<and>
                anchor = [\<lparr>pto_amount_sats = 0, pto_script_pubkey = script\<rparr>]
         else anchor = []))"

definition tx_value :: "parsed_transaction \<Rightarrow> nat" where
  "tx_value tx = sum_list (map (unat \<circ> pto_amount_sats) (pt_outputs tx))"

lemma tx_value_pays:
  assumes "pays_outputs X pc tx"
  shows "tx_value tx = outputs_sum (pc_outputs pc)"
proof -
  from assms [unfolded pays_outputs_def] obtain outs anchor where
    outs: "pt_outputs tx = outs @ anchor" "length outs = length (pc_outputs pc)"
      "\<forall>i < length outs. pto_amount_sats (outs ! i) = co_amount_sats (pc_outputs pc ! i)"
    and a: "if pc_fanout_fee_sats pc = 0
         then \<exists>script. hex_decode X P2A_ANCHOR_SCRIPT_PUBKEY_HEX = Inr script \<and>
                anchor = [\<lparr>pto_amount_sats = 0, pto_script_pubkey = script\<rparr>]
         else anchor = []"
    by blast
  from a have anchor: "sum_list (map (unat \<circ> pto_amount_sats) anchor) = 0"
    by (auto split: if_splits)
  have "map (unat \<circ> pto_amount_sats) outs = map (unat \<circ> co_amount_sats) (pc_outputs pc)"
    using outs by (intro nth_equalityI) auto
  then show ?thesis
    using outs(1) anchor by (simp add: tx_value_def outputs_sum_def)
qed

lemma verify_precommitmentD:
  assumes "verify_precommitment X pc = Inr u"
  shows "pc_fanout_lock_time pc = ucast (pc_block_height pc)"
    and "checked_add CTV_FANOUT_SEQUENCE_BASE (pc_chunk_index pc) = Some (pc_fanout_sequence pc)"
    and "unat (pc_fanout_output_sum_sats pc) = outputs_sum (pc_outputs pc)"
    and "unat (pc_fanout_fee_sats pc) = fees_sum (pc_outputs pc)"
    and "unat (pc_covenant_output_value_sats pc) = outputs_sum (pc_outputs pc) + fees_sum (pc_outputs pc)"
    and "distinct (map fanout_key_of (pc_outputs pc))"
    and "\<And>i. i < length (pc_outputs pc) \<Longrightarrow> co_amount_sats (pc_outputs pc ! i) \<noteq> 0"
    and "\<And>i. i < length (pc_outputs pc) \<Longrightarrow> \<exists>script. pays_program X (pc_outputs pc ! i) script"
    and "verify_anchor_choice pc = Inr ()"
    and "verify_precommitment_hex X pc = Inr ()"
    and "pc_outputs pc \<noteq> []"
    and "\<And>i. i < length (pc_outputs pc) \<Longrightarrow> co_vout (pc_outputs pc ! i) = of_nat i"
proof -
  from assms obtain s f seen v where fold: "try_fold (precommitment_output_step X) ((0, 0), {}) (enumerate 0 (pc_outputs pc)) = Inr ((s, f), seen)"
    and facts: "s = pc_fanout_output_sum_sats pc" "f = pc_fanout_fee_sats pc" "checked_add s f = Some v"
      "v = pc_covenant_output_value_sats pc" "verify_anchor_choice pc = Inr ()"
      "pc_fanout_lock_time pc = ucast (pc_block_height pc)" "verify_precommitment_hex X pc = Inr ()"
      "checked_add CTV_FANOUT_SEQUENCE_BASE (pc_chunk_index pc) = Some (pc_fanout_sequence pc)" "pc_outputs pc \<noteq> []"
    unfolding verify_precommitment_def and_then_Inr require_Inr ok_or_Inr expected_sequence_Inr
    by (auto simp: and_then_Inr ok_or_Inr split: prod.splits if_splits)
  from precommitment_foldD [OF fold] have sums: "unat s = outputs_sum (pc_outputs pc)" "unat f = fees_sum (pc_outputs pc)"
    and d: "distinct (map fanout_key_of (pc_outputs pc))"
    and each: "\<And>i. i < length (pc_outputs pc) \<Longrightarrow> co_vout (pc_outputs pc ! i) = of_nat i \<and>
      co_amount_sats (pc_outputs pc ! i) \<noteq> 0 \<and> (\<exists>script. pays_program X (pc_outputs pc ! i) script)"
    by auto
  show "unat (pc_covenant_output_value_sats pc) = outputs_sum (pc_outputs pc) + fees_sum (pc_outputs pc)"
    using sums facts(3,4) by (auto simp: checked_simps)
  show "pc_fanout_lock_time pc = ucast (pc_block_height pc)"
    "checked_add CTV_FANOUT_SEQUENCE_BASE (pc_chunk_index pc) = Some (pc_fanout_sequence pc)"
    "verify_anchor_choice pc = Inr ()" "verify_precommitment_hex X pc = Inr ()" "pc_outputs pc \<noteq> []"
    "unat (pc_fanout_output_sum_sats pc) = outputs_sum (pc_outputs pc)" "unat (pc_fanout_fee_sats pc) = fees_sum (pc_outputs pc)"
    using facts sums by auto
  show "distinct (map fanout_key_of (pc_outputs pc))"
    by (rule d)
  show "\<And>i. i < length (pc_outputs pc) \<Longrightarrow> co_amount_sats (pc_outputs pc ! i) \<noteq> 0"
    "\<And>i. i < length (pc_outputs pc) \<Longrightarrow> \<exists>script. pays_program X (pc_outputs pc ! i) script"
    "\<And>i. i < length (pc_outputs pc) \<Longrightarrow> co_vout (pc_outputs pc ! i) = of_nat i"
    using each by auto
qed

lemma coinbase_shape_Inr [ctv_checks]:
  "ensure_coinbase_shape tx = Inr u \<longleftrightarrow>
     (\<exists>input. pt_inputs tx = [input] \<and> pi_prev_txid_hex input = concat (replicate 32 ''00'') \<and>
        pi_prev_vout input = COINBASE_PREVOUT_VOUT)"
  by (cases "pt_inputs tx") (auto simp: ensure_coinbase_shape_def Let_def)

lemma slice_get_Some [ctv_checks]: "slice_get xs i = Some x \<longleftrightarrow> i < length xs \<and> x = xs ! i"
  by (auto simp: slice_get_def)

lemma fanout_template_Inr [ctv_checks]:
  "validate_fanout_template tx = Inr u \<longleftrightarrow>
     pt_version tx = CTV_FANOUT_TX_VERSION \<and> pt_witness_stacks tx = None \<and>
     (\<exists>input. pt_inputs tx = [input] \<and> pi_script_sig input = [])"
  by (cases "pt_inputs tx") (auto simp: validate_fanout_template_def QBIT_CTV_INPUT_INDEX_def)

lemma two_elements: "length xs = 2 \<and> xs ! 0 = a \<and> xs ! 1 = b \<longleftrightarrow> xs = [a, b]"
  by (auto simp: numeral_2_eq_2 length_Suc_conv)

lemma fanout_witness_Inr [ctv_checks]:
  "verify_fanout_witness tx leaf_script = Inr u \<longleftrightarrow>
     (\<exists>stacks. pt_witness_stacks tx = Some stacks \<and> stacks \<noteq> [] \<and>
        stacks ! 0 = [leaf_script, [QBIT_P2MR_CONTROL_BLOCK]])"
  unfolding verify_fanout_witness_def and_then_Inr require_Inr ok_or_Inr slice_get_Some two_elements [symmetric]
  by (auto simp: QBIT_CTV_INPUT_INDEX_def)

lemma verify_manifest_parentD:
  assumes "verify_manifest_parent X m = Inr u"
  shows "\<exists>parent input. parse_transaction_hex X (cm_parent_coinbase_tx_hex m) ''manifest parent_coinbase_tx_hex'' = Inr parent \<and>
    pt_inputs parent = [input] \<and> pi_prev_txid_hex input = concat (replicate 32 ''00'') \<and>
    pi_prev_vout input = COINBASE_PREVOUT_VOUT \<and> txid_hex X parent = cm_parent_coinbase_txid m \<and>
    unat (cm_parent_coinbase_vout m) < length (pt_outputs parent) \<and>
    (let covenant = pt_outputs parent ! unat (cm_parent_coinbase_vout m) in
      pto_amount_sats covenant = cm_covenant_output_value_sats m \<and>
      pto_amount_sats covenant = pc_covenant_output_value_sats (cm_precommitment m) \<and>
      hex_encode X (pto_script_pubkey covenant) = cm_covenant_script_pubkey_hex m)"
  using assms unfolding verify_manifest_parent_def Let_def and_then_Inr require_Inr ok_or_Inr ctv_checks
  by blast

lemma verify_manifest_fanout_inputD:
  assumes "verify_manifest_fanout_input X m = Inr (template, fanout)"
  shows "parse_transaction_hex X (cm_fanout_tx_hex m) ''manifest fanout_tx_hex'' = Inr fanout \<and>
    txid_hex X fanout = cm_fanout_txid m \<and>
    (\<exists>input. pt_inputs fanout = [input] \<and> pi_script_sig input = [] \<and>
      pi_prev_txid_hex input = cm_parent_coinbase_txid m \<and> pi_prev_vout input = cm_parent_coinbase_vout m \<and>
      pi_sequence input = pc_fanout_sequence (cm_precommitment m)) \<and>
    pt_lock_time fanout = pc_fanout_lock_time (cm_precommitment m)"
proof -
  from assms have facts: "parse_transaction_hex X (cm_fanout_tx_hex m) ''manifest fanout_tx_hex'' = Inr fanout"
    "txid_hex X fanout = cm_fanout_txid m" "length (pt_inputs fanout) = 1"
    "pi_script_sig (pt_inputs fanout ! 0) = []" "pi_prev_txid_hex (pt_inputs fanout ! 0) = cm_parent_coinbase_txid m"
    "pi_prev_vout (pt_inputs fanout ! 0) = cm_parent_coinbase_vout m"
    "pi_sequence (pt_inputs fanout ! 0) = pc_fanout_sequence (cm_precommitment m)"
    "pt_lock_time fanout = pc_fanout_lock_time (cm_precommitment m)"
    unfolding verify_manifest_fanout_input_def Let_def and_then_Inr require_Inr
    by (auto simp: QBIT_CTV_INPUT_INDEX_def)
  then show ?thesis
    by (cases "pt_inputs fanout") auto
qed

lemma verify_manifest_covenantD:
  assumes "verify_manifest_covenant X m template fanout = Inr u"
  shows "\<exists>hash stacks. default_ctv_hash_for_parsed_tx X fanout (unat (pc_fanout_input_index (cm_precommitment m))) = Inr hash \<and>
    hex_encode X (p2mr_script_pubkey (p2mr_tapleaf_hash X (ctv_leaf_script hash))) = cm_covenant_script_pubkey_hex m \<and>
    pt_witness_stacks fanout = Some stacks \<and> stacks \<noteq> [] \<and> stacks ! 0 = [ctv_leaf_script hash, [QBIT_P2MR_CONTROL_BLOCK]]"
  using assms unfolding verify_manifest_covenant_def Let_def and_then_Inr require_Inr fanout_witness_Inr
  by blast

lemma verify_manifest_fieldsD:
  assumes "verify_manifest_fields X m = Inr u"
  shows "verify_precommitment X (cm_precommitment m) = Inr ()"
    and "pc_fanout_input_index (cm_precommitment m) = QBIT_CTV_INPUT_INDEX"
    and "pc_block_height (cm_precommitment m) \<le> 4294967295"
    and "\<exists>bytes. precommitment_json X (cm_precommitment m) = Inr bytes \<and>
      cm_precommitment_sha256_hex m = ctv_sha256_hex X bytes"
    and "commitment_witness_leaf_hex X (cm_precommitment_sha256_hex m) = Inr (cm_commitment_witness_leaf_hex m)"
  using assms unfolding verify_manifest_fields_def Let_def and_then_Inr require_Inr canonical_precommitment_bytes_def map_err_Inr
  by (simp_all, blast+)

lemma fee_anchorD:
  assumes "ensure_fee_anchor_output X out vout i = Inr u"
  obtains script where "hex_decode X P2A_ANCHOR_SCRIPT_PUBKEY_HEX = Inr script"
    "pto_amount_sats out = 0" "pto_script_pubkey out = script"
  using assms unfolding ensure_fee_anchor_output_def and_then_Inr require_Inr p2a_anchor_script_pubkey_def map_err_Inr
    CTV_FANOUT_ANCHOR_VALUE_SATS_def by (elim exE conjE)

lemma verified_outputs:
  assumes hex: "hex_spec X" and pre: "verify_precommitment X (cm_precommitment m) = Inr ()"
    and out: "verify_manifest_outputs X m fanout = Inr u"
  shows "pays_outputs X (cm_precommitment m) fanout \<and>
    unat (cm_covenant_output_value_sats m) = outputs_sum (pc_outputs (cm_precommitment m)) + fees_sum (pc_outputs (cm_precommitment m))"
proof -
  let ?pc = "cm_precommitment m"
  let ?payouts = "pc_outputs ?pc"
  note pre = verify_precommitmentD [OF pre]
  from out obtain s f v where len: "length (pt_outputs fanout) =
      (if pc_anchor_vout ?pc \<noteq> None then length ?payouts + 1 else length ?payouts)"
    and fold: "try_fold (manifest_output_step X) (0, 0) (enumerate 0 (zip (pt_outputs fanout) ?payouts)) = Inr (s, f)"
    and anchor: "(case pc_anchor_vout ?pc of
        Some vout \<Rightarrow> ensure_fee_anchor_output X (pt_outputs fanout ! length ?payouts) vout (length ?payouts)
      | None \<Rightarrow> Inr ()) = Inr ()"
    and sum: "checked_add s f = Some v" "v = cm_covenant_output_value_sats m"
    unfolding verify_manifest_outputs_def Let_def and_then_Inr require_Inr ok_or_Inr by (auto split: prod.splits if_splits simp: result_simps)
  have le: "length ?payouts \<le> length (pt_outputs fanout)"
    using len by (auto split: if_splits)
  from manifest_foldD [OF fold le] have sums: "unat s = outputs_sum ?payouts" "unat f = fees_sum ?payouts"
    and each: "\<And>i. i < length ?payouts \<Longrightarrow> pto_amount_sats (pt_outputs fanout ! i) = co_amount_sats (?payouts ! i) \<and>
      (\<exists>program. hex_decode X (co_p2mr_program_hex (?payouts ! i)) = Inr program \<and>
        pto_script_pubkey (pt_outputs fanout ! i) = p2mr_script_pubkey program)"
    by auto
  let ?outs = "take (length ?payouts) (pt_outputs fanout)" and ?anchor = "drop (length ?payouts) (pt_outputs fanout)"
  have paid: "pto_amount_sats (?outs ! i) = co_amount_sats (?payouts ! i) \<and> co_amount_sats (?payouts ! i) \<noteq> 0 \<and>
      pays_program X (?payouts ! i) (pto_script_pubkey (?outs ! i))" if i: "i < length ?outs" for i
  proof -
    from pre(8) i obtain script where "pays_program X (?payouts ! i) script"
      by auto
    then show ?thesis
      using each [of i] pre(7) [of i] i by (auto simp: pays_program_def)
  qed
  have "if pc_fanout_fee_sats ?pc = 0
      then \<exists>script. hex_decode X P2A_ANCHOR_SCRIPT_PUBKEY_HEX = Inr script \<and>
        ?anchor = [\<lparr>pto_amount_sats = 0, pto_script_pubkey = script\<rparr>]
      else ?anchor = []"
  proof (cases "pc_fanout_fee_sats ?pc = 0")
    case True
    with pre(9) [unfolded anchor_choice_Inr] obtain vout where v: "pc_anchor_vout ?pc = Some vout"
      by auto
    let ?last = "pt_outputs fanout ! length ?payouts"
    from anchor [unfolded v option.case] obtain script where "hex_decode X P2A_ANCHOR_SCRIPT_PUBKEY_HEX = Inr script"
      "pto_amount_sats ?last = 0" "pto_script_pubkey ?last = script"
      by (rule fee_anchorD)
    then have "hex_decode X P2A_ANCHOR_SCRIPT_PUBKEY_HEX = Inr script"
      "?last = \<lparr>pto_amount_sats = 0, pto_script_pubkey = script\<rparr>"
      by simp_all
    moreover have "?anchor = [?last]"
      using len v by (intro nth_equalityI) (auto simp: less_Suc_eq)
    ultimately show ?thesis
      using True by simp
  next
    case False
    then show ?thesis
      using pre(9) [unfolded anchor_choice_Inr] len by simp
  qed
  then have "pays_outputs X ?pc fanout"
    unfolding pays_outputs_def using pre(6) paid le
    by (intro conjI exI [of _ ?outs] exI [of _ ?anchor]) simp_all
  then show ?thesis
    using sums sum by (auto simp: checked_simps)
qed

lemma manifest_sound:
  assumes hex: "hex_spec X" and ok: "verify_ctv_fanout_manifest_structure X m = Inr u"
  shows "\<exists>parent input fanout covenant.
    parse_transaction_hex X (cm_parent_coinbase_tx_hex m) ''manifest parent_coinbase_tx_hex'' = Inr parent \<and>
    pt_inputs parent = [input] \<and> pi_prev_txid_hex input = concat (replicate 32 ''00'') \<and>
    pi_prev_vout input = COINBASE_PREVOUT_VOUT \<and>
    parse_transaction_hex X (cm_fanout_tx_hex m) ''manifest fanout_tx_hex'' = Inr fanout \<and>
    spends_outpoint X parent (cm_parent_coinbase_vout m) fanout \<and>
    slice_get (pt_outputs parent) (unat (cm_parent_coinbase_vout m)) = Some covenant \<and>
    covenant_binds X covenant fanout \<and> pays_outputs X (cm_precommitment m) fanout \<and>
    pto_amount_sats covenant = cm_covenant_output_value_sats m \<and>
    unat (cm_covenant_output_value_sats m) = tx_value fanout + fees_sum (pc_outputs (cm_precommitment m)) \<and>
    pt_lock_time fanout = ucast (pc_block_height (cm_precommitment m)) \<and>
    txid_hex X parent = cm_parent_coinbase_txid m \<and> txid_hex X fanout = cm_fanout_txid m"
proof -
  let ?pc = "cm_precommitment m"
  from ok obtain template fanout where fields: "verify_manifest_fields X m = Inr ()"
    and parent: "verify_manifest_parent X m = Inr ()"
    and fin: "verify_manifest_fanout_input X m = Inr (template, fanout)"
    and cov: "verify_manifest_covenant X m template fanout = Inr ()"
    and out: "verify_manifest_outputs X m fanout = Inr u"
    by (auto simp: verify_ctv_fanout_manifest_structure_def result_simps)
  note fields = verify_manifest_fieldsD [OF fields]
  note pre = verify_precommitmentD [OF fields(1)]
  from verify_manifest_parentD [OF parent] obtain p input where
    p: "parse_transaction_hex X (cm_parent_coinbase_tx_hex m) ''manifest parent_coinbase_tx_hex'' = Inr p"
    and shape: "pt_inputs p = [input]" "pi_prev_txid_hex input = concat (replicate 32 ''00'')"
      "pi_prev_vout input = COINBASE_PREVOUT_VOUT"
    and txid: "txid_hex X p = cm_parent_coinbase_txid m"
    and vout: "unat (cm_parent_coinbase_vout m) < length (pt_outputs p)"
    and covenant: "pto_amount_sats (pt_outputs p ! unat (cm_parent_coinbase_vout m)) = cm_covenant_output_value_sats m"
      "hex_encode X (pto_script_pubkey (pt_outputs p ! unat (cm_parent_coinbase_vout m))) = cm_covenant_script_pubkey_hex m"
    by (auto simp: Let_def)
  note fin = verify_manifest_fanout_inputD [OF fin]
  note sums = verified_outputs [OF hex fields(1) out]
  have "spends_outpoint X p (cm_parent_coinbase_vout m) fanout"
    using fin txid by (auto simp: spends_outpoint_def)
  moreover have "covenant_binds X (pt_outputs p ! unat (cm_parent_coinbase_vout m)) fanout"
  proof -
    from verify_manifest_covenantD [OF cov] obtain hash stacks where
      h: "default_ctv_hash_for_parsed_tx X fanout 0 = Inr hash" "pt_witness_stacks fanout = Some stacks" "stacks \<noteq> []"
        "stacks ! 0 = [ctv_leaf_script hash, [QBIT_P2MR_CONTROL_BLOCK]]"
      and enc: "hex_encode X (p2mr_script_pubkey (p2mr_tapleaf_hash X (ctv_leaf_script hash))) = cm_covenant_script_pubkey_hex m"
      by (auto simp: fields(2) QBIT_CTV_INPUT_INDEX_def)
    have "pto_script_pubkey (pt_outputs p ! unat (cm_parent_coinbase_vout m)) = p2mr_script_pubkey (p2mr_tapleaf_hash X (ctv_leaf_script hash))"
      using enc covenant(2) by (simp only: hex_encode_inj [OF hex, symmetric])
    with h show ?thesis
      by (auto simp: covenant_binds_def)
  qed
  ultimately show ?thesis
    using p shape txid vout covenant fin sums tx_value_pays [of X ?pc fanout] pre(1)
    by (intro exI [of _ p] exI [of _ input] exI [of _ fanout]
        exI [of _ "pt_outputs p ! unat (cm_parent_coinbase_vout m)"]) (simp add: slice_get_Some)
qed

end
