(* ===== verification/Ctv_Finalize.thy ===== *)
theory Ctv_Finalize
  imports Ctv_Soundness
begin

text \<open>
  A prepared fanout can be finalized: what \<open>prepare_ctv_fanout_precommitment\<close> fixes before the
  block is mined is enough for \<open>build_ctv_fanout_manifest_from_precommitment\<close> to succeed on
  every coinbase that carries the covenant output.
\<close>

section \<open>The reader: field names and amounts\<close>

text \<open>The field name only occurs in error messages.\<close>

definition relabels :: "string \<Rightarrow> (tx_reader \<Rightarrow> prism_error + ('a \<times> tx_reader)) \<Rightarrow> bool" where
  "relabels n f \<longleftrightarrow> (\<forall>r x r'. f r = Inr (x, r') \<longrightarrow>
     f (r\<lparr>rd_field_name := n\<rparr>) = Inr (x, r'\<lparr>rd_field_name := n\<rparr>))"

named_theorems relabel_intros

lemma relabelsD: "relabels n f \<Longrightarrow> f r = Inr (x, r') \<Longrightarrow> f (r\<lparr>rd_field_name := n\<rparr>) = Inr (x, r'\<lparr>rd_field_name := n\<rparr>)"
  by (simp add: relabels_def)

lemma relabels_bind [relabel_intros]:
  assumes "relabels n f" and "\<And>x. relabels n (g x)"
  shows "relabels n (\<lambda>r. and_then (f r) (\<lambda>(x, r). g x r))"
  using assms by (fastforce simp: relabels_def and_then_Inr)

lemma relabels_return [relabel_intros]: "relabels n (\<lambda>r. Inr (x, r))"
  by (simp add: relabels_def)

lemma relabels_error [relabel_intros]: "relabels n (\<lambda>r. Inl (e r))"
  by (simp add: relabels_def)

lemma relabels_if [relabel_intros]:
  "(c \<Longrightarrow> relabels n f) \<Longrightarrow> (\<not> c \<Longrightarrow> relabels n g) \<Longrightarrow> relabels n (\<lambda>r. if c then f r else g r)"
  by (cases c) simp_all

lemma relabels_bytes [relabel_intros]: "relabels n (tx_read_bytes len)"
  unfolding relabels_def
proof (intro allI impI)
  fix r x r' assume "tx_read_bytes len r = Inr (x, r')"
  then show "tx_read_bytes len (r\<lparr>rd_field_name := n\<rparr>) = Inr (x, r'\<lparr>rd_field_name := n\<rparr>)"
    by (cases "usize_checked_add (rd_offset r) len") (auto simp: tx_read_bytes_def split: if_splits)
qed

lemma relabels_u8 [relabel_intros]: "relabels n tx_read_u8"
  by (auto simp: relabels_def tx_read_u8_def tx_peek_u8_def split: if_splits)

lemma relabels_u32 [relabel_intros]: "relabels n tx_read_u32"
  unfolding tx_read_u32_def [abs_def] by (intro relabel_intros)

lemma relabels_amount [relabel_intros]: "relabels n tx_read_i64_nonnegative"
  unfolding tx_read_i64_nonnegative_def [abs_def] Let_def by (intro relabel_intros)

lemma relabels_compact_size [relabel_intros]: "relabels n tx_read_compact_size"
  unfolding tx_read_compact_size_def [abs_def] Let_def by (intro relabel_intros)

lemma relabels_count [relabel_intros]: "relabels n tx_read_compact_size_as_usize"
proof -
  have "relabels n (\<lambda>r. if tx_remaining r < unat v then Inl (tx_truncated r) else Inr (unat v, r))" for v :: u64
    by (auto simp: relabels_def tx_remaining_def split: if_splits)
  then show ?thesis
    unfolding tx_read_compact_size_as_usize_def [abs_def] by (intro relabel_intros) auto
qed

lemma relabels_var_bytes [relabel_intros]: "relabels n tx_read_var_bytes"
  unfolding tx_read_var_bytes_def [abs_def] by (intro relabel_intros)

lemma relabels_n [relabel_intros]: "relabels n f \<Longrightarrow> relabels n (tx_read_n f k)"
proof (induction k)
  case 0
  then show ?case by (simp add: relabels_def)
next
  case (Suc k)
  then have "relabels n (\<lambda>r. and_then (f r) (\<lambda>(x, r). and_then (tx_read_n f k r) (\<lambda>(xs, r). Inr (x # xs, r))))"
    by (intro relabel_intros) auto
  then show ?case
    by (simp add: relabels_def)
qed

lemma relabels_tx_in [relabel_intros]: "relabels n (read_tx_in X)"
  unfolding read_tx_in_def [abs_def] by (intro relabel_intros)

lemma relabels_tx_out [relabel_intros]: "relabels n read_tx_out"
  unfolding read_tx_out_def [abs_def] by (intro relabel_intros)

lemma relabels_stack [relabel_intros]: "relabels n read_stack"
  unfolding read_stack_def [abs_def] by (intro relabel_intros)

lemma relabels_marker: "relabels n read_witness_marker"
  by (auto simp: relabels_def read_witness_marker_def tx_read_u8_def tx_peek_u8_def and_then_Inr split: if_splits)

lemma relabels_witness:
  "relabels n (\<lambda>r. if w then and_then (tx_read_n read_stack k r) (\<lambda>(stacks, r). Inr (Some stacks, r)) else Inr (None, r))"
  by (intro relabel_intros)

text \<open>Two runs that end without a reader.\<close>

definition same_end :: "string \<Rightarrow> (tx_reader \<Rightarrow> prism_error + 'a) \<Rightarrow> (tx_reader \<Rightarrow> prism_error + 'a) \<Rightarrow> bool" where
  "same_end n f g \<longleftrightarrow> (\<forall>r y. f r = Inr y \<longrightarrow> g (r\<lparr>rd_field_name := n\<rparr>) = Inr y)"

lemma same_end_bind:
  assumes "relabels n f" and "\<And>x. same_end n (g x) (h x)"
  shows "same_end n (\<lambda>r. and_then (f r) (\<lambda>(x, r). g x r)) (\<lambda>r. and_then (f r) (\<lambda>(x, r). h x r))"
  using assms by (fastforce simp: same_end_def relabels_def and_then_Inr)

lemma same_end_if:
  "(\<not> c \<Longrightarrow> same_end n f g) \<Longrightarrow> same_end n (\<lambda>r. if c then Inl d else f r) (\<lambda>r. if c then Inl e else g r)"
  by (cases c) (simp_all add: same_end_def)

lemma same_end_finished: "same_end n (\<lambda>r. and_then (tx_expect_finished r) (\<lambda>_. m)) (\<lambda>r. and_then (tx_expect_finished r) (\<lambda>_. m))"
  by (simp add: same_end_def tx_expect_finished_def ensure_def)

definition parse_from :: "'x crates_scheme \<Rightarrow> string \<Rightarrow> tx_reader \<Rightarrow> prism_error + parsed_transaction" where
  "parse_from X field_name = (\<lambda>reader.
     and_then (tx_read_u32 reader) (\<lambda>(version, reader).
     and_then (read_witness_marker reader) (\<lambda>(has_witness, reader).
     and_then (tx_read_compact_size_as_usize reader) (\<lambda>(input_count, reader).
     if input_count = 0 then Inl (invalid_ctv_manifest (field_name @ '' has no inputs''))
     else
       and_then (tx_read_n (read_tx_in X) input_count reader) (\<lambda>(inputs, reader).
       and_then (tx_read_compact_size_as_usize reader) (\<lambda>(output_count, reader).
       and_then (tx_read_n read_tx_out output_count reader) (\<lambda>(outputs, reader).
       and_then (if has_witness
           then and_then (tx_read_n read_stack input_count reader) (\<lambda>(stacks, reader). Inr (Some stacks, reader))
           else Inr (None, reader)) (\<lambda>(witness_stacks, reader).
       and_then (tx_read_u32 reader) (\<lambda>(lock_time, reader).
       and_then (tx_expect_finished reader) (\<lambda>_.
       and_then (tx_without_witness_bytes X version inputs outputs lock_time) (\<lambda>tx_without_witness.
       Inr \<lparr>pt_version = version, pt_inputs = inputs, pt_outputs = outputs, pt_lock_time = lock_time,
            pt_witness_stacks = witness_stacks, pt_tx_without_witness = tx_without_witness\<rparr>)))))))))))"

lemma parse_transaction_from:
  "parse_transaction X bytes field_name = parse_from X field_name (tx_reader_new bytes field_name)"
  by (simp only: parse_transaction_def parse_from_def)

lemma parse_from_fields: "same_end n (parse_from X field) (parse_from X n)"
  unfolding parse_from_def
  by (intro same_end_bind same_end_if same_end_finished relabels_marker relabels_witness relabel_intros)

lemma parse_any_field:
  assumes "parse_transaction_hex X tx_hex field = Inr tx"
  shows "parse_transaction_hex X tx_hex field' = Inr tx"
proof -
  from assms obtain bytes where dec: "hex_decode X tx_hex = Inr bytes"
    and parse: "parse_from X field (tx_reader_new bytes field) = Inr tx"
    by (auto simp: parse_transaction_hex_def and_then_Inr map_err_Inr parse_transaction_from)
  have "parse_from X field' ((tx_reader_new bytes field)\<lparr>rd_field_name := field'\<rparr>) = Inr tx"
    by (rule parse_from_fields [unfolded same_end_def, rule_format, OF parse])
  then have "parse_from X field' (tx_reader_new bytes field') = Inr tx"
    by (simp add: tx_reader_new_def)
  then show ?thesis
    by (simp add: parse_transaction_hex_def dec parse_transaction_from)
qed

lemma read_outputs_bounded:
  "tx_read_n read_tx_out k r = Inr (outs, r') \<Longrightarrow> out \<in> set outs \<Longrightarrow> pto_amount_sats out \<le> QBIT_MAX_MONEY_SATS"
proof (induction k arbitrary: r outs)
  case 0
  then show ?case by simp
next
  case (Suc k)
  then obtain x r1 xs where x: "read_tx_out r = Inr (x, r1)" and xs: "tx_read_n read_tx_out k r1 = Inr (xs, r')"
    and outs: "outs = x # xs"
    by (auto simp: and_then_Inr)
  have "pto_amount_sats x \<le> QBIT_MAX_MONEY_SATS"
    using x by (auto simp: read_tx_out_def tx_read_i64_nonnegative_def and_then_Inr Let_def not_less split: if_splits)
  then show ?case
    using Suc.IH [OF xs] Suc.prems(2) by (auto simp: outs)
qed

lemma parsed_outputs_bounded:
  assumes "parse_transaction_hex X tx_hex field = Inr tx" and "out \<in> set (pt_outputs tx)"
  shows "pto_amount_sats out \<le> QBIT_MAX_MONEY_SATS"
proof -
  from assms(1) obtain k r outs r' where "tx_read_n read_tx_out k r = Inr (outs, r')" and "pt_outputs tx = outs"
    by (auto simp: parse_transaction_hex_def parse_transaction_def and_then_Inr split: if_splits)
  then show ?thesis
    using read_outputs_bounded assms(2) by blast
qed

section \<open>The covenant hash\<close>

text \<open>The hash reads everything of the transaction but the outpoints and the witness.\<close>

lemma ctv_hash_cong:
  assumes "pt_version a = pt_version b" and "pt_lock_time a = pt_lock_time b"
    and scripts: "map pi_script_sig (pt_inputs a) = map pi_script_sig (pt_inputs b)"
    and sequences: "map pi_sequence (pt_inputs a) = map pi_sequence (pt_inputs b)" and "pt_outputs a = pt_outputs b"
  shows "default_ctv_hash_for_parsed_tx X a i = default_ctv_hash_for_parsed_tx X b i"
proof -
  have len: "length (pt_inputs a) = length (pt_inputs b)"
    using scripts by (rule map_eq_imp_length_eq)
  have ex: "list_ex (\<lambda>input. pi_script_sig input \<noteq> []) xs = list_ex (\<lambda>s. s \<noteq> []) (map pi_script_sig xs)" for xs
    by (induction xs) auto
  have cat: "map (\<lambda>input. len_prefix (pi_script_sig input) @ pi_script_sig input) xs = map (\<lambda>s. len_prefix s @ s) (map pi_script_sig xs)" for xs
    by simp
  have seq: "map (\<lambda>input. to_le_bytes (pi_sequence input)) xs = map to_le_bytes (map pi_sequence xs)" for xs
    by simp
  show ?thesis
    unfolding default_ctv_hash_for_parsed_tx_def len ex cat seq assms ..
qed

section \<open>Canonical outputs\<close>

definition payout_key_of :: "ctv_fanout_payout \<Rightarrow> fanout_key" where
  "payout_key_of p = (cp_order_key p, cp_recipient_id p, cp_p2mr_program_hex p)"

definition payout_sort_key :: "ctv_fanout_payout \<Rightarrow> string \<times> string \<times> string \<times> nat" where
  "payout_sort_key p = (cp_order_key p, cp_recipient_id p, cp_p2mr_program_hex p, unat (cp_amount_sats p))"

interpretation payout: key_order compare_payouts payout_sort_key
  by unfold_locales (simp add: compare_payouts_def payout_sort_key_def)

text \<open>The output that stands for a payout at index \<open>k\<close>.\<close>

definition fanout_row :: "'x crates_scheme \<Rightarrow> nat \<Rightarrow> ctv_fanout_payout \<Rightarrow> ctv_fanout_output \<Rightarrow> bool" where
  "fanout_row X k p out \<longleftrightarrow>
     cp_amount_sats p \<noteq> 0 \<and> unat (co_gross_amount_sats out) = unat (cp_amount_sats p) + unat (cp_fee_sats p) \<and>
     (cp_gross_amount_sats p = 0 \<longrightarrow> co_gross_amount_sats out = cp_amount_sats p) \<and>
     (cp_gross_amount_sats p \<noteq> 0 \<longrightarrow> co_gross_amount_sats out = cp_gross_amount_sats p) \<and>
     (\<exists>program. hex_decode X (cp_p2mr_program_hex p) = Inr program \<and> length program = P2MR_PROGRAM_LEN \<and>
        co_script_pubkey_hex out = hex_encode X (p2mr_script_pubkey program)) \<and>
     co_vout out = of_nat k \<and> co_recipient_id out = cp_recipient_id p \<and> co_order_key out = cp_order_key p \<and>
     co_p2mr_program_hex out = cp_p2mr_program_hex p \<and> co_fee_sats out = cp_fee_sats p \<and>
     co_amount_sats out = cp_amount_sats p"

lemma fanout_step_Inr:
  "fanout_output_step X (seen, outs) (k, p) = Inr st \<longleftrightarrow>
     (\<exists>out. fanout_row X k p out \<and> payout_key_of p \<notin> seen \<and> st = (insert (payout_key_of p) seen, outs @ [out]))"
  (is "?lhs \<longleftrightarrow> ?rhs")
proof
  assume ?lhs
  then obtain program funded where "cp_amount_sats p \<noteq> 0" "checked_add (cp_amount_sats p) (cp_fee_sats p) = Some funded"
    "funded = (if cp_gross_amount_sats p = 0 then cp_amount_sats p else cp_gross_amount_sats p)"
    "hex_decode X (cp_p2mr_program_hex p) = Inr program" "length program = P2MR_PROGRAM_LEN" "payout_key_of p \<notin> seen"
    "(insert (payout_key_of p) seen, outs @ [\<lparr>co_vout = of_nat k, co_recipient_id = cp_recipient_id p, co_order_key = cp_order_key p,
           co_p2mr_program_hex = cp_p2mr_program_hex p, co_script_pubkey_hex = hex_encode X (p2mr_script_pubkey program),
           co_gross_amount_sats = (if cp_gross_amount_sats p = 0 then cp_amount_sats p else cp_gross_amount_sats p),
           co_fee_sats = cp_fee_sats p, co_amount_sats = cp_amount_sats p\<rparr>]) = st"
    unfolding fanout_output_step_def payout_key_of_def prod.case Let_def and_then_Inr require_Inr ok_or_Inr decode_program_Inr
      sum.inject
    by blast
  then show ?rhs
    by (auto simp: fanout_row_def checked_simps)
next
  assume ?rhs
  then obtain out where row: "fanout_row X k p out" and key: "payout_key_of p \<notin> seen"
    and st: "st = (insert (payout_key_of p) seen, outs @ [out])"
    by blast
  let ?gross = "if cp_gross_amount_sats p = 0 then cp_amount_sats p else cp_gross_amount_sats p"
  from row obtain program where program: "hex_decode X (cp_p2mr_program_hex p) = Inr program" "length program = P2MR_PROGRAM_LEN"
    and out: "out = \<lparr>co_vout = of_nat k, co_recipient_id = cp_recipient_id p, co_order_key = cp_order_key p,
           co_p2mr_program_hex = cp_p2mr_program_hex p, co_script_pubkey_hex = hex_encode X (p2mr_script_pubkey program),
           co_gross_amount_sats = ?gross, co_fee_sats = cp_fee_sats p, co_amount_sats = cp_amount_sats p\<rparr>"
    by (cases out) (auto simp: fanout_row_def)
  have "checked_add (cp_amount_sats p) (cp_fee_sats p) = Some ?gross"
    using row u64_lt [of "co_gross_amount_sats out"] by (auto simp: checked_simps fanout_row_def)
  then show ?lhs
    using key row program
    by (simp add: fanout_output_step_def Let_def payout_key_of_def st out decode_program_hex_def fanout_row_def)
qed

lemma fanout_fold_Inr:
  "try_fold (fanout_output_step X) (seen, outs) (enumerate k ps) = Inr (seen', outs') \<longleftrightarrow>
     (\<exists>new. outs' = outs @ new \<and> list_all2 (\<lambda>(i, p) out. fanout_row X i p out) (enumerate k ps) new \<and>
        distinct (map payout_key_of ps) \<and> set (map payout_key_of ps) \<inter> seen = {} \<and>
        seen' = seen \<union> set (map payout_key_of ps))"
proof (induction ps arbitrary: seen outs k)
  case Nil
  then show ?case by auto
next
  case (Cons p ps)
  have "try_fold (fanout_output_step X) (seen, outs) (enumerate k (p # ps)) = Inr (seen', outs') \<longleftrightarrow>
    (\<exists>out. fanout_row X k p out \<and> payout_key_of p \<notin> seen \<and>
      try_fold (fanout_output_step X) (insert (payout_key_of p) seen, outs @ [out]) (enumerate (Suc k) ps) = Inr (seen', outs'))"
    by (auto simp: and_then_Inr fanout_step_Inr)
  also have "\<dots> \<longleftrightarrow> (\<exists>new. outs' = outs @ new \<and> list_all2 (\<lambda>(i, p) out. fanout_row X i p out) (enumerate k (p # ps)) new \<and>
        distinct (map payout_key_of (p # ps)) \<and> set (map payout_key_of (p # ps)) \<inter> seen = {} \<and>
        seen' = seen \<union> set (map payout_key_of (p # ps)))"
    unfolding Cons.IH by (auto simp: list_all2_Cons1)
  finally show ?case .
qed

definition normalizes :: "'x crates_scheme \<Rightarrow> ctv_fanout_payout \<Rightarrow> ctv_fanout_payout \<Rightarrow> bool" where
  "normalizes X p q \<longleftrightarrow> (\<exists>bytes. hex_decode X (cp_p2mr_program_hex p) = Inr bytes \<and>
     length bytes = P2MR_PROGRAM_LEN \<and> q = p\<lparr>cp_p2mr_program_hex := hex_encode X bytes\<rparr>)"

lemma distinct_map_sort_by: "distinct (map f (sort_by c xs)) = distinct (map f xs)"
  by (rule mset_eq_imp_distinct_iff) simp

lemma canonical_outputs_Inr:
  "canonical_fanout_outputs X payouts = Inr outs \<longleftrightarrow>
     payouts \<noteq> [] \<and> (\<exists>norm. list_all2 (normalizes X) payouts norm \<and>
       list_all2 (\<lambda>(i, p) out. fanout_row X i p out) (enumerate 0 (sort_by compare_payouts norm)) outs \<and>
       distinct (map payout_key_of norm))"
proof -
  have norm: "(\<exists>program. canonical_p2mr_program_hex X (cp_p2mr_program_hex p) ''payout p2mr_program_hex'' = Inr program \<and>
      p\<lparr>cp_p2mr_program_hex := program\<rparr> = q) \<longleftrightarrow> normalizes X p q" for p q
    by (auto simp: canonical_program_Inr normalizes_def)
  show ?thesis
    by (auto simp: canonical_fanout_outputs_def and_then_Inr try_map_Inr norm fanout_fold_Inr distinct_map_sort_by)
qed

lemma payout_of_row:
  assumes "fanout_row X k p out"
  shows "payout_of_output out = p\<lparr>cp_gross_amount_sats := co_gross_amount_sats out\<rparr>"
  using assms by (cases p) (simp add: fanout_row_def payout_of_output_def)

lemma row_of_own_payout: "fanout_row X k p out \<Longrightarrow> fanout_row X k (payout_of_output out) out"
  by (auto simp: fanout_row_def payout_of_output_def)

lemma row_keys:
  assumes "fanout_row X k p out"
  shows "payout_sort_key (payout_of_output out) = payout_sort_key p"
    and "payout_key_of (payout_of_output out) = payout_key_of p" and "fanout_key_of out = payout_key_of p"
  using assms by (auto simp: fanout_row_def payout_of_output_def payout_sort_key_def payout_key_of_def fanout_key_of_def)

lemma normalizes_again:
  assumes "hex_spec X" and "normalizes X p q" and "fanout_row X k q out"
  shows "normalizes X (payout_of_output out) (payout_of_output out)"
  using assms hex_decode_encode [OF assms(1)]
  by (auto simp: normalizes_def fanout_row_def payout_of_output_def)

lemma rows_nth:
  assumes "list_all2 (\<lambda>(i, p) out. fanout_row X i p out) (enumerate k ps) outs"
  shows "length outs = length ps \<and> (\<forall>i < length ps. fanout_row X (k + i) (ps ! i) (outs ! i))"
  using assms by (auto simp: list_all2_conv_all_nth nth_enumerate_eq)

lemma rows_nthI:
  assumes "length outs = length ps" and "\<And>i. i < length ps \<Longrightarrow> fanout_row X (k + i) (ps ! i) (outs ! i)"
  shows "list_all2 (\<lambda>(i, p) out. fanout_row X i p out) (enumerate k ps) outs"
  using assms by (auto simp: list_all2_conv_all_nth nth_enumerate_eq)

lemma canonical_outputs_stable:
  assumes hex: "hex_spec X" and outs: "canonical_fanout_outputs X payouts = Inr outs"
  shows "canonical_fanout_outputs X (map payout_of_output outs) = Inr outs"
proof -
  from outs obtain norm where ne: "payouts \<noteq> []" and norm: "list_all2 (normalizes X) payouts norm"
    and rows: "list_all2 (\<lambda>(i, p) out. fanout_row X i p out) (enumerate 0 (sort_by compare_payouts norm)) outs"
    and d: "distinct (map payout_key_of norm)"
    by (auto simp: canonical_outputs_Inr)
  let ?ps = "sort_by compare_payouts norm" and ?again = "map payout_of_output outs"
  from rows_nth [OF rows] have len: "length outs = length ?ps"
    and row: "\<And>i. i < length ?ps \<Longrightarrow> fanout_row X i (?ps ! i) (outs ! i)"
    by auto
  have source: "\<exists>p. normalizes X p q" if "q \<in> set ?ps" for q
    using norm that by (auto simp: list_all2_conv_all_nth in_set_conv_nth)
  have self: "list_all2 (normalizes X) ?again ?again"
  proof (rule list_all2_all_nthI)
    fix i assume "i < length ?again"
    then have i: "i < length ?ps"
      using len by simp
    obtain p where "normalizes X p (?ps ! i)"
      using source [OF nth_mem [OF i]] by blast
    then show "normalizes X (?again ! i) (?again ! i)"
      using normalizes_again [OF hex _ row [OF i]] i len by simp
  qed simp
  have keys: "map payout_sort_key ?again = map payout_sort_key ?ps" "map payout_key_of ?again = map payout_key_of ?ps"
    using len row_keys [OF row] by (auto intro!: nth_equalityI simp del: length_sort_by)
  have sorted: "sort_by compare_payouts ?again = ?again"
    by (rule payout.sort_by_sorted) (simp only: keys(1) payout.sorted_keys)
  have "list_all2 (\<lambda>(i, p) out. fanout_row X i p out) (enumerate 0 ?again) outs"
    using len row_of_own_payout [OF row] by (intro rows_nthI) (simp_all del: length_sort_by)
  moreover have "distinct (map payout_key_of ?again)"
    unfolding keys(2) distinct_map_sort_by by (rule d)
  moreover have "outs \<noteq> []"
    using ne norm len by (auto dest: list_all2_lengthD)
  ultimately have "?again \<noteq> [] \<and> list_all2 (normalizes X) ?again ?again \<and>
      list_all2 (\<lambda>(i, p) out. fanout_row X i p out) (enumerate 0 (sort_by compare_payouts ?again)) outs \<and>
      distinct (map payout_key_of ?again)"
    unfolding sorted using self by simp
  then show ?thesis
    unfolding canonical_outputs_Inr by blast
qed

section \<open>The two fanout transactions\<close>

lemma length_p2mr_script: "length program = P2MR_PROGRAM_LEN \<Longrightarrow> length (p2mr_script_pubkey program) = 34"
  by (simp add: p2mr_script_pubkey_def P2MR_PROGRAM_LEN_def)

lemma anchor_spec_Inr:
  assumes "hex_spec X" and "p2a_anchor_output_spec X = Inr spec"
  shows "tos_amount_sats spec = 0 \<and> length (tos_script_pubkey spec) = 4 \<and>
    hex_decode X P2A_ANCHOR_SCRIPT_PUBKEY_HEX = Inr (tos_script_pubkey spec)"
proof -
  from assms(2) obtain script where script: "hex_decode X P2A_ANCHOR_SCRIPT_PUBKEY_HEX = Inr script"
    and spec: "spec = \<lparr>tos_amount_sats = 0, tos_script_pubkey = script\<rparr>"
    by (auto simp: p2a_anchor_output_spec_def p2a_anchor_script_pubkey_def result_simps CTV_FANOUT_ANCHOR_VALUE_SATS_def)
  have "2 * length script = length P2A_ANCHOR_SCRIPT_PUBKEY_HEX"
    using hex_encode_decode [OF assms(1) script] length_hex_encode [OF assms(1), of script] by simp
  then have "length script = 4"
    by (simp add: P2A_ANCHOR_SCRIPT_PUBKEY_HEX_def)
  then show ?thesis
    by (simp add: spec script)
qed

text \<open>The outputs both transactions are written with, as the reader returns them.\<close>

lemma output_specs_Inr:
  assumes hex: "hex_spec X" and specs: "fanout_output_specs X outs anchor = Inr specs"
    and pays: "\<And>out. out \<in> set outs \<Longrightarrow> \<exists>script. pays_program X out script"
  shows "\<exists>front rear. specs = front @ rear \<and> length front = length outs \<and>
    (\<forall>i < length outs. tos_amount_sats (front ! i) = co_amount_sats (outs ! i) \<and>
      length (tos_script_pubkey (front ! i)) = 34 \<and> pays_program X (outs ! i) (tos_script_pubkey (front ! i))) \<and>
    (if anchor then \<exists>script. hex_decode X P2A_ANCHOR_SCRIPT_PUBKEY_HEX = Inr script \<and> length script = 4 \<and>
       rear = [\<lparr>tos_amount_sats = 0, tos_script_pubkey = script\<rparr>] else rear = [])"
proof -
  have one: "tos_amount_sats spec = co_amount_sats out \<and> length (tos_script_pubkey spec) = 34 \<and>
      pays_program X out (tos_script_pubkey spec)"
    if spec: "output_spec_from_fanout_output X out = Inr spec" and out: "out \<in> set outs" for out spec
  proof -
    from pays [OF out] obtain script where script: "pays_program X out script"
      by blast
    then have "hex_decode X (co_script_pubkey_hex out) = Inr script" "length script = 34"
      by (auto simp: pays_program_def hex_decode_encode [OF hex] length_p2mr_script)
    then show ?thesis
      using spec script by (auto simp: output_spec_from_fanout_output_def)
  qed
  have many: "length front = length outs \<and> (\<forall>i < length outs. tos_amount_sats (front ! i) = co_amount_sats (outs ! i) \<and>
      length (tos_script_pubkey (front ! i)) = 34 \<and> pays_program X (outs ! i) (tos_script_pubkey (front ! i)))"
    if "try_map (output_spec_from_fanout_output X) outs = Inr front" for front
    using that one by (auto simp: try_map_Inr list_all2_conv_all_nth)
  show ?thesis
  proof (cases anchor)
    case True
    with specs obtain front spec where "try_map (output_spec_from_fanout_output X) outs = Inr front"
      "p2a_anchor_output_spec X = Inr spec" "specs = front @ [spec]"
      by (auto simp: fanout_output_specs_def output_specs_with_anchor_def and_then_Inr)
    then show ?thesis
      using many [of front] anchor_spec_Inr [OF hex, of spec] True
      by (intro exI [of _ front] exI [of _ "[spec]"]) (cases spec, simp)
  next
    case False
    with specs have "try_map (output_spec_from_fanout_output X) outs = Inr specs"
      by (simp add: fanout_output_specs_def)
    then show ?thesis
      using many False by auto
  qed
qed

lemma manifest_fold_ok:
  assumes "unat s + outputs_sum payouts < 2 ^ 64" and "unat f + fees_sum payouts < 2 ^ 64"
    and "length payouts \<le> length outs"
    and "\<And>i. i < length payouts \<Longrightarrow> co_vout (payouts ! i) = of_nat (k + i) \<and>
      pto_amount_sats (outs ! i) = co_amount_sats (payouts ! i) \<and> pays_program X (payouts ! i) (pto_script_pubkey (outs ! i))"
  shows "\<exists>s' f'. try_fold (manifest_output_step X) (s, f) (enumerate k (zip outs payouts)) = Inr (s', f') \<and>
    unat s' = unat s + outputs_sum payouts \<and> unat f' = unat f + fees_sum payouts"
  using assms
proof (induction payouts arbitrary: outs s f k)
  case Nil
  then show ?case by simp
next
  case (Cons payout payouts)
  then obtain out outs' where outs: "outs = out # outs'" and len: "length payouts \<le> length outs'"
    by (cases outs) auto
  obtain s1 where s1: "checked_add s (co_amount_sats payout) = Some s1"
    using Cons.prems(1) by (cases "checked_add s (co_amount_sats payout)") (auto simp: checked_simps)
  obtain f1 where f1: "checked_add f (co_fee_sats payout) = Some f1"
    using Cons.prems(2) by (cases "checked_add f (co_fee_sats payout)") (auto simp: checked_simps)
  from Cons.prems(4) [of 0] outs have this_out: "co_vout payout = of_nat k" "pto_amount_sats out = co_amount_sats payout"
    "pays_program X payout (pto_script_pubkey out)"
    by auto
  then have step: "manifest_output_step X (s, f) (k, out, payout) = Inr (s1, f1)"
    by (auto simp: manifest_output_step_def pays_program_def s1 f1 decode_program_hex_def)
  have "\<exists>s' f'. try_fold (manifest_output_step X) (s1, f1) (enumerate (Suc k) (zip outs' payouts)) = Inr (s', f') \<and>
    unat s' = unat s1 + outputs_sum payouts \<and> unat f' = unat f1 + fees_sum payouts"
  proof (rule Cons.IH [OF _ _ len])
    show "unat s1 + outputs_sum payouts < 2 ^ 64" "unat f1 + fees_sum payouts < 2 ^ 64"
      using Cons.prems(1,2) s1 f1 by (auto simp: checked_simps)
    fix i assume "i < length payouts"
    then show "co_vout (payouts ! i) = of_nat (Suc k + i) \<and> pto_amount_sats (outs' ! i) = co_amount_sats (payouts ! i) \<and>
        pays_program X (payouts ! i) (pto_script_pubkey (outs' ! i))"
      using Cons.prems(4) [of "Suc i"] outs by simp
  qed
  then show ?case
    using s1 f1 by (auto simp: outs step checked_simps)
qed

lemma lowercase_hex_encode: "hex_spec X \<Longrightarrow> to_ascii_lowercase (hex_encode X bs) = hex_encode X bs"
  using hex_encode_decode hex_decode_encode by metis

lemma normalize_txid_Inr:
  "normalize_txid_hex X v field = Inr s \<longleftrightarrow> (\<exists>bytes. hex_decode X v = Inr bytes \<and> length bytes = 32 \<and> s = hex_encode X bytes)"
  by (auto simp: normalize_txid_hex_def result_simps split: if_splits)

text \<open>A fanout transaction over the same outputs can be written for every parent id.\<close>

lemma fanout_tx_other_parent:
  assumes hex: "hex_spec X" and h: "fanout_tx_hex X txid vout outs anchor lock sequence stack w = Inr h"
    and txid': "hex_decode X txid' = Inr bytes" "length bytes = 32"
  shows "\<exists>h'. fanout_tx_hex X txid' vout' outs anchor lock sequence stack' True = Inr h' \<and>
    length h' \<le> length h + 2 * (2 + length (serialize_stack stack'))"
  using h txid'
  by (auto simp: fanout_tx_hex_def and_then_Inr normalize_txid_Inr serialize_tx_hex_def serialize_input_spec_def
      hex_decode_encode [OF hex] length_hex_encode [OF hex] map_err_Inr)

lemma fanout_tx_parses:
  assumes hex: "hex_spec X" and h: "fanout_tx_hex X txid vout outs anchor lock sequence stack w = Inr h"
    and pays: "\<And>out. out \<in> set outs \<Longrightarrow> (\<exists>script. pays_program X out script) \<and> co_amount_sats out \<le> QBIT_MAX_MONEY_SATS"
    and len: "length h < 2 ^ 64" and stack: "length stack < 2 ^ 64" "\<And>item. item \<in> set stack \<Longrightarrow> length item < 2 ^ 64"
    and outs: "length outs < 2 ^ 63"
  shows "\<exists>specs tx. fanout_output_specs X outs anchor = Inr specs \<and> parse_transaction_hex X h field = Inr tx \<and>
    pt_version tx = CTV_FANOUT_TX_VERSION \<and> pt_lock_time tx = lock \<and>
    pt_inputs tx = [\<lparr>pi_prev_txid_hex = to_ascii_lowercase txid, pi_prev_vout = vout, pi_script_sig = [], pi_sequence = sequence\<rparr>] \<and>
    pt_outputs tx = map read_output_spec specs \<and> pt_witness_stacks tx = (if w then Some [stack] else None)"
proof -
  from h obtain prev specs where prev: "hex_decode X txid = Inr prev" "length prev = 32"
    and specs: "fanout_output_specs X outs anchor = Inr specs"
    and ser: "serialize_tx_hex X CTV_FANOUT_TX_VERSION
       [\<lparr>ti_prev_txid_hex = hex_encode X prev, ti_prev_vout = vout, ti_script_sig = [],
         ti_sequence = sequence, ti_witness_stack = stack\<rparr>] specs lock w = Inr h"
    by (auto simp: fanout_tx_hex_def and_then_Inr normalize_txid_Inr)
  from output_specs_Inr [OF hex specs] pays obtain front rear where fb: "specs = front @ rear" "length front = length outs"
    and front: "\<And>i. i < length outs \<Longrightarrow> tos_amount_sats (front ! i) = co_amount_sats (outs ! i) \<and> length (tos_script_pubkey (front ! i)) = 34"
    and rear: "if anchor then \<exists>script. hex_decode X P2A_ANCHOR_SCRIPT_PUBKEY_HEX = Inr script \<and> length script = 4 \<and>
       rear = [\<lparr>tos_amount_sats = 0, tos_script_pubkey = script\<rparr>] else rear = []"
    by blast
  have "tos_amount_sats spec \<le> QBIT_MAX_MONEY_SATS \<and> length (tos_script_pubkey spec) < 2 ^ 64" if "spec \<in> set specs" for spec
  proof -
    have "tos_amount_sats (front ! i) \<le> QBIT_MAX_MONEY_SATS" if "i < length outs" for i
      using front [OF that] pays [OF nth_mem [OF that]] by simp
    then show ?thesis
      using that front rear fb by (auto simp: in_set_conv_nth split: if_splits)
  qed
  moreover have "length specs < 2 ^ 64"
    using rear outs fb by (auto split: if_splits)
  ultimately have ok: "tx_specs_ok [\<lparr>ti_prev_txid_hex = hex_encode X prev, ti_prev_vout = vout, ti_script_sig = [],
         ti_sequence = sequence, ti_witness_stack = stack\<rparr>] specs"
    using stack by (simp add: tx_specs_ok_def)
  from parse_serialized [OF hex ser ok len, of field] obtain bytes where
    "parse_transaction_hex X h field = Inr (spec_transaction X CTV_FANOUT_TX_VERSION
       [\<lparr>ti_prev_txid_hex = hex_encode X prev, ti_prev_vout = vout, ti_script_sig = [],
         ti_sequence = sequence, ti_witness_stack = stack\<rparr>] specs lock w bytes)"
    by blast
  then show ?thesis
    using specs lowercase_hex_encode [OF hex, of prev] hex_encode_decode [OF hex prev(1)]
    by (simp add: spec_transaction_def read_input_spec_def)
qed

section \<open>Finalizing\<close>

text \<open>What a successful preparation has computed.\<close>

lemma prepareD:
  assumes "prepare_ctv_fanout_precommitment X input = Inr p"
  shows "\<exists>pc program bytes. pf_precommitment p = pc \<and>
    pc_schema pc = CTV_FANOUT_PRECOMMITMENT_SCHEMA \<and>
    pc_block_height pc \<le> 4294967295 \<and> pc_settlement_mode pc \<noteq> DirectCoinbase \<and>
    pc_chunk_count pc \<noteq> 0 \<and> pc_chunk_index pc < pc_chunk_count pc \<and>
    canonical_fanout_outputs X (pci_payouts input) = Inr (pc_outputs pc) \<and>
    output_sum (pc_outputs pc) = Inr (pc_fanout_output_sum_sats pc) \<and>
    output_fee_sum (pc_outputs pc) = Inr (pc_fanout_fee_sats pc) \<and>
    expected_fanout_sequence (pc_chunk_index pc) = Inr (pc_fanout_sequence pc) \<and>
    fanout_tx_hex X (concat (replicate 32 ''00'')) 0 (pc_outputs pc) (fanout_has_cpfp_anchor (pc_fanout_fee_sats pc))
      (pc_fanout_lock_time pc) (pc_fanout_sequence pc) [] False = Inr (pc_fanout_tx_template_hex pc) \<and>
    default_ctv_hash_hex X (pc_fanout_tx_template_hex pc) (unat QBIT_CTV_INPUT_INDEX) = Inr (pc_ctv_hash_hex pc) \<and>
    ctv_leaf_script_hex X (pc_ctv_hash_hex pc) = Inr (pc_ctv_leaf_script_hex pc) \<and>
    p2mr_program_for_ctv_leaf_hex X (pc_ctv_leaf_script_hex pc) = Inr (pc_p2mr_program_hex pc) \<and>
    decode_program_hex X (pc_p2mr_program_hex pc) ''p2mr_program_hex'' = Inr program \<and>
    pc_covenant_script_pubkey_hex pc = hex_encode X (p2mr_script_pubkey program) \<and>
    anchor_vout_for_fee (length (pc_outputs pc)) (pc_fanout_fee_sats pc) = Inr (pc_anchor_vout pc) \<and>
    pc_fanout_input_index pc = QBIT_CTV_INPUT_INDEX \<and> pc_p2mr_control_block_hex pc = hex_encode X [QBIT_P2MR_CONTROL_BLOCK] \<and>
    verify_precommitment X pc = Inr () \<and> precommitment_json X pc = Inr bytes \<and>
    pf_precommitment_sha256_hex p = ctv_sha256_hex X bytes \<and>
    commitment_witness_leaf_hex X (pf_precommitment_sha256_hex p) = Inr (pf_commitment_witness_leaf_hex p) \<and>
    pf_covenant_p2mr_program_hex p = pc_p2mr_program_hex pc \<and>
    pf_covenant_output_value_sats p = pc_covenant_output_value_sats pc \<and>
    pc_block_height pc = pci_block_height input \<and> pc_chunk_index pc = pci_chunk_index input \<and>
    pc_chunk_count pc = pci_chunk_count input \<and> pc_coinbase_value_sats pc = pci_coinbase_value_sats input \<and>
    pc_settlement_mode pc = pci_settlement_mode input"
  using assms
  unfolding prepare_ctv_fanout_precommitment_def Let_def and_then_Inr require_Inr ok_or_Inr chunk_identity_Inr sum.inject
    unsigned_fanout_tx_hex_def canonical_precommitment_bytes_def map_err_Inr
  by (elim exE conjE) (hypsubst, simp)

text \<open>The template and the transaction that spends the outpoint \<open>(txid, vout)\<close>.\<close>

definition finished_tx ::
    "'x crates_scheme \<Rightarrow> ctv_fanout_precommitment \<Rightarrow> u8 list \<Rightarrow> string \<Rightarrow> u32 \<Rightarrow> string \<Rightarrow>
     parsed_transaction \<Rightarrow> parsed_transaction \<Rightarrow> bool" where
  "finished_tx X pc hash txid vout tx_hex template fanout \<longleftrightarrow>
     (\<forall>field. parse_transaction_hex X (pc_fanout_tx_template_hex pc) field = Inr template \<and>
        parse_transaction_hex X tx_hex field = Inr fanout) \<and>
     validate_fanout_template template = Inr () \<and>
     default_ctv_hash_for_parsed_tx X template 0 = Inr hash \<and> default_ctv_hash_for_parsed_tx X fanout 0 = Inr hash \<and>
     pt_inputs fanout = [\<lparr>pi_prev_txid_hex = to_ascii_lowercase txid, pi_prev_vout = vout, pi_script_sig = [],
        pi_sequence = pc_fanout_sequence pc\<rparr>] \<and> pt_lock_time fanout = pc_fanout_lock_time pc \<and>
     pt_witness_stacks fanout = Some [[ctv_leaf_script hash, [QBIT_P2MR_CONTROL_BLOCK]]] \<and>
     (\<exists>specs. fanout_output_specs X (pc_outputs pc) (pc_anchor_vout pc \<noteq> None) = Inr specs \<and>
        pt_outputs fanout = map read_output_spec specs)"

lemma amounts_bounded:
  assumes "unat (pc_covenant_output_value_sats pc) = outputs_sum (pc_outputs pc) + fees_sum (pc_outputs pc)"
    and "pc_covenant_output_value_sats pc \<le> QBIT_MAX_MONEY_SATS" and "out \<in> set (pc_outputs pc)"
  shows "co_amount_sats out \<le> QBIT_MAX_MONEY_SATS"
proof -
  have "unat (co_amount_sats out) \<le> outputs_sum (pc_outputs pc)"
    unfolding outputs_sum_def using assms(3) by (intro member_le_sum_list) auto
  then have "unat (co_amount_sats out) \<le> unat (pc_covenant_output_value_sats pc)"
    using assms(1) by linarith
  also have "\<dots> \<le> unat QBIT_MAX_MONEY_SATS"
    using assms(2) by (simp add: word_le_nat_alt)
  finally show ?thesis
    by (simp add: word_le_nat_alt)
qed

lemma leaf_script_length: "length hash = 32 \<Longrightarrow> length (ctv_leaf_script hash) = 34"
  by (simp add: ctv_leaf_script_def)

lemma serialized_witness_length:
  assumes "length hash = 32"
  shows "length (serialize_stack [ctv_leaf_script hash, [QBIT_P2MR_CONTROL_BLOCK]]) = 38"
  using leaf_script_length [OF assms] by (simp add: serialize_stack_def ctv_compact_size_def)

lemma anchor_choice_specs:
  assumes "verify_anchor_choice pc = Inr ()"
  shows "fanout_has_cpfp_anchor (pc_fanout_fee_sats pc) \<longleftrightarrow> pc_anchor_vout pc \<noteq> None"
  using assms [unfolded anchor_choice_Inr] by (auto simp: fanout_has_cpfp_anchor_def split: if_splits)

lemma outputs_pay:
  assumes "verify_precommitment X pc = Inr ()" and "out \<in> set (pc_outputs pc)"
  shows "\<exists>script. pays_program X out script"
  using verify_precommitmentD(8) [OF assms(1)] assms(2) by (auto simp: in_set_conv_nth)

lemma finished_txI:
  assumes hex: "hex_spec X" and sha: "sha256_spec X" and pre: "verify_precommitment X pc = Inr ()"
    and template: "fanout_tx_hex X (concat (replicate 32 ''00'')) 0 (pc_outputs pc) (fanout_has_cpfp_anchor (pc_fanout_fee_sats pc))
      (pc_fanout_lock_time pc) (pc_fanout_sequence pc) [] False = Inr (pc_fanout_tx_template_hex pc)"
    and hash: "default_ctv_hash_hex X (pc_fanout_tx_template_hex pc) (unat QBIT_CTV_INPUT_INDEX) = Inr (pc_ctv_hash_hex pc)"
    and max: "pc_covenant_output_value_sats pc \<le> QBIT_MAX_MONEY_SATS"
    and len: "length (pc_fanout_tx_template_hex pc) < 2 ^ 63" and outs: "length (pc_outputs pc) < 2 ^ 63"
    and txid: "hex_decode X txid = Inr id_bytes" "length id_bytes = 32"
  shows "\<exists>hash tx_hex tmpl fanout. length hash = 32 \<and> pc_ctv_hash_hex pc = hex_encode X hash \<and>
    witnessed_fanout_tx_hex X txid vout (pc_outputs pc) (pc_anchor_vout pc \<noteq> None) (pc_fanout_lock_time pc)
      (pc_fanout_sequence pc) (ctv_leaf_script hash) = Inr tx_hex \<and>
    finished_tx X pc hash txid vout tx_hex tmpl fanout"
proof -
  note anchor = anchor_choice_specs [OF verify_precommitmentD(9) [OF pre]]
  have pays: "(\<exists>script. pays_program X out script) \<and> co_amount_sats out \<le> QBIT_MAX_MONEY_SATS"
    if "out \<in> set (pc_outputs pc)" for out
    using outputs_pay [OF pre that] amounts_bounded [OF verify_precommitmentD(5) [OF pre] max that] by blast
  have tmpl_len: "length (pc_fanout_tx_template_hex pc) < 2 ^ 64"
    using len by simp
  obtain specs tmpl where specs: "fanout_output_specs X (pc_outputs pc) (fanout_has_cpfp_anchor (pc_fanout_fee_sats pc)) = Inr specs"
    and tmpl: "parse_transaction_hex X (pc_fanout_tx_template_hex pc) ''tx_hex'' = Inr tmpl"
    and T: "pt_version tmpl = CTV_FANOUT_TX_VERSION" "pt_lock_time tmpl = pc_fanout_lock_time pc"
      "pt_inputs tmpl = [\<lparr>pi_prev_txid_hex = to_ascii_lowercase (concat (replicate 32 ''00'')), pi_prev_vout = 0,
         pi_script_sig = [], pi_sequence = pc_fanout_sequence pc\<rparr>]"
      "pt_outputs tmpl = map read_output_spec specs" "pt_witness_stacks tmpl = None"
    using fanout_tx_parses [OF hex template pays tmpl_len _ _ outs, of "''tx_hex''"] by auto
  obtain hash where h: "default_ctv_hash_for_parsed_tx X tmpl 0 = Inr hash" "pc_ctv_hash_hex pc = hex_encode X hash"
    using hash by (auto simp: default_ctv_hash_hex_def tmpl and_then_Inr QBIT_CTV_INPUT_INDEX_def)
  have hlen: "length hash = 32"
    using h(1) sha by (auto simp: default_ctv_hash_for_parsed_tx_def and_then_Inr ok_or_Inr Let_def sha256_array_def
        sha256_spec_def split: if_splits)
  let ?stack = "[ctv_leaf_script hash, [QBIT_P2MR_CONTROL_BLOCK]]"
  from fanout_tx_other_parent [OF hex template txid, of vout ?stack] obtain tx_hex where
    tx: "fanout_tx_hex X txid vout (pc_outputs pc) (fanout_has_cpfp_anchor (pc_fanout_fee_sats pc)) (pc_fanout_lock_time pc)
      (pc_fanout_sequence pc) ?stack True = Inr tx_hex"
    and "length tx_hex \<le> length (pc_fanout_tx_template_hex pc) + 80"
    by (auto simp: serialized_witness_length [OF hlen])
  then have txlen: "length tx_hex < 2 ^ 64"
    using len by simp
  have items: "length item < 2 ^ 64" if "item \<in> set ?stack" for item
    using that leaf_script_length [OF hlen] by auto
  obtain fanout where fanout: "parse_transaction_hex X tx_hex ''tx_hex'' = Inr fanout"
    and F: "pt_version fanout = CTV_FANOUT_TX_VERSION" "pt_lock_time fanout = pc_fanout_lock_time pc"
      "pt_inputs fanout = [\<lparr>pi_prev_txid_hex = to_ascii_lowercase txid, pi_prev_vout = vout, pi_script_sig = [],
        pi_sequence = pc_fanout_sequence pc\<rparr>]"
      "pt_outputs fanout = map read_output_spec specs" "pt_witness_stacks fanout = Some [?stack]"
    using fanout_tx_parses [OF hex tx pays txlen _ items outs, of "''tx_hex''"] specs by auto
  have "default_ctv_hash_for_parsed_tx X fanout 0 = default_ctv_hash_for_parsed_tx X tmpl 0"
    by (rule ctv_hash_cong) (simp_all add: T F)
  moreover have "validate_fanout_template tmpl = Inr ()"
    by (simp add: fanout_template_Inr T)
  ultimately have "finished_tx X pc hash txid vout tx_hex tmpl fanout"
    using parse_any_field [OF tmpl] parse_any_field [OF fanout] h(1) F specs anchor by (simp add: finished_tx_def)
  then show ?thesis
    using tx anchor h(2) hlen by (auto simp: witnessed_fanout_tx_hex_def)
qed

lemma sha_hex_valid:
  assumes "hex_spec X" and "length hash = 32"
  shows "validate_canonical_sha256_hex X (hex_encode X hash) field = Inr ()"
  using assms hex_decode_encode by (auto simp: canonical_sha256_Inr)

lemma canonical_valid: "hex_spec X \<Longrightarrow> validate_canonical_hex X (hex_encode X bytes) field = Inr ()"
  using hex_decode_encode by (auto simp: canonical_hex_Inr)

lemma sha256_length: "sha256_spec X \<Longrightarrow> length (sha256_array X bytes) = 32"
  by (simp add: sha256_array_def sha256_spec_def)

lemma txid_is_hex: "sha256_spec X \<Longrightarrow> \<exists>hash. txid_hex X tx = hex_encode X hash \<and> length hash = 32"
  by (auto simp: txid_hex_def hash256_array_def sha256_length)

lemma finished_outputs:
  assumes hex: "hex_spec X" and pre: "verify_precommitment X pc = Inr ()"
    and specs: "fanout_output_specs X (pc_outputs pc) (pc_anchor_vout pc \<noteq> None) = Inr specs"
    and outs: "pt_outputs fanout = map read_output_spec specs"
    and vouts: "\<And>i. i < length (pc_outputs pc) \<Longrightarrow> co_vout (pc_outputs pc ! i) = of_nat i"
    and m: "cm_precommitment m = pc" "cm_covenant_output_value_sats m = pc_covenant_output_value_sats pc"
  shows "verify_manifest_outputs X m fanout = Inr ()"
proof -
  note facts = verify_precommitmentD [OF pre]
  let ?payouts = "pc_outputs pc"
  from output_specs_Inr [OF hex specs] outputs_pay [OF pre] obtain front rear where fb: "specs = front @ rear" "length front = length ?payouts"
    and front: "\<And>i. i < length ?payouts \<Longrightarrow> tos_amount_sats (front ! i) = co_amount_sats (?payouts ! i) \<and>
      pays_program X (?payouts ! i) (tos_script_pubkey (front ! i))"
    and rear: "if pc_anchor_vout pc \<noteq> None then \<exists>script. hex_decode X P2A_ANCHOR_SCRIPT_PUBKEY_HEX = Inr script \<and>
       length script = 4 \<and> rear = [\<lparr>tos_amount_sats = 0, tos_script_pubkey = script\<rparr>] else rear = []"
    by blast
  have total: "outputs_sum ?payouts + fees_sum ?payouts < 2 ^ 64"
    using facts(5) u64_lt [of "pc_covenant_output_value_sats pc"] by simp
  have "\<exists>s f. try_fold (manifest_output_step X) (0, 0) (enumerate 0 (zip (pt_outputs fanout) ?payouts)) = Inr (s, f) \<and>
      unat s = unat (0 :: u64) + outputs_sum ?payouts \<and> unat f = unat (0 :: u64) + fees_sum ?payouts"
  proof (rule manifest_fold_ok)
    show "length ?payouts \<le> length (pt_outputs fanout)"
      by (simp add: outs fb)
    fix i assume i: "i < length ?payouts"
    then have "pt_outputs fanout ! i = read_output_spec (front ! i)"
      by (simp add: outs fb nth_append)
    then show "co_vout (?payouts ! i) = of_nat (0 + i) \<and> pto_amount_sats (pt_outputs fanout ! i) = co_amount_sats (?payouts ! i) \<and>
        pays_program X (?payouts ! i) (pto_script_pubkey (pt_outputs fanout ! i))"
      using front [OF i] vouts [OF i] by (simp add: read_output_spec_def)
  qed (use total in simp_all)
  then obtain s f where fold: "try_fold (manifest_output_step X) (0, 0) (enumerate 0 (zip (pt_outputs fanout) ?payouts)) = Inr (s, f)"
    and "unat s = outputs_sum ?payouts" "unat f = fees_sum ?payouts"
    by auto
  then have sums: "s = pc_fanout_output_sum_sats pc" "f = pc_fanout_fee_sats pc"
    "checked_add s f = Some (pc_covenant_output_value_sats pc)"
    using facts(3-5) total by (auto simp: word_unat_eq_iff checked_simps)
  have anchor: "(case pc_anchor_vout pc of
        Some vout \<Rightarrow> ensure_fee_anchor_output X (pt_outputs fanout ! length ?payouts) vout (length ?payouts)
      | None \<Rightarrow> Inr ()) = Inr ()"
    using rear facts(9) [unfolded anchor_choice_Inr]
    by (auto simp: ensure_fee_anchor_output_def outs fb nth_append read_output_spec_def CTV_FANOUT_ANCHOR_VALUE_SATS_def
        p2a_anchor_script_pubkey_def split: option.splits if_splits)
  have len: "length (pt_outputs fanout) = (if pc_anchor_vout pc \<noteq> None then length ?payouts + 1 else length ?payouts)"
    using rear by (auto simp: outs fb)
  show ?thesis
    unfolding verify_manifest_outputs_def Let_def m
    using fold sums anchor len by simp
qed

lemma fanout_tx_length:
  assumes hex: "hex_spec X" and h: "fanout_tx_hex X txid vout outs anchor lock sequence stack w = Inr h"
    and pays: "\<And>out. out \<in> set outs \<Longrightarrow> \<exists>script. pays_program X out script"
  shows "length outs \<le> length h"
proof -
  from h obtain specs where specs: "fanout_output_specs X outs anchor = Inr specs"
    and le: "length (concat (map serialize_output_spec specs)) \<le> length h"
    by (auto simp: fanout_tx_hex_def and_then_Inr serialize_tx_hex_def length_hex_encode [OF hex])
  have "length specs \<le> length (concat (map serialize_output_spec specs))"
    by (rule length_concat_nonempty) (simp add: serialize_output_spec_def)
  moreover have "length outs \<le> length specs"
    using output_specs_Inr [OF hex specs pays] by auto
  ultimately show ?thesis
    using le by linarith
qed

lemma manifest_finalizes:
  assumes hex: "hex_spec X" and sha: "sha256_spec X"
    and prep: "prepare_ctv_fanout_precommitment X input = Inr p"
    and len: "length (pc_fanout_tx_template_hex (pf_precommitment p)) < 2 ^ 63"
    and parent: "parse_transaction_hex X parent_hex field = Inr parent" and shape: "ensure_coinbase_shape parent = Inr ()"
    and cov: "slice_get (pt_outputs parent) (unat vout) = Some covenant"
    and val: "pto_amount_sats covenant = pc_covenant_output_value_sats (pf_precommitment p)"
    and script: "hex_encode X (pto_script_pubkey covenant) = pc_covenant_script_pubkey_hex (pf_precommitment p)"
  shows "\<exists>m. build_ctv_fanout_manifest_from_precommitment X (pf_precommitment p) parent_hex vout = Inr m \<and>
    cm_precommitment m = pf_precommitment p \<and> cm_precommitment_sha256_hex m = pf_precommitment_sha256_hex p \<and>
    cm_commitment_witness_leaf_hex m = pf_commitment_witness_leaf_hex p \<and>
    cm_parent_coinbase_txid m = txid_hex X parent \<and> cm_parent_coinbase_vout m = vout \<and>
    cm_parent_coinbase_tx_hex m = to_ascii_lowercase parent_hex \<and>
    cm_covenant_output_value_sats m = pc_covenant_output_value_sats (pf_precommitment p) \<and>
    verify_ctv_fanout_manifest_structure X m = Inr ()"
proof -
  from prepareD [OF prep] obtain pc program bytes where pc: "pf_precommitment p = pc"
    and schema: "pc_schema pc = CTV_FANOUT_PRECOMMITMENT_SCHEMA"
    and height: "pc_block_height pc \<le> 4294967295" and mode: "pc_settlement_mode pc \<noteq> DirectCoinbase"
    and chunk: "pc_chunk_count pc \<noteq> 0" "pc_chunk_index pc < pc_chunk_count pc"
    and outs: "canonical_fanout_outputs X (pci_payouts input) = Inr (pc_outputs pc)"
    and sums: "output_sum (pc_outputs pc) = Inr (pc_fanout_output_sum_sats pc)"
      "output_fee_sum (pc_outputs pc) = Inr (pc_fanout_fee_sats pc)"
    and sequence: "expected_fanout_sequence (pc_chunk_index pc) = Inr (pc_fanout_sequence pc)"
    and template: "fanout_tx_hex X (concat (replicate 32 ''00'')) 0 (pc_outputs pc) (fanout_has_cpfp_anchor (pc_fanout_fee_sats pc))
      (pc_fanout_lock_time pc) (pc_fanout_sequence pc) [] False = Inr (pc_fanout_tx_template_hex pc)"
    and hash: "default_ctv_hash_hex X (pc_fanout_tx_template_hex pc) (unat QBIT_CTV_INPUT_INDEX) = Inr (pc_ctv_hash_hex pc)"
    and leaf: "ctv_leaf_script_hex X (pc_ctv_hash_hex pc) = Inr (pc_ctv_leaf_script_hex pc)"
    and prog: "p2mr_program_for_ctv_leaf_hex X (pc_ctv_leaf_script_hex pc) = Inr (pc_p2mr_program_hex pc)"
      "decode_program_hex X (pc_p2mr_program_hex pc) ''p2mr_program_hex'' = Inr program"
      "pc_covenant_script_pubkey_hex pc = hex_encode X (p2mr_script_pubkey program)"
    and anchor: "anchor_vout_for_fee (length (pc_outputs pc)) (pc_fanout_fee_sats pc) = Inr (pc_anchor_vout pc)"
    and misc: "pc_fanout_input_index pc = QBIT_CTV_INPUT_INDEX" "pc_p2mr_control_block_hex pc = hex_encode X [QBIT_P2MR_CONTROL_BLOCK]"
    and pre: "verify_precommitment X pc = Inr ()" and json: "precommitment_json X pc = Inr bytes"
    and sha_hex: "pf_precommitment_sha256_hex p = ctv_sha256_hex X bytes"
      "commitment_witness_leaf_hex X (pf_precommitment_sha256_hex p) = Inr (pf_commitment_witness_leaf_hex p)"
    by (elim exE conjE) (rule that; assumption)
  note val = val [unfolded pc] and script = script [unfolded pc] and len = len [unfolded pc]
  note facts = verify_precommitmentD [OF pre]
  have vout: "unat vout < length (pt_outputs parent)" "covenant = pt_outputs parent ! unat vout"
    using cov by (simp_all add: slice_get_Some)
  have max: "pc_covenant_output_value_sats pc \<le> QBIT_MAX_MONEY_SATS"
    using parsed_outputs_bounded [OF parent, of covenant] nth_mem [OF vout(1)] vout(2) val by simp
  have few: "length (pc_outputs pc) < 2 ^ 63"
    using fanout_tx_length [OF hex template] outputs_pay [OF pre] len by (meson le_less_trans)
  obtain id_bytes where id_bytes: "txid_hex X parent = hex_encode X id_bytes" "length id_bytes = 32"
    using txid_is_hex [OF sha] by blast
  have id_dec: "hex_decode X (txid_hex X parent) = Inr id_bytes"
    unfolding id_bytes(1) by (rule hex_decode_encode [OF hex])
  from finished_txI [OF hex sha pre template hash max len few id_dec id_bytes(2), of vout] obtain h tx_hex tmpl fanout where
    h: "length h = 32" "pc_ctv_hash_hex pc = hex_encode X h"
    and tx: "witnessed_fanout_tx_hex X (txid_hex X parent) vout (pc_outputs pc) (pc_anchor_vout pc \<noteq> None) (pc_fanout_lock_time pc)
      (pc_fanout_sequence pc) (ctv_leaf_script h) = Inr tx_hex"
    and fin: "finished_tx X pc h (txid_hex X parent) vout tx_hex tmpl fanout"
    by blast
  note fin = fin [unfolded finished_tx_def]
  let ?leaf = "ctv_leaf_script h"
  have h_dec: "hex_decode X (pc_ctv_hash_hex pc) = Inr h"
    unfolding h(2) by (rule hex_decode_encode [OF hex])
  have leaf_hex: "pc_ctv_leaf_script_hex pc = hex_encode X ?leaf"
    using leaf by (auto simp: ctv_leaf_script_hex_def and_then_Inr decode_hash_Inr h_dec)
  then have leaf_dec: "hex_decode X (pc_ctv_leaf_script_hex pc) = Inr ?leaf"
    by (simp add: hex_decode_encode [OF hex])
  have prog_hex: "pc_p2mr_program_hex pc = hex_encode X (p2mr_tapleaf_hash X ?leaf)"
    using prog(1) by (auto simp: p2mr_program_for_ctv_leaf_hex_def and_then_Inr map_err_Inr leaf_dec)
  then have "program = p2mr_tapleaf_hash X ?leaf"
    using prog(2) by (simp add: decode_program_Inr hex_decode_encode [OF hex])
  then have cov_hex: "pc_covenant_script_pubkey_hex pc = hex_encode X (p2mr_script_pubkey (p2mr_tapleaf_hash X ?leaf))"
    using prog(3) by simp
  have lowercase: "to_ascii_lowercase (txid_hex X parent) = txid_hex X parent"
    unfolding id_bytes(1) by (rule lowercase_hex_encode [OF hex])
  obtain ph where ph: "hex_decode X parent_hex = Inr ph"
    using parent by (auto simp: parse_transaction_hex_def and_then_Inr map_err_Inr)
  have parent': "parse_transaction_hex X (hex_encode X ph) fd = Inr parent" for fd
    using parse_any_field [OF parent, of fd] hex_decode_encode [OF hex, of ph] by (simp add: parse_transaction_hex_def ph)
  obtain th where th: "hex_decode X tx_hex = Inr th" "tx_hex = hex_encode X th"
    using tx by (auto simp: witnessed_fanout_tx_hex_def fanout_tx_hex_def and_then_Inr serialize_tx_hex_def hex_decode_encode [OF hex])
  obtain tm where tm: "hex_decode X (pc_fanout_tx_template_hex pc) = Inr tm" "pc_fanout_tx_template_hex pc = hex_encode X tm"
    using facts(10) by (auto simp: verify_precommitment_hex_def and_then_Inr canonical_hex_Inr)
  obtain rh qh where rh: "hex_decode X (pc_reward_manifest_sha256_hex pc) = Inr rh" "length rh = 32" "pc_reward_manifest_sha256_hex pc = hex_encode X rh"
    and qh: "hex_decode X (pc_payout_policy_manifest_sha256_hex pc) = Inr qh" "length qh = 32" "pc_payout_policy_manifest_sha256_hex pc = hex_encode X qh"
    using facts(10) by (auto simp: verify_precommitment_hex_def and_then_Inr canonical_sha256_Inr split: if_splits)
  obtain lh where lh: "pf_commitment_witness_leaf_hex p = hex_encode X lh" "length lh = 32"
    using sha_hex(2) sha256_length [OF sha] that
    by (auto simp: commitment_witness_leaf_hex_def and_then_Inr dest!: sym [of _ "pf_commitment_witness_leaf_hex p"])
  obtain fh where fh: "txid_hex X fanout = hex_encode X fh" "length fh = 32"
    using txid_is_hex [OF sha] by blast
  let ?m = "\<lparr>cm_schema = CTV_FANOUT_MANIFEST_SCHEMA, cm_precommitment = pc,
      cm_precommitment_sha256_hex = pf_precommitment_sha256_hex p,
      cm_commitment_witness_leaf_hex = pf_commitment_witness_leaf_hex p, cm_parent_coinbase_txid = txid_hex X parent,
      cm_parent_coinbase_tx_hex = hex_encode X ph, cm_parent_coinbase_vout = vout,
      cm_covenant_output_value_sats = pto_amount_sats covenant,
      cm_covenant_script_pubkey_hex = hex_encode X (p2mr_script_pubkey (p2mr_tapleaf_hash X ?leaf)),
      cm_fanout_tx_hex = tx_hex, cm_fanout_txid = txid_hex X fanout\<rparr>"
  have ok: "validate_chunk_identity (pc_chunk_index pc) (pc_chunk_count pc) = Inr ()"
      "validate_sha256_hex X (pc_reward_manifest_sha256_hex pc) fd = Inr ()"
      "validate_sha256_hex X (pc_payout_policy_manifest_sha256_hex pc) fd = Inr ()"
      "validate_canonical_sha256_hex X (pf_precommitment_sha256_hex p) fd = Inr ()"
      "validate_canonical_sha256_hex X (pf_commitment_witness_leaf_hex p) fd = Inr ()"
      "validate_canonical_sha256_hex X (txid_hex X parent) fd = Inr ()"
      "validate_canonical_sha256_hex X (txid_hex X fanout) fd = Inr ()"
      "validate_canonical_hex X tx_hex fd = Inr ()" for fd
    using chunk rh(1,2) qh(1,2) sha_hex_valid [OF hex] lh id_bytes fh sha256_length [OF sha] th(2) canonical_valid [OF hex]
    by (simp_all add: chunk_identity_Inr sha256_hex_Inr sha_hex(1) ctv_sha256_hex_def)
  have "verify_manifest_fields X ?m = Inr ()"
    by (simp add: verify_manifest_fields_def pre ok canonical_valid [OF hex] sha_hex(2) sha_hex(1) [symmetric] mode height
        misc canonical_precommitment_bytes_def json)
  moreover have "verify_manifest_parent X ?m = Inr ()"
    by (simp add: verify_manifest_parent_def parent' shape cov val script cov_hex)
  moreover have "verify_manifest_fanout_input X ?m = Inr (tmpl, fanout)"
    using fin sequence facts(1) by (simp add: verify_manifest_fanout_input_def QBIT_CTV_INPUT_INDEX_def lowercase)
  moreover have "verify_manifest_covenant X ?m tmpl fanout = Inr ()"
    using fin by (simp add: verify_manifest_covenant_def misc QBIT_CTV_INPUT_INDEX_def h(2) leaf_hex prog_hex fanout_witness_Inr)
  moreover have "verify_manifest_outputs X ?m fanout = Inr ()"
  proof -
    from fin obtain specs where "fanout_output_specs X (pc_outputs pc) (pc_anchor_vout pc \<noteq> None) = Inr specs"
      "pt_outputs fanout = map read_output_spec specs"
      by blast
    then show ?thesis
      by (rule finished_outputs [OF hex pre]) (simp_all add: val facts(12))
  qed
  ultimately have verified: "verify_ctv_fanout_manifest_structure X ?m = Inr ()"
    by (simp add: verify_ctv_fanout_manifest_structure_def)
  have lower: "to_ascii_lowercase (pc_reward_manifest_sha256_hex pc) = pc_reward_manifest_sha256_hex pc"
      "to_ascii_lowercase (pc_payout_policy_manifest_sha256_hex pc) = pc_payout_policy_manifest_sha256_hex pc"
    unfolding rh(3) qh(3) by (simp_all only: lowercase_hex_encode [OF hex])
  have normal: "normalize_hex X (pc_fanout_tx_template_hex pc) = Inr (pc_fanout_tx_template_hex pc)"
      "normalize_hex X parent_hex = Inr (hex_encode X ph)" "normalize_hex X tx_hex = Inr tx_hex"
    using tm th by (simp_all add: normalize_hex_def ph)
  have same_pc: "\<lparr>pc_schema = CTV_FANOUT_PRECOMMITMENT_SCHEMA, pc_block_height = pc_block_height pc,
      pc_chunk_index = pc_chunk_index pc, pc_chunk_count = pc_chunk_count pc,
      pc_coinbase_value_sats = pc_coinbase_value_sats pc, pc_settlement_mode = pc_settlement_mode pc,
      pc_covenant_output_value_sats = pc_covenant_output_value_sats pc,
      pc_covenant_script_pubkey_hex = hex_encode X (p2mr_script_pubkey (p2mr_tapleaf_hash X ?leaf)),
      pc_fanout_tx_template_hex = pc_fanout_tx_template_hex pc, pc_fanout_input_index = QBIT_CTV_INPUT_INDEX,
      pc_fanout_sequence = pc_fanout_sequence pc, pc_fanout_lock_time = pc_fanout_lock_time pc,
      pc_fanout_output_sum_sats = pc_fanout_output_sum_sats pc, pc_fanout_fee_sats = pc_fanout_fee_sats pc,
      pc_anchor_vout = pc_anchor_vout pc, pc_ctv_hash_hex = hex_encode X h,
      pc_ctv_leaf_script_hex = hex_encode X ?leaf, pc_p2mr_program_hex = hex_encode X (p2mr_tapleaf_hash X ?leaf),
      pc_p2mr_control_block_hex = hex_encode X [QBIT_P2MR_CONTROL_BLOCK],
      pc_reward_manifest_sha256_hex = pc_reward_manifest_sha256_hex pc,
      pc_payout_policy_manifest_sha256_hex = pc_payout_policy_manifest_sha256_hex pc, pc_outputs = pc_outputs pc\<rparr> = pc"
    by (rule ctv_fanout_precommitment.equality) (simp_all add: schema cov_hex misc h(2) leaf_hex prog_hex)
  have "build_ctv_fanout_manifest_from_precommitment X pc parent_hex vout = Inr ?m"
    unfolding build_ctv_fanout_manifest_from_precommitment_def pre parse_any_field [OF parent] shape leaf_dec and_then.simps map_err.simps tx
      build_ctv_fanout_manifest_def
    using fin by (simp add: height mode ok parse_any_field [OF parent] shape cov QBIT_CTV_INPUT_INDEX_def slice_get_def [of "[_]"]
        sequence canonical_outputs_stable [OF hex outs] sums anchor normal lower same_pc [unfolded QBIT_CTV_INPUT_INDEX_def] val canonical_precommitment_bytes_def
        json sha_hex(1) [symmetric] sha_hex(2) verified [unfolded val] Let_def)
  with verified show ?thesis
    unfolding pc using hex_encode_decode [OF hex ph] val by (intro exI [of _ ?m]) simp
qed

end
