(* ===== verification/Ctv_Lifecycle.thy ===== *)
theory Ctv_Lifecycle
  imports Ctv_Finalize
begin

text \<open>
  The whole life of a fanout: when \<open>prepare_ctv_fanout_precommitment\<close> accepts its input, and a
  concrete fanout for the witnesses.
\<close>

section \<open>When a preparation succeeds\<close>

lemma row_pays:
  assumes "hex_spec X" and "normalizes X q p" and "fanout_row X k p out"
  shows "\<exists>script. pays_program X out script"
  using assms hex_decode_encode [OF assms(1)]
  by (auto simp: normalizes_def fanout_row_def pays_program_def)

text \<open>The facts about canonical outputs that the later checks ask for.\<close>

lemma canonical_outputsD:
  assumes hex: "hex_spec X" and outs: "canonical_fanout_outputs X payouts = Inr outs"
  shows "outs \<noteq> []" and "distinct (map fanout_key_of outs)"
    and "\<And>i. i < length outs \<Longrightarrow> co_vout (outs ! i) = of_nat i \<and> co_amount_sats (outs ! i) \<noteq> 0 \<and>
      (\<exists>script. pays_program X (outs ! i) script)"
proof -
  from outs obtain norm where ne: "payouts \<noteq> []" and norm: "list_all2 (normalizes X) payouts norm"
    and rows: "list_all2 (\<lambda>(i, p) out. fanout_row X i p out) (enumerate 0 (sort_by compare_payouts norm)) outs"
    and d: "distinct (map payout_key_of norm)"
    by (auto simp: canonical_outputs_Inr)
  let ?ps = "sort_by compare_payouts norm"
  from rows_nth [OF rows] have len: "length outs = length ?ps"
    and row: "\<And>i. i < length ?ps \<Longrightarrow> fanout_row X i (?ps ! i) (outs ! i)"
    by auto
  show "outs \<noteq> []"
    using ne norm len by (auto dest: list_all2_lengthD)
  have "map fanout_key_of outs = map payout_key_of ?ps"
    using len row_keys(3) [OF row] by (intro nth_equalityI) (simp_all del: length_sort_by)
  then show "distinct (map fanout_key_of outs)"
    using d by (simp only: distinct_map_sort_by)
  fix i assume "i < length outs"
  then have i: "i < length ?ps"
    using len by simp
  have "\<exists>q. normalizes X q (?ps ! i)"
  proof -
    from nth_mem [OF i] obtain j where "j < length norm" "?ps ! i = norm ! j"
      by (auto simp: in_set_conv_nth)
    then show ?thesis
      using norm by (auto simp: list_all2_conv_all_nth)
  qed
  then show "co_vout (outs ! i) = of_nat i \<and> co_amount_sats (outs ! i) \<noteq> 0 \<and> (\<exists>script. pays_program X (outs ! i) script)"
    using row [OF i] row_pays [OF hex _ row [OF i]] by (auto simp: fanout_row_def)
qed

lemma precommitment_fold_ok:
  assumes "unat s + outputs_sum outs < 2 ^ 64" and "unat f + fees_sum outs < 2 ^ 64"
    and "distinct (map fanout_key_of outs)" and "set (map fanout_key_of outs) \<inter> seen = {}"
    and "\<And>i. i < length outs \<Longrightarrow> co_vout (outs ! i) = of_nat (k + i) \<and> co_amount_sats (outs ! i) \<noteq> 0 \<and>
      (\<exists>script. pays_program X (outs ! i) script)"
  shows "\<exists>s' f' seen'. try_fold (precommitment_output_step X) ((s, f), seen) (enumerate k outs) = Inr ((s', f'), seen') \<and>
    unat s' = unat s + outputs_sum outs \<and> unat f' = unat f + fees_sum outs"
  using assms
proof (induction outs arbitrary: s f seen k)
  case Nil
  then show ?case by simp
next
  case (Cons out outs)
  obtain s1 where s1: "checked_add s (co_amount_sats out) = Some s1"
    using Cons.prems(1) by (cases "checked_add s (co_amount_sats out)") (auto simp: checked_simps)
  obtain f1 where f1: "checked_add f (co_fee_sats out) = Some f1"
    using Cons.prems(2) by (cases "checked_add f (co_fee_sats out)") (auto simp: checked_simps)
  from Cons.prems(5) [of 0] have this_out: "co_vout out = of_nat k" "co_amount_sats out \<noteq> 0" "\<exists>script. pays_program X out script"
    by auto
  then have step: "precommitment_output_step X ((s, f), seen) (k, out) = Inr ((s1, f1), insert (fanout_key_of out) seen)"
    using Cons.prems(4)
    by (auto simp: precommitment_output_step_def pays_program_def s1 f1 decode_program_hex_def canonical_p2mr_program_hex_def
        fanout_key_of_def)
  have "\<exists>s' f' seen'. try_fold (precommitment_output_step X) ((s1, f1), insert (fanout_key_of out) seen) (enumerate (Suc k) outs) =
      Inr ((s', f'), seen') \<and> unat s' = unat s1 + outputs_sum outs \<and> unat f' = unat f1 + fees_sum outs"
  proof (rule Cons.IH)
    show "unat s1 + outputs_sum outs < 2 ^ 64" "unat f1 + fees_sum outs < 2 ^ 64"
      using Cons.prems(1,2) s1 f1 by (auto simp: checked_simps)
    show "distinct (map fanout_key_of outs)" "set (map fanout_key_of outs) \<inter> insert (fanout_key_of out) seen = {}"
      using Cons.prems(3,4) by auto
    fix i assume "i < length outs"
    then show "co_vout (outs ! i) = of_nat (Suc k + i) \<and> co_amount_sats (outs ! i) \<noteq> 0 \<and> (\<exists>script. pays_program X (outs ! i) script)"
      using Cons.prems(5) [of "Suc i"] by simp
  qed
  then show ?case
    using s1 f1 by (auto simp: step checked_simps)
qed

lemma output_sums:
  assumes "outputs_sum outs + fees_sum outs < 2 ^ 64"
  shows "\<exists>s f v. output_sum outs = Inr s \<and> output_fee_sum outs = Inr f \<and> checked_add s f = Some v \<and>
    unat s = outputs_sum outs \<and> unat f = fees_sum outs \<and> unat v = outputs_sum outs + fees_sum outs"
proof -
  obtain s :: u64 where s: "unat s = outputs_sum outs"
    using assms ex_unat [of "outputs_sum outs", where 'a = 64] by auto
  obtain f :: u64 where f: "unat f = fees_sum outs"
    using assms ex_unat [of "fees_sum outs", where 'a = 64] by auto
  obtain v :: u64 where v: "unat v = outputs_sum outs + fees_sum outs"
    using assms ex_unat [of "outputs_sum outs + fees_sum outs", where 'a = 64] by auto
  have "output_sum outs = Inr s" "output_fee_sum outs = Inr f" "checked_add s f = Some v"
    using s f v assms by (simp_all add: output_sum_def output_fee_sum_def checked_sum_Inr outputs_sum_def fees_sum_def checked_simps
        comp_def)
  then show ?thesis
    using s f v by blast
qed

lemma sequence_fits:
  assumes "unat index < 2 ^ 31"
  shows "\<exists>sequence. expected_fanout_sequence index = Inr sequence \<and>
    checked_add CTV_FANOUT_SEQUENCE_BASE index = Some sequence"
proof -
  have "unat CTV_FANOUT_SEQUENCE_BASE = 2 ^ 31"
    by (simp add: CTV_FANOUT_SEQUENCE_BASE_def SEQUENCE_LOCKTIME_DISABLE_FLAG_def)
  then obtain sequence where "checked_add CTV_FANOUT_SEQUENCE_BASE index = Some sequence"
    using assms by (cases "checked_add CTV_FANOUT_SEQUENCE_BASE index") (auto simp: checked_simps)
  then show ?thesis
    by (simp add: expected_sequence_Inr)
qed

lemma compact_size_length: "length (ctv_compact_size v) \<le> 9"
  by (simp add: ctv_compact_size_def)

lemma fanout_specs_ok:
  assumes "hex_spec X" and "\<And>out. out \<in> set outs \<Longrightarrow> \<exists>script. pays_program X out script"
    and "hex_decode X P2A_ANCHOR_SCRIPT_PUBKEY_HEX = Inr anchor_script"
  shows "\<exists>specs. fanout_output_specs X outs anchor = Inr specs"
proof -
  have one: "\<exists>spec. output_spec_from_fanout_output X out = Inr spec" if "out \<in> set outs" for out
    using assms(2) [OF that] hex_decode_encode [OF assms(1)]
    by (auto simp: output_spec_from_fanout_output_def pays_program_def)
  then obtain g where "\<And>out. out \<in> set outs \<Longrightarrow> output_spec_from_fanout_output X out = Inr (g out)"
    by metis
  then have "try_map (output_spec_from_fanout_output X) outs = Inr (map g outs)"
    by (rule try_map_total)
  then show ?thesis
    by (simp add: fanout_output_specs_def output_specs_with_anchor_def p2a_anchor_output_spec_def p2a_anchor_script_pubkey_def assms(3))
qed

lemma concat_length_le:
  "(\<And>x. x \<in> set xs \<Longrightarrow> length (f x) \<le> k) \<Longrightarrow> length (concat (map f xs)) \<le> k * length xs"
  by (induction xs) (fastforce simp: algebra_simps)+

text \<open>Each output takes at most 51 bytes, the rest of an unsigned fanout at most 68.\<close>

lemma template_ok:
  assumes hex: "hex_spec X" and pays: "\<And>out. out \<in> set outs \<Longrightarrow> \<exists>script. pays_program X out script"
    and anchor_script: "hex_decode X P2A_ANCHOR_SCRIPT_PUBKEY_HEX = Inr anchor_script"
    and zeros: "hex_decode X (concat (replicate 32 ''00'')) = Inr (replicate 32 0)"
  shows "\<exists>h. fanout_tx_hex X (concat (replicate 32 ''00'')) 0 outs anchor lock sequence [] False = Inr h \<and>
    length h \<le> 102 * length outs + 300"
proof -
  obtain specs where specs: "fanout_output_specs X outs anchor = Inr specs"
    using fanout_specs_ok [OF hex pays anchor_script] by blast
  from output_specs_Inr [OF hex specs pays] obtain front rear where fb: "specs = front @ rear" "length front = length outs"
    and front: "\<And>i. i < length outs \<Longrightarrow> length (tos_script_pubkey (front ! i)) = 34"
    and rear: "if anchor then \<exists>script. hex_decode X P2A_ANCHOR_SCRIPT_PUBKEY_HEX = Inr script \<and> length script = 4 \<and>
       rear = [\<lparr>tos_amount_sats = 0, tos_script_pubkey = script\<rparr>] else rear = []"
    by blast
  have short: "length (serialize_output_spec spec) \<le> 51" if "spec \<in> set specs" for spec
  proof -
    have "length (tos_script_pubkey spec) \<le> 34"
      using that front rear fb by (auto simp: in_set_conv_nth split: if_splits)
    then show ?thesis
      using compact_size_length [of "of_nat (length (tos_script_pubkey spec))"] by (simp add: serialize_output_spec_def)
  qed
  have "length (concat (map serialize_output_spec specs)) \<le> 51 * length specs"
    by (rule concat_length_le) (rule short)
  also have "\<dots> \<le> 51 * (length outs + 1)"
    using rear fb by (auto split: if_splits)
  finally have outs_len: "length (concat (map serialize_output_spec specs)) \<le> 51 * (length outs + 1)" .
  have input: "serialize_input_spec X \<lparr>ti_prev_txid_hex = hex_encode X (replicate 32 0), ti_prev_vout = 0, ti_script_sig = [],
      ti_sequence = sequence, ti_witness_stack = []\<rparr> =
      Inr (replicate 32 0 @ to_le_bytes (0 :: u32) @ ctv_compact_size 0 @ to_le_bytes sequence)"
    by (simp add: serialize_input_spec_def hex_decode_encode [OF hex])
  show ?thesis
    using specs outs_len compact_size_length [of "of_nat (length specs)"] compact_size_length [of 0] compact_size_length [of 1]
    by (simp add: fanout_tx_hex_def normalize_txid_hex_def zeros serialize_tx_hex_def input length_hex_encode [OF hex]
        del: length_concat)
qed

lemma ctv_hash_ok:
  assumes sha: "sha256_spec X" and "pt_inputs tx = [i]" and "pi_script_sig i = []" and "length (pt_outputs tx) < 2 ^ 32"
  shows "\<exists>hash. default_ctv_hash_for_parsed_tx X tx 0 = Inr hash \<and> length hash = 32"
  using assms sha256_length [OF sha]
  by (simp add: default_ctv_hash_for_parsed_tx_def u32_try_from_usize_def Let_def)

text \<open>The template, its hash, the leaf and the covenant program, as \<open>prepare\<close> computes them.\<close>

lemma covenant_ok:
  assumes hex: "hex_spec X" and sha: "sha256_spec X"
    and pays: "\<And>out. out \<in> set outs \<Longrightarrow> (\<exists>script. pays_program X out script) \<and> co_amount_sats out \<le> QBIT_MAX_MONEY_SATS"
    and anchor_script: "hex_decode X P2A_ANCHOR_SCRIPT_PUBKEY_HEX = Inr anchor_script"
    and zeros: "hex_decode X (concat (replicate 32 ''00'')) = Inr (replicate 32 0)"
    and few: "length outs < 2 ^ 32 - 1"
  shows "\<exists>h hash. unsigned_fanout_tx_hex X (concat (replicate 32 ''00'')) 0 outs anchor lock sequence = Inr (hex_encode X h) \<and>
    length (hex_encode X h) < 2 ^ 63 \<and> length hash = 32 \<and>
    default_ctv_hash_hex X (hex_encode X h) (unat QBIT_CTV_INPUT_INDEX) = Inr (hex_encode X hash)"
proof -
  from template_ok [OF hex _ anchor_script zeros, of outs anchor lock sequence] pays obtain t where
    t: "fanout_tx_hex X (concat (replicate 32 ''00'')) 0 outs anchor lock sequence [] False = Inr t"
    and len: "length t \<le> 102 * length outs + 300"
    by blast
  then obtain h where h: "t = hex_encode X h"
    by (auto simp: fanout_tx_hex_def and_then_Inr serialize_tx_hex_def)
  have short: "length t < 2 ^ 63" "length t < 2 ^ 64"
    using len few by simp_all
  from fanout_tx_parses [OF hex t pays short(2), of "''tx_hex''"] few obtain specs tx where
    specs: "fanout_output_specs X outs anchor = Inr specs"
    and tx: "parse_transaction_hex X t ''tx_hex'' = Inr tx" and F: "pt_outputs tx = map read_output_spec specs"
      "pt_inputs tx = [\<lparr>pi_prev_txid_hex = to_ascii_lowercase (concat (replicate 32 ''00'')), pi_prev_vout = 0,
         pi_script_sig = [], pi_sequence = sequence\<rparr>]"
    by auto
  have "length specs \<le> length outs + 1"
    using output_specs_Inr [OF hex specs] pays by (auto split: if_splits)
  then have "length (pt_outputs tx) < 2 ^ 32"
    using few by (simp add: F)
  from ctv_hash_ok [OF sha F(2) _ this] obtain hash where "default_ctv_hash_for_parsed_tx X tx 0 = Inr hash" "length hash = 32"
    by auto
  then show ?thesis
    using t short(1) tx unfolding h
    by (intro exI [of _ h] exI [of _ hash]) (simp add: unsigned_fanout_tx_hex_def default_ctv_hash_hex_def QBIT_CTV_INPUT_INDEX_def)
qed

lemma tapleaf_length: "sha256_spec X \<Longrightarrow> length (p2mr_tapleaf_hash X script) = 32"
  by (simp add: p2mr_tapleaf_hash_def tagged_hash_def Let_def sha256_spec_def)

lemma anchor_vout_ok:
  assumes "n < 2 ^ 32 - 1"
  shows "anchor_vout_for_fee n fee = Inr (if fee = 0 then Some (of_nat n) else None)"
  using assms by (simp add: anchor_vout_for_fee_def fanout_has_cpfp_anchor_def u32_try_from_usize_def)

lemma prepare_succeeds:
  assumes hex: "hex_spec X" and sha: "sha256_spec X"
    and height: "pci_block_height input \<le> 4294967295" and mode: "pci_settlement_mode input \<noteq> DirectCoinbase"
    and chunk: "pci_chunk_index input < pci_chunk_count input" "unat (pci_chunk_index input) < 2 ^ 31"
    and reward: "hex_decode X (pci_reward_manifest_sha256_hex input) = Inr rh" "length rh = 32"
    and policy: "hex_decode X (pci_payout_policy_manifest_sha256_hex input) = Inr qh" "length qh = 32"
    and outs: "canonical_fanout_outputs X (pci_payouts input) = Inr outs"
    and value_ok: "outputs_sum outs + fees_sum outs \<le> unat QBIT_MAX_MONEY_SATS" and few: "length outs < 2 ^ 32 - 1"
    and anchor_script: "hex_decode X P2A_ANCHOR_SCRIPT_PUBKEY_HEX = Inr anchor_script"
    and zeros: "hex_decode X (concat (replicate 32 ''00'')) = Inr (replicate 32 0)"
    and json: "\<And>pc. \<exists>bytes. precommitment_json X pc = Inr bytes"
  shows "\<exists>p. prepare_ctv_fanout_precommitment X input = Inr p \<and> pc_outputs (pf_precommitment p) = outs \<and>
    length (pc_fanout_tx_template_hex (pf_precommitment p)) < 2 ^ 63 \<and>
    unat (pf_covenant_output_value_sats p) = outputs_sum outs + fees_sum outs"
proof -
  note canon = canonical_outputsD [OF hex outs]
  have money: "unat QBIT_MAX_MONEY_SATS = 21000000000000000"
    by (simp add: QBIT_MAX_MONEY_SATS_def)
  have pays: "(\<exists>script. pays_program X out script) \<and> co_amount_sats out \<le> QBIT_MAX_MONEY_SATS" if out: "out \<in> set outs" for out
  proof -
    have "unat (co_amount_sats out) \<le> outputs_sum outs"
      unfolding outputs_sum_def using out by (intro member_le_sum_list) auto
    then show ?thesis
      using value_ok canon(3) out by (auto simp: word_le_nat_alt in_set_conv_nth)
  qed
  have total: "outputs_sum outs + fees_sum outs < 2 ^ 64"
    using value_ok money by simp
  from output_sums [OF total] obtain s f v where sums: "output_sum outs = Inr s" "output_fee_sum outs = Inr f" "checked_add s f = Some v"
    "unat s = outputs_sum outs" "unat f = fees_sum outs" "unat v = outputs_sum outs + fees_sum outs"
    by blast
  from sequence_fits [OF chunk(2)] obtain sq where sq: "expected_fanout_sequence (pci_chunk_index input) = Inr sq"
    by blast
  from covenant_ok [OF hex sha pays anchor_script zeros few, of "fanout_has_cpfp_anchor f" "ucast (pci_block_height input)" sq]
  obtain h hash where template: "unsigned_fanout_tx_hex X (concat (replicate 32 ''00'')) 0 outs (fanout_has_cpfp_anchor f)
      (ucast (pci_block_height input)) sq = Inr (hex_encode X h)" "length (hex_encode X h) < 2 ^ 63"
    and hash: "length hash = 32" "default_ctv_hash_hex X (hex_encode X h) (unat QBIT_CTV_INPUT_INDEX) = Inr (hex_encode X hash)"
    by blast
  note dec = hex_decode_encode [OF hex]
  define program where "program = p2mr_tapleaf_hash X (ctv_leaf_script hash)"
  have program: "length program = P2MR_PROGRAM_LEN"
    by (simp add: program_def tapleaf_length [OF sha] P2MR_PROGRAM_LEN_def)
  have covenant: "ctv_leaf_script_hex X (hex_encode X hash) = Inr (hex_encode X (ctv_leaf_script hash))"
    "p2mr_program_for_ctv_leaf_hex X (hex_encode X (ctv_leaf_script hash)) = Inr (hex_encode X program)"
    "decode_program_hex X (hex_encode X program) field = Inr program" for field
    using hash(1) program by (simp_all add: ctv_leaf_script_hex_def decode_hash_hex_def dec p2mr_program_for_ctv_leaf_hex_def
        program_def decode_program_hex_def)
  define pc where "pc = \<lparr>pc_schema = CTV_FANOUT_PRECOMMITMENT_SCHEMA, pc_block_height = pci_block_height input,
        pc_chunk_index = pci_chunk_index input, pc_chunk_count = pci_chunk_count input,
        pc_coinbase_value_sats = pci_coinbase_value_sats input, pc_settlement_mode = pci_settlement_mode input,
        pc_covenant_output_value_sats = v, pc_covenant_script_pubkey_hex = hex_encode X (p2mr_script_pubkey program),
        pc_fanout_tx_template_hex = hex_encode X h, pc_fanout_input_index = QBIT_CTV_INPUT_INDEX,
        pc_fanout_sequence = sq, pc_fanout_lock_time = ucast (pci_block_height input),
        pc_fanout_output_sum_sats = s, pc_fanout_fee_sats = f,
        pc_anchor_vout = (if f = 0 then Some (of_nat (length outs)) else None), pc_ctv_hash_hex = hex_encode X hash,
        pc_ctv_leaf_script_hex = hex_encode X (ctv_leaf_script hash),
        pc_p2mr_program_hex = hex_encode X program, pc_p2mr_control_block_hex = hex_encode X [QBIT_P2MR_CONTROL_BLOCK],
        pc_reward_manifest_sha256_hex = to_ascii_lowercase (pci_reward_manifest_sha256_hex input),
        pc_payout_policy_manifest_sha256_hex = to_ascii_lowercase (pci_payout_policy_manifest_sha256_hex input),
        pc_outputs = outs\<rparr>"
  have lower: "to_ascii_lowercase (pci_reward_manifest_sha256_hex input) = hex_encode X rh"
      "to_ascii_lowercase (pci_payout_policy_manifest_sha256_hex input) = hex_encode X qh"
    using hex_encode_decode [OF hex reward(1)] hex_encode_decode [OF hex policy(1)] by simp_all
  have ids: "validate_chunk_identity (pci_chunk_index input) (pci_chunk_count input) = Inr ()"
    using chunk(1) by (auto simp: chunk_identity_Inr)
  have hexes: "verify_precommitment_hex X pc = Inr ()"
    using program hash(1) reward(2) policy(2)
    by (simp add: pc_def verify_precommitment_hex_def canonical_valid [OF hex] sha_hex_valid [OF hex] canonical_p2mr_program_hex_def
        covenant(3) lower)
  have "\<exists>s' f' seen'. try_fold (precommitment_output_step X) ((0, 0), {}) (enumerate 0 outs) = Inr ((s', f'), seen') \<and>
      unat s' = unat (0 :: u64) + outputs_sum outs \<and> unat f' = unat (0 :: u64) + fees_sum outs"
    using total canon(2,3) by (intro precommitment_fold_ok) simp_all
  then obtain seen' where fold: "try_fold (precommitment_output_step X) ((0, 0), {}) (enumerate 0 outs) = Inr ((s, f), seen')"
    using sums(4,5) by (auto simp: word_unat_eq_iff)
  have "verify_anchor_choice pc = Inr ()"
    using few by (simp add: anchor_choice_Inr pc_def unat_of_nat)
  then have pre: "verify_precommitment X pc = Inr ()"
    unfolding verify_precommitment_def hexes using ids sq fold sums(3) canon(1) by (simp add: pc_def)
  obtain bytes where bytes: "precommitment_json X pc = Inr bytes"
    using json by blast
  have "\<exists>leaf. commitment_witness_leaf_hex X (ctv_sha256_hex X bytes) = Inr leaf"
    by (simp add: commitment_witness_leaf_hex_def decode_hash_hex_def ctv_sha256_hex_def dec sha256_length [OF sha])
  moreover have "pc_outputs pc = outs" "pc_fanout_tx_template_hex pc = hex_encode X h" "pc_covenant_output_value_sats pc = v"
    by (simp_all add: pc_def)
  ultimately show ?thesis
    using height mode ids reward policy outs sums sq template hash covenant anchor_vout_ok [OF few] pre bytes
    by (auto simp: prepare_ctv_fanout_precommitment_def validate_sha256_hex_def decode_hash_hex_def Let_def pc_def [symmetric]
        canonical_precommitment_bytes_def)
qed

section \<open>Acceptable payouts\<close>

definition valid_payout :: "'x crates_scheme \<Rightarrow> ctv_fanout_payout \<Rightarrow> bool" where
  "valid_payout X p \<longleftrightarrow>
     cp_amount_sats p \<noteq> 0 \<and> unat (cp_amount_sats p) + unat (cp_fee_sats p) < 2 ^ 64 \<and>
     (if cp_gross_amount_sats p = 0 then cp_fee_sats p = 0
      else unat (cp_gross_amount_sats p) = unat (cp_amount_sats p) + unat (cp_fee_sats p)) \<and>
     (\<exists>program. hex_decode X (cp_p2mr_program_hex p) = Inr program \<and> length program = P2MR_PROGRAM_LEN)"

definition lower_key :: "ctv_fanout_payout \<Rightarrow> fanout_key" where
  "lower_key p = (cp_order_key p, cp_recipient_id p, to_ascii_lowercase (cp_p2mr_program_hex p))"

lemma sum_list_mset_eq: "mset xs = mset ys \<Longrightarrow> sum_list (map f xs) = (sum_list (map f ys) :: nat)"
  by (metis mset_map sum_mset_sum_list)

lemma valid_row:
  assumes "hex_spec X" and "valid_payout X p" and "normalizes X p q"
  shows "\<exists>out. fanout_row X k q out"
proof -
  from assms(2,3) obtain program where program: "hex_decode X (cp_p2mr_program_hex p) = Inr program"
    "length program = P2MR_PROGRAM_LEN" and q: "q = p\<lparr>cp_p2mr_program_hex := hex_encode X program\<rparr>"
    by (auto simp: valid_payout_def normalizes_def)
  let ?gross = "if cp_gross_amount_sats p = 0 then cp_amount_sats p else cp_gross_amount_sats p"
  have "fanout_row X k q \<lparr>co_vout = of_nat k, co_recipient_id = cp_recipient_id q, co_order_key = cp_order_key q,
      co_p2mr_program_hex = cp_p2mr_program_hex q, co_script_pubkey_hex = hex_encode X (p2mr_script_pubkey program),
      co_gross_amount_sats = ?gross, co_fee_sats = cp_fee_sats q, co_amount_sats = cp_amount_sats q\<rparr>"
    using assms(2) program hex_decode_encode [OF assms(1)] by (auto simp: fanout_row_def valid_payout_def q split: if_splits)
  then show ?thesis ..
qed

lemma canonical_outputs_ok:
  assumes hex: "hex_spec X" and ne: "payouts \<noteq> []" and ok: "\<And>p. p \<in> set payouts \<Longrightarrow> valid_payout X p"
    and d: "distinct (map lower_key payouts)"
  shows "\<exists>outs. canonical_fanout_outputs X payouts = Inr outs \<and> length outs = length payouts \<and>
    outputs_sum outs = sum_list (map (unat \<circ> cp_amount_sats) payouts) \<and>
    fees_sum outs = sum_list (map (unat \<circ> cp_fee_sats) payouts)"
proof -
  define norm where "norm = map (\<lambda>p. p\<lparr>cp_p2mr_program_hex := to_ascii_lowercase (cp_p2mr_program_hex p)\<rparr>) payouts"
  let ?ps = "sort_by compare_payouts norm"
  have step: "normalizes X p (p\<lparr>cp_p2mr_program_hex := to_ascii_lowercase (cp_p2mr_program_hex p)\<rparr>)" if "p \<in> set payouts" for p
    using ok [OF that] hex_encode_decode [OF hex] by (auto simp: normalizes_def valid_payout_def)
  have norm: "list_all2 (normalizes X) payouts norm"
    using step by (simp add: norm_def list_all2_conv_all_nth)
  have keys: "map payout_key_of norm = map lower_key payouts"
    by (simp add: norm_def payout_key_of_def lower_key_def)
  define g where "g k q = (SOME out. fanout_row X k q out)" for k q
  have g: "fanout_row X k q (g k q)" if "q \<in> set ?ps" for k q
  proof -
    from that obtain p where p: "p \<in> set payouts" "q = p\<lparr>cp_p2mr_program_hex := to_ascii_lowercase (cp_p2mr_program_hex p)\<rparr>"
      by (auto simp: norm_def)
    show ?thesis
      unfolding g_def by (rule someI_ex [OF valid_row [OF hex ok [OF p(1)]]]) (use step [OF p(1)] p(2) in simp)
  qed
  let ?outs = "map (\<lambda>(k, q). g k q) (enumerate 0 ?ps)"
  have row: "fanout_row X i (?ps ! i) (?outs ! i)" if "i < length ?ps" for i
    using g [OF nth_mem [OF that]] that by (simp add: nth_enumerate_eq)
  then have "list_all2 (\<lambda>(i, p) out. fanout_row X i p out) (enumerate 0 ?ps) ?outs"
    by (intro rows_nthI) simp_all
  then have canon: "canonical_fanout_outputs X payouts = Inr ?outs"
    using ne norm d keys by (auto simp: canonical_outputs_Inr)
  have paid: "map (unat \<circ> co_amount_sats) ?outs = map (unat \<circ> cp_amount_sats) ?ps"
    "map (unat \<circ> co_fee_sats) ?outs = map (unat \<circ> cp_fee_sats) ?ps"
    using row by (auto intro!: nth_equalityI simp: fanout_row_def simp del: length_sort_by)
  have "sum_list (map (unat \<circ> f) ?ps) = sum_list (map (unat \<circ> f) payouts)"
    if "\<And>p s. f (p\<lparr>cp_p2mr_program_hex := s\<rparr>) = f p" for f :: "ctv_fanout_payout \<Rightarrow> u64"
    using sum_list_mset_eq [of ?ps norm "unat \<circ> f"] that by (simp add: norm_def comp_def)
  then have "outputs_sum ?outs = sum_list (map (unat \<circ> cp_amount_sats) payouts)"
    "fees_sum ?outs = sum_list (map (unat \<circ> cp_fee_sats) payouts)"
    unfolding outputs_sum_def fees_sum_def paid by simp_all
  moreover have "length ?outs = length payouts"
    by (simp add: norm_def)
  ultimately show ?thesis
    using canon by blast
qed

end
