(* ===== verification/Ctv_Canonical.thy ===== *)
theory Ctv_Canonical
  imports Ctv_Lifecycle
begin

text \<open>
  The converse of the round trip of \<open>Ctv_Wire\<close>: the reader accepts only what the writer
  writes. \<open>consumes f P\<close>: when the step \<open>f\<close> returns \<open>x\<close>, the bytes it has passed are an
  encoding \<open>P\<close> of \<open>x\<close>.
\<close>

definition consumes :: "(tx_reader \<Rightarrow> prism_error + ('a \<times> tx_reader)) \<Rightarrow> ('a \<Rightarrow> u8 list \<Rightarrow> bool) \<Rightarrow> bool" where
  "consumes f P \<longleftrightarrow> (\<forall>r cs x r'. at_rest r cs \<longrightarrow> f r = Inr (x, r') \<longrightarrow>
     (\<exists>bs ds. cs = bs @ ds \<and> P x bs \<and> at_rest r' ds))"

lemma consumesD:
  assumes "consumes f P" and "at_rest r cs" and "f r = Inr (x, r')"
  obtains bs ds where "cs = bs @ ds" "P x bs" "at_rest r' ds"
  using assms unfolding consumes_def by blast

lemma consumes_bind:
  assumes "consumes f P" and "\<And>x. consumes (g x) (Q x)"
  shows "consumes (\<lambda>r. and_then (f r) (\<lambda>(x, r). g x r)) (\<lambda>y cs. \<exists>x bs ds. P x bs \<and> Q x y ds \<and> cs = bs @ ds)"
  unfolding consumes_def
proof (intro allI impI)
  fix r cs y r' assume r: "at_rest r cs" and run: "and_then (f r) (\<lambda>(x, r). g x r) = Inr (y, r')"
  from run obtain x r1 where f: "f r = Inr (x, r1)" and g: "g x r1 = Inr (y, r')"
    by (auto simp: and_then_Inr)
  from consumesD [OF assms(1) r f] obtain bs ds where 1: "cs = bs @ ds" "P x bs" "at_rest r1 ds"
    by blast
  from consumesD [OF assms(2) 1(3) g] obtain bs' ds' where 2: "ds = bs' @ ds'" "Q x y bs'" "at_rest r' ds'"
    by blast
  have "\<exists>x' bs'' ds''. P x' bs'' \<and> Q x' y ds'' \<and> bs @ bs' = bs'' @ ds''"
    by (rule exI, rule exI, rule exI, rule conjI, rule 1(2), rule conjI, rule 2(2), rule refl)
  with 1(1) 2(1,3) show "\<exists>bs ds. cs = bs @ ds \<and> (\<exists>x bs' ds. P x bs' \<and> Q x y ds \<and> bs = bs' @ ds) \<and> at_rest r' ds"
    by (intro exI [of _ "bs @ bs'"] exI [of _ ds'] conjI) simp_all
qed

lemma consumes_return: "consumes (\<lambda>r. Inr (x, r)) (\<lambda>y bs. y = x \<and> bs = [])"
  by (simp add: consumes_def)

lemma consumes_mono:
  assumes "consumes f P" and "\<And>x bs. P x bs \<Longrightarrow> Q x bs"
  shows "consumes f Q"
  unfolding consumes_def
proof (intro allI impI)
  fix r cs x r' assume "at_rest r cs" and "f r = Inr (x, r')"
  then obtain bs ds where "cs = bs @ ds" "P x bs" "at_rest r' ds"
    by (rule consumesD [OF assms(1)])
  then show "\<exists>bs ds. cs = bs @ ds \<and> Q x bs \<and> at_rest r' ds"
    using assms(2) by (intro exI conjI)
qed

lemma consumes_if:
  "(c \<Longrightarrow> consumes f P) \<Longrightarrow> (\<not> c \<Longrightarrow> consumes g P) \<Longrightarrow> consumes (\<lambda>r. if c then f r else g r) P"
  by (cases c) simp_all

lemma consumes_error: "consumes (\<lambda>r. Inl (e r)) P"
  by (simp add: consumes_def)

lemma consumes_bytes: "consumes (tx_read_bytes n) (\<lambda>xs bs. bs = xs \<and> length xs = n)"
  unfolding consumes_def
proof (intro allI impI)
  fix r cs x r' assume r: "at_rest r cs" and run: "tx_read_bytes n r = Inr (x, r')"
  from run have x: "x = take n cs" "r' = r\<lparr>rd_offset := rd_offset r + n\<rparr>" "rd_offset r + n \<le> length (rd_bytes r)"
    using r by (auto simp: tx_read_bytes_def and_then_Inr ok_or_Inr at_rest_def usize_checked_add_def not_less split: if_splits)
  have "length cs = length (rd_bytes r) - rd_offset r"
    using r by (auto simp: at_rest_def)
  then have "length x = n"
    using x by simp
  moreover have "at_rest r' (drop n cs)"
    using r x by (auto simp: at_rest_def add.commute)
  ultimately show "\<exists>bs ds. cs = bs @ ds \<and> (bs = x \<and> length x = n) \<and> at_rest r' ds"
    using x(1) by (intro exI [of _ x] exI [of _ "drop n cs"]) simp
qed

lemma consumes_u8: "consumes tx_read_u8 (\<lambda>b bs. bs = [b])"
  unfolding consumes_def
proof (intro allI impI)
  fix r cs x r' assume r: "at_rest r cs" and run: "tx_read_u8 r = Inr (x, r')"
  then have "rd_offset r < length (rd_bytes r)"
    by (auto simp: tx_read_u8_def tx_peek_u8_def and_then_Inr split: if_splits)
  then obtain b ds where cs: "cs = b # ds"
    using r by (cases cs) (auto simp: at_rest_def)
  from at_rest_Cons [OF r [unfolded this]] run have "x = b" "at_rest r' ds"
    by (auto simp: tx_read_u8_def)
  then show "\<exists>bs ds. cs = bs @ ds \<and> bs = [x] \<and> at_rest r' ds"
    using cs by simp
qed

lemma le_value_inj: "length xs = length ys \<Longrightarrow> le_value xs = le_value ys \<Longrightarrow> xs = ys"
proof (induction xs ys rule: list_induct2)
  case Nil
  show ?case ..
next
  case (Cons x xs y ys)
  have x: "unat x < 256" "unat y < 256"
    using unsigned_less [of x, where ?'a = nat] unsigned_less [of y, where ?'a = nat] by simp_all
  have eq: "unat x + 256 * le_value xs = unat y + 256 * le_value ys"
    using Cons.prems by simp
  then have "(unat x + 256 * le_value xs) mod 256 = (unat y + 256 * le_value ys) mod 256"
    by (rule arg_cong)
  then have "unat x = unat y"
    using x by simp
  then show ?case
    using eq Cons.IH by (auto simp: word_unat_eq_iff)
qed

lemma to_le_of_le:
  assumes "length bs = LENGTH('a) div 8" and dvd: "8 dvd LENGTH('a::len)"
  shows "to_le_bytes (word_from_le bs :: 'a word) = bs"
proof (rule le_value_inj)
  obtain n where n: "LENGTH('a) = 8 * n"
    using dvd by (rule dvdE)
  have "le_value bs < 256 ^ n"
    using le_value_bound [of bs] assms(1) n by simp
  then have "le_value bs < 2 ^ LENGTH('a)"
    by (simp add: n power_mult)
  then show "le_value (to_le_bytes (word_from_le bs :: 'a word)) = le_value bs"
    by (simp add: le_value_to_le_bytes [OF dvd] word_from_le_def unat_of_nat)
qed (simp add: assms(1))

lemma consumes_u32: "consumes tx_read_u32 (\<lambda>w bs. bs = to_le_bytes w)"
proof (rule consumes_mono)
  show "consumes tx_read_u32 (\<lambda>y cs. \<exists>x bs ds. (bs = x \<and> length x = 4) \<and> (y = word_from_le x \<and> ds = []) \<and> cs = bs @ ds)"
    unfolding tx_read_u32_def [abs_def] by (rule consumes_bind [OF consumes_bytes consumes_return])
qed (auto simp: to_le_of_le)

lemma consumes_amount:
  "consumes tx_read_i64_nonnegative (\<lambda>v bs. bs = to_le_bytes v \<and> v \<le> QBIT_MAX_MONEY_SATS)"
proof (rule consumes_mono)
  show "consumes tx_read_i64_nonnegative
      (\<lambda>y cs. \<exists>x bs ds. (bs = x \<and> length x = 8) \<and> (y = word_from_le x \<and> y \<le> QBIT_MAX_MONEY_SATS \<and> ds = []) \<and> cs = bs @ ds)"
    unfolding tx_read_i64_nonnegative_def [abs_def] Let_def
    by (rule consumes_bind [OF consumes_bytes], intro consumes_if consumes_error) (simp add: consumes_def not_less)
qed (auto simp: to_le_of_le)

lemma ucast_le_unat: "unat (ucast (v :: 'a::len word) :: u64) = unat v" if "LENGTH('a) \<le> 64"
proof -
  have "(2 :: nat) ^ LENGTH('a) \<le> 2 ^ 64"
    using that by (intro power_increasing) simp_all
  then have "unat v < 2 ^ LENGTH(64)"
    using less_le_trans [OF unsigned_less [of v, where ?'a = nat]] by simp
  then show ?thesis
    by (rule ucast_small)
qed

lemma ucast_ucast_back: "ucast (ucast (v :: 'a::len word) :: u64) = v" if "LENGTH('a) \<le> 64"
  using ucast_le_unat [OF that, of v] ucast_small [of "ucast v :: u64", where 'b = 'a] unsigned_less [of v, where ?'a = nat]
  by (simp add: word_unat_eq_iff)

lemma consumes_compact_size: "consumes tx_read_compact_size (\<lambda>v bs. bs = ctv_compact_size v)"
proof -
  let ?K = "\<lambda>(first :: u8) reader. if first \<le> 0xfc then Inr (ucast first, reader)
     else if first = 0xfd then
       and_then (tx_read_bytes 2 reader) (\<lambda>(raw, reader).
       let v = word_from_le raw :: u16 in
       if v < 0xfd then Inl (non_canonical reader) else Inr (ucast v, reader))
     else if first = 0xfe then
       and_then (tx_read_bytes 4 reader) (\<lambda>(raw, reader).
       let v = word_from_le raw :: u32 in
       if v \<le> 65535 then Inl (non_canonical reader) else Inr (ucast v, reader))
     else
       and_then (tx_read_bytes 8 reader) (\<lambda>(raw, reader).
       let v = word_from_le raw :: u64 in
       if v \<le> 4294967295 then Inl (non_canonical reader) else Inr (v, reader))"
  have leaf: "consumes (\<lambda>r. if c then Inl (e r) else Inr (x, r)) (\<lambda>y bs. y = x \<and> \<not> c \<and> bs = [])" for c e and x :: u64
    by (simp add: consumes_def)
  have short: "consumes (\<lambda>r. and_then (tx_read_bytes n r) (\<lambda>(raw, r). if c raw then Inl (non_canonical r) else Inr (h raw, r)))
      (\<lambda>(y :: u64) bs. y = h bs \<and> \<not> c bs \<and> length bs = n)" for n c h
    by (rule consumes_mono, rule consumes_bind [OF consumes_bytes leaf]) auto
  have rest: "consumes (?K first) (\<lambda>v bs. first # bs = ctv_compact_size v)" for first
  proof -
    consider "first \<le> 0xfc" | "first = 0xfd" | "first = 0xfe" | "first = 0xff"
    proof -
      have "unat first \<le> 252 \<or> unat first = 253 \<or> unat first = 254 \<or> unat first = 255"
        using unsigned_less [of first, where ?'a = nat] by simp linarith
      then have "first \<le> 0xfc \<or> first = 0xfd \<or> first = 0xfe \<or> first = 0xff"
        by (simp add: word_le_nat_alt word_unat_eq_iff)
      then show ?thesis
        using that by blast
    qed
    then show ?thesis
    proof cases
      case 1
      then have "ctv_compact_size (ucast first) = [first]"
        using ucast_le_unat [of first] ucast_ucast_back [of first]
        by (simp add: ctv_compact_size_def word_less_nat_alt word_le_nat_alt)
      then show ?thesis
        using 1 by (simp add: consumes_def)
    next
      case 2
      have "0xfd # bs = ctv_compact_size (ucast (word_from_le bs :: u16))" if "\<not> (word_from_le bs :: u16) < 0xfd" "length bs = 2" for bs
        using that ucast_le_unat [of "word_from_le bs :: u16"] ucast_ucast_back [of "word_from_le bs :: u16"] to_le_of_le [of bs, where 'a = 16]
          unsigned_less [of "word_from_le bs :: u16", where ?'a = nat]
        by (simp add: ctv_compact_size_def word_less_nat_alt word_le_nat_alt)
      then show ?thesis
        using 2 by (simp add: Let_def) (rule consumes_mono [OF short], auto)
    next
      case 3
      have "0xfe # bs = ctv_compact_size (ucast (word_from_le bs :: u32))" if "\<not> (word_from_le bs :: u32) \<le> 65535" "length bs = 4" for bs
        using that ucast_le_unat [of "word_from_le bs :: u32"] ucast_ucast_back [of "word_from_le bs :: u32"] to_le_of_le [of bs, where 'a = 32]
          unsigned_less [of "word_from_le bs :: u32", where ?'a = nat]
        by (simp add: ctv_compact_size_def word_less_nat_alt word_le_nat_alt)
      then show ?thesis
        using 3 by (simp add: Let_def) (rule consumes_mono [OF short], auto)
    next
      case 4
      have "0xff # bs = ctv_compact_size (word_from_le bs)" if "\<not> (word_from_le bs :: u64) \<le> 4294967295" "length bs = 8" for bs
        using that to_le_of_le [of bs, where 'a = 64]
        by (simp add: ctv_compact_size_def word_less_nat_alt word_le_nat_alt)
      then show ?thesis
        using 4 by (simp add: Let_def) (rule consumes_mono [OF short], auto)
    qed
  qed
  have "consumes tx_read_compact_size (\<lambda>y cs. \<exists>x bs ds. bs = [x] \<and> x # ds = ctv_compact_size y \<and> cs = bs @ ds)"
    unfolding tx_read_compact_size_def [abs_def] by (rule consumes_bind [OF consumes_u8 rest])
  then show ?thesis
    by (rule consumes_mono) auto
qed

lemma consumes_count:
  "consumes tx_read_compact_size_as_usize (\<lambda>n bs. bs = ctv_compact_size (of_nat n) \<and> n < 2 ^ 64)"
proof (rule consumes_mono)
  show "consumes tx_read_compact_size_as_usize
      (\<lambda>n cs. \<exists>v bs ds. bs = ctv_compact_size v \<and> (n = unat v \<and> ds = []) \<and> cs = bs @ ds)"
    unfolding tx_read_compact_size_as_usize_def [abs_def]
    by (rule consumes_bind [OF consumes_compact_size]) (auto simp: consumes_def split: if_splits)
qed (use u64_lt in auto)

lemma consumes_var_bytes: "consumes tx_read_var_bytes (\<lambda>xs bs. bs = len_prefix xs @ xs)"
proof (rule consumes_mono)
  show "consumes tx_read_var_bytes
      (\<lambda>xs cs. \<exists>n bs ds. (bs = ctv_compact_size (of_nat n) \<and> n < 2 ^ 64) \<and> (ds = xs \<and> length xs = n) \<and> cs = bs @ ds)"
    unfolding tx_read_var_bytes_def [abs_def] by (rule consumes_bind [OF consumes_count consumes_bytes])
qed auto

lemma consumes_n:
  assumes "consumes f P"
  shows "consumes (tx_read_n f k) (\<lambda>xs cs. length xs = k \<and> (\<exists>bss. list_all2 P xs bss \<and> cs = concat bss))"
proof (induction k)
  case 0
  show ?case by (simp add: consumes_def)
next
  case (Suc k)
  have "consumes (\<lambda>r. and_then (f r) (\<lambda>(x, r). and_then (tx_read_n f k r) (\<lambda>(xs, r). Inr (x # xs, r))))
      (\<lambda>ys cs. \<exists>x bs ds. P x bs \<and> (\<exists>xs bs' ds'. (length xs = k \<and> (\<exists>bss. list_all2 P xs bss \<and> bs' = concat bss)) \<and>
        (ys = x # xs \<and> ds' = []) \<and> ds = bs' @ ds') \<and> cs = bs @ ds)"
    by (rule consumes_bind [OF assms], rule consumes_bind [OF Suc], rule consumes_return)
  then have "consumes (tx_read_n f (Suc k))
      (\<lambda>ys cs. \<exists>x bs ds. P x bs \<and> (\<exists>xs bs' ds'. (length xs = k \<and> (\<exists>bss. list_all2 P xs bss \<and> bs' = concat bss)) \<and>
        (ys = x # xs \<and> ds' = []) \<and> ds = bs' @ ds') \<and> cs = bs @ ds)"
    by (simp add: consumes_def)
  then show ?case
  proof (rule consumes_mono)
    fix ys cs
    assume "\<exists>x bs ds. P x bs \<and> (\<exists>xs bs' ds'. (length xs = k \<and> (\<exists>bss. list_all2 P xs bss \<and> bs' = concat bss)) \<and>
        (ys = x # xs \<and> ds' = []) \<and> ds = bs' @ ds') \<and> cs = bs @ ds"
    then obtain x bs xs bss where "P x bs" "length xs = k" "list_all2 P xs bss" "ys = x # xs" "cs = bs @ concat bss"
      by auto
    then show "length ys = Suc k \<and> (\<exists>bss. list_all2 P ys bss \<and> cs = concat bss)"
      by (auto intro!: exI [of _ "bs # bss"])
  qed
qed

definition input_bytes :: "'x crates_scheme \<Rightarrow> parsed_tx_in \<Rightarrow> u8 list \<Rightarrow> bool" where
  "input_bytes X i bs \<longleftrightarrow> (\<exists>raw. length raw = 32 \<and> pi_prev_txid_hex i = hex_encode X (rev raw) \<and>
     bs = raw @ to_le_bytes (pi_prev_vout i) @ len_prefix (pi_script_sig i) @ pi_script_sig i @ to_le_bytes (pi_sequence i))"

lemma consumes_tx_in: "consumes (read_tx_in X) (input_bytes X)"
  unfolding read_tx_in_def [abs_def]
  by (rule consumes_mono, rule consumes_bind [OF consumes_bytes], rule consumes_bind [OF consumes_u32],
      rule consumes_bind [OF consumes_var_bytes], rule consumes_bind [OF consumes_u32], rule consumes_return)
    (auto simp: input_bytes_def)

lemma consumes_tx_out:
  "consumes read_tx_out (\<lambda>out bs. bs = serialize_tx_out out \<and> pto_amount_sats out \<le> QBIT_MAX_MONEY_SATS)"
  unfolding read_tx_out_def [abs_def]
  by (rule consumes_mono, rule consumes_bind [OF consumes_amount], rule consumes_bind [OF consumes_var_bytes], rule consumes_return)
    (auto simp: serialize_tx_out_def)

lemma list_all2_function: "list_all2 (\<lambda>x b. b = f x) xs bs \<longleftrightarrow> bs = map f xs"
  by (auto simp: list_all2_conv_all_nth intro: nth_equalityI)

lemma consumes_stack: "consumes read_stack (\<lambda>items bs. bs = serialize_stack items)"
  unfolding read_stack_def [abs_def]
  by (rule consumes_mono, rule consumes_bind [OF consumes_count], rule consumes_n [OF consumes_var_bytes])
    (auto simp: serialize_stack_def list_all2_function)

definition marker_bytes :: "bool \<Rightarrow> u8 list \<Rightarrow> bool" where
  "marker_bytes w bs \<longleftrightarrow> (if w then \<exists>flag. flag \<noteq> 0 \<and> bs = [0, flag] else bs = [])"

lemma consumes_marker: "consumes read_witness_marker marker_bytes"
  unfolding consumes_def
proof (intro allI impI)
  fix r cs w r' assume r: "at_rest r cs" and run: "read_witness_marker r = Inr (w, r')"
  show "\<exists>bs ds. cs = bs @ ds \<and> marker_bytes w bs \<and> at_rest r' ds"
  proof (cases "tx_peek_u8 r = Inr 0")
    case False
    then show ?thesis
      using run r by (intro exI [of _ "[]"] exI [of _ cs]) (auto simp: read_witness_marker_def and_then_Inr marker_bytes_def split: if_splits)
  next
    case True
    from run True obtain b r1 flag where u: "tx_read_u8 r = Inr (b, r1)" "tx_read_u8 r1 = Inr (flag, r')" "flag \<noteq> 0" "w"
      by (auto simp: read_witness_marker_def and_then_Inr split: if_splits)
    have "b = 0"
      using u(1) True by (simp add: tx_read_u8_def)
    from consumesD [OF consumes_u8 r u(1)] obtain ds where ds: "cs = [b] @ ds" "at_rest r1 ds"
      by blast
    from consumesD [OF consumes_u8 ds(2) u(2)] obtain ds' where "ds = [flag] @ ds'" "at_rest r' ds'"
      by blast
    then show ?thesis
      using ds \<open>b = 0\<close> u(3,4) by (intro exI [of _ "[0, flag]"] exI [of _ ds']) (simp add: marker_bytes_def)
  qed
qed

lemma list_all2_pair: "list_all2 (\<lambda>x b. b = f x \<and> Q x) xs bs \<longleftrightarrow> bs = map f xs \<and> (\<forall>x \<in> set xs. Q x)"
  by (induction xs arbitrary: bs) (auto simp: list_all2_Cons1)

lemma parse_consumes:
  assumes hex: "hex_spec X" and parse: "parse_transaction X bytes field = Inr tx" and len: "length bytes < 2 ^ 64"
  shows "\<exists>middle marker witness. bytes = to_le_bytes (pt_version tx) @ marker @ middle @ witness @ to_le_bytes (pt_lock_time tx) \<and>
    pt_tx_without_witness tx = to_le_bytes (pt_version tx) @ middle @ to_le_bytes (pt_lock_time tx) \<and>
    (case pt_witness_stacks tx of None \<Rightarrow> marker = [] \<and> witness = []
     | Some stacks \<Rightarrow> length stacks = length (pt_inputs tx) \<and> (\<exists>flag. flag \<noteq> 0 \<and> marker = [0, flag]) \<and>
         witness = concat (map serialize_stack stacks)) \<and>
    pt_inputs tx \<noteq> [] \<and> (\<forall>i \<in> set (pt_inputs tx). \<exists>id. length id = 32 \<and> pi_prev_txid_hex i = hex_encode X id) \<and>
    (\<forall>out \<in> set (pt_outputs tx). pto_amount_sats out \<le> QBIT_MAX_MONEY_SATS)"
proof -
  from parse obtain r1 w r2 k r3 r4 m r5 r6 r7 r8 where
    r1: "tx_read_u32 (tx_reader_new bytes field) = Inr (pt_version tx, r1)" and r2: "read_witness_marker r1 = Inr (w, r2)"
    and r3: "tx_read_compact_size_as_usize r2 = Inr (k, r3)" and k: "k \<noteq> 0"
    and r4: "tx_read_n (read_tx_in X) k r3 = Inr (pt_inputs tx, r4)"
    and r5: "tx_read_compact_size_as_usize r4 = Inr (m, r5)" and r6: "tx_read_n read_tx_out m r5 = Inr (pt_outputs tx, r6)"
    and r7: "(if w then and_then (tx_read_n read_stack k r6) (\<lambda>(stacks, r). Inr (Some stacks, r)) else Inr (None, r6)) =
       Inr (pt_witness_stacks tx, r7)"
    and r8: "tx_read_u32 r7 = Inr (pt_lock_time tx, r8)" and done_: "tx_expect_finished r8 = Inr ()"
    and base: "tx_without_witness_bytes X (pt_version tx) (pt_inputs tx) (pt_outputs tx) (pt_lock_time tx) = Inr (pt_tx_without_witness tx)"
    by (auto simp: parse_transaction_def and_then_Inr split: if_splits)
  have "at_rest (tx_reader_new bytes field) bytes"
    using len by (simp add: at_rest_def tx_reader_new_def)
  from consumesD [OF consumes_u32 this r1] obtain c1 where b1: "bytes = to_le_bytes (pt_version tx) @ c1" and a1: "at_rest r1 c1"
    by blast
  from consumesD [OF consumes_marker a1 r2] obtain marker c2 where b2: "c1 = marker @ c2" "marker_bytes w marker" and a2: "at_rest r2 c2"
    by blast
  from consumesD [OF consumes_count a2 r3] obtain c3 where b3: "c2 = ctv_compact_size (of_nat k) @ c3" and a3: "at_rest r3 c3"
    by blast
  from consumesD [OF consumes_n [OF consumes_tx_in] a3 r4] obtain c4 bss where b4: "c3 = concat bss @ c4" "length (pt_inputs tx) = k"
    "list_all2 (input_bytes X) (pt_inputs tx) bss" and a4: "at_rest r4 c4"
    by blast
  from consumesD [OF consumes_count a4 r5] obtain c5 where b5: "c4 = ctv_compact_size (of_nat m) @ c5" and a5: "at_rest r5 c5"
    by blast
  from consumesD [OF consumes_n [OF consumes_tx_out] a5 r6, unfolded list_all2_pair] obtain c6 where b6: "c5 = concat (map serialize_tx_out (pt_outputs tx)) @ c6"
    "length (pt_outputs tx) = m" "\<forall>out \<in> set (pt_outputs tx). pto_amount_sats out \<le> QBIT_MAX_MONEY_SATS" and a6: "at_rest r6 c6"
    by blast
  have "\<exists>witness c7. c6 = witness @ c7 \<and> at_rest r7 c7 \<and> (if w then \<exists>stacks. pt_witness_stacks tx = Some stacks \<and>
      length stacks = k \<and> witness = concat (map serialize_stack stacks) else pt_witness_stacks tx = None \<and> witness = [])"
  proof (cases w)
    case True
    then obtain stacks where stacks: "tx_read_n read_stack k r6 = Inr (stacks, r7)" "pt_witness_stacks tx = Some stacks"
      using r7 by (auto simp: and_then_Inr)
    from consumesD [OF consumes_n [OF consumes_stack] a6 stacks(1), unfolded list_all2_function] obtain c7 where
      "c6 = concat (map serialize_stack stacks) @ c7" "at_rest r7 c7" "length stacks = k"
      by blast
    then show ?thesis
      using True stacks(2) by auto
  next
    case False
    then show ?thesis
      using r7 a6 by auto
  qed
  then obtain witness c7 where b7: "c6 = witness @ c7" "if w then \<exists>stacks. pt_witness_stacks tx = Some stacks \<and>
      length stacks = k \<and> witness = concat (map serialize_stack stacks) else pt_witness_stacks tx = None \<and> witness = []"
    and a7: "at_rest r7 c7"
    by blast
  from consumesD [OF consumes_u32 a7 r8] obtain c8 where b8: "c7 = to_le_bytes (pt_lock_time tx) @ c8" and a8: "at_rest r8 c8"
    by blast
  have "c8 = []"
    using a8 done_ by (auto simp: tx_expect_finished_def at_rest_def ensure_def split: if_splits)
  have one: "tx_in_without_witness X i = Inr bs" if "input_bytes X i bs" for i bs
    using that hex_decode_encode [OF hex] by (auto simp: input_bytes_def tx_in_without_witness_def)
  have "try_map (tx_in_without_witness X) (pt_inputs tx) = Inr bss"
    using b4(3) one by (auto simp: try_map_Inr elim!: list_all2_mono)
  then have basis: "pt_tx_without_witness tx = to_le_bytes (pt_version tx) @ (len_prefix (pt_inputs tx) @ concat bss @
      len_prefix (pt_outputs tx) @ concat (map serialize_tx_out (pt_outputs tx))) @ to_le_bytes (pt_lock_time tx)"
    using base by (auto simp: tx_without_witness_bytes_def)
  have ids: "\<exists>id. length id = 32 \<and> pi_prev_txid_hex i = hex_encode X id" if "i \<in> set (pt_inputs tx)" for i
  proof -
    from b4(3) that obtain bs where "input_bytes X i bs"
      by (auto simp: list_all2_conv_all_nth in_set_conv_nth)
    then obtain raw where "length raw = 32" "pi_prev_txid_hex i = hex_encode X (rev raw)"
      by (auto simp: input_bytes_def)
    then show ?thesis
      by (intro exI [of _ "rev raw"]) simp
  qed
  have full: "bytes = to_le_bytes (pt_version tx) @ marker @ (len_prefix (pt_inputs tx) @ concat bss @
      len_prefix (pt_outputs tx) @ concat (map serialize_tx_out (pt_outputs tx))) @ witness @ to_le_bytes (pt_lock_time tx)"
    by (simp add: b1 b2(1) b3 b4(1,2) b5 b6(1,2) b7(1) b8 \<open>c8 = []\<close>)
  have wit: "case pt_witness_stacks tx of None \<Rightarrow> marker = [] \<and> witness = []
     | Some stacks \<Rightarrow> length stacks = length (pt_inputs tx) \<and> (\<exists>flag. flag \<noteq> 0 \<and> marker = [0, flag]) \<and>
         witness = concat (map serialize_stack stacks)"
    using b7(2) b2(2) b4(2) by (auto simp: marker_bytes_def split: if_splits)
  have ne: "pt_inputs tx \<noteq> []"
    using k b4(2) by auto
  show ?thesis
    by ((rule exI)+, intro conjI ballI, rule full, rule basis, rule wit, rule ne, erule ids, rule b6(3) [rule_format])
qed

end
