(* ===== verification/Ctv_Properties.thy ===== *)
theory Ctv_Properties
  imports Ctv_Canonical
begin

text \<open>
  The properties of the CTV fanouts, and the fanout their witnesses evaluate: one payout of
  90 satoshis with a fee of 10, carried by output zero of a one-output coinbase.
\<close>

section \<open>Manifest sets\<close>

definition set_sums :: "('a \<Rightarrow> u64) \<Rightarrow> 'a list \<Rightarrow> nat" where
  "set_sums f xs = sum_list (map (unat \<circ> f) xs)"

lemma set_sums_simps [simp]: "set_sums f [] = 0" "set_sums f (x # xs) = unat (f x) + set_sums f xs"
  by (simp_all add: set_sums_def)

lemma set_stepD:
  assumes "manifest_set_step X ms scan (k, m) = Inr scan'"
  shows "verify_ctv_fanout_manifest_structure X m = Inr () \<and> manifest_set_context ms k m = Inr () \<and>
    cm_parent_coinbase_vout m \<notin> ss_parent_vouts scan \<and> cm_fanout_txid m \<notin> ss_fanout_txids scan \<and>
    pc_ctv_hash_hex (cm_precommitment m) \<notin> ss_ctv_hashes scan \<and>
    cm_commitment_witness_leaf_hex m \<notin> ss_commitment_leaves scan \<and>
    ss_parent_vouts scan' = insert (cm_parent_coinbase_vout m) (ss_parent_vouts scan) \<and>
    ss_fanout_txids scan' = insert (cm_fanout_txid m) (ss_fanout_txids scan) \<and>
    ss_ctv_hashes scan' = insert (pc_ctv_hash_hex (cm_precommitment m)) (ss_ctv_hashes scan) \<and>
    ss_commitment_leaves scan' = insert (cm_commitment_witness_leaf_hex m) (ss_commitment_leaves scan) \<and>
    unat (ss_output_sum scan') = unat (ss_output_sum scan) + unat (pc_fanout_output_sum_sats (cm_precommitment m)) \<and>
    unat (ss_fee_sum scan') = unat (ss_fee_sum scan) + unat (pc_fanout_fee_sats (cm_precommitment m)) \<and>
    unat (ss_covenant_sum scan') = unat (ss_covenant_sum scan) + unat (cm_covenant_output_value_sats m)"
  using assms unfolding manifest_set_step_def prod.case Let_def and_then_Inr require_Inr ok_or_Inr
  by (auto simp: checked_simps)

lemma set_foldD:
  assumes "try_fold (manifest_set_step X ms) scan (enumerate k xs) = Inr scan'"
  shows "(\<forall>i < length xs. verify_ctv_fanout_manifest_structure X (xs ! i) = Inr () \<and>
      manifest_set_context ms (k + i) (xs ! i) = Inr ()) \<and>
    distinct (map cm_parent_coinbase_vout xs) \<and> cm_parent_coinbase_vout ` set xs \<inter> ss_parent_vouts scan = {} \<and>
    distinct (map cm_fanout_txid xs) \<and> cm_fanout_txid ` set xs \<inter> ss_fanout_txids scan = {} \<and>
    distinct (map cm_commitment_witness_leaf_hex xs) \<and>
    cm_commitment_witness_leaf_hex ` set xs \<inter> ss_commitment_leaves scan = {} \<and>
    unat (ss_output_sum scan') = unat (ss_output_sum scan) + set_sums (pc_fanout_output_sum_sats \<circ> cm_precommitment) xs \<and>
    unat (ss_fee_sum scan') = unat (ss_fee_sum scan) + set_sums (pc_fanout_fee_sats \<circ> cm_precommitment) xs \<and>
    unat (ss_covenant_sum scan') = unat (ss_covenant_sum scan) + set_sums cm_covenant_output_value_sats xs"
  using assms
proof (induction xs arbitrary: scan k)
  case Nil
  then show ?case by simp
next
  case (Cons m xs)
  from Cons.prems obtain scan1 where step: "manifest_set_step X ms scan (k, m) = Inr scan1"
    and rest: "try_fold (manifest_set_step X ms) scan1 (enumerate (Suc k) xs) = Inr scan'"
    by (auto simp: and_then_Inr)
  note ih = Cons.IH [OF rest] and here = set_stepD [OF step]
  have "\<forall>i < length (m # xs). verify_ctv_fanout_manifest_structure X ((m # xs) ! i) = Inr () \<and>
      manifest_set_context ms (k + i) ((m # xs) ! i) = Inr ()"
    using ih here by (auto simp: All_less_Suc2)
  then show ?case
    using ih here by auto
qed

lemma set_context_Inr:
  "manifest_set_context ms k m = Inr u \<longleftrightarrow>
     pc_chunk_index (cm_precommitment m) = of_nat k \<and> pc_chunk_count (cm_precommitment m) = cms_fanout_count ms \<and>
     pc_block_height (cm_precommitment m) = cms_block_height ms \<and>
     pc_coinbase_value_sats (cm_precommitment m) = cms_coinbase_value_sats ms \<and>
     pc_settlement_mode (cm_precommitment m) = cms_settlement_mode ms \<and>
     pc_reward_manifest_sha256_hex (cm_precommitment m) = cms_reward_manifest_sha256_hex ms \<and>
     pc_payout_policy_manifest_sha256_hex (cm_precommitment m) = cms_payout_policy_manifest_sha256_hex ms \<and>
     cm_parent_coinbase_txid m = cms_parent_coinbase_txid ms"
  by (auto simp: manifest_set_context_def Let_def)

lemma set_sound:
  assumes "verify_ctv_fanout_manifest_set X ms = Inr u"
  shows "cms_manifests ms \<noteq> [] \<and> length (cms_manifests ms) = unat (cms_fanout_count ms) \<and>
    (\<forall>i < length (cms_manifests ms). verify_ctv_fanout_manifest_structure X (cms_manifests ms ! i) = Inr () \<and>
      manifest_set_context ms i (cms_manifests ms ! i) = Inr ()) \<and>
    distinct (map cm_parent_coinbase_vout (cms_manifests ms)) \<and> distinct (map cm_fanout_txid (cms_manifests ms)) \<and>
    distinct (map cm_commitment_witness_leaf_hex (cms_manifests ms)) \<and>
    unat (cms_fanout_output_sum_sats ms) = set_sums (pc_fanout_output_sum_sats \<circ> cm_precommitment) (cms_manifests ms) \<and>
    unat (cms_fanout_fee_sats ms) = set_sums (pc_fanout_fee_sats \<circ> cm_precommitment) (cms_manifests ms) \<and>
    unat (cms_covenant_output_value_sats ms) = set_sums cm_covenant_output_value_sats (cms_manifests ms) \<and>
    unat (cms_covenant_output_value_sats ms) = unat (cms_fanout_output_sum_sats ms) + unat (cms_fanout_fee_sats ms) \<and>
    cms_settlement_mode ms \<noteq> DirectCoinbase"
proof -
  from assms obtain scan v where fold: "try_fold (manifest_set_step X ms) set_scan_start (enumerate 0 (cms_manifests ms)) = Inr scan"
    and facts: "cms_manifests ms \<noteq> []" "unat (cms_fanout_count ms) = length (cms_manifests ms)"
      "cms_settlement_mode ms \<noteq> DirectCoinbase"
      "ss_output_sum scan = cms_fanout_output_sum_sats ms" "ss_fee_sum scan = cms_fanout_fee_sats ms"
      "ss_covenant_sum scan = cms_covenant_output_value_sats ms"
      "checked_add (ss_output_sum scan) (ss_fee_sum scan) = Some v" "v = ss_covenant_sum scan"
    unfolding verify_ctv_fanout_manifest_set_def and_then_Inr require_Inr ok_or_Inr by blast
  from set_foldD [OF fold] show ?thesis
    using facts by (auto simp: set_scan_start_def checked_simps)
qed

section \<open>A concrete fanout\<close>

definition sample_ctv :: ctv_crates where
  "sample_ctv = \<lparr>
     hex_encode = sample_hex_encode,
     hex_decode = sample_hex_decode,
     sha256_digest = sample_digest,
     ed_public_key = sample_digest,
     ed_sign = (\<lambda>seed msg. sample_digest seed @ sample_digest msg),
     ed_key_ok = (\<lambda>key. True),
     ed_verify = (\<lambda>key msg sig. sig = key @ sample_digest msg),
     manifest_json = (\<lambda>m. Inr (as_bytes (pm_coinbase_tx_hex m))),
     precommitment_json = (\<lambda>pc. Inr (as_bytes (pc_fanout_tx_template_hex pc))),
     manifest_set_json = (\<lambda>ms. Inr (as_bytes (cms_parent_coinbase_txid ms)))\<rparr>"

lemma sample_ctv_specs:
  "hex_spec sample_ctv" "sha256_spec sample_ctv" "ed25519_spec sample_ctv"
proof -
  show "hex_spec sample_ctv"
    using sample_hex_spec by (simp add: hex_spec_def sample_crates_def sample_ctv_def)
  show "sha256_spec sample_ctv"
    using sample_sha256_spec by (simp add: sha256_spec_def sample_crates_def sample_ctv_def)
  show "ed25519_spec sample_ctv"
    using sample_ed25519_spec by (simp add: ed25519_spec_def sample_crates_def sample_ctv_def)
qed

lemma sample_zeros: "sample_hex_decode (concat (replicate n ''00'')) = Inr (replicate n 0)"
  by (induction n) simp_all

lemma sample_ctv_zeros: "hex_decode sample_ctv (concat (replicate 32 ''00'')) = Inr (replicate 32 0)"
  by (simp only: sample_ctv_def sample_zeros crates.simps)

lemma sample_anchor: "sample_hex_decode P2A_ANCHOR_SCRIPT_PUBKEY_HEX = Inr [0x51, 0x02, 0x4e, 0x73]"
  by (simp add: P2A_ANCHOR_SCRIPT_PUBKEY_HEX_def)

definition sample_fanout_payout :: ctv_fanout_payout where
  "sample_fanout_payout = \<lparr>cp_recipient_id = ''alice'', cp_order_key = ''a'', cp_p2mr_program_hex = concat (replicate 32 ''00''),
     cp_gross_amount_sats = 100, cp_fee_sats = 10, cp_amount_sats = 90\<rparr>"

definition sample_precommitment_input :: ctv_fanout_precommitment_input where
  "sample_precommitment_input = \<lparr>pci_block_height = 7, pci_chunk_index = 0, pci_chunk_count = 1, pci_coinbase_value_sats = 100,
     pci_settlement_mode = CtvFanout, pci_reward_manifest_sha256_hex = concat (replicate 32 ''00''),
     pci_payout_policy_manifest_sha256_hex = concat (replicate 32 ''00''), pci_payouts = [sample_fanout_payout]\<rparr>"

lemma sample_payouts_valid:
  "valid_payout sample_ctv sample_fanout_payout"
  by (simp add: valid_payout_def sample_fanout_payout_def sample_ctv_def sample_zeros P2MR_PROGRAM_LEN_def)

text \<open>A one-output coinbase.\<close>

definition null_input :: tx_input_spec where
  "null_input = \<lparr>ti_prev_txid_hex = concat (replicate 32 ''00''), ti_prev_vout = COINBASE_PREVOUT_VOUT, ti_script_sig = [1, 7],
     ti_sequence = 0, ti_witness_stack = []\<rparr>"

lemma lowercase_zeros: "to_ascii_lowercase (concat (replicate n ''00'')) = concat (replicate n ''00'')"
  by (induction n) (simp_all add: to_ascii_lowercase_def ascii_lower_def)

lemma carrier_coinbase:
  assumes hex: "hex_spec X" and zeros: "hex_decode X (concat (replicate 32 ''00'')) = Inr (replicate 32 0)"
    and v: "v \<le> QBIT_MAX_MONEY_SATS" and script: "length script = 34"
  shows "\<exists>parent_hex parent. parse_transaction_hex X parent_hex field = Inr parent \<and> ensure_coinbase_shape parent = Inr () \<and>
    slice_get (pt_outputs parent) 0 = Some \<lparr>pto_amount_sats = v, pto_script_pubkey = script\<rparr>"
proof -
  let ?out = "\<lparr>tos_amount_sats = v, tos_script_pubkey = script\<rparr>"
  obtain h where h: "serialize_tx_hex X 1 [null_input] [?out] 0 False = Inr h" and "length h < 2 ^ 64"
    using script compact_size_length [of 1] compact_size_length [of 2] compact_size_length [of 34]
    by (simp add: serialize_tx_hex_def serialize_input_spec_def null_input_def zeros length_hex_encode [OF hex] serialize_output_spec_def)
  moreover have "tx_specs_ok [null_input] [?out]"
    using v script by (simp add: tx_specs_ok_def null_input_def)
  ultimately obtain bytes where "parse_transaction_hex X h field = Inr (spec_transaction X 1 [null_input] [?out] 0 False bytes)"
    using parse_serialized [OF hex] by blast
  then show ?thesis
    by (intro exI) (auto simp: spec_transaction_def read_input_spec_def read_output_spec_def null_input_def coinbase_shape_Inr
        lowercase_zeros slice_get_Some)
qed

lemma sample_prepared:
  "\<exists>p. prepare_ctv_fanout_precommitment sample_ctv sample_precommitment_input = Inr p \<and>
     length (pc_outputs (pf_precommitment p)) = 1 \<and>
     length (pc_fanout_tx_template_hex (pf_precommitment p)) < 2 ^ 63 \<and> unat (pf_covenant_output_value_sats p) = 100"
proof -
  have "\<exists>outs. canonical_fanout_outputs sample_ctv [sample_fanout_payout] = Inr outs \<and> length outs = length [sample_fanout_payout] \<and>
      outputs_sum outs = sum_list (map (unat \<circ> cp_amount_sats) [sample_fanout_payout]) \<and>
      fees_sum outs = sum_list (map (unat \<circ> cp_fee_sats) [sample_fanout_payout])"
    using sample_payouts_valid by (intro canonical_outputs_ok sample_ctv_specs) simp_all
  then obtain outs where outs: "canonical_fanout_outputs sample_ctv [sample_fanout_payout] = Inr outs" "length outs = 1"
      "outputs_sum outs = 90" "fees_sum outs = 10"
    by (auto simp: sample_fanout_payout_def)
  have "\<exists>p. prepare_ctv_fanout_precommitment sample_ctv sample_precommitment_input = Inr p \<and> pc_outputs (pf_precommitment p) = outs \<and>
      length (pc_fanout_tx_template_hex (pf_precommitment p)) < 2 ^ 63 \<and>
      unat (pf_covenant_output_value_sats p) = outputs_sum outs + fees_sum outs"
    by (rule prepare_succeeds [OF sample_ctv_specs(1,2), where rh = "replicate 32 0" and qh = "replicate 32 0"
          and anchor_script = "[0x51, 0x02, 0x4e, 0x73]"])
      (simp_all add: sample_precommitment_input_def outs QBIT_MAX_MONEY_SATS_def, simp_all add: sample_ctv_def sample_zeros sample_anchor)
  then show ?thesis
    using outs by auto
qed

lemma sample_fanout:
  "\<exists>p m. prepare_ctv_fanout_precommitment sample_ctv sample_precommitment_input = Inr p \<and>
     cm_precommitment m = pf_precommitment p \<and> length (pc_outputs (pf_precommitment p)) = 1 \<and>
     unat (cm_covenant_output_value_sats m) = 100 \<and> verify_ctv_fanout_manifest_structure sample_ctv m = Inr () \<and>
     pc_chunk_index (cm_precommitment m) = 0 \<and> pc_chunk_count (cm_precommitment m) = 1 \<and>
     pc_settlement_mode (cm_precommitment m) = CtvFanout"
proof -
  obtain p where p: "prepare_ctv_fanout_precommitment sample_ctv sample_precommitment_input = Inr p"
    "length (pc_outputs (pf_precommitment p)) = 1"
    "length (pc_fanout_tx_template_hex (pf_precommitment p)) < 2 ^ 63" "unat (pf_covenant_output_value_sats p) = 100"
    using sample_prepared by blast
  from prepareD [OF p(1)] obtain program where program: "length program = P2MR_PROGRAM_LEN"
    "pc_covenant_script_pubkey_hex (pf_precommitment p) = hex_encode sample_ctv (p2mr_script_pubkey program)"
    and v: "pf_covenant_output_value_sats p = pc_covenant_output_value_sats (pf_precommitment p)"
    and ids: "pc_chunk_index (pf_precommitment p) = 0" "pc_chunk_count (pf_precommitment p) = 1"
      "pc_settlement_mode (pf_precommitment p) = CtvFanout"
    by (auto simp: decode_program_Inr sample_precommitment_input_def)
  have "pc_covenant_output_value_sats (pf_precommitment p) \<le> QBIT_MAX_MONEY_SATS"
    using p(4) v by (simp add: word_le_nat_alt QBIT_MAX_MONEY_SATS_def)
  then have "\<exists>parent_hex parent. parse_transaction_hex sample_ctv parent_hex [] = Inr parent \<and> ensure_coinbase_shape parent = Inr () \<and>
      slice_get (pt_outputs parent) 0 = Some \<lparr>pto_amount_sats = pc_covenant_output_value_sats (pf_precommitment p),
        pto_script_pubkey = p2mr_script_pubkey program\<rparr>"
    by (rule carrier_coinbase [OF sample_ctv_specs(1), rotated]) (simp_all add: length_p2mr_script [OF program(1)],
        simp add: sample_ctv_def sample_zeros)
  then obtain parent_hex parent where parent: "parse_transaction_hex sample_ctv parent_hex [] = Inr parent"
    "ensure_coinbase_shape parent = Inr ()"
    "slice_get (pt_outputs parent) (unat (0 :: u32)) = Some \<lparr>pto_amount_sats = pc_covenant_output_value_sats (pf_precommitment p),
        pto_script_pubkey = p2mr_script_pubkey program\<rparr>"
    by auto
  from manifest_finalizes [OF sample_ctv_specs(1,2) p(1,3) parent] program(2) obtain m where
    "cm_precommitment m = pf_precommitment p" "verify_ctv_fanout_manifest_structure sample_ctv m = Inr ()"
    "cm_covenant_output_value_sats m = pc_covenant_output_value_sats (pf_precommitment p)"
    by auto
  then show ?thesis
    using p v ids by auto
qed

section \<open>Properties\<close>

text \<open>
  C32. The writer and the reader of \<open>ctv.rs\<close> are inverse: what \<open>serialize_tx_hex\<close> wrote, with
  or without witness, parses back to the inputs, outputs and stacks it was given, and the
  bytes the reader keeps for the transaction id are the serialization without witness.
\<close>

theorem transaction_roundtrip:
  assumes hex: "hex_spec X" and ser: "serialize_tx_hex X version inputs outputs lock_time with_witness = Inr tx_hex"
    and "inputs \<noteq> []" and "length inputs < 2 ^ 64" and "length outputs < 2 ^ 64" and len: "length tx_hex < 2 ^ 64"
    and "\<And>i. i \<in> set inputs \<Longrightarrow> length (ti_script_sig i) < 2 ^ 64 \<and> length (ti_witness_stack i) < 2 ^ 64 \<and>
      (\<forall>item \<in> set (ti_witness_stack i). length item < 2 ^ 64)"
    and "\<And>out. out \<in> set outputs \<Longrightarrow> tos_amount_sats out \<le> QBIT_MAX_MONEY_SATS \<and> length (tos_script_pubkey out) < 2 ^ 64"
  shows "\<exists>tx. parse_transaction_hex X tx_hex field = Inr tx \<and> pt_version tx = version \<and> pt_lock_time tx = lock_time \<and>
    map pi_prev_txid_hex (pt_inputs tx) = map (to_ascii_lowercase \<circ> ti_prev_txid_hex) inputs \<and>
    map pi_prev_vout (pt_inputs tx) = map ti_prev_vout inputs \<and>
    map pi_script_sig (pt_inputs tx) = map ti_script_sig inputs \<and> map pi_sequence (pt_inputs tx) = map ti_sequence inputs \<and>
    map pto_amount_sats (pt_outputs tx) = map tos_amount_sats outputs \<and>
    map pto_script_pubkey (pt_outputs tx) = map tos_script_pubkey outputs \<and>
    pt_witness_stacks tx = (if with_witness then Some (map ti_witness_stack inputs) else None) \<and>
    serialize_tx_hex X version inputs outputs lock_time False = Inr (hex_encode X (pt_tx_without_witness tx))"
proof -
  have "tx_specs_ok inputs outputs"
    using assms by (simp add: tx_specs_ok_def)
  from parse_serialized [OF hex ser this len, of field] obtain bytes where
    "parse_transaction_hex X tx_hex field = Inr (spec_transaction X version inputs outputs lock_time with_witness bytes)"
    "serialize_tx_hex X version inputs outputs lock_time False = Inr (hex_encode X bytes)"
    by blast
  then show ?thesis
    by (intro exI [of _ "spec_transaction X version inputs outputs lock_time with_witness bytes"])
      (simp add: spec_transaction_def read_input_spec_def read_output_spec_def)
qed

lemma sample_serialized:
  "\<exists>h. serialize_tx_hex sample_ctv 1 [null_input] [] 0 True = Inr h \<and> length h < 2 ^ 64"
  using compact_size_length [of 0] compact_size_length [of 1] compact_size_length [of 2]
  by (simp add: serialize_tx_hex_def serialize_input_spec_def null_input_def length_hex_encode [OF sample_ctv_specs(1)]
      serialize_stack_def sample_ctv_zeros)

theorem transaction_roundtrip_witness:
  "\<exists>h tx. serialize_tx_hex sample_ctv 1 [null_input] [] 0 True = Inr h \<and>
     parse_transaction_hex sample_ctv h ''tx_hex'' = Inr tx \<and> pt_witness_stacks tx = Some [[]]"
proof -
  obtain h where h: "serialize_tx_hex sample_ctv 1 [null_input] [] 0 True = Inr h" "length h < 2 ^ 64"
    using sample_serialized by blast
  from transaction_roundtrip [OF sample_ctv_specs(1) h(1) _ _ _ h(2), of "''tx_hex''"] show ?thesis
    using h(1) by (auto simp: null_input_def)
qed

text \<open>
  C33. The reader of \<open>ctv.rs\<close> returns well-formed transactions only, and accepts one encoding of
  each: there is an input, the previous ids are 32 bytes in lower-case hex, no output exceeds
  the money limit, there is a witness stack per input; and the bytes are the serialization the
  transaction id is computed from, plus nothing but the marker, a non-zero flag and the stacks.
\<close>

theorem parsed_transaction_canonical:
  assumes "hex_spec X" and "parse_transaction X bytes field = Inr tx" and "length bytes < 2 ^ 64"
  shows "\<exists>middle marker witness. bytes = to_le_bytes (pt_version tx) @ marker @ middle @ witness @ to_le_bytes (pt_lock_time tx) \<and>
    pt_tx_without_witness tx = to_le_bytes (pt_version tx) @ middle @ to_le_bytes (pt_lock_time tx) \<and>
    (case pt_witness_stacks tx of None \<Rightarrow> marker = [] \<and> witness = []
     | Some stacks \<Rightarrow> length stacks = length (pt_inputs tx) \<and> (\<exists>flag. flag \<noteq> 0 \<and> marker = [0, flag]) \<and>
         witness = concat (map serialize_stack stacks)) \<and>
    pt_inputs tx \<noteq> [] \<and> (\<forall>i \<in> set (pt_inputs tx). \<exists>id. length id = 32 \<and> pi_prev_txid_hex i = hex_encode X id) \<and>
    (\<forall>out \<in> set (pt_outputs tx). pto_amount_sats out \<le> QBIT_MAX_MONEY_SATS)"
  by (rule parse_consumes [OF assms])

theorem parsed_transaction_canonical_witness:
  "\<exists>bytes tx flag middle witness. parse_transaction sample_ctv bytes ''tx_hex'' = Inr tx \<and> flag \<noteq> 0 \<and>
     bytes = to_le_bytes (pt_version tx) @ [0, flag] @ middle @ witness @ to_le_bytes (pt_lock_time tx)"
proof -
  obtain h where h: "serialize_tx_hex sample_ctv 1 [null_input] [] 0 True = Inr h" "length h < 2 ^ 64"
    using sample_serialized by blast
  have "tx_specs_ok [null_input] []"
    by (simp add: tx_specs_ok_def null_input_def)
  from parse_serialized [OF sample_ctv_specs(1) h(1) this h(2), of "''tx_hex''"] obtain b where
    parse: "parse_transaction_hex sample_ctv h ''tx_hex'' = Inr (spec_transaction sample_ctv 1 [null_input] [] 0 True b)"
    by blast
  then obtain bytes where dec: "hex_decode sample_ctv h = Inr bytes"
    and p: "parse_transaction sample_ctv bytes ''tx_hex'' = Inr (spec_transaction sample_ctv 1 [null_input] [] 0 True b)"
    by (auto simp: parse_transaction_hex_def and_then_Inr map_err_Inr)
  have "length bytes < 2 ^ 64"
    using h(2) length_hex_encode [OF sample_ctv_specs(1), of bytes] hex_encode_decode [OF sample_ctv_specs(1) dec] by simp
  from parsed_transaction_canonical [OF sample_ctv_specs(1) p this] show ?thesis
    using p by (fastforce simp: spec_transaction_def)
qed

text \<open>
  C29. A manifest that passes \<open>verify_ctv_fanout_manifest_structure\<close> describes a sound fanout.
  The parent is a coinbase; the fanout spends one outpoint of it and nothing else; that output
  is locked to the fanout's own template hash, which the witness reveals; the fanout pays every
  listed program exactly its amount, no recipient twice, with a zero-value anchor exactly when
  there is no fee; and what the covenant output holds is what the fanout pays plus its fee.
\<close>

theorem fanout_manifest_sound:
  assumes "hex_spec X" and "verify_ctv_fanout_manifest_structure X m = Inr ()"
  shows "\<exists>parent input fanout covenant.
    parse_transaction_hex X (cm_parent_coinbase_tx_hex m) ''manifest parent_coinbase_tx_hex'' = Inr parent \<and>
    pt_inputs parent = [input] \<and> pi_prev_txid_hex input = concat (replicate 32 ''00'') \<and>
    pi_prev_vout input = COINBASE_PREVOUT_VOUT \<and>
    parse_transaction_hex X (cm_fanout_tx_hex m) ''manifest fanout_tx_hex'' = Inr fanout \<and>
    spends_outpoint X parent (cm_parent_coinbase_vout m) fanout \<and>
    slice_get (pt_outputs parent) (unat (cm_parent_coinbase_vout m)) = Some covenant \<and>
    covenant_binds X covenant fanout \<and> pays_outputs X (cm_precommitment m) fanout \<and>
    pto_amount_sats covenant = cm_covenant_output_value_sats m \<and>
    unat (cm_covenant_output_value_sats m) = tx_value fanout + fees_sum (pc_outputs (cm_precommitment m)) \<and>
    pt_lock_time fanout = ucast (pc_block_height (cm_precommitment m)) \<and>
    txid_hex X parent = cm_parent_coinbase_txid m \<and> txid_hex X fanout = cm_fanout_txid m"
  by (rule manifest_sound [OF assms])

theorem fanout_manifest_sound_witness:
  "\<exists>m fanout. verify_ctv_fanout_manifest_structure sample_ctv m = Inr () \<and>
     parse_transaction_hex sample_ctv (cm_fanout_tx_hex m) ''manifest fanout_tx_hex'' = Inr fanout \<and>
     pays_outputs sample_ctv (cm_precommitment m) fanout \<and> length (pc_outputs (cm_precommitment m)) = 1 \<and>
     tx_value fanout + fees_sum (pc_outputs (cm_precommitment m)) = 100"
proof -
  from sample_fanout obtain p :: prepared_ctv_fanout and m :: ctv_fanout_manifest where
    m: "cm_precommitment m = pf_precommitment p" "length (pc_outputs (pf_precommitment p)) = 1"
    "unat (cm_covenant_output_value_sats m) = 100" "verify_ctv_fanout_manifest_structure sample_ctv m = Inr ()"
    by blast
  from fanout_manifest_sound [OF sample_ctv_specs(1) m(4)] obtain fanout where
    "parse_transaction_hex sample_ctv (cm_fanout_tx_hex m) ''manifest fanout_tx_hex'' = Inr fanout"
    "pays_outputs sample_ctv (cm_precommitment m) fanout"
    "unat (cm_covenant_output_value_sats m) = tx_value fanout + fees_sum (pc_outputs (cm_precommitment m))"
    by blast
  then show ?thesis
    using m by (intro exI [of _ m] exI [of _ fanout]) simp
qed

text \<open>
  C30. A fanout can always be carried out. For valid payouts (positive amounts that add up within
  the money limit, distinct recipients, decodable programs) the preparation succeeds before the
  block is found; and whatever coinbase is mined, if it carries the covenant output that was
  prepared, at any index, the manifest can be finalized against it: the precommitment and its
  hash are the ones already committed to, and the result passes the verifier.
\<close>

theorem fanout_lifecycle:
  assumes hex: "hex_spec X" and sha: "sha256_spec X"
    and "pci_block_height input \<le> 4294967295" and "pci_settlement_mode input \<noteq> DirectCoinbase"
    and "pci_chunk_index input < pci_chunk_count input" and "unat (pci_chunk_index input) < 2 ^ 31"
    and "hex_decode X (pci_reward_manifest_sha256_hex input) = Inr rh" and "length rh = 32"
    and "hex_decode X (pci_payout_policy_manifest_sha256_hex input) = Inr qh" and "length qh = 32"
    and ne: "pci_payouts input \<noteq> []" and few: "length (pci_payouts input) < 2 ^ 32 - 1"
    and payouts: "\<And>p. p \<in> set (pci_payouts input) \<Longrightarrow> valid_payout X p" and d: "distinct (map lower_key (pci_payouts input))"
    and money: "sum_list (map (unat \<circ> cp_amount_sats) (pci_payouts input)) +
      sum_list (map (unat \<circ> cp_fee_sats) (pci_payouts input)) \<le> unat QBIT_MAX_MONEY_SATS"
    and "hex_decode X P2A_ANCHOR_SCRIPT_PUBKEY_HEX = Inr anchor_script"
    and "hex_decode X (concat (replicate 32 ''00'')) = Inr (replicate 32 0)"
    and "\<And>pc. \<exists>bytes. precommitment_json X pc = Inr bytes"
  shows "\<exists>p. prepare_ctv_fanout_precommitment X input = Inr p \<and>
    unat (pf_covenant_output_value_sats p) = sum_list (map (unat \<circ> cp_amount_sats) (pci_payouts input)) +
      sum_list (map (unat \<circ> cp_fee_sats) (pci_payouts input)) \<and>
    (\<forall>parent_hex field parent vout covenant.
       parse_transaction_hex X parent_hex field = Inr parent \<longrightarrow> ensure_coinbase_shape parent = Inr () \<longrightarrow>
       slice_get (pt_outputs parent) (unat vout) = Some covenant \<longrightarrow>
       pto_amount_sats covenant = pc_covenant_output_value_sats (pf_precommitment p) \<longrightarrow>
       hex_encode X (pto_script_pubkey covenant) = pc_covenant_script_pubkey_hex (pf_precommitment p) \<longrightarrow>
       (\<exists>m. build_ctv_fanout_manifest_from_precommitment X (pf_precommitment p) parent_hex vout = Inr m \<and>
          cm_precommitment m = pf_precommitment p \<and> cm_precommitment_sha256_hex m = pf_precommitment_sha256_hex p \<and>
          cm_commitment_witness_leaf_hex m = pf_commitment_witness_leaf_hex p \<and>
          cm_parent_coinbase_txid m = txid_hex X parent \<and> cm_parent_coinbase_vout m = vout \<and>
          verify_ctv_fanout_manifest_structure X m = Inr ()))"
proof -
  from canonical_outputs_ok [OF hex ne payouts d] obtain outs where
    outs: "canonical_fanout_outputs X (pci_payouts input) = Inr outs" "length outs = length (pci_payouts input)"
      "outputs_sum outs = sum_list (map (unat \<circ> cp_amount_sats) (pci_payouts input))"
      "fees_sum outs = sum_list (map (unat \<circ> cp_fee_sats) (pci_payouts input))"
    by blast
  from prepare_succeeds [OF hex sha assms(3-10) outs(1) _ _ assms(16,17,18)] money few outs obtain p where
    p: "prepare_ctv_fanout_precommitment X input = Inr p"
      "length (pc_fanout_tx_template_hex (pf_precommitment p)) < 2 ^ 63"
      "unat (pf_covenant_output_value_sats p) = outputs_sum outs + fees_sum outs"
    by auto
  show ?thesis
    using p(1,3) outs(3,4) manifest_finalizes [OF hex sha p(1,2)] by (intro exI [of _ p]) (simp, blast)
qed

theorem fanout_lifecycle_witness:
  "\<exists>p. prepare_ctv_fanout_precommitment sample_ctv sample_precommitment_input = Inr p \<and>
     unat (pf_covenant_output_value_sats p) = 100"
proof -
  have "\<exists>p. prepare_ctv_fanout_precommitment sample_ctv sample_precommitment_input = Inr p \<and>
    unat (pf_covenant_output_value_sats p) = sum_list (map (unat \<circ> cp_amount_sats) (pci_payouts sample_precommitment_input)) +
      sum_list (map (unat \<circ> cp_fee_sats) (pci_payouts sample_precommitment_input)) \<and>
    (\<forall>parent_hex field parent vout covenant.
       parse_transaction_hex sample_ctv parent_hex field = Inr parent \<longrightarrow> ensure_coinbase_shape parent = Inr () \<longrightarrow>
       slice_get (pt_outputs parent) (unat vout) = Some covenant \<longrightarrow>
       pto_amount_sats covenant = pc_covenant_output_value_sats (pf_precommitment p) \<longrightarrow>
       hex_encode sample_ctv (pto_script_pubkey covenant) = pc_covenant_script_pubkey_hex (pf_precommitment p) \<longrightarrow>
       (\<exists>m. build_ctv_fanout_manifest_from_precommitment sample_ctv (pf_precommitment p) parent_hex vout = Inr m \<and>
          cm_precommitment m = pf_precommitment p \<and> cm_precommitment_sha256_hex m = pf_precommitment_sha256_hex p \<and>
          cm_commitment_witness_leaf_hex m = pf_commitment_witness_leaf_hex p \<and>
          cm_parent_coinbase_txid m = txid_hex sample_ctv parent \<and> cm_parent_coinbase_vout m = vout \<and>
          verify_ctv_fanout_manifest_structure sample_ctv m = Inr ()))"
    by (rule fanout_lifecycle [OF sample_ctv_specs(1,2), where rh = "replicate 32 0" and qh = "replicate 32 0"
          and anchor_script = "[0x51, 0x02, 0x4e, 0x73]"])
      (simp_all add: sample_precommitment_input_def sample_payouts_valid sample_ctv_zeros,
       simp_all add: sample_fanout_payout_def QBIT_MAX_MONEY_SATS_def, simp_all add: sample_ctv_def sample_anchor)
  then show ?thesis
    by (auto simp: sample_precommitment_input_def sample_fanout_payout_def)
qed

definition chunk_key :: "ctv_fanout_manifest \<Rightarrow> u32" where
  "chunk_key m = pc_chunk_index (cm_precommitment m)"

interpretation chunks: key_order compare_chunk_index chunk_key
  by unfold_locales (simp add: compare_chunk_index_def chunk_key_def)

lemma checked_sum_map: "checked_sum e (map f xs) = Inr t \<longleftrightarrow> set_sums f xs < 2 ^ 64 \<and> unat (t :: u64) = set_sums f xs"
  by (simp add: checked_sum_Inr set_sums_def comp_def)

lemma set_rebuilds:
  assumes ok: "verify_ctv_fanout_manifest_set X ms = Inr u" and perm: "mset others = mset (cms_manifests ms)"
  shows "build_ctv_fanout_manifest_set X others = Inr ms"
proof -
  let ?xs = "cms_manifests ms"
  note sound = set_sound [OF ok]
  have len: "length ?xs = unat (cms_fanout_count ms)" and ne: "?xs \<noteq> []" and small: "length ?xs < 2 ^ 32"
    using sound unsigned_less [of "cms_fanout_count ms", where ?'a = nat] by auto
  have index: "chunk_key (?xs ! i) = of_nat i" if "i < length ?xs" for i
    using sound that by (simp add: chunk_key_def set_context_Inr)
  have keys: "map chunk_key ?xs = map of_nat [0..<length ?xs]"
    using index by (intro nth_equalityI) simp_all
  have unats: "unat (of_nat i :: u32) = i" if "i < length ?xs" for i
    using that small by (simp add: unat_of_nat)
  have "sorted (map chunk_key ?xs)"
    unfolding sorted_iff_nth_mono by (simp add: index word_le_nat_alt unats)
  moreover have "distinct (map chunk_key ?xs)"
    unfolding distinct_conv_nth by (simp add: index) (metis unats)
  ultimately have sort: "sort_by compare_chunk_index others = ?xs"
    using chunks.sort_by_perm [OF perm] chunks.sort_by_sorted [of ?xs] mset_eq_setD [OF perm] by (simp add: distinct_map)
  have "others \<noteq> []"
    using perm ne by auto
  have first: "manifest_set_context ms 0 (?xs ! 0) = Inr ()"
    using sound ne by (cases ?xs) auto
  have sums: "checked_sum e (map (pc_fanout_output_sum_sats \<circ> cm_precommitment) ?xs) = Inr (cms_fanout_output_sum_sats ms)"
    "checked_sum e (map (pc_fanout_fee_sats \<circ> cm_precommitment) ?xs) = Inr (cms_fanout_fee_sats ms)"
    "checked_sum e (map cm_covenant_output_value_sats ?xs) = Inr (cms_covenant_output_value_sats ms)" for e
    using sound u64_lt by (simp_all add: checked_sum_map) (metis+)?
  have count: "u32_try_from_usize (length ?xs) = Some (cms_fanout_count ms)"
    using len small by (simp add: u32_try_from_usize_def)
  have schema: "cms_schema ms = CTV_FANOUT_MANIFEST_SET_SCHEMA"
    using ok by (simp add: verify_ctv_fanout_manifest_set_def split: if_splits)
  have same: "\<lparr>cms_schema = CTV_FANOUT_MANIFEST_SET_SCHEMA, cms_block_height = cms_block_height ms,
        cms_coinbase_value_sats = cms_coinbase_value_sats ms, cms_settlement_mode = cms_settlement_mode ms,
        cms_reward_manifest_sha256_hex = cms_reward_manifest_sha256_hex ms,
        cms_payout_policy_manifest_sha256_hex = cms_payout_policy_manifest_sha256_hex ms,
        cms_parent_coinbase_txid = cms_parent_coinbase_txid ms, cms_fanout_count = cms_fanout_count ms,
        cms_fanout_output_sum_sats = cms_fanout_output_sum_sats ms, cms_fanout_fee_sats = cms_fanout_fee_sats ms,
        cms_covenant_output_value_sats = cms_covenant_output_value_sats ms, cms_manifests = ?xs\<rparr> = ms"
    by (rule ctv_fanout_manifest_set.equality) (simp_all add: schema)
  show ?thesis
    using \<open>others \<noteq> []\<close> first ok
    by (simp add: build_ctv_fanout_manifest_set_def sort sums count set_context_Inr same Let_def)
qed


lemma single_set:
  assumes "hex_spec X" and m: "verify_ctv_fanout_manifest_structure X m = Inr ()" and "pc_chunk_index (cm_precommitment m) = 0"
    and "pc_chunk_count (cm_precommitment m) = 1" and "pc_settlement_mode (cm_precommitment m) \<noteq> DirectCoinbase"
  shows "\<exists>ms. verify_ctv_fanout_manifest_set X ms = Inr () \<and> cms_manifests ms = [m]"
proof -
  let ?pc = "cm_precommitment m"
  let ?ms = "\<lparr>cms_schema = CTV_FANOUT_MANIFEST_SET_SCHEMA, cms_block_height = pc_block_height ?pc,
        cms_coinbase_value_sats = pc_coinbase_value_sats ?pc, cms_settlement_mode = pc_settlement_mode ?pc,
        cms_reward_manifest_sha256_hex = pc_reward_manifest_sha256_hex ?pc,
        cms_payout_policy_manifest_sha256_hex = pc_payout_policy_manifest_sha256_hex ?pc,
        cms_parent_coinbase_txid = cm_parent_coinbase_txid m, cms_fanout_count = 1,
        cms_fanout_output_sum_sats = pc_fanout_output_sum_sats ?pc, cms_fanout_fee_sats = pc_fanout_fee_sats ?pc,
        cms_covenant_output_value_sats = cm_covenant_output_value_sats m, cms_manifests = [m]\<rparr>"
  from m have fields: "verify_manifest_fields X m = Inr ()" and parent: "verify_manifest_parent X m = Inr ()"
    by (auto simp: verify_ctv_fanout_manifest_structure_def and_then_Inr)
  note pre = verify_manifest_fieldsD(1) [OF fields]
  have hexes: "\<exists>bytes. hex_decode X (pc_reward_manifest_sha256_hex ?pc) = Inr bytes \<and> length bytes = 32 \<and>
      pc_reward_manifest_sha256_hex ?pc = hex_encode X bytes"
    "\<exists>bytes. hex_decode X (pc_payout_policy_manifest_sha256_hex ?pc) = Inr bytes \<and> length bytes = 32 \<and>
      pc_payout_policy_manifest_sha256_hex ?pc = hex_encode X bytes"
    using verify_precommitmentD(10) [OF pre]
    by (auto simp: verify_precommitment_hex_def and_then_Inr canonical_sha256_Inr split: if_splits)
  have txid: "\<exists>bytes. hex_decode X (cm_parent_coinbase_txid m) = Inr bytes \<and> length bytes = 32 \<and>
      cm_parent_coinbase_txid m = hex_encode X bytes"
    using fields unfolding verify_manifest_fields_def Let_def and_then_Inr require_Inr canonical_sha256_Inr by blast
  have covenant: "cm_covenant_output_value_sats m = pc_covenant_output_value_sats ?pc"
    using verify_manifest_parentD [OF parent] by (auto simp: Let_def)
  have sum: "checked_add (pc_fanout_output_sum_sats ?pc) (pc_fanout_fee_sats ?pc) = Some (cm_covenant_output_value_sats m)"
    using verify_precommitmentD(3-5) [OF pre] u64_lt [of "pc_covenant_output_value_sats ?pc"]
    by (simp add: covenant checked_simps)
  have zero: "checked_add 0 v = Some v" for v :: u64
    using u64_lt [of v] by (simp add: checked_simps)
  have "manifest_set_context ?ms 0 m = Inr ()"
    using assms by (simp add: set_context_Inr)
  then have "try_fold (manifest_set_step X ?ms) set_scan_start (enumerate 0 [m]) =
      Inr \<lparr>ss_parent_vouts = {cm_parent_coinbase_vout m}, ss_ctv_hashes = {pc_ctv_hash_hex ?pc}, ss_fanout_txids = {cm_fanout_txid m},
        ss_commitment_leaves = {cm_commitment_witness_leaf_hex m}, ss_output_sum = pc_fanout_output_sum_sats ?pc,
        ss_fee_sum = pc_fanout_fee_sats ?pc, ss_covenant_sum = cm_covenant_output_value_sats m\<rparr>"
    by (simp add: manifest_set_step_def m set_scan_start_def zero Let_def)
  then have "verify_ctv_fanout_manifest_set X ?ms = Inr ()"
    using hexes txid sum assms(5) by (auto simp: verify_ctv_fanout_manifest_set_def validate_canonical_sha256_hex_def decode_hash_hex_def ensure_def)
  then show ?thesis
    by (intro exI [of _ ?ms]) simp
qed


end
