(* ===== verification/Audit_Data.thy ===== *)
theory Audit_Data
  imports Ctv Reward_Window Payout_Policy
begin

text \<open>
  The audit bundle of \<open>qbit-prism/src/lib.rs\<close>: its records, their canonical bytes, the reward
  manifest header, the commitment leaf and root, the digest of the prior balances and the
  ledger attestation. \<open>serde_json\<close> is a parameter: one writer per type of value, and
  \<open>json_object\<close>, the compact object a struct becomes once its fields are written. Which fields
  a struct writes, in which order, and which it leaves out is the code's own.
\<close>

section \<open>Records\<close>

record ledger_window_attestation =
  lwa_schema :: string
  lwa_block_height :: u64
  lwa_coinbase_value_sats :: u64
  lwa_anchor_job_issued_at_ms :: i64
  lwa_network_difficulty :: u128
  lwa_share_slice_digest_hex :: string
  lwa_prior_balances_digest_hex :: string
  lwa_signature :: manifest_signature

record audit_bundle_body =
  ab_schema :: string
  ab_found_block :: found_block
  ab_prior_balances :: "carry_forward_balance list"
  ab_payout_policy :: payout_policy
  ab_coinbase_script_sig_suffix_hex :: "string option"
  ab_witness_merkle_leaves_hex :: "string list"
  ab_audit_commitment_leaves_hex :: "string list"
  ab_audit_commitment_root_hex :: "string option"
  ab_ledger_window_attestation :: ledger_window_attestation
  ab_reward_manifest :: prism_reward_manifest
  ab_payout_policy_manifest :: payout_policy_manifest
  ab_settlement_mode_decision :: "settlement_mode_decision option"
  ab_ctv_fanout_fee_policy :: "fanout_fee_rate_policy option"
  ab_ctv_fanout_manifest_set :: "ctv_fanout_manifest_set option"
  ab_signed_coinbase_manifest :: signed_payout_manifest

text \<open>\<open>AuditBundle\<close> has the fields of the body and the payout window.\<close>

record audit_bundle = audit_bundle_body +
  ab_shares :: "accepted_share list"

text \<open>\<open>AuditBundleRef\<close> borrows the same fields; it is read only.\<close>

type_synonym audit_view = audit_bundle

definition into_parts :: "audit_bundle \<Rightarrow> audit_bundle_body \<times> accepted_share list" where
  "into_parts bundle = (audit_bundle_body.truncate bundle, ab_shares bundle)"

definition into_bundle :: "audit_bundle_body \<Rightarrow> accepted_share list \<Rightarrow> audit_bundle" where
  "into_bundle body shares = audit_bundle_body.extend body (audit_bundle.fields shares)"

definition view_from_bundle :: "audit_bundle \<Rightarrow> audit_view" where
  "view_from_bundle bundle = bundle"

definition view_from_parts :: "audit_bundle_body \<Rightarrow> accepted_share list \<Rightarrow> audit_view" where
  "view_from_parts body shares = audit_bundle_body.extend body (audit_bundle.fields shares)"

record audit_verification_report =
  avr_schema :: string
  avr_block_height :: u64
  avr_coinbase_value_sats :: u64
  avr_reward_manifest_sha256_hex :: string
  avr_payout_policy_manifest_sha256_hex :: string
  avr_prism_audit_commitment_leaf_hex :: string
  avr_audit_commitment_root_hex :: string
  avr_coinbase_manifest_sha256_hex :: string
  avr_audit_bundle_sha256_hex :: string
  avr_coinbase_txid :: string
  avr_coinbase_wtxid :: string
  avr_coinbase_tx_hex :: string
  avr_min_output_sats :: u64
  avr_coinbase_output_policy :: coinbase_output_policy
  avr_onchain_output_count :: nat
  avr_accrued_account_count :: nat

record prism_reward_manifest_header =
  rh_schema :: string
  rh_block_height :: u64
  rh_coinbase_value_sats :: u64
  rh_network_difficulty :: u128
  rh_window_multiplier :: u128
  rh_requested_window_weight :: u128
  rh_counted_window_weight :: u128
  rh_anchor_job_issued_at_ms :: i64
  rh_anchor_share_seq :: u64
  rh_newest_share_seq :: u64
  rh_oldest_share_seq :: u64
  rh_cut :: "window_cut option"
  rh_included_share_count :: nat
  rh_share_slice_digest_hex :: string
  rh_entitlements :: "weighted_entitlement list"

definition manifest_into_parts :: "prism_reward_manifest \<Rightarrow> prism_reward_manifest_header \<times> counted_share list" where
  "manifest_into_parts m =
     (\<lparr>rh_schema = rm_schema m, rh_block_height = rm_block_height m,
       rh_coinbase_value_sats = rm_coinbase_value_sats m, rh_network_difficulty = rm_network_difficulty m,
       rh_window_multiplier = rm_window_multiplier m, rh_requested_window_weight = rm_requested_window_weight m,
       rh_counted_window_weight = rm_counted_window_weight m,
       rh_anchor_job_issued_at_ms = rm_anchor_job_issued_at_ms m, rh_anchor_share_seq = rm_anchor_share_seq m,
       rh_newest_share_seq = rm_newest_share_seq m, rh_oldest_share_seq = rm_oldest_share_seq m,
       rh_cut = rm_cut m, rh_included_share_count = rm_included_share_count m,
       rh_share_slice_digest_hex = rm_share_slice_digest_hex m, rh_entitlements = rm_entitlements m\<rparr>, rm_shares m)"

definition into_manifest :: "prism_reward_manifest_header \<Rightarrow> counted_share list \<Rightarrow> prism_reward_manifest" where
  "into_manifest h shares =
     \<lparr>rm_schema = rh_schema h, rm_block_height = rh_block_height h,
      rm_coinbase_value_sats = rh_coinbase_value_sats h, rm_network_difficulty = rh_network_difficulty h,
      rm_window_multiplier = rh_window_multiplier h, rm_requested_window_weight = rh_requested_window_weight h,
      rm_counted_window_weight = rh_counted_window_weight h,
      rm_anchor_job_issued_at_ms = rh_anchor_job_issued_at_ms h, rm_anchor_share_seq = rh_anchor_share_seq h,
      rm_newest_share_seq = rh_newest_share_seq h, rm_oldest_share_seq = rh_oldest_share_seq h,
      rm_cut = rh_cut h, rm_included_share_count = rh_included_share_count h,
      rm_share_slice_digest_hex = rh_share_slice_digest_hex h, rm_shares = shares,
      rm_entitlements = rh_entitlements h\<rparr>"

definition restore_reward_manifest ::
    "'x crates_scheme \<Rightarrow> prism_reward_manifest_header \<Rightarrow> accepted_share list \<Rightarrow> found_block \<Rightarrow>
     prism_error + prism_reward_manifest" where
  "restore_reward_manifest X header shares found_block =
     and_then (build_prism_reward_manifest_with_cut X shares found_block (rh_cut header)) (\<lambda>manifest.
     let (rebuilt, window) = manifest_into_parts manifest in
     if rebuilt \<noteq> header then Inl (AuditMismatch ''reward_manifest'')
     else Inr (into_manifest rebuilt window))"

section \<open>Canonical bytes\<close>

record json_crates = ctv_crates +
  json_object :: "(string \<times> u8 list) list \<Rightarrow> u8 list"
  json_str :: "string \<Rightarrow> string + u8 list"
  json_u64 :: "u64 \<Rightarrow> string + u8 list"
  json_u128 :: "u128 \<Rightarrow> string + u8 list"
  json_i64 :: "i64 \<Rightarrow> string + u8 list"
  json_usize :: "nat \<Rightarrow> string + u8 list"
  json_strings :: "string list \<Rightarrow> string + u8 list"
  json_window_cut :: "window_cut \<Rightarrow> string + u8 list"
  json_accepted_share :: "accepted_share \<Rightarrow> string + u8 list"
  json_accepted_shares :: "accepted_share list \<Rightarrow> string + u8 list"
  json_counted_share :: "counted_share \<Rightarrow> string + u8 list"
  json_counted_shares :: "counted_share list \<Rightarrow> string + u8 list"
  json_entitlements :: "weighted_entitlement list \<Rightarrow> string + u8 list"
  json_found_block :: "found_block \<Rightarrow> string + u8 list"
  json_balances :: "carry_forward_balance list \<Rightarrow> string + u8 list"
  json_payout_policy :: "payout_policy \<Rightarrow> string + u8 list"
  json_attestation :: "ledger_window_attestation \<Rightarrow> string + u8 list"
  json_policy_manifest :: "payout_policy_manifest \<Rightarrow> string + u8 list"
  json_decision :: "settlement_mode_decision \<Rightarrow> string + u8 list"
  json_fee_policy :: "fanout_fee_rate_policy \<Rightarrow> string + u8 list"
  json_signed_manifest :: "signed_payout_manifest \<Rightarrow> string + u8 list"

text \<open>
  A struct's \<open>serialize_field\<close> calls, in order: the name and the value, written or failing.
  \<open>skip_serializing_if\<close> leaves a field out.
\<close>

type_synonym json_field = "string \<times> (string + u8 list)"

definition write_fields :: "json_field list \<Rightarrow> string + (string \<times> u8 list) list" where
  "write_fields = try_map (\<lambda>(name, v). and_then v (\<lambda>bytes. Inr (name, bytes)))"

definition to_json_object :: "'x json_crates_scheme \<Rightarrow> json_field list \<Rightarrow> string + u8 list" where
  "to_json_object X fs = and_then (write_fields fs) (\<lambda>written. Inr (json_object X written))"

definition optional_field :: "string \<Rightarrow> ('a \<Rightarrow> string + u8 list) \<Rightarrow> 'a option \<Rightarrow> json_field list" where
  "optional_field name write v = (case v of None \<Rightarrow> [] | Some a \<Rightarrow> [(name, write a)])"

definition strings_field :: "'x json_crates_scheme \<Rightarrow> string \<Rightarrow> string list \<Rightarrow> json_field list" where
  "strings_field X name v = (if v = [] then [] else [(name, json_strings X v)])"

definition reward_manifest_fields :: "'x json_crates_scheme \<Rightarrow> prism_reward_manifest \<Rightarrow> json_field list" where
  "reward_manifest_fields X m =
     [(''schema'', json_str X (rm_schema m)), (''block_height'', json_u64 X (rm_block_height m)),
      (''coinbase_value_sats'', json_u64 X (rm_coinbase_value_sats m)),
      (''network_difficulty'', json_u128 X (rm_network_difficulty m)),
      (''window_multiplier'', json_u128 X (rm_window_multiplier m)),
      (''requested_window_weight'', json_u128 X (rm_requested_window_weight m)),
      (''counted_window_weight'', json_u128 X (rm_counted_window_weight m)),
      (''anchor_job_issued_at_ms'', json_i64 X (rm_anchor_job_issued_at_ms m)),
      (''anchor_share_seq'', json_u64 X (rm_anchor_share_seq m)),
      (''newest_share_seq'', json_u64 X (rm_newest_share_seq m)),
      (''oldest_share_seq'', json_u64 X (rm_oldest_share_seq m))] @
     optional_field ''cut'' (json_window_cut X) (rm_cut m) @
     [(''included_share_count'', json_usize X (rm_included_share_count m)),
      (''share_slice_digest_hex'', json_str X (rm_share_slice_digest_hex m)),
      (''shares'', json_counted_shares X (rm_shares m)),
      (''entitlements'', json_entitlements X (rm_entitlements m))]"

definition canonical_reward_manifest_bytes :: "'x json_crates_scheme \<Rightarrow> prism_reward_manifest \<Rightarrow> string + u8 list" where
  "canonical_reward_manifest_bytes X m = to_json_object X (reward_manifest_fields X m)"

definition canonical_payout_policy_manifest_bytes ::
    "'x json_crates_scheme \<Rightarrow> payout_policy_manifest \<Rightarrow> string + u8 list" where
  "canonical_payout_policy_manifest_bytes X m = json_policy_manifest X m"

definition bundle_suffix_fields :: "'x json_crates_scheme \<Rightarrow> audit_view \<Rightarrow> json_field list" where
  "bundle_suffix_fields X b =
     [(''found_block'', json_found_block X (ab_found_block b)),
      (''prior_balances'', json_balances X (ab_prior_balances b)),
      (''payout_policy'', json_payout_policy X (ab_payout_policy b))] @
     optional_field ''coinbase_script_sig_suffix_hex'' (json_str X) (ab_coinbase_script_sig_suffix_hex b) @
     strings_field X ''witness_merkle_leaves_hex'' (ab_witness_merkle_leaves_hex b) @
     strings_field X ''audit_commitment_leaves_hex'' (ab_audit_commitment_leaves_hex b) @
     optional_field ''audit_commitment_root_hex'' (json_str X) (ab_audit_commitment_root_hex b) @
     [(''ledger_window_attestation'', json_attestation X (ab_ledger_window_attestation b)),
      (''reward_manifest'', canonical_reward_manifest_bytes X (ab_reward_manifest b)),
      (''payout_policy_manifest'', json_policy_manifest X (ab_payout_policy_manifest b))] @
     optional_field ''settlement_mode_decision'' (json_decision X) (ab_settlement_mode_decision b) @
     optional_field ''ctv_fanout_fee_policy'' (json_fee_policy X) (ab_ctv_fanout_fee_policy b) @
     optional_field ''ctv_fanout_manifest_set'' (manifest_set_json X) (ab_ctv_fanout_manifest_set b) @
     [(''signed_coinbase_manifest'', json_signed_manifest X (ab_signed_coinbase_manifest b))]"

definition bundle_fields :: "'x json_crates_scheme \<Rightarrow> audit_view \<Rightarrow> json_field list" where
  "bundle_fields X b =
     [(''schema'', json_str X (ab_schema b)), (''shares'', json_accepted_shares X (ab_shares b))] @
     bundle_suffix_fields X b"

definition write_canonical :: "'x json_crates_scheme \<Rightarrow> audit_view \<Rightarrow> string + u8 list" where
  "write_canonical X b = to_json_object X (bundle_fields X b)"

definition canonical_audit_bundle_bytes :: "'x json_crates_scheme \<Rightarrow> audit_bundle \<Rightarrow> string + u8 list" where
  "canonical_audit_bundle_bytes X bundle = write_canonical X (view_from_bundle bundle)"

definition canonical_audit_bundle_bytes_from_parts ::
    "'x json_crates_scheme \<Rightarrow> audit_bundle_body \<Rightarrow> accepted_share list \<Rightarrow> string + u8 list" where
  "canonical_audit_bundle_bytes_from_parts X body shares = write_canonical X (view_from_parts body shares)"

section \<open>Commitments\<close>

definition sha256_hex :: "'x crates_scheme \<Rightarrow> u8 list \<Rightarrow> string" where
  "sha256_hex X bytes = hex_encode X (sha256_digest X bytes)"

definition commitment_leaf_hex :: "'x crates_scheme \<Rightarrow> u8 list \<Rightarrow> u8 list \<Rightarrow> string" where
  "commitment_leaf_hex X reward_manifest_hash payout_policy_manifest_hash =
     sha256_hex X (as_bytes PRISM_AUDIT_COMMITMENT_LEAF_TAG @ reward_manifest_hash @ payout_policy_manifest_hash)"

definition prism_audit_commitment_leaf_hex ::
    "'x json_crates_scheme \<Rightarrow> prism_reward_manifest \<Rightarrow> payout_policy_manifest \<Rightarrow> prism_error + string" where
  "prism_audit_commitment_leaf_hex X reward_manifest policy_manifest =
     and_then (map_err PrismJson (canonical_reward_manifest_bytes X reward_manifest)) (\<lambda>reward_bytes.
     and_then (map_err PrismJson (canonical_payout_policy_manifest_bytes X policy_manifest)) (\<lambda>policy_bytes.
     Inr (commitment_leaf_hex X (sha256_digest X reward_bytes) (sha256_digest X policy_bytes))))"

definition parse_audit_commitment_leaf :: "'x crates_scheme \<Rightarrow> nat \<times> string \<Rightarrow> prism_error + u8 list" where
  "parse_audit_commitment_leaf X = (\<lambda>(index, raw).
     and_then (map_err (\<lambda>error. InvalidAuditCommitment
         (''commitment leaf '' @ show_nat index @ '' is not hex: '' @ error)) (hex_decode X raw)) (\<lambda>decoded.
     if length decoded \<noteq> 32
     then Inl (InvalidAuditCommitment (''commitment leaf '' @ show_nat index @ '' must be 32 bytes, got '' @
       show_nat (length decoded)))
     else Inr decoded))"

definition parse_audit_commitment_leaves :: "'x crates_scheme \<Rightarrow> string list \<Rightarrow> prism_error + u8 list list" where
  "parse_audit_commitment_leaves X commitment_leaves_hex =
     (if commitment_leaves_hex = []
      then Inl (InvalidAuditCommitment ''at least one commitment leaf is required'')
      else try_map (parse_audit_commitment_leaf X) (List.enumerate 0 commitment_leaves_hex))"

text \<open>\<open>lib.rs\<close> repeats the double hash and the Merkle root of the pool builder.\<close>

definition audit_commitment_root_hex :: "'x crates_scheme \<Rightarrow> string list \<Rightarrow> prism_error + string" where
  "audit_commitment_root_hex X commitment_leaves_hex =
     and_then (parse_audit_commitment_leaves X commitment_leaves_hex) (\<lambda>leaves.
     Inr (hex_encode X (merkle_root X leaves)))"

section \<open>Prior balances and the ledger attestation\<close>

definition compare_balances :: "carry_forward_balance \<Rightarrow> carry_forward_balance \<Rightarrow> ordering" where
  "compare_balances left right =
     then_with (then_with (cmp (cb_order_key left) (cb_order_key right))
       (cmp (cb_recipient_id left) (cb_recipient_id right)))
       (cmp (cb_p2mr_program_hex left) (cb_p2mr_program_hex right))"

definition absorb_balance :: "carry_forward_balance \<Rightarrow> u8 list" where
  "absorb_balance balance =
     update_string (cb_recipient_id balance) @ update_string (cb_order_key balance) @
     update_string (cb_p2mr_program_hex balance) @ to_be_bytes (cb_balance_sats balance)"

definition prior_balances_digest :: "'x crates_scheme \<Rightarrow> carry_forward_balance list \<Rightarrow> u8 list" where
  "prior_balances_digest X balances =
     sha256_digest X (concat (map absorb_balance (sort_by compare_balances balances)))"

definition prior_balances_digest_hex :: "'x crates_scheme \<Rightarrow> carry_forward_balance list \<Rightarrow> string" where
  "prior_balances_digest_hex X balances = hex_encode X (prior_balances_digest X balances)"

definition canonical_ledger_window_attestation_bytes ::
    "'x json_crates_scheme \<Rightarrow> ledger_window_attestation \<Rightarrow> string + u8 list" where
  "canonical_ledger_window_attestation_bytes X a =
     to_json_object X
       [(''schema'', json_str X (lwa_schema a)), (''block_height'', json_u64 X (lwa_block_height a)),
        (''coinbase_value_sats'', json_u64 X (lwa_coinbase_value_sats a)),
        (''anchor_job_issued_at_ms'', json_i64 X (lwa_anchor_job_issued_at_ms a)),
        (''network_difficulty'', json_u128 X (lwa_network_difficulty a)),
        (''share_slice_digest_hex'', json_str X (lwa_share_slice_digest_hex a)),
        (''prior_balances_digest_hex'', json_str X (lwa_prior_balances_digest_hex a))]"

definition build_ledger_window_attestation ::
    "'x json_crates_scheme \<Rightarrow> prism_reward_manifest \<Rightarrow> carry_forward_balance list \<Rightarrow> u8 list \<Rightarrow>
     prism_error + ledger_window_attestation" where
  "build_ledger_window_attestation X reward_manifest prior_balances signing_key =
     (let attestation =
        \<lparr>lwa_schema = ''qbit.prism.ledger-window-attestation.v1'',
         lwa_block_height = rm_block_height reward_manifest,
         lwa_coinbase_value_sats = rm_coinbase_value_sats reward_manifest,
         lwa_anchor_job_issued_at_ms = rm_anchor_job_issued_at_ms reward_manifest,
         lwa_network_difficulty = rm_network_difficulty reward_manifest,
         lwa_share_slice_digest_hex = rm_share_slice_digest_hex reward_manifest,
         lwa_prior_balances_digest_hex = prior_balances_digest_hex X prior_balances,
         lwa_signature = \<lparr>sig_algorithm = ''ed25519'', sig_public_key_hex = public_key_hex X signing_key,
           sig_signature_hex = []\<rparr>\<rparr> in
      and_then (map_err PrismJson (canonical_ledger_window_attestation_bytes X attestation)) (\<lambda>payload.
      Inr (attestation\<lparr>lwa_signature :=
        (lwa_signature attestation)\<lparr>sig_signature_hex := sign_message_hex X signing_key payload\<rparr>\<rparr>)))"

definition verify_ledger_window_attestation ::
    "'x json_crates_scheme \<Rightarrow> audit_view \<Rightarrow> string \<Rightarrow> prism_error + unit" where
  "verify_ledger_window_attestation X bundle writer_public_key_hex =
     (let attestation = ab_ledger_window_attestation bundle; found_block = ab_found_block bundle in
      if lwa_schema attestation \<noteq> ''qbit.prism.ledger-window-attestation.v1''
      then Inl (AuditMismatch ''ledger_attestation_schema'')
      else if lwa_anchor_job_issued_at_ms attestation \<noteq> fb_anchor_job_issued_at_ms found_block \<or>
          lwa_network_difficulty attestation \<noteq> fb_network_difficulty found_block \<or>
          lwa_block_height attestation \<noteq> fb_block_height found_block \<or>
          lwa_coinbase_value_sats attestation \<noteq> fb_coinbase_value_sats found_block
      then Inl (AuditMismatch ''ledger_attestation_scope'')
      else if lwa_share_slice_digest_hex attestation \<noteq> rm_share_slice_digest_hex (ab_reward_manifest bundle)
      then Inl (AuditMismatch ''ledger_attestation_share_digest'')
      else if lwa_prior_balances_digest_hex attestation \<noteq> prior_balances_digest_hex X (ab_prior_balances bundle)
      then Inl (AuditMismatch ''ledger_attestation_prior_digest'')
      else if \<not> eq_ignore_ascii_case (sig_public_key_hex (lwa_signature attestation)) writer_public_key_hex
      then Inl (AuditMismatch ''ledger_attestation_public_key'')
      else if sig_algorithm (lwa_signature attestation) \<noteq> ''ed25519''
      then Inl (AuditMismatch ''ledger_attestation_signature'')
      else
        and_then (map_err PrismJson (canonical_ledger_window_attestation_bytes X attestation)) (\<lambda>payload.
        map_err Builder (verify_ed25519_message X (sig_public_key_hex (lwa_signature attestation)) payload
          (sig_signature_hex (lwa_signature attestation)))))"

end
