(* ===== verification/Canonical_Writer.thy ===== *)
theory Canonical_Writer
  imports Audit_Data "HOL-Library.Sublist"
begin

text \<open>
  The builder's writers of canonical bytes: \<open>parallel.rs\<close> splits an array into chunks and a
  struct into fields and does the framing itself, \<open>audit_hash.rs\<close> hashes a bundle as a prefix,
  up to the payout window, and a suffix. A hasher is the bytes it has absorbed. What the code
  relies on of \<open>serde_json\<close>, the compact layout of objects and arrays, is the predicate
  \<open>json_spec\<close>. The claim is that every way of writing gives the canonical bytes.
\<close>

section \<open>Ordered chunks, arrays and structs\<close>

definition parallelism_serial :: parallelism where
  "parallelism_serial = \<lparr>par_workers = 1, par_chunk_len = 2 ^ 64 - 1\<rparr>"

definition chunk_frame :: "('a \<Rightarrow> 'e + u8 list) \<Rightarrow> nat \<Rightarrow> 'a list \<Rightarrow> 'e + u8 list" where
  "chunk_frame one index chunk =
     and_then (try_map (\<lambda>(position, item). and_then (one item) (\<lambda>bytes.
         Inr ((if 0 < position \<or> 0 < index then [0x2c] else []) @ bytes))) (List.enumerate 0 chunk))
       (\<lambda>parts. Inr (concat parts))"

text \<open>The frames are collected in the order in which \<open>consume\<close> gets them.\<close>

definition write_array_frames ::
    "('a list \<Rightarrow> 'e + u8 list) \<Rightarrow> ('a \<Rightarrow> 'e + u8 list) \<Rightarrow> parallelism \<Rightarrow> 'a list \<Rightarrow> 'e + u8 list list" where
  "write_array_frames whole one p items =
     (let chunk_len = max (min (par_chunk_len p) (length items)) 1 in
      if is_serial p \<or> length items \<le> chunk_len then and_then (whole items) (\<lambda>frame. Inr [frame])
      else
        and_then (ordered_chunks (div_ceil (length items) chunk_len)
            (\<lambda>index. chunk_frame one index (chunk_range chunk_len items index))
            (\<lambda>frames buffer. Inr (frames @ [buffer])) [[0x5b]]) (\<lambda>frames.
        Inr (frames @ [[0x5d]])))"

definition write_array ::
    "('a list \<Rightarrow> 'e + u8 list) \<Rightarrow> ('a \<Rightarrow> 'e + u8 list) \<Rightarrow> parallelism \<Rightarrow> 'a list \<Rightarrow> 'e + u8 list" where
  "write_array whole one p items =
     (if is_serial p \<or> length items \<le> par_chunk_len p then whole items
      else and_then (write_array_frames whole one p items) (\<lambda>frames. Inr (concat frames)))"

text \<open>\<open>SpliceFields\<close>: the framing of a struct, with the value of one field supplied.\<close>

fun splice_fields ::
    "'x json_crates_scheme \<Rightarrow> string \<Rightarrow> (string + u8 list) option \<Rightarrow> bool \<Rightarrow> json_field list \<Rightarrow> string + u8 list" where
  "splice_fields X field spliced first [] = Inr [0x7d]"
| "splice_fields X field spliced first ((key, v) # fs) =
     and_then (json_str X key) (\<lambda>key_bytes.
     and_then (if key = field then (case spliced of None \<Rightarrow> Inl ''spliced field serialized twice'' | Some s \<Rightarrow> s) else v)
       (\<lambda>v_bytes.
     and_then (splice_fields X field (if key = field then None else spliced) False fs) (\<lambda>rest.
     Inr ((if first then [] else [0x2c]) @ key_bytes @ [0x3a] @ v_bytes @ rest))))"

definition splice_struct ::
    "'x json_crates_scheme \<Rightarrow> u8 \<Rightarrow> string \<Rightarrow> (string + u8 list) \<Rightarrow> json_field list \<Rightarrow> string + u8 list" where
  "splice_struct X opening field spliced fs =
     and_then (splice_fields X field (Some spliced) True fs) (\<lambda>rest. Inr (opening # rest))"

definition write_reward_manifest ::
    "'x json_crates_scheme \<Rightarrow> parallelism \<Rightarrow> prism_reward_manifest \<Rightarrow> string + u8 list" where
  "write_reward_manifest X p m =
     (if is_serial p then canonical_reward_manifest_bytes X m
      else splice_struct X 0x7b ''shares''
        (write_array (json_counted_shares X) (json_counted_share X) p (rm_shares m)) (reward_manifest_fields X m))"

definition reward_manifest_sha256 ::
    "'x json_crates_scheme \<Rightarrow> prism_reward_manifest \<Rightarrow> parallelism \<Rightarrow> string + u8 list" where
  "reward_manifest_sha256 X m p =
     and_then (write_reward_manifest X p m) (\<lambda>bytes. Inr (sha256_digest X bytes))"

section \<open>The split hash of a bundle\<close>

definition audit_bundle_schema_for_shares :: "accepted_share list \<Rightarrow> string" where
  "audit_bundle_schema_for_shares shares =
     (if list_ex (\<lambda>share. sh_credit_policy share \<noteq> None) shares
      then AUDIT_BUNDLE_SCHEMA_V1_1 else AUDIT_BUNDLE_SCHEMA_V1)"

abbreviation quoted :: "string \<Rightarrow> string" where
  "quoted s \<equiv> [CHR 0x22] @ s @ [CHR 0x22]"

definition write_prefix_header :: "'x json_crates_scheme \<Rightarrow> string \<Rightarrow> string + u8 list" where
  "write_prefix_header X schema =
     and_then (json_str X schema) (\<lambda>bytes.
     Inr (as_bytes (''{'' @ quoted ''schema'' @ '':'') @ bytes @ as_bytes ('','' @ quoted ''shares'' @ '':'')))"

definition write_prefix :: "'x json_crates_scheme \<Rightarrow> string \<Rightarrow> accepted_share list \<Rightarrow> string + u8 list" where
  "write_prefix X schema shares =
     and_then (write_prefix_header X schema) (\<lambda>header.
     and_then (json_accepted_shares X shares) (\<lambda>bytes. Inr (header @ bytes)))"

text \<open>\<open>ContinueObject\<close> on the bytes written to it.\<close>

definition continue_object :: "u8 list \<Rightarrow> string + u8 list" where
  "continue_object bytes =
     (case bytes of [] \<Rightarrow> Inr []
      | b # rest \<Rightarrow> if b \<noteq> 0x7b then Inl ''audit suffix must be an object'' else Inr (0x2c # rest))"

definition write_suffix :: "'x json_crates_scheme \<Rightarrow> audit_bundle_body \<Rightarrow> string + u8 list" where
  "write_suffix X body =
     and_then (to_json_object X (bundle_suffix_fields X (view_from_parts body []))) continue_object"

definition write_suffix_with ::
    "'x json_crates_scheme \<Rightarrow> audit_bundle_body \<Rightarrow> parallelism \<Rightarrow> string + u8 list" where
  "write_suffix_with X body p =
     (if is_serial p then write_suffix X body
      else splice_struct X 0x2c ''reward_manifest'' (write_reward_manifest X p (ab_reward_manifest body))
        (bundle_suffix_fields X (view_from_parts body [])))"

record audit_hash_prefix =
  hp_absorbed :: "u8 list"
  hp_schema :: string

definition hash_prefix_new :: "'x json_crates_scheme \<Rightarrow> accepted_share list \<Rightarrow> string + audit_hash_prefix" where
  "hash_prefix_new X shares =
     (let schema = audit_bundle_schema_for_shares shares in
      and_then (write_prefix X schema shares) (\<lambda>bytes. Inr \<lparr>hp_absorbed = bytes, hp_schema = schema\<rparr>))"

definition hash_prefix_new_with ::
    "'x json_crates_scheme \<Rightarrow> accepted_share list \<Rightarrow> parallelism \<Rightarrow> string + audit_hash_prefix" where
  "hash_prefix_new_with X shares p =
     (let schema = audit_bundle_schema_for_shares shares in
      and_then (write_prefix_header X schema) (\<lambda>header.
      and_then (write_array (json_accepted_shares X) (json_accepted_share X) p shares) (\<lambda>bytes.
      Inr \<lparr>hp_absorbed = header @ bytes, hp_schema = schema\<rparr>)))"

text \<open>
  The tee: every byte of the array goes to the prefix and to the array's own hasher, frame by
  frame when parallel.
\<close>

definition hash_prefix_new_with_share_digest ::
    "'x json_crates_scheme \<Rightarrow> accepted_share list \<Rightarrow> parallelism \<Rightarrow> string + (audit_hash_prefix \<times> u8 list)" where
  "hash_prefix_new_with_share_digest X shares p =
     (let schema = audit_bundle_schema_for_shares shares in
      and_then (write_prefix_header X schema) (\<lambda>header.
      and_then
        (if is_serial p
         then and_then (write_array (json_accepted_shares X) (json_accepted_share X) p shares)
           (\<lambda>bytes. Inr (header @ bytes, bytes))
         else and_then (write_array_frames (json_accepted_shares X) (json_accepted_share X) p shares)
           (\<lambda>frames. Inr (fold (\<lambda>frame (pre, array). (pre @ frame, array @ frame)) frames (header, []))))
        (\<lambda>(pre, array).
      Inr (\<lparr>hp_absorbed = pre, hp_schema = schema\<rparr>, sha256_digest X array))))"

definition hash_finish_with ::
    "'x json_crates_scheme \<Rightarrow> audit_hash_prefix \<Rightarrow> audit_bundle_body \<Rightarrow> parallelism \<Rightarrow> prism_error + string" where
  "hash_finish_with X pre body p =
     (if ab_schema body \<noteq> hp_schema pre then Inl (AuditMismatch ''schema'')
      else and_then (map_err PrismJson (write_suffix_with X body p)) (\<lambda>suffix.
        Inr (hex_encode X (sha256_digest X (hp_absorbed pre @ suffix)))))"

definition hash_finish ::
    "'x json_crates_scheme \<Rightarrow> audit_hash_prefix \<Rightarrow> audit_bundle_body \<Rightarrow> prism_error + string" where
  "hash_finish X pre body = hash_finish_with X pre body parallelism_serial"

section \<open>What the writers rely on\<close>

fun json_join :: "u8 list list \<Rightarrow> u8 list" where
  "json_join [] = []"
| "json_join [b] = b"
| "json_join (b # c # bs) = b @ 0x2c # json_join (c # bs)"

definition json_member :: "'x json_crates_scheme \<Rightarrow> string \<times> u8 list \<Rightarrow> u8 list" where
  "json_member X = (\<lambda>(key, v). (case json_str X key of Inl _ \<Rightarrow> [] | Inr k \<Rightarrow> k) @ 0x3a # v)"

definition plain_name :: "string \<Rightarrow> bool" where
  "plain_name s \<longleftrightarrow> list_all (\<lambda>c. c = CHR ''_'' \<or> CHR ''a'' \<le> c \<and> c \<le> CHR ''z'' \<or> CHR ''0'' \<le> c \<and> c \<le> CHR ''9'') s"

definition json_spec :: "'x json_crates_scheme \<Rightarrow> bool" where
  "json_spec X \<longleftrightarrow>
     (\<forall>name. plain_name name \<longrightarrow> json_str X name = Inr (as_bytes (quoted name))) \<and>
     (\<forall>kvs. list_all (plain_name \<circ> fst) kvs \<longrightarrow> json_object X kvs = 0x7b # json_join (map (json_member X) kvs) @ [0x7d]) \<and>
     (\<forall>xs. json_accepted_shares X xs =
        and_then (try_map (json_accepted_share X) xs) (\<lambda>bs. Inr (0x5b # json_join bs @ [0x5d]))) \<and>
     (\<forall>xs. json_counted_shares X xs =
        and_then (try_map (json_counted_share X) xs) (\<lambda>bs. Inr (0x5b # json_join bs @ [0x5d])))"


section \<open>Every way of writing gives the canonical bytes\<close>

lemma json_join_Cons: "json_join (b # bs) = b @ concat (map ((#) 0x2c) bs)"
  by (induction bs arbitrary: b) simp_all

lemma json_join_append: "xs \<noteq> [] \<Longrightarrow> json_join (xs @ ys) = json_join xs @ concat (map ((#) 0x2c) ys)"
  by (cases xs) (simp_all add: json_join_Cons)

lemma chunk_frame_parts:
  "try_map (\<lambda>(position, item). and_then (one item) (\<lambda>bytes.
      Inr ((if 0 < position \<or> 0 < index then [0x2c] else []) @ bytes))) (List.enumerate k chunk) =
   and_then (try_map one chunk) (\<lambda>bs. Inr (case bs of [] \<Rightarrow> []
     | b # rest \<Rightarrow> ((if 0 < k \<or> 0 < index then [0x2c] else []) @ b) # map ((#) (0x2c :: u8)) rest))"
proof (induction chunk arbitrary: k)
  case (Cons x chunk)
  have "map ((#) 0x2c) bs = (case bs of [] \<Rightarrow> [] | b # rest \<Rightarrow> (0x2c # b) # map ((#) (0x2c :: u8)) rest)" for bs
    by (cases bs) simp_all
  then show ?case
    by (cases "one x"; cases "try_map one chunk") (auto simp: Cons.IH split: list.split)
qed simp

lemma chunk_frame_eq:
  "chunk_frame one index chunk = and_then (try_map one chunk)
     (\<lambda>bs. Inr (if 0 < index then concat (map ((#) 0x2c) bs) else json_join bs))"
  unfolding chunk_frame_def chunk_frame_parts
  by (cases "try_map one chunk"; cases "projr (try_map one chunk)") (simp_all add: json_join_Cons)

lemma frames_joined:
  assumes "0 < c" and "xs \<noteq> []"
  shows "and_then (ordered_chunks n (\<lambda>i. chunk_frame one i (chunk_range c xs i)) (\<lambda>fs b. Inr (fs @ [b])) [[0x5b]])
      (\<lambda>fs. Inr (concat fs)) = and_then (try_map one (take (n * c) xs)) (\<lambda>bs. Inr (0x5b # json_join bs))"
proof (induction n)
  case 0
  then show ?case by (simp add: ordered_chunks_def)
next
  case (Suc n)
  let ?chunks = "\<lambda>n. ordered_chunks n (\<lambda>i. chunk_frame one i (chunk_range c xs i)) (\<lambda>fs b. Inr (fs @ [b])) [[0x5b]]"
  let ?frame = "chunk_frame one n (chunk_range c xs n)"
  have "and_then (?chunks (Suc n)) (\<lambda>fs. Inr (concat fs)) =
      and_then (and_then (?chunks n) (\<lambda>fs. Inr (concat fs))) (\<lambda>bytes. and_then ?frame (\<lambda>b. Inr (bytes @ b)))"
    by (simp add: ordered_chunks_def try_fold_append and_then_assoc del: upt_Suc add: upt_Suc_append)
  also have "\<dots> = and_then (try_map one (take (n * c) xs)) (\<lambda>us. and_then (try_map one (chunk_range c xs n))
      (\<lambda>vs. Inr (0x5b # json_join (us @ vs))))"
  proof -
    have "json_join us @ concat (map ((#) 0x2c) vs) = json_join (us @ vs)"
      if "try_map one (take (n * c) xs) = Inr us" and "0 < n" for us vs
    proof -
      have "length us = min (length xs) (n * c)"
        using that(1) by (auto simp: result_simps dest: list_all2_lengthD)
      moreover have "0 < min (length xs) (n * c)"
        using that(2) assms by simp
      ultimately have "us \<noteq> []"
        by (metis list.size(3) less_irrefl)
      then show ?thesis
        by (simp add: json_join_append)
    qed
    then show ?thesis
      unfolding Suc unfolding and_then_assoc chunk_frame_eq
      by (cases "try_map one (take (n * c) xs)"; cases "try_map one (chunk_range c xs n)"; cases "n = 0") auto
  qed
  also have "\<dots> = and_then (try_map one (take (Suc n * c) xs)) (\<lambda>bs. Inr (0x5b # json_join bs))"
    using take_add [of "n * c" c xs]
    by (simp add: chunk_range_def try_map_append and_then_assoc add.commute [of c])
  finally show ?case .
qed


lemma write_frames_joined:
  assumes "\<And>xs. whole xs = and_then (try_map one xs) (\<lambda>bs. Inr (0x5b # json_join bs @ [0x5d]))"
  shows "and_then (write_array_frames whole one p xs) (\<lambda>fs. Inr (concat fs)) = whole xs"
proof (cases "is_serial p \<or> length xs \<le> max (min (par_chunk_len p) (length xs)) 1")
  case True
  then show ?thesis
    by (cases "whole xs") (simp_all add: write_array_frames_def Let_def)
next
  case False
  let ?c = "max (min (par_chunk_len p) (length xs)) 1"
  let ?n = "div_ceil (length xs) ?c"
  let ?chunks = "ordered_chunks ?n (\<lambda>i. chunk_frame one i (chunk_range ?c xs i)) (\<lambda>fs b. Inr (fs @ [b])) [[0x5b]]"
  have "xs \<noteq> []" and "0 < ?c"
    using False by auto
  have "take (?n * ?c) xs = xs"
    using concat_chunks [OF \<open>0 < ?c\<close>, of xs] concat_chunks_take [of ?c xs ?n] by simp
  have "and_then (write_array_frames whole one p xs) (\<lambda>fs. Inr (concat fs)) =
      and_then (and_then ?chunks (\<lambda>fs. Inr (concat fs))) (\<lambda>bytes. Inr (bytes @ [0x5d]))"
    using False by (simp add: write_array_frames_def Let_def and_then_assoc)
  also have "\<dots> = whole xs"
    unfolding frames_joined [OF \<open>0 < ?c\<close> \<open>xs \<noteq> []\<close>] \<open>take (?n * ?c) xs = xs\<close> assms
    by (simp add: and_then_assoc)
  finally show ?thesis .
qed

lemma write_array_eq:
  assumes "\<And>xs. whole xs = and_then (try_map one xs) (\<lambda>bs. Inr (0x5b # json_join bs @ [0x5d]))"
  shows "write_array whole one p xs = whole xs"
  using write_frames_joined [OF assms] by (simp add: write_array_def)

lemma json_arrays:
  assumes "json_spec X"
  shows "write_array (json_accepted_shares X) (json_accepted_share X) p shares = json_accepted_shares X shares"
    and "and_then (write_array_frames (json_accepted_shares X) (json_accepted_share X) p shares)
      (\<lambda>fs. Inr (concat fs)) = json_accepted_shares X shares"
    and "write_array (json_counted_shares X) (json_counted_share X) p window = json_counted_shares X window"
proof -
  have "json_accepted_shares X = (\<lambda>xs. and_then (try_map (json_accepted_share X) xs) (\<lambda>bs. Inr (0x5b # json_join bs @ [0x5d])))"
    and "json_counted_shares X = (\<lambda>xs. and_then (try_map (json_counted_share X) xs) (\<lambda>bs. Inr (0x5b # json_join bs @ [0x5d])))"
    using assms by (auto simp: json_spec_def)
  then show "write_array (json_accepted_shares X) (json_accepted_share X) p shares = json_accepted_shares X shares"
    and "and_then (write_array_frames (json_accepted_shares X) (json_accepted_share X) p shares)
      (\<lambda>fs. Inr (concat fs)) = json_accepted_shares X shares"
    and "write_array (json_counted_shares X) (json_counted_share X) p window = json_counted_shares X window"
    by (auto intro!: write_array_eq write_frames_joined)
qed

lemma json_name: "json_spec X \<Longrightarrow> plain_name name \<Longrightarrow> json_str X name = Inr (as_bytes (quoted name))"
  by (simp add: json_spec_def)

lemma splice_fields_eq:
  assumes "json_spec X" and "list_all (plain_name \<circ> fst) fs" and "distinct (map fst fs)"
    and "spliced = None \<Longrightarrow> field \<notin> fst ` set fs"
    and "\<And>s v. spliced = Some s \<Longrightarrow> (field, v) \<in> set fs \<Longrightarrow> v = s"
  shows "splice_fields X field spliced first fs = and_then (write_fields fs) (\<lambda>kvs.
    Inr ((if first then json_join (map (json_member X) kvs) else concat (map ((#) 0x2c \<circ> json_member X) kvs)) @ [0x7d]))"
  using assms(2-5)
proof (induction fs arbitrary: spliced first)
  case Nil
  then show ?case by (simp add: write_fields_def)
next
  case (Cons f fs)
  obtain key v where f: "f = (key, v)" by (cases f)
  let ?rest = "if key = field then None else spliced"
  have value_of: "(if key = field then case spliced of None \<Rightarrow> Inl ''spliced field serialized twice'' | Some s \<Rightarrow> s else v) = v"
    using Cons.prems f by (auto split: option.split)
  have rest: "splice_fields X field ?rest False fs = and_then (write_fields fs) (\<lambda>kvs.
      Inr (concat (map ((#) 0x2c \<circ> json_member X) kvs) @ [0x7d]))"
  proof (subst Cons.IH)
    show "?rest = None \<Longrightarrow> field \<notin> fst ` set fs"
      using Cons.prems f by (auto split: if_splits)
    show "\<And>s v. ?rest = Some s \<Longrightarrow> (field, v) \<in> set fs \<Longrightarrow> v = s"
      using Cons.prems f by (auto split: if_splits)
  qed (use Cons.prems in \<open>auto simp: comp_def\<close>)
  have written: "write_fields (f # fs) = and_then v (\<lambda>b. and_then (write_fields fs) (\<lambda>kvs. Inr ((key, b) # kvs)))"
    by (simp add: write_fields_def f and_then_assoc)
  have key: "json_str X key = Inr (as_bytes (quoted key))"
    using json_name [OF assms(1)] Cons.prems(1) f by simp
  show ?case
    unfolding f splice_fields.simps value_of key and_then.simps rest written [unfolded f]
    by (cases v; cases "write_fields fs") (simp_all add: json_member_def key json_join_Cons comp_def)
qed

lemma splice_struct_eq:
  assumes "json_spec X" and "list_all (plain_name \<circ> fst) fs" and "distinct (map fst fs)" and "(field, v) \<in> set fs"
  shows "splice_struct X 0x7b field v fs = to_json_object X fs"
    and "splice_struct X 0x2c field v fs = and_then (to_json_object X fs) continue_object"
proof -
  have "splice_fields X field (Some v) True fs =
      and_then (write_fields fs) (\<lambda>kvs. Inr (json_join (map (json_member X) kvs) @ [0x7d]))"
    using splice_fields_eq [OF assms(1-3), of "Some v" field True] eq_key_imp_eq_value [OF assms(3,4)] by auto
  moreover have "json_object X kvs = 0x7b # json_join (map (json_member X) kvs) @ [0x7d]" if "write_fields fs = Inr kvs" for kvs
  proof -
    have "map fst kvs = map fst fs"
      using that unfolding write_fields_def try_map_Inr
      by (induction rule: list_all2_induct) (auto simp: result_simps)
    then have "list_all (plain_name \<circ> fst) kvs"
      using assms(2) by (metis list.pred_map)
    then show ?thesis
      using assms(1) by (simp add: json_spec_def)
  qed
  ultimately show "splice_struct X 0x7b field v fs = to_json_object X fs"
    and "splice_struct X 0x2c field v fs = and_then (to_json_object X fs) continue_object"
    by (cases "write_fields fs"; simp add: splice_struct_def to_json_object_def continue_object_def)+
qed


definition manifest_names :: "string list" where
  "manifest_names =
  [''schema'', ''block_height'', ''coinbase_value_sats'', ''network_difficulty'', ''window_multiplier'',
   ''requested_window_weight'', ''counted_window_weight'', ''anchor_job_issued_at_ms'', ''anchor_share_seq'',
   ''newest_share_seq'', ''oldest_share_seq'', ''cut'', ''included_share_count'', ''share_slice_digest_hex'',
   ''shares'', ''entitlements'']"

definition suffix_names :: "string list" where
  "suffix_names =
  [''found_block'', ''prior_balances'', ''payout_policy'', ''coinbase_script_sig_suffix_hex'',
   ''witness_merkle_leaves_hex'', ''audit_commitment_leaves_hex'', ''audit_commitment_root_hex'',
   ''ledger_window_attestation'', ''reward_manifest'', ''payout_policy_manifest'',
   ''settlement_mode_decision'', ''ctv_fanout_fee_policy'', ''ctv_fanout_manifest_set'', ''signed_coinbase_manifest'']"

lemma names_plain: "list_all plain_name manifest_names" "list_all plain_name suffix_names"
  "plain_name ''schema''" "plain_name ''shares''"
  by code_simp+

lemma names_distinct: "distinct manifest_names" "distinct suffix_names"
  by code_simp+

lemma optional_names: "subseq (map fst (optional_field name f v)) [name]"
  by (simp add: optional_field_def split: option.split)

lemma strings_names: "subseq (map fst (strings_field X name v)) [name]"
  by (simp add: strings_field_def)

lemma field_names:
  "subseq (map fst (reward_manifest_fields X m)) manifest_names"
  "subseq (map fst (bundle_suffix_fields X b)) suffix_names"
proof -
  have "manifest_names = take 11 manifest_names @ [''cut''] @ drop 12 manifest_names"
    by (simp add: manifest_names_def)
  moreover have "map fst (reward_manifest_fields X m) =
      take 11 manifest_names @ map fst (optional_field ''cut'' (json_window_cut X) (rm_cut m)) @ drop 12 manifest_names"
    by (simp add: reward_manifest_fields_def manifest_names_def)
  ultimately show "subseq (map fst (reward_manifest_fields X m)) manifest_names"
    by (metis list_emb_append_mono optional_names subseq_order.order_refl)
  have "suffix_names = take 3 suffix_names @ [''coinbase_script_sig_suffix_hex''] @ [''witness_merkle_leaves_hex''] @
      [''audit_commitment_leaves_hex''] @ [''audit_commitment_root_hex''] @ take 3 (drop 7 suffix_names) @
      [''settlement_mode_decision''] @ [''ctv_fanout_fee_policy''] @ [''ctv_fanout_manifest_set''] @ drop 13 suffix_names"
    by (simp add: suffix_names_def)
  also have "subseq (map fst (bundle_suffix_fields X b)) \<dots>"
    unfolding bundle_suffix_fields_def map_append
    by (intro list_emb_append_mono optional_names strings_names) (simp_all add: suffix_names_def)
  finally show "subseq (map fst (bundle_suffix_fields X b)) suffix_names" .
qed

lemma list_all_subseq: "subseq xs ys \<Longrightarrow> list_all P ys \<Longrightarrow> list_all P xs"
  by (auto simp: list_all_iff elim: list_emb_set)

lemma field_names_plain:
  "list_all (plain_name \<circ> fst) (reward_manifest_fields X m)" "list_all (plain_name \<circ> fst) (bundle_suffix_fields X b)"
  "list_all (plain_name \<circ> fst) (bundle_fields X b)"
  using list_all_subseq [OF field_names(1) names_plain(1), of X m] list_all_subseq [OF field_names(2) names_plain(2), of X b]
  by (simp_all add: list.pred_map bundle_fields_def names_plain)

lemma field_names_distinct:
  "distinct (map fst (reward_manifest_fields X m))" "distinct (map fst (bundle_suffix_fields X b))"
  by (metis field_names names_distinct subseq_conv_nths distinct_nthsI)+

text \<open>The reward manifest is written, and hashed, to the same bytes by any number of workers.\<close>

lemma write_reward_manifest_eq:
  assumes "json_spec X"
  shows "write_reward_manifest X p m = canonical_reward_manifest_bytes X m"
proof -
  have "(''shares'', json_counted_shares X (rm_shares m)) \<in> set (reward_manifest_fields X m)"
    by (simp add: reward_manifest_fields_def)
  from splice_struct_eq(1) [OF assms field_names_plain(1) field_names_distinct(1) this] show ?thesis
    by (simp add: write_reward_manifest_def json_arrays [OF assms] canonical_reward_manifest_bytes_def)
qed

lemma reward_manifest_sha256_eq:
  "json_spec X \<Longrightarrow> reward_manifest_sha256 X m p =
     and_then (canonical_reward_manifest_bytes X m) (\<lambda>bytes. Inr (sha256_digest X bytes))"
  by (simp add: reward_manifest_sha256_def write_reward_manifest_eq)

lemma write_suffix_with_eq:
  assumes "json_spec X"
  shows "write_suffix_with X body p = write_suffix X body"
proof -
  let ?b = "view_from_parts body []"
  have "ab_reward_manifest ?b = ab_reward_manifest body"
    by (simp add: view_from_parts_def audit_bundle_body.defs audit_bundle.defs)
  then have "(''reward_manifest'', canonical_reward_manifest_bytes X (ab_reward_manifest body)) \<in>
      set (bundle_suffix_fields X ?b)"
    by (simp add: bundle_suffix_fields_def)
  from splice_struct_eq(2) [OF assms field_names_plain(2) field_names_distinct(2) this] show ?thesis
    by (simp add: write_suffix_with_def write_reward_manifest_eq [OF assms] write_suffix_def)
qed

lemma fold_tee: "fold (\<lambda>frame (pre, array). (pre @ frame, array @ frame)) frames (a, b) =
    (a @ concat frames, b @ concat frames)"
  by (induction frames arbitrary: a b) simp_all

lemma prefix_constructors:
  assumes "json_spec X"
  shows "hash_prefix_new_with X shares p = hash_prefix_new X shares"
    and "hash_prefix_new_with_share_digest X shares p = and_then (hash_prefix_new X shares) (\<lambda>pre.
      and_then (json_accepted_shares X shares) (\<lambda>bytes. Inr (pre, sha256_digest X bytes)))"
proof -
  show "hash_prefix_new_with X shares p = hash_prefix_new X shares"
    by (simp add: hash_prefix_new_with_def hash_prefix_new_def write_prefix_def json_arrays [OF assms] Let_def and_then_assoc)
  have "and_then (write_array_frames (json_accepted_shares X) (json_accepted_share X) p shares) (\<lambda>fs. Inr (g (concat fs))) =
      and_then (json_accepted_shares X shares) (\<lambda>bytes. Inr (g bytes))" for g :: "u8 list \<Rightarrow> u8 list \<times> u8 list"
    unfolding json_arrays(2) [OF assms, of p shares, symmetric] by (simp add: and_then_assoc)
  from this [of "\<lambda>bytes. (header @ bytes, bytes)" for header]
  have tee: "and_then (write_array_frames (json_accepted_shares X) (json_accepted_share X) p shares)
        (\<lambda>fs. Inr (fold (\<lambda>frame (pre, array). (pre @ frame, array @ frame)) fs (header, []))) =
      and_then (json_accepted_shares X shares) (\<lambda>bytes. Inr (header @ bytes, bytes))" for header
    by (simp add: fold_tee)
  show "hash_prefix_new_with_share_digest X shares p = and_then (hash_prefix_new X shares) (\<lambda>pre.
      and_then (json_accepted_shares X shares) (\<lambda>bytes. Inr (pre, sha256_digest X bytes)))"
    unfolding hash_prefix_new_with_share_digest_def hash_prefix_new_def write_prefix_def Let_def tee json_arrays [OF assms]
    by (cases "write_prefix_header X (audit_bundle_schema_for_shares shares)"; cases "json_accepted_shares X shares")
      (simp_all add: and_then_assoc)
qed

text \<open>The prefix and the suffix are the bytes of the whole bundle, cut after the payout window.\<close>

lemma split_bytes:
  assumes X: "json_spec X" and schema: "ab_schema body = audit_bundle_schema_for_shares shares"
  shows "and_then (write_prefix X (ab_schema body) shares) (\<lambda>pre. and_then (write_suffix X body) (\<lambda>suffix.
      Inr (pre @ suffix))) = canonical_audit_bundle_bytes_from_parts X body shares"
proof -
  let ?b = "view_from_parts body shares" and ?e = "view_from_parts body []"
  let ?s = "json_str X (ab_schema body)" and ?a = "json_accepted_shares X shares"
  let ?fs = "bundle_suffix_fields X ?e"
  have same: "bundle_suffix_fields X ?b = ?fs" and b: "ab_schema ?b = ab_schema body" "ab_shares ?b = shares"
    by (simp_all add: bundle_suffix_fields_def view_from_parts_def audit_bundle_body.defs audit_bundle.defs)
  have "json_object X kvs = 0x7b # json_join (map (json_member X) kvs) @ [0x7d]"
    if "write_fields fs = Inr kvs" and "list_all (plain_name \<circ> fst) fs" for fs kvs
  proof -
    have "map fst kvs = map fst fs"
      using that(1) unfolding write_fields_def try_map_Inr
      by (induction rule: list_all2_induct) (auto simp: result_simps)
    then have "list_all (plain_name \<circ> fst) kvs"
      using that(2) by (metis list.pred_map)
    then show ?thesis
      using X by (simp add: json_spec_def)
  qed
  then have object: "to_json_object X fs = and_then (write_fields fs)
      (\<lambda>kvs. Inr (0x7b # json_join (map (json_member X) kvs) @ [0x7d]))" if "list_all (plain_name \<circ> fst) fs" for fs
    using that by (cases "write_fields fs") (simp_all add: to_json_object_def)
  have names: "json_str X ''schema'' = Inr (as_bytes (quoted ''schema''))" "json_str X ''shares'' = Inr (as_bytes (quoted ''shares''))"
    by (simp_all add: json_name [OF X] names_plain)
  have suffix: "write_suffix X body = and_then (write_fields ?fs) (\<lambda>kvs. Inr (0x2c # json_join (map (json_member X) kvs) @ [0x7d]))"
    by (cases "write_fields ?fs") (simp_all add: write_suffix_def object field_names_plain continue_object_def)
  have whole: "canonical_audit_bundle_bytes_from_parts X body shares =
      and_then ?s (\<lambda>s. and_then ?a (\<lambda>a. and_then (write_fields ?fs) (\<lambda>kvs.
        Inr (0x7b # json_join (map (json_member X) ((''schema'', s) # (''shares'', a) # kvs)) @ [0x7d]))))"
    unfolding canonical_audit_bundle_bytes_from_parts_def write_canonical_def object [OF field_names_plain(3)]
    by (simp add: bundle_fields_def b same write_fields_def and_then_assoc)
  have nonempty: "kvs \<noteq> []" if "write_fields ?fs = Inr kvs" for kvs
    using that unfolding write_fields_def try_map_Inr bundle_suffix_fields_def by (auto dest: list_all2_lengthD)
  have joined: "as_bytes (''{'' @ quoted ''schema'' @ '':'') @ s @ as_bytes ('','' @ quoted ''shares'' @ '':'') @ a @
      0x2c # json_join (map (json_member X) kvs) @ [0x7d] =
    0x7b # json_join (map (json_member X) ((''schema'', s) # (''shares'', a) # kvs)) @ [0x7d]" if "kvs \<noteq> []" for s a kvs
    using that by (cases kvs) (simp_all add: json_join_Cons json_member_def names as_bytes_def)
  show ?thesis
    unfolding whole suffix write_prefix_def write_prefix_header_def
    by (cases ?s; cases ?a; cases "write_fields ?fs") (simp_all only: and_then.simps append_assoc joined [OF nonempty, unfolded append_assoc])
qed

text \<open>
  The split hash is the hash of the canonical bytes, whatever number of workers wrote the
  prefix and the suffix, and it fails with the same error.
\<close>

lemma split_hash:
  assumes "json_spec X" and "ab_schema body = audit_bundle_schema_for_shares shares"
  shows "and_then (map_err PrismJson (hash_prefix_new_with X shares p)) (\<lambda>pre. hash_finish_with X pre body q) =
    map_err PrismJson (and_then (canonical_audit_bundle_bytes_from_parts X body shares) (\<lambda>bytes.
      Inr (hex_encode X (sha256_digest X bytes))))"
proof -
  let ?p = "write_prefix X (ab_schema body) shares" and ?s = "write_suffix X body"
  show ?thesis
    unfolding prefix_constructors(1) [OF assms(1)] hash_finish_with_def write_suffix_with_eq [OF assms(1)]
      split_bytes [OF assms, symmetric] hash_prefix_new_def Let_def assms(2) [symmetric]
    by (cases ?p; cases ?s) simp_all
qed

end
