(* ===== verification/Audit_Bundle.thy ===== *)
theory Audit_Bundle
  imports Canonical_Writer Settlement Ctv
begin

text \<open>
  Building and verifying the audit bundle (\<open>qbit-prism/src/lib.rs\<close>). The builder runs the whole
  pipeline on a share log and signs the result; the verifier runs it again on what the bundle
  states and compares. \<open>profile_audit_build_phase\<close> only measures time. A \<open>BTreeMap\<close> that is
  inserted into and looked up is a map.
\<close>

section \<open>Settlement accounting\<close>

definition pinned_settlement_recipient_for_policy :: "payout_policy_manifest \<Rightarrow> settlement_recipient option" where
  "pinned_settlement_recipient_for_policy manifest =
     map_option (\<lambda>fee. \<lparr>sr_recipient_id = pfm_recipient_id fee, sr_order_key = pfm_order_key fee,
       sr_p2mr_program_hex = pfm_p2mr_program_hex fee, sr_amount_sats = pfm_amount_sats fee\<rparr>)
     (pool_fee_first_output manifest)"

definition settlement_recipients_from_entitlements ::
    "weighted_entitlement list \<Rightarrow> prism_error + settlement_recipient list" where
  "settlement_recipients_from_entitlements =
     try_map (\<lambda>e. and_then (ok_or PayoutPolicyOverflow (u64_try_from_u128 (ent_weight e))) (\<lambda>amount_sats.
       Inr \<lparr>sr_recipient_id = ent_recipient_id e, sr_order_key = ent_order_key e,
            sr_p2mr_program_hex = ent_p2mr_program_hex e, sr_amount_sats = amount_sats\<rparr>))"

definition insert_fee_recipient ::
    "(string \<rightharpoonup> fanout_fee_recipient) \<Rightarrow> fanout_fee_recipient \<Rightarrow> prism_error + (string \<rightharpoonup> fanout_fee_recipient)" where
  "insert_fee_recipient recipients_by_key recipient =
     (let key = account_key (ff_recipient_id recipient) (ff_order_key recipient) (ff_p2mr_program_hex recipient) in
      if recipients_by_key key \<noteq> None then Inl (SettlementModeSelection ''duplicate fanout fee recipient'')
      else Inr (recipients_by_key(key \<mapsto> recipient)))"

definition charge_chunk ::
    "'x crates_scheme \<Rightarrow> fanout_fee_rate_policy \<Rightarrow> u64 \<Rightarrow> (string \<rightharpoonup> fanout_fee_recipient) \<Rightarrow>
     settlement_fanout_chunk \<Rightarrow> prism_error + (string \<rightharpoonup> fanout_fee_recipient)" where
  "charge_chunk X fee_policy min_output_sats recipients_by_key chunk =
     and_then (estimate_ctv_fanout_fee_sats (length (fc_recipients chunk)) fee_policy) (\<lambda>fanout_fee_sats.
     and_then (apply_proportional_fanout_fee X (fc_recipients chunk) fanout_fee_sats min_output_sats) (\<lambda>fee_decision.
     if fd_carry_forward_recipients fee_decision \<noteq> []
     then Inl (SettlementModeSelection ''fanout fee would push a recipient below the payout floor'')
     else try_fold insert_fee_recipient recipients_by_key (fd_payable_recipients fee_decision)))"

definition charge_account ::
    "(string \<rightharpoonup> fanout_fee_recipient) \<Rightarrow> payout_policy_account \<Rightarrow> prism_error + payout_policy_account" where
  "charge_account recipients_by_key account =
     (case recipients_by_key (account_key (acc_recipient_id account) (acc_order_key account) (acc_p2mr_program_hex account)) of
        None \<Rightarrow> Inr account
      | Some recipient \<Rightarrow>
          if acc_onchain_amount_sats account \<noteq> ff_gross_amount_sats recipient
          then Inl (AuditMismatch ''ctv_fanout_fee_accounting'')
          else Inr (account\<lparr>acc_settlement_fee_sats := ff_fee_sats recipient\<rparr>))"

text \<open>The manifest is updated in place; it is returned beside the map.\<close>

definition apply_ctv_fanout_fee_accounting ::
    "'x crates_scheme \<Rightarrow> payout_policy_manifest \<Rightarrow> settlement_mode_decision \<Rightarrow> fanout_fee_rate_policy \<Rightarrow>
     prism_error + (payout_policy_manifest \<times> (string \<rightharpoonup> fanout_fee_recipient))" where
  "apply_ctv_fanout_fee_accounting X policy_manifest decision fee_policy =
     and_then (try_fold (charge_chunk X fee_policy (ppm_min_output_sats policy_manifest)) Map.empty
         (sd_fanout_chunks decision)) (\<lambda>recipients_by_key.
     and_then (try_map (charge_account recipients_by_key) (ppm_accounts policy_manifest)) (\<lambda>accounts.
     Inr (policy_manifest\<lparr>ppm_accounts := accounts\<rparr>, recipients_by_key)))"

definition direct_entitlement :: "settlement_recipient \<Rightarrow> weighted_entitlement" where
  "direct_entitlement recipient =
     \<lparr>ent_recipient_id = sr_recipient_id recipient, ent_order_key = sr_order_key recipient,
      ent_p2mr_program_hex = sr_p2mr_program_hex recipient, ent_weight = u128_from_u64 (sr_amount_sats recipient)\<rparr>"

definition ctv_settlement_coinbase_entitlements ::
    "settlement_mode_decision \<Rightarrow> prepared_ctv_fanout list \<Rightarrow> prism_error + weighted_entitlement list" where
  "ctv_settlement_coinbase_entitlements decision prepared_fanouts =
     (if length prepared_fanouts \<noteq> length (sd_fanout_chunks decision)
      then Inl (AuditMismatch ''ctv_fanout_chunk_count'')
      else Inr (map direct_entitlement (sd_direct_recipients decision) @
        map (\<lambda>fanout. \<lparr>ent_recipient_id = pf_covenant_recipient_id fanout, ent_order_key = pf_covenant_order_key fanout,
          ent_p2mr_program_hex = pf_covenant_p2mr_program_hex fanout,
          ent_weight = u128_from_u64 (pf_covenant_output_value_sats fanout)\<rparr>) prepared_fanouts))"

definition find_coinbase_output_vout ::
    "payout_manifest \<Rightarrow> string \<Rightarrow> string \<Rightarrow> string \<Rightarrow> u64 \<Rightarrow> prism_error + u32" where
  "find_coinbase_output_vout manifest recipient_id order_key p2mr_program_hex amount_sats =
     and_then (ok_or (AuditMismatch ''ctv_coinbase_output'')
       (find (\<lambda>output. po_recipient_id output = recipient_id \<and> po_order_key output = order_key \<and>
          po_p2mr_program_hex output = p2mr_program_hex \<and> po_amount_sats output = amount_sats) (pm_outputs manifest)))
     (\<lambda>output. ok_or (AuditMismatch ''ctv_coinbase_output_vout'') (u32_try_from_usize (po_vout output)))"

section \<open>Building\<close>

definition build_profiled_signed_manifest ::
    "'x json_crates_scheme \<Rightarrow> coinbase_build_request \<Rightarrow> u8 list \<Rightarrow> prism_error + signed_payout_manifest" where
  "build_profiled_signed_manifest X request signing_key =
     and_then (map_err Builder (build_manifest X request)) (\<lambda>manifest.
     map_err Builder (and_then (canonical_manifest_bytes X manifest) (\<lambda>canonical_manifest.
       Inr \<lparr>spm_manifest = manifest, spm_signature = \<lparr>sig_algorithm = ''ed25519'',
         sig_public_key_hex = public_key_hex X signing_key,
         sig_signature_hex = sign_message_hex X signing_key canonical_manifest\<rparr>\<rparr>)))"

definition policy_manifest_sha256 :: "'x json_crates_scheme \<Rightarrow> payout_policy_manifest \<Rightarrow> string + u8 list" where
  "policy_manifest_sha256 X m =
     and_then (canonical_payout_policy_manifest_bytes X m) (\<lambda>bytes. Inr (sha256_digest X bytes))"

definition coinbase_request_of ::
    "prism_reward_manifest \<Rightarrow> weighted_entitlement list \<Rightarrow> string \<Rightarrow> string list \<Rightarrow> string option \<Rightarrow>
     payout_policy_manifest \<Rightarrow> coinbase_build_request" where
  "coinbase_request_of reward_manifest entitlements root_hex witness_leaves_hex suffix_hex policy_manifest =
     \<lparr>req_block_height = rm_block_height reward_manifest,
      req_coinbase_value_sats = rm_coinbase_value_sats reward_manifest,
      req_entitlements = entitlements,
      req_witness_nonce_hex = Some root_hex,
      req_witness_merkle_leaves_hex = witness_leaves_hex,
      req_coinbase_script_sig_suffix_hex = suffix_hex,
      req_pinned_first_output = pinned_first_output_for_policy policy_manifest\<rparr>"

definition build_audit_bundle_body_with_coinbase_options_parallel ::
    "'x json_crates_scheme \<Rightarrow> accepted_share list \<Rightarrow> found_block \<Rightarrow> window_cut option \<Rightarrow> carry_forward_balance list \<Rightarrow>
     payout_policy \<Rightarrow> string option \<Rightarrow> string list \<Rightarrow> u8 list \<Rightarrow> u8 list \<Rightarrow> parallelism \<Rightarrow> prism_error + audit_bundle_body" where
  "build_audit_bundle_body_with_coinbase_options_parallel X shares found_block wcut prior_balances policy
       suffix_hex witness_leaves_hex coinbase_key ledger_key p =
     (if eq_ignore_ascii_case (public_key_hex X coinbase_key) (public_key_hex X ledger_key)
      then Inl LedgerAttestationKeyReuse
      else
        and_then (build_prism_reward_manifest_parallel X p shares found_block wcut) (\<lambda>reward_manifest.
        and_then (build_ledger_window_attestation X reward_manifest prior_balances ledger_key) (\<lambda>attestation.
        and_then (apply_payout_policy reward_manifest prior_balances policy) (\<lambda>policy_manifest.
        and_then (map_err PrismJson (reward_manifest_sha256 X reward_manifest p)) (\<lambda>reward_hash.
        and_then (map_err PrismJson (policy_manifest_sha256 X policy_manifest)) (\<lambda>policy_hash.
        let leaves = [commitment_leaf_hex X reward_hash policy_hash] in
        and_then (audit_commitment_root_hex X leaves) (\<lambda>root.
        and_then (build_profiled_signed_manifest X
            (coinbase_request_of reward_manifest (ppm_onchain_entitlements policy_manifest) root witness_leaves_hex
              suffix_hex policy_manifest) coinbase_key) (\<lambda>signed_manifest.
        Inr \<lparr>ab_schema = audit_bundle_schema_for_shares shares, ab_found_block = found_block,
             ab_prior_balances = prior_balances, ab_payout_policy = policy,
             ab_coinbase_script_sig_suffix_hex = suffix_hex, ab_witness_merkle_leaves_hex = witness_leaves_hex,
             ab_audit_commitment_leaves_hex = leaves, ab_audit_commitment_root_hex = Some root,
             ab_ledger_window_attestation = attestation, ab_reward_manifest = reward_manifest,
             ab_payout_policy_manifest = policy_manifest, ab_settlement_mode_decision = None,
             ab_ctv_fanout_fee_policy = None, ab_ctv_fanout_manifest_set = None,
             ab_signed_coinbase_manifest = signed_manifest\<rparr>))))))))"

definition build_audit_bundle_body_with_coinbase_options where
  "build_audit_bundle_body_with_coinbase_options X shares found_block prior_balances policy suffix_hex
       witness_leaves_hex coinbase_key ledger_key =
     build_audit_bundle_body_with_coinbase_options_parallel X shares found_block None prior_balances policy suffix_hex
       witness_leaves_hex coinbase_key ledger_key parallelism_serial"

definition build_audit_bundle_body_with_coinbase_script_sig_suffix where
  "build_audit_bundle_body_with_coinbase_script_sig_suffix X shares found_block prior_balances policy suffix_hex
       coinbase_key ledger_key =
     build_audit_bundle_body_with_coinbase_options X shares found_block prior_balances policy suffix_hex []
       coinbase_key ledger_key"

definition build_audit_bundle_body where
  "build_audit_bundle_body X shares found_block prior_balances policy coinbase_key ledger_key =
     build_audit_bundle_body_with_coinbase_script_sig_suffix X shares found_block prior_balances policy None
       coinbase_key ledger_key"

definition build_audit_bundle_with_coinbase_options where
  "build_audit_bundle_with_coinbase_options X shares found_block prior_balances policy suffix_hex
       witness_leaves_hex coinbase_key ledger_key =
     and_then (build_audit_bundle_body_with_coinbase_options X shares found_block prior_balances policy suffix_hex
       witness_leaves_hex coinbase_key ledger_key) (\<lambda>body. Inr (into_bundle body shares))"

definition build_audit_bundle_with_coinbase_script_sig_suffix where
  "build_audit_bundle_with_coinbase_script_sig_suffix X shares found_block prior_balances policy suffix_hex
       coinbase_key ledger_key =
     and_then (build_audit_bundle_body_with_coinbase_script_sig_suffix X shares found_block prior_balances policy
       suffix_hex coinbase_key ledger_key) (\<lambda>body. Inr (into_bundle body shares))"

definition build_audit_bundle where
  "build_audit_bundle X shares found_block prior_balances policy coinbase_key ledger_key =
     and_then (build_audit_bundle_body X shares found_block prior_balances policy coinbase_key ledger_key)
       (\<lambda>body. Inr (into_bundle body shares))"


text \<open>
  The settlement path: direct recipients in the coinbase, the rest in prepared fanouts whose
  covenants are coinbase outputs; the fanouts are finalized against the built coinbase.
\<close>

definition payout_of_recipient :: "(string \<rightharpoonup> fanout_fee_recipient) \<Rightarrow> settlement_recipient \<Rightarrow> ctv_fanout_payout" where
  "payout_of_recipient fanout_fee_recipients recipient =
     (let fee_recipient = fanout_fee_recipients
        (account_key (sr_recipient_id recipient) (sr_order_key recipient) (sr_p2mr_program_hex recipient)) in
      \<lparr>cp_recipient_id = sr_recipient_id recipient, cp_order_key = sr_order_key recipient,
       cp_p2mr_program_hex = sr_p2mr_program_hex recipient,
       cp_gross_amount_sats = (case fee_recipient of None \<Rightarrow> 0 | Some r \<Rightarrow> ff_gross_amount_sats r),
       cp_fee_sats = (case fee_recipient of None \<Rightarrow> 0 | Some r \<Rightarrow> ff_fee_sats r),
       cp_amount_sats = (case fee_recipient of None \<Rightarrow> sr_amount_sats recipient | Some r \<Rightarrow> ff_net_amount_sats r)\<rparr>)"

definition prepare_chunk ::
    "'x ctv_crates_scheme \<Rightarrow> prism_reward_manifest \<Rightarrow> settlement_mode_decision \<Rightarrow> (string \<rightharpoonup> fanout_fee_recipient) \<Rightarrow>
     string \<Rightarrow> string \<Rightarrow> settlement_fanout_chunk \<Rightarrow> prism_error + prepared_ctv_fanout" where
  "prepare_chunk X reward_manifest decision fanout_fee_recipients reward_hex policy_hex chunk =
     and_then (ok_or PayoutPolicyOverflow (u32_try_from_usize (fc_chunk_index chunk))) (\<lambda>chunk_index.
     and_then (ok_or PayoutPolicyOverflow (u32_try_from_usize (sd_fanout_chunk_count decision))) (\<lambda>chunk_count.
     prepare_ctv_fanout_precommitment X
       \<lparr>pci_block_height = rm_block_height reward_manifest, pci_chunk_index = chunk_index,
        pci_chunk_count = chunk_count, pci_coinbase_value_sats = rm_coinbase_value_sats reward_manifest,
        pci_settlement_mode = sd_mode decision, pci_reward_manifest_sha256_hex = reward_hex,
        pci_payout_policy_manifest_sha256_hex = policy_hex,
        pci_payouts = map (payout_of_recipient fanout_fee_recipients) (fc_recipients chunk)\<rparr>))"

definition finalize_fanout ::
    "'x ctv_crates_scheme \<Rightarrow> payout_manifest \<Rightarrow> prepared_ctv_fanout \<Rightarrow> prism_error + ctv_fanout_manifest" where
  "finalize_fanout X manifest prepared =
     and_then (find_coinbase_output_vout manifest (pf_covenant_recipient_id prepared) (pf_covenant_order_key prepared)
       (pf_covenant_p2mr_program_hex prepared) (pf_covenant_output_value_sats prepared)) (\<lambda>parent_vout.
     build_ctv_fanout_manifest_from_precommitment X (pf_precommitment prepared) (pm_coinbase_tx_hex manifest) parent_vout)"

definition derive_settlement ::
    "'x crates_scheme \<Rightarrow> prism_reward_manifest \<Rightarrow> carry_forward_balance list \<Rightarrow> payout_policy \<Rightarrow> u64 \<Rightarrow>
     settlement_mode_config \<Rightarrow> fanout_fee_rate_policy option \<Rightarrow>
     prism_error + (payout_policy_manifest \<times> settlement_mode_decision \<times> (string \<rightharpoonup> fanout_fee_recipient))" where
  "derive_settlement X reward_manifest prior_balances policy direct_floor_sats config fee_policy =
     and_then (apply_payout_policy reward_manifest prior_balances policy) (\<lambda>payout_manifest.
     and_then (settlement_recipients_from_entitlements (ppm_onchain_entitlements payout_manifest)) (\<lambda>recipients.
     and_then (select_settlement_mode_with_pinned_direct X recipients direct_floor_sats config
         (pinned_settlement_recipient_for_policy payout_manifest)) (\<lambda>decision.
     case fee_policy of
       None \<Rightarrow> Inr (payout_manifest, decision, Map.empty)
     | Some fee_policy \<Rightarrow> and_then (apply_ctv_fanout_fee_accounting X payout_manifest decision fee_policy)
         (\<lambda>(payout_manifest, fee_recipients). Inr (payout_manifest, decision, fee_recipients)))))"

definition finalize_fanouts ::
    "'x ctv_crates_scheme \<Rightarrow> payout_manifest \<Rightarrow> prepared_ctv_fanout list \<Rightarrow> prism_error + ctv_fanout_manifest_set option" where
  "finalize_fanouts X manifest prepared_fanouts =
     (if prepared_fanouts = [] then Inr None
      else and_then (try_map (finalize_fanout X manifest) prepared_fanouts) (\<lambda>manifests.
        and_then (build_ctv_fanout_manifest_set X manifests) (\<lambda>manifest_set. Inr (Some manifest_set))))"

definition build_audit_bundle_body_with_ctv_settlement_options_parallel ::
    "'x json_crates_scheme \<Rightarrow> accepted_share list \<Rightarrow> found_block \<Rightarrow> window_cut option \<Rightarrow> carry_forward_balance list \<Rightarrow>
     payout_policy \<Rightarrow> u64 \<Rightarrow> settlement_mode_config \<Rightarrow> fanout_fee_rate_policy option \<Rightarrow> string option \<Rightarrow> string list \<Rightarrow>
     u8 list \<Rightarrow> u8 list \<Rightarrow> parallelism \<Rightarrow> prism_error + audit_bundle_body" where
  "build_audit_bundle_body_with_ctv_settlement_options_parallel X shares found_block wcut prior_balances policy
       direct_floor_sats config fee_policy suffix_hex witness_leaves_hex coinbase_key ledger_key p =
     (if eq_ignore_ascii_case (public_key_hex X coinbase_key) (public_key_hex X ledger_key)
      then Inl LedgerAttestationKeyReuse
      else
        and_then (build_prism_reward_manifest_parallel X p shares found_block wcut) (\<lambda>reward_manifest.
        and_then (build_ledger_window_attestation X reward_manifest prior_balances ledger_key) (\<lambda>attestation.
        and_then (derive_settlement X reward_manifest prior_balances policy direct_floor_sats config fee_policy)
          (\<lambda>(policy_manifest, decision, fanout_fee_recipients).
        and_then (map_err PrismJson (reward_manifest_sha256 X reward_manifest p)) (\<lambda>reward_hash.
        and_then (map_err PrismJson (policy_manifest_sha256 X policy_manifest)) (\<lambda>policy_hash.
        and_then (try_map (prepare_chunk X reward_manifest decision fanout_fee_recipients (hex_encode X reward_hash)
            (hex_encode X policy_hash)) (sd_fanout_chunks decision)) (\<lambda>prepared_fanouts.
        let leaves = commitment_leaf_hex X reward_hash policy_hash # map pf_commitment_witness_leaf_hex prepared_fanouts in
        and_then (audit_commitment_root_hex X leaves) (\<lambda>root.
        and_then (ctv_settlement_coinbase_entitlements decision prepared_fanouts) (\<lambda>entitlements.
        and_then (build_profiled_signed_manifest X
            (coinbase_request_of reward_manifest entitlements root witness_leaves_hex suffix_hex policy_manifest)
            coinbase_key) (\<lambda>signed_manifest.
        and_then (finalize_fanouts X (spm_manifest signed_manifest) prepared_fanouts) (\<lambda>manifest_set.
        Inr \<lparr>ab_schema = audit_bundle_schema_for_shares shares, ab_found_block = found_block,
             ab_prior_balances = prior_balances, ab_payout_policy = policy,
             ab_coinbase_script_sig_suffix_hex = suffix_hex, ab_witness_merkle_leaves_hex = witness_leaves_hex,
             ab_audit_commitment_leaves_hex = leaves, ab_audit_commitment_root_hex = Some root,
             ab_ledger_window_attestation = attestation, ab_reward_manifest = reward_manifest,
             ab_payout_policy_manifest = policy_manifest, ab_settlement_mode_decision = Some decision,
             ab_ctv_fanout_fee_policy = fee_policy, ab_ctv_fanout_manifest_set = manifest_set,
             ab_signed_coinbase_manifest = signed_manifest\<rparr>)))))))))))"

definition build_audit_bundle_body_with_ctv_settlement_options where
  "build_audit_bundle_body_with_ctv_settlement_options X shares found_block prior_balances policy
       direct_floor_sats config fee_policy suffix_hex witness_leaves_hex coinbase_key ledger_key =
     build_audit_bundle_body_with_ctv_settlement_options_parallel X shares found_block None prior_balances policy
       direct_floor_sats config fee_policy suffix_hex witness_leaves_hex coinbase_key ledger_key parallelism_serial"

definition build_audit_bundle_with_ctv_settlement_options where
  "build_audit_bundle_with_ctv_settlement_options X shares found_block prior_balances policy
       direct_floor_sats config fee_policy suffix_hex witness_leaves_hex coinbase_key ledger_key =
     and_then (build_audit_bundle_body_with_ctv_settlement_options X shares found_block prior_balances policy
       direct_floor_sats config fee_policy suffix_hex witness_leaves_hex coinbase_key ledger_key)
       (\<lambda>body. Inr (into_bundle body shares))"

section \<open>Verifying\<close>

definition settlement_recipient_cmp :: "settlement_recipient \<Rightarrow> settlement_recipient \<Rightarrow> ordering" where
  "settlement_recipient_cmp left right =
     then_with (then_with (then_with (cmp (sr_order_key left) (sr_order_key right))
       (cmp (sr_recipient_id left) (sr_recipient_id right)))
       (cmp (sr_p2mr_program_hex left) (sr_p2mr_program_hex right)))
       (cmp (sr_amount_sats left) (sr_amount_sats right))"

definition covenant_entitlement :: "ctv_fanout_manifest \<Rightarrow> weighted_entitlement" where
  "covenant_entitlement manifest =
     (let chunk_index = unat (pc_chunk_index (cm_precommitment manifest)) in
      \<lparr>ent_recipient_id = ''ctv-fanout-'' @ show_nat chunk_index, ent_order_key = ''ctv-fanout-'' @ show_08 chunk_index,
       ent_p2mr_program_hex = pc_p2mr_program_hex (cm_precommitment manifest),
       ent_weight = u128_from_u64 (cm_covenant_output_value_sats manifest)\<rparr>)"

definition covered_recipient :: "ctv_fanout_output \<Rightarrow> settlement_recipient" where
  "covered_recipient output =
     \<lparr>sr_recipient_id = co_recipient_id output, sr_order_key = co_order_key output,
      sr_p2mr_program_hex = co_p2mr_program_hex output,
      sr_amount_sats = (if co_gross_amount_sats output = 0 then co_amount_sats output else co_gross_amount_sats output)\<rparr>"

definition verify_set_manifest ::
    "'x ctv_crates_scheme \<Rightarrow> payout_manifest \<Rightarrow> string list \<Rightarrow> ctv_fanout_manifest \<Rightarrow>
     prism_error + (weighted_entitlement \<times> settlement_recipient list)" where
  "verify_set_manifest X coinbase_manifest leaves_hex manifest =
     (if cm_parent_coinbase_tx_hex manifest \<noteq> pm_coinbase_tx_hex coinbase_manifest
      then Inl (AuditMismatch ''ctv_fanout_parent_coinbase_tx'')
      else and_then (verify_ctv_fanout_manifest_commitment_leaf X manifest leaves_hex) (\<lambda>_.
        Inr (covenant_entitlement manifest, map covered_recipient (pc_outputs (cm_precommitment manifest)))))"

definition verify_fanout_set ::
    "'x ctv_crates_scheme \<Rightarrow> settlement_mode_decision \<Rightarrow> ctv_fanout_manifest_set option \<Rightarrow> payout_manifest \<Rightarrow> string list \<Rightarrow>
     prism_error + (weighted_entitlement \<times> settlement_recipient list) list" where
  "verify_fanout_set X decision fanout_set coinbase_manifest leaves_hex =
     (if sd_fanout_chunk_count decision = 0
      then if fanout_set \<noteq> None then Inl (AuditMismatch ''unexpected_ctv_fanout_manifest_set'') else Inr []
      else
        and_then (ok_or (AuditMismatch ''ctv_fanout_manifest_set'') fanout_set) (\<lambda>ms.
        and_then (verify_ctv_fanout_manifest_set X ms) (\<lambda>_.
        if cms_parent_coinbase_txid ms \<noteq> pm_coinbase_txid coinbase_manifest
        then Inl (AuditMismatch ''ctv_fanout_parent_coinbase'')
        else if cms_settlement_mode ms \<noteq> sd_mode decision then Inl (AuditMismatch ''ctv_fanout_settlement_mode'')
        else if unat (cms_fanout_count ms) \<noteq> sd_fanout_chunk_count decision
        then Inl (AuditMismatch ''ctv_fanout_chunk_count'')
        else try_map (verify_set_manifest X coinbase_manifest leaves_hex) (cms_manifests ms))))"

definition verify_ctv_settlement_bundle ::
    "'x ctv_crates_scheme \<Rightarrow> settlement_mode_decision \<Rightarrow> ctv_fanout_manifest_set option \<Rightarrow> payout_policy_manifest \<Rightarrow>
     payout_manifest \<Rightarrow> string list \<Rightarrow> prism_error + weighted_entitlement list" where
  "verify_ctv_settlement_bundle X decision fanout_set policy_manifest coinbase_manifest leaves_hex =
     and_then (verify_fanout_set X decision fanout_set coinbase_manifest leaves_hex) (\<lambda>fanouts.
     let entitlements = map direct_entitlement (sd_direct_recipients decision) @ map fst fanouts;
         covered_recipients = sd_direct_recipients decision @ concat (map snd fanouts) in
     and_then (settlement_recipients_from_entitlements (ppm_onchain_entitlements policy_manifest)) (\<lambda>expected.
     if sort_by settlement_recipient_cmp covered_recipients \<noteq> sort_by settlement_recipient_cmp expected
     then Inl (AuditMismatch ''ctv_settlement_coverage'')
     else Inr entitlements))"

definition matches_pool_fee :: "pool_fee_manifest \<Rightarrow> string \<Rightarrow> string \<Rightarrow> string \<Rightarrow> bool" where
  "matches_pool_fee pool_fee recipient_id order_key p2mr_program_hex \<longleftrightarrow>
     recipient_id = pfm_recipient_id pool_fee \<and> order_key = pfm_order_key pool_fee \<and>
     eq_ignore_ascii_case p2mr_program_hex (pfm_p2mr_program_hex pool_fee)"

definition fee_recipient_matches :: "pool_fee_manifest \<Rightarrow> settlement_recipient \<Rightarrow> bool" where
  "fee_recipient_matches pool_fee r \<longleftrightarrow>
     matches_pool_fee pool_fee (sr_recipient_id r) (sr_order_key r) (sr_p2mr_program_hex r)"

definition verify_coinbase_output_policy ::
    "payout_policy_manifest \<Rightarrow> settlement_mode_decision option \<Rightarrow> payout_manifest \<Rightarrow> prism_error + unit" where
  "verify_coinbase_output_policy policy_manifest decision coinbase_manifest =
     (case pool_fee_first_output policy_manifest of
        None \<Rightarrow> Inr ()
      | Some pool_fee \<Rightarrow>
          (case pm_outputs coinbase_manifest of
             [] \<Rightarrow> Inl (AuditMismatch ''coinbase_output_policy'')
           | first_output # _ \<Rightarrow>
               if po_vout first_output \<noteq> 0 \<or>
                  \<not> matches_pool_fee pool_fee (po_recipient_id first_output) (po_order_key first_output)
                    (po_p2mr_program_hex first_output) \<or>
                  po_amount_sats first_output \<noteq> pfm_amount_sats pool_fee
               then Inl (AuditMismatch ''coinbase_output_policy'')
               else
                 (case decision of
                    None \<Rightarrow> Inr ()
                  | Some decision \<Rightarrow>
                      let fee_is_direct = list_ex (fee_recipient_matches pool_fee) (sd_direct_recipients decision);
                          fee_in_fanout = list_ex (\<lambda>chunk. list_ex (fee_recipient_matches pool_fee) (fc_recipients chunk))
                            (sd_fanout_chunks decision) in
                      if \<not> fee_is_direct \<or> fee_in_fanout then Inl (AuditMismatch ''coinbase_output_policy'')
                      else Inr ())))"

definition hex_vec_eq_ignore_ascii_case :: "string list \<Rightarrow> string list \<Rightarrow> bool" where
  "hex_vec_eq_ignore_ascii_case left right \<longleftrightarrow>
     length left = length right \<and> list_all (\<lambda>(l, r). eq_ignore_ascii_case l r) (zip left right)"

definition audit_verification_report ::
    "'x json_crates_scheme \<Rightarrow> audit_view \<Rightarrow> payout_manifest \<Rightarrow> prism_error + audit_verification_report" where
  "audit_verification_report X bundle coinbase_manifest =
     and_then (map_err PrismJson (canonical_reward_manifest_bytes X (ab_reward_manifest bundle))) (\<lambda>reward_bytes.
     and_then (map_err PrismJson (canonical_payout_policy_manifest_bytes X (ab_payout_policy_manifest bundle))) (\<lambda>policy_bytes.
     and_then (prism_audit_commitment_leaf_hex X (ab_reward_manifest bundle) (ab_payout_policy_manifest bundle)) (\<lambda>leaf.
     and_then (audit_commitment_root_hex X (ab_audit_commitment_leaves_hex bundle)) (\<lambda>root.
     and_then (map_err PrismJson (manifest_json X coinbase_manifest)) (\<lambda>manifest_bytes.
     and_then (map_err PrismJson (write_canonical X bundle)) (\<lambda>bundle_bytes.
     Inr \<lparr>avr_schema = ''qbit.prism.audit-verification-report.v1'',
          avr_block_height = fb_block_height (ab_found_block bundle),
          avr_coinbase_value_sats = fb_coinbase_value_sats (ab_found_block bundle),
          avr_reward_manifest_sha256_hex = sha256_hex X reward_bytes,
          avr_payout_policy_manifest_sha256_hex = sha256_hex X policy_bytes,
          avr_prism_audit_commitment_leaf_hex = leaf,
          avr_audit_commitment_root_hex = root,
          avr_coinbase_manifest_sha256_hex = sha256_hex X manifest_bytes,
          avr_audit_bundle_sha256_hex = sha256_hex X bundle_bytes,
          avr_coinbase_txid = pm_coinbase_txid coinbase_manifest,
          avr_coinbase_wtxid = pm_coinbase_wtxid coinbase_manifest,
          avr_coinbase_tx_hex = pm_coinbase_tx_hex coinbase_manifest,
          avr_min_output_sats = ppm_min_output_sats (ab_payout_policy_manifest bundle),
          avr_coinbase_output_policy = ppm_coinbase_output_policy (ab_payout_policy_manifest bundle),
          avr_onchain_output_count = length (pm_outputs coinbase_manifest),
          avr_accrued_account_count =
            length (filter (\<lambda>account. acc_action account = Accrued) (ppm_accounts (ab_payout_policy_manifest bundle)))\<rparr>))))))"

definition expected_policy_manifest ::
    "'x crates_scheme \<Rightarrow> audit_view \<Rightarrow> prism_reward_manifest \<Rightarrow> prism_error + payout_policy_manifest" where
  "expected_policy_manifest X bundle reward_manifest =
     and_then (apply_payout_policy reward_manifest (ab_prior_balances bundle) (ab_payout_policy bundle)) (\<lambda>expected.
     case (ab_settlement_mode_decision bundle, ab_ctv_fanout_fee_policy bundle) of
       (Some decision, Some fee_policy) \<Rightarrow>
         and_then (apply_ctv_fanout_fee_accounting X expected decision fee_policy) (\<lambda>(expected, _). Inr expected)
     | _ \<Rightarrow> Inr expected)"

definition expected_settlement ::
    "'x ctv_crates_scheme \<Rightarrow> audit_view \<Rightarrow> payout_policy_manifest \<Rightarrow> string \<Rightarrow>
     prism_error + (weighted_entitlement list \<times> string list)" where
  "expected_settlement X bundle policy_manifest leaf =
     (case ab_settlement_mode_decision bundle of
        None \<Rightarrow> Inr (ppm_onchain_entitlements policy_manifest, [leaf])
      | Some decision \<Rightarrow>
          and_then (verify_ctv_settlement_bundle X decision (ab_ctv_fanout_manifest_set bundle) policy_manifest
            (spm_manifest (ab_signed_coinbase_manifest bundle)) (ab_audit_commitment_leaves_hex bundle)) (\<lambda>entitlements.
          Inr (entitlements, leaf # (case ab_ctv_fanout_manifest_set bundle of None \<Rightarrow> []
            | Some ms \<Rightarrow> map cm_commitment_witness_leaf_hex (cms_manifests ms)))))"

definition verify_audit_view ::
    "'x json_crates_scheme \<Rightarrow> audit_view \<Rightarrow> string \<Rightarrow> prism_error + audit_verification_report" where
  "verify_audit_view X bundle ledger_writer_public_key_hex =
     (if ab_schema bundle \<noteq> audit_bundle_schema_for_shares (ab_shares bundle) then Inl (AuditMismatch ''schema'')
      else
        and_then (verify_ledger_window_attestation X bundle ledger_writer_public_key_hex) (\<lambda>_.
        and_then (map_err Builder (verify_signed_manifest X (ab_signed_coinbase_manifest bundle))) (\<lambda>_.
        and_then (build_prism_reward_manifest_with_cut X (ab_shares bundle) (ab_found_block bundle)
            (rm_cut (ab_reward_manifest bundle))) (\<lambda>expected_reward_manifest.
        if expected_reward_manifest \<noteq> ab_reward_manifest bundle then Inl (AuditMismatch ''reward_manifest'')
        else
        and_then (expected_policy_manifest X bundle expected_reward_manifest) (\<lambda>expected_policy_manifest.
        if expected_policy_manifest \<noteq> ab_payout_policy_manifest bundle
        then Inl (AuditMismatch ''payout_policy_manifest'')
        else
        and_then (verify_coinbase_output_policy expected_policy_manifest (ab_settlement_mode_decision bundle)
            (spm_manifest (ab_signed_coinbase_manifest bundle))) (\<lambda>_.
        and_then (prism_audit_commitment_leaf_hex X expected_reward_manifest expected_policy_manifest) (\<lambda>leaf.
        and_then (expected_settlement X bundle expected_policy_manifest leaf) (\<lambda>(entitlements, leaves).
        if \<not> hex_vec_eq_ignore_ascii_case (ab_audit_commitment_leaves_hex bundle) leaves
        then Inl (AuditMismatch ''audit_commitment_leaves'')
        else
        and_then (audit_commitment_root_hex X leaves) (\<lambda>expected_root.
        if \<not> (case ab_audit_commitment_root_hex bundle of None \<Rightarrow> False
              | Some root \<Rightarrow> eq_ignore_ascii_case root expected_root)
        then Inl (AuditMismatch ''audit_commitment_root'')
        else
        and_then (map_err Builder (build_manifest X (coinbase_request_of expected_reward_manifest entitlements expected_root
            (ab_witness_merkle_leaves_hex bundle) (ab_coinbase_script_sig_suffix_hex bundle) expected_policy_manifest)))
          (\<lambda>expected_coinbase_manifest.
        if expected_coinbase_manifest \<noteq> spm_manifest (ab_signed_coinbase_manifest bundle)
        then Inl (AuditMismatch ''coinbase_manifest'')
        else audit_verification_report X bundle expected_coinbase_manifest))))))))))"

definition verify_audit_bundle where
  "verify_audit_bundle X bundle ledger_writer_public_key_hex =
     verify_audit_view X (view_from_bundle bundle) ledger_writer_public_key_hex"

definition verify_audit_parts where
  "verify_audit_parts X body shares ledger_writer_public_key_hex =
     verify_audit_view X (view_from_parts body shares) ledger_writer_public_key_hex"

definition verify_audit_bundle_with_ledger_public_key where
  "verify_audit_bundle_with_ledger_public_key X bundle writer_public_key_hex =
     verify_audit_bundle X bundle writer_public_key_hex"

text \<open>\<open>str::trim\<close> on ASCII white space; a hex string has no other.\<close>

definition is_space :: "char \<Rightarrow> bool" where
  "is_space c \<longleftrightarrow> c = CHR '' '' \<or> (let n = of_char c :: nat in 9 \<le> n \<and> n \<le> 13)"

definition str_trim :: "string \<Rightarrow> string" where
  "str_trim s = rev (dropWhile is_space (rev (dropWhile is_space s)))"

definition verify_audit_view_against_coinbase_tx_hex ::
    "'x json_crates_scheme \<Rightarrow> audit_view \<Rightarrow> string \<Rightarrow> string \<Rightarrow> prism_error + audit_verification_report" where
  "verify_audit_view_against_coinbase_tx_hex X bundle onchain_coinbase_tx_hex ledger_writer_public_key_hex =
     and_then (verify_audit_view X bundle ledger_writer_public_key_hex) (\<lambda>report.
     if \<not> eq_ignore_ascii_case (avr_coinbase_tx_hex report) (str_trim onchain_coinbase_tx_hex)
     then Inl AuditCoinbaseTxMismatch else Inr report)"

definition verify_audit_bundle_against_coinbase_tx_hex where
  "verify_audit_bundle_against_coinbase_tx_hex X bundle onchain_coinbase_tx_hex ledger_writer_public_key_hex =
     verify_audit_view_against_coinbase_tx_hex X (view_from_bundle bundle) onchain_coinbase_tx_hex
       ledger_writer_public_key_hex"

definition verify_audit_parts_against_coinbase_tx_hex where
  "verify_audit_parts_against_coinbase_tx_hex X body shares onchain_coinbase_tx_hex ledger_writer_public_key_hex =
     verify_audit_view_against_coinbase_tx_hex X (view_from_parts body shares) onchain_coinbase_tx_hex
       ledger_writer_public_key_hex"

definition verify_audit_view_with_expected_value ::
    "'x json_crates_scheme \<Rightarrow> audit_view \<Rightarrow> string \<Rightarrow> string \<Rightarrow> u64 \<Rightarrow> prism_error + audit_verification_report" where
  "verify_audit_view_with_expected_value X bundle onchain_coinbase_tx_hex ledger_writer_public_key_hex expected =
     and_then (verify_audit_view_against_coinbase_tx_hex X bundle onchain_coinbase_tx_hex ledger_writer_public_key_hex)
       (\<lambda>report.
     if avr_coinbase_value_sats report \<noteq> expected
     then Inl (ExpectedCoinbaseValueMismatch expected (avr_coinbase_value_sats report)) else Inr report)"

definition verify_audit_bundle_with_expected_value where
  "verify_audit_bundle_with_expected_value X bundle onchain_coinbase_tx_hex ledger_writer_public_key_hex expected =
     verify_audit_view_with_expected_value X (view_from_bundle bundle) onchain_coinbase_tx_hex
       ledger_writer_public_key_hex expected"

definition verify_audit_parts_with_expected_value where
  "verify_audit_parts_with_expected_value X body shares onchain_coinbase_tx_hex ledger_writer_public_key_hex expected =
     verify_audit_view_with_expected_value X (view_from_parts body shares) onchain_coinbase_tx_hex
       ledger_writer_public_key_hex expected"

end
