(* ===== verification/Audit_Direct.thy ===== *)
theory Audit_Direct
  imports Audit_Bundle Policy_Coinbase
begin

text \<open>
  A bundle built without settlement verifies: the pieces the builder and the verifier share,
  and the theorem that the one accepts what the other made.
\<close>

section \<open>The pieces the builder and the verifier share\<close>

lemma parallelism_serial_new: "parallelism_serial = parallelism_new 1 (2 ^ 64 - 1)"
  by (simp add: parallelism_serial_def parallelism_new_def)

lemma view_simps [simp]:
  "ab_schema (view_from_parts body shares) = ab_schema body"
  "ab_found_block (view_from_parts body shares) = ab_found_block body"
  "ab_prior_balances (view_from_parts body shares) = ab_prior_balances body"
  "ab_payout_policy (view_from_parts body shares) = ab_payout_policy body"
  "ab_coinbase_script_sig_suffix_hex (view_from_parts body shares) = ab_coinbase_script_sig_suffix_hex body"
  "ab_witness_merkle_leaves_hex (view_from_parts body shares) = ab_witness_merkle_leaves_hex body"
  "ab_audit_commitment_leaves_hex (view_from_parts body shares) = ab_audit_commitment_leaves_hex body"
  "ab_audit_commitment_root_hex (view_from_parts body shares) = ab_audit_commitment_root_hex body"
  "ab_ledger_window_attestation (view_from_parts body shares) = ab_ledger_window_attestation body"
  "ab_reward_manifest (view_from_parts body shares) = ab_reward_manifest body"
  "ab_payout_policy_manifest (view_from_parts body shares) = ab_payout_policy_manifest body"
  "ab_settlement_mode_decision (view_from_parts body shares) = ab_settlement_mode_decision body"
  "ab_ctv_fanout_fee_policy (view_from_parts body shares) = ab_ctv_fanout_fee_policy body"
  "ab_ctv_fanout_manifest_set (view_from_parts body shares) = ab_ctv_fanout_manifest_set body"
  "ab_signed_coinbase_manifest (view_from_parts body shares) = ab_signed_coinbase_manifest body"
  "ab_shares (view_from_parts body shares) = shares"
  by (simp_all add: view_from_parts_def audit_bundle_body.defs audit_bundle.defs)

lemma view_of_bundle:
  "view_from_bundle (into_bundle body shares) = view_from_parts body shares"
  "into_parts (into_bundle body shares) = (body, shares)"
  "into_bundle (fst (into_parts bundle)) (snd (into_parts bundle)) = bundle"
  by (simp_all add: view_from_bundle_def into_bundle_def view_from_parts_def into_parts_def
      audit_bundle_body.defs audit_bundle.defs)

lemma manifest_with_cut:
  assumes "build_prism_reward_manifest_with_cut X shares fb wcut = Inr rm"
  shows "rm_cut rm = wcut" and "rm_block_height rm = fb_block_height fb"
    and "rm_coinbase_value_sats rm = fb_coinbase_value_sats fb"
    and "rm_network_difficulty rm = fb_network_difficulty fb"
    and "rm_anchor_job_issued_at_ms rm = fb_anchor_job_issued_at_ms fb"
    and "rm_share_slice_digest_hex rm = share_slice_digest_hex X (rm_shares rm)"
proof -
  from assms obtain w where w: "compute_prism_window_in_cut shares fb wcut = Inr w"
    and rm: "rm = manifest_of_window fb wcut w (share_slice_digest_hex X (pw_shares w))"
    by (auto simp: build_prism_reward_manifest_with_cut_def result_simps)
  show "rm_cut rm = wcut" "rm_block_height rm = fb_block_height fb"
    "rm_coinbase_value_sats rm = fb_coinbase_value_sats fb" "rm_network_difficulty rm = fb_network_difficulty fb"
    "rm_share_slice_digest_hex rm = share_slice_digest_hex X (rm_shares rm)"
    by (simp_all add: rm manifest_of_window_def)
  have "pw_anchor_job_issued_at_ms w = fb_anchor_job_issued_at_ms fb"
    using w by (auto simp: compute_window_Inr window_of_def Let_def)
  then show "rm_anchor_job_issued_at_ms rm = fb_anchor_job_issued_at_ms fb"
    by (simp add: rm manifest_of_window_def)
qed

text \<open>The signature field is not part of the signed payload.\<close>

lemma attestation_payload_unsigned:
  "canonical_ledger_window_attestation_bytes X (a\<lparr>lwa_signature := s\<rparr>) = canonical_ledger_window_attestation_bytes X a"
  by (simp add: canonical_ledger_window_attestation_bytes_def)

lemma attestation_verifies:
  assumes specs: "hex_spec X" "ed25519_spec X" "length ledger_key = 32"
    and rm: "build_prism_reward_manifest_with_cut X shares (ab_found_block b) wcut = Inr (ab_reward_manifest b)"
    and att: "build_ledger_window_attestation X (ab_reward_manifest b) (ab_prior_balances b) ledger_key =
      Inr (ab_ledger_window_attestation b)"
    and key: "eq_ignore_ascii_case (public_key_hex X ledger_key) writer_key"
  shows "verify_ledger_window_attestation X b writer_key = Inr ()"
proof -
  let ?a = "\<lparr>lwa_schema = ''qbit.prism.ledger-window-attestation.v1'',
         lwa_block_height = rm_block_height (ab_reward_manifest b),
         lwa_coinbase_value_sats = rm_coinbase_value_sats (ab_reward_manifest b),
         lwa_anchor_job_issued_at_ms = rm_anchor_job_issued_at_ms (ab_reward_manifest b),
         lwa_network_difficulty = rm_network_difficulty (ab_reward_manifest b),
         lwa_share_slice_digest_hex = rm_share_slice_digest_hex (ab_reward_manifest b),
         lwa_prior_balances_digest_hex = prior_balances_digest_hex X (ab_prior_balances b),
         lwa_signature = \<lparr>sig_algorithm = ''ed25519'', sig_public_key_hex = public_key_hex X ledger_key,
           sig_signature_hex = []\<rparr>\<rparr>"
  from att obtain payload where payload: "canonical_ledger_window_attestation_bytes X ?a = Inr payload"
    and signed: "ab_ledger_window_attestation b = ?a\<lparr>lwa_signature := \<lparr>sig_algorithm = ''ed25519'',
      sig_public_key_hex = public_key_hex X ledger_key, sig_signature_hex = sign_message_hex X ledger_key payload\<rparr>\<rparr>"
    by (auto simp: build_ledger_window_attestation_def Let_def result_simps)
  have "canonical_ledger_window_attestation_bytes X (ab_ledger_window_attestation b) = Inr payload"
    by (simp only: signed attestation_payload_unsigned payload)
  then show ?thesis
    using manifest_with_cut [OF rm] key verify_own_signature [OF specs]
    by (simp add: verify_ledger_window_attestation_def Let_def signed)
qed

lemma signed_manifest_Inr:
  assumes "build_profiled_signed_manifest X request key = Inr spm"
  shows "build_manifest X request = Inr (spm_manifest spm)"
    and "\<exists>bytes. manifest_json X (spm_manifest spm) = Inr bytes"
    and "hex_spec X \<Longrightarrow> ed25519_spec X \<Longrightarrow> length key = 32 \<Longrightarrow> verify_signed_manifest X spm = Inr ()"
  using assms verify_own_signature [of X key]
  by (auto simp: build_profiled_signed_manifest_def canonical_manifest_bytes_def verify_signed_manifest_def result_simps)

lemma leaf_of_hashes:
  assumes "json_spec X" and "reward_manifest_sha256 X rm p = Inr reward_hash" and "policy_manifest_sha256 X m = Inr policy_hash"
  shows "prism_audit_commitment_leaf_hex X rm m = Inr (commitment_leaf_hex X reward_hash policy_hash)"
    and "\<exists>bytes. canonical_reward_manifest_bytes X rm = Inr bytes"
    and "\<exists>bytes. canonical_payout_policy_manifest_bytes X m = Inr bytes"
  using assms(2,3)
  by (auto simp: reward_manifest_sha256_eq [OF assms(1)] policy_manifest_sha256_def prism_audit_commitment_leaf_hex_def result_simps)

lemma hex_vec_eq_refl [simp]: "hex_vec_eq_ignore_ascii_case xs xs"
  by (auto simp: hex_vec_eq_ignore_ascii_case_def list_all_iff in_set_zip)

text \<open>The outputs of a manifest are the allocated outputs of its request.\<close>

lemma manifest_outputs:
  assumes "build_manifest X r = Inr m"
  obtains outs where "allocate_outputs X r = Inr outs" and "pm_outputs m = map (payout_output_of X) (List.enumerate 0 outs)"
  using assms by (auto simp: build_manifest_def build_coinbase_def Let_def result_simps split: if_splits)

lemma first_output_matches_fee:
  assumes hex: "hex_spec X" and outs: "allocate_outputs X r = Inr outs" and "outs \<noteq> []"
    and first: "paid_output (hd outs) = (pfm_recipient_id f, pfm_order_key f, parse, unat (pfm_amount_sats f))"
    and parse: "parse = parse_p2mr_program X e" and e: "eq_ignore_ascii_case (ent_p2mr_program_hex e) (pfm_p2mr_program_hex f)"
    and m: "pm_outputs m = map (payout_output_of X) (List.enumerate 0 outs)"
    and fee: "pool_fee_first_output pm = Some f"
    and decision: "\<And>d. decision = Some d \<Longrightarrow> list_ex (fee_recipient_matches f) (sd_direct_recipients d) \<and>
      \<not> list_ex (\<lambda>chunk. list_ex (fee_recipient_matches f) (fc_recipients chunk)) (sd_fanout_chunks d)"
  shows "verify_coinbase_output_policy pm decision m = Inr ()"
proof -
  obtain out rest where o: "outs = out # rest"
    using assms(3) by (cases outs) simp_all
  have out: "out_recipient_id out = pfm_recipient_id f" "out_order_key out = pfm_order_key f"
    "out_amount_sats out = pfm_amount_sats f" "parse_p2mr_program X e = Inr (out_p2mr_program out)"
    using first by (simp_all add: o paid_output_def parse word_unat_eq_iff)
  have "hex_encode X (out_p2mr_program out) = to_ascii_lowercase (ent_p2mr_program_hex e)"
    using out(4) hex_encode_decode [OF hex] by (auto simp: parse_p2mr_program_def result_simps split: if_splits)
  then have program: "eq_ignore_ascii_case (hex_encode X (out_p2mr_program out)) (pfm_p2mr_program_hex f)"
    using e by (simp add: eq_ignore_ascii_case_def)
  show ?thesis
    using decision
    by (auto simp: verify_coinbase_output_policy_def fee m o payout_output_of_def matches_pool_fee_def out program Let_def
        split: option.split)
qed

lemma report_exists:
  assumes "\<exists>bytes. canonical_reward_manifest_bytes X (ab_reward_manifest b) = Inr bytes"
    and "\<exists>bytes. canonical_payout_policy_manifest_bytes X (ab_payout_policy_manifest b) = Inr bytes"
    and "audit_commitment_root_hex X (ab_audit_commitment_leaves_hex b) = Inr root"
    and "\<exists>bytes. manifest_json X m = Inr bytes" and "write_canonical X b = Inr bytes"
  shows "\<exists>report. audit_verification_report X b m = Inr report \<and> avr_audit_bundle_sha256_hex report = sha256_hex X bytes \<and>
    avr_coinbase_tx_hex report = pm_coinbase_tx_hex m \<and> avr_coinbase_txid report = pm_coinbase_txid m \<and>
    avr_coinbase_value_sats report = fb_coinbase_value_sats (ab_found_block b) \<and>
    avr_block_height report = fb_block_height (ab_found_block b) \<and> avr_audit_commitment_root_hex report = root"
  using assms by (auto simp: audit_verification_report_def prism_audit_commitment_leaf_hex_def)


section \<open>A built bundle verifies\<close>

lemma fee_entitlement:
  "out = owed_output X (pool_fee_account f) \<Longrightarrow>
    out = (pfm_recipient_id f, pfm_order_key f, parse_p2mr_program X (candidate_weight (pool_fee_account f)), unat (pfm_amount_sats f))"
  "ent_p2mr_program_hex (candidate_weight (pool_fee_account f)) = pfm_p2mr_program_hex f"
  by (simp_all add: owed_output_def pool_fee_account_def candidate_weight_def)

lemma allocated_nonempty: "allocate_outputs X r = Inr outs \<Longrightarrow> outs \<noteq> []"
  using allocated_length [of X r outs] allocate_outputs_ok_iff [of X r] by auto

lemma allocate_outputs_cong:
  assumes "req_entitlements r = req_entitlements q" and "req_coinbase_value_sats r = req_coinbase_value_sats q"
    and "req_pinned_first_output r = req_pinned_first_output q"
  shows "allocate_outputs X r = allocate_outputs X q"
  by (simp add: allocate_outputs_def ordered_entitlements_def assms)

lemma direct_policy_output:
  assumes "hex_spec X" and m: "apply_payout_policy rm bs policy = Inr m"
    and manifest: "build_manifest X (coinbase_request_of rm (ppm_onchain_entitlements m) root leaves sfx m) = Inr cm"
  shows "verify_coinbase_output_policy m None cm = Inr ()"
proof (cases "pool_fee_first_output m")
  case None
  then show ?thesis by (simp add: verify_coinbase_output_policy_def)
next
  case (Some f)
  let ?r = "coinbase_request_of rm (ppm_onchain_entitlements m) root leaves sfx m"
  obtain outs where outs: "allocate_outputs X ?r = Inr outs"
    and pm: "pm_outputs cm = map (payout_output_of X) (List.enumerate 0 outs)"
    by (rule manifest_outputs [OF manifest])
  let ?q = "?r\<lparr>req_witness_nonce_hex := None\<rparr>"
  have "build_policy_coinbase_request_with_coinbase_options rm bs policy sfx leaves = Inr (?q, m)"
    by (simp add: build_policy_coinbase_request_with_coinbase_options_def m coinbase_request_of_def)
  moreover have "allocate_outputs X ?q = Inr outs"
    using outs allocate_outputs_cong [of ?q ?r X] by simp
  ultimately have "paid_output (hd outs) = owed_output X (pool_fee_account f)"
    using Some by (rule pool_fee_paid_first)
  from fee_entitlement(1) [OF this] show ?thesis
    by (rule first_output_matches_fee [OF assms(1) outs allocated_nonempty [OF outs] _ refl _ pm Some])
      (simp_all add: fee_entitlement(2))
qed

lemma direct_bundle_verifies:
  assumes specs: "hex_spec X" "ed25519_spec X" "json_spec X" "length coinbase_key = 32" "length ledger_key = 32"
    and built: "build_audit_bundle_body_with_coinbase_options_parallel X shares fb wcut bs policy sfx leaves
      coinbase_key ledger_key (parallelism_new workers chunk_len) = Inr body"
    and bytes: "canonical_audit_bundle_bytes_from_parts X body shares = Inr bytes"
    and key: "eq_ignore_ascii_case (public_key_hex X ledger_key) writer_key"
  shows "\<exists>report. verify_audit_view X (view_from_parts body shares) writer_key = Inr report \<and>
    avr_audit_bundle_sha256_hex report = sha256_hex X bytes \<and>
    avr_coinbase_tx_hex report = pm_coinbase_tx_hex (spm_manifest (ab_signed_coinbase_manifest body)) \<and>
    avr_coinbase_txid report = pm_coinbase_txid (spm_manifest (ab_signed_coinbase_manifest body)) \<and>
    avr_coinbase_value_sats report = fb_coinbase_value_sats fb \<and> avr_block_height report = fb_block_height fb"
proof -
  let ?p = "parallelism_new workers chunk_len"
  from built obtain rm att m rh ph root spm
    where rm: "build_prism_reward_manifest_with_cut X shares fb wcut = Inr rm"
      and att: "build_ledger_window_attestation X rm bs ledger_key = Inr att"
      and m: "apply_payout_policy rm bs policy = Inr m"
      and rh: "reward_manifest_sha256 X rm ?p = Inr rh" and ph: "policy_manifest_sha256 X m = Inr ph"
      and root: "audit_commitment_root_hex X [commitment_leaf_hex X rh ph] = Inr root"
      and spm: "build_profiled_signed_manifest X (coinbase_request_of rm (ppm_onchain_entitlements m) root leaves sfx m)
        coinbase_key = Inr spm"
      and body: "body = \<lparr>ab_schema = audit_bundle_schema_for_shares shares, ab_found_block = fb,
             ab_prior_balances = bs, ab_payout_policy = policy,
             ab_coinbase_script_sig_suffix_hex = sfx, ab_witness_merkle_leaves_hex = leaves,
             ab_audit_commitment_leaves_hex = [commitment_leaf_hex X rh ph], ab_audit_commitment_root_hex = Some root,
             ab_ledger_window_attestation = att, ab_reward_manifest = rm,
             ab_payout_policy_manifest = m, ab_settlement_mode_decision = None,
             ab_ctv_fanout_fee_policy = None, ab_ctv_fanout_manifest_set = None,
             ab_signed_coinbase_manifest = spm\<rparr>"
    by (auto simp: build_audit_bundle_body_with_coinbase_options_parallel_def parallel_manifest_eq Let_def result_simps
        split: if_splits)
  let ?b = "view_from_parts body shares"
  have b: "ab_schema body = audit_bundle_schema_for_shares shares" "ab_found_block body = fb" "ab_prior_balances body = bs"
    "ab_payout_policy body = policy" "ab_coinbase_script_sig_suffix_hex body = sfx"
    "ab_witness_merkle_leaves_hex body = leaves" "ab_audit_commitment_leaves_hex body = [commitment_leaf_hex X rh ph]"
    "ab_audit_commitment_root_hex body = Some root" "ab_ledger_window_attestation body = att" "ab_reward_manifest body = rm"
    "ab_payout_policy_manifest body = m" "ab_settlement_mode_decision body = None" "ab_signed_coinbase_manifest body = spm"
    by (simp_all add: body)
  have ledger: "verify_ledger_window_attestation X ?b writer_key = Inr ()"
    by (rule attestation_verifies [OF specs(1,2,5), where shares = shares and wcut = wcut]) (simp_all add: b rm att key)
  note signed = signed_manifest_Inr [OF spm]
  note leaf = leaf_of_hashes [OF specs(3) rh ph]
  have policy: "verify_coinbase_output_policy m None (spm_manifest spm) = Inr ()"
    by (rule direct_policy_output [OF specs(1) m signed(1)])
  have view: "verify_audit_view X ?b writer_key = audit_verification_report X ?b (spm_manifest spm)"
    by (simp add: verify_audit_view_def b ledger signed specs manifest_with_cut(1) [OF rm] rm expected_policy_manifest_def m
        policy leaf(1) expected_settlement_def root)
  have "write_canonical X ?b = Inr bytes"
    using bytes by (simp add: canonical_audit_bundle_bytes_from_parts_def)
  with leaf(2,3) signed(2) root show ?thesis
    unfolding view using report_exists [of X ?b root "spm_manifest spm" bytes] by (auto simp: b)
qed

end
