(* ===== verification/Audit_Fanouts.thy ===== *)
theory Audit_Fanouts
  imports Audit_Direct Ctv_Properties Settlement_Properties Fanout_Fee
begin

text \<open>
  The settlement path of the audit bundle: the coinbase of \<open>qbit-pool-builder\<close> read by the
  transaction parser of \<open>ctv.rs\<close>, the fanouts finalized against it, the accounting of the
  fanout fees, and the coverage check of the verifier.
\<close>

section \<open>The pool builder's coinbase as ctv.rs reads it\<close>

text \<open>\<open>hex\<close> encodes as the format \<open>{:02x}\<close> does.\<close>

definition hex_format_spec :: "'x crates_scheme \<Rightarrow> bool" where
  "hex_format_spec X \<longleftrightarrow> (\<forall>bs. hex_encode X bs = concat (map hex_02x bs))"

lemma compact_sizes_agree: "ctv_compact_size v = compact_size v"
  by (simp add: ctv_compact_size_def compact_size_def)

lemma zeros_decode:
  assumes "hex_spec X" and "hex_format_spec X"
  shows "hex_decode X (concat (replicate 32 ''00'')) = Inr (replicate 32 0)"
proof -
  have "hex_02x 0 = ''00''"
    by code_simp
  then have "hex_encode X (replicate 32 0) = concat (replicate 32 ''00'')"
    using assms(2) by (simp add: hex_format_spec_def)
  then show ?thesis
    using hex_decode_encode [OF assms(1), of "replicate 32 0"] by simp
qed

definition coinbase_specs :: "allocated_output list \<Rightarrow> u8 list \<Rightarrow> tx_output_spec list" where
  "coinbase_specs outs script =
     map (\<lambda>out. \<lparr>tos_amount_sats = out_amount_sats out, tos_script_pubkey = out_script_pubkey out\<rparr>) outs @
     [\<lparr>tos_amount_sats = 0, tos_script_pubkey = script\<rparr>]"

lemma coinbase_specs_written:
  "concat (map serialize_output_spec (coinbase_specs outs script)) = concat (map write_output (output_pairs outs script))"
  "length (coinbase_specs outs script) = length (output_pairs outs script)"
  by (simp_all add: coinbase_specs_def output_pairs_def serialize_output_spec_def write_output_def compact_sizes_agree comp_def)

lemma coinbase_serialized:
  assumes "hex_decode X (concat (replicate 32 ''00'')) = Inr (replicate 32 0)"
  shows "serialize_tx_hex X 2 [\<lparr>ti_prev_txid_hex = concat (replicate 32 ''00''), ti_prev_vout = COINBASE_PREVOUT_VOUT,
      ti_script_sig = sig, ti_sequence = MAX_SEQUENCE_NONFINAL, ti_witness_stack = [nonce]\<rparr>]
      (coinbase_specs outs script) lock w =
    Inr (hex_encode X (if w then segwit_bytes sig outs script nonce lock else legacy_bytes sig outs script lock))"
  by (simp add: serialize_tx_hex_def serialize_input_spec_def assms compact_sizes_agree segwit_bytes_def legacy_bytes_def
      tx_body_def tx_witness_bytes_def write_input_def serialize_stack_def coinbase_specs_written COINBASE_PREVOUT_VOUT_def)

lemma amount_at_most:
  assumes "allocate_outputs X r = Inr outs" and "out \<in> set outs"
  shows "unat (out_amount_sats out) \<le> unat (req_coinbase_value_sats r)"
proof -
  have "unat (out_amount_sats out) \<le> sum_list (out_amounts outs)"
    using assms(2) by (auto intro: member_le_sum_list)
  then show ?thesis
    using alloc.conserves [OF assms(1)] by simp
qed

lemma coinbase_parses:
  assumes hex: "hex_spec X" "hex_format_spec X" "sha256_spec X" and cm: "build_manifest X r = Inr cm"
    and money: "req_coinbase_value_sats r \<le> QBIT_MAX_MONEY_SATS"
  shows "\<exists>tx outs script. allocate_outputs X r = Inr outs \<and>
    pm_outputs cm = map (payout_output_of X) (List.enumerate 0 outs) \<and>
    parse_transaction_hex X (pm_coinbase_tx_hex cm) field = Inr tx \<and> ensure_coinbase_shape tx = Inr () \<and>
    txid_hex X tx = pm_coinbase_txid cm \<and>
    pt_outputs tx = map (\<lambda>out. \<lparr>pto_amount_sats = out_amount_sats out, pto_script_pubkey = out_script_pubkey out\<rparr>) outs @
      [\<lparr>pto_amount_sats = 0, pto_script_pubkey = script\<rparr>] \<and>
    to_ascii_lowercase (pm_coinbase_tx_hex cm) = pm_coinbase_tx_hex cm"
proof -
  from cm obtain b where b: "build_coinbase X r = Inr b" and hexes: "pm_coinbase_tx_hex cm = hex_encode X (bc_tx_with_witness b)"
    "pm_coinbase_txid cm = display_hash_hex (bc_txid b)"
    and outputs: "pm_outputs cm = map (payout_output_of X) (List.enumerate 0 (bc_outputs b))"
    by (auto simp: build_manifest_def Let_def result_simps)
  from b [unfolded build_coinbase_Inr] obtain outs nonce leaves sig lock w
    where outs: "allocate_outputs X r = Inr outs" and nonce: "witness_nonce X r = Inr nonce"
      and sig: "coinbase_script_sig X r = Inr sig"
      and small: "length (segwit_bytes sig outs (witness_commitment_script X leaves nonce) nonce lock) \<le> MAX_BLOCK_WEIGHT"
      and fields: "bc_tx_with_witness b = segwit_bytes sig outs (witness_commitment_script X leaves nonce) nonce lock"
        "bc_txid b = hash256 X (legacy_bytes sig outs (witness_commitment_script X leaves nonce) lock)" "bc_outputs b = outs"
    by (auto simp: Let_def)
  let ?script = "witness_commitment_script X leaves nonce"
  let ?in = "\<lparr>ti_prev_txid_hex = concat (replicate 32 ''00''), ti_prev_vout = COINBASE_PREVOUT_VOUT,
      ti_script_sig = sig, ti_sequence = MAX_SEQUENCE_NONFINAL, ti_witness_stack = [nonce]\<rparr>"
  note ser = coinbase_serialized [OF zeros_decode [OF hex(1,2)], of sig nonce outs ?script lock]
  have "length ?script = 38"
    by (rule commitment_script_length [OF hex(3)])
  then have ok: "tx_specs_ok [?in] (coinbase_specs outs ?script)"
    using amount_at_most [OF outs] allocated_script [OF outs] script_sig_length [OF sig] witness_nonce_length [OF nonce]
      segwit_bounds [OF small] money
    unfolding tx_specs_ok_def coinbase_specs_written(2)
    by (fastforce simp: coinbase_specs_def word_le_nat_alt)
  have "length (hex_encode X (segwit_bytes sig outs ?script nonce lock)) < 2 ^ 64"
    using small by (simp add: length_hex_encode [OF hex(1)] MAX_BLOCK_WEIGHT_def)
  from parse_serialized [OF hex(1) ser [of True, simplified] ok this, of field] obtain bytes
    where parse: "parse_transaction_hex X (hex_encode X (segwit_bytes sig outs ?script nonce lock)) field =
        Inr (spec_transaction X 2 [?in] (coinbase_specs outs ?script) lock True bytes)"
      and bytes: "serialize_tx_hex X 2 [?in] (coinbase_specs outs ?script) lock False = Inr (hex_encode X bytes)"
    by blast
  have "bytes = legacy_bytes sig outs ?script lock"
    using bytes ser [of False] by (simp add: hex_encode_inj [OF hex(1)])
  then have "txid_hex X (spec_transaction X 2 [?in] (coinbase_specs outs ?script) lock True bytes) = pm_coinbase_txid cm"
    using hex(2) by (simp add: txid_hex_def spec_transaction_def hexes(2) fields(2) display_hash_hex_def hex_format_spec_def
        hash256_array_def hash256_def sha256_array_def)
  moreover have "to_ascii_lowercase (pm_coinbase_tx_hex cm) = pm_coinbase_tx_hex cm"
    unfolding hexes(1) using hex_encode_decode [OF hex(1) hex_decode_encode [OF hex(1)]] by metis
  ultimately show ?thesis
    using outs outputs parse
    by (intro exI [of _ "spec_transaction X 2 [?in] (coinbase_specs outs ?script) lock True bytes"] exI [of _ outs] exI [of _ ?script])
      (auto simp: hexes(1) fields spec_transaction_def coinbase_shape_Inr read_input_spec_def lowercase_zeros
        coinbase_specs_def read_output_spec_def)
qed


section \<open>Fanouts finalized against the coinbase\<close>

lemma anchor_decode:
  assumes "hex_spec X" and "hex_format_spec X"
  shows "hex_decode X P2A_ANCHOR_SCRIPT_PUBKEY_HEX = Inr [0x51, 0x02, 0x4e, 0x73]"
proof -
  have "concat (map hex_02x [0x51, 0x02, 0x4e, 0x73]) = P2A_ANCHOR_SCRIPT_PUBKEY_HEX"
    by code_simp
  then have "hex_encode X [0x51, 0x02, 0x4e, 0x73] = P2A_ANCHOR_SCRIPT_PUBKEY_HEX"
    using assms(2) by (simp only: hex_format_spec_def)
  then show ?thesis
    using hex_decode_encode [OF assms(1), of "[0x51, 0x02, 0x4e, 0x73]"] by simp
qed

lemma canonical_outputs_length:
  assumes "canonical_fanout_outputs X payouts = Inr outs"
  shows "length outs = length payouts"
proof -
  from assms obtain norm where "list_all2 (normalizes X) payouts norm"
    and "list_all2 (\<lambda>(i, p) out. fanout_row X i p out) (enumerate 0 (sort_by compare_payouts norm)) outs"
    by (auto simp: canonical_outputs_Inr)
  then show ?thesis
    by (auto dest!: list_all2_lengthD)
qed

lemma prepared_template_short:
  assumes hex: "hex_spec X" "hex_format_spec X" and prep: "prepare_ctv_fanout_precommitment X input = Inr p"
    and few: "length (pci_payouts input) < 2 ^ 32"
  shows "length (pc_fanout_tx_template_hex (pf_precommitment p)) < 2 ^ 63"
proof -
  let ?pc = "pf_precommitment p"
  from prepareD [OF prep] have outs: "canonical_fanout_outputs X (pci_payouts input) = Inr (pc_outputs ?pc)"
    and template: "fanout_tx_hex X (concat (replicate 32 ''00'')) 0 (pc_outputs ?pc)
      (fanout_has_cpfp_anchor (pc_fanout_fee_sats ?pc)) (pc_fanout_lock_time ?pc) (pc_fanout_sequence ?pc) [] False =
      Inr (pc_fanout_tx_template_hex ?pc)"
    by blast+
  have pays: "\<exists>script. pays_program X out script" if "out \<in> set (pc_outputs ?pc)" for out
    using canonical_outputsD(3) [OF hex(1) outs] that by (metis in_set_conv_nth)
  have "\<exists>h. fanout_tx_hex X (concat (replicate 32 ''00'')) 0 (pc_outputs ?pc)
      (fanout_has_cpfp_anchor (pc_fanout_fee_sats ?pc)) (pc_fanout_lock_time ?pc) (pc_fanout_sequence ?pc) [] False = Inr h \<and>
      length h \<le> 102 * length (pc_outputs ?pc) + 300"
    by (rule template_ok [OF hex(1) _ anchor_decode [OF hex] zeros_decode [OF hex]]) (rule pays)
  then have "length (pc_fanout_tx_template_hex ?pc) \<le> 102 * length (pc_outputs ?pc) + 300"
    using template by simp
  then show ?thesis
    using canonical_outputs_length [OF outs] few by simp
qed

lemma fanout_finalized:
  assumes hex: "hex_spec X" "hex_format_spec X" "sha256_spec X"
    and prep: "prepare_ctv_fanout_precommitment X input = Inr p" and few: "length (pci_payouts input) < 2 ^ 32"
    and cm: "build_manifest X r = Inr cm" and money: "req_coinbase_value_sats r \<le> QBIT_MAX_MONEY_SATS"
    and fin: "finalize_fanout X cm p = Inr m"
  shows "cm_precommitment m = pf_precommitment p" and "cm_commitment_witness_leaf_hex m = pf_commitment_witness_leaf_hex p"
    and "cm_parent_coinbase_txid m = pm_coinbase_txid cm" and "cm_parent_coinbase_tx_hex m = pm_coinbase_tx_hex cm"
    and "cm_covenant_output_value_sats m = pf_covenant_output_value_sats p"
    and "verify_ctv_fanout_manifest_structure X m = Inr ()"
proof -
  obtain tx outs script where outs: "allocate_outputs X r = Inr outs"
    and pm: "pm_outputs cm = map (payout_output_of X) (List.enumerate 0 outs)"
    and parse: "parse_transaction_hex X (pm_coinbase_tx_hex cm) ''parent_coinbase_tx_hex'' = Inr tx"
    and shape: "ensure_coinbase_shape tx = Inr ()" and txid: "txid_hex X tx = pm_coinbase_txid cm"
    and tx_outs: "pt_outputs tx = map (\<lambda>out. \<lparr>pto_amount_sats = out_amount_sats out, pto_script_pubkey = out_script_pubkey out\<rparr>) outs @
      [\<lparr>pto_amount_sats = 0, pto_script_pubkey = script\<rparr>]"
    and lower: "to_ascii_lowercase (pm_coinbase_tx_hex cm) = pm_coinbase_tx_hex cm"
    using coinbase_parses [OF hex cm money] by blast
  from fin obtain txo vout where found: "find (\<lambda>txo. po_recipient_id txo = pf_covenant_recipient_id p \<and>
        po_order_key txo = pf_covenant_order_key p \<and> po_p2mr_program_hex txo = pf_covenant_p2mr_program_hex p \<and>
        po_amount_sats txo = pf_covenant_output_value_sats p) (pm_outputs cm) = Some txo"
    and vout: "u32_try_from_usize (po_vout txo) = Some vout"
    and build: "build_ctv_fanout_manifest_from_precommitment X (pf_precommitment p) (pm_coinbase_tx_hex cm) vout = Inr m"
    by (auto simp: finalize_fanout_def find_coinbase_output_vout_def result_simps)
  from found have "txo \<in> set (pm_outputs cm)" and program: "po_p2mr_program_hex txo = pf_covenant_p2mr_program_hex p"
    and amount: "po_amount_sats txo = pf_covenant_output_value_sats p"
    by (auto simp: find_Some_iff)
  then obtain i where i: "i < length outs" "txo = payout_output_of X (i, outs ! i)"
    unfolding pm by (auto simp: in_set_conv_nth nth_enumerate_eq)
  have index: "unat vout = i"
    using vout i by (auto simp: u32_try_from_usize_def payout_output_of_def unat_of_nat take_bit_nat_eq_self split: if_splits)
  let ?covenant = "\<lparr>pto_amount_sats = out_amount_sats (outs ! i), pto_script_pubkey = out_script_pubkey (outs ! i)\<rparr>"
  have cov: "slice_get (pt_outputs tx) (unat vout) = Some ?covenant"
    using i by (simp add: slice_get_Some index tx_outs nth_append)
  from prepareD [OF prep] obtain q where q: "pf_covenant_p2mr_program_hex p = pc_p2mr_program_hex (pf_precommitment p)"
      "pf_covenant_output_value_sats p = pc_covenant_output_value_sats (pf_precommitment p)"
      "decode_program_hex X (pc_p2mr_program_hex (pf_precommitment p)) ''p2mr_program_hex'' = Inr q"
      "pc_covenant_script_pubkey_hex (pf_precommitment p) = hex_encode X (p2mr_script_pubkey q)"
    by blast
  have "hex_encode X (out_p2mr_program (outs ! i)) = pc_p2mr_program_hex (pf_precommitment p)"
    using program q(1) i(2) by (simp add: payout_output_of_def)
  then have "hex_decode X (pc_p2mr_program_hex (pf_precommitment p)) = Inr (out_p2mr_program (outs ! i))"
    using hex_decode_encode [OF hex(1), of "out_p2mr_program (outs ! i)"] by simp
  then have "q = out_p2mr_program (outs ! i)"
    using q(3) by (simp add: decode_program_Inr)
  moreover obtain es prov where prov: "is_provisional X (req_coinbase_value_sats r) es prov"
    and settled: "outs = settled (req_coinbase_value_sats r) es prov"
    using outs by (rule allocate_outputsD)
  moreover have "out_script_pubkey (outs ! i) = p2mr_script_pubkey (out_p2mr_program (outs ! i))"
    using arg_cong [OF settled_fields(7) [OF prov, folded settled], of "\<lambda>xs. xs ! i"] i(1) by simp
  ultimately have script: "hex_encode X (pto_script_pubkey ?covenant) = pc_covenant_script_pubkey_hex (pf_precommitment p)"
    by (simp add: q(4))
  have val: "pto_amount_sats ?covenant = pc_covenant_output_value_sats (pf_precommitment p)"
    using amount i(2) by (simp add: payout_output_of_def q(2))
  from manifest_finalizes [OF hex(1,3) prep prepared_template_short [OF hex(1,2) prep few] parse shape cov val script] build
  show "cm_precommitment m = pf_precommitment p" and "cm_commitment_witness_leaf_hex m = pf_commitment_witness_leaf_hex p"
    and "cm_parent_coinbase_txid m = pm_coinbase_txid cm" and "cm_parent_coinbase_tx_hex m = pm_coinbase_tx_hex cm"
    and "cm_covenant_output_value_sats m = pf_covenant_output_value_sats p"
    and "verify_ctv_fanout_manifest_structure X m = Inr ()"
    by (auto simp: txid lower q(2))
qed

end
