(* ===== verification/Audit_Settlement.thy ===== *)
theory Audit_Settlement
  imports Audit_Fanouts
begin

text \<open>
  The settlement path of the audit bundle, end to end: what the builder prepared, finalized and
  listed in the bundle is what the verifier derives from the bundle again.
\<close>

section \<open>Covenants\<close>

definition prepared_entitlement :: "prepared_ctv_fanout \<Rightarrow> weighted_entitlement" where
  "prepared_entitlement p =
     \<lparr>ent_recipient_id = pf_covenant_recipient_id p, ent_order_key = pf_covenant_order_key p,
      ent_p2mr_program_hex = pf_covenant_p2mr_program_hex p,
      ent_weight = u128_from_u64 (pf_covenant_output_value_sats p)\<rparr>"

lemma prepared_names:
  assumes "prepare_ctv_fanout_precommitment X input = Inr p"
  shows "pf_covenant_recipient_id p = ''ctv-fanout-'' @ show_nat (unat (pc_chunk_index (pf_precommitment p)))"
    and "pf_covenant_order_key p = ''ctv-fanout-'' @ show_08 (unat (pc_chunk_index (pf_precommitment p)))"
  using assms
  unfolding prepare_ctv_fanout_precommitment_def Let_def and_then_Inr require_Inr ok_or_Inr sum.inject
  by (elim exE conjE; hypsubst; simp)+

lemma covenant_of_prepared:
  assumes "prepare_ctv_fanout_precommitment X input = Inr p" and "cm_precommitment m = pf_precommitment p"
    and "cm_covenant_output_value_sats m = pf_covenant_output_value_sats p"
  shows "covenant_entitlement m = prepared_entitlement p"
proof -
  from prepareD [OF assms(1)] have "pf_covenant_p2mr_program_hex p = pc_p2mr_program_hex (pf_precommitment p)"
    by blast
  then show ?thesis
    by (simp add: covenant_entitlement_def Let_def prepared_entitlement_def prepared_names [OF assms(1)] assms(2,3))
qed

lemma settlement_entitlements_Inr:
  "ctv_settlement_coinbase_entitlements decision fanouts = Inr es \<longleftrightarrow>
     length fanouts = length (sd_fanout_chunks decision) \<and>
     es = map direct_entitlement (sd_direct_recipients decision) @ map prepared_entitlement fanouts"
  by (auto simp: ctv_settlement_coinbase_entitlements_def prepared_entitlement_def)

lemma sorted_indices: "n \<le> 2 ^ 32 \<Longrightarrow> sorted (map (of_nat :: nat \<Rightarrow> u32) [0..<n])"
  by (auto simp: sorted_iff_nth_mono word_le_nat_alt unat_of_nat take_bit_nat_eq_self)

text \<open>A set built from chunks in order lists them as they are.\<close>

lemma set_of_ordered:
  assumes built: "build_ctv_fanout_manifest_set X ms = Inr s"
    and order: "map (pc_chunk_index \<circ> cm_precommitment) ms = map of_nat [0..<length ms]" and "length ms < 2 ^ 32"
  shows "cms_manifests s = ms" and "verify_ctv_fanout_manifest_set X s = Inr ()"
    and "cms_parent_coinbase_txid s = cm_parent_coinbase_txid (ms ! 0)"
    and "cms_settlement_mode s = pc_settlement_mode (cm_precommitment (ms ! 0))"
    and "unat (cms_fanout_count s) = length ms" and "ms \<noteq> []"
proof -
  have "map chunk_key ms = map of_nat [0..<length ms]"
    using order by (simp add: chunk_key_def [abs_def] comp_def)
  then have "sorted (map chunk_key ms)"
    using sorted_indices assms(3) by simp
  then have sort: "sort_by compare_chunk_index ms = ms"
    by (rule chunks.sort_by_sorted)
  from built show "cms_manifests s = ms" "verify_ctv_fanout_manifest_set X s = Inr ()"
    "cms_parent_coinbase_txid s = cm_parent_coinbase_txid (ms ! 0)"
    "cms_settlement_mode s = pc_settlement_mode (cm_precommitment (ms ! 0))" "ms \<noteq> []"
    unfolding build_ctv_fanout_manifest_set_def Let_def sort and_then_Inr require_Inr ok_or_Inr sum.inject by auto
  then show "unat (cms_fanout_count s) = length ms"
    using set_sound [of X s] by simp
qed

section \<open>Coverage of a chunk\<close>

abbreviation lower_program :: "string \<Rightarrow> bool" where
  "lower_program p \<equiv> to_ascii_lowercase p = p"

lemma normalize_lower:
  assumes "hex_spec X"
  shows "normalize_recipient X r = Inr n \<Longrightarrow> n = r\<lparr>sr_p2mr_program_hex := to_ascii_lowercase (sr_p2mr_program_hex r)\<rparr>"
  using hex_encode_decode [OF assms] by (auto simp: normalize_recipient_def result_simps split: if_splits)

lemma normalize_all_lower:
  assumes "hex_spec X" and "normalize_recipient_p2mr_programs X rs = Inr ns"
  shows "ns = map (\<lambda>r. r\<lparr>sr_p2mr_program_hex := to_ascii_lowercase (sr_p2mr_program_hex r)\<rparr>) rs"
  using assms(2) normalize_lower [OF assms(1)]
  by (force simp: normalize_recipient_p2mr_programs_def try_map_Inr list_all2_conv_all_nth intro: nth_equalityI)

definition payout_core :: "ctv_fanout_payout \<Rightarrow> settlement_recipient" where
  "payout_core p = \<lparr>sr_recipient_id = cp_recipient_id p, sr_order_key = cp_order_key p,
     sr_p2mr_program_hex = cp_p2mr_program_hex p,
     sr_amount_sats = (if cp_gross_amount_sats p = 0 then cp_amount_sats p else cp_gross_amount_sats p)\<rparr>"

lemma row_core: "fanout_row X k p out \<Longrightarrow> covered_recipient out = payout_core p"
  by (auto simp: fanout_row_def covered_recipient_def payout_core_def)

lemma row_amount:
  "fanout_row X k p out \<Longrightarrow>
    unat (sr_amount_sats (covered_recipient out)) = unat (co_amount_sats out) + unat (co_fee_sats out)"
  by (auto simp: fanout_row_def covered_recipient_def)

lemma outputs_cover_payouts:
  assumes hex: "hex_spec X" and outs: "canonical_fanout_outputs X ps = Inr outs"
    and lower: "\<And>p. p \<in> set ps \<Longrightarrow> lower_program (cp_p2mr_program_hex p)"
  shows "mset (map covered_recipient outs) = mset (map payout_core ps)"
    and "sum_list (sr_amounts (map covered_recipient outs)) = outputs_sum outs + fees_sum outs"
proof -
  from outs obtain norm where norm: "list_all2 (normalizes X) ps norm"
    and rows: "list_all2 (\<lambda>(i, p) out. fanout_row X i p out) (enumerate 0 (sort_by compare_payouts norm)) outs"
    by (auto simp: canonical_outputs_Inr)
  have "norm ! i = ps ! i" if "i < length ps" for i
  proof -
    have "normalizes X (ps ! i) (norm ! i)" "lower_program (cp_p2mr_program_hex (ps ! i))"
      using norm that lower by (auto simp: list_all2_conv_all_nth)
    then show ?thesis
      using hex_encode_decode [OF hex] by (auto simp: normalizes_def)
  qed
  moreover have "length norm = length ps"
    using norm by (simp add: list_all2_lengthD)
  ultimately have "norm = ps"
    by (metis nth_equalityI)
  moreover have "map covered_recipient outs = map payout_core (sort_by compare_payouts norm)"
    using rows_nth [OF rows] by (intro nth_equalityI) (auto intro!: row_core simp del: length_sort_by)
  ultimately show "mset (map covered_recipient outs) = mset (map payout_core ps)"
    by simp
  have "unat (sr_amount_sats (covered_recipient (outs ! i))) =
      unat (co_amount_sats (outs ! i)) + unat (co_fee_sats (outs ! i))" if "i < length outs" for i
    using rows_nth [OF rows] that by (auto intro!: row_amount simp del: length_sort_by)
  then have "sum_list (sr_amounts (map covered_recipient outs)) =
      sum_list (map (\<lambda>out. unat (co_amount_sats out) + unat (co_fee_sats out)) outs)"
    by (intro arg_cong [where f = sum_list] nth_equalityI) simp_all
  then show "sum_list (sr_amounts (map covered_recipient outs)) = outputs_sum outs + fees_sum outs"
    by (simp only: sum_list_addf comp_def outputs_sum_def fees_sum_def)
qed

text \<open>The fee accounting keeps each recipient's amount as the gross amount of its payout.\<close>

definition fees_agree :: "(string \<rightharpoonup> fanout_fee_recipient) \<Rightarrow> settlement_recipient \<Rightarrow> bool" where
  "fees_agree fees r \<longleftrightarrow>
     (case fees (account_key (sr_recipient_id r) (sr_order_key r) (sr_p2mr_program_hex r)) of
        None \<Rightarrow> True | Some f \<Rightarrow> ff_gross_amount_sats f = sr_amount_sats r \<and> sr_amount_sats r \<noteq> 0)"

lemma payout_core_of: "fees_agree fees r \<Longrightarrow> payout_core (payout_of_recipient fees r) = r"
  by (auto simp: payout_core_def payout_of_recipient_def fees_agree_def Let_def split: option.splits)

lemma chunk_prepared:
  assumes "prepare_chunk X rm d fees rh ph c = Inr p"
  obtains input where "prepare_ctv_fanout_precommitment X input = Inr p"
    and "pci_payouts input = map (payout_of_recipient fees) (fc_recipients c)"
    and "unat (pc_chunk_index (pf_precommitment p)) = fc_chunk_index c"
    and "unat (pc_chunk_count (pf_precommitment p)) = sd_fanout_chunk_count d"
    and "pc_settlement_mode (pf_precommitment p) = sd_mode d"
proof -
  from assms obtain i n where i: "u32_try_from_usize (fc_chunk_index c) = Some i"
    and n: "u32_try_from_usize (sd_fanout_chunk_count d) = Some n"
    and prep: "prepare_ctv_fanout_precommitment X
       \<lparr>pci_block_height = rm_block_height rm, pci_chunk_index = i,
        pci_chunk_count = n, pci_coinbase_value_sats = rm_coinbase_value_sats rm,
        pci_settlement_mode = sd_mode d, pci_reward_manifest_sha256_hex = rh,
        pci_payout_policy_manifest_sha256_hex = ph,
        pci_payouts = map (payout_of_recipient fees) (fc_recipients c)\<rparr> = Inr p"
    by (auto simp: prepare_chunk_def result_simps)
  have "unat i = fc_chunk_index c" "unat n = sd_fanout_chunk_count d"
    using i n by (auto simp: u32_try_from_usize_def unat_of_nat take_bit_nat_eq_self split: if_splits)
  with prepareD [OF prep] show ?thesis
    by (intro that [OF prep]) auto
qed

lemma chunk_covered:
  assumes hex: "hex_spec X" and prep: "prepare_chunk X rm d fees rh ph c = Inr p"
    and rs: "\<And>r. r \<in> set (fc_recipients c) \<Longrightarrow> lower_program (sr_p2mr_program_hex r) \<and> fees_agree fees r"
  shows "mset (map covered_recipient (pc_outputs (pf_precommitment p))) = mset (fc_recipients c)"
    and "unat (pf_covenant_output_value_sats p) = sum_list (sr_amounts (fc_recipients c))"
proof -
  from prep obtain input where input: "prepare_ctv_fanout_precommitment X input = Inr p"
    and payouts: "pci_payouts input = map (payout_of_recipient fees) (fc_recipients c)"
    by (rule chunk_prepared)
  let ?outs = "pc_outputs (pf_precommitment p)"
  have outs: "canonical_fanout_outputs X (map (payout_of_recipient fees) (fc_recipients c)) = Inr ?outs"
    using prepareD [OF input] payouts by auto
  have "map payout_core (map (payout_of_recipient fees) (fc_recipients c)) = fc_recipients c"
    using payout_core_of rs by (simp add: map_idI)
  have "lower_program (cp_p2mr_program_hex q)"
    if "q \<in> set (map (payout_of_recipient fees) (fc_recipients c))" for q
    using that rs by (auto simp: payout_of_recipient_def Let_def)
  note both = outputs_cover_payouts [OF hex outs this]
  show cover: "mset (map covered_recipient ?outs) = mset (fc_recipients c)"
    using both(1) unfolding \<open>map payout_core _ = _\<close> .
  have "verify_precommitment X (pf_precommitment p) = Inr ()"
    "pf_covenant_output_value_sats p = pc_covenant_output_value_sats (pf_precommitment p)"
    using prepareD [OF input] by blast+
  then have "unat (pf_covenant_output_value_sats p) = outputs_sum ?outs + fees_sum ?outs"
    using verify_precommitmentD(5) by simp
  also have "\<dots> = sum_list (sr_amounts (map covered_recipient ?outs))"
    by (rule both(2) [symmetric])
  also have "\<dots> = sum_list (sr_amounts (fc_recipients c))"
    using sum_list_mset_eq [OF cover] .
  finally show "unat (pf_covenant_output_value_sats p) = sum_list (sr_amounts (fc_recipients c))" .
qed

section \<open>The fee accounting\<close>

definition fee_key :: "fanout_fee_recipient \<Rightarrow> string" where
  "fee_key f = account_key (ff_recipient_id f) (ff_order_key f) (ff_p2mr_program_hex f)"

definition recipient_key :: "settlement_recipient \<Rightarrow> string" where
  "recipient_key r = account_key (sr_recipient_id r) (sr_order_key r) (sr_p2mr_program_hex r)"

lemma core_keys: "fee_core f = recipient_core r \<Longrightarrow> fee_key f = recipient_key r \<and> ff_gross_amount_sats f = sr_amount_sats r"
  by (simp add: fee_core_def recipient_core_def fee_recipient_key_def settlement_key_def fee_key_def recipient_key_def)

lemma insert_fee_Inr:
  "insert_fee_recipient fees f = Inr fees' \<longleftrightarrow> fees (fee_key f) = None \<and> fees' = fees(fee_key f \<mapsto> f)"
  by (auto simp: insert_fee_recipient_def Let_def fee_key_def)

lemma insert_fees:
  assumes "try_fold insert_fee_recipient fees fs = Inr fees'"
  shows "fees \<subseteq>\<^sub>m fees'" and "f \<in> set fs \<Longrightarrow> fees' (fee_key f) = Some f"
proof -
  have "fees \<subseteq>\<^sub>m fees' \<and> (\<forall>f \<in> set fs. fees' (fee_key f) = Some f)"
    using assms
  proof (induction fs arbitrary: fees)
    case (Cons f fs)
    from Cons.prems have new: "fees (fee_key f) = None"
      and rest: "try_fold insert_fee_recipient (fees(fee_key f \<mapsto> f)) fs = Inr fees'"
      by (auto simp: insert_fee_Inr and_then_Inr)
    note ih = Cons.IH [OF rest]
    have "fees' (fee_key f) = Some f" and "fees \<subseteq>\<^sub>m fees'"
      using ih new by (auto simp: map_le_def dom_def split: if_splits)
    then show ?case
      using ih by simp
  qed simp
  then show "fees \<subseteq>\<^sub>m fees'" and "f \<in> set fs \<Longrightarrow> fees' (fee_key f) = Some f"
    by auto
qed

lemma charge_chunk_fees:
  assumes hex: "hex_spec X" and charge: "charge_chunk X policy mn fees c = Inr fees'"
    and lower: "\<And>r. r \<in> set (fc_recipients c) \<Longrightarrow> lower_program (sr_p2mr_program_hex r)"
  shows "fees \<subseteq>\<^sub>m fees'"
    and "r \<in> set (fc_recipients c) \<Longrightarrow> \<exists>f. fees' (recipient_key r) = Some f \<and> ff_gross_amount_sats f = sr_amount_sats r"
proof -
  from charge obtain fee d where applied: "apply_proportional_fanout_fee X (fc_recipients c) fee mn = Inr d"
    and carry: "fd_carry_forward_recipients d = []"
    and fold: "try_fold insert_fee_recipient fees (fd_payable_recipients d) = Inr fees'"
    by (auto simp: charge_chunk_def and_then_Inr split: if_splits)
  show "fees \<subseteq>\<^sub>m fees'"
    by (rule insert_fees(1) [OF fold])
  from applied_fee_settles [OF applied] carry obtain ns where ns: "normalize_recipient_p2mr_programs X (fc_recipients c) = Inr ns"
    and cores: "mset (map fee_core (fd_payable_recipients d)) = mset (map recipient_core ns)"
    by auto
  have "ns = fc_recipients c"
    using normalize_all_lower [OF hex ns] lower by (simp add: map_idI)
  assume "r \<in> set (fc_recipients c)"
  then have "recipient_core r \<in> set (map fee_core (fd_payable_recipients d))"
    using mset_eq_setD [OF cores] \<open>ns = fc_recipients c\<close> by simp
  then obtain f where "f \<in> set (fd_payable_recipients d)" "fee_core f = recipient_core r"
    by auto
  with insert_fees(2) [OF fold this(1)] core_keys [OF this(2)]
  show "\<exists>f. fees' (recipient_key r) = Some f \<and> ff_gross_amount_sats f = sr_amount_sats r"
    by auto
qed

lemma charge_all_fees:
  assumes hex: "hex_spec X" and "try_fold (charge_chunk X policy mn) fees cs = Inr fees'"
    and "\<And>r. r \<in> set (concat (map fc_recipients cs)) \<Longrightarrow> lower_program (sr_p2mr_program_hex r)"
  shows "fees \<subseteq>\<^sub>m fees' \<and> (\<forall>r \<in> set (concat (map fc_recipients cs)).
    \<exists>f. fees' (recipient_key r) = Some f \<and> ff_gross_amount_sats f = sr_amount_sats r)"
  using assms(2,3)
proof (induction cs arbitrary: fees)
  case (Cons c cs)
  from Cons.prems(1) obtain fees1 where charge: "charge_chunk X policy mn fees c = Inr fees1"
    and rest: "try_fold (charge_chunk X policy mn) fees1 cs = Inr fees'"
    by (auto simp: and_then_Inr)
  have here: "fees \<subseteq>\<^sub>m fees1" "\<forall>r \<in> set (fc_recipients c).
      \<exists>f. fees1 (recipient_key r) = Some f \<and> ff_gross_amount_sats f = sr_amount_sats r"
    using charge_chunk_fees [OF hex charge] Cons.prems(2) by auto
  have ih: "fees1 \<subseteq>\<^sub>m fees' \<and> (\<forall>r \<in> set (concat (map fc_recipients cs)).
      \<exists>f. fees' (recipient_key r) = Some f \<and> ff_gross_amount_sats f = sr_amount_sats r)"
    using Cons.IH [OF rest] Cons.prems(2) by auto
  have "fees' (recipient_key r) = Some f" if "fees1 (recipient_key r) = Some f" for r f
    using ih that by (auto simp: map_le_def dom_def)
  then show ?case
    using here ih map_le_trans [of fees fees1 fees'] by fastforce
qed simp

lemma accounting_fees:
  assumes hex: "hex_spec X" and acc: "apply_ctv_fanout_fee_accounting X m d policy = Inr (m', fees)"
    and rs: "\<And>r. r \<in> set (fanout_recipients_of d) \<Longrightarrow> lower_program (sr_p2mr_program_hex r) \<and> sr_amount_sats r \<noteq> 0"
  shows "r \<in> set (fanout_recipients_of d) \<Longrightarrow> fees_agree fees r"
    and "\<exists>accounts. m' = m\<lparr>ppm_accounts := accounts\<rparr>"
proof -
  from acc obtain accounts where fold: "try_fold (charge_chunk X policy (ppm_min_output_sats m)) Map.empty (sd_fanout_chunks d) = Inr fees"
    and m': "m' = m\<lparr>ppm_accounts := accounts\<rparr>"
    by (auto simp: apply_ctv_fanout_fee_accounting_def and_then_Inr)
  then show "\<exists>accounts. m' = m\<lparr>ppm_accounts := accounts\<rparr>"
    by blast
  show "r \<in> set (fanout_recipients_of d) \<Longrightarrow> fees_agree fees r"
    using charge_all_fees [OF hex fold] rs by (fastforce simp: fees_agree_def recipient_key_def)
qed

section \<open>The selection\<close>

lemma entitlements_of_recipients:
  assumes "settlement_recipients_from_entitlements es = Inr rs"
  shows "map direct_entitlement rs = es"
proof -
  have "direct_entitlement r = e" if "and_then (ok_or PayoutPolicyOverflow (u64_try_from_u128 (ent_weight e))) (\<lambda>amount_sats.
       Inr \<lparr>sr_recipient_id = ent_recipient_id e, sr_order_key = ent_order_key e,
            sr_p2mr_program_hex = ent_p2mr_program_hex e, sr_amount_sats = amount_sats\<rparr>) = Inr r" for e r
    using that by (auto simp: and_then_Inr direct_entitlement_def ok_or_Inr u64_try_from_u128_Some word_unat_eq_iff intro!: weighted_entitlement.equality split: if_splits)
  then show ?thesis
    using assms unfolding settlement_recipients_from_entitlements_def try_map_Inr
    by (auto simp: list_all2_conv_all_nth intro: nth_equalityI)
qed

lemma direct_entitlement_inj: "direct_entitlement r = direct_entitlement s \<longleftrightarrow> r = s"
  by (auto simp: direct_entitlement_def word_unat_eq_iff dest: arg_cong [where f = unat] intro!: settlement_recipient.equality)

lemma selection_of_lower:
  assumes hex: "hex_spec X" and sel: "select_settlement_mode_with_pinned_direct X rs floor config pinned = Inr d"
    and lower: "\<And>r. r \<in> set rs \<Longrightarrow> lower_program (sr_p2mr_program_hex r)"
  shows "mset (sd_direct_recipients d) + mset (fanout_recipients_of d) = mset rs"
    and "distinct (map settlement_key rs)" and "\<And>r. r \<in> set rs \<Longrightarrow> sr_amount_sats r \<noteq> 0"
    and "map fc_chunk_index (sd_fanout_chunks d) = [0..<length (sd_fanout_chunks d)]"
    and "sd_fanout_chunk_count d = length (sd_fanout_chunks d)"
    and "\<And>c. c \<in> set (sd_fanout_chunks d) \<Longrightarrow> length (fc_recipients c) < 2 ^ 32"
    and "\<And>r. pinned = Some r \<Longrightarrow> r \<in> set rs \<Longrightarrow> r \<in> set (sd_direct_recipients d)"
proof -
  obtain canonical key k where selby: "selected_by X rs floor config pinned d canonical key k"
    using select_mode_Inr [OF sel] by blast
  then have c: "canonical_recipients X rs = Inr canonical" and conf: "validate_config config = Inr ()"
    and pin: "case pinned of None \<Rightarrow> key = None
      | Some p \<Rightarrow> \<exists>j. key = Some j \<and> resolve_pinned_direct_key X canonical p config = Inr j"
    and chunk_count: "sd_fanout_chunk_count d = length (sd_fanout_chunks d)"
    by (auto simp: selected_by_def)
  have ns: "normalize_recipient_p2mr_programs X rs = Inr ns \<Longrightarrow> ns = rs" for ns
    using normalize_all_lower [OF hex, of rs ns] lower by (simp add: map_idI)
  show parts: "mset (sd_direct_recipients d) + mset (fanout_recipients_of d) = mset rs"
    using selected_parts(1) [OF selby] ns by auto
  show dist: "distinct (map settlement_key rs)" and "\<And>r. r \<in> set rs \<Longrightarrow> sr_amount_sats r \<noteq> 0"
    using c ns by (auto simp: canonical_recipients_Inr)
  show "map fc_chunk_index (sd_fanout_chunks d) = [0..<length (sd_fanout_chunks d)]"
    by (rule selected_fanout(3) [OF selby])
  show "sd_fanout_chunk_count d = length (sd_fanout_chunks d)"
    by (rule chunk_count)
  show "length (fc_recipients c) < 2 ^ 32" if "c \<in> set (sd_fanout_chunks d)" for c
    using selected_fanout(4) [OF selby that] validate_config_Inr(5) [OF conf] by simp
  show "r \<in> set (sd_direct_recipients d)" if p: "pinned = Some r" and r: "r \<in> set rs" for r
  proof -
    from pin p obtain j where j: "key = Some j" "resolve_pinned_direct_key X canonical r config = Inr j"
      by auto
    then obtain n where "normalize_recipient X r = Inr n" "j = settlement_key n"
      by (auto simp: resolve_pinned_direct_key_def Let_def and_then_Inr split: if_splits)
    then have "j = settlement_key r"
      using normalize_lower [OF hex, of r n] lower [OF r] by simp
    then obtain s where s: "s \<in> set (sd_direct_recipients d)" "settlement_key s = settlement_key r"
      using selected_direct(3) [OF selby j(1)] by blast
    then have "s \<in> set rs"
      using arg_cong [OF parts, of set_mset] by auto
    then have "s = r"
      using dist r s(2) by (auto simp: distinct_map dest: inj_onD)
    then show ?thesis
      using s(1) by simp
  qed
qed

section \<open>The pool fee at output zero\<close>

lemma fee_entitlement_listed:
  assumes "apply_payout_policy rm bs policy = Inr m" and "pool_fee_first_output m = Some f"
  shows "(candidate_weight (pool_fee_account f))\<lparr>ent_weight := u128_from_u64 (pfm_amount_sats f)\<rparr>
      \<in> set (ppm_onchain_entitlements m)"
    and "sum_list (ent_weights (ppm_onchain_entitlements m)) = unat (rm_coinbase_value_sats rm)"
proof -
  from assms(1) obtain r where r: "build_policy_coinbase_request_with_coinbase_options rm bs policy None [] = Inr (r, m)"
    and ents: "req_entitlements r = ppm_onchain_entitlements m"
    by (auto simp: build_policy_coinbase_request_with_coinbase_options_def)
  from r obtain mn fee accounts miners where facts: "accounts = miners @ push_fee_account fee"
      "req_entitlements r = onchain_entitlements_of accounts" "ppm_pool_fee m = fee"
      "req_coinbase_value_sats r = rm_coinbase_value_sats rm"
      "sum_list (ent_weights (req_entitlements r)) = unat (req_coinbase_value_sats r)"
    by (rule policy_request_Inr)
  have "fee = Some f" "0 < pfm_amount_sats f"
    using assms(2) facts(3) by (auto simp: pool_fee_first_output_def split: if_splits option.splits)
  then show "(candidate_weight (pool_fee_account f))\<lparr>ent_weight := u128_from_u64 (pfm_amount_sats f)\<rparr>
      \<in> set (ppm_onchain_entitlements m)"
    using facts(2) by (auto simp: ents facts(1) onchain_entitlements_of_def push_fee_account_def pool_fee_account_def)
  show "sum_list (ent_weights (ppm_onchain_entitlements m)) = unat (rm_coinbase_value_sats rm)"
    using facts(4,5) ents by simp
qed

lemma pinned_unique:
  assumes "ordered_entitlements r = Inr es" and "req_pinned_first_output r = Some p"
    and "e \<in> set (req_entitlements r)" "pin_matches p e" and "e' \<in> set (req_entitlements r)" "pin_matches p e'"
  shows "e = e'"
proof -
  let ?s = "sort_by compare_entitlements (req_entitlements r)"
  from assms(1,2) obtain i where i: "pinned_entitlement_index ?s p = Inr i"
    by (auto simp: ordered_entitlements_def Let_def result_simps)
  from assms(3,5) obtain j k where "j < length ?s" "e = ?s ! j" "k < length ?s" "e' = ?s ! k"
    by (metis in_set_conv_nth set_sort_by)
  then show ?thesis
    using pinned_indexD(3) [OF i] assms(4,6) by metis
qed

lemma fee_first_accounts: "pool_fee_first_output (m\<lparr>ppm_accounts := accounts\<rparr>) = pool_fee_first_output m"
  by (simp add: pool_fee_first_output_def cong: if_cong)

lemma settlement_policy_output:
  assumes hex: "hex_spec X" and m: "apply_payout_policy rm bs policy = Inr m"
    and rs: "settlement_recipients_from_entitlements (ppm_onchain_entitlements m) = Inr rs"
    and sel: "select_settlement_mode_with_pinned_direct X rs floor config (pinned_settlement_recipient_for_policy m) = Inr d"
    and lower: "\<And>r. r \<in> set rs \<Longrightarrow> lower_program (sr_p2mr_program_hex r)"
    and covs: "sum_list (ent_weights covs) = sum_list (sr_amounts (fanout_recipients_of d))"
    and cm: "build_manifest X (coinbase_request_of rm (map direct_entitlement (sd_direct_recipients d) @ covs)
      root leaves sfx (m\<lparr>ppm_accounts := accounts\<rparr>)) = Inr cm"
  shows "verify_coinbase_output_policy (m\<lparr>ppm_accounts := accounts\<rparr>) (Some d) cm = Inr ()"
proof (cases "pool_fee_first_output m")
  case None
  then show ?thesis
    by (simp add: verify_coinbase_output_policy_def fee_first_accounts)
next
  case (Some f)
  let ?m = "m\<lparr>ppm_accounts := accounts\<rparr>" and ?es = "map direct_entitlement (sd_direct_recipients d) @ covs"
  let ?r = "coinbase_request_of rm ?es root leaves sfx ?m"
  let ?fr = "\<lparr>sr_recipient_id = pfm_recipient_id f, sr_order_key = pfm_order_key f,
       sr_p2mr_program_hex = pfm_p2mr_program_hex f, sr_amount_sats = pfm_amount_sats f\<rparr>"
  let ?p = "\<lparr>pin_recipient_id = pfm_recipient_id f, pin_order_key = pfm_order_key f,
     pin_p2mr_program_hex = pfm_p2mr_program_hex f\<rparr>"
  note fee = fee_entitlement_listed [OF m Some] and ents = entitlements_of_recipients [OF rs]
  note parts = selection_of_lower [OF hex sel lower]
  have first: "pool_fee_first_output ?m = Some f"
    using Some by (simp only: fee_first_accounts)
  have "direct_entitlement ?fr = (candidate_weight (pool_fee_account f))\<lparr>ent_weight := u128_from_u64 (pfm_amount_sats f)\<rparr>"
    by (simp add: direct_entitlement_def candidate_weight_def pool_fee_account_def)
  then have "?fr \<in> set rs"
    using fee(1) by (auto simp: ents [symmetric] direct_entitlement_inj)
  then have direct: "?fr \<in> set (sd_direct_recipients d)" and low: "lower_program (pfm_p2mr_program_hex f)"
    using parts(7) [of ?fr] Some lower [of ?fr] by (simp_all add: pinned_settlement_recipient_for_policy_def)
  have fanouts: "\<not> fee_recipient_matches f s" if s: "s \<in> set (fanout_recipients_of d)" for s
  proof
    have "distinct (map settlement_key (sd_direct_recipients d @ fanout_recipients_of d))"
      using parts(1,2) by (metis mset_append mset_eq_imp_distinct_iff mset_map)
    then have "settlement_key s \<noteq> settlement_key ?fr"
      using direct s by (metis UN_I disjoint_iff distinct_append imageI list.set_map map_append)
    moreover have "lower_program (sr_p2mr_program_hex s)"
      using lower s arg_cong [OF parts(1), of set_mset] by auto
    moreover assume "fee_recipient_matches f s"
    ultimately show False
      using low by (auto simp: fee_recipient_matches_def matches_pool_fee_def eq_ignore_ascii_case_def settlement_key_def)
  qed
  obtain outs where outs: "allocate_outputs X ?r = Inr outs"
    and pm: "pm_outputs cm = map (payout_output_of X) (List.enumerate 0 outs)"
    by (rule manifest_outputs [OF cm])
  have "sum_list (ent_weights ?es) = sum_list (sr_amounts (sd_direct_recipients d @ fanout_recipients_of d))"
    using covs by (simp add: direct_entitlement_def comp_def)
  also have "\<dots> = sum_list (sr_amounts rs)"
    using parts(1) by (intro sum_list_mset_eq) simp
  also have "\<dots> = sum_list (ent_weights (ppm_onchain_entitlements m))"
    by (simp add: ents [symmetric] direct_entitlement_def comp_def)
  finally have total: "sum_list (ent_weights (req_entitlements ?r)) = unat (req_coinbase_value_sats ?r)"
    using fee(2) by (simp add: coinbase_request_of_def)
  obtain es where es: "ordered_entitlements ?r = Inr es"
    using allocated_exactly [OF outs total] by blast
  have pinned: "req_pinned_first_output ?r = Some ?p"
    using first by (simp add: coinbase_request_of_def pinned_first_output_for_policy_def)
  obtain e rest where e: "es = e # rest" "pin_matches ?p e"
    by (rule ordered_entitlements_pinned [OF es pinned])
  have "e \<in> set (req_entitlements ?r)"
    using mset_ordered_entitlements [OF es] e(1) by (metis list.set_intros(1) mset_eq_setD)
  moreover have "direct_entitlement ?fr \<in> set (req_entitlements ?r)"
    using direct by (simp add: coinbase_request_of_def)
  moreover have "pin_matches ?p (direct_entitlement ?fr)"
    by (simp add: pin_matches_def direct_entitlement_def)
  ultimately have "e = direct_entitlement ?fr"
    using pinned_unique [OF es pinned] e(2) by blast
  then have "paid_output (hd outs) = owed_weight X (direct_entitlement ?fr)"
    using paid_as_ordered [OF outs es total] e(1) by (cases outs) simp_all
  then have hd: "paid_output (hd outs) = (pfm_recipient_id f, pfm_order_key f,
      parse_p2mr_program X (direct_entitlement ?fr), unat (pfm_amount_sats f))"
    by (simp add: owed_weight_def, simp add: direct_entitlement_def)
  have "list_ex (fee_recipient_matches f) (sd_direct_recipients d)"
    using direct by (auto simp: list_ex_iff fee_recipient_matches_def matches_pool_fee_def intro!: bexI [of _ ?fr])
  moreover have "\<not> list_ex (\<lambda>chunk. list_ex (fee_recipient_matches f) (fc_recipients chunk)) (sd_fanout_chunks d)"
    using fanouts by (auto simp: list_ex_iff)
  ultimately show ?thesis
    by (intro first_output_matches_fee [OF hex outs allocated_nonempty [OF outs] hd refl _ pm first])
      (simp_all add: direct_entitlement_def)
qed

section \<open>The fanout set\<close>

definition fanout_evidence :: "prepared_ctv_fanout \<Rightarrow> weighted_entitlement \<times> settlement_recipient list" where
  "fanout_evidence p = (prepared_entitlement p, map covered_recipient (pc_outputs (pf_precommitment p)))"

lemma fanout_set_verifies:
  assumes hex: "hex_spec X" "hex_format_spec X" "sha256_spec X"
    and prep: "try_map (prepare_chunk X rm d fees rh ph) (sd_fanout_chunks d) = Inr ps"
    and chunks: "map fc_chunk_index (sd_fanout_chunks d) = [0..<length (sd_fanout_chunks d)]"
      "sd_fanout_chunk_count d = length (sd_fanout_chunks d)"
      "\<And>c. c \<in> set (sd_fanout_chunks d) \<Longrightarrow> length (fc_recipients c) < 2 ^ 32"
    and cm: "build_manifest X r = Inr cm" and money: "req_coinbase_value_sats r \<le> QBIT_MAX_MONEY_SATS"
    and fin: "finalize_fanouts X cm ps = Inr s"
    and leaves: "set (map pf_commitment_witness_leaf_hex ps) \<subseteq> set leaves"
  shows "verify_fanout_set X d s cm leaves = Inr (map fanout_evidence ps)"
    and "(case s of None \<Rightarrow> [] | Some ms \<Rightarrow> map cm_commitment_witness_leaf_hex (cms_manifests ms)) =
      map pf_commitment_witness_leaf_hex ps"
proof -
  let ?cs = "sd_fanout_chunks d"
  from prep have len: "length ps = length ?cs"
    by (auto simp: try_map_Inr dest: list_all2_lengthD)
  have "verify_fanout_set X d s cm leaves = Inr (map fanout_evidence ps) \<and>
    (case s of None \<Rightarrow> [] | Some ms \<Rightarrow> map cm_commitment_witness_leaf_hex (cms_manifests ms)) =
      map pf_commitment_witness_leaf_hex ps"
  proof (cases "ps = []")
    case True
    then show ?thesis
      using fin len chunks(2) by (auto simp: finalize_fanouts_def verify_fanout_set_def)
  next
    case False
    from fin False obtain ms ms' where each: "try_map (finalize_fanout X cm) ps = Inr ms"
      and built: "build_ctv_fanout_manifest_set X ms = Inr ms'" and s: "s = Some ms'"
      by (auto simp: finalize_fanouts_def and_then_Inr)
    have lenm: "length ms = length ps"
      using each by (auto simp: try_map_Inr dest: list_all2_lengthD)
    have facts: "cm_precommitment (ms ! i) = pf_precommitment (ps ! i) \<and>
        cm_commitment_witness_leaf_hex (ms ! i) = pf_commitment_witness_leaf_hex (ps ! i) \<and>
        cm_parent_coinbase_txid (ms ! i) = pm_coinbase_txid cm \<and> cm_parent_coinbase_tx_hex (ms ! i) = pm_coinbase_tx_hex cm \<and>
        covenant_entitlement (ms ! i) = prepared_entitlement (ps ! i) \<and>
        verify_ctv_fanout_manifest_structure X (ms ! i) = Inr () \<and>
        unat (pc_chunk_index (pf_precommitment (ps ! i))) = i \<and>
        unat (pc_chunk_count (pf_precommitment (ps ! i))) = length ps \<and>
        pc_settlement_mode (pf_precommitment (ps ! i)) = sd_mode d" if i: "i < length ps" for i
    proof -
      have "prepare_chunk X rm d fees rh ph (?cs ! i) = Inr (ps ! i)"
        using prep i len by (auto simp: try_map_Inr list_all2_conv_all_nth)
      then obtain input where input: "prepare_ctv_fanout_precommitment X input = Inr (ps ! i)"
        and payouts: "pci_payouts input = map (payout_of_recipient fees) (fc_recipients (?cs ! i))"
        and ids: "unat (pc_chunk_index (pf_precommitment (ps ! i))) = fc_chunk_index (?cs ! i)"
          "unat (pc_chunk_count (pf_precommitment (ps ! i))) = sd_fanout_chunk_count d"
          "pc_settlement_mode (pf_precommitment (ps ! i)) = sd_mode d"
        by (rule chunk_prepared)
      have few: "length (pci_payouts input) < 2 ^ 32"
        using chunks(3) [of "?cs ! i"] i len by (simp add: payouts)
      have "finalize_fanout X cm (ps ! i) = Inr (ms ! i)"
        using each i by (auto simp: try_map_Inr list_all2_conv_all_nth)
      note final = fanout_finalized [OF hex input few cm money this]
      have "fc_chunk_index (?cs ! i) = i"
        using arg_cong [OF chunks(1), of "\<lambda>xs. xs ! i"] i len by simp
      then show ?thesis
        using final covenant_of_prepared [OF input, of "ms ! i"] ids chunks(2) len by simp
    qed
    have small: "length ms < 2 ^ 32"
      using facts [of 0] False lenm unsigned_less [of "pc_chunk_count (pf_precommitment (ps ! 0))", where ?'a = nat] by simp
    have "(pc_chunk_index \<circ> cm_precommitment) (ms ! i) = of_nat i" if "i < length ms" for i
      using facts [of i] that lenm small by (simp add: word_unat_eq_iff unat_of_nat take_bit_nat_eq_self)
    then have "map (pc_chunk_index \<circ> cm_precommitment) ms = map of_nat [0..<length ms]"
      by (intro nth_equalityI) simp_all
    note set = set_of_ordered [OF built this small]
    have one: "verify_set_manifest X cm leaves (ms ! i) = Inr (fanout_evidence (ps ! i))" if "i < length ps" for i
    proof -
      have "pf_commitment_witness_leaf_hex (ps ! i) \<in> set leaves"
        using leaves that by auto
      then show ?thesis
        using facts [OF that]
        by (auto simp: verify_set_manifest_def verify_ctv_fanout_manifest_commitment_leaf_def Let_def list_ex_iff fanout_evidence_def)
    qed
    then have "try_map (verify_set_manifest X cm leaves) ms = Inr (map fanout_evidence ps)"
      using lenm by (auto simp: try_map_Inr list_all2_conv_all_nth)
    moreover have "?cs \<noteq> []"
      using False len by auto
    ultimately have "verify_fanout_set X d s cm leaves = Inr (map fanout_evidence ps)"
      using set facts [of 0] False lenm len chunks(2) by (simp add: verify_fanout_set_def s)
    moreover have "map cm_commitment_witness_leaf_hex ms = map pf_commitment_witness_leaf_hex ps"
      using facts lenm by (intro nth_equalityI) simp_all
    ultimately show ?thesis
      using set(1) by (simp add: s)
  qed
  then show "verify_fanout_set X d s cm leaves = Inr (map fanout_evidence ps)"
    and "(case s of None \<Rightarrow> [] | Some ms \<Rightarrow> map cm_commitment_witness_leaf_hex (cms_manifests ms)) =
      map pf_commitment_witness_leaf_hex ps"
    by simp_all
qed

end
