(* ===== verification/Audit_Complete.thy ===== *)
theory Audit_Complete
  imports Audit_Settlement
begin

text \<open>
  The verifier accepts what the builder of the settlement path made, for every assignment of
  fanout fees that keeps the recipients' gross amounts, exactly when the paid programs are
  spelled in lower case.
\<close>

section \<open>Deriving the settlement\<close>

lemma derived_settlement:
  assumes "derive_settlement X rm bs policy floor config fp = Inr (pm, d, fees)"
  obtains m rs accounts where "apply_payout_policy rm bs policy = Inr m" and "pm = m\<lparr>ppm_accounts := accounts\<rparr>"
    and "settlement_recipients_from_entitlements (ppm_onchain_entitlements m) = Inr rs"
    and "select_settlement_mode_with_pinned_direct X rs floor config (pinned_settlement_recipient_for_policy m) = Inr d"
    and "case fp of None \<Rightarrow> pm = m \<and> fees = Map.empty | Some p \<Rightarrow> apply_ctv_fanout_fee_accounting X m d p = Inr (pm, fees)"
proof -
  from assms obtain m rs where facts: "apply_payout_policy rm bs policy = Inr m"
      "settlement_recipients_from_entitlements (ppm_onchain_entitlements m) = Inr rs"
      "select_settlement_mode_with_pinned_direct X rs floor config (pinned_settlement_recipient_for_policy m) = Inr d"
    and fp: "case fp of None \<Rightarrow> pm = m \<and> fees = Map.empty | Some p \<Rightarrow> apply_ctv_fanout_fee_accounting X m d p = Inr (pm, fees)"
    by (auto simp: derive_settlement_def and_then_Inr split: option.splits)
  have "\<exists>accounts. pm = m\<lparr>ppm_accounts := accounts\<rparr>"
  proof (cases fp)
    case None
    then show ?thesis
      using fp by (intro exI [of _ "ppm_accounts m"]) simp
  next
    case (Some p)
    then show ?thesis
      using fp by (auto simp: apply_ctv_fanout_fee_accounting_def and_then_Inr)
  qed
  with facts fp show ?thesis
    using that by blast
qed

definition recipient_order :: "settlement_recipient \<Rightarrow> string \<times> string \<times> string \<times> u64" where
  "recipient_order r = (sr_order_key r, sr_recipient_id r, sr_p2mr_program_hex r, sr_amount_sats r)"

interpretation coverage: key_order settlement_recipient_cmp recipient_order
  by unfold_locales
    (simp only: settlement_recipient_cmp_def recipient_order_def then_with_assoc, simp only: then_with_cmp)

lemma recipient_order_inj: "inj recipient_order"
  by (auto simp: inj_def recipient_order_def intro: settlement_recipient.equality)

lemma coverage_iff:
  "sort_by settlement_recipient_cmp xs = sort_by settlement_recipient_cmp ys \<longleftrightarrow> mset xs = mset ys"
proof
  assume "mset xs = mset ys"
  then show "sort_by settlement_recipient_cmp xs = sort_by settlement_recipient_cmp ys"
    by (rule coverage.sort_by_perm) (rule inj_on_subset [OF recipient_order_inj subset_UNIV])
qed (metis mset_sort_by)

text \<open>
  The second half of the builder: from the reward manifest, the attestation and the decision to
  the body. The fees charged to the fanout recipients are an argument.
\<close>

definition assemble_settlement ::
    "'x json_crates_scheme \<Rightarrow> accepted_share list \<Rightarrow> found_block \<Rightarrow> carry_forward_balance list \<Rightarrow> payout_policy \<Rightarrow>
     fanout_fee_rate_policy option \<Rightarrow> string option \<Rightarrow> string list \<Rightarrow> u8 list \<Rightarrow> prism_reward_manifest \<Rightarrow>
     ledger_window_attestation \<Rightarrow> payout_policy_manifest \<Rightarrow> settlement_mode_decision \<Rightarrow>
     (string \<rightharpoonup> fanout_fee_recipient) \<Rightarrow> u8 list \<Rightarrow> u8 list \<Rightarrow> prism_error + audit_bundle_body" where
  "assemble_settlement X shares fb bs policy fp sfx merkle_leaves coinbase_key rm att pm d fees rh ph =
     and_then (try_map (prepare_chunk X rm d fees (hex_encode X rh) (hex_encode X ph)) (sd_fanout_chunks d)) (\<lambda>ps.
     let leaves = commitment_leaf_hex X rh ph # map pf_commitment_witness_leaf_hex ps in
     and_then (audit_commitment_root_hex X leaves) (\<lambda>root.
     and_then (ctv_settlement_coinbase_entitlements d ps) (\<lambda>es.
     and_then (build_profiled_signed_manifest X (coinbase_request_of rm es root merkle_leaves sfx pm) coinbase_key) (\<lambda>spm.
     and_then (finalize_fanouts X (spm_manifest spm) ps) (\<lambda>s.
     Inr \<lparr>ab_schema = audit_bundle_schema_for_shares shares, ab_found_block = fb, ab_prior_balances = bs,
          ab_payout_policy = policy, ab_coinbase_script_sig_suffix_hex = sfx,
          ab_witness_merkle_leaves_hex = merkle_leaves, ab_audit_commitment_leaves_hex = leaves,
          ab_audit_commitment_root_hex = Some root, ab_ledger_window_attestation = att, ab_reward_manifest = rm,
          ab_payout_policy_manifest = pm, ab_settlement_mode_decision = Some d, ab_ctv_fanout_fee_policy = fp,
          ab_ctv_fanout_manifest_set = s, ab_signed_coinbase_manifest = spm\<rparr>)))))"

lemma builder_assembles:
  assumes "build_audit_bundle_body_with_ctv_settlement_options_parallel X shares fb wcut bs policy floor config fp
      sfx leaves coinbase_key ledger_key (parallelism_new workers chunk_len) = Inr body"
  obtains rm att pm d fees rh ph where
    "build_prism_reward_manifest_with_cut X shares fb wcut = Inr rm"
    and "build_ledger_window_attestation X rm bs ledger_key = Inr att"
    and "derive_settlement X rm bs policy floor config fp = Inr (pm, d, fees)"
    and "reward_manifest_sha256 X rm (parallelism_new workers chunk_len) = Inr rh" and "policy_manifest_sha256 X pm = Inr ph"
    and "assemble_settlement X shares fb bs policy fp sfx leaves coinbase_key rm att pm d fees rh ph = Inr body"
proof -
  note def = assms [unfolded build_audit_bundle_body_with_ctv_settlement_options_parallel_def parallel_manifest_eq Let_def]
  have key: "\<not> eq_ignore_ascii_case (public_key_hex X coinbase_key) (public_key_hex X ledger_key)"
    using def by (auto split: if_splits)
  from def obtain rm att pm d fees rh ph where
    "build_prism_reward_manifest_with_cut X shares fb wcut = Inr rm"
    "build_ledger_window_attestation X rm bs ledger_key = Inr att"
    "derive_settlement X rm bs policy floor config fp = Inr (pm, d, fees)"
    "reward_manifest_sha256 X rm (parallelism_new workers chunk_len) = Inr rh" "policy_manifest_sha256 X pm = Inr ph"
    unfolding if_not_P [OF key] and_then_Inr map_err_Inr split_paired_Ex prod.case by blast
  moreover from this have "assemble_settlement X shares fb bs policy fp sfx leaves coinbase_key rm att pm d fees rh ph = Inr body"
    using def unfolding if_not_P [OF key] by (simp add: assemble_settlement_def Let_def)
  ultimately show ?thesis
    by (rule that)
qed

lemma assembled_body:
  assumes "assemble_settlement X shares fb bs policy fp sfx leaves coinbase_key rm att pm d fees rh ph = Inr body"
  obtains ps root es spm s where
    "try_map (prepare_chunk X rm d fees (hex_encode X rh) (hex_encode X ph)) (sd_fanout_chunks d) = Inr ps"
    and "audit_commitment_root_hex X (commitment_leaf_hex X rh ph # map pf_commitment_witness_leaf_hex ps) = Inr root"
    and "ctv_settlement_coinbase_entitlements d ps = Inr es"
    and "build_profiled_signed_manifest X (coinbase_request_of rm es root leaves sfx pm) coinbase_key = Inr spm"
    and "finalize_fanouts X (spm_manifest spm) ps = Inr s"
    and "body = \<lparr>ab_schema = audit_bundle_schema_for_shares shares, ab_found_block = fb,
             ab_prior_balances = bs, ab_payout_policy = policy,
             ab_coinbase_script_sig_suffix_hex = sfx, ab_witness_merkle_leaves_hex = leaves,
             ab_audit_commitment_leaves_hex = commitment_leaf_hex X rh ph # map pf_commitment_witness_leaf_hex ps,
             ab_audit_commitment_root_hex = Some root, ab_ledger_window_attestation = att, ab_reward_manifest = rm,
             ab_payout_policy_manifest = pm, ab_settlement_mode_decision = Some d,
             ab_ctv_fanout_fee_policy = fp, ab_ctv_fanout_manifest_set = s, ab_signed_coinbase_manifest = spm\<rparr>"
  using assms unfolding assemble_settlement_def Let_def and_then_Inr sum.inject
  by (elim exE conjE) (rule that, (assumption | erule sym)+)

section \<open>A built settlement verifies\<close>

lemma recipients_lower:
  assumes rs: "settlement_recipients_from_entitlements (ppm_onchain_entitlements m) = Inr rs"
    and lower: "\<And>e. e \<in> set (ppm_onchain_entitlements (m\<lparr>ppm_accounts := accounts\<rparr>)) \<Longrightarrow> lower_program (ent_p2mr_program_hex e)"
    and "r \<in> set rs"
  shows "lower_program (sr_p2mr_program_hex r)"
proof -
  have "direct_entitlement r \<in> set (ppm_onchain_entitlements (m\<lparr>ppm_accounts := accounts\<rparr>))"
    using assms(3) by (simp add: entitlements_of_recipients [OF rs, symmetric])
  from lower [OF this] show ?thesis
    by (simp add: direct_entitlement_def)
qed

lemma chunk_sums: "sum_list (map (\<lambda>c. sum_list (sr_amounts (g c))) cs) = sum_list (sr_amounts (concat (map g cs)))"
  by (induction cs) simp_all

lemma derived_fees_agree:
  assumes hex: "hex_spec X" and derived: "derive_settlement X rm bs policy floor config fp = Inr (pm, d, fees)"
    and lower: "\<And>e. e \<in> set (ppm_onchain_entitlements pm) \<Longrightarrow> lower_program (ent_p2mr_program_hex e)"
    and r: "r \<in> set (fanout_recipients_of d)"
  shows "fees_agree fees r"
proof -
  from derived obtain m rs accounts where pm: "pm = m\<lparr>ppm_accounts := accounts\<rparr>"
    and rs: "settlement_recipients_from_entitlements (ppm_onchain_entitlements m) = Inr rs"
    and sel: "select_settlement_mode_with_pinned_direct X rs floor config (pinned_settlement_recipient_for_policy m) = Inr d"
    and fp: "case fp of None \<Rightarrow> pm = m \<and> fees = Map.empty | Some p \<Rightarrow> apply_ctv_fanout_fee_accounting X m d p = Inr (pm, fees)"
    by (rule derived_settlement)
  note low = recipients_lower [OF rs, of accounts, folded pm, OF lower]
  note parts = selection_of_lower [OF hex sel low]
  have all: "lower_program (sr_p2mr_program_hex r) \<and> sr_amount_sats r \<noteq> 0" if "r \<in> set (fanout_recipients_of d)" for r
    using that low parts(3) arg_cong [OF parts(1), of set_mset] by auto
  show ?thesis
  proof (cases fp)
    case None
    then show ?thesis using fp by (simp add: fees_agree_def)
  next
    case (Some p)
    then show ?thesis
      using fp accounting_fees(1) [OF hex _ all r] by simp
  qed
qed

lemma settled_coverage:
  assumes hex: "hex_spec X" and derived: "derive_settlement X rm bs policy floor config fp = Inr (pm, d, fees)"
    and prep: "try_map (prepare_chunk X rm d charged rh ph) (sd_fanout_chunks d) = Inr ps"
    and agree: "\<And>r. r \<in> set (fanout_recipients_of d) \<Longrightarrow> fees_agree charged r"
    and lower: "\<And>e. e \<in> set (ppm_onchain_entitlements pm) \<Longrightarrow> lower_program (ent_p2mr_program_hex e)"
  obtains m rs accounts where "apply_payout_policy rm bs policy = Inr m" and "pm = m\<lparr>ppm_accounts := accounts\<rparr>"
    and "settlement_recipients_from_entitlements (ppm_onchain_entitlements m) = Inr rs"
    and "select_settlement_mode_with_pinned_direct X rs floor config (pinned_settlement_recipient_for_policy m) = Inr d"
    and "\<forall>r \<in> set rs. lower_program (sr_p2mr_program_hex r)"
    and "mset (sd_direct_recipients d @ concat (map (snd \<circ> fanout_evidence) ps)) = mset rs"
    and "sum_list (ent_weights (map prepared_entitlement ps)) = sum_list (sr_amounts (fanout_recipients_of d))"
proof -
  from derived obtain m rs accounts where m: "apply_payout_policy rm bs policy = Inr m" and pm: "pm = m\<lparr>ppm_accounts := accounts\<rparr>"
    and rs: "settlement_recipients_from_entitlements (ppm_onchain_entitlements m) = Inr rs"
    and sel: "select_settlement_mode_with_pinned_direct X rs floor config (pinned_settlement_recipient_for_policy m) = Inr d"
    and fp: "case fp of None \<Rightarrow> pm = m \<and> fees = Map.empty | Some p \<Rightarrow> apply_ctv_fanout_fee_accounting X m d p = Inr (pm, fees)"
    by (rule derived_settlement)
  note low = recipients_lower [OF rs, of accounts, folded pm, OF lower]
  note parts = selection_of_lower [OF hex sel low]
  have all: "lower_program (sr_p2mr_program_hex r) \<and> sr_amount_sats r \<noteq> 0" if "r \<in> set (fanout_recipients_of d)" for r
    using that low parts(3) arg_cong [OF parts(1), of set_mset] by auto
  have chunk: "mset (snd (fanout_evidence (ps ! i))) = mset (fc_recipients (sd_fanout_chunks d ! i)) \<and>
      unat (pf_covenant_output_value_sats (ps ! i)) = sum_list (sr_amounts (fc_recipients (sd_fanout_chunks d ! i)))"
    if i: "i < length (sd_fanout_chunks d)" for i
  proof -
    let ?c = "sd_fanout_chunks d ! i"
    have "prepare_chunk X rm d charged rh ph ?c = Inr (ps ! i)"
      using prep i by (auto simp: try_map_Inr list_all2_conv_all_nth)
    moreover have "lower_program (sr_p2mr_program_hex r) \<and> fees_agree charged r" if "r \<in> set (fc_recipients ?c)" for r
    proof -
      have "r \<in> set (fanout_recipients_of d)"
        using that i by (auto intro!: bexI [of _ ?c])
      then show ?thesis
        using all agree by blast
    qed
    ultimately show ?thesis
      using chunk_covered [OF hex, of rm d charged rh ph ?c "ps ! i"] by (simp add: fanout_evidence_def)
  qed
  have len: "length ps = length (sd_fanout_chunks d)"
    using prep by (auto simp: try_map_Inr dest: list_all2_lengthD)
  have "map (mset \<circ> snd \<circ> fanout_evidence) ps = map (mset \<circ> fc_recipients) (sd_fanout_chunks d)"
    using len chunk by (intro nth_equalityI) simp_all
  then have "mset (concat (map (snd \<circ> fanout_evidence) ps)) = mset (fanout_recipients_of d)"
    by (simp add: mset_concat comp_assoc)
  then have cover: "mset (sd_direct_recipients d @ concat (map (snd \<circ> fanout_evidence) ps)) = mset rs"
    using parts(1) by simp
  have "ent_weights (map prepared_entitlement ps) = map (\<lambda>c. sum_list (sr_amounts (fc_recipients c))) (sd_fanout_chunks d)"
    using len chunk by (intro nth_equalityI) (simp_all add: prepared_entitlement_def)
  also have "sum_list \<dots> = sum_list (sr_amounts (fanout_recipients_of d))"
    by (rule chunk_sums)
  finally have "sum_list (ent_weights (map prepared_entitlement ps)) = sum_list (sr_amounts (fanout_recipients_of d))" .
  with m pm rs sel cover show ?thesis
    using low by (intro that) simp_all
qed

lemma settlement_verifies:
  assumes hex: "hex_spec X" "hex_format_spec X" "sha256_spec X"
    and derived: "derive_settlement X rm bs policy floor config fp = Inr (pm, d, fees)"
    and prep: "try_map (prepare_chunk X rm d charged rh ph) (sd_fanout_chunks d) = Inr ps"
    and agree: "\<And>r. r \<in> set (fanout_recipients_of d) \<Longrightarrow> fees_agree charged r"
    and lower: "\<And>e. e \<in> set (ppm_onchain_entitlements pm) \<Longrightarrow> lower_program (ent_p2mr_program_hex e)"
    and es: "ctv_settlement_coinbase_entitlements d ps = Inr es"
    and cm: "build_manifest X (coinbase_request_of rm es root leaves sfx pm) = Inr cm"
    and money: "rm_coinbase_value_sats rm \<le> QBIT_MAX_MONEY_SATS"
    and fin: "finalize_fanouts X cm ps = Inr s"
    and listed: "set (map pf_commitment_witness_leaf_hex ps) \<subseteq> set all_leaves"
  shows "verify_coinbase_output_policy pm (Some d) cm = Inr ()"
    and "verify_ctv_settlement_bundle X d s pm cm all_leaves = Inr es"
    and "(case s of None \<Rightarrow> [] | Some ms \<Rightarrow> map cm_commitment_witness_leaf_hex (cms_manifests ms)) =
      map pf_commitment_witness_leaf_hex ps"
proof -
  obtain m rs accounts where m: "apply_payout_policy rm bs policy = Inr m"
    and pm: "pm = m\<lparr>ppm_accounts := accounts\<rparr>"
    and rs: "settlement_recipients_from_entitlements (ppm_onchain_entitlements m) = Inr rs"
    and sel: "select_settlement_mode_with_pinned_direct X rs floor config (pinned_settlement_recipient_for_policy m) = Inr d"
    and low: "\<forall>r \<in> set rs. lower_program (sr_p2mr_program_hex r)"
    and cover: "mset (sd_direct_recipients d @ concat (map (snd \<circ> fanout_evidence) ps)) = mset rs"
    and covs: "sum_list (ent_weights (map prepared_entitlement ps)) = sum_list (sr_amounts (fanout_recipients_of d))"
    by (rule settled_coverage [OF hex(1) derived prep agree lower])
  note parts = selection_of_lower [OF hex(1) sel low [rule_format]]
  have es': "es = map direct_entitlement (sd_direct_recipients d) @ map prepared_entitlement ps"
    using es by (simp add: settlement_entitlements_Inr)
  show "verify_coinbase_output_policy pm (Some d) cm = Inr ()"
    using settlement_policy_output [OF hex(1) m rs sel low [rule_format] covs] cm unfolding es' pm by blast
  have "req_coinbase_value_sats (coinbase_request_of rm es root leaves sfx pm) \<le> QBIT_MAX_MONEY_SATS"
    using money by (simp add: coinbase_request_of_def)
  note fan = fanout_set_verifies [OF hex prep parts(4-6) cm this fin listed]
  show "(case s of None \<Rightarrow> [] | Some ms \<Rightarrow> map cm_commitment_witness_leaf_hex (cms_manifests ms)) =
      map pf_commitment_witness_leaf_hex ps"
    by (rule fan(2))
  have "sort_by settlement_recipient_cmp (sd_direct_recipients d @ concat (map (snd \<circ> fanout_evidence) ps)) =
      sort_by settlement_recipient_cmp rs"
    using cover by (simp only: coverage_iff)
  then show "verify_ctv_settlement_bundle X d s pm cm all_leaves = Inr es"
    using rs by (simp add: verify_ctv_settlement_bundle_def fan(1) pm es' Let_def fanout_evidence_def comp_def)
qed

lemma assembled_bundle_ok:
  assumes specs: "hex_spec X" "hex_format_spec X" "sha256_spec X" "ed25519_spec X" "json_spec X"
      "length coinbase_key = 32" "length ledger_key = 32"
    and rm: "build_prism_reward_manifest_with_cut X shares fb wcut = Inr rm"
    and att: "build_ledger_window_attestation X rm bs ledger_key = Inr att"
    and derived: "derive_settlement X rm bs policy floor config fp = Inr (pm, d, fees)"
    and hashes: "reward_manifest_sha256 X rm (parallelism_new workers chunk_len) = Inr rh" "policy_manifest_sha256 X pm = Inr ph"
    and built: "assemble_settlement X shares fb bs policy fp sfx leaves coinbase_key rm att pm d charged rh ph = Inr body"
    and agree: "\<And>r. r \<in> set (fanout_recipients_of d) \<Longrightarrow> fees_agree charged r"
    and bytes: "canonical_audit_bundle_bytes_from_parts X body shares = Inr bytes"
    and key: "eq_ignore_ascii_case (public_key_hex X ledger_key) writer_key"
    and money: "fb_coinbase_value_sats fb \<le> QBIT_MAX_MONEY_SATS"
    and lower: "\<And>e. e \<in> set (ppm_onchain_entitlements pm) \<Longrightarrow> lower_program (ent_p2mr_program_hex e)"
  shows "\<exists>report. verify_audit_view X (view_from_parts body shares) writer_key = Inr report \<and>
    avr_audit_bundle_sha256_hex report = sha256_hex X bytes \<and>
    avr_coinbase_tx_hex report = pm_coinbase_tx_hex (spm_manifest (ab_signed_coinbase_manifest body)) \<and>
    avr_coinbase_txid report = pm_coinbase_txid (spm_manifest (ab_signed_coinbase_manifest body)) \<and>
    avr_coinbase_value_sats report = fb_coinbase_value_sats fb \<and> avr_block_height report = fb_block_height fb"
proof -
  from built obtain ps root es spm s
    where prep: "try_map (prepare_chunk X rm d charged (hex_encode X rh) (hex_encode X ph)) (sd_fanout_chunks d) = Inr ps"
      and root: "audit_commitment_root_hex X (commitment_leaf_hex X rh ph # map pf_commitment_witness_leaf_hex ps) = Inr root"
      and es: "ctv_settlement_coinbase_entitlements d ps = Inr es"
      and spm: "build_profiled_signed_manifest X (coinbase_request_of rm es root leaves sfx pm) coinbase_key = Inr spm"
      and fin: "finalize_fanouts X (spm_manifest spm) ps = Inr s"
      and body: "body = \<lparr>ab_schema = audit_bundle_schema_for_shares shares, ab_found_block = fb,
             ab_prior_balances = bs, ab_payout_policy = policy,
             ab_coinbase_script_sig_suffix_hex = sfx, ab_witness_merkle_leaves_hex = leaves,
             ab_audit_commitment_leaves_hex = commitment_leaf_hex X rh ph # map pf_commitment_witness_leaf_hex ps,
             ab_audit_commitment_root_hex = Some root, ab_ledger_window_attestation = att, ab_reward_manifest = rm,
             ab_payout_policy_manifest = pm, ab_settlement_mode_decision = Some d,
             ab_ctv_fanout_fee_policy = fp, ab_ctv_fanout_manifest_set = s, ab_signed_coinbase_manifest = spm\<rparr>"
    by (rule assembled_body)
  let ?b = "view_from_parts body shares" and ?leaf = "commitment_leaf_hex X rh ph"
  let ?leaves = "?leaf # map pf_commitment_witness_leaf_hex ps"
  have b: "ab_schema body = audit_bundle_schema_for_shares shares" "ab_found_block body = fb" "ab_prior_balances body = bs"
    "ab_payout_policy body = policy" "ab_coinbase_script_sig_suffix_hex body = sfx"
    "ab_witness_merkle_leaves_hex body = leaves" "ab_audit_commitment_leaves_hex body = ?leaves"
    "ab_audit_commitment_root_hex body = Some root" "ab_ledger_window_attestation body = att" "ab_reward_manifest body = rm"
    "ab_payout_policy_manifest body = pm" "ab_settlement_mode_decision body = Some d" "ab_ctv_fanout_fee_policy body = fp"
    "ab_ctv_fanout_manifest_set body = s" "ab_signed_coinbase_manifest body = spm"
    by (simp_all add: body)
  have ledger: "verify_ledger_window_attestation X ?b writer_key = Inr ()"
    by (rule attestation_verifies [OF specs(1,4,7), where shares = shares and wcut = wcut]) (simp_all add: b rm att key)
  note signed = signed_manifest_Inr [OF spm] and leaf = leaf_of_hashes [OF specs(5) hashes]
  have value_ok: "rm_coinbase_value_sats rm \<le> QBIT_MAX_MONEY_SATS"
    using money manifest_with_cut(3) [OF rm] by simp
  have listed: "set (map pf_commitment_witness_leaf_hex ps) \<subseteq> set ?leaves"
    by auto
  have settled: "verify_coinbase_output_policy pm (Some d) (spm_manifest spm) = Inr ()"
      "verify_ctv_settlement_bundle X d s pm (spm_manifest spm) ?leaves = Inr es"
      "(case s of None \<Rightarrow> [] | Some ms \<Rightarrow> map cm_commitment_witness_leaf_hex (cms_manifests ms)) =
        map pf_commitment_witness_leaf_hex ps"
    using settlement_verifies [OF specs(1-3) derived prep agree lower es signed(1) value_ok fin listed] by blast+
  have expected: "expected_policy_manifest X ?b rm = Inr pm"
    using derived by (auto simp: expected_policy_manifest_def derive_settlement_def b and_then_Inr split: option.splits)
  have "expected_settlement X ?b pm ?leaf = Inr (es, ?leaves)"
    by (simp add: expected_settlement_def b settled(2,3))
  then have view: "verify_audit_view X ?b writer_key = audit_verification_report X ?b (spm_manifest spm)"
    using settled(1) by (simp add: verify_audit_view_def b ledger signed specs manifest_with_cut(1) [OF rm] rm expected
        leaf(1) root)
  have "write_canonical X ?b = Inr bytes"
    using bytes by (simp add: canonical_audit_bundle_bytes_from_parts_def)
  with leaf(2,3) signed(2) root show ?thesis
    unfolding view using report_exists [of X ?b root "spm_manifest spm" bytes] by (auto simp: b)
qed

lemma settlement_bundle_ok:
  assumes specs: "hex_spec X" "hex_format_spec X" "sha256_spec X" "ed25519_spec X" "json_spec X"
      "length coinbase_key = 32" "length ledger_key = 32"
    and built: "build_audit_bundle_body_with_ctv_settlement_options_parallel X shares fb wcut bs policy floor config fp
      sfx leaves coinbase_key ledger_key (parallelism_new workers chunk_len) = Inr body"
    and bytes: "canonical_audit_bundle_bytes_from_parts X body shares = Inr bytes"
    and key: "eq_ignore_ascii_case (public_key_hex X ledger_key) writer_key"
    and money: "fb_coinbase_value_sats fb \<le> QBIT_MAX_MONEY_SATS"
    and lower: "\<And>e. e \<in> set (ppm_onchain_entitlements (ab_payout_policy_manifest body)) \<Longrightarrow>
      lower_program (ent_p2mr_program_hex e)"
  shows "\<exists>report. verify_audit_view X (view_from_parts body shares) writer_key = Inr report \<and>
    avr_audit_bundle_sha256_hex report = sha256_hex X bytes \<and>
    avr_coinbase_tx_hex report = pm_coinbase_tx_hex (spm_manifest (ab_signed_coinbase_manifest body)) \<and>
    avr_coinbase_txid report = pm_coinbase_txid (spm_manifest (ab_signed_coinbase_manifest body)) \<and>
    avr_coinbase_value_sats report = fb_coinbase_value_sats fb \<and> avr_block_height report = fb_block_height fb"
proof -
  from built obtain rm att pm d fees rh ph
    where parts: "build_prism_reward_manifest_with_cut X shares fb wcut = Inr rm"
        "build_ledger_window_attestation X rm bs ledger_key = Inr att"
      and derived: "derive_settlement X rm bs policy floor config fp = Inr (pm, d, fees)"
      and hashes: "reward_manifest_sha256 X rm (parallelism_new workers chunk_len) = Inr rh" "policy_manifest_sha256 X pm = Inr ph"
      and assembled: "assemble_settlement X shares fb bs policy fp sfx leaves coinbase_key rm att pm d fees rh ph = Inr body"
    by (rule builder_assembles)
  from assembled have "ab_payout_policy_manifest body = pm"
    by (rule assembled_body) simp
  then have low: "\<And>e. e \<in> set (ppm_onchain_entitlements pm) \<Longrightarrow> lower_program (ent_p2mr_program_hex e)"
    using lower by simp
  show ?thesis
    by (rule assembled_bundle_ok [OF specs parts derived hashes assembled derived_fees_agree [OF specs(1) derived low]
          bytes key money low])
qed

lemma assembled_fields:
  assumes "assemble_settlement X shares fb bs policy fp sfx leaves coinbase_key rm att pm d fees rh ph = Inr body"
  shows "ab_payout_policy_manifest body = pm" and "ab_settlement_mode_decision body = Some d"
  using assms by (rule assembled_body, simp)+

text \<open>
  A verified bundle covers programs in lower case only: the selection and the fanouts write
  them so, and the verifier compares them with the policy's own spelling.
\<close>

lemma lower_idem: "hex_decode X p = Inr bytes \<Longrightarrow> hex_spec X \<Longrightarrow> lower_program (hex_encode X bytes)"
  using hex_encode_decode [of X] hex_decode_encode [of X] by metis

lemma selected_lower:
  assumes hex: "hex_spec X" and sel: "select_settlement_mode_with_pinned_direct X rs floor config pinned = Inr d"
    and r: "r \<in> set (sd_direct_recipients d)"
  shows "lower_program (sr_p2mr_program_hex r)"
proof -
  obtain canonical key k where "selected_by X rs floor config pinned d canonical key k"
    using select_mode_Inr [OF sel] by blast
  from selected_parts(1) [OF this] obtain ns where ns: "normalize_recipient_p2mr_programs X rs = Inr ns"
    and "mset (sd_direct_recipients d) + mset (fanout_recipients_of d) = mset ns"
    by blast
  then have "r \<in> set ns"
    using r by (metis UnI1 set_mset_mset set_mset_union)
  then obtain q where "normalize_recipient X q = Inr r"
    using ns by (auto simp: normalize_recipient_p2mr_programs_def try_map_Inr list_all2_conv_all_nth in_set_conv_nth)
  then show ?thesis
    using lower_idem [OF _ hex] by (auto simp: normalize_recipient_def result_simps split: if_splits)
qed

lemma covered_lower:
  assumes hex: "hex_spec X" and "verify_fanout_set X d s cm leaves = Inr fanouts" and r: "r \<in> set (concat (map snd fanouts))"
  shows "lower_program (sr_p2mr_program_hex r)"
proof -
  have "sd_fanout_chunk_count d \<noteq> 0"
    using assms(2) r by (auto simp: verify_fanout_set_def split: if_splits)
  with assms(2) obtain ms :: ctv_fanout_manifest_set where "try_map (verify_set_manifest X cm leaves) (cms_manifests ms) = Inr fanouts"
    by (auto simp: verify_fanout_set_def and_then_Inr split: if_splits)
  with r obtain m where "r \<in> set (map covered_recipient (pc_outputs (cm_precommitment m)))"
    and m: "verify_ctv_fanout_manifest_structure X m = Inr ()"
    by (fastforce simp: try_map_Inr list_all2_conv_all_nth in_set_conv_nth verify_set_manifest_def and_then_Inr
        verify_ctv_fanout_manifest_commitment_leaf_def split: if_splits)
  then obtain i where i: "i < length (pc_outputs (cm_precommitment m))" "r = covered_recipient (pc_outputs (cm_precommitment m) ! i)"
    by (auto simp: in_set_conv_nth)
  have "verify_precommitment X (cm_precommitment m) = Inr ()"
    using m by (auto simp: verify_ctv_fanout_manifest_structure_def and_then_Inr dest: verify_manifest_fieldsD(1))
  from verify_precommitmentD(8) [OF this i(1)] show ?thesis
    using lower_idem [OF _ hex] by (auto simp: pays_program_def i(2) covered_recipient_def)
qed

lemma verified_settlement_lower:
  assumes hex: "hex_spec X" and derived: "derive_settlement X rm bs policy floor config fp = Inr (pm, d, fees)"
    and verified: "verify_ctv_settlement_bundle X d s pm cm leaves = Inr es"
    and e: "e \<in> set (ppm_onchain_entitlements pm)"
  shows "lower_program (ent_p2mr_program_hex e)"
proof -
  from derived obtain m rs accounts where pm: "pm = m\<lparr>ppm_accounts := accounts\<rparr>"
    and rs: "settlement_recipients_from_entitlements (ppm_onchain_entitlements m) = Inr rs"
    and sel: "select_settlement_mode_with_pinned_direct X rs floor config (pinned_settlement_recipient_for_policy m) = Inr d"
    by (rule derived_settlement)
  from verified obtain fanouts where fan: "verify_fanout_set X d s cm leaves = Inr fanouts"
    and "sort_by settlement_recipient_cmp (sd_direct_recipients d @ concat (map snd fanouts)) = sort_by settlement_recipient_cmp rs"
    by (auto simp: verify_ctv_settlement_bundle_def and_then_Inr Let_def pm rs split: if_splits)
  then have cover: "mset (sd_direct_recipients d @ concat (map snd fanouts)) = mset rs"
    by (simp only: coverage_iff)
  from e obtain r where r: "r \<in> set rs" "e = direct_entitlement r"
    by (auto simp: pm entitlements_of_recipients [OF rs, symmetric])
  then have "r \<in> set (sd_direct_recipients d @ concat (map snd fanouts))"
    using mset_eq_setD [OF cover] by simp
  then have "lower_program (sr_p2mr_program_hex r)"
    using selected_lower [OF hex sel] covered_lower [OF hex fan] by auto
  then show ?thesis
    by (simp add: r(2) direct_entitlement_def)
qed

lemma settlement_bundle_lower:
  assumes hex: "hex_spec X"
    and built: "build_audit_bundle_body_with_ctv_settlement_options_parallel X shares fb wcut bs policy floor config fp
      sfx leaves coinbase_key ledger_key (parallelism_new workers chunk_len) = Inr body"
    and verified: "verify_audit_view X (view_from_parts body shares) writer_key = Inr report"
    and e: "e \<in> set (ppm_onchain_entitlements (ab_payout_policy_manifest body))"
  shows "lower_program (ent_p2mr_program_hex e)"
proof -
  let ?b = "view_from_parts body shares"
  from built obtain rm att pm d fees rh ph where derived: "derive_settlement X rm bs policy floor config fp = Inr (pm, d, fees)"
    and "assemble_settlement X shares fb bs policy fp sfx leaves coinbase_key rm att pm d fees rh ph = Inr body"
    by (rule builder_assembles)
  note b = assembled_fields [OF this(2)]
  from verified obtain leaf es where "expected_settlement X ?b pm leaf = Inr es"
    unfolding verify_audit_view_def and_then_Inr if_split by (auto simp: and_then_Inr b split: if_splits prod.splits)
  then obtain es' where "verify_ctv_settlement_bundle X d (ab_ctv_fanout_manifest_set body) pm
      (spm_manifest (ab_signed_coinbase_manifest body)) (ab_audit_commitment_leaves_hex body) = Inr es'"
    by (auto simp: expected_settlement_def b and_then_Inr)
  from verified_settlement_lower [OF hex derived this] show ?thesis
    using e by (simp add: b)
qed

end
