(* ===== verification/Audit_Soundness.thy ===== *)
theory Audit_Soundness
  imports Audit_Complete
begin

text \<open>
  What a verified bundle means: which artifacts were rebuilt, what the coinbase pays, and how
  every on-chain entitlement of the payout policy is covered.
\<close>

section \<open>Coverage of the entitlements\<close>

definition bundle_manifests :: "audit_view \<Rightarrow> ctv_fanout_manifest list" where
  "bundle_manifests b = (case ab_ctv_fanout_manifest_set b of None \<Rightarrow> [] | Some ms \<Rightarrow> cms_manifests ms)"

text \<open>
  The coinbase entitlements of a bundle: the on-chain entitlements themselves, or the direct
  recipients and the covenants of the fanouts. The amounts the fanouts state for their
  recipients complete the direct recipients to the on-chain entitlements.
\<close>

definition fanout_recipients :: "ctv_fanout_manifest \<Rightarrow> settlement_recipient list" where
  "fanout_recipients m = map covered_recipient (pc_outputs (cm_precommitment m))"

definition bundle_covers :: "audit_view \<Rightarrow> weighted_entitlement list \<Rightarrow> bool" where
  "bundle_covers b es \<longleftrightarrow>
     (case ab_settlement_mode_decision b of
        None \<Rightarrow> es = ppm_onchain_entitlements (ab_payout_policy_manifest b)
      | Some d \<Rightarrow>
          es = map direct_entitlement (sd_direct_recipients d) @ map covenant_entitlement (bundle_manifests b) \<and>
          mset (map direct_entitlement (sd_direct_recipients d @ concat (map fanout_recipients (bundle_manifests b)))) =
            mset (ppm_onchain_entitlements (ab_payout_policy_manifest b)))"

text \<open>A fanout hangs off the bundle's coinbase, is sound, and its leaf is committed to.\<close>

definition fanout_attached :: "'x ctv_crates_scheme \<Rightarrow> audit_view \<Rightarrow> ctv_fanout_manifest \<Rightarrow> bool" where
  "fanout_attached X b m \<longleftrightarrow>
     verify_ctv_fanout_manifest_structure X m = Inr () \<and>
     cm_parent_coinbase_tx_hex m = pm_coinbase_tx_hex (spm_manifest (ab_signed_coinbase_manifest b)) \<and>
     list_ex (eq_ignore_ascii_case (cm_commitment_witness_leaf_hex m)) (ab_audit_commitment_leaves_hex b)"

lemma same_leaf: "eq_ignore_ascii_case a = (\<lambda>b. to_ascii_lowercase b = to_ascii_lowercase a)"
  by (auto simp: eq_ignore_ascii_case_def fun_eq_iff)

lemma set_manifest_Inr:
  "verify_set_manifest X cm leaves m = Inr p \<longleftrightarrow>
     cm_parent_coinbase_tx_hex m = pm_coinbase_tx_hex cm \<and> verify_ctv_fanout_manifest_structure X m = Inr () \<and>
     list_ex (eq_ignore_ascii_case (cm_commitment_witness_leaf_hex m)) leaves \<and>
     p = (covenant_entitlement m, fanout_recipients m)"
  by (auto simp: verify_set_manifest_def verify_ctv_fanout_manifest_commitment_leaf_def Let_def and_then_Inr
      same_leaf fanout_recipients_def)

lemma set_manifests_Inr:
  "try_map (verify_set_manifest X cm leaves) ms = Inr ps \<longleftrightarrow>
     (\<forall>m \<in> set ms. cm_parent_coinbase_tx_hex m = pm_coinbase_tx_hex cm \<and> verify_ctv_fanout_manifest_structure X m = Inr () \<and>
        list_ex (eq_ignore_ascii_case (cm_commitment_witness_leaf_hex m)) leaves) \<and>
     ps = map (\<lambda>m. (covenant_entitlement m, fanout_recipients m)) ms"
  by (induction ms arbitrary: ps) (auto simp: and_then_Inr set_manifest_Inr simp del: try_map_Inr)

lemma fanout_set_Inr:
  assumes "verify_fanout_set X d s cm leaves = Inr ps"
  defines "ms \<equiv> (case s of None \<Rightarrow> [] | Some s \<Rightarrow> cms_manifests s)"
  shows "ps = map (\<lambda>m. (covenant_entitlement m, fanout_recipients m)) ms"
    and "\<And>m. m \<in> set ms \<Longrightarrow> cm_parent_coinbase_tx_hex m = pm_coinbase_tx_hex cm \<and>
      verify_ctv_fanout_manifest_structure X m = Inr () \<and>
      list_ex (eq_ignore_ascii_case (cm_commitment_witness_leaf_hex m)) leaves"
    and "distinct (map cm_parent_coinbase_vout ms)" and "length ms = sd_fanout_chunk_count d"
  using assms set_sound
  by (fastforce simp: verify_fanout_set_def and_then_Inr ok_or_Inr set_manifests_Inr split: if_splits option.splits)+

lemma settlement_covers:
  assumes "verify_ctv_settlement_bundle X d s pm cm leaves = Inr es"
  defines "ms \<equiv> (case s of None \<Rightarrow> [] | Some s \<Rightarrow> cms_manifests s)"
  shows "es = map direct_entitlement (sd_direct_recipients d) @ map covenant_entitlement ms"
    and "mset (map direct_entitlement (sd_direct_recipients d @ concat (map fanout_recipients ms))) =
      mset (ppm_onchain_entitlements pm)"
    and "\<And>m. m \<in> set ms \<Longrightarrow> cm_parent_coinbase_tx_hex m = pm_coinbase_tx_hex cm \<and>
      verify_ctv_fanout_manifest_structure X m = Inr () \<and>
      list_ex (eq_ignore_ascii_case (cm_commitment_witness_leaf_hex m)) leaves"
    and "distinct (map cm_parent_coinbase_vout ms)"
proof -
  from assms(1) obtain ps rs where fan: "verify_fanout_set X d s cm leaves = Inr ps"
    and es: "es = map direct_entitlement (sd_direct_recipients d) @ map fst ps"
    and rs: "settlement_recipients_from_entitlements (ppm_onchain_entitlements pm) = Inr rs"
    and "sort_by settlement_recipient_cmp (sd_direct_recipients d @ concat (map snd ps)) = sort_by settlement_recipient_cmp rs"
    by (auto simp: verify_ctv_settlement_bundle_def and_then_Inr Let_def split: if_splits)
  then have cover: "mset (sd_direct_recipients d @ concat (map snd ps)) = mset rs"
    by (simp only: coverage_iff)
  note set = fanout_set_Inr [OF fan, folded ms_def]
  show "es = map direct_entitlement (sd_direct_recipients d) @ map covenant_entitlement ms"
    by (simp add: es set(1) comp_def)
  have "map snd ps = map fanout_recipients ms"
    by (simp add: set(1) comp_def)
  then show "mset (map direct_entitlement (sd_direct_recipients d @ concat (map fanout_recipients ms))) =
      mset (ppm_onchain_entitlements pm)"
    using arg_cong [OF cover, of "image_mset direct_entitlement"] entitlements_of_recipients [OF rs]
    by (metis mset_map)
qed (use fanout_set_Inr [of X d s cm leaves] assms in \<open>auto simp: verify_ctv_settlement_bundle_def and_then_Inr\<close>)

section \<open>What was rebuilt\<close>

definition committed_root :: "'x json_crates_scheme \<Rightarrow> audit_view \<Rightarrow> string \<Rightarrow> bool" where
  "committed_root X b root \<longleftrightarrow>
     (\<exists>leaf. prism_audit_commitment_leaf_hex X (ab_reward_manifest b) (ab_payout_policy_manifest b) = Inr leaf \<and>
        audit_commitment_root_hex X (leaf # (if ab_settlement_mode_decision b = None then []
          else map cm_commitment_witness_leaf_hex (bundle_manifests b))) = Inr root)"

lemma fee_accounting_manifest:
  "apply_ctv_fanout_fee_accounting X m d p = Inr (m', fees) \<Longrightarrow> \<exists>accounts. m' = m\<lparr>ppm_accounts := accounts\<rparr>"
  by (auto simp: apply_ctv_fanout_fee_accounting_def and_then_Inr)

lemma expected_policy:
  assumes "expected_policy_manifest X b rm = Inr pm"
  obtains m accounts where "apply_payout_policy rm (ab_prior_balances b) (ab_payout_policy b) = Inr m"
    and "pm = m\<lparr>ppm_accounts := accounts\<rparr>" and "ab_settlement_mode_decision b = None \<longrightarrow> pm = m"
proof -
  from assms obtain m where m: "apply_payout_policy rm (ab_prior_balances b) (ab_payout_policy b) = Inr m"
    and rest: "(case (ab_settlement_mode_decision b, ab_ctv_fanout_fee_policy b) of
       (Some decision, Some fee_policy) \<Rightarrow>
         and_then (apply_ctv_fanout_fee_accounting X m decision fee_policy) (\<lambda>(expected, _). Inr expected)
     | _ \<Rightarrow> Inr m) = Inr pm"
    unfolding expected_policy_manifest_def and_then_Inr by blast
  have same: "m = m\<lparr>ppm_accounts := ppm_accounts m\<rparr>"
    by simp
  show ?thesis
  proof (cases "ab_settlement_mode_decision b")
    case None
    then have "pm = m" using rest by simp
    then show ?thesis using that [of m "ppm_accounts m"] m same by simp
  next
    case (Some d)
    show ?thesis
    proof (cases "ab_ctv_fanout_fee_policy b")
      case None
      then have "pm = m" using rest Some by simp
      then show ?thesis using that [of m "ppm_accounts m"] m same by simp
    next
      case (Some p)
      then obtain fees where "apply_ctv_fanout_fee_accounting X m d p = Inr (pm, fees)"
        using rest \<open>ab_settlement_mode_decision b = Some d\<close> by (auto simp: and_then_Inr)
      then obtain accounts where "pm = m\<lparr>ppm_accounts := accounts\<rparr>"
        using fee_accounting_manifest by blast
      then show ?thesis
        using that m \<open>ab_settlement_mode_decision b = Some d\<close> by simp
    qed
  qed
qed

lemma verified_view:
  assumes "verify_audit_view X b writer = Inr report"
  obtains m accounts es root where "verify_ledger_window_attestation X b writer = Inr ()"
    and "verify_signed_manifest X (ab_signed_coinbase_manifest b) = Inr ()"
    and "build_prism_reward_manifest_with_cut X (ab_shares b) (ab_found_block b) (rm_cut (ab_reward_manifest b)) =
      Inr (ab_reward_manifest b)"
    and "apply_payout_policy (ab_reward_manifest b) (ab_prior_balances b) (ab_payout_policy b) = Inr m"
    and "ab_payout_policy_manifest b = m\<lparr>ppm_accounts := accounts\<rparr>"
    and "ab_settlement_mode_decision b = None \<Longrightarrow> ab_payout_policy_manifest b = m"
    and "bundle_covers b es" and "\<And>fanout. ab_settlement_mode_decision b \<noteq> None \<Longrightarrow>
      fanout \<in> set (bundle_manifests b) \<Longrightarrow> fanout_attached X b fanout"
    and "ab_settlement_mode_decision b \<noteq> None \<Longrightarrow> distinct (map cm_parent_coinbase_vout (bundle_manifests b))"
    and "committed_root X b root"
    and "build_manifest X (coinbase_request_of (ab_reward_manifest b) es root (ab_witness_merkle_leaves_hex b)
      (ab_coinbase_script_sig_suffix_hex b) (ab_payout_policy_manifest b)) =
      Inr (spm_manifest (ab_signed_coinbase_manifest b))"
    and "audit_verification_report X b (spm_manifest (ab_signed_coinbase_manifest b)) = Inr report"
proof -
  let ?rm = "ab_reward_manifest b" and ?pm = "ab_payout_policy_manifest b" and ?cm = "spm_manifest (ab_signed_coinbase_manifest b)"
  from assms obtain leaf es leaves root where
      facts: "verify_ledger_window_attestation X b writer = Inr ()"
        "verify_signed_manifest X (ab_signed_coinbase_manifest b) = Inr ()"
        "build_prism_reward_manifest_with_cut X (ab_shares b) (ab_found_block b) (rm_cut ?rm) = Inr ?rm"
      and policy: "expected_policy_manifest X b ?rm = Inr ?pm"
      and leaf: "prism_audit_commitment_leaf_hex X ?rm ?pm = Inr leaf"
      and settlement: "expected_settlement X b ?pm leaf = Inr (es, leaves)"
      and root: "audit_commitment_root_hex X leaves = Inr root"
      and cm: "build_manifest X (coinbase_request_of ?rm es root (ab_witness_merkle_leaves_hex b)
        (ab_coinbase_script_sig_suffix_hex b) ?pm) = Inr ?cm"
      and report: "audit_verification_report X b ?cm = Inr report"
    by (auto simp: verify_audit_view_def and_then_Inr map_err_Inr split: if_splits prod.splits)
  obtain m accounts where m: "apply_payout_policy ?rm (ab_prior_balances b) (ab_payout_policy b) = Inr m"
    and pm: "?pm = m\<lparr>ppm_accounts := accounts\<rparr>" "ab_settlement_mode_decision b = None \<longrightarrow> ?pm = m"
    by (rule expected_policy [OF policy])
  show ?thesis
  proof (cases "ab_settlement_mode_decision b")
    case None
    then have "es = ppm_onchain_entitlements ?pm" "leaves = [leaf]"
      using settlement by (auto simp: expected_settlement_def)
    then show ?thesis
      using facts m pm leaf root cm report None
      by (intro that [of m accounts es root]) (auto simp: bundle_covers_def committed_root_def)
  next
    case (Some d)
    then have es: "verify_ctv_settlement_bundle X d (ab_ctv_fanout_manifest_set b) ?pm ?cm (ab_audit_commitment_leaves_hex b) = Inr es"
      and leaves: "leaves = leaf # map cm_commitment_witness_leaf_hex (bundle_manifests b)"
      using settlement by (auto simp: expected_settlement_def and_then_Inr bundle_manifests_def split: option.splits)
    note covers = settlement_covers [OF es, folded bundle_manifests_def]
    show ?thesis
      using facts m pm leaf root cm report Some covers leaves
      by (intro that [of m accounts es root]) (auto simp: bundle_covers_def committed_root_def fanout_attached_def)
  qed
qed

section \<open>What was checked\<close>

text \<open>
  The contract of the verifier, in terms of what the bundle says rather than of the checks
  that establish it. A signature in hex is one of a good 32-byte key on the message.
\<close>

definition signature_holds :: "'x crates_scheme \<Rightarrow> manifest_signature \<Rightarrow> u8 list \<Rightarrow> bool" where
  "signature_holds X s message \<longleftrightarrow> sig_algorithm s = ''ed25519'' \<and>
     (\<exists>key signature. hex_decode X (sig_public_key_hex s) = Inr key \<and> length key = 32 \<and> ed_key_ok X key \<and>
        hex_decode X (sig_signature_hex s) = Inr signature \<and> length signature = 64 \<and>
        ed_verify X key message signature)"

text \<open>
  The attestation speaks of this block, of the counted shares \<open>ws\<close> of its window and of the
  prior balances, and the ledger writer signed it.
\<close>

definition window_attested :: "'x json_crates_scheme \<Rightarrow> audit_view \<Rightarrow> string \<Rightarrow> counted_share list \<Rightarrow> bool" where
  "window_attested X b writer ws \<longleftrightarrow>
     (let a = ab_ledger_window_attestation b; fb = ab_found_block b in
      lwa_schema a = ''qbit.prism.ledger-window-attestation.v1'' \<and>
      lwa_block_height a = fb_block_height fb \<and> lwa_coinbase_value_sats a = fb_coinbase_value_sats fb \<and>
      lwa_anchor_job_issued_at_ms a = fb_anchor_job_issued_at_ms fb \<and>
      lwa_network_difficulty a = fb_network_difficulty fb \<and>
      lwa_share_slice_digest_hex a = share_slice_digest_hex X ws \<and>
      lwa_prior_balances_digest_hex a = prior_balances_digest_hex X (ab_prior_balances b) \<and>
      eq_ignore_ascii_case (sig_public_key_hex (lwa_signature a)) writer \<and>
      (\<exists>message. canonical_ledger_window_attestation_bytes X a = Inr message \<and>
         signature_holds X (lwa_signature a) message))"

definition coinbase_signed :: "'x json_crates_scheme \<Rightarrow> signed_payout_manifest \<Rightarrow> bool" where
  "coinbase_signed X spm \<longleftrightarrow>
     (\<exists>message. manifest_json X (spm_manifest spm) = Inr message \<and> signature_holds X (spm_signature spm) message)"

text \<open>A committed pool-fee-first policy with a positive fee: the fee is output zero, and settled directly.\<close>

definition fee_output_first :: "audit_view \<Rightarrow> bool" where
  "fee_output_first b \<longleftrightarrow>
     (\<forall>fee. ppm_coinbase_output_policy (ab_payout_policy_manifest b) = PoolFeeFirst \<and>
        ppm_pool_fee (ab_payout_policy_manifest b) = Some fee \<and> 0 < pfm_amount_sats fee \<longrightarrow>
        (\<exists>out rest. pm_outputs (spm_manifest (ab_signed_coinbase_manifest b)) = out # rest \<and> po_vout out = 0 \<and>
           po_recipient_id out = pfm_recipient_id fee \<and> po_order_key out = pfm_order_key fee \<and>
           eq_ignore_ascii_case (po_p2mr_program_hex out) (pfm_p2mr_program_hex fee) \<and>
           po_amount_sats out = pfm_amount_sats fee) \<and>
        (\<forall>d. ab_settlement_mode_decision b = Some d \<longrightarrow>
           (\<exists>r \<in> set (sd_direct_recipients d). fee_recipient_matches fee r) \<and>
           (\<forall>chunk \<in> set (sd_fanout_chunks d). \<forall>r \<in> set (fc_recipients chunk). \<not> fee_recipient_matches fee r)))"

text \<open>
  The leaves a bundle must commit to: the tagged hash of its two manifests, then the leaf of
  each fanout. It lists exactly these, up to letter case, and claims their Merkle root.
\<close>

definition owed_leaves :: "'x json_crates_scheme \<Rightarrow> audit_view \<Rightarrow> string list \<Rightarrow> bool" where
  "owed_leaves X b leaves \<longleftrightarrow>
     (\<exists>reward policy. canonical_reward_manifest_bytes X (ab_reward_manifest b) = Inr reward \<and>
        canonical_payout_policy_manifest_bytes X (ab_payout_policy_manifest b) = Inr policy \<and>
        leaves = sha256_hex X (as_bytes PRISM_AUDIT_COMMITMENT_LEAF_TAG @ sha256_digest X reward @ sha256_digest X policy) #
          (if ab_settlement_mode_decision b = None then []
           else map cm_commitment_witness_leaf_hex (bundle_manifests b)))"

definition commits_to :: "'x json_crates_scheme \<Rightarrow> audit_view \<Rightarrow> string list \<Rightarrow> string \<Rightarrow> bool" where
  "commits_to X b leaves root \<longleftrightarrow>
     map to_ascii_lowercase (ab_audit_commitment_leaves_hex b) = map to_ascii_lowercase leaves \<and>
     (\<exists>hashes. list_all2 (\<lambda>leaf hash. hex_decode X leaf = Inr hash \<and> length hash = 32) leaves hashes \<and>
        root = hex_encode X (merkle_root X hashes)) \<and>
     (\<exists>claimed. ab_audit_commitment_root_hex b = Some claimed \<and> eq_ignore_ascii_case claimed root)"

text \<open>
  The fanouts of a settlement: as many as the decision has chunks, in their order, in its
  mode, each sound and hanging off its own output of this coinbase, with its leaf committed to.
\<close>

definition fanouts_attached :: "'x ctv_crates_scheme \<Rightarrow> audit_view \<Rightarrow> bool" where
  "fanouts_attached X b \<longleftrightarrow>
     (\<forall>d. ab_settlement_mode_decision b = Some d \<longrightarrow>
        length (bundle_manifests b) = sd_fanout_chunk_count d \<and>
        (sd_fanout_chunk_count d = 0 \<longrightarrow> ab_ctv_fanout_manifest_set b = None) \<and>
        distinct (map cm_parent_coinbase_vout (bundle_manifests b)) \<and>
        (\<forall>i < length (bundle_manifests b). let m = bundle_manifests b ! i in
           fanout_attached X b m \<and> unat (pc_chunk_index (cm_precommitment m)) = i \<and>
           pc_settlement_mode (cm_precommitment m) = sd_mode d \<and>
           cm_parent_coinbase_txid m = pm_coinbase_txid (spm_manifest (ab_signed_coinbase_manifest b))))"

lemma ed25519_holds:
  "verify_ed25519_message X (sig_public_key_hex s) message (sig_signature_hex s) = Inr () \<Longrightarrow>
   sig_algorithm s = ''ed25519'' \<Longrightarrow> signature_holds X s message"
  by (auto simp: verify_ed25519_message_def signature_holds_def and_then_Inr map_err_Inr split: if_splits)

lemma attestation_holds:
  assumes "verify_ledger_window_attestation X b writer = Inr ()"
    and "rm_share_slice_digest_hex (ab_reward_manifest b) = share_slice_digest_hex X ws"
  shows "window_attested X b writer ws"
  using assms by (auto simp: verify_ledger_window_attestation_def window_attested_def Let_def and_then_Inr map_err_Inr
      intro: ed25519_holds split: if_splits)

lemma coinbase_signature_holds: "verify_signed_manifest X spm = Inr () \<Longrightarrow> coinbase_signed X spm"
  by (auto simp: verify_signed_manifest_def coinbase_signed_def canonical_manifest_bytes_def and_then_Inr map_err_Inr
      intro: ed25519_holds split: if_splits)

lemma output_policy_cases:
  assumes "verify_coinbase_output_policy pm decision cm = Inr ()" and "pool_fee_first_output pm = Some fee"
  shows "\<exists>out rest. pm_outputs cm = out # rest \<and> po_vout out = 0 \<and>
      matches_pool_fee fee (po_recipient_id out) (po_order_key out) (po_p2mr_program_hex out) \<and>
      po_amount_sats out = pfm_amount_sats fee"
    and "decision = Some d \<Longrightarrow> list_ex (fee_recipient_matches fee) (sd_direct_recipients d) \<and>
      \<not> list_ex (\<lambda>chunk. list_ex (fee_recipient_matches fee) (fc_recipients chunk)) (sd_fanout_chunks d)"
proof -
  obtain out rest where outs: "pm_outputs cm = out # rest"
    using assms by (cases "pm_outputs cm") (simp_all add: verify_coinbase_output_policy_def)
  show "\<exists>out rest. pm_outputs cm = out # rest \<and> po_vout out = 0 \<and>
      matches_pool_fee fee (po_recipient_id out) (po_order_key out) (po_p2mr_program_hex out) \<and>
      po_amount_sats out = pfm_amount_sats fee"
    using assms outs by (simp add: verify_coinbase_output_policy_def split: if_splits)
  show "list_ex (fee_recipient_matches fee) (sd_direct_recipients d) \<and>
      \<not> list_ex (\<lambda>chunk. list_ex (fee_recipient_matches fee) (fc_recipients chunk)) (sd_fanout_chunks d)"
    if "decision = Some d"
    using assms outs that by (simp add: verify_coinbase_output_policy_def Let_def split: if_splits)
qed

lemma output_policy_holds:
  assumes "verify_coinbase_output_policy (ab_payout_policy_manifest b) (ab_settlement_mode_decision b)
    (spm_manifest (ab_signed_coinbase_manifest b)) = Inr ()"
  shows "fee_output_first b"
  unfolding fee_output_first_def
proof (intro allI impI, elim conjE, rule conjI)
  fix fee assume "ppm_coinbase_output_policy (ab_payout_policy_manifest b) = PoolFeeFirst"
    "ppm_pool_fee (ab_payout_policy_manifest b) = Some fee" "0 < pfm_amount_sats fee"
  then have fee: "pool_fee_first_output (ab_payout_policy_manifest b) = Some fee"
    by (simp add: pool_fee_first_output_def)
  note holds = output_policy_cases [OF assms fee]
  show "\<exists>out rest. pm_outputs (spm_manifest (ab_signed_coinbase_manifest b)) = out # rest \<and> po_vout out = 0 \<and>
      po_recipient_id out = pfm_recipient_id fee \<and> po_order_key out = pfm_order_key fee \<and>
      eq_ignore_ascii_case (po_p2mr_program_hex out) (pfm_p2mr_program_hex fee) \<and>
      po_amount_sats out = pfm_amount_sats fee"
    using holds(1) by (simp add: matches_pool_fee_def)
  show "\<forall>d. ab_settlement_mode_decision b = Some d \<longrightarrow>
      (\<exists>r \<in> set (sd_direct_recipients d). fee_recipient_matches fee r) \<and>
      (\<forall>chunk \<in> set (sd_fanout_chunks d). \<forall>r \<in> set (fc_recipients chunk). \<not> fee_recipient_matches fee r)"
    using holds(2) unfolding list_ex_iff by blast
qed

lemma hex_vec_eq_lower:
  "hex_vec_eq_ignore_ascii_case xs ys \<longleftrightarrow> map to_ascii_lowercase xs = map to_ascii_lowercase ys"
  by (auto simp: hex_vec_eq_ignore_ascii_case_def eq_ignore_ascii_case_def list_all_length list_eq_iff_nth_eq)

lemma commitment_root_leaves:
  assumes "audit_commitment_root_hex X leaves = Inr root"
  shows "\<exists>hashes. list_all2 (\<lambda>leaf hash. hex_decode X leaf = Inr hash \<and> length hash = 32) leaves hashes \<and>
    root = hex_encode X (merkle_root X hashes)"
proof -
  from assms obtain hashes where "try_map (parse_audit_commitment_leaf X) (List.enumerate 0 leaves) = Inr hashes"
    and root: "root = hex_encode X (merkle_root X hashes)"
    by (auto simp: audit_commitment_root_hex_def parse_audit_commitment_leaves_def and_then_Inr simp del: try_map_Inr split: if_splits)
  then have all: "list_all2 (\<lambda>p h. parse_audit_commitment_leaf X p = Inr h) (List.enumerate 0 leaves) hashes"
    by (simp add: result_simps)
  then have "list_all2 (\<lambda>leaf hash. hex_decode X leaf = Inr hash \<and> length hash = 32) leaves hashes"
    by (auto simp: list_all2_conv_all_nth nth_enumerate_eq parse_audit_commitment_leaf_def and_then_Inr map_err_Inr split: if_splits)
  with root show ?thesis
    by blast
qed

lemma fanout_set_positions:
  assumes "verify_fanout_set X d s cm leaves = Inr ps"
  defines "ms \<equiv> (case s of None \<Rightarrow> [] | Some s \<Rightarrow> cms_manifests s)"
  shows "sd_fanout_chunk_count d = 0 \<longrightarrow> s = None"
    and "i < length ms \<Longrightarrow> unat (pc_chunk_index (cm_precommitment (ms ! i))) = i \<and>
      pc_settlement_mode (cm_precommitment (ms ! i)) = sd_mode d \<and> cm_parent_coinbase_txid (ms ! i) = pm_coinbase_txid cm"
proof -
  show "sd_fanout_chunk_count d = 0 \<longrightarrow> s = None"
    using assms(1) by (auto simp: verify_fanout_set_def split: if_splits)
  assume i: "i < length ms"
  then obtain st where s: "s = Some st" "ms = cms_manifests st"
    by (cases s) (simp_all add: ms_def)
  with assms(1) have facts: "verify_ctv_fanout_manifest_set X st = Inr ()"
      "cms_parent_coinbase_txid st = pm_coinbase_txid cm" "cms_settlement_mode st = sd_mode d"
    by (auto simp: verify_fanout_set_def and_then_Inr split: if_splits)
  note sound = set_sound [OF facts(1)]
  have "i < unat (cms_fanout_count st)"
    using sound i s(2) by simp
  then have "i < 2 ^ 32"
    using unsigned_less [of "cms_fanout_count st", where ?'a = nat] by simp
  then have "unat (of_nat i :: u32) = i"
    by (simp add: unat_of_nat take_bit_nat_eq_self)
  moreover have "manifest_set_context st i (ms ! i) = Inr ()"
    using sound i s(2) by simp
  ultimately show "unat (pc_chunk_index (cm_precommitment (ms ! i))) = i \<and>
      pc_settlement_mode (cm_precommitment (ms ! i)) = sd_mode d \<and> cm_parent_coinbase_txid (ms ! i) = pm_coinbase_txid cm"
    using facts by (simp add: set_context_Inr)
qed

lemma settlement_attached:
  assumes "ab_settlement_mode_decision b = Some d"
    and "verify_ctv_settlement_bundle X d (ab_ctv_fanout_manifest_set b) pm
      (spm_manifest (ab_signed_coinbase_manifest b)) (ab_audit_commitment_leaves_hex b) = Inr es"
  shows "fanouts_attached X b"
proof -
  from assms(2) obtain ps where "verify_fanout_set X d (ab_ctv_fanout_manifest_set b)
      (spm_manifest (ab_signed_coinbase_manifest b)) (ab_audit_commitment_leaves_hex b) = Inr ps"
    by (auto simp: verify_ctv_settlement_bundle_def and_then_Inr)
  note set = fanout_set_Inr [OF this, folded bundle_manifests_def]
    and positions = fanout_set_positions [OF this, folded bundle_manifests_def]
  show ?thesis
    using assms(1) set(2-4) positions by (simp add: fanouts_attached_def fanout_attached_def Let_def)
qed

lemma policy_manifest_rebuilt:
  assumes "expected_policy_manifest X b rm = Inr pm"
  shows "\<exists>m. apply_payout_policy rm (ab_prior_balances b) (ab_payout_policy b) = Inr m \<and>
    (case (ab_settlement_mode_decision b, ab_ctv_fanout_fee_policy b) of
       (Some d, Some p) \<Rightarrow> \<exists>fees. apply_ctv_fanout_fee_accounting X m d p = Inr (pm, fees)
     | _ \<Rightarrow> pm = m)"
  using assms by (auto simp: expected_policy_manifest_def and_then_Inr split: option.splits)

lemma verified_checks:
  assumes "verify_audit_view X b writer = Inr report"
  obtains w m es leaves root where "ab_schema b = (if \<exists>s \<in> set (ab_shares b). sh_credit_policy s \<noteq> None
      then AUDIT_BUNDLE_SCHEMA_V1_1 else AUDIT_BUNDLE_SCHEMA_V1)"
    and "compute_prism_window_in_cut (ab_shares b) (ab_found_block b) (rm_cut (ab_reward_manifest b)) = Inr w"
    and "ab_reward_manifest b = manifest_of_window (ab_found_block b) (rm_cut (ab_reward_manifest b)) w
      (share_slice_digest_hex X (pw_shares w))"
    and "window_attested X b writer (pw_shares w)" and "coinbase_signed X (ab_signed_coinbase_manifest b)"
    and "apply_payout_policy (ab_reward_manifest b) (ab_prior_balances b) (ab_payout_policy b) = Inr m"
    and "case (ab_settlement_mode_decision b, ab_ctv_fanout_fee_policy b) of
       (Some d, Some p) \<Rightarrow> \<exists>fees. apply_ctv_fanout_fee_accounting X m d p = Inr (ab_payout_policy_manifest b, fees)
     | _ \<Rightarrow> ab_payout_policy_manifest b = m"
    and "fee_output_first b" and "fanouts_attached X b" and "bundle_covers b es"
    and "owed_leaves X b leaves" and "commits_to X b leaves root"
    and "build_manifest X (coinbase_request_of (ab_reward_manifest b) es root (ab_witness_merkle_leaves_hex b)
      (ab_coinbase_script_sig_suffix_hex b) (ab_payout_policy_manifest b)) =
      Inr (spm_manifest (ab_signed_coinbase_manifest b))"
    and "audit_verification_report X b (spm_manifest (ab_signed_coinbase_manifest b)) = Inr report"
proof -
  let ?rm = "ab_reward_manifest b" and ?pm = "ab_payout_policy_manifest b" and ?cm = "spm_manifest (ab_signed_coinbase_manifest b)"
  from assms obtain leaf es leaves root where
      schema: "ab_schema b = audit_bundle_schema_for_shares (ab_shares b)"
      and ledger: "verify_ledger_window_attestation X b writer = Inr ()"
      and signed: "verify_signed_manifest X (ab_signed_coinbase_manifest b) = Inr ()"
      and reward: "build_prism_reward_manifest_with_cut X (ab_shares b) (ab_found_block b) (rm_cut ?rm) = Inr ?rm"
      and policy: "expected_policy_manifest X b ?rm = Inr ?pm"
      and outputs: "verify_coinbase_output_policy ?pm (ab_settlement_mode_decision b) ?cm = Inr ()"
      and leaf: "prism_audit_commitment_leaf_hex X ?rm ?pm = Inr leaf"
      and settlement: "expected_settlement X b ?pm leaf = Inr (es, leaves)"
      and listed: "hex_vec_eq_ignore_ascii_case (ab_audit_commitment_leaves_hex b) leaves"
      and root: "audit_commitment_root_hex X leaves = Inr root"
      and claimed: "case ab_audit_commitment_root_hex b of None \<Rightarrow> False | Some r \<Rightarrow> eq_ignore_ascii_case r root"
      and cm: "build_manifest X (coinbase_request_of ?rm es root (ab_witness_merkle_leaves_hex b)
        (ab_coinbase_script_sig_suffix_hex b) ?pm) = Inr ?cm"
      and report: "audit_verification_report X b ?cm = Inr report"
    by (auto simp: verify_audit_view_def and_then_Inr map_err_Inr split: if_splits prod.splits)
  from reward obtain w where w: "compute_prism_window_in_cut (ab_shares b) (ab_found_block b) (rm_cut ?rm) = Inr w"
    and rm: "?rm = manifest_of_window (ab_found_block b) (rm_cut ?rm) w (share_slice_digest_hex X (pw_shares w))"
    by (auto simp: build_prism_reward_manifest_with_cut_def and_then_Inr)
  have "rm_share_slice_digest_hex ?rm = share_slice_digest_hex X (pw_shares w)"
    by (subst rm) (simp add: manifest_of_window_def)
  note attested = attestation_holds [OF ledger this]
  obtain m where m: "apply_payout_policy ?rm (ab_prior_balances b) (ab_payout_policy b) = Inr m"
    "case (ab_settlement_mode_decision b, ab_ctv_fanout_fee_policy b) of
       (Some d, Some p) \<Rightarrow> \<exists>fees. apply_ctv_fanout_fee_accounting X m d p = Inr (?pm, fees)
     | _ \<Rightarrow> ?pm = m"
    using policy_manifest_rebuilt [OF policy] by blast
  have leaves: "leaves = leaf # (if ab_settlement_mode_decision b = None then []
      else map cm_commitment_witness_leaf_hex (bundle_manifests b))"
    using settlement by (auto simp: expected_settlement_def and_then_Inr bundle_manifests_def split: option.splits)
  have "bundle_covers b es \<and> fanouts_attached X b"
  proof (cases "ab_settlement_mode_decision b")
    case None
    then show ?thesis
      using settlement by (simp add: expected_settlement_def bundle_covers_def fanouts_attached_def)
  next
    case (Some d)
    then have es: "verify_ctv_settlement_bundle X d (ab_ctv_fanout_manifest_set b) ?pm ?cm
        (ab_audit_commitment_leaves_hex b) = Inr es"
      using settlement by (auto simp: expected_settlement_def and_then_Inr)
    show ?thesis
      using settlement_attached [OF Some es] settlement_covers(1,2) [OF es, folded bundle_manifests_def] Some
      by (simp add: bundle_covers_def)
  qed
  then have covers: "bundle_covers b es" and attached: "fanouts_attached X b"
    by blast+
  have owed: "owed_leaves X b leaves"
    using leaf by (auto simp: owed_leaves_def leaves prism_audit_commitment_leaf_hex_def commitment_leaf_hex_def
        and_then_Inr map_err_Inr)
  have commits: "commits_to X b leaves root"
    using listed claimed commitment_root_leaves [OF root]
    by (auto simp: commits_to_def hex_vec_eq_lower split: option.splits)
  have fits: "ab_schema b = (if \<exists>s \<in> set (ab_shares b). sh_credit_policy s \<noteq> None
      then AUDIT_BUNDLE_SCHEMA_V1_1 else AUDIT_BUNDLE_SCHEMA_V1)"
    using schema by (simp add: audit_bundle_schema_for_shares_def list_ex_iff)
  show ?thesis
    by (rule that [OF fits w rm attested coinbase_signature_holds [OF signed] m output_policy_holds [OF outputs]
          attached covers owed commits cm report])
qed

text \<open>
  The coinbase of the bundle carries the committed root: its witness nonce is the Merkle root of
  the leaves.
\<close>

lemma nonce_is_root:
  assumes "hex_spec X" and "commits_to X b leaves root"
    and "build_manifest X (coinbase_request_of rm es root wleaves sfx pm) = Inr cm"
  shows "pm_witness_nonce_hex cm = root"
proof -
  obtain hashes where root: "root = hex_encode X (merkle_root X hashes)"
    using assms(2) by (auto simp: commits_to_def)
  have "hex_decode X root = Inr (merkle_root X hashes)"
    using assms(1) by (simp add: root hex_spec_def)
  then show ?thesis
    using assms(3) by (auto simp: build_manifest_def and_then_Inr Let_def witness_nonce_def coinbase_request_of_def root
        split: if_splits)
qed

section \<open>What the coinbase pays\<close>

text \<open>
  The code does not relate the amount a fanout states for its recipient to what the fanout pays
  it and keeps as a fee; where the two agree, the coinbase pays every entitlement in full.
\<close>

definition fanout_balanced :: "ctv_fanout_manifest \<Rightarrow> bool" where
  "fanout_balanced m \<longleftrightarrow> (\<forall>out \<in> set (pc_outputs (cm_precommitment m)).
     unat (sr_amount_sats (covered_recipient out)) = unat (co_amount_sats out) + unat (co_fee_sats out))"

lemma balanced_value:
  assumes "verify_ctv_fanout_manifest_structure X m = Inr ()" and "fanout_balanced m"
  shows "unat (ent_weight (covenant_entitlement m)) = sum_list (sr_amounts (fanout_recipients m))"
proof -
  from assms(1) have fields: "verify_manifest_fields X m = Inr ()" and parent: "verify_manifest_parent X m = Inr ()"
    by (auto simp: verify_ctv_fanout_manifest_structure_def and_then_Inr)
  let ?outs = "pc_outputs (cm_precommitment m)"
  have "cm_covenant_output_value_sats m = pc_covenant_output_value_sats (cm_precommitment m)"
    using verify_manifest_parentD [OF parent] by (auto simp: Let_def)
  then have "unat (cm_covenant_output_value_sats m) = outputs_sum ?outs + fees_sum ?outs"
    using verify_precommitmentD(5) [OF verify_manifest_fieldsD(1) [OF fields]] by simp
  also have "\<dots> = sum_list (map (\<lambda>out. unat (co_amount_sats out) + unat (co_fee_sats out)) ?outs)"
    by (simp only: sum_list_addf comp_def outputs_sum_def fees_sum_def)
  also have "\<dots> = sum_list (sr_amounts (fanout_recipients m))"
    using assms(2) unfolding fanout_recipients_def map_map
    by (intro arg_cong [where f = sum_list] map_cong) (simp_all add: fanout_balanced_def)
  finally show ?thesis
    by (simp add: covenant_entitlement_def Let_def)
qed

lemma balanced_weights:
  assumes "bundle_covers b es" and "ab_settlement_mode_decision b \<noteq> None \<Longrightarrow>
      \<forall>m \<in> set (bundle_manifests b). fanout_attached X b m \<and> fanout_balanced m"
  shows "sum_list (ent_weights es) = sum_list (ent_weights (ppm_onchain_entitlements (ab_payout_policy_manifest b)))"
proof (cases "ab_settlement_mode_decision b")
  case None
  then show ?thesis using assms(1) by (simp add: bundle_covers_def)
next
  case (Some d)
  let ?ms = "bundle_manifests b" and ?dir = "sd_direct_recipients d"
  from Some assms(1) have es: "es = map direct_entitlement ?dir @ map covenant_entitlement ?ms"
    and cover: "mset (map direct_entitlement (?dir @ concat (map fanout_recipients ?ms))) =
      mset (ppm_onchain_entitlements (ab_payout_policy_manifest b))"
    by (simp_all add: bundle_covers_def)
  have "map (unat \<circ> ent_weight \<circ> covenant_entitlement) ?ms = map (\<lambda>m. sum_list (sr_amounts (fanout_recipients m))) ?ms"
    using assms(2) Some balanced_value by (intro map_cong) (auto simp: fanout_attached_def)
  then have "sum_list (ent_weights (map covenant_entitlement ?ms)) = sum_list (sr_amounts (concat (map fanout_recipients ?ms)))"
    using chunk_sums [of fanout_recipients ?ms] by (simp only: map_map)
  then have "sum_list (ent_weights es) = sum_list (ent_weights (map direct_entitlement (?dir @ concat (map fanout_recipients ?ms))))"
    by (simp add: es direct_entitlement_def comp_def)
  also have "\<dots> = sum_list (ent_weights (ppm_onchain_entitlements (ab_payout_policy_manifest b)))"
    by (rule sum_list_mset_eq [OF cover])
  finally show ?thesis .
qed

text \<open>Who is paid what, as the coinbase manifest lists it and as an entitlement states it.\<close>

definition listed_payment :: "payout_output \<Rightarrow> string \<times> string \<times> string \<times> nat" where
  "listed_payment out = (po_recipient_id out, po_order_key out, po_p2mr_program_hex out, unat (po_amount_sats out))"

definition entitled_payment :: "weighted_entitlement \<Rightarrow> string \<times> string \<times> string \<times> nat" where
  "entitled_payment e =
     (ent_recipient_id e, ent_order_key e, to_ascii_lowercase (ent_p2mr_program_hex e), unat (ent_weight e))"

lemma manifest_pays:
  assumes hex: "hex_spec X" and cm: "build_manifest X r = Inr cm"
    and total: "sum_list (ent_weights (req_entitlements r)) = unat (req_coinbase_value_sats r)"
  shows "mset (map listed_payment (pm_outputs cm)) = mset (map entitled_payment (req_entitlements r))"
    and "sum_list (map (unat \<circ> po_amount_sats) (pm_outputs cm)) = unat (req_coinbase_value_sats r)"
proof -
  obtain outs where outs: "allocate_outputs X r = Inr outs"
    and pm: "pm_outputs cm = map (payout_output_of X) (List.enumerate 0 outs)"
    by (rule manifest_outputs [OF cm])
  obtain es where es: "ordered_entitlements r = Inr es"
    using allocated_exactly [OF outs total] by blast
  have paid: "map paid_output outs = map (owed_weight X) es"
    by (rule paid_as_ordered [OF outs es total])
  then have len: "length outs = length es"
    by (metis length_map)
  have "listed_payment (payout_output_of X (i, outs ! i)) = entitled_payment (es ! i)" if i: "i < length es" for i
  proof -
    have "paid_output (outs ! i) = owed_weight X (es ! i)"
      using arg_cong [OF paid, of "\<lambda>xs. xs ! i"] i len by simp
    then have out: "out_recipient_id (outs ! i) = ent_recipient_id (es ! i)" "out_order_key (outs ! i) = ent_order_key (es ! i)"
        "unat (out_amount_sats (outs ! i)) = unat (ent_weight (es ! i))"
        "parse_p2mr_program X (es ! i) = Inr (out_p2mr_program (outs ! i))"
      by (simp_all add: paid_output_def owed_weight_def)
    then have "hex_encode X (out_p2mr_program (outs ! i)) = to_ascii_lowercase (ent_p2mr_program_hex (es ! i))"
      using hex_encode_decode [OF hex] by (auto simp: parse_p2mr_program_def result_simps split: if_splits)
    then show ?thesis
      using out(1-3) by (simp add: listed_payment_def entitled_payment_def payout_output_of_def)
  qed
  then have listed: "map listed_payment (pm_outputs cm) = map entitled_payment es"
    using len unfolding pm by (intro nth_equalityI) (simp_all add: nth_enumerate_eq)
  then show "mset (map listed_payment (pm_outputs cm)) = mset (map entitled_payment (req_entitlements r))"
    using mset_ordered_entitlements [OF es] by (metis mset_map)
  have "map (unat \<circ> po_amount_sats) (pm_outputs cm) = ent_weights es"
    using arg_cong [OF listed, of "map (\<lambda>(_, _, _, v). v)"] by (simp add: listed_payment_def entitled_payment_def comp_def)
  then show "sum_list (map (unat \<circ> po_amount_sats) (pm_outputs cm)) = unat (req_coinbase_value_sats r)"
    using total sum_list_mset_eq [OF mset_ordered_entitlements [OF es]] by metis
qed

end
