(* ===== verification/Audit_Sample.thy ===== *)
theory Audit_Sample
  imports Audit_Soundness
begin

text \<open>
  A concrete audit for the witnesses: one miner owns the window of a block of 100 satoshis and is
  paid by the coinbase itself or by one fanout.
\<close>

section \<open>Crates\<close>

definition sample_array :: "('a \<Rightarrow> u8 list) \<Rightarrow> 'a list \<Rightarrow> string + u8 list" where
  "sample_array f xs = Inr (0x5b # json_join (map f xs) @ [0x5d])"

definition sample_json :: json_crates where
  "sample_json = \<lparr>
     hex_encode = sample_hex_encode, hex_decode = sample_hex_decode, sha256_digest = sample_digest,
     ed_public_key = sample_digest, ed_sign = (\<lambda>seed msg. sample_digest seed @ sample_digest msg),
     ed_key_ok = (\<lambda>key. True), ed_verify = (\<lambda>key msg sig. sig = key @ sample_digest msg),
     manifest_json = (\<lambda>m. Inr (as_bytes (pm_coinbase_tx_hex m))),
     precommitment_json = (\<lambda>pc. Inr (as_bytes (pc_fanout_tx_template_hex pc))),
     manifest_set_json = (\<lambda>ms. Inr (as_bytes (cms_parent_coinbase_txid ms))),
     json_object = (\<lambda>kvs. 0x7b # json_join (map (\<lambda>(k, v). as_bytes (quoted k) @ 0x3a # v) kvs) @ [0x7d]),
     json_str = (\<lambda>s. Inr (as_bytes (quoted s))), json_u64 = (\<lambda>v. Inr (as_bytes (show_nat (unat v)))),
     json_u128 = (\<lambda>v. Inr (as_bytes (show_nat (unat v)))), json_i64 = (\<lambda>v. Inr (as_bytes (show_nat (unat v)))),
     json_usize = (\<lambda>v. Inr (as_bytes (show_nat v))), json_strings = (sample_array (as_bytes \<circ> quoted)),
     json_window_cut = (\<lambda>v. Inr []), json_accepted_share = (\<lambda>s. Inr (as_bytes (quoted (sh_share_id s)))),
     json_accepted_shares = (sample_array (\<lambda>s. as_bytes (quoted (sh_share_id s)))),
     json_counted_share = (\<lambda>s. Inr (as_bytes (quoted (cs_share_id s)))),
     json_counted_shares = (sample_array (\<lambda>s. as_bytes (quoted (cs_share_id s)))),
     json_entitlements = (sample_array (\<lambda>e. as_bytes (quoted (ent_recipient_id e)))),
     json_found_block = (\<lambda>fb. Inr (as_bytes (show_nat (unat (fb_block_height fb))))),
     json_balances = (sample_array (\<lambda>b. as_bytes (quoted (cb_recipient_id b)))),
     json_payout_policy = (\<lambda>p. Inr []), json_attestation = (\<lambda>a. Inr (as_bytes (lwa_schema a))),
     json_policy_manifest = (\<lambda>m. Inr (as_bytes (ppm_schema m))), json_decision = (\<lambda>d. Inr []),
     json_fee_policy = (\<lambda>p. Inr []), json_signed_manifest = (\<lambda>m. Inr [])\<rparr>"

lemma sample_array_eq: "sample_array f xs = and_then (try_map (\<lambda>x. Inr (f x)) xs) (\<lambda>bs. Inr (0x5b # json_join bs @ [0x5d]))"
proof -
  have "try_map (\<lambda>x. Inr (f x)) xs = (Inr (map f xs) :: string + u8 list list)"
    by (induction xs) simp_all
  then show ?thesis
    by (simp add: sample_array_def)
qed

lemma sample_json_specs: "hex_spec sample_json" "hex_format_spec sample_json" "sha256_spec sample_json"
    "ed25519_spec sample_json" "json_spec sample_json"
proof -
  show "hex_spec sample_json"
    using sample_hex_spec by (simp add: hex_spec_def sample_crates_def sample_json_def)
  show "hex_format_spec sample_json"
    by (simp add: hex_format_spec_def sample_json_def sample_hex_encode_def)
  show "sha256_spec sample_json"
    using sample_sha256_spec by (simp add: sha256_spec_def sample_crates_def sample_json_def)
  show "ed25519_spec sample_json"
    using sample_ed25519_spec by (simp add: ed25519_spec_def sample_crates_def sample_json_def)
  have "json_member sample_json = (\<lambda>(k, v). as_bytes (quoted k) @ 0x3a # v)"
    by (auto simp: json_member_def sample_json_def)
  then show "json_spec sample_json"
    by (simp add: json_spec_def) (simp add: sample_json_def sample_array_eq)
qed

section \<open>The window and the policy\<close>

definition sample_work :: accepted_share where
  "sample_work = (sample_share 1 ''a'' 8)\<lparr>sh_order_key := ''1'', sh_p2mr_program_hex := sample_program 1\<rparr>"

definition sample_window_manifest :: prism_reward_manifest where
  "sample_window_manifest = manifest_of_window sample_block None (window_of sample_block 8 [sample_work])
     (share_slice_digest_hex sample_json [count_share sample_work 8])"

lemma sample_window_counted: "pw_shares (window_of sample_block 8 [sample_work]) = [count_share sample_work 8]"
  by (simp add: window_of_def Let_def sample_work_def sample_share_def)

lemma sample_window_built:
  "build_prism_reward_manifest_with_cut sample_json [sample_work] sample_block None = Inr sample_window_manifest"
proof -
  have "eligible [sample_work] sample_block = [sample_work]"
    by (simp add: eligible_def sample_work_def sample_share_def sample_block_def on_time_def)
  moreover have "eligible_window [sample_work] sample_block None = Inr ([sample_work], 8)"
    unfolding eligible_window_Inr calculation
    by (simp add: sample_work_def sample_share_def sample_block_def in_limit_def show_nat.simps)
  ultimately have "compute_prism_window_in_cut [sample_work] sample_block None = Inr (window_of sample_block 8 [sample_work])"
    unfolding compute_window_Inr by auto
  then show ?thesis
    by (simp add: build_prism_reward_manifest_with_cut_def sample_window_manifest_def sample_window_counted)
qed

lemma sample_window_entitlements: "rm_entitlements sample_window_manifest = [sample_weighted ''a'' ''1'' 1 8]"
  by (simp add: sample_window_manifest_def manifest_of_window_def window_of_def Let_def sample_work_def sample_share_def
      entitlement_of_def grouped_weights_def sample_weighted_def add_weight_def cs_key_def count_share_def
      checked_add_def bt_entries_def sum_step_def)

definition plain_policy :: payout_policy where
  "plain_policy = day_one_default\<lparr>pp_min_output_sats := Some 10\<rparr>"

lemma plain_reward: "rm_coinbase_value_sats sample_window_manifest = 100"
  by (simp add: sample_window_manifest_def manifest_of_window_def sample_block_def)

lemma plain_miner_reward: "miner_reward_of sample_window_manifest plain_policy = Inr (10, None, 100)"
  by (simp add: miner_reward_of_def plain_policy_def policy_min_output_sats_def pool_fee_manifest_of_def plain_reward
      day_one_default_def Let_def checked_sub_def)

lemma plain_aggregated: "aggregate_entitlements_by_payout_program (rm_entitlements sample_window_manifest) =
   Inr [sample_weighted ''a'' ''1'' 1 8]"
  by (simp add: aggregate_entitlements_by_payout_program_def entitlements_by_program_def sample_window_entitlements
     sample_weighted_def merge_entitlement_def checked_add_def bt_values_def bt_entries_def)

lemma plain_gross: "allocate_weighted_amounts 100 [sample_weighted ''a'' ''1'' 1 w] =
   Inr [(sample_weighted ''a'' ''1'' 1 w, 100)]" if "w = 8 \<or> w = 100"
  using that by (auto simp: allocate_weighted_amounts_def compare_entitlements_def cmp_def sample_weighted_def weighted_share_def
   checked_sum_def checked_add_def checked_mul_def checked_sub_def u128_from_u64_def u64_try_from_u128_def Let_def)

lemma plain_started: "start_accounts sample_window_manifest [] 100 =
   Inr ([sample_account ''a'' ''1'' 1 100 0], {sample_program 1})"
  unfolding start_accounts_def plain_aggregated and_then.simps plain_gross [OF disjI1 [OF refl]]
  by (simp add: carry_forward_by_payout_program_def merge_balance_def
   i128_checked_add_def bt_values_def bt_entries_def seed_of_gross_def sample_weighted_def account_of_seed_def Let_def
   i128_from_u64_def sample_account_def insert_commute)

lemma plain_payable: "eligible_onchain_accounts [sample_account ''a'' ''1'' 1 100 0] 10 = [0]"
  by (simp add: eligible_onchain_accounts_def sample_account_def sint_i128 i128_from_u64_def)

lemma plain_selected: "select_onchain_accounts [sample_account ''a'' ''1'' 1 100 0] 100 10 = Inr [0]"
  unfolding select_onchain_accounts_def plain_payable
  by (subst select_onchain_loop.simps)
   (simp add: selected_candidate_balance_sum_def sample_weight sample_candidate plain_gross u128_try_from_i128_def sint_i128
     checked_add_def u128_from_u64_def under_floor_keys_def)

lemma plain_plan: "onchain_plan [sample_account ''a'' ''1'' 1 100 0] 100 10 None =
    Inr ([(sample_weighted ''a'' ''1'' 1 100, 100)], None)"
  unfolding onchain_plan_def Let_def plain_payable plain_selected
   by (simp add: selected_candidate_balance_sum_def sample_weight sample_candidate plain_gross u128_try_from_i128_def sint_i128
     checked_add_def u128_from_u64_def)

definition plain_paid :: payout_policy_account where
  "plain_paid = (sample_account ''a'' ''1'' 1 100 0)\<lparr>acc_onchain_amount_sats := 100, acc_carry_forward_balance_sats := 0,
     acc_action := Onchain\<rparr>"

lemma plain_settled: "settle_block sample_window_manifest [] plain_policy = Inr (10, None, [plain_paid])"
proof -
  have pays: "try_fold (pay_account 10 100) [sample_account ''a'' ''1'' 1 100 0] [(sample_weighted ''a'' ''1'' 1 100, 100)] =
      Inr [plain_paid]"
    by (simp add: pay_account_def account_matches_def sample_weighted_def sample_account_def
      i128_checked_sub_def plain_paid_def i128_from_u64_def sint_i128)
  show ?thesis
    unfolding settle_block_def plain_miner_reward and_then.simps prod.case plain_started plain_plan plain_reward pays
    by (simp add: push_pool_fee_def)
qed

definition plain_manifest :: payout_policy_manifest where
  "plain_manifest = manifest_of_block sample_window_manifest plain_policy (10, None, [plain_paid])"

lemma plain_applied: "apply_payout_policy sample_window_manifest [] plain_policy = Inr plain_manifest"
  by (simp add: apply_policy_eq plain_settled plain_manifest_def)

lemma plain_entitlements: "ppm_onchain_entitlements plain_manifest = [sample_weighted ''a'' ''1'' 1 100]"
  by (simp add: plain_manifest_def manifest_of_block_def onchain_entitlements_of_def plain_paid_def sample_account_def
      candidate_weight_def sample_weighted_def u128_from_u64_def)

section \<open>The coinbase\<close>

lemma sample_digest_hex: "hex_encode sample_json = sample_hex_encode" "hex_decode sample_json = sample_hex_decode"
    "length (sha256_digest sample_json bs) = 32"
  by (simp_all add: sample_json_def)

lemma single_payment_built:
  assumes "req_entitlements r = [e]" and "ent_weight e = 100" and "parse_p2mr_program sample_json e = Inr program"
    and "req_block_height r = 7" and "req_coinbase_value_sats r = 100" and "req_pinned_first_output r = None"
    and "req_witness_merkle_leaves_hex r = []" and "req_coinbase_script_sig_suffix_hex r = None"
    and "req_witness_nonce_hex r = Some (sample_hex_encode root)" and "length root = 32"
  shows "\<exists>cm. build_manifest sample_json r = Inr cm"
proof -
  have "ordered_entitlements r = Inr [e]"
    by (simp add: ordered_entitlements_def assms)
  then have "\<exists>outs. allocate_outputs sample_json r = Inr outs"
    unfolding allocate_outputs_ok_iff using assms by simp
  then obtain outs where outs: "allocate_outputs sample_json r = Inr outs"
    by blast
  have nonce: "witness_nonce sample_json r = Inr root"
    by (simp add: witness_nonce_def assms sample_digest_hex sample_decode_encode)
  have leaves: "witness_leaves sample_json r = Inr []"
    by (simp add: witness_leaves_def assms)
  have sig: "coinbase_script_sig sample_json r = Inr [0x57, 0]"
    by (simp add: coinbase_script_sig_def coinbase_height_script_def coinbase_script_sig_suffix_def
      minimal_script_num_def script_num_magnitude.simps compact_push_def assms
      MAX_COINBASE_SCRIPT_SIG_LEN_def Let_def)
  have "\<exists>built. build_coinbase sample_json r = Inr built"
    by (rule build_coinbase_InrI [OF sample_json_specs(3) outs nonce leaves sig])
      (simp_all add: assms coinbase_size_def MAX_BLOCK_WEIGHT_def compact_size_def)
  then show ?thesis
    using sig nonce by (auto simp: build_manifest_def Let_def coinbase_script_sig_suffix_def assms)
qed

lemma merkle_level_hashes: "sha256_spec X \<Longrightarrow> h \<in> set (merkle_level X hs) \<Longrightarrow> length h = 32"
  by (induction X hs rule: merkle_level.induct) (auto simp: hash256_pair_def hash256_def sha256_spec_def)

lemma merkle_length:
  "sha256_spec X \<Longrightarrow> hs \<noteq> [] \<Longrightarrow> \<forall>h \<in> set hs. length h = 32 \<Longrightarrow> length (merkle_root X hs) = 32"
proof (induction X hs rule: merkle_root.induct)
  case (1 X hs)
  have "merkle_level X hs \<noteq> []"
    using 1(3) length_merkle_level [of X hs] by (cases hs) auto
  then show ?case
    using 1 merkle_level_hashes [OF 1(2)] by (subst merkle_root.simps) auto
qed

section \<open>A bundle paid directly\<close>

definition sample_coinbase_key :: "u8 list" where "sample_coinbase_key = replicate 32 1"
definition sample_ledger_key :: "u8 list" where "sample_ledger_key = replicate 32 2"

lemma sample_keys: "length sample_coinbase_key = 32" "length sample_ledger_key = 32"
    "\<not> eq_ignore_ascii_case (public_key_hex sample_json sample_coinbase_key) (public_key_hex sample_json sample_ledger_key)"
proof -
  show "length sample_coinbase_key = 32" "length sample_ledger_key = 32"
    by (simp_all add: sample_coinbase_key_def sample_ledger_key_def)
  have "public_key_hex sample_json sample_coinbase_key = sample_program 1"
    "public_key_hex sample_json sample_ledger_key = sample_program 2"
    by (simp_all add: public_key_hex_def sample_json_def sample_program_def sample_digest_def
        sample_coinbase_key_def sample_ledger_key_def)
  moreover have "payout_program_key (sample_program 1) \<noteq> payout_program_key (sample_program 2)"
    by simp
  ultimately show "\<not> eq_ignore_ascii_case (public_key_hex sample_json sample_coinbase_key) (public_key_hex sample_json sample_ledger_key)"
    by (simp only: eq_ignore_ascii_case_def payout_program_key_def) simp
qed

lemma sample_attested: "\<exists>att. build_ledger_window_attestation sample_json rm bs key = Inr att"
  by (simp add: build_ledger_window_attestation_def Let_def canonical_ledger_window_attestation_bytes_def
      to_json_object_def write_fields_def) (simp add: sample_json_def)

lemma sample_hashed:
  "\<exists>rh. reward_manifest_sha256 sample_json rm p = Inr rh \<and> length rh = 32"
  "\<exists>ph. policy_manifest_sha256 sample_json pm = Inr ph \<and> length ph = 32"
proof -
  have "\<exists>bytes. canonical_reward_manifest_bytes sample_json rm = Inr bytes"
    by (cases "rm_cut rm")
      (simp_all add: canonical_reward_manifest_bytes_def to_json_object_def reward_manifest_fields_def write_fields_def
        optional_field_def, simp_all add: sample_json_def sample_array_def)
  then show "\<exists>rh. reward_manifest_sha256 sample_json rm p = Inr rh \<and> length rh = 32"
    by (auto simp: reward_manifest_sha256_eq [OF sample_json_specs(5)] sample_digest_hex(3))
  show "\<exists>ph. policy_manifest_sha256 sample_json pm = Inr ph \<and> length ph = 32"
    by (simp add: policy_manifest_sha256_def canonical_payout_policy_manifest_bytes_def sample_json_def)
qed

text \<open>The root over leaves that are hashes is the hex form of a hash.\<close>

definition is_hash_hex :: "string \<Rightarrow> bool" where
  "is_hash_hex s \<longleftrightarrow> (\<exists>h. s = sample_hex_encode h \<and> length h = 32)"

lemma sample_leaf_hash: "is_hash_hex (commitment_leaf_hex sample_json rh ph)"
  by (auto simp: is_hash_hex_def commitment_leaf_hex_def sha256_hex_def sample_digest_hex intro!: exI)

lemma sample_root:
  assumes "leaves \<noteq> []" and "list_all is_hash_hex leaves"
  shows "\<exists>root. audit_commitment_root_hex sample_json leaves = Inr root \<and> is_hash_hex root"
proof -
  have "\<exists>hs. try_map (parse_audit_commitment_leaf sample_json) (List.enumerate k leaves) = Inr hs \<and>
      (\<forall>h \<in> set hs. length h = 32) \<and> length hs = length leaves" for k
    using assms(2)
  proof (induction leaves arbitrary: k)
    case (Cons s leaves)
    from Cons.prems obtain h where "s = sample_hex_encode h" "length h = 32"
      by (auto simp: is_hash_hex_def)
    then have "parse_audit_commitment_leaf sample_json (k, s) = Inr h"
      by (simp add: parse_audit_commitment_leaf_def sample_digest_hex sample_decode_encode)
    then show ?case
      using Cons.IH [of "Suc k"] Cons.prems \<open>length h = 32\<close> by auto
  qed simp
  then obtain hs where hs: "parse_audit_commitment_leaves sample_json leaves = Inr hs" "\<forall>h \<in> set hs. length h = 32" "hs \<noteq> []"
    using assms(1) by (auto simp: parse_audit_commitment_leaves_def) (metis length_0_conv)
  then have "length (merkle_root sample_json hs) = 32"
    using merkle_length [OF sample_json_specs(3)] by blast
  then show ?thesis
    using hs(1) by (auto simp: audit_commitment_root_hex_def is_hash_hex_def sample_digest_hex)
qed

lemma fields_written: "list_all (\<lambda>(_, v). \<exists>bytes. v = Inr bytes) fs \<Longrightarrow> \<exists>w. write_fields fs = Inr w"
  by (induction fs) (auto simp: write_fields_def simp del: try_map_Inr)

lemma sample_reward_bytes: "\<exists>bytes. canonical_reward_manifest_bytes sample_json rm = Inr bytes"
proof -
  have "list_all (\<lambda>(_, v). \<exists>bytes. v = Inr bytes) (reward_manifest_fields sample_json rm)"
    by (simp add: reward_manifest_fields_def optional_field_def sample_json_def sample_array_def split: option.split)
  then show ?thesis
    by (auto simp: canonical_reward_manifest_bytes_def to_json_object_def dest!: fields_written)
qed

lemma sample_bytes: "\<exists>bytes. canonical_audit_bundle_bytes_from_parts sample_json body shares = Inr bytes"
proof -
  have "list_all (\<lambda>(_, v). \<exists>bytes. v = Inr bytes) (bundle_fields sample_json b)" for b
    using sample_reward_bytes [of "ab_reward_manifest b"]
    by (simp add: bundle_fields_def bundle_suffix_fields_def optional_field_def strings_field_def split: option.split)
      (simp add: sample_json_def sample_array_def)
  then show ?thesis
    using fields_written [of "bundle_fields sample_json (view_from_parts body shares)"]
    by (auto simp: canonical_audit_bundle_bytes_from_parts_def write_canonical_def to_json_object_def)
qed

lemma sample_signed:
  assumes "build_manifest sample_json r = Inr cm"
  obtains spm where "build_profiled_signed_manifest sample_json r key = Inr spm" and "spm_manifest spm = cm"
  using assms by (simp add: build_profiled_signed_manifest_def canonical_manifest_bytes_def) (simp add: sample_json_def)

lemma plain_request:
  assumes "is_hash_hex root" and "ent_weight e = 100" and "parse_p2mr_program sample_json e = Inr program"
  shows "\<exists>cm. build_manifest sample_json (coinbase_request_of sample_window_manifest [e] root [] None plain_manifest) = Inr cm"
proof -
  from assms(1) obtain h where h: "root = sample_hex_encode h" "length h = 32"
    by (auto simp: is_hash_hex_def)
  have "rm_block_height sample_window_manifest = 7" "pinned_first_output_for_policy plain_manifest = None"
    by (simp_all add: sample_window_manifest_def manifest_of_window_def sample_block_def pinned_first_output_for_policy_def pool_fee_first_output_def
        plain_manifest_def manifest_of_block_def plain_policy_def day_one_default_def)
  then show ?thesis
    using h assms(2,3) by (intro single_payment_built [of _ e program h]) (simp_all add: coinbase_request_of_def plain_reward)
qed

lemma sample_direct_built:
  "\<exists>body. build_audit_bundle_body_with_coinbase_options_parallel sample_json [sample_work] sample_block None [] plain_policy
     None [] sample_coinbase_key sample_ledger_key (parallelism_new 2 0) = Inr body \<and>
     ab_settlement_mode_decision body = None \<and> ab_payout_policy_manifest body = plain_manifest"
proof -
  obtain att where att: "build_ledger_window_attestation sample_json sample_window_manifest [] sample_ledger_key = Inr att"
    using sample_attested by blast
  obtain rh ph where rh: "reward_manifest_sha256 sample_json sample_window_manifest (parallelism_new 2 0) = Inr rh"
    and ph: "policy_manifest_sha256 sample_json plain_manifest = Inr ph"
    using sample_hashed by meson
  obtain root where root: "audit_commitment_root_hex sample_json [commitment_leaf_hex sample_json rh ph] = Inr root" "is_hash_hex root"
    using sample_root [of "[commitment_leaf_hex sample_json rh ph]"] sample_leaf_hash by auto
  have "parse_p2mr_program sample_json (sample_weighted ''a'' ''1'' 1 100) = Inr (replicate 32 1)"
    by (simp add: parse_p2mr_program_def sample_weighted_def sample_digest_hex sample_program_def sample_decode_encode P2MR_PROGRAM_LEN_def)
  then obtain cm where "build_manifest sample_json (coinbase_request_of sample_window_manifest
      [sample_weighted ''a'' ''1'' 1 100] root [] None plain_manifest) = Inr cm"
    using plain_request [OF root(2), of "sample_weighted ''a'' ''1'' 1 100"] by (auto simp: sample_weighted_def)
  then obtain spm where "build_profiled_signed_manifest sample_json (coinbase_request_of sample_window_manifest
      (ppm_onchain_entitlements plain_manifest) root [] None plain_manifest) sample_coinbase_key = Inr spm"
    unfolding plain_entitlements by (rule sample_signed)
  then show ?thesis
    using sample_keys(3) sample_window_built att plain_applied rh ph root(1)
    by (simp add: build_audit_bundle_body_with_coinbase_options_parallel_def parallel_manifest_eq Let_def)
qed

section \<open>A bundle paid by a fanout\<close>

definition fanout_recipient :: settlement_recipient where
  "fanout_recipient = \<lparr>sr_recipient_id = ''a'', sr_order_key = ''1'', sr_p2mr_program_hex = sample_program 1, sr_amount_sats = 100\<rparr>"

lemma sample_normalizes: "normalize_recipient sample_json fanout_recipient = Inr fanout_recipient"
  by (simp add: normalize_recipient_def fanout_recipient_def sample_digest_hex sample_program_def sample_decode_encode P2MR_PROGRAM_LEN_def)

lemma default_config_ok: "validate_config settlement_mode_config_default = Inr ()"
  by (simp add: validate_config_def settlement_mode_config_default_def MAX_COINBASE_SETTLEMENT_OUTPUTS_def
    DEFAULT_MAX_COINBASE_SETTLEMENT_OUTPUTS_def DEFAULT_MAX_DIRECT_COINBASE_OUTPUTS_def
    DEFAULT_MAX_CTV_FANOUT_RECIPIENTS_PER_TRANSACTION_def
    MAX_DIRECT_COINBASE_OUTPUTS_def MAX_CTV_FANOUT_RECIPIENTS_PER_TRANSACTION_def estimated_ctv_fanout_weight_bytes_def
    CTV_FANOUT_FIXED_WEIGHT_BYTES_def CTV_FANOUT_P2MR_OUTPUT_BYTES_def usize_checked_add_def usize_checked_mul_def compact_size_len_def
    QBIT_TRUC_MAX_TX_WEIGHT_BYTES_def)

definition fanout_decision :: settlement_mode_decision where
  "fanout_decision = projr (select_settlement_mode_with_pinned_direct sample_json [fanout_recipient] 1000
     settlement_mode_config_default None)"

lemma fanout_selected:
  "select_settlement_mode_with_pinned_direct sample_json [fanout_recipient] 1000 settlement_mode_config_default None =
     Inr fanout_decision \<and> sd_direct_recipients fanout_decision = [] \<and> sd_fanout_chunk_count fanout_decision = 1 \<and>
     sd_fanout_chunks fanout_decision = [\<lparr>fc_chunk_index = 0, fc_recipient_count = 1, fc_amount_sats = 100,
       fc_recipients = [fanout_recipient]\<rparr>] \<and> sd_mode fanout_decision = CtvFanout"
proof -
  have canonical: "canonical_recipients sample_json [fanout_recipient] = Inr [fanout_recipient]"
    by (simp add: canonical_recipients_def normalize_recipient_p2mr_programs_def sample_normalizes validate_recipients_def)
      (simp add: fanout_recipient_def)
  have candidates: "direct_candidates [fanout_recipient] 1000 None = []"
    by (simp add: direct_candidates_def fanout_recipient_def)
  have chosen: "select_direct_count (length [fanout_recipient]) 0 settlement_mode_config_default 0 = Inr 0"
    by (simp add: select_direct_count_def settlement_mode_config_default_def coinbase_outputs_with_def usize_checked_add_def
      usize_checked_sub_def fanout_chunk_count_def DEFAULT_MAX_COINBASE_SETTLEMENT_OUTPUTS_def
      DEFAULT_MAX_CTV_FANOUT_RECIPIENTS_PER_TRANSACTION_def)
  have sum: "sum_amounts [fanout_recipient] = Inr 100" "sum_amounts [] = Inr 0"
    by (simp_all add: sum_amounts_Inr fanout_recipient_def)
  have chunks: "chunks_of (smc_max_fanout_recipients_per_transaction settlement_mode_config_default) [fanout_recipient] = [[fanout_recipient]]"
    by (simp add: chunks_of_def div_ceil_def chunk_range_def settlement_mode_config_default_def
      DEFAULT_MAX_CTV_FANOUT_RECIPIENTS_PER_TRANSACTION_def)
  have reserved: "smc_reserved_coinbase_outputs settlement_mode_config_default = 0"
    by (simp add: settlement_mode_config_default_def)
  have "\<exists>d. select_settlement_mode_with_pinned_direct sample_json [fanout_recipient] 1000 settlement_mode_config_default None =
     Inr d \<and> sd_direct_recipients d = [] \<and> sd_fanout_chunk_count d = 1 \<and>
     sd_fanout_chunks d = [\<lparr>fc_chunk_index = 0, fc_recipient_count = 1, fc_amount_sats = 100,
       fc_recipients = [fanout_recipient]\<rparr>] \<and> sd_mode d = CtvFanout"
    unfolding select_settlement_mode_with_pinned_direct_def default_config_ok canonical and_then.simps Let_def
    by (simp add: sum candidates chosen [simplified] goes_direct_def chunks reserved fanout_chunk_of_def decision_mode_def
        checked_add_def usize_checked_add_def)
  then show ?thesis
    by (auto simp: fanout_decision_def)
qed

text \<open>The one chunk, prepared with any split of its 100 satoshis into fee and payout.\<close>

lemma fanout_prepared:
  assumes pay: "valid_payout sample_json (payout_of_recipient fees fanout_recipient)"
    and total: "unat (cp_amount_sats (payout_of_recipient fees fanout_recipient)) +
      unat (cp_fee_sats (payout_of_recipient fees fanout_recipient)) = 100"
    and hashes: "length rh = 32" "length ph = 32"
  obtains input p where "prepare_ctv_fanout_precommitment sample_json input = Inr p"
    and "try_map (prepare_chunk sample_json sample_window_manifest fanout_decision fees (hex_encode sample_json rh) (hex_encode sample_json ph))
      (sd_fanout_chunks fanout_decision) = Inr [p]"
    and "length (pc_fanout_tx_template_hex (pf_precommitment p)) < 2 ^ 63" and "unat (pf_covenant_output_value_sats p) = 100"
    and "outputs_sum (pc_outputs (pf_precommitment p)) = unat (cp_amount_sats (payout_of_recipient fees fanout_recipient))"
    and "pc_chunk_index (pf_precommitment p) = 0" and "pc_chunk_count (pf_precommitment p) = 1"
    and "pc_settlement_mode (pf_precommitment p) = CtvFanout"
proof -
  let ?pay = "payout_of_recipient fees fanout_recipient"
  obtain outs where outs: "canonical_fanout_outputs sample_json [?pay] = Inr outs" "length outs = 1"
      "outputs_sum outs = unat (cp_amount_sats ?pay)" "fees_sum outs = unat (cp_fee_sats ?pay)"
    using canonical_outputs_ok [OF sample_json_specs(1), of "[?pay]"] pay by auto
  let ?input = "\<lparr>pci_block_height = 7, pci_chunk_index = 0, pci_chunk_count = 1, pci_coinbase_value_sats = 100,
        pci_settlement_mode = CtvFanout, pci_reward_manifest_sha256_hex = hex_encode sample_json rh,
        pci_payout_policy_manifest_sha256_hex = hex_encode sample_json ph, pci_payouts = [?pay]\<rparr>"
  have "\<exists>p. prepare_ctv_fanout_precommitment sample_json ?input = Inr p \<and> pc_outputs (pf_precommitment p) = outs \<and>
      length (pc_fanout_tx_template_hex (pf_precommitment p)) < 2 ^ 63 \<and>
      unat (pf_covenant_output_value_sats p) = outputs_sum outs + fees_sum outs"
    by (rule prepare_succeeds [OF sample_json_specs(1,3), where rh = rh and qh = ph
          and anchor_script = "[0x51, 0x02, 0x4e, 0x73]"])
      (simp_all add: outs total hashes QBIT_MAX_MONEY_SATS_def hex_decode_encode [OF sample_json_specs(1)]
        anchor_decode [OF sample_json_specs(1,2)] zeros_decode [OF sample_json_specs(1,2)], simp_all add: sample_json_def)
  then obtain p where p: "prepare_ctv_fanout_precommitment sample_json ?input = Inr p" "pc_outputs (pf_precommitment p) = outs"
      "length (pc_fanout_tx_template_hex (pf_precommitment p)) < 2 ^ 63" "unat (pf_covenant_output_value_sats p) = 100"
    using outs total by auto
  have "rm_block_height sample_window_manifest = 7"
    by (simp add: sample_window_manifest_def manifest_of_window_def sample_block_def)
  then have "try_map (prepare_chunk sample_json sample_window_manifest fanout_decision fees (hex_encode sample_json rh)
      (hex_encode sample_json ph)) (sd_fanout_chunks fanout_decision) = Inr [p]"
    using p(1) fanout_selected by (simp add: prepare_chunk_def u32_try_from_usize_def plain_reward)
  moreover from prepareD [OF p(1)] have "pc_chunk_index (pf_precommitment p) = 0" "pc_chunk_count (pf_precommitment p) = 1"
      "pc_settlement_mode (pf_precommitment p) = CtvFanout"
    by auto
  ultimately show ?thesis
    using p outs(3) by (intro that [OF p(1)]) simp_all
qed

lemma fanout_leaf_hash:
  assumes "prepare_ctv_fanout_precommitment sample_json input = Inr p"
  shows "is_hash_hex (pf_commitment_witness_leaf_hex p)"
proof -
  from prepareD [OF assms] have "commitment_witness_leaf_hex sample_json (pf_precommitment_sha256_hex p) = Inr (pf_commitment_witness_leaf_hex p)"
    by blast
  then have "\<exists>bs. pf_commitment_witness_leaf_hex p = sample_hex_encode (sha256_digest sample_json bs)"
    by (auto simp: commitment_witness_leaf_hex_def and_then_Inr sha256_array_def sample_digest_hex(1) dest: sym)
  then show ?thesis
    by (auto simp: is_hash_hex_def sample_digest_hex(3))
qed

lemma allocated_script_program:
  assumes outs: "allocate_outputs X r = Inr outs" and "out \<in> set outs"
  shows "out_script_pubkey out = p2mr_script_pubkey (out_p2mr_program out)"
proof -
  obtain es prov where prov: "is_provisional X (req_coinbase_value_sats r) es prov"
    and settled: "outs = settled (req_coinbase_value_sats r) es prov"
    using outs by (rule allocate_outputsD)
  from assms(2) obtain i where "i < length outs" "out = outs ! i"
    by (auto simp: in_set_conv_nth)
  then show ?thesis
    using arg_cong [OF settled_fields(7) [OF prov, folded settled], of "\<lambda>xs. xs ! i"] by simp
qed

lemma fanout_finalizes:
  assumes prep: "prepare_ctv_fanout_precommitment sample_json input = Inr p"
    and len: "length (pc_fanout_tx_template_hex (pf_precommitment p)) < 2 ^ 63"
    and value_ok: "unat (pf_covenant_output_value_sats p) = 100"
    and cm: "build_manifest sample_json (coinbase_request_of sample_window_manifest [prepared_entitlement p] root [] None plain_manifest) = Inr cm"
  shows "\<exists>m. finalize_fanout sample_json cm p = Inr m \<and> cm_precommitment m = pf_precommitment p \<and>
    verify_ctv_fanout_manifest_structure sample_json m = Inr ()"
proof -
  let ?r = "coinbase_request_of sample_window_manifest [prepared_entitlement p] root [] None plain_manifest"
  have money: "req_coinbase_value_sats ?r \<le> QBIT_MAX_MONEY_SATS"
    by (simp add: coinbase_request_of_def plain_reward QBIT_MAX_MONEY_SATS_def)
  obtain tx outs script where outs: "allocate_outputs sample_json ?r = Inr outs"
    and pm: "pm_outputs cm = map (payout_output_of sample_json) (List.enumerate 0 outs)"
    and parse: "parse_transaction_hex sample_json (pm_coinbase_tx_hex cm) ''parent_coinbase_tx_hex'' = Inr tx"
    and shape: "ensure_coinbase_shape tx = Inr ()"
    and tx_outs: "pt_outputs tx = map (\<lambda>out. \<lparr>pto_amount_sats = out_amount_sats out, pto_script_pubkey = out_script_pubkey out\<rparr>) outs @
      [\<lparr>pto_amount_sats = 0, pto_script_pubkey = script\<rparr>]"
    using coinbase_parses [OF sample_json_specs(1-3) cm money] by blast
  from prepareD [OF prep] obtain program where program: "pf_covenant_p2mr_program_hex p = pc_p2mr_program_hex (pf_precommitment p)"
      "pf_covenant_output_value_sats p = pc_covenant_output_value_sats (pf_precommitment p)"
      "p2mr_program_for_ctv_leaf_hex sample_json (pc_ctv_leaf_script_hex (pf_precommitment p)) = Inr (pc_p2mr_program_hex (pf_precommitment p))"
      "decode_program_hex sample_json (pc_p2mr_program_hex (pf_precommitment p)) ''p2mr_program_hex'' = Inr program"
      "pc_covenant_script_pubkey_hex (pf_precommitment p) = hex_encode sample_json (p2mr_script_pubkey program)"
    by blast
  from program(1,3) have "\<exists>t. pf_covenant_p2mr_program_hex p = hex_encode sample_json t"
    by (auto simp: p2mr_program_for_ctv_leaf_hex_def and_then_Inr dest: sym)
  then have lower: "lower_program (pf_covenant_p2mr_program_hex p)"
    using lower_idem [OF hex_decode_encode [OF sample_json_specs(1)] sample_json_specs(1)] by auto
  have total: "sum_list (ent_weights (req_entitlements ?r)) = unat (req_coinbase_value_sats ?r)"
    using value_ok by (simp add: coinbase_request_of_def plain_reward prepared_entitlement_def)
  have pays: "mset (map listed_payment (pm_outputs cm)) = {#entitled_payment (prepared_entitlement p)#}"
    using manifest_pays(1) [OF sample_json_specs(1) cm total] by (simp add: coinbase_request_of_def)
  then have "length (pm_outputs cm) = 1"
    by (metis length_map size_mset size_single)
  then obtain out where out: "outs = [out]"
    unfolding pm by (auto simp: length_Suc_conv)
  let ?txo = "payout_output_of sample_json (0, out)"
  have txo: "listed_payment ?txo = entitled_payment (prepared_entitlement p)"
    using pays by (simp add: pm out)
  have fields: "po_recipient_id ?txo = pf_covenant_recipient_id p" "po_order_key ?txo = pf_covenant_order_key p"
      "po_p2mr_program_hex ?txo = pf_covenant_p2mr_program_hex p" "po_amount_sats ?txo = pf_covenant_output_value_sats p"
      "po_vout ?txo = 0"
    using txo lower by (auto simp: listed_payment_def entitled_payment_def prepared_entitlement_def payout_output_of_def
      intro: unsigned_word_eqI)
  then have find: "find_coinbase_output_vout cm (pf_covenant_recipient_id p) (pf_covenant_order_key p)
      (pf_covenant_p2mr_program_hex p) (pf_covenant_output_value_sats p) = Inr 0"
    by (simp add: find_coinbase_output_vout_def pm out u32_try_from_usize_def)
  have "hex_encode sample_json (out_p2mr_program out) = pc_p2mr_program_hex (pf_precommitment p)"
    using fields(3) program(1) by (simp add: payout_output_of_def)
  then have "program = out_p2mr_program out"
    using program(4) hex_decode_encode [OF sample_json_specs(1), of "out_p2mr_program out"] by (simp add: decode_program_Inr)
  then have script: "hex_encode sample_json (out_script_pubkey out) = pc_covenant_script_pubkey_hex (pf_precommitment p)"
    using allocated_script_program [OF outs, of out] program(5) by (simp add: out)
  have cov: "slice_get (pt_outputs tx) (unat (0 :: u32)) =
      Some \<lparr>pto_amount_sats = out_amount_sats out, pto_script_pubkey = out_script_pubkey out\<rparr>"
    by (simp add: slice_get_def tx_outs out)
  have "out_amount_sats out = pc_covenant_output_value_sats (pf_precommitment p)"
    using fields(4) program(2) by (simp add: payout_output_of_def)
  then show ?thesis
    using manifest_finalizes [OF sample_json_specs(1,3) prep len parse shape cov] script find
    by (auto simp: finalize_fanout_def)
qed


lemma fanout_assembled:
  assumes fees: "fees_agree fees fanout_recipient"
    and pay: "valid_payout sample_json (payout_of_recipient fees fanout_recipient)"
    and total: "unat (cp_amount_sats (payout_of_recipient fees fanout_recipient)) +
      unat (cp_fee_sats (payout_of_recipient fees fanout_recipient)) = 100"
    and hashes: "length rh = 32" "length ph = 32"
  shows "\<exists>body ms m. assemble_settlement sample_json [sample_work] sample_block [] plain_policy None None [] sample_coinbase_key
      sample_window_manifest att plain_manifest fanout_decision fees rh ph = Inr body \<and>
    ab_ctv_fanout_manifest_set body = Some ms \<and> cms_manifests ms = [m] \<and>
    outputs_sum (pc_outputs (cm_precommitment m)) = unat (cp_amount_sats (payout_of_recipient fees fanout_recipient))"
proof -
  obtain input p where p: "prepare_ctv_fanout_precommitment sample_json input = Inr p"
      "try_map (prepare_chunk sample_json sample_window_manifest fanout_decision fees (hex_encode sample_json rh) (hex_encode sample_json ph))
        (sd_fanout_chunks fanout_decision) = Inr [p]"
      "length (pc_fanout_tx_template_hex (pf_precommitment p)) < 2 ^ 63" "unat (pf_covenant_output_value_sats p) = 100"
      "outputs_sum (pc_outputs (pf_precommitment p)) = unat (cp_amount_sats (payout_of_recipient fees fanout_recipient))"
      "pc_chunk_index (pf_precommitment p) = 0" "pc_chunk_count (pf_precommitment p) = 1"
      "pc_settlement_mode (pf_precommitment p) = CtvFanout"
    by (rule fanout_prepared [OF pay total hashes])
  let ?leaves = "[commitment_leaf_hex sample_json rh ph, pf_commitment_witness_leaf_hex p]"
  obtain root where root: "audit_commitment_root_hex sample_json ?leaves = Inr root" "is_hash_hex root"
    using sample_root [of ?leaves] sample_leaf_hash fanout_leaf_hash [OF p(1)] by auto
  have es: "ctv_settlement_coinbase_entitlements fanout_decision [p] = Inr [prepared_entitlement p]"
    using fanout_selected by (simp add: settlement_entitlements_Inr)
  from prepareD [OF p(1)] obtain program where "pf_covenant_p2mr_program_hex p = pc_p2mr_program_hex (pf_precommitment p)"
      "decode_program_hex sample_json (pc_p2mr_program_hex (pf_precommitment p)) ''p2mr_program_hex'' = Inr program"
    by blast
  then have program: "parse_p2mr_program sample_json (prepared_entitlement p) = Inr program"
    by (simp add: parse_p2mr_program_def prepared_entitlement_def decode_program_Inr)
  have "ent_weight (prepared_entitlement p) = 100"
  proof -
    have "unat (pf_covenant_output_value_sats p) = unat (100 :: u64)"
      using p(4) by simp
    then have "pf_covenant_output_value_sats p = 100"
      by (rule unsigned_word_eqI)
    then show ?thesis
      by (simp add: prepared_entitlement_def u128_from_u64_def)
  qed
  then obtain cm where cm: "build_manifest sample_json
      (coinbase_request_of sample_window_manifest [prepared_entitlement p] root [] None plain_manifest) = Inr cm"
    using plain_request [OF root(2) _ program] by blast
  obtain spm where spm: "build_profiled_signed_manifest sample_json
      (coinbase_request_of sample_window_manifest [prepared_entitlement p] root [] None plain_manifest) sample_coinbase_key = Inr spm"
      "spm_manifest spm = cm"
    by (rule sample_signed [OF cm])
  obtain m where m: "finalize_fanout sample_json cm p = Inr m" "cm_precommitment m = pf_precommitment p"
      "verify_ctv_fanout_manifest_structure sample_json m = Inr ()"
    using fanout_finalizes [OF p(1,3,4) cm] by blast
  obtain ms where ms: "verify_ctv_fanout_manifest_set sample_json ms = Inr ()" "cms_manifests ms = [m]"
    using single_set [OF sample_json_specs(1) m(3)] p(6-8) m(2) by auto
  then have "build_ctv_fanout_manifest_set sample_json [m] = Inr ms"
    by (intro set_rebuilds [OF ms(1)]) simp
  then have fin: "finalize_fanouts sample_json (spm_manifest spm) [p] = Inr (Some ms)"
    using m(1) by (simp add: finalize_fanouts_def spm(2))
  have "outputs_sum (pc_outputs (cm_precommitment m)) = unat (cp_amount_sats (payout_of_recipient fees fanout_recipient))"
    using m(2) p(5) by simp
  then show ?thesis
    using ms(2) by (simp add: assemble_settlement_def p(2) root(1) es spm(1) fin)
qed

text \<open>The builder's own run pays the recipient in full; the other charges any fee below 100.\<close>

lemma fanout_derived:
  "derive_settlement sample_json sample_window_manifest [] plain_policy 1000 settlement_mode_config_default None =
     Inr (plain_manifest, fanout_decision, Map.empty)"
proof -
  have "settlement_recipients_from_entitlements (ppm_onchain_entitlements plain_manifest) = Inr [fanout_recipient]"
    by (simp add: settlement_recipients_from_entitlements_def plain_entitlements sample_weighted_def fanout_recipient_def
        u64_try_from_u128_def)
  moreover have "pinned_settlement_recipient_for_policy plain_manifest = None"
    by (simp add: pinned_settlement_recipient_for_policy_def pinned_first_output_for_policy_def pool_fee_first_output_def
        plain_manifest_def manifest_of_block_def plain_policy_def day_one_default_def)
  ultimately show ?thesis
    using fanout_selected plain_applied by (simp add: derive_settlement_def)
qed

definition fee_charged :: "u64 \<Rightarrow> string \<rightharpoonup> fanout_fee_recipient" where
  "fee_charged fee = [recipient_key fanout_recipient \<mapsto>
     \<lparr>ff_recipient_id = ''a'', ff_order_key = ''1'', ff_p2mr_program_hex = sample_program 1, ff_gross_amount_sats = 100,
      ff_fee_sats = fee, ff_net_amount_sats = 100 - fee\<rparr>]"

end
