(* ===== verification/Audit_Properties.thy ===== *)
theory Audit_Properties
  imports Audit_Sample
begin

text \<open>
  The properties of the audit: what the builder makes the verifier accepts, what a verified
  bundle means for the coinbase, and what the verifier does not look at.
\<close>

section \<open>What is built verifies\<close>

lemma direct_bundle_ok:
  assumes specs: "hex_spec X" "ed25519_spec X" "json_spec X" "length coinbase_key = 32" "length ledger_key = 32"
    and built: "build_audit_bundle_body_with_coinbase_options_parallel X shares fb wcut bs policy sfx leaves
      coinbase_key ledger_key (parallelism_new workers chunk_len) = Inr body"
    and bytes: "canonical_audit_bundle_bytes_from_parts X body shares = Inr bytes"
    and tx: "eq_ignore_ascii_case (pm_coinbase_tx_hex (spm_manifest (ab_signed_coinbase_manifest body))) (str_trim onchain)"
  shows "\<exists>report. verify_audit_parts_with_expected_value X body shares onchain (public_key_hex X ledger_key)
      (fb_coinbase_value_sats fb) = Inr report \<and> avr_audit_bundle_sha256_hex report = sha256_hex X bytes"
proof -
  have "eq_ignore_ascii_case (public_key_hex X ledger_key) (public_key_hex X ledger_key)"
    by (simp add: eq_ignore_ascii_case_def)
  from direct_bundle_verifies [OF specs built bytes this] obtain report
    where "verify_audit_view X (view_from_parts body shares) (public_key_hex X ledger_key) = Inr report"
      "avr_audit_bundle_sha256_hex report = sha256_hex X bytes"
      "avr_coinbase_tx_hex report = pm_coinbase_tx_hex (spm_manifest (ab_signed_coinbase_manifest body))"
      "avr_coinbase_value_sats report = fb_coinbase_value_sats fb"
    by blast
  then show ?thesis
    using tx by (simp add: verify_audit_parts_with_expected_value_def verify_audit_view_with_expected_value_def
      verify_audit_view_against_coinbase_tx_hex_def)
qed

text \<open>
  C34. A bundle built without settlement is accepted by the strictest verifier: if the ledger
  writer's key is the one it was built with, the coinbase on the chain is the built one, up to
  letter case and surrounding white space, and the expected value is the block's. It does so for
  any window, cut, policy, balances, suffix, Merkle leaves and number of workers, and the digest
  it reports is the hash of the bundle's canonical bytes.
\<close>

theorem built_direct_bundle_verifies:
  assumes "hex_spec X" and "ed25519_spec X" and "json_spec X" and "length coinbase_key = 32" and "length ledger_key = 32"
    and "build_audit_bundle_body_with_coinbase_options_parallel X shares fb wcut bs policy sfx leaves
      coinbase_key ledger_key (parallelism_new workers chunk_len) = Inr body"
    and "canonical_audit_bundle_bytes_from_parts X body shares = Inr bytes"
    and "eq_ignore_ascii_case (pm_coinbase_tx_hex (spm_manifest (ab_signed_coinbase_manifest body))) (str_trim onchain)"
  shows "\<exists>report. verify_audit_parts_with_expected_value X body shares onchain (public_key_hex X ledger_key)
      (fb_coinbase_value_sats fb) = Inr report \<and> avr_audit_bundle_sha256_hex report = sha256_hex X bytes"
  using assms by (rule direct_bundle_ok)

lemma hex_digit_not_space: "n < 16 \<Longrightarrow> \<not> is_space (hex_digit n)"
proof -
  have "list_all (\<lambda>n. \<not> is_space (hex_digit n)) [0..<16]"
    by code_simp
  then show "n < 16 \<Longrightarrow> \<not> is_space (hex_digit n)"
    by (simp add: list_all_iff del: upt_rec_numeral)
qed

lemma hex_trimmed: "str_trim (sample_hex_encode bs) = sample_hex_encode bs"
proof -
  have "\<not> is_space c" if "c \<in> set (sample_hex_encode bs)" for c
  proof -
    have "unat b div 16 < 16" for b :: u8
      using unsigned_less [of b, where ?'a = nat] by (simp add: less_mult_imp_div_less)
    then show ?thesis
      using that hex_digit_not_space by (auto simp: sample_hex_encode_def hex_02x_def)
  qed
  then have "dropWhile is_space xs = xs" if "set xs \<subseteq> set (sample_hex_encode bs)" for xs
    using that by (cases xs) auto
  then show ?thesis
    by (simp add: str_trim_def)
qed

lemma manifest_tx_hex: "build_manifest X r = Inr cm \<Longrightarrow> \<exists>bs. pm_coinbase_tx_hex cm = hex_encode X bs"
  by (auto simp: build_manifest_def Let_def and_then_Inr)

theorem built_direct_bundle_verifies_witness:
  "\<exists>body report. build_audit_bundle_body_with_coinbase_options_parallel sample_json [sample_work] sample_block None []
     plain_policy None [] sample_coinbase_key sample_ledger_key (parallelism_new 2 0) = Inr body \<and>
   verify_audit_parts_with_expected_value sample_json body [sample_work]
     (pm_coinbase_tx_hex (spm_manifest (ab_signed_coinbase_manifest body))) (public_key_hex sample_json sample_ledger_key)
     (fb_coinbase_value_sats sample_block) = Inr report"
proof -
  obtain body where body: "build_audit_bundle_body_with_coinbase_options_parallel sample_json [sample_work] sample_block None []
     plain_policy None [] sample_coinbase_key sample_ledger_key (parallelism_new 2 0) = Inr body"
    using sample_direct_built by blast
  obtain bytes where bytes: "canonical_audit_bundle_bytes_from_parts sample_json body [sample_work] = Inr bytes"
    using sample_bytes by blast
  let ?tx = "pm_coinbase_tx_hex (spm_manifest (ab_signed_coinbase_manifest body))"
  obtain spm r where "ab_signed_coinbase_manifest body = spm" "build_profiled_signed_manifest sample_json r sample_coinbase_key = Inr spm"
    using body unfolding build_audit_bundle_body_with_coinbase_options_parallel_def
    by (auto simp: and_then_Inr Let_def split: if_splits)
  then have "\<exists>bs. ?tx = sample_hex_encode bs"
    using manifest_tx_hex [OF signed_manifest_Inr(1)] by (metis sample_digest_hex(1))
  then have "eq_ignore_ascii_case ?tx (str_trim ?tx)"
    by (auto simp: hex_trimmed eq_ignore_ascii_case_def)
  from built_direct_bundle_verifies [OF sample_json_specs(1,4,5) sample_keys(1,2) body bytes this] body show ?thesis
    by blast
qed

text \<open>
  C3. A bundle built with settlement, direct outputs and fanouts, any fee policy, is accepted
  exactly when every on-chain entitlement writes its program in lower case. The builder accepts
  and normalizes mixed case; the verifier compares the recipients it covers, which are in lower
  case, with the spelling of the policy, and so refuses a bundle made from mixed-case shares.
\<close>

theorem built_settlement_bundle_verifies_iff:
  assumes "hex_spec X" and "hex_format_spec X" and "sha256_spec X" and "ed25519_spec X" and "json_spec X"
    and "length coinbase_key = 32" and "length ledger_key = 32"
    and "build_audit_bundle_body_with_ctv_settlement_options_parallel X shares fb wcut bs policy floor config fp
      sfx leaves coinbase_key ledger_key (parallelism_new workers chunk_len) = Inr body"
    and "canonical_audit_bundle_bytes_from_parts X body shares = Inr bytes"
    and "fb_coinbase_value_sats fb \<le> QBIT_MAX_MONEY_SATS"
  shows "(\<exists>report. verify_audit_parts X body shares (public_key_hex X ledger_key) = Inr report) \<longleftrightarrow>
    (\<forall>e \<in> set (ppm_onchain_entitlements (ab_payout_policy_manifest body)).
      to_ascii_lowercase (ent_p2mr_program_hex e) = ent_p2mr_program_hex e)"
proof
  assume "\<exists>report. verify_audit_parts X body shares (public_key_hex X ledger_key) = Inr report"
  then obtain report where "verify_audit_view X (view_from_parts body shares) (public_key_hex X ledger_key) = Inr report"
    by (auto simp: verify_audit_parts_def)
  from settlement_bundle_lower [OF assms(1,8) this]
  show "\<forall>e \<in> set (ppm_onchain_entitlements (ab_payout_policy_manifest body)).
      to_ascii_lowercase (ent_p2mr_program_hex e) = ent_p2mr_program_hex e"
    by blast
next
  assume lower: "\<forall>e \<in> set (ppm_onchain_entitlements (ab_payout_policy_manifest body)).
      to_ascii_lowercase (ent_p2mr_program_hex e) = ent_p2mr_program_hex e"
  have "eq_ignore_ascii_case (public_key_hex X ledger_key) (public_key_hex X ledger_key)"
    by (simp add: eq_ignore_ascii_case_def)
  from settlement_bundle_ok [OF assms(1-9) this assms(10)] lower
  show "\<exists>report. verify_audit_parts X body shares (public_key_hex X ledger_key) = Inr report"
    unfolding verify_audit_parts_def by blast
qed

lemma fanout_built:
  "\<exists>body. build_audit_bundle_body_with_ctv_settlement_options_parallel sample_json [sample_work] sample_block None [] plain_policy
      1000 settlement_mode_config_default None None [] sample_coinbase_key sample_ledger_key (parallelism_new 2 0) = Inr body \<and>
    ab_payout_policy_manifest body = plain_manifest"
proof -
  obtain att where att: "build_ledger_window_attestation sample_json sample_window_manifest [] sample_ledger_key = Inr att"
    using sample_attested by blast
  obtain rh ph where hashes: "reward_manifest_sha256 sample_json sample_window_manifest (parallelism_new 2 0) = Inr rh"
      "policy_manifest_sha256 sample_json plain_manifest = Inr ph" "length rh = 32" "length ph = 32"
    using sample_hashed by meson
  have none: "fees_agree Map.empty fanout_recipient" "payout_of_recipient Map.empty fanout_recipient =
      \<lparr>cp_recipient_id = ''a'', cp_order_key = ''1'', cp_p2mr_program_hex = sample_program 1, cp_gross_amount_sats = 0,
       cp_fee_sats = 0, cp_amount_sats = 100\<rparr>"
    by (simp_all add: fees_agree_def payout_of_recipient_def fanout_recipient_def)
  have "valid_payout sample_json (payout_of_recipient Map.empty fanout_recipient)"
    by (simp add: none valid_payout_def sample_digest_hex sample_program_def sample_decode_encode P2MR_PROGRAM_LEN_def)
  from fanout_assembled [OF none(1) this _ hashes(3,4), of att] none(2) obtain body where
    "assemble_settlement sample_json [sample_work] sample_block [] plain_policy None None [] sample_coinbase_key
      sample_window_manifest att plain_manifest fanout_decision Map.empty rh ph = Inr body"
    by auto
  then have "build_audit_bundle_body_with_ctv_settlement_options_parallel sample_json [sample_work] sample_block None [] plain_policy
      1000 settlement_mode_config_default None None [] sample_coinbase_key sample_ledger_key (parallelism_new 2 0) = Inr body"
    using sample_keys(3) sample_window_built att fanout_derived hashes
    by (simp add: build_audit_bundle_body_with_ctv_settlement_options_parallel_def parallel_manifest_eq assemble_settlement_def Let_def)
  moreover from assembled_fields(1) [OF \<open>assemble_settlement _ _ _ _ _ _ _ _ _ _ _ _ _ _ _ _ = _\<close>]
  have "ab_payout_policy_manifest body = plain_manifest" .
  ultimately show ?thesis
    by blast
qed

lemma sample_program_lower: "to_ascii_lowercase (sample_program b) = sample_program b"
  using lower_idem [of sample_json "sample_program b" "replicate 32 b"] sample_json_specs(1)
  by (simp add: sample_digest_hex sample_program_def sample_decode_encode)

theorem built_settlement_bundle_verifies_iff_witness:
  "\<exists>body report. build_audit_bundle_body_with_ctv_settlement_options_parallel sample_json [sample_work] sample_block None []
      plain_policy 1000 settlement_mode_config_default None None [] sample_coinbase_key sample_ledger_key
      (parallelism_new 2 0) = Inr body \<and>
    verify_audit_parts sample_json body [sample_work] (public_key_hex sample_json sample_ledger_key) = Inr report"
proof -
  obtain body where body: "build_audit_bundle_body_with_ctv_settlement_options_parallel sample_json [sample_work] sample_block None []
      plain_policy 1000 settlement_mode_config_default None None [] sample_coinbase_key sample_ledger_key
      (parallelism_new 2 0) = Inr body" and policy: "ab_payout_policy_manifest body = plain_manifest"
    using fanout_built by blast
  obtain bytes where bytes: "canonical_audit_bundle_bytes_from_parts sample_json body [sample_work] = Inr bytes"
    using sample_bytes by blast
  have "fb_coinbase_value_sats sample_block \<le> QBIT_MAX_MONEY_SATS"
    by (simp add: sample_block_def QBIT_MAX_MONEY_SATS_def)
  from built_settlement_bundle_verifies_iff [OF sample_json_specs sample_keys(1,2) body bytes this] body show ?thesis
    by (auto simp: policy plain_entitlements sample_weighted_def sample_program_lower)
qed


section \<open>What a verified bundle means\<close>

lemma verified_facts:
  assumes "verify_audit_view X b writer = Inr report"
  shows "verify_ledger_window_attestation X b writer = Inr () \<and>
    verify_signed_manifest X (ab_signed_coinbase_manifest b) = Inr () \<and>
    build_prism_reward_manifest_with_cut X (ab_shares b) (ab_found_block b) (rm_cut (ab_reward_manifest b)) =
      Inr (ab_reward_manifest b) \<and>
    (\<exists>m accounts. apply_payout_policy (ab_reward_manifest b) (ab_prior_balances b) (ab_payout_policy b) = Inr m \<and>
       ab_payout_policy_manifest b = m\<lparr>ppm_accounts := accounts\<rparr> \<and>
       (ab_settlement_mode_decision b = None \<longrightarrow> ab_payout_policy_manifest b = m)) \<and>
    (ab_settlement_mode_decision b \<noteq> None \<longrightarrow> list_all (fanout_attached X b) (bundle_manifests b) \<and>
       distinct (map cm_parent_coinbase_vout (bundle_manifests b))) \<and>
    (\<exists>es root. bundle_covers b es \<and> committed_root X b root \<and>
       build_manifest X (coinbase_request_of (ab_reward_manifest b) es root (ab_witness_merkle_leaves_hex b)
         (ab_coinbase_script_sig_suffix_hex b) (ab_payout_policy_manifest b)) =
       Inr (spm_manifest (ab_signed_coinbase_manifest b)))"
  by (rule verified_view [OF assms]) (auto simp: list_all_iff)

text \<open>
  C2. Nothing in a verified bundle is taken on trust. Its schema is the one its shares call for.
  The reward manifest is the one of the window its shares and its found block give under its
  cut, and the attestation, signed by the ledger writer, speaks of that block, of the counted
  shares of that window and of the prior balances. The policy manifest is the policy applied to
  the two, with the fanout fees charged if there is a fee policy. A pool fee that must come first is
  output zero of the coinbase and settled directly. There are as many fanouts as chunks, in order,
  each sound and hanging off an output of its own of this coinbase; the direct recipients and
  the fanouts together cover the on-chain entitlements, each once. The commitment leaves are those
  of the two manifests and the fanouts and no others, the claimed root is their Merkle root, and
  the signed coinbase is the one the entitlements and that root give, with the root as its
  witness nonce. The report states this coinbase and the hash of the bundle's canonical bytes.
\<close>

theorem verified_bundle_sound:
  assumes "verify_audit_view X b writer = Inr report"
  shows "ab_schema b = (if \<exists>s \<in> set (ab_shares b). sh_credit_policy s \<noteq> None
      then ''qbit.prism.audit-bundle.v1.1'' else ''qbit.prism.audit-bundle.v1'') \<and>
    coinbase_signed X (ab_signed_coinbase_manifest b) \<and>
    (\<exists>w. compute_prism_window_in_cut (ab_shares b) (ab_found_block b) (rm_cut (ab_reward_manifest b)) = Inr w \<and>
       ab_reward_manifest b = manifest_of_window (ab_found_block b) (rm_cut (ab_reward_manifest b)) w
         (share_slice_digest_hex X (pw_shares w)) \<and>
       window_attested X b writer (pw_shares w)) \<and>
    (\<exists>m. apply_payout_policy (ab_reward_manifest b) (ab_prior_balances b) (ab_payout_policy b) = Inr m \<and>
       (case (ab_settlement_mode_decision b, ab_ctv_fanout_fee_policy b) of
          (Some d, Some p) \<Rightarrow> \<exists>fees. apply_ctv_fanout_fee_accounting X m d p = Inr (ab_payout_policy_manifest b, fees)
        | _ \<Rightarrow> ab_payout_policy_manifest b = m)) \<and>
    fee_output_first b \<and> fanouts_attached X b \<and>
    (\<exists>es leaves root. bundle_covers b es \<and> owed_leaves X b leaves \<and> commits_to X b leaves root \<and>
       build_manifest X (coinbase_request_of (ab_reward_manifest b) es root (ab_witness_merkle_leaves_hex b)
         (ab_coinbase_script_sig_suffix_hex b) (ab_payout_policy_manifest b)) =
         Inr (spm_manifest (ab_signed_coinbase_manifest b)) \<and>
       (hex_spec X \<longrightarrow> pm_witness_nonce_hex (spm_manifest (ab_signed_coinbase_manifest b)) = root)) \<and>
    avr_coinbase_value_sats report = fb_coinbase_value_sats (ab_found_block b) \<and>
    avr_coinbase_tx_hex report = pm_coinbase_tx_hex (spm_manifest (ab_signed_coinbase_manifest b)) \<and>
    (\<exists>bytes. write_canonical X b = Inr bytes \<and> avr_audit_bundle_sha256_hex report = sha256_hex X bytes)"
proof (rule verified_checks [OF assms], goal_cases)
  case (1 w m es leaves root)
  note nonce = nonce_is_root [OF _ 1(12,13)]
  have "avr_coinbase_value_sats report = fb_coinbase_value_sats (ab_found_block b) \<and>
    avr_coinbase_tx_hex report = pm_coinbase_tx_hex (spm_manifest (ab_signed_coinbase_manifest b)) \<and>
    (\<exists>bytes. write_canonical X b = Inr bytes \<and> avr_audit_bundle_sha256_hex report = sha256_hex X bytes)"
    using 1(14) by (auto simp: audit_verification_report_def and_then_Inr map_err_Inr)
  then show ?case
    using 1(1-13) nonce unfolding AUDIT_BUNDLE_SCHEMA_V1_1_def AUDIT_BUNDLE_SCHEMA_V1_def by blast
qed

lemma direct_sample_verified:
  obtains body report where "verify_audit_view sample_json (view_from_parts body [sample_work])
      (public_key_hex sample_json sample_ledger_key) = Inr report"
    and "ab_settlement_mode_decision body = None" and "ab_payout_policy_manifest body = plain_manifest"
proof -
  obtain body where body: "build_audit_bundle_body_with_coinbase_options_parallel sample_json [sample_work] sample_block None []
     plain_policy None [] sample_coinbase_key sample_ledger_key (parallelism_new 2 0) = Inr body"
    and fields: "ab_settlement_mode_decision body = None" "ab_payout_policy_manifest body = plain_manifest"
    using sample_direct_built by blast
  obtain bytes where "canonical_audit_bundle_bytes_from_parts sample_json body [sample_work] = Inr bytes"
    using sample_bytes by blast
  from direct_bundle_verifies [OF sample_json_specs(1,4,5) sample_keys(1,2) body this, of "public_key_hex sample_json sample_ledger_key"]
  obtain report where "verify_audit_view sample_json (view_from_parts body [sample_work])
      (public_key_hex sample_json sample_ledger_key) = Inr report"
    by (auto simp: eq_ignore_ascii_case_def)
  with fields show ?thesis
    by (intro that)
qed

theorem verified_bundle_sound_witness:
  "\<exists>b es leaves root. fee_output_first b \<and> es = [sample_weighted ''a'' ''1'' 1 100] \<and> bundle_covers b es \<and>
     owed_leaves sample_json b leaves \<and> length leaves = 1 \<and> commits_to sample_json b leaves root \<and>
     pm_witness_nonce_hex (spm_manifest (ab_signed_coinbase_manifest b)) = root"
proof -
  obtain body report where body: "verify_audit_view sample_json (view_from_parts body [sample_work])
      (public_key_hex sample_json sample_ledger_key) = Inr report"
      "ab_settlement_mode_decision body = None" "ab_payout_policy_manifest body = plain_manifest"
    by (rule direct_sample_verified)
  let ?b = "view_from_parts body [sample_work]"
  from verified_bundle_sound [OF body(1)] obtain es leaves root where facts: "fee_output_first ?b"
      "bundle_covers ?b es" "owed_leaves sample_json ?b leaves" "commits_to sample_json ?b leaves root"
      "hex_spec sample_json \<longrightarrow> pm_witness_nonce_hex (spm_manifest (ab_signed_coinbase_manifest ?b)) = root"
    by blast
  have "es = [sample_weighted ''a'' ''1'' 1 100]"
    using facts(2) body(2,3) by (simp add: bundle_covers_def plain_entitlements)
  moreover have "length leaves = 1"
    using facts(3) body(2) by (auto simp: owed_leaves_def)
  ultimately show ?thesis
    using facts sample_json_specs(1) by blast
qed

lemma applied_total:
  assumes "apply_payout_policy rm bs policy = Inr m"
  shows "sum_list (ent_weights (ppm_onchain_entitlements m)) = unat (rm_coinbase_value_sats rm)"
proof -
  from assms obtain r where r: "build_policy_coinbase_request_with_coinbase_options rm bs policy None [] = Inr (r, m)"
    and ents: "req_entitlements r = ppm_onchain_entitlements m"
    by (auto simp: build_policy_coinbase_request_with_coinbase_options_def)
  from policy_request_Inr [OF r] ents show ?thesis
    by metis
qed

text \<open>
  C1. In a verified bundle whose fanouts state for each recipient what they pay it and charge
  it, the coinbase pays out the block: its outputs are, as a multiset, one for every direct
  recipient and every fanout covenant with exactly its amount, together with the fanouts'
  recipients these are exactly the on-chain entitlements of the policy, and the amounts add up to
  the coinbase value, no satoshi more or less. Without settlement there is no condition.
\<close>

theorem verified_bundle_pays:
  assumes "verify_audit_view X b writer = Inr report" and "hex_spec X"
    and "ab_settlement_mode_decision b \<noteq> None \<Longrightarrow> list_all fanout_balanced (bundle_manifests b)"
  shows "\<exists>es. bundle_covers b es \<and>
    mset (map listed_payment (pm_outputs (spm_manifest (ab_signed_coinbase_manifest b)))) = mset (map entitled_payment es) \<and>
    sum_list (map (unat \<circ> po_amount_sats) (pm_outputs (spm_manifest (ab_signed_coinbase_manifest b)))) =
      unat (fb_coinbase_value_sats (ab_found_block b))"
proof -
  let ?rm = "ab_reward_manifest b"
  note facts = verified_facts [OF assms(1)]
  from facts have rm: "build_prism_reward_manifest_with_cut X (ab_shares b) (ab_found_block b) (rm_cut ?rm) = Inr ?rm"
    by blast
  from facts obtain m accounts where m: "apply_payout_policy ?rm (ab_prior_balances b) (ab_payout_policy b) = Inr m"
    and pm: "ab_payout_policy_manifest b = m\<lparr>ppm_accounts := accounts\<rparr>"
    by blast
  from facts obtain es root where es: "bundle_covers b es"
    and cm: "build_manifest X (coinbase_request_of ?rm es root (ab_witness_merkle_leaves_hex b)
      (ab_coinbase_script_sig_suffix_hex b) (ab_payout_policy_manifest b)) = Inr (spm_manifest (ab_signed_coinbase_manifest b))"
    by blast
  have att: "ab_settlement_mode_decision b \<noteq> None \<Longrightarrow> list_all (fanout_attached X b) (bundle_manifests b)"
    using facts by blast
  have "sum_list (ent_weights es) = sum_list (ent_weights (ppm_onchain_entitlements (ab_payout_policy_manifest b)))"
    using att assms(3) by (intro balanced_weights [OF es]) (auto simp: list_all_iff)
  then have total: "sum_list (ent_weights (req_entitlements (coinbase_request_of ?rm es root (ab_witness_merkle_leaves_hex b)
      (ab_coinbase_script_sig_suffix_hex b) (ab_payout_policy_manifest b)))) =
    unat (req_coinbase_value_sats (coinbase_request_of ?rm es root (ab_witness_merkle_leaves_hex b)
      (ab_coinbase_script_sig_suffix_hex b) (ab_payout_policy_manifest b)))"
    using applied_total [OF m] by (simp add: coinbase_request_of_def pm)
  from manifest_pays [OF assms(2) cm total] es manifest_with_cut(3) [OF rm] show ?thesis
    by (auto simp: coinbase_request_of_def)
qed

theorem verified_bundle_pays_witness:
  "\<exists>b :: audit_view. mset (map listed_payment (pm_outputs (spm_manifest (ab_signed_coinbase_manifest b)))) =
     {#(''a'', ''1'', sample_program 1, 100)#} \<and> ab_shares b = [sample_work]"
proof -
  obtain body report where body: "verify_audit_view sample_json (view_from_parts body [sample_work])
      (public_key_hex sample_json sample_ledger_key) = Inr report"
      "ab_settlement_mode_decision body = None" "ab_payout_policy_manifest body = plain_manifest"
    by (rule direct_sample_verified)
  have "entitled_payment (sample_weighted ''a'' ''1'' 1 100) = (''a'', ''1'', sample_program 1, 100)"
    by (simp add: entitled_payment_def sample_weighted_def sample_program_lower)
  moreover have "ab_settlement_mode_decision (view_from_parts body [sample_work]) \<noteq> None \<Longrightarrow>
      list_all fanout_balanced (bundle_manifests (view_from_parts body [sample_work]))"
    by (simp add: body(2))
  from verified_bundle_pays [OF body(1) sample_json_specs(1) this]
  have "mset (map listed_payment (pm_outputs (spm_manifest (ab_signed_coinbase_manifest body)))) =
      {#entitled_payment (sample_weighted ''a'' ''1'' 1 100)#}"
    by (auto simp: bundle_covers_def plain_entitlements body(2,3))
  ultimately show ?thesis
    by (intro exI [of _ "view_from_parts body [sample_work]"]) simp
qed

section \<open>What the verifier does not look at\<close>

text \<open>
  C35. The verifier does not audit the fanout fees. Replace the fees the builder derived from
  the bundle's fee policy by any others that leave every recipient's gross amount alone, and
  build the rest of the bundle as the builder does: it is accepted with the same fee policy and
  the same policy manifest. The covered amounts are read from the gross amounts only, and
  neither the fee nor the net amount of a fanout output is compared with the fee accounting.
\<close>

theorem fanout_fees_unaudited:
  assumes specs: "hex_spec X" "hex_format_spec X" "sha256_spec X" "ed25519_spec X" "json_spec X"
      "length coinbase_key = 32" "length ledger_key = 32"
    and "build_prism_reward_manifest_with_cut X shares fb wcut = Inr rm"
    and "build_ledger_window_attestation X rm bs ledger_key = Inr att"
    and "derive_settlement X rm bs policy floor config fp = Inr (pm, d, fees)"
    and "reward_manifest_sha256 X rm (parallelism_new workers chunk_len) = Inr rh" and "policy_manifest_sha256 X pm = Inr ph"
    and "assemble_settlement X shares fb bs policy fp sfx leaves coinbase_key rm att pm d charged rh ph = Inr body"
    and agree: "\<forall>r \<in> set (fanout_recipients_of d). fees_agree charged r"
    and "canonical_audit_bundle_bytes_from_parts X body shares = Inr bytes"
    and "fb_coinbase_value_sats fb \<le> QBIT_MAX_MONEY_SATS"
    and lower: "\<forall>e \<in> set (ppm_onchain_entitlements pm). to_ascii_lowercase (ent_p2mr_program_hex e) = ent_p2mr_program_hex e"
  shows "\<exists>report. verify_audit_parts X body shares (public_key_hex X ledger_key) = Inr report"
proof -
  have "eq_ignore_ascii_case (public_key_hex X ledger_key) (public_key_hex X ledger_key)"
    by (simp add: eq_ignore_ascii_case_def)
  from assembled_bundle_ok [OF specs assms(8-13) _ assms(15) this assms(16)] agree lower show ?thesis
    unfolding verify_audit_parts_def by blast
qed

text \<open>
  The one miner of the sample block, without a fee policy: the settlement charges nothing, the
  bundle below charges 99 of its 100 satoshis and pays out one.
\<close>

theorem fanout_fees_unaudited_witness:
  "\<exists>body report ms m. ab_ctv_fanout_fee_policy body = None \<and>
     ab_ctv_fanout_manifest_set body = Some ms \<and> cms_manifests ms = [m] \<and>
     outputs_sum (pc_outputs (cm_precommitment m)) = 1 \<and>
     verify_audit_parts sample_json body [sample_work] (public_key_hex sample_json sample_ledger_key) = Inr report"
proof -
  obtain att where att: "build_ledger_window_attestation sample_json sample_window_manifest [] sample_ledger_key = Inr att"
    using sample_attested by blast
  obtain rh ph where hashes: "reward_manifest_sha256 sample_json sample_window_manifest (parallelism_new 2 0) = Inr rh"
      "policy_manifest_sha256 sample_json plain_manifest = Inr ph" "length rh = 32" "length ph = 32"
    using sample_hashed by meson
  let ?pay = "payout_of_recipient (fee_charged 99) fanout_recipient"
  have agree: "fees_agree (fee_charged 99) fanout_recipient"
    by (simp add: fees_agree_def fee_charged_def recipient_key_def) (simp add: fanout_recipient_def)
  have pay: "?pay = \<lparr>cp_recipient_id = ''a'', cp_order_key = ''1'', cp_p2mr_program_hex = sample_program 1,
      cp_gross_amount_sats = 100, cp_fee_sats = 99, cp_amount_sats = 1\<rparr>"
    by (simp add: payout_of_recipient_def fee_charged_def recipient_key_def) (simp add: fanout_recipient_def)
  have "valid_payout sample_json ?pay"
    by (simp add: pay valid_payout_def sample_digest_hex sample_program_def sample_decode_encode P2MR_PROGRAM_LEN_def)
  from fanout_assembled [OF agree this _ hashes(3,4), of att] pay obtain body and ms :: ctv_fanout_manifest_set and m where
      built: "assemble_settlement sample_json [sample_work] sample_block [] plain_policy None None [] sample_coinbase_key
        sample_window_manifest att plain_manifest fanout_decision (fee_charged 99) rh ph = Inr body"
      and ms: "ab_ctv_fanout_manifest_set body = Some ms" "cms_manifests ms = [m]"
      and paid_one: "outputs_sum (pc_outputs (cm_precommitment m)) = 1"
    by auto
  obtain bytes where bytes: "canonical_audit_bundle_bytes_from_parts sample_json body [sample_work] = Inr bytes"
    using sample_bytes by blast
  have money: "fb_coinbase_value_sats sample_block \<le> QBIT_MAX_MONEY_SATS"
    by (simp add: sample_block_def QBIT_MAX_MONEY_SATS_def)
  have covered: "\<forall>r \<in> set (fanout_recipients_of fanout_decision). fees_agree (fee_charged 99) r"
    using agree fanout_selected by simp
  have "\<forall>e \<in> set (ppm_onchain_entitlements plain_manifest). to_ascii_lowercase (ent_p2mr_program_hex e) = ent_p2mr_program_hex e"
    by (simp add: plain_entitlements sample_weighted_def sample_program_lower)
  from fanout_fees_unaudited [OF sample_json_specs sample_keys(1,2) sample_window_built att fanout_derived hashes(1,2) built
      covered bytes money this]
  obtain report where "verify_audit_parts sample_json body [sample_work] (public_key_hex sample_json sample_ledger_key) = Inr report"
    by blast
  moreover have "ab_ctv_fanout_fee_policy body = None"
    using built by (rule assembled_body) simp
  ultimately show ?thesis
    using ms paid_one by blast
qed

section \<open>The split hash\<close>

text \<open>
  C36. The digest of a bundle does not depend on how it was computed: hashing the prefix up to
  the payout window and then the rest, each written by any number of workers in chunks of any
  length, gives the hash of the bundle's canonical bytes, fails with the same error when a writer
  fails, and refuses a body whose schema is not the one of its shares. The tee that also hashes
  the array of shares changes nothing.
\<close>

theorem split_hash_is_bundle_hash:
  assumes "json_spec X"
  shows "(and_then (map_err PrismJson (hash_prefix_new_with X shares p)) (\<lambda>pre. hash_finish_with X pre body q) =
      (if ab_schema body = audit_bundle_schema_for_shares shares
       then map_err PrismJson (and_then (canonical_audit_bundle_bytes_from_parts X body shares) (\<lambda>bytes.
         Inr (hex_encode X (sha256_digest X bytes))))
       else and_then (map_err PrismJson (hash_prefix_new X shares)) (\<lambda>_. Inl (AuditMismatch ''schema'')))) \<and>
    hash_prefix_new_with_share_digest X shares p = and_then (hash_prefix_new_with X shares p) (\<lambda>pre.
      and_then (json_accepted_shares X shares) (\<lambda>bytes. Inr (pre, sha256_digest X bytes)))"
proof (rule conjI)
  show "hash_prefix_new_with_share_digest X shares p = and_then (hash_prefix_new_with X shares p) (\<lambda>pre.
      and_then (json_accepted_shares X shares) (\<lambda>bytes. Inr (pre, sha256_digest X bytes)))"
    using prefix_constructors [OF assms] by simp
next
  have refused: "hp_schema pre = audit_bundle_schema_for_shares shares" if "hash_prefix_new X shares = Inr pre" for pre
    using that by (auto simp: hash_prefix_new_def Let_def and_then_Inr)
  show "and_then (map_err PrismJson (hash_prefix_new_with X shares p)) (\<lambda>pre. hash_finish_with X pre body q) =
      (if ab_schema body = audit_bundle_schema_for_shares shares
       then map_err PrismJson (and_then (canonical_audit_bundle_bytes_from_parts X body shares) (\<lambda>bytes.
         Inr (hex_encode X (sha256_digest X bytes))))
       else and_then (map_err PrismJson (hash_prefix_new X shares)) (\<lambda>_. Inl (AuditMismatch ''schema'')))"
  proof (cases "ab_schema body = audit_bundle_schema_for_shares shares")
    case True
    then show ?thesis using split_hash [OF assms True, of p q] by simp
  next
    case False
    then show ?thesis
      using refused by (cases "hash_prefix_new X shares") (simp_all add: prefix_constructors(1) [OF assms] hash_finish_with_def)
  qed
qed

theorem split_hash_is_bundle_hash_witness:
  "\<exists>digest body. and_then (map_err PrismJson (hash_prefix_new_with sample_json [sample_work] (parallelism_new 2 0)))
     (\<lambda>pre. hash_finish_with sample_json pre body (parallelism_new 3 1)) = Inr digest"
proof -
  obtain body :: audit_bundle_body where "ab_schema body = audit_bundle_schema_for_shares [sample_work]"
    by (metis audit_bundle_body.select_convs(1))
  moreover obtain bytes where "canonical_audit_bundle_bytes_from_parts sample_json body [sample_work] = Inr bytes"
    using sample_bytes by blast
  ultimately show ?thesis
    using split_hash_is_bundle_hash [OF sample_json_specs(5), of "[sample_work]" "parallelism_new 2 0" body "parallelism_new 3 1"]
    by auto
qed

end
