(* ===== verification/Retained_Jobs.thy ===== *)
theory Retained_Jobs
  imports Rust_Std "HOL-Library.AList" "HOL-Library.Sublist"
begin

text \<open>
  What a Stratum session keeps of the work it has handed out, \<open>stratum/retained_jobs.rs\<close> and
  \<open>stratum/stale_grace.rs\<close> of \<open>qbit-prism-server\<close>, with the two places of \<open>stratum.rs\<close> that
  add work: a delivery and the resume of an unknown job. Active jobs are a queue; older ones are
  buried in a graveyard, capped by kind and in total. An \<open>Instant\<close> is a number of nanoseconds,
  and an operation reads the clock once. The two comparisons of an age in floating point with a
  configured number of seconds are predicates of the configuration. A hash map is an association
  list with distinct keys; its order is never looked at.
\<close>

section \<open>Jobs\<close>

datatype job_kind = Credit | BlockOnly

text \<open>The fields the retention looks at; \<open>ij_work\<close> stands for the rest of the mining job.\<close>

record ('p, 'w) issued_job =
  ij_job_id :: string
  ij_previousblockhash :: string
  ij_payout_revision :: i64
  ij_kind :: job_kind
  ij_resume_expires_at :: "nat option"
  ij_username :: string
  ij_authorization_permit :: "'p option"
  ij_retired_at :: "nat option"
  ij_work :: 'w

record stratum_config =
  sc_max_jobs_per_connection :: nat
  sc_within_retention :: "nat \<Rightarrow> bool"
  sc_within_retirement :: "nat \<Rightarrow> bool"
  sc_stale_grace :: nat

definition supersedes :: "('p, 'w) issued_job \<Rightarrow> ('p, 'w) issued_job \<Rightarrow> bool" where
  "supersedes replacement prior \<longleftrightarrow>
     ij_previousblockhash prior = ij_previousblockhash replacement \<and>
     ij_payout_revision prior \<noteq> ij_payout_revision replacement"

definition retire_to_block_only :: "('p, 'w) issued_job \<Rightarrow> ('p, 'w) issued_job" where
  "retire_to_block_only issued = issued\<lparr>ij_authorization_permit := None, ij_kind := BlockOnly\<rparr>"

section \<open>The graveyard\<close>

record ('p, 'w) retained_jobs =
  rj_jobs :: "(string \<times> ('p, 'w) issued_job) list"
  rj_order :: "string list"

definition retained_default :: "('p, 'w) retained_jobs" where
  "retained_default = \<lparr>rj_jobs = [], rj_order = []\<rparr>"

definition retained_is_empty :: "('p, 'w) retained_jobs \<Rightarrow> bool" where
  "retained_is_empty r \<longleftrightarrow> rj_jobs r = []"

definition retained_get :: "('p, 'w) retained_jobs \<Rightarrow> string \<Rightarrow> ('p, 'w) issued_job option" where
  "retained_get r jid = map_of (rj_jobs r) jid"

fun find_map :: "('a \<Rightarrow> 'b option) \<Rightarrow> 'a list \<Rightarrow> 'b option" where
  "find_map f [] = None"
| "find_map f (x # xs) = (case f x of None \<Rightarrow> find_map f xs | Some y \<Rightarrow> Some y)"

definition retained_permit :: "('p, 'w) retained_jobs \<Rightarrow> string \<Rightarrow> 'p option" where
  "retained_permit r username =
     find_map ij_authorization_permit (filter (\<lambda>job. ij_username job = username)
       (List.map_filter (retained_get r) (rev (rj_order r))))"

definition capped_job :: "job_kind \<Rightarrow> string option \<Rightarrow> ('p, 'w) issued_job \<Rightarrow> bool" where
  "capped_job kind published_tip job \<longleftrightarrow>
     ij_kind job = kind \<and> (case published_tip of None \<Rightarrow> True | Some tip \<Rightarrow> ij_previousblockhash job = tip)"

fun cap_same_tip ::
    "nat \<Rightarrow> (('p, 'w) issued_job \<Rightarrow> bool) \<Rightarrow> string list \<Rightarrow> (string \<times> ('p, 'w) issued_job) list \<Rightarrow> nat \<Rightarrow>
     string list \<times> (string \<times> ('p, 'w) issued_job) list" where
  "cap_same_tip max_jobs capped [] jobs same_tip = ([], jobs)"
| "cap_same_tip max_jobs capped (jid # ids) jobs same_tip =
     (if max_jobs < same_tip \<and> (case map_of jobs jid of None \<Rightarrow> False | Some job \<Rightarrow> capped job)
      then cap_same_tip max_jobs capped ids (AList.delete jid jobs) (same_tip - 1)
      else
        let (kept, jobs) = cap_same_tip max_jobs capped ids jobs same_tip in (jid # kept, jobs))"

fun cap_total ::
    "nat \<Rightarrow> string list \<Rightarrow> (string \<times> ('p, 'w) issued_job) list \<Rightarrow> string list \<times> (string \<times> ('p, 'w) issued_job) list" where
  "cap_total bound [] jobs = ([], jobs)"
| "cap_total bound (jid # ids) jobs =
     (if bound < length (jid # ids) then cap_total bound ids (AList.delete jid jobs) else (jid # ids, jobs))"

definition usize_saturating_mul :: "nat \<Rightarrow> nat \<Rightarrow> nat" where
  "usize_saturating_mul a b = min (a * b) (2 ^ 64 - 1)"

definition retained_cap ::
    "job_kind \<Rightarrow> stratum_config \<Rightarrow> string option \<Rightarrow> ('p, 'w) retained_jobs \<Rightarrow> ('p, 'w) retained_jobs" where
  "retained_cap kind config published_tip r =
     (let capped = capped_job kind published_tip;
          same_tip = length (filter (\<lambda>(_, job). capped job) (rj_jobs r));
          (order, jobs) = cap_same_tip (sc_max_jobs_per_connection config) capped (rj_order r) (rj_jobs r) same_tip;
          (order, jobs) = cap_total (usize_saturating_mul (sc_max_jobs_per_connection config) 3) order jobs in
      \<lparr>rj_jobs = jobs, rj_order = order\<rparr>)"

definition retained_bury ::
    "('p, 'w) issued_job \<Rightarrow> stratum_config \<Rightarrow> string option \<Rightarrow> nat \<Rightarrow> ('p, 'w) retained_jobs \<Rightarrow> ('p, 'w) retained_jobs" where
  "retained_bury job config published_tip now r =
     (let jid = ij_job_id job; kind = ij_kind job;
          order = filter (\<lambda>old. old \<noteq> jid) (rj_order r);
          job = job\<lparr>ij_retired_at := Some now\<rparr> in
      retained_cap kind config published_tip
        \<lparr>rj_jobs = AList.update jid job (rj_jobs r), rj_order = order @ [jid]\<rparr>)"

definition retire_superseded ::
    "('p, 'w) issued_job \<Rightarrow> stratum_config \<Rightarrow> string option \<Rightarrow> ('p, 'w) retained_jobs \<Rightarrow> ('p, 'w) retained_jobs" where
  "retire_superseded replacement config published_tip r =
     retained_cap BlockOnly config published_tip
       (r\<lparr>rj_jobs := map (\<lambda>(jid, job). (jid, if supersedes replacement job then retire_to_block_only job else job)) (rj_jobs r)\<rparr>)"

section \<open>Grace for the previous parent\<close>

record retention_tip =
  rt_hash :: string
  rt_parent :: "string option"
  rt_transitioned :: bool

record stale_grace =
  sg_interval :: nat
  sg_delivered :: "(string \<times> nat) option"
  sg_checked_at :: nat

definition for_connection :: "nat \<Rightarrow> (string \<times> nat) option \<Rightarrow> nat \<Rightarrow> stale_grace" where
  "for_connection interval delivered now = \<lparr>sg_interval = interval, sg_delivered = delivered, sg_checked_at = now\<rparr>"

text \<open>\<open>saturating_duration_since\<close> is subtraction on the natural numbers.\<close>

definition eligible_for :: "stale_grace \<Rightarrow> string \<Rightarrow> bool" where
  "eligible_for grace current_tip \<longleftrightarrow>
     sg_interval grace \<noteq> 0 \<and>
     (case sg_delivered grace of None \<Rightarrow> True
      | Some (tip, at) \<Rightarrow> tip \<noteq> current_tip \<or> sg_checked_at grace - at \<le> sg_interval grace)"

definition keeps_previous :: "retention_tip \<Rightarrow> string \<Rightarrow> stale_grace \<Rightarrow> bool" where
  "keeps_previous tip parent grace \<longleftrightarrow>
     rt_transitioned tip \<and> rt_hash tip \<noteq> parent \<and> eligible_for grace (rt_hash tip) \<and>
     (case rt_parent tip of None \<Rightarrow> True | Some previous \<Rightarrow> previous = parent)"

definition expired :: "nat \<Rightarrow> ('p, 'w) issued_job \<Rightarrow> bool" where
  "expired now issued \<longleftrightarrow> (case ij_resume_expires_at issued of None \<Rightarrow> False | Some expiry \<Rightarrow> expiry \<le> now)"

definition retained_keeps ::
    "stratum_config \<Rightarrow> retention_tip option \<Rightarrow> stale_grace \<Rightarrow> nat \<Rightarrow> ('p, 'w) issued_job \<Rightarrow> bool" where
  "retained_keeps config tip grace now issued \<longleftrightarrow>
     (if expired now issued then False
      else
        let aged = (case ij_retired_at issued of None \<Rightarrow> False
          | Some buried \<Rightarrow> sc_within_retention config (now - buried)) in
        case tip of
          None \<Rightarrow> aged
        | Some tip \<Rightarrow>
            if rt_hash tip \<noteq> ij_previousblockhash issued
            then ij_kind issued = Credit \<and> keeps_previous tip (ij_previousblockhash issued) grace
            else aged)"

definition retained_prune ::
    "stratum_config \<Rightarrow> retention_tip option \<Rightarrow> stale_grace \<Rightarrow> nat \<Rightarrow> ('p, 'w) retained_jobs \<Rightarrow> ('p, 'w) retained_jobs" where
  "retained_prune config tip grace now r =
     (let jobs = filter (\<lambda>(_, issued). retained_keeps config tip grace now issued) (rj_jobs r) in
      \<lparr>rj_jobs = jobs, rj_order = filter (\<lambda>jid. map_of jobs jid \<noteq> None) (rj_order r)\<rparr>)"

section \<open>The session\<close>

record ('p, 'w) stratum_session =
  ss_jobs :: "('p, 'w) issued_job list"
  ss_retained :: "('p, 'w) retained_jobs"
  ss_tip_work_delivered :: "(string \<times> nat) option"

definition session_new :: "('p, 'w) stratum_session" where
  "session_new = \<lparr>ss_jobs = [], ss_retained = retained_default, ss_tip_work_delivered = None\<rparr>"

definition note_delivery :: "string \<Rightarrow> nat \<Rightarrow> ('p, 'w) stratum_session \<Rightarrow> ('p, 'w) stratum_session" where
  "note_delivery tip now s =
     (if (case ss_tip_work_delivered s of None \<Rightarrow> True | Some (old, _) \<Rightarrow> old \<noteq> tip)
      then s\<lparr>ss_tip_work_delivered := Some (tip, now)\<rparr> else s)"

definition session_grace :: "stratum_config \<Rightarrow> nat \<Rightarrow> ('p, 'w) stratum_session \<Rightarrow> stale_grace" where
  "session_grace config now s = for_connection (sc_stale_grace config) (ss_tip_work_delivered s) now"

definition active_keeps ::
    "stratum_config \<Rightarrow> retention_tip option \<Rightarrow> stale_grace \<Rightarrow> nat \<Rightarrow> ('p, 'w) issued_job \<Rightarrow> bool" where
  "active_keeps config observed_tip grace now issued \<longleftrightarrow>
     (if expired now issued then False
      else if (case observed_tip of None \<Rightarrow> False | Some tip \<Rightarrow> keeps_previous tip (ij_previousblockhash issued) grace) then True
      else (case ij_retired_at issued of None \<Rightarrow> True | Some at \<Rightarrow> sc_within_retirement config (now - at)))"

definition prune_jobs ::
    "stratum_config \<Rightarrow> retention_tip option \<Rightarrow> nat \<Rightarrow> ('p, 'w) stratum_session \<Rightarrow> ('p, 'w) stratum_session" where
  "prune_jobs config observed_tip now s =
     (let grace = session_grace config now s in
      s\<lparr>ss_jobs := filter (active_keeps config observed_tip grace now) (ss_jobs s),
        ss_retained := retained_prune config observed_tip grace now (ss_retained s)\<rparr>)"

text \<open>With a maximum of zero the loop never ends.\<close>

partial_function (option) make_job_room ::
    "stratum_config \<Rightarrow> string option \<Rightarrow> nat \<Rightarrow> ('p, 'w) stratum_session \<Rightarrow> ('p, 'w) stratum_session option" where
  "make_job_room config published_tip now s =
     (if length (ss_jobs s) < sc_max_jobs_per_connection config then Some s
      else make_job_room config published_tip now (case ss_jobs s of
          [] \<Rightarrow> s
        | job # jobs \<Rightarrow> s\<lparr>ss_jobs := jobs, ss_retained := retained_bury job config published_tip now (ss_retained s)\<rparr>))"

definition bury_superseded_step ::
    "('p, 'w) issued_job \<Rightarrow> stratum_config \<Rightarrow> string option \<Rightarrow> nat \<Rightarrow> ('p, 'w) issued_job \<Rightarrow>
     ('p, 'w) issued_job list \<times> ('p, 'w) retained_jobs \<Rightarrow> ('p, 'w) issued_job list \<times> ('p, 'w) retained_jobs" where
  "bury_superseded_step replacement config published_tip now prior = (\<lambda>(kept, r).
     if supersedes replacement prior
     then (kept, retained_bury (retire_to_block_only prior) config published_tip now r)
     else (kept @ [prior], r))"

definition bury_superseded_same_parent ::
    "('p, 'w) issued_job \<Rightarrow> stratum_config \<Rightarrow> string option \<Rightarrow> nat \<Rightarrow> ('p, 'w) stratum_session \<Rightarrow> ('p, 'w) stratum_session" where
  "bury_superseded_same_parent replacement config published_tip now s =
     (let r = retire_superseded replacement config published_tip (ss_retained s);
          (kept, r) = fold (bury_superseded_step replacement config published_tip now) (ss_jobs s) ([], r) in
      s\<lparr>ss_jobs := kept, ss_retained := r\<rparr>)"

text \<open>The end of a delivery, once the work is on the wire, and the resume of an unknown job.\<close>

definition retire_at :: "nat \<Rightarrow> ('p, 'w) issued_job \<Rightarrow> ('p, 'w) issued_job" where
  "retire_at now prior = (case ij_retired_at prior of None \<Rightarrow> prior\<lparr>ij_retired_at := Some now\<rparr> | Some _ \<Rightarrow> prior)"

definition deliver_work ::
    "stratum_config \<Rightarrow> retention_tip option \<Rightarrow> nat \<Rightarrow> ('p, 'w) issued_job \<Rightarrow> ('p, 'w) stratum_session \<Rightarrow>
     ('p, 'w) stratum_session option" where
  "deliver_work config tip now job s =
     (let s = note_delivery (ij_previousblockhash job) now s;
          s = s\<lparr>ss_jobs := map (retire_at now) (ss_jobs s)\<rparr>;
          published_tip = map_option rt_hash tip;
          s = bury_superseded_same_parent job config published_tip now s in
      map_option (\<lambda>s. s\<lparr>ss_jobs := ss_jobs s @ [job\<lparr>ij_retired_at := None\<rparr>]\<rparr>) (make_job_room config published_tip now s))"

definition find_issued :: "('p, 'w) stratum_session \<Rightarrow> string \<Rightarrow> ('p, 'w) issued_job option" where
  "find_issued s jid =
     (case find (\<lambda>job. ij_job_id job = jid) (ss_jobs s) of None \<Rightarrow> retained_get (ss_retained s) jid | Some job \<Rightarrow> Some job)"

definition resume_work ::
    "stratum_config \<Rightarrow> retention_tip option \<Rightarrow> nat \<Rightarrow> ('p, 'w) issued_job \<Rightarrow> ('p, 'w) stratum_session \<Rightarrow>
     ('p, 'w) stratum_session option" where
  "resume_work config tip now job s =
     map_option (\<lambda>s. s\<lparr>ss_jobs := job\<lparr>ij_retired_at := Some now\<rparr> # ss_jobs s\<rparr>)
       (make_job_room config (map_option rt_hash tip) now s)"

text \<open>The reservation a switch back to \<open>username\<close> reuses.\<close>

definition reusable_permit :: "('p, 'w) stratum_session \<Rightarrow> string \<Rightarrow> 'p option" where
  "reusable_permit s username =
     (case (case find (\<lambda>issued. ij_username issued = username) (ss_jobs s) of
         None \<Rightarrow> None | Some issued \<Rightarrow> ij_authorization_permit issued) of
        None \<Rightarrow> retained_permit (ss_retained s) username
      | Some permit \<Rightarrow> Some permit)"

end
