(* ===== verification/Graveyard.thy ===== *)
theory Graveyard
  imports Retained_Jobs
begin

text \<open>
  The graveyard as a list: the hash map and the deque of \<open>RetainedJobs\<close> together represent the
  retained jobs in the order of their burial, and every operation is a plain list operation.
\<close>

section \<open>The abstract graveyard\<close>

definition retained_ok :: "('p, 'w) retained_jobs \<Rightarrow> bool" where
  "retained_ok r \<longleftrightarrow>
     distinct (rj_order r) \<and> distinct (map fst (rj_jobs r)) \<and> set (rj_order r) = dom (map_of (rj_jobs r)) \<and>
     (\<forall>jid job. map_of (rj_jobs r) jid = Some job \<longrightarrow> ij_job_id job = jid)"

definition graveyard :: "('p, 'w) retained_jobs \<Rightarrow> ('p, 'w) issued_job list" where
  "graveyard r = map (the \<circ> map_of (rj_jobs r)) (rj_order r)"

fun evict :: "('a \<Rightarrow> bool) \<Rightarrow> nat \<Rightarrow> 'a list \<Rightarrow> 'a list" where
  "evict P k [] = []"
| "evict P k (x # xs) = (if 0 < k \<and> P x then evict P (k - 1) xs else x # evict P k xs)"

definition cap_jobs ::
    "job_kind \<Rightarrow> stratum_config \<Rightarrow> string option \<Rightarrow> ('p, 'w) issued_job list \<Rightarrow> ('p, 'w) issued_job list" where
  "cap_jobs kind config tip xs =
     (let P = capped_job kind tip; m = sc_max_jobs_per_connection config;
          ys = evict P (length (filter P xs) - m) xs in
      drop (length ys - usize_saturating_mul m 3) ys)"

definition bury_job ::
    "('p, 'w) issued_job \<Rightarrow> stratum_config \<Rightarrow> string option \<Rightarrow> nat \<Rightarrow> ('p, 'w) issued_job list \<Rightarrow> ('p, 'w) issued_job list" where
  "bury_job job config tip now xs =
     cap_jobs (ij_kind job) config tip
       (filter (\<lambda>old. ij_job_id old \<noteq> ij_job_id job) xs @ [job\<lparr>ij_retired_at := Some now\<rparr>])"

definition retire_jobs ::
    "('p, 'w) issued_job \<Rightarrow> stratum_config \<Rightarrow> string option \<Rightarrow> ('p, 'w) issued_job list \<Rightarrow> ('p, 'w) issued_job list" where
  "retire_jobs replacement config tip xs =
     cap_jobs BlockOnly config tip (map (\<lambda>job. if supersedes replacement job then retire_to_block_only job else job) xs)"

lemma evict_filter:
  "filter P (evict P k xs) = drop k (filter P xs)" "filter (\<lambda>x. \<not> P x) (evict P k xs) = filter (\<lambda>x. \<not> P x) xs"
  by (induction P k xs rule: evict.induct) (auto simp: drop_Cons')

lemma evict_subseq: "subseq (evict P k xs) xs"
  by (induction P k xs rule: evict.induct) auto

lemma evict_0 [simp]: "evict P 0 xs = xs"
  by (induction xs) simp_all

lemma length_evict: "length (evict P k xs) \<le> length xs"
  using evict_subseq list_emb_length by blast

section \<open>The representation\<close>

lemma cap_same_tip_list:
  assumes "cap_same_tip m P jids jobs n = (kept, jobs')" and "distinct jids" and "set jids \<subseteq> dom (map_of jobs)"
  shows "map (the \<circ> map_of jobs) kept = evict P (n - m) (map (the \<circ> map_of jobs) jids) \<and>
    set kept \<subseteq> set jids \<and> distinct kept \<and> map_of jobs' = map_of jobs |` (- (set jids - set kept)) \<and>
    (distinct (map fst jobs) \<longrightarrow> distinct (map fst jobs'))"
  using assms
proof (induction m P jids jobs n arbitrary: kept jobs' rule: cap_same_tip.induct)
  case (1 m P jobs n)
  then show ?case by simp
next
  case (2 m P jid jids jobs n)
  from 2(5) obtain job where job: "map_of jobs jid = Some job"
    by auto
  show ?case
  proof (cases "m < n \<and> P job")
    case True
    then have run: "cap_same_tip m P jids (AList.delete jid jobs) (n - 1) = (kept, jobs')"
      using 2(3) job by simp
    have "set jids \<subseteq> dom (map_of (AList.delete jid jobs))"
      using 2(4,5) by (auto simp: delete_conv')
    then have IH: "map (the \<circ> map_of (AList.delete jid jobs)) kept = evict P (n - 1 - m) (map (the \<circ> map_of (AList.delete jid jobs)) jids) \<and>
      set kept \<subseteq> set jids \<and> distinct kept \<and> map_of jobs' = map_of (AList.delete jid jobs) |` (- (set jids - set kept)) \<and>
      (distinct (map fst (AList.delete jid jobs)) \<longrightarrow> distinct (map fst jobs'))"
      using True job 2(4) by (intro 2(1) [OF _ run]) simp_all
    have same: "map (the \<circ> map_of (AList.delete jid jobs)) ys = map (the \<circ> map_of jobs) ys" if "set ys \<subseteq> set jids" for ys
      using that 2(4) by (auto simp: delete_conv')
    have facts: "map (the \<circ> map_of (AList.delete jid jobs)) kept = evict P (n - 1 - m) (map (the \<circ> map_of (AList.delete jid jobs)) jids)"
      "set kept \<subseteq> set jids" "distinct kept" "map_of jobs' = map_of (AList.delete jid jobs) |` (- (set jids - set kept))"
      "distinct (map fst (AList.delete jid jobs)) \<longrightarrow> distinct (map fst jobs')"
      using IH by blast+
    have "map (the \<circ> map_of jobs) kept = evict P (n - 1 - m) (map (the \<circ> map_of jobs) jids)"
      using facts(1,2) same by simp
    moreover have "n - 1 - m = n - m - 1" "0 < n - m"
      using True by auto
    moreover have "map_of jobs' = map_of jobs |` (- (set (jid # jids) - set kept))"
      using facts(2,4) 2(4) by (auto simp: delete_conv' restrict_map_def fun_eq_iff)
    ultimately show ?thesis
      using facts(2,3,5) True job 2(4) distinct_delete [of jobs jid] by (auto simp: comp_def)
  next
    case False
    obtain kept0 where run: "cap_same_tip m P jids jobs n = (kept0, jobs')" and kept: "kept = jid # kept0"
      using False 2(3) job by (auto split: prod.splits)
    have "map (the \<circ> map_of jobs) kept0 = evict P (n - m) (map (the \<circ> map_of jobs) jids) \<and>
        set kept0 \<subseteq> set jids \<and> distinct kept0 \<and> map_of jobs' = map_of jobs |` (- (set jids - set kept0)) \<and>
        (distinct (map fst jobs) \<longrightarrow> distinct (map fst jobs'))"
      using False job 2(4,5) by (intro 2(2) [OF _ run]) simp_all
    moreover have "set (jid # jids) - set kept = set jids - set kept0"
      using 2(4) by (auto simp: kept)
    ultimately show ?thesis
      using False job 2(4) by (auto simp: kept comp_def)
  qed
qed

lemma cap_total_list:
  assumes "cap_total bound jids jobs = (kept, jobs')" and "distinct jids"
  shows "kept = drop (length jids - bound) jids \<and> map_of jobs' = map_of jobs |` (- set (take (length jids - bound) jids)) \<and>
    (distinct (map fst jobs) \<longrightarrow> distinct (map fst jobs'))"
  using assms
proof (induction bound jids jobs rule: cap_total.induct)
  case (1 bound jobs)
  then show ?case by simp
next
  case (2 bound jid jids jobs)
  show ?case
  proof (cases "bound < length (jid # jids)")
    case True
    then have "length (jid # jids) - bound = Suc (length jids - bound)"
      by simp
    moreover have "kept = drop (length jids - bound) jids \<and>
        map_of jobs' = map_of (AList.delete jid jobs) |` (- set (take (length jids - bound) jids)) \<and>
        (distinct (map fst (AList.delete jid jobs)) \<longrightarrow> distinct (map fst jobs'))"
      using 2 True by simp
    ultimately show ?thesis
      using distinct_delete [of jobs jid] by (auto simp: delete_conv' restrict_map_def fun_eq_iff)
  next
    case False
    then show ?thesis
      using 2(2) by (auto simp: restrict_map_def)
  qed
qed

lemma graveyard_mset:
  assumes "retained_ok r"
  shows "mset (graveyard r) = mset (map snd (rj_jobs r))"
proof -
  have ok: "distinct (rj_order r)" "distinct (map fst (rj_jobs r))" "set (rj_order r) = set (map fst (rj_jobs r))"
    using assms by (auto simp: retained_ok_def dom_map_of_conv_image_fst)
  then have "mset (rj_order r) = mset (map fst (rj_jobs r))"
    by (metis set_eq_iff_mset_eq_distinct)
  then have "mset (graveyard r) = mset (map (the \<circ> map_of (rj_jobs r)) (map fst (rj_jobs r)))"
    unfolding graveyard_def by (metis mset_map)
  also have "map (the \<circ> map_of (rj_jobs r)) (map fst (rj_jobs r)) = map snd (rj_jobs r)"
    using ok(2) by (auto simp: map_of_is_SomeI)
  finally show ?thesis .
qed

lemma cap_refines:
  assumes ok: "retained_ok r"
  shows "retained_ok (retained_cap kind config tip r)"
    and "graveyard (retained_cap kind config tip r) = cap_jobs kind config tip (graveyard r)"
proof -
  let ?P = "capped_job kind tip" and ?m = "sc_max_jobs_per_connection config"
  let ?b = "usize_saturating_mul ?m 3"
  let ?n = "length (filter (\<lambda>(_, job). ?P job) (rj_jobs r))"
  have "?n = length (filter ?P (map snd (rj_jobs r)))"
    by (simp add: filter_map comp_def split_def)
  also have "\<dots> = length (filter ?P (graveyard r))"
    using graveyard_mset [OF ok] by (metis mset_filter size_mset)
  finally have n: "?n = length (filter ?P (graveyard r))" .
  obtain o1 j1 where run1: "cap_same_tip ?m ?P (rj_order r) (rj_jobs r) ?n = (o1, j1)"
    by fastforce
  obtain o2 j2 where run2: "cap_total ?b o1 j1 = (o2, j2)"
    by fastforce
  have cap: "retained_cap kind config tip r = \<lparr>rj_jobs = j2, rj_order = o2\<rparr>"
    by (simp add: retained_cap_def run1 run2)
  from ok have r: "distinct (rj_order r)" "distinct (map fst (rj_jobs r))" "set (rj_order r) = dom (map_of (rj_jobs r))"
    "\<forall>jid job. map_of (rj_jobs r) jid = Some job \<longrightarrow> ij_job_id job = jid"
    by (simp_all add: retained_ok_def)
  from cap_same_tip_list [OF run1 r(1)] r(2,3)
  have one: "map (the \<circ> map_of (rj_jobs r)) o1 = evict ?P (?n - ?m) (graveyard r)" "set o1 \<subseteq> set (rj_order r)" "distinct o1"
    "map_of j1 = map_of (rj_jobs r) |` (- (set (rj_order r) - set o1))" "distinct (map fst j1)"
    by (auto simp: graveyard_def)
  from cap_total_list [OF run2 one(3)] one(5)
  have two: "o2 = drop (length o1 - ?b) o1" "map_of j2 = map_of j1 |` (- set (take (length o1 - ?b) o1))" "distinct (map fst j2)"
    by auto
  have split: "set o1 = set (take (length o1 - ?b) o1) \<union> set o2" "set (take (length o1 - ?b) o1) \<inter> set o2 = {}"
    using one(3) unfolding two(1) by (metis append_take_drop_id set_append, metis append_take_drop_id distinct_append)
  have at: "map_of j2 jid = (if jid \<in> set o2 then map_of (rj_jobs r) jid else None)" for jid
  proof -
    have "jid \<notin> set (rj_order r) \<Longrightarrow> map_of (rj_jobs r) jid = None"
      using r(3) by blast
    then show ?thesis
      using split one(2) by (auto simp: two(2) one(4) restrict_map_def)
  qed
  have sub: "set o2 \<subseteq> dom (map_of (rj_jobs r))"
    using split one(2) r(3) by blast
  have "distinct o2"
    using one(3) two(1) by simp
  moreover have "set o2 = dom (map_of j2)"
    using sub by (auto simp: at split: if_splits)
  ultimately show "retained_ok (retained_cap kind config tip r)"
    using two(3) r(4) by (simp add: retained_ok_def cap at)
  have "graveyard (retained_cap kind config tip r) = map (the \<circ> map_of (rj_jobs r)) o2"
    by (simp add: graveyard_def cap at)
  also have "\<dots> = drop (length o1 - ?b) (evict ?P (?n - ?m) (graveyard r))"
    by (simp add: two(1) drop_map one(1) [symmetric])
  also have "length o1 = length (evict ?P (?n - ?m) (graveyard r))"
    using one(1) by (metis length_map)
  finally show "graveyard (retained_cap kind config tip r) = cap_jobs kind config tip (graveyard r)"
    by (simp add: cap_jobs_def Let_def n)
qed


text \<open>Every operation of the graveyard is the operation on the list it represents.\<close>

lemma default_refines: "retained_ok retained_default" "graveyard retained_default = []"
  by (simp_all add: retained_ok_def graveyard_def retained_default_def)

lemma graveyard_ids: "retained_ok r \<Longrightarrow> map ij_job_id (graveyard r) = rj_order r"
  unfolding graveyard_def map_map
  by (rule map_idI) (force simp: retained_ok_def)

lemma get_refines:
  assumes "retained_ok r"
  shows "retained_get r jid = find (\<lambda>job. ij_job_id job = jid) (graveyard r)"
proof -
  have "find (\<lambda>job. ij_job_id job = jid) (map (the \<circ> map_of (rj_jobs r)) ys) =
      (if jid \<in> set ys then map_of (rj_jobs r) jid else None)" if "set ys \<subseteq> set (rj_order r)" for ys
    using that
  proof (induction ys)
    case (Cons y ys)
    then obtain job where "map_of (rj_jobs r) y = Some job" "ij_job_id job = y"
      using assms by (auto simp: retained_ok_def)
    then show ?case
      using Cons by auto
  qed simp
  then show ?thesis
    using assms by (auto simp: graveyard_def retained_get_def retained_ok_def)
qed

lemma empty_refines: "retained_ok r \<Longrightarrow> retained_is_empty r \<longleftrightarrow> graveyard r = []"
  by (auto simp: retained_is_empty_def graveyard_def retained_ok_def dom_map_of_conv_image_fst)

lemma order_found: "retained_ok r \<Longrightarrow> List.map_filter (retained_get r) (rev (rj_order r)) = rev (graveyard r)"
proof -
  assume ok: "retained_ok r"
  have "List.map_filter (map_of (rj_jobs r)) ys = map (the \<circ> map_of (rj_jobs r)) ys" if "set ys \<subseteq> set (rj_order r)" for ys
    using that ok by (induction ys) (auto simp: retained_ok_def map_filter_simps)
  then show ?thesis
    by (simp add: graveyard_def rev_map retained_get_def [abs_def])
qed

lemma permit_refines:
  "retained_ok r \<Longrightarrow> retained_permit r username =
     find_map ij_authorization_permit (filter (\<lambda>job. ij_username job = username) (rev (graveyard r)))"
  by (simp add: retained_permit_def order_found)

lemma bury_refines:
  assumes ok: "retained_ok r"
  shows "retained_ok (retained_bury job config tip now r)"
    and "graveyard (retained_bury job config tip now r) = bury_job job config tip now (graveyard r)"
proof -
  let ?job = "job\<lparr>ij_retired_at := Some now\<rparr>" and ?jid = "ij_job_id job"
  let ?r = "\<lparr>rj_jobs = AList.update ?jid ?job (rj_jobs r), rj_order = filter (\<lambda>old. old \<noteq> ?jid) (rj_order r) @ [?jid]\<rparr>"
  have ok': "retained_ok ?r"
    using ok distinct_update [of "rj_jobs r" ?jid ?job] by (auto simp: retained_ok_def update_conv' split: if_splits)
  have "graveyard ?r = map (the \<circ> map_of (rj_jobs r)) (filter (\<lambda>old. old \<noteq> ?jid) (rj_order r)) @ [?job]"
    by (simp add: graveyard_def update_conv')
  also have "map (the \<circ> map_of (rj_jobs r)) (filter (\<lambda>old. old \<noteq> ?jid) (rj_order r)) =
      filter (\<lambda>old. ij_job_id old \<noteq> ?jid) (graveyard r)"
    unfolding graveyard_def filter_map using ok
    by (intro arg_cong [where f = "map _"] filter_cong) (auto simp: retained_ok_def)
  finally have list: "graveyard ?r = filter (\<lambda>old. ij_job_id old \<noteq> ?jid) (graveyard r) @ [?job]" .
  have bury: "retained_bury job config tip now r = retained_cap (ij_kind job) config tip ?r"
    by (simp add: retained_bury_def Let_def)
  show "retained_ok (retained_bury job config tip now r)"
    unfolding bury by (rule cap_refines [OF ok'])
  show "graveyard (retained_bury job config tip now r) = bury_job job config tip now (graveyard r)"
    unfolding bury cap_refines(2) [OF ok'] list bury_job_def ..
qed

lemma retire_refines:
  assumes ok: "retained_ok r"
  shows "retained_ok (retire_superseded replacement config tip r)"
    and "graveyard (retire_superseded replacement config tip r) = retire_jobs replacement config tip (graveyard r)"
proof -
  let ?f = "\<lambda>job. if supersedes replacement job then retire_to_block_only job else job"
  let ?r = "r\<lparr>rj_jobs := map (\<lambda>(jid, job). (jid, ?f job)) (rj_jobs r)\<rparr>"
  have map: "map_of (rj_jobs ?r) = map_option ?f \<circ> map_of (rj_jobs r)"
    by (simp add: map_of_map)
  have ids: "ij_job_id (retire_to_block_only job) = ij_job_id job" for job :: "('a, 'b) issued_job"
    by (simp add: retire_to_block_only_def)
  have keys: "map fst (rj_jobs ?r) = map fst (rj_jobs r)"
    by (simp add: comp_def split_def)
  have ok': "retained_ok ?r"
    using ok ids unfolding retained_ok_def map keys by (auto simp: dom_def)
  have "graveyard ?r = map ?f (graveyard r)"
    using ok unfolding graveyard_def map map_map by (intro map_cong) (auto simp: retained_ok_def)
  then show "graveyard (retire_superseded replacement config tip r) = retire_jobs replacement config tip (graveyard r)"
    unfolding retire_superseded_def cap_refines(2) [OF ok'] retire_jobs_def by simp
  show "retained_ok (retire_superseded replacement config tip r)"
    unfolding retire_superseded_def by (rule cap_refines [OF ok'])
qed

lemma map_of_filter_values:
  "distinct (map fst xs) \<Longrightarrow> map_of (filter (\<lambda>(_, v). P v) xs) k =
     (case map_of xs k of None \<Rightarrow> None | Some v \<Rightarrow> if P v then Some v else None)"
proof (induction xs)
  case (Cons x xs)
  obtain a v where x: "x = (a, v)" by (cases x)
  then have "map_of xs a = None"
    using Cons.prems by (simp add: map_of_eq_None_iff)
  then show ?case
    using Cons by (auto simp: x)
qed simp

lemma prune_refines:
  assumes ok: "retained_ok r"
  shows "retained_ok (retained_prune config tip grace now r)"
    and "graveyard (retained_prune config tip grace now r) = filter (retained_keeps config tip grace now) (graveyard r)"
proof -
  let ?P = "retained_keeps config tip grace now"
  let ?jobs = "filter (\<lambda>(_, issued). ?P issued) (rj_jobs r)"
  have at: "map_of ?jobs k = (case map_of (rj_jobs r) k of None \<Rightarrow> None | Some v \<Rightarrow> if ?P v then Some v else None)" for k
    using ok by (intro map_of_filter_values) (simp add: retained_ok_def)
  have some: "map_of ?jobs k = Some v \<longleftrightarrow> map_of (rj_jobs r) k = Some v \<and> ?P v" for k v
    by (auto simp: at split: option.splits)
  have "distinct (map fst ?jobs)"
    using ok by (simp add: retained_ok_def distinct_map_filter)
  moreover have "dom (map_of ?jobs) \<subseteq> dom (map_of (rj_jobs r))"
    using some by blast
  then have "set (filter (\<lambda>jid. map_of ?jobs jid \<noteq> None) (rj_order r)) = dom (map_of ?jobs)"
    using ok unfolding retained_ok_def by auto
  ultimately show "retained_ok (retained_prune config tip grace now r)"
    using ok some by (simp add: retained_ok_def retained_prune_def Let_def)
  have "filter (\<lambda>jid. map_of ?jobs jid \<noteq> None) (rj_order r) = filter (\<lambda>jid. ?P (the (map_of (rj_jobs r) jid))) (rj_order r)"
    using ok by (intro filter_cong) (auto simp: retained_ok_def at split: if_splits)
  moreover have "map (the \<circ> map_of ?jobs) (filter (\<lambda>jid. ?P (the (map_of (rj_jobs r) jid))) (rj_order r)) =
      map (the \<circ> map_of (rj_jobs r)) (filter (\<lambda>jid. ?P (the (map_of (rj_jobs r) jid))) (rj_order r))"
    using ok by (intro map_cong) (auto simp: retained_ok_def at split: if_splits)
  ultimately show "graveyard (retained_prune config tip grace now r) = filter ?P (graveyard r)"
    by (simp add: graveyard_def retained_prune_def Let_def filter_map comp_def)
qed

lemmas retained_refines = default_refines cap_refines bury_refines retire_refines prune_refines

end
