(* ===== verification/Retained_Properties.thy ===== *)
theory Retained_Properties
  imports Graveyard
begin

text \<open>
  The properties of the work a session keeps: the graveyard is a bounded list of jobs, the
  session's state machine keeps its bounds, superseded work earns nothing, room is always made,
  and the grace of the previous parent runs from the first delivery on the new one.
\<close>

section \<open>The graveyard\<close>

text \<open>
  C39. The hash map and the deque implement a list of jobs in burial order with distinct ids:
  burying moves a job to the end with its burial time and caps its kind, retiring rewrites the
  superseded jobs in place, pruning filters, and looking up a job or a user's reservation reads
  the list, the reservation from its newest end.
\<close>

theorem graveyard_refines:
  assumes "retained_ok r"
  shows "(retained_ok (retained_bury job config tip now r) \<and>
      graveyard (retained_bury job config tip now r) = bury_job job config tip now (graveyard r)) \<and>
    (retained_ok (retire_superseded job config tip r) \<and>
      graveyard (retire_superseded job config tip r) = retire_jobs job config tip (graveyard r)) \<and>
    (retained_ok (retained_prune config observed grace now r) \<and>
      graveyard (retained_prune config observed grace now r) =
        filter (retained_keeps config observed grace now) (graveyard r)) \<and>
    retained_get r jid = find (\<lambda>job. ij_job_id job = jid) (graveyard r) \<and>
    (retained_is_empty r \<longleftrightarrow> graveyard r = []) \<and>
    retained_permit r username =
      find_map ij_authorization_permit (filter (\<lambda>job. ij_username job = username) (rev (graveyard r)))"
  using assms by (simp add: retained_refines get_refines empty_refines permit_refines)

definition sample_config :: stratum_config where
  "sample_config = \<lparr>sc_max_jobs_per_connection = 1, sc_within_retention = (\<lambda>age. age \<le> 100),
     sc_within_retirement = (\<lambda>age. age \<le> 100), sc_stale_grace = 30\<rparr>"

definition sample_job :: "string \<Rightarrow> string \<Rightarrow> i64 \<Rightarrow> (nat, unit) issued_job" where
  "sample_job jid parent revision =
     \<lparr>ij_job_id = jid, ij_previousblockhash = parent, ij_payout_revision = revision, ij_kind = Credit,
      ij_resume_expires_at = None, ij_username = ''u'', ij_authorization_permit = Some 7, ij_retired_at = None, ij_work = ()\<rparr>"

theorem graveyard_refines_witness:
  "map ij_job_id (graveyard (retained_bury (sample_job ''b'' ''p'' 1) sample_config (Some ''p'') 5
     (retained_bury (sample_job ''a'' ''p'' 1) sample_config (Some ''p'') 4 retained_default))) = [''b'']"
proof -
  note first = graveyard_refines [OF default_refines(1), of "sample_job ''a'' ''p'' 1" sample_config "Some ''p''" 4 None
      "for_connection 0 None 0" "''a''" "''u''", unfolded default_refines(2)]
  then have "retained_ok (retained_bury (sample_job ''a'' ''p'' 1) sample_config (Some ''p'') 4 retained_default)"
    by blast
  from graveyard_refines [OF this, of "sample_job ''b'' ''p'' 1" sample_config "Some ''p''" 5 None
      "for_connection 0 None 0" "''a''" "''u''"] first
  show ?thesis
    by (simp add: bury_job_def cap_jobs_def capped_job_def sample_job_def sample_config_def usize_saturating_mul_def Let_def)
qed

lemma cap_jobs_sub: "subseq (cap_jobs kind config tip xs) xs"
proof -
  let ?ys = "evict (capped_job kind tip) (length (filter (capped_job kind tip) xs) - sc_max_jobs_per_connection config) xs"
  have "subseq (drop n ?ys) ?ys" for n
    by (simp add: subseq_drop_many suffix_drop suffix_imp_subseq)
  then show ?thesis
    using evict_subseq subseq_order.order_trans unfolding cap_jobs_def Let_def by blast
qed

lemma cap_jobs_set: "x \<in> set (cap_jobs kind config tip xs) \<Longrightarrow> x \<in> set xs"
  by (drule list_emb_set [OF cap_jobs_sub]) auto

lemma cap_jobs_bounds:
  "length (filter (capped_job kind tip) (cap_jobs kind config tip xs)) \<le> sc_max_jobs_per_connection config"
  "length (cap_jobs kind config tip xs) \<le> 3 * sc_max_jobs_per_connection config"
proof -
  let ?P = "capped_job kind tip" and ?m = "sc_max_jobs_per_connection config"
  let ?ys = "evict ?P (length (filter ?P xs) - ?m) xs"
  have "length (filter ?P (drop n ?ys)) \<le> length (filter ?P ?ys)" for n
    by (metis append_take_drop_id filter_append le_add2 length_append)
  moreover have "length (filter ?P ?ys) \<le> ?m"
    by (simp add: evict_filter)
  ultimately show "length (filter ?P (cap_jobs kind config tip xs)) \<le> ?m"
    unfolding cap_jobs_def Let_def using le_trans by blast
  have "usize_saturating_mul ?m 3 \<le> 3 * ?m"
    by (simp add: usize_saturating_mul_def)
  then show "length (cap_jobs kind config tip xs) \<le> 3 * ?m"
    unfolding cap_jobs_def Let_def by simp
qed

text \<open>
  What the cap evicts: of the jobs of its kind on the published tip, all but the newest
  \<open>N\<close>, and none of the others, as long as the whole graveyard holds at most \<open>3 N\<close> jobs; beyond
  that the oldest of what is left. So it ends with at most \<open>N\<close> of the kind and \<open>3 N\<close> in all, in
  the old order, and block-only work never displaces credit work below the hard bound.
\<close>

theorem cap_evicts_oldest:
  fixes kind :: job_kind and tip :: "string option"
  assumes "retained_ok r" and "3 * sc_max_jobs_per_connection config < 2 ^ 64"
  defines "P \<equiv> capped_job kind tip" and "m \<equiv> sc_max_jobs_per_connection config"
    and "g \<equiv> graveyard (retained_cap kind config tip r)"
  shows "subseq g (graveyard r) \<and> length (filter P g) \<le> m \<and> length g \<le> 3 * m \<and>
    (length (graveyard r) \<le> 3 * m \<longrightarrow>
       filter P g = drop (length (filter P (graveyard r)) - m) (filter P (graveyard r)) \<and>
       filter (\<lambda>job. \<not> P job) g = filter (\<lambda>job. \<not> P job) (graveyard r))"
proof -
  have g: "g = cap_jobs kind config tip (graveyard r)"
    using cap_refines(2) [OF assms(1)] by (simp add: g_def)
  have "usize_saturating_mul m 3 = 3 * m"
    using assms(2) by (simp add: usize_saturating_mul_def m_def)
  then have "g = evict P (length (filter P (graveyard r)) - m) (graveyard r)" if "length (graveyard r) \<le> 3 * m"
  proof -
    have "length (evict P k (graveyard r)) - 3 * m = 0" for k
      using that length_evict [of P k "graveyard r"] by simp
    then show ?thesis
      using \<open>usize_saturating_mul m 3 = 3 * m\<close> by (simp add: g cap_jobs_def P_def m_def Let_def)
  qed
  then show ?thesis
    using cap_jobs_sub [of kind config tip "graveyard r"] cap_jobs_bounds [where kind = kind and tip = tip and config = config and xs = "graveyard r"]
    by (auto simp: g [symmetric] P_def [symmetric] m_def [symmetric] evict_filter)
qed

theorem cap_evicts_oldest_witness:
  "length (graveyard (retained_cap Credit sample_config None
     (retained_bury (sample_job ''a'' ''p'' 1) sample_config (Some ''p'') 4 retained_default))) \<le> 3"
proof -
  have "retained_ok (retained_bury (sample_job ''a'' ''p'' 1) sample_config (Some ''p'') 4 retained_default)"
    by (rule bury_refines [OF default_refines(1)])
  from cap_evicts_oldest [OF this, of sample_config Credit None] show ?thesis
    by (simp add: sample_config_def)
qed

section \<open>Making room\<close>

definition buried_all ::
    "stratum_config \<Rightarrow> string option \<Rightarrow> nat \<Rightarrow> ('p, 'w) issued_job list \<Rightarrow> ('p, 'w) retained_jobs \<Rightarrow> ('p, 'w) retained_jobs" where
  "buried_all config tip now js r = fold (\<lambda>job. retained_bury job config tip now) js r"

lemma make_room_eq:
  assumes "0 < sc_max_jobs_per_connection config"
  shows "make_job_room config tip now s =
    (let k = Suc (length (ss_jobs s)) - sc_max_jobs_per_connection config in
     Some (s\<lparr>ss_jobs := drop k (ss_jobs s), ss_retained := buried_all config tip now (take k (ss_jobs s)) (ss_retained s)\<rparr>))"
proof (induction "length (ss_jobs s)" arbitrary: s)
  case 0
  then show ?case
    using assms by (subst make_job_room.simps) (simp add: buried_all_def)
next
  case (Suc n)
  let ?m = "sc_max_jobs_per_connection config"
  show ?case
  proof (cases "length (ss_jobs s) < ?m")
    case True
    then show ?thesis
      by (subst make_job_room.simps) (simp add: buried_all_def)
  next
    case False
    obtain job jobs where jobs: "ss_jobs s = job # jobs"
      using Suc(2) by (cases "ss_jobs s") auto
    let ?s = "s\<lparr>ss_jobs := jobs, ss_retained := retained_bury job config tip now (ss_retained s)\<rparr>"
    have "make_job_room config tip now s = make_job_room config tip now ?s"
      using False by (subst make_job_room.simps) (simp add: jobs)
    moreover have "Suc (length (ss_jobs s)) - ?m = Suc (Suc (length jobs) - ?m)"
      using False jobs by simp
    moreover have "length (ss_jobs ?s) = n"
      using Suc(2) jobs by simp
    note Suc(1) [OF this [symmetric]]
    ultimately show ?thesis
      by (simp add: buried_all_def jobs Let_def)
  qed
qed

lemma make_room_fits:
  "make_job_room config tip now s = Some s' \<Longrightarrow> length (ss_jobs s') < sc_max_jobs_per_connection config"
  by (erule make_job_room.raw_induct [where P = "\<lambda>config tip now s s'. length (ss_jobs s') < sc_max_jobs_per_connection config", rotated])
    (auto split: if_splits list.splits)

text \<open>
  Making room returns exactly when the configured maximum is positive, which the
  configuration demands; then the oldest jobs are buried, in order, until one more fits. With a
  maximum of zero the loop does not end, whatever the session holds.
\<close>

theorem room_is_made_iff:
  "(\<exists>s'. make_job_room config tip now s = Some s') \<longleftrightarrow> 0 < sc_max_jobs_per_connection config"
    (is "?returns \<longleftrightarrow> _")
proof
  assume ?returns
  then show "0 < sc_max_jobs_per_connection config"
    using make_room_fits by (metis not_less0 gr0I)
next
  assume "0 < sc_max_jobs_per_connection config"
  then show ?returns
    by (simp add: make_room_eq Let_def)
qed


section \<open>The session\<close>

text \<open>What any number of burials and retirements does to the list of retained jobs.\<close>

lemma buried_all_refines:
  assumes "retained_ok r"
  shows "retained_ok (buried_all config tip now js r) \<and>
    graveyard (buried_all config tip now js r) = fold (\<lambda>job. bury_job job config tip now) js (graveyard r)"
  using assms by (induction js arbitrary: r) (simp_all add: buried_all_def bury_refines)

lemma bury_job_set:
  "x \<in> set (bury_job job config tip now xs) \<Longrightarrow> x \<in> set xs \<or> x = job\<lparr>ij_retired_at := Some now\<rparr>"
  by (auto simp: bury_job_def dest!: cap_jobs_set)

lemma buried_set:
  "x \<in> set (fold (\<lambda>job. bury_job job config tip now) js xs) \<Longrightarrow>
     x \<in> set xs \<or> (\<exists>job \<in> set js. x = job\<lparr>ij_retired_at := Some now\<rparr>)"
  by (induction js arbitrary: xs) (fastforce dest: bury_job_set)+

lemma retire_jobs_set:
  "x \<in> set (retire_jobs job config tip xs) \<Longrightarrow>
     \<exists>y \<in> set xs. x = (if supersedes job y then retire_to_block_only y else y)"
  by (auto simp: retire_jobs_def dest!: cap_jobs_set)

lemma bury_job_bound: "length (bury_job job config tip now xs) \<le> 3 * sc_max_jobs_per_connection config"
  unfolding bury_job_def by (rule cap_jobs_bounds(2))

lemma buried_bound:
  "length xs \<le> 3 * sc_max_jobs_per_connection config \<Longrightarrow>
     length (fold (\<lambda>job. bury_job job config tip now) js xs) \<le> 3 * sc_max_jobs_per_connection config"
  by (induction js arbitrary: xs) (simp_all add: bury_job_bound)

lemma block_only_bound:
  assumes "length (filter (capped_job BlockOnly tip) xs) \<le> sc_max_jobs_per_connection config"
  shows "length (filter (capped_job BlockOnly tip) (fold (\<lambda>job. bury_job job config tip now) js xs)) \<le>
    sc_max_jobs_per_connection config"
  using assms
proof (induction js arbitrary: xs)
  case (Cons job js)
  let ?P = "capped_job BlockOnly tip" and ?m = "sc_max_jobs_per_connection config"
  have "length (filter ?P (bury_job job config tip now xs)) \<le> ?m"
  proof (cases "ij_kind job")
    case Credit
    let ?ys = "filter (\<lambda>old. ij_job_id old \<noteq> ij_job_id job) xs @ [job\<lparr>ij_retired_at := Some now\<rparr>]"
    have "subseq (filter ?P (cap_jobs Credit config tip ?ys)) (filter ?P ?ys)"
      by (intro subseq_filter cap_jobs_sub)
    then have "length (filter ?P (bury_job job config tip now xs)) \<le> length (filter ?P ?ys)"
      unfolding bury_job_def Credit by (rule list_emb_length)
    also have "\<dots> = length (filter (\<lambda>old. ij_job_id old \<noteq> ij_job_id job) (filter ?P xs))"
      using Credit by (simp add: capped_job_def conj_commute)
    also have "\<dots> \<le> ?m"
      using Cons.prems by (meson le_trans length_filter_le)
    finally show ?thesis .
  next
    case BlockOnly
    then show ?thesis
      using cap_jobs_bounds(1) by (auto simp: bury_job_def)
  qed
  then show ?case
    using Cons.IH by simp
qed simp

lemma superseded_eq:
  "bury_superseded_same_parent job config tip now s =
     s\<lparr>ss_jobs := filter (\<lambda>prior. \<not> supersedes job prior) (ss_jobs s),
       ss_retained := buried_all config tip now (map retire_to_block_only (filter (supersedes job) (ss_jobs s)))
         (retire_superseded job config tip (ss_retained s))\<rparr>"
proof -
  have "fold (bury_superseded_step job config tip now) js (kept, r) =
      (kept @ filter (\<lambda>prior. \<not> supersedes job prior) js,
       buried_all config tip now (map retire_to_block_only (filter (supersedes job) js)) r)" for js kept r
    by (induction js arbitrary: kept r) (simp_all add: bury_superseded_step_def buried_all_def)
  then show ?thesis
    by (simp add: bury_superseded_same_parent_def Let_def)
qed

text \<open>A delivery, spelled out: the active jobs it buries to make room and the ones it keeps.\<close>

lemma deliver_cases:
  assumes m: "0 < sc_max_jobs_per_connection config" and run: "deliver_work config tip now job s = Some s'"
    and ok: "retained_ok (ss_retained s)"
  obtains moved kept where "map (retire_at now) (filter (\<lambda>prior. \<not> supersedes job prior) (ss_jobs s)) = moved @ kept"
    and "set moved \<union> set kept = retire_at now ` {prior \<in> set (ss_jobs s). \<not> supersedes job prior}"
    and "length kept < sc_max_jobs_per_connection config" and "ss_jobs s' = kept @ [job\<lparr>ij_retired_at := None\<rparr>]"
    and "retained_ok (ss_retained s')"
    and "graveyard (ss_retained s') = fold (\<lambda>job. bury_job job config (map_option rt_hash tip) now)
      (map (retire_to_block_only \<circ> retire_at now) (filter (supersedes job) (ss_jobs s)) @ moved)
      (retire_jobs job config (map_option rt_hash tip) (graveyard (ss_retained s)))"
    and "ss_tip_work_delivered s' = ss_tip_work_delivered (note_delivery (ij_previousblockhash job) now s)"
proof -
  let ?tip = "map_option rt_hash tip" and ?m = "sc_max_jobs_per_connection config"
  have same: "supersedes job (retire_at now prior) = supersedes job prior" for prior
    by (simp add: supersedes_def retire_at_def split: option.split)
  have filtered: "filter P (map (retire_at now) js) = map (retire_at now) (filter (P \<circ> retire_at now) js)" for P js
    by (simp add: filter_map)
  let ?kept = "map (retire_at now) (filter (\<lambda>prior. \<not> supersedes job prior) (ss_jobs s))"
  let ?gone = "map (retire_to_block_only \<circ> retire_at now) (filter (supersedes job) (ss_jobs s))"
  let ?r = "buried_all config ?tip now ?gone (retire_superseded job config ?tip (ss_retained s))"
  let ?k = "Suc (length ?kept) - ?m"
  have noted: "ss_jobs (note_delivery t now s) = ss_jobs s" "ss_retained (note_delivery t now s) = ss_retained s" for t
    by (simp_all add: note_delivery_def)
  have s': "ss_jobs s' = drop ?k ?kept @ [job\<lparr>ij_retired_at := None\<rparr>]"
    "ss_retained s' = buried_all config ?tip now (take ?k ?kept) ?r"
    "ss_tip_work_delivered s' = ss_tip_work_delivered (note_delivery (ij_previousblockhash job) now s)"
    using run by (auto simp: deliver_work_def superseded_eq make_room_eq [OF m] noted filter_map same comp_def Let_def)
  have r: "retained_ok ?r" "graveyard ?r = fold (\<lambda>job. bury_job job config ?tip now) ?gone
      (retire_jobs job config ?tip (graveyard (ss_retained s)))"
    using buried_all_refines [OF retire_refines(1) [OF ok]] retire_refines(2) [OF ok] by auto
  show ?thesis
  proof (rule that [of "take ?k ?kept" "drop ?k ?kept"])
    have "set (take ?k ?kept) \<union> set (drop ?k ?kept) = set ?kept"
      by (metis append_take_drop_id set_append)
    then show "set (take ?k ?kept) \<union> set (drop ?k ?kept) = retire_at now ` {prior \<in> set (ss_jobs s). \<not> supersedes job prior}"
      by simp
    show "length (drop ?k ?kept) < ?m"
      using m by simp
    show "graveyard (ss_retained s') = fold (\<lambda>job. bury_job job config ?tip now) (?gone @ take ?k ?kept)
        (retire_jobs job config ?tip (graveyard (ss_retained s)))"
      using buried_all_refines [OF r(1)] r(2) by (simp add: s'(2))
  qed (use s' buried_all_refines [OF r(1)] in simp_all)
qed


text \<open>The session as a state machine: work is delivered, resumed and pruned, in any order.\<close>

inductive session_step :: "stratum_config \<Rightarrow> ('p, 'w) stratum_session \<Rightarrow> ('p, 'w) stratum_session \<Rightarrow> bool"
  for config where
  deliver: "ij_kind job = Credit \<Longrightarrow> deliver_work config tip now job s = Some s' \<Longrightarrow> session_step config s s'"
| resume: "ij_kind job = Credit \<Longrightarrow> find_issued s (ij_job_id job) = None \<Longrightarrow>
    resume_work config tip now job s = Some s' \<Longrightarrow> session_step config s s'"
| prune: "session_step config s (prune_jobs config tip now s)"

inductive_cases session_stepE: "session_step config s s'"

definition session_ok :: "stratum_config \<Rightarrow> ('p, 'w) stratum_session \<Rightarrow> bool" where
  "session_ok config s \<longleftrightarrow>
     length (ss_jobs s) \<le> sc_max_jobs_per_connection config \<and> retained_ok (ss_retained s) \<and>
     length (graveyard (ss_retained s)) \<le> 3 * sc_max_jobs_per_connection config \<and>
     (\<forall>job \<in> set (ss_jobs s). ij_kind job = Credit) \<and>
     (\<forall>job \<in> set (graveyard (ss_retained s)). ij_retired_at job \<noteq> None \<and>
       (ij_kind job = BlockOnly \<longrightarrow> ij_authorization_permit job = None))"

lemma retire_fields [simp]:
  "ij_kind (retire_at now job) = ij_kind job" "supersedes r (retire_at now job) = supersedes r job"
  "supersedes r (retire_to_block_only job) = supersedes r job" "supersedes r (job\<lparr>ij_retired_at := t\<rparr>) = supersedes r job"
  "ij_kind (retire_to_block_only job) = BlockOnly" "ij_authorization_permit (retire_to_block_only job) = None"
  "ij_retired_at (retire_to_block_only job) = ij_retired_at job"
  by (simp_all add: retire_at_def supersedes_def retire_to_block_only_def split: option.split)

lemma deliver_members:
  assumes m: "0 < sc_max_jobs_per_connection config" and run: "deliver_work config tip now job s = Some s'"
    and ok: "session_ok config s" and x: "x \<in> set (graveyard (ss_retained s'))"
  shows "ij_retired_at x \<noteq> None \<and> (ij_kind x = BlockOnly \<longrightarrow> ij_authorization_permit x = None) \<and>
    (supersedes job x \<longrightarrow> ij_kind x = BlockOnly)"
proof -
  have r: "retained_ok (ss_retained s)"
    using ok by (simp add: session_ok_def)
  let ?tip = "map_option rt_hash tip"
  let ?gone = "map (retire_to_block_only \<circ> retire_at now) (filter (supersedes job) (ss_jobs s))"
  obtain moved kept where members: "set moved \<union> set kept = retire_at now ` {prior \<in> set (ss_jobs s). \<not> supersedes job prior}"
    and g: "graveyard (ss_retained s') = fold (\<lambda>job. bury_job job config ?tip now) (?gone @ moved)
      (retire_jobs job config ?tip (graveyard (ss_retained s)))"
    by (rule deliver_cases [OF m run r])
  from buried_set [OF x [unfolded g]] consider
      (old) "x \<in> set (retire_jobs job config ?tip (graveyard (ss_retained s)))"
    | (gone) y where "y \<in> set ?gone" "x = y\<lparr>ij_retired_at := Some now\<rparr>"
    | (moved) y where "y \<in> set moved" "x = y\<lparr>ij_retired_at := Some now\<rparr>"
    unfolding set_append by blast
  then show ?thesis
  proof cases
    case old
    then obtain y where "y \<in> set (graveyard (ss_retained s))" "x = (if supersedes job y then retire_to_block_only y else y)"
      using retire_jobs_set by blast
    then show ?thesis
      using ok by (auto simp: session_ok_def)
  next
    case gone
    then show ?thesis
      by auto
  next
    case moved
    then obtain z where "z \<in> set (ss_jobs s)" "\<not> supersedes job z" "y = retire_at now z"
      using members by blast
    moreover from this have "ij_kind z = Credit"
      using ok by (simp add: session_ok_def)
    ultimately show ?thesis
      using moved by simp
  qed
qed

lemma step_ok:
  assumes m: "0 < sc_max_jobs_per_connection config" and step: "session_step config s s'" and ok: "session_ok config s"
  shows "session_ok config s'"
  using step
proof cases
  case (deliver job tip now)
  have r: "retained_ok (ss_retained s)"
    using ok by (simp add: session_ok_def)
  obtain moved kept where members: "set moved \<union> set kept = retire_at now ` {prior \<in> set (ss_jobs s). \<not> supersedes job prior}"
    and jobs: "length kept < sc_max_jobs_per_connection config" "ss_jobs s' = kept @ [job\<lparr>ij_retired_at := None\<rparr>]"
    and r': "retained_ok (ss_retained s')"
    and g: "graveyard (ss_retained s') = fold (\<lambda>job. bury_job job config (map_option rt_hash tip) now)
      (map (retire_to_block_only \<circ> retire_at now) (filter (supersedes job) (ss_jobs s)) @ moved)
      (retire_jobs job config (map_option rt_hash tip) (graveyard (ss_retained s)))"
    by (rule deliver_cases [OF m deliver(2) r])
  have "set kept \<subseteq> retire_at now ` set (ss_jobs s)"
    using members by blast
  then have kept: "\<forall>y \<in> set kept. ij_kind y = Credit"
    using ok by (auto simp: session_ok_def)
  have "length (retire_jobs job config (map_option rt_hash tip) (graveyard (ss_retained s))) \<le> 3 * sc_max_jobs_per_connection config"
    unfolding retire_jobs_def by (rule cap_jobs_bounds(2))
  from buried_bound [OF this] have "length (graveyard (ss_retained s')) \<le> 3 * sc_max_jobs_per_connection config"
    by (simp only: g)
  then show ?thesis
    using jobs kept r' deliver(1) deliver_members [OF m deliver(2) ok] by (auto simp: session_ok_def)
next
  case (resume job tip now)
  let ?tip = "map_option rt_hash tip" and ?k = "Suc (length (ss_jobs s)) - sc_max_jobs_per_connection config"
  have s': "ss_jobs s' = job\<lparr>ij_retired_at := Some now\<rparr> # drop ?k (ss_jobs s)"
    "ss_retained s' = buried_all config ?tip now (take ?k (ss_jobs s)) (ss_retained s)"
    using resume(3) by (auto simp: resume_work_def make_room_eq [OF m] Let_def)
  have r: "retained_ok (ss_retained s)" and old: "\<forall>job \<in> set (ss_jobs s). ij_kind job = Credit"
    and g: "length (graveyard (ss_retained s)) \<le> 3 * sc_max_jobs_per_connection config"
    using ok by (simp_all add: session_ok_def)
  note all = buried_all_refines [OF r, of config ?tip now "take ?k (ss_jobs s)", folded s'(2)]
  have "ij_retired_at x \<noteq> None \<and> (ij_kind x = BlockOnly \<longrightarrow> ij_authorization_permit x = None)"
    if "x \<in> set (graveyard (ss_retained s'))" for x
    using that all buried_set [of x config ?tip now "take ?k (ss_jobs s)"] ok old
    by (fastforce simp: session_ok_def dest: in_set_takeD)
  moreover have "length (graveyard (ss_retained s')) \<le> 3 * sc_max_jobs_per_connection config"
    using all buried_bound [OF g] by simp
  moreover have "\<forall>job \<in> set (ss_jobs s'). ij_kind job = Credit"
    using old resume(1) by (auto simp: s' dest: in_set_dropD)
  ultimately show ?thesis
    using all m by (simp add: session_ok_def s'(1))
next
  case (prune tip now)
  let ?grace = "session_grace config now s"
  have r: "retained_ok (ss_retained s)"
    using ok by (simp add: session_ok_def)
  have s': "ss_jobs s' = filter (active_keeps config tip ?grace now) (ss_jobs s)"
    "ss_retained s' = retained_prune config tip ?grace now (ss_retained s)"
    by (simp_all add: prune prune_jobs_def Let_def)
  show ?thesis
    using ok prune_refines [OF r, of config tip ?grace now]
    by (auto simp: session_ok_def s' intro: order.trans [OF length_filter_le])
qed

lemma reachable_ok:
  assumes m: "0 < sc_max_jobs_per_connection config" and "(session_step config)\<^sup>*\<^sup>* session_new s"
  shows "session_ok config s"
  using assms(2)
proof (induction rule: rtranclp_induct)
  case base
  then show ?case
    by (simp add: session_ok_def session_new_def default_refines)
next
  case (step s s')
  then show ?case
    using step_ok [OF m] by blast
qed


lemma sample_session_reachable:
  obtains s :: "(nat, unit) stratum_session" where "deliver_work sample_config None 1 (sample_job ''a'' ''p'' 1) session_new = Some s"
    and "(session_step sample_config)\<^sup>*\<^sup>* session_new s"
proof -
  have m: "0 < sc_max_jobs_per_connection sample_config"
    by (simp add: sample_config_def)
  obtain s where s: "deliver_work sample_config None 1 (sample_job ''a'' ''p'' 1) session_new = Some s"
    by (auto simp: deliver_work_def make_room_eq [OF m] Let_def)
  moreover have "session_step sample_config session_new s"
    by (rule session_step.deliver [OF _ s]) (simp add: sample_job_def)
  ultimately show ?thesis
    by (intro that) auto
qed

text \<open>
  C37. In every reachable session, whatever was delivered, resumed and pruned in whatever order
  and at whatever times: at most \<open>N\<close> jobs are active and at most \<open>3 N\<close> are retained, the map and
  the deque hold the same jobs, all active work can still earn credit, every retained job has its
  burial time, and work retired to blocks only holds no reservation of its user.
\<close>

theorem session_bounded:
  assumes "0 < sc_max_jobs_per_connection config" and "(session_step config)\<^sup>*\<^sup>* session_new s"
  shows "length (ss_jobs s) \<le> sc_max_jobs_per_connection config \<and> retained_ok (ss_retained s) \<and>
     length (graveyard (ss_retained s)) \<le> 3 * sc_max_jobs_per_connection config \<and>
     (\<forall>job \<in> set (ss_jobs s). ij_kind job = Credit) \<and>
     (\<forall>job \<in> set (graveyard (ss_retained s)). ij_retired_at job \<noteq> None \<and>
       (ij_kind job = BlockOnly \<longrightarrow> ij_authorization_permit job = None))"
  using reachable_ok [OF assms] by (simp add: session_ok_def)

theorem session_bounded_witness:
  "\<exists>s :: (nat, unit) stratum_session. deliver_work sample_config None 1 (sample_job ''a'' ''p'' 1) session_new = Some s \<and>
     length (ss_jobs s) \<le> 1 \<and> length (graveyard (ss_retained s)) \<le> 3"
proof -
  obtain s :: "(nat, unit) stratum_session" where s: "deliver_work sample_config None 1 (sample_job ''a'' ''p'' 1) session_new = Some s"
      "(session_step sample_config)\<^sup>*\<^sup>* session_new s"
    by (rule sample_session_reachable)
  from session_bounded [OF _ s(2)] s(1) show ?thesis
    by (auto simp: sample_config_def)
qed

text \<open>
  What the caps never touch: the newest jobs. However full the graveyard is, up to \<open>N\<close> jobs
  buried in a row all survive, in order, at its end; only jobs buried before them are evicted.
\<close>

lemma evict_append: "k \<le> length (filter P ys) \<Longrightarrow> evict P k (ys @ zs) = evict P k ys @ zs"
  by (induction ys arbitrary: k) auto

lemma evict_set: "x \<in> set (evict P k xs) \<Longrightarrow> x \<in> set xs"
  by (drule list_emb_set [OF evict_subseq]) auto

lemma cap_jobs_suffix:
  assumes "length zs \<le> sc_max_jobs_per_connection config" and "sc_max_jobs_per_connection config < 2 ^ 64"
  obtains ys' where "cap_jobs kind config tip (ys @ zs) = ys' @ zs" and "set ys' \<subseteq> set ys"
proof -
  let ?P = "capped_job kind tip" and ?m = "sc_max_jobs_per_connection config"
  let ?k = "length (filter ?P (ys @ zs)) - ?m"
  have "length (filter ?P zs) \<le> ?m"
    using assms(1) length_filter_le le_trans by blast
  then have evicted: "evict ?P ?k (ys @ zs) = evict ?P ?k ys @ zs"
    by (intro evict_append) simp
  have "length zs \<le> usize_saturating_mul ?m 3"
    using assms by (simp add: usize_saturating_mul_def)
  then have "cap_jobs kind config tip (ys @ zs) =
      drop (length (evict ?P ?k ys @ zs) - usize_saturating_mul ?m 3) (evict ?P ?k ys) @ zs"
    unfolding cap_jobs_def Let_def evicted by simp
  moreover have "set (drop n (evict ?P ?k ys)) \<subseteq> set ys" for n
    using in_set_dropD evict_set by fastforce
  ultimately show ?thesis
    using that by blast
qed

lemma bury_job_suffix:
  assumes "length zs < sc_max_jobs_per_connection config" and "sc_max_jobs_per_connection config < 2 ^ 64"
    and "ij_job_id job \<notin> ij_job_id ` set zs"
  obtains ys' where "bury_job job config tip now (ys @ zs) = ys' @ zs @ [job\<lparr>ij_retired_at := Some now\<rparr>]"
    and "set ys' \<subseteq> set ys"
proof -
  have "filter (\<lambda>old. ij_job_id old \<noteq> ij_job_id job) zs = zs"
    using assms(3) by (intro filter_True ballI) (metis image_eqI)
  moreover have "length (zs @ [job\<lparr>ij_retired_at := Some now\<rparr>]) \<le> sc_max_jobs_per_connection config"
    using assms(1) by simp
  then obtain ys' where "cap_jobs (ij_kind job) config tip
      (filter (\<lambda>old. ij_job_id old \<noteq> ij_job_id job) ys @ zs @ [job\<lparr>ij_retired_at := Some now\<rparr>]) =
      ys' @ zs @ [job\<lparr>ij_retired_at := Some now\<rparr>]"
    and "set ys' \<subseteq> set (filter (\<lambda>old. ij_job_id old \<noteq> ij_job_id job) ys)"
    using assms(2) by (rule cap_jobs_suffix)
  ultimately show ?thesis
    by (intro that [of ys']) (auto simp: bury_job_def)
qed

lemma buried_suffix:
  assumes "length zs + length js \<le> sc_max_jobs_per_connection config" and "sc_max_jobs_per_connection config < 2 ^ 64"
    and "distinct (map ij_job_id (zs @ js))"
  shows "\<exists>ys'. fold (\<lambda>job. bury_job job config tip now) js (ys @ zs) =
      ys' @ zs @ map (\<lambda>job. job\<lparr>ij_retired_at := Some now\<rparr>) js \<and> set ys' \<subseteq> set ys"
  using assms(1,3)
proof (induction js arbitrary: ys zs)
  case (Cons job js)
  have "length zs < sc_max_jobs_per_connection config" "ij_job_id job \<notin> ij_job_id ` set zs"
    using Cons.prems by auto
  then obtain ys1 where one: "bury_job job config tip now (ys @ zs) = ys1 @ zs @ [job\<lparr>ij_retired_at := Some now\<rparr>]"
    and "set ys1 \<subseteq> set ys"
    using bury_job_suffix assms(2) by blast
  moreover have "\<exists>ys'. fold (\<lambda>job. bury_job job config tip now) js (ys1 @ zs @ [job\<lparr>ij_retired_at := Some now\<rparr>]) =
      ys' @ (zs @ [job\<lparr>ij_retired_at := Some now\<rparr>]) @ map (\<lambda>job. job\<lparr>ij_retired_at := Some now\<rparr>) js \<and> set ys' \<subseteq> set ys1"
    using Cons.prems by (intro Cons.IH) auto
  ultimately show ?case
    by auto
qed auto

text \<open>With room for everything, nothing is evicted and only a job of the same id is replaced.\<close>

lemma cap_jobs_room:
  assumes "length xs \<le> sc_max_jobs_per_connection config" and "sc_max_jobs_per_connection config < 2 ^ 64"
  shows "cap_jobs kind config tip xs = xs"
proof -
  have "length (filter P xs) \<le> sc_max_jobs_per_connection config" for P
    using assms(1) length_filter_le le_trans by blast
  then have "evict P (length (filter P xs) - sc_max_jobs_per_connection config) xs = xs" for P
    by simp
  then show ?thesis
    using assms by (simp add: cap_jobs_def usize_saturating_mul_def)
qed

lemma buried_room:
  assumes "length xs + length js \<le> sc_max_jobs_per_connection config" and "sc_max_jobs_per_connection config < 2 ^ 64"
    and "x \<in> set xs" and "ij_job_id x \<notin> ij_job_id ` set js"
  shows "x \<in> set (fold (\<lambda>job. bury_job job config tip now) js xs)"
  using assms(1,3,4)
proof (induction js arbitrary: xs)
  case (Cons job js)
  let ?ys = "filter (\<lambda>old. ij_job_id old \<noteq> ij_job_id job) xs @ [job\<lparr>ij_retired_at := Some now\<rparr>]"
  have "length ?ys + length js \<le> sc_max_jobs_per_connection config"
    using Cons.prems(1) length_filter_le [of "\<lambda>old. ij_job_id old \<noteq> ij_job_id job" xs] by (simp del: length_filter_le)
  moreover from this have "bury_job job config tip now xs = ?ys"
    using cap_jobs_room [of ?ys config] assms(2) by (simp add: bury_job_def)
  ultimately show ?case
    using Cons.IH [of ?ys] Cons.prems(2,3) by auto
qed simp

definition block_only_at :: "nat \<Rightarrow> ('p, 'w) issued_job \<Rightarrow> ('p, 'w) issued_job" where
  "block_only_at now prior =
     prior\<lparr>ij_authorization_permit := None, ij_kind := BlockOnly, ij_retired_at := Some now\<rparr>"

lemma block_only_at_eq:
  "(retire_to_block_only (retire_at now prior))\<lparr>ij_retired_at := Some now\<rparr> = block_only_at now prior"
  by (simp add: block_only_at_def retire_to_block_only_def retire_at_def split: option.split)

lemma retire_ids [simp]:
  "ij_job_id (retire_at now prior) = ij_job_id prior" "ij_job_id (retire_to_block_only prior) = ij_job_id prior"
  "ij_job_id (block_only_at now prior) = ij_job_id prior"
  by (simp_all add: retire_at_def retire_to_block_only_def block_only_at_def split: option.split)

lemma find_unique:
  "x \<in> set xs \<Longrightarrow> distinct (map f xs) \<Longrightarrow> find (\<lambda>y. f y = f x) xs = Some x"
  by (induction xs) auto

text \<open>Where the delivery leaves the superseded active jobs: behind everything buried earlier.\<close>

lemma deliver_buries:
  assumes m: "0 < sc_max_jobs_per_connection config" "sc_max_jobs_per_connection config < 2 ^ 64"
    and ok: "session_ok config s" and ids: "distinct (map ij_job_id (ss_jobs s))"
    and run: "deliver_work config tip now job s = Some s'"
  obtains older moved kept where "graveyard (ss_retained s') =
      older @ map (block_only_at now) (filter (supersedes job) (ss_jobs s)) @ map (\<lambda>j. j\<lparr>ij_retired_at := Some now\<rparr>) moved"
    and "moved @ kept = filter (\<lambda>prior. \<not> supersedes job prior) (ss_jobs s)"
    and "ss_jobs s' = map (retire_at now) kept @ [job\<lparr>ij_retired_at := None\<rparr>]" and "retained_ok (ss_retained s')"
    and "length (graveyard (ss_retained s)) + length (ss_jobs s) \<le> sc_max_jobs_per_connection config \<Longrightarrow>
      y \<in> set (graveyard (ss_retained s)) \<Longrightarrow> ij_job_id y \<notin> ij_job_id ` set (ss_jobs s) \<Longrightarrow>
      (if supersedes job y then retire_to_block_only y else y) \<in> set (graveyard (ss_retained s'))"
proof -
  have r: "retained_ok (ss_retained s)" and active: "length (ss_jobs s) \<le> sc_max_jobs_per_connection config"
    using ok by (simp_all add: session_ok_def)
  let ?tip = "map_option rt_hash tip" and ?rest = "filter (\<lambda>prior. \<not> supersedes job prior) (ss_jobs s)"
  let ?gone = "map (retire_to_block_only \<circ> retire_at now) (filter (supersedes job) (ss_jobs s))"
  let ?g0 = "retire_jobs job config ?tip (graveyard (ss_retained s))"
  obtain moved kept where split: "map (retire_at now) ?rest = moved @ kept"
    and s': "ss_jobs s' = kept @ [job\<lparr>ij_retired_at := None\<rparr>]" "retained_ok (ss_retained s')"
    and g: "graveyard (ss_retained s') = fold (\<lambda>job. bury_job job config ?tip now) (?gone @ moved) ?g0"
    by (rule deliver_cases [OF m(1) run r])
  from split obtain moved0 kept0 where parts: "?rest = moved0 @ kept0" "moved = map (retire_at now) moved0"
      "kept = map (retire_at now) kept0"
    by (auto simp: map_eq_append_conv)
  have size: "length (?gone @ moved) \<le> length (ss_jobs s)"
  proof -
    have "length (?gone @ moved) \<le> length (filter (supersedes job) (ss_jobs s)) + length ?rest"
      unfolding parts(1,2) by simp
    then show ?thesis
      using sum_length_filter_compl [of "supersedes job" "ss_jobs s"] by simp
  qed
  have "mset (filter (supersedes job) (ss_jobs s) @ moved0 @ kept0) = mset (ss_jobs s)"
    unfolding parts(1) [symmetric] by (metis mset_append mset_filter multiset_partition)
  then have "distinct (map ij_job_id (filter (supersedes job) (ss_jobs s) @ moved0 @ kept0))"
    using ids by (metis mset_eq_imp_distinct_iff mset_map)
  then have dist: "distinct (map ij_job_id (?gone @ moved))"
    by (auto simp: parts(2) comp_def)
  have sub: "set moved0 \<subseteq> set (ss_jobs s)"
    using arg_cong [OF parts(1), of set] by auto
  obtain older where "fold (\<lambda>job. bury_job job config ?tip now) (?gone @ moved) (?g0 @ []) =
      older @ [] @ map (\<lambda>j. j\<lparr>ij_retired_at := Some now\<rparr>) (?gone @ moved)"
    using buried_suffix [of "[]" "?gone @ moved" config ?tip now ?g0] size active m(2) dist by auto
  moreover have "(retire_at now j)\<lparr>ij_retired_at := Some now\<rparr> = j\<lparr>ij_retired_at := Some now\<rparr>" for j :: "('a, 'b) issued_job"
    by (simp add: retire_at_def split: option.split)
  ultimately have buried: "graveyard (ss_retained s') = older @ map (block_only_at now) (filter (supersedes job) (ss_jobs s)) @
      map (\<lambda>j. j\<lparr>ij_retired_at := Some now\<rparr>) moved0"
    by (simp add: g parts(2) comp_def block_only_at_eq)
  have room: "(if supersedes job y then retire_to_block_only y else y) \<in> set (graveyard (ss_retained s'))"
    if fits: "length (graveyard (ss_retained s)) + length (ss_jobs s) \<le> sc_max_jobs_per_connection config"
      and y: "y \<in> set (graveyard (ss_retained s))" and new: "ij_job_id y \<notin> ij_job_id ` set (ss_jobs s)"
  proof -
    have g0: "?g0 = map (\<lambda>j. if supersedes job j then retire_to_block_only j else j) (graveyard (ss_retained s))"
      unfolding retire_jobs_def using fits m(2) by (intro cap_jobs_room) simp_all
    have "ij_job_id ` set (?gone @ moved) \<subseteq> ij_job_id ` set (ss_jobs s)"
      using sub by (auto simp: parts(2))
    then show ?thesis
      unfolding g using fits size y new m(2) by (intro buried_room) (auto simp: g0)
  qed
  show ?thesis
    by (rule that [OF buried parts(1) [symmetric] _ s'(2) room]) (simp_all add: s'(1) parts(3))
qed

lemma delivery_discredits:
  assumes "0 < sc_max_jobs_per_connection config" and "(session_step config)\<^sup>*\<^sup>* session_new s"
    and "deliver_work config tip now job s = Some s'"
  shows "(\<forall>prior \<in> set (ss_jobs s') \<union> set (graveyard (ss_retained s')). supersedes job prior \<longrightarrow>
      ij_kind prior = BlockOnly \<and> ij_authorization_permit prior = None) \<and>
    length (filter (capped_job BlockOnly (map_option rt_hash tip)) (graveyard (ss_retained s'))) \<le> sc_max_jobs_per_connection config \<and>
    ss_jobs s' \<noteq> [] \<and> last (ss_jobs s') = job\<lparr>ij_retired_at := None\<rparr> \<and>
    (\<forall>active \<in> set (butlast (ss_jobs s')). \<not> supersedes job active \<and> ij_retired_at active \<noteq> None) \<and>
    (\<exists>at. ss_tip_work_delivered s' = Some (ij_previousblockhash job, at))"
proof -
  note m = assms(1) and run = assms(3)
  have ok: "session_ok config s" and r: "retained_ok (ss_retained s)"
    using reachable_ok [OF assms(1,2)] by (simp_all add: session_ok_def)
  let ?tip = "map_option rt_hash tip"
  obtain moved kept where members: "set moved \<union> set kept = retire_at now ` {prior \<in> set (ss_jobs s). \<not> supersedes job prior}"
    and jobs: "ss_jobs s' = kept @ [job\<lparr>ij_retired_at := None\<rparr>]"
    and g: "graveyard (ss_retained s') = fold (\<lambda>job. bury_job job config ?tip now)
      (map (retire_to_block_only \<circ> retire_at now) (filter (supersedes job) (ss_jobs s)) @ moved)
      (retire_jobs job config ?tip (graveyard (ss_retained s)))"
    and noted: "ss_tip_work_delivered s' = ss_tip_work_delivered (note_delivery (ij_previousblockhash job) now s)"
    by (rule deliver_cases [OF m run r])
  have kept: "\<not> supersedes job y \<and> ij_retired_at y \<noteq> None" if "y \<in> set kept" for y
  proof -
    from that members obtain z where "y = retire_at now z" "\<not> supersedes job z"
      by blast
    then show ?thesis
      by (auto simp: retire_at_def split: option.splits)
  qed
  have self: "\<not> supersedes job (job\<lparr>ij_retired_at := None\<rparr>)"
    by (simp add: supersedes_def)
  have "length (filter (capped_job BlockOnly ?tip) (retire_jobs job config ?tip (graveyard (ss_retained s)))) \<le> sc_max_jobs_per_connection config"
    unfolding retire_jobs_def by (rule cap_jobs_bounds(1))
  from block_only_bound [OF this]
  have "length (filter (capped_job BlockOnly ?tip) (graveyard (ss_retained s'))) \<le> sc_max_jobs_per_connection config"
    by (simp only: g)
  moreover have "\<exists>at. ss_tip_work_delivered s' = Some (ij_previousblockhash job, at)"
    by (auto simp: noted note_delivery_def split: option.splits)
  ultimately show ?thesis
    using kept self deliver_members [OF m run ok] by (auto simp: jobs simp del: retire_fields)
qed

lemma delivery_keeps_superseded:
  assumes "0 < sc_max_jobs_per_connection config" and "sc_max_jobs_per_connection config < 2 ^ 64"
    and "(session_step config)\<^sup>*\<^sup>* session_new s" and ids: "distinct (map ij_job_id (ss_jobs s))"
    and run: "deliver_work config tip now job s = Some s'"
  shows "(\<exists>older moved kept. graveyard (ss_retained s') =
        older @ map (\<lambda>prior. prior\<lparr>ij_authorization_permit := None, ij_kind := BlockOnly, ij_retired_at := Some now\<rparr>)
          (filter (supersedes job) (ss_jobs s)) @ map (\<lambda>prior. prior\<lparr>ij_retired_at := Some now\<rparr>) moved \<and>
      moved @ kept = filter (\<lambda>prior. \<not> supersedes job prior) (ss_jobs s) \<and>
      ss_jobs s' = map (retire_at now) kept @ [job\<lparr>ij_retired_at := None\<rparr>]) \<and>
    (\<forall>prior \<in> set (ss_jobs s). supersedes job prior \<and> ij_job_id prior \<noteq> ij_job_id job \<longrightarrow>
      find_issued s' (ij_job_id prior) =
        Some (prior\<lparr>ij_authorization_permit := None, ij_kind := BlockOnly, ij_retired_at := Some now\<rparr>)) \<and>
    (length (graveyard (ss_retained s)) + length (ss_jobs s) \<le> sc_max_jobs_per_connection config \<longrightarrow>
      (\<forall>buried \<in> set (graveyard (ss_retained s)). ij_job_id buried \<notin> ij_job_id ` set (ss_jobs s) \<longrightarrow>
        (if supersedes job buried then buried\<lparr>ij_authorization_permit := None, ij_kind := BlockOnly\<rparr> else buried)
          \<in> set (graveyard (ss_retained s'))))"
proof -
  note ok = reachable_ok [OF assms(1,3)]
  note buries = deliver_buries [OF assms(1,2) ok ids run]
  obtain older moved kept where g: "graveyard (ss_retained s') =
      older @ map (block_only_at now) (filter (supersedes job) (ss_jobs s)) @ map (\<lambda>j. j\<lparr>ij_retired_at := Some now\<rparr>) moved"
    and split: "moved @ kept = filter (\<lambda>prior. \<not> supersedes job prior) (ss_jobs s)"
    and jobs: "ss_jobs s' = map (retire_at now) kept @ [job\<lparr>ij_retired_at := None\<rparr>]" and r: "retained_ok (ss_retained s')"
    by (rule buries)
  have found: "find_issued s' (ij_job_id prior) = Some (block_only_at now prior)"
    if prior: "prior \<in> set (ss_jobs s)" "supersedes job prior" "ij_job_id prior \<noteq> ij_job_id job" for prior
  proof -
    have "ij_job_id k \<noteq> ij_job_id prior" if "k \<in> set kept" for k
    proof
      assume "ij_job_id k = ij_job_id prior"
      moreover have "k \<in> set (ss_jobs s)" "\<not> supersedes job k"
        using that arg_cong [OF split, of set] by auto
      ultimately show False
        using ids prior by (metis distinct_map inj_onD)
    qed
    then have "find (\<lambda>j. ij_job_id j = ij_job_id prior) (ss_jobs s') = None"
      using prior(3) by (auto simp: jobs find_None_iff)
    moreover have "distinct (map ij_job_id (graveyard (ss_retained s')))"
      using graveyard_ids [OF r] r by (simp add: retained_ok_def)
    moreover have "block_only_at now prior \<in> set (graveyard (ss_retained s'))"
      using prior by (auto simp: g)
    ultimately show ?thesis
      using find_unique [of "block_only_at now prior" "graveyard (ss_retained s')" ij_job_id]
      by (simp add: find_issued_def get_refines [OF r])
  qed
  have room: "(if supersedes job y then retire_to_block_only y else y) \<in> set (graveyard (ss_retained s'))"
    if "length (graveyard (ss_retained s)) + length (ss_jobs s) \<le> sc_max_jobs_per_connection config"
      "y \<in> set (graveyard (ss_retained s))" "ij_job_id y \<notin> ij_job_id ` set (ss_jobs s)" for y
    by (rule buries [where y = y]) (use that in blast)
  show ?thesis
    using g split jobs found room unfolding block_only_at_def [abs_def] retire_to_block_only_def by blast
qed

text \<open>
  C38. A delivery makes every job it supersedes, the same parent at another payout revision,
  worthless for credit, and keeps it to be offered for a block. Every superseded active job is
  buried, whatever the graveyard held: the newest part of the graveyard is these jobs in their
  order, for blocks only, without a reservation and with the burial time, followed by the jobs
  moved to make room, and a submission for such a job still finds it. A job buried earlier is
  rewritten in place and kept unless the caps need its place; nothing of it earns credit any
  more. At most \<open>N\<close> block-only jobs stay on the published tip, the delivered job is the newest
  active one, the active jobs are those not superseded, and the grace clock runs for its parent.
  The active jobs have distinct ids, and \<open>N\<close> is a machine word.
\<close>

theorem delivery_supersedes:
  assumes "0 < sc_max_jobs_per_connection config" and "sc_max_jobs_per_connection config < 2 ^ 64"
    and "(session_step config)\<^sup>*\<^sup>* session_new s" and "distinct (map ij_job_id (ss_jobs s))"
    and "deliver_work config tip now job s = Some s'"
  shows "(\<exists>older moved kept. graveyard (ss_retained s') =
        older @ map (\<lambda>prior. prior\<lparr>ij_authorization_permit := None, ij_kind := BlockOnly, ij_retired_at := Some now\<rparr>)
          (filter (supersedes job) (ss_jobs s)) @ map (\<lambda>prior. prior\<lparr>ij_retired_at := Some now\<rparr>) moved \<and>
      moved @ kept = filter (\<lambda>prior. \<not> supersedes job prior) (ss_jobs s) \<and>
      ss_jobs s' = map (retire_at now) kept @ [job\<lparr>ij_retired_at := None\<rparr>]) \<and>
    (\<forall>prior \<in> set (ss_jobs s). supersedes job prior \<and> ij_job_id prior \<noteq> ij_job_id job \<longrightarrow>
      find_issued s' (ij_job_id prior) =
        Some (prior\<lparr>ij_authorization_permit := None, ij_kind := BlockOnly, ij_retired_at := Some now\<rparr>)) \<and>
    (length (graveyard (ss_retained s)) + length (ss_jobs s) \<le> sc_max_jobs_per_connection config \<longrightarrow>
      (\<forall>buried \<in> set (graveyard (ss_retained s)). ij_job_id buried \<notin> ij_job_id ` set (ss_jobs s) \<longrightarrow>
        (if supersedes job buried then buried\<lparr>ij_authorization_permit := None, ij_kind := BlockOnly\<rparr> else buried)
          \<in> set (graveyard (ss_retained s')))) \<and>
    (\<forall>prior \<in> set (ss_jobs s') \<union> set (graveyard (ss_retained s')). supersedes job prior \<longrightarrow>
      ij_kind prior = BlockOnly \<and> ij_authorization_permit prior = None) \<and>
    length (filter (capped_job BlockOnly (map_option rt_hash tip)) (graveyard (ss_retained s'))) \<le> sc_max_jobs_per_connection config \<and>
    ss_jobs s' \<noteq> [] \<and> last (ss_jobs s') = job\<lparr>ij_retired_at := None\<rparr> \<and>
    (\<forall>active \<in> set (butlast (ss_jobs s')). \<not> supersedes job active \<and> ij_retired_at active \<noteq> None) \<and>
    (\<exists>at. ss_tip_work_delivered s' = Some (ij_previousblockhash job, at))"
  using delivery_keeps_superseded [OF assms] delivery_discredits [OF assms(1,3,5)] by blast

theorem delivery_supersedes_witness:
  "\<exists>(s :: (nat, unit) stratum_session) s'. deliver_work sample_config None 1 (sample_job ''a'' ''p'' 1) session_new = Some s \<and>
     deliver_work sample_config None 2 (sample_job ''b'' ''p'' 2) s = Some s' \<and> last (ss_jobs s') = sample_job ''b'' ''p'' 2 \<and>
     find_issued s' ''a'' = Some ((sample_job ''a'' ''p'' 1)\<lparr>ij_authorization_permit := None, ij_kind := BlockOnly,
       ij_retired_at := Some 2\<rparr>)"
proof -
  obtain s :: "(nat, unit) stratum_session" where s: "deliver_work sample_config None 1 (sample_job ''a'' ''p'' 1) session_new = Some s"
      "(session_step sample_config)\<^sup>*\<^sup>* session_new s"
    by (rule sample_session_reachable)
  have m: "0 < sc_max_jobs_per_connection sample_config" "sc_max_jobs_per_connection sample_config < 2 ^ 64"
    by (simp_all add: sample_config_def)
  have jobs: "ss_jobs s = [sample_job ''a'' ''p'' 1]"
    by (rule deliver_cases [OF m(1) s(1)]) (auto simp: session_new_def default_refines sample_job_def)
  then have "distinct (map ij_job_id (ss_jobs s))"
    by simp
  moreover obtain s' where s': "deliver_work sample_config None 2 (sample_job ''b'' ''p'' 2) s = Some s'"
    by (auto simp: deliver_work_def make_room_eq [OF m(1)] Let_def)
  ultimately have "last (ss_jobs s') = sample_job ''b'' ''p'' 2 \<and>
      find_issued s' ''a'' = Some ((sample_job ''a'' ''p'' 1)\<lparr>ij_authorization_permit := None, ij_kind := BlockOnly,
        ij_retired_at := Some 2\<rparr>)"
    using delivery_supersedes [OF m s(2) _ s'] jobs by (simp add: supersedes_def sample_job_def)
  with s(1) s' show ?thesis
    by blast
qed

section \<open>Grace for the previous parent\<close>

lemma same_tip_deliveries:
  "ss_tip_work_delivered s = Some (h, at) \<Longrightarrow>
     ss_tip_work_delivered (fold (\<lambda>(tip, at). note_delivery tip at) (map (Pair h) later) s) = Some (h, at)"
  by (induction later arbitrary: s) (simp_all add: note_delivery_def)

lemma last_delivered:
  "ss_tip_work_delivered s = None \<Longrightarrow> ds \<noteq> [] \<Longrightarrow>
     \<exists>at. ss_tip_work_delivered (fold (\<lambda>(tip, at). note_delivery tip at) ds s) = Some (fst (last ds), at)"
  by (induction ds rule: rev_induct) (auto simp: note_delivery_def split: option.splits)

text \<open>
  C40. The grace of the previous parent's work runs, per connection, from the first delivery on
  the new tip after the last change of tip: later deliveries on the same tip do not extend it and
  a return to an earlier tip starts it anew. A retained job of the previous parent that earns
  credit is kept exactly while no more than the configured grace has passed since then, and not
  at all with a grace of zero; a job for blocks only is dropped as soon as the tip has moved.
\<close>

theorem grace_runs_from_first_delivery:
  fixes s :: "('p, 'w) stratum_session" and job :: "('p, 'w) issued_job"
  assumes "ss_tip_work_delivered s = ss_tip_work_delivered
      (fold (\<lambda>(tip, at). note_delivery tip at) (ds @ (h, at) # map (Pair h) later) (session_new :: ('p, 'w) stratum_session))"
    and "ds \<noteq> [] \<longrightarrow> fst (last ds) \<noteq> h"
    and "rt_hash tip = h" and "rt_transitioned tip" and "ij_previousblockhash job \<noteq> h"
    and "rt_parent tip = None \<or> rt_parent tip = Some (ij_previousblockhash job)" and "\<not> expired now job"
  shows "retained_keeps config (Some tip) (session_grace config now s) now job \<longleftrightarrow>
    ij_kind job = Credit \<and> sc_stale_grace config \<noteq> 0 \<and> now - at \<le> sc_stale_grace config"
proof -
  let ?before = "fold (\<lambda>(tip, at). note_delivery tip at) ds (session_new :: ('p, 'w) stratum_session)"
  have "case ss_tip_work_delivered ?before of None \<Rightarrow> True | Some (old, _) \<Rightarrow> old \<noteq> h"
  proof (cases "ds = []")
    case True
    then show ?thesis by (simp add: session_new_def)
  next
    case False
    moreover have "ss_tip_work_delivered (session_new :: ('p, 'w) stratum_session) = None"
      by (simp add: session_new_def)
    ultimately obtain at where "ss_tip_work_delivered ?before = Some (fst (last ds), at)"
      using last_delivered by blast
    then show ?thesis
      using False assms(2) by simp
  qed
  then have "ss_tip_work_delivered (note_delivery h at ?before) = Some (h, at)"
    by (simp add: note_delivery_def)
  from same_tip_deliveries [OF this] assms(1) have "ss_tip_work_delivered s = Some (h, at)"
    by simp
  then show ?thesis
    using assms(3-7) by (auto simp: retained_keeps_def keeps_previous_def eligible_for_def session_grace_def for_connection_def Let_def)
qed

theorem grace_runs_from_first_delivery_witness:
  "retained_keeps sample_config (Some \<lparr>rt_hash = ''q'', rt_parent = Some ''p'', rt_transitioned = True\<rparr>)
     (session_grace sample_config 41 (note_delivery ''q'' 20 (note_delivery ''q'' 11 (note_delivery ''p'' 3 (session_new :: (nat, unit) stratum_session))))) 41
     (sample_job ''a'' ''p'' 1) \<and>
   \<not> retained_keeps sample_config (Some \<lparr>rt_hash = ''q'', rt_parent = Some ''p'', rt_transitioned = True\<rparr>)
     (session_grace sample_config 42 (note_delivery ''q'' 20 (note_delivery ''q'' 11 (note_delivery ''p'' 3 (session_new :: (nat, unit) stratum_session))))) 42
     (sample_job ''a'' ''p'' 1)"
proof -
  let ?s = "note_delivery ''q'' 20 (note_delivery ''q'' 11 (note_delivery ''p'' 3 (session_new :: (nat, unit) stratum_session))) :: (nat, unit) stratum_session"
  have run: "ss_tip_work_delivered ?s = ss_tip_work_delivered (fold (\<lambda>(tip, at). note_delivery tip at)
      ([(''p'', 3)] @ (''q'', 11) # map (Pair ''q'') [20]) (session_new :: (nat, unit) stratum_session))"
    by simp
  note grace = grace_runs_from_first_delivery [OF run, of "\<lparr>rt_hash = ''q'', rt_parent = Some ''p'', rt_transitioned = True\<rparr>"
      "sample_job ''a'' ''p'' 1" _ sample_config]
  show ?thesis
    using grace [of 41] grace [of 42] by (simp add: sample_job_def sample_config_def expired_def)
qed

end
