(* ===== verification/Payout_Window.thy ===== *)
theory Payout_Window
  imports Reward_Window
begin

text \<open>
  The incremental payout window of \<open>qbit-prism/src/window.rs\<close>: the canonical fragment of a
  share, the full fold of a snapshot into pages, the advance of a window by a delta with its
  page and record expiry, and the byte surgery on the canonical items. Reference-counted pages
  are values, \<open>usize\<close> is a natural number, differences of \<open>u128\<close> wrap as in a release build, and
  a character of a Rust string is decoded from the bytes of the model's string.
\<close>

section \<open>Errors\<close>

datatype window_fold_error = NonPositiveWindowWeight | NonPositivePageSize | DuplicateShareSeq | DuplicateShareId
  | FoldNonPositiveDifficulty | FoldDifficultyOverflow

datatype window_advance_error = AnchorMovedBackwards | NonPositiveDifficulty | IneligibleAtNewAnchor
  | RepeatsPreviouslyEligible | NotAnAppend | DeltaOrderNotIncreasing | DifficultyOverflow

fun fold_rejection_category :: "window_fold_error \<Rightarrow> string option" where
  "fold_rejection_category NonPositiveWindowWeight = Some ''non_positive_window_weight''"
| "fold_rejection_category NonPositivePageSize = Some ''non_positive_page_size''"
| "fold_rejection_category DuplicateShareSeq = Some ''duplicate_share_seq''"
| "fold_rejection_category DuplicateShareId = Some ''duplicate_share_id''"
| "fold_rejection_category FoldNonPositiveDifficulty = Some ''non_positive_difficulty''"
| "fold_rejection_category FoldDifficultyOverflow = None"

fun advance_rejection_category :: "window_advance_error \<Rightarrow> string option" where
  "advance_rejection_category AnchorMovedBackwards = Some ''anchor_regression''"
| "advance_rejection_category NonPositiveDifficulty = Some ''delta_non_positive_difficulty''"
| "advance_rejection_category IneligibleAtNewAnchor = Some ''delta_ineligible_at_anchor''"
| "advance_rejection_category RepeatsPreviouslyEligible = Some ''delta_repeats_eligible_share''"
| "advance_rejection_category NotAnAppend = Some ''delta_not_append''"
| "advance_rejection_category DeltaOrderNotIncreasing = Some ''delta_order_not_increasing''"
| "advance_rejection_category DifficultyOverflow = None"

section \<open>The canonical fragment\<close>

text \<open>\<open>str::chars\<close> on UTF-8 bytes, and \<open>char::encode_utf16\<close>.\<close>

fun utf8_chars :: "nat list \<Rightarrow> nat list" where
  "utf8_chars [] = []"
| "utf8_chars (b # bs) =
     (if b < 0x80 then b # utf8_chars bs
      else if b < 0xe0 then (case bs of c # bs \<Rightarrow> (b mod 32 * 64 + c mod 64) # utf8_chars bs | _ \<Rightarrow> [])
      else if b < 0xf0 then
        (case bs of c # d # bs \<Rightarrow> (b mod 16 * 4096 + c mod 64 * 64 + d mod 64) # utf8_chars bs | _ \<Rightarrow> [])
      else
        (case bs of c # d # e # bs \<Rightarrow> (b mod 8 * 262144 + c mod 64 * 4096 + d mod 64 * 64 + e mod 64) # utf8_chars bs
         | _ \<Rightarrow> []))"

definition str_chars :: "string \<Rightarrow> nat list" where
  "str_chars s = utf8_chars (map of_char s)"

definition encode_utf16 :: "nat \<Rightarrow> nat list" where
  "encode_utf16 c = (if c < 0x10000 then [c] else [0xd800 + (c - 0x10000) div 1024, 0xdc00 + (c - 0x10000) mod 1024])"

definition push_u16_escape :: "nat \<Rightarrow> string" where
  "push_u16_escape unit =
     [CHR 0x5c, CHR ''u'', hex_digit (unit div 4096 mod 16), hex_digit (unit div 256 mod 16),
      hex_digit (unit div 16 mod 16), hex_digit (unit mod 16)]"

definition escape_char :: "nat \<Rightarrow> string" where
  "escape_char code_point =
     (if code_point = 0x22 then [CHR 0x5c, CHR 0x22]
      else if code_point = 0x5c then [CHR 0x5c, CHR 0x5c]
      else if code_point = 0x08 then [CHR 0x5c, CHR ''b'']
      else if code_point = 0x09 then [CHR 0x5c, CHR ''t'']
      else if code_point = 0x0a then [CHR 0x5c, CHR ''n'']
      else if code_point = 0x0c then [CHR 0x5c, CHR ''f'']
      else if code_point = 0x0d then [CHR 0x5c, CHR ''r'']
      else if 0x20 \<le> code_point \<and> code_point < 0x7f then [char_of code_point]
      else concat (map push_u16_escape (encode_utf16 code_point)))"

definition push_python_json_escaped_contents :: "string \<Rightarrow> string" where
  "push_python_json_escaped_contents s = concat (map escape_char (str_chars s))"

definition push_python_json_escaped :: "string \<Rightarrow> string" where
  "push_python_json_escaped s = [CHR 0x22] @ push_python_json_escaped_contents s @ [CHR 0x22]"

text \<open>\<open>to_string\<close> of a signed integer.\<close>

definition show_i64 :: "i64 \<Rightarrow> string" where
  "show_i64 v = (if sint v < 0 then CHR ''-'' # show_nat (nat (- sint v)) else show_nat (nat (sint v)))"

definition json_key :: "string \<Rightarrow> string" where
  "json_key k = [CHR 0x22] @ k @ [CHR 0x22, CHR '':'']"

definition canonical_share_fragment :: "accepted_share \<Rightarrow> u8 list" where
  "canonical_share_fragment share = as_bytes (
     ''{'' @ json_key ''accepted_at_ms'' @ show_i64 (sh_accepted_at_ms share) @
     (case sh_credit_policy share of None \<Rightarrow> [] | Some policy \<Rightarrow> '','' @ json_key ''credit_policy'' @ push_python_json_escaped policy) @
     '','' @ json_key ''job_id'' @ push_python_json_escaped (sh_job_id share) @
     '','' @ json_key ''job_issued_at_ms'' @ show_i64 (sh_job_issued_at_ms share) @
     '','' @ json_key ''miner_id'' @ push_python_json_escaped (sh_miner_id share) @
     '','' @ json_key ''network_difficulty'' @ show_nat (unat (sh_network_difficulty share)) @
     '','' @ json_key ''ntime'' @ show_nat (unat (sh_ntime share)) @
     '','' @ json_key ''order_key'' @ push_python_json_escaped (sh_order_key share) @
     '','' @ json_key ''p2mr_program_hex'' @ push_python_json_escaped (sh_p2mr_program_hex share) @
     '','' @ json_key ''share_difficulty'' @ show_nat (unat (sh_share_difficulty share)) @
     '','' @ json_key ''share_id'' @ push_python_json_escaped (sh_share_id share) @
     '','' @ json_key ''share_seq'' @ show_nat (unat (sh_share_seq share)) @
     '','' @ json_key ''template_height'' @ show_nat (unat (sh_template_height share)) @ ''}'')"

section \<open>Pages\<close>

record window_page =
  wp_records :: "accepted_share list"
  wp_fragments :: "u8 list list"
  wp_total_difficulty :: u128

definition saturating_add :: "'a::len word \<Rightarrow> 'a word \<Rightarrow> 'a word" where
  "saturating_add a b = (if unat a + unat b < 2 ^ LENGTH('a) then a + b else - 1)"

definition page_from_retained :: "accepted_share list \<Rightarrow> u8 list list \<Rightarrow> window_page" where
  "page_from_retained records fragments =
     \<lparr>wp_records = records, wp_fragments = fragments,
      wp_total_difficulty = foldl saturating_add 0 (map sh_share_difficulty records)\<rparr>"

definition page_from_records :: "accepted_share list \<Rightarrow> window_page" where
  "page_from_records records =
     \<lparr>wp_records = records, wp_fragments = map canonical_share_fragment records,
      wp_total_difficulty = foldl saturating_add 0 (map sh_share_difficulty records)\<rparr>"

record payout_window =
  win_anchor_job_issued_at_ms :: i64
  win_window_weight :: u128
  win_page_size :: nat
  win_pages :: "window_page list"
  win_total_difficulty :: u128

function paged :: "nat \<Rightarrow> 'a list \<Rightarrow> 'a list list" where
  "paged page_size xs =
     (let page_len = min (length xs) page_size in
      if page_len = 0 then [] else take page_len xs # paged page_size (drop page_len xs))"
  by pat_completeness auto
termination
  by (relation "measure (length \<circ> snd)") auto

declare paged.simps [simp del]

definition eligible_at :: "i64 \<Rightarrow> accepted_share \<Rightarrow> bool" where
  "eligible_at anchor record \<longleftrightarrow> sint (sh_job_issued_at_ms record) \<le> sint anchor \<and> sint (sh_accepted_at_ms record) \<le> sint anchor"

definition compare_share_seq :: "accepted_share \<Rightarrow> accepted_share \<Rightarrow> ordering" where
  "compare_share_seq left right = cmp (sh_share_seq left) (sh_share_seq right)"

definition snapshot_step ::
    "u64 option \<times> string set \<Rightarrow> accepted_share \<Rightarrow> window_fold_error + (u64 option \<times> string set)" where
  "snapshot_step = (\<lambda>(prior_seq, share_ids) record.
     if (case prior_seq of None \<Rightarrow> False | Some prior \<Rightarrow> sh_share_seq record \<le> prior) then Inl DuplicateShareSeq
     else if sh_share_id record \<in> share_ids then Inl DuplicateShareId
     else if sh_share_difficulty record = 0 then Inl FoldNonPositiveDifficulty
     else Inr (Some (sh_share_seq record), insert (sh_share_id record) share_ids))"

text \<open>Newest first: how many records are retained, and their weight.\<close>

fun retain_newest :: "u128 \<Rightarrow> u128 \<Rightarrow> accepted_share list \<Rightarrow> window_fold_error + (nat \<times> u128)" where
  "retain_newest window_weight retained_weight [] = Inr (0, retained_weight)"
| "retain_newest window_weight retained_weight (record # records) =
     (if window_weight \<le> retained_weight then Inr (0, retained_weight)
      else
        and_then (ok_or FoldDifficultyOverflow (checked_add retained_weight (sh_share_difficulty record)))
          (\<lambda>retained_weight.
        and_then (retain_newest window_weight retained_weight records) (\<lambda>(kept, difficulty_left). Inr (Suc kept, difficulty_left))))"

definition from_full_snapshot ::
    "accepted_share list \<Rightarrow> i64 \<Rightarrow> u128 \<Rightarrow> nat \<Rightarrow> window_fold_error + payout_window" where
  "from_full_snapshot records anchor window_weight page_size =
     (if window_weight = 0 then Inl NonPositiveWindowWeight
      else if page_size = 0 then Inl NonPositivePageSize
      else
        let eligible = sort_by compare_share_seq (filter (eligible_at anchor) records) in
        and_then (try_fold snapshot_step (None, {}) eligible) (\<lambda>_.
        and_then (retain_newest window_weight 0 (rev eligible)) (\<lambda>(kept, retained_weight).
        Inr \<lparr>win_anchor_job_issued_at_ms = anchor, win_window_weight = window_weight, win_page_size = page_size,
             win_pages = map page_from_records (paged page_size (drop (length eligible - kept) eligible)),
             win_total_difficulty = retained_weight\<rparr>)))"

definition record_count :: "payout_window \<Rightarrow> nat" where
  "record_count w = sum_list (map (length \<circ> wp_records) (win_pages w))"

definition fragment_lengths :: "payout_window \<Rightarrow> nat list" where
  "fragment_lengths w = concat (map (map length \<circ> wp_fragments) (win_pages w))"

definition push_item :: "u8 list \<times> bool \<Rightarrow> u8 list \<Rightarrow> u8 list \<times> bool" where
  "push_item = (\<lambda>(out, needs_separator) fragment. (out @ (if needs_separator then [0x2c] else []) @ fragment, True))"

definition canonical_items_bytes :: "payout_window \<Rightarrow> u8 list" where
  "canonical_items_bytes w = fst (foldl (\<lambda>acc page. foldl push_item acc (wp_fragments page)) ([], False) (win_pages w))"

text \<open>The bytes hashed by the digest, page by page.\<close>

definition push_page :: "u8 list \<times> bool \<Rightarrow> window_page \<Rightarrow> u8 list \<times> bool" where
  "push_page = (\<lambda>(out, needs_separator) page.
     if wp_fragments page = [] then (out, needs_separator)
     else
       (fst (foldl (\<lambda>(out, first_in_page) fragment. (out @ (if first_in_page then [] else [0x2c]) @ fragment, False))
          (out @ (if needs_separator then [0x2c] else []), True) (wp_fragments page)), True))"

definition canonical_digest_hex :: "'x crates_scheme \<Rightarrow> payout_window \<Rightarrow> string" where
  "canonical_digest_hex X w =
     concat (map hex_02x (sha256_digest X (fst (foldl push_page ([0x5b], False) (win_pages w)) @ [0x5d])))"

definition shares_for_build :: "payout_window \<Rightarrow> accepted_share list" where
  "shares_for_build w = concat (map wp_records (win_pages w))"

section \<open>Advance\<close>

record window_advance_stats =
  was_added_rows :: nat
  was_expired_rows :: nat
  was_touched_pages :: nat

record window_advance_byte_delta =
  wab_retained_drop_bytes :: nat
  wab_appended_items :: "u8 list"

definition last_share_seq :: "payout_window \<Rightarrow> u64 option" where
  "last_share_seq w =
     (if win_pages w = [] then None
      else let records = wp_records (last (win_pages w)) in
        if records = [] then None else Some (sh_share_seq (last records)))"

definition delta_step ::
    "payout_window \<Rightarrow> i64 \<Rightarrow> u64 option \<Rightarrow> accepted_share \<Rightarrow> window_advance_error + u64 option" where
  "delta_step w anchor prior_delta_seq record =
     (if sh_share_difficulty record = 0 then Inl NonPositiveDifficulty
      else if sint anchor < sint (sh_job_issued_at_ms record) \<or> sint anchor < sint (sh_accepted_at_ms record)
      then Inl IneligibleAtNewAnchor
      else if sint (sh_job_issued_at_ms record) \<le> sint (win_anchor_job_issued_at_ms w) \<and>
          sint (sh_accepted_at_ms record) \<le> sint (win_anchor_job_issued_at_ms w)
      then Inl RepeatsPreviouslyEligible
      else if (case last_share_seq w of None \<Rightarrow> False | Some prior \<Rightarrow> sh_share_seq record \<le> prior) then Inl NotAnAppend
      else if (case prior_delta_seq of None \<Rightarrow> False | Some prior \<Rightarrow> sh_share_seq record \<le> prior)
      then Inl DeltaOrderNotIncreasing
      else Inr (Some (sh_share_seq record)))"

text \<open>Filling the last page; the rest of the delta gets pages of its own.\<close>

definition merge_last_page ::
    "payout_window \<Rightarrow> accepted_share list \<Rightarrow> u8 list list \<Rightarrow>
     window_page list \<times> nat set \<times> accepted_share list \<times> u8 list list" where
  "merge_last_page w delta fragments =
     (let pages = win_pages w in
      if delta \<noteq> [] \<and> pages \<noteq> [] \<and> length (wp_records (last pages)) < win_page_size w
      then
        let last_page = last pages; available = win_page_size w - length (wp_records last_page);
            n = min available (length delta) in
        if 0 < n
        then (butlast pages @ [page_from_retained (wp_records last_page @ take n delta) (wp_fragments last_page @ take n fragments)],
              {length pages - 1}, drop n delta, drop n fragments)
        else (pages, {}, delta, fragments)
      else (pages, {}, delta, fragments))"

fun expire_pages :: "u128 \<Rightarrow> u128 \<Rightarrow> window_page list \<Rightarrow> u128 \<times> nat \<times> nat \<times> window_page list" where
  "expire_pages window_weight difficulty_left [] = (difficulty_left, 0, 0, [])"
| "expire_pages window_weight difficulty_left (page # pages) =
     (if window_weight \<le> difficulty_left - wp_total_difficulty page
      then
        let (difficulty_left, rows, n, rest) = expire_pages window_weight (difficulty_left - wp_total_difficulty page) pages in
        (difficulty_left, rows + length (wp_records page), Suc n, rest)
      else (difficulty_left, 0, 0, page # pages))"

fun expire_records :: "u128 \<Rightarrow> u128 \<Rightarrow> accepted_share list \<Rightarrow> u128 \<times> nat" where
  "expire_records window_weight difficulty_left [] = (difficulty_left, 0)"
| "expire_records window_weight difficulty_left (record # records) =
     (if window_weight \<le> difficulty_left - sh_share_difficulty record
      then
        let (difficulty_left, n) = expire_records window_weight (difficulty_left - sh_share_difficulty record) records in (difficulty_left, Suc n)
      else (difficulty_left, 0))"

definition push_survivor :: "nat \<Rightarrow> nat \<times> bool \<times> u8 list \<Rightarrow> u8 list \<Rightarrow> nat \<times> bool \<times> u8 list" where
  "push_survivor retained_old = (\<lambda>(skip, first, items) fragment.
     if 0 < skip then (skip - 1, first, items)
     else (skip, False, items @ (if \<not> first \<or> 0 < retained_old then [0x2c] else []) @ fragment))"

definition advance_byte_delta :: "nat list \<Rightarrow> payout_window \<Rightarrow> nat \<Rightarrow> nat \<Rightarrow> window_advance_byte_delta" where
  "advance_byte_delta old_fragment_lengths advanced old_count expired_rows =
     (let dropped_old = min expired_rows old_count;
          retained_old = old_count - dropped_old;
          retained_drop_bytes =
            (if dropped_old = 0 then 0
             else
               let dropped_bytes = sum_list (take dropped_old old_fragment_lengths) in
               if 0 < retained_old then dropped_bytes + dropped_old else dropped_bytes + (old_count - 1));
          surviving_new = record_count advanced - retained_old;
          appended_items =
            (if 0 < surviving_new
             then snd (snd (foldl (\<lambda>acc page. foldl (push_survivor retained_old) acc (wp_fragments page))
               (retained_old, True, []) (win_pages advanced)))
             else []) in
      \<lparr>wab_retained_drop_bytes = retained_drop_bytes, wab_appended_items = appended_items\<rparr>)"

definition advance_window ::
    "payout_window \<Rightarrow> accepted_share list \<Rightarrow> i64 \<Rightarrow>
     window_advance_error + (payout_window \<times> window_advance_stats \<times> window_advance_byte_delta)" where
  "advance_window w delta anchor =
     (if sint anchor < sint (win_anchor_job_issued_at_ms w) then Inl AnchorMovedBackwards
      else
        and_then (try_fold (delta_step w anchor) None delta) (\<lambda>_.
        and_then (checked_sum DifficultyOverflow (map sh_share_difficulty delta)) (\<lambda>delta_difficulty.
        and_then (ok_or DifficultyOverflow (checked_add (win_total_difficulty w) delta_difficulty)) (\<lambda>difficulty_left.
        let (pages, touched, rest, rest_fragments) = merge_last_page w delta (map canonical_share_fragment delta);
            pages = pages @ map (\<lambda>(rs, fs). page_from_retained rs fs)
              (zip (paged (win_page_size w) rest) (paged (win_page_size w) rest_fragments));
            (difficulty_left, expired, first_retained, pages) = expire_pages (win_window_weight w) difficulty_left pages;
            (difficulty_left, partial_expired) =
              (case pages of [] \<Rightarrow> (difficulty_left, 0) | page # _ \<Rightarrow> expire_records (win_window_weight w) difficulty_left (wp_records page));
            (pages, touched) =
              (case pages of
                 page # others \<Rightarrow>
                   if 0 < partial_expired
                   then (page_from_retained (drop partial_expired (wp_records page)) (drop partial_expired (wp_fragments page)) # others,
                         if first_retained < length (win_pages w) then insert first_retained touched else touched)
                   else (pages, touched)
               | [] \<Rightarrow> (pages, touched));
            expired = expired + partial_expired;
            advanced = \<lparr>win_anchor_job_issued_at_ms = anchor, win_window_weight = win_window_weight w,
              win_page_size = win_page_size w, win_pages = pages, win_total_difficulty = difficulty_left\<rparr> in
        Inr (advanced,
             \<lparr>was_added_rows = length delta, was_expired_rows = expired, was_touched_pages = card touched\<rparr>,
             advance_byte_delta (fragment_lengths w) advanced (length (fragment_lengths w)) expired)))))"

end
