(* ===== verification/Window_Advance.thy ===== *)
theory Window_Advance
  imports Payout_Window Canonical_Writer
begin

text \<open>
  What the folds of the payout window compute: the shortest suffix of the eligible shares whose
  weight reaches the window, kept by dropping from the front. Pages do not matter.
\<close>

section \<open>The shortest suffix\<close>

definition work_of :: "accepted_share list \<Rightarrow> nat" where
  "work_of rs = sum_list (map (unat \<circ> sh_share_difficulty) rs)"

fun shed :: "nat \<Rightarrow> accepted_share list \<Rightarrow> accepted_share list" where
  "shed W [] = []"
| "shed W (r # rs) = (if W \<le> work_of rs then shed W rs else r # rs)"

lemma work_of_simps [simp]:
  "work_of [] = 0" "work_of (r # rs) = unat (sh_share_difficulty r) + work_of rs"
  "work_of (rs @ ss) = work_of rs + work_of ss"
  by (simp_all add: work_of_def)

lemma shed_0 [simp]: "shed 0 rs = []"
  by (induction rs) simp_all

lemma shed_all: "\<not> W \<le> work_of rs \<Longrightarrow> shed W rs = rs"
  by (cases rs) auto

lemma shed_append: "shed W (rs @ ss) = (if W \<le> work_of ss then shed W ss else shed (W - work_of ss) rs @ ss)"
  by (induction rs) (auto simp: shed_all)

lemma shed_shed: "k \<le> W \<Longrightarrow> shed k (shed W rs) = shed k rs"
  by (induction rs) auto

lemma shed_suffix: "suffix (shed W rs) rs"
  by (induction rs) (auto simp: suffix_ConsI)

lemma shed_drop: "shed W rs = drop (length rs - length (shed W rs)) rs"
  using shed_suffix [of W rs] by (metis append_eq_conv_conj diff_add_inverse2 length_append suffix_def)

lemma shed_nonempty: "0 < W \<Longrightarrow> rs \<noteq> [] \<Longrightarrow> shed W rs \<noteq> []"
proof (induction rs)
  case (Cons r rs)
  then show ?case
    by (cases "rs = []") auto
qed simp

lemma weight_shed: "work_of (shed W rs) \<le> work_of rs"
  by (induction rs) auto

lemma shed_set: "set (shed W rs) \<subseteq> set rs"
  using shed_suffix set_mono_suffix by blast

lemma last_shed: "0 < W \<Longrightarrow> rs \<noteq> [] \<Longrightarrow> last (shed W rs) = last rs"
  using shed_suffix [of W rs] shed_nonempty [of W rs] by (metis last_appendR suffix_def)

section \<open>The full fold\<close>

interpretation share_seq: key_order compare_share_seq sh_share_seq
  by unfold_locales (simp add: compare_share_seq_def)

lemma retain_newest_eq:
  "retain_newest W acc rs =
     (let kept = shed (unat W - unat acc) (rev rs) in
      if unat acc + work_of kept < 2 ^ 128 then Inr (length kept, acc + of_nat (work_of kept))
      else Inl FoldDifficultyOverflow)"
proof (induction W acc rs rule: retain_newest.induct)
  case (1 W acc)
  then show ?case
    using unsigned_less [of acc, where ?'a = nat] by simp
next
  case (2 W acc r rs)
  let ?d = "sh_share_difficulty r"
  show ?case
  proof (cases "W \<le> acc")
    case True
    then show ?thesis
      using unsigned_less [of acc, where ?'a = nat] by (simp add: word_le_nat_alt Let_def)
  next
    case False
    then have less: "unat acc < unat W"
      by (simp add: word_le_nat_alt)
    have split: "shed (unat W - unat acc) (rev (r # rs)) = shed (unat W - unat acc - unat ?d) (rev rs) @ [r]"
      using less by (auto simp: shed_append)
    show ?thesis
    proof (cases "unat acc + unat ?d < 2 ^ 128")
      case True
      then have sum: "checked_add acc ?d = Some (acc + ?d)" "unat (acc + ?d) = unat acc + unat ?d"
        by (simp_all add: checked_add_def unat_word_ariths)
      show ?thesis
        unfolding split using False 2 sum by (simp add: Let_def algebra_simps)
    next
      case False
      then have "checked_add acc ?d = None"
        by (simp add: checked_add_def)
      then show ?thesis
        unfolding split using \<open>\<not> W \<le> acc\<close> False by (simp add: Let_def)
    qed
  qed
qed

lemma snapshot_ok:
  "(\<exists>st. try_fold snapshot_step (prior, ids) rs = Inr st) \<longleftrightarrow>
     sorted_wrt (<) (map sh_share_seq rs) \<and> (\<forall>q r. prior = Some q \<longrightarrow> r \<in> set rs \<longrightarrow> q < sh_share_seq r) \<and>
     distinct (map sh_share_id rs) \<and> sh_share_id ` set rs \<inter> ids = {} \<and> (\<forall>r \<in> set rs. sh_share_difficulty r \<noteq> 0)"
proof (induction rs arbitrary: prior ids)
  case (Cons r rs)
  let ?ok = "(\<forall>q. prior = Some q \<longrightarrow> q < sh_share_seq r) \<and> sh_share_id r \<notin> ids \<and> sh_share_difficulty r \<noteq> 0"
  show ?case
  proof (cases ?ok)
    case True
    then have step: "snapshot_step (prior, ids) r = Inr (Some (sh_share_seq r), insert (sh_share_id r) ids)"
      by (auto simp: snapshot_step_def split: option.split)
    have "(\<forall>q x. prior = Some q \<longrightarrow> x \<in> set (r # rs) \<longrightarrow> q < sh_share_seq x)"
      if "\<forall>x \<in> set rs. sh_share_seq r < sh_share_seq x"
      using that True by (auto intro: less_trans)
    moreover have "sh_share_id ` set (r # rs) \<inter> ids = {} \<longleftrightarrow> sh_share_id ` set rs \<inter> ids = {}"
      using True by auto
    ultimately show ?thesis
      unfolding try_fold.simps step and_then.simps Cons.IH using True by auto
  next
    case False
    then have "\<exists>e. snapshot_step (prior, ids) r = Inl e"
      by (auto simp: snapshot_step_def split: option.splits)
    then have "\<not> (\<exists>st. try_fold snapshot_step (prior, ids) (r # rs) = Inr st)"
      by auto
    moreover have "\<not> ((\<forall>q x. prior = Some q \<longrightarrow> x \<in> set (r # rs) \<longrightarrow> q < sh_share_seq x) \<and>
        sh_share_id ` set (r # rs) \<inter> ids = {} \<and> (\<forall>r \<in> set (r # rs). sh_share_difficulty r \<noteq> 0))"
      using False by auto
    ultimately show ?thesis
      by blast
  qed
qed simp

definition log_ok :: "accepted_share list \<Rightarrow> bool" where
  "log_ok rs \<longleftrightarrow> sorted_wrt (<) (map sh_share_seq rs) \<and> distinct (map sh_share_id rs) \<and>
     (\<forall>r \<in> set rs. sh_share_difficulty r \<noteq> 0)"

definition eligible_log :: "accepted_share list \<Rightarrow> i64 \<Rightarrow> accepted_share list" where
  "eligible_log records anchor = sort_by compare_share_seq (filter (eligible_at anchor) records)"

lemma full_fold_Inr:
  "from_full_snapshot records anchor W n = Inr w \<longleftrightarrow>
     W \<noteq> 0 \<and> n \<noteq> 0 \<and> log_ok (eligible_log records anchor) \<and>
     work_of (shed (unat W) (eligible_log records anchor)) < 2 ^ 128 \<and>
     w = \<lparr>win_anchor_job_issued_at_ms = anchor, win_window_weight = W, win_page_size = n,
       win_pages = map page_from_records (paged n (shed (unat W) (eligible_log records anchor))),
       win_total_difficulty = of_nat (work_of (shed (unat W) (eligible_log records anchor)))\<rparr>"
proof -
  let ?E = "eligible_log records anchor"
  have "(\<exists>st. try_fold snapshot_step (None, {}) ?E = Inr st) \<longleftrightarrow> log_ok ?E"
    unfolding snapshot_ok by (simp add: log_ok_def)
  then show ?thesis
    by (auto simp: from_full_snapshot_def eligible_log_def [symmetric] and_then_Inr retain_newest_eq shed_drop [symmetric] Let_def)
qed

section \<open>Pages\<close>

definition page_ok :: "nat \<Rightarrow> window_page \<Rightarrow> bool" where
  "page_ok n p \<longleftrightarrow> wp_records p \<noteq> [] \<and> length (wp_records p) \<le> n \<and> wp_fragments p = map canonical_share_fragment (wp_records p) \<and>
     unat (wp_total_difficulty p) = work_of (wp_records p)"

definition holds_records :: "payout_window \<Rightarrow> accepted_share list \<Rightarrow> bool" where
  "holds_records w rs \<longleftrightarrow> list_all (page_ok (win_page_size w)) (win_pages w) \<and> shares_for_build w = rs \<and>
     unat (win_total_difficulty w) = work_of rs \<and> win_page_size w \<noteq> 0"

lemma paged_eq: "paged n xs = (if xs = [] \<or> n = 0 then [] else take n xs # paged n (drop n xs))"
  by (subst paged.simps) (auto simp: Let_def min_def)

lemma paged_induct [case_names base more]:
  assumes "\<And>xs. xs = [] \<or> n = 0 \<Longrightarrow> P xs" and "\<And>xs. xs \<noteq> [] \<Longrightarrow> n \<noteq> 0 \<Longrightarrow> P (drop n xs) \<Longrightarrow> P xs"
  shows "P xs"
proof (induction "length xs" arbitrary: xs rule: less_induct)
  case less
  show ?case
  proof (cases "xs = [] \<or> n = 0")
    case False
    then show ?thesis
      using assms(2) less [of "drop n xs"] by (cases xs) auto
  qed (rule assms(1))
qed

lemma concat_paged: "n \<noteq> 0 \<Longrightarrow> concat (paged n xs) = xs"
proof (induction xs rule: paged_induct [of n])
  case (more xs)
  then show ?case by (subst paged_eq) simp
qed (simp add: paged_eq)

lemma paged_nonempty: "p \<in> set (paged n xs) \<Longrightarrow> p \<noteq> []"
proof (induction xs rule: paged_induct [of n])
  case (base xs)
  then show ?case by (subst (asm) paged_eq) simp
next
  case (more xs)
  have "paged n xs = take n xs # paged n (drop n xs)"
    using more(1,2) by (subst paged_eq) simp
  then show ?case
    using more by auto
qed

lemma paged_length: "p \<in> set (paged n xs) \<Longrightarrow> length p \<le> n"
proof (induction xs rule: paged_induct [of n])
  case (base xs)
  then show ?case by (subst (asm) paged_eq) simp
next
  case (more xs)
  have "paged n xs = take n xs # paged n (drop n xs)"
    using more(1,2) by (subst paged_eq) simp
  then show ?case
    using more by auto
qed

lemma paged_map: "paged n (map f xs) = map (map f) (paged n xs)"
proof (induction xs rule: paged_induct [of n])
  case (base xs)
  then show ?case by (subst (1 2) paged_eq) auto
next
  case (more xs)
  have "paged n xs = take n xs # paged n (drop n xs)" "paged n (map f xs) = take n (map f xs) # paged n (drop n (map f xs))"
    using more(1,2) by (subst paged_eq, simp)+
  then show ?case
    using more(3) by (simp add: take_map drop_map)
qed

lemma saturating_sum:
  "unat acc + work_of rs < 2 ^ 128 \<Longrightarrow>
     unat (foldl saturating_add acc (map sh_share_difficulty rs)) = unat acc + work_of rs"
proof (induction rs arbitrary: acc)
  case (Cons r rs)
  then have "saturating_add acc (sh_share_difficulty r) = acc + sh_share_difficulty r"
    "unat (acc + sh_share_difficulty r) = unat acc + unat (sh_share_difficulty r)"
    by (simp_all add: saturating_add_def unat_word_ariths)
  then show ?case
    using Cons by simp
qed simp

lemma retained_page_ok:
  "rs \<noteq> [] \<Longrightarrow> length rs \<le> n \<Longrightarrow> work_of rs < 2 ^ 128 \<Longrightarrow> page_ok n (page_from_retained rs (map canonical_share_fragment rs))"
  using saturating_sum [of 0 rs] by (simp add: page_ok_def page_from_retained_def)

lemma page_from_records_eq: "page_from_records rs = page_from_retained rs (map canonical_share_fragment rs)"
  by (simp add: page_from_records_def page_from_retained_def)

lemma weight_concat: "work_of (concat rss) = sum_list (map work_of rss)"
  by (induction rss) simp_all

lemma weight_member: "p \<in> set ps \<Longrightarrow> work_of p \<le> work_of (concat ps)"
  unfolding weight_concat by (simp add: member_le_sum_list)

lemma paged_pages_ok:
  assumes "work_of xs < 2 ^ 128" and "n \<noteq> 0"
  shows "list_all (page_ok n) (map page_from_records (paged n xs))"
    and "concat (map wp_records (map page_from_records (paged n xs))) = xs"
proof -
  have "work_of p < 2 ^ 128" if "p \<in> set (paged n xs)" for p
    using weight_member [OF that] concat_paged [OF assms(2), of xs] assms(1) by simp
  then show "list_all (page_ok n) (map page_from_records (paged n xs))"
    using paged_nonempty paged_length by (auto simp: list_all_iff page_from_records_eq intro!: retained_page_ok)
  show "concat (map wp_records (map page_from_records (paged n xs))) = xs"
    using concat_paged [OF assms(2)] by (simp add: page_from_records_def comp_def)
qed

lemma full_fold_holds:
  "from_full_snapshot records anchor W n = Inr w \<Longrightarrow> holds_records w (shed (unat W) (eligible_log records anchor))"
  using paged_pages_ok [of "shed (unat W) (eligible_log records anchor)" n]
  by (auto simp: full_fold_Inr holds_records_def shares_for_build_def unat_of_nat)

section \<open>The pages of an advance\<close>

lemma merge_last_page_ok:
  assumes run: "merge_last_page w delta (map canonical_share_fragment delta) = (pages, touched, rest, fs)"
    and pages: "list_all (page_ok (win_page_size w)) (win_pages w)" and fits: "work_of (shares_for_build w @ delta) < 2 ^ 128"
  shows "list_all (page_ok (win_page_size w)) pages \<and> fs = map canonical_share_fragment rest \<and>
    concat (map wp_records pages) @ rest = shares_for_build w @ delta"
proof (cases "delta \<noteq> [] \<and> win_pages w \<noteq> [] \<and> length (wp_records (last (win_pages w))) < win_page_size w")
  case False
  then show ?thesis
    using run pages by (auto simp: merge_last_page_def shares_for_build_def Let_def)
next
  case True
  let ?last = "last (win_pages w)"
  let ?n = "min (win_page_size w - length (wp_records ?last)) (length delta)"
  have split: "win_pages w = butlast (win_pages w) @ [?last]"
    using True by simp
  have ok: "list_all (page_ok (win_page_size w)) (butlast (win_pages w))" "page_ok (win_page_size w) ?last"
    using pages unfolding list_all_iff by (auto dest: in_set_butlastD simp: True)
  have n: "0 < ?n"
    using True by auto
  have run': "pages = butlast (win_pages w) @ [page_from_retained (wp_records ?last @ take ?n delta)
      (wp_fragments ?last @ take ?n (map canonical_share_fragment delta))]" "rest = drop ?n delta"
    "fs = drop ?n (map canonical_share_fragment delta)"
    using run True n unfolding merge_last_page_def by (auto simp: Let_def)
  have shares: "shares_for_build w = concat (map wp_records (butlast (win_pages w))) @ wp_records ?last"
    unfolding shares_for_build_def by (subst split) simp
  have "work_of (take ?n delta) + work_of (drop ?n delta) = work_of delta"
    by (metis append_take_drop_id work_of_simps(3))
  then have "work_of (wp_records ?last @ take ?n delta) < 2 ^ 128"
    using fits by (simp add: shares)
  then have "page_ok (win_page_size w) (page_from_retained (wp_records ?last @ take ?n delta)
      (map canonical_share_fragment (wp_records ?last @ take ?n delta)))"
    using ok(2) by (intro retained_page_ok) (auto simp: page_ok_def)
  moreover have "wp_fragments ?last @ take ?n (map canonical_share_fragment delta) =
      map canonical_share_fragment (wp_records ?last @ take ?n delta)"
    using ok(2) by (simp add: page_ok_def take_map)
  ultimately have "list_all (page_ok (win_page_size w)) pages"
    using ok(1) unfolding run'(1) by simp
  moreover have "concat (map wp_records pages) @ rest = shares_for_build w @ delta"
    unfolding run'(1,2) shares by (simp add: page_from_retained_def)
  ultimately show ?thesis
    by (simp add: run'(2,3) drop_map)
qed

lemma paged_zip:
  "map (\<lambda>(rs, fs). page_from_retained rs fs) (zip (paged n rest) (paged n (map canonical_share_fragment rest))) =
     map page_from_records (paged n rest)"
  by (simp add: paged_map zip_map2 zip_same_conv_map page_from_records_eq comp_def)

lemma expire_pages_ok:
  assumes "expire_pages W d ps = (d', rows, n, rest)" and "list_all (page_ok m) ps"
    and "unat d = work_of (concat (map wp_records ps))"
  shows "list_all (page_ok m) rest \<and> unat d' = work_of (concat (map wp_records rest)) \<and>
    rows + length (concat (map wp_records rest)) = length (concat (map wp_records ps)) \<and>
    shed (unat W) (concat (map wp_records ps)) = shed (unat W) (concat (map wp_records rest)) \<and>
    (rest \<noteq> [] \<longrightarrow> work_of (concat (map wp_records (tl rest))) < unat W)"
  using assms
proof (induction W d ps arbitrary: d' rows n rest rule: expire_pages.induct)
  case (1 W d)
  then show ?case by auto
next
  case (2 W d p ps)
  have le: "wp_total_difficulty p \<le> d"
    using 2(3,4) by (auto simp: page_ok_def word_le_nat_alt)
  then have sub: "unat (d - wp_total_difficulty p) = work_of (concat (map wp_records ps))"
    using 2(3,4) by (auto simp: page_ok_def unat_sub word_le_nat_alt)
  show ?case
  proof (cases "W \<le> d - wp_total_difficulty p")
    case True
    obtain d1 rows1 n1 rest1 where rec: "expire_pages W (d - wp_total_difficulty p) ps = (d1, rows1, n1, rest1)"
      using prod_cases4 by blast
    then have eq: "d' = d1" "rows = rows1 + length (wp_records p)" "rest = rest1"
      using 2(2) True by auto
    have "unat W \<le> work_of (concat (map wp_records ps))"
      using True sub by (simp add: word_le_nat_alt)
    then have "shed (unat W) (concat (map wp_records (p # ps))) = shed (unat W) (concat (map wp_records ps))"
      by (simp add: shed_append)
    then show ?thesis
      using 2(1) [OF True rec] 2(3) sub by (simp add: eq)
  next
    case False
    then have eq: "d' = d" "rows = 0" "rest = p # ps"
      using 2(2) by auto
    have "work_of (concat (map wp_records ps)) < unat W"
      using False sub by (simp add: word_le_nat_alt)
    then show ?thesis
      using 2(3,4) by (simp add: eq)
  qed
qed

lemma expire_records_ok:
  assumes "expire_records W d rs = (d', k)" and "unat d = work_of (rs @ later)" and "work_of later < unat W"
  shows "shed (unat W) (rs @ later) = drop k rs @ later \<and> unat d' = work_of (drop k rs @ later) \<and> (rs \<noteq> [] \<longrightarrow> k < length rs)"
  using assms
proof (induction W d rs arbitrary: d' k rule: expire_records.induct)
  case (1 W d)
  then show ?case
    by (auto simp: shed_all)
next
  case (2 W d r rs)
  have sub: "unat (d - sh_share_difficulty r) = work_of (rs @ later)"
    using 2(3) by (auto simp: unat_sub word_le_nat_alt)
  show ?case
  proof (cases "W \<le> d - sh_share_difficulty r")
    case True
    obtain d1 k1 where rec: "expire_records W (d - sh_share_difficulty r) rs = (d1, k1)"
      by fastforce
    then have eq: "d' = d1" "k = Suc k1"
      using 2(2) True by auto
    have reach: "unat W \<le> work_of (rs @ later)"
      using True sub by (simp add: word_le_nat_alt)
    then have "rs \<noteq> []"
      using 2(4) by auto
    then show ?thesis
      using 2(1) [OF True rec sub 2(4)] reach by (simp add: eq)
  next
    case False
    then have eq: "d' = d" "k = 0"
      using 2(2) by auto
    have "\<not> unat W \<le> work_of (rs @ later)"
      using False sub by (simp add: word_le_nat_alt)
    then show ?thesis
      using 2(3) by (simp add: eq)
  qed
qed

section \<open>Advance\<close>

definition delta_fits :: "payout_window \<Rightarrow> i64 \<Rightarrow> accepted_share \<Rightarrow> bool" where
  "delta_fits w anchor r \<longleftrightarrow>
     sh_share_difficulty r \<noteq> 0 \<and> eligible_at anchor r \<and> \<not> eligible_at (win_anchor_job_issued_at_ms w) r \<and>
     (\<forall>s. last_share_seq w = Some s \<longrightarrow> s < sh_share_seq r)"

lemma delta_step_cases:
  "(delta_fits w anchor r \<and> (\<forall>q. prior = Some q \<longrightarrow> q < sh_share_seq r) \<and>
      delta_step w anchor prior r = Inr (Some (sh_share_seq r))) \<or>
   (\<not> (delta_fits w anchor r \<and> (\<forall>q. prior = Some q \<longrightarrow> q < sh_share_seq r)) \<and>
      (\<exists>e. delta_step w anchor prior r = Inl e))"
  by (cases "last_share_seq w"; cases prior)
    (auto simp: delta_step_def delta_fits_def eligible_at_def not_le not_less)

lemma delta_ok:
  "(\<exists>st. try_fold (delta_step w anchor) prior delta = Inr st) \<longleftrightarrow>
     list_all (delta_fits w anchor) delta \<and> sorted_wrt (<) (map sh_share_seq delta) \<and>
     (\<forall>q r. prior = Some q \<longrightarrow> r \<in> set delta \<longrightarrow> q < sh_share_seq r)"
proof (induction delta arbitrary: prior)
  case (Cons r delta)
  show ?case
  proof (cases "delta_fits w anchor r \<and> (\<forall>q. prior = Some q \<longrightarrow> q < sh_share_seq r)")
    case True
    then have step: "delta_step w anchor prior r = Inr (Some (sh_share_seq r))"
      using delta_step_cases [of w anchor r prior] by blast
    have "(\<forall>q x. prior = Some q \<longrightarrow> x \<in> set (r # delta) \<longrightarrow> q < sh_share_seq x)"
      if "\<forall>x \<in> set delta. sh_share_seq r < sh_share_seq x"
      using that True by (auto intro: less_trans)
    then show ?thesis
      unfolding try_fold.simps step and_then.simps Cons.IH using True by auto
  next
    case False
    then obtain e where "delta_step w anchor prior r = Inl e"
      using delta_step_cases [of w anchor r prior] by blast
    then have "\<not> (\<exists>st. try_fold (delta_step w anchor) prior (r # delta) = Inr st)"
      by simp
    moreover have "\<not> (list_all (delta_fits w anchor) (r # delta) \<and>
        (\<forall>q x. prior = Some q \<longrightarrow> x \<in> set (r # delta) \<longrightarrow> q < sh_share_seq x))"
      using False by auto
    ultimately show ?thesis
      by blast
  qed
qed simp

lemma last_share_seq_eq:
  assumes "holds_records w rs"
  shows "last_share_seq w = (if rs = [] then None else Some (sh_share_seq (last rs)))"
proof (cases "win_pages w = []")
  case True
  then show ?thesis
    using assms by (auto simp: last_share_seq_def holds_records_def shares_for_build_def)
next
  case False
  then obtain ps p where pages: "win_pages w = ps @ [p]"
    by (cases "win_pages w" rule: rev_cases) auto
  then have "wp_records p \<noteq> []" "rs = concat (map wp_records ps) @ wp_records p"
    using assms by (auto simp: holds_records_def shares_for_build_def page_ok_def)
  then show ?thesis
    by (simp add: last_share_seq_def pages)
qed

lemma advance_window_run:
  assumes run: "advance_window w delta anchor = Inr (w1, stats, bytes)" and holds: "holds_records w rs"
  shows "sint (win_anchor_job_issued_at_ms w) \<le> sint anchor \<and> list_all (delta_fits w anchor) delta \<and>
    sorted_wrt (<) (map sh_share_seq delta) \<and> work_of (rs @ delta) < 2 ^ 128"
proof -
  have ok: "\<not> sint anchor < sint (win_anchor_job_issued_at_ms w)" "\<exists>st. try_fold (delta_step w anchor) None delta = Inr st"
    using run by (auto simp: advance_window_def and_then_Inr split: if_splits)
  obtain d t where "checked_sum DifficultyOverflow (map sh_share_difficulty delta) = Inr d"
    "checked_add (win_total_difficulty w) d = Some t"
    using run unfolding advance_window_def by (auto simp: and_then_Inr ok_or_Inr split: if_splits)
  then have "work_of (rs @ delta) < 2 ^ 128"
    using holds by (simp add: checked_sum_Inr holds_records_def work_of_def comp_def checked_add_def split: if_splits)
  then show ?thesis
    using ok by (simp add: delta_ok)
qed

lemma advance_window_holds:
  assumes run: "advance_window w delta anchor = Inr (w1, stats, bytes)" and holds: "holds_records w rs"
  shows "holds_records w1 (shed (unat (win_window_weight w)) (rs @ delta)) \<and>
    win_anchor_job_issued_at_ms w1 = anchor \<and> win_window_weight w1 = win_window_weight w \<and>
    win_page_size w1 = win_page_size w \<and> was_added_rows stats = length delta \<and>
    was_expired_rows stats = length (rs @ delta) - length (shed (unat (win_window_weight w)) (rs @ delta)) \<and>
    bytes = advance_byte_delta (fragment_lengths w) w1 (length (fragment_lengths w)) (was_expired_rows stats)"
proof -
  let ?W = "win_window_weight w" and ?P = "win_page_size w"
  have fits: "work_of (rs @ delta) < 2 ^ 128"
    using advance_window_run [OF assms] by simp
  have shares: "shares_for_build w = rs" and P: "?P \<noteq> 0" and pages_w: "list_all (page_ok ?P) (win_pages w)"
    using holds by (simp_all add: holds_records_def)
  obtain st d t where step: "\<not> sint anchor < sint (win_anchor_job_issued_at_ms w)"
    "try_fold (delta_step w anchor) None delta = Inr st"
    "checked_sum DifficultyOverflow (map sh_share_difficulty delta) = Inr d" "checked_add (win_total_difficulty w) d = Some t"
    using run unfolding advance_window_def by (auto simp: and_then_Inr ok_or_Inr split: if_splits)
  have t: "unat t = work_of (rs @ delta)"
    using step(3,4) holds
    by (auto simp: checked_sum_Inr holds_records_def work_of_def comp_def checked_add_def unat_word_ariths split: if_splits)
  obtain pages touched rest fs where merge: "merge_last_page w delta (map canonical_share_fragment delta) = (pages, touched, rest, fs)"
    using prod_cases4 by blast
  have merged: "list_all (page_ok ?P) pages" "fs = map canonical_share_fragment rest" "concat (map wp_records pages) @ rest = rs @ delta"
    using merge_last_page_ok [OF merge pages_w] fits by (simp_all add: shares)
  let ?all = "pages @ map page_from_records (paged ?P rest)"
  have "work_of (concat (map wp_records pages)) + work_of rest = work_of (rs @ delta)"
    by (metis merged(3) work_of_simps(3))
  then have rest: "work_of rest < 2 ^ 128"
    using fits by simp
  have all: "list_all (page_ok ?P) ?all" "concat (map wp_records ?all) = rs @ delta"
    using paged_pages_ok [OF rest P] merged(1,3) by simp_all
  obtain d1 rows n kept where expire: "expire_pages ?W t ?all = (d1, rows, n, kept)"
    using prod_cases4 by blast
  have pages: "list_all (page_ok ?P) kept" "unat d1 = work_of (concat (map wp_records kept))"
    "rows + length (concat (map wp_records kept)) = length (rs @ delta)"
    "shed (unat ?W) (rs @ delta) = shed (unat ?W) (concat (map wp_records kept))"
    "kept \<noteq> [] \<longrightarrow> work_of (concat (map wp_records (tl kept))) < unat ?W"
    using expire_pages_ok [OF expire all(1)] t unfolding all(2) by simp_all
  show ?thesis
  proof (cases kept)
    case Nil
    then have "win_pages w1 = []" "win_total_difficulty w1 = d1" "win_anchor_job_issued_at_ms w1 = anchor"
      "win_window_weight w1 = ?W" "win_page_size w1 = ?P" "was_added_rows stats = length delta" "was_expired_rows stats = rows"
      "bytes = advance_byte_delta (fragment_lengths w) w1 (length (fragment_lengths w)) (was_expired_rows stats)"
      using run step merge expire by (auto simp: advance_window_def merged(2) paged_zip Let_def)
    then show ?thesis
      using pages P Nil by (simp add: holds_records_def shares_for_build_def)
  next
    case (Cons p others)
    obtain d2 k where records: "expire_records ?W d1 (wp_records p) = (d2, k)"
      by fastforce
    let ?later = "concat (map wp_records others)"
    have p: "page_ok ?P p" "list_all (page_ok ?P) others" "wp_records p \<noteq> []"
      using pages(1) by (simp_all add: Cons page_ok_def)
    have cut: "shed (unat ?W) (wp_records p @ ?later) = drop k (wp_records p) @ ?later"
      "unat d2 = work_of (drop k (wp_records p) @ ?later)" "k < length (wp_records p)"
      using expire_records_ok [OF records] pages(2,5) p(3) by (simp_all add: Cons)
    let ?p = "page_from_retained (drop k (wp_records p)) (drop k (wp_fragments p))"
    have res: "win_pages w1 = (if 0 < k then ?p else p) # others" "win_total_difficulty w1 = d2"
      "win_anchor_job_issued_at_ms w1 = anchor" "win_window_weight w1 = ?W" "win_page_size w1 = ?P"
      "was_added_rows stats = length delta" "was_expired_rows stats = rows + k"
      "bytes = advance_byte_delta (fragment_lengths w) w1 (length (fragment_lengths w)) (was_expired_rows stats)"
      using run step merge expire records by (cases "0 < k"; auto simp: advance_window_def merged(2) paged_zip Let_def Cons)+
    have "work_of (drop k (wp_records p)) < 2 ^ 128"
      using cut(2) unsigned_less [of d2, where ?'a = nat] by simp
    moreover have "length (wp_records p) \<le> ?P"
      using p(1) by (simp add: page_ok_def)
    then have "length (drop k (wp_records p)) \<le> ?P"
      unfolding length_drop by (rule le_trans [OF diff_le_self])
    moreover have "drop k (wp_records p) \<noteq> []"
      using cut(3) by simp
    ultimately have "page_ok ?P (page_from_retained (drop k (wp_records p)) (map canonical_share_fragment (drop k (wp_records p))))"
      by (intro retained_page_ok)
    then have "page_ok ?P ?p"
      using p(1) by (simp add: page_ok_def drop_map)
    then have "list_all (page_ok ?P) (win_pages w1)" "shares_for_build w1 = drop k (wp_records p) @ ?later"
      using p by (auto simp: res(1) shares_for_build_def page_from_retained_def)
    then show ?thesis
      using cut pages(3,4) P by (simp add: holds_records_def res(2-8) Cons)
  qed
qed

definition advance_fits :: "payout_window \<Rightarrow> accepted_share list \<Rightarrow> i64 \<Rightarrow> bool" where
  "advance_fits w delta anchor \<longleftrightarrow>
     sint (win_anchor_job_issued_at_ms w) \<le> sint anchor \<and> list_all (delta_fits w anchor) delta \<and>
     sorted_wrt (<) (map sh_share_seq delta)"

lemma advance_window_cases:
  assumes holds: "holds_records w rs"
  shows "(\<exists>r. advance_window w delta anchor = Inr r) \<longleftrightarrow> advance_fits w delta anchor \<and> work_of (rs @ delta) < 2 ^ 128"
    and "advance_window w delta anchor = Inl DifficultyOverflow \<longleftrightarrow>
      advance_fits w delta anchor \<and> 2 ^ 128 \<le> work_of (rs @ delta)"
proof -
  have total: "unat (win_total_difficulty w) = work_of rs"
    using holds by (simp add: holds_records_def)
  have tail: "(if work_of (rs @ delta) < 2 ^ 128 then \<exists>d t. checked_sum DifficultyOverflow (map sh_share_difficulty delta) = Inr d \<and>
        checked_add (win_total_difficulty w) d = Some t
      else checked_sum DifficultyOverflow (map sh_share_difficulty delta) = Inl DifficultyOverflow \<or>
        (\<exists>d. checked_sum DifficultyOverflow (map sh_share_difficulty delta) = Inr d \<and> checked_add (win_total_difficulty w) d = None))"
  proof (cases "checked_sum DifficultyOverflow (map sh_share_difficulty delta)")
    case (Inl e)
    then show ?thesis
      by (simp add: checked_sum_Inl work_of_def comp_def)
  next
    case (Inr d)
    then have "unat d = work_of delta"
      by (simp add: checked_sum_Inr work_of_def comp_def)
    then show ?thesis
      using Inr total by (simp add: checked_add_def)
  qed
  have no: "try_fold (delta_step w anchor) prior delta \<noteq> Inl DifficultyOverflow" for prior
  proof (induction delta arbitrary: prior)
    case (Cons r delta)
    have "delta_step w anchor prior r \<noteq> Inl DifficultyOverflow"
      by (simp add: delta_step_def)
    then show ?case
      using Cons by (cases "delta_step w anchor prior r") simp_all
  qed simp
  show "(\<exists>r. advance_window w delta anchor = Inr r) \<longleftrightarrow> advance_fits w delta anchor \<and> work_of (rs @ delta) < 2 ^ 128"
  proof
    assume "\<exists>r. advance_window w delta anchor = Inr r"
    then show "advance_fits w delta anchor \<and> work_of (rs @ delta) < 2 ^ 128"
      using advance_window_run [OF _ holds] unfolding advance_fits_def by fastforce
  next
    assume ok: "advance_fits w delta anchor \<and> work_of (rs @ delta) < 2 ^ 128"
    then obtain st d t where "\<not> sint anchor < sint (win_anchor_job_issued_at_ms w)" "try_fold (delta_step w anchor) None delta = Inr st"
      "checked_sum DifficultyOverflow (map sh_share_difficulty delta) = Inr d" "checked_add (win_total_difficulty w) d = Some t"
      using tail delta_ok [of w anchor None delta] unfolding advance_fits_def by auto
    then show "\<exists>r. advance_window w delta anchor = Inr r"
      by (simp add: advance_window_def Let_def split_def)
  qed
  show "advance_window w delta anchor = Inl DifficultyOverflow \<longleftrightarrow>
      advance_fits w delta anchor \<and> 2 ^ 128 \<le> work_of (rs @ delta)"
  proof (cases "advance_fits w delta anchor")
    case True
    then obtain st where st: "\<not> sint anchor < sint (win_anchor_job_issued_at_ms w)" "try_fold (delta_step w anchor) None delta = Inr st"
      using delta_ok [of w anchor None delta] unfolding advance_fits_def by auto
    show ?thesis
    proof (cases "work_of (rs @ delta) < 2 ^ 128")
      case fits: True
      then obtain d t where "checked_sum DifficultyOverflow (map sh_share_difficulty delta) = Inr d"
        "checked_add (win_total_difficulty w) d = Some t"
        using tail by auto
      then have "advance_window w delta anchor \<noteq> Inl DifficultyOverflow"
        using st by (simp add: advance_window_def Let_def split_def)
      then show ?thesis
        using fits by simp
    next
      case False
      then have "advance_window w delta anchor = Inl DifficultyOverflow"
        using st tail by (auto simp: advance_window_def)
      then show ?thesis
        using True False by simp
    qed
  next
    case False
    then consider "sint anchor < sint (win_anchor_job_issued_at_ms w)"
      | e where "\<not> sint anchor < sint (win_anchor_job_issued_at_ms w)" "try_fold (delta_step w anchor) None delta = Inl e"
      using delta_ok [of w anchor None delta]
      by (cases "try_fold (delta_step w anchor) None delta") (auto simp: advance_fits_def)
    then have "advance_window w delta anchor \<noteq> Inl DifficultyOverflow"
      by cases (use no [of None] in \<open>auto simp: advance_window_def\<close>)
    then show ?thesis
      using False by simp
  qed
qed

section \<open>Canonical bytes\<close>

lemma holds_fragments:
  assumes "holds_records w rs"
  shows "concat (map wp_fragments (win_pages w)) = map canonical_share_fragment rs"
proof -
  have "concat (map wp_fragments ps) = map canonical_share_fragment (concat (map wp_records ps))" if "list_all (page_ok n) ps" for n ps
    using that by (induction ps) (auto simp: page_ok_def)
  then show ?thesis
    using assms by (auto simp: holds_records_def shares_for_build_def)
qed

lemma foldl_concat: "foldl (\<lambda>acc p. foldl f acc (g p)) a ps = foldl f a (concat (map g ps))"
  by (induction ps arbitrary: a) simp_all

lemma push_item_run:
  "foldl push_item (out, b) fs =
     (out @ (if b then concat (map ((#) 0x2c) fs) else json_join fs), b \<or> fs \<noteq> [])"
proof (induction fs arbitrary: out b)
  case (Cons f fs)
  then show ?case
    by (simp add: push_item_def json_join_Cons)
qed simp

lemma items_joined:
  "holds_records w rs \<Longrightarrow> canonical_items_bytes w = json_join (map canonical_share_fragment rs)"
  by (simp add: canonical_items_bytes_def foldl_concat push_item_run holds_fragments)

lemma push_page_run:
  "wp_fragments page \<noteq> [] \<Longrightarrow> push_page (out, b) page =
     (out @ (if b then [0x2c] else []) @ json_join (wp_fragments page), True)"
proof -
  have "foldl (\<lambda>(out, first_in_page) fragment. (out @ (if first_in_page then [] else [0x2c]) @ fragment, False)) (acc, c) fs =
      (acc @ (if c then json_join fs else concat (map ((#) 0x2c) fs)), c \<and> fs = [])" for acc c and fs :: "u8 list list"
    by (induction fs arbitrary: acc c) (simp_all add: json_join_Cons)
  then show "wp_fragments page \<noteq> [] \<Longrightarrow> push_page (out, b) page =
     (out @ (if b then [0x2c] else []) @ json_join (wp_fragments page), True)"
    by (simp add: push_page_def)
qed

lemma push_pages_run:
  "list_all (\<lambda>p. wp_fragments p \<noteq> []) ps \<Longrightarrow> fst (foldl push_page (out, b) ps) =
     (let fs = concat (map wp_fragments ps) in out @ (if b then concat (map ((#) 0x2c) fs) else json_join fs))"
proof (induction ps arbitrary: out b)
  case (Cons p ps)
  obtain f fs where p: "wp_fragments p = f # fs"
    using Cons.prems by (cases "wp_fragments p") auto
  then have "foldl push_page (out, b) (p # ps) = foldl push_page (out @ (if b then [0x2c] else []) @ json_join (wp_fragments p), True) ps"
    by (simp add: push_page_run)
  then show ?case
    using Cons by (simp add: p json_join_Cons)
qed simp

lemma digest_joined:
  assumes "holds_records w rs"
  shows "canonical_digest_hex X w =
     concat (map hex_02x (sha256_digest X ([0x5b] @ json_join (map canonical_share_fragment rs) @ [0x5d])))"
proof -
  have "list_all (\<lambda>p. wp_fragments p \<noteq> []) (win_pages w)"
    using assms by (auto simp: holds_records_def list_all_iff page_ok_def)
  then show ?thesis
    by (simp add: canonical_digest_hex_def push_pages_run holds_fragments [OF assms])
qed

lemma fragment_lengths_eq:
  "holds_records w rs \<Longrightarrow> fragment_lengths w = map (length \<circ> canonical_share_fragment) rs"
  by (metis (no_types) holds_fragments fragment_lengths_def map_concat map_map)

lemma record_count_eq: "holds_records w rs \<Longrightarrow> record_count w = length rs"
  by (auto simp: holds_records_def shares_for_build_def record_count_def length_concat comp_def)

lemma push_survivor_run:
  "foldl (push_survivor old) (skip, first, items) fs =
     (skip - length fs, first \<and> length fs \<le> skip,
      items @ (if first \<and> old = 0 then json_join (drop skip fs) else concat (map ((#) 0x2c) (drop skip fs))))"
proof (induction fs arbitrary: skip first items)
  case (Cons f fs)
  show ?case
  proof (cases skip)
    case 0
    then show ?thesis
      using Cons by (auto simp: push_survivor_def json_join_Cons)
  next
    case (Suc n)
    then show ?thesis
      using Cons by (simp add: push_survivor_def)
  qed
qed simp

lemma json_join_length: "fs \<noteq> [] \<Longrightarrow> length (json_join fs) = sum_list (map length fs) + (length fs - 1)"
proof -
  have "length (concat (map ((#) 0x2c) gs)) = sum_list (map length gs) + length gs" for gs :: "u8 list list"
    by (induction gs) simp_all
  then show "fs \<noteq> [] \<Longrightarrow> length (json_join fs) = sum_list (map length fs) + (length fs - 1)"
    by (cases fs) (simp_all add: json_join_Cons)
qed

lemma json_join_drop:
  assumes "k < length fs"
  shows "drop (sum_list (map length (take k fs)) + k) (json_join fs) = json_join (drop k fs)"
  using assms
proof (induction k arbitrary: fs)
  case (Suc k)
  then obtain f g gs where fs: "fs = f # g # gs"
    by (cases fs; cases "tl fs") auto
  have "drop (sum_list (map length (take (Suc k) fs)) + Suc k) (json_join fs) =
      drop (sum_list (map length (take k (g # gs))) + k) (json_join (g # gs))"
    by (simp add: fs)
  then show ?case
    using Suc by (simp add: fs)
qed simp

lemma byte_surgery:
  assumes old: "holds_records w rs" and new: "holds_records w1 (drop k (rs @ delta))" and k: "k \<le> length (rs @ delta)"
    and bytes: "bytes = advance_byte_delta (fragment_lengths w) w1 (length (fragment_lengths w)) k"
  shows "canonical_items_bytes w1 =
    drop (wab_retained_drop_bytes bytes) (canonical_items_bytes w) @ wab_appended_items bytes"
proof -
  let ?f = canonical_share_fragment and ?n = "length rs"
  let ?gone = "min k ?n" and ?fs = "map canonical_share_fragment (drop k (rs @ delta))"
  have new_fs: "?fs = map ?f (drop k rs) @ map ?f (drop (k - ?n) delta)"
    by simp
  have count: "record_count w1 - (?n - ?gone) = length (drop (k - ?n) delta)"
    using record_count_eq [OF new] k by auto
  have appended: "wab_appended_items bytes =
      (if drop (k - ?n) delta = [] then []
       else if k < ?n then concat (map ((#) 0x2c) (map ?f (drop (k - ?n) delta))) else json_join (map ?f (drop (k - ?n) delta)))"
    using count k unfolding bytes advance_byte_delta_def
    by (auto simp: Let_def fragment_lengths_eq [OF old] foldl_concat holds_fragments [OF new] push_survivor_run new_fs)
  have dropped: "drop (wab_retained_drop_bytes bytes) (json_join (map ?f rs)) = json_join (map ?f (drop k rs))"
  proof (cases "k < ?n")
    case True
    then have "wab_retained_drop_bytes bytes = sum_list (map length (take k (map ?f rs))) + k"
      by (simp add: bytes advance_byte_delta_def Let_def fragment_lengths_eq [OF old] take_map comp_def)
    then show ?thesis
      using True json_join_drop [of k "map ?f rs"] by (simp add: drop_map)
  next
    case False
    then have "rs \<noteq> [] \<Longrightarrow> wab_retained_drop_bytes bytes = length (json_join (map ?f rs))"
      by (simp add: bytes advance_byte_delta_def Let_def fragment_lengths_eq [OF old] json_join_length comp_def)
    then show ?thesis
      using False by (cases "rs = []") auto
  qed
  show ?thesis
    unfolding items_joined [OF old] items_joined [OF new] dropped appended new_fs
    by (cases "drop k rs = []") (auto simp: json_join_append)
qed

section \<open>Runs\<close>

text \<open>
  A window folded from a snapshot of the log and then advanced any number of times, each time by
  the shares of the log that became eligible at the new anchor, with distinct identifiers.
\<close>

inductive window_run :: "u128 \<Rightarrow> nat \<Rightarrow> accepted_share list \<Rightarrow> i64 \<Rightarrow> payout_window \<Rightarrow> bool" for W n where
  folded: "from_full_snapshot log anchor W n = Inr w \<Longrightarrow> window_run W n log anchor w"
| advanced: "window_run W n log anchor w \<Longrightarrow> advance_window w delta anchor1 = Inr (w1, stats, bytes) \<Longrightarrow>
    mset (filter (eligible_at anchor1) log1) = mset (filter (eligible_at anchor) log) + mset delta \<Longrightarrow>
    distinct (map sh_share_id (filter (eligible_at anchor1) log1)) \<Longrightarrow> window_run W n log1 anchor1 w1"

definition window_of_log :: "u128 \<Rightarrow> nat \<Rightarrow> accepted_share list \<Rightarrow> i64 \<Rightarrow> payout_window \<Rightarrow> bool" where
  "window_of_log W n log anchor w \<longleftrightarrow>
     W \<noteq> 0 \<and> win_window_weight w = W \<and> win_page_size w = n \<and> win_anchor_job_issued_at_ms w = anchor \<and>
     log_ok (eligible_log log anchor) \<and> holds_records w (shed (unat W) (eligible_log log anchor))"

lemma mset_eligible_log: "mset (eligible_log log anchor) = mset (filter (eligible_at anchor) log)"
  by (simp add: eligible_log_def)

lemma appended_log:
  assumes w: "window_of_log W n log anchor w" and fits: "list_all (delta_fits w anchor1) delta"
    and delta: "sorted_wrt (<) (map sh_share_seq delta)"
    and log: "mset (filter (eligible_at anchor1) log1) = mset (filter (eligible_at anchor) log) + mset delta"
    and ids: "distinct (map sh_share_id (filter (eligible_at anchor1) log1))"
  shows "eligible_log log1 anchor1 = eligible_log log anchor @ delta" and "log_ok (eligible_log log1 anchor1)"
proof -
  let ?E = "eligible_log log anchor"
  have E: "sorted_wrt (<) (map sh_share_seq ?E)" "\<forall>r \<in> set ?E. sh_share_difficulty r \<noteq> 0" and W: "0 < unat W"
    using w by (simp_all add: window_of_log_def log_ok_def unat_gt_0)
  have "sh_share_seq e < sh_share_seq r" if e: "e \<in> set ?E" and r: "r \<in> set delta" for e r
  proof -
    have ne: "?E \<noteq> []"
      using e by auto
    then have "last_share_seq w = Some (sh_share_seq (last ?E))"
      using last_share_seq_eq [of w "shed (unat W) ?E"] w W by (simp add: window_of_log_def last_shed shed_nonempty)
    then have "sh_share_seq (last ?E) < sh_share_seq r"
      using fits r by (simp add: list_all_iff delta_fits_def)
    moreover have "sh_share_seq e \<le> sh_share_seq (last ?E)"
    proof -
      obtain es l where "?E = es @ [l]"
        using ne by (cases ?E rule: rev_cases) auto
      then show ?thesis
        using E(1) e by (auto simp: sorted_wrt_append intro: less_imp_le)
    qed
    ultimately show ?thesis
      by simp
  qed
  then have strict: "sorted_wrt (<) (map sh_share_seq (?E @ delta))"
    using E(1) delta by (simp add: sorted_wrt_append)
  then have sorted: "sorted (map sh_share_seq (?E @ delta))" and "distinct (map sh_share_seq (?E @ delta))"
    by (simp_all only: strict_sorted_iff)
  then have "inj_on sh_share_seq (set (?E @ delta))"
    by (simp only: distinct_map)
  moreover have "mset (filter (eligible_at anchor1) log1) = mset (?E @ delta)"
    using log by (simp add: mset_eligible_log)
  moreover have "set (filter (eligible_at anchor1) log1) = set (?E @ delta)"
    using calculation(2) by (rule mset_eq_setD)
  ultimately have "eligible_log log1 anchor1 = sort_by compare_share_seq (?E @ delta)"
    unfolding eligible_log_def [of log1] by (intro share_seq.sort_by_perm) simp_all
  then show eq: "eligible_log log1 anchor1 = ?E @ delta"
    using share_seq.sort_by_sorted [OF sorted] by simp
  have "mset (map sh_share_id (eligible_log log1 anchor1)) = mset (map sh_share_id (filter (eligible_at anchor1) log1))"
    by (metis mset_eligible_log mset_map)
  then have "distinct (map sh_share_id (eligible_log log1 anchor1))"
    using ids by (metis mset_eq_imp_distinct_iff)
  then show "log_ok (eligible_log log1 anchor1)"
    using strict E(2) fits unfolding log_ok_def eq by (auto simp: list_all_iff delta_fits_def)
qed

lemma shed_appended: "shed W (shed W rs @ ss) = shed W (rs @ ss)"
  by (simp add: shed_append shed_shed)

lemma run_of_log: "window_run W n log anchor w \<Longrightarrow> window_of_log W n log anchor w"
proof (induction rule: window_run.induct)
  case (folded log anchor w)
  then show ?case
    using full_fold_holds [OF folded] by (auto simp: window_of_log_def full_fold_Inr)
next
  case (advanced log anchor w delta anchor1 w1 stats bytes log1)
  let ?E = "eligible_log log anchor"
  have holds: "holds_records w (shed (unat W) ?E)" and weight: "win_window_weight w = W"
    using advanced.IH by (simp_all add: window_of_log_def)
  have run: "list_all (delta_fits w anchor1) delta" "sorted_wrt (<) (map sh_share_seq delta)"
    using advance_window_run [OF advanced(2) holds] by simp_all
  note log = appended_log [OF advanced.IH run advanced(3,4)]
  show ?case
    using advance_window_holds [OF advanced(2) holds] advanced.IH log
    by (simp add: window_of_log_def weight shed_appended)
qed

end
