(* ===== verification/Window_Properties.thy ===== *)
theory Window_Properties
  imports Window_Advance
begin

text \<open>
  What the incremental payout window promises: however it was advanced it is the fold of the
  log, it serves every reward window it was sized for, it holds the shortest suffix of the
  eligible shares, its bytes follow from the old ones, and when an advance succeeds.
\<close>

lemma run_holds:
  assumes "window_run W n log anchor w"
  shows "holds_records w (shed (unat W) (eligible_log log anchor))" and "shares_for_build w = shed (unat W) (eligible_log log anchor)"
    and "log_ok (eligible_log log anchor)" and "W \<noteq> 0" and "n \<noteq> 0" and "win_page_size w = n" and "win_window_weight w = W"
    and "win_anchor_job_issued_at_ms w = anchor"
  using run_of_log [OF assms] by (auto simp: window_of_log_def holds_records_def)

section \<open>The full fold\<close>

text \<open>
  C4. However a window was advanced, it is the window a full fold of the log at its anchor
  gives: that fold succeeds and has the same shares, the same total, the same canonical items
  and the same digest. Only the page boundaries may differ. The advances are any sequence in
  which each delta is what became eligible since the previous anchor.
\<close>

theorem advanced_window_is_full_fold:
  assumes "window_run W n log anchor w"
  shows "\<exists>full. from_full_snapshot log anchor W n = Inr full \<and>
    shares_for_build w = shares_for_build full \<and> win_total_difficulty w = win_total_difficulty full \<and>
    canonical_items_bytes w = canonical_items_bytes full \<and> canonical_digest_hex X w = canonical_digest_hex X full"
proof -
  note w = run_holds [OF assms]
  let ?R = "shed (unat W) (eligible_log log anchor)"
  have "unat (win_total_difficulty w) = work_of ?R"
    using w(1) by (simp add: holds_records_def)
  then have fits: "work_of ?R < 2 ^ 128"
    using unsigned_less [of "win_total_difficulty w", where ?'a = nat] by simp
  obtain full where full: "from_full_snapshot log anchor W n = Inr full"
    using w(3-5) fits by (simp add: full_fold_Inr)
  note holds = full_fold_holds [OF full]
  have "win_total_difficulty w = win_total_difficulty full"
    using w(1) holds by (simp add: holds_records_def word_unat_eq_iff)
  moreover have "shares_for_build w = shares_for_build full"
    using w(2) holds by (simp add: holds_records_def)
  ultimately show ?thesis
    using full items_joined [OF holds] items_joined [OF w(1)] digest_joined [OF holds, of X] digest_joined [OF w(1), of X] by simp
qed

section \<open>The reward window\<close>

lemma newest_of_sorted:
  assumes "sorted_wrt (<) (map sh_share_seq es)" and "mset xs = mset es"
  shows "sort_by compare_newest xs = rev es"
proof -
  have "distinct (map sh_share_seq es)"
    using assms(1) by (simp add: strict_sorted_iff)
  then have "inj_on (\<lambda>share. - uint (sh_share_seq share)) (set xs)"
    unfolding mset_eq_setD [OF assms(2)] by (auto simp: distinct_map inj_on_def word_uint_eq_iff)
  then have "sort_by compare_newest xs = sort_by compare_newest (rev es)"
    using assms(2) by (intro newest.sort_by_perm) simp_all
  also have "\<dots> = rev es"
    using assms(1) by (intro newest.sort_by_sorted)
      (auto simp: sorted_wrt_map sorted_wrt_rev word_less_def intro: sorted_wrt_mono_rel [rotated])
  finally show ?thesis .
qed

lemma count_window_shed: "unat rem \<le> W \<Longrightarrow> count_window rem (rev (shed W (rev es))) = count_window rem es"
proof (induction es arbitrary: rem W)
  case (Cons e es)
  show ?case
  proof (cases "rem = 0")
    case True
    then show ?thesis
      by (cases "rev (shed W (rev (e # es)))") simp_all
  next
    case False
    then have W: "0 < W"
      using Cons.prems by (metis gr0I le_zero_eq unat_eq_zero)
    let ?d = "sh_share_difficulty e"
    show ?thesis
    proof (cases "W \<le> unat ?d")
      case True
      then have "rem \<le> ?d"
        using Cons.prems by (simp add: word_le_nat_alt)
      then have "rem - min ?d rem = 0"
        by simp
      moreover have "shed W (rev (e # es)) = [e]"
        using True W by (simp add: shed_append)
      moreover have "count_window 0 es = []"
        by (cases es) simp_all
      ultimately show ?thesis
        using False by (simp add: Let_def)
    next
      case short: False
      have "unat (rem - min ?d rem) \<le> W - unat ?d"
        using Cons.prems short by (simp add: unat_minus_min unat_min)
      then have "count_window (rem - min ?d rem) (rev (shed (W - unat ?d) (rev es))) = count_window (rem - min ?d rem) es"
        by (rule Cons.IH)
      moreover have "shed W (rev (e # es)) = shed (W - unat ?d) (rev es) @ [e]"
        using short by (simp add: shed_append)
      ultimately show ?thesis
        by (simp add: Let_def)
    qed
  qed
qed simp

lemma eligible_window_valid:
  assumes "\<forall>s \<in> set shares. sh_share_difficulty s \<noteq> 0 \<and> in_limit (map_option cut_top wc) s" and "distinct (map sh_share_id shares)"
  shows "eligible_window shares fb wc =
    (if fb_network_difficulty fb = 0 then Inl ZeroNetworkDifficulty
     else and_then (ok_or WindowOverflow (checked_mul (fb_network_difficulty fb) PRISM_WINDOW_MULTIPLIER))
       (\<lambda>requested. Inr (eligible shares fb, requested)))"
proof -
  have "try_fold (eligible_step fb (map_option cut_top wc)) ({}, []) shares =
      Inr (sh_share_id ` set shares, filter (on_time fb) shares)"
    using assms by (simp add: eligible_fold)
  then show ?thesis
    by (simp add: eligible_window_def newest_first_eq eligible_def)
qed

lemma compute_window_counts:
  assumes "\<forall>s \<in> set xs. sh_share_difficulty s \<noteq> 0 \<and> in_limit (map_option cut_top wc) s" "distinct (map sh_share_id xs)"
    and "\<forall>s \<in> set ys. sh_share_difficulty s \<noteq> 0 \<and> in_limit (map_option cut_top wc) s" "distinct (map sh_share_id ys)"
    and counts: "\<And>requested. unat requested \<le> unat (fb_network_difficulty fb) * 8 \<Longrightarrow>
      count_window requested (eligible xs fb) = count_window requested (eligible ys fb)"
  shows "compute_prism_window_in_cut xs fb wc = compute_prism_window_in_cut ys fb wc"
proof (cases "checked_mul (fb_network_difficulty fb) PRISM_WINDOW_MULTIPLIER")
  case None
  then show ?thesis
    by (simp add: compute_prism_window_in_cut_def eligible_window_valid [OF assms(1,2)] eligible_window_valid [OF assms(3,4)])
next
  case (Some requested)
  then have "unat requested \<le> unat (fb_network_difficulty fb) * 8"
    by (simp add: checked_simps PRISM_WINDOW_MULTIPLIER_def)
  then show ?thesis
    using Some counts [of requested]
    by (simp add: compute_prism_window_in_cut_def eligible_window_valid [OF assms(1,2)] eligible_window_valid [OF assms(3,4)])
qed

text \<open>
  C5. The window is enough for the rewards: with a weight of at least eight times the network
  difficulty, the reward window and the reward manifest computed from the shares it holds are
  those computed from the whole log at the same anchor, whatever errors there are included,
  provided the log's shares have distinct identifiers and positive difficulties and lie in the
  cut, if there is one.
\<close>

theorem window_serves_rewards:
  assumes run: "window_run W n log anchor w" and anchor: "fb_anchor_job_issued_at_ms fb = anchor"
    and W: "unat (fb_network_difficulty fb) * 8 \<le> unat W"
    and valid: "\<forall>s \<in> set log. sh_share_difficulty s \<noteq> 0 \<and> in_limit (map_option cut_top wc) s"
    and ids: "distinct (map sh_share_id log)"
  shows "compute_prism_window_in_cut (shares_for_build w) fb wc = compute_prism_window_in_cut log fb wc \<and>
    build_prism_reward_manifest_with_cut X (shares_for_build w) fb wc = build_prism_reward_manifest_with_cut X log fb wc"
proof -
  note w = run_holds [OF run]
  let ?E = "eligible_log log anchor"
  let ?R = "shed (unat W) ?E"
  have time: "on_time fb = eligible_at anchor"
    by (simp add: fun_eq_iff on_time_def eligible_at_def anchor)
  have E: "sorted_wrt (<) (map sh_share_seq ?E)" "distinct (map sh_share_id ?E)"
    using w(3) by (simp_all add: log_ok_def)
  obtain front where split: "?E = front @ ?R"
    using shed_suffix [of "unat W" ?E] by (auto simp: suffix_def)
  have "sorted_wrt (<) (map sh_share_seq (front @ ?R))" "distinct (map sh_share_id (front @ ?R))"
    using E by (simp_all only: split [symmetric])
  then have R: "sorted_wrt (<) (map sh_share_seq ?R)" "distinct (map sh_share_id ?R)"
    by (simp_all add: sorted_wrt_append)
  have members: "set ?E \<subseteq> set log" "\<forall>s \<in> set ?E. eligible_at anchor s"
    by (auto simp: eligible_log_def)
  have "filter (eligible_at anchor) ?R = ?R"
    using members(2) shed_set by (auto simp: filter_id_conv)
  then have "eligible ?R fb = rev ?R" "eligible log fb = rev ?E"
    using newest_of_sorted [OF R(1), of ?R] newest_of_sorted [OF E(1), of "filter (eligible_at anchor) log"]
    by (simp_all add: eligible_def time mset_eligible_log)
  then have "count_window requested (eligible ?R fb) = count_window requested (eligible log fb)"
    if "unat requested \<le> unat (fb_network_difficulty fb) * 8" for requested
    using count_window_shed [of requested "unat W" "rev ?E"] that W by simp
  moreover have "\<forall>s \<in> set ?R. sh_share_difficulty s \<noteq> 0 \<and> in_limit (map_option cut_top wc) s"
    using valid members(1) shed_set by blast
  ultimately have "compute_prism_window_in_cut ?R fb wc = compute_prism_window_in_cut log fb wc"
    using R(2) valid ids by (intro compute_window_counts)
  then show ?thesis
    by (simp add: w(2) build_prism_reward_manifest_with_cut_def)
qed

section \<open>The shortest suffix\<close>

lemma shed_short: "shed W rs \<noteq> rs \<Longrightarrow> W \<le> work_of (shed W rs)"
proof (induction rs)
  case (Cons r rs)
  then show ?case
    by (cases "shed W rs = rs") (auto split: if_splits)
qed simp

lemma shed_minimal: "shed W rs = r # ss \<Longrightarrow> work_of ss < W"
  by (induction rs) (auto split: if_splits)

text \<open>
  C13. What a window holds at any time: the newest eligible shares in ascending sequence, as few
  as reach the window weight, so without the oldest one it would not be reached; all of them
  only when the log has no more. The total is their exact work, and every page is non-empty,
  at most a page long, and carries the fragments and the total of its records.
\<close>

theorem window_is_shortest_suffix:
  assumes "window_run W n log anchor w"
  shows "(let held = shares_for_build w; es = eligible_log log anchor in
     suffix held es \<and> sorted_wrt (<) (map sh_share_seq es) \<and>
     unat (win_total_difficulty w) = work_of held \<and>
     (held = es \<or> unat W \<le> work_of held) \<and> (held = [] \<or> work_of (tl held) < unat W) \<and>
     list_all (\<lambda>page. wp_records page \<noteq> [] \<and> length (wp_records page) \<le> n \<and>
       wp_fragments page = map canonical_share_fragment (wp_records page) \<and>
       unat (wp_total_difficulty page) = work_of (wp_records page)) (win_pages w))"
proof -
  note w = run_holds [OF assms]
  let ?E = "eligible_log log anchor"
  let ?R = "shed (unat W) ?E"
  have "?R = ?E \<or> unat W \<le> work_of ?R"
    using shed_short by blast
  moreover have "?R = [] \<or> work_of (tl ?R) < unat W"
    using shed_minimal [of "unat W" ?E] by (cases ?R) auto
  moreover have "list_all (page_ok n) (win_pages w)" "unat (win_total_difficulty w) = work_of ?R"
    using w(1,6) by (simp_all add: holds_records_def)
  ultimately show ?thesis
    using shed_suffix [of "unat W" ?E] w(2,3) by (simp add: Let_def log_ok_def page_ok_def [abs_def])
qed

section \<open>Bytes and errors\<close>

text \<open>
  C14. An advance drops the oldest shares of old and new together, and the byte surgery it
  returns turns the old canonical items into the new ones: a prefix is dropped and the appended
  items follow, with the comma exactly where one is needed. Nothing is encoded again.
\<close>

theorem byte_surgery_exact:
  assumes "window_run W n log anchor w" and "advance_window w delta anchor1 = Inr (w1, stats, bytes)"
  shows "canonical_items_bytes w1 =
      drop (wab_retained_drop_bytes bytes) (canonical_items_bytes w) @ wab_appended_items bytes \<and>
    shares_for_build w1 = drop (was_expired_rows stats) (shares_for_build w @ delta) \<and>
    was_added_rows stats = length delta \<and> was_expired_rows stats \<le> length (shares_for_build w @ delta)"
proof -
  note w = run_holds [OF assms(1)]
  let ?rs = "shed (unat W) (eligible_log log anchor)"
  have new: "holds_records w1 (shed (unat W) (?rs @ delta))" "was_added_rows stats = length delta"
    "was_expired_rows stats = length (?rs @ delta) - length (shed (unat W) (?rs @ delta))"
    "bytes = advance_byte_delta (fragment_lengths w) w1 (length (fragment_lengths w)) (was_expired_rows stats)"
    using advance_window_holds [OF assms(2) w(1)] by (simp_all add: w(7))
  have "shed (unat W) (?rs @ delta) = drop (was_expired_rows stats) (?rs @ delta)"
    unfolding new(3) by (rule shed_drop)
  then have dropped: "holds_records w1 (drop (was_expired_rows stats) (?rs @ delta))"
    using new(1) by simp
  moreover have "was_expired_rows stats \<le> length (?rs @ delta)"
    by (simp add: new(3))
  ultimately show ?thesis
    using byte_surgery [OF w(1) dropped _ new(4)] new(2) w(2) by (simp add: holds_records_def)
qed

text \<open>
  C15. An advance succeeds exactly when the anchor does not move back, every new share has
  positive difficulty, became eligible since the last anchor and comes after every share held,
  the new shares are in ascending sequence, and the total fits; and it is outside the declared
  domain, rather than rejected, exactly when only the total is at fault.
\<close>

theorem advance_succeeds_iff:
  assumes "window_run W n log anchor w"
  shows "(let fits = (sint anchor \<le> sint anchor1 \<and> sorted_wrt (<) (map sh_share_seq delta) \<and>
      (\<forall>s \<in> set delta. sh_share_difficulty s \<noteq> 0 \<and> eligible_at anchor1 s \<and> \<not> eligible_at anchor s \<and>
         (\<forall>held \<in> set (shares_for_build w). sh_share_seq held < sh_share_seq s))) in
    ((\<exists>r. advance_window w delta anchor1 = Inr r) \<longleftrightarrow> fits \<and> work_of (shares_for_build w @ delta) < 2 ^ 128) \<and>
    (advance_window w delta anchor1 = Inl DifficultyOverflow \<longleftrightarrow> fits \<and> 2 ^ 128 \<le> work_of (shares_for_build w @ delta)))"
proof -
  note w = run_holds [OF assms(1)]
  let ?R = "shares_for_build w"
  have holds: "holds_records w ?R"
    using w(1,2) by simp
  obtain front where split: "eligible_log log anchor = front @ ?R"
    using shed_suffix [of "unat W" "eligible_log log anchor"] by (auto simp: suffix_def w(2))
  have "sorted_wrt (<) (map sh_share_seq (front @ ?R))"
    using w(3) by (simp only: log_ok_def split [symmetric])
  then have sorted: "sorted_wrt (<) (map sh_share_seq ?R)"
    by (simp add: sorted_wrt_append)
  have "(\<forall>q. last_share_seq w = Some q \<longrightarrow> q < sh_share_seq s) \<longleftrightarrow> (\<forall>held \<in> set ?R. sh_share_seq held < sh_share_seq s)" for s
  proof (cases ?R rule: rev_cases)
    case (snoc es l)
    then have "\<forall>e \<in> set es. sh_share_seq e < sh_share_seq l"
      using sorted by (simp add: sorted_wrt_append)
    then show ?thesis
      unfolding last_share_seq_eq [OF holds] by (auto simp: snoc intro: less_trans)
  qed (simp add: last_share_seq_eq [OF holds])
  then have "advance_fits w delta anchor1 \<longleftrightarrow> sint anchor \<le> sint anchor1 \<and> sorted_wrt (<) (map sh_share_seq delta) \<and>
      (\<forall>s \<in> set delta. sh_share_difficulty s \<noteq> 0 \<and> eligible_at anchor1 s \<and> \<not> eligible_at anchor s \<and>
         (\<forall>held \<in> set ?R. sh_share_seq held < sh_share_seq s))"
    unfolding advance_fits_def delta_fits_def list_all_iff w(8) by auto
  then show ?thesis
    unfolding advance_window_cases [OF holds, of delta anchor1] Let_def by simp
qed

section \<open>A concrete run\<close>

definition dated_share :: "u64 \<Rightarrow> string \<Rightarrow> u128 \<Rightarrow> i64 \<Rightarrow> accepted_share" where
  "dated_share seq miner difficulty at =
     (sample_share seq miner difficulty)\<lparr>sh_job_issued_at_ms := at, sh_accepted_at_ms := at\<rparr>"

definition early_log :: "accepted_share list" where
  "early_log = [dated_share 2 ''b'' 5 2, dated_share 1 ''a'' 4 1]"

definition late_log :: "accepted_share list" where
  "late_log = [dated_share 3 ''c'' 6 3, dated_share 2 ''b'' 5 2, dated_share 1 ''a'' 4 1]"

lemmas run_simps = dated_share_def sample_share_def show_nat.simps eligible_at_def log_ok_def compare_share_seq_def cmp_def

lemma early_eligible: "eligible_log early_log 2 = [dated_share 1 ''a'' 4 1, dated_share 2 ''b'' 5 2]"
  by (simp add: eligible_log_def early_log_def run_simps)

lemma late_eligible: "eligible_log late_log 3 =
    [dated_share 1 ''a'' 4 1, dated_share 2 ''b'' 5 2, dated_share 3 ''c'' 6 3]"
  by (simp add: eligible_log_def late_log_def run_simps)

lemma early_run: "\<exists>w. window_run 8 1 early_log 2 w \<and> shares_for_build w = [dated_share 1 ''a'' 4 1, dated_share 2 ''b'' 5 2]"
proof -
  have shed: "shed 8 (eligible_log early_log 2) = [dated_share 1 ''a'' 4 1, dated_share 2 ''b'' 5 2]"
    unfolding early_eligible by (simp add: dated_share_def sample_share_def)
  have "log_ok (eligible_log early_log 2)" "work_of (shed 8 (eligible_log early_log 2)) < 2 ^ 128"
    unfolding shed unfolding early_eligible by (simp_all add: run_simps)
  then obtain w where "from_full_snapshot early_log 2 8 1 = Inr w"
    by (simp add: full_fold_Inr)
  then have "window_run 8 1 early_log 2 w"
    by (rule window_run.folded)
  then show ?thesis
    using run_holds(2) [of 8 1 early_log 2 w] shed by auto
qed

lemma late_run:
  "\<exists>w w1 stats bytes. window_run 8 1 early_log 2 w \<and> advance_window w [dated_share 3 ''c'' 6 3] 3 = Inr (w1, stats, bytes) \<and>
     window_run 8 1 late_log 3 w1 \<and> shares_for_build w1 = [dated_share 2 ''b'' 5 2, dated_share 3 ''c'' 6 3]"
proof -
  obtain w where w: "window_run 8 1 early_log 2 w" "shares_for_build w = [dated_share 1 ''a'' 4 1, dated_share 2 ''b'' 5 2]"
    using early_run by blast
  note holds = run_holds [OF w(1)]
  have "last_share_seq w = Some 2"
    using last_share_seq_eq [OF holds(1)] w(2) unfolding holds(2) by (simp add: dated_share_def sample_share_def)
  then have "advance_fits w [dated_share 3 ''c'' 6 3] 3"
    by (simp add: advance_fits_def delta_fits_def holds(8) run_simps)
  moreover have "work_of (shares_for_build w @ [dated_share 3 ''c'' 6 3]) < 2 ^ 128"
    unfolding w(2) by (simp add: run_simps)
  ultimately obtain w1 stats bytes where run: "advance_window w [dated_share 3 ''c'' 6 3] 3 = Inr (w1, stats, bytes)"
    using advance_window_cases(1) [OF holds(1), of "[dated_share 3 ''c'' 6 3]" 3] unfolding holds(2) by (metis prod_cases3)
  have "window_run 8 1 late_log 3 w1"
    by (rule window_run.advanced [OF w(1) run]) (simp_all add: early_log_def late_log_def run_simps)
  moreover from this have "shares_for_build w1 = [dated_share 2 ''b'' 5 2, dated_share 3 ''c'' 6 3]"
    using run_holds(2) [of 8 1 late_log 3 w1] unfolding late_eligible by (simp add: dated_share_def sample_share_def)
  ultimately show ?thesis
    using w(1) run by blast
qed

theorem advanced_window_is_full_fold_witness:
  "\<exists>w full. window_run 8 1 late_log 3 w \<and> from_full_snapshot late_log 3 8 1 = Inr full \<and>
     canonical_digest_hex sample_crates w = canonical_digest_hex sample_crates full"
  using late_run advanced_window_is_full_fold [where X = sample_crates and W = 8 and n = 1 and log = late_log and anchor = 3] by blast

theorem window_serves_rewards_witness:
  "\<exists>w. window_run 8 1 late_log 3 w \<and>
     compute_prism_window_in_cut (shares_for_build w) (sample_block\<lparr>fb_anchor_job_issued_at_ms := 3\<rparr>) None =
     compute_prism_window_in_cut late_log (sample_block\<lparr>fb_anchor_job_issued_at_ms := 3\<rparr>) None"
proof -
  obtain w where w: "window_run 8 1 late_log 3 w"
    using late_run by blast
  have "\<forall>s \<in> set late_log. sh_share_difficulty s \<noteq> 0 \<and> in_limit (map_option cut_top None) s" "distinct (map sh_share_id late_log)"
    by (simp_all add: late_log_def run_simps in_limit_def)
  then show ?thesis
    using window_serves_rewards [OF w, of "sample_block\<lparr>fb_anchor_job_issued_at_ms := 3\<rparr>" None sample_crates] w
    by (auto simp: sample_block_def)
qed

theorem window_is_shortest_suffix_witness:
  "\<exists>w. window_run 8 1 late_log 3 w \<and> suffix (shares_for_build w) (eligible_log late_log 3) \<and>
     unat (win_total_difficulty w) = 11"
proof -
  obtain w where w: "window_run 8 1 late_log 3 w" "shares_for_build w = [dated_share 2 ''b'' 5 2, dated_share 3 ''c'' 6 3]"
    using late_run by blast
  moreover have "work_of [dated_share 2 ''b'' 5 2, dated_share 3 ''c'' 6 3] = 11"
    by (simp add: dated_share_def sample_share_def)
  ultimately show ?thesis
    using window_is_shortest_suffix [OF w(1)] by (auto simp: Let_def)
qed

theorem byte_surgery_exact_witness:
  "\<exists>w w1 stats bytes. window_run 8 1 early_log 2 w \<and>
     advance_window w [dated_share 3 ''c'' 6 3] 3 = Inr (w1, stats, bytes) \<and>
     canonical_items_bytes w1 = drop (wab_retained_drop_bytes bytes) (canonical_items_bytes w) @ wab_appended_items bytes"
  using late_run byte_surgery_exact by blast

theorem advance_succeeds_iff_witness:
  "\<exists>w. window_run 8 1 early_log 2 w \<and> \<not> (\<exists>r. advance_window w [dated_share 1 ''a'' 4 1] 3 = Inr r)"
proof -
  obtain w where w: "window_run 8 1 early_log 2 w"
    using early_run by blast
  then show ?thesis
    using advance_succeeds_iff [OF w, of 3 "[dated_share 1 ''a'' 4 1]"] by (auto simp: run_simps)
qed

end
