(* ===== verification/Job_Codec.thy ===== *)
theory Job_Codec
  imports Pool_Builder Retained_Jobs
begin

text \<open>
  The mining codec \<open>qbit-prism-server/src/codec.rs\<close>: the transaction walker, the split of a
  coinbase around its extranonce, compact targets and difficulties, the merkle branch, jobs and
  the submissions assembled from them. A cursor carries its offset; \<open>BigUint\<close> is a natural
  number; an \<open>f64\<close> is its 64 bits, as \<open>to_bits\<close> gives them, and the one floating-point division
  is a parameter. An \<open>anyhow\<close> error is its chain of messages, outermost first. The template, a
  JSON document, is what the accessors of \<open>serde_json\<close> return on it.
\<close>

unbundle bit_operations_syntax

type_synonym anyhow = "string list"

definition bail :: "string \<Rightarrow> anyhow + 'a" where
  "bail message = Inl [message]"

definition with_context :: "string \<Rightarrow> anyhow + 'a \<Rightarrow> anyhow + 'a" where
  "with_context message = map_err ((#) message)"

definition context_opt :: "string \<Rightarrow> 'a option \<Rightarrow> anyhow + 'a" where
  "context_opt message = ok_or [message]"

definition ensure_msg :: "bool \<Rightarrow> string \<Rightarrow> anyhow + 'a \<Rightarrow> anyhow + 'a" where
  "ensure_msg ok message rest = (if ok then rest else Inl [message])"

section \<open>Transactions\<close>

definition VERSION_ROLLING_MASK :: u32 where "VERSION_ROLLING_MASK = 0x1fffe000"

definition double_sha256 :: "'x crates_scheme \<Rightarrow> u8 list \<Rightarrow> u8 list" where
  "double_sha256 X bytes = sha256_digest X (sha256_digest X bytes)"

definition hash_display :: "'x crates_scheme \<Rightarrow> u8 list \<Rightarrow> string" where
  "hash_display X hash = hex_encode X (rev hash)"

definition codec_compact_size :: "u64 \<Rightarrow> u8 list" where
  "codec_compact_size v =
     (if v \<le> 252 then [ucast v]
      else if v \<le> 0xffff then [253] @ to_le_bytes (ucast v :: u16)
      else if v \<le> 0xffffffff then [254] @ to_le_bytes (ucast v :: u32)
      else [255] @ to_le_bytes v)"

record cursor =
  cur_bytes :: "u8 list"
  cur_offset :: nat

definition cur_take :: "nat \<Rightarrow> cursor \<Rightarrow> anyhow + (u8 list \<times> cursor)" where
  "cur_take len c =
     (if 2 ^ 64 \<le> cur_offset c + len then bail ''transaction length overflow''
      else if length (cur_bytes c) < cur_offset c + len then bail ''truncated transaction''
      else Inr (take len (drop (cur_offset c) (cur_bytes c)), c\<lparr>cur_offset := cur_offset c + len\<rparr>))"

definition cur_skip :: "nat \<Rightarrow> cursor \<Rightarrow> anyhow + cursor" where
  "cur_skip len c = and_then (cur_take len c) (\<lambda>(_, c). Inr c)"

definition cur_count :: "cursor \<Rightarrow> anyhow + (nat \<times> cursor)" where
  "cur_count c =
     and_then (cur_take 1 c) (\<lambda>(part, c).
     let first = part ! 0 in
     and_then
       (if first = 253 then and_then (cur_take 2 c) (\<lambda>(part, c). Inr (le_value part, c))
        else if first = 254 then and_then (cur_take 4 c) (\<lambda>(part, c). Inr (le_value part, c))
        else if first = 255 then and_then (cur_take 8 c) (\<lambda>(part, c). Inr (le_value part, c))
        else Inr (unat first, c)) (\<lambda>(declared, c).
     ensure_msg (if first = 253 then 253 \<le> declared else if first = 254 then 0xffff < declared
             else if first = 255 then 0xffffffff < declared else True) ''noncanonical compact size'' (
     ensure_msg (declared \<le> length (cur_bytes c)) ''transaction count exceeds input size'' (Inr (declared, c)))))"

fun cur_repeat :: "nat \<Rightarrow> (cursor \<Rightarrow> anyhow + cursor) \<Rightarrow> cursor \<Rightarrow> anyhow + cursor" where
  "cur_repeat 0 f c = Inr c"
| "cur_repeat (Suc n) f c = and_then (f c) (cur_repeat n f)"

definition skip_counted :: "cursor \<Rightarrow> anyhow + cursor" where
  "skip_counted c = and_then (cur_count c) (\<lambda>(n, c). cur_skip n c)"

definition skip_input :: "cursor \<Rightarrow> anyhow + cursor" where
  "skip_input c = and_then (cur_skip 36 c) (\<lambda>c. and_then (skip_counted c) (cur_skip 4))"

definition skip_output :: "cursor \<Rightarrow> anyhow + cursor" where
  "skip_output c = and_then (cur_skip 8 c) skip_counted"

definition skip_stack :: "cursor \<Rightarrow> anyhow + cursor" where
  "skip_stack c = and_then (cur_count c) (\<lambda>(items, c). cur_repeat items skip_counted c)"

record transaction_layout =
  tl_body :: "nat \<times> nat"
  tl_locktime :: "nat \<times> nat"
  tl_len :: nat

text \<open>The walk up to the inputs, after them, and as a whole.\<close>

definition walk_tail :: "bool \<Rightarrow> nat \<Rightarrow> nat \<Rightarrow> cursor \<Rightarrow> anyhow + transaction_layout" where
  "walk_tail witness body_start inputs c =
     and_then (cur_count c) (\<lambda>(outputs, c).
     and_then (cur_repeat outputs skip_output c) (\<lambda>c.
     let body_end = cur_offset c in
     and_then (if witness then cur_repeat inputs skip_stack c else Inr c) (\<lambda>c.
     let locktime_start = cur_offset c in
     and_then (cur_skip 4 c) (\<lambda>c.
     Inr \<lparr>tl_body = (body_start, body_end), tl_locktime = (locktime_start, cur_offset c), tl_len = cur_offset c\<rparr>))))"

definition walk_head :: "u8 list \<Rightarrow> anyhow + cursor" where
  "walk_head bytes =
     (if bytes ! 4 = 0 \<and> bytes ! 5 \<noteq> 0
      then ensure_msg (bytes ! 5 = 1) ''unsupported witness transaction flags'' (cur_skip 2 \<lparr>cur_bytes = bytes, cur_offset = 4\<rparr>)
      else Inr \<lparr>cur_bytes = bytes, cur_offset = 4\<rparr>)"

definition walk_transaction :: "u8 list \<Rightarrow> anyhow + transaction_layout" where
  "walk_transaction bytes =
     ensure_msg (10 \<le> length bytes) ''transaction is too short'' (
     and_then (walk_head bytes) (\<lambda>c.
     let body_start = cur_offset c in
     and_then (cur_count c) (\<lambda>(inputs, c).
     ensure_msg (0 < inputs) ''transaction has no inputs'' (
     and_then (cur_repeat inputs skip_input c)
       (walk_tail (bytes ! 4 = 0 \<and> bytes ! 5 \<noteq> 0) body_start inputs)))))"

definition byte_range :: "nat \<times> nat \<Rightarrow> 'a list \<Rightarrow> 'a list" where
  "byte_range = (\<lambda>(a, b) xs. take (b - a) (drop a xs))"

definition strip_witness_transaction :: "u8 list \<Rightarrow> anyhow + u8 list" where
  "strip_witness_transaction tx =
     and_then (walk_transaction tx) (\<lambda>layout.
     ensure_msg (tl_len layout = length tx) ''transaction has trailing bytes'' (
     Inr (take 4 tx @ byte_range (tl_body layout) tx @ byte_range (tl_locktime layout) tx)))"

text \<open>\<open>get(offset..)\<close>\<close>

definition get_from :: "nat \<Rightarrow> 'a list \<Rightarrow> 'a list option" where
  "get_from offset xs = (if offset \<le> length xs then Some (drop offset xs) else None)"

definition transaction_context :: "nat \<Rightarrow> nat \<Rightarrow> string" where
  "transaction_context index declared = ''block transaction '' @ show_nat index @ '' of '' @ show_nat declared"

definition block_leaf_step ::
    "'x crates_scheme \<Rightarrow> u8 list \<Rightarrow> nat \<Rightarrow> nat \<times> string list \<Rightarrow> nat \<Rightarrow> anyhow + (nat \<times> string list)" where
  "block_leaf_step X block declared = (\<lambda>(offset, leaves) index.
     and_then (context_opt ''truncated block transaction list'' (get_from offset block)) (\<lambda>rest.
     and_then (with_context (transaction_context index declared) (walk_transaction rest)) (\<lambda>layout.
     Inr (offset + tl_len layout,
       if 0 < index then leaves @ [hex_encode X (double_sha256 X (take (tl_len layout) rest))] else leaves))))"

definition witness_merkle_leaves_from_block :: "'x crates_scheme \<Rightarrow> u8 list \<Rightarrow> anyhow + string list" where
  "witness_merkle_leaves_from_block X block =
     ensure_msg (80 \<le> length block) ''truncated block header'' (
     and_then (with_context ''block transaction count'' (cur_count \<lparr>cur_bytes = block, cur_offset = 80\<rparr>)) (\<lambda>(declared, c).
     ensure_msg (0 < declared) ''block declares no transactions'' (
     and_then (try_fold (block_leaf_step X block declared) (cur_offset c, []) [0..<declared]) (\<lambda>(offset, leaves).
     ensure_msg (offset = length block) (''block has trailing bytes after '' @ show_nat declared @ '' transactions'') (Inr leaves)))))"

definition coinbase_from_block :: "u8 list \<Rightarrow> anyhow + u8 list" where
  "coinbase_from_block block =
     ensure_msg (80 \<le> length block) ''truncated block header'' (
     and_then (with_context ''block transaction count'' (cur_count \<lparr>cur_bytes = block, cur_offset = 80\<rparr>)) (\<lambda>(declared, c).
     ensure_msg (0 < declared) ''block declares no transactions'' (
     and_then (context_opt ''truncated block transaction list'' (get_from (cur_offset c) block)) (\<lambda>rest.
     and_then (with_context ''block coinbase'' (walk_transaction rest)) (\<lambda>layout.
     Inr (take (tl_len layout) rest))))))"

text \<open>The marker and flag are skipped whatever the flag is.\<close>

definition coinbase_start :: "u8 list \<Rightarrow> anyhow + cursor" where
  "coinbase_start tx =
     (let c = \<lparr>cur_bytes = tx, cur_offset = 4\<rparr> in if tx ! 4 = 0 \<and> tx ! 5 \<noteq> 0 then cur_skip 2 c else Inr c)"

definition coinbase_script_sig_of :: "u8 list \<Rightarrow> anyhow + u8 list" where
  "coinbase_script_sig_of tx =
     ensure_msg (10 \<le> length tx) ''transaction is too short'' (
     and_then (coinbase_start tx) (\<lambda>c.
     and_then (cur_count c) (\<lambda>(inputs, c).
     ensure_msg (inputs = 1) ''a coinbase has exactly one input'' (
     and_then (cur_skip 36 c) (\<lambda>c.
     and_then (cur_count c) (\<lambda>(len, c).
     and_then (cur_take len c) (\<lambda>(script, c). Inr script)))))))"

definition split_coinbase_extranonce :: "u8 list \<Rightarrow> u8 list \<Rightarrow> anyhow + (u8 list \<times> u8 list)" where
  "split_coinbase_extranonce tx placeholder =
     ensure_msg (10 \<le> length tx \<and> placeholder \<noteq> []) ''invalid coinbase or extranonce placeholder'' (
     and_then (coinbase_start tx) (\<lambda>c.
     and_then (cur_count c) (\<lambda>(inputs, c).
     ensure_msg (inputs = 1) ''coinbase must have exactly one input'' (
     and_then (cur_take 36 c) (\<lambda>(prevout, c).
     ensure_msg (take 32 prevout = replicate 32 0 \<and> drop 32 prevout = replicate 4 255) ''coinbase has non-null prevout'' (
     and_then (cur_count c) (\<lambda>(n, c).
     and_then (cur_take n c) (\<lambda>(script, c).
     ensure_msg (suffix placeholder script) ''coinbase scriptSig does not end with extranonce placeholder'' (
     let start = cur_offset c - length placeholder in
     Inr (take start tx, drop (cur_offset c) tx))))))))))"

section \<open>Targets\<close>

definition target_from_compact :: "u32 \<Rightarrow> anyhow + nat" where
  "target_from_compact bits =
     (let size = unat (drop_bit 24 bits); mantissa = unat (bits AND 0x007fffff) in
      ensure_msg (bits AND 0x00800000 = 0 \<and> mantissa \<noteq> 0) ''negative or zero compact target'' (
      ensure_msg (size \<le> 34) ''compact target overflow'' (
      let target = (if size \<le> 3 then mantissa div 2 ^ (8 * (3 - size)) else mantissa * 2 ^ (8 * (size - 3))) in
      ensure_msg (target \<noteq> 0 \<and> target < 2 ^ 256) ''compact target out of range'' (Inr target))))"

type_synonym f64 = "64 word"

definition f64_is_finite :: "f64 \<Rightarrow> bool" where
  "f64_is_finite x \<longleftrightarrow> drop_bit 52 x AND 0x7ff \<noteq> 0x7ff"

text \<open>Comparisons of a finite number with \<open>0.0\<close>.\<close>

definition f64_is_zero :: "f64 \<Rightarrow> bool" where
  "f64_is_zero x \<longleftrightarrow> x = 0 \<or> x = 0x8000000000000000"

definition f64_pos :: "f64 \<Rightarrow> bool" where
  "f64_pos x \<longleftrightarrow> \<not> bit x 63 \<and> \<not> f64_is_zero x"

definition f64_nonneg :: "f64 \<Rightarrow> bool" where
  "f64_nonneg x \<longleftrightarrow> \<not> bit x 63 \<or> f64_is_zero x"

definition f64_raw_exponent :: "f64 \<Rightarrow> nat" where
  "f64_raw_exponent x = unat (drop_bit 52 x AND 0x7ff)"

definition f64_mantissa :: "f64 \<Rightarrow> nat" where
  "f64_mantissa x = unat ((x AND (2 ^ 52 - 1)) OR (if f64_raw_exponent x = 0 then 0 else push_bit 52 1))"

definition f64_exponent :: "f64 \<Rightarrow> int" where
  "f64_exponent x = (if f64_raw_exponent x = 0 then -1074 else int (f64_raw_exponent x) - 1023 - 52)"

definition difficulty_target :: "f64 \<Rightarrow> anyhow + nat" where
  "difficulty_target difficulty =
     ensure_msg (f64_is_finite difficulty \<and> f64_pos difficulty) ''difficulty must be positive and finite'' (
     let exponent = f64_exponent difficulty in
     and_then (target_from_compact 0x1d00ffff) (\<lambda>numerator.
     let denominator = f64_mantissa difficulty;
         numerator = (if exponent < 0 then numerator * 2 ^ nat (- exponent) else numerator);
         denominator = (if exponent < 0 then denominator else denominator * 2 ^ nat exponent) in
     Inr (min (max (numerator div denominator) 1) (2 ^ 256 - 1))))"

text \<open>\<open>to_f64\<close> of the two targets and their division are the parameter.\<close>

definition target_difficulty :: "(nat \<Rightarrow> nat \<Rightarrow> f64) \<Rightarrow> nat \<Rightarrow> anyhow + f64" where
  "target_difficulty f64_quotient target =
     ensure_msg (target \<noteq> 0) ''target must be positive'' (
     and_then (target_from_compact 0x1d00ffff) (\<lambda>base. Inr (f64_quotient base target)))"

definition scaled_target_difficulty :: "nat \<Rightarrow> anyhow + u128" where
  "scaled_target_difficulty target =
     ensure_msg (target \<noteq> 0) ''target must be positive'' (
     and_then (target_from_compact 0x207fffff) (\<lambda>base.
     let scaled = max (base * 1000000 div target) 1 in
     if scaled < 2 ^ 128 then Inr (of_nat scaled) else bail ''scaled difficulty exceeds u128''))"

text \<open>\<open>is_ascii_hexdigit\<close> and \<open>from_str_radix(_, 16)\<close> on hex digits.\<close>

definition hex_nibble :: "char \<Rightarrow> nat" where
  "hex_nibble ch = (let n = of_char ch in if n < 58 then n - 48 else if n < 71 then n - 55 else n - 87)"

definition is_hexdigit :: "char \<Rightarrow> bool" where
  "is_hexdigit ch \<longleftrightarrow> (let n = of_char ch :: nat in 48 \<le> n \<and> n \<le> 57 \<or> 65 \<le> n \<and> n \<le> 70 \<or> 97 \<le> n \<and> n \<le> 102)"

definition hex_number :: "string \<Rightarrow> nat" where
  "hex_number s = foldl (\<lambda>v ch. 16 * v + hex_nibble ch) 0 s"

definition parse_u32_hex :: "string \<Rightarrow> anyhow + u32" where
  "parse_u32_hex s =
     ensure_msg (length s = 8 \<and> list_all is_hexdigit s) ''expected a 4-byte hex string'' (Inr (of_nat (hex_number s)))"

section \<open>Templates\<close>

text \<open>
  What the accessors return: \<open>get("versionrollingmask")\<close> by the kind of the value, \<open>as_array\<close>
  of the transactions with \<open>as_str\<close> of each datum, \<open>as_str\<close>, \<open>as_i64\<close> and \<open>as_u64\<close> of the rest.
\<close>

datatype rolling_mask = MaskAbsent | MaskNumber "u64 option" | MaskString string | MaskOther

record block_template =
  tp_versionrollingmask :: rolling_mask
  tp_transactions :: "string option list option option"
  tp_previousblockhash :: "string option"
  tp_bits :: "string option"
  tp_version :: "i64 option"
  tp_curtime :: "u64 option"
  tp_mintime :: "u64 option"

definition u32_from_u64 :: "u64 \<Rightarrow> anyhow + u32" where
  "u32_from_u64 v =
     (if v \<le> 0xffffffff then Inr (ucast v) else bail ''out of range integral type conversion attempted'')"

definition strip_0x :: "string \<Rightarrow> string" where
  "strip_0x s = (if prefix ''0x'' s then drop 2 s else s)"

definition version_mask_from_template :: "block_template \<Rightarrow> u32 \<Rightarrow> anyhow + u32" where
  "version_mask_from_template template fallback =
     (case tp_versionrollingmask template of
        MaskAbsent \<Rightarrow> Inr fallback
      | MaskNumber n \<Rightarrow> and_then (context_opt ''invalid versionrollingmask'' n) u32_from_u64
      | MaskString s \<Rightarrow>
          let s = strip_0x s in
          ensure_msg (s \<noteq> [] \<and> length s \<le> 8 \<and> list_all is_hexdigit s) ''invalid versionrollingmask'' (Inr (of_nat (hex_number s)))
      | MaskOther \<Rightarrow> bail ''invalid versionrollingmask'')"

section \<open>The merkle branch\<close>

fun hash_pairs :: "'x crates_scheme \<Rightarrow> u8 list list \<Rightarrow> u8 list list" where
  "hash_pairs X (a # b # hs) = double_sha256 X (a @ b) # hash_pairs X hs"
| "hash_pairs X hs = []"

lemma length_hash_pairs: "length (hash_pairs X hs) = length hs div 2"
  by (induction X hs rule: hash_pairs.induct) simp_all

definition pad_level :: "u8 list list \<Rightarrow> u8 list list" where
  "pad_level level = (if odd (length level) then level @ [last level] else level)"

function merkle_branch_loop :: "'x crates_scheme \<Rightarrow> u8 list list \<Rightarrow> u8 list list" where
  "merkle_branch_loop X level =
     (if 1 < length level then (level ! 1) # merkle_branch_loop X (hash_pairs X (pad_level level)) else [])"
  by pat_completeness auto
termination
  by (relation "measure (\<lambda>(X, level). length level)") (auto simp: length_hash_pairs pad_level_def, presburger)

declare merkle_branch_loop.simps [simp del]

definition merkle_branch_for_coinbase :: "'x crates_scheme \<Rightarrow> u8 list list \<Rightarrow> anyhow + u8 list list" where
  "merkle_branch_for_coinbase X transactions =
     and_then (try_map (\<lambda>tx. and_then (strip_witness_transaction tx) (\<lambda>stripped. Inr (double_sha256 X stripped))) transactions)
       (\<lambda>hashes. Inr (merkle_branch_loop X (replicate 32 0 # hashes)))"

definition transactions_from_template :: "'x crates_scheme \<Rightarrow> block_template \<Rightarrow> anyhow + u8 list list" where
  "transactions_from_template X template =
     and_then
       (case tp_transactions template of None \<Rightarrow> Inr []
        | Some array \<Rightarrow> context_opt ''template transactions must be an array'' array) (\<lambda>transactions.
     try_map (\<lambda>t. and_then (context_opt ''transaction data missing'' t) (\<lambda>s.
       map_err (\<lambda>e. [e]) (hex_decode X s))) transactions)"

definition witness_merkle_leaves_hex :: "'x crates_scheme \<Rightarrow> u8 list list \<Rightarrow> string list" where
  "witness_merkle_leaves_hex X transactions = map (\<lambda>tx. hex_encode X (double_sha256 X tx)) transactions"

section \<open>Jobs\<close>

record mining_job =
  jb_job_id :: string
  jb_previousblockhash :: string
  jb_prevhash :: string
  jb_coinb1 :: string
  jb_coinb2 :: string
  jb_full_coinbase_prefix :: string
  jb_full_coinbase_suffix :: string
  jb_merkle_branch :: "u8 list list"
  jb_transactions :: "u8 list list"
  jb_version :: u32
  jb_version_mask :: u32
  jb_nbits :: u32
  jb_ntime :: u32
  jb_mintime :: u32
  jb_network_target :: nat
  jb_share_target :: nat
  jb_share_difficulty :: f64
  jb_extranonce1 :: string
  jb_extranonce2_size :: nat
  jb_clean_jobs :: bool
  jb_resume_expires_at :: "nat option"
  jb_refresh_generation :: u64
  jb_payout_revision :: i64
  jb_kind :: job_kind

definition hex_bytes :: "'x crates_scheme \<Rightarrow> string \<Rightarrow> anyhow + u8 list" where
  "hex_bytes X s = map_err (\<lambda>e. [e]) (hex_decode X s)"

text \<open>\<open>as_chunks_mut\<close>: complete words of four bytes.\<close>

fun reverse_words :: "u8 list \<Rightarrow> u8 list" where
  "reverse_words (a # b # c # d # bs) = d # c # b # a # reverse_words bs"
| "reverse_words bs = bs"

definition share_target_for :: "f64 \<Rightarrow> f64 \<Rightarrow> nat \<Rightarrow> anyhow + nat" where
  "share_target_for difficulty minimum_difficulty network_target =
     and_then (difficulty_target difficulty) (\<lambda>target.
     let share_target = max target network_target in
     if f64_pos minimum_difficulty
     then and_then (difficulty_target minimum_difficulty) (\<lambda>bound. Inr (min share_target bound))
     else Inr share_target)"

definition from_manifest ::
    "'x crates_scheme \<Rightarrow> (nat \<Rightarrow> nat \<Rightarrow> f64) \<Rightarrow> string \<Rightarrow> block_template \<Rightarrow> payout_manifest \<Rightarrow> string \<Rightarrow> nat \<Rightarrow>
     f64 \<Rightarrow> f64 \<Rightarrow> bool \<Rightarrow> anyhow + mining_job" where
  "from_manifest X f64_quotient job_id template manifest extranonce1 extranonce2_size desired_difficulty
     minimum_difficulty clean_jobs =
     ensure_msg (0 < extranonce2_size \<and> extranonce2_size \<le> 32) ''invalid extranonce2 size'' (
     ensure_msg (f64_is_finite minimum_difficulty \<and> f64_nonneg minimum_difficulty) ''invalid difficulty floor'' (
     and_then (hex_bytes X (pm_coinbase_tx_hex manifest)) (\<lambda>coinbase.
     and_then (strip_witness_transaction coinbase) (\<lambda>stripped.
     ensure_msg (eq_ignore_ascii_case (hash_display X (double_sha256 X stripped)) (pm_coinbase_txid manifest))
       ''manifest coinbase txid mismatch'' (
     and_then (hex_bytes X extranonce1) (\<lambda>placeholder.
     let placeholder = placeholder @ replicate extranonce2_size 0 in
     and_then (split_coinbase_extranonce stripped placeholder) (\<lambda>(coinb1, coinb2).
     and_then (split_coinbase_extranonce coinbase placeholder) (\<lambda>(full_prefix, full_suffix).
     and_then (transactions_from_template X template) (\<lambda>transactions.
     and_then (merkle_branch_for_coinbase X transactions) (\<lambda>merkle_branch.
     and_then (context_opt ''template previousblockhash missing'' (tp_previousblockhash template)) (\<lambda>previous.
     let previousblockhash = to_ascii_lowercase previous in
     and_then (hex_bytes X previousblockhash) (\<lambda>prevhash_bytes.
     ensure_msg (length prevhash_bytes = 32) ''previousblockhash must be 32 bytes'' (
     let prevhash_bytes = reverse_words (rev prevhash_bytes) in
     and_then (context_opt ''template bits missing'' (tp_bits template)) (\<lambda>bits.
     and_then (parse_u32_hex bits) (\<lambda>nbits.
     and_then (target_from_compact nbits) (\<lambda>network_target.
     and_then (share_target_for desired_difficulty minimum_difficulty network_target) (\<lambda>share_target.
     and_then (context_opt ''template version missing'' (tp_version template)) (\<lambda>version.
     and_then (context_opt ''template curtime missing'' (tp_curtime template)) (\<lambda>curtime.
     and_then (u32_from_u64 curtime) (\<lambda>ntime.
     and_then (u32_from_u64 (case tp_mintime template of None \<Rightarrow> 0 | Some mintime \<Rightarrow> mintime)) (\<lambda>mintime.
     and_then (version_mask_from_template template VERSION_ROLLING_MASK) (\<lambda>version_mask.
     and_then (target_difficulty f64_quotient share_target) (\<lambda>share_difficulty.
     Inr \<lparr>jb_job_id = job_id, jb_previousblockhash = previousblockhash, jb_prevhash = hex_encode X prevhash_bytes,
       jb_coinb1 = hex_encode X coinb1, jb_coinb2 = hex_encode X coinb2,
       jb_full_coinbase_prefix = hex_encode X full_prefix, jb_full_coinbase_suffix = hex_encode X full_suffix,
       jb_merkle_branch = merkle_branch, jb_transactions = transactions, jb_version = ucast version,
       jb_version_mask = version_mask, jb_nbits = nbits, jb_ntime = ntime, jb_mintime = mintime,
       jb_network_target = network_target, jb_share_target = share_target, jb_share_difficulty = share_difficulty,
       jb_extranonce1 = extranonce1, jb_extranonce2_size = extranonce2_size, jb_clean_jobs = clean_jobs,
       jb_resume_expires_at = None, jb_refresh_generation = 0, jb_payout_revision = 0, jb_kind = Credit\<rparr>)))))))))))))))))))))))"

definition reassign ::
    "'x crates_scheme \<Rightarrow> (nat \<Rightarrow> nat \<Rightarrow> f64) \<Rightarrow> mining_job \<Rightarrow> string \<Rightarrow> string \<Rightarrow> f64 \<Rightarrow> f64 \<Rightarrow> anyhow + mining_job" where
  "reassign X f64_quotient job job_id extranonce1 difficulty minimum_difficulty =
     ensure_msg (length extranonce1 = length (jb_extranonce1 job)) ''unexpected extranonce1 size'' (
     and_then (with_context ''invalid extranonce1'' (hex_bytes X extranonce1)) (\<lambda>_.
     ensure_msg (f64_is_finite minimum_difficulty \<and> f64_nonneg minimum_difficulty) ''invalid difficulty floor'' (
     and_then (share_target_for difficulty minimum_difficulty (jb_network_target job)) (\<lambda>share_target.
     and_then (target_difficulty f64_quotient share_target) (\<lambda>share_difficulty.
     Inr (job\<lparr>jb_job_id := job_id, jb_extranonce1 := extranonce1, jb_share_target := share_target,
       jb_share_difficulty := share_difficulty\<rparr>))))))"

section \<open>Submissions\<close>

record submission =
  sb_coinbase_tx_hex :: string
  sb_header_hex :: string
  sb_block_hex :: string
  sb_block_hash_hex :: string
  sb_share_pass :: bool
  sb_block_pass :: bool
  sb_extranonce2_hex :: string
  sb_ntime :: u32
  sb_nonce :: u32
  sb_applied_version :: u32

definition version_for :: "mining_job \<Rightarrow> string option \<Rightarrow> u32 \<Rightarrow> anyhow + u32" where
  "version_for job version_bits version_mask =
     (case version_bits of
        None \<Rightarrow> Inr (jb_version job)
      | Some bits \<Rightarrow>
          and_then (parse_u32_hex bits) (\<lambda>bits.
          ensure_msg (bits AND NOT version_mask = 0) ''version_bits include bits outside negotiated mask''
            (Inr ((jb_version job AND NOT version_mask) OR bits))))"

definition assemble_submission ::
    "'x crates_scheme \<Rightarrow> mining_job \<Rightarrow> string \<Rightarrow> string \<Rightarrow> string \<Rightarrow> string option \<Rightarrow> u32 \<Rightarrow> anyhow + submission" where
  "assemble_submission X job extranonce2 ntime nonce version_bits version_mask =
     ensure_msg (length extranonce2 = jb_extranonce2_size job * 2) ''unexpected extranonce2 size'' (
     and_then (with_context ''invalid extranonce2'' (hex_bytes X extranonce2)) (\<lambda>_.
     and_then (parse_u32_hex ntime) (\<lambda>ntime.
     and_then (parse_u32_hex nonce) (\<lambda>nonce.
     ensure_msg (jb_mintime job \<le> ntime) ''ntime precedes template mintime'' (
     and_then (version_for job version_bits version_mask) (\<lambda>applied_version.
     and_then (hex_bytes X (jb_full_coinbase_prefix job @ jb_extranonce1 job @ extranonce2 @ jb_full_coinbase_suffix job)) (\<lambda>coinbase.
     and_then (hex_bytes X (jb_coinb1 job @ jb_extranonce1 job @ extranonce2 @ jb_coinb2 job)) (\<lambda>preimage.
     and_then (strip_witness_transaction coinbase) (\<lambda>stripped.
     ensure_msg (stripped = preimage) ''coinbase witness and txid preimage mismatch'' (
     let merkle = foldl (\<lambda>merkle sibling. double_sha256 X (merkle @ sibling)) (double_sha256 X preimage) (jb_merkle_branch job) in
     and_then (hex_bytes X (jb_previousblockhash job)) (\<lambda>previous.
     let previous = rev previous;
         header = to_le_bytes applied_version @ previous @ merkle @ to_le_bytes ntime @ to_le_bytes (jb_nbits job) @ to_le_bytes nonce in
     ensure_msg (length header = 80) ''invalid header size'' (
     let hash = double_sha256 X header; hash_int = le_value hash;
         block_pass = (hash_int \<le> jb_network_target job);
         block = (if block_pass
           then header @ codec_compact_size (1 + of_nat (length (jb_transactions job))) @ coinbase @ concat (jb_transactions job)
           else []) in
     Inr \<lparr>sb_coinbase_tx_hex = hex_encode X coinbase, sb_header_hex = hex_encode X header, sb_block_hex = hex_encode X block,
       sb_block_hash_hex = hash_display X hash, sb_share_pass = (hash_int \<le> jb_share_target job), sb_block_pass = block_pass,
       sb_extranonce2_hex = to_ascii_lowercase extranonce2, sb_ntime = ntime, sb_nonce = nonce,
       sb_applied_version = applied_version\<rparr>))))))))))))"

end
