(* ===== verification/Codec_Walk.thy ===== *)
theory Codec_Walk
  imports Job_Codec
begin

text \<open>
  What the transaction walker reads: a result depends only on the bytes it consumed, so it is
  the same with more bytes after them and with another extranonce in the coinbase script; and
  the merkle branch is the path of the first leaf.
\<close>

section \<open>Results\<close>

lemma ensure_msg_Inr [result_simps]: "ensure_msg ok m r = Inr x \<longleftrightarrow> ok \<and> r = Inr x"
  by (simp add: ensure_msg_def)

lemma bail_Inr [result_simps]: "bail m \<noteq> Inr x"
  by (simp add: bail_def)

lemma with_context_Inr [result_simps]: "with_context m r = Inr x \<longleftrightarrow> r = Inr x"
  by (simp add: with_context_def map_err_Inr)

lemma context_opt_Inr [result_simps]: "context_opt m v = Inr x \<longleftrightarrow> v = Some x"
  by (simp add: context_opt_def ok_or_Inr)

lemma hex_bytes_Inr [result_simps]: "hex_bytes X s = Inr bs \<longleftrightarrow> hex_decode X s = Inr bs"
  by (simp add: hex_bytes_def map_err_Inr)

section \<open>The merkle branch\<close>

lemma pad_level_Cons2: "pad_level (l # r # hs) = l # r # pad_level hs"
  by (cases hs) (auto simp: pad_level_def)

lemma pairs_of_padded: "hash_pairs X (pad_level hs) = merkle_level X hs"
proof (induction X hs rule: merkle_level.induct)
  case (3 X l r hs)
  then show ?case
    unfolding pad_level_Cons2 by (simp add: double_sha256_def hash256_pair_def hash256_def)
qed (simp_all add: pad_level_def double_sha256_def hash256_pair_def hash256_def)

lemma merkle_branch_path:
  "foldl (\<lambda>merkle sibling. double_sha256 X (merkle @ sibling)) h (merkle_branch_loop X (a # hs)) = merkle_root X (h # hs)"
proof (induction "length hs" arbitrary: a h hs rule: less_induct)
  case less
  show ?case
  proof (cases hs)
    case Nil
    then show ?thesis
      by (subst merkle_branch_loop.simps, subst merkle_root.simps) simp
  next
    case (Cons r rs)
    have shorter: "length (merkle_level X rs) < length hs"
      by (simp add: Cons length_merkle_level)
    have loop: "merkle_branch_loop X (a # hs) = r # merkle_branch_loop X (double_sha256 X (a @ r) # merkle_level X rs)"
      by (subst merkle_branch_loop.simps) (simp add: Cons pad_level_Cons2 pairs_of_padded)
    have root: "merkle_root X (h # hs) = merkle_root X (double_sha256 X (h @ r) # merkle_level X rs)"
      by (subst merkle_root.simps) (simp add: Cons double_sha256_def hash256_pair_def hash256_def)
    show ?thesis
      unfolding loop root using less [OF shorter] by simp
  qed
qed

section \<open>What a cursor sees\<close>

definition sees :: "cursor \<Rightarrow> cursor \<Rightarrow> bool" where
  "sees c d \<longleftrightarrow> cur_offset c = cur_offset d \<and> length (cur_bytes c) \<le> length (cur_bytes d) \<and>
     prefix (drop (cur_offset c) (cur_bytes c)) (drop (cur_offset d) (cur_bytes d))"

lemma cur_take_Inr:
  "cur_take n c = Inr (x, c') \<longleftrightarrow> cur_offset c + n < 2 ^ 64 \<and> cur_offset c + n \<le> length (cur_bytes c) \<and>
     x = take n (drop (cur_offset c) (cur_bytes c)) \<and> c' = c\<lparr>cur_offset := cur_offset c + n\<rparr>"
  by (auto simp: cur_take_def bail_def)

lemma cur_skip_Inr:
  "cur_skip n c = Inr c' \<longleftrightarrow> cur_offset c + n < 2 ^ 64 \<and> cur_offset c + n \<le> length (cur_bytes c) \<and>
     c' = c\<lparr>cur_offset := cur_offset c + n\<rparr>"
  by (auto simp: cur_skip_def and_then_Inr cur_take_Inr)

lemma take_sees:
  assumes "sees c d" and "cur_take n c = Inr (x, c')"
  shows "\<exists>d'. cur_take n d = Inr (x, d') \<and> sees c' d'"
proof -
  let ?c = "drop (cur_offset c) (cur_bytes c)"
  obtain r where d: "drop (cur_offset d) (cur_bytes d) = ?c @ r"
    using assms(1) by (auto simp: sees_def prefix_def)
  have "cur_offset c + n \<le> length (cur_bytes c)"
    using assms(2) by (simp add: cur_take_Inr)
  then have "n \<le> length ?c"
    by simp
  then have "take n (drop (cur_offset d) (cur_bytes d)) = take n ?c"
    and "drop n (drop (cur_offset d) (cur_bytes d)) = drop n ?c @ r"
    by (simp_all add: d)
  then show ?thesis
    using assms by (auto simp: cur_take_Inr sees_def add.commute)
qed

definition seeing :: "(cursor \<Rightarrow> anyhow + cursor) \<Rightarrow> bool" where
  "seeing f \<longleftrightarrow> (\<forall>c d c'. sees c d \<longrightarrow> f c = Inr c' \<longrightarrow> (\<exists>d'. f d = Inr d' \<and> sees c' d'))"

lemma seeingD: "seeing f \<Longrightarrow> sees c d \<Longrightarrow> f c = Inr c' \<Longrightarrow> \<exists>d'. f d = Inr d' \<and> sees c' d'"
  by (auto simp: seeing_def)

text \<open>A count by the bytes it is read from.\<close>

definition count_width :: "u8 \<Rightarrow> nat" where
  "count_width b = (if b = 253 then 3 else if b = 254 then 5 else if b = 255 then 9 else 1)"

definition count_value :: "u8 list \<Rightarrow> nat" where
  "count_value bs = (if 1 < count_width (hd bs) then le_value (tl bs) else unat (hd bs))"

definition count_canonical :: "u8 list \<Rightarrow> bool" where
  "count_canonical bs \<longleftrightarrow>
     (if hd bs = 253 then 253 \<le> count_value bs else if hd bs = 254 then 0xffff < count_value bs
      else if hd bs = 255 then 0xffffffff < count_value bs else True)"

definition count_bytes :: "cursor \<Rightarrow> u8 list" where
  "count_bytes c = take (count_width (cur_bytes c ! cur_offset c)) (drop (cur_offset c) (cur_bytes c))"

lemma cur_count_Inr:
  "cur_count c = Inr (v, c') \<longleftrightarrow>
     (let k = count_width (cur_bytes c ! cur_offset c) in
      cur_offset c + k < 2 ^ 64 \<and> cur_offset c + k \<le> length (cur_bytes c) \<and> v = count_value (count_bytes c) \<and>
      count_canonical (count_bytes c) \<and> v \<le> length (cur_bytes c) \<and> c' = c\<lparr>cur_offset := cur_offset c + k\<rparr>)"
proof (cases "cur_offset c < length (cur_bytes c)")
  case False
  then show ?thesis
    by (auto simp: cur_count_def and_then_Inr cur_take_Inr count_width_def Let_def)
next
  case True
  let ?b = "cur_bytes c ! cur_offset c" and ?r = "drop (Suc (cur_offset c)) (cur_bytes c)"
  have split: "drop (cur_offset c) (cur_bytes c) = ?b # ?r"
    using True by (simp add: Cons_nth_drop_Suc)
  consider "?b = 253" | "?b = 254" | "?b = 255" | "?b \<noteq> 253" "?b \<noteq> 254" "?b \<noteq> 255"
    by blast
  then show ?thesis
  proof cases
    case 1
    then show ?thesis
      by (auto simp: cur_count_def and_then_Inr ensure_msg_Inr cur_take_Inr Let_def split count_bytes_def count_width_def
          count_value_def count_canonical_def)
  next
    case 2
    then show ?thesis
      by (auto simp: cur_count_def and_then_Inr ensure_msg_Inr cur_take_Inr Let_def split count_bytes_def count_width_def
          count_value_def count_canonical_def)
  next
    case 3
    then show ?thesis
      by (auto simp: cur_count_def and_then_Inr ensure_msg_Inr cur_take_Inr Let_def split count_bytes_def count_width_def
          count_value_def count_canonical_def)
  next
    case 4
    then show ?thesis
      by (auto simp: cur_count_def and_then_Inr ensure_msg_Inr cur_take_Inr Let_def split count_bytes_def count_width_def
          count_value_def count_canonical_def)
  qed
qed

lemma count_width_pos: "0 < count_width b"
  by (simp add: count_width_def)

text \<open>The same bytes at another place are the same count.\<close>

lemma cur_count_move:
  assumes "cur_count c = Inr (v, c')" and k: "cur_offset c' = cur_offset c + k"
    and same: "take k (drop (cur_offset d) (cur_bytes d)) = take k (drop (cur_offset c) (cur_bytes c))"
    and "v \<le> length (cur_bytes d)" and "cur_offset d + k \<le> length (cur_bytes d)" and "cur_offset d + k < 2 ^ 64"
  shows "cur_count d = Inr (v, d\<lparr>cur_offset := cur_offset d + k\<rparr>)"
proof -
  have c: "k = count_width (cur_bytes c ! cur_offset c)" "cur_offset c + k \<le> length (cur_bytes c)"
    "v = count_value (count_bytes c)" "count_canonical (count_bytes c)"
    using assms(1) k by (auto simp: cur_count_Inr Let_def)
  then have "0 < k"
    by (simp add: count_width_pos)
  then have "take 1 (drop (cur_offset d) (cur_bytes d)) = take 1 (drop (cur_offset c) (cur_bytes c))"
    using arg_cong [OF same, of "take 1"] by (simp add: min_def)
  then have "cur_bytes d ! cur_offset d = cur_bytes c ! cur_offset c"
    using assms(5) c(2) \<open>0 < k\<close> by (simp add: take_Suc hd_drop_conv_nth)
  then have "count_width (cur_bytes d ! cur_offset d) = k" "count_bytes d = count_bytes c"
    using same by (simp_all add: count_bytes_def c(1))
  then show ?thesis
    using assms(4-6) c(3,4) by (simp add: cur_count_Inr Let_def)
qed

lemma count_sees:
  assumes "sees c d" and "cur_count c = Inr (v, c')"
  shows "\<exists>d'. cur_count d = Inr (v, d') \<and> sees c' d'"
proof -
  let ?k = "count_width (cur_bytes c ! cur_offset c)"
  have c: "cur_offset c + ?k < 2 ^ 64" "cur_offset c + ?k \<le> length (cur_bytes c)" "v \<le> length (cur_bytes c)"
    "c' = c\<lparr>cur_offset := cur_offset c + ?k\<rparr>"
    using assms(2) by (simp_all add: cur_count_Inr Let_def)
  then have skip: "cur_take ?k c = Inr (take ?k (drop (cur_offset c) (cur_bytes c)), c')"
    by (simp add: cur_take_Inr)
  obtain d' where d': "cur_take ?k d = Inr (take ?k (drop (cur_offset c) (cur_bytes c)), d')" "sees c' d'"
    using take_sees [OF assms(1) skip] by blast
  then have "take ?k (drop (cur_offset d) (cur_bytes d)) = take ?k (drop (cur_offset c) (cur_bytes c))"
    "cur_offset d + ?k \<le> length (cur_bytes d)" "cur_offset d + ?k < 2 ^ 64" "d' = d\<lparr>cur_offset := cur_offset d + ?k\<rparr>"
    by (simp_all add: cur_take_Inr)
  moreover have "v \<le> length (cur_bytes d)"
    using c(3) assms(1) by (simp add: sees_def)
  ultimately show ?thesis
    using cur_count_move [OF assms(2), of ?k d] d'(2) c(4) by simp
qed

lemma skip_seeing: "seeing (cur_skip n)"
  unfolding seeing_def cur_skip_def and_then_Inr using take_sees by fastforce

lemma skip_counted_seeing: "seeing skip_counted"
  unfolding seeing_def
proof (intro allI impI)
  fix c d c' assume sees: "sees c d" and run: "skip_counted c = Inr c'"
  then obtain n c1 where c1: "cur_count c = Inr (n, c1)" "cur_skip n c1 = Inr c'"
    by (auto simp: skip_counted_def and_then_Inr)
  then obtain d1 where d1: "cur_count d = Inr (n, d1)" "sees c1 d1"
    using count_sees [OF sees] by blast
  then show "\<exists>d'. skip_counted d = Inr d' \<and> sees c' d'"
    using seeingD [OF skip_seeing d1(2) c1(2)] by (simp add: skip_counted_def)
qed

lemma and_then_seeing: "seeing f \<Longrightarrow> seeing g \<Longrightarrow> seeing (\<lambda>c. and_then (f c) g)"
  unfolding seeing_def and_then_Inr by (metis and_then.simps(2))

lemma skip_input_seeing: "seeing skip_input"
  using and_then_seeing [OF skip_seeing and_then_seeing [OF skip_counted_seeing skip_seeing]]
  by (simp add: skip_input_def [abs_def])

lemma skip_output_seeing: "seeing skip_output"
  using and_then_seeing [OF skip_seeing skip_counted_seeing] by (simp add: skip_output_def [abs_def])

lemma repeat_seeing: "seeing f \<Longrightarrow> seeing (cur_repeat n f)"
proof (induction n)
  case (Suc n)
  then show ?case
    using and_then_seeing [of f "cur_repeat n f"] by (simp add: seeing_def)
qed (simp add: seeing_def)

lemma skip_stack_seeing: "seeing skip_stack"
  unfolding seeing_def
proof (intro allI impI)
  fix c d c' assume sees: "sees c d" and run: "skip_stack c = Inr c'"
  then obtain n c1 where c1: "cur_count c = Inr (n, c1)" "cur_repeat n skip_counted c1 = Inr c'"
    by (auto simp: skip_stack_def and_then_Inr)
  then obtain d1 where d1: "cur_count d = Inr (n, d1)" "sees c1 d1"
    using count_sees [OF sees] by blast
  then show "\<exists>d'. skip_stack d = Inr d' \<and> sees c' d'"
    using seeingD [OF repeat_seeing [OF skip_counted_seeing] d1(2) c1(2)] by (simp add: skip_stack_def)
qed

lemma if_seeing: "seeing f \<Longrightarrow> seeing g \<Longrightarrow> seeing (\<lambda>c. if b then f c else g c)"
  by (simp add: seeing_def)

lemma Inr_seeing: "seeing Inr"
  by (simp add: seeing_def)

section \<open>The walk\<close>

lemma walk_transaction_Inr:
  "walk_transaction bytes = Inr l \<longleftrightarrow>
     10 \<le> length bytes \<and> (\<exists>c0 inputs c1 c2. walk_head bytes = Inr c0 \<and> cur_count c0 = Inr (inputs, c1) \<and> 0 < inputs \<and>
       cur_repeat inputs skip_input c1 = Inr c2 \<and>
       walk_tail (bytes ! 4 = 0 \<and> bytes ! 5 \<noteq> 0) (cur_offset c0) inputs c2 = Inr l)"
  by (auto simp: walk_transaction_def ensure_msg_Inr and_then_Inr)

lemma tail_sees:
  assumes "sees c d" and "walk_tail witness a n c = Inr l"
  shows "walk_tail witness a n d = Inr l"
proof -
  obtain outputs c1 c2 c3 c4 where run: "cur_count c = Inr (outputs, c1)" "cur_repeat outputs skip_output c1 = Inr c2"
    "(if witness then cur_repeat n skip_stack c2 else Inr c2) = Inr c3" "cur_skip 4 c3 = Inr c4"
    and l: "l = \<lparr>tl_body = (a, cur_offset c2), tl_locktime = (cur_offset c3, cur_offset c4), tl_len = cur_offset c4\<rparr>"
    using assms(2) by (auto simp: walk_tail_def and_then_Inr Let_def)
  obtain d1 where d1: "cur_count d = Inr (outputs, d1)" "sees c1 d1"
    using count_sees [OF assms(1) run(1)] by blast
  obtain d2 where d2: "cur_repeat outputs skip_output d1 = Inr d2" "sees c2 d2"
    using seeingD [OF repeat_seeing [OF skip_output_seeing] d1(2) run(2)] by blast
  obtain d3 where d3: "(if witness then cur_repeat n skip_stack d2 else Inr d2) = Inr d3" "sees c3 d3"
    using seeingD [OF if_seeing [OF repeat_seeing [OF skip_stack_seeing] Inr_seeing] d2(2) run(3)] by blast
  obtain d4 where d4: "cur_skip 4 d3 = Inr d4" "sees c4 d4"
    using seeingD [OF skip_seeing d3(2) run(4)] by blast
  have "cur_offset c2 = cur_offset d2" "cur_offset c3 = cur_offset d3" "cur_offset c4 = cur_offset d4"
    using d2 d3 d4 by (simp_all add: sees_def)
  then show ?thesis
    using d1(1) d2(1) d3(1) d4(1) by (simp add: walk_tail_def l Let_def)
qed

lemma walk_prefix:
  assumes "walk_transaction tx = Inr l"
  shows "walk_transaction (tx @ extra) = Inr l"
proof -
  obtain c0 n c1 c2 where run: "10 \<le> length tx" "walk_head tx = Inr c0" "cur_count c0 = Inr (n, c1)" "0 < n"
    "cur_repeat n skip_input c1 = Inr c2" "walk_tail (tx ! 4 = 0 \<and> tx ! 5 \<noteq> 0) (cur_offset c0) n c2 = Inr l"
    using assms unfolding walk_transaction_Inr by blast
  have nth: "(tx @ extra) ! 4 = tx ! 4" "(tx @ extra) ! 5 = tx ! 5"
    using run(1) by (simp_all add: nth_append)
  have "sees \<lparr>cur_bytes = tx, cur_offset = 4\<rparr> \<lparr>cur_bytes = tx @ extra, cur_offset = 4\<rparr>"
    using run(1) by (simp add: sees_def)
  then obtain d0 where d0: "walk_head (tx @ extra) = Inr d0" "sees c0 d0"
    using run(2) seeingD [OF skip_seeing, of _ _ 2 c0] unfolding walk_head_def nth
    by (auto simp: ensure_msg_Inr ensure_msg_def split: if_splits)
  obtain d1 where d1: "cur_count d0 = Inr (n, d1)" "sees c1 d1"
    using count_sees [OF d0(2) run(3)] by blast
  obtain d2 where d2: "cur_repeat n skip_input d1 = Inr d2" "sees c2 d2"
    using seeingD [OF repeat_seeing [OF skip_input_seeing] d1(2) run(5)] by blast
  have "cur_offset d0 = cur_offset c0"
    using d0(2) by (simp add: sees_def)
  then show ?thesis
    unfolding walk_transaction_Inr nth using run(1,4) d0(1) d1(1) d2(1) tail_sees [OF d2(2) run(6)] by auto
qed

section \<open>The extranonce\<close>

definition advancing :: "(cursor \<Rightarrow> anyhow + cursor) \<Rightarrow> bool" where
  "advancing f \<longleftrightarrow> (\<forall>c c'. f c = Inr c' \<longrightarrow> cur_offset c \<le> cur_offset c' \<and> cur_bytes c' = cur_bytes c \<and>
     (cur_offset c \<le> length (cur_bytes c) \<longrightarrow> cur_offset c' \<le> length (cur_bytes c)))"

lemma advancingD:
  "advancing f \<Longrightarrow> f c = Inr c' \<Longrightarrow> cur_offset c \<le> cur_offset c' \<and> cur_bytes c' = cur_bytes c \<and>
     (cur_offset c \<le> length (cur_bytes c) \<longrightarrow> cur_offset c' \<le> length (cur_bytes c))"
  by (auto simp: advancing_def)

lemma skip_advancing: "advancing (cur_skip n)"
  by (auto simp: advancing_def cur_skip_Inr)

lemma count_advancing:
  "cur_count c = Inr (v, c') \<Longrightarrow> cur_offset c \<le> cur_offset c' \<and> cur_bytes c' = cur_bytes c \<and> cur_offset c' \<le> length (cur_bytes c)"
  by (auto simp: cur_count_Inr Let_def)

lemma and_then_advancing:
  assumes "advancing f" and "advancing g"
  shows "advancing (\<lambda>c. and_then (f c) g)"
  unfolding advancing_def
proof (intro allI impI)
  fix c c' assume "and_then (f c) g = Inr c'"
  then obtain d where "f c = Inr d" "g d = Inr c'"
    by (auto simp: and_then_Inr)
  then show "cur_offset c \<le> cur_offset c' \<and> cur_bytes c' = cur_bytes c \<and>
     (cur_offset c \<le> length (cur_bytes c) \<longrightarrow> cur_offset c' \<le> length (cur_bytes c))"
    using advancingD [OF assms(1), of c d] advancingD [OF assms(2), of d c'] by auto
qed

lemma count_then_advancing:
  assumes "\<And>n. advancing (g n)"
  shows "advancing (\<lambda>c. and_then (cur_count c) (\<lambda>(n, c). g n c))"
  unfolding advancing_def
proof (intro allI impI)
  fix c c' assume "and_then (cur_count c) (\<lambda>(n, c). g n c) = Inr c'"
  then obtain n d where "cur_count c = Inr (n, d)" "g n d = Inr c'"
    by (auto simp: and_then_Inr)
  then show "cur_offset c \<le> cur_offset c' \<and> cur_bytes c' = cur_bytes c \<and>
     (cur_offset c \<le> length (cur_bytes c) \<longrightarrow> cur_offset c' \<le> length (cur_bytes c))"
    using count_advancing [of c n d] advancingD [OF assms, of n d c'] by auto
qed

lemma counted_advancing: "advancing skip_counted"
  using count_then_advancing [of cur_skip, OF skip_advancing] by (simp add: skip_counted_def [abs_def])

lemma output_advancing: "advancing skip_output"
  using and_then_advancing [OF skip_advancing counted_advancing] by (simp add: skip_output_def [abs_def])

lemma repeat_advancing: "advancing f \<Longrightarrow> advancing (cur_repeat n f)"
proof (induction n)
  case 0
  then show ?case
    by (simp add: advancing_def)
next
  case (Suc n)
  have "cur_repeat (Suc n) f = (\<lambda>c. and_then (f c) (cur_repeat n f))"
    by (simp add: fun_eq_iff)
  then show ?case
    using and_then_advancing [OF Suc.prems Suc.IH [OF Suc.prems]] by (simp only:)
qed

lemma stack_advancing: "advancing skip_stack"
  using count_then_advancing [of "\<lambda>n. cur_repeat n skip_counted", OF repeat_advancing [OF counted_advancing]]
  by (simp add: skip_stack_def [abs_def])

lemma tail_ranges:
  assumes "walk_tail witness a n c = Inr l" and "cur_offset c \<le> length (cur_bytes c)"
  shows "\<exists>be lt. tl_body l = (a, be) \<and> tl_locktime l = (lt, lt + 4) \<and> tl_len l = lt + 4 \<and> cur_offset c \<le> be \<and> be \<le> lt \<and>
    lt + 4 \<le> length (cur_bytes c)"
proof -
  obtain outputs c1 c2 c3 c4 where run: "cur_count c = Inr (outputs, c1)" "cur_repeat outputs skip_output c1 = Inr c2"
    "(if witness then cur_repeat n skip_stack c2 else Inr c2) = Inr c3" "cur_skip 4 c3 = Inr c4"
    and l: "l = \<lparr>tl_body = (a, cur_offset c2), tl_locktime = (cur_offset c3, cur_offset c4), tl_len = cur_offset c4\<rparr>"
    using assms(1) by (auto simp: walk_tail_def and_then_Inr Let_def)
  have "cur_offset c \<le> cur_offset c1" "cur_bytes c1 = cur_bytes c" "cur_offset c1 \<le> length (cur_bytes c)"
    using count_advancing [OF run(1)] by simp_all
  moreover have "cur_offset c1 \<le> cur_offset c2" "cur_bytes c2 = cur_bytes c1"
    using advancingD [OF repeat_advancing [OF output_advancing] run(2)] by simp_all
  moreover have "cur_offset c2 \<le> cur_offset c3" "cur_bytes c3 = cur_bytes c2"
    using run(3) advancingD [OF repeat_advancing [OF stack_advancing], of n c2 c3] by (auto split: if_splits)
  moreover have "cur_offset c4 = cur_offset c3 + 4" "cur_offset c3 + 4 \<le> length (cur_bytes c3)"
    using run(4) by (simp_all add: cur_skip_Inr)
  ultimately show ?thesis
    by (simp add: l)
qed

lemma count_one: "cur_count c = Inr (1, c') \<Longrightarrow> cur_bytes c ! cur_offset c = 1 \<and> cur_offset c' = cur_offset c + 1"
proof -
  assume run: "cur_count c = Inr (1, c')"
  let ?b = "cur_bytes c ! cur_offset c"
  have "count_bytes c \<noteq> []" "hd (count_bytes c) = ?b"
    using run count_width_pos [of ?b] by (auto simp: cur_count_Inr Let_def count_bytes_def hd_drop_conv_nth)
  then have "?b = 1"
    using run by (auto simp: cur_count_Inr Let_def count_value_def count_canonical_def count_width_def word_unat_eq_iff [of _ 1] split: if_splits)
  then show ?thesis
    using run by (auto simp: cur_count_Inr Let_def count_width_def)
qed

lemma split_coinbase_run:
  assumes "split_coinbase_extranonce tx ph = Inr (p, q)"
  obtains a k n where "coinbase_start tx = Inr \<lparr>cur_bytes = tx, cur_offset = a\<rparr>" and "a = 4 \<or> a = 6"
    and "cur_count \<lparr>cur_bytes = tx, cur_offset = a\<rparr> = Inr (1, \<lparr>cur_bytes = tx, cur_offset = a + 1\<rparr>)" and "tx ! a = 1"
    and "take 36 (drop (a + 1) tx) = replicate 32 0 @ replicate 4 255"
    and "cur_count \<lparr>cur_bytes = tx, cur_offset = a + 37\<rparr> = Inr (n, \<lparr>cur_bytes = tx, cur_offset = a + 37 + k\<rparr>)"
    and "suffix ph (take n (drop (a + 37 + k) tx))" and "a + 37 + k + n \<le> length tx" and "a + 37 + k + n < 2 ^ 64"
    and "p = take (a + 37 + k + n - length ph) tx" and "q = drop (a + 37 + k + n) tx" and "ph \<noteq> []" and "10 \<le> length tx"
proof -
  obtain c0 c1 prevout c2 n c3 script c4 where run: "10 \<le> length tx" "ph \<noteq> []" "coinbase_start tx = Inr c0" "cur_count c0 = Inr (1, c1)"
    "cur_take 36 c1 = Inr (prevout, c2)" "take 32 prevout = replicate 32 0" "drop 32 prevout = replicate 4 255"
    "cur_count c2 = Inr (n, c3)" "cur_take n c3 = Inr (script, c4)" "suffix ph script"
    "p = take (cur_offset c4 - length ph) tx" "q = drop (cur_offset c4) tx"
    using assms by (auto simp: split_coinbase_extranonce_def ensure_msg_Inr and_then_Inr Let_def)
  obtain a where c0: "c0 = \<lparr>cur_bytes = tx, cur_offset = a\<rparr>" and a: "a = 4 \<or> a = 6"
    using run(3) by (auto simp: coinbase_start_def cur_skip_Inr Let_def split: if_splits)
  have one: "tx ! a = 1" and c1: "c1 = \<lparr>cur_bytes = tx, cur_offset = a + 1\<rparr>"
    using count_one [OF run(4)] run(4) by (auto simp: c0 cur_count_Inr Let_def)
  have c2: "c2 = \<lparr>cur_bytes = tx, cur_offset = a + 37\<rparr>" "prevout = take 36 (drop (a + 1) tx)"
    using run(5) by (simp_all add: c1 cur_take_Inr)
  obtain k where c3: "c3 = \<lparr>cur_bytes = tx, cur_offset = a + 37 + k\<rparr>"
    using run(8) by (auto simp: c2 cur_count_Inr Let_def)
  have c4: "cur_offset c4 = a + 37 + k + n" "script = take n (drop (a + 37 + k) tx)" "a + 37 + k + n \<le> length tx"
    "a + 37 + k + n < 2 ^ 64"
    using run(9) by (simp_all add: c3 cur_take_Inr)
  have "prevout = replicate 32 0 @ replicate 4 255"
    using run(6,7) by (metis append_take_drop_id)
  then show thesis
    using that [of a n k] run a one c4 unfolding c0 c1 c2 c3 by simp
qed

lemma take_drop_cong:
  assumes "take s xs = take s ys" and "a + k \<le> s"
  shows "take k (drop a xs) = take k (drop a ys)"
proof -
  have "take k (drop a (take s zs)) = take k (drop a zs)" for zs :: "'a list"
    using assms(2) by (simp add: drop_take min_def)
  then show ?thesis
    using assms(1) by metis
qed

text \<open>Where a coinbase keeps its counts and its script, which ends with the placeholder.\<close>

definition coinbase_at :: "u8 list \<Rightarrow> u8 list \<Rightarrow> nat \<Rightarrow> nat \<Rightarrow> nat \<Rightarrow> bool" where
  "coinbase_at tx ph a k n \<longleftrightarrow>
     coinbase_start tx = Inr \<lparr>cur_bytes = tx, cur_offset = a\<rparr> \<and> (a = 4 \<or> a = 6) \<and> tx ! a = 1 \<and>
     cur_count \<lparr>cur_bytes = tx, cur_offset = a\<rparr> = Inr (1, \<lparr>cur_bytes = tx, cur_offset = a + 1\<rparr>) \<and>
     take 36 (drop (a + 1) tx) = replicate 32 0 @ replicate 4 255 \<and>
     cur_count \<lparr>cur_bytes = tx, cur_offset = a + 37\<rparr> = Inr (n, \<lparr>cur_bytes = tx, cur_offset = a + 37 + k\<rparr>) \<and>
     suffix ph (take n (drop (a + 37 + k) tx)) \<and> a + 37 + k + n \<le> length tx \<and> a + 37 + k + n < 2 ^ 64 \<and>
     ph \<noteq> [] \<and> 10 \<le> length tx"

lemma coinbase_at_middle:
  assumes "coinbase_at tx ph a k n"
  shows "a + 37 + k \<le> a + 37 + k + n - length ph \<and> length ph \<le> n \<and>
    tx = take (a + 37 + k + n - length ph) tx @ ph @ drop (a + 37 + k + n) tx"
proof -
  let ?m = "a + 37 + k"
  obtain zs where zs: "take n (drop ?m tx) = zs @ ph"
    using assms by (auto simp: coinbase_at_def suffix_def)
  have "?m + n \<le> length tx"
    using assms by (simp add: coinbase_at_def)
  then have "length (take n (drop ?m tx)) = n"
    by simp
  then have n: "n = length zs + length ph"
    unfolding zs by simp
  have "take (length zs) (drop ?m tx) = take (length zs) (take n (drop ?m tx))"
    by (simp add: n min_def)
  also have "\<dots> = zs"
    unfolding zs by simp
  finally have "take (?m + length zs) tx = take ?m tx @ zs"
    unfolding take_add [of ?m "length zs" tx] by simp
  moreover have "?m + n - length ph = ?m + length zs"
    using n by simp
  ultimately have "take (?m + n - length ph) tx = take ?m tx @ zs"
    by (simp only:)
  moreover have "tx = take ?m tx @ take n (drop ?m tx) @ drop (?m + n) tx"
    by (metis append_take_drop_id drop_drop add.commute)
  ultimately show ?thesis
    unfolding zs using n by simp
qed

lemma coinbase_at_walk:
  assumes cb: "coinbase_at tx ph a k n" and walk: "walk_transaction tx = Inr l"
  shows "\<exists>c2. cur_repeat 1 skip_input \<lparr>cur_bytes = tx, cur_offset = a + 1\<rparr> = Inr c2 \<and>
      walk_head tx = Inr \<lparr>cur_bytes = tx, cur_offset = a\<rparr> \<and> c2 = \<lparr>cur_bytes = tx, cur_offset = a + 37 + k + n + 4\<rparr> \<and>
      walk_tail (tx ! 4 = 0 \<and> tx ! 5 \<noteq> 0) a 1 c2 = Inr l \<and>
      a + 37 + k + n + 4 \<le> length tx \<and> a + 37 + k + n + 4 < 2 ^ 64"
proof -
  have at: "coinbase_start tx = Inr \<lparr>cur_bytes = tx, cur_offset = a\<rparr>"
    "cur_count \<lparr>cur_bytes = tx, cur_offset = a\<rparr> = Inr (1, \<lparr>cur_bytes = tx, cur_offset = a + 1\<rparr>)"
    "cur_count \<lparr>cur_bytes = tx, cur_offset = 37 + a\<rparr> = Inr (n, \<lparr>cur_bytes = tx, cur_offset = 37 + a + k\<rparr>)"
    using cb unfolding coinbase_at_def add.commute [of 37 a] by simp_all
  obtain c0 inputs c1 c2 where run: "walk_head tx = Inr c0" "cur_count c0 = Inr (inputs, c1)"
    "cur_repeat inputs skip_input c1 = Inr c2" "walk_tail (tx ! 4 = 0 \<and> tx ! 5 \<noteq> 0) (cur_offset c0) inputs c2 = Inr l"
    using walk unfolding walk_transaction_Inr by blast
  have c0: "c0 = \<lparr>cur_bytes = tx, cur_offset = a\<rparr>"
    using run(1) at(1) by (auto simp: walk_head_def coinbase_start_def ensure_msg_Inr Let_def split: if_splits)
  have inputs: "inputs = 1" "c1 = \<lparr>cur_bytes = tx, cur_offset = a + 1\<rparr>"
    using run(2) unfolding c0 at(2) by auto
  have "c2 = \<lparr>cur_bytes = tx, cur_offset = a + 37 + k + n + 4\<rparr>" "a + 37 + k + n + 4 \<le> length tx" "a + 37 + k + n + 4 < 2 ^ 64"
    using run(3) at(3) by (auto simp: inputs skip_input_def skip_counted_def and_then_Inr cur_skip_Inr)
  then show ?thesis
    using run by (simp add: c0 inputs)
qed

text \<open>Other bytes in the script, the rest unchanged: the walk finds the same places.\<close>

lemma walk_other_script:
  assumes cb: "coinbase_at tx ph a k n" and walk: "walk_transaction tx = Inr l" and length: "length tx' = length tx"
    and before: "take s tx' = take s tx" and after: "drop (a + 37 + k + n) tx' = drop (a + 37 + k + n) tx" and s: "a + 37 + k \<le> s"
  shows "walk_transaction tx' = Inr l"
proof -
  let ?f = "a + 37 + k + n"
  from cb have at: "a = 4 \<or> a = 6" "10 \<le> length tx" "?f \<le> length tx" "?f < 2 ^ 64"
    and counts: "cur_count \<lparr>cur_bytes = tx, cur_offset = a\<rparr> = Inr (1, \<lparr>cur_bytes = tx, cur_offset = a + 1\<rparr>)"
    "cur_count \<lparr>cur_bytes = tx, cur_offset = a + 37\<rparr> = Inr (n, \<lparr>cur_bytes = tx, cur_offset = a + 37 + k\<rparr>)"
    by (simp_all only: coinbase_at_def simp_thms)
  from coinbase_at_walk [OF cb walk] have run: "walk_head tx = Inr \<lparr>cur_bytes = tx, cur_offset = a\<rparr>"
    "walk_tail (tx ! 4 = 0 \<and> tx ! 5 \<noteq> 0) a 1 \<lparr>cur_bytes = tx, cur_offset = ?f + 4\<rparr> = Inr l" "?f + 4 \<le> length tx" "?f + 4 < 2 ^ 64"
    by blast+
  have nth: "tx' ! i = tx ! i" if "i < s" for i
    using that before by (metis nth_take)
  have nths: "tx' ! 4 = tx ! 4" "tx' ! 5 = tx ! 5"
    using s at(1) by (auto intro: nth)
  have head: "walk_head tx' = Inr \<lparr>cur_bytes = tx', cur_offset = a\<rparr>"
    using run(1) length unfolding walk_head_def nths by (auto simp: ensure_msg_def cur_skip_Inr split: if_splits)
  have same1: "take 1 (drop a tx') = take 1 (drop a tx)"
    by (rule take_drop_cong [OF before]) (use s in simp)
  have same2: "take k (drop (a + 37) tx') = take k (drop (a + 37) tx)"
    by (rule take_drop_cong [OF before]) (use s in simp)
  have count1: "cur_count \<lparr>cur_bytes = tx', cur_offset = a\<rparr> = Inr (1, \<lparr>cur_bytes = tx', cur_offset = a + 1\<rparr>)"
    using cur_count_move [OF counts(1), of 1 "\<lparr>cur_bytes = tx', cur_offset = a\<rparr>"] same1 length at by simp
  have "n \<le> length tx"
    using at(3) by simp
  then have count2: "cur_count \<lparr>cur_bytes = tx', cur_offset = a + 37\<rparr> = Inr (n, \<lparr>cur_bytes = tx', cur_offset = a + 37 + k\<rparr>)"
    using cur_count_move [OF counts(2), of k "\<lparr>cur_bytes = tx', cur_offset = a + 37\<rparr>"] same2 length at by simp
  have "cur_skip 36 \<lparr>cur_bytes = tx', cur_offset = a + 1\<rparr> = Inr \<lparr>cur_bytes = tx', cur_offset = a + 37\<rparr>"
    "cur_skip n \<lparr>cur_bytes = tx', cur_offset = a + 37 + k\<rparr> = Inr \<lparr>cur_bytes = tx', cur_offset = ?f\<rparr>"
    "cur_skip 4 \<lparr>cur_bytes = tx', cur_offset = ?f\<rparr> = Inr \<lparr>cur_bytes = tx', cur_offset = ?f + 4\<rparr>"
    using length at run by (simp_all add: cur_skip_Inr)
  then have "cur_repeat 1 skip_input \<lparr>cur_bytes = tx', cur_offset = a + 1\<rparr> = Inr \<lparr>cur_bytes = tx', cur_offset = ?f + 4\<rparr>"
    using count2 by (simp add: skip_input_def skip_counted_def)
  moreover have "drop (?f + 4) tx' = drop (?f + 4) tx"
    using arg_cong [OF after, of "drop 4"] by (simp only: drop_drop add.commute [of 4])
  then have "sees \<lparr>cur_bytes = tx, cur_offset = ?f + 4\<rparr> \<lparr>cur_bytes = tx', cur_offset = ?f + 4\<rparr>"
    using length by (simp add: sees_def)
  then have "walk_tail (tx ! 4 = 0 \<and> tx ! 5 \<noteq> 0) a 1 \<lparr>cur_bytes = tx', cur_offset = ?f + 4\<rparr> = Inr l"
    using tail_sees run(2) by blast
  ultimately show ?thesis
    unfolding walk_transaction_Inr nths using head count1 at length by auto
qed

text \<open>The stripped coinbase has the same script, at its own place.\<close>

lemma split_moved:
  assumes cb: "coinbase_at tx ph a k n" and length: "a + 37 + k + n - a + 8 \<le> length tx'"
    and seen: "take (a + 37 + k + n - a) (drop 4 tx') = take (a + 37 + k + n - a) (drop a tx)"
  shows "split_coinbase_extranonce tx' ph = Inr (take (41 + k + n - length ph) tx', drop (41 + k + n) tx')"
proof -
  have at: "a = 4 \<or> a = 6" "tx ! a = 1" "a + 37 + k + n \<le> length tx" "a + 37 + k + n < 2 ^ 64" "ph \<noteq> []"
    "suffix ph (take n (drop (a + 37 + k) tx))" "take 36 (drop (a + 1) tx) = replicate 32 0 @ replicate 4 255"
    and counts: "cur_count \<lparr>cur_bytes = tx, cur_offset = a\<rparr> = Inr (1, \<lparr>cur_bytes = tx, cur_offset = a + 1\<rparr>)"
    "cur_count \<lparr>cur_bytes = tx, cur_offset = a + 37\<rparr> = Inr (n, \<lparr>cur_bytes = tx, cur_offset = a + 37 + k\<rparr>)"
    using cb unfolding coinbase_at_def by blast+
  have same: "take j (drop (4 + i) tx') = take j (drop (a + i) tx)" if "i + j \<le> 37 + k + n" for i j
  proof -
    have "take j (drop i (drop 4 tx')) = take j (drop i (drop a tx))"
      by (rule take_drop_cong [OF seen]) (use that in simp)
    then show ?thesis
      by (simp add: add.commute)
  qed
  have len: "45 + k + n \<le> length tx'" and low: "41 + k + n < 2 ^ 64"
    using length at(1,4) by auto
  have "take 1 (drop 4 tx') = take 1 (drop a tx)"
    using same [of 0 1] by simp
  then have "hd (drop 4 tx') = hd (drop a tx)"
    by (metis hd_take zero_less_one)
  then have "tx' ! 4 = 1"
    using at(2,3) len by (simp add: hd_drop_conv_nth)
  then have start: "coinbase_start tx' = Inr \<lparr>cur_bytes = tx', cur_offset = 4\<rparr>"
    by (simp add: coinbase_start_def)
  have c1: "cur_count \<lparr>cur_bytes = tx', cur_offset = 4\<rparr> = Inr (1, \<lparr>cur_bytes = tx', cur_offset = 5\<rparr>)"
    using cur_count_move [OF counts(1), of 1 "\<lparr>cur_bytes = tx', cur_offset = 4\<rparr>"] same [of 0 1] len by simp
  have c2: "cur_take 36 \<lparr>cur_bytes = tx', cur_offset = 5\<rparr> =
      Inr (replicate 32 0 @ replicate 4 255, \<lparr>cur_bytes = tx', cur_offset = 41\<rparr>)"
    using same [of 1 36] at(7) len by (simp add: cur_take_Inr)
  have c3: "cur_count \<lparr>cur_bytes = tx', cur_offset = 41\<rparr> = Inr (n, \<lparr>cur_bytes = tx', cur_offset = 41 + k\<rparr>)"
    using cur_count_move [OF counts(2), of k "\<lparr>cur_bytes = tx', cur_offset = 41\<rparr>"] same [of 37 k] len low by simp
  have c4: "cur_take n \<lparr>cur_bytes = tx', cur_offset = 41 + k\<rparr> =
      Inr (take n (drop (a + 37 + k) tx), \<lparr>cur_bytes = tx', cur_offset = 41 + k + n\<rparr>)"
    using same [of "37 + k" n] len low by (simp add: cur_take_Inr add.assoc)
  show ?thesis
    using len at(5,6) start c1 c2 c3 c4 by (simp add: split_coinbase_extranonce_def ensure_msg_def Let_def)
qed

text \<open>
  Another extranonce of the same length: what is hashed is the stripped coinbase with the same
  change.
\<close>

lemma extranonce_swap:
  assumes strip: "strip_witness_transaction tx = Inr stripped" and split: "split_coinbase_extranonce tx ph = Inr (p, q)"
    and e: "length e = length ph"
  shows "\<exists>p' q'. split_coinbase_extranonce stripped ph = Inr (p', q') \<and> strip_witness_transaction (p @ e @ q) = Inr (p' @ e @ q')"
proof -
  obtain l where walk: "walk_transaction tx = Inr l" and len: "tl_len l = length tx"
    and stripped: "stripped = take 4 tx @ byte_range (tl_body l) tx @ byte_range (tl_locktime l) tx"
    using strip by (auto simp: strip_witness_transaction_def and_then_Inr ensure_msg_Inr)
  from split obtain a k n where cb: "coinbase_at tx ph a k n"
    and pq: "p = take (a + 37 + k + n - length ph) tx" "q = drop (a + 37 + k + n) tx"
    by (rule split_coinbase_run) (simp add: coinbase_at_def)
  define f where "f = a + 37 + k + n"
  define s where "s = f - length ph"
  have a: "a = 4 \<or> a = 6" and bound: "f \<le> length tx" "10 \<le> length tx"
    using cb by (simp_all add: coinbase_at_def f_def)
  have s: "a + 37 + k \<le> s" "s + length ph = f" and whole: "take s tx @ ph @ drop f tx = tx"
    using coinbase_at_middle [OF cb] by (auto simp: f_def s_def)
  have walk': "walk_transaction (p @ e @ q) = Inr l"
  proof (rule walk_other_script [OF cb walk, where s = s])
    show "length (p @ e @ q) = length tx"
      using arg_cong [OF whole, of length] e by (simp add: pq f_def s_def)
    show "take s (p @ e @ q) = take s tx" "drop (a + 37 + k + n) (p @ e @ q) = drop (a + 37 + k + n) tx" "a + 37 + k \<le> s"
      using s e bound by (simp_all add: pq f_def [symmetric] s_def [symmetric])
  qed
  from coinbase_at_walk [OF cb walk] have tail:
    "walk_tail (tx ! 4 = 0 \<and> tx ! 5 \<noteq> 0) a 1 \<lparr>cur_bytes = tx, cur_offset = f + 4\<rparr> = Inr l" "f + 4 \<le> length tx"
    unfolding f_def by blast+
  obtain be lt where ranges: "tl_body l = (a, be)" "tl_locktime l = (lt, lt + 4)" "f + 4 \<le> be" "be \<le> lt" "lt + 4 \<le> length tx"
    using tail_ranges [OF tail(1)] tail(2) by auto
  let ?head = "take 4 tx @ drop a (take s tx)"
  let ?post = "take (be - f) (drop f tx) @ byte_range (tl_locktime l) tx"
  have body: "take 4 (take s tx @ m @ drop f tx) @ byte_range (tl_body l) (take s tx @ m @ drop f tx) @
      byte_range (tl_locktime l) (take s tx @ m @ drop f tx) = ?head @ m @ ?post" if m: "length m = length ph" for m
  proof -
    have "be - a = (s - a) + (length m + (be - f))"
      using m s ranges(3) by simp
    moreover have "drop lt (take s tx @ m @ drop f tx) = drop lt tx"
      using m s ranges(3,4) bound by (simp add: drop_drop)
    ultimately show ?thesis
      using s a bound by (auto simp: byte_range_def ranges)
  qed
  have swapped: "strip_witness_transaction (p @ e @ q) = Inr (?head @ e @ ?post)"
  proof -
    have "length (p @ e @ q) = length tx"
      using arg_cong [OF whole, of length] e by (simp add: pq f_def s_def)
    then show ?thesis
      using walk' len body [OF e] by (simp add: strip_witness_transaction_def ensure_msg_def pq f_def [symmetric] s_def [symmetric])
  qed
  have S: "stripped = ?head @ ph @ ?post"
    using body [OF refl] unfolding stripped whole by simp
  have head: "length ?head = 4 + (s - a)"
    using bound s by simp
  have "split_coinbase_extranonce stripped ph = Inr (take (41 + k + n - length ph) stripped, drop (41 + k + n) stripped)"
  proof (rule split_moved [OF cb])
    show "a + 37 + k + n - a + 8 \<le> length stripped"
      using ranges s a by (simp add: S byte_range_def f_def [symmetric])
    have "drop 4 stripped = drop a (take s tx) @ ph @ ?post"
      using bound by (simp add: S)
    moreover have "drop a (take s tx @ ph @ drop f tx) = drop a (take s tx) @ ph @ drop f tx"
      using s bound by simp
    moreover have "length (drop a (take s tx) @ ph) = a + 37 + k + n - a"
      using s a bound by (auto simp: f_def)
    ultimately show "take (a + 37 + k + n - a) (drop 4 stripped) = take (a + 37 + k + n - a) (drop a tx)"
      unfolding whole by (metis append_assoc append_eq_conv_conj)
  qed
  moreover have "41 + k + n - length ph = length ?head" "41 + k + n = length (?head @ ph)"
    using s head by (auto simp: f_def)
  moreover have first_part: "take (length xs) (xs @ ys) = xs" and last_part: "drop (length xs) (xs @ ys) = ys" for xs ys :: "u8 list"
    by simp_all
  have "take (length ?head) stripped = ?head"
    unfolding S by (rule first_part)
  moreover have "drop (length (?head @ ph)) stripped = ?post"
    unfolding S append_assoc [of _ ph ?post, symmetric] by (rule last_part)
  ultimately have "split_coinbase_extranonce stripped ph = Inr (?head, ?post)"
    by (simp only:)
  then show ?thesis
    using swapped by blast
qed

end
