(* ===== verification/Codec_Blocks.thy ===== *)
theory Codec_Blocks
  imports Codec_Walk
begin

text \<open>
  Assembled blocks read back: the count written before the transactions, the walk over them, and
  what a job built from a manifest keeps so that every submission on it assembles.
\<close>

section \<open>Blocks\<close>

lemma compact_size_read:
  "codec_compact_size v \<noteq> []" "length (codec_compact_size v) = count_width (hd (codec_compact_size v))"
  "count_value (codec_compact_size v) = unat v" "count_canonical (codec_compact_size v)"
proof -
  consider "v \<le> 252" | "\<not> v \<le> 252" "v \<le> 0xffff" | "\<not> v \<le> 0xffff" "v \<le> 0xffffffff" | "\<not> v \<le> 0xffffffff"
    by blast
  then have "codec_compact_size v \<noteq> [] \<and> length (codec_compact_size v) = count_width (hd (codec_compact_size v)) \<and>
    count_value (codec_compact_size v) = unat v \<and> count_canonical (codec_compact_size v)"
  proof cases
    case 1
    then have less: "unat v \<le> 252"
      by (simp add: word_le_nat_alt)
    then have "unat (ucast v :: u8) = unat v"
      by (simp add: unsigned_ucast_eq take_bit_nat_eq_self)
    moreover from this less have "(ucast v :: u8) \<noteq> 253" "(ucast v :: u8) \<noteq> 254" "(ucast v :: u8) \<noteq> 255"
      by (auto simp: word_unat_eq_iff)
    ultimately show ?thesis
      using 1 by (simp add: codec_compact_size_def count_width_def count_value_def count_canonical_def)
  next
    case 2
    then have less: "unat v \<le> 0xffff" "253 \<le> unat v"
      by (simp_all add: word_le_nat_alt)
    then have "unat (ucast v :: u16) = unat v"
      by (simp add: unsigned_ucast_eq take_bit_nat_eq_self)
    then have "le_value (to_le_bytes (ucast v :: u16)) = unat v"
      by (simp add: le_value_to_le_bytes)
    then show ?thesis
      using 2 less by (simp add: codec_compact_size_def count_width_def count_value_def count_canonical_def)
  next
    case 3
    then have less: "unat v \<le> 0xffffffff" "0xffff < unat v"
      by (simp_all add: word_le_nat_alt)
    then have "unat (ucast v :: u32) = unat v"
      by (simp add: unsigned_ucast_eq take_bit_nat_eq_self)
    then have "le_value (to_le_bytes (ucast v :: u32)) = unat v"
      by (simp add: le_value_to_le_bytes)
    moreover have "\<not> v \<le> 252"
      using less(2) by (simp add: word_le_nat_alt)
    ultimately show ?thesis
      using 3 less by (simp add: codec_compact_size_def count_width_def count_value_def count_canonical_def)
  next
    case 4
    then have less: "0xffffffff < unat v"
      by (simp add: word_le_nat_alt)
    have "le_value (to_le_bytes v) = unat v"
      by (simp add: le_value_to_le_bytes)
    moreover have "\<not> v \<le> 252" "\<not> v \<le> 0xffff"
      using less by (simp_all add: word_le_nat_alt)
    ultimately show ?thesis
      using 4 less by (simp add: codec_compact_size_def count_width_def count_value_def count_canonical_def)
  qed
  then show "codec_compact_size v \<noteq> []" "length (codec_compact_size v) = count_width (hd (codec_compact_size v))"
    "count_value (codec_compact_size v) = unat v" "count_canonical (codec_compact_size v)"
    by simp_all
qed

lemma count_compact:
  assumes "bytes = pre @ codec_compact_size v @ post" and "unat v \<le> length bytes" and "length pre < 2 ^ 63"
  shows "cur_count \<lparr>cur_bytes = bytes, cur_offset = length pre\<rparr> =
    Inr (unat v, \<lparr>cur_bytes = bytes, cur_offset = length pre + length (codec_compact_size v)\<rparr>)"
proof -
  let ?cs = "codec_compact_size v" and ?c = "\<lparr>cur_bytes = bytes, cur_offset = length pre\<rparr>"
  note cs = compact_size_read [of v]
  have "bytes ! length pre = hd ?cs"
    using cs(1) by (simp add: assms(1) nth_append hd_conv_nth)
  then have width: "count_width (bytes ! length pre) = length ?cs"
    using cs(2) by simp
  then have "count_bytes ?c = ?cs"
    by (simp add: count_bytes_def assms(1))
  moreover have "length ?cs \<le> 9"
    unfolding cs(2) by (simp add: count_width_def)
  ultimately show ?thesis
    using assms(2,3) cs(3,4) width by (simp add: cur_count_Inr Let_def) (simp add: assms(1))
qed

definition strips :: "u8 list \<Rightarrow> bool" where
  "strips tx \<longleftrightarrow> (\<exists>stripped. strip_witness_transaction tx = Inr stripped)"

lemma strips_walk: "strips tx \<Longrightarrow> \<exists>l. walk_transaction (tx @ more_bytes) = Inr l \<and> tl_len l = length tx \<and> 10 \<le> length tx"
  by (auto simp: strips_def strip_witness_transaction_def and_then_Inr ensure_msg_Inr walk_prefix)
    (auto simp: walk_transaction_Inr walk_prefix)

lemma leaves_fold:
  assumes "list_all strips ts" and "0 < i" and "block = pre @ concat ts"
  shows "try_fold (block_leaf_step X block n) (length pre, leaves) [i..<i + length ts] =
    Inr (length block, leaves @ witness_merkle_leaves_hex X ts)"
  using assms
proof (induction ts arbitrary: i pre leaves)
  case Nil
  then show ?case
    by (simp add: witness_merkle_leaves_hex_def)
next
  case (Cons t ts)
  obtain l where l: "walk_transaction (t @ concat ts) = Inr l" "tl_len l = length t"
    using strips_walk [of t "concat ts"] Cons.prems by auto
  have step: "block_leaf_step X block n (length pre, leaves) i =
      Inr (length (pre @ t), leaves @ [hex_encode X (double_sha256 X t)])"
    using l Cons.prems by (simp add: block_leaf_step_def get_from_def context_opt_def with_context_def)
  have "try_fold (block_leaf_step X block n) (length (pre @ t), leaves @ [hex_encode X (double_sha256 X t)])
      [Suc i..<Suc i + length ts] = Inr (length block, (leaves @ [hex_encode X (double_sha256 X t)]) @ witness_merkle_leaves_hex X ts)"
    using Cons.prems by (intro Cons.IH) simp_all
  moreover have "[i..<i + length (t # ts)] = i # [Suc i..<Suc i + length ts]"
    by (simp add: upt_rec)
  ultimately show ?case
    using step by (simp add: witness_merkle_leaves_hex_def)
qed

lemma block_reads_back:
  assumes block: "block = header @ codec_compact_size (1 + of_nat (length txs)) @ coinbase @ concat txs"
    and header: "length header = 80" and strips: "strips coinbase" "list_all strips txs" and few: "length txs < 2 ^ 63"
  shows "coinbase_from_block block = Inr coinbase"
    and "witness_merkle_leaves_from_block X block = Inr (witness_merkle_leaves_hex X txs)"
proof -
  let ?cs = "codec_compact_size (1 + of_nat (length txs))"
  have n: "unat (1 + of_nat (length txs) :: u64) = Suc (length txs)"
    using few by (simp add: unat_word_ariths unat_of_nat)
  have "length txs \<le> length (concat txs)"
    using strips(2)
  proof (induction txs)
    case (Cons t ts)
    then show ?case
      using strips_walk [of t "[]"] by auto
  qed simp
  moreover have "0 < length ?cs"
    using compact_size_read(1) by blast
  ultimately have "Suc (length txs) \<le> length block"
    by (simp add: block header)
  then have cnt: "cur_count \<lparr>cur_bytes = block, cur_offset = 80\<rparr> =
      Inr (Suc (length txs), \<lparr>cur_bytes = block, cur_offset = 80 + length ?cs\<rparr>)"
    using count_compact [OF block] n header by simp
  obtain l where l: "walk_transaction (coinbase @ concat txs) = Inr l" "tl_len l = length coinbase"
    using strips_walk [OF strips(1)] by blast
  have rest: "get_from (80 + length ?cs) block = Some (coinbase @ concat txs)"
    by (simp add: get_from_def block header)
  show "coinbase_from_block block = Inr coinbase"
    using l cnt rest header
    by (simp add: coinbase_from_block_def ensure_msg_def with_context_def context_opt_def) (simp add: block)
  have first_step: "block_leaf_step X block (Suc (length txs)) (80 + length ?cs, []) 0 =
      Inr (length (header @ ?cs @ coinbase), [])"
    using l rest header by (simp add: block_leaf_step_def context_opt_def with_context_def)
  have "try_fold (block_leaf_step X block (Suc (length txs))) (length (header @ ?cs @ coinbase), []) [1..<1 + length txs] =
      Inr (length block, [] @ witness_merkle_leaves_hex X txs)"
    using strips(2) by (rule leaves_fold) (simp_all add: block)
  moreover have "[0..<Suc (length txs)] = 0 # [1..<1 + length txs]"
    by (simp add: upt_rec)
  ultimately have "try_fold (block_leaf_step X block (Suc (length txs))) (80 + length ?cs, []) [0..<Suc (length txs)] =
      Inr (length block, witness_merkle_leaves_hex X txs)"
    using first_step by simp
  then show "witness_merkle_leaves_from_block X block = Inr (witness_merkle_leaves_hex X txs)"
    using cnt header
    by (simp add: witness_merkle_leaves_from_block_def ensure_msg_def with_context_def del: upt_Suc) (simp add: block)
qed

end
