(* ===== verification/Codec_Properties.thy ===== *)
theory Codec_Properties
  imports Codec_Blocks Complex_Main
begin

text \<open>
  What the mining codec promises: a block assembled from a job is one whose header commits to
  its own transactions and whose parts read back, every well-formed answer to a job assembles,
  and the target of a difficulty is exact.
\<close>

section \<open>Jobs\<close>

text \<open>\<open>hex\<close> decodes a concatenation piece by piece.\<close>

definition hex_joins :: "'x crates_scheme \<Rightarrow> bool" where
  "hex_joins X \<longleftrightarrow> (\<forall>s t a b. hex_decode X s = Inr a \<longrightarrow> hex_decode X t = Inr b \<longrightarrow> hex_decode X (s @ t) = Inr (a @ b))"

inductive offered_job :: "'x crates_scheme \<Rightarrow> (nat \<Rightarrow> nat \<Rightarrow> f64) \<Rightarrow> mining_job \<Rightarrow> bool" for X f64_quotient where
  built: "from_manifest X f64_quotient job_id template manifest extranonce1 extranonce2_size difficulty least_difficulty clean_jobs = Inr job \<Longrightarrow>
    offered_job X f64_quotient job"
| reassigned: "offered_job X f64_quotient job \<Longrightarrow> reassign X f64_quotient job job_id extranonce1 difficulty least_difficulty = Inr job' \<Longrightarrow>
    offered_job X f64_quotient job'"

definition txid_bytes :: "'x crates_scheme \<Rightarrow> u8 list \<Rightarrow> u8 list" where
  "txid_bytes X tx = double_sha256 X (projr (strip_witness_transaction tx))"

definition sound_job :: "'x crates_scheme \<Rightarrow> mining_job \<Rightarrow> bool" where
  "sound_job X job \<longleftrightarrow>
     (\<exists>tx stripped ph p q p' q' e1 prev.
        strip_witness_transaction tx = Inr stripped \<and> split_coinbase_extranonce stripped ph = Inr (p', q') \<and>
        split_coinbase_extranonce tx ph = Inr (p, q) \<and>
        jb_coinb1 job = hex_encode X p' \<and> jb_coinb2 job = hex_encode X q' \<and>
        jb_full_coinbase_prefix job = hex_encode X p \<and> jb_full_coinbase_suffix job = hex_encode X q \<and>
        hex_decode X (jb_extranonce1 job) = Inr e1 \<and> length ph = length e1 + jb_extranonce2_size job \<and>
        list_all strips (jb_transactions job) \<and>
        jb_merkle_branch job = merkle_branch_loop X (replicate 32 0 # map (txid_bytes X) (jb_transactions job)) \<and>
        hex_decode X (jb_previousblockhash job) = Inr prev \<and> length prev = 32 \<and>
        to_ascii_lowercase (jb_previousblockhash job) = jb_previousblockhash job)"

lemma hex_decode_length: "hex_spec X \<Longrightarrow> hex_decode X s = Inr bs \<Longrightarrow> length s = 2 * length bs"
  by (metis hex_encode_decode length_hex_encode length_to_ascii_lowercase)

lemma branch_of_transactions:
  assumes "merkle_branch_for_coinbase X txs = Inr branch"
  shows "list_all strips txs \<and> branch = merkle_branch_loop X (replicate 32 0 # map (txid_bytes X) txs)"
proof -
  obtain hashes where hashes: "list_all2 (\<lambda>tx h. and_then (strip_witness_transaction tx) (\<lambda>stripped. Inr (double_sha256 X stripped)) = Inr h) txs hashes"
    and branch: "branch = merkle_branch_loop X (replicate 32 0 # hashes)"
    using assms by (auto simp: merkle_branch_for_coinbase_def and_then_Inr try_map_Inr)
  have "list_all strips txs \<and> hashes = map (txid_bytes X) txs"
    using hashes by induction (auto simp: strips_def txid_bytes_def and_then_Inr)
  then show ?thesis
    by (simp add: branch)
qed

lemma from_manifest_sound:
  assumes "from_manifest X f64_quotient job_id template manifest extranonce1 extranonce2_size difficulty least_difficulty clean_jobs = Inr job"
  shows "sound_job X job"
proof -
  obtain tx stripped e1 p q p' q' txs branch previous prev where
    run: "strip_witness_transaction tx = Inr stripped" "hex_decode X extranonce1 = Inr e1"
      "split_coinbase_extranonce stripped (e1 @ replicate extranonce2_size 0) = Inr (p', q')"
      "split_coinbase_extranonce tx (e1 @ replicate extranonce2_size 0) = Inr (p, q)"
      "merkle_branch_for_coinbase X txs = Inr branch" "hex_decode X (to_ascii_lowercase previous) = Inr prev" "length prev = 32"
    and job: "jb_coinb1 job = hex_encode X p'" "jb_coinb2 job = hex_encode X q'" "jb_full_coinbase_prefix job = hex_encode X p"
      "jb_full_coinbase_suffix job = hex_encode X q" "jb_extranonce1 job = extranonce1" "jb_extranonce2_size job = extranonce2_size"
      "jb_transactions job = txs" "jb_merkle_branch job = branch" "jb_previousblockhash job = to_ascii_lowercase previous"
    using assms unfolding from_manifest_def Let_def by (auto simp: ensure_msg_Inr and_then_Inr context_opt_Inr hex_bytes_Inr)
  have "length (e1 @ replicate extranonce2_size 0) = length e1 + jb_extranonce2_size job"
    by (simp add: job)
  then show ?thesis
    using run branch_of_transactions [OF run(5)] unfolding sound_job_def job by (metis to_ascii_lowercase_idem job(6))
qed

lemma reassign_sound:
  assumes "hex_spec X" and "sound_job X job" and "reassign X f64_quotient job job_id extranonce1 difficulty least_difficulty = Inr job'"
  shows "sound_job X job'"
proof -
  obtain e1' where e1': "length extranonce1 = length (jb_extranonce1 job)" "hex_decode X extranonce1 = Inr e1'"
    and job': "jb_coinb1 job' = jb_coinb1 job" "jb_coinb2 job' = jb_coinb2 job"
      "jb_full_coinbase_prefix job' = jb_full_coinbase_prefix job" "jb_full_coinbase_suffix job' = jb_full_coinbase_suffix job"
      "jb_extranonce1 job' = extranonce1" "jb_extranonce2_size job' = jb_extranonce2_size job"
      "jb_transactions job' = jb_transactions job" "jb_merkle_branch job' = jb_merkle_branch job"
      "jb_previousblockhash job' = jb_previousblockhash job"
    using assms(3) unfolding reassign_def by (auto simp: ensure_msg_Inr and_then_Inr with_context_Inr hex_bytes_Inr)
  obtain e1 where e1: "hex_decode X (jb_extranonce1 job) = Inr e1"
    using assms(2) by (auto simp: sound_job_def)
  then have "length e1' = length e1"
    using hex_decode_length [OF assms(1) e1] hex_decode_length [OF assms(1) e1'(2)] e1'(1) by simp
  then show ?thesis
    using assms(2) e1 e1'(2) unfolding sound_job_def job' by fastforce
qed

lemma offered_sound: "offered_job X f64_quotient job \<Longrightarrow> hex_spec X \<Longrightarrow> sound_job X job"
  by (induction rule: offered_job.induct) (auto intro: from_manifest_sound reassign_sound)

section \<open>Assembled blocks\<close>

definition merkle_of :: "'x crates_scheme \<Rightarrow> mining_job \<Rightarrow> u8 list \<Rightarrow> u8 list" where
  "merkle_of X job preimage =
     foldl (\<lambda>merkle sibling. double_sha256 X (merkle @ sibling)) (double_sha256 X preimage) (jb_merkle_branch job)"

definition header_of :: "'x crates_scheme \<Rightarrow> mining_job \<Rightarrow> u32 \<Rightarrow> u8 list \<Rightarrow> u8 list \<Rightarrow> u32 \<Rightarrow> u32 \<Rightarrow> u8 list" where
  "header_of X job version previous preimage ntime nonce =
     to_le_bytes version @ rev previous @ merkle_of X job preimage @ to_le_bytes ntime @ to_le_bytes (jb_nbits job) @ to_le_bytes nonce"

lemma length_double_sha256: "sha256_spec X \<Longrightarrow> length (double_sha256 X bs) = 32"
  by (simp add: double_sha256_def sha256_spec_def)

lemma length_merkle_of: "sha256_spec X \<Longrightarrow> length (merkle_of X job preimage) = 32"
  unfolding merkle_of_def by (cases "jb_merkle_branch job" rule: rev_cases) (simp_all add: length_double_sha256)

lemma assemble_run:
  assumes "assemble_submission X job extranonce2 ntime nonce version_bits version_mask = Inr s"
  obtains coinbase preimage previous header where
    "hex_decode X (jb_full_coinbase_prefix job @ jb_extranonce1 job @ extranonce2 @ jb_full_coinbase_suffix job) = Inr coinbase"
    and "strip_witness_transaction coinbase = Inr preimage" and "hex_decode X (jb_previousblockhash job) = Inr previous"
    and "header = header_of X job (sb_applied_version s) previous preimage (sb_ntime s) (sb_nonce s)" and "length header = 80"
    and "sb_coinbase_tx_hex s = hex_encode X coinbase" and "sb_header_hex s = hex_encode X header"
    and "sb_block_hash_hex s = hash_display X (double_sha256 X header)"
    and "sb_block_pass s = (le_value (double_sha256 X header) \<le> jb_network_target job)"
    and "sb_share_pass s = (le_value (double_sha256 X header) \<le> jb_share_target job)"
    and "sb_block_pass s \<Longrightarrow> sb_block_hex s = hex_encode X (header @ codec_compact_size (1 + of_nat (length (jb_transactions job))) @
      coinbase @ concat (jb_transactions job))"
proof -
  obtain coinbase preimage previous header where
    run: "hex_decode X (jb_full_coinbase_prefix job @ jb_extranonce1 job @ extranonce2 @ jb_full_coinbase_suffix job) = Inr coinbase"
      "strip_witness_transaction coinbase = Inr preimage" "hex_decode X (jb_previousblockhash job) = Inr previous"
      "header = header_of X job (sb_applied_version s) previous preimage (sb_ntime s) (sb_nonce s)" "length header = 80"
      "sb_coinbase_tx_hex s = hex_encode X coinbase" "sb_header_hex s = hex_encode X header"
      "sb_block_hash_hex s = hash_display X (double_sha256 X header)"
      "sb_block_pass s = (le_value (double_sha256 X header) \<le> jb_network_target job)"
      "sb_share_pass s = (le_value (double_sha256 X header) \<le> jb_share_target job)"
      "sb_block_pass s \<longrightarrow> sb_block_hex s = hex_encode X (header @ codec_compact_size (1 + of_nat (length (jb_transactions job))) @
        coinbase @ concat (jb_transactions job))"
    using assms unfolding assemble_submission_def Let_def merkle_of_def [symmetric] header_of_def [symmetric]
    by (auto simp: ensure_msg_Inr and_then_Inr hex_bytes_Inr)
  then show thesis
    using that by blast
qed

text \<open>
  A block found on a job is a block: its hex decodes, its first 80 bytes are the header that
  was hashed, whose hash meets the network target, whose parent is the job's, and whose merkle
  root is the root over the transaction ids of the very transactions the block carries, coinbase
  first; and reading the block back gives that coinbase and the witness leaves of the template.
  This holds for every job built from a manifest, however often it was reassigned, and for every
  answer that assembles on it. Of the crates it needs the hex round trip and the digest length.
\<close>

theorem assembled_block_sound:
  assumes hex: "hex_spec X" and sha: "sha256_spec X" and job: "offered_job X f64_quotient job"
    and few: "length (jb_transactions job) < 2 ^ 63"
    and run: "assemble_submission X job extranonce2 ntime nonce version_bits version_mask = Inr s" and pass: "sb_block_pass s"
  shows "\<exists>block header coinbase.
    hex_decode X (sb_block_hex s) = Inr block \<and> hex_decode X (sb_header_hex s) = Inr header \<and>
    hex_decode X (sb_coinbase_tx_hex s) = Inr coinbase \<and>
    length header = 80 \<and> take 80 block = header \<and> le_value (double_sha256 X header) \<le> jb_network_target job \<and>
    hex_encode X (rev (take 32 (drop 4 header))) = jb_previousblockhash job \<and>
    take 32 (drop 36 header) = merkle_root X (map (txid_bytes X) (coinbase # jb_transactions job)) \<and>
    coinbase_from_block block = Inr coinbase \<and>
    witness_merkle_leaves_from_block X block = Inr (witness_merkle_leaves_hex X (jb_transactions job))"
proof -
  have sound: "sound_job X job"
    by (rule offered_sound [OF job hex])
  obtain coinbase preimage previous header where
    coinbase: "strip_witness_transaction coinbase = Inr preimage" and previous: "hex_decode X (jb_previousblockhash job) = Inr previous"
    and header: "header = header_of X job (sb_applied_version s) previous preimage (sb_ntime s) (sb_nonce s)" "length header = 80"
    and out: "sb_coinbase_tx_hex s = hex_encode X coinbase" "sb_header_hex s = hex_encode X header"
      "sb_block_pass s = (le_value (double_sha256 X header) \<le> jb_network_target job)"
      "sb_block_hex s = hex_encode X (header @ codec_compact_size (1 + of_nat (length (jb_transactions job))) @
        coinbase @ concat (jb_transactions job))"
    by (rule assemble_run [OF run]) (use pass in blast)
  let ?block = "header @ codec_compact_size (1 + of_nat (length (jb_transactions job))) @ coinbase @ concat (jb_transactions job)"
  have facts: "list_all strips (jb_transactions job)" "length previous = 32"
    "jb_merkle_branch job = merkle_branch_loop X (replicate 32 0 # map (txid_bytes X) (jb_transactions job))"
    "to_ascii_lowercase (jb_previousblockhash job) = jb_previousblockhash job"
    using sound previous by (auto simp: sound_job_def)
  have merkle: "merkle_of X job preimage = merkle_root X (map (txid_bytes X) (coinbase # jb_transactions job))"
    unfolding merkle_of_def facts(3) merkle_branch_path by (simp add: txid_bytes_def coinbase)
  have parts: "take 32 (drop 36 header) = merkle_of X job preimage" "take 32 (drop 4 header) = rev previous"
    using facts(2) length_merkle_of [OF sha, of job preimage] by (simp_all add: header(1) header_of_def)
  have "strips coinbase"
    using coinbase by (simp add: strips_def)
  note read = block_reads_back [OF refl header(2) this facts(1) few]
  have "hex_encode X (rev (take 32 (drop 4 header))) = jb_previousblockhash job"
    using hex_encode_decode [OF hex previous] facts(4) by (simp add: parts(2))
  then show ?thesis
    using read out pass header(2) parts(1) merkle by (auto simp: hex_decode_encode [OF hex])
qed

section \<open>Answers\<close>

definition u32_hex :: "string \<Rightarrow> bool" where
  "u32_hex s \<longleftrightarrow> length s = 8 \<and> list_all is_hexdigit s"

lemma parse_u32_hex_Inr: "parse_u32_hex s = Inr v \<longleftrightarrow> u32_hex s \<and> v = of_nat (hex_number s)"
  by (auto simp: parse_u32_hex_def u32_hex_def ensure_msg_Inr)

definition answer_ok :: "'x crates_scheme \<Rightarrow> mining_job \<Rightarrow> string \<Rightarrow> string \<Rightarrow> string \<Rightarrow> string option \<Rightarrow> u32 \<Rightarrow> bool" where
  "answer_ok X job extranonce2 ntime nonce version_bits version_mask \<longleftrightarrow>
     length extranonce2 = jb_extranonce2_size job * 2 \<and> (\<exists>bs. hex_decode X extranonce2 = Inr bs) \<and>
     u32_hex ntime \<and> u32_hex nonce \<and> jb_mintime job \<le> of_nat (hex_number ntime) \<and>
     (case version_bits of None \<Rightarrow> True
      | Some bits \<Rightarrow> u32_hex bits \<and> (of_nat (hex_number bits) :: u32) AND NOT version_mask = 0)"

lemma assemble_ok:
  assumes hex: "hex_spec X" and joins: "hex_joins X" and sha: "sha256_spec X" and sound: "sound_job X job"
    and ok: "answer_ok X job extranonce2 ntime nonce version_bits version_mask"
  shows "\<exists>s. assemble_submission X job extranonce2 ntime nonce version_bits version_mask = Inr s"
proof -
  obtain tx stripped ph p q p' q' e1 prev where
    split: "strip_witness_transaction tx = Inr stripped" "split_coinbase_extranonce stripped ph = Inr (p', q')"
      "split_coinbase_extranonce tx ph = Inr (p, q)"
    and job: "jb_coinb1 job = hex_encode X p'" "jb_coinb2 job = hex_encode X q'"
      "jb_full_coinbase_prefix job = hex_encode X p" "jb_full_coinbase_suffix job = hex_encode X q"
    and e1: "hex_decode X (jb_extranonce1 job) = Inr e1" "length ph = length e1 + jb_extranonce2_size job"
    and prev: "hex_decode X (jb_previousblockhash job) = Inr prev" "length prev = 32"
    using sound unfolding sound_job_def by blast
  obtain e2 where e2: "hex_decode X extranonce2 = Inr e2" "length extranonce2 = jb_extranonce2_size job * 2"
    using ok by (auto simp: answer_ok_def)
  have "length e2 = jb_extranonce2_size job"
    using hex_decode_length [OF hex e2(1)] e2(2) by simp
  then have "length (e1 @ e2) = length ph"
    by (simp add: e1(2))
  then have strip: "strip_witness_transaction (p @ (e1 @ e2) @ q) = Inr (p' @ (e1 @ e2) @ q')"
    using extranonce_swap(1) [OF split(1,3), of "e1 @ e2"] split(2) by auto
  have join: "hex_decode X s = Inr a \<Longrightarrow> hex_decode X u = Inr b \<Longrightarrow> hex_decode X (s @ u) = Inr (a @ b)" for s u a b
    using joins by (auto simp: hex_joins_def)
  have coinbase: "hex_decode X (jb_full_coinbase_prefix job @ jb_extranonce1 job @ extranonce2 @ jb_full_coinbase_suffix job) =
      Inr (p @ e1 @ e2 @ q)"
    and preimage: "hex_decode X (jb_coinb1 job @ jb_extranonce1 job @ extranonce2 @ jb_coinb2 job) = Inr (p' @ e1 @ e2 @ q')"
    unfolding job by (intro join hex_decode_encode [OF hex] e1(1) e2(1))+
  obtain version where version: "version_for job version_bits version_mask = Inr version"
    using ok by (cases version_bits) (auto simp: answer_ok_def version_for_def and_then_Inr parse_u32_hex_Inr ensure_msg_Inr)
  have "length (header_of X job version prev pre nt no) = 80" for pre nt no
    using prev(2) length_merkle_of [OF sha, of job pre] by (simp add: header_of_def)
  moreover have "parse_u32_hex ntime = Inr (of_nat (hex_number ntime))" "parse_u32_hex nonce = Inr (of_nat (hex_number nonce))"
    "jb_mintime job \<le> of_nat (hex_number ntime)"
    using ok by (simp_all add: parse_u32_hex_Inr answer_ok_def)
  ultimately show ?thesis
    using e2 coinbase preimage strip version prev(1)
    unfolding assemble_submission_def Let_def merkle_of_def [symmetric] header_of_def [symmetric]
    by (simp add: ensure_msg_def with_context_def hex_bytes_def)
qed

text \<open>
  On every offered job an answer assembles exactly when it is well-formed: the second
  extranonce is hex of the agreed size, the time and the nonce are four bytes of hex, the time
  is not before the template's, and the version bits, if any, are within the negotiated mask.
  So the checks of the coinbase against its txid preimage and of the header's size never fail:
  whatever the extranonce, stripping the witness of the full coinbase gives the preimage.
\<close>

theorem assemble_succeeds_iff:
  assumes "hex_spec X" and "hex_joins X" and "sha256_spec X" and "offered_job X f64_quotient job"
  shows "(\<exists>s. assemble_submission X job extranonce2 ntime nonce version_bits version_mask = Inr s) \<longleftrightarrow>
    length extranonce2 = jb_extranonce2_size job * 2 \<and> (\<exists>bs. hex_decode X extranonce2 = Inr bs) \<and>
    u32_hex ntime \<and> u32_hex nonce \<and> jb_mintime job \<le> of_nat (hex_number ntime) \<and>
    (case version_bits of None \<Rightarrow> True
     | Some bits \<Rightarrow> u32_hex bits \<and> (of_nat (hex_number bits) :: u32) AND NOT version_mask = 0)"
proof -
  have "answer_ok X job extranonce2 ntime nonce version_bits version_mask"
    if "assemble_submission X job extranonce2 ntime nonce version_bits version_mask = Inr s" for s
    using that unfolding assemble_submission_def answer_ok_def version_for_def Let_def
    by (cases version_bits) (auto simp: ensure_msg_Inr and_then_Inr with_context_Inr hex_bytes_Inr parse_u32_hex_Inr)
  then show ?thesis
    using assemble_ok [OF assms(1-3) offered_sound [OF assms(4,1)]] unfolding answer_ok_def by blast
qed

section \<open>Difficulties\<close>

definition f64_real :: "f64 \<Rightarrow> real" where
  "f64_real x = (if bit x 63 then - 1 else 1) * real (f64_mantissa x) * 2 powi f64_exponent x"

lemma target_one: "target_from_compact 0x1d00ffff = Inr (0xffff * 2 ^ 208)"
  by (simp add: target_from_compact_def ensure_msg_def)

lemma mantissa_zero: "f64_mantissa x = 0 \<longleftrightarrow> f64_is_zero x"
proof
  assume zero: "f64_mantissa x = 0"
  then have "(x AND (2 ^ 52 - 1)) OR (if f64_raw_exponent x = 0 then 0 else push_bit 52 1) = 0"
    by (simp only: f64_mantissa_def unsigned_eq_0_iff)
  then have frac: "x AND (2 ^ 52 - 1) = 0" and "(if f64_raw_exponent x = 0 then 0 else push_bit 52 1) = (0 :: f64)"
    by (simp_all only: or_eq_0_iff)
  then have "f64_raw_exponent x = 0"
    by (simp split: if_splits)
  then have expo: "drop_bit 52 x AND 0x7ff = 0"
    by (simp only: f64_raw_exponent_def unsigned_eq_0_iff)
  have "\<not> bit x n" if "n < 63" for n
  proof (cases "n < 52")
    case True
    have "x AND mask 52 = 0"
      using frac by (simp only: mask_eq_exp_minus_1)
    then have "\<not> bit (x AND mask 52) n"
      by simp
    then show ?thesis
      using True by (simp add: bit_and_iff bit_mask_iff)
  next
    case False
    have "\<not> bit (drop_bit 52 x AND (0x7ff :: f64)) (n - 52)"
      by (simp add: expo)
    moreover have "bit (0x7ff :: f64) (n - 52)"
    proof -
      have eq: "(0x7ff :: f64) = mask 11"
        by (simp add: mask_eq_exp_minus_1)
      show ?thesis
        unfolding eq bit_mask_iff using that False by simp arith
    qed
    ultimately show ?thesis
      using False by (simp add: bit_and_iff bit_drop_bit_eq)
  qed
  then have "x = (if bit x 63 then 0x8000000000000000 else 0)"
  proof (intro bit_word_eqI)
    fix n assume n: "n < LENGTH(64)"
    have eq: "(0x8000000000000000 :: f64) = push_bit 63 1"
      by simp
    have "bit (0x8000000000000000 :: f64) n \<longleftrightarrow> n = 63"
      unfolding eq bit_push_bit_iff bit_1_iff using n by auto
    then show "bit x n \<longleftrightarrow> bit (if bit x 63 then 0x8000000000000000 else 0 :: f64) n"
      using n \<open>\<And>n. n < 63 \<Longrightarrow> \<not> bit x n\<close> by (cases "n = 63") auto
  qed
  then show "f64_is_zero x"
    by (auto simp: f64_is_zero_def split: if_splits)
next
  assume "f64_is_zero x"
  then show "f64_mantissa x = 0"
    by (auto simp: f64_is_zero_def f64_mantissa_def f64_raw_exponent_def)
qed

lemma f64_pos_real: "f64_pos x \<longleftrightarrow> 0 < f64_real x"
proof -
  have "\<not> (2 :: real) powi f64_exponent x < 0"
    by (simp add: not_less)
  then show ?thesis
    by (auto simp: f64_pos_def f64_real_def mantissa_zero [symmetric] zero_less_mult_iff)
qed

text \<open>
  The target of a difficulty is exact: it is the largest integer not above the target of
  difficulty one divided by the very number the 64 bits of the difficulty denote, within one and
  2^256 - 1; there is a target exactly for the finite positive numbers. No rounding happens on
  the way, so two sides that share the bits of a difficulty share the target.
\<close>

theorem difficulty_target_exact:
  "difficulty_target difficulty = Inr target \<longleftrightarrow>
     f64_is_finite difficulty \<and> 0 < f64_real difficulty \<and>
     int target = min (max \<lfloor>0xffff * 2 ^ 208 / f64_real difficulty\<rfloor> 1) (2 ^ 256 - 1)"
proof (cases "f64_is_finite difficulty \<and> f64_pos difficulty")
  case True
  let ?m = "f64_mantissa difficulty" and ?e = "f64_exponent difficulty"
  let ?N = "0xffff * 2 ^ 208 :: nat"
  let ?t = "(if ?e < 0 then ?N * 2 ^ nat (- ?e) else ?N) div (if ?e < 0 then ?m else ?m * 2 ^ nat ?e)"
  have sign: "f64_real difficulty = real ?m * 2 powi ?e"
    using True by (simp add: f64_real_def f64_pos_def)
  have "\<lfloor>0xffff * 2 ^ 208 / f64_real difficulty\<rfloor> = int ?t"
  proof (cases "?e < 0")
    case neg: True
    have inv: "(2 :: real) powi ?e = inverse (2 ^ nat (- ?e))"
      using neg by (simp add: power_int_def power_one_over inverse_eq_divide)
    have "0xffff * 2 ^ 208 / f64_real difficulty = real (?N * 2 ^ nat (- ?e)) / real ?m"
      unfolding sign inv by (simp add: divide_inverse)
    then show ?thesis
      using neg by (simp only: floor_divide_of_nat_eq if_True)
  next
    case False
    have "(2 :: real) powi ?e = 2 ^ nat ?e"
      using False by (simp add: power_int_def)
    then have "0xffff * 2 ^ 208 / f64_real difficulty = real ?N / real (?m * 2 ^ nat ?e)"
      by (simp add: sign)
    then show ?thesis
      using False by (simp only: floor_divide_of_nat_eq if_False)
  qed
  moreover have "difficulty_target difficulty = Inr (min (max ?t 1) (2 ^ 256 - 1))"
    using True by (simp add: difficulty_target_def ensure_msg_def target_one Let_def)
  moreover have "int (min (max ?t 1) (2 ^ 256 - 1)) = min (max (int ?t) 1) (2 ^ 256 - 1)"
    by (simp add: of_nat_min of_nat_max of_nat_diff)
  ultimately show ?thesis
    using True by (metis Inr_inject f64_pos_real of_nat_eq_iff)
next
  case False
  then show ?thesis
    by (auto simp: difficulty_target_def ensure_msg_def f64_pos_real)
qed

section \<open>A concrete job\<close>

definition codec_coinbase :: "u8 list" where
  "codec_coinbase = [1, 0, 0, 0, 1, 0, 0, 0, 0, 0, 0, 0, 0, 0, 0, 0, 0, 0, 0, 0, 0, 0, 0, 0, 0, 0, 0, 0, 0, 0, 0, 0, 0, 0, 0, 0, 0, 255, 255, 255, 255, 3, 81, 0, 0, 255, 255, 255, 255, 1, 0, 0, 0, 0, 0, 0, 0, 0, 0, 0, 0, 0, 0]"

lemma codec_coinbase_walk: "walk_transaction codec_coinbase = Inr \<lparr>tl_body = (4, 59), tl_locktime = (59, 63), tl_len = 63\<rparr>"
  unfolding codec_coinbase_def
  by (simp add: walk_transaction_def walk_head_def walk_tail_def skip_input_def skip_output_def skip_counted_def cur_skip_def cur_count_def
  cur_take_def ensure_msg_def bail_def Let_def)

lemma codec_coinbase_strips: "strip_witness_transaction codec_coinbase = Inr codec_coinbase"
  unfolding strip_witness_transaction_def codec_coinbase_walk
  by (simp add: codec_coinbase_def byte_range_def ensure_msg_def)

lemma null_prevout: "replicate 32 (0 :: u8) = [0, 0, 0, 0, 0, 0, 0, 0, 0, 0, 0, 0, 0, 0, 0, 0, 0, 0, 0, 0, 0, 0, 0, 0, 0, 0, 0, 0, 0, 0, 0, 0]" "replicate 4 (255 :: u8) = [255, 255, 255, 255]"
  by (simp_all add: eval_nat_numeral)

lemma codec_coinbase_split:
  "split_coinbase_extranonce codec_coinbase [0, 0] = Inr (take 43 codec_coinbase, drop 45 codec_coinbase)"
  unfolding codec_coinbase_def
  by (simp add: split_coinbase_extranonce_def coinbase_start_def cur_count_def cur_take_def ensure_msg_def bail_def Let_def suffix_def null_prevout)

lemma easy_target: "and_then (parse_u32_hex ''2100ffff'') target_from_compact = Inr (0xffff * 2 ^ 240)"
  by (simp add: parse_u32_hex_def ensure_msg_def target_from_compact_def hex_number_def hex_nibble_def is_hexdigit_def Let_def)

lemma unit_difficulty: "difficulty_target 0x3ff0000000000000 = Inr (0xffff * 2 ^ 208)"
  by (simp add: difficulty_target_def target_one ensure_msg_def f64_is_finite_def f64_pos_def f64_is_zero_def f64_mantissa_def
   f64_exponent_def f64_raw_exponent_def Let_def)

definition codec_template :: block_template where
  "codec_template = \<lparr>tp_versionrollingmask = MaskAbsent, tp_transactions = None,
     tp_previousblockhash = Some (replicate 64 (CHR ''0'')), tp_bits = Some ''2100ffff'', tp_version = Some 0,
     tp_curtime = Some 0, tp_mintime = None\<rparr>"

definition codec_manifest :: payout_manifest where
  "codec_manifest = \<lparr>pm_schema = [], pm_block_height = 0, pm_coinbase_value_sats = 0, pm_total_weight = 0,
     pm_coinbase_weight_bytes = 0, pm_payout_count = 0, pm_coinbase_tx_hex = hex_encode sample_crates codec_coinbase,
     pm_coinbase_txid = hash_display sample_crates (double_sha256 sample_crates codec_coinbase), pm_coinbase_wtxid = [],
     pm_coinbase_script_sig_hex = [], pm_coinbase_script_sig_suffix_hex = [], pm_witness_nonce_hex = [],
     pm_witness_commitment_script_hex = [], pm_outputs = []\<rparr>"

lemma sample_parent: "hex_decode sample_crates (replicate 64 (CHR ''0'')) = Inr (replicate 32 0)"
  "hex_decode sample_crates ''00'' = Inr [0]" "to_ascii_lowercase (replicate 64 (CHR ''0'')) = replicate 64 (CHR ''0'')"
  by (simp add: sample_crates_def, code_simp, simp add: sample_crates_def, simp add: to_ascii_lowercase_def ascii_lower_def)

lemma codec_job_built: "\<exists>job. from_manifest sample_crates (\<lambda>_ _. 0) ''j'' codec_template codec_manifest ''00'' 1 0x3ff0000000000000 0 True = Inr job \<and>
    jb_extranonce2_size job = 1 \<and> jb_mintime job = 0 \<and> jb_network_target job = 0xffff * 2 ^ 240 \<and> jb_transactions job = [] \<and>
    jb_version job = 0 \<and> hex_decode sample_crates (jb_previousblockhash job) = Inr (replicate 32 0)"
proof -
  have coinbase: "hex_decode sample_crates (pm_coinbase_tx_hex codec_manifest) = Inr codec_coinbase"
    by (simp add: codec_manifest_def hex_decode_encode [OF sample_hex_spec])
  obtain nbits where nbits: "parse_u32_hex ''2100ffff'' = Inr nbits" "target_from_compact nbits = Inr (0xffff * 2 ^ 240)"
    using easy_target by (auto simp: and_then_Inr)
  have zero: "\<not> f64_pos 0" "f64_nonneg 0" "f64_is_finite 0"
    by (simp_all add: f64_pos_def f64_nonneg_def f64_is_zero_def f64_is_finite_def)
  have target: "share_target_for 0x3ff0000000000000 0 (0xffff * 2 ^ 240) = Inr (0xffff * 2 ^ 240)"
    by (simp add: share_target_for_def unit_difficulty zero)
  have txid: "eq_ignore_ascii_case (hash_display sample_crates (double_sha256 sample_crates codec_coinbase)) (pm_coinbase_txid codec_manifest)"
    by (simp add: codec_manifest_def)
  have template: "transactions_from_template sample_crates codec_template = Inr []" "merkle_branch_for_coinbase sample_crates [] = Inr []"
    "tp_previousblockhash codec_template = Some (replicate 64 (CHR ''0''))" "tp_bits codec_template = Some ''2100ffff''"
    "tp_version codec_template = Some 0" "tp_curtime codec_template = Some 0" "tp_mintime codec_template = None"
    "version_mask_from_template codec_template VERSION_ROLLING_MASK = Inr VERSION_ROLLING_MASK"
    by (simp_all add: codec_template_def transactions_from_template_def merkle_branch_for_coinbase_def merkle_branch_loop.simps
      version_mask_from_template_def)
  show ?thesis
    unfolding from_manifest_def
    using coinbase codec_coinbase_strips txid sample_parent codec_coinbase_split template nbits target zero
    by (simp add: hex_bytes_def ensure_msg_def context_opt_def Let_def u32_from_u64_def target_difficulty_def target_one)
qed

lemma sample_hex_joins: "hex_joins sample_crates"
proof -
  have "sample_hex_decode s = Inr a \<Longrightarrow> sample_hex_decode t = Inr b \<Longrightarrow> sample_hex_decode (s @ t) = Inr (a @ b)" for s t a b
    by (induction s arbitrary: a rule: sample_hex_decode.induct)
      (auto simp: and_then_Inr simp del: sample_nibble.simps split: option.splits)
  then show ?thesis
    by (simp add: hex_joins_def sample_crates_def)
qed

lemma sample_answer: "u32_hex ''00000000''" "(of_nat (hex_number ''00000000'') :: u32) = 0"
  by (simp_all add: u32_hex_def is_hexdigit_def hex_number_def hex_nibble_def Let_def)

lemma le_value_zeros: "le_value (replicate n 0) = 0"
  by (induction n) simp_all

lemma sample_block_found:
  assumes "assemble_submission sample_crates job extranonce2 ntime nonce version_bits version_mask = Inr s"
    and parent: "hex_decode sample_crates (jb_previousblockhash job) = Inr (replicate 32 0)"
    and target: "jb_network_target job = 0xffff * 2 ^ 240"
  shows "sb_block_pass s"
proof -
  obtain previous preimage header where previous: "hex_decode sample_crates (jb_previousblockhash job) = Inr previous"
    and header: "header = header_of sample_crates job (sb_applied_version s) previous preimage (sb_ntime s) (sb_nonce s)" "length header = 80"
    and pass: "sb_block_pass s = (le_value (double_sha256 sample_crates header) \<le> jb_network_target job)"
    by (rule assemble_run [OF assms(1)]) blast
  let ?v = "to_le_bytes (sb_applied_version s)"
  have "double_sha256 sample_crates header = take 32 header"
    using header(2) by (simp add: double_sha256_def sample_crates_def sample_digest_def)
  also have "\<dots> = ?v @ replicate 28 0"
    using parent previous by (simp add: header(1) header_of_def)
  finally have "le_value (double_sha256 sample_crates header) = unat (sb_applied_version s)"
    by (simp add: le_value_append le_value_zeros le_value_to_le_bytes)
  also have "\<dots> < 2 ^ 32"
    using unsigned_less [of "sb_applied_version s", where ?'a = nat] by simp
  finally show ?thesis
    by (simp add: pass target)
qed

theorem assemble_succeeds_iff_witness:
  "\<exists>job s. offered_job sample_crates (\<lambda>_ _. 0) job \<and>
     assemble_submission sample_crates job ''00'' ''00000000'' ''00000000'' None 0 = Inr s"
proof -
  obtain job where job: "offered_job sample_crates (\<lambda>_ _. 0) job" "jb_extranonce2_size job = 1" "jb_mintime job = 0"
    using codec_job_built offered_job.built by blast
  then show ?thesis
    using assemble_succeeds_iff [OF sample_hex_spec sample_hex_joins sample_sha256_spec job(1), of "''00''" "''00000000''" "''00000000''" None 0]
    by (auto simp: sample_answer sample_parent)
qed

theorem assembled_block_sound_witness:
  "\<exists>job s block. offered_job sample_crates (\<lambda>_ _. 0) job \<and>
     assemble_submission sample_crates job ''00'' ''00000000'' ''00000000'' None 0 = Inr s \<and> sb_block_pass s \<and>
     hex_decode sample_crates (sb_block_hex s) = Inr block \<and> witness_merkle_leaves_from_block sample_crates block = Inr []"
proof -
  obtain job where job: "offered_job sample_crates (\<lambda>_ _. 0) job" "jb_extranonce2_size job = 1" "jb_mintime job = 0"
    "hex_decode sample_crates (jb_previousblockhash job) = Inr (replicate 32 0)" "jb_network_target job = 0xffff * 2 ^ 240"
    "jb_transactions job = []"
    using codec_job_built offered_job.built by blast
  have "answer_ok sample_crates job ''00'' ''00000000'' ''00000000'' None 0"
    using job by (simp add: answer_ok_def sample_answer sample_parent)
  then obtain s where s: "assemble_submission sample_crates job ''00'' ''00000000'' ''00000000'' None 0 = Inr s"
    using assemble_ok [OF sample_hex_spec sample_hex_joins sample_sha256_spec offered_sound [OF job(1) sample_hex_spec]] by blast
  have "sb_block_pass s"
    by (rule sample_block_found [OF s job(4,5)])
  then show ?thesis
    using assembled_block_sound [OF sample_hex_spec sample_sha256_spec job(1) _ s] job s
    by (auto simp: witness_merkle_leaves_hex_def)
qed

end
