(* ===== verification/Cpfp.thy ===== *)
theory Cpfp
  imports Ctv_Properties
begin

text \<open>
  Fee bumping of a fanout, \<open>qbit-prism/src/broadcast.rs\<close>: the unsigned child that spends the
  fanout's keyless anchor and a funding output, the package, and the settlement status.
\<close>

section \<open>Definitions\<close>

definition CPFP_CHILD_TX_VERSION :: u32 where "CPFP_CHILD_TX_VERSION = CTV_FANOUT_TX_VERSION"
definition CPFP_CHILD_SEQUENCE :: u32 where "CPFP_CHILD_SEQUENCE = 0xfffffffd"

record cpfp_child_request =
  cr_fanout_txid :: string
  cr_anchor_vout :: u32
  cr_funding_txid :: string
  cr_funding_vout :: u32
  cr_funding_value_sats :: u64
  cr_fee_sats :: u64
  cr_change_script_pubkey_hex :: string

record cpfp_child =
  cc_unsigned_child_tx_hex :: string
  cc_change_value_sats :: u64
  cc_fee_sats :: u64

datatype fanout_settlement_state = Reorged | AwaitingMaturity | Broadcastable | Confirmed

definition cpfp_decode_txid :: "'x crates_scheme \<Rightarrow> string \<Rightarrow> string \<Rightarrow> prism_error + u8 list" where
  "cpfp_decode_txid X v field_name =
     and_then (map_err (\<lambda>err. InvalidCtvFanoutManifest (field_name @ '' must be hex: '' @ err)) (hex_decode X v)) (\<lambda>bytes.
     if length bytes \<noteq> 32
     then Inl (InvalidCtvFanoutManifest (field_name @ '' must be 32 bytes, got '' @ show_nat (length bytes)))
     else Inr bytes)"

definition cpfp_compact_size :: "u64 \<Rightarrow> u8 list" where
  "cpfp_compact_size n =
     (if n < 253 then [ucast n]
      else if n \<le> 0xffff then 0xfd # to_le_bytes (ucast n :: u16)
      else if n \<le> 0xffffffff then 0xfe # to_le_bytes (ucast n :: u32)
      else 0xff # to_le_bytes n)"

definition cpfp_serialize_input :: "u8 list \<Rightarrow> u32 \<Rightarrow> u8 list" where
  "cpfp_serialize_input display_txid vout =
     rev display_txid @ to_le_bytes vout @ [0] @ to_le_bytes CPFP_CHILD_SEQUENCE"

definition cpfp_serialize_output :: "u64 \<Rightarrow> u8 list \<Rightarrow> u8 list" where
  "cpfp_serialize_output value_sats script_pubkey =
     to_le_bytes value_sats @ cpfp_compact_size (of_nat (length script_pubkey)) @ script_pubkey"

definition build_cpfp_child :: "'x crates_scheme \<Rightarrow> cpfp_child_request \<Rightarrow> prism_error + cpfp_child" where
  "build_cpfp_child X request =
     and_then (cpfp_decode_txid X (cr_fanout_txid request) ''fanout_txid'') (\<lambda>fanout_txid.
     and_then (cpfp_decode_txid X (cr_funding_txid request) ''funding_txid'') (\<lambda>funding_txid.
     if fanout_txid = funding_txid \<and> cr_anchor_vout request = cr_funding_vout request
     then Inl (InvalidCtvFanoutManifest ''funding input must differ from the anchor outpoint'')
     else
       and_then (map_err (\<lambda>err. InvalidCtvFanoutManifest (''change_script_pubkey_hex must be hex: '' @ err))
           (hex_decode X (cr_change_script_pubkey_hex request))) (\<lambda>change_script_pubkey.
       if change_script_pubkey = [] then Inl (InvalidCtvFanoutManifest ''change scriptPubKey must not be empty'')
       else if cr_fee_sats request = 0 then Inl (InvalidCtvFanoutManifest ''CPFP fee must be positive'')
       else if cr_funding_value_sats request \<le> cr_fee_sats request
       then Inl (InvalidCtvFanoutManifest ''funding value must exceed the fee so the change output is positive'')
       else
         let change_value_sats = cr_funding_value_sats request - cr_fee_sats request;
             tx = to_le_bytes CPFP_CHILD_TX_VERSION @ cpfp_compact_size 2 @
               cpfp_serialize_input fanout_txid (cr_anchor_vout request) @
               cpfp_serialize_input funding_txid (cr_funding_vout request) @
               cpfp_compact_size 1 @ cpfp_serialize_output change_value_sats change_script_pubkey @
               to_le_bytes (0 :: u32) in
         Inr \<lparr>cc_unsigned_child_tx_hex = hex_encode X tx, cc_change_value_sats = change_value_sats,
              cc_fee_sats = cr_fee_sats request\<rparr>)))"

definition fanout_cpfp_package :: "string \<Rightarrow> string \<Rightarrow> string list" where
  "fanout_cpfp_package parent_fanout_tx_hex signed_child_tx_hex = [parent_fanout_tx_hex, signed_child_tx_hex]"

definition fanout_settlement_status :: "u64 \<Rightarrow> u64 \<Rightarrow> bool \<Rightarrow> bool \<Rightarrow> fanout_settlement_state" where
  "fanout_settlement_status coinbase_height active_tip_height coinbase_in_active_chain fanout_confirmed =
     (if fanout_confirmed then Confirmed
      else if \<not> coinbase_in_active_chain then Reorged
      else if active_tip_height < Rust_Std.saturating_add coinbase_height QBIT_COINBASE_MATURITY_BLOCKS then AwaitingMaturity
      else Broadcastable)"

section \<open>The child\<close>

text \<open>The child is what the transaction writer of \<open>ctv.rs\<close> would write for these inputs and this output.\<close>

definition child_inputs :: "cpfp_child_request \<Rightarrow> tx_input_spec list" where
  "child_inputs r =
     [\<lparr>ti_prev_txid_hex = cr_fanout_txid r, ti_prev_vout = cr_anchor_vout r, ti_script_sig = [],
       ti_sequence = CPFP_CHILD_SEQUENCE, ti_witness_stack = []\<rparr>,
      \<lparr>ti_prev_txid_hex = cr_funding_txid r, ti_prev_vout = cr_funding_vout r, ti_script_sig = [],
       ti_sequence = CPFP_CHILD_SEQUENCE, ti_witness_stack = []\<rparr>]"

lemma cpfp_compact_size_eq: "cpfp_compact_size n = ctv_compact_size n"
  by (simp add: cpfp_compact_size_def ctv_compact_size_def)

lemma build_cpfp_child_Inr:
  assumes "build_cpfp_child X r = Inr child"
  obtains script where "hex_decode X (cr_change_script_pubkey_hex r) = Inr script" and "script \<noteq> []"
    and "cr_fee_sats r \<noteq> 0" and "cr_fee_sats r < cr_funding_value_sats r"
    and "cc_change_value_sats child = cr_funding_value_sats r - cr_fee_sats r" and "cc_fee_sats child = cr_fee_sats r"
    and "serialize_tx_hex X CPFP_CHILD_TX_VERSION (child_inputs r)
      [\<lparr>tos_amount_sats = cc_change_value_sats child, tos_script_pubkey = script\<rparr>] 0 False =
      Inr (cc_unsigned_child_tx_hex child)"
proof -
  obtain fanout funding script where
    run: "hex_decode X (cr_fanout_txid r) = Inr fanout" "length fanout = 32"
      "hex_decode X (cr_funding_txid r) = Inr funding" "length funding = 32"
      "hex_decode X (cr_change_script_pubkey_hex r) = Inr script" "script \<noteq> []"
      "cr_fee_sats r \<noteq> 0" "cr_fee_sats r < cr_funding_value_sats r"
    and child: "cc_change_value_sats child = cr_funding_value_sats r - cr_fee_sats r" "cc_fee_sats child = cr_fee_sats r"
      "cc_unsigned_child_tx_hex child = hex_encode X (to_le_bytes CPFP_CHILD_TX_VERSION @ cpfp_compact_size 2 @
        cpfp_serialize_input fanout (cr_anchor_vout r) @ cpfp_serialize_input funding (cr_funding_vout r) @
        cpfp_compact_size 1 @ cpfp_serialize_output (cr_funding_value_sats r - cr_fee_sats r) script @ to_le_bytes (0 :: u32))"
    using assms by (auto simp: build_cpfp_child_def cpfp_decode_txid_def and_then_Inr map_err_Inr Let_def not_le split: if_splits)
  have "ctv_compact_size 0 = [0]"
    by (simp add: ctv_compact_size_def)
  then have "serialize_tx_hex X CPFP_CHILD_TX_VERSION (child_inputs r)
      [\<lparr>tos_amount_sats = cc_change_value_sats child, tos_script_pubkey = script\<rparr>] 0 False =
      Inr (cc_unsigned_child_tx_hex child)"
    using run(1-4) by (simp add: child serialize_tx_hex_def child_inputs_def serialize_input_spec_def serialize_output_spec_def
        cpfp_serialize_input_def cpfp_serialize_output_def cpfp_compact_size_eq)
  then show ?thesis
    by (rule that [OF run(5-8) child(1,2)])
qed

text \<open>
  Exactly which requests give a child: ids of 32 bytes that name different outputs, a change
  script, and a positive fee below the funding value.
\<close>

theorem cpfp_child_built_iff:
  "(\<exists>child. build_cpfp_child X r = Inr child) \<longleftrightarrow>
     (\<exists>fanout funding script. hex_decode X (cr_fanout_txid r) = Inr fanout \<and> length fanout = 32 \<and>
        hex_decode X (cr_funding_txid r) = Inr funding \<and> length funding = 32 \<and>
        (fanout \<noteq> funding \<or> cr_anchor_vout r \<noteq> cr_funding_vout r) \<and>
        hex_decode X (cr_change_script_pubkey_hex r) = Inr script \<and> script \<noteq> []) \<and>
     0 < cr_fee_sats r \<and> cr_fee_sats r < cr_funding_value_sats r"
  by (cases "hex_decode X (cr_fanout_txid r)"; cases "hex_decode X (cr_funding_txid r)";
      cases "hex_decode X (cr_change_script_pubkey_hex r)")
    (auto simp: build_cpfp_child_def cpfp_decode_txid_def Let_def not_le word_gt_0)

theorem cpfp_child_built_iff_witness:
  "\<exists>child. build_cpfp_child sample_ctv
     \<lparr>cr_fanout_txid = sample_hex_encode (replicate 32 0xab), cr_anchor_vout = 2,
      cr_funding_txid = sample_hex_encode (replicate 32 0xcd), cr_funding_vout = 1, cr_funding_value_sats = 50000,
      cr_fee_sats = 12000, cr_change_script_pubkey_hex = sample_hex_encode [0x51]\<rparr> = Inr child"
  unfolding cpfp_child_built_iff
  by (simp add: sample_ctv_def sample_decode_encode)

lemma child_parses:
  assumes hex: "hex_spec X" and child: "build_cpfp_child X r = Inr child"
    and money: "cr_funding_value_sats r \<le> QBIT_MAX_MONEY_SATS" and len: "length (cc_unsigned_child_tx_hex child) < 2 ^ 64"
    and short: "length (cr_change_script_pubkey_hex r) < 2 ^ 64"
  shows "\<exists>tx script. parse_transaction_hex X (cc_unsigned_child_tx_hex child) field = Inr tx \<and>
    pt_version tx = CTV_FANOUT_TX_VERSION \<and> pt_lock_time tx = 0 \<and> pt_witness_stacks tx = None \<and>
    map pi_prev_txid_hex (pt_inputs tx) = [to_ascii_lowercase (cr_fanout_txid r), to_ascii_lowercase (cr_funding_txid r)] \<and>
    map pi_prev_vout (pt_inputs tx) = [cr_anchor_vout r, cr_funding_vout r] \<and>
    map pi_script_sig (pt_inputs tx) = [[], []] \<and> map pi_sequence (pt_inputs tx) = [CPFP_CHILD_SEQUENCE, CPFP_CHILD_SEQUENCE] \<and>
    hex_decode X (cr_change_script_pubkey_hex r) = Inr script \<and>
    pt_outputs tx = [\<lparr>pto_amount_sats = cc_change_value_sats child, pto_script_pubkey = script\<rparr>] \<and>
    unat (cc_change_value_sats child) + unat (cc_fee_sats child) = unat (cr_funding_value_sats r) \<and>
    0 < cc_change_value_sats child \<and> 0 < cc_fee_sats child"
proof -
  obtain script where script: "hex_decode X (cr_change_script_pubkey_hex r) = Inr script" "script \<noteq> []"
    and fee: "cr_fee_sats r \<noteq> 0" "cr_fee_sats r < cr_funding_value_sats r"
    and fields: "cc_change_value_sats child = cr_funding_value_sats r - cr_fee_sats r" "cc_fee_sats child = cr_fee_sats r"
    and ser: "serialize_tx_hex X CPFP_CHILD_TX_VERSION (child_inputs r)
      [\<lparr>tos_amount_sats = cc_change_value_sats child, tos_script_pubkey = script\<rparr>] 0 False =
      Inr (cc_unsigned_child_tx_hex child)"
    by (rule build_cpfp_child_Inr [OF child])
  have sum: "unat (cc_change_value_sats child) + unat (cc_fee_sats child) = unat (cr_funding_value_sats r)"
    using fee(2) by (simp add: fields unat_sub order_less_imp_le word_less_nat_alt)
  then have "cc_change_value_sats child \<le> QBIT_MAX_MONEY_SATS"
    using money by (simp add: word_le_nat_alt)
  moreover have "length script < 2 ^ 64"
  proof -
    have "length (cr_change_script_pubkey_hex r) = 2 * length script"
      using hex_encode_decode [OF hex script(1)] length_hex_encode [OF hex, of script] by (metis length_to_ascii_lowercase)
    then show ?thesis
      using short by simp
  qed
  ultimately have "tx_specs_ok (child_inputs r) [\<lparr>tos_amount_sats = cc_change_value_sats child, tos_script_pubkey = script\<rparr>]"
    by (simp add: tx_specs_ok_def child_inputs_def)
  from parse_serialized [OF hex ser this len, of field] obtain bytes where
    parsed: "parse_transaction_hex X (cc_unsigned_child_tx_hex child) field = Inr (spec_transaction X CPFP_CHILD_TX_VERSION
      (child_inputs r) [\<lparr>tos_amount_sats = cc_change_value_sats child, tos_script_pubkey = script\<rparr>] 0 False bytes)"
    by blast
  have "0 < cc_change_value_sats child"
    using sum fee(2) by (simp add: fields(2) word_less_nat_alt)
  then show ?thesis
    using parsed script(1) sum fee(1)
    by (intro exI [of _ "spec_transaction X CPFP_CHILD_TX_VERSION (child_inputs r)
          [\<lparr>tos_amount_sats = cc_change_value_sats child, tos_script_pubkey = script\<rparr>] 0 False bytes"] exI [of _ script])
      (simp add: spec_transaction_def read_input_spec_def read_output_spec_def child_inputs_def CPFP_CHILD_TX_VERSION_def fields(2) word_gt_0)
qed

lemma anchored:
  assumes "verify_ctv_fanout_manifest_structure X m = Inr u" and "pc_anchor_vout (cm_precommitment m) = Some v"
  shows "pc_fanout_fee_sats (cm_precommitment m) = 0 \<and> unat v = length (pc_outputs (cm_precommitment m))"
proof -
  from assms(1) have "verify_manifest_fields X m = Inr ()"
    by (auto simp: verify_ctv_fanout_manifest_structure_def and_then_Inr)
  from verify_precommitmentD(9) [OF verify_manifest_fieldsD(1) [OF this]]
  have "verify_anchor_choice (cm_precommitment m) = Inr ()" .
  then show ?thesis
    using assms(2) by (simp add: verify_anchor_choice_def require_Inr split: if_splits)
qed

text \<open>
  The child of a verified zero-fee fanout spends the fanout's anchor and nothing else of it: its
  first input is the last output of that very fanout, worth nothing and anyone can spend it;
  its second is the funding output. The only output is the change, and change plus fee are the
  funding value: no payout of the fanout is touched, and nothing is lost.
\<close>

theorem cpfp_child_spends_anchor:
  assumes hex: "hex_spec X" and m: "verify_ctv_fanout_manifest_structure X m = Inr ()"
    and anchor: "pc_anchor_vout (cm_precommitment m) = Some v"
    and r: "cr_fanout_txid r = cm_fanout_txid m" "cr_anchor_vout r = v" and child: "build_cpfp_child X r = Inr child"
    and money: "cr_funding_value_sats r \<le> QBIT_MAX_MONEY_SATS"
    and "length (cc_unsigned_child_tx_hex child) < 2 ^ 64" and "length (cr_change_script_pubkey_hex r) < 2 ^ 64"
  shows "\<exists>fanout tx a b change script.
    parse_transaction_hex X (cm_fanout_tx_hex m) ''manifest fanout_tx_hex'' = Inr fanout \<and>
    parse_transaction_hex X (cc_unsigned_child_tx_hex child) field = Inr tx \<and>
    pt_version tx = CTV_FANOUT_TX_VERSION \<and> pt_inputs tx = [a, b] \<and> pt_outputs tx = [change] \<and>
    pi_prev_txid_hex a = txid_hex X fanout \<and> Suc (unat (pi_prev_vout a)) = length (pt_outputs fanout) \<and>
    hex_decode X P2A_ANCHOR_SCRIPT_PUBKEY_HEX = Inr script \<and>
    last (pt_outputs fanout) = \<lparr>pto_amount_sats = 0, pto_script_pubkey = script\<rparr> \<and>
    pi_prev_txid_hex b = to_ascii_lowercase (cr_funding_txid r) \<and> pi_prev_vout b = cr_funding_vout r \<and>
    unat (pto_amount_sats change) + unat (cc_fee_sats child) = unat (cr_funding_value_sats r)"
proof -
  from manifest_sound [OF hex m] obtain fanout where
    fanout: "parse_transaction_hex X (cm_fanout_tx_hex m) ''manifest fanout_tx_hex'' = Inr fanout"
    and pays: "pays_outputs X (cm_precommitment m) fanout" and txid: "txid_hex X fanout = cm_fanout_txid m"
    by blast
  have pc: "pc_fanout_fee_sats (cm_precommitment m) = 0" "unat v = length (pc_outputs (cm_precommitment m))"
    using anchored [OF m anchor] by simp_all
  from pays pc obtain outs script where outs: "pt_outputs fanout = outs @ [\<lparr>pto_amount_sats = 0, pto_script_pubkey = script\<rparr>]"
    "length outs = unat v" "hex_decode X P2A_ANCHOR_SCRIPT_PUBKEY_HEX = Inr script"
    by (auto simp: pays_outputs_def)
  have "to_ascii_lowercase (txid_hex X fanout) = txid_hex X fanout"
    unfolding txid_hex_def using hex by (metis hex_spec_def)
  then have lower: "to_ascii_lowercase (cr_fanout_txid r) = txid_hex X fanout"
    by (simp add: r(1) txid)
  from child_parses [OF hex child money assms(8,9), of field] obtain tx where
    tx: "parse_transaction_hex X (cc_unsigned_child_tx_hex child) field = Inr tx" "pt_version tx = CTV_FANOUT_TX_VERSION"
      "map pi_prev_txid_hex (pt_inputs tx) = [to_ascii_lowercase (cr_fanout_txid r), to_ascii_lowercase (cr_funding_txid r)]"
      "map pi_prev_vout (pt_inputs tx) = [cr_anchor_vout r, cr_funding_vout r]"
      "unat (cc_change_value_sats child) + unat (cc_fee_sats child) = unat (cr_funding_value_sats r)"
    and outputs: "\<exists>change. pt_outputs tx = [change] \<and> pto_amount_sats change = cc_change_value_sats child"
    by auto
  obtain a b where ab: "pt_inputs tx = [a, b]"
    using tx(3) by (auto simp: map_eq_Cons_conv)
  show ?thesis
    using fanout tx outputs ab outs lower by (auto simp: r(2))
qed

text \<open>
  A package is the fanout and then its child. The status is decided by the facts of the chain
  alone: a confirmed fanout is final, and otherwise the package can go out exactly when the
  coinbase is on the active chain and a thousand blocks deep.
\<close>

theorem broadcastable_iff:
  "fanout_settlement_status h tip active confirmed = Broadcastable \<longleftrightarrow>
     \<not> confirmed \<and> active \<and> min (unat h + 1000) (2 ^ 64 - 1) \<le> unat tip"
  "fanout_settlement_status h tip active confirmed = Confirmed \<longleftrightarrow> confirmed"
  "fanout_settlement_status h tip active confirmed = Reorged \<longleftrightarrow> \<not> confirmed \<and> \<not> active"
proof -
  have "unat (Rust_Std.saturating_add h QBIT_COINBASE_MATURITY_BLOCKS) = min (unat h + 1000) (2 ^ 64 - 1)"
    by (simp add: unat_saturating_add QBIT_COINBASE_MATURITY_BLOCKS_def)
  then show "fanout_settlement_status h tip active confirmed = Broadcastable \<longleftrightarrow>
      \<not> confirmed \<and> active \<and> min (unat h + 1000) (2 ^ 64 - 1) \<le> unat tip"
    by (simp only: fanout_settlement_status_def word_less_nat_alt) (auto simp: not_less)
  show "fanout_settlement_status h tip active confirmed = Confirmed \<longleftrightarrow> confirmed"
    "fanout_settlement_status h tip active confirmed = Reorged \<longleftrightarrow> \<not> confirmed \<and> \<not> active"
    by (simp_all add: fanout_settlement_status_def)
qed

end
