(* ===== verification/Spec2Isabelle.thy ===== *)
theory Spec2Isabelle
  imports Allocation Coinbase Window_Cut Reward_Window Policy_Coinbase Maturity Fanout_Fee Ctv_Properties Audit_Properties
    Retained_Properties Window_Properties Codec_Properties Cpfp
begin

text \<open>
  A verification development for the PRISM payout core of the qbit mining bootstrap, the Rust
  workspace under
  \<open>src/qbitleap-solo-miner/upstream/qbit-mining-bootstrap/crates\<close>: the crates
  \<open>qbit-pool-builder\<close> and \<open>qbit-prism\<close>, and of \<open>qbit-prism-server\<close> the mining codec and the job
  retention of a session.

  The program. Miners' accepted shares are kept in a log. The coordinator keeps an incremental
  payout window over it. When a block is found, the reward window of \<open>qbit-prism\<close> counts the
  newest eligible shares up to eight times the network difficulty and turns them into weighted
  entitlements. The payout policy splits the block's value in proportion, adds what each miner
  was owed before, keeps amounts under a floor as carried balances, and settles the pool's fee.
  Settlement decides who is paid by the coinbase itself and who by a fanout transaction the
  coinbase commits to through a covenant. The on-chain part becomes a coinbase transaction with
  a signed manifest, built by \<open>qbit-pool-builder\<close>. All of it is published as an audit bundle
  that anybody can verify. The coinbase is split around an extranonce into jobs for the miners, and
  an answer to a job is assembled into a share or a block. After the block, maturity entries follow its payouts through the
  chain, and their replay gives the balances the next block starts from.

  The foundations.

  \<^item> \<open>Rust_Std\<close>, \<open>Rust_Data\<close>: what the code uses of Rust: fixed-width integers as words with
    checked operations, \<open>Result\<close> as a sum with the \<open>?\<close> operator, stable sorting by a comparator
    (locale \<open>key_order\<close>), \<open>BTreeMap\<close> as a sorted list of pairs (locale \<open>ordered_map\<close>),
    little-endian bytes, ASCII case, decimal numbers.
  \<^item> \<open>Apportion\<close>: the largest-remainder method, stated once (\<open>hamilton\<close>) with its laws:
    conservation, the quota rule, monotonicity, exactness. The locales \<open>remainder_split\<close> and
    \<open>apportioner\<close> are the contracts of the routines that compute it.
  \<^item> \<open>Crates\<close>: the third-party crates \<open>hex\<close>, \<open>sha2\<close>, \<open>ed25519_dalek\<close> as a record of functions with
    their documented laws as predicates, and an instance for the witnesses.

  \<open>qbit-pool-builder/src/lib.rs\<close>.

  \<^item> \<open>Pool_Builder\<close>: data, errors and byte helpers. \<open>Allocation\<close>: \<open>allocate_outputs\<close> is the
    largest-remainder split in canonical order, and exactly when it succeeds. \<open>Coinbase\<close>:
    \<open>build_coinbase\<close> and the signed manifest; both serializations are read back by a
    transaction reader stated independently of the writer.

  \<open>qbit-prism/src/lib.rs\<close>, \<open>window_cut.rs\<close>, \<open>window.rs\<close>, \<open>parallel.rs\<close>.

  \<^item> \<open>Prism_Data\<close>: the data. \<open>Window_Cut\<close>: cuts of the dual-writer log and their decoder.
  \<^item> \<open>Reward_Window\<close>: the reward window, serial and chunked, and the reward manifest.
  \<^item> \<open>Payout_Window\<close>, \<open>Window_Advance\<close>, \<open>Window_Properties\<close>: the incremental payout window.
    However it is advanced it equals the full fold of the log (\<open>window_run\<close>), it serves every
    reward window it was sized for, and its byte surgery is exact.
  \<^item> \<open>Payout_Policy\<close>, \<open>Policy_Properties\<close>, \<open>Policy_Coinbase\<close>: the settlement of \<open>apply_payout_policy\<close>
    conserves the value, so its last check never fails, and the ledger, and the coinbase built from its manifest pays exactly what it settled.
  \<^item> \<open>Maturity\<close>: maturity entries, reversal of disconnected blocks, replay, and the ledger they
    form as a step relation.

  \<open>qbit-prism/src/settlement.rs\<close> and \<open>ctv.rs\<close>.

  \<^item> \<open>Settlement\<close>, \<open>Settlement_Properties\<close>, \<open>Fanout_Fee\<close>: the partition of the recipients, its
    budget and priority, and the proportional fanout fee with its pruning loop.
  \<^item> \<open>Ctv_Tx\<close>, \<open>Ctv_Wire\<close>: the transaction writer and reader, inverse to each other. \<open>Ctv\<close>:
    fanout precommitments, manifests and manifest sets. \<open>Ctv_Soundness\<close>, \<open>Ctv_Finalize\<close>,
    \<open>Ctv_Lifecycle\<close>, \<open>Ctv_Canonical\<close>, \<open>Ctv_Properties\<close>: what a verified manifest pins down, that
    every built manifest verifies, and which transactions the reader accepts.
  \<^item> \<open>Cpfp\<close> (\<open>broadcast.rs\<close>): the fee-bumping child of a fanout spends the anchor of that very
    fanout and returns the funding less the fee; the settlement status.

  The audit bundle: \<open>qbit-prism/src/lib.rs\<close>, \<open>audit_hash.rs\<close>, the framing of \<open>parallel.rs\<close>.

  \<^item> \<open>Audit_Data\<close>, \<open>Canonical_Writer\<close>: the bundle, commitments, attestation, canonical bytes, and
    the hash computed in two halves by any number of workers.
  \<^item> \<open>Audit_Bundle\<close>: builders and verifiers. \<open>Audit_Direct\<close>, \<open>Audit_Fanouts\<close>, \<open>Audit_Settlement\<close>,
    \<open>Audit_Complete\<close>: the builder's bundles pass the verifier, exactly when every on-chain program
    is written in lower case. \<open>Audit_Soundness\<close>: what a verified bundle guarantees.
    \<open>Audit_Sample\<close>: a complete bundle for the witnesses. \<open>Audit_Properties\<close>: the properties.

  \<open>qbit-prism-server/src/codec.rs\<close> and \<open>stratum\<close>.

  \<^item> \<open>Job_Codec\<close>, \<open>Codec_Walk\<close>, \<open>Codec_Blocks\<close>, \<open>Codec_Properties\<close>: the transaction walker, jobs and
    submissions, compact targets and difficulties. A block found on a job commits to its own
    transactions and reads back; a well-formed answer always assembles; the target of a
    difficulty is exact.

  \<^item> \<open>Retained_Jobs\<close>, \<open>Graveyard\<close>, \<open>Retained_Properties\<close>: the work a Stratum session keeps. The
    hash map with its deque refines a list of jobs in burial order; the session is a step
    relation whose reachable states are bounded; superseded work earns nothing and is kept for
    blocks.

  Bounds and fuel. Integers keep their width: amounts are \<open>u64\<close>, weights and difficulties
  \<open>u128\<close>, timestamps \<open>i64\<close>; \<open>usize\<close> is a natural number, and where the code converts or checks it
  the bound is written out, \<open>2 ^ 64\<close>. Theorems about serialized lengths assume lists shorter
  than \<open>2 ^ 63\<close>, which a machine's memory guarantees, and amounts within the money limit the
  code checks itself. No definition uses fuel: loops are structural recursions, functions with
  a measure, or, for \<open>make_job_room\<close>, which runs forever when the configured maximum is zero, a
  partial function whose termination is characterised.

  Not modelled. Derived \<open>serde\<close> readers and \<open>serde_json\<close>: the canonical writers are parameters
  with the laws the code relies on. The thread pool and the buffers of \<open>parallel.rs\<close>, whose
  results are consumed in index order. \<open>audit_body_ref.rs\<close>, which reads share segments from
  files and splices untyped JSON. \<open>Job::notify\<close>, the JSON of a job on the wire. The messages of
  \<open>Display\<close> implementations. Timing and metrics. The rest of \<open>qbit-prism-server\<close> (sockets,
  database, coordinator tasks), the load and simulation tools, and everything outside the
  crates: the database schema, the Python tools, the user interface, vendored packages. They are
  I/O around the logic above.
\<close>

end
